(* ===== verification/Prelude.thy ===== *)
theory Prelude
  imports Main "HOL-Library.Word"
begin

text \<open>
  Shared vocabulary of the development: bytes and JavaScript strings, results of
  fallible code, big- and little-endian byte readers, and the two interfaces every
  component relies on.

  \<^item> \<open>byte\<close>, \<open>bytes\<close>: an element and the content of a \<open>Uint8Array\<close>.
  \<^item> \<open>jsstring\<close>: a JavaScript string, the list of its UTF-16 code units; \<open>js\<close> turns an
    ASCII literal into one.
  \<^item> \<open>'e + 'a\<close>: the result of code that may throw; \<open>Inl\<close> is the exception. \<open>rbind\<close>
    sequences two such computations.
  \<^item> locale \<open>fixed_reader\<close>: what a client may assume of a reader that consumes a fixed
    number of bytes at a cursor (progress, bounds, locality, completeness).
  \<^item> locale \<open>guarded_system\<close>: a step relation with an invariant that every step keeps;
    its reachable states satisfy the invariant.
\<close>

unbundle bit_operations_syntax

named_theorems result_simps \<open>rewrite rules for fallible computations\<close>
named_theorems wire_simps \<open>byte-level reading and writing\<close>

section \<open>Types\<close>

type_synonym byte = "8 word"
type_synonym bytes = "8 word list"
type_synonym jsstring = "nat list"

definition js :: "string \<Rightarrow> jsstring" where
  "js s = map of_char s"

text \<open>\<^verbatim>\<open>s.startsWith(p)\<close>\<close>

definition starts_with :: "jsstring \<Rightarrow> jsstring \<Rightarrow> bool" where
  "starts_with p s \<longleftrightarrow> take (length p) s = p"

lemma js_simps:
  "js [] = []"
  "js (c # s) = of_char c # js s"
  by (simp_all add: js_def)

lemma length_js [simp]: "length (js s) = length s"
  by (simp add: js_def)

lemma in_set_js [simp]: "x \<in> set (js s) \<longleftrightarrow> x \<in> of_char ` set s"
  by (simp add: js_def)

lemma js_append [simp]: "js (s @ t) = js s @ js t"
  by (simp add: js_def)

lemma js_inject [simp]: "js s = js t \<longleftrightarrow> s = t"
  by (simp add: js_def inj_map_eq_map inj_def)

section \<open>Results of fallible code\<close>

definition rbind :: "'e + 'a \<Rightarrow> ('a \<Rightarrow> 'e + 'b) \<Rightarrow> 'e + 'b" where
  "rbind m f = (case m of Inl e \<Rightarrow> Inl e | Inr x \<Rightarrow> f x)"

lemma rbind_simps [simp, result_simps]:
  "rbind (Inl e) f = Inl e"
  "rbind (Inr x) f = f x"
  by (simp_all add: rbind_def)

lemma rbind_eq_Inr: "rbind m f = Inr y \<longleftrightarrow> (\<exists>x. m = Inr x \<and> f x = Inr y)"
  by (cases m) simp_all

lemma rbind_eq_Inl: "rbind m f = Inl e \<longleftrightarrow> m = Inl e \<or> (\<exists>x. m = Inr x \<and> f x = Inl e)"
  by (cases m) simp_all

lemma rbind_InrE:
  assumes "rbind m f = Inr y"
  obtains x where "m = Inr x" "f x = Inr y"
  using assms by (auto simp: rbind_eq_Inr)

lemma rbind_cong [fundef_cong]:
  assumes "m = m'" and "\<And>x. m' = Inr x \<Longrightarrow> f x = f' x"
  shows "rbind m f = rbind m' f'"
  using assms by (cases m') simp_all

text \<open>\<open>ensure c e\<close> is \<^verbatim>\<open>if (!c) throw e\<close>.\<close>

definition ensure :: "bool \<Rightarrow> 'e \<Rightarrow> 'e + unit" where
  "ensure c e = (if c then Inr () else Inl e)"

lemma ensure_simps [simp, result_simps]:
  "ensure True e = Inr ()"
  "ensure False e = Inl e"
  "ensure c e = Inr u \<longleftrightarrow> c"
  by (simp_all add: ensure_def)

section \<open>Windows of a buffer\<close>

definition window :: "'a list \<Rightarrow> nat \<Rightarrow> nat \<Rightarrow> 'a list" where
  "window xs i n = take n (drop i xs)"

lemma length_window [simp]: "i + n \<le> length xs \<Longrightarrow> length (window xs i n) = n"
  by (simp add: window_def)

lemma window_0 [simp]: "window xs i 0 = []"
  by (simp add: window_def)

lemma window_append: "i + m + n \<le> length xs \<Longrightarrow> window xs i (m + n) = window xs i m @ window xs (i + m) n"
  by (simp add: window_def take_add add.commute)

lemma window_nth: "k < n \<Longrightarrow> i + n \<le> length xs \<Longrightarrow> window xs i n ! k = xs ! (i + k)"
  by (simp add: window_def)

lemma window_1: "i < length xs \<Longrightarrow> window xs i (Suc 0) = [xs ! i]"
  by (simp add: window_def take_Suc_conv_app_nth)

lemma window_2: "i + 2 \<le> length xs \<Longrightarrow> window xs i 2 = [xs ! i, xs ! (i + 1)]"
  by (simp add: window_def numeral_2_eq_2 take_Suc_conv_app_nth)

lemma window_4:
  "i + 4 \<le> length xs \<Longrightarrow> window xs i 4 = [xs ! i, xs ! (i + 1), xs ! (i + 2), xs ! (i + 3)]"
  by (simp add: window_def eval_nat_numeral take_Suc_conv_app_nth)

lemma window_embed: "window (p @ xs @ s) (length p) (length xs) = xs"
  by (simp add: window_def)

lemma window_embed_eq:
  "i = length p \<Longrightarrow> n = length xs \<Longrightarrow> window (p @ xs @ s) i n = xs"
  by (simp add: window_embed)

lemma window_split:
  "i + n \<le> length xs \<Longrightarrow> xs = take i xs @ window xs i n @ drop (i + n) xs"
  by (metis add.commute append_take_drop_id drop_drop window_def)

text \<open>\<open>placed buf pos e q\<close>: the bytes \<open>e\<close> stand in the buffer from \<open>pos\<close> up to \<open>q\<close>.\<close>

definition placed :: "'a list \<Rightarrow> nat \<Rightarrow> 'a list \<Rightarrow> nat \<Rightarrow> bool" where
  "placed buf pos e q \<longleftrightarrow> q = pos + length e \<and> q \<le> length buf \<and> window buf pos (length e) = e"

lemma placed_Nil [simp]: "placed buf pos [] q \<longleftrightarrow> q = pos \<and> pos \<le> length buf"
  by (auto simp: placed_def)

lemma placed_append:
  "placed buf pos (e @ e') q \<longleftrightarrow> (\<exists>r. placed buf pos e r \<and> placed buf r e' q)"
proof -
  have "window buf pos (length e + length e') =
      window buf pos (length e) @ window buf (pos + length e) (length e')"
    if "pos + length e + length e' \<le> length buf"
    using that by (rule window_append)
  then show ?thesis
    by (auto simp: placed_def)
qed

lemma placed_embed: "placed (p @ e @ s) (length p) e (length p + length e)"
  by (simp add: placed_def window_embed)

lemma placed_all: "placed buf 0 e (length buf) \<longleftrightarrow> buf = e"
  by (auto simp: placed_def window_def)

lemma placed_window: "pos + n \<le> length buf \<Longrightarrow> placed buf pos (window buf pos n) (pos + n)"
  by (simp add: placed_def)

section \<open>Multi-byte integers\<close>

text \<open>
  \<^verbatim>\<open>(hi << 8) | lo\<close> and \<^verbatim>\<open>((b3 << 24) | (b2 << 16) | (b1 << 8) | b0) >>> 0\<close> on 32-bit
  integers, read unsigned; the lemmas give their arithmetic value.
\<close>

definition u16_of :: "byte \<Rightarrow> byte \<Rightarrow> nat" where
  "u16_of hi lo = unat (push_bit 8 (ucast hi :: 32 word) OR ucast lo)"
definition u32_of :: "byte \<Rightarrow> byte \<Rightarrow> byte \<Rightarrow> byte \<Rightarrow> nat" where
  "u32_of b3 b2 b1 b0 = unat (push_bit 24 (ucast b3 :: 32 word) OR push_bit 16 (ucast b2) OR push_bit 8 (ucast b1) OR ucast b0)"

lemma unat_byte: "unat (b :: 8 word) < 256"
  using unsigned_less [of b] by simp

lemma or_byte:
  fixes x y :: "32 word"
  assumes "unat y < 2 ^ k" and "unat x < 2 ^ (32 - k)" and "k < 32"
  shows "unat (push_bit k x OR y) = unat x * 2 ^ k + unat y"
proof -
  have k: "push_bit k x AND y = 0"
  proof (rule bit_word_eqI)
    fix n
    have "n < k" if "bit y n"
    proof -
      have "take_bit k (unat y) = unat y" using assms(1) by (simp add: take_bit_nat_eq_self)
      moreover have "bit (unat y) n" using that by (simp add: bit_unsigned_iff)
      ultimately show ?thesis by (metis bit_take_bit_iff)
    qed
    then show "bit (push_bit k x AND y) n \<longleftrightarrow> bit (0 :: 32 word) n" by (auto simp: bit_simps)
  qed
  have "(unat x + 1) * 2 ^ k \<le> 2 ^ (32 - k) * 2 ^ k"
    using assms(2) by (intro mult_right_mono) auto
  also have "\<dots> = (2::nat) ^ 32" using assms(3) by (simp flip: power_add)
  finally have b: "unat x * 2 ^ k + unat y < 2 ^ 32" using assms(1) by simp
  have "unat (push_bit k x) = take_bit 32 (push_bit k (unat x))"
    using unsigned_push_bit_eq [of k x, where 'a = nat] by simp
  also have "\<dots> = unat x * 2 ^ k"
    using b by (simp only: push_bit_eq_mult) (simp add: take_bit_nat_eq_self)
  finally have p: "unat (push_bit k x) = unat x * 2 ^ k" .
  have "unat (push_bit k x + y) = unat (push_bit k x) + unat y"
    using b p by (simp only: unat_word_ariths) simp
  then show ?thesis using k p by (simp only: disjunctive_add_eq_or)
qed

lemma unat_ucast_byte: "unat (ucast b :: 32 word) = unat (b :: 8 word)"
  using unat_byte [of b] by (simp only: unsigned_ucast_eq) (simp add: take_bit_nat_eq_self)

lemma u16_of_eq: "u16_of hi lo = unat hi * 256 + unat lo"
  using or_byte [of "ucast lo" 8 "ucast hi"] unat_byte [of lo] unat_byte [of hi]
  by (simp add: u16_of_def unat_ucast_byte)

lemma u32_of_eq: "u32_of b3 b2 b1 b0 = unat b3 * 16777216 + unat b2 * 65536 + unat b1 * 256 + unat b0"
  (is "_ = ?r")
proof -
  note u = unat_ucast_byte
  have 1: "unat (push_bit 8 (ucast b1 :: 32 word) OR ucast b0) = unat b1 * 256 + unat b0"
    using or_byte [of "ucast b0" 8 "ucast b1"] unat_byte [of b0] unat_byte [of b1] by (simp add: u)
  have 2: "unat (push_bit 16 (ucast b2 :: 32 word) OR (push_bit 8 (ucast b1) OR ucast b0)) = unat b2 * 65536 + (unat b1 * 256 + unat b0)"
    using or_byte [of "push_bit 8 (ucast b1) OR ucast b0" 16 "ucast b2"] unat_byte [of b0] unat_byte [of b1] unat_byte [of b2] 1 by (simp add: u)
  have 3: "unat (push_bit 24 (ucast b3 :: 32 word) OR (push_bit 16 (ucast b2 :: 32 word) OR (push_bit 8 (ucast b1) OR ucast b0))) = unat b3 * 16777216 + (unat b2 * 65536 + (unat b1 * 256 + unat b0))"
    using or_byte [of "push_bit 16 (ucast b2 :: 32 word) OR (push_bit 8 (ucast b1) OR ucast b0)" 24 "ucast b3"] unat_byte [of b0] unat_byte [of b1] unat_byte [of b2] unat_byte [of b3] 2 by (simp add: u)
  then show ?thesis by (simp add: u32_of_def or.assoc add.assoc)
qed
lemma u16_of_less: "u16_of hi lo < 65536"
  using unat_byte [of hi] unat_byte [of lo] by (simp add: u16_of_eq)

lemma u32_of_less: "u32_of b3 b2 b1 b0 < 4294967296"
  using unat_byte [of b3] unat_byte [of b2] unat_byte [of b1] unat_byte [of b0]
  by (simp add: u32_of_eq)

lemma unat_and_mask: "unat (b AND mask n) = unat b mod 2 ^ n" for b :: byte
proof -
  have "unat (b AND mask n) = take_bit n (unat b)"
    by (simp only: take_bit_eq_mask [symmetric] unsigned_take_bit_eq)
  then show ?thesis by (simp only: take_bit_eq_mod)
qed

lemma unat_and_15: "unat (b AND 15) = unat b mod 16" for b :: byte
  using unat_and_mask [of b 4] by (simp add: mask_eq_exp_minus_1)

lemma unat_and_31: "unat (b AND 31) = unat b mod 32" for b :: byte
  using unat_and_mask [of b 5] by (simp add: mask_eq_exp_minus_1)

text \<open>The byte strings that denote a 16- or 32-bit number, most significant byte first.\<close>

definition be16 :: "nat \<Rightarrow> bytes" where
  "be16 n = [of_nat (n div 256), of_nat (n mod 256)]"

definition be32 :: "nat \<Rightarrow> bytes" where
  "be32 n = [of_nat (n div 16777216), of_nat (n div 65536 mod 256),
             of_nat (n div 256 mod 256), of_nat (n mod 256)]"

lemma length_be [simp]: "length (be16 n) = 2" "length (be32 n) = 4"
  by (simp_all add: be16_def be32_def)

lemma unat_of_nat_byte: "n < 256 \<Longrightarrow> unat (of_nat n :: byte) = n"
  by (simp add: unat_of_nat take_bit_nat_eq_self)

lemma u16_of_be16: "n < 65536 \<Longrightarrow> u16_of (be16 n ! 0) (be16 n ! 1) = n"
  by (simp add: be16_def u16_of_eq unat_of_nat_byte)

lemma u32_of_be32:
  "n < 4294967296 \<Longrightarrow> u32_of (be32 n ! 0) (be32 n ! 1) (be32 n ! 2) (be32 n ! 3) = n"
proof -
  assume n: "n < 4294967296"
  have "n div 256 = n div 65536 * 256 + n div 256 mod 256"
    and "n div 65536 = n div 16777216 * 256 + n div 65536 mod 256"
    using div_mult_mod_eq [of "n div 256" 256] div_mult_mod_eq [of "n div 65536" 256]
    by (simp_all add: div_mult2_eq [symmetric])
  then have "n = n div 16777216 * 16777216 + n div 65536 mod 256 * 65536
      + n div 256 mod 256 * 256 + n mod 256"
    using div_mult_mod_eq [of n 256] by linarith
  moreover have "n div 16777216 < 256"
    using n by simp
  ultimately show ?thesis
    by (simp add: be32_def u32_of_eq unat_of_nat_byte)
qed

lemma be16_u16_of: "be16 (u16_of a b) = [a, b]"
  using unat_byte [of b] by (simp add: be16_def u16_of_eq)

lemma be32_u32_of: "be32 (u32_of a b c d) = [a, b, c, d]"
proof -
  define x y where "x = unat a * 256 + unat b" and "y = (unat a * 256 + unat b) * 256 + unat c"
  have lt: "unat b < 256" "unat c < 256" "unat d < 256" by (rule unat_byte)+
  have n: "u32_of a b c d = y * 256 + unat d" by (simp add: u32_of_eq y_def algebra_simps)
  have y: "y = x * 256 + unat c" by (simp add: x_def y_def)
  have div: "u32_of a b c d div 256 = y" "y div 256 = x" "x div 256 = unat a"
    using lt by (simp_all add: n y x_def)
  have "u32_of a b c d div 65536 = x" "u32_of a b c d div 16777216 = unat a"
    using div_mult2_eq [of "u32_of a b c d" 256 256] div_mult2_eq [of "u32_of a b c d" 256 65536]
      div_mult2_eq [of y 256 256] by (simp_all add: div)
  moreover have "x mod 256 = unat b" "y mod 256 = unat c" "u32_of a b c d mod 256 = unat d"
    using lt by (simp add: x_def, simp add: y, simp add: n)
  ultimately show ?thesis by (simp add: be32_def div)
qed

text \<open>Least significant byte first.\<close>

definition le16 :: "nat \<Rightarrow> bytes" where "le16 n = rev (be16 n)"
definition le32 :: "nat \<Rightarrow> bytes" where "le32 n = rev (be32 n)"

lemma length_le [simp]: "length (le16 n) = 2" "length (le32 n) = 4"
  by (simp_all add: le16_def le32_def)

lemma le16_iff: "le16 n = [a, b] \<and> n < 65536 \<longleftrightarrow> n = u16_of b a"
  using u16_of_be16 [of n] by (auto simp: le16_def be16_u16_of u16_of_less)

lemma le32_iff: "le32 n = [a, b, c, d] \<and> n < 4294967296 \<longleftrightarrow> n = u32_of d c b a"
  using u32_of_be32 [of n] by (auto simp: le32_def be32_u32_of u32_of_less)

section \<open>Interfaces\<close>

text \<open>A reader of a fixed number \<open>w\<close> of bytes at a cursor.\<close>

locale fixed_reader =
  fixes rd :: "bytes \<Rightarrow> nat \<Rightarrow> 'e + ('a \<times> nat)"
    and w :: nat
    and val :: "bytes \<Rightarrow> 'a"
  assumes rd_full: "pos + w \<le> length buf \<Longrightarrow> rd buf pos = Inr (val (window buf pos w), pos + w)"
    and rd_short: "length buf < pos + w \<Longrightarrow> \<exists>e. rd buf pos = Inl e"
begin

lemma rd_iff:
  "rd buf pos = Inr (v, q) \<longleftrightarrow>
     pos + w \<le> length buf \<and> v = val (window buf pos w) \<and> q = pos + w"
proof (cases "pos + w \<le> length buf")
  case True
  then show ?thesis by (auto simp: rd_full)
next
  case False
  then show ?thesis using rd_short [of buf pos] by auto
qed

lemma rd_progress: "rd buf pos = Inr (v, q) \<Longrightarrow> q = pos + w \<and> q \<le> length buf"
  by (simp add: rd_iff)

lemma rd_embed: "length xs = w \<Longrightarrow> rd (p @ xs @ s) (length p) = Inr (val xs, length p + w)"
  using window_embed [of p xs s] by (simp add: rd_full)

lemma rd_local:
  assumes "rd buf pos = Inr (v, q)" and "pos' + w \<le> length buf'"
    and "window buf' pos' w = window buf pos w"
  shows "rd buf' pos' = Inr (v, pos' + w)"
  using assms by (simp add: rd_iff)

end

text \<open>
  A parser and the encoding it inverts: it succeeds exactly where the encoding of a legal
  value stands, and then returns that value and the cursor behind it.
\<close>

locale codec =
  fixes parse :: "bytes \<Rightarrow> nat \<Rightarrow> 'e + ('a \<times> nat)"
    and enc :: "'a \<Rightarrow> bytes"
    and legal :: "'a \<Rightarrow> bool"
  assumes exact: "parse buf pos = Inr (x, q) \<longleftrightarrow> legal x \<and> placed buf pos (enc x) q"
begin

lemma parse_embed: "legal x \<Longrightarrow> parse (p @ enc x @ s) (length p) = Inr (x, length p + length (enc x))"
  by (simp add: exact placed_embed)

lemma enc_inject: "legal x \<Longrightarrow> legal y \<Longrightarrow> enc x = enc y \<Longrightarrow> x = y"
  using parse_embed [of x "[]" "[]"] parse_embed [of y "[]" "[]"] by simp

lemma enc_prefix_free:
  assumes "legal x" and "legal y" and "enc x @ s = enc y @ s'"
  shows "x = y \<and> s = s'"
proof -
  have "x = y"
    using parse_embed [OF assms(1), of "[]" s] parse_embed [OF assms(2), of "[]" s'] assms(3) by simp
  with assms(3) show ?thesis by simp
qed

end

text \<open>A step relation whose steps keep an invariant.\<close>

locale guarded_system =
  fixes init :: "'s \<Rightarrow> bool"
    and step :: "'s \<Rightarrow> 's \<Rightarrow> bool"
    and inv :: "'s \<Rightarrow> bool"
  assumes init_inv: "init s \<Longrightarrow> inv s"
    and step_inv: "inv s \<Longrightarrow> step s t \<Longrightarrow> inv t"
begin

lemma steps_inv: "step\<^sup>*\<^sup>* s t \<Longrightarrow> inv s \<Longrightarrow> inv t"
  by (induction rule: rtranclp_induct) (auto intro: step_inv)

lemma reachable_inv: "init s \<Longrightarrow> step\<^sup>*\<^sup>* s t \<Longrightarrow> inv t"
  by (blast intro: steps_inv init_inv)

end

text \<open>A step relation that also moves states up a preorder: what has happened stays so.\<close>

locale progressing_system = guarded_system +
  fixes before :: "'s \<Rightarrow> 's \<Rightarrow> bool"
  assumes before_refl: "before s s"
    and before_trans: "before s t \<Longrightarrow> before t u \<Longrightarrow> before s u"
    and step_before: "inv s \<Longrightarrow> step s t \<Longrightarrow> before s t"
begin

lemma steps_before: "step\<^sup>*\<^sup>* s t \<Longrightarrow> inv s \<Longrightarrow> before s t"
proof (induction rule: rtranclp_induct)
  case base
  show ?case by (rule before_refl)
next
  case (step t u)
  then show ?case by (blast intro: before_trans step_before steps_inv)
qed

end

text \<open>A step relation that refines a more abstract one through an abstraction function.\<close>

locale refining_system = guarded_system +
  fixes abs :: "'s \<Rightarrow> 'a"
    and astep :: "'a \<Rightarrow> 'a \<Rightarrow> bool"
  assumes step_sim: "inv s \<Longrightarrow> step s t \<Longrightarrow> astep (abs s) (abs t)"
begin

lemma steps_sim: "step\<^sup>*\<^sup>* s t \<Longrightarrow> inv s \<Longrightarrow> astep\<^sup>*\<^sup>* (abs s) (abs t)"
proof (induction rule: rtranclp_induct)
  case base
  show ?case by simp
next
  case (step t u)
  then have "astep (abs t) (abs u)" by (blast intro: step_sim steps_inv)
  with step show ?case by (meson rtranclp.rtrancl_into_rtrancl)
qed

end

end
