(* ===== verification/Topic.thy ===== *)
theory Topic
  imports Prelude
begin

text \<open>
  \<^verbatim>\<open>packages/core/src/protocol/topic.ts\<close>: the MQTT v1 topic scheme. Construction of the
  platform-to-device topics, parsing of the device-to-platform ones, and the validity of
  a device UID. The lemmas show that parsing accepts exactly the five topic shapes with a
  valid UID, that it returns the UID and the kind the topic was built from, and that no
  topic the platform publishes on can be taken for a device message.
\<close>

section \<open>Strings\<close>

text \<open>\<^verbatim>\<open>String.prototype.split\<close> with a one-character separator.\<close>

fun split_on :: "nat \<Rightarrow> jsstring \<Rightarrow> jsstring list" where
  "split_on c [] = [[]]"
| "split_on c (x # xs) =
     (if x = c then [] # split_on c xs
      else (case split_on c xs of [] \<Rightarrow> [[x]] | y # ys \<Rightarrow> (x # y) # ys))"

text \<open>The code units matched by \<^verbatim>\<open>/\s/\<close> (ECMAScript white space and line terminators).\<close>

definition is_space :: "nat \<Rightarrow> bool" where
  "is_space c \<longleftrightarrow> 9 \<le> c \<and> c \<le> 13 \<or> 0x2000 \<le> c \<and> c \<le> 0x200a \<or>
     c \<in> {32, 0xa0, 0x1680, 0x2028, 0x2029, 0x202f, 0x205f, 0x3000, 0xfeff}"

abbreviation slash :: nat where "slash \<equiv> 47"

section \<open>The model\<close>

definition TOPIC_PREFIX :: jsstring where
  "TOPIC_PREFIX = js ''soulcloud/v1/devices''"

datatype device_message_kind = CmdResult | OtaResult | Log | Stat | Event

fun kind_text :: "device_message_kind \<Rightarrow> jsstring" where
  "kind_text CmdResult = js ''cmd/result''"
| "kind_text OtaResult = js ''ota/result''"
| "kind_text Log = js ''log''"
| "kind_text Stat = js ''stat''"
| "kind_text Event = js ''event''"

definition DEVICE_TO_PLATFORM_FILTERS :: "jsstring list" where
  "DEVICE_TO_PLATFORM_FILTERS =
     [TOPIC_PREFIX @ js ''/+/cmd/result'', TOPIC_PREFIX @ js ''/+/ota/result'',
      TOPIC_PREFIX @ js ''/+/log'', TOPIC_PREFIX @ js ''/+/stat'', TOPIC_PREFIX @ js ''/+/event'']"

record device_topic =
  deviceUid :: jsstring
  kind :: device_message_kind

datatype topic_error =
    InvalidDeviceUid jsstring
  | SchemeMismatch jsstring
  | InvalidUidInTopic jsstring

definition isValidDeviceUid :: "jsstring \<Rightarrow> bool" where
  "isValidDeviceUid uid \<longleftrightarrow>
     0 < length uid \<and>
     47 \<notin> set uid \<and>
     43 \<notin> set uid \<and>
     35 \<notin> set uid \<and>
     \<not> list_ex is_space uid"

definition requireValidDeviceUid :: "jsstring \<Rightarrow> topic_error + unit" where
  "requireValidDeviceUid uid = ensure (isValidDeviceUid uid) (InvalidDeviceUid uid)"

definition otaCommand :: "jsstring \<Rightarrow> topic_error + jsstring" where
  "otaCommand uid =
     rbind (requireValidDeviceUid uid) (\<lambda>_. Inr (TOPIC_PREFIX @ js ''/'' @ uid @ js ''/ota''))"

definition commandExecution :: "jsstring \<Rightarrow> topic_error + jsstring" where
  "commandExecution uid =
     rbind (requireValidDeviceUid uid) (\<lambda>_. Inr (TOPIC_PREFIX @ js ''/'' @ uid @ js ''/cmd/exec''))"

text \<open>\<open>segment ss i\<close> is \<^verbatim>\<open>segments[i]\<close>: \<open>None\<close> is \<^verbatim>\<open>undefined\<close>.\<close>

definition segment :: "jsstring list \<Rightarrow> nat \<Rightarrow> jsstring option" where
  "segment ss i = (if i < length ss then Some (ss ! i) else None)"

definition segments_kind :: "jsstring list \<Rightarrow> device_message_kind option" where
  "segments_kind ss =
     (if length ss = 5 \<and> segment ss 4 = Some (js ''log'') then Some Log
      else if length ss = 5 \<and> segment ss 4 = Some (js ''stat'') then Some Stat
      else if length ss = 5 \<and> segment ss 4 = Some (js ''event'') then Some Event
      else if length ss = 6 \<and> segment ss 4 = Some (js ''cmd'') \<and> segment ss 5 = Some (js ''result'')
        then Some CmdResult
      else if length ss = 6 \<and> segment ss 4 = Some (js ''ota'') \<and> segment ss 5 = Some (js ''result'')
        then Some OtaResult
      else None)"

definition parseDeviceTopic :: "jsstring \<Rightarrow> topic_error + device_topic" where
  "parseDeviceTopic topic =
     (let segments = split_on slash topic;
          isPrefix = (segment segments 0 = Some (js ''soulcloud'') \<and>
                      segment segments 1 = Some (js ''v1'') \<and>
                      segment segments 2 = Some (js ''devices''))
      in if \<not> isPrefix then Inl (SchemeMismatch topic)
         else (case segments_kind segments of
                 None \<Rightarrow> Inl (SchemeMismatch topic)
               | Some k \<Rightarrow>
                   (case segment segments 3 of
                      None \<Rightarrow> Inl (InvalidUidInTopic topic)
                    | Some uid \<Rightarrow>
                        if \<not> isValidDeviceUid uid then Inl (InvalidUidInTopic topic)
                        else Inr \<lparr>deviceUid = uid, kind = k\<rparr>)))"

text \<open>The topic a device message of the given UID and kind is published on.\<close>

definition device_topic_text :: "device_topic \<Rightarrow> jsstring" where
  "device_topic_text d = TOPIC_PREFIX @ js ''/'' @ deviceUid d @ js ''/'' @ kind_text (kind d)"

section \<open>Splitting and joining\<close>

fun join_on :: "nat \<Rightarrow> jsstring list \<Rightarrow> jsstring" where
  "join_on c [] = []"
| "join_on c [x] = x"
| "join_on c (x # y # xs) = x @ c # join_on c (y # xs)"

lemma split_on_nonempty [simp]: "split_on c xs \<noteq> []"
  by (induction xs) (auto split: list.splits)

lemma join_split: "join_on c (split_on c xs) = xs"
proof (induction xs)
  case (Cons x xs)
  obtain y ys where s: "split_on c xs = y # ys"
    by (meson list.exhaust split_on_nonempty)
  with Cons.IH show ?case
    by (cases ys) auto
qed simp

lemma split_on_plain: "c \<notin> set xs \<Longrightarrow> split_on c xs = [xs]"
  by (induction xs) auto

lemma split_on_append: "c \<notin> set xs \<Longrightarrow> split_on c (xs @ c # ys) = xs # split_on c ys"
  by (induction xs) auto

lemma split_join:
  "\<lbrakk>xss \<noteq> []; \<forall>xs \<in> set xss. c \<notin> set xs\<rbrakk> \<Longrightarrow> split_on c (join_on c xss) = xss"
  by (induction c xss rule: join_on.induct) (auto simp: split_on_plain split_on_append)

lemma length_5: "length xs = 5 \<Longrightarrow> xs = [xs ! 0, xs ! 1, xs ! 2, xs ! 3, xs ! 4]"
  by (auto simp: length_Suc_conv numeral_eq_Suc)

lemma length_6: "length xs = 6 \<Longrightarrow> xs = [xs ! 0, xs ! 1, xs ! 2, xs ! 3, xs ! 4, xs ! 5]"
  by (auto simp: length_Suc_conv numeral_eq_Suc)

lemma segment_SomeD: "segment ss i = Some x \<Longrightarrow> i < length ss \<and> ss ! i = x"
  by (simp add: segment_def split: if_splits)

section \<open>Parsing is the inverse of construction\<close>

text \<open>The segments of a well-formed device topic.\<close>

fun kind_segments :: "device_message_kind \<Rightarrow> jsstring list" where
  "kind_segments CmdResult = [js ''cmd'', js ''result'']"
| "kind_segments OtaResult = [js ''ota'', js ''result'']"
| "kind_segments Log = [js ''log'']"
| "kind_segments Stat = [js ''stat'']"
| "kind_segments Event = [js ''event'']"

definition topic_segments :: "device_topic \<Rightarrow> jsstring list" where
  "topic_segments d =
     [js ''soulcloud'', js ''v1'', js ''devices'', deviceUid d] @ kind_segments (kind d)"

lemma topic_text_join: "device_topic_text d = join_on slash (topic_segments d)"
  by (cases "kind d") (simp_all add: device_topic_text_def topic_segments_def TOPIC_PREFIX_def js_simps)

lemma split_topic_text:
  assumes "slash \<notin> set (deviceUid d)"
  shows "split_on slash (device_topic_text d) = topic_segments d"
  unfolding topic_text_join
  by (rule split_join) (cases "kind d"; use assms in \<open>auto simp: topic_segments_def\<close>)+

lemma segments_kind_iff:
  assumes "segment ss 0 = Some (js ''soulcloud'')" "segment ss 1 = Some (js ''v1'')"
    "segment ss 2 = Some (js ''devices'')"
  shows "segments_kind ss = Some k \<longleftrightarrow>
    ss = [js ''soulcloud'', js ''v1'', js ''devices'', ss ! 3] @ kind_segments k"
proof
  have pre: "ss ! 0 = js ''soulcloud''" "ss ! 1 = js ''v1''" "ss ! 2 = js ''devices''"
    using assms by (auto dest: segment_SomeD)
  assume "segments_kind ss = Some k"
  then show "ss = [js ''soulcloud'', js ''v1'', js ''devices'', ss ! 3] @ kind_segments k"
    using pre length_5 [of ss] length_6 [of ss]
    by (auto simp: segments_kind_def dest!: segment_SomeD split: if_splits)
next
  assume *: "ss = [js ''soulcloud'', js ''v1'', js ''devices'', ss ! 3] @ kind_segments k"
  show "segments_kind ss = Some k"
    by (subst *) (cases k; simp add: segments_kind_def segment_def)
qed

lemma valid_uid_no_slash: "isValidDeviceUid uid \<Longrightarrow> slash \<notin> set uid"
  by (simp add: isValidDeviceUid_def)

lemma parse_segments:
  "parseDeviceTopic topic = Inr d \<longleftrightarrow>
     split_on slash topic = topic_segments d \<and> isValidDeviceUid (deviceUid d)"
proof
  assume "parseDeviceTopic topic = Inr d"
  then obtain uid k where pre: "segment (split_on slash topic) 0 = Some (js ''soulcloud'')"
      "segment (split_on slash topic) 1 = Some (js ''v1'')"
      "segment (split_on slash topic) 2 = Some (js ''devices'')"
    and k: "segments_kind (split_on slash topic) = Some k"
    and uid: "segment (split_on slash topic) 3 = Some uid" "isValidDeviceUid uid"
    and d: "d = \<lparr>deviceUid = uid, kind = k\<rparr>"
    by (auto simp: parseDeviceTopic_def Let_def split: if_splits option.splits)
  from k have "split_on slash topic =
      [js ''soulcloud'', js ''v1'', js ''devices'', split_on slash topic ! 3] @ kind_segments k"
    by (simp only: segments_kind_iff [OF pre])
  with uid d show "split_on slash topic = topic_segments d \<and> isValidDeviceUid (deviceUid d)"
    by (auto simp: topic_segments_def dest: segment_SomeD)
next
  assume *: "split_on slash topic = topic_segments d \<and> isValidDeviceUid (deviceUid d)"
  then have "segments_kind (split_on slash topic) = Some (kind d)"
    by (subst segments_kind_iff) (auto simp: topic_segments_def segment_def)
  with * show "parseDeviceTopic topic = Inr d"
    by (simp add: parseDeviceTopic_def Let_def topic_segments_def segment_def)
qed

section \<open>Properties\<close>

text \<open>
  C20. Parsing accepts a topic exactly when it is one of the five device-to-platform topics
  of a valid device UID, and then returns that UID and that kind: nothing else parses, and
  a topic has at most one reading.
\<close>

theorem parse_device_topic_exact:
  "parseDeviceTopic topic = Inr d \<longleftrightarrow>
     topic = device_topic_text d \<and> isValidDeviceUid (deviceUid d)"
proof -
  have "split_on slash topic = topic_segments d \<Longrightarrow> topic = device_topic_text d"
    by (metis join_split topic_text_join)
  then show ?thesis
    by (auto simp: parse_segments split_topic_text valid_uid_no_slash)
qed

text \<open>
  A topic the platform publishes on (\<^verbatim>\<open>cmd/exec\<close> or \<^verbatim>\<open>ota\<close>) is never accepted as a
  device message: the parser reports the scheme error for it.
\<close>

theorem platform_topic_rejected:
  assumes "commandExecution uid = Inr t \<or> otaCommand uid = Inr t"
  shows "parseDeviceTopic t = Inl (SchemeMismatch t)"
proof -
  have uid: "slash \<notin> set uid" and t: "t = TOPIC_PREFIX @ js ''/'' @ uid @ js ''/cmd/exec'' \<or>
      t = TOPIC_PREFIX @ js ''/'' @ uid @ js ''/ota''"
    using assms by (auto simp: commandExecution_def otaCommand_def requireValidDeviceUid_def
        rbind_eq_Inr valid_uid_no_slash)
  have "t = join_on slash [js ''soulcloud'', js ''v1'', js ''devices'', uid, js ''cmd'', js ''exec''] \<or>
      t = join_on slash [js ''soulcloud'', js ''v1'', js ''devices'', uid, js ''ota'']"
    using t by (simp add: TOPIC_PREFIX_def js_simps)
  then have "split_on slash t = [js ''soulcloud'', js ''v1'', js ''devices'', uid, js ''cmd'', js ''exec''] \<or>
      split_on slash t = [js ''soulcloud'', js ''v1'', js ''devices'', uid, js ''ota'']"
    using uid by (elim disjE; simp only: ; subst split_join; auto)
  then show ?thesis
    by (auto simp: parseDeviceTopic_def Let_def segment_def segments_kind_def)
qed

theorem platform_topic_rejected_witness:
  "parseDeviceTopic (js ''soulcloud/v1/devices/dev-1/cmd/exec'') =
     Inl (SchemeMismatch (js ''soulcloud/v1/devices/dev-1/cmd/exec''))"
proof (rule platform_topic_rejected)
  show "commandExecution (js ''dev-1'') = Inr (js ''soulcloud/v1/devices/dev-1/cmd/exec'') \<or>
      otaCommand (js ''dev-1'') = Inr (js ''soulcloud/v1/devices/dev-1/cmd/exec'')"
    by (simp add: commandExecution_def requireValidDeviceUid_def isValidDeviceUid_def is_space_def
        TOPIC_PREFIX_def js_simps)
qed

end
