(* ===== verification/Identifiers.thy ===== *)
theory Identifiers
  imports Prelude
begin

text \<open>
  Identifiers the components pass around: UUID and SHA-256 texts as the regular expressions of
  \<^verbatim>\<open>packages/core/src/queue/enqueue.ts\<close>, \<^verbatim>\<open>plugins/executions.ts\<close> and
  \<^verbatim>\<open>plugins/execution-commands.ts\<close> accept them, the hexadecimal form of a \<^verbatim>\<open>Buffer\<close>, and the
  two conversions between the dashed text of a UUID and the 16 bytes that travel to the device.
  The main lemma is that the two conversions are inverse, so that a device result that echoes
  the identifier of its command finds the row the command came from.
\<close>

section \<open>Texts\<close>

definition is_hex_lower :: "nat \<Rightarrow> bool" where
  "is_hex_lower c \<longleftrightarrow> (48 \<le> c \<and> c \<le> 57) \<or> (97 \<le> c \<and> c \<le> 102)"

definition is_hex :: "nat \<Rightarrow> bool" where
  "is_hex c \<longleftrightarrow> is_hex_lower c \<or> (65 \<le> c \<and> c \<le> 70)"

text \<open>\<^verbatim>\<open>[89ab]\<close> with the \<^verbatim>\<open>i\<close> flag.\<close>

definition is_variant :: "nat \<Rightarrow> bool" where
  "is_variant c \<longleftrightarrow> c \<in> {56, 57, 97, 98, 65, 66}"

definition is_dash :: "nat \<Rightarrow> bool" where
  "is_dash c \<longleftrightarrow> c = 45"

text \<open>A regular expression that is a sequence of character classes, anchored at both ends.\<close>

definition matches :: "(nat \<Rightarrow> bool) list \<Rightarrow> jsstring \<Rightarrow> bool" where
  "matches ps s \<longleftrightarrow> list_all2 (\<lambda>p c. p c) ps s"

definition UUID :: "jsstring \<Rightarrow> bool" where
  "UUID = matches (replicate 8 is_hex @ [is_dash] @ replicate 4 is_hex @ [is_dash]
     @ replicate 4 is_hex @ [is_dash] @ [is_variant] @ replicate 3 is_hex @ [is_dash]
     @ replicate 12 is_hex)"

definition SHA256 :: "jsstring \<Rightarrow> bool" where
  "SHA256 = matches (replicate 64 is_hex_lower)"

text \<open>The canonical (lower-case) form, which \<^verbatim>\<open>randomUUID\<close> and the database produce.\<close>

definition canonical_uuid :: "jsstring \<Rightarrow> bool" where
  "canonical_uuid = matches (replicate 8 is_hex_lower @ [is_dash] @ replicate 4 is_hex_lower
     @ [is_dash] @ replicate 4 is_hex_lower @ [is_dash] @ replicate 4 is_hex_lower @ [is_dash]
     @ replicate 12 is_hex_lower)"

text \<open>A UUID text as the database stores it: letters in lower case.\<close>

definition canon :: "jsstring \<Rightarrow> jsstring" where
  "canon s = map (\<lambda>c. if 65 \<le> c \<and> c \<le> 70 then c + 32 else c) s"

section \<open>Hexadecimal buffers\<close>

definition hex_digit :: "nat \<Rightarrow> nat" where
  "hex_digit n = (if n < 10 then 48 + n else 87 + n)"

definition hex_val :: "nat \<Rightarrow> nat" where
  "hex_val c = (if c \<le> 57 then c - 48 else if c \<le> 70 then c - 55 else c - 87)"

text \<open>\<^verbatim>\<open>Buffer.toString("hex")\<close> and \<^verbatim>\<open>Buffer.from(s, "hex")\<close>, which stops at the first
  pair that is not hexadecimal.\<close>

fun hex_encode :: "bytes \<Rightarrow> jsstring" where
  "hex_encode [] = []"
| "hex_encode (b # bs) = hex_digit (unat b div 16) # hex_digit (unat b mod 16) # hex_encode bs"

fun hex_decode :: "jsstring \<Rightarrow> bytes" where
  "hex_decode (c # d # s) =
     (if is_hex c \<and> is_hex d then of_nat (hex_val c * 16 + hex_val d) # hex_decode s else [])"
| "hex_decode _ = []"

text \<open>\<^verbatim>\<open>uuidFromBytes\<close> and \<^verbatim>\<open>Buffer.from(id.replace(/-/g, ""), "hex")\<close>.\<close>

definition uuidFromBytes :: "bytes \<Rightarrow> jsstring" where
  "uuidFromBytes bs =
     (let hex = hex_encode bs in
      window hex 0 8 @ [45] @ window hex 8 4 @ [45] @ window hex 12 4 @ [45]
        @ window hex 16 4 @ [45] @ drop 20 hex)"

definition uuidToBytes :: "jsstring \<Rightarrow> bytes" where
  "uuidToBytes s = hex_decode (filter (\<lambda>c. c \<noteq> 45) s)"

section \<open>Lemmas\<close>

lemma matches_append:
  "matches (ps @ qs) s \<longleftrightarrow> (\<exists>t u. s = t @ u \<and> matches ps t \<and> matches qs u)"
  by (auto simp: matches_def list_all2_append1) (metis list_all2_lengthD)

lemma matches_appendI: "matches ps t \<Longrightarrow> matches qs u \<Longrightarrow> matches (ps @ qs) (t @ u)"
  by (auto simp: matches_append)

lemma matches_replicate: "matches (replicate n p) s \<longleftrightarrow> length s = n \<and> list_all p s"
  by (auto simp: matches_def list_all2_conv_all_nth list_all_length)

lemma matches_single: "matches [p] s \<longleftrightarrow> (\<exists>c. s = [c] \<and> p c)"
  by (auto simp: matches_def list_all2_Cons1)

lemma hex_digit_lower: "n < 16 \<Longrightarrow> is_hex_lower (hex_digit n)"
  by (auto simp: hex_digit_def is_hex_lower_def)

lemma hex_val_digit [simp]: "n < 16 \<Longrightarrow> hex_val (hex_digit n) = n"
  by (auto simp: hex_digit_def hex_val_def)

lemma hex_digit_val: "is_hex_lower c \<Longrightarrow> hex_digit (hex_val c) = c \<and> hex_val c < 16"
  by (auto simp: hex_digit_def hex_val_def is_hex_lower_def)

lemma length_hex_encode [simp]: "length (hex_encode bs) = 2 * length bs"
  by (induction bs) simp_all

lemma hex_encode_lower: "list_all is_hex_lower (hex_encode bs)"
proof (induction bs)
  case (Cons b bs)
  then show ?case
    using unat_byte [of b] by (auto intro!: hex_digit_lower)
qed simp

lemma hex_decode_encode [simp]: "hex_decode (hex_encode bs) = bs"
proof (induction bs)
  case (Cons b bs)
  have "is_hex (hex_digit (unat b div 16))" "is_hex (hex_digit (unat b mod 16))"
    using unat_byte [of b] by (auto simp: is_hex_def intro!: hex_digit_lower)
  moreover have "unat b div 16 < 16" using unat_byte [of b] by simp
  ultimately show ?case
    using Cons by simp
qed simp

lemma hex_encode_decode:
  "list_all is_hex_lower s \<Longrightarrow> even (length s) \<Longrightarrow> hex_encode (hex_decode s) = s"
proof (induction s rule: hex_decode.induct)
  case (1 c d s)
  then have cd: "is_hex_lower c" "is_hex_lower d" by simp_all
  note v = hex_digit_val [OF cd(1)] hex_digit_val [OF cd(2)]
  have "hex_val c * 16 + hex_val d < 256" using v by simp
  then have "unat (of_nat (hex_val c * 16 + hex_val d) :: byte) = hex_val c * 16 + hex_val d"
    by (rule unat_of_nat_byte)
  moreover have "(hex_val c * 16 + hex_val d) div 16 = hex_val c"
    "(hex_val c * 16 + hex_val d) mod 16 = hex_val d" using v by simp_all
  ultimately show ?case
    using 1 cd v by (simp add: is_hex_def)
qed simp_all

lemma lower_not_dash: "list_all is_hex_lower s \<Longrightarrow> filter (\<lambda>c. c \<noteq> 45) s = s"
  by (induction s) (auto simp: is_hex_lower_def)

lemma canonical_uuid_parts:
  "canonical_uuid s \<longleftrightarrow> (\<exists>a b c d e. s = a @ [45] @ b @ [45] @ c @ [45] @ d @ [45] @ e \<and>
     length a = 8 \<and> length b = 4 \<and> length c = 4 \<and> length d = 4 \<and> length e = 12 \<and>
     list_all is_hex_lower (a @ b @ c @ d @ e))"
    (is "_ \<longleftrightarrow> ?r")
proof
  assume "canonical_uuid s"
  then show ?r
    unfolding canonical_uuid_def matches_append matches_replicate matches_single is_dash_def
    by fastforce
next
  assume ?r
  then obtain a b c d e where s: "s = a @ [45] @ b @ [45] @ c @ [45] @ d @ [45] @ e"
    and "length a = 8" "length b = 4" "length c = 4" "length d = 4" "length e = 12"
      "list_all is_hex_lower (a @ b @ c @ d @ e)"
    by blast
  then show "canonical_uuid s"
    unfolding canonical_uuid_def s
    by (intro matches_appendI) (simp_all add: matches_replicate matches_single is_dash_def)
qed

lemma uuidFromBytes_canonical: "length bs = 16 \<Longrightarrow> canonical_uuid (uuidFromBytes bs)"
proof -
  assume len: "length bs = 16"
  let ?h = "hex_encode bs"
  have h: "?h = window ?h 0 8 @ window ?h 8 4 @ window ?h 12 4 @ window ?h 16 4 @ drop 20 ?h"
    using append_take_drop_id [of 8 ?h] append_take_drop_id [of 4 "drop 8 ?h"]
      append_take_drop_id [of 4 "drop 12 ?h"] append_take_drop_id [of 4 "drop 16 ?h"]
    by (simp add: window_def)
  have "list_all is_hex_lower (window ?h 0 8 @ window ?h 8 4 @ window ?h 12 4 @ window ?h 16 4 @ drop 20 ?h)"
    using hex_encode_lower [of bs] by (simp only: h [symmetric])
  then show ?thesis
    unfolding canonical_uuid_parts uuidFromBytes_def Let_def
    by (intro exI conjI) (auto simp: len)
qed

lemma uuid_roundtrip: "canonical_uuid s \<Longrightarrow> uuidFromBytes (uuidToBytes s) = s \<and> length (uuidToBytes s) = 16"
proof -
  assume "canonical_uuid s"
  then obtain a b c d e where s: "s = a @ [45] @ b @ [45] @ c @ [45] @ d @ [45] @ e"
    and len: "length a = 8" "length b = 4" "length c = 4" "length d = 4" "length e = 12"
    and lower: "list_all is_hex_lower (a @ b @ c @ d @ e)"
    unfolding canonical_uuid_parts by blast
  let ?h = "a @ b @ c @ d @ e"
  have "uuidToBytes s = hex_decode ?h"
    using lower by (simp add: uuidToBytes_def s lower_not_dash)
  moreover have enc: "hex_encode (hex_decode ?h) = ?h"
    using lower len by (intro hex_encode_decode) simp_all
  moreover have "length (hex_decode ?h) = 16"
    using len length_hex_encode [of "hex_decode ?h"] unfolding enc by simp
  ultimately show ?thesis
    using len by (simp add: uuidFromBytes_def window_def s)
qed

lemma uuid_roundtrip_bytes: "length bs = 16 \<Longrightarrow> uuidToBytes (uuidFromBytes bs) = bs"
proof -
  assume len: "length bs = 16"
  have "hex_encode (uuidToBytes (uuidFromBytes bs)) = hex_encode bs"
  proof -
    have "filter (\<lambda>c. c \<noteq> 45) (uuidFromBytes bs) = hex_encode bs"
    proof -
      let ?h = "hex_encode bs"
      have *: "filter (\<lambda>c. c \<noteq> 45) (take n (drop m ?h)) = take n (drop m ?h)"
        "filter (\<lambda>c. c \<noteq> 45) (drop m ?h) = drop m ?h" for n m
        using hex_encode_lower [of bs]
        by (auto intro!: lower_not_dash simp: list_all_iff dest!: in_set_takeD in_set_dropD)
      have "take 8 ?h @ take 4 (drop 8 ?h) @ take 4 (drop 12 ?h) @ take 4 (drop 16 ?h) @ drop 20 ?h = ?h"
        using append_take_drop_id [of 8 ?h] append_take_drop_id [of 4 "drop 8 ?h"]
          append_take_drop_id [of 4 "drop 12 ?h"] append_take_drop_id [of 4 "drop 16 ?h"] by simp
      then show ?thesis
        using *(1) [of 8 0] by (simp add: uuidFromBytes_def Let_def window_def *)
    qed
    then show ?thesis by (simp add: uuidToBytes_def)
  qed
  then show ?thesis by (metis hex_decode_encode)
qed

lemma canon_lower: "list_all (\<lambda>c. is_hex_lower c \<or> is_dash c) s \<Longrightarrow> canon s = s"
  by (induction s) (auto simp: canon_def is_hex_lower_def is_dash_def)

lemma canon_canonical: "canonical_uuid s \<Longrightarrow> canon s = s"
  by (rule canon_lower) (auto simp: canonical_uuid_parts list_all_iff is_dash_def)

end
