(* ===== verification/Utf8.thy ===== *)
theory Utf8
  imports Prelude
begin

text \<open>
  \<^verbatim>\<open>new TextDecoder().decode(bytes)\<close>: the UTF-8 decoder of the Encoding standard in its
  default mode, in which an ill-formed sequence becomes U+FFFD and a leading byte order
  mark is dropped. The result is a JavaScript string, so a supplementary code point is a
  surrogate pair.
\<close>

definition utf16_units :: "nat \<Rightarrow> jsstring" where
  "utf16_units cp =
     (if cp < 0x10000 then [cp]
      else [0xd800 + (cp - 0x10000) div 0x400, 0xdc00 + (cp - 0x10000) mod 0x400])"

text \<open>
  The state of the decoder: the number of continuation bytes still needed, the range the
  next one must lie in, and the code point read so far. A byte outside the range ends the
  sequence with U+FFFD and is read again from the initial state.
\<close>

function utf8_go :: "nat \<Rightarrow> nat \<Rightarrow> nat \<Rightarrow> nat \<Rightarrow> bytes \<Rightarrow> jsstring" where
  "utf8_go needed lower upper cp [] = (if needed = 0 then [] else [0xfffd])"
| "utf8_go needed lower upper cp (b # bs) =
     (let v = unat b in
      if needed = 0 then
        (if v \<le> 0x7f then v # utf8_go 0 0x80 0xbf 0 bs
         else if 0xc2 \<le> v \<and> v \<le> 0xdf then utf8_go 1 0x80 0xbf (v mod 32) bs
         else if 0xe0 \<le> v \<and> v \<le> 0xef then
           utf8_go 2 (if v = 0xe0 then 0xa0 else 0x80) (if v = 0xed then 0x9f else 0xbf) (v mod 16) bs
         else if 0xf0 \<le> v \<and> v \<le> 0xf4 then
           utf8_go 3 (if v = 0xf0 then 0x90 else 0x80) (if v = 0xf4 then 0x8f else 0xbf) (v mod 8) bs
         else 0xfffd # utf8_go 0 0x80 0xbf 0 bs)
      else if v < lower \<or> upper < v then 0xfffd # utf8_go 0 0x80 0xbf 0 (b # bs)
      else if needed = 1 then utf16_units (cp * 64 + v mod 64) @ utf8_go 0 0x80 0xbf 0 bs
      else utf8_go (needed - 1) 0x80 0xbf (cp * 64 + v mod 64) bs)"
  by pat_completeness auto
termination
  by (relation "measures [\<lambda>(_, _, _, _, bs). length bs, \<lambda>(n, _, _, _, _). n]") auto

definition utf8_decode :: "bytes \<Rightarrow> jsstring" where
  "utf8_decode bs =
     utf8_go 0 0x80 0xbf 0 (if take 3 bs = [0xef, 0xbb, 0xbf] then drop 3 bs else bs)"

lemma utf8_go_ascii: "\<forall>b \<in> set bs. unat b < 128 \<Longrightarrow> utf8_go 0 0x80 0xbf 0 bs = map unat bs"
  by (induction bs) auto

lemma utf8_decode_ascii:
  assumes "\<forall>b \<in> set bs. unat b < 128"
  shows "utf8_decode bs = map unat bs"
proof -
  have "take 3 bs \<noteq> [0xef, 0xbb, 0xbf]"
  proof
    assume "take 3 bs = [0xef, 0xbb, 0xbf]"
    then have "(0xef :: byte) \<in> set bs"
      by (metis in_set_takeD list.set_intros(1))
    with assms show False by force
  qed
  with assms show ?thesis
    by (simp add: utf8_decode_def utf8_go_ascii)
qed

section \<open>Length of the encoding\<close>

text \<open>\<^verbatim>\<open>Buffer.byteLength(text)\<close>: a surrogate pair takes four bytes, a lone surrogate becomes U+FFFD.\<close>

fun byteLength :: "jsstring \<Rightarrow> nat" where
  "byteLength [] = 0"
| "byteLength (u # us) =
     (if u < 0x80 then 1 + byteLength us
      else if u < 0x800 then 2 + byteLength us
      else if 0xd800 \<le> u \<and> u \<le> 0xdbff then
        (case us of
           [] \<Rightarrow> 3
         | v # vs \<Rightarrow> if 0xdc00 \<le> v \<and> v \<le> 0xdfff then 4 + byteLength vs else 3 + byteLength us)
      else 3 + byteLength us)"

lemma byteLength_ascii: "\<forall>u \<in> set us. u < 0x80 \<Longrightarrow> byteLength us = length us"
  by (induction us rule: byteLength.induct) auto

end
