(* ===== verification/MsgStructure.thy ===== *)
theory MsgStructure
  imports Utf8
begin

text \<open>
  \<^verbatim>\<open>packages/core/src/protocol/structure.ts\<close>: the structural MessagePack validator every
  inbound payload passes before it is decoded. The model keeps the reader's cursor as an
  explicit position in the payload. The source's \<^verbatim>\<open>MapKeyState\<close> is only read by the map it
  belongs to (its \<^verbatim>\<open>parent\<close> link is never followed), so it is the list of keys seen so far in
  \<open>walkMap\<close>. \<open>walkArray\<close> and \<open>walkMap\<close> take the walk of one nested value as an argument; the
  recursive calls of \<open>walkValue\<close> supply it at the next depth.

  The specification is the grammar \<open>mp_value\<close>: a MessagePack value at a nesting depth,
  given by a format table and by the shape of arrays and maps, with string keys that are
  pairwise different as text. The main lemmas show that the walk accepts exactly the
  values of the grammar and stops right after them.
\<close>

section \<open>The model\<close>

definition MAX_STRUCTURE_DEPTH :: nat where
  "MAX_STRUCTURE_DEPTH = 512"

datatype structure_error =
    Truncated nat nat nat  \<comment> \<open>bytes needed, offset, bytes left\<close>
  | NestingLimit
  | InvalidMarker byte nat
  | DuplicateKey jsstring
  | EmptyKey
  | KeyNotString byte
  | MalformedKey
  | TrailingBytes nat

definition rd_take :: "bytes \<Rightarrow> nat \<Rightarrow> nat \<Rightarrow> structure_error + (bytes \<times> nat)" where
  "rd_take buf pos n =
     (if length buf < pos + n then Inl (Truncated n pos (length buf - pos))
      else Inr (window buf pos n, pos + n))"

definition rd_byte :: "bytes \<Rightarrow> nat \<Rightarrow> structure_error + (byte \<times> nat)" where
  "rd_byte buf pos =
     (if length buf \<le> pos then rbind (rd_take buf pos 1) (\<lambda>(bs, pos'). Inr (bs ! 0, pos'))
      else Inr (buf ! pos, pos + 1))"

definition readU8 :: "bytes \<Rightarrow> nat \<Rightarrow> structure_error + (nat \<times> nat)" where
  "readU8 buf pos = rbind (rd_byte buf pos) (\<lambda>(b, pos'). Inr (unat b, pos'))"

definition readU16 :: "bytes \<Rightarrow> nat \<Rightarrow> structure_error + (nat \<times> nat)" where
  "readU16 buf pos =
     rbind (rd_take buf pos 2) (\<lambda>(b, pos'). Inr (u16_of (b ! 0) (b ! 1), pos'))"

definition readU32 :: "bytes \<Rightarrow> nat \<Rightarrow> structure_error + (nat \<times> nat)" where
  "readU32 buf pos =
     rbind (rd_take buf pos 4)
       (\<lambda>(b, pos'). Inr (u32_of (b ! 0) (b ! 1) (b ! 2) (b ! 3), pos'))"

text \<open>The statement \<^verbatim>\<open>reader.take(n)\<close> with the bytes ignored.\<close>

definition skip :: "bytes \<Rightarrow> nat \<Rightarrow> nat \<Rightarrow> structure_error + nat" where
  "skip buf pos n = rbind (rd_take buf pos n) (\<lambda>(_, pos'). Inr pos')"

definition decodeStringKey :: "bytes \<Rightarrow> nat \<Rightarrow> nat \<Rightarrow> structure_error + jsstring" where
  "decodeStringKey buf start stop =
     (if stop \<le> start then Inl EmptyKey
      else
        (let marker = buf ! start;
             finish = (\<lambda>strStart strLen.
               if strStart + strLen \<noteq> stop then Inl MalformedKey
               else Inr (utf8_decode (window buf strStart strLen)))
         in if 0xa0 \<le> marker \<and> marker \<le> 0xbf then finish (start + 1) (unat (marker AND 0x1f))
            else if marker = 0xd9 then finish (start + 2) (unat (buf ! (start + 1)))
            else if marker = 0xda then
              finish (start + 3) (u16_of (buf ! (start + 1)) (buf ! (start + 2)))
            else if marker = 0xdb then
              finish (start + 5)
                (u32_of (buf ! (start + 1)) (buf ! (start + 2)) (buf ! (start + 3)) (buf ! (start + 4)))
            else Inl (KeyNotString marker)))"

fun walkArray :: "(nat \<Rightarrow> structure_error + nat) \<Rightarrow> nat \<Rightarrow> nat \<Rightarrow> structure_error + nat" where
  "walkArray walk 0 pos = Inr pos"
| "walkArray walk (Suc n) pos = rbind (walk pos) (walkArray walk n)"

fun walkMap :: "(nat \<Rightarrow> structure_error + nat) \<Rightarrow> bytes \<Rightarrow> nat \<Rightarrow> jsstring list \<Rightarrow> nat \<Rightarrow> structure_error + nat" where
  "walkMap walk buf 0 keys pos = Inr pos"
| "walkMap walk buf (Suc n) keys keyStart =
     rbind (walk keyStart) (\<lambda>pos.
       rbind (decodeStringKey buf keyStart pos) (\<lambda>key.
         if key \<in> set keys then Inl (DuplicateKey key)
         else rbind (walk pos) (walkMap walk buf n (key # keys))))"

function walkValue :: "bytes \<Rightarrow> nat \<Rightarrow> nat \<Rightarrow> structure_error + nat" where
  "walkValue buf pos0 depth =
     (if depth > MAX_STRUCTURE_DEPTH then Inl NestingLimit
      else rbind (rd_byte buf pos0) (\<lambda>(marker, pos).
        if marker \<le> 0x7f \<or> marker \<ge> 0xe0 then Inr pos
        else if marker = 0xc0 \<or> marker = 0xc2 \<or> marker = 0xc3 then Inr pos
        else if 0x80 \<le> marker \<and> marker \<le> 0x8f then
          walkMap (\<lambda>p. walkValue buf p (depth + 1)) buf (unat (marker AND 0x0f)) [] pos
        else if 0x90 \<le> marker \<and> marker \<le> 0x9f then
          walkArray (\<lambda>p. walkValue buf p (depth + 1)) (unat (marker AND 0x0f)) pos
        else if 0xa0 \<le> marker \<and> marker \<le> 0xbf then skip buf pos (unat (marker AND 0x1f))
        else if marker = 0xd9 then rbind (readU8 buf pos) (\<lambda>(n, pos). skip buf pos n)
        else if marker = 0xda then rbind (readU16 buf pos) (\<lambda>(n, pos). skip buf pos n)
        else if marker = 0xdb then rbind (readU32 buf pos) (\<lambda>(n, pos). skip buf pos n)
        else if marker = 0xc4 then rbind (readU8 buf pos) (\<lambda>(n, pos). skip buf pos n)
        else if marker = 0xc5 then rbind (readU16 buf pos) (\<lambda>(n, pos). skip buf pos n)
        else if marker = 0xc6 then rbind (readU32 buf pos) (\<lambda>(n, pos). skip buf pos n)
        else if marker = 0xca \<or> marker = 0xce \<or> marker = 0xd2 then skip buf pos 4
        else if marker = 0xcb \<or> marker = 0xcf \<or> marker = 0xd3 then skip buf pos 8
        else if marker = 0xcc \<or> marker = 0xd0 then skip buf pos 1
        else if marker = 0xcd \<or> marker = 0xd1 then skip buf pos 2
        else if marker = 0xd4 then skip buf pos 2
        else if marker = 0xd5 then skip buf pos 3
        else if marker = 0xd6 then skip buf pos 5
        else if marker = 0xd7 then skip buf pos 9
        else if marker = 0xd8 then skip buf pos 17
        else if marker = 0xc7 then rbind (readU8 buf pos) (\<lambda>(n, pos). skip buf pos (n + 1))
        else if marker = 0xc8 then rbind (readU16 buf pos) (\<lambda>(n, pos). skip buf pos (n + 1))
        else if marker = 0xc9 then rbind (readU32 buf pos) (\<lambda>(n, pos). skip buf pos (n + 1))
        else if marker = 0xdc then
          rbind (readU16 buf pos) (\<lambda>(n, pos). walkArray (\<lambda>p. walkValue buf p (depth + 1)) n pos)
        else if marker = 0xdd then
          rbind (readU32 buf pos) (\<lambda>(n, pos). walkArray (\<lambda>p. walkValue buf p (depth + 1)) n pos)
        else if marker = 0xde then
          rbind (readU16 buf pos) (\<lambda>(n, pos). walkMap (\<lambda>p. walkValue buf p (depth + 1)) buf n [] pos)
        else if marker = 0xdf then
          rbind (readU32 buf pos) (\<lambda>(n, pos). walkMap (\<lambda>p. walkValue buf p (depth + 1)) buf n [] pos)
        else Inl (InvalidMarker marker (pos - 1))))"
  by pat_completeness auto
termination
  by (relation "measure (\<lambda>(_, _, depth). MAX_STRUCTURE_DEPTH + 1 - depth)") auto

declare walkValue.simps [simp del]

definition validateMessagePackStructure :: "bytes \<Rightarrow> structure_error + unit" where
  "validateMessagePackStructure payload =
     rbind (walkValue payload 0 0) (\<lambda>pos.
       if pos \<noteq> length payload then Inl (TrailingBytes (length payload - pos)) else Inr ())"

section \<open>The grammar\<close>

text \<open>
  How a marker byte determines the rest of a value: a fixed number of further bytes, a
  big-endian length field of a given width followed by that many bytes (plus the type byte
  of an extension), or an array or map with its count in the marker or in a length field.
\<close>

datatype shape =
    Fixed nat
  | Sized nat nat
  | ArrayFix nat
  | ArraySized nat
  | MapFix nat
  | MapSized nat

text \<open>The format table of MessagePack for the markers \<open>0xc0\<close> to \<open>0xdf\<close>.\<close>

definition mp_table :: "shape option list" where
  "mp_table =
    [Some (Fixed 0), None, Some (Fixed 0), Some (Fixed 0),
     Some (Sized 1 0), Some (Sized 2 0), Some (Sized 4 0),
     Some (Sized 1 1), Some (Sized 2 1), Some (Sized 4 1),
     Some (Fixed 4), Some (Fixed 8),
     Some (Fixed 1), Some (Fixed 2), Some (Fixed 4), Some (Fixed 8),
     Some (Fixed 1), Some (Fixed 2), Some (Fixed 4), Some (Fixed 8),
     Some (Fixed 2), Some (Fixed 3), Some (Fixed 5), Some (Fixed 9), Some (Fixed 17),
     Some (Sized 1 0), Some (Sized 2 0), Some (Sized 4 0),
     Some (ArraySized 2), Some (ArraySized 4), Some (MapSized 2), Some (MapSized 4)]"

definition mp_format :: "byte \<Rightarrow> shape option" where
  "mp_format b =
    (let m = unat b in
     if m < 0x80 then Some (Fixed 0)
     else if m < 0x90 then Some (MapFix (m - 0x80))
     else if m < 0xa0 then Some (ArrayFix (m - 0x90))
     else if m < 0xc0 then Some (Fixed (m - 0xa0))
     else if m < 0xe0 then mp_table ! (m - 0xc0)
     else Some (Fixed 0))"

definition be_value :: "bytes \<Rightarrow> nat" where
  "be_value bs = foldl (\<lambda>acc b. acc * 256 + unat b) 0 bs"

text \<open>
  The bytes in front of the payload or of the elements, and the length or count they give:
  \<open>leaf_header h n\<close> for a value without nested values, \<open>array_header\<close> and \<open>map_header\<close> for
  the containers.
\<close>

inductive leaf_header :: "bytes \<Rightarrow> nat \<Rightarrow> bool" where
  "mp_format b = Some (Fixed n) \<Longrightarrow> leaf_header [b] n"
| "mp_format b = Some (Sized w x) \<Longrightarrow> length bs = w \<Longrightarrow> leaf_header (b # bs) (be_value bs + x)"

inductive array_header :: "bytes \<Rightarrow> nat \<Rightarrow> bool" where
  "mp_format b = Some (ArrayFix n) \<Longrightarrow> array_header [b] n"
| "mp_format b = Some (ArraySized w) \<Longrightarrow> length bs = w \<Longrightarrow> array_header (b # bs) (be_value bs)"

inductive map_header :: "bytes \<Rightarrow> nat \<Rightarrow> bool" where
  "mp_format b = Some (MapFix n) \<Longrightarrow> map_header [b] n"
| "mp_format b = Some (MapSized w) \<Longrightarrow> length bs = w \<Longrightarrow> map_header (b # bs) (be_value bs)"

text \<open>\<open>key_text k\<close> is the text of a string value, \<open>None\<close> for a value of another type.\<close>

definition key_text :: "bytes \<Rightarrow> jsstring option" where
  "key_text k =
    (case k of
       [] \<Rightarrow> None
     | b # bs \<Rightarrow>
         if 0xa0 \<le> unat b \<and> unat b < 0xc0 then Some (utf8_decode bs)
         else if b = 0xd9 then Some (utf8_decode (drop 1 bs))
         else if b = 0xda then Some (utf8_decode (drop 2 bs))
         else if b = 0xdb then Some (utf8_decode (drop 4 bs))
         else None)"

inductive mp_value :: "nat \<Rightarrow> bytes \<Rightarrow> bool" where
  mp_leaf: "\<lbrakk>d \<le> MAX_STRUCTURE_DEPTH; leaf_header h n; length bs = n\<rbrakk> \<Longrightarrow> mp_value d (h @ bs)"
| mp_array: "\<lbrakk>d \<le> MAX_STRUCTURE_DEPTH; array_header h (length vs);
      \<forall>v \<in> set vs. mp_value (d + 1) v\<rbrakk> \<Longrightarrow> mp_value d (h @ concat vs)"
| mp_map: "\<lbrakk>d \<le> MAX_STRUCTURE_DEPTH; map_header h (length kvs);
      \<forall>kv \<in> set kvs. mp_value (d + 1) (fst kv) \<and> mp_value (d + 1) (snd kv);
      \<forall>kv \<in> set kvs. key_text (fst kv) \<noteq> None;
      distinct (map (key_text \<circ> fst) kvs)\<rbrakk>
      \<Longrightarrow> mp_value d (h @ concat (map (\<lambda>kv. fst kv @ snd kv) kvs))"

section \<open>Readers\<close>

definition read_be :: "nat \<Rightarrow> bytes \<Rightarrow> nat \<Rightarrow> structure_error + (nat \<times> nat)" where
  "read_be w buf pos = rbind (rd_take buf pos w) (\<lambda>(bs, pos'). Inr (be_value bs, pos'))"

lemma be_value_simps:
  "be_value [a] = unat a"
  "be_value [a, b] = u16_of a b"
  "be_value [a, b, c, d] = u32_of a b c d"
  by (simp_all add: be_value_def u16_of_eq u32_of_eq)

lemma read_be_1: "readU8 = read_be 1"
  by (intro ext) (auto simp: readU8_def read_be_def rd_byte_def rd_take_def window_1 be_value_simps
      rbind_def not_le split: sum.splits)

lemma read_be_2: "readU16 = read_be 2"
  by (intro ext) (auto simp: readU16_def read_be_def rd_take_def window_2 be_value_simps)

lemma read_be_4: "readU32 = read_be 4"
  by (intro ext) (auto simp: readU32_def read_be_def rd_take_def window_4 be_value_simps)

interpretation be_reader: fixed_reader "read_be w" w be_value for w
  by unfold_locales (auto simp: read_be_def rd_take_def)

interpretation byte_reader: fixed_reader rd_byte 1 "\<lambda>bs. bs ! 0"
  by unfold_locales (auto simp: rd_byte_def rd_take_def window_1 not_le)

lemma skip_iff: "skip buf pos n = Inr q \<longleftrightarrow> pos + n \<le> length buf \<and> q = pos + n"
  by (auto simp: skip_def rd_take_def)

section \<open>The walk follows the format table\<close>

lemma walkValue_shape:
  assumes d: "depth \<le> MAX_STRUCTURE_DEPTH" and p: "pos < length buf"
  shows "walkValue buf pos depth =
    (case mp_format (buf ! pos) of
       None \<Rightarrow> Inl (InvalidMarker (buf ! pos) pos)
     | Some (Fixed n) \<Rightarrow> skip buf (pos + 1) n
     | Some (Sized w x) \<Rightarrow> rbind (read_be w buf (pos + 1)) (\<lambda>(n, q). skip buf q (n + x))
     | Some (ArrayFix n) \<Rightarrow> walkArray (\<lambda>q. walkValue buf q (depth + 1)) n (pos + 1)
     | Some (ArraySized w) \<Rightarrow>
         rbind (read_be w buf (pos + 1)) (\<lambda>(n, q). walkArray (\<lambda>q. walkValue buf q (depth + 1)) n q)
     | Some (MapFix n) \<Rightarrow> walkMap (\<lambda>q. walkValue buf q (depth + 1)) buf n [] (pos + 1)
     | Some (MapSized w) \<Rightarrow>
         rbind (read_be w buf (pos + 1))
           (\<lambda>(n, q). walkMap (\<lambda>q. walkValue buf q (depth + 1)) buf n [] q))"
proof -
  define m where "m = unat (buf ! pos)"
  have m: "m < 256" unfolding m_def by (rule unat_byte)
  have rd: "rd_byte buf pos = Inr (buf ! pos, pos + 1)"
    using p by (simp add: rd_byte_def)
  have sk: "skip buf q 0 = Inr q" if "q \<le> length buf" for q
    using that by (simp add: skip_iff)
  note unf = walkValue.simps [of buf pos depth] rd mp_format_def Let_def word_le_nat_alt
    word_unat_eq_iff unat_and_15 unat_and_31 read_be_1 read_be_2 read_be_4 sk
  consider "m < 0x80" | "0x80 \<le> m" "m < 0x90" | "0x90 \<le> m" "m < 0xa0" | "0xa0 \<le> m" "m < 0xc0"
    | "0xc0 \<le> m" "m < 0xe0" | "0xe0 \<le> m"
    using m by linarith
  then show ?thesis
  proof cases
    case 5
    then have "m = 0xc0 \<or> m = 0xc1 \<or> m = 0xc2 \<or> m = 0xc3 \<or> m = 0xc4 \<or> m = 0xc5 \<or>
      m = 0xc6 \<or> m = 0xc7 \<or> m = 0xc8 \<or> m = 0xc9 \<or> m = 0xca \<or> m = 0xcb \<or>
      m = 0xcc \<or> m = 0xcd \<or> m = 0xce \<or> m = 0xcf \<or> m = 0xd0 \<or> m = 0xd1 \<or>
      m = 0xd2 \<or> m = 0xd3 \<or> m = 0xd4 \<or> m = 0xd5 \<or> m = 0xd6 \<or> m = 0xd7 \<or>
      m = 0xd8 \<or> m = 0xd9 \<or> m = 0xda \<or> m = 0xdb \<or> m = 0xdc \<or> m = 0xdd \<or>
      m = 0xde \<or> m = 0xdf"
      by presburger
    then show ?thesis
      using d p by (elim disjE) (simp_all add: unf mp_table_def flip: m_def)
  qed (use d p in \<open>simp add: unf mod_if flip: m_def\<close>)+
qed

section \<open>Keys\<close>

lemma mp_value_header:
  "mp_value d v \<Longrightarrow> \<exists>b bs. v = b # bs"
  by (erule mp_value.cases) (auto elim!: leaf_header.cases array_header.cases map_header.cases)

lemma mp_format_str:
  "0xa0 \<le> unat b \<Longrightarrow> unat b < 0xc0 \<Longrightarrow> mp_format b = Some (Fixed (unat b - 0xa0))"
  "mp_format 0xd9 = Some (Sized 1 0)"
  "mp_format 0xda = Some (Sized 2 0)"
  "mp_format 0xdb = Some (Sized 4 0)"
  by (simp_all add: mp_format_def mp_table_def)

text \<open>A value whose marker is a string marker is that marker, its length field and its text.\<close>

lemma string_value_leaf:
  assumes "mp_value d (b # bs)"
  shows "0xa0 \<le> unat b \<Longrightarrow> unat b < 0xc0 \<Longrightarrow> length bs = unat b - 0xa0"
    and "b = 0xd9 \<Longrightarrow> \<exists>l ts. bs = l # ts \<and> length ts = unat l"
    and "b = 0xda \<Longrightarrow> \<exists>l m ts. bs = l # m # ts \<and> length ts = u16_of l m"
    and "b = 0xdb \<Longrightarrow> \<exists>l m n k ts. bs = l # m # n # k # ts \<and> length ts = u32_of l m n k"
  using assms
  by (auto simp: mp_format_str be_value_simps Suc_length_conv length_Suc_conv numeral_eq_Suc
      elim!: mp_value.cases leaf_header.cases array_header.cases map_header.cases)

lemma nth_embed: "(p @ k @ s) ! (length p + i) = (if i < length k then k ! i else s ! (i - length k))"
  by (simp add: nth_append)

lemma nth_embed_0: "(p @ (b # bs) @ s) ! length p = b"
  by simp

lemma window_embed_tail:
  "window (p @ (h @ ts) @ s) (length p + length h) (length ts) = ts"
  using window_embed [of "p @ h" ts s] by simp

lemma decode_key:
  assumes v: "mp_value d k"
  shows "decodeStringKey (p @ k @ s) (length p) (length p + length k) =
    (case key_text k of Some t \<Rightarrow> Inr t | None \<Rightarrow> Inl (KeyNotString (hd k)))"
proof -
  obtain b bs where k: "k = b # bs" using mp_value_header [OF v] by blast
  note sv = string_value_leaf [OF v [unfolded k]]
  consider (fixstr) "0xa0 \<le> unat b" "unat b < 0xc0" | (s8) "b = 0xd9" | (s16) "b = 0xda" | (s32) "b = 0xdb"
    | (other) "\<not> (0xa0 \<le> unat b \<and> unat b < 0xc0)" "b \<noteq> 0xd9" "b \<noteq> 0xda" "b \<noteq> 0xdb"
    by blast
  then show ?thesis
  proof cases
    case fixstr
    have "window (p @ k @ s) (length p + 1) (length bs) = bs"
      using window_embed_tail [of p "[b]" bs s] by (simp add: k)
    moreover have "unat (b AND 0x1f) = length bs"
      using fixstr sv(1) by (simp add: unat_and_31 mod_if)
    ultimately show ?thesis
      using fixstr by (simp add: decodeStringKey_def key_text_def k Let_def word_le_nat_alt)
  next
    case s8
    then obtain l ts where bs: "bs = l # ts" "length ts = unat l" using sv(2) by blast
    have "window (p @ k @ s) (length p + 2) (length ts) = ts"
      using window_embed_tail [of p "[b, l]" ts s] by (simp add: k bs)
    with bs s8 show ?thesis
      by (simp add: decodeStringKey_def key_text_def k Let_def word_le_nat_alt nth_append)
  next
    case s16
    then obtain l m ts where bs: "bs = l # m # ts" "length ts = u16_of l m" using sv(3) by blast
    have "window (p @ k @ s) (length p + 3) (length ts) = ts"
      using window_embed_tail [of p "[b, l, m]" ts s] by (simp add: k bs eval_nat_numeral)
    with bs s16 show ?thesis
      by (simp add: decodeStringKey_def key_text_def k Let_def word_le_nat_alt nth_append)
  next
    case s32
    then obtain l m n o' ts where bs: "bs = l # m # n # o' # ts" "length ts = u32_of l m n o'"
      using sv(4) by blast
    have "window (p @ k @ s) (length p + 5) (length ts) = ts"
      using window_embed_tail [of p "[b, l, m, n, o']" ts s] by (simp add: k bs eval_nat_numeral)
    with bs s32 show ?thesis
      by (simp add: decodeStringKey_def key_text_def k Let_def word_le_nat_alt nth_append)
  next
    case other
    then show ?thesis
      by (auto simp: decodeStringKey_def key_text_def k Let_def word_le_nat_alt)
  qed
qed

section \<open>Every value of the grammar is accepted\<close>

lemma walkArray_complete:
  assumes "\<forall>v \<in> set vs. \<forall>p s. W (p @ v @ s) (length p) = Inr (length p + length v)"
  shows "walkArray (W (p @ concat vs @ s)) (length vs) (length p) = Inr (length p + length (concat vs))"
  using assms
proof (induction vs arbitrary: p)
  case (Cons v vs)
  then show ?case
    using Cons.IH [of "p @ v"] by (simp add: add.assoc)
qed simp

lemma walkMap_complete:
  assumes "\<forall>kv \<in> set kvs. \<forall>v \<in> {fst kv, snd kv}. \<forall>p s. W (p @ v @ s) (length p) = Inr (length p + length v)"
    and "\<forall>kv \<in> set kvs. mp_value d (fst kv) \<and> key_text (fst kv) \<noteq> None"
    and "distinct (map (key_text \<circ> fst) kvs)"
    and "\<forall>kv \<in> set kvs. key_text (fst kv) \<notin> Some ` set keys"
    and "buf = p @ concat (map (\<lambda>kv. fst kv @ snd kv) kvs) @ s"
  shows "walkMap (W buf) buf (length kvs) keys (length p) =
    Inr (length p + length (concat (map (\<lambda>kv. fst kv @ snd kv) kvs)))"
  using assms
proof (induction kvs arbitrary: p keys)
  case (Cons kv kvs)
  obtain k v where kv: "kv = (k, v)" by (cases kv)
  obtain t where t: "key_text k = Some t" using Cons.prems(2) kv by auto
  define rest where "rest = concat (map (\<lambda>kv. fst kv @ snd kv) kvs) @ s"
  have buf: "buf = p @ k @ v @ rest" using Cons.prems(5) by (simp add: kv rest_def)
  have wk: "W buf (length p) = Inr (length p + length k)"
    using Cons.prems(1) by (simp add: kv buf)
  have Wv: "\<forall>p s. W (p @ v @ s) (length p) = Inr (length p + length v)"
    using Cons.prems(1) by (simp add: kv)
  have wv: "W buf (length p + length k) = Inr (length p + length k + length v)"
    using Wv [rule_format, of "p @ k" rest] by (simp add: buf)
  have dk: "decodeStringKey buf (length p) (length p + length k) = Inr t"
    using decode_key [of d k p "v @ rest"] Cons.prems(2) t by (simp add: kv buf)
  have IH: "walkMap (W buf) buf (length kvs) (t # keys) (length (p @ k @ v)) =
      Inr (length (p @ k @ v) + length (concat (map (\<lambda>kv. fst kv @ snd kv) kvs)))"
  proof (rule Cons.IH)
    show "\<forall>kv \<in> set kvs. \<forall>v \<in> {fst kv, snd kv}. \<forall>p s. W (p @ v @ s) (length p) = Inr (length p + length v)"
      using Cons.prems(1) by simp
    show "\<forall>kv \<in> set kvs. mp_value d (fst kv) \<and> key_text (fst kv) \<noteq> None"
      using Cons.prems(2) by simp
    show "distinct (map (key_text \<circ> fst) kvs)"
      using Cons.prems(3) by (simp add: comp_def)
    show "\<forall>kv \<in> set kvs. key_text (fst kv) \<notin> Some ` set (t # keys)"
      using Cons.prems(3,4) t kv by (metis (no_types, lifting) comp_apply distinct.simps(2) fst_conv
          image_iff list.set_intros(2) list.simps(9) set_ConsD image_eqI set_map)
    show "buf = (p @ k @ v) @ concat (map (\<lambda>kv. fst kv @ snd kv) kvs) @ s"
      by (simp add: buf rest_def)
  qed
  show ?case
    using wk dk wv IH Cons.prems(4) t by (auto simp: kv add.assoc)
qed simp

lemma header_read:
  "mp_format b = Some sh \<Longrightarrow> length bs = w \<Longrightarrow>
     read_be w (p @ (b # bs) @ s) (length p + 1) = Inr (be_value bs, length p + 1 + w)"
  using be_reader.rd_embed [of bs w "p @ [b]" s] by simp

lemma walkValue_complete:
  "mp_value d v \<Longrightarrow> walkValue (p @ v @ s) (length p) d = Inr (length p + length v)"
proof (induction arbitrary: p s rule: mp_value.induct)
  case (mp_leaf d h n bs)
  from mp_leaf(2) show ?case
  proof cases
    case (1 b)
    with mp_leaf show ?thesis
      by (simp add: walkValue_shape skip_iff)
  next
    case (2 b w x ls)
    have "read_be w (p @ (b # ls) @ bs @ s) (length p + 1) = Inr (be_value ls, length p + 1 + w)"
      using 2 by (intro header_read)
    with 2 mp_leaf show ?thesis
      by (simp add: walkValue_shape skip_iff)
  qed
next
  case (mp_array d h vs)
  define W where "W = (\<lambda>buf q. walkValue buf q (d + 1))"
  have W: "\<forall>v \<in> set vs. \<forall>p s. W (p @ v @ s) (length p) = Inr (length p + length v)"
    using mp_array.IH by (simp add: W_def)
  have arr: "walkArray (W (p @ (h @ concat vs) @ s)) (length vs) (length (p @ h)) =
      Inr (length (p @ h) + length (concat vs))"
    using walkArray_complete [OF W, of "p @ h" s] by simp
  from mp_array.hyps(2) show ?case
  proof cases
    case (1 b)
    with arr mp_array.hyps(1) show ?thesis
      by (simp add: walkValue_shape W_def)
  next
    case (2 b w ls)
    have "read_be w (p @ (b # ls) @ concat vs @ s) (length p + 1) = Inr (be_value ls, length p + 1 + w)"
      using 2 by (intro header_read)
    with 2 arr mp_array.hyps(1) show ?thesis
      by (simp add: walkValue_shape W_def add.assoc)
  qed
next
  case (mp_map d h kvs)
  define W where "W = (\<lambda>buf q. walkValue buf q (d + 1))"
  define body where "body = concat (map (\<lambda>kv. fst kv @ snd kv) kvs)"
  have "walkMap (W (p @ (h @ body) @ s)) (p @ (h @ body) @ s) (length kvs) [] (length (p @ h)) =
      Inr (length (p @ h) + length body)"
    unfolding body_def
    by (rule walkMap_complete [where d = "d + 1" and s = s])
      (use mp_map.IH mp_map.hyps in \<open>auto simp: W_def\<close>)
  note mp = this [unfolded W_def]
  from mp_map.hyps(2) have "walkValue (p @ (h @ body) @ s) (length p) d = Inr (length (p @ h) + length body)"
  proof cases
    case (1 b)
    with mp mp_map.hyps(1) show ?thesis
      by (simp add: walkValue_shape)
  next
    case (2 b w ls)
    have "read_be w (p @ (b # ls) @ body @ s) (length p + 1) = Inr (be_value ls, length p + 1 + w)"
      using 2 by (intro header_read)
    with 2 mp mp_map.hyps(1) show ?thesis
      by (simp add: walkValue_shape add.assoc)
  qed
  then show ?case by (simp add: body_def)
qed

section \<open>Only values of the grammar are accepted\<close>

text \<open>\<open>reads V buf pos q\<close>: between \<open>pos\<close> and \<open>q\<close> the buffer holds bytes that satisfy \<open>V\<close>.\<close>

definition reads :: "(bytes \<Rightarrow> bool) \<Rightarrow> bytes \<Rightarrow> nat \<Rightarrow> nat \<Rightarrow> bool" where
  "reads V buf pos q \<longleftrightarrow> pos \<le> q \<and> q \<le> length buf \<and> V (window buf pos (q - pos))"

lemma reads_seq:
  assumes "reads V buf pos q" and "reads V' buf q r"
  shows "reads (\<lambda>bs. \<exists>xs ys. bs = xs @ ys \<and> V xs \<and> V' ys) buf pos r"
proof -
  have "window buf pos (r - pos) = window buf pos (q - pos) @ window buf q (r - q)"
    using assms window_append [of pos "q - pos" "r - q" buf] by (simp add: reads_def)
  with assms show ?thesis unfolding reads_def by (metis le_trans)
qed

lemma reads_mono: "reads V buf pos q \<Longrightarrow> (\<And>bs. V bs \<Longrightarrow> V' bs) \<Longrightarrow> reads V' buf pos q"
  by (auto simp: reads_def)

lemma reads_Nil: "pos \<le> length buf \<Longrightarrow> reads (\<lambda>bs. bs = []) buf pos pos"
  by (simp add: reads_def)

lemma walkArray_sound:
  assumes "\<And>p q. W p = Inr q \<Longrightarrow> reads V buf p q"
  shows "walkArray W n pos = Inr q \<Longrightarrow> pos \<le> length buf \<Longrightarrow>
    reads (\<lambda>bs. \<exists>vs. bs = concat vs \<and> length vs = n \<and> (\<forall>v \<in> set vs. V v)) buf pos q"
proof (induction n arbitrary: pos)
  case 0
  then show ?case by (auto intro: reads_mono [OF reads_Nil])
next
  case (Suc n)
  then obtain r where r: "W pos = Inr r" "walkArray W n r = Inr q"
    by (auto simp: rbind_eq_Inr)
  have 1: "reads V buf pos r" using r(1) by (rule assms)
  then have "r \<le> length buf" by (simp add: reads_def)
  note 2 = Suc.IH [OF r(2) this]
  show ?case
    by (rule reads_mono [OF reads_seq [OF 1 2]]) (metis concat.simps(2) length_Cons set_ConsD)
qed

lemma walkMap_sound:
  assumes W: "\<And>p q. W p = Inr q \<Longrightarrow> reads (mp_value d) buf p q"
  shows "walkMap W buf n keys pos = Inr q \<Longrightarrow> pos \<le> length buf \<Longrightarrow>
    reads (\<lambda>bs. \<exists>kvs. bs = concat (map (\<lambda>kv. fst kv @ snd kv) kvs) \<and> length kvs = n \<and>
      (\<forall>kv \<in> set kvs. mp_value d (fst kv) \<and> mp_value d (snd kv)) \<and>
      (\<forall>kv \<in> set kvs. key_text (fst kv) \<noteq> None \<and> key_text (fst kv) \<notin> Some ` set keys) \<and>
      distinct (map (key_text \<circ> fst) kvs)) buf pos q"
proof (induction n arbitrary: keys pos)
  case 0
  then show ?case by (auto intro: reads_mono [OF reads_Nil])
next
  case (Suc n)
  then obtain r t s where r: "W pos = Inr r" and t: "decodeStringKey buf pos r = Inr t"
    and tk: "t \<notin> set keys" and s: "W r = Inr s" and rest: "walkMap W buf n (t # keys) s = Inr q"
    by (auto simp: rbind_eq_Inr split: if_splits)
  define k where "k = window buf pos (r - pos)"
  have 1: "reads (\<lambda>bs. bs = k \<and> mp_value d bs) buf pos r"
    using W [OF r] by (simp add: reads_def k_def)
  have buf: "buf = take pos buf @ k @ drop r buf" and len: "pos + length k = r" "length (take pos buf) = pos"
    using W [OF r] window_split [of pos "r - pos" buf] by (auto simp: reads_def k_def)
  have "mp_value d k"
    using W [OF r] by (simp add: reads_def k_def)
  then have kt: "key_text k = Some t"
    using decode_key [of d k "take pos buf" "drop r buf"] t len
    by (simp flip: buf split: option.splits)
  have 2: "reads (mp_value d) buf r s" using s by (rule W)
  then have "s \<le> length buf" by (simp add: reads_def)
  note 3 = Suc.IH [OF rest this]
  show ?case
  proof (rule reads_mono [OF reads_seq [OF 1 reads_seq [OF 2 3]]], elim exE conjE)
    fix bs xs ys xs' ys' kvs
    assume "bs = xs @ ys" "xs = k" "mp_value d xs" "ys = xs' @ ys'" "mp_value d xs'"
      "ys' = concat (map (\<lambda>kv. fst kv @ snd kv) kvs)" "length kvs = n"
      "\<forall>kv \<in> set kvs. mp_value d (fst kv) \<and> mp_value d (snd kv)"
      "\<forall>kv \<in> set kvs. key_text (fst kv) \<noteq> None \<and> key_text (fst kv) \<notin> Some ` set (t # keys)"
      "distinct (map (key_text \<circ> fst) kvs)"
    then show "\<exists>kvs. bs = concat (map (\<lambda>kv. fst kv @ snd kv) kvs) \<and> length kvs = Suc n \<and>
      (\<forall>kv \<in> set kvs. mp_value d (fst kv) \<and> mp_value d (snd kv)) \<and>
      (\<forall>kv \<in> set kvs. key_text (fst kv) \<noteq> None \<and> key_text (fst kv) \<notin> Some ` set keys) \<and>
      distinct (map (key_text \<circ> fst) kvs)"
      using kt tk by (intro exI [of _ "(k, xs') # kvs"]) (auto simp: comp_def image_iff)
  qed
qed

lemma reads_marker: "pos < length buf \<Longrightarrow> reads (\<lambda>bs. bs = [buf ! pos]) buf pos (pos + 1)"
  by (simp add: reads_def window_1)

lemma reads_field:
  "read_be w buf pos = Inr (n, q) \<Longrightarrow> reads (\<lambda>bs. length bs = w \<and> be_value bs = n) buf pos q"
  by (simp add: be_reader.rd_iff reads_def)

lemma reads_skip: "skip buf pos n = Inr q \<Longrightarrow> reads (\<lambda>bs. length bs = n) buf pos q"
  by (simp add: skip_iff reads_def)

lemma reads_header:
  assumes "pos < length buf" "read_be w buf (pos + 1) = Inr (n, q)"
  shows "reads (\<lambda>bs. \<exists>ls. bs = buf ! pos # ls \<and> length ls = w \<and> be_value ls = n) buf pos q"
  by (rule reads_mono [OF reads_seq [OF reads_marker [OF assms(1)] reads_field [OF assms(2)]]]) auto

lemma reads_bound: "reads V buf pos q \<Longrightarrow> q \<le> length buf"
  by (simp add: reads_def)

lemma walkValue_sound:
  "walkValue buf pos d = Inr q \<Longrightarrow> reads (mp_value d) buf pos q"
proof (induction "MAX_STRUCTURE_DEPTH + 1 - d" arbitrary: d pos q rule: less_induct)
  case less
  have d: "d \<le> MAX_STRUCTURE_DEPTH"
    using less.prems by (simp add: walkValue.simps [of buf pos d] split: if_splits)
  have p: "pos < length buf"
    using less.prems d by (rule_tac ccontr) (simp add: walkValue.simps [of buf pos d] rd_byte_def rd_take_def)
  have W: "reads (mp_value (d + 1)) buf p' q'" if "walkValue buf p' (d + 1) = Inr q'" for p' q'
    using less.hyps [of "d + 1"] d that by simp
  note arr = walkArray_sound [where W = "\<lambda>q. walkValue buf q (d + 1)", OF W]
  note mp = walkMap_sound [where W = "\<lambda>q. walkValue buf q (d + 1)", OF W]
  note w = less.prems [unfolded walkValue_shape [OF d p]]
  note marker = reads_marker [OF p]
  show ?case
  proof (cases "mp_format (buf ! pos)")
    case None
    with w show ?thesis by simp
  next
    case (Some sh)
    note fmt = Some
    show ?thesis
    proof (cases sh)
      case (Fixed n)
      with w fmt have "skip buf (pos + 1) n = Inr q" by simp
      from reads_seq [OF marker reads_skip [OF this]] show ?thesis
        by (rule reads_mono) (use fmt Fixed d in \<open>auto intro: mp_leaf [where h = "[_]", simplified] leaf_header.intros\<close>)
    next
      case (Sized k x)
      with w fmt obtain n r where r: "read_be k buf (pos + 1) = Inr (n, r)" "skip buf r (n + x) = Inr q"
        by (auto simp: rbind_eq_Inr)
      from reads_seq [OF reads_header [OF p r(1)] reads_skip [OF r(2)]] show ?thesis
        by (rule reads_mono) (use fmt Sized d in \<open>auto intro!: mp_leaf [where h = "_ # _", simplified] leaf_header.intros\<close>)
    next
      case (ArrayFix n)
      with w fmt have "walkArray (\<lambda>q. walkValue buf q (d + 1)) n (pos + 1) = Inr q" by simp
      from reads_seq [OF marker arr [OF _ this]] p show ?thesis
        by (auto elim!: reads_mono intro!: mp_array [where h = "[_]", simplified] array_header.intros simp: fmt ArrayFix d)
    next
      case (ArraySized k)
      with w fmt obtain n r where r: "read_be k buf (pos + 1) = Inr (n, r)"
        "walkArray (\<lambda>q. walkValue buf q (d + 1)) n r = Inr q"
        by (auto simp: rbind_eq_Inr)
      note hd = reads_header [OF p r(1)]
      from reads_seq [OF hd arr [OF _ r(2)]] reads_bound [OF hd] show ?thesis
        by (auto elim!: reads_mono intro!: mp_array [where h = "_ # _", simplified] array_header.intros(2) [OF _ refl] simp: fmt ArraySized d)
    next
      case (MapFix n)
      with w fmt have "walkMap (\<lambda>q. walkValue buf q (d + 1)) buf n [] (pos + 1) = Inr q" by simp
      from reads_seq [OF marker mp [OF _ this]] p show ?thesis
        by (auto elim!: reads_mono intro!: mp_map [where h = "[_]", simplified] map_header.intros simp: fmt MapFix d)
    next
      case (MapSized k)
      with w fmt obtain n r where r: "read_be k buf (pos + 1) = Inr (n, r)"
        "walkMap (\<lambda>q. walkValue buf q (d + 1)) buf n [] r = Inr q"
        by (auto simp: rbind_eq_Inr)
      note hd = reads_header [OF p r(1)]
      from reads_seq [OF hd mp [OF _ r(2)]] reads_bound [OF hd] show ?thesis
        by (auto elim!: reads_mono intro!: mp_map [where h = "_ # _", simplified] map_header.intros(2) [OF _ refl] simp: fmt MapSized d)
    qed
  qed
qed

section \<open>Properties\<close>

text \<open>
  C18. The validator accepts a payload exactly when the payload is one complete MessagePack
  value of the grammar: no truncation, no trailing bytes, no marker outside the format
  table, nesting of at most 512 levels, and in every map at any depth only string keys that
  are pairwise different as text. It always returns a verdict.
\<close>

theorem validate_iff_grammar:
  "validateMessagePackStructure payload = Inr () \<longleftrightarrow> mp_value 0 payload"
proof
  assume "validateMessagePackStructure payload = Inr ()"
  then have "walkValue payload 0 0 = Inr (length payload)"
    by (auto simp: validateMessagePackStructure_def rbind_eq_Inr split: if_splits)
  then have "reads (mp_value 0) payload 0 (length payload)"
    by (rule walkValue_sound)
  then show "mp_value 0 payload"
    by (simp add: reads_def window_def)
next
  assume "mp_value 0 payload"
  then have "walkValue payload 0 0 = Inr (length payload)"
    using walkValue_complete [of 0 payload "[]" "[]"] by simp
  then show "validateMessagePackStructure payload = Inr ()"
    by (simp add: validateMessagePackStructure_def)
qed

text \<open>
  A walk is local and makes progress: it accepts the bytes of one value whatever
  precedes and follows them, and stops exactly behind them, after at least one byte and
  never beyond the buffer.
\<close>

theorem walk_local_progress:
  assumes "walkValue buf pos d = Inr q"
  shows "pos < q \<and> q \<le> length buf \<and>
    walkValue (p @ window buf pos (q - pos) @ s) (length p) d = Inr (length p + (q - pos))"
proof -
  have r: "pos \<le> q" "q \<le> length buf" and v: "mp_value d (window buf pos (q - pos))"
    using walkValue_sound [OF assms] by (auto simp: reads_def)
  have "window buf pos (q - pos) \<noteq> []"
    using mp_value_header [OF v] by auto
  then have "pos < q" using r by (cases "pos = q") auto
  with r walkValue_complete [OF v, of p s] show ?thesis by simp
qed

theorem walk_local_progress_witness:
  "walkValue ([0xff] @ window [0x92, 0x01, 0xc0, 0x05] 0 (3 - 0) @ []) (length [0xff :: byte]) 0 =
     Inr (length [0xff :: byte] + (3 - 0))"
proof -
  have "walkValue [0x92, 0x01, 0xc0, 0x05] 0 0 = Inr 3"
    by code_simp
  from walk_local_progress [OF this, of "[0xff]" "[]"] show ?thesis by blast
qed

end
