(* ===== verification/CommandCodec.thy ===== *)
theory CommandCodec
  imports MsgStructure Complex_Main
begin

text \<open>
  \<^verbatim>\<open>packages/core/src/protocol/command.ts\<close>, and the comparison of two decoded results in
  \<^verbatim>\<open>packages/core/src/queue/result.ts\<close>. MessagePack decoding and encoding
  (\<^verbatim>\<open>@msgpack/msgpack\<close>) and schema validation (\<^verbatim>\<open>zod\<close>) are parameters: \<open>dec\<close>, \<open>enc\<close> and
  \<open>safeParse\<close>. The lemmas show that the comparison is reflexive and symmetric, and that on
  integers a double represents exactly it compares numeric values.
\<close>

section \<open>Decoded values\<close>

text \<open>A finite double is the rational it denotes.\<close>

datatype jsnum = Fin rat | PosInf | NegInf | NaN

datatype jsval =
    JNull
  | JStr jsstring
  | JBytes bytes
  | JBig int
  | JNum jsnum
  | JBool bool
  | JArr "jsval list"
  | JObj "(jsstring \<times> jsval) list"

type_synonym argument = "(jsstring \<times> jsval) list"

text \<open>\<open>None\<close> stands for an absent or null argument list.\<close>

record DeviceCommand =
  cmd :: jsstring
  cargs :: "argument list option"

record DeviceCommandExecution =
  xid :: bytes
  xseq :: int
  xcmd :: jsstring
  xargs :: "argument list option"

record DeviceCommandResult =
  rid :: bytes
  rseq :: int
  rcode :: int
  rpayload :: "argument list option"

datatype CommandPayloadError = BadStructure structure_error | BadMsgpack | BadSchema

section \<open>Decoding and encoding\<close>

definition decodeExact ::
    "(bytes \<Rightarrow> jsval option) \<Rightarrow> (jsval \<Rightarrow> 'a option) \<Rightarrow> bytes \<Rightarrow> CommandPayloadError + 'a" where
  "decodeExact dec safeParse payload =
     (case validateMessagePackStructure payload of
        Inl e \<Rightarrow> Inl (BadStructure e)
      | Inr _ \<Rightarrow>
          (case dec payload of
             None \<Rightarrow> Inl BadMsgpack
           | Some v \<Rightarrow> (case safeParse v of None \<Rightarrow> Inl BadSchema | Some r \<Rightarrow> Inr r)))"

definition decodeDeviceCommandExecution ::
    "(bytes \<Rightarrow> jsval option) \<Rightarrow> (jsval \<Rightarrow> DeviceCommandExecution option) \<Rightarrow> bytes
       \<Rightarrow> CommandPayloadError + DeviceCommandExecution" where
  "decodeDeviceCommandExecution dec safeParse = decodeExact dec safeParse"

definition decodeDeviceCommandResult ::
    "(bytes \<Rightarrow> jsval option) \<Rightarrow> (jsval \<Rightarrow> DeviceCommandResult option) \<Rightarrow> bytes
       \<Rightarrow> CommandPayloadError + DeviceCommandResult" where
  "decodeDeviceCommandResult dec safeParse = decodeExact dec safeParse"

definition js_args :: "argument list option \<Rightarrow> jsval" where
  "js_args a = (case a of None \<Rightarrow> JNull | Some as \<Rightarrow> JArr (map JObj as))"

definition encodeDeviceCommandExecution :: "(jsval \<Rightarrow> bytes) \<Rightarrow> DeviceCommandExecution \<Rightarrow> bytes" where
  "encodeDeviceCommandExecution enc c =
     enc (JObj [(js ''id'', JBytes (xid c)), (js ''seq'', JBig (xseq c)), (js ''cmd'', JStr (xcmd c)),
                (js ''args'', js_args (xargs c))])"

definition encodeDeviceCommand :: "(jsval \<Rightarrow> bytes) \<Rightarrow> DeviceCommand \<Rightarrow> bytes" where
  "encodeDeviceCommand enc c = enc (JObj [(js ''cmd'', JStr (cmd c)), (js ''args'', js_args (cargs c))])"

definition encodeDeviceCommandResult :: "(jsval \<Rightarrow> bytes) \<Rightarrow> DeviceCommandResult \<Rightarrow> bytes" where
  "encodeDeviceCommandResult enc r =
     enc (JObj [(js ''id'', JBytes (rid r)), (js ''seq'', JBig (rseq r)), (js ''code'', JNum (Fin (of_int (rcode r)))),
                (js ''payload'', js_args (rpayload r))])"

section \<open>Comparison of results\<close>

fun bit_length :: "nat \<Rightarrow> nat" where
  "bit_length n = (if n = 0 then 0 else Suc (bit_length (n div 2)))"

declare bit_length.simps [simp del]

text \<open>\<^verbatim>\<open>Number(n)\<close> of a bigint: the nearest double, ties to an even significand of 53 bits.\<close>

definition round53 :: "nat \<Rightarrow> nat" where
  "round53 n =
     (let e = bit_length n - 53; q = n div 2 ^ e; r = n mod 2 ^ e in
      (if 2 * r > 2 ^ e \<or> (2 * r = 2 ^ e \<and> e \<noteq> 0 \<and> odd q) then q + 1 else q) * 2 ^ e)"

definition js_Number :: "int \<Rightarrow> jsnum" where
  "js_Number n =
     (let m = round53 (nat \<bar>n\<bar>) in
      if m \<ge> 2 ^ 1024 then (if n > 0 then PosInf else NegInf)
      else Fin (of_int (sgn n * int m)))"

definition js_isInteger :: "jsnum \<Rightarrow> bool" where
  "js_isInteger x = (case x of Fin r \<Rightarrow> snd (quotient_of r) = 1 | _ \<Rightarrow> False)"

text \<open>\<^verbatim>\<open>a === b\<close> on numbers.\<close>

definition js_num_eq :: "jsnum \<Rightarrow> jsnum \<Rightarrow> bool" where
  "js_num_eq x y \<longleftrightarrow> x = y \<and> x \<noteq> NaN"

text \<open>The mixed case: \<^verbatim>\<open>Number(a) === Number(b) || BigInt(a) === BigInt(b)\<close>.\<close>

definition mixed_equal :: "jsnum \<Rightarrow> int \<Rightarrow> bool" where
  "mixed_equal x n \<longleftrightarrow>
     js_isInteger x \<and> (js_num_eq x (js_Number n) \<or> (case x of Fin r \<Rightarrow> \<lfloor>r\<rfloor> = n | _ \<Rightarrow> False))"

text \<open>Arrays and objects of two separately decoded results are distinct objects.\<close>

fun valueEqual :: "jsval \<Rightarrow> jsval \<Rightarrow> bool" where
  "valueEqual (JBytes a) (JBytes b) = (a = b)"
| "valueEqual (JNum x) (JNum y) = (x = NaN \<and> y = NaN \<or> js_num_eq x y)"
| "valueEqual (JNum x) (JBig n) = mixed_equal x n"
| "valueEqual (JBig n) (JNum x) = mixed_equal x n"
| "valueEqual (JBig m) (JBig n) = (m = n)"
| "valueEqual JNull JNull = True"
| "valueEqual (JStr s) (JStr t) = (s = t)"
| "valueEqual (JBool a) (JBool b) = (a = b)"
| "valueEqual _ _ = False"

fun argEqual :: "argument \<Rightarrow> argument \<Rightarrow> bool" where
  "argEqual [(k, v)] [(k', v')] = (k = k' \<and> valueEqual v v')"
| "argEqual _ _ = False"

definition argsEqual :: "argument list option \<Rightarrow> argument list option \<Rightarrow> bool" where
  "argsEqual a b = list_all2 argEqual (case a of None \<Rightarrow> [] | Some as \<Rightarrow> as)
                                      (case b of None \<Rightarrow> [] | Some bs \<Rightarrow> bs)"

definition sameSemanticResult :: "DeviceCommandResult \<Rightarrow> DeviceCommandResult \<Rightarrow> bool" where
  "sameSemanticResult a b \<longleftrightarrow>
     rid a = rid b \<and> rseq a = rseq b \<and> rcode a = rcode b \<and> argsEqual (rpayload a) (rpayload b)"

text \<open>
  What the schemas guarantee of an argument: exactly one pair, with a scalar value.
\<close>

fun scalar :: "jsval \<Rightarrow> bool" where
  "scalar (JArr _) = False"
| "scalar (JObj _) = False"
| "scalar _ = True"

definition legal_argument :: "argument \<Rightarrow> bool" where
  "legal_argument a \<longleftrightarrow> length a = 1 \<and> list_all (scalar \<circ> snd) a"

definition legal_args :: "argument list option \<Rightarrow> bool" where
  "legal_args a = (case a of None \<Rightarrow> True | Some as \<Rightarrow> list_all legal_argument as)"

section \<open>Lemmas\<close>

lemma decodeExact_Inr:
  "decodeExact dec sp p = Inr r \<longleftrightarrow>
     validateMessagePackStructure p = Inr () \<and> (\<exists>v. dec p = Some v \<and> sp v = Some r)"
  by (auto simp: decodeExact_def split: sum.splits option.splits)

lemma bit_length_le: "n < 2 ^ k \<Longrightarrow> bit_length n \<le> k"
proof (induction k arbitrary: n)
  case 0
  then show ?case by (simp add: bit_length.simps)
next
  case (Suc k)
  have "n div 2 < 2 ^ k" using Suc.prems by simp
  from Suc.IH [OF this] show ?case by (subst bit_length.simps) simp
qed

lemma js_Number_safe: "\<bar>n\<bar> < 2 ^ 53 \<Longrightarrow> js_Number n = Fin (of_int n)"
proof -
  assume n: "\<bar>n\<bar> < 2 ^ 53"
  then have "bit_length (nat \<bar>n\<bar>) \<le> 53" by (intro bit_length_le) (simp add: nat_less_iff)
  then have "round53 (nat \<bar>n\<bar>) = nat \<bar>n\<bar>" by (simp add: round53_def)
  moreover have "\<not> nat \<bar>n\<bar> \<ge> 2 ^ 1024"
  proof -
    have "nat \<bar>n\<bar> < 2 ^ 53" using n by (simp add: nat_less_iff)
    also have "\<dots> < (2 :: nat) ^ 1024" by (rule power_strict_increasing) simp_all
    finally show ?thesis by simp
  qed
  ultimately show ?thesis by (simp add: js_Number_def mult_sgn_abs del: power_numeral)
qed

lemma is_integer_iff: "js_isInteger (Fin r) \<longleftrightarrow> (\<exists>i. r = of_int i)"
proof
  assume "js_isInteger (Fin r)"
  then have "snd (quotient_of r) = 1" by (simp add: js_isInteger_def)
  then have "r = of_int (fst (quotient_of r))"
    using quotient_of_div [of r "fst (quotient_of r)" 1] by (metis div_by_1 of_int_1 prod.collapse)
  then show "\<exists>i. r = of_int i" ..
next
  assume "\<exists>i. r = of_int i"
  then show "js_isInteger (Fin r)" by (auto simp: js_isInteger_def of_int_rat quotient_of_Fract normalize_def)
qed

lemma mixed_equal_safe: "\<bar>n\<bar> < 2 ^ 53 \<Longrightarrow> mixed_equal x n \<longleftrightarrow> x = Fin (of_int n)"
proof (cases x)
  case (Fin r)
  assume "\<bar>n\<bar> < 2 ^ 53"
  then show ?thesis
    unfolding Fin mixed_equal_def is_integer_iff by (auto simp: js_Number_safe js_num_eq_def)
qed (simp_all add: mixed_equal_def js_isInteger_def)

lemma valueEqual_refl: "scalar v \<Longrightarrow> valueEqual v v"
  by (cases v) (auto simp: js_num_eq_def)

lemma valueEqual_sym: "valueEqual v w \<longleftrightarrow> valueEqual w v"
  by (cases v; cases w) (auto simp: js_num_eq_def)

lemma argEqual_single: "length a = 1 \<Longrightarrow> length b = 1 \<Longrightarrow>
    argEqual a b \<longleftrightarrow> fst (hd a) = fst (hd b) \<and> valueEqual (snd (hd a)) (snd (hd b))"
  by (cases a; cases b) auto

lemma argEqual_refl: "legal_argument a \<Longrightarrow> argEqual a a"
  by (cases a) (auto simp: legal_argument_def valueEqual_refl)

lemma argEqual_sym: "argEqual a b \<longleftrightarrow> argEqual b a"
  by (cases "(a, b)" rule: argEqual.cases) (auto simp: valueEqual_sym)

lemma sameSemanticResult_refl: "legal_args (rpayload r) \<Longrightarrow> sameSemanticResult r r"
  by (auto simp: sameSemanticResult_def argsEqual_def legal_args_def list_all_iff
      intro!: list.rel_refl_strong argEqual_refl split: option.splits)

text \<open>
  The value of a scalar up to representation: an integral number and the bigint of the same
  value denote the same. \<open>exact_val\<close> restricts bigints to those a double holds exactly.
\<close>

fun meaning :: "jsval \<Rightarrow> jsval" where
  "meaning (JBig n) = JNum (Fin (of_int n))"
| "meaning v = v"

fun exact_val :: "jsval \<Rightarrow> bool" where
  "exact_val (JBig n) \<longleftrightarrow> \<bar>n\<bar> < 2 ^ 53"
| "exact_val (JArr _) = False"
| "exact_val (JObj _) = False"
| "exact_val _ = True"

lemma valueEqual_meaning:
  "exact_val v \<Longrightarrow> exact_val w \<Longrightarrow> valueEqual v w \<longleftrightarrow> meaning v = meaning w"
  by (cases v; cases w) (auto simp: js_num_eq_def mixed_equal_safe)

definition meaning_args :: "argument list option \<Rightarrow> argument list" where
  "meaning_args a = map (map (apsnd meaning)) (case a of None \<Rightarrow> [] | Some as \<Rightarrow> as)"

definition exact_args :: "argument list option \<Rightarrow> bool" where
  "exact_args a = list_all (\<lambda>x. length x = 1 \<and> list_all (\<lambda>p. exact_val (snd p)) x)
     (case a of None \<Rightarrow> [] | Some as \<Rightarrow> as)"

lemma argEqual_meaning:
  assumes "length x = 1" "list_all (\<lambda>p. exact_val (snd p)) x" "length y = 1" "list_all (\<lambda>p. exact_val (snd p)) y"
  shows "argEqual x y \<longleftrightarrow> map (apsnd meaning) x = map (apsnd meaning) y"
  using assms by (cases x; cases y) (auto simp: valueEqual_meaning)

lemma list_all2_argEqual:
  assumes "list_all (\<lambda>x. length x = 1 \<and> list_all (\<lambda>p. exact_val (snd p)) x) xs"
    and "list_all (\<lambda>x. length x = 1 \<and> list_all (\<lambda>p. exact_val (snd p)) x) ys"
  shows "list_all2 argEqual xs ys \<longleftrightarrow>
    map (map (apsnd meaning)) xs = map (map (apsnd meaning)) ys"
  using assms
proof (induction xs arbitrary: ys)
  case (Cons x xs)
  then show ?case
    by (cases ys) (auto simp: argEqual_meaning simp del: argEqual.simps)
qed simp

text \<open>
  Two results whose payloads hold scalars and bigints below 2^53 in magnitude compare as the
  same exactly when identifier, sequence and code agree and the payloads denote the same
  values: absent and null payloads are empty ones, a bigint equals the number of the same value,
  and NaN equals itself. So on such results the comparison is an equivalence.
\<close>

theorem semantic_equality_exact:
  assumes "exact_args (rpayload a)" and "exact_args (rpayload b)"
  shows "sameSemanticResult a b \<longleftrightarrow>
    rid a = rid b \<and> rseq a = rseq b \<and> rcode a = rcode b \<and>
    meaning_args (rpayload a) = meaning_args (rpayload b)"
  using assms list_all2_argEqual unfolding sameSemanticResult_def argsEqual_def exact_args_def meaning_args_def
  by blast

theorem semantic_equality_exact_witness:
  "sameSemanticResult
     \<lparr>rid = [1], rseq = 2, rcode = 0, rpayload = Some [[(js ''n'', JBig 7)], [(js ''x'', JNum NaN)]]\<rparr>
     \<lparr>rid = [1], rseq = 2, rcode = 0, rpayload = Some [[(js ''n'', JNum (Fin 7))], [(js ''x'', JNum NaN)]]\<rparr>"
  using semantic_equality_exact
    [of "\<lparr>rid = [1], rseq = 2, rcode = 0, rpayload = Some [[(js ''n'', JBig 7)], [(js ''x'', JNum NaN)]]\<rparr>"
        "\<lparr>rid = [1], rseq = 2, rcode = 0, rpayload = Some [[(js ''n'', JNum (Fin 7))], [(js ''x'', JNum NaN)]]\<rparr>"]
  by (simp add: exact_args_def meaning_args_def)

text \<open>
  Beyond 2^53 the comparison is not an equivalence: a bigint compares equal to the double it
  rounds to, so two different bigints are both the same as one double.
\<close>

theorem semantic_equality_not_transitive:
  "valueEqual (JBig 9007199254740993) (JNum (Fin 9007199254740992)) \<and>
   valueEqual (JNum (Fin 9007199254740992)) (JBig 9007199254740992) \<and>
   \<not> valueEqual (JBig 9007199254740993) (JBig 9007199254740992)"
proof -
  have "bit_length 9007199254740993 = 54" "bit_length 9007199254740992 = 54"
    by (simp_all add: bit_length.simps)
  then have "js_Number 9007199254740993 = Fin 9007199254740992" "js_Number 9007199254740992 = Fin 9007199254740992"
    by (simp_all add: js_Number_def round53_def)
  moreover have "js_isInteger (Fin 9007199254740992)"
    unfolding is_integer_iff by (rule exI [of _ 9007199254740992]) simp
  ultimately show ?thesis by (simp add: mixed_equal_def js_num_eq_def)
qed

end
