(* ===== verification/Schema.thy ===== *)
theory Schema
  imports Topic Identifiers CommandCodec Complex_Main "HOL-Library.List_Lexorder" "HOL-Library.Product_Lexorder"
begin

text \<open>
  The tables the command queue and the debug executions live in
  (\<^verbatim>\<open>packages/core/prisma/schema.prisma\<close>): a record per row type, a table as the list of its rows
  in the order a scan meets them, and the database as the record of its tables. A statement
  that writes rows is checked against the CHECK, UNIQUE and FOREIGN KEY constraints of the
  migrations; a violation is an error and leaves the database as it was.
  Identifiers are canonical UUID texts and compare as texts; times are milliseconds.
\<close>

type_synonym uuid = jsstring
type_synonym time = int

datatype command_state = Queued | Leased | BrokerAccepted | DeviceCompleted | DeliveryFailed
datatype execution_state = Active | Paused | Cancelling | Completed | Failed | Expired

record device =
  did :: uuid
  device_uid :: jsstring
  dproject_id :: uuid
  next_command_sequence :: int

record device_command =
  cid :: uuid
  batch_id :: uuid
  device_id :: uuid
  origin_type :: jsstring
  origin_user_id :: "uuid option"
  plugin_installation_id :: "uuid option"
  cplugin_version :: "jsstring option"
  cmanifest_hash :: "jsstring option"
  execution_id :: "uuid option"
  correlation_id :: "uuid option"
  idempotency_key :: "jsstring option"
  cancel_requested_at :: "time option"
  sequence :: int
  payload :: bytes
  cstate :: command_state
  delivery_expires_at :: "time option"
  attempt_count :: int
  available_at :: time
  lease_expires_at :: "time option"
  broker_accepted_at :: "time option"
  result_code :: "int option"
  result_packet :: "bytes option"
  device_completed_at :: "time option"
  created_at :: time

record debug_execution =
  eid :: uuid
  einstallation_id :: uuid
  edevice_id :: uuid
  initiating_user_id :: uuid
  eplugin_id :: jsstring
  eplugin_version :: jsstring
  emanifest_hash :: jsstring
  allowed_capabilities :: "jsstring list"
  token_hash :: jsstring
  estate :: execution_state
  device_lease_expires_at :: "time option"
  expires_at :: time
  ecreated_at :: time
  updated_at :: time
  finished_at :: "time option"

record plugin_installation =
  iid :: uuid
  iproject_id :: uuid
  iplugin_id :: jsstring
  iplugin_version :: jsstring
  imanifest_hash :: jsstring
  ienabled :: bool
  iconfig :: jsval

record plugin_device_binding =
  bdevice_id :: uuid
  binstallation_id :: uuid
  bprofile_id :: jsstring
  bprofile_version :: int

record db =
  users :: "uuid list"
  user_projects :: "(uuid \<times> uuid) list"
  devices :: "device list"
  command_batches :: "(uuid \<times> nat) list"
  device_commands :: "device_command list"
  debug_executions :: "debug_execution list"
  plugin_installations :: "plugin_installation list"
  plugin_device_bindings :: "plugin_device_binding list"
  notifications :: "(jsstring \<times> jsstring) list"

section \<open>Constraints\<close>

definition INT4_MAX :: int where "INT4_MAX = 2147483647"
definition INT8_MAX :: int where "INT8_MAX = 9223372036854775807"
definition MAX_SAFE_INTEGER :: int where "MAX_SAFE_INTEGER = 9007199254740991"

text \<open>The CHECK constraints and column domains of \<^verbatim>\<open>device_commands\<close>.\<close>

definition lease_consistent :: "device_command \<Rightarrow> bool" where
  "lease_consistent c \<longleftrightarrow> (cstate c = Leased \<longleftrightarrow> lease_expires_at c \<noteq> None)"

definition broker_acceptance_consistent :: "device_command \<Rightarrow> bool" where
  "broker_acceptance_consistent c \<longleftrightarrow>
     (cstate c = BrokerAccepted \<or> cstate c = DeviceCompleted \<longleftrightarrow> broker_accepted_at c \<noteq> None)"

definition result_consistent :: "device_command \<Rightarrow> bool" where
  "result_consistent c \<longleftrightarrow>
     (if cstate c = DeviceCompleted
      then result_code c \<noteq> None \<and> result_packet c \<noteq> None \<and> device_completed_at c \<noteq> None
      else result_code c = None \<and> result_packet c = None \<and> device_completed_at c = None)"

definition command_check :: "device_command \<Rightarrow> bool" where
  "command_check c \<longleftrightarrow> 0 < sequence c \<and> 0 \<le> attempt_count c \<and> attempt_count c \<le> INT4_MAX \<and>
     lease_consistent c \<and> broker_acceptance_consistent c \<and> result_consistent c \<and>
     origin_type c \<in> {js ''human'', js ''plugin'', js ''llm_agent''}"

definition commands_unique :: "device_command list \<Rightarrow> bool" where
  "commands_unique cs \<longleftrightarrow> distinct (map cid cs) \<and> distinct (map (\<lambda>c. (device_id c, sequence c)) cs) \<and>
     distinct (map (\<lambda>c. (batch_id c, device_id c)) cs)"

definition command_fk :: "db \<Rightarrow> device_command \<Rightarrow> bool" where
  "command_fk d c \<longleftrightarrow>
     batch_id c \<in> fst ` set (command_batches d) \<and> device_id c \<in> did ` set (devices d) \<and>
     (\<forall>u \<in> set_option (origin_user_id c). u \<in> set (users d)) \<and>
     (\<forall>i \<in> set_option (plugin_installation_id c). i \<in> iid ` set (plugin_installations d)) \<and>
     (\<forall>e \<in> set_option (execution_id c). e \<in> eid ` set (debug_executions d))"

text \<open>
  \<^verbatim>\<open>UPDATE device_commands SET ... WHERE p\<close>: the rows that satisfy \<open>p\<close> are rewritten; \<open>None\<close> when a
  rewritten row violates a CHECK.
\<close>

definition update_commands ::
    "(device_command \<Rightarrow> bool) \<Rightarrow> (device_command \<Rightarrow> device_command) \<Rightarrow> db \<Rightarrow> (nat \<times> db) option" where
  "update_commands p f d =
     (if list_all (\<lambda>c. p c \<longrightarrow> command_check (f c)) (device_commands d)
      then Some (length (filter p (device_commands d)),
                 d\<lparr>device_commands := map (\<lambda>c. if p c then f c else c) (device_commands d)\<rparr>)
      else None)"

text \<open>\<^verbatim>\<open>INSERT INTO device_commands\<close>.\<close>

definition insert_commands :: "device_command list \<Rightarrow> db \<Rightarrow> db option" where
  "insert_commands cs d =
     (if list_all command_check cs \<and> list_all (command_fk d) cs \<and>
         commands_unique (device_commands d @ cs)
      then Some (d\<lparr>device_commands := device_commands d @ cs\<rparr>)
      else None)"

definition find_command :: "uuid \<Rightarrow> db \<Rightarrow> device_command option" where
  "find_command i d = find (\<lambda>c. cid c = i) (device_commands d)"

definition find_device :: "uuid \<Rightarrow> db \<Rightarrow> device option" where
  "find_device i d = find (\<lambda>x. did x = i) (devices d)"

section \<open>Lemmas\<close>

lemma update_commands_Some:
  "update_commands p f d = Some (n, d') \<longleftrightarrow>
     (\<forall>c \<in> set (device_commands d). p c \<longrightarrow> command_check (f c)) \<and>
     n = length (filter p (device_commands d)) \<and>
     d' = d\<lparr>device_commands := map (\<lambda>c. if p c then f c else c) (device_commands d)\<rparr>"
  by (auto simp: update_commands_def list_all_iff)

lemma find_Some_in: "find P xs = Some x \<Longrightarrow> x \<in> set xs \<and> P x"
  by (auto simp: find_Some_iff)

lemma find_unique:
  assumes "distinct (map f xs)" and "x \<in> set xs"
  shows "find (\<lambda>y. f y = f x) xs = Some x"
  using assms by (induction xs) auto

lemma find_unique_iff:
  "distinct (map f xs) \<Longrightarrow> find (\<lambda>y. f y = k) xs = Some x \<longleftrightarrow> x \<in> set xs \<and> f x = k"
  using find_unique [of f xs x] find_Some_in [of "\<lambda>y. f y = k" xs x] by auto

lemma map_if_keep: "(\<And>x. p x \<Longrightarrow> g (f x) = g x) \<Longrightarrow> map g (map (\<lambda>x. if p x then f x else x) xs) = map g xs"
  by (induction xs) auto

end
