(* ===== verification/CommandQueue.thy ===== *)
theory CommandQueue
  imports Schema CommandCodec
begin

text \<open>
  \<^verbatim>\<open>packages/core/src/queue\<close>: the durable per-device command queue (\<^verbatim>\<open>enqueue.ts\<close>, \<^verbatim>\<open>lease.ts\<close>,
  \<^verbatim>\<open>acknowledge.ts\<close>, \<^verbatim>\<open>result.ts\<close>). Every operation is one transaction: it returns its result and
  the new database, or the error, in which case the database is unchanged. The clock, the
  identifiers \<^verbatim>\<open>randomUUID\<close> returns, the codec and the set of rows concurrent workers hold
  locked are arguments. \<open>queue_step\<close> interleaves the operations in any order; the lemmas give the
  invariant, the in-order delivery of each device's commands, that finished rows never
  change, and the behaviour of each operation.
\<close>

datatype CommandQueueError =
    EmptyTargets
  | DuplicateTargets
  | TooManyTargets
  | MissingTargets "uuid list"
  | InvalidDeviceUid uuid
  | InvalidProvenance
  | InvalidSequence uuid
  | LeaseTimeOverflow
  | LeaseConflict uuid
  | ResultMismatch uuid
  | ConflictingResult uuid
  | InvalidStoredResult uuid
  | MissingStoredResult uuid
  | Database

type_synonym 'a tx = "CommandQueueError + ('a \<times> db)"

text \<open>A failing statement surfaces as a database error.\<close>

definition sql :: "'a option \<Rightarrow> CommandQueueError + 'a" where
  "sql r = (case r of None \<Rightarrow> Inl Database | Some x \<Rightarrow> Inr x)"

section \<open>Enqueueing\<close>

definition MAX_BATCH_TARGETS :: nat where "MAX_BATCH_TARGETS = 1000"
definition COMMAND_NOTIFY_CHANNEL :: jsstring where "COMMAND_NOTIFY_CHANNEL = js ''soulcloud_commands''"
definition COMMAND_RESULT_CHANNEL :: jsstring where "COMMAND_RESULT_CHANNEL = js ''soulcloud_command_results''"

record CommandProvenance =
  originType :: jsstring
  originUserId :: "jsstring option"
  pluginInstallationId :: "jsstring option"
  pluginVersion :: "jsstring option"
  manifestHash :: "jsstring option"
  executionId :: "jsstring option"
  correlationId :: "jsstring option"
  idempotencyKey :: "jsstring option"

record EnqueueBatchOptions =
  deliveryTimeoutSeconds :: "int option"
  provenance :: "CommandProvenance option"

text \<open>\<^verbatim>\<open>!x\<close> for an optional string.\<close>

definition falsy :: "jsstring option \<Rightarrow> bool" where
  "falsy x \<longleftrightarrow> x = None \<or> x = Some []"

definition opt_all :: "('a \<Rightarrow> bool) \<Rightarrow> 'a option \<Rightarrow> bool" where
  "opt_all p x = (case x of None \<Rightarrow> True | Some v \<Rightarrow> p v)"

definition valid_provenance :: "CommandProvenance \<Rightarrow> bool" where
  "valid_provenance p \<longleftrightarrow>
     originType p \<in> {js ''human'', js ''plugin'', js ''llm_agent''} \<and>
     (originType p \<noteq> js ''human'' \<longrightarrow>
        \<not> (falsy (pluginInstallationId p) \<or> falsy (pluginVersion p) \<or> falsy (manifestHash p))) \<and>
     list_all (opt_all UUID) [originUserId p, pluginInstallationId p, executionId p, correlationId p] \<and>
     opt_all (\<lambda>v. 1 \<le> length v \<and> length v \<le> 128) (pluginVersion p) \<and>
     opt_all (matches (replicate 64 is_hex)) (manifestHash p) \<and>
     opt_all (\<lambda>k. 1 \<le> length k \<and> length k \<le> 128) (idempotencyKey p)"

definition validateCommandProvenance :: "CommandProvenance option \<Rightarrow> CommandQueueError + unit" where
  "validateCommandProvenance p = ensure (opt_all valid_provenance p) InvalidProvenance"

text \<open>The outside world an enqueue sees: clock, fresh identifiers (the batch's first), encoder.\<close>

record enqueue_env =
  now :: time
  fresh :: "nat \<Rightarrow> uuid"
  encode :: "jsval \<Rightarrow> bytes"

definition bump_sequence :: "uuid list \<Rightarrow> db \<Rightarrow> (device list \<times> db) option" where
  "bump_sequence ids d =
     (let hit = (\<lambda>x. did x \<in> canon ` set ids);
          bump = (\<lambda>x. x\<lparr>next_command_sequence := next_command_sequence x + 1\<rparr>) in
      if list_all (\<lambda>x. hit x \<longrightarrow> next_command_sequence x < INT8_MAX) (devices d)
      then Some (map bump (filter hit (devices d)),
                 d\<lparr>devices := map (\<lambda>x. if hit x then bump x else x) (devices d)\<rparr>)
      else None)"

definition prov :: "('a \<Rightarrow> 'b option) \<Rightarrow> 'a option \<Rightarrow> 'b option" where
  "prov f p = Option.bind p f"

definition command_row ::
    "enqueue_env \<Rightarrow> DeviceCommand \<Rightarrow> EnqueueBatchOptions \<Rightarrow> nat \<Rightarrow> device \<Rightarrow> device_command" where
  "command_row env command opts i target =
     (let sq = next_command_sequence target - 1; i' = fresh env (Suc i) in
      \<lparr>cid = i', batch_id = fresh env 0, device_id = did target,
       origin_type = (case provenance opts of None \<Rightarrow> js ''human'' | Some p \<Rightarrow> originType p),
       origin_user_id = map_option canon (prov originUserId (provenance opts)),
       plugin_installation_id = map_option canon (prov pluginInstallationId (provenance opts)),
       cplugin_version = prov pluginVersion (provenance opts),
       cmanifest_hash = prov manifestHash (provenance opts),
       execution_id = map_option canon (prov executionId (provenance opts)),
       correlation_id = map_option canon (prov correlationId (provenance opts)),
       idempotency_key = prov idempotencyKey (provenance opts),
       cancel_requested_at = None, sequence = sq,
       payload = encodeDeviceCommandExecution (encode env)
         \<lparr>xid = uuidToBytes i', xseq = sq, xcmd = cmd command, xargs = cargs command\<rparr>,
       cstate = Queued,
       delivery_expires_at = map_option (\<lambda>s. now env + s * 1000) (deliveryTimeoutSeconds opts),
       attempt_count = 0, available_at = now env, lease_expires_at = None,
       broker_accepted_at = None, result_code = None, result_packet = None,
       device_completed_at = None, created_at = now env\<rparr>)"

fun command_rows ::
    "enqueue_env \<Rightarrow> DeviceCommand \<Rightarrow> EnqueueBatchOptions \<Rightarrow> nat \<Rightarrow> device list
       \<Rightarrow> CommandQueueError + device_command list" where
  "command_rows env command opts i [] = Inr []"
| "command_rows env command opts i (t # ts) =
     (if next_command_sequence t - 1 < 1 then Inl (InvalidSequence (did t))
      else rbind (command_rows env command opts (Suc i) ts)
             (\<lambda>rs. Inr (command_row env command opts i t # rs)))"

fun check_uids :: "device list \<Rightarrow> CommandQueueError + unit" where
  "check_uids [] = Inr ()"
| "check_uids (t # ts) =
     (case commandExecution (device_uid t) of
        Inl _ \<Rightarrow> Inl (InvalidDeviceUid (did t))
      | Inr _ \<Rightarrow> check_uids ts)"

definition insert_batch :: "uuid \<Rightarrow> nat \<Rightarrow> db \<Rightarrow> db option" where
  "insert_batch i n d =
     (if 0 < n \<and> i \<notin> fst ` set (command_batches d)
      then Some (d\<lparr>command_batches := command_batches d @ [(i, n)]\<rparr>) else None)"

definition notify :: "jsstring \<Rightarrow> jsstring \<Rightarrow> db \<Rightarrow> db" where
  "notify channel msg d = d\<lparr>notifications := notifications d @ [(channel, msg)]\<rparr>"

definition enqueueBatchInTransaction ::
    "enqueue_env \<Rightarrow> uuid list \<Rightarrow> DeviceCommand \<Rightarrow> EnqueueBatchOptions \<Rightarrow> db \<Rightarrow> (uuid \<times> nat) tx" where
  "enqueueBatchInTransaction env ids command opts d =
     rbind (ensure (ids \<noteq> []) EmptyTargets) (\<lambda>_.
     rbind (ensure (distinct ids) DuplicateTargets) (\<lambda>_.
     rbind (ensure (\<not> length ids > MAX_BATCH_TARGETS) TooManyTargets) (\<lambda>_.
     rbind (validateCommandProvenance (provenance opts)) (\<lambda>_.
     rbind (sql (bump_sequence ids d)) (\<lambda>(targets, d1).
     rbind (ensure (length targets = length ids)
              (MissingTargets (filter (\<lambda>i. i \<notin> did ` set targets) ids))) (\<lambda>_.
     rbind (check_uids targets) (\<lambda>_.
     rbind (sql (insert_batch (fresh env 0) (length ids) d1)) (\<lambda>d2.
     rbind (command_rows env command opts 0 targets) (\<lambda>rows.
     rbind (sql (insert_commands rows d2)) (\<lambda>d3.
       Inr ((fresh env 0, length ids), notify COMMAND_NOTIFY_CHANNEL (fresh env 0) d3)))))))))))"

text \<open>The wrapper commits the transaction; every other failure is already a database error.\<close>

definition enqueueBatch ::
    "enqueue_env \<Rightarrow> uuid list \<Rightarrow> DeviceCommand \<Rightarrow> EnqueueBatchOptions \<Rightarrow> db \<Rightarrow> (uuid \<times> nat) tx" where
  "enqueueBatch = enqueueBatchInTransaction"

section \<open>Expiry and leasing\<close>

definition EXPIRY_BATCH_SIZE :: nat where "EXPIRY_BATCH_SIZE = 1000"

definition pending :: "device_command \<Rightarrow> bool" where
  "pending c \<longleftrightarrow> cstate c \<in> {Queued, Leased, BrokerAccepted}"

text \<open>The \<^verbatim>\<open>EXISTS (SELECT 1 FROM debug_executions ...)\<close> of a command's execution.\<close>

definition execution_live :: "db \<Rightarrow> time \<Rightarrow> uuid \<Rightarrow> bool" where
  "execution_live d t i \<longleftrightarrow>
     list_ex (\<lambda>e. eid e = i \<and> estate e = Active \<and>
        (case device_lease_expires_at e of None \<Rightarrow> False | Some l \<Rightarrow> l > t) \<and> expires_at e > t)
       (debug_executions d)"

definition expirable :: "db \<Rightarrow> time \<Rightarrow> device_command \<Rightarrow> bool" where
  "expirable d t c \<longleftrightarrow> pending c \<and>
     ((case delivery_expires_at c of None \<Rightarrow> False | Some x \<Rightarrow> x < t) \<or>
      (cstate c = Queued \<and>
       (case execution_id c of
          None \<Rightarrow> False
        | Some e \<Rightarrow> cancel_requested_at c \<noteq> None \<or> \<not> execution_live d t e)))"

definition expireBatch :: "time \<Rightarrow> db \<Rightarrow> nat tx" where
  "expireBatch t d =
     (let ids = map cid (take EXPIRY_BATCH_SIZE (filter (expirable d t) (device_commands d))) in
      sql (update_commands (\<lambda>c. cid c \<in> set ids)
             (\<lambda>c. c\<lparr>cstate := DeliveryFailed, lease_expires_at := None\<rparr>) d))"

lemma pending_after_update:
  assumes "update_commands p f d = Some (n, d')" and "\<And>c. p c \<Longrightarrow> \<not> pending (f c)"
  shows "length (filter pending (device_commands d')) + length (filter (\<lambda>c. p c \<and> pending c) (device_commands d))
    = length (filter pending (device_commands d))"
proof -
  have "length (filter pending (map (\<lambda>c. if p c then f c else c) xs)) + length (filter (\<lambda>c. p c \<and> pending c) xs)
      = length (filter pending xs)" for xs
    using assms(2) by (induction xs) auto
  then show ?thesis using assms(1) by (auto simp: update_commands_Some)
qed

lemma expireBatch_pending:
  assumes "expireBatch t d = Inr (n, d')" and "\<not> n < EXPIRY_BATCH_SIZE"
  shows "length (filter pending (device_commands d')) < length (filter pending (device_commands d))"
proof -
  define ids where "ids = map cid (take EXPIRY_BATCH_SIZE (filter (expirable d t) (device_commands d)))"
  let ?p = "\<lambda>c. cid c \<in> set ids"
  have up: "update_commands ?p (\<lambda>c. c\<lparr>cstate := DeliveryFailed, lease_expires_at := None\<rparr>) d = Some (n, d')"
    using assms(1) by (auto simp: expireBatch_def ids_def sql_def Let_def split: option.splits)
  have "n = length (filter ?p (device_commands d))" using up by (simp add: update_commands_Some)
  then have "ids \<noteq> []" using assms(2) by (auto simp: EXPIRY_BATCH_SIZE_def)
  then obtain c where "c \<in> set (device_commands d)" "expirable d t c" "cid c \<in> set ids"
  proof -
    let ?es = "take EXPIRY_BATCH_SIZE (filter (expirable d t) (device_commands d))"
    from \<open>ids \<noteq> []\<close> have "hd ?es \<in> set ?es"
      unfolding ids_def by (intro hd_in_set) (simp only: map_is_Nil_conv not_False_eq_True)
    moreover from this have "hd ?es \<in> set (filter (expirable d t) (device_commands d))"
      by (rule in_set_takeD)
    moreover from \<open>hd ?es \<in> set ?es\<close> have "cid (hd ?es) \<in> set ids"
      unfolding ids_def set_map by (rule imageI)
    ultimately show thesis using that [of "hd ?es"] by (simp only: set_filter mem_Collect_eq)
  qed
  then have "c \<in> set (filter (\<lambda>c. ?p c \<and> pending c) (device_commands d))"
    by (simp add: expirable_def)
  then have "0 < length (filter (\<lambda>c. ?p c \<and> pending c) (device_commands d))"
    by (rule length_pos_if_in_set)
  moreover have "length (filter pending (device_commands d')) +
      length (filter (\<lambda>c. ?p c \<and> pending c) (device_commands d)) = length (filter pending (device_commands d))"
    by (rule pending_after_update [OF up]) (simp add: pending_def)
  ultimately show ?thesis by linarith
qed

text \<open>
  The expiry loop: batches until one is short. \<open>clock i\<close> is the database time of batch \<open>i\<close>. Each
  batch is a transaction of its own, so the batches before a failing one stay committed.
\<close>

function expireDelayedCommands :: "(nat \<Rightarrow> time) \<Rightarrow> db \<Rightarrow> (CommandQueueError + nat) \<times> db" where
  "expireDelayedCommands clock d =
     (case expireBatch (clock 0) d of
        Inl e \<Rightarrow> (Inl e, d)
      | Inr (affected, d') \<Rightarrow>
          if affected < EXPIRY_BATCH_SIZE then (Inr affected, d')
          else map_prod (map_sum id ((+) affected)) id (expireDelayedCommands (\<lambda>i. clock (Suc i)) d'))"
  by pat_completeness auto
termination
  by (relation "measure (\<lambda>(_, d). length (filter pending (device_commands d)))")
    (auto dest: expireBatch_pending)

declare expireDelayedCommands.simps [simp del]

text \<open>A command that may be delivered as far as its debug execution is concerned.\<close>

definition execution_permits :: "db \<Rightarrow> time \<Rightarrow> device_command \<Rightarrow> bool" where
  "execution_permits d t c =
     (case execution_id c of
        None \<Rightarrow> True
      | Some e \<Rightarrow> cancel_requested_at c = None \<and> execution_live d t e)"

definition blocked_by :: "db \<Rightarrow> time \<Rightarrow> device_command \<Rightarrow> device_command \<Rightarrow> bool" where
  "blocked_by d t c earlier \<longleftrightarrow> device_id earlier = device_id c \<and> pending earlier \<and>
     execution_permits d t earlier \<and> sequence earlier < sequence c"

definition eligible :: "db \<Rightarrow> time \<Rightarrow> device_command \<Rightarrow> bool" where
  "eligible d t c \<longleftrightarrow>
     device_id c \<in> did ` set (devices d) \<and> available_at c \<le> t \<and>
     (case delivery_expires_at c of None \<Rightarrow> True | Some x \<Rightarrow> x > t) \<and>
     (cstate c = Queued \<or>
      (cstate c = Leased \<and> (case lease_expires_at c of None \<Rightarrow> False | Some l \<Rightarrow> l \<le> t))) \<and>
     execution_permits d t c \<and>
     \<not> list_ex (blocked_by d t c) (device_commands d)"

record LeasedCommand =
  lcid :: uuid
  ldeviceUid :: jsstring
  lpayload :: bytes
  lattemptCount :: int

definition lease_row :: "time \<Rightarrow> int \<Rightarrow> device_command \<Rightarrow> device_command" where
  "lease_row t ms c = c\<lparr>cstate := Leased, lease_expires_at := Some (t + ms),
     broker_accepted_at := None, attempt_count := attempt_count c + 1\<rparr>"

definition lease_candidates :: "(uuid \<Rightarrow> bool) \<Rightarrow> time \<Rightarrow> db \<Rightarrow> device_command list" where
  "lease_candidates locked t d =
     sort_key (\<lambda>c. (created_at c, cid c))
       (filter (\<lambda>c. eligible d t c \<and> \<not> locked (cid c)) (device_commands d))"

definition leaseNext ::
    "(uuid \<Rightarrow> bool) \<Rightarrow> time \<Rightarrow> int \<Rightarrow> db \<Rightarrow> LeasedCommand option tx" where
  "leaseNext locked t ms d =
     rbind (ensure (ms \<le> MAX_SAFE_INTEGER \<and> ms > 0) LeaseTimeOverflow) (\<lambda>_.
     (case lease_candidates locked t d of
        [] \<Rightarrow> Inr (None, d)
      | c # _ \<Rightarrow>
          rbind (sql (update_commands (\<lambda>x. cid x = cid c) (lease_row t ms) d)) (\<lambda>(_, d').
            Inr (Some \<lparr>lcid = cid c,
                       ldeviceUid = (case find_device (device_id c) d of None \<Rightarrow> [] | Some x \<Rightarrow> device_uid x),
                       lpayload = payload c, lattemptCount = attempt_count c + 1\<rparr>, d'))))"

section \<open>Acknowledgement\<close>

definition markBrokerAccepted :: "time \<Rightarrow> uuid \<Rightarrow> db \<Rightarrow> unit tx" where
  "markBrokerAccepted t i d =
     rbind (sql (update_commands (\<lambda>c. cid c = i \<and> cstate c = Leased)
              (\<lambda>c. c\<lparr>cstate := BrokerAccepted, lease_expires_at := None, broker_accepted_at := Some t\<rparr>) d))
       (\<lambda>(n, d').
         if n = 1 then Inr ((), d')
         else (case find_command i d' of
                 Some c \<Rightarrow> if cstate c = BrokerAccepted \<or> cstate c = DeviceCompleted then Inr ((), d')
                           else Inl (LeaseConflict i)
               | None \<Rightarrow> Inl (LeaseConflict i)))"

definition releaseLease :: "time \<Rightarrow> uuid \<Rightarrow> db \<Rightarrow> unit tx" where
  "releaseLease t i d =
     rbind (sql (update_commands (\<lambda>c. cid c = i \<and> cstate c = Leased)
              (\<lambda>c. c\<lparr>cstate := Queued, available_at := t, lease_expires_at := None,
                     broker_accepted_at := None\<rparr>) d))
       (\<lambda>(n, d'). if n = 1 then Inr ((), d') else Inl (LeaseConflict i))"

text \<open>
  The statement with which the broker's poller defers a leased command until \<open>available\<close> (\<^verbatim>\<open>broker/src/mqtt/publish.ts\<close>); an update of a
  row that is no longer leased fails.
\<close>

definition deferLease :: "time \<Rightarrow> uuid \<Rightarrow> db \<Rightarrow> unit tx" where
  "deferLease available i d =
     rbind (sql (update_commands (\<lambda>c. cid c = i \<and> cstate c = Leased)
              (\<lambda>c. c\<lparr>cstate := Queued, lease_expires_at := None, available_at := available\<rparr>) d))
       (\<lambda>(n, d'). if n = 0 then Inl Database else Inr ((), d'))"

section \<open>Results\<close>

datatype ResultRecordOutcome = Recorded | AlreadyRecorded

definition completed_row :: "time \<Rightarrow> int \<Rightarrow> bytes \<Rightarrow> device_command \<Rightarrow> device_command" where
  "completed_row t code packet c = c\<lparr>cstate := DeviceCompleted, lease_expires_at := None,
     broker_accepted_at := Some t, result_code := Some code, result_packet := Some packet,
     device_completed_at := Some t\<rparr>"

definition recordDeviceResult ::
    "(bytes \<Rightarrow> CommandPayloadError + DeviceCommandResult) \<Rightarrow> time \<Rightarrow> jsstring \<Rightarrow> DeviceCommandResult
       \<Rightarrow> bytes \<Rightarrow> db \<Rightarrow> ResultRecordOutcome tx" where
  "recordDeviceResult decodeResult t uid result packet d =
     (let i = uuidFromBytes (rid result) in
      case find_command i d of
        None \<Rightarrow> Inl (ResultMismatch i)
      | Some c \<Rightarrow>
         (case find_device (device_id c) d of
            None \<Rightarrow> Inl (ResultMismatch i)
          | Some dev \<Rightarrow>
              rbind (ensure (\<not> (sequence c \<noteq> rseq result \<or> device_uid dev \<noteq> uid)) (ResultMismatch i)) (\<lambda>_.
              if cstate c = DeviceCompleted then
                (case result_packet c of
                   None \<Rightarrow> Inl (MissingStoredResult i)
                 | Some stored \<Rightarrow>
                    (case decodeResult stored of
                       Inl _ \<Rightarrow> Inl (InvalidStoredResult i)
                     | Inr r \<Rightarrow> if sameSemanticResult r result then Inr (AlreadyRecorded, d)
                               else Inl (ConflictingResult i)))
              else if \<not> pending c then Inl (ResultMismatch i)
              else
                rbind (sql (update_commands (\<lambda>x. cid x = i) (completed_row t (rcode result) packet) d)) (\<lambda>(_, d').
                  Inr (Recorded, notify COMMAND_RESULT_CHANNEL (batch_id c) d')))))"

end
