(* ===== verification/DebugExecutions.thy ===== *)
theory DebugExecutions
  imports CommandQueue
begin

text \<open>
  \<^verbatim>\<open>packages/core/src/plugins/executions.ts\<close> and \<^verbatim>\<open>execution-commands.ts\<close>: capabilities that let a
  plugin drive one device for a while, and the commands queued under them. Each exported
  function is one transaction on the database of \<open>Schema\<close>; \<open>t\<close> is \<^verbatim>\<open>CURRENT_TIMESTAMP\<close>. A text cast
  to \<^verbatim>\<open>uuid\<close> in a statement is put in canonical form, as the cast does; comparisons made by the
  program itself are on the texts it was given.
\<close>

datatype DebugError =
    RangeError
  | CapabilityError
  | ExecutionConflict
  | InstallationNotFound
  | InstallationDisabled
  | ManifestMismatch
  | DeviceNotFound
  | DifferentProjects
  | NotBound
  | NotMember
  | IdempotencyConflict
  | CommandDisappeared
  | StoredPayloadInvalid CommandPayloadError
  | QueueError CommandQueueError
  | DatabaseError

type_synonym 'a dtx = "DebugError + ('a \<times> db)"

section \<open>Validation\<close>

definition DEBUG_EXECUTION_MIN_LEASE_MS :: int where "DEBUG_EXECUTION_MIN_LEASE_MS = 1000"
definition DEBUG_EXECUTION_MAX_LEASE_MS :: int where "DEBUG_EXECUTION_MAX_LEASE_MS = 15 * 60000"
definition DEBUG_EXECUTION_MIN_TTL_MS :: int where "DEBUG_EXECUTION_MIN_TTL_MS = 2000"
definition DEBUG_EXECUTION_MAX_TTL_MS :: int where "DEBUG_EXECUTION_MAX_TTL_MS = 7 * 24 * 60 * 60000"
definition DEBUG_EXECUTION_MAX_CAPABILITIES :: nat where "DEBUG_EXECUTION_MAX_CAPABILITIES = 128"
definition DEBUG_EXECUTION_MAX_CAPABILITY_LENGTH :: nat where "DEBUG_EXECUTION_MAX_CAPABILITY_LENGTH = 128"

record CreateDebugExecutionInput =
  ci_id :: "jsstring option"
  ci_installationId :: jsstring
  ci_deviceId :: jsstring
  ci_initiatingUserId :: jsstring
  ci_pluginId :: jsstring
  ci_pluginVersion :: jsstring
  ci_manifestHash :: jsstring
  ci_allowedCapabilities :: "jsstring list"
  ci_tokenHash :: jsstring
  ci_leaseMs :: int
  ci_ttlMs :: int

definition is_alnum :: "nat \<Rightarrow> bool" where
  "is_alnum c \<longleftrightarrow> (48 \<le> c \<and> c \<le> 57) \<or> (65 \<le> c \<and> c \<le> 90) \<or> (97 \<le> c \<and> c \<le> 122)"

definition capability_ok :: "jsstring \<Rightarrow> bool" where
  "capability_ok s \<longleftrightarrow>
     1 \<le> length s \<and> length s \<le> DEBUG_EXECUTION_MAX_CAPABILITY_LENGTH \<and>
     (case s of [] \<Rightarrow> False
      | c # cs \<Rightarrow> is_alnum c \<and> list_all (\<lambda>x. is_alnum x \<or> x \<in> {46, 95, 58, 45}) cs)"

definition normalizeDebugCapabilities :: "jsstring list \<Rightarrow> DebugError + jsstring list" where
  "normalizeDebugCapabilities caps =
     rbind (ensure (\<not> length caps > DEBUG_EXECUTION_MAX_CAPABILITIES) RangeError) (\<lambda>_.
     rbind (ensure (list_all capability_ok caps) RangeError) (\<lambda>_. Inr (sort (remdups caps))))"

definition lease_in_range :: "int \<Rightarrow> bool" where
  "lease_in_range ms \<longleftrightarrow> DEBUG_EXECUTION_MIN_LEASE_MS \<le> ms \<and> ms \<le> DEBUG_EXECUTION_MAX_LEASE_MS"

definition validateExecutionInput :: "CreateDebugExecutionInput \<Rightarrow> DebugError + jsstring list" where
  "validateExecutionInput i =
     rbind (ensure (list_all (opt_all UUID)
              [ci_id i, Some (ci_installationId i), Some (ci_deviceId i), Some (ci_initiatingUserId i)])
              RangeError) (\<lambda>_.
     rbind (ensure (ci_pluginId i \<noteq> [] \<and> length (ci_pluginId i) \<le> 128) RangeError) (\<lambda>_.
     rbind (ensure (ci_pluginVersion i \<noteq> [] \<and> length (ci_pluginVersion i) \<le> 128) RangeError) (\<lambda>_.
     rbind (ensure (SHA256 (ci_manifestHash i) \<and> SHA256 (ci_tokenHash i)) RangeError) (\<lambda>_.
     rbind (ensure (lease_in_range (ci_leaseMs i)) RangeError) (\<lambda>_.
     rbind (ensure (max DEBUG_EXECUTION_MIN_TTL_MS (ci_leaseMs i) \<le> ci_ttlMs i \<and>
                    ci_ttlMs i \<le> DEBUG_EXECUTION_MAX_TTL_MS) RangeError) (\<lambda>_.
       normalizeDebugCapabilities (ci_allowedCapabilities i)))))))"

section \<open>Tables\<close>

definition controlling :: "debug_execution \<Rightarrow> bool" where
  "controlling e \<longleftrightarrow> estate e = Active \<or> estate e = Cancelling"

definition unfinished :: "debug_execution \<Rightarrow> bool" where
  "unfinished e \<longleftrightarrow> estate e \<in> {Active, Paused, Cancelling}"

definition executions_unique :: "debug_execution list \<Rightarrow> bool" where
  "executions_unique es \<longleftrightarrow> distinct (map eid es) \<and> distinct (map token_hash es) \<and>
     distinct (map edevice_id (filter controlling es))"

definition execution_fk :: "db \<Rightarrow> debug_execution \<Rightarrow> bool" where
  "execution_fk d e \<longleftrightarrow> einstallation_id e \<in> iid ` set (plugin_installations d) \<and>
     edevice_id e \<in> did ` set (devices d) \<and> initiating_user_id e \<in> set (users d)"

text \<open>An UPDATE of executions: the rewritten rows in the order of the scan, and the database.\<close>

definition update_executions ::
    "(debug_execution \<Rightarrow> bool) \<Rightarrow> (debug_execution \<Rightarrow> debug_execution) \<Rightarrow> db
       \<Rightarrow> DebugError + (debug_execution list \<times> db)" where
  "update_executions p f d =
     (let es = map (\<lambda>e. if p e then f e else e) (debug_executions d) in
      if executions_unique es
      then Inr (map f (filter p (debug_executions d)), d\<lparr>debug_executions := es\<rparr>)
      else Inl DatabaseError)"

definition find_installation :: "uuid \<Rightarrow> db \<Rightarrow> plugin_installation option" where
  "find_installation i d = find (\<lambda>x. iid x = i) (plugin_installations d)"

definition find_execution :: "(debug_execution \<Rightarrow> bool) \<Rightarrow> db \<Rightarrow> debug_execution option" where
  "find_execution p d = find p (debug_executions d)"

definition bound_to :: "uuid \<Rightarrow> jsstring \<Rightarrow> db \<Rightarrow> bool" where
  "bound_to dev inst d \<longleftrightarrow>
     (case find (\<lambda>b. bdevice_id b = dev) (plugin_device_bindings d) of
        None \<Rightarrow> False | Some b \<Rightarrow> binstallation_id b = inst)"

definition member :: "uuid \<Rightarrow> uuid \<Rightarrow> db \<Rightarrow> bool" where
  "member u p d \<longleftrightarrow> (u, p) \<in> set (user_projects d)"

definition lease_valid :: "time \<Rightarrow> debug_execution \<Rightarrow> bool" where
  "lease_valid t e \<longleftrightarrow> (case device_lease_expires_at e of None \<Rightarrow> False | Some l \<Rightarrow> l > t)"

text \<open>\<^verbatim>\<open>if (!row) throw e\<close>.\<close>

definition require :: "'a option \<Rightarrow> DebugError \<Rightarrow> DebugError + 'a" where
  "require x e = (case x of None \<Rightarrow> Inl e | Some v \<Rightarrow> Inr v)"

section \<open>Executions\<close>

definition createDebugExecution ::
    "time \<Rightarrow> uuid \<Rightarrow> CreateDebugExecutionInput \<Rightarrow> db \<Rightarrow> debug_execution dtx" where
  "createDebugExecution t newId i d =
     rbind (validateExecutionInput i) (\<lambda>capabilities.
     rbind (require (find_installation (canon (ci_installationId i)) d) InstallationNotFound) (\<lambda>inst.
     rbind (ensure (ienabled inst) InstallationDisabled) (\<lambda>_.
     rbind (ensure (iplugin_id inst = ci_pluginId i \<and> iplugin_version inst = ci_pluginVersion i \<and>
                    imanifest_hash inst = ci_manifestHash i) ManifestMismatch) (\<lambda>_.
     rbind (require (find_device (canon (ci_deviceId i)) d) DeviceNotFound) (\<lambda>dev.
     rbind (ensure (dproject_id dev = iproject_id inst) DifferentProjects) (\<lambda>_.
     rbind (ensure (bound_to (canon (ci_deviceId i)) (ci_installationId i) d) NotBound) (\<lambda>_.
     rbind (ensure (member (canon (ci_initiatingUserId i)) (iproject_id inst) d) NotMember) (\<lambda>_.
     let e = \<lparr>eid = canon (case ci_id i of None \<Rightarrow> newId | Some x \<Rightarrow> x),
              einstallation_id = canon (ci_installationId i), edevice_id = canon (ci_deviceId i),
              initiating_user_id = canon (ci_initiatingUserId i), eplugin_id = ci_pluginId i,
              eplugin_version = ci_pluginVersion i, emanifest_hash = ci_manifestHash i,
              allowed_capabilities = capabilities, token_hash = ci_tokenHash i, estate = Active,
              device_lease_expires_at = Some (t + ci_leaseMs i), expires_at = t + ci_ttlMs i,
              ecreated_at = t, updated_at = t, finished_at = None\<rparr> in
     rbind (ensure (executions_unique (debug_executions d @ [e])) ExecutionConflict) (\<lambda>_.
     rbind (ensure (execution_fk d e) DatabaseError) (\<lambda>_.
       Inr (e, d\<lparr>debug_executions := debug_executions d @ [e]\<rparr>)))))))))))"

definition getDebugExecution :: "jsstring \<Rightarrow> db \<Rightarrow> DebugError + debug_execution option" where
  "getDebugExecution i d =
     rbind (ensure (UUID i) RangeError) (\<lambda>_. Inr (find_execution (\<lambda>e. eid e = canon i) d))"

definition getDebugExecutionCapability ::
    "time \<Rightarrow> jsstring \<Rightarrow> jsstring \<Rightarrow> db \<Rightarrow> debug_execution option" where
  "getDebugExecutionCapability t i tokenHash d =
     (if \<not> UUID i \<or> \<not> SHA256 tokenHash then None
      else find_execution (\<lambda>e. eid e = canon i \<and> token_hash e = tokenHash \<and> unfinished e \<and> expires_at e > t \<and>
             list_ex (\<lambda>x. iid x = einstallation_id e \<and> member (initiating_user_id e) (iproject_id x) d)
               (plugin_installations d)) d)"

record DebugSessionExecutionScope =
  ss_executionId :: jsstring
  ss_tokenHash :: jsstring
  ss_installationId :: jsstring
  ss_projectId :: jsstring
  ss_deviceId :: jsstring
  ss_pluginId :: jsstring
  ss_pluginVersion :: jsstring
  ss_manifestHash :: jsstring

definition revalidateDebugSessionExecution ::
    "time \<Rightarrow> DebugSessionExecutionScope \<Rightarrow> db \<Rightarrow> DebugError + debug_execution" where
  "revalidateDebugSessionExecution t i d =
     rbind (ensure (UUID (ss_executionId i) \<and> UUID (ss_installationId i) \<and> UUID (ss_projectId i) \<and>
                    UUID (ss_deviceId i) \<and> SHA256 (ss_tokenHash i) \<and> SHA256 (ss_manifestHash i))
              CapabilityError) (\<lambda>_.
     rbind (require (find_installation (canon (ss_installationId i)) d) CapabilityError) (\<lambda>inst.
     rbind (ensure (ienabled inst \<and> iproject_id inst = ss_projectId i \<and> iplugin_id inst = ss_pluginId i \<and>
                    iplugin_version inst = ss_pluginVersion i \<and> imanifest_hash inst = ss_manifestHash i)
              CapabilityError) (\<lambda>_.
     rbind (require (find_device (canon (ss_deviceId i)) d) CapabilityError) (\<lambda>dev.
     rbind (ensure (dproject_id dev = ss_projectId i) CapabilityError) (\<lambda>_.
     rbind (ensure (bound_to (canon (ss_deviceId i)) (ss_installationId i) d) CapabilityError) (\<lambda>_.
     rbind (require (find_execution (\<lambda>e. eid e = canon (ss_executionId i) \<and> token_hash e = ss_tokenHash i \<and>
              einstallation_id e = canon (ss_installationId i) \<and> edevice_id e = canon (ss_deviceId i) \<and>
              eplugin_id e = ss_pluginId i \<and> eplugin_version e = ss_pluginVersion i \<and>
              emanifest_hash e = ss_manifestHash i \<and> estate e = Active \<and> expires_at e > t \<and>
              lease_valid t e) d) CapabilityError) (\<lambda>e.
     rbind (ensure (member (initiating_user_id e) (canon (ss_projectId i)) d) CapabilityError) (\<lambda>_.
       Inr e))))))))"

definition renewed :: "time \<Rightarrow> int \<Rightarrow> debug_execution \<Rightarrow> debug_execution" where
  "renewed t ms e = e\<lparr>device_lease_expires_at := Some (min (expires_at e) (t + ms)), updated_at := t\<rparr>"

definition released :: "time \<Rightarrow> debug_execution \<Rightarrow> debug_execution" where
  "released t e = e\<lparr>estate := Paused, device_lease_expires_at := None, updated_at := t\<rparr>"

definition finished :: "time \<Rightarrow> execution_state \<Rightarrow> debug_execution \<Rightarrow> debug_execution" where
  "finished t s e = e\<lparr>estate := s, device_lease_expires_at := None, finished_at := Some t, updated_at := t\<rparr>"

text \<open>\<^verbatim>\<open>UPDATE ... RETURNING\<close> followed by \<^verbatim>\<open>if (!rows[0]) throw\<close>.\<close>

definition update_one ::
    "(debug_execution \<Rightarrow> bool) \<Rightarrow> (debug_execution \<Rightarrow> debug_execution) \<Rightarrow> db \<Rightarrow> debug_execution dtx" where
  "update_one p f d =
     rbind (update_executions p f d) (\<lambda>(rows, d').
       case rows of [] \<Rightarrow> Inl CapabilityError | e # _ \<Rightarrow> Inr (e, d'))"

definition renewDebugExecutionLease ::
    "time \<Rightarrow> jsstring \<Rightarrow> jsstring \<Rightarrow> int \<Rightarrow> db \<Rightarrow> debug_execution dtx" where
  "renewDebugExecutionLease t i tokenHash leaseMs d =
     rbind (ensure (UUID i \<and> SHA256 tokenHash) CapabilityError) (\<lambda>_.
     rbind (ensure (lease_in_range leaseMs) RangeError) (\<lambda>_.
       update_one (\<lambda>e. eid e = canon i \<and> token_hash e = tokenHash \<and> estate e = Active \<and> expires_at e > t)
         (renewed t leaseMs) d))"

definition releaseDebugExecution :: "time \<Rightarrow> jsstring \<Rightarrow> jsstring \<Rightarrow> db \<Rightarrow> debug_execution dtx" where
  "releaseDebugExecution t i tokenHash d =
     rbind (ensure (UUID i \<and> SHA256 tokenHash) CapabilityError) (\<lambda>_.
       update_one (\<lambda>e. eid e = canon i \<and> token_hash e = tokenHash \<and> estate e = Active \<and> expires_at e > t)
         (released t) d)"

record DebugExecutionUserScope =
  us_executionId :: jsstring
  us_tokenHash :: jsstring
  us_installationId :: jsstring
  us_projectId :: jsstring
  us_userId :: jsstring

text \<open>
  The checks \<^verbatim>\<open>renewDebugExecutionLeaseForUser\<close> and \<^verbatim>\<open>releaseDebugExecutionForUser\<close> make before
  they write.
\<close>

definition authorize_user :: "time \<Rightarrow> DebugExecutionUserScope \<Rightarrow> db \<Rightarrow> DebugError + debug_execution" where
  "authorize_user t i d =
     rbind (require (find_execution (\<lambda>e. eid e = canon (us_executionId i) \<and> token_hash e = us_tokenHash i) d)
              CapabilityError) (\<lambda>obs.
     rbind (ensure (einstallation_id obs = us_installationId i) CapabilityError) (\<lambda>_.
     rbind (require (find_installation (canon (us_installationId i)) d) CapabilityError) (\<lambda>inst.
     rbind (ensure (iproject_id inst = us_projectId i \<and> ienabled inst) CapabilityError) (\<lambda>_.
     rbind (require (find_device (edevice_id obs) d) CapabilityError) (\<lambda>dev.
     rbind (ensure (dproject_id dev = us_projectId i) CapabilityError) (\<lambda>_.
     rbind (require (find_execution (\<lambda>e. eid e = canon (us_executionId i) \<and> token_hash e = us_tokenHash i \<and>
              einstallation_id e = canon (us_installationId i) \<and> edevice_id e = edevice_id obs \<and>
              initiating_user_id e = canon (us_userId i) \<and> estate e = Active \<and> expires_at e > t) d)
              CapabilityError) (\<lambda>e.
     rbind (ensure (member (canon (us_userId i)) (canon (us_projectId i)) d) CapabilityError) (\<lambda>_.
       Inr e))))))))"

definition user_scope_ok :: "DebugExecutionUserScope \<Rightarrow> bool" where
  "user_scope_ok i \<longleftrightarrow> UUID (us_executionId i) \<and> SHA256 (us_tokenHash i) \<and> UUID (us_installationId i) \<and>
     UUID (us_projectId i) \<and> UUID (us_userId i)"

definition renewDebugExecutionLeaseForUser ::
    "time \<Rightarrow> DebugExecutionUserScope \<Rightarrow> int \<Rightarrow> db \<Rightarrow> debug_execution dtx" where
  "renewDebugExecutionLeaseForUser t i leaseMs d =
     rbind (ensure (user_scope_ok i) CapabilityError) (\<lambda>_.
     rbind (ensure (lease_in_range leaseMs) RangeError) (\<lambda>_.
     rbind (authorize_user t i d) (\<lambda>e. update_one (\<lambda>x. eid x = eid e) (renewed t leaseMs) d)))"

definition releaseDebugExecutionForUser ::
    "time \<Rightarrow> DebugExecutionUserScope \<Rightarrow> db \<Rightarrow> debug_execution dtx" where
  "releaseDebugExecutionForUser t i d =
     rbind (ensure (user_scope_ok i) CapabilityError) (\<lambda>_.
     rbind (authorize_user t i d) (\<lambda>e. update_one (\<lambda>x. eid x = eid e) (released t) d))"

definition completeDebugExecution ::
    "time \<Rightarrow> jsstring \<Rightarrow> jsstring \<Rightarrow> bool \<Rightarrow> db \<Rightarrow> debug_execution dtx" where
  "completeDebugExecution t i tokenHash succeeded d =
     rbind (ensure (UUID i \<and> SHA256 tokenHash) CapabilityError) (\<lambda>_.
       update_one (\<lambda>e. eid e = canon i \<and> token_hash e = tokenHash \<and> unfinished e \<and> expires_at e > t)
         (finished t (if succeeded then Completed else Failed)) d)"

text \<open>
  The two statements of \<^verbatim>\<open>expireDebugExecutions\<close>, each its own transaction; \<open>locked\<close> are the rows
  \<^verbatim>\<open>SKIP LOCKED\<close> passes over.
\<close>

definition expire_statement ::
    "(uuid \<Rightarrow> bool) \<Rightarrow> time \<Rightarrow> nat \<Rightarrow> db \<Rightarrow> nat dtx" where
  "expire_statement locked t n d =
     (let ids = map eid (take n (sort_key expires_at
           (filter (\<lambda>e. unfinished e \<and> expires_at e \<le> t \<and> \<not> locked (eid e)) (debug_executions d)))) in
      rbind (update_executions (\<lambda>e. eid e \<in> set ids) (finished t Expired) d) (\<lambda>(rows, d').
        Inr (length rows, d')))"

definition release_statement ::
    "(uuid \<Rightarrow> bool) \<Rightarrow> time \<Rightarrow> nat \<Rightarrow> db \<Rightarrow> nat dtx" where
  "release_statement locked t n d =
     (let ids = map eid (take n (sort_key (\<lambda>e. the (device_lease_expires_at e))
           (filter (\<lambda>e. estate e = Active \<and>
               (case device_lease_expires_at e of None \<Rightarrow> False | Some l \<Rightarrow> l \<le> t) \<and>
               expires_at e > t \<and> \<not> locked (eid e)) (debug_executions d)))) in
      rbind (update_executions (\<lambda>e. eid e \<in> set ids) (released t) d) (\<lambda>(rows, d').
        Inr (length rows, d')))"

definition expireDebugExecutions ::
    "(uuid \<Rightarrow> bool) \<Rightarrow> time \<Rightarrow> time \<Rightarrow> nat \<Rightarrow> db \<Rightarrow> (DebugError + (nat \<times> nat)) \<times> db" where
  "expireDebugExecutions locked t1 t2 n d =
     (if \<not> (1 \<le> n \<and> n \<le> 10000) then (Inl RangeError, d)
      else case expire_statement locked t1 n d of
             Inl e \<Rightarrow> (Inl e, d)
           | Inr (k, d1) \<Rightarrow>
               (case release_statement locked t2 n d1 of
                  Inl e \<Rightarrow> (Inl e, d1)
                | Inr (m, d2) \<Rightarrow> (Inr (k, m), d2)))"

section \<open>Commands under an execution\<close>

record EnqueueDebugCommandInput =
  ec_executionId :: jsstring
  ec_tokenHash :: jsstring
  ec_pluginId :: jsstring
  ec_pluginVersion :: jsstring
  ec_manifestHash :: jsstring
  ec_initiatingUserId :: jsstring
  ec_command :: DeviceCommand
  ec_correlationId :: "jsstring option"
  ec_idempotencyKey :: "jsstring option"

definition assertCapabilityInput :: "jsstring \<Rightarrow> jsstring \<Rightarrow> DebugError + unit" where
  "assertCapabilityInput i tokenHash = ensure (UUID i \<and> SHA256 tokenHash) CapabilityError"

text \<open>\<^verbatim>\<open>left === right\<close>, and byte strings by content.\<close>

fun equalCommandValue :: "jsval \<Rightarrow> jsval \<Rightarrow> bool" where
  "equalCommandValue (JBytes a) (JBytes b) = (a = b)"
| "equalCommandValue (JNum x) (JNum y) = js_num_eq x y"
| "equalCommandValue (JBig m) (JBig n) = (m = n)"
| "equalCommandValue JNull JNull = True"
| "equalCommandValue (JStr s) (JStr t) = (s = t)"
| "equalCommandValue (JBool a) (JBool b) = (a = b)"
| "equalCommandValue _ _ = False"

fun equalArgument :: "argument \<Rightarrow> argument \<Rightarrow> bool" where
  "equalArgument [(k, v)] [(k', v')] = (k \<noteq> [] \<and> k' \<noteq> [] \<and> k = k' \<and> equalCommandValue v v')"
| "equalArgument _ _ = False"

definition equalDeviceCommand :: "DeviceCommandExecution \<Rightarrow> DeviceCommand \<Rightarrow> bool" where
  "equalDeviceCommand l r \<longleftrightarrow> xcmd l = cmd r \<and>
     list_all2 equalArgument (case xargs l of None \<Rightarrow> [] | Some as \<Rightarrow> as)
                             (case cargs r of None \<Rightarrow> [] | Some as \<Rightarrow> as)"

text \<open>The least row in the order of a query, if any.\<close>

definition first_by :: "('a \<Rightarrow> 'k :: linorder) \<Rightarrow> 'a list \<Rightarrow> 'a option" where
  "first_by k xs = (case sort_key k xs of [] \<Rightarrow> None | x # _ \<Rightarrow> Some x)"

text \<open>The authorisation of \<^verbatim>\<open>enqueueDebugCommand\<close>: installation, device and execution.\<close>

definition authorize_enqueue ::
    "time \<Rightarrow> EnqueueDebugCommandInput \<Rightarrow> db
       \<Rightarrow> DebugError + (plugin_installation \<times> device \<times> debug_execution)" where
  "authorize_enqueue t i d =
     rbind (require (find_execution (\<lambda>e. eid e = canon (ec_executionId i)) d) CapabilityError) (\<lambda>obs.
     rbind (require (find_installation (einstallation_id obs) d) CapabilityError) (\<lambda>inst.
     rbind (ensure (ienabled inst) CapabilityError) (\<lambda>_.
     rbind (require (find_device (edevice_id obs) d) CapabilityError) (\<lambda>dev.
     rbind (ensure (dproject_id dev = iproject_id inst) CapabilityError) (\<lambda>_.
     rbind (require (find_execution (\<lambda>e. eid e = canon (ec_executionId i) \<and> token_hash e = ec_tokenHash i \<and>
              estate e = Active \<and> lease_valid t e \<and> expires_at e > t) d) CapabilityError) (\<lambda>e.
     rbind (ensure (einstallation_id e = iid inst \<and> edevice_id e = did dev \<and> eplugin_id e = ec_pluginId i \<and>
                    eplugin_version e = ec_pluginVersion i \<and> emanifest_hash e = ec_manifestHash i \<and>
                    initiating_user_id e = ec_initiatingUserId i \<and>
                    js ''device.enqueue_command'' \<in> set (allowed_capabilities e)) CapabilityError) (\<lambda>_.
     rbind (ensure (member (canon (ec_initiatingUserId i)) (iproject_id inst) d) CapabilityError) (\<lambda>_.
       Inr (inst, dev, e)))))))))"

definition debug_provenance ::
    "EnqueueDebugCommandInput \<Rightarrow> plugin_installation \<Rightarrow> CommandProvenance" where
  "debug_provenance i inst =
     \<lparr>originType = js ''plugin'', originUserId = Some (ec_initiatingUserId i),
      pluginInstallationId = Some (iid inst), pluginVersion = Some (ec_pluginVersion i),
      manifestHash = Some (ec_manifestHash i), executionId = Some (ec_executionId i),
      correlationId = Some (case ec_correlationId i of None \<Rightarrow> ec_executionId i | Some c \<Rightarrow> c),
      idempotencyKey = ec_idempotencyKey i\<rparr>"

definition existing_command :: "EnqueueDebugCommandInput \<Rightarrow> db \<Rightarrow> device_command option" where
  "existing_command i d =
     (case ec_idempotencyKey i of
        None \<Rightarrow> None
      | Some k \<Rightarrow> first_by (\<lambda>c. (created_at c, cid c))
          (filter (\<lambda>c. execution_id c = Some (canon (ec_executionId i)) \<and> idempotency_key c = Some k)
             (device_commands d)))"

definition enqueueDebugCommand ::
    "(bytes \<Rightarrow> CommandPayloadError + DeviceCommandExecution) \<Rightarrow> enqueue_env
       \<Rightarrow> EnqueueDebugCommandInput \<Rightarrow> db \<Rightarrow> device_command dtx" where
  "enqueueDebugCommand decodeExecution env i d =
     rbind (assertCapabilityInput (ec_executionId i) (ec_tokenHash i)) (\<lambda>_.
     rbind (ensure (UUID (ec_initiatingUserId i)) RangeError) (\<lambda>_.
     rbind (ensure (UUID (case ec_correlationId i of None \<Rightarrow> ec_executionId i | Some c \<Rightarrow> c)) RangeError) (\<lambda>_.
     rbind (ensure (opt_all (\<lambda>k. 1 \<le> length k \<and> length k \<le> 128) (ec_idempotencyKey i)) RangeError) (\<lambda>_.
     rbind (authorize_enqueue (now env) i d) (\<lambda>(inst, dev, e).
     case existing_command i d of
       Some c \<Rightarrow>
         (case decodeExecution (payload c) of
            Inl err \<Rightarrow> Inl (StoredPayloadInvalid err)
          | Inr x \<Rightarrow> if equalDeviceCommand x (ec_command i) then Inr (c, d) else Inl IdempotencyConflict)
     | None \<Rightarrow>
         (case enqueueBatchInTransaction env [did dev] (ec_command i)
                 \<lparr>deliveryTimeoutSeconds = None, provenance = Some (debug_provenance i inst)\<rparr> d of
            Inl err \<Rightarrow> Inl (QueueError err)
          | Inr ((batch, _), d') \<Rightarrow>
              rbind (require (find (\<lambda>c. batch_id c = batch \<and> device_id c = did dev) (device_commands d'))
                       CommandDisappeared) (\<lambda>c. Inr (c, d'))))))))"

definition findDebugCommandWithCapability ::
    "time \<Rightarrow> jsstring \<Rightarrow> jsstring \<Rightarrow> jsstring \<Rightarrow> jsstring \<Rightarrow> db \<Rightarrow> device_command option" where
  "findDebugCommandWithCapability t i tokenHash commandId capability d =
     find (\<lambda>c. cid c = canon commandId \<and>
        list_ex (\<lambda>e. execution_id c = Some (eid e) \<and> eid e = canon i \<and> token_hash e = tokenHash \<and>
           unfinished e \<and> expires_at e > t \<and> capability \<in> set (allowed_capabilities e))
          (debug_executions d)) (device_commands d)"

definition getDebugCommand ::
    "time \<Rightarrow> jsstring \<Rightarrow> jsstring \<Rightarrow> jsstring \<Rightarrow> db \<Rightarrow> DebugError + device_command option" where
  "getDebugCommand t i tokenHash commandId d =
     rbind (assertCapabilityInput i tokenHash) (\<lambda>_.
     rbind (ensure (UUID commandId) RangeError) (\<lambda>_.
       Inr (findDebugCommandWithCapability t i tokenHash commandId (js ''device.get_command'') d)))"

definition listDebugCommands :: "jsstring \<Rightarrow> nat \<Rightarrow> db \<Rightarrow> DebugError + device_command list" where
  "listDebugCommands i n d =
     rbind (ensure (UUID i) CapabilityError) (\<lambda>_.
     rbind (ensure (1 \<le> n \<and> n \<le> 256) RangeError) (\<lambda>_.
       Inr (take n (rev (sort_key (\<lambda>c. (created_at c, cid c))
         (filter (\<lambda>c. execution_id c = Some (canon i)) (device_commands d)))))))"

definition cancelled :: "time \<Rightarrow> device_command \<Rightarrow> device_command" where
  "cancelled t c = c\<lparr>
     cancel_requested_at := (case cancel_requested_at c of None \<Rightarrow> Some t | Some x \<Rightarrow> Some x),
     cstate := (if cstate c = Queued then DeliveryFailed else cstate c),
     lease_expires_at := (if cstate c = Queued then None else lease_expires_at c)\<rparr>"

definition requestDebugCommandCancellation ::
    "time \<Rightarrow> jsstring \<Rightarrow> jsstring \<Rightarrow> jsstring \<Rightarrow> db \<Rightarrow> device_command dtx" where
  "requestDebugCommandCancellation t i tokenHash commandId d =
     rbind (assertCapabilityInput i tokenHash) (\<lambda>_.
     rbind (ensure (UUID commandId) RangeError) (\<lambda>_.
     rbind (require (find_execution (\<lambda>e. eid e = canon i) d) CapabilityError) (\<lambda>obs.
     rbind (require (find_installation (einstallation_id obs) d) CapabilityError) (\<lambda>inst.
     rbind (ensure (ienabled inst) CapabilityError) (\<lambda>_.
     rbind (require (find_device (edevice_id obs) d) CapabilityError) (\<lambda>dev.
     rbind (ensure (dproject_id dev = iproject_id inst) CapabilityError) (\<lambda>_.
     rbind (require (find_execution (\<lambda>e. eid e = canon i \<and> token_hash e = tokenHash \<and> unfinished e \<and>
              expires_at e > t) d) CapabilityError) (\<lambda>e.
     rbind (ensure (einstallation_id e = iid inst \<and> edevice_id e = did dev \<and>
                    js ''device.cancel_command'' \<in> set (allowed_capabilities e)) CapabilityError) (\<lambda>_.
     rbind (ensure (member (initiating_user_id e) (iproject_id inst) d) CapabilityError) (\<lambda>_.
     let hit = (\<lambda>c. execution_id c = Some (eid e) \<and> cid c = canon commandId) in
     (case update_commands (\<lambda>c. hit c \<and> pending c) (cancelled t) d of
        None \<Rightarrow> Inl DatabaseError
      | Some (n, d') \<Rightarrow>
          rbind (require (find hit (device_commands d')) CapabilityError) (\<lambda>c. Inr (c, d')))))))))))))"

end
