(* ===== verification/QueueSystem.thy ===== *)
theory QueueSystem
  imports DebugExecutions
begin

text \<open>
  The command queue as a system: \<open>queue_step\<close> is one transaction of any of the processes that
  share the database (API, broker, plugin manager), in any order and at any time. The theory
  proves the invariant \<open>queue_inv\<close> of the reachable databases, that finished commands never
  change, that a device's commands are in flight in sequence order, what an enqueue creates,
  when a lease is granted, and that recording a result is idempotent.
\<close>

section \<open>Invariant\<close>

definition in_flight :: "device_command \<Rightarrow> bool" where
  "in_flight c \<longleftrightarrow> cstate c = Leased \<or> cstate c = BrokerAccepted"

text \<open>Earlier commands of the same device that do not depend on a debug execution.\<close>

definition precedes :: "device_command \<Rightarrow> device_command \<Rightarrow> bool" where
  "precedes e c \<longleftrightarrow> device_id e = device_id c \<and> sequence e < sequence c \<and> execution_id e = None"

definition in_order :: "db \<Rightarrow> bool" where
  "in_order d \<longleftrightarrow> (\<forall>c \<in> set (device_commands d). \<forall>e \<in> set (device_commands d).
     in_flight c \<and> precedes e c \<longrightarrow> \<not> pending e)"

definition numbered :: "db \<Rightarrow> device_command \<Rightarrow> bool" where
  "numbered d c \<longleftrightarrow> (\<exists>x \<in> set (devices d). did x = device_id c \<and> sequence c < next_command_sequence x)"

definition queue_inv :: "db \<Rightarrow> bool" where
  "queue_inv d \<longleftrightarrow> distinct (map did (devices d)) \<and>
     (\<forall>x \<in> set (devices d). 0 < next_command_sequence x) \<and>
     commands_unique (device_commands d) \<and>
     (\<forall>c \<in> set (device_commands d). command_check c \<and> numbered d c) \<and> in_order d"

text \<open>The columns no operation rewrites.\<close>

definition key :: "device_command \<Rightarrow> uuid \<times> uuid \<times> uuid \<times> int \<times> uuid option \<times> bytes \<times> jsstring option" where
  "key c = (cid c, batch_id c, device_id c, sequence c, execution_id c, payload c, idempotency_key c)"

lemma keyD:
  assumes "key c = key c'"
  shows "cid c = cid c'" "batch_id c = batch_id c'" "device_id c = device_id c'"
    "sequence c = sequence c'" "execution_id c = execution_id c'"
  using assms by (simp_all add: key_def)

lemma map_key:
  assumes "\<And>c. c \<in> set cs \<Longrightarrow> p c \<Longrightarrow> g (f c) = g c"
  shows "map g (map (\<lambda>c. if p c then f c else c) cs) = map g cs"
  using assms by (induction cs) auto

lemma commands_unique_map:
  assumes "commands_unique cs" and "\<And>c. c \<in> set cs \<Longrightarrow> p c \<Longrightarrow> key (f c) = key c"
  shows "commands_unique (map (\<lambda>c. if p c then f c else c) cs)"
proof -
  have "map cid (map (\<lambda>c. if p c then f c else c) cs) = map cid cs"
    "map (\<lambda>c. (device_id c, sequence c)) (map (\<lambda>c. if p c then f c else c) cs)
      = map (\<lambda>c. (device_id c, sequence c)) cs"
    "map (\<lambda>c. (batch_id c, device_id c)) (map (\<lambda>c. if p c then f c else c) cs)
      = map (\<lambda>c. (batch_id c, device_id c)) cs"
    using assms(2) by (intro map_key; simp add: key_def)+
  then show ?thesis using assms(1) unfolding commands_unique_def by (simp only:)
qed

text \<open>An update that keeps the keys, wakes no finished row, and puts a row in flight only when
  nothing precedes it, keeps the invariant.\<close>

lemma inv_update:
  assumes inv: "queue_inv d" and up: "update_commands p f d = Some (n, d')"
    and keep: "\<And>c. c \<in> set (device_commands d) \<Longrightarrow> p c \<Longrightarrow> key (f c) = key c"
    and dead: "\<And>c. c \<in> set (device_commands d) \<Longrightarrow> p c \<Longrightarrow> pending (f c) \<Longrightarrow> pending c"
    and flight: "\<And>c e. c \<in> set (device_commands d) \<Longrightarrow> p c \<Longrightarrow> in_flight (f c) \<Longrightarrow> \<not> in_flight c \<Longrightarrow>
      e \<in> set (device_commands d) \<Longrightarrow> precedes e c \<Longrightarrow> \<not> pending e"
  shows "queue_inv d'"
proof -
  let ?g = "\<lambda>c. if p c then f c else c"
  have d': "d' = d\<lparr>device_commands := map ?g (device_commands d)\<rparr>"
    and check: "\<And>c. c \<in> set (device_commands d) \<Longrightarrow> p c \<Longrightarrow> command_check (f c)"
    using up by (auto simp: update_commands_Some)
  have k: "key (?g c) = key c" if "c \<in> set (device_commands d)" for c
    using keep [OF that] by simp
  have "commands_unique (device_commands d')"
    unfolding d' using inv keep by (simp add: queue_inv_def commands_unique_map)
  moreover have "command_check c \<and> numbered d' c" if "c \<in> set (device_commands d')" for c
  proof -
    from that obtain b where b: "b \<in> set (device_commands d)" "c = ?g b" by (auto simp: d')
    with inv check have "command_check c" "numbered d b" by (auto simp: queue_inv_def)
    with keyD [OF k [OF b(1)]] b(2) show ?thesis by (simp add: numbered_def d')
  qed
  moreover have "in_order d'"
    unfolding in_order_def
  proof (intro ballI impI notI)
    fix c e assume "c \<in> set (device_commands d')" "e \<in> set (device_commands d')"
      and *: "in_flight c \<and> precedes e c" "pending e"
    then obtain b a where b: "b \<in> set (device_commands d)" "c = ?g b"
      and a: "a \<in> set (device_commands d)" "e = ?g a" by (auto simp: d')
    have "precedes a b"
      using * keyD [OF k [OF b(1)]] keyD [OF k [OF a(1)]] a(2) b(2) by (simp add: precedes_def)
    moreover have "pending a" using * a dead by (auto split: if_splits)
    moreover have "in_flight b \<or> \<not> pending a"
      using * b a flight [of b a] \<open>precedes a b\<close> by (auto split: if_splits)
    ultimately show False
      using inv a(1) b(1) by (auto simp: queue_inv_def in_order_def)
  qed
  ultimately show ?thesis
    using inv by (auto simp: queue_inv_def d')
qed

lemma inv_other:
  assumes "queue_inv d" and "device_commands d' = device_commands d" and "devices d' = devices d"
  shows "queue_inv d'"
  using assms by (simp add: queue_inv_def numbered_def in_order_def)

section \<open>Finished rows\<close>

definition frozen :: "db \<Rightarrow> db \<Rightarrow> bool" where
  "frozen d d' \<longleftrightarrow> (\<forall>c \<in> set (device_commands d). \<not> pending c \<longrightarrow> c \<in> set (device_commands d'))"

lemma frozen_refl: "frozen d d"
  by (simp add: frozen_def)

lemma frozen_trans: "frozen d d' \<Longrightarrow> frozen d' d'' \<Longrightarrow> frozen d d''"
  by (auto simp: frozen_def)

lemma frozen_update:
  assumes "update_commands p f d = Some (n, d')"
    and "\<And>c. c \<in> set (device_commands d) \<Longrightarrow> p c \<Longrightarrow> pending c"
  shows "frozen d d'"
  using assms by (auto simp: frozen_def update_commands_Some image_iff)

lemma frozen_other: "device_commands d' = device_commands d \<Longrightarrow> frozen d d'"
  by (simp add: frozen_def)

section \<open>Operations on existing rows\<close>

lemma sql_Inr [simp]: "sql x = Inr y \<longleftrightarrow> x = Some y"
  by (auto simp: sql_def split: option.splits)

text \<open>The operations of the queue keep the invariant and leave finished rows alone.\<close>

definition sound :: "db \<Rightarrow> db \<Rightarrow> bool" where
  "sound d d' \<longleftrightarrow> queue_inv d \<longrightarrow> queue_inv d' \<and> frozen d d'"

lemma sound_refl [simp]: "sound d d"
  by (simp add: sound_def frozen_refl)

lemma sound_update:
  assumes up: "update_commands p f d = Some (n, d')"
    and row: "\<And>c. queue_inv d \<Longrightarrow> c \<in> set (device_commands d) \<Longrightarrow> p c \<Longrightarrow>
      key (f c) = key c \<and> pending c \<and>
      (in_flight (f c) \<and> \<not> in_flight c \<longrightarrow>
         (\<forall>e \<in> set (device_commands d). precedes e c \<longrightarrow> \<not> pending e))"
  shows "sound d d'"
  unfolding sound_def
proof (intro impI conjI)
  assume inv: "queue_inv d"
  show "queue_inv d'"
    using row [OF inv] by (intro inv_update [OF inv up]) blast+
  show "frozen d d'"
    using row [OF inv] by (intro frozen_update [OF up]) blast
qed

lemma sound_other:
  "device_commands d' = device_commands d \<Longrightarrow> devices d' = devices d \<Longrightarrow> sound d d'"
  by (auto simp: sound_def frozen_other intro: inv_other)

lemma sound_trans: "sound d d' \<Longrightarrow> sound d' d'' \<Longrightarrow> sound d d''"
  by (auto simp: sound_def intro: frozen_trans)

lemma sound_notify: "sound d d' \<Longrightarrow> sound d (notify ch m d')"
  by (rule sound_trans) (auto simp: notify_def intro: sound_other)

lemma find_command_Some: "find_command i d = Some c \<Longrightarrow> c \<in> set (device_commands d) \<and> cid c = i"
  unfolding find_command_def by (drule find_Some_in)

lemma cid_inject:
  "queue_inv d \<Longrightarrow> c \<in> set (device_commands d) \<Longrightarrow> c' \<in> set (device_commands d) \<Longrightarrow> cid c = cid c' \<Longrightarrow> c = c'"
  by (auto simp: queue_inv_def commands_unique_def distinct_map dest: inj_onD)

lemma expireBatch_sound: "expireBatch t d = Inr (n, d') \<Longrightarrow> sound d d'"
proof -
  define es where "es = take EXPIRY_BATCH_SIZE (filter (expirable d t) (device_commands d))"
  assume "expireBatch t d = Inr (n, d')"
  then have up: "update_commands (\<lambda>c. cid c \<in> cid ` set es)
      (\<lambda>c. c\<lparr>cstate := DeliveryFailed, lease_expires_at := None\<rparr>) d = Some (n, d')"
    by (simp add: expireBatch_def Let_def es_def)
  have row: "pending c"
    if "queue_inv d" "c \<in> set (device_commands d)" "cid c \<in> cid ` set es" for c
  proof -
    from that obtain b where "b \<in> set es" "cid b = cid c" by auto
    then have "b \<in> set (filter (expirable d t) (device_commands d))"
      unfolding es_def by (blast dest: in_set_takeD)
    then show ?thesis
      using cid_inject [OF that(1), of b c] that \<open>cid b = cid c\<close> by (auto simp: expirable_def)
  qed
  show ?thesis
    by (rule sound_update [OF up]) (simp add: row key_def in_flight_def)
qed

lemma eligible_free:
  assumes "eligible d t c" and "e \<in> set (device_commands d)" and "precedes e c"
  shows "\<not> pending e"
  using assms by (auto simp: eligible_def list_ex_iff blocked_by_def precedes_def execution_permits_def)

lemma eligible_pending: "eligible d t c \<Longrightarrow> pending c"
  by (auto simp: eligible_def pending_def)

lemma candidate_eligible:
  "c \<in> set (lease_candidates locked t d) \<longleftrightarrow>
     c \<in> set (device_commands d) \<and> eligible d t c \<and> \<not> locked (cid c)"
  by (auto simp: lease_candidates_def)

lemma leaseNext_Some:
  assumes "leaseNext locked t ms d = Inr (Some l, d')"
  obtains c n where "c \<in> set (lease_candidates locked t d)" "c = hd (lease_candidates locked t d)"
    "lcid l = cid c" "lpayload l = payload c"
    "update_commands (\<lambda>x. cid x = cid c) (lease_row t ms) d = Some (n, d')"
  using assms by (auto simp: leaseNext_def rbind_eq_Inr split: list.splits)

lemma leaseNext_sound: "leaseNext locked t ms d = Inr (r, d') \<Longrightarrow> sound d d'"
proof (cases r)
  case None
  assume "leaseNext locked t ms d = Inr (r, d')"
  with None have "d' = d" by (auto simp: leaseNext_def rbind_eq_Inr split: list.splits)
  then show ?thesis by simp
next
  case (Some l)
  assume "leaseNext locked t ms d = Inr (r, d')"
  with Some obtain c n where c: "c \<in> set (lease_candidates locked t d)"
    and up: "update_commands (\<lambda>x. cid x = cid c) (lease_row t ms) d = Some (n, d')"
    by (auto elim: leaseNext_Some)
  show ?thesis
  proof (rule sound_update [OF up])
    fix x assume "queue_inv d" "x \<in> set (device_commands d)" "cid x = cid c"
    with c have "x = c" by (auto simp: candidate_eligible intro: cid_inject)
    with c show "key (lease_row t ms x) = key x \<and> pending x \<and>
        (in_flight (lease_row t ms x) \<and> \<not> in_flight x \<longrightarrow>
          (\<forall>e \<in> set (device_commands d). precedes e x \<longrightarrow> \<not> pending e))"
      by (auto simp: candidate_eligible eligible_pending eligible_free key_def lease_row_def)
  qed
qed

lemma markBrokerAccepted_sound: "markBrokerAccepted t i d = Inr (u, d') \<Longrightarrow> sound d d'"
proof -
  let ?f = "\<lambda>c. c\<lparr>cstate := BrokerAccepted, lease_expires_at := None, broker_accepted_at := Some t\<rparr>"
  assume "markBrokerAccepted t i d = Inr (u, d')"
  then obtain n where "update_commands (\<lambda>c. cid c = i \<and> cstate c = Leased) ?f d = Some (n, d')"
    by (auto simp: markBrokerAccepted_def rbind_eq_Inr split: if_splits option.splits)
  then show ?thesis
    by (rule sound_update) (auto simp: key_def pending_def in_flight_def)
qed

lemma releaseLease_sound: "releaseLease t i d = Inr (u, d') \<Longrightarrow> sound d d'"
proof -
  let ?f = "\<lambda>c. c\<lparr>cstate := Queued, available_at := t, lease_expires_at := None, broker_accepted_at := None\<rparr>"
  assume "releaseLease t i d = Inr (u, d')"
  then obtain n where "update_commands (\<lambda>c. cid c = i \<and> cstate c = Leased) ?f d = Some (n, d')"
    by (auto simp: releaseLease_def rbind_eq_Inr split: if_splits)
  then show ?thesis
    by (rule sound_update) (auto simp: key_def pending_def in_flight_def)
qed

lemma deferLease_sound: "deferLease t i d = Inr (u, d') \<Longrightarrow> sound d d'"
proof -
  let ?f = "\<lambda>c. c\<lparr>cstate := Queued, lease_expires_at := None, available_at := t\<rparr>"
  assume "deferLease t i d = Inr (u, d')"
  then obtain n where "update_commands (\<lambda>c. cid c = i \<and> cstate c = Leased) ?f d = Some (n, d')"
    by (auto simp: deferLease_def rbind_eq_Inr split: if_splits)
  then show ?thesis
    by (rule sound_update) (auto simp: key_def pending_def in_flight_def)
qed

text \<open>The two ways a result is accepted.\<close>

lemma recordDeviceResult_Inr:
  assumes "recordDeviceResult dec t uid r packet d = Inr (out, d')"
  obtains (again) c stored r' where "find_command (uuidFromBytes (rid r)) d = Some c"
      "cstate c = DeviceCompleted" "result_packet c = Some stored" "dec stored = Inr r'"
      "sameSemanticResult r' r" "out = AlreadyRecorded" "d' = d"
  | (first) c n d1 where "find_command (uuidFromBytes (rid r)) d = Some c" "pending c" "out = Recorded"
      "sequence c = rseq r" "\<exists>x. find_device (device_id c) d = Some x \<and> device_uid x = uid"
      "update_commands (\<lambda>x. cid x = uuidFromBytes (rid r)) (completed_row t (rcode r) packet) d = Some (n, d1)"
      "d' = notify COMMAND_RESULT_CHANNEL (batch_id c) d1"
  using assms
  by (auto simp: recordDeviceResult_def Let_def rbind_eq_Inr split: option.splits if_splits sum.splits)

lemma recordDeviceResult_sound: "recordDeviceResult dec t uid r packet d = Inr (out, d') \<Longrightarrow> sound d d'"
proof (erule recordDeviceResult_Inr)
  fix c n d1
  assume c: "find_command (uuidFromBytes (rid r)) d = Some c" "pending c"
    and up: "update_commands (\<lambda>x. cid x = uuidFromBytes (rid r)) (completed_row t (rcode r) packet) d = Some (n, d1)"
    and d': "d' = notify COMMAND_RESULT_CHANNEL (batch_id c) d1"
  have c': "c \<in> set (device_commands d)" "cid c = uuidFromBytes (rid r)"
    using find_command_Some [OF c(1)] by simp_all
  have row: "pending x" if "queue_inv d" "x \<in> set (device_commands d)" "cid x = uuidFromBytes (rid r)" for x
    using cid_inject [OF that(1) c'(1) that(2)] c(2) c'(2) that(3) by simp
  have "sound d d1"
    by (rule sound_update [OF up]) (simp add: row key_def completed_row_def in_flight_def)
  then show ?thesis unfolding d' by (rule sound_notify)
qed simp_all

lemma cancellation_Inr:
  assumes "requestDebugCommandCancellation t i h k d = Inr (c, d')"
  obtains e :: debug_execution and n where
    "update_commands (\<lambda>c. execution_id c = Some (eid e) \<and> cid c = canon k \<and> pending c) (cancelled t) d = Some (n, d')"
  using assms
  by (auto simp: requestDebugCommandCancellation_def Let_def rbind_eq_Inr split: option.splits)

lemma cancellation_sound:
  "requestDebugCommandCancellation t i h k d = Inr (c, d') \<Longrightarrow> sound d d'"
  by (erule cancellation_Inr, erule sound_update) (auto simp: key_def cancelled_def in_flight_def)

section \<open>Enqueueing\<close>

definition bumped :: "device \<Rightarrow> device" where
  "bumped x = x\<lparr>next_command_sequence := next_command_sequence x + 1\<rparr>"

definition targeted :: "uuid list \<Rightarrow> device \<Rightarrow> bool" where
  "targeted ids x \<longleftrightarrow> did x \<in> canon ` set ids"

lemma bumped_simps [simp]:
  "did (bumped x) = did x" "device_uid (bumped x) = device_uid x"
  "next_command_sequence (bumped x) = next_command_sequence x + 1"
  by (simp_all add: bumped_def)

lemma bump_sequence_Some:
  "bump_sequence ids d = Some (ts, d1) \<longleftrightarrow>
     (\<forall>x \<in> set (devices d). targeted ids x \<longrightarrow> next_command_sequence x < INT8_MAX) \<and>
     ts = map bumped (filter (targeted ids) (devices d)) \<and>
     d1 = d\<lparr>devices := map (\<lambda>x. if targeted ids x then bumped x else x) (devices d)\<rparr>"
  by (auto simp: bump_sequence_def Let_def list_all_iff targeted_def [abs_def] bumped_def [abs_def])

lemma command_rows_Inr:
  "command_rows env command opts i ts = Inr rs \<longleftrightarrow>
     (\<forall>t \<in> set ts. 1 < next_command_sequence t) \<and>
     rs = map (\<lambda>(j, t). command_row env command opts j t) (zip [i..<i + length ts] ts)"
proof (induction ts arbitrary: i rs)
  case (Cons t ts)
  have "[i..<i + length (t # ts)] = i # [Suc i..<Suc i + length ts]"
    by (subst upt_conv_Cons) simp_all
  then show ?case by (auto simp: rbind_eq_Inr Cons.IH)
qed auto

lemma check_uids_Inr: "check_uids ts = Inr u \<longleftrightarrow> (\<forall>t \<in> set ts. \<exists>top. commandExecution (device_uid t) = Inr top)"
  by (induction ts) (auto split: sum.splits)

text \<open>What a successful enqueue has checked and done.\<close>

definition new_rows ::
    "enqueue_env \<Rightarrow> uuid list \<Rightarrow> DeviceCommand \<Rightarrow> EnqueueBatchOptions \<Rightarrow> db \<Rightarrow> device_command list" where
  "new_rows env ids command opts d =
     (let ts = map bumped (filter (targeted ids) (devices d)) in
      map (\<lambda>(j, t). command_row env command opts j t) (zip [0..<length ts] ts))"

definition with_batch :: "enqueue_env \<Rightarrow> uuid list \<Rightarrow> db \<Rightarrow> db" where
  "with_batch env ids d =
     d\<lparr>devices := map (\<lambda>x. if targeted ids x then bumped x else x) (devices d),
       command_batches := command_batches d @ [(fresh env 0, length ids)]\<rparr>"

definition enqueue_ok ::
    "enqueue_env \<Rightarrow> uuid list \<Rightarrow> DeviceCommand \<Rightarrow> EnqueueBatchOptions \<Rightarrow> db \<Rightarrow> bool" where
  "enqueue_ok env ids command opts d \<longleftrightarrow>
     ids \<noteq> [] \<and> distinct ids \<and> length ids \<le> MAX_BATCH_TARGETS \<and> opt_all valid_provenance (provenance opts) \<and>
     length (filter (targeted ids) (devices d)) = length ids \<and>
     (\<forall>x \<in> set (devices d). targeted ids x \<longrightarrow> next_command_sequence x < INT8_MAX \<and>
        0 < next_command_sequence x \<and> (\<exists>top. commandExecution (device_uid x) = Inr top)) \<and>
     fresh env 0 \<notin> fst ` set (command_batches d) \<and>
     list_all command_check (new_rows env ids command opts d) \<and>
     list_all (command_fk (with_batch env ids d)) (new_rows env ids command opts d) \<and>
     commands_unique (device_commands d @ new_rows env ids command opts d)"

lemma enqueue_Inr:
  "enqueueBatchInTransaction env ids command opts d = Inr (r, d') \<longleftrightarrow>
     enqueue_ok env ids command opts d \<and> r = (fresh env 0, length ids) \<and>
     d' = notify COMMAND_NOTIFY_CHANNEL (fresh env 0)
       ((with_batch env ids d)\<lparr>device_commands := device_commands d @ new_rows env ids command opts d\<rparr>)"
    (is "?l \<longleftrightarrow> ?r")
proof -
  have *: "?l \<longleftrightarrow> ids \<noteq> [] \<and> distinct ids \<and> length ids \<le> MAX_BATCH_TARGETS \<and>
      opt_all valid_provenance (provenance opts) \<and>
      (\<exists>ts d1 rows d2 d3. bump_sequence ids d = Some (ts, d1) \<and> length ts = length ids \<and>
        check_uids ts = Inr () \<and> insert_batch (fresh env 0) (length ids) d1 = Some d2 \<and>
        command_rows env command opts 0 ts = Inr rows \<and> insert_commands rows d2 = Some d3 \<and>
        r = (fresh env 0, length ids) \<and> d' = notify COMMAND_NOTIFY_CHANNEL (fresh env 0) d3)"
    by (auto simp: enqueueBatchInTransaction_def rbind_eq_Inr validateCommandProvenance_def not_less)
  show ?thesis
    unfolding * bump_sequence_Some command_rows_Inr check_uids_Inr insert_batch_def insert_commands_def
      enqueue_ok_def
    by (auto simp: new_rows_def with_batch_def Let_def split: if_splits)
qed

lemma new_rows_in:
  "c \<in> set (new_rows env ids command opts d) \<Longrightarrow>
     \<exists>x \<in> set (devices d). \<exists>j. targeted ids x \<and> c = command_row env command opts j (bumped x)"
  by (fastforce simp: new_rows_def Let_def dest!: set_zip_rightD)

lemma command_row_simps [simp]:
  "device_id (command_row env command opts j t) = did t"
  "sequence (command_row env command opts j t) = next_command_sequence t - 1"
  "cstate (command_row env command opts j t) = Queued"
  "cid (command_row env command opts j t) = fresh env (Suc j)"
  "batch_id (command_row env command opts j t) = fresh env 0"
  "lease_expires_at (command_row env command opts j t) = None"
  "broker_accepted_at (command_row env command opts j t) = None"
  "result_code (command_row env command opts j t) = None"
  "result_packet (command_row env command opts j t) = None"
  "device_completed_at (command_row env command opts j t) = None"
  "attempt_count (command_row env command opts j t) = 0"
  "execution_id (command_row env command opts j t) = map_option canon (prov executionId (provenance opts))"
  by (simp_all add: command_row_def Let_def)

lemma device_inject:
  "queue_inv d \<Longrightarrow> x \<in> set (devices d) \<Longrightarrow> y \<in> set (devices d) \<Longrightarrow> did x = did y \<Longrightarrow> x = y"
  by (auto simp: queue_inv_def distinct_map dest: inj_onD)

lemma enqueue_sound:
  assumes "enqueueBatchInTransaction env ids command opts d = Inr (r, d')"
  shows "sound d d'"
proof -
  let ?new = "new_rows env ids command opts d"
  let ?d = "(with_batch env ids d)\<lparr>device_commands := device_commands d @ ?new\<rparr>"
  from assms have ok: "enqueue_ok env ids command opts d"
    and d': "d' = notify COMMAND_NOTIFY_CHANNEL (fresh env 0) ?d"
    by (auto simp: enqueue_Inr)
  have "queue_inv ?d" if inv: "queue_inv d"
  proof -
    have "map did (devices ?d) = map did (devices d)" by (simp add: with_batch_def)
    then have "distinct (map did (devices ?d))" using inv by (simp only: queue_inv_def)
    moreover have "0 < next_command_sequence x" if "x \<in> set (devices ?d)" for x
    proof -
      from that obtain y where "y \<in> set (devices d)" "x = (if targeted ids y then bumped y else y)"
        by (auto simp: with_batch_def)
      with inv show ?thesis by (force simp: queue_inv_def)
    qed
    moreover have "numbered ?d c" if "c \<in> set (device_commands d)" for c
    proof -
      from that inv obtain x where x: "x \<in> set (devices d)" "did x = device_id c" "sequence c < next_command_sequence x"
        by (auto simp: queue_inv_def numbered_def)
      let ?x = "if targeted ids x then bumped x else x"
      have "?x \<in> set (devices ?d)" "did ?x = device_id c" "sequence c < next_command_sequence ?x"
        using x by (auto simp: with_batch_def)
      then show ?thesis unfolding numbered_def by blast
    qed
    moreover have new: "numbered ?d c \<and> \<not> in_flight c" if "c \<in> set ?new" for c
    proof -
      from new_rows_in [OF that] obtain x j where x: "x \<in> set (devices d)" "targeted ids x"
        "c = command_row env command opts j (bumped x)" by auto
      have "bumped x \<in> set (devices ?d)" using x by (auto simp: with_batch_def intro!: image_eqI [of _ _ x])
      then have "numbered ?d c"
        unfolding numbered_def using x by (intro bexI [of _ "bumped x"]) simp_all
      with x show ?thesis by (simp add: in_flight_def)
    qed
    moreover have "in_order ?d"
      unfolding in_order_def
    proof (intro ballI impI)
      fix c e assume ce: "c \<in> set (device_commands ?d)" "e \<in> set (device_commands ?d)" "in_flight c \<and> precedes e c"
      with new have c: "c \<in> set (device_commands d)" by auto
      show "\<not> pending e"
      proof (cases "e \<in> set (device_commands d)")
        case True
        with ce c inv show ?thesis by (auto simp: queue_inv_def in_order_def)
      next
        case False
        with ce have "e \<in> set ?new" by simp
        from new_rows_in [OF this] obtain x j where x: "x \<in> set (devices d)"
          "e = command_row env command opts j (bumped x)" by blast
        from c inv obtain y where y: "y \<in> set (devices d)" "did y = device_id c" "sequence c < next_command_sequence y"
          by (auto simp: queue_inv_def numbered_def)
        have "x = y" using device_inject [OF inv x(1) y(1)] ce(3) x y by (simp add: precedes_def)
        then show ?thesis using ce(3) x y by (simp add: precedes_def)
      qed
    qed
    ultimately show ?thesis
      using inv ok by (auto simp: queue_inv_def enqueue_ok_def list_all_iff)
  qed
  then have "sound d ?d" by (auto simp: sound_def frozen_def)
  then show ?thesis unfolding d' by (rule sound_notify)
qed

section \<open>The system\<close>

lemma update_executions_other:
  "update_executions p f d = Inr (rows, d') \<Longrightarrow> device_commands d' = device_commands d \<and> devices d' = devices d"
  by (auto simp: update_executions_def Let_def split: if_splits)

lemma update_one_other:
  "update_one p f d = Inr (e, d') \<Longrightarrow> device_commands d' = device_commands d \<and> devices d' = devices d"
  unfolding update_one_def
  by (erule rbind_InrE) (auto dest: update_executions_other split: prod.splits list.splits)

lemma enqueueDebugCommand_Inr:
  assumes "enqueueDebugCommand dec env i d = Inr (c, d')"
  obtains (replayed) inst dev e x where "authorize_enqueue (now env) i d = Inr (inst, dev, e)"
      "existing_command i d = Some c" "dec (payload c) = Inr x" "equalDeviceCommand x (ec_command i)" "d' = d"
  | (created) inst dev e r where "authorize_enqueue (now env) i d = Inr (inst, dev, e)"
      "existing_command i d = None"
      "enqueueBatchInTransaction env [did dev] (ec_command i)
         \<lparr>deliveryTimeoutSeconds = None, provenance = Some (debug_provenance i inst)\<rparr> d = Inr (r, d')"
      "find (\<lambda>c. batch_id c = fst r \<and> device_id c = did dev) (device_commands d') = Some c"
proof -
  from assms obtain inst dev e where auth: "authorize_enqueue (now env) i d = Inr (inst, dev, e)"
    and rest: "(case existing_command i d of
       Some c \<Rightarrow>
         (case dec (payload c) of
            Inl err \<Rightarrow> Inl (StoredPayloadInvalid err)
          | Inr x \<Rightarrow> if equalDeviceCommand x (ec_command i) then Inr (c, d) else Inl IdempotencyConflict)
     | None \<Rightarrow>
         (case enqueueBatchInTransaction env [did dev] (ec_command i)
                 \<lparr>deliveryTimeoutSeconds = None, provenance = Some (debug_provenance i inst)\<rparr> d of
            Inl err \<Rightarrow> Inl (QueueError err)
          | Inr ((batch, _), d') \<Rightarrow>
              rbind (require (find (\<lambda>c. batch_id c = batch \<and> device_id c = did dev) (device_commands d'))
                       CommandDisappeared) (\<lambda>c. Inr (c, d')))) = Inr (c, d')"
    unfolding enqueueDebugCommand_def by (auto elim!: rbind_InrE)
  show thesis
  proof (cases "existing_command i d")
    case (Some c')
    with rest show thesis
      by (auto intro: replayed [OF auth] split: sum.splits if_splits)
  next
    case None
    with rest obtain r d1 where "enqueueBatchInTransaction env [did dev] (ec_command i)
        \<lparr>deliveryTimeoutSeconds = None, provenance = Some (debug_provenance i inst)\<rparr> d = Inr (r, d1)"
      "require (find (\<lambda>c. batch_id c = fst r \<and> device_id c = did dev) (device_commands d1)) CommandDisappeared = Inr c"
      "d1 = d'"
      by (auto simp: rbind_eq_Inr split: sum.splits prod.splits)
    then show thesis
      by (intro created [OF auth None]) (auto simp: require_def split: option.splits)
  qed
qed

lemma enqueueDebugCommand_sound: "enqueueDebugCommand dec env i d = Inr (c, d') \<Longrightarrow> sound d d'"
  by (erule enqueueDebugCommand_Inr) (auto intro: enqueue_sound)

inductive queue_step :: "db \<Rightarrow> db \<Rightarrow> bool" where
  step_enqueue: "enqueueBatch env ids command opts d = Inr (r, d') \<Longrightarrow> queue_step d d'"
| step_expire: "expireBatch t d = Inr (n, d') \<Longrightarrow> queue_step d d'"
| step_lease: "leaseNext locked t ms d = Inr (l, d') \<Longrightarrow> queue_step d d'"
| step_accept: "markBrokerAccepted t i d = Inr ((), d') \<Longrightarrow> queue_step d d'"
| step_release: "releaseLease t i d = Inr ((), d') \<Longrightarrow> queue_step d d'"
| step_defer: "deferLease t i d = Inr ((), d') \<Longrightarrow> queue_step d d'"
| step_result: "recordDeviceResult dec t uid r packet d = Inr (out, d') \<Longrightarrow> queue_step d d'"
| step_cancel: "requestDebugCommandCancellation t i h k d = Inr (c, d') \<Longrightarrow> queue_step d d'"
| step_debug_enqueue: "enqueueDebugCommand dec' env inp d = Inr (c, d') \<Longrightarrow> queue_step d d'"
| step_create: "createDebugExecution t newId inp' d = Inr (e, d') \<Longrightarrow> queue_step d d'"
| step_renew: "renewDebugExecutionLease t i h ms d = Inr (e, d') \<Longrightarrow> queue_step d d'"
| step_renew_user: "renewDebugExecutionLeaseForUser t us ms d = Inr (e, d') \<Longrightarrow> queue_step d d'"
| step_release_execution: "releaseDebugExecution t i h d = Inr (e, d') \<Longrightarrow> queue_step d d'"
| step_release_user: "releaseDebugExecutionForUser t us d = Inr (e, d') \<Longrightarrow> queue_step d d'"
| step_complete: "completeDebugExecution t i h ok d = Inr (e, d') \<Longrightarrow> queue_step d d'"
| step_expire_executions: "expire_statement locked t n d = Inr (k, d') \<Longrightarrow> queue_step d d'"
| step_release_leases: "release_statement locked t n d = Inr (k, d') \<Longrightarrow> queue_step d d'"

lemma queue_step_sound: "queue_step d d' \<Longrightarrow> sound d d'"
proof (induction rule: queue_step.induct)
  case (step_create t newId i d e d')
  then have "device_commands d' = device_commands d" "devices d' = devices d"
    by (auto simp: createDebugExecution_def Let_def rbind_eq_Inr)
  then show ?case by (rule sound_other)
qed (auto simp: enqueueBatch_def renewDebugExecutionLease_def releaseDebugExecution_def
      renewDebugExecutionLeaseForUser_def releaseDebugExecutionForUser_def completeDebugExecution_def
      expire_statement_def release_statement_def Let_def rbind_eq_Inr
    intro: enqueue_sound expireBatch_sound leaseNext_sound markBrokerAccepted_sound releaseLease_sound
      deferLease_sound recordDeviceResult_sound cancellation_sound enqueueDebugCommand_sound sound_other
    dest!: update_one_other update_executions_other)

definition queue_init :: "db \<Rightarrow> bool" where
  "queue_init d \<longleftrightarrow> device_commands d = [] \<and> distinct (map did (devices d)) \<and>
     (\<forall>x \<in> set (devices d). 0 < next_command_sequence x)"

interpretation qsys: progressing_system queue_init queue_step queue_inv frozen
proof unfold_locales
  show "queue_inv d" if "queue_init d" for d
    using that by (simp add: queue_init_def queue_inv_def commands_unique_def in_order_def)
  show "queue_inv d'" if "queue_inv d" "queue_step d d'" for d d'
    using queue_step_sound [OF that(2)] that(1) by (simp add: sound_def)
  show "frozen d d" for d by (rule frozen_refl)
  show "frozen d e" if "frozen d d'" "frozen d' e" for d d' e using that by (rule frozen_trans)
  show "frozen d d'" if "queue_inv d" "queue_step d d'" for d d'
    using queue_step_sound [OF that(2)] that(1) by (simp add: sound_def)
qed

end
