(* ===== verification/QueueProperties.thy ===== *)
theory QueueProperties
  imports QueueSystem "HOL-Library.Code_Target_Nat"
begin

text \<open>
  The properties of the command queue, with a small concrete run of it: one device, two
  commands; the first completes, the second is leased.
\<close>

section \<open>A concrete run\<close>

definition ex_uuid :: "char \<Rightarrow> uuid" where
  "ex_uuid c = js (''00000000-0000-4000-8000-00000000000'' @ [c])"

definition ex_db :: db where
  "ex_db = \<lparr>users = [], user_projects = [],
     devices = [\<lparr>did = ex_uuid CHR ''1'', device_uid = js ''dev-1'', dproject_id = ex_uuid CHR ''9'',
                next_command_sequence = 1\<rparr>],
     command_batches = [], device_commands = [], debug_executions = [], plugin_installations = [],
     plugin_device_bindings = [], notifications = []\<rparr>"

definition ex_env :: "char \<Rightarrow> char \<Rightarrow> enqueue_env" where
  "ex_env b c = \<lparr>now = 100, fresh = (\<lambda>i. if i = 0 then ex_uuid b else ex_uuid c), encode = (\<lambda>_. [0x80])\<rparr>"

definition ex_command :: DeviceCommand where
  "ex_command = \<lparr>cmd = js ''reboot'', cargs = None\<rparr>"

definition ex_opts :: EnqueueBatchOptions where
  "ex_opts = \<lparr>deliveryTimeoutSeconds = None, provenance = None\<rparr>"

definition ex_result :: DeviceCommandResult where
  "ex_result = \<lparr>rid = uuidToBytes (ex_uuid CHR ''b''), rseq = 1, rcode = 0, rpayload = None\<rparr>"

definition ex_decode :: "bytes \<Rightarrow> CommandPayloadError + DeviceCommandResult" where
  "ex_decode bs = (if bs = [0x90] then Inr ex_result else Inl BadMsgpack)"

definition after :: "'e + ('a \<times> db) \<Rightarrow> db" where
  "after r = (case r of Inl _ \<Rightarrow> ex_db | Inr (_, d) \<Rightarrow> d)"

definition ex_tx1 :: "(uuid \<times> nat) tx" where
  "ex_tx1 = enqueueBatch (ex_env CHR ''a'' CHR ''b'') [ex_uuid CHR ''1''] ex_command ex_opts ex_db"
definition ex_tx2 :: "(uuid \<times> nat) tx" where
  "ex_tx2 = enqueueBatch (ex_env CHR ''c'' CHR ''d'') [ex_uuid CHR ''1''] ex_command ex_opts (after ex_tx1)"
definition ex_tx3 :: "ResultRecordOutcome tx" where
  "ex_tx3 = recordDeviceResult ex_decode 200 (js ''dev-1'') ex_result [0x90] (after ex_tx2)"
definition ex_tx4 :: "LeasedCommand option tx" where
  "ex_tx4 = leaseNext (\<lambda>_. False) 300 5000 (after ex_tx3)"

lemma after_run: "\<not> isl r \<Longrightarrow> \<exists>x. r = Inr (x, after r)"
  by (cases r) (auto simp: after_def)

lemma ex_run_ok: "\<not> isl ex_tx1 \<and> \<not> isl ex_tx2 \<and> \<not> isl ex_tx3 \<and> \<not> isl ex_tx4"
  by code_simp

lemma ex_run3: "queue_step\<^sup>*\<^sup>* ex_db (after ex_tx3) \<and> queue_step\<^sup>*\<^sup>* (after ex_tx3) (after ex_tx4)"
proof -
  have "queue_step ex_db (after ex_tx1)"
    using after_run [of ex_tx1] ex_run_ok unfolding ex_tx1_def by (auto intro: step_enqueue)
  moreover have "queue_step (after ex_tx1) (after ex_tx2)"
    using after_run [of ex_tx2] ex_run_ok unfolding ex_tx2_def by (auto intro: step_enqueue)
  moreover have "queue_step (after ex_tx2) (after ex_tx3)"
    using after_run [of ex_tx3] ex_run_ok unfolding ex_tx3_def by (auto intro: step_result)
  moreover have "queue_step (after ex_tx3) (after ex_tx4)"
    using after_run [of ex_tx4] ex_run_ok unfolding ex_tx4_def by (auto intro: step_lease)
  ultimately show ?thesis by (meson converse_rtranclp_into_rtranclp rtranclp.rtrancl_refl)
qed

lemma ex_run: "queue_step\<^sup>*\<^sup>* ex_db (after ex_tx4)"
  using ex_run3 by (auto intro: rtranclp_trans)

lemma ex_init: "queue_init ex_db"
  by (simp add: queue_init_def ex_db_def)

lemma ex_final:
  "map (\<lambda>c. (sequence c, cstate c, device_id c, execution_id c)) (device_commands (after ex_tx4)) =
     [(1, DeviceCompleted, ex_uuid CHR ''1'', None), (2, Leased, ex_uuid CHR ''1'', None)]"
  by code_simp

lemma ex_final_rows:
  obtains e c where "device_commands (after ex_tx4) = [e, c]" "sequence e = 1" "sequence c = 2"
    "cstate e = DeviceCompleted" "cstate c = Leased" "device_id e = device_id c" "execution_id e = None"
  using ex_final by (auto simp: map_eq_Cons_conv)

section \<open>The system\<close>

text \<open>The numbers of the commands, in the order in which they were created.\<close>

definition command_numbers :: "db \<Rightarrow> (uuid \<times> int) list" where
  "command_numbers d = map (\<lambda>c. (device_id c, sequence c)) (device_commands d)"

definition numbers_of :: "uuid \<Rightarrow> db \<Rightarrow> int list" where
  "numbers_of i d = map sequence (filter (\<lambda>c. device_id c = i) (device_commands d))"

lemma numbers_of_command_numbers: "numbers_of i d = map snd (filter (\<lambda>p. fst p = i) (command_numbers d))"
  by (simp add: numbers_of_def command_numbers_def filter_map comp_def)

definition same_numbers :: "db \<Rightarrow> db \<Rightarrow> bool" where
  "same_numbers d d' \<longleftrightarrow> command_numbers d' = command_numbers d \<and> devices d' = devices d"

lemma same_numbers_update:
  assumes "update_commands p f d = Some (n, d')" and "\<And>c. device_id (f c) = device_id c \<and> sequence (f c) = sequence c"
  shows "same_numbers d d'"
  using assms by (auto simp: same_numbers_def command_numbers_def update_commands_Some)

lemma same_numbers_other: "device_commands d' = device_commands d \<Longrightarrow> devices d' = devices d \<Longrightarrow> same_numbers d d'"
  by (simp add: same_numbers_def command_numbers_def)

lemma same_numbers_notify: "same_numbers d d' \<Longrightarrow> same_numbers d (notify ch m d')"
  by (simp add: same_numbers_def command_numbers_def notify_def)

lemma leaseNext_numbers: "leaseNext locked t ms d = Inr (r, d') \<Longrightarrow> same_numbers d d'"
  by (cases r) (auto simp: leaseNext_def rbind_eq_Inr lease_row_def split: list.splits
      intro: same_numbers_other elim!: leaseNext_Some same_numbers_update)

lemma result_numbers: "recordDeviceResult dec t uid r packet d = Inr (out, d') \<Longrightarrow> same_numbers d d'"
  by (erule recordDeviceResult_Inr) (auto simp: completed_row_def intro: same_numbers_other intro!: same_numbers_notify elim!: same_numbers_update)

lemma cancellation_numbers: "requestDebugCommandCancellation t i h k d = Inr (c, d') \<Longrightarrow> same_numbers d d'"
  by (erule cancellation_Inr, erule same_numbers_update) (simp add: cancelled_def)

lemma simple_numbers:
  "expireBatch t d = Inr (n, d') \<Longrightarrow> same_numbers d d'"
  "markBrokerAccepted t i d = Inr (u, d') \<Longrightarrow> same_numbers d d'"
  "releaseLease t i d = Inr (u, d') \<Longrightarrow> same_numbers d d'"
  "deferLease t i d = Inr (u, d') \<Longrightarrow> same_numbers d d'"
  by (auto simp: expireBatch_def markBrokerAccepted_def releaseLease_def deferLease_def Let_def rbind_eq_Inr
      split: if_splits option.splits elim!: same_numbers_update)

text \<open>Every step but an enqueue keeps the numbers and the counters.\<close>

lemma queue_step_numbers:
  "queue_step d d' \<Longrightarrow> same_numbers d d' \<or> (\<exists>env ids command opts r. enqueueBatchInTransaction env ids command opts d = Inr (r, d'))"
proof (induction rule: queue_step.induct)
  case (step_create t newId i d e d')
  then show ?case by (auto simp: createDebugExecution_def Let_def rbind_eq_Inr intro: same_numbers_other)
next
  case (step_debug_enqueue dec env inp d c d')
  then show ?case by (auto elim!: enqueueDebugCommand_Inr intro: same_numbers_other)
qed (auto simp: enqueueBatch_def renewDebugExecutionLease_def releaseDebugExecution_def
      renewDebugExecutionLeaseForUser_def releaseDebugExecutionForUser_def completeDebugExecution_def
      expire_statement_def release_statement_def Let_def rbind_eq_Inr
    intro: simple_numbers leaseNext_numbers result_numbers cancellation_numbers same_numbers_other
    dest!: update_one_other update_executions_other)

text \<open>Each device's commands carry the numbers from its first counter value on, without gap, in the order of creation.\<close>

definition gapless :: "(uuid \<Rightarrow> int) \<Rightarrow> db \<Rightarrow> bool" where
  "gapless first d \<longleftrightarrow> (\<forall>x \<in> set (devices d). first (did x) \<le> next_command_sequence x \<and>
     numbers_of (did x) d = [first (did x)..next_command_sequence x - 1])"

lemma filter_key:
  "distinct (map f xs) \<Longrightarrow> x \<in> set xs \<Longrightarrow> filter (\<lambda>y. f y = f x \<and> P y) xs = (if P x then [x] else [])"
proof (induction xs)
  case (Cons y ys)
  have "f z \<noteq> f y" if "z \<in> set ys" for z using Cons.prems(1) that by (auto simp: image_iff)
  then have "filter (\<lambda>z. f z = f y \<and> P z) ys = []" by (simp add: filter_empty_conv)
  with Cons show ?case by auto
qed simp

lemma new_numbers:
  assumes inv: "queue_inv d" and x: "x \<in> set (devices d)"
  shows "map sequence (filter (\<lambda>c. device_id c = did x) (new_rows env ids command opts d)) =
    (if targeted ids x then [next_command_sequence x] else [])"
proof -
  let ?ts = "map bumped (filter (targeted ids) (devices d))"
  have "map (\<lambda>c. (device_id c, sequence c)) (new_rows env ids command opts d) =
      map (\<lambda>t. (did t, next_command_sequence t - 1)) (map snd (zip [0..<length ?ts] ?ts))"
    by (simp add: new_rows_def Let_def split_beta comp_def del: map_snd_zip)
  also have "\<dots> = map (\<lambda>y. (did y, next_command_sequence y)) (filter (targeted ids) (devices d))"
    by (simp add: comp_def)
  finally have rows: "map (\<lambda>c. (device_id c, sequence c)) (new_rows env ids command opts d) =
      map (\<lambda>y. (did y, next_command_sequence y)) (filter (targeted ids) (devices d))" .
  have "map sequence (filter (\<lambda>c. device_id c = did x) (new_rows env ids command opts d)) =
      map snd (filter (\<lambda>p. fst p = did x) (map (\<lambda>c. (device_id c, sequence c)) (new_rows env ids command opts d)))"
    by (simp add: filter_map comp_def)
  also have "\<dots> = map next_command_sequence (filter (\<lambda>y. did y = did x \<and> targeted ids y) (devices d))"
    unfolding rows by (simp add: filter_map comp_def conj_commute)
  also have "filter (\<lambda>y. did y = did x \<and> targeted ids y) (devices d) = (if targeted ids x then [x] else [])"
    using inv x by (intro filter_key) (simp_all add: queue_inv_def)
  finally show ?thesis by auto
qed

lemma enqueue_gapless:
  assumes inv: "queue_inv d" and gap: "gapless first d" and enq: "enqueueBatchInTransaction env ids command opts d = Inr (r, d')"
  shows "gapless first d'"
  unfolding gapless_def
proof
  fix y assume "y \<in> set (devices d')"
  then obtain x where x: "x \<in> set (devices d)" "y = (if targeted ids x then bumped x else x)"
    using enq by (auto simp: enqueue_Inr notify_def with_batch_def)
  then have y: "did y = did x" "next_command_sequence y = (if targeted ids x then next_command_sequence x + 1 else next_command_sequence x)"
    by simp_all
  have "device_commands d' = device_commands d @ new_rows env ids command opts d"
    using enq by (auto simp: enqueue_Inr notify_def)
  then have "numbers_of (did y) d' = numbers_of (did x) d @ (if targeted ids x then [next_command_sequence x] else [])"
    by (simp add: numbers_of_def y(1) new_numbers [OF inv x(1)])
  moreover have "first (did x) \<le> next_command_sequence x" "numbers_of (did x) d = [first (did x)..next_command_sequence x - 1]"
    using gap x(1) by (auto simp: gapless_def)
  ultimately show "first (did y) \<le> next_command_sequence y \<and> numbers_of (did y) d' = [first (did y)..next_command_sequence y - 1]"
    by (auto simp: y upto_rec2)
qed

lemma queue_step_gapless: "queue_step d d' \<Longrightarrow> queue_inv d \<Longrightarrow> gapless first d \<Longrightarrow> gapless first d'"
proof -
  assume a: "queue_step d d'" "queue_inv d" "gapless first d"
  have "gapless first d'" if "same_numbers d d'"
    using a(3) that by (simp add: gapless_def same_numbers_def numbers_of_command_numbers)
  with queue_step_numbers [OF a(1)] show ?thesis by (blast intro: enqueue_gapless [OF a(2,3)])
qed

definition first_number :: "db \<Rightarrow> uuid \<Rightarrow> int" where
  "first_number d i = (case find (\<lambda>x. did x = i) (devices d) of None \<Rightarrow> 0 | Some x \<Rightarrow> next_command_sequence x)"

lemma first_number: "queue_init d \<Longrightarrow> x \<in> set (devices d) \<Longrightarrow> first_number d (did x) = next_command_sequence x"
  by (simp add: first_number_def queue_init_def find_unique)

lemma reachable_gapless:
  assumes "queue_step\<^sup>*\<^sup>* d0 d" and "queue_init d0"
  shows "gapless (first_number d0) d"
  using assms(1)
proof (induction rule: rtranclp_induct)
  case base
  then show ?case using assms(2) by (auto simp: gapless_def first_number numbers_of_def queue_init_def)
next
  case (step d d')
  then show ?case using qsys.reachable_inv [OF assms(2)] queue_step_gapless by blast
qed

text \<open>
  C3. Whatever the processes that share the database do, and in whatever order, a device's commands are numbered without gap: listed as
  they were created, their numbers are exactly those from the device's first counter value up to the one before its next. So a number
  is never skipped, given twice or given out of order, not even by enqueues that fail or are repeated. The command
  table stays consistent: identifiers and (batch, device) pairs are unique, every row satisfies the CHECK constraints and belongs to a device.
\<close>

theorem queue_invariant:
  assumes "queue_init d0" and "queue_step\<^sup>*\<^sup>* d0 d"
  shows "(\<forall>x0 \<in> set (devices d0). \<exists>x \<in> set (devices d). did x = did x0 \<and>
      map sequence (filter (\<lambda>c. device_id c = did x) (device_commands d)) = [next_command_sequence x0..next_command_sequence x - 1]) \<and>
    commands_unique (device_commands d) \<and> (\<forall>c \<in> set (device_commands d). command_check c \<and>
      (\<exists>x \<in> set (devices d). did x = device_id c \<and> 0 < sequence c \<and> sequence c < next_command_sequence x))"
proof -
  have gap: "gapless (first_number d0) d" by (rule reachable_gapless [OF assms(2,1)])
  have ids: "map did (devices d) = map did (devices d0)"
    using assms(2)
  proof (induction rule: rtranclp_induct)
    case (step b c)
    then show ?case using queue_step_numbers [OF step(2)]
      by (auto simp: same_numbers_def enqueue_Inr notify_def with_batch_def comp_def if_distrib [of did] cong: if_cong)
  qed simp
  have "\<exists>x \<in> set (devices d). did x = did x0 \<and>
      map sequence (filter (\<lambda>c. device_id c = did x) (device_commands d)) = [next_command_sequence x0..next_command_sequence x - 1]"
    if x0: "x0 \<in> set (devices d0)" for x0
  proof -
    from x0 ids obtain x where x: "x \<in> set (devices d)" "did x = did x0" by (metis (no_types, lifting) image_iff list.set_map)
    then show ?thesis using gap first_number [OF assms(1) x0] by (auto simp: gapless_def numbers_of_def)
  qed
  then show ?thesis
    using qsys.reachable_inv [OF assms] by (auto simp: queue_inv_def numbered_def command_check_def)
qed

theorem queue_invariant_witness:
  "\<exists>x \<in> set (devices (after ex_tx4)). map sequence (filter (\<lambda>c. device_id c = did x) (device_commands (after ex_tx4))) = [1..next_command_sequence x - 1]"
proof -
  have "list_ex (\<lambda>x. next_command_sequence x = 1) (devices ex_db)" by code_simp
  then obtain x0 where "x0 \<in> set (devices ex_db)" "next_command_sequence x0 = 1" by (auto simp: list_ex_iff)
  with conjunct1 [OF queue_invariant [OF ex_init ex_run]] show ?thesis by metis
qed

lemma in_flight_pending: "in_flight c \<Longrightarrow> pending c"
  by (auto simp: in_flight_def pending_def)

lemma in_order_one:
  assumes inv: "queue_inv d" and c: "c \<in> set (device_commands d)" "in_flight c" "execution_id c = None"
    and e: "e \<in> set (device_commands d)" "in_flight e" "execution_id e = None"
    and dev: "device_id e = device_id c"
  shows "e = c"
proof (rule ccontr)
  assume "e \<noteq> c"
  have "inj_on (\<lambda>c. (device_id c, sequence c)) (set (device_commands d))"
    using inv by (simp add: queue_inv_def commands_unique_def distinct_map)
  with \<open>e \<noteq> c\<close> c(1) e(1) dev have "sequence e \<noteq> sequence c" by (auto dest: inj_onD)
  then have "precedes e c \<or> precedes c e"
    using c(3) e(3) dev by (simp add: precedes_def neq_iff)
  moreover have "in_order d" using inv by (simp add: queue_inv_def)
  ultimately show False
    using c e in_flight_pending [of c] in_flight_pending [of e] unfolding in_order_def by blast
qed

text \<open>
  C1. Commands reach a device in order. While a command is leased or accepted by the broker, no
  earlier command of the device is still pending, unless that earlier command belongs to a
  debug execution (which may lapse); and at most one command outside debug executions is in
  flight per device.
\<close>

theorem in_order_delivery:
  assumes "queue_init d0" and "queue_step\<^sup>*\<^sup>* d0 d"
    and "c \<in> set (device_commands d)" and "e \<in> set (device_commands d)"
    and "in_flight c" and "device_id e = device_id c" and "execution_id e = None"
  shows "(sequence e < sequence c \<longrightarrow> \<not> pending e) \<and>
    (in_flight e \<and> execution_id c = None \<longrightarrow> e = c)"
  using qsys.reachable_inv [OF assms(1,2)] assms in_order_one [of d c e]
  by (auto simp: queue_inv_def in_order_def precedes_def)

theorem in_order_delivery_witness:
  "(let c = device_commands (after ex_tx4) ! 1; e = device_commands (after ex_tx4) ! 0 in
     sequence e < sequence c \<and> in_flight c \<and> \<not> pending e)"
proof -
  obtain e c where run: "device_commands (after ex_tx4) = [e, c]" "sequence e = 1" "sequence c = 2"
    "cstate c = Leased" "device_id e = device_id c" "execution_id e = None"
    by (rule ex_final_rows)
  then have "in_flight c" by (simp add: in_flight_def)
  with run show ?thesis
    using in_order_delivery [OF ex_init ex_run, of c e] by simp
qed

text \<open>
  C4. A completed or failed command is final: no later operation of any process changes any of
  its columns, its recorded result included.
\<close>

theorem finished_commands_final:
  assumes "queue_init d0" and "queue_step\<^sup>*\<^sup>* d0 d" and "queue_step\<^sup>*\<^sup>* d d'"
    and "c \<in> set (device_commands d)" and "cstate c \<in> {DeviceCompleted, DeliveryFailed}"
  shows "c \<in> set (device_commands d')"
  using qsys.steps_before [OF assms(3) qsys.reachable_inv [OF assms(1,2)]] assms(4,5)
  by (auto simp: frozen_def pending_def)

theorem finished_commands_final_witness:
  "\<exists>c \<in> set (device_commands (after ex_tx3)). cstate c = DeviceCompleted \<and> c \<in> set (device_commands (after ex_tx4))"
proof -
  have "map cstate (device_commands (after ex_tx3)) = [DeviceCompleted, Queued]"
    by code_simp
  then obtain c e where "device_commands (after ex_tx3) = [c, e]" "cstate c = DeviceCompleted"
    by (auto simp: map_eq_Cons_conv)
  then show ?thesis
    using finished_commands_final [OF ex_init conjunct1 [OF ex_run3] conjunct2 [OF ex_run3], of c] by auto
qed

section \<open>Enqueueing\<close>

lemma length_new_rows: "enqueue_ok env ids command opts d \<Longrightarrow> length (new_rows env ids command opts d) = length ids"
  by (simp add: enqueue_ok_def new_rows_def Let_def)

text \<open>
  A successful enqueue creates one queued command per target device and nothing else: each
  gets the sequence number its device would have handed out next, above every earlier command
  of the device; its payload is the encoding of the execution that carries the row's
  identifier and sequence; and exactly the target devices advance, by one.
\<close>

theorem enqueue_creates:
  assumes "queue_inv d" and "enqueueBatch env ids command opts d = Inr ((b, n), d')"
  shows "n = length ids \<and> (\<exists>rows. device_commands d' = device_commands d @ rows \<and> length rows = n \<and>
      (\<forall>c \<in> set rows. cstate c = Queued \<and> batch_id c = b \<and>
        (\<exists>x \<in> set (devices d). did x = device_id c \<and> did x \<in> canon ` set ids \<and>
           sequence c = next_command_sequence x) \<and>
        (\<forall>e \<in> set (device_commands d). device_id e = device_id c \<longrightarrow> sequence e < sequence c) \<and>
        payload c = encodeDeviceCommandExecution (encode env)
          \<lparr>xid = uuidToBytes (cid c), xseq = sequence c, xcmd = cmd command, xargs = cargs command\<rparr>)) \<and>
    devices d' = map (\<lambda>x. if did x \<in> canon ` set ids
      then x\<lparr>next_command_sequence := next_command_sequence x + 1\<rparr> else x) (devices d)"
proof -
  let ?new = "new_rows env ids command opts d"
  from assms(2) have ok: "enqueue_ok env ids command opts d" and r: "b = fresh env 0" "n = length ids"
    and d': "d' = notify COMMAND_NOTIFY_CHANNEL (fresh env 0)
       ((with_batch env ids d)\<lparr>device_commands := device_commands d @ ?new\<rparr>)"
    by (auto simp: enqueueBatch_def enqueue_Inr)
  have row: "cstate c = Queued \<and> batch_id c = b \<and>
      (\<exists>x \<in> set (devices d). did x = device_id c \<and> did x \<in> canon ` set ids \<and> sequence c = next_command_sequence x) \<and>
      (\<forall>e \<in> set (device_commands d). device_id e = device_id c \<longrightarrow> sequence e < sequence c) \<and>
      payload c = encodeDeviceCommandExecution (encode env)
        \<lparr>xid = uuidToBytes (cid c), xseq = sequence c, xcmd = cmd command, xargs = cargs command\<rparr>"
    if c: "c \<in> set ?new" for c
  proof -
    from new_rows_in [OF c] obtain x j where x: "x \<in> set (devices d)" "targeted ids x"
      and cx: "c = command_row env command opts j (bumped x)" by blast
    have "sequence e < sequence c" if e: "e \<in> set (device_commands d)" "device_id e = device_id c" for e
    proof -
      from e(1) assms(1) obtain y where y: "y \<in> set (devices d)" "did y = device_id e" "sequence e < next_command_sequence y"
        by (auto simp: queue_inv_def numbered_def)
      with device_inject [OF assms(1) y(1) x(1)] e(2) cx have "y = x" by simp
      with y(3) cx show ?thesis by simp
    qed
    moreover have "payload c = encodeDeviceCommandExecution (encode env)
        \<lparr>xid = uuidToBytes (cid c), xseq = sequence c, xcmd = cmd command, xargs = cargs command\<rparr>"
      by (simp add: cx command_row_def Let_def)
    ultimately show ?thesis
      using x cx r by (auto simp: targeted_def)
  qed
  show ?thesis
    using row r length_new_rows [OF ok]
    by (simp add: d' notify_def with_batch_def targeted_def [abs_def] bumped_def [abs_def])
qed

theorem enqueue_creates_witness:
  "\<exists>rows. device_commands (after ex_tx1) = rows \<and> length rows = 1 \<and> (\<forall>c \<in> set rows. sequence c = 1)"
proof -
  obtain r where "ex_tx1 = Inr (r, after ex_tx1)" using after_run [of ex_tx1] ex_run_ok by blast
  then have "enqueueBatch (ex_env CHR ''a'' CHR ''b'') [ex_uuid CHR ''1''] ex_command ex_opts ex_db
      = Inr ((fst r, snd r), after ex_tx1)" by (simp add: ex_tx1_def)
  moreover have "queue_inv ex_db" using ex_init by (rule qsys.init_inv)
  ultimately show ?thesis
    using enqueue_creates [of ex_db "ex_env CHR ''a'' CHR ''b''" "[ex_uuid CHR ''1'']" ex_command ex_opts "fst r" "snd r"]
    by (auto simp: ex_db_def)
qed

lemma matching_devices:
  assumes "distinct (map did xs)" and "distinct ids" and "set ids \<subseteq> did ` set xs"
  shows "length (filter (\<lambda>x. did x \<in> set ids) xs) = length ids"
proof -
  let ?ys = "filter (\<lambda>x. did x \<in> set ids) xs"
  have "distinct (map did ?ys)"
    using assms(1) by (rule distinct_map_filter)
  moreover have "set (map did ?ys) = set ids"
    using assms(3) by (auto simp: image_iff)
  ultimately show ?thesis
    using assms(2) by (metis distinct_card length_map)
qed

text \<open>What an enqueue relies on: unused identifiers, existing targets with room to count, and
  provenance that refers to existing rows.\<close>

definition enqueue_ready ::
    "enqueue_env \<Rightarrow> uuid list \<Rightarrow> EnqueueBatchOptions \<Rightarrow> db \<Rightarrow> bool" where
  "enqueue_ready env ids opts d \<longleftrightarrow>
     ids \<noteq> [] \<and> length ids \<le> MAX_BATCH_TARGETS \<and> distinct (map canon ids) \<and>
     canon ` set ids \<subseteq> did ` set (devices d) \<and>
     (\<forall>x \<in> set (devices d). did x \<in> canon ` set ids \<longrightarrow>
        next_command_sequence x < INT8_MAX \<and> isValidDeviceUid (device_uid x)) \<and>
     opt_all valid_provenance (provenance opts) \<and>
     (\<forall>u \<in> set_option (map_option canon (prov originUserId (provenance opts))). u \<in> set (users d)) \<and>
     (\<forall>u \<in> set_option (map_option canon (prov pluginInstallationId (provenance opts))).
        u \<in> iid ` set (plugin_installations d)) \<and>
     (\<forall>u \<in> set_option (map_option canon (prov executionId (provenance opts))).
        u \<in> eid ` set (debug_executions d)) \<and>
     fresh env 0 \<notin> fst ` set (command_batches d) \<and>
     fresh env 0 \<notin> batch_id ` set (device_commands d) \<and>
     (\<forall>j \<in> {1..length ids}. fresh env j \<notin> cid ` set (device_commands d)) \<and>
     inj_on (fresh env) {1..length ids}"

lemma map_new_rows:
  assumes "\<And>j t. f (command_row env command opts j t) = g t"
  shows "map f (new_rows env ids command opts d) = map g (map bumped (filter (targeted ids) (devices d)))"
proof -
  have "map f (map (\<lambda>(j, t). command_row env command opts j t) (zip ns ts)) = map g ts"
    if "length ns = length ts" for ns ts
    using that assms by (induction ns ts rule: list_induct2) auto
  then show ?thesis by (simp add: new_rows_def Let_def)
qed

lemma map_cid_new_rows:
  "map cid (new_rows env ids command opts d) =
     map (\<lambda>j. fresh env (Suc j)) [0..<length (filter (targeted ids) (devices d))]"
proof -
  have "map cid (map (\<lambda>(j, t). command_row env command opts j t) (zip ns ts)) = map (\<lambda>j. fresh env (Suc j)) ns"
    if "length ns = length ts" for ns ts
    using that by (induction ns ts rule: list_induct2) auto
  then show ?thesis by (simp add: new_rows_def Let_def)
qed

lemma new_rows_unique:
  assumes inv: "queue_inv d" and ready: "enqueue_ready env ids opts d"
    and n: "length (filter (targeted ids) (devices d)) = length ids"
  shows "commands_unique (device_commands d @ new_rows env ids command opts d)"
proof -
  let ?new = "new_rows env ids command opts d" and ?hit = "filter (targeted ids) (devices d)"
  have old: "commands_unique (device_commands d)" using inv by (simp add: queue_inv_def)
  have dev: "distinct (map device_id ?new)"
  proof -
    have "map device_id ?new = map did ?hit"
      using map_new_rows [of device_id env command opts did ids d] by (simp add: o_def)
    then show ?thesis using inv by (simp add: queue_inv_def distinct_map_filter)
  qed
  have cids: "map cid ?new = map (\<lambda>j. fresh env (Suc j)) [0..<length ids]"
    using map_cid_new_rows [of env ids command opts d] n by simp
  have inj: "inj_on (fresh env) {1..length ids}" using ready by (simp add: enqueue_ready_def)
  have "inj_on (\<lambda>j. fresh env (Suc j)) {0..<length ids}"
  proof (rule inj_onI)
    fix x y assume "x \<in> {0..<length ids}" "y \<in> {0..<length ids}" "fresh env (Suc x) = fresh env (Suc y)"
    then show "x = y" using inj_onD [OF inj, of "Suc x" "Suc y"] by simp
  qed
  then have "distinct (map cid ?new)" unfolding cids by (simp add: distinct_map)
  moreover have "cid ` set (device_commands d) \<inter> cid ` set ?new = {}"
  proof -
    have "cid ` set ?new = (\<lambda>j. fresh env (Suc j)) ` {0..<length ids}"
      using arg_cong [OF cids, of set] by simp
    moreover have "\<forall>j \<in> {0..<length ids}. \<forall>c \<in> set (device_commands d). fresh env (Suc j) \<noteq> cid c"
    proof (intro ballI)
      fix j c assume "j \<in> {0..<length ids}" "c \<in> set (device_commands d)"
      moreover have "\<forall>j \<in> {1..length ids}. fresh env j \<notin> cid ` set (device_commands d)"
        using ready by (simp add: enqueue_ready_def)
      ultimately show "fresh env (Suc j) \<noteq> cid c"
        by (metis One_nat_def Suc_le_eq atLeastAtMost_iff atLeastLessThan_iff image_eqI le_add1 plus_1_eq_Suc)
    qed
    ultimately show ?thesis by (simp only:) fastforce
  qed
  moreover have "distinct (map (\<lambda>c. (device_id c, sequence c)) ?new)" "distinct (map (\<lambda>c. (batch_id c, device_id c)) ?new)"
    using dev by (auto simp: distinct_map inj_on_def)
  moreover have "(device_id e, sequence e) \<noteq> (device_id c, sequence c) \<and> batch_id e \<noteq> batch_id c"
    if "e \<in> set (device_commands d)" "c \<in> set ?new" for c e
  proof -
    from new_rows_in [OF that(2)] obtain x j where x: "x \<in> set (devices d)"
      "c = command_row env command opts j (bumped x)" by blast
    from that(1) inv obtain y where y: "y \<in> set (devices d)" "did y = device_id e" "sequence e < next_command_sequence y"
      by (auto simp: queue_inv_def numbered_def)
    have "sequence e \<noteq> sequence c" if "device_id e = device_id c"
      using device_inject [OF inv y(1) x(1)] that x y by auto
    moreover have "fresh env 0 \<notin> batch_id ` set (device_commands d)"
      using ready by (simp add: enqueue_ready_def)
    then have "batch_id e \<noteq> batch_id c" using x(2) that(1) by (auto simp: image_iff)
    ultimately show ?thesis by simp
  qed
  ultimately show ?thesis
    using old unfolding commands_unique_def map_append distinct_append set_map by fastforce
qed

text \<open>
  Enqueueing a well-formed request on a consistent database always succeeds: with existing,
  distinct targets whose identifiers suit MQTT, valid provenance and unused identifiers, no
  constraint of the database rejects the new rows.
\<close>

theorem enqueue_succeeds:
  assumes inv: "queue_inv d" and ready: "enqueue_ready env ids opts d"
  shows "\<exists>d'. enqueueBatch env ids command opts d = Inr ((fresh env 0, length ids), d')"
proof -
  let ?new = "new_rows env ids command opts d"
  have n: "length (filter (targeted ids) (devices d)) = length ids"
    using matching_devices [of "devices d" "map canon ids"] inv ready
    by (simp add: queue_inv_def enqueue_ready_def targeted_def [abs_def])
  have "command_check c \<and> command_fk (with_batch env ids d) c" if "c \<in> set ?new" for c
  proof -
    from new_rows_in [OF that] obtain x j where x: "x \<in> set (devices d)" "targeted ids x"
      "c = command_row env command opts j (bumped x)" by blast
    have "origin_type c \<in> {js ''human'', js ''plugin'', js ''llm_agent''}"
      using ready x(3)
      by (cases "provenance opts") (auto simp: command_row_def Let_def enqueue_ready_def opt_all_def valid_provenance_def)
    moreover have "0 < next_command_sequence x" using inv x(1) by (simp add: queue_inv_def)
    moreover have "did x \<in> did ` set (devices (with_batch env ids d))"
    proof -
      have "map did (devices (with_batch env ids d)) = map did (devices d)" by (simp add: with_batch_def)
      then show ?thesis using x(1) by (metis image_eqI set_map)
    qed
    moreover have "origin_user_id c = map_option canon (prov originUserId (provenance opts))"
      "plugin_installation_id c = map_option canon (prov pluginInstallationId (provenance opts))"
      by (simp_all add: x(3) command_row_def Let_def)
    moreover have "batch_id c \<in> fst ` set (command_batches (with_batch env ids d))"
      using x(3) by (simp add: with_batch_def)
    ultimately show ?thesis
      using x ready by (simp add: command_check_def lease_consistent_def broker_acceptance_consistent_def
          result_consistent_def INT4_MAX_def command_fk_def enqueue_ready_def with_batch_def)
  qed
  moreover have "\<exists>top. commandExecution (device_uid x) = Inr top" if "x \<in> set (devices d)" "targeted ids x" for x
    using that ready by (auto simp: enqueue_ready_def targeted_def commandExecution_def requireValidDeviceUid_def)
  moreover have "distinct ids" using ready by (auto simp: enqueue_ready_def distinct_map)
  moreover have "0 < next_command_sequence x \<and> (targeted ids x \<longrightarrow> next_command_sequence x < INT8_MAX)"
    if "x \<in> set (devices d)" for x
    using that ready inv by (auto simp: enqueue_ready_def targeted_def queue_inv_def)
  ultimately have "enqueue_ok env ids command opts d"
    using n ready new_rows_unique [OF inv ready n, of command]
    by (auto simp: enqueue_ok_def enqueue_ready_def list_all_iff)
  then show ?thesis by (auto simp: enqueueBatch_def enqueue_Inr)
qed

lemma ex_ready: "enqueue_ready (ex_env CHR ''a'' CHR ''b'') [ex_uuid CHR ''1''] ex_opts ex_db"
proof -
  have "canon (ex_uuid CHR ''1'') = ex_uuid CHR ''1''" "isValidDeviceUid (js ''dev-1'')" by code_simp+
  then show ?thesis
    by (simp add: enqueue_ready_def ex_db_def ex_env_def ex_opts_def MAX_BATCH_TARGETS_def INT8_MAX_def
        opt_all_def prov_def)
qed

theorem enqueue_succeeds_witness:
  "\<exists>d'. enqueueBatch (ex_env CHR ''a'' CHR ''b'') [ex_uuid CHR ''1''] ex_command ex_opts ex_db =
     Inr ((ex_uuid CHR ''a'', 1), d')"
  using enqueue_succeeds [OF qsys.init_inv [OF ex_init] ex_ready, of ex_command] by (simp add: ex_env_def)

end
