(* ===== verification/QueueDelivery.thy ===== *)
theory QueueDelivery
  imports QueueProperties
begin

text \<open>
  Delivery of queued commands: which command a lease grants, what recording a result does and
  that it is idempotent, and that the batched expiry loop does what one statement over the whole
  table would do, together with the case in which the schema rejects it.
\<close>

section \<open>Leasing\<close>

lemma lease_row_check:
  assumes "command_check c" and "pending c" and "attempt_count c < INT4_MAX"
  shows "command_check (lease_row t ms c)"
  using assms by (auto simp: command_check_def lease_row_def lease_consistent_def
      broker_acceptance_consistent_def result_consistent_def pending_def)

lemma hd_sort_key_le:
  assumes "x \<in> set xs"
  shows "hd (sort_key k xs) \<in> set xs \<and> k (hd (sort_key k xs)) \<le> k x"
proof -
  have ne: "sort_key k xs \<noteq> []" using assms by (metis list.set(1) empty_iff set_sort)
  then obtain y ys where ys: "sort_key k xs = y # ys" by (cases "sort_key k xs") auto
  have "sorted (map k (y # ys))" using sorted_sort_key [of k xs] by (simp only: ys)
  moreover have "x \<in> set (y # ys)" "y \<in> set xs" using assms set_sort [of k xs] by (auto simp: ys)
  ultimately show ?thesis by (auto simp: ys)
qed

lemma update_by_cid:
  assumes "queue_inv d" and "c \<in> set (device_commands d)" and "command_check (f c)"
  shows "update_commands (\<lambda>x. cid x = cid c) f d =
    Some (1, d\<lparr>device_commands := map (\<lambda>x. if x = c then f c else x) (device_commands d)\<rparr>)"
proof -
  have uniq: "cid x = cid c \<longleftrightarrow> x = c" if "x \<in> set (device_commands d)" for x
    using cid_inject [OF assms(1) that assms(2)] by auto
  have "distinct (device_commands d)"
    using assms(1) by (auto simp: queue_inv_def commands_unique_def distinct_map)
  then have "length (filter (\<lambda>x. x = c) (device_commands d)) = 1"
    using assms(2) by (simp add: distinct_length_filter Int_def conj_commute cong: conj_cong)
  moreover have "filter (\<lambda>x. cid x = cid c) (device_commands d) = filter (\<lambda>x. x = c) (device_commands d)"
    by (rule filter_cong) (simp_all add: uniq)
  ultimately have "length (filter (\<lambda>x. cid x = cid c) (device_commands d)) = 1" by simp
  then show ?thesis
    unfolding update_commands_Some using assms(3) uniq by (auto intro!: arg_cong [where f = "\<lambda>x. device_commands_update x d"])
qed

text \<open>
  C5. The queue is not stuck: when the oldest pending command of a device is queued, due, within
  its deadline, free of a debug execution and not locked by another worker, a lease is granted.
  The command granted is the one created first among all eligible unlocked commands, and its
  row, and no other, becomes leased for the requested time with one more attempt.
\<close>

theorem lease_granted:
  assumes inv: "queue_inv d" and ms: "0 < ms" "ms \<le> MAX_SAFE_INTEGER"
    and c: "c \<in> set (device_commands d)" "cstate c = Queued" "execution_id c = None" "available_at c \<le> t"
      "\<forall>x \<in> set_option (delivery_expires_at c). t < x" "\<not> locked (cid c)"
    and oldest: "\<forall>e \<in> set (device_commands d). device_id e = device_id c \<and> pending e \<longrightarrow> sequence c \<le> sequence e"
    and room: "\<forall>e \<in> set (device_commands d). attempt_count e < INT4_MAX"
  shows "\<exists>l b. leaseNext locked t ms d = Inr (Some l,
        d\<lparr>device_commands := map (\<lambda>x. if x = b then lease_row t ms b else x) (device_commands d)\<rparr>) \<and>
      b \<in> set (device_commands d) \<and> eligible d t b \<and> \<not> locked (cid b) \<and>
      lcid l = cid b \<and> lpayload l = payload b \<and> lattemptCount l = attempt_count b + 1 \<and>
      (\<forall>e \<in> set (device_commands d). eligible d t e \<and> \<not> locked (cid e) \<longrightarrow>
        (created_at b, cid b) \<le> (created_at e, cid e))"
proof -
  let ?cs = "filter (\<lambda>c. eligible d t c \<and> \<not> locked (cid c)) (device_commands d)"
  have "device_id c \<in> did ` set (devices d)"
    using inv c(1) by (force simp: queue_inv_def numbered_def)
  moreover have "\<not> list_ex (blocked_by d t c) (device_commands d)"
    using oldest by (force simp: list_ex_iff blocked_by_def)
  ultimately have "eligible d t c"
    using c by (auto simp: eligible_def execution_permits_def split: option.splits)
  with c have cs: "c \<in> set ?cs" by simp
  define b where "b = hd (lease_candidates locked t d)"
  have b: "b \<in> set ?cs" and least: "\<And>e. e \<in> set ?cs \<Longrightarrow> (created_at b, cid b) \<le> (created_at e, cid e)"
    using hd_sort_key_le [of _ ?cs "\<lambda>c. (created_at c, cid c)"] cs
    unfolding b_def lease_candidates_def by blast+
  obtain rest where cand: "lease_candidates locked t d = b # rest"
    using cs unfolding b_def lease_candidates_def
    by (metis (no_types, lifting) empty_iff list.collapse list.set(1) set_sort)
  have "update_commands (\<lambda>x. cid x = cid b) (lease_row t ms) d =
      Some (1, d\<lparr>device_commands := map (\<lambda>x. if x = b then lease_row t ms b else x) (device_commands d)\<rparr>)"
    using b inv room by (intro update_by_cid lease_row_check) (auto simp: queue_inv_def dest: eligible_pending)
  then have "\<exists>l. leaseNext locked t ms d = Inr (Some l,
        d\<lparr>device_commands := map (\<lambda>x. if x = b then lease_row t ms b else x) (device_commands d)\<rparr>) \<and>
      lcid l = cid b \<and> lpayload l = payload b \<and> lattemptCount l = attempt_count b + 1"
    using ms by (simp add: leaseNext_def cand sql_def)
  then show ?thesis
    using b least by auto
qed

theorem lease_granted_witness:
  "\<exists>l d'. leaseNext (\<lambda>_. False) 300 5000 (after ex_tx1) = Inr (Some l, d') \<and> lcid l = ex_uuid CHR ''b''"
proof -
  let ?d = "after ex_tx1"
  have "queue_step ex_db ?d"
    using after_run [of ex_tx1] ex_run_ok unfolding ex_tx1_def by (auto intro: step_enqueue)
  then have inv: "queue_inv ?d" using qsys.step_inv [OF qsys.init_inv [OF ex_init]] by blast
  have "map (\<lambda>c. (cid c, cstate c, execution_id c, available_at c, delivery_expires_at c, attempt_count c))
      (device_commands ?d) = [(ex_uuid CHR ''b'', Queued, None, 100, None, 0)]"
    by code_simp
  then obtain c where c: "device_commands ?d = [c]" "cid c = ex_uuid CHR ''b''" "cstate c = Queued" "execution_id c = None"
    "available_at c = 100" "delivery_expires_at c = None" "attempt_count c = 0"
    by (auto simp: map_eq_Cons_conv)
  then show ?thesis
    using lease_granted [OF inv, of 5000 c 300 "\<lambda>_. False"] by (auto simp: MAX_SAFE_INTEGER_def INT4_MAX_def)
qed

section \<open>Results\<close>

lemma completed_row_check:
  "command_check c \<Longrightarrow> command_check (completed_row t code packet c)"
  by (auto simp: command_check_def completed_row_def lease_consistent_def
      broker_acceptance_consistent_def result_consistent_def)

text \<open>
  A device that echoes the identifier and sequence of any of its pending commands gets its
  result recorded, whatever the broker has acknowledged so far: that row completes with the
  code and packet sent, every other row stays, and the command stream of the batch is notified.
\<close>

theorem result_recorded:
  assumes inv: "queue_inv d" and c: "c \<in> set (device_commands d)" "pending c" "canonical_uuid (cid c)"
    and echo: "rid r = uuidToBytes (cid c)" "rseq r = sequence c"
    and dev: "find_device (device_id c) d = Some x" "device_uid x = uid"
  shows "recordDeviceResult dec t uid r packet d = Inr (Recorded,
    notify COMMAND_RESULT_CHANNEL (batch_id c)
      (d\<lparr>device_commands := map (\<lambda>y. if y = c then completed_row t (rcode r) packet c else y) (device_commands d)\<rparr>))"
proof -
  have id: "uuidFromBytes (rid r) = cid c" using echo c(3) by (simp add: uuid_roundtrip)
  have "distinct (map cid (device_commands d))" using inv by (simp add: queue_inv_def commands_unique_def)
  then have "find_command (cid c) d = Some c" using c(1) by (simp add: find_command_def find_unique_iff)
  moreover have "update_commands (\<lambda>y. cid y = cid c) (completed_row t (rcode r) packet) d =
      Some (1, d\<lparr>device_commands := map (\<lambda>y. if y = c then completed_row t (rcode r) packet c else y) (device_commands d)\<rparr>)"
    using inv c(1) by (intro update_by_cid completed_row_check) (auto simp: queue_inv_def)
  moreover have "cstate c \<noteq> DeviceCompleted" using c(2) by (auto simp: pending_def)
  ultimately show ?thesis
    using c(2) dev echo(2) by (simp add: recordDeviceResult_def Let_def id sql_def)
qed

lemma ex_first_queued:
  obtains c x where "queue_inv (after ex_tx2)" "c \<in> set (device_commands (after ex_tx2))" "pending c"
    "cid c = ex_uuid CHR ''b''" "sequence c = 1"
    "find_device (device_id c) (after ex_tx2) = Some x" "device_uid x = js ''dev-1''"
proof -
  let ?d = "after ex_tx2"
  have "queue_step ex_db (after ex_tx1)" "queue_step (after ex_tx1) ?d"
    using after_run [of ex_tx1] after_run [of ex_tx2] ex_run_ok unfolding ex_tx1_def ex_tx2_def
    by (auto intro: step_enqueue)
  then have "queue_inv ?d" using qsys.step_inv qsys.init_inv [OF ex_init] by blast
  moreover have "map (\<lambda>c. (cid c, cstate c, sequence c, map_option device_uid (find_device (device_id c) ?d)))
      (device_commands ?d) = [(ex_uuid CHR ''b'', Queued, 1, Some (js ''dev-1'')), (ex_uuid CHR ''d'', Queued, 2, Some (js ''dev-1''))]"
    by code_simp
  ultimately show thesis
    by (auto simp: map_eq_Cons_conv pending_def intro: that)
qed

theorem result_recorded_witness:
  "\<exists>d'. recordDeviceResult ex_decode 200 (js ''dev-1'') ex_result [0x90] (after ex_tx2) = Inr (Recorded, d')"
proof (rule ex_first_queued)
  fix c x
  assume *: "queue_inv (after ex_tx2)" "c \<in> set (device_commands (after ex_tx2))" "pending c"
    "cid c = ex_uuid CHR ''b''" "sequence c = 1"
    "find_device (device_id c) (after ex_tx2) = Some x" "device_uid x = js ''dev-1''"
  have "canonical_uuid (ex_uuid CHR ''b'')" by code_simp
  with * show ?thesis
    using result_recorded [of "after ex_tx2" c ex_result x "js ''dev-1''" ex_decode 200 "[0x90]"]
    by (simp add: ex_result_def)
qed

lemma find_command_map:
  assumes "distinct (map cid cs)" and "c \<in> set cs" and "cid (f c) = cid c"
  shows "find (\<lambda>y. cid y = cid c) (map (\<lambda>y. if y = c then f c else y) cs) = Some (f c)"
  using assms by (induction cs) auto

text \<open>
  Recording is idempotent and never overwrites. Once a result is recorded, delivering the
  same result again (any number of times, in any encoding) reports it as already recorded and
  changes nothing, and a different result for the command is refused as conflicting.
\<close>

theorem result_idempotent:
  assumes inv: "queue_inv d"
    and rec: "recordDeviceResult dec t uid r packet d = Inr (Recorded, d')"
    and packet: "dec packet = Inr r" and args: "legal_args (rpayload r)"
  shows "recordDeviceResult dec t' uid r packet' d' = Inr (AlreadyRecorded, d') \<and>
    (\<forall>r'. rid r' = rid r \<and> rseq r' = rseq r \<and> \<not> sameSemanticResult r r' \<longrightarrow>
      recordDeviceResult dec t' uid r' packet' d' = Inl (ConflictingResult (uuidFromBytes (rid r))))"
  using rec
proof (cases rule: recordDeviceResult_Inr)
  case again
  then show ?thesis by simp
next
  case (first c n d1)
  have c: "c \<in> set (device_commands d)" "cid c = uuidFromBytes (rid r)"
    using find_command_Some [OF first(1)] by auto
  let ?f = "completed_row t (rcode r) packet"
  have "d1 = d\<lparr>device_commands := map (\<lambda>y. if y = c then ?f c else y) (device_commands d)\<rparr>"
    using first(6) update_by_cid [OF inv c(1), of ?f] completed_row_check inv c
    by (simp add: queue_inv_def)
  then have d': "device_commands d' = map (\<lambda>y. if y = c then ?f c else y) (device_commands d)" "devices d' = devices d"
    by (simp_all add: first(7) notify_def)
  have "distinct (map cid (device_commands d))" using inv by (simp add: queue_inv_def commands_unique_def)
  then have "find_command (uuidFromBytes (rid r)) d' = Some (?f c)"
    using find_command_map [of "device_commands d" c ?f] c
    by (simp add: find_command_def d'(1) completed_row_def)
  moreover have "find_device (device_id (?f c)) d' = find_device (device_id c) d"
    by (simp add: find_device_def d'(2) completed_row_def)
  moreover have "cstate (?f c) = DeviceCompleted" "result_packet (?f c) = Some packet" "sequence (?f c) = rseq r"
    using first(4) by (simp_all add: completed_row_def)
  ultimately show ?thesis
    using first(5) packet sameSemanticResult_refl [OF args]
    by (auto simp: recordDeviceResult_def Let_def)
qed

theorem result_idempotent_witness:
  "recordDeviceResult ex_decode 400 (js ''dev-1'') ex_result [0x91] (after ex_tx3) = Inr (AlreadyRecorded, after ex_tx3)"
proof (rule ex_first_queued)
  assume inv: "queue_inv (after ex_tx2)"
  have "case ex_tx3 of Inl _ \<Rightarrow> False | Inr (x, _) \<Rightarrow> x = Recorded" by code_simp
  then obtain d' where run: "ex_tx3 = Inr (Recorded, d')" by (auto split: sum.splits)
  have "after ex_tx3 = d'" unfolding run after_def by simp
  with run have "recordDeviceResult ex_decode 200 (js ''dev-1'') ex_result [0x90] (after ex_tx2) = Inr (Recorded, after ex_tx3)"
    by (simp add: ex_tx3_def)
  then show ?thesis
    using result_idempotent [OF inv, of ex_decode 200 "js ''dev-1''" ex_result "[0x90]" "after ex_tx3" 400 "[0x91]"]
    by (simp add: ex_decode_def ex_result_def legal_args_def)
qed

section \<open>Expiry\<close>

definition failed :: "device_command \<Rightarrow> device_command" where
  "failed c = c\<lparr>cstate := DeliveryFailed, lease_expires_at := None\<rparr>"

lemma failed_check:
  "command_check c \<Longrightarrow> pending c \<Longrightarrow> command_check (failed c) \<longleftrightarrow> cstate c \<noteq> BrokerAccepted"
  by (auto simp: command_check_def failed_def lease_consistent_def broker_acceptance_consistent_def
      result_consistent_def pending_def)

lemma expirable_cong: "debug_executions d' = debug_executions d \<Longrightarrow> expirable d' t c \<longleftrightarrow> expirable d t c"
  by (auto simp: expirable_def execution_live_def split: option.splits)

lemma not_expirable_failed: "\<not> expirable d t (failed c)"
  by (simp add: expirable_def pending_def failed_def)

definition fail_rows :: "device_command set \<Rightarrow> db \<Rightarrow> db" where
  "fail_rows S d = d\<lparr>device_commands := map (\<lambda>c. if c \<in> S then failed c else c) (device_commands d)\<rparr>"

lemma expireBatch_eq:
  fixes d :: db and t :: time
  assumes inv: "queue_inv d"
  defines "es \<equiv> filter (expirable d t) (device_commands d)"
  shows "expireBatch t d =
    (if \<exists>c \<in> set (take EXPIRY_BATCH_SIZE es). cstate c = BrokerAccepted then Inl Database
     else Inr (length (take EXPIRY_BATCH_SIZE es), fail_rows (set (take EXPIRY_BATCH_SIZE es)) d))"
proof -
  let ?S = "set (take EXPIRY_BATCH_SIZE es)"
  have sub: "c \<in> set (device_commands d) \<and> expirable d t c" if "c \<in> ?S" for c
    using in_set_takeD [OF that] by (simp add: es_def)
  have hit: "cid c \<in> cid ` ?S \<longleftrightarrow> c \<in> ?S" if "c \<in> set (device_commands d)" for c
    using cid_inject [OF inv that] sub by auto
  have check: "command_check (failed c) \<longleftrightarrow> cstate c \<noteq> BrokerAccepted" if "c \<in> ?S" for c
    using sub [OF that] inv by (intro failed_check) (auto simp: queue_inv_def expirable_def)
  have dist: "distinct (device_commands d)"
    using inv by (auto simp: queue_inv_def commands_unique_def distinct_map)
  have "length (filter (\<lambda>c. cid c \<in> cid ` ?S) (device_commands d)) = length (take EXPIRY_BATCH_SIZE es)"
  proof -
    have "filter (\<lambda>c. cid c \<in> cid ` ?S) (device_commands d) = filter (\<lambda>c. c \<in> ?S) (device_commands d)"
      by (rule filter_cong) (simp_all add: hit)
    also have "length \<dots> = card (?S \<inter> set (device_commands d))"
      using dist by (simp add: distinct_length_filter)
    also have "?S \<inter> set (device_commands d) = ?S" using sub by blast
    also have "card ?S = length (take EXPIRY_BATCH_SIZE es)"
      using dist by (intro distinct_card) (simp add: es_def)
    finally show ?thesis .
  qed
  moreover have "map (\<lambda>c. if cid c \<in> cid ` ?S then failed c else c) (device_commands d) =
      map (\<lambda>c. if c \<in> ?S then failed c else c) (device_commands d)"
    by (rule map_cong) (simp_all add: hit)
  moreover have "list_all (\<lambda>c. cid c \<in> cid ` ?S \<longrightarrow> command_check (failed c)) (device_commands d) \<longleftrightarrow>
      \<not> (\<exists>c \<in> ?S. cstate c = BrokerAccepted)"
    using hit check sub by (fastforce simp: list_all_iff)
  ultimately show ?thesis
    by (simp add: expireBatch_def Let_def es_def [symmetric] failed_def [abs_def, symmetric]
        update_commands_def sql_def fail_rows_def)
qed

lemma fail_rows_simps [simp]: "debug_executions (fail_rows S d) = debug_executions d"
  by (simp add: fail_rows_def)

lemma fail_rows_fail_rows:
  assumes "S \<subseteq> {c. expirable d t c}"
  shows "fail_rows {c. expirable d t c} (fail_rows S d) = fail_rows {c. expirable d t c} d"
proof -
  have "(\<lambda>c. if expirable d t c then failed c else c) \<circ> (\<lambda>c. if c \<in> S then failed c else c) =
      (\<lambda>c. if expirable d t c then failed c else c)"
    using assms by (intro ext) (auto simp: not_expirable_failed)
  then show ?thesis by (simp add: fail_rows_def)
qed

lemma length_expirable:
  assumes "S \<subseteq> {c. expirable d t c}"
  shows "length (filter (\<lambda>c. c \<in> S) (device_commands d)) +
      length (filter (expirable d t) (device_commands (fail_rows S d))) =
    length (filter (expirable d t) (device_commands d))"
proof -
  have "length (filter (\<lambda>c. c \<in> S) cs) + length (filter (expirable d t) (map (\<lambda>c. if c \<in> S then failed c else c) cs))
      = length (filter (expirable d t) cs)" for cs
    using assms by (induction cs) (auto simp: not_expirable_failed)
  then show ?thesis by (simp add: fail_rows_def)
qed

lemma full_batch:
  assumes inv: "queue_inv d" and batch: "expireBatch t d = Inr (n, d')" and full: "\<not> n < EXPIRY_BATCH_SIZE"
  obtains S where "S \<subseteq> {c. expirable d t c}" "\<forall>c \<in> S. cstate c \<noteq> BrokerAccepted" "d' = fail_rows S d"
    "n + length (filter (expirable d t) (device_commands d')) = length (filter (expirable d t) (device_commands d))"
    "queue_inv d'"
proof -
  let ?es = "filter (expirable d t) (device_commands d)"
  let ?S = "set (take EXPIRY_BATCH_SIZE ?es)"
  have S: "\<forall>c \<in> ?S. cstate c \<noteq> BrokerAccepted" "n = length (take EXPIRY_BATCH_SIZE ?es)" "d' = fail_rows ?S d"
    using batch unfolding expireBatch_eq [OF inv] by (auto split: if_splits)
  have sub: "?S \<subseteq> {c. expirable d t c}" by (auto dest: in_set_takeD)
  have dist: "distinct (device_commands d)"
    using inv by (auto simp: queue_inv_def commands_unique_def distinct_map)
  have "length (filter (\<lambda>c. c \<in> ?S) (device_commands d)) = card (?S \<inter> set (device_commands d))"
    using dist by (simp add: distinct_length_filter)
  also have "?S \<inter> set (device_commands d) = ?S" by (auto dest: in_set_takeD)
  also have "card ?S = n" unfolding S(2) using dist by (intro distinct_card) simp
  finally have "n + length (filter (expirable d t) (device_commands d')) = length ?es"
    using length_expirable [OF sub] S(3) by simp
  moreover have "queue_inv d'" using expireBatch_sound [OF batch] inv by (simp add: sound_def)
  ultimately show thesis using that [OF sub S(1,3)] by blast
qed

lemma short_batch:
  assumes inv: "queue_inv d" and batch: "expireBatch t d = Inr (n, d')" and short: "n < EXPIRY_BATCH_SIZE"
  shows "n = length (filter (expirable d t) (device_commands d)) \<and> d' = fail_rows {c. expirable d t c} d \<and>
    (\<forall>c \<in> set (device_commands d). expirable d t c \<longrightarrow> cstate c \<noteq> BrokerAccepted)"
proof -
  let ?es = "filter (expirable d t) (device_commands d)"
  have n: "n = length (take EXPIRY_BATCH_SIZE ?es)"
    and ok: "\<forall>c \<in> set (take EXPIRY_BATCH_SIZE ?es). cstate c \<noteq> BrokerAccepted"
    and d': "d' = fail_rows (set (take EXPIRY_BATCH_SIZE ?es)) d"
    using batch unfolding expireBatch_eq [OF inv] by (auto split: if_splits)
  have "take EXPIRY_BATCH_SIZE ?es = ?es" using n short by simp
  then show ?thesis using n ok d' by (auto simp: fail_rows_def)
qed

lemma expire_loop:
  assumes "queue_inv d" and "\<forall>c \<in> set (device_commands d). expirable d t c \<longrightarrow> cstate c \<noteq> BrokerAccepted"
  shows "expireDelayedCommands (\<lambda>_. t) d =
    (Inr (length (filter (expirable d t) (device_commands d))), fail_rows {c. expirable d t c} d)"
  using assms
proof (induction "\<lambda>_ :: nat. t" d rule: expireDelayedCommands.induct)
  case (1 d)
  have "\<exists>n d'. expireBatch t d = Inr (n, d')"
    using "1.prems"(2) unfolding expireBatch_eq [OF "1.prems"(1)] by (auto dest!: in_set_takeD)
  then obtain n d' where batch: "expireBatch t d = Inr (n, d')" by blast
  show ?case
  proof (cases "n < EXPIRY_BATCH_SIZE")
    case True
    with short_batch [OF "1.prems"(1) batch True] show ?thesis
      by (subst expireDelayedCommands.simps) (simp add: batch)
  next
    case False
    from full_batch [OF "1.prems"(1) batch False] obtain S where S: "S \<subseteq> {c. expirable d t c}" "d' = fail_rows S d"
      "n + length (filter (expirable d t) (device_commands d')) = length (filter (expirable d t) (device_commands d))"
      "queue_inv d'" by blast
    have cong: "expirable d' t = expirable d t" unfolding S(2) by (intro ext expirable_cong) simp
    have "\<forall>c \<in> set (device_commands d'). expirable d' t c \<longrightarrow> cstate c \<noteq> BrokerAccepted"
      using "1.prems"(2) unfolding cong by (auto simp: S(2) fail_rows_def not_expirable_failed)
    with "1.hyps" [OF batch refl False S(4)] have
      "expireDelayedCommands (\<lambda>_. t) d' = (Inr (length (filter (expirable d' t) (device_commands d'))), fail_rows {c. expirable d' t c} d')"
      by simp
    moreover have "fail_rows {c. expirable d' t c} d' = fail_rows {c. expirable d t c} d"
      unfolding cong unfolding S(2) by (rule fail_rows_fail_rows [OF S(1)])
    moreover have "expireDelayedCommands (\<lambda>_. t) d =
        map_prod (map_sum id ((+) n)) id (expireDelayedCommands (\<lambda>_. t) d')"
      using False by (subst expireDelayedCommands.simps) (simp only: batch sum.case prod.case if_False)
    ultimately show ?thesis
      using S(3) unfolding cong by simp
  qed
qed

lemma expire_loop_rejected:
  assumes "queue_inv d" and "c \<in> set (device_commands d)" and "expirable d t c" and "cstate c = BrokerAccepted"
  shows "fst (expireDelayedCommands (\<lambda>_. t) d) = Inl Database"
  using assms
proof (induction "\<lambda>_ :: nat. t" d rule: expireDelayedCommands.induct)
  case (1 d)
  show ?case
  proof (cases "expireBatch t d")
    case (Inl e)
    moreover from Inl have "e = Database"
      unfolding expireBatch_eq [OF "1.prems"(1)] by (simp split: if_splits)
    ultimately show ?thesis by (subst expireDelayedCommands.simps) simp
  next
    case (Inr r)
    then obtain n d' where batch: "expireBatch t d = Inr (n, d')" by (cases r) auto
    have full: "\<not> n < EXPIRY_BATCH_SIZE"
      using short_batch [OF "1.prems"(1) batch] "1.prems"(2,3,4) by blast
    from full_batch [OF "1.prems"(1) batch full] obtain S where S: "\<forall>c \<in> S. cstate c \<noteq> BrokerAccepted"
      "d' = fail_rows S d" "queue_inv d'" by blast
    have "c \<in> set (device_commands d')"
      using S(1) "1.prems"(2,4) by (auto simp: S(2) fail_rows_def image_iff intro!: bexI [of _ c])
    moreover have "expirable d' t c"
      using expirable_cong [of d' d t c] "1.prems"(3) by (simp add: S(2))
    ultimately have "fst (expireDelayedCommands (\<lambda>_. t) d') = Inl Database"
      using "1.hyps" [OF batch refl full S(3)] "1.prems"(4) by blast
    then show ?thesis
      using full by (subst expireDelayedCommands.simps) (simp add: batch)
  qed
qed

text \<open>
  The batched expiry loop terminates and does what one statement over the whole table would
  do: when none of the commands due to expire has been accepted by the broker, exactly they
  become failed, whatever their number, and their number is returned.
\<close>

theorem expiry_loop_one_shot:
  assumes "queue_inv d" and "\<forall>c \<in> set (device_commands d). expirable d t c \<longrightarrow> cstate c \<noteq> BrokerAccepted"
  shows "expireDelayedCommands (\<lambda>_. t) d =
    (Inr (length (filter (expirable d t) (device_commands d))),
     d\<lparr>device_commands := map (\<lambda>c. if expirable d t c
        then c\<lparr>cstate := DeliveryFailed, lease_expires_at := None\<rparr> else c) (device_commands d)\<rparr>)"
  using expire_loop [OF assms] by (simp add: fail_rows_def failed_def)

text \<open>A run with a deadline: one command, due at 1100 ms.\<close>

definition ex_due :: "(uuid \<times> nat) tx" where
  "ex_due = enqueueBatch (ex_env CHR ''a'' CHR ''b'') [ex_uuid CHR ''1''] ex_command
     \<lparr>deliveryTimeoutSeconds = Some 1, provenance = None\<rparr> ex_db"
definition ex_due_leased :: "LeasedCommand option tx" where
  "ex_due_leased = leaseNext (\<lambda>_. False) 300 5000 (after ex_due)"
definition ex_due_accepted :: "unit tx" where
  "ex_due_accepted = markBrokerAccepted 400 (ex_uuid CHR ''b'') (after ex_due_leased)"

lemma ex_due_ok: "\<not> isl ex_due \<and> \<not> isl ex_due_leased \<and> \<not> isl ex_due_accepted"
  by code_simp

lemma ex_due_inv: "queue_inv (after ex_due) \<and> queue_inv (after ex_due_accepted)"
proof -
  have "queue_step ex_db (after ex_due)"
    using after_run [of ex_due] ex_due_ok unfolding ex_due_def by (auto intro: step_enqueue)
  then have "queue_inv (after ex_due)" using qsys.step_inv qsys.init_inv [OF ex_init] by blast
  moreover have "queue_step (after ex_due) (after ex_due_leased)"
    using after_run [of ex_due_leased] ex_due_ok unfolding ex_due_leased_def by (auto intro: step_lease)
  moreover have "queue_step (after ex_due_leased) (after ex_due_accepted)"
    using after_run [of ex_due_accepted] ex_due_ok unfolding ex_due_accepted_def by (auto intro: step_accept)
  ultimately show ?thesis using qsys.step_inv by blast
qed

theorem expiry_loop_one_shot_witness:
  "fst (expireDelayedCommands (\<lambda>_. 2000) (after ex_due)) = Inr 1"
proof -
  have "map cstate (device_commands (after ex_due)) = [Queued]"
    "map (expirable (after ex_due) 2000) (device_commands (after ex_due)) = [True]"
    by code_simp+
  then show ?thesis
    using expiry_loop_one_shot [of "after ex_due" 2000] ex_due_inv by (auto simp: map_eq_Cons_conv)
qed

text \<open>
  The deadline of a command the broker has accepted is never enforced: the expiry statement
  leaves its acceptance time in place, which the schema forbids for a failed command, so the
  statement is rejected, and with it the expiry pass that meets such a command, however many
  other commands are due.
\<close>

theorem expiry_rejects_accepted:
  assumes "queue_inv d" and "c \<in> set (device_commands d)" and "cstate c = BrokerAccepted"
    and "delivery_expires_at c = Some x" and "x < t"
  shows "fst (expireDelayedCommands (\<lambda>_. t) d) = Inl Database"
  using assms by (intro expire_loop_rejected) (auto simp: expirable_def pending_def)

theorem expiry_rejects_accepted_witness:
  "fst (expireDelayedCommands (\<lambda>_. 2000) (after ex_due_accepted)) = Inl Database"
proof -
  have "map (\<lambda>c. (cstate c, delivery_expires_at c)) (device_commands (after ex_due_accepted)) =
      [(BrokerAccepted, Some 1100)]"
    by code_simp
  then show ?thesis
    using expiry_rejects_accepted [of "after ex_due_accepted" _ 1100 2000] ex_due_inv
    by (auto simp: map_eq_Cons_conv)
qed

end
