(* ===== verification/DebugProperties.thy ===== *)
theory DebugProperties
  imports QueueProperties
begin

text \<open>
  Debug executions: the invariant of their table under all interleavings, that a command is
  queued only under a live, authorised execution, and that idempotency keys work.
\<close>

section \<open>The table of executions\<close>













lemma require_Inr [simp]: "require x e = Inr v \<longleftrightarrow> x = Some v"
  by (auto simp: require_def split: option.splits)

lemma find_execution_Some: "find_execution p d = Some e \<Longrightarrow> e \<in> set (debug_executions d) \<and> p e"
  unfolding find_execution_def by (rule find_Some_in)











section \<open>Properties\<close>


lemma authorize_enqueue_Inr:
  assumes "authorize_enqueue t i d = Inr (inst, dev, e)"
  shows "e \<in> set (debug_executions d) \<and> eid e = canon (ec_executionId i) \<and> token_hash e = ec_tokenHash i \<and>
    estate e = Active \<and> lease_valid t e \<and> t < expires_at e \<and> eplugin_id e = ec_pluginId i \<and>
    eplugin_version e = ec_pluginVersion i \<and> emanifest_hash e = ec_manifestHash i \<and>
    initiating_user_id e = ec_initiatingUserId i \<and> edevice_id e = did dev \<and> dev \<in> set (devices d) \<and>
    js ''device.enqueue_command'' \<in> set (allowed_capabilities e) \<and>
    inst \<in> set (plugin_installations d) \<and> iid inst = einstallation_id e \<and> ienabled inst \<and>
    dproject_id dev = iproject_id inst \<and> member (canon (ec_initiatingUserId i)) (iproject_id inst) d"
  using assms unfolding authorize_enqueue_def
  by (auto elim!: rbind_InrE dest!: find_execution_Some find_Some_in simp: find_installation_def find_device_def)

lemma created_command:
  assumes "enqueueBatchInTransaction env [did dev] command opts d = Inr (r, d')"
    and "find (\<lambda>c. batch_id c = fst r \<and> device_id c = did dev) (device_commands d') = Some c"
    and "canonical_uuid (did dev)"
  obtains x where "x \<in> set (devices d)" "did x = did dev" "new_rows env [did dev] command opts d = [command_row env command opts 0 (bumped x)]"
    "c = command_row env command opts 0 (bumped x)" "device_commands d' = device_commands d @ [c]"
proof -
  let ?new = "new_rows env [did dev] command opts d"
  from assms(1) have ok: "enqueue_ok env [did dev] command opts d" and r: "fst r = fresh env 0"
    and d': "device_commands d' = device_commands d @ ?new"
    by (auto simp: enqueue_Inr notify_def)
  then obtain x where x: "filter (targeted [did dev]) (devices d) = [x]"
    unfolding enqueue_ok_def by (auto simp: length_Suc_conv)
  then have new: "?new = [command_row env command opts 0 (bumped x)]"
    by (simp add: new_rows_def Let_def)
  have "x \<in> set (filter (targeted [did dev]) (devices d))" by (simp add: x)
  then have x': "x \<in> set (devices d)" "did x = did dev"
    using canon_canonical [OF assms(3)] by (simp_all add: targeted_def)
  have c: "c \<in> set (device_commands d')" "batch_id c = fresh env 0" "device_id c = did dev"
    using find_Some_in [OF assms(2)] r by simp_all
  have "distinct (map (\<lambda>c. (batch_id c, device_id c)) (device_commands d'))"
    using ok unfolding enqueue_ok_def commands_unique_def d' by blast
  then have "inj_on (\<lambda>c. (batch_id c, device_id c)) (set (device_commands d'))"
    by (simp only: distinct_map)
  from inj_onD [OF this _ c(1), of "command_row env command opts 0 (bumped x)"]
  have "c = command_row env command opts 0 (bumped x)"
    using c x' by (simp add: d' new)
  with that [OF x' new] show thesis by (simp add: d' new)
qed


lemma first_by_None: "first_by k xs = None \<longleftrightarrow> xs = []"
proof
  assume "first_by k xs = None"
  then have "sort_key k xs = []" by (auto simp: first_by_def split: list.splits)
  then show "xs = []" by (metis length_sort length_0_conv)
qed (simp add: first_by_def)

lemma enqueueDebugCommand_replay:
  assumes "enqueueDebugCommand dec env i d = Inr (c, d')" and "authorize_enqueue (now env') i d'' = Inr a"
    and "existing_command i d'' = Some b" and "dec (payload b) = Inr x" and "equalDeviceCommand x (ec_command i)"
  shows "enqueueDebugCommand dec env' i d'' = Inr (b, d'')"
proof -
  from assms(1) have "assertCapabilityInput (ec_executionId i) (ec_tokenHash i) = Inr ()"
    "UUID (ec_initiatingUserId i)" "UUID (case ec_correlationId i of None \<Rightarrow> ec_executionId i | Some c \<Rightarrow> c)"
    "opt_all (\<lambda>k. 1 \<le> length k \<and> length k \<le> 128) (ec_idempotencyKey i)"
    unfolding enqueueDebugCommand_def by (auto elim!: rbind_InrE)
  with assms(2-5) show ?thesis
    by (cases a) (simp add: enqueueDebugCommand_def)
qed

text \<open>
  Idempotency keys work: repeating a request with the same key, while the execution is still
  authorised, returns the command of the first request and changes nothing. The codec is
  assumed to decode the stored execution to what was encoded, and the arguments to be
  comparable (named by non-empty keys, no NaN).
\<close>

theorem debug_enqueue_idempotent:
  assumes dev: "\<forall>x \<in> set (devices d). canonical_uuid (did x)"
    and first: "enqueueDebugCommand dec env i d = Inr (c, d')"
    and key: "ec_idempotencyKey i = Some k"
    and codec: "\<And>x. x = \<lparr>xid = uuidToBytes (cid c), xseq = sequence c, xcmd = cmd (ec_command i), xargs = cargs (ec_command i)\<rparr>
      \<Longrightarrow> dec (encodeDeviceCommandExecution (encode env) x) = Inr x"
    and args: "list_all (\<lambda>a. equalArgument a a) (case cargs (ec_command i) of None \<Rightarrow> [] | Some as \<Rightarrow> as)"
    and later: "authorize_enqueue (now env') i d' = Inr auth"
  shows "enqueueDebugCommand dec env' i d' = Inr (c, d')"
  using first
proof (cases rule: enqueueDebugCommand_Inr)
  case (replayed inst dev e x)
  then show ?thesis using enqueueDebugCommand_replay [OF first later] by simp
next
  case (created inst dev' e r)
  let ?opts = "\<lparr>deliveryTimeoutSeconds = None, provenance = Some (debug_provenance i inst)\<rparr>"
  let ?x = "\<lparr>xid = uuidToBytes (cid c), xseq = sequence c, xcmd = cmd (ec_command i), xargs = cargs (ec_command i)\<rparr>"
  have "canonical_uuid (did dev')" using authorize_enqueue_Inr [OF created(1)] dev by blast
  from created_command [OF created(3,4) this] obtain x where
    c: "c = command_row env (ec_command i) ?opts 0 (bumped x)" and d': "device_commands d' = device_commands d @ [c]"
    by metis
  have "execution_id c = Some (canon (ec_executionId i))" "idempotency_key c = Some k"
    "payload c = encodeDeviceCommandExecution (encode env) ?x"
    using key by (simp_all add: c command_row_def Let_def prov_def debug_provenance_def)
  moreover have "existing_command i d' = Some c"
    using created(2) key calculation(1,2) by (simp add: existing_command_def d' first_by_None) (simp add: first_by_def)
  moreover have "equalDeviceCommand ?x (ec_command i)"
    using args by (auto simp: equalDeviceCommand_def list_all2_conv_all_nth list_all_length)
  ultimately show ?thesis
    using enqueueDebugCommand_replay [OF first later, of c ?x] codec [OF refl] by simp
qed

section \<open>A concrete run\<close>

definition ex_hash :: "jsstring" where "ex_hash = replicate 64 97"

definition ex_debug_db :: db where
  "ex_debug_db = ex_db\<lparr>users := [ex_uuid CHR ''5''], user_projects := [(ex_uuid CHR ''5'', ex_uuid CHR ''9'')],
     plugin_installations := [\<lparr>iid = ex_uuid CHR ''6'', iproject_id = ex_uuid CHR ''9'', iplugin_id = js ''probe'',
       iplugin_version = js ''1.0'', imanifest_hash = ex_hash, ienabled = True, iconfig = JNull\<rparr>],
     plugin_device_bindings := [\<lparr>bdevice_id = ex_uuid CHR ''1'', binstallation_id = ex_uuid CHR ''6'',
       bprofile_id = js ''default'', bprofile_version = 1\<rparr>]\<rparr>"

definition ex_create :: CreateDebugExecutionInput where
  "ex_create = \<lparr>ci_id = None, ci_installationId = ex_uuid CHR ''6'', ci_deviceId = ex_uuid CHR ''1'',
     ci_initiatingUserId = ex_uuid CHR ''5'', ci_pluginId = js ''probe'', ci_pluginVersion = js ''1.0'',
     ci_manifestHash = ex_hash, ci_allowedCapabilities = [js ''device.enqueue_command''], ci_tokenHash = ex_hash,
     ci_leaseMs = 5000, ci_ttlMs = 60000\<rparr>"

definition ex_input :: EnqueueDebugCommandInput where
  "ex_input = \<lparr>ec_executionId = ex_uuid CHR ''7'', ec_tokenHash = ex_hash, ec_pluginId = js ''probe'',
     ec_pluginVersion = js ''1.0'', ec_manifestHash = ex_hash, ec_initiatingUserId = ex_uuid CHR ''5'',
     ec_command = ex_command, ec_correlationId = None, ec_idempotencyKey = Some (js ''k1'')\<rparr>"

definition ex_execution :: DeviceCommandExecution where
  "ex_execution = \<lparr>xid = uuidToBytes (ex_uuid CHR ''b''), xseq = 1, xcmd = js ''reboot'', xargs = None\<rparr>"

definition ex_dtx1 :: "debug_execution dtx" where
  "ex_dtx1 = createDebugExecution 100 (ex_uuid CHR ''7'') ex_create ex_debug_db"
definition ex_dtx2 :: "device_command dtx" where
  "ex_dtx2 = enqueueDebugCommand (\<lambda>_. Inr ex_execution) (ex_env CHR ''a'' CHR ''b'') ex_input (after ex_dtx1)"

lemma ex_debug_ok: "\<not> isl ex_dtx1 \<and> \<not> isl ex_dtx2"
  by code_simp



lemma ex_debug_canonical: "\<forall>x \<in> set (devices (after ex_dtx1)). canonical_uuid (did x)"
proof -
  have "list_all (\<lambda>x. canonical_uuid (did x)) (devices (after ex_dtx1))" by code_simp
  then show ?thesis by (simp add: list_all_iff)
qed


theorem debug_enqueue_idempotent_witness:
  "\<exists>c. enqueueDebugCommand (\<lambda>_. Inr ex_execution) (ex_env CHR ''c'' CHR ''d'') ex_input (after ex_dtx2) = Inr (c, after ex_dtx2)"
proof -
  obtain c where c: "ex_dtx2 = Inr (c, after ex_dtx2)" using after_run ex_debug_ok by blast
  then have first: "enqueueDebugCommand (\<lambda>_. Inr ex_execution) (ex_env CHR ''a'' CHR ''b'') ex_input (after ex_dtx1) = Inr (c, after ex_dtx2)"
    by (simp add: ex_dtx2_def)
  have "case ex_dtx2 of Inl _ \<Rightarrow> False | Inr (c, d) \<Rightarrow> cid c = ex_uuid CHR ''b'' \<and> sequence c = 1"
    by code_simp
  then obtain c' d2 where "ex_dtx2 = Inr (c', d2)" "cid c' = ex_uuid CHR ''b''" "sequence c' = 1"
    by (auto split: sum.splits)
  moreover from this(1) c have "Inr (c', d2) = (Inr (c, after ex_dtx2) :: DebugError + _)" by (rule trans [OF sym])
  then have "c' = c" by simp
  ultimately have row: "cid c = ex_uuid CHR ''b''" "sequence c = 1" using \<open>c' = c\<close> by simp_all
  have "\<not> isl (authorize_enqueue 100 ex_input (after ex_dtx2))" by code_simp
  then obtain a where auth: "authorize_enqueue 100 ex_input (after ex_dtx2) = Inr a"
    by (cases "authorize_enqueue 100 ex_input (after ex_dtx2)") auto
  have "enqueueDebugCommand (\<lambda>_. Inr ex_execution) (ex_env CHR ''c'' CHR ''d'') ex_input (after ex_dtx2) = Inr (c, after ex_dtx2)"
  proof (rule debug_enqueue_idempotent [OF ex_debug_canonical first])
    show "ec_idempotencyKey ex_input = Some (js ''k1'')" by (simp add: ex_input_def)
    show "authorize_enqueue (now (ex_env CHR ''c'' CHR ''d'')) ex_input (after ex_dtx2) = Inr a"
      using auth by (simp add: ex_env_def)
  qed (simp_all add: row ex_execution_def ex_input_def ex_command_def)
  then show ?thesis ..
qed

end
