(* ===== verification/LogContainer.thy ===== *)
theory LogContainer
  imports MsgStructure
begin

text \<open>
  \<^verbatim>\<open>packages/core/src/logging/container.ts\<close>: splitting a \<^verbatim>\<open>/log\<close> upload into on9log packets.
  A payload is either one raw packet or a MessagePack array of binary elements. The reader
  returns \<open>None\<close> where the source returns \<^verbatim>\<open>null\<close>; \<open>skipMsgValue\<close> returns the cursor behind the
  value, \<open>None\<close> for \<^verbatim>\<open>false\<close>. The lemmas give the accounting of a bundle (every declared element
  is delivered or counted as dropped, delivered elements are non-empty and lie in the
  payload), the round trip of well-formed bundles, and that every value the structural
  validator accepts can be skipped.
\<close>

section \<open>The model\<close>

definition LOG_PACKET_RAW_MAGIC :: byte where "LOG_PACKET_RAW_MAGIC = 0x9a"
definition LOG_PACKET_MSG_MAGIC :: byte where "LOG_PACKET_MSG_MAGIC = 0x01"
definition MAX_BUNDLE_ELEMENTS :: nat where "MAX_BUNDLE_ELEMENTS = 4096"
definition MAX_SKIP_DEPTH :: nat where "MAX_SKIP_DEPTH = 128"

datatype log_container_error = InvalidMagic | InvalidMsgpack | TooManyElements

record log_container =
  elements :: "bytes list"
  dropped :: nat

definition c_remaining :: "bytes \<Rightarrow> nat \<Rightarrow> nat" where
  "c_remaining buf pos = length buf - pos"

definition c_u8 :: "bytes \<Rightarrow> nat \<Rightarrow> (nat \<times> nat) option" where
  "c_u8 buf pos = (if c_remaining buf pos < 1 then None else Some (unat (buf ! pos), pos + 1))"

definition c_u16 :: "bytes \<Rightarrow> nat \<Rightarrow> (nat \<times> nat) option" where
  "c_u16 buf pos =
     (if c_remaining buf pos < 2 then None
      else Some (u16_of (buf ! pos) (buf ! (pos + 1)), pos + 2))"

definition c_u32 :: "bytes \<Rightarrow> nat \<Rightarrow> (nat \<times> nat) option" where
  "c_u32 buf pos =
     (if c_remaining buf pos < 4 then None
      else Some (u32_of (buf ! pos) (buf ! (pos + 1)) (buf ! (pos + 2)) (buf ! (pos + 3)), pos + 4))"

definition c_take :: "bytes \<Rightarrow> nat \<Rightarrow> nat \<Rightarrow> (bytes \<times> nat) option" where
  "c_take buf pos len =
     (if c_remaining buf pos < len then None else Some (window buf pos len, pos + len))"

text \<open>\<^verbatim>\<open>reader.take(len) !== null\<close> and \<^verbatim>\<open>len !== null && reader.take(len + extra) !== null\<close>.\<close>

definition c_skip :: "bytes \<Rightarrow> nat \<Rightarrow> nat \<Rightarrow> nat option" where
  "c_skip buf pos len = map_option snd (c_take buf pos len)"

definition c_sized :: "bytes \<Rightarrow> (nat \<times> nat) option \<Rightarrow> nat \<Rightarrow> nat option" where
  "c_sized buf len extra =
     (case len of None \<Rightarrow> None | Some (n, pos) \<Rightarrow> c_skip buf pos (n + extra))"

text \<open>The counted loops of \<^verbatim>\<open>skipMsgValue\<close>: read a first byte, skip its value, stop on failure.\<close>

fun skipMany :: "(nat \<Rightarrow> nat \<Rightarrow> nat option) \<Rightarrow> bytes \<Rightarrow> nat \<Rightarrow> nat \<Rightarrow> nat option" where
  "skipMany skp buf 0 pos = Some pos"
| "skipMany skp buf (Suc n) pos =
     (case c_u8 buf pos of
        None \<Rightarrow> None
      | Some (b, pos1) \<Rightarrow>
          (case skp b pos1 of None \<Rightarrow> None | Some pos2 \<Rightarrow> skipMany skp buf n pos2))"

function skipMsgValue :: "bytes \<Rightarrow> nat \<Rightarrow> nat \<Rightarrow> nat \<Rightarrow> nat option" where
  "skipMsgValue buf depth first pos =
     (if depth > MAX_SKIP_DEPTH then None
      else if first \<le> 0x7f \<or> first \<ge> 0xe0 then Some pos
      else if first \<ge> 0xa0 \<and> first \<le> 0xbf then c_skip buf pos (first mod 32)
      else if first \<ge> 0x90 \<and> first \<le> 0x9f then
        skipMany (\<lambda>b p. skipMsgValue buf (depth + 1) b p) buf (first mod 16) pos
      else if first \<ge> 0x80 \<and> first \<le> 0x8f then
        skipMany (\<lambda>b p. skipMsgValue buf (depth + 1) b p) buf (first mod 16 * 2) pos
      else if first = 0xc0 \<or> first = 0xc2 \<or> first = 0xc3 then Some pos
      else if first = 0xc4 then c_sized buf (c_u8 buf pos) 0
      else if first = 0xc5 then c_sized buf (c_u16 buf pos) 0
      else if first = 0xc6 then c_sized buf (c_u32 buf pos) 0
      else if first = 0xca \<or> first = 0xcb then c_skip buf pos (if first = 0xca then 4 else 8)
      else if first = 0xcc \<or> first = 0xd0 then map_option snd (c_u8 buf pos)
      else if first = 0xcd \<or> first = 0xd1 then map_option snd (c_u16 buf pos)
      else if first = 0xce \<or> first = 0xd2 then map_option snd (c_u32 buf pos)
      else if first = 0xcf \<or> first = 0xd3 then c_skip buf pos 8
      else if first \<ge> 0xd4 \<and> first \<le> 0xd8 then c_skip buf pos ([2, 3, 5, 9, 17] ! (first - 0xd4))
      else if first = 0xc7 then c_sized buf (c_u8 buf pos) 1
      else if first = 0xc8 then c_sized buf (c_u16 buf pos) 1
      else if first = 0xc9 then c_sized buf (c_u32 buf pos) 1
      else if first = 0xd9 then c_sized buf (c_u8 buf pos) 0
      else if first = 0xda then c_sized buf (c_u16 buf pos) 0
      else if first = 0xdb then c_sized buf (c_u32 buf pos) 0
      else if first = 0xdc then
        (case c_u16 buf pos of None \<Rightarrow> None
         | Some (len, q) \<Rightarrow> skipMany (\<lambda>b p. skipMsgValue buf (depth + 1) b p) buf len q)
      else if first = 0xdd then
        (case c_u32 buf pos of None \<Rightarrow> None
         | Some (len, q) \<Rightarrow> skipMany (\<lambda>b p. skipMsgValue buf (depth + 1) b p) buf len q)
      else if first = 0xde then
        (case c_u16 buf pos of None \<Rightarrow> None
         | Some (len, q) \<Rightarrow> skipMany (\<lambda>b p. skipMsgValue buf (depth + 1) b p) buf (len * 2) q)
      else if first = 0xdf then
        (case c_u32 buf pos of None \<Rightarrow> None
         | Some (len, q) \<Rightarrow> skipMany (\<lambda>b p. skipMsgValue buf (depth + 1) b p) buf (len * 2) q)
      else None)"
  by pat_completeness auto
termination
  by (relation "measure (\<lambda>(_, depth, _, _). MAX_SKIP_DEPTH + 1 - depth)") auto

declare skipMsgValue.simps [simp del]

text \<open>The element loop of \<^verbatim>\<open>parseMsgBundle\<close>: the number of elements still to read, the result so far.\<close>

fun bundleLoop :: "bytes \<Rightarrow> nat \<Rightarrow> nat \<Rightarrow> log_container \<Rightarrow> log_container_error + (log_container \<times> nat)" where
  "bundleLoop buf 0 pos acc = Inr (acc, pos)"
| "bundleLoop buf (Suc n) pos acc =
     (case c_u8 buf pos of
        None \<Rightarrow> Inl InvalidMsgpack
      | Some (type, pos1) \<Rightarrow>
          if type = 0xc4 \<or> type = 0xc5 then
            (case (if type = 0xc4 then c_u8 buf pos1 else c_u16 buf pos1) of
               None \<Rightarrow> Inl InvalidMsgpack
             | Some (len, pos2) \<Rightarrow>
                 (case c_take buf pos2 len of
                    None \<Rightarrow> Inl InvalidMsgpack
                  | Some (data, pos3) \<Rightarrow>
                      if len = 0 then bundleLoop buf n pos3 (acc\<lparr>dropped := dropped acc + 1\<rparr>)
                      else bundleLoop buf n pos3 (acc\<lparr>elements := elements acc @ [data]\<rparr>)))
          else if type = 0xc6 then
            (case c_sized buf (c_u32 buf pos1) 0 of
               None \<Rightarrow> Inl InvalidMsgpack
             | Some pos2 \<Rightarrow> bundleLoop buf n pos2 (acc\<lparr>dropped := dropped acc + 1\<rparr>))
          else
            (case skipMsgValue buf 1 type pos1 of
               None \<Rightarrow> Inl InvalidMsgpack
             | Some pos2 \<Rightarrow> bundleLoop buf n pos2 (acc\<lparr>dropped := dropped acc + 1\<rparr>)))"

definition bundle_declared :: "bytes \<Rightarrow> log_container_error + (nat \<times> nat)" where
  "bundle_declared payload =
     (case c_u8 payload 0 of
        None \<Rightarrow> Inl InvalidMsgpack
      | Some (first, pos) \<Rightarrow>
          if first \<ge> 0x90 \<and> first \<le> 0x9f then Inr (first mod 16, pos)
          else if first = 0xdc then
            (case c_u16 payload pos of None \<Rightarrow> Inl InvalidMsgpack | Some d \<Rightarrow> Inr d)
          else if first = 0xdd then
            (case c_u32 payload pos of None \<Rightarrow> Inl InvalidMsgpack | Some d \<Rightarrow> Inr d)
          else Inl InvalidMsgpack)"

definition parseMsgBundle :: "bytes \<Rightarrow> log_container_error + log_container" where
  "parseMsgBundle payload =
     rbind (bundle_declared payload) (\<lambda>(declared, pos).
       if declared > MAX_BUNDLE_ELEMENTS then Inl TooManyElements
       else if declared = 0 then Inl InvalidMsgpack
       else rbind (bundleLoop payload declared pos \<lparr>elements = [], dropped = 0\<rparr>) (\<lambda>(c, pos).
         if pos \<noteq> length payload then Inl InvalidMsgpack else Inr c))"

definition parseLogContainer :: "bytes \<Rightarrow> log_container_error + log_container" where
  "parseLogContainer bs =
     (if length bs = 0 then Inl InvalidMagic
      else if bs ! 0 = LOG_PACKET_RAW_MAGIC then Inr \<lparr>elements = [bs], dropped = 0\<rparr>
      else if bs ! 0 \<noteq> LOG_PACKET_MSG_MAGIC then Inl InvalidMagic
      else parseMsgBundle (drop 1 bs))"

section \<open>Readers\<close>

definition of_null :: "'a option \<Rightarrow> unit + 'a" where
  "of_null x = (case x of None \<Rightarrow> Inl () | Some y \<Rightarrow> Inr y)"

lemma of_null_iff [simp]: "of_null x = Inr y \<longleftrightarrow> x = Some y" "of_null x = Inl u \<longleftrightarrow> x = None"
  by (auto simp: of_null_def split: option.splits)

interpretation c8: fixed_reader "\<lambda>buf pos. of_null (c_u8 buf pos)" 1 be_value
  by unfold_locales (auto simp: c_u8_def c_remaining_def window_1 be_value_simps)

interpretation c16: fixed_reader "\<lambda>buf pos. of_null (c_u16 buf pos)" 2 be_value
  by unfold_locales (auto simp: c_u16_def c_remaining_def window_2 be_value_simps)

interpretation c32: fixed_reader "\<lambda>buf pos. of_null (c_u32 buf pos)" 4 be_value
  by unfold_locales (auto simp: c_u32_def c_remaining_def window_4 be_value_simps)

lemmas c_read_iff = c8.rd_iff [simplified] c16.rd_iff [simplified] c32.rd_iff [simplified]
lemmas c_read_embed = c8.rd_embed [simplified] c16.rd_embed [simplified] c32.rd_embed [simplified]

lemma c_take_iff:
  "c_take buf pos n = Some (bs, q) \<longleftrightarrow>
     n \<le> length buf - pos \<and> bs = window buf pos n \<and> q = pos + n"
  by (auto simp: c_take_def c_remaining_def)

section \<open>Skipping follows the format table\<close>

definition c_be :: "nat \<Rightarrow> bytes \<Rightarrow> nat \<Rightarrow> (nat \<times> nat) option" where
  "c_be w buf pos =
     (if c_remaining buf pos < w then None else Some (be_value (window buf pos w), pos + w))"

lemma c_be_eqs:
  "c_u8 = c_be 1" "c_u16 = c_be 2" "c_u32 = c_be 4"
  by (intro ext; simp add: c_be_def c_u8_def c_u16_def c_u32_def c_remaining_def window_1 window_2
      window_4 be_value_simps)+

lemma map_snd_c_be: "map_option snd (c_be w buf pos) = c_skip buf pos w"
  by (simp add: c_be_def c_skip_def c_take_def)

lemma c_skip_iff: "c_skip buf pos n = Some q \<longleftrightarrow> n \<le> length buf - pos \<and> q = pos + n"
  by (auto simp: c_skip_def c_take_def c_remaining_def)

lemma c_be_iff:
  "c_be w buf pos = Some (n, q) \<longleftrightarrow>
     w \<le> length buf - pos \<and> n = be_value (window buf pos w) \<and> q = pos + w"
  by (auto simp: c_be_def c_remaining_def)

lemma skipMsgValue_shape:
  assumes d: "depth \<le> MAX_SKIP_DEPTH"
  shows "skipMsgValue buf depth (unat b) pos =
    (let skips = skipMany (\<lambda>b p. skipMsgValue buf (depth + 1) b p) buf in
     case mp_format b of
       None \<Rightarrow> None
     | Some (Fixed n) \<Rightarrow> c_skip buf pos n
     | Some (Sized w x) \<Rightarrow> c_sized buf (c_be w buf pos) x
     | Some (ArrayFix n) \<Rightarrow> skips n pos
     | Some (ArraySized w) \<Rightarrow> (case c_be w buf pos of None \<Rightarrow> None | Some (n, q) \<Rightarrow> skips n q)
     | Some (MapFix n) \<Rightarrow> skips (n * 2) pos
     | Some (MapSized w) \<Rightarrow> (case c_be w buf pos of None \<Rightarrow> None | Some (n, q) \<Rightarrow> skips (n * 2) q))"
proof -
  define m where "m = unat b"
  have m: "m < 256" unfolding m_def by (rule unat_byte)
  have sk: "c_skip buf pos 0 = Some pos" by (simp add: c_skip_iff)
  note unf = skipMsgValue.simps [where buf = buf and depth = depth and pos = pos] mp_format_def Let_def c_be_eqs map_snd_c_be sk
  consider "m < 0x80" | "0x80 \<le> m" "m < 0x90" | "0x90 \<le> m" "m < 0xa0" | "0xa0 \<le> m" "m < 0xc0"
    | "0xc0 \<le> m" "m < 0xe0" | "0xe0 \<le> m"
    using m by linarith
  then show ?thesis
  proof cases
    case 5
    then have "m = 0xc0 \<or> m = 0xc1 \<or> m = 0xc2 \<or> m = 0xc3 \<or> m = 0xc4 \<or> m = 0xc5 \<or>
      m = 0xc6 \<or> m = 0xc7 \<or> m = 0xc8 \<or> m = 0xc9 \<or> m = 0xca \<or> m = 0xcb \<or>
      m = 0xcc \<or> m = 0xcd \<or> m = 0xce \<or> m = 0xcf \<or> m = 0xd0 \<or> m = 0xd1 \<or>
      m = 0xd2 \<or> m = 0xd3 \<or> m = 0xd4 \<or> m = 0xd5 \<or> m = 0xd6 \<or> m = 0xd7 \<or>
      m = 0xd8 \<or> m = 0xd9 \<or> m = 0xda \<or> m = 0xdb \<or> m = 0xdc \<or> m = 0xdd \<or>
      m = 0xde \<or> m = 0xdf"
      by presburger
    then show ?thesis
      using d by (elim disjE) (simp_all add: unf mp_table_def map_snd_c_be flip: m_def split: option.split)
  qed (use d in \<open>simp add: unf mod_if flip: m_def\<close>)+
qed

lemma skipMsgValue_bounds:
  "skipMsgValue buf depth (unat (b :: byte)) pos = Some q \<Longrightarrow> pos \<le> length buf \<Longrightarrow> pos \<le> q \<and> q \<le> length buf"
proof (induction "MAX_SKIP_DEPTH + 1 - depth" arbitrary: depth b pos q rule: less_induct)
  case less
  have d: "depth \<le> MAX_SKIP_DEPTH"
    using less.prems by (simp add: skipMsgValue.simps [of buf depth] split: if_splits)
  have IH: "p \<le> q \<and> q \<le> length buf"
    if "c_u8 buf p0 = Some (c, p)" "skipMsgValue buf (depth + 1) c p = Some q" for c p0 p q
    using that less.hyps [of "depth + 1" "buf ! p0" p q] d
    by (auto simp: c_u8_def c_remaining_def split: if_splits)
  have many: "p \<le> length buf \<longrightarrow> p \<le> q \<and> q \<le> length buf"
    if "skipMany (skipMsgValue buf (Suc depth)) buf n p = Some q" for n p q
    using that
  proof (induction n arbitrary: p)
    case (Suc n)
    then obtain c p1 p2 where p: "c_u8 buf p = Some (c, p1)" "skipMsgValue buf (depth + 1) c p1 = Some p2"
        "skipMany (skipMsgValue buf (Suc depth)) buf n p2 = Some q"
      by (auto split: option.splits)
    have "p \<le> p1" using p(1) by (auto simp: c_read_iff)
    with IH [OF p(1,2)] Suc.IH [OF p(3)] show ?case by simp
  qed simp
  from less.prems show ?case
    by (auto simp: skipMsgValue_shape [OF d] Let_def c_sized_def c_skip_iff c_be_iff
        split: option.splits shape.splits dest!: many)
qed

lemma skipMany_complete:
  assumes "\<forall>v \<in> set vs. v \<noteq> [] \<and>
      (\<forall>p s. S (p @ v @ s) (unat (hd v)) (length p + 1) = Some (length p + length v))"
  shows "skipMany (S (p @ concat vs @ s)) (p @ concat vs @ s) (length vs) (length p) =
    Some (length p + length (concat vs))"
  using assms
proof (induction vs arbitrary: p)
  case (Cons v vs)
  define buf where "buf = p @ concat (v # vs) @ s"
  have v: "v \<noteq> []" and S: "S buf (unat (hd v)) (length p + 1) = Some (length p + length v)"
    using Cons.prems by (auto simp: buf_def)
  have "c_u8 buf (length p) = Some (unat (hd v), length p + 1)"
    using v by (cases v) (simp_all add: buf_def c_u8_def c_remaining_def)
  moreover have "skipMany (S buf) buf (length vs) (length p + length v) =
      Some (length p + length v + length (concat vs))"
    using Cons.IH [of "p @ v"] Cons.prems by (simp add: buf_def)
  ultimately show ?case
    using S by (simp add: buf_def)
qed simp

lemma concat_pairs:
  "concat (map (\<lambda>kv. fst kv @ snd kv) kvs) = concat (concat (map (\<lambda>kv. [fst kv, snd kv]) kvs))"
  "length (concat (map (\<lambda>kv. [fst kv, snd kv]) kvs)) = length kvs * 2"
  by (induction kvs) auto

lemma skip_validated:
  assumes "mp_value d v"
  shows "depth + MAX_STRUCTURE_DEPTH \<le> d + MAX_SKIP_DEPTH \<Longrightarrow>
    skipMsgValue (p @ v @ s) depth (unat (hd v)) (length p + 1) = Some (length p + length v)"
  using assms
proof (induction arbitrary: depth p s rule: mp_value.induct)
  case (mp_leaf d h n bs)
  then have dd: "depth \<le> MAX_SKIP_DEPTH" by simp
  from mp_leaf(2) show ?case
  proof cases
    case (1 b)
    with mp_leaf.prems mp_leaf(3) dd show ?thesis
      by (simp add: skipMsgValue_shape c_skip_iff)
  next
    case (2 b w x ls)
    then have "c_be w (p @ (b # ls) @ bs @ s) (length p + 1) = Some (be_value ls, length p + 1 + w)"
      using window_embed [of "p @ [b]" ls "bs @ s"] by (simp add: c_be_iff)
    with 2 mp_leaf(3) dd show ?thesis
      by (simp add: skipMsgValue_shape c_sized_def c_skip_iff)
  qed
next
  case (mp_array d h vs)
  then have dd: "depth \<le> MAX_SKIP_DEPTH" by simp
  define S where "S = (\<lambda>buf. skipMsgValue buf (depth + 1))"
  have "\<forall>v \<in> set vs. v \<noteq> [] \<and>
      (\<forall>p s. S (p @ v @ s) (unat (hd v)) (length p + 1) = Some (length p + length v))"
    using mp_array.IH mp_array.prems mp_value_header by (fastforce simp: S_def)
  from skipMany_complete [OF this, of "p @ h" s]
  have arr: "skipMany (S (p @ (h @ concat vs) @ s)) (p @ (h @ concat vs) @ s) (length vs) (length (p @ h)) =
      Some (length (p @ h) + length (concat vs))" by simp
  from mp_array.hyps(2) show ?case
  proof cases
    case (1 b)
    with arr dd show ?thesis by (simp add: skipMsgValue_shape S_def)
  next
    case (2 b w ls)
    then have "c_be w (p @ (b # ls) @ concat vs @ s) (length p + 1) = Some (be_value ls, length p + 1 + w)"
      using window_embed [of "p @ [b]" ls "concat vs @ s"] by (simp add: c_be_iff)
    with 2 arr dd show ?thesis by (simp add: skipMsgValue_shape S_def add.assoc)
  qed
next
  case (mp_map d h kvs)
  then have dd: "depth \<le> MAX_SKIP_DEPTH" by simp
  define S where "S = (\<lambda>buf. skipMsgValue buf (depth + 1))"
  define vs where "vs = concat (map (\<lambda>kv. [fst kv, snd kv]) kvs)"
  have "\<forall>v \<in> set vs. v \<noteq> [] \<and>
      (\<forall>p s. S (p @ v @ s) (unat (hd v)) (length p + 1) = Some (length p + length v))"
    using mp_map.IH mp_map.prems mp_value_header by (fastforce simp: S_def vs_def)
  from skipMany_complete [OF this, of "p @ h" s]
  have arr: "skipMany (S (p @ (h @ concat vs) @ s)) (p @ (h @ concat vs) @ s) (length kvs * 2) (length (p @ h)) =
      Some (length (p @ h) + length (concat vs))" by (simp add: vs_def concat_pairs)
  have "skipMsgValue (p @ (h @ concat vs) @ s) depth (unat (hd (h @ concat vs))) (length p + 1) =
      Some (length p + length (h @ concat vs))"
    using mp_map.hyps(2)
  proof cases
    case (1 b)
    with arr dd show ?thesis by (simp add: skipMsgValue_shape S_def)
  next
    case (2 b w ls)
    then have "c_be w (p @ (b # ls) @ concat vs @ s) (length p + 1) = Some (be_value ls, length p + 1 + w)"
      using window_embed [of "p @ [b]" ls "concat vs @ s"] by (simp add: c_be_iff)
    with 2 arr dd show ?thesis by (simp add: skipMsgValue_shape S_def add.assoc)
  qed
  then show ?case by (simp only: vs_def concat_pairs(1))
qed

section \<open>The element loop\<close>

text \<open>What one pass of the loop adds: a delivered element or a dropped one.\<close>

definition payload_part :: "bytes \<Rightarrow> bytes \<Rightarrow> bool" where
  "payload_part buf e \<longleftrightarrow>
     e \<noteq> [] \<and> length e < 65536 \<and> (\<exists>i. i + length e \<le> length buf \<and> e = window buf i (length e))"

lemma payload_part_window:
  "n \<noteq> 0 \<Longrightarrow> n < 65536 \<Longrightarrow> pos + n \<le> length buf \<Longrightarrow> payload_part buf (window buf pos n)"
  by (auto simp: payload_part_def intro!: exI [of _ pos] dest: arg_cong [where f = length])

lemma bundleLoop_accounting:
  assumes "bundleLoop buf n pos acc = Inr (c, q)" and "pos \<le> length buf"
  shows "\<exists>new. elements c = elements acc @ new \<and> (\<forall>e \<in> set new. payload_part buf e) \<and>
    length new + dropped c = dropped acc + n \<and> sum_list (map length new) + pos \<le> q \<and> q \<le> length buf"
  using assms
proof (induction buf n pos acc rule: bundleLoop.induct)
  case (2 buf n pos acc)
  from "2.prems" obtain type pos1 where hd: "c_u8 buf pos = Some (type, pos1)"
    by (auto split: option.splits)
  then have p1: "pos1 = pos + 1" "pos1 \<le> length buf" and ty: "type = unat (buf ! pos)"
    by (auto simp: c_u8_def c_remaining_def split: if_splits)
  consider (bin) "type = 0xc4 \<or> type = 0xc5" | (bin32) "type = 0xc6"
    | (other) "type \<noteq> 0xc4" "type \<noteq> 0xc5" "type \<noteq> 0xc6" by blast
  then show ?case
  proof cases
    case bin
    with "2.prems" hd obtain len pos2 data pos3
      where len: "(if type = 0xc4 then c_u8 buf pos1 else c_u16 buf pos1) = Some (len, pos2)"
        and data: "c_take buf pos2 len = Some (data, pos3)"
        and rest: "(if len = 0 then bundleLoop buf n pos3 (acc\<lparr>dropped := dropped acc + 1\<rparr>)
          else bundleLoop buf n pos3 (acc\<lparr>elements := elements acc @ [data]\<rparr>)) = Inr (c, q)"
      by (auto split: option.splits if_splits)
    have b: "pos1 < pos2" "pos2 \<le> length buf" "len < 65536"
      using len unat_byte [of "buf ! pos1"] u16_of_less [of "buf ! pos1" "buf ! (pos1 + 1)"]
      by (auto simp: c_u8_def c_u16_def c_remaining_def split: if_splits)
    have d: "data = window buf pos2 len" "pos3 = pos2 + len" "pos3 \<le> length buf"
      using data b by (auto simp: c_take_iff)
    show ?thesis
    proof (cases "len = 0")
      case True
      with rest "2.IH"(1) [OF hd _ bin len _ data] d p1 b show ?thesis by fastforce
    next
      case False
      with rest "2.IH"(2) [OF hd _ bin len _ data] d
      obtain new where new: "elements c = elements acc @ data # new" "\<forall>e \<in> set new. payload_part buf e"
        "length new + dropped c = dropped acc + n" "sum_list (map length new) + pos3 \<le> q" "q \<le> length buf"
        by fastforce
      have "payload_part buf data"
        using False b d by (simp add: payload_part_window)
      with new d p1 b show ?thesis
        by (intro exI [of _ "data # new"]) auto
    qed
  next
    case bin32
    with "2.prems" hd obtain pos2 where s: "c_sized buf (c_u32 buf pos1) 0 = Some pos2"
      and rest: "bundleLoop buf n pos2 (acc\<lparr>dropped := dropped acc + 1\<rparr>) = Inr (c, q)"
      by (auto split: option.splits)
    have "pos1 \<le> pos2" "pos2 \<le> length buf"
      using s p1 by (auto simp: c_sized_def c_skip_iff c_read_iff split: option.splits)
    with rest "2.IH"(3) [OF hd _ _ _ s] bin32 p1 show ?thesis by fastforce
  next
    case other
    with "2.prems" hd obtain pos2 where s: "skipMsgValue buf 1 type pos1 = Some pos2"
      and rest: "bundleLoop buf n pos2 (acc\<lparr>dropped := dropped acc + 1\<rparr>) = Inr (c, q)"
      by (auto split: option.splits)
    have "pos1 \<le> pos2" "pos2 \<le> length buf"
      using skipMsgValue_bounds [of buf 1 "buf ! pos" pos1 pos2] s p1 ty by auto
    with rest "2.IH"(4) [OF hd _ _ _ s] other p1 show ?thesis by fastforce
  qed
qed simp

section \<open>Properties\<close>

text \<open>
  Accounting of an upload. A raw payload is delivered unchanged. A bundle that is
  accepted declared between 1 and 4096 elements, and each was either delivered or counted as
  dropped; every delivered packet is non-empty, shorter than 64 KiB and a contiguous part of
  the payload, and together they are no longer than it.
\<close>

theorem log_container_accounting:
  assumes "parseLogContainer bs = Inr c"
  shows "bs \<noteq> [] \<and> (if bs ! 0 = LOG_PACKET_RAW_MAGIC then c = \<lparr>elements = [bs], dropped = 0\<rparr>
    else bs ! 0 = LOG_PACKET_MSG_MAGIC \<and>
      (\<exists>declared pos. bundle_declared (drop 1 bs) = Inr (declared, pos) \<and>
        length (elements c) + dropped c = declared \<and> 1 \<le> declared \<and> declared \<le> MAX_BUNDLE_ELEMENTS) \<and>
      (\<forall>e \<in> set (elements c). payload_part (drop 1 bs) e) \<and>
      sum_list (map length (elements c)) \<le> length bs)"
proof (cases "bs ! 0 = LOG_PACKET_RAW_MAGIC")
  case True
  with assms show ?thesis by (auto simp: parseLogContainer_def split: if_splits)
next
  case False
  define buf where "buf = drop 1 bs"
  from assms False obtain declared pos where bs: "bs \<noteq> []" "bs ! 0 = LOG_PACKET_MSG_MAGIC"
    and decl: "bundle_declared buf = Inr (declared, pos)" "declared \<le> MAX_BUNDLE_ELEMENTS" "declared \<noteq> 0"
    and loop: "bundleLoop buf declared pos \<lparr>elements = [], dropped = 0\<rparr> = Inr (c, length buf)"
    by (auto simp: parseLogContainer_def parseMsgBundle_def buf_def rbind_eq_Inr split: if_splits)
  have "pos \<le> length buf"
    using decl(1) by (auto simp: bundle_declared_def c_read_iff split: option.splits if_splits)
  from bundleLoop_accounting [OF loop this] show ?thesis
    using bs decl False unfolding buf_def [symmetric] by (fastforce simp: buf_def)
qed

text \<open>The firmware's encoding of a bundle: an array16 of bin16 elements behind the magic byte.\<close>

definition bin16 :: "bytes \<Rightarrow> bytes" where
  "bin16 e = 0xc5 # be16 (length e) @ e"

definition bundle_bytes :: "bytes list \<Rightarrow> bytes" where
  "bundle_bytes es = LOG_PACKET_MSG_MAGIC # 0xdc # be16 (length es) @ concat (map bin16 es)"

lemma be_value_be16: "n < 65536 \<Longrightarrow> be_value (be16 n) = n"
  using u16_of_be16 [of n] by (simp add: be16_def be_value_simps)

lemma c_u16_be16:
  "n < 65536 \<Longrightarrow> pos = length p \<Longrightarrow> c_u16 (p @ be16 n @ s) pos = Some (n, pos + 2)"
  using c_read_embed(2) [of "be16 n" p s] by (simp add: be_value_be16)

lemma bundleLoop_complete:
  assumes "\<forall>e \<in> set es. e \<noteq> [] \<and> length e < 65536"
  shows "bundleLoop (p @ concat (map bin16 es)) (length es) (length p) acc =
    Inr (acc\<lparr>elements := elements acc @ es\<rparr>, length p + length (concat (map bin16 es)))"
  using assms
proof (induction es arbitrary: p acc)
  case (Cons e es)
  define rest where "rest = concat (map bin16 es)"
  define buf where "buf = p @ bin16 e @ rest"
  have e: "e \<noteq> []" "length e < 65536" using Cons.prems by auto
  have 1: "c_u8 buf (length p) = Some (0xc5, length p + 1)"
    by (simp add: buf_def bin16_def c_u8_def c_remaining_def)
  have 2: "c_u16 buf (length p + 1) = Some (length e, length p + 3)"
    using c_u16_be16 [of "length e" "length p + 1" "p @ [0xc5]" "e @ rest"] e
    by (simp add: buf_def bin16_def)
  have 3: "c_take buf (length p + 3) (length e) = Some (e, length p + 3 + length e)"
    using window_embed [of "p @ 0xc5 # be16 (length e)" e rest]
    by (simp add: c_take_iff buf_def bin16_def numeral_3_eq_3)
  have "bundleLoop buf (length es) (length (p @ bin16 e)) (acc\<lparr>elements := elements acc @ [e]\<rparr>) =
      Inr (acc\<lparr>elements := elements acc @ e # es\<rparr>, length (p @ bin16 e) + length rest)"
    using Cons.IH [of "p @ bin16 e"] Cons.prems by (simp add: buf_def rest_def)
  moreover have "length (p @ bin16 e) = length p + 3 + length e" by (simp add: bin16_def)
  ultimately show ?case
    using 1 2 3 e by (simp add: buf_def rest_def add.assoc)
qed simp

text \<open>
  C19. Round trip of a bundle: any 1 to 4096 non-empty packets shorter than 64 KiB that the
  firmware packs into one upload come out unchanged, in order, and none is dropped.
\<close>

theorem log_container_roundtrip:
  assumes "es \<noteq> []" and "length es \<le> MAX_BUNDLE_ELEMENTS"
    and "\<forall>e \<in> set es. e \<noteq> [] \<and> length e < 65536"
  shows "parseLogContainer (bundle_bytes es) = Inr \<lparr>elements = es, dropped = 0\<rparr>"
proof -
  define hdr where "hdr = 0xdc # be16 (length es)"
  define buf where "buf = hdr @ concat (map bin16 es)"
  have len: "length es < 65536" using assms(2) by (simp add: MAX_BUNDLE_ELEMENTS_def)
  have 1: "c_u8 buf 0 = Some (0xdc, 1)"
    by (simp add: buf_def hdr_def c_u8_def c_remaining_def)
  have 2: "c_u16 buf 1 = Some (length es, 3)"
    using c_u16_be16 [OF len, of 1 "[0xdc]" "concat (map bin16 es)"] by (simp add: buf_def hdr_def)
  have 3: "bundleLoop buf (length es) 3 \<lparr>elements = [], dropped = 0\<rparr> =
      Inr (\<lparr>elements = es, dropped = 0\<rparr>, length buf)"
    using bundleLoop_complete [OF assms(3), of hdr "\<lparr>elements = [], dropped = 0\<rparr>"]
    by (simp add: buf_def hdr_def numeral_3_eq_3)
  have "parseMsgBundle buf = Inr \<lparr>elements = es, dropped = 0\<rparr>"
    using 1 2 3 assms(1,2) by (simp add: parseMsgBundle_def bundle_declared_def)
  then show ?thesis
    by (simp add: parseLogContainer_def bundle_bytes_def buf_def hdr_def LOG_PACKET_RAW_MAGIC_def
        LOG_PACKET_MSG_MAGIC_def)
qed

theorem log_container_roundtrip_witness:
  "parseLogContainer (bundle_bytes [[0x9a, 1], [0x9a]]) = Inr \<lparr>elements = [[0x9a, 1], [0x9a]], dropped = 0\<rparr>"
  by (rule log_container_roundtrip) (simp_all add: MAX_BUNDLE_ELEMENTS_def)

theorem log_container_accounting_witness:
  "bundle_bytes [[0x9a, 1]] \<noteq> [] \<and>
   sum_list (map length (elements \<lparr>elements = [[0x9a, 1]], dropped = 0\<rparr>)) \<le> length (bundle_bytes [[0x9a, 1]])"
proof -
  have "parseLogContainer (bundle_bytes [[0x9a, 1]]) = Inr \<lparr>elements = [[0x9a, 1]], dropped = 0\<rparr>"
    by code_simp
  from log_container_accounting [OF this] show ?thesis
    by (simp add: bundle_bytes_def LOG_PACKET_MSG_MAGIC_def bin16_def)
qed

text \<open>
  Skipping agrees with validation: a value that the structural validator accepts with at
  most 127 levels of nesting below it is skipped by the container parser at the top level of
  a bundle, exactly to its end, whatever surrounds it.
\<close>

theorem skip_agrees_with_validator:
  assumes "mp_value (MAX_STRUCTURE_DEPTH - 127) v"
  shows "skipMsgValue (p @ v @ s) 1 (unat (hd v)) (length p + 1) = Some (length p + length v)"
  by (rule skip_validated [OF assms]) (simp add: MAX_STRUCTURE_DEPTH_def MAX_SKIP_DEPTH_def)

theorem skip_agrees_with_validator_witness:
  "skipMsgValue ([] @ [0x92, 0x01, 0xc0] @ [7]) 1 (unat (hd [0x92, 0x01, 0xc0 :: byte])) (length ([] :: bytes) + 1) =
     Some (length ([] :: bytes) + length [0x92, 0x01, 0xc0 :: byte])"
proof (rule skip_agrees_with_validator)
  have "walkValue [0x92, 0x01, 0xc0] 0 385 = Inr 3" by code_simp
  from walkValue_sound [OF this]
  show "mp_value (MAX_STRUCTURE_DEPTH - 127) [0x92, 0x01, 0xc0]"
    by (simp add: reads_def window_def MAX_STRUCTURE_DEPTH_def)
qed

end
