(* ===== verification/On9logPacket.thy ===== *)
theory On9logPacket
  imports Prelude
begin

text \<open>
  \<^verbatim>\<open>packages/core/src/on9log/packet.ts\<close>: the little-endian on9log packet decoder. The cursor
  class \<^verbatim>\<open>Reader\<close> is the pair of buffer and position; an operation returns the value read and
  the new position, or the error the source throws. The lemmas show each reader to be a
  \<open>codec\<close> of the bytes it consumes, and from that the exact set of byte strings the packet
  decoder accepts together with the packet it returns for each.
\<close>

section \<open>Data\<close>

definition MAX_DYNAMIC_STRING_LEN :: nat where "MAX_DYNAMIC_STRING_LEN = 65536"
definition ON9LOG_PACKET_MAGIC :: nat where "ON9LOG_PACKET_MAGIC = 0x9a"
definition ON9LOG_PAYLOAD_LEN_STREAMING :: nat where "ON9LOG_PAYLOAD_LEN_STREAMING = 0xffff"
definition ON9LOG_HEADER_SIZE :: nat where "ON9LOG_HEADER_SIZE = 18"

record On9logPacketHeader =
  htype :: nat
  level :: nat
  seq :: nat
  timeMs :: nat
  tagId :: nat
  fmtId :: nat
  payloadLen :: nat

datatype On9logArg =
    Bits32 nat
  | Bits64 nat
  | Pointer nat
  | DynamicString "bytes option"
  | DynamicStringView "bytes option"

datatype On9logPacket =
    LogPacket On9logPacketHeader (argCount: nat) (argTypes: "nat list") (args: "On9logArg list")
  | DroppedPacket On9logPacketHeader (droppedCount: nat)
  | TimeSyncPacket On9logPacketHeader (bootTimeMs: nat) (utcUnixMs: nat)
  | BufferPacket On9logPacketHeader (totalLen: nat) (bufOffset: nat) (chunk: bytes)
  | BootPacket On9logPacketHeader (bootPayload: bytes)

datatype On9logParseError =
    Truncated nat nat
  | BadMagic nat
  | LengthMismatch nat nat
  | UnknownPacketType nat
  | BadLevel nat
  | TrailingBytes nat
  | StringTooLong nat
  | UnknownArgType nat
  | ChunkOutOfRange nat nat nat

type_synonym 'a rd = "On9logParseError + ('a \<times> nat)"

section \<open>The reader\<close>

definition r_require :: "bytes \<Rightarrow> nat \<Rightarrow> nat \<Rightarrow> On9logParseError + unit" where
  "r_require buf pos n = ensure (\<not> pos + n > length buf) (Truncated n pos)"

definition r_u8 :: "bytes \<Rightarrow> nat \<Rightarrow> nat rd" where
  "r_u8 buf pos = rbind (r_require buf pos 1) (\<lambda>_. Inr (unat (buf ! pos), pos + 1))"

definition r_u16 :: "bytes \<Rightarrow> nat \<Rightarrow> nat rd" where
  "r_u16 buf pos =
     rbind (r_require buf pos 2) (\<lambda>_. Inr (u16_of (buf ! (pos + 1)) (buf ! pos), pos + 2))"

definition r_u32 :: "bytes \<Rightarrow> nat \<Rightarrow> nat rd" where
  "r_u32 buf pos =
     rbind (r_require buf pos 4) (\<lambda>_.
       Inr (u32_of (buf ! (pos + 3)) (buf ! (pos + 2)) (buf ! (pos + 1)) (buf ! pos), pos + 4))"

definition r_bytes :: "nat \<Rightarrow> bytes \<Rightarrow> nat \<Rightarrow> bytes rd" where
  "r_bytes n buf pos = rbind (r_require buf pos n) (\<lambda>_. Inr (window buf pos n, pos + n))"

section \<open>The decoder\<close>

definition readHeader :: "bytes \<Rightarrow> nat \<Rightarrow> On9logPacketHeader rd" where
  "readHeader packet pos =
     rbind (r_u8 packet pos) (\<lambda>(magic, pos).
     rbind (ensure (magic = ON9LOG_PACKET_MAGIC) (BadMagic magic)) (\<lambda>_.
     rbind (r_u8 packet pos) (\<lambda>(typeLevel, pos).
     rbind (r_u16 packet pos) (\<lambda>(sq, pos).
     rbind (r_u32 packet pos) (\<lambda>(tm, pos).
     rbind (r_u32 packet pos) (\<lambda>(tag, pos).
     rbind (r_u32 packet pos) (\<lambda>(fmt, pos).
     rbind (r_u16 packet pos) (\<lambda>(plen, pos).
       Inr (\<lparr>htype = drop_bit 4 typeLevel, level = typeLevel AND 0x0f, seq = sq, timeMs = tm,
             tagId = tag, fmtId = fmt, payloadLen = plen\<rparr>, pos)))))))))"

definition parseOn9logHeader :: "bytes \<Rightarrow> On9logParseError + On9logPacketHeader" where
  "parseOn9logHeader packet = rbind (readHeader packet 0) (\<lambda>(h, _). Inr h)"

definition expectExactLength ::
    "On9logPacketHeader \<Rightarrow> bytes \<Rightarrow> nat \<Rightarrow> On9logParseError + unit" where
  "expectExactLength header payload consumed =
     ensure (\<not> (payloadLen header \<noteq> ON9LOG_PAYLOAD_LEN_STREAMING \<and> consumed \<noteq> length payload))
       (TrailingBytes (length payload - consumed))"

text \<open>The type table: at most \<open>n\<close> entries, ended early by the sentinel 0.\<close>

fun readArgTypes :: "nat \<Rightarrow> bytes \<Rightarrow> nat \<Rightarrow> nat list rd" where
  "readArgTypes 0 buf pos = Inr ([], pos)"
| "readArgTypes (Suc n) buf pos =
     rbind (r_u8 buf pos) (\<lambda>(t, pos).
       if t = 0 then Inr ([], pos)
       else rbind (readArgTypes n buf pos) (\<lambda>(ts, pos). Inr (t # ts, pos)))"

definition decodeDynamic :: "bytes \<Rightarrow> nat \<Rightarrow> bytes option rd" where
  "decodeDynamic buf pos =
     rbind (r_u32 buf pos) (\<lambda>(len, pos).
       if len = 0xffffffff then Inr (None, pos)
       else if len > MAX_DYNAMIC_STRING_LEN then Inl (StringTooLong len)
       else rbind (r_bytes len buf pos) (\<lambda>(bs, pos). Inr (Some bs, pos)))"

definition decodeArg :: "nat \<Rightarrow> bytes \<Rightarrow> nat \<Rightarrow> On9logArg rd" where
  "decodeArg t buf pos =
     (if t = 1 then rbind (r_u32 buf pos) (\<lambda>(v, pos). Inr (Bits32 v, pos))
      else if t = 2 then
        rbind (r_u32 buf pos) (\<lambda>(lo, pos).
        rbind (r_u32 buf pos) (\<lambda>(hi, pos). Inr (Bits64 (push_bit 32 hi OR lo), pos)))
      else if t = 3 then rbind (r_u32 buf pos) (\<lambda>(v, pos). Inr (Pointer v, pos))
      else if t = 4 then rbind (decodeDynamic buf pos) (\<lambda>(v, pos). Inr (DynamicString v, pos))
      else if t = 5 then rbind (decodeDynamic buf pos) (\<lambda>(v, pos). Inr (DynamicStringView v, pos))
      else Inl (UnknownArgType t))"

fun decodeArgs :: "nat list \<Rightarrow> bytes \<Rightarrow> nat \<Rightarrow> On9logArg list rd" where
  "decodeArgs [] buf pos = Inr ([], pos)"
| "decodeArgs (t # ts) buf pos =
     rbind (decodeArg t buf pos) (\<lambda>(a, pos).
     rbind (decodeArgs ts buf pos) (\<lambda>(as, pos). Inr (a # as, pos)))"

definition parseLogPacket ::
    "On9logPacketHeader \<Rightarrow> bytes \<Rightarrow> On9logParseError + On9logPacket" where
  "parseLogPacket header payload =
     rbind (ensure (\<not> level header > 5) (BadLevel (level header))) (\<lambda>_.
     rbind (r_u8 payload 0) (\<lambda>(n, pos).
     rbind (readArgTypes n payload pos) (\<lambda>(ts, pos).
     rbind (decodeArgs ts payload pos) (\<lambda>(as, pos).
     rbind (expectExactLength header payload pos) (\<lambda>_.
       Inr (LogPacket header n ts as))))))"

definition parseDroppedPacket ::
    "On9logPacketHeader \<Rightarrow> bytes \<Rightarrow> On9logParseError + On9logPacket" where
  "parseDroppedPacket header payload =
     rbind (r_u32 payload 0) (\<lambda>(n, pos).
     rbind (expectExactLength header payload pos) (\<lambda>_. Inr (DroppedPacket header n)))"

definition parseTimeSyncPacket ::
    "On9logPacketHeader \<Rightarrow> bytes \<Rightarrow> On9logParseError + On9logPacket" where
  "parseTimeSyncPacket header payload =
     rbind (r_u32 payload 0) (\<lambda>(b, pos).
     rbind (r_u32 payload pos) (\<lambda>(u, pos).
     rbind (expectExactLength header payload pos) (\<lambda>_. Inr (TimeSyncPacket header b u))))"

definition parseBufferPacket ::
    "On9logPacketHeader \<Rightarrow> bytes \<Rightarrow> On9logParseError + On9logPacket" where
  "parseBufferPacket header payload =
     rbind (r_u32 payload 0) (\<lambda>(total, pos).
     rbind (r_u32 payload pos) (\<lambda>(off, pos).
     rbind (r_u32 payload pos) (\<lambda>(len, pos).
     rbind (ensure (\<not> (len > total \<or> off > total \<or> off + len > total)) (ChunkOutOfRange off len total)) (\<lambda>_.
     rbind (r_bytes len payload pos) (\<lambda>(c, pos).
     rbind (expectExactLength header payload pos) (\<lambda>_. Inr (BufferPacket header total off c)))))))"

definition parsePayload :: "On9logPacketHeader \<Rightarrow> bytes \<Rightarrow> On9logParseError + On9logPacket" where
  "parsePayload header payload =
     (if htype header = 0 then parseLogPacket header payload
      else if htype header = 1 then parseDroppedPacket header payload
      else if htype header = 2 then parseTimeSyncPacket header payload
      else if htype header = 4 then parseBufferPacket header payload
      else if htype header = 3 then Inr (BootPacket header payload)
      else Inl (UnknownPacketType (htype header)))"

definition parseOn9logPacket :: "bytes \<Rightarrow> On9logParseError + On9logPacket" where
  "parseOn9logPacket packet =
     rbind (parseOn9logHeader packet) (\<lambda>header.
     rbind (ensure (\<not> (payloadLen header \<noteq> ON9LOG_PAYLOAD_LEN_STREAMING \<and>
                      length packet \<noteq> ON9LOG_HEADER_SIZE + payloadLen header))
             (LengthMismatch (length packet) (payloadLen header))) (\<lambda>_.
     parsePayload header (drop ON9LOG_HEADER_SIZE packet)))"

text \<open>
  \<^verbatim>\<open>(current - previous) & 0xffff\<close> and \<^verbatim>\<open>(current - previous) >>> 0\<close>: two's complement
  on the integer difference.
\<close>

definition sequenceGap :: "int option \<Rightarrow> int \<Rightarrow> int" where
  "sequenceGap previous current =
     (case previous of None \<Rightarrow> 0 | Some p \<Rightarrow> (current - p) AND 0xffff)"

definition elapsedMs :: "int \<Rightarrow> int \<Rightarrow> int" where
  "elapsedMs previous current = take_bit 32 (current - previous)"

section \<open>The readers as codecs\<close>

lemma r_u8_exact:
  "r_u8 buf pos = Inr (n, q) \<longleftrightarrow> n < 256 \<and> placed buf pos [of_nat n] q"
  by (auto simp: r_u8_def r_require_def rbind_eq_Inr placed_def window_1 unat_byte
      unat_of_nat_byte)

lemma r_u16_exact: "r_u16 buf pos = Inr (n, q) \<longleftrightarrow> n < 65536 \<and> placed buf pos (le16 n) q"
  using le16_iff [of n "buf ! pos" "buf ! (pos + 1)"]
  by (auto simp: r_u16_def r_require_def rbind_eq_Inr placed_def window_2)

lemma r_u32_exact: "r_u32 buf pos = Inr (n, q) \<longleftrightarrow> n < 4294967296 \<and> placed buf pos (le32 n) q"
  using le32_iff [of n "buf ! pos" "buf ! (pos + 1)" "buf ! (pos + 2)" "buf ! (pos + 3)"]
  by (auto simp: r_u32_def r_require_def rbind_eq_Inr placed_def window_4)

lemma r_bytes_exact: "r_bytes n buf pos = Inr (bs, q) \<longleftrightarrow> length bs = n \<and> placed buf pos bs q"
  by (auto simp: r_bytes_def r_require_def rbind_eq_Inr placed_def)

interpretation ru8: codec r_u8 "\<lambda>n. [of_nat n]" "\<lambda>n. n < 256"
  by unfold_locales (rule r_u8_exact)
interpretation ru16: codec r_u16 le16 "\<lambda>n. n < 65536"
  by unfold_locales (rule r_u16_exact)
interpretation ru32: codec r_u32 le32 "\<lambda>n. n < 4294967296"
  by unfold_locales (rule r_u32_exact)
interpretation rbytes: codec "r_bytes n" "\<lambda>bs. bs" "\<lambda>bs. length bs = n"
  by unfold_locales (rule r_bytes_exact)

lemmas reader_exact = r_u8_exact r_u16_exact r_u32_exact r_bytes_exact

section \<open>Headers and arguments\<close>

definition enc_header :: "On9logPacketHeader \<Rightarrow> bytes" where
  "enc_header h = [0x9a] @ [of_nat (htype h * 16 + level h)] @ le16 (seq h) @ le32 (timeMs h)
     @ le32 (tagId h) @ le32 (fmtId h) @ le16 (payloadLen h)"

definition legal_header :: "On9logPacketHeader \<Rightarrow> bool" where
  "legal_header h \<longleftrightarrow> htype h < 16 \<and> level h < 16 \<and> seq h < 65536 \<and> timeMs h < 4294967296 \<and>
     tagId h < 4294967296 \<and> fmtId h < 4294967296 \<and> payloadLen h < 65536"

lemma length_enc_header [simp]: "length (enc_header h) = 18"
  by (simp add: enc_header_def)

lemma and_15_mod: "n AND 15 = n mod 16" for n :: nat
  using take_bit_eq_mask [of 4 n] by (simp add: take_bit_eq_mod mask_eq_exp_minus_1)

lemma nibbles: "n < 256 \<and> drop_bit 4 n = t \<and> n AND 15 = l \<longleftrightarrow> t < 16 \<and> l < 16 \<and> n = t * 16 + l"
  for n t l :: nat
  by (auto simp: drop_bit_eq_div and_15_mod)

lemma readHeader_exact:
  "readHeader buf pos = Inr (h, q) \<longleftrightarrow> legal_header h \<and> placed buf pos (enc_header h) q"
  (is "?l \<longleftrightarrow> ?r")
proof
  assume ?l
  then obtain n p1 p2 p3 p4 p5 p6 p7 where
    "placed buf pos [0x9a] p1" "n < 256" "placed buf p1 [of_nat n] p2"
    "seq h < 65536" "placed buf p2 (le16 (seq h)) p3"
    "timeMs h < 4294967296" "placed buf p3 (le32 (timeMs h)) p4"
    "tagId h < 4294967296" "placed buf p4 (le32 (tagId h)) p5"
    "fmtId h < 4294967296" "placed buf p5 (le32 (fmtId h)) p6"
    "payloadLen h < 65536" "placed buf p6 (le16 (payloadLen h)) q"
    "htype h = drop_bit 4 n" "level h = n AND 15"
    by (auto simp: readHeader_def rbind_eq_Inr reader_exact ON9LOG_PACKET_MAGIC_def)
  moreover from this nibbles [of n "htype h" "level h"]
  have "htype h < 16" "level h < 16" "n = htype h * 16 + level h" by simp_all
  ultimately show ?r
    unfolding legal_header_def enc_header_def placed_append by blast
next
  assume r: ?r
  define n where "n = htype h * 16 + level h"
  from r have n: "n < 256" "drop_bit 4 n = htype h" "n AND 15 = level h"
    using nibbles [of n "htype h" "level h"] by (auto simp: legal_header_def n_def)
  from r obtain p1 p2 p3 p4 p5 p6 where
    "placed buf pos [0x9a] p1" "placed buf p1 [of_nat n] p2" "placed buf p2 (le16 (seq h)) p3"
    "placed buf p3 (le32 (timeMs h)) p4" "placed buf p4 (le32 (tagId h)) p5"
    "placed buf p5 (le32 (fmtId h)) p6" "placed buf p6 (le16 (payloadLen h)) q"
    unfolding enc_header_def placed_append n_def by blast
  then have "r_u8 buf pos = Inr (0x9a, p1)" "r_u8 buf p1 = Inr (n, p2)"
    "r_u16 buf p2 = Inr (seq h, p3)" "r_u32 buf p3 = Inr (timeMs h, p4)"
    "r_u32 buf p4 = Inr (tagId h, p5)" "r_u32 buf p5 = Inr (fmtId h, p6)"
    "r_u16 buf p6 = Inr (payloadLen h, q)"
    using r n by (simp_all add: reader_exact legal_header_def)
  then show ?l
    by (simp add: readHeader_def ON9LOG_PACKET_MAGIC_def n)
qed

interpretation hdr: codec readHeader enc_header legal_header
  by unfold_locales (rule readHeader_exact)

fun enc_dynamic :: "bytes option \<Rightarrow> bytes" where
  "enc_dynamic None = le32 0xffffffff"
| "enc_dynamic (Some bs) = le32 (length bs) @ bs"

fun legal_dynamic :: "bytes option \<Rightarrow> bool" where
  "legal_dynamic None = True"
| "legal_dynamic (Some bs) = (length bs \<le> MAX_DYNAMIC_STRING_LEN)"

lemma decodeDynamic_exact:
  "decodeDynamic buf pos = Inr (v, q) \<longleftrightarrow> legal_dynamic v \<and> placed buf pos (enc_dynamic v) q"
proof (cases v)
  case None
  then show ?thesis
    by (auto simp: decodeDynamic_def rbind_eq_Inr reader_exact MAX_DYNAMIC_STRING_LEN_def
        split: if_splits intro!: exI [of _ 4294967295])
next
  case (Some bs)
  have "decodeDynamic buf pos = Inr (Some bs, q)"
    if "length bs \<le> 65536" "placed buf pos (le32 (length bs)) r" "placed buf r bs q" for r
  proof -
    from that have "r_u32 buf pos = Inr (length bs, r)" "r_bytes (length bs) buf r = Inr (bs, q)"
      by (simp_all add: reader_exact)
    with that(1) show ?thesis by (simp add: decodeDynamic_def MAX_DYNAMIC_STRING_LEN_def)
  qed
  moreover have "\<exists>r. length bs \<le> 65536 \<and> placed buf pos (le32 (length bs)) r \<and> placed buf r bs q"
    if "decodeDynamic buf pos = Inr (Some bs, q)"
    using that by (auto simp: decodeDynamic_def rbind_eq_Inr reader_exact
        MAX_DYNAMIC_STRING_LEN_def split: if_splits)
  ultimately show ?thesis
    using Some by (auto simp: placed_append MAX_DYNAMIC_STRING_LEN_def)
qed

interpretation dyn: codec decodeDynamic enc_dynamic legal_dynamic
  by unfold_locales (rule decodeDynamic_exact)

fun arg_type :: "On9logArg \<Rightarrow> nat" where
  "arg_type (Bits32 _) = 1"
| "arg_type (Bits64 _) = 2"
| "arg_type (Pointer _) = 3"
| "arg_type (DynamicString _) = 4"
| "arg_type (DynamicStringView _) = 5"

fun enc_arg :: "On9logArg \<Rightarrow> bytes" where
  "enc_arg (Bits32 v) = le32 v"
| "enc_arg (Bits64 v) = le32 (v mod 4294967296) @ le32 (v div 4294967296)"
| "enc_arg (Pointer v) = le32 v"
| "enc_arg (DynamicString s) = enc_dynamic s"
| "enc_arg (DynamicStringView s) = enc_dynamic s"

fun legal_arg :: "On9logArg \<Rightarrow> bool" where
  "legal_arg (Bits32 v) = (v < 4294967296)"
| "legal_arg (Bits64 v) = (v < 18446744073709551616)"
| "legal_arg (Pointer v) = (v < 4294967296)"
| "legal_arg (DynamicString s) = legal_dynamic s"
| "legal_arg (DynamicStringView s) = legal_dynamic s"

lemma join_halves:
  fixes lo hi v :: nat
  shows "lo < 4294967296 \<and> hi < 4294967296 \<and> push_bit 32 hi OR lo = v \<longleftrightarrow>
     v < 18446744073709551616 \<and> lo = v mod 4294967296 \<and> hi = v div 4294967296"
proof -
  have "push_bit 32 hi OR lo = hi * 4294967296 + lo" if "lo < 4294967296"
  proof -
    have "take_bit 32 lo = lo" using that by (simp add: take_bit_nat_eq_self)
    then have "push_bit 32 hi AND lo = 0"
      by (metis bit_take_bit_iff bit_and_iff bit_eqI bit_push_bit_iff bit_0_eq bot_apply
          bot_bool_def linorder_not_less)
    then have "push_bit 32 hi OR lo = push_bit 32 hi + lo"
      by (simp add: disjunctive_add_eq_or)
    then show ?thesis by (simp add: push_bit_eq_mult)
  qed
  then show ?thesis by auto
qed

lemma decodeArg_exact:
  "decodeArg t buf pos = Inr (a, q) \<longleftrightarrow>
     (arg_type a = t \<and> legal_arg a) \<and> placed buf pos (enc_arg a) q"
proof (cases "t = 2")
  case True
  have "decodeArg 2 buf pos = Inr (Bits64 v, q) \<longleftrightarrow>
      (\<exists>lo hi r. (lo < 4294967296 \<and> hi < 4294967296 \<and> push_bit 32 hi OR lo = v) \<and>
         placed buf pos (le32 lo) r \<and> placed buf r (le32 hi) q)" for v
    by (auto simp: decodeArg_def rbind_eq_Inr reader_exact; blast)
  also have "\<dots> v \<longleftrightarrow> legal_arg (Bits64 v) \<and> placed buf pos (enc_arg (Bits64 v)) q" for v
    by (auto simp: join_halves placed_append)
  finally show ?thesis
    using True by (cases a) (auto simp: decodeArg_def rbind_eq_Inr)
next
  case False
  then show ?thesis
    by (cases a) (auto simp: decodeArg_def rbind_eq_Inr r_u32_exact decodeDynamic_exact)
qed

interpretation arg: codec "decodeArg t" enc_arg "\<lambda>a. arg_type a = t \<and> legal_arg a"
  by unfold_locales (rule decodeArg_exact)

lemma decodeArgs_exact:
  "decodeArgs ts buf pos = Inr (as, q) \<longleftrightarrow>
     (map arg_type as = ts \<and> list_all legal_arg as) \<and> placed buf pos (concat (map enc_arg as)) q"
  if "pos \<le> length buf"
  using that
proof (induction ts arbitrary: pos as)
  case Nil
  then show ?case by auto
next
  case (Cons t ts)
  have len: "r \<le> length buf" if "placed buf pos (enc_arg a) r" for a r
    using that by (simp add: placed_def)
  show ?case
  proof (cases as)
    case Nil
    then show ?thesis by (auto simp: rbind_eq_Inr)
  next
    case (Cons a as')
    have "decodeArgs (t # ts) buf pos = Inr (a # as', q) \<longleftrightarrow>
        (\<exists>r. decodeArg t buf pos = Inr (a, r) \<and> decodeArgs ts buf r = Inr (as', q))"
      by (auto simp: rbind_eq_Inr)
    also have "\<dots> \<longleftrightarrow> (\<exists>r. decodeArg t buf pos = Inr (a, r) \<and>
        (map arg_type as' = ts \<and> list_all legal_arg as') \<and> placed buf r (concat (map enc_arg as')) q)"
      using Cons.IH len by (metis decodeArg_exact)
    finally show ?thesis
      unfolding Cons by (auto simp: decodeArg_exact placed_append)
  qed
qed

definition enc_types :: "nat \<Rightarrow> nat list \<Rightarrow> bytes" where
  "enc_types n ts = map of_nat ts @ (if length ts < n then [0] else [])"

definition legal_types :: "nat \<Rightarrow> nat list \<Rightarrow> bool" where
  "legal_types n ts \<longleftrightarrow> length ts \<le> n \<and> list_all (\<lambda>t. 0 < t \<and> t < 256) ts"

lemma readArgTypes_exact:
  "readArgTypes n buf pos = Inr (ts, q) \<longleftrightarrow> legal_types n ts \<and> placed buf pos (enc_types n ts) q"
  if "pos \<le> length buf"
  using that
proof (induction n arbitrary: pos ts)
  case 0
  then show ?case by (auto simp: legal_types_def enc_types_def)
next
  case (Suc n)
  have len: "r \<le> length buf" if "placed buf pos e r" for e r
    using that by (simp add: placed_def)
  show ?case
  proof (cases ts)
    case Nil
    then show ?thesis
      by (auto simp: rbind_eq_Inr reader_exact legal_types_def enc_types_def split: if_splits)
  next
    case (Cons t ts')
    have "enc_types (Suc n) (t # ts') = [of_nat t] @ enc_types n ts'"
      by (simp add: enc_types_def)
    moreover have "legal_types (Suc n) (t # ts') \<longleftrightarrow> 0 < t \<and> t < 256 \<and> legal_types n ts'"
      by (auto simp: legal_types_def)
    moreover have "readArgTypes (Suc n) buf pos = Inr (t # ts', q) \<longleftrightarrow>
        (\<exists>r. r_u8 buf pos = Inr (t, r) \<and> 0 < t \<and> readArgTypes n buf r = Inr (ts', q))"
      by (auto simp: rbind_eq_Inr split: if_splits)
    moreover have "\<dots> \<longleftrightarrow> (\<exists>r. r_u8 buf pos = Inr (t, r) \<and> 0 < t \<and>
        legal_types n ts' \<and> placed buf r (enc_types n ts') q)"
      using Suc.IH len by (metis r_u8_exact)
    ultimately show ?thesis
      unfolding Cons by (simp only: placed_append) (auto simp: r_u8_exact)
  qed
qed

section \<open>Packets\<close>

text \<open>
  What a packet says on the wire. \<open>payload_ok\<close> is the condition on its fields; \<open>slack p tr\<close>
  says which bytes may follow the payload: none in a packet that declares its length, any in a
  streaming packet, whose end the transport defines (a boot packet keeps all of them).
\<close>

fun header_of :: "On9logPacket \<Rightarrow> On9logPacketHeader" where
  "header_of (LogPacket h _ _ _) = h"
| "header_of (DroppedPacket h _) = h"
| "header_of (TimeSyncPacket h _ _) = h"
| "header_of (BufferPacket h _ _ _) = h"
| "header_of (BootPacket h _) = h"

fun payload_of :: "On9logPacket \<Rightarrow> bytes" where
  "payload_of (LogPacket _ n ts as) = [of_nat n] @ enc_types n ts @ concat (map enc_arg as)"
| "payload_of (DroppedPacket _ n) = le32 n"
| "payload_of (TimeSyncPacket _ b u) = le32 b @ le32 u"
| "payload_of (BufferPacket _ tot off c) = le32 tot @ le32 off @ le32 (length c) @ c"
| "payload_of (BootPacket _ bs) = bs"

fun payload_ok :: "On9logPacket \<Rightarrow> bool" where
  "payload_ok (LogPacket h n ts as) \<longleftrightarrow> htype h = 0 \<and> level h \<le> 5 \<and> n < 256 \<and> legal_types n ts \<and>
     map arg_type as = ts \<and> list_all legal_arg as"
| "payload_ok (DroppedPacket h n) \<longleftrightarrow> htype h = 1 \<and> n < 4294967296"
| "payload_ok (TimeSyncPacket h b u) \<longleftrightarrow> htype h = 2 \<and> b < 4294967296 \<and> u < 4294967296"
| "payload_ok (BufferPacket h tot off c) \<longleftrightarrow>
     htype h = 4 \<and> tot < 4294967296 \<and> off + length c \<le> tot"
| "payload_ok (BootPacket h bs) \<longleftrightarrow> htype h = 3"

fun slack :: "On9logPacket \<Rightarrow> bytes \<Rightarrow> bool" where
  "slack (BootPacket h bs) tr \<longleftrightarrow> tr = []"
| "slack p tr \<longleftrightarrow> payloadLen (header_of p) = ON9LOG_PAYLOAD_LEN_STREAMING \<or> tr = []"

definition enc_packet :: "On9logPacket \<Rightarrow> bytes" where
  "enc_packet p = enc_header (header_of p) @ payload_of p"

definition legal_packet :: "On9logPacket \<Rightarrow> bool" where
  "legal_packet p \<longleftrightarrow> legal_header (header_of p) \<and> payload_ok p \<and>
     (payloadLen (header_of p) = ON9LOG_PAYLOAD_LEN_STREAMING \<or>
      payloadLen (header_of p) = length (payload_of p))"

lemma placed_0: "placed buf 0 e q \<longleftrightarrow> q = length e \<and> (\<exists>tr. buf = e @ tr)"
  by (auto simp: placed_def window_def) (metis append_take_drop_id)

lemma placed_then_end:
  "(\<exists>q. placed payload 0 e q \<and> expectExactLength h payload q = Inr ()) \<longleftrightarrow>
     (\<exists>tr. payload = e @ tr \<and> (payloadLen h = ON9LOG_PAYLOAD_LEN_STREAMING \<or> tr = []))"
  by (auto simp: placed_0 expectExactLength_def)

lemma parseLogPacket_exact:
  "parseLogPacket h payload = Inr p \<and> htype h = 0 \<longleftrightarrow>
     (\<exists>n ts as. p = LogPacket h n ts as) \<and> payload_ok p \<and>
     (\<exists>q. placed payload 0 (payload_of p) q \<and> expectExactLength h payload q = Inr ())"
    (is "?l \<longleftrightarrow> ?r")
proof
  assume ?l
  then obtain n ts as p1 p2 q where *: "level h \<le> 5" "r_u8 payload 0 = Inr (n, p1)"
    "readArgTypes n payload p1 = Inr (ts, p2)" "decodeArgs ts payload p2 = Inr (as, q)"
    "expectExactLength h payload q = Inr ()" "p = LogPacket h n ts as" "htype h = 0"
    by (auto simp: parseLogPacket_def rbind_eq_Inr)
  then have p1: "p1 \<le> length payload" by (simp add: r_u8_exact placed_def)
  with * have p2: "p2 \<le> length payload" by (simp add: readArgTypes_exact placed_def)
  from * p1 p2 show ?r
    by (simp only: r_u8_exact readArgTypes_exact decodeArgs_exact payload_of.simps payload_ok.simps
        placed_append) blast
next
  assume ?r
  then obtain n ts as p1 p2 q where *: "p = LogPacket h n ts as" "payload_ok p"
    "placed payload 0 [of_nat n] p1" "placed payload p1 (enc_types n ts) p2"
    "placed payload p2 (concat (map enc_arg as)) q" "expectExactLength h payload q = Inr ()"
    by (auto simp only: payload_of.simps placed_append)
  then have p1: "p1 \<le> length payload" "p2 \<le> length payload" by (simp_all add: placed_def)
  with * have "r_u8 payload 0 = Inr (n, p1)" "readArgTypes n payload p1 = Inr (ts, p2)"
    "decodeArgs ts payload p2 = Inr (as, q)"
    by (simp_all add: r_u8_exact readArgTypes_exact decodeArgs_exact)
  with * show ?l by (simp add: parseLogPacket_def)
qed

lemma parseDroppedPacket_exact:
  "parseDroppedPacket h payload = Inr p \<and> htype h = 1 \<longleftrightarrow>
     (\<exists>n. p = DroppedPacket h n) \<and> payload_ok p \<and>
     (\<exists>q. placed payload 0 (payload_of p) q \<and> expectExactLength h payload q = Inr ())"
  by (auto simp: parseDroppedPacket_def rbind_eq_Inr r_u32_exact; blast)

lemma parseTimeSyncPacket_exact:
  "parseTimeSyncPacket h payload = Inr p \<and> htype h = 2 \<longleftrightarrow>
     (\<exists>b u. p = TimeSyncPacket h b u) \<and> payload_ok p \<and>
     (\<exists>q. placed payload 0 (payload_of p) q \<and> expectExactLength h payload q = Inr ())"
  by (auto simp: parseTimeSyncPacket_def rbind_eq_Inr r_u32_exact placed_append; blast)

lemma parseBufferPacket_exact:
  "parseBufferPacket h payload = Inr p \<and> htype h = 4 \<longleftrightarrow>
     (\<exists>t f c. p = BufferPacket h t f c) \<and> payload_ok p \<and>
     (\<exists>q. placed payload 0 (payload_of p) q \<and> expectExactLength h payload q = Inr ())"
    (is "?l \<longleftrightarrow> ?r")
proof
  assume ?l
  then show ?r
    by (auto simp: parseBufferPacket_def rbind_eq_Inr reader_exact placed_append; blast)
next
  assume ?r
  then obtain t f c p1 p2 p3 q where *: "p = BufferPacket h t f c" "payload_ok p"
    "placed payload 0 (le32 t) p1" "placed payload p1 (le32 f) p2"
    "placed payload p2 (le32 (length c)) p3" "placed payload p3 c q"
    "expectExactLength h payload q = Inr ()"
    by (auto simp only: payload_of.simps placed_append)
  then have "r_u32 payload 0 = Inr (t, p1)" "r_u32 payload p1 = Inr (f, p2)"
    "r_u32 payload p2 = Inr (length c, p3)" "r_bytes (length c) payload p3 = Inr (c, q)"
    by (auto simp: reader_exact)
  with * show ?l by (simp add: parseBufferPacket_def)
qed


lemma parsePayload_exact:
  "parsePayload h payload = Inr p \<longleftrightarrow>
     header_of p = h \<and> payload_ok p \<and> (\<exists>tr. payload = payload_of p @ tr \<and> slack p tr)"
proof (cases p)
  case (LogPacket h' n ts as)
  have "parsePayload h payload = Inr p \<longleftrightarrow> parseLogPacket h payload = Inr p \<and> htype h = 0"
    unfolding LogPacket parsePayload_def parseDroppedPacket_def parseTimeSyncPacket_def
      parseBufferPacket_def by (auto simp: rbind_eq_Inr)
  then show ?thesis
    by (simp only: parseLogPacket_exact placed_then_end) (auto simp: LogPacket)
next
  case (DroppedPacket h' n)
  have "parsePayload h payload = Inr p \<longleftrightarrow> parseDroppedPacket h payload = Inr p \<and> htype h = 1"
    unfolding DroppedPacket parsePayload_def parseLogPacket_def parseTimeSyncPacket_def
      parseBufferPacket_def by (auto simp: rbind_eq_Inr)
  then show ?thesis
    by (simp only: parseDroppedPacket_exact placed_then_end) (auto simp: DroppedPacket)
next
  case (TimeSyncPacket h' b u)
  have "parsePayload h payload = Inr p \<longleftrightarrow> parseTimeSyncPacket h payload = Inr p \<and> htype h = 2"
    unfolding TimeSyncPacket parsePayload_def parseLogPacket_def parseDroppedPacket_def
      parseBufferPacket_def by (auto simp: rbind_eq_Inr)
  then show ?thesis
    by (simp only: parseTimeSyncPacket_exact placed_then_end) (auto simp: TimeSyncPacket)
next
  case (BufferPacket h' t f c)
  have "parsePayload h payload = Inr p \<longleftrightarrow> parseBufferPacket h payload = Inr p \<and> htype h = 4"
    unfolding BufferPacket parsePayload_def parseLogPacket_def parseDroppedPacket_def
      parseTimeSyncPacket_def by (auto simp: rbind_eq_Inr)
  then show ?thesis
    by (simp only: parseBufferPacket_exact placed_then_end) (auto simp: BufferPacket)
next
  case (BootPacket h' bs)
  have "parsePayload h payload = Inr p \<longleftrightarrow> p = BootPacket h payload \<and> htype h = 3"
    unfolding BootPacket parsePayload_def parseLogPacket_def parseDroppedPacket_def
      parseTimeSyncPacket_def parseBufferPacket_def by (auto simp: rbind_eq_Inr)
  then show ?thesis by (auto simp: BootPacket)
qed

lemma parseOn9logHeader_exact:
  "parseOn9logHeader buf = Inr h \<longleftrightarrow> legal_header h \<and> (\<exists>rest. buf = enc_header h @ rest)"
  by (auto simp: parseOn9logHeader_def rbind_eq_Inr readHeader_exact placed_0)

lemma parseOn9logPacket_split:
  "parseOn9logPacket buf = Inr p \<longleftrightarrow>
     (\<exists>h payload. legal_header h \<and> buf = enc_header h @ payload \<and> parsePayload h payload = Inr p \<and>
       (payloadLen h = ON9LOG_PAYLOAD_LEN_STREAMING \<or> length payload = payloadLen h))"
    (is "_ \<longleftrightarrow> ?r")
proof -
  have "parseOn9logPacket buf = Inr p \<longleftrightarrow>
      (\<exists>h. parseOn9logHeader buf = Inr h \<and> parsePayload h (drop ON9LOG_HEADER_SIZE buf) = Inr p \<and>
        (payloadLen h = ON9LOG_PAYLOAD_LEN_STREAMING \<or> length buf = ON9LOG_HEADER_SIZE + payloadLen h))"
    by (auto simp: parseOn9logPacket_def rbind_eq_Inr)
  also have "\<dots> \<longleftrightarrow> ?r"
    by (auto simp: parseOn9logHeader_exact ON9LOG_HEADER_SIZE_def)
  finally show ?thesis .
qed

lemma slack_declared: "slack p tr \<Longrightarrow> payloadLen (header_of p) \<noteq> ON9LOG_PAYLOAD_LEN_STREAMING \<Longrightarrow> tr = []"
  by (cases p) auto

text \<open>
  C17. The packet decoder accepts exactly the wire encodings of legal packets and returns the
  packet encoded: header fields in range, a type table of known types without embedded sentinel,
  dynamic strings within the cap, buffer chunks inside their buffer, a declared payload length
  equal to the payload's, and no byte left over unless the packet is streaming.
\<close>

theorem on9log_packet_exact:
  "parseOn9logPacket buf = Inr p \<longleftrightarrow>
     legal_packet p \<and> (\<exists>tr. buf = enc_packet p @ tr \<and> slack p tr)"
    (is "?l \<longleftrightarrow> ?r")
proof
  assume ?l
  then obtain payload tr where *: "legal_header (header_of p)" "payload_ok p" "slack p tr"
    "payload = payload_of p @ tr" "buf = enc_header (header_of p) @ payload"
    "payloadLen (header_of p) = ON9LOG_PAYLOAD_LEN_STREAMING \<or> length payload = payloadLen (header_of p)"
    by (auto simp: parseOn9logPacket_split parsePayload_exact)
  moreover have "payloadLen (header_of p) = ON9LOG_PAYLOAD_LEN_STREAMING \<or> tr = []"
    using slack_declared * by blast
  ultimately show ?r
    by (auto simp: legal_packet_def enc_packet_def)
next
  assume ?r
  then obtain tr where *: "legal_packet p" "buf = enc_packet p @ tr" "slack p tr" by blast
  then have "parsePayload (header_of p) (payload_of p @ tr) = Inr p"
    by (auto simp: parsePayload_exact legal_packet_def)
  moreover have "payloadLen (header_of p) = ON9LOG_PAYLOAD_LEN_STREAMING \<or> tr = []"
    using slack_declared * by blast
  ultimately show ?l
    using *
    by (auto simp: parseOn9logPacket_split legal_packet_def enc_packet_def
        intro!: exI [of _ "header_of p"])
qed

lemma mod_distance:
  assumes "0 \<le> p" and "p < m" and "0 \<le> c" and "c < m"
  shows "(c - p) mod m = g \<longleftrightarrow> 0 \<le> g \<and> g < m \<and> (p + g) mod m = (c :: int)"
proof
  assume "(c - p) mod m = g"
  with assms show "0 \<le> g \<and> g < m \<and> (p + g) mod m = c"
    by (metis add_diff_cancel_left' diff_add_cancel mod_add_right_eq mod_pos_pos_trivial
        pos_mod_bound pos_mod_sign add.commute order_le_less_trans)
next
  assume "0 \<le> g \<and> g < m \<and> (p + g) mod m = c"
  then show "(c - p) mod m = g"
    by (metis add_diff_cancel_left' mod_diff_left_eq mod_pos_pos_trivial)
qed

text \<open>
  Sequence numbers are compared modulo 2^16 and times modulo 2^32: the gap (elapsed time)
  is the unique distance below the modulus that leads from the previous value to the
  current one, so a counter that wraps between two packets yields its true distance.
\<close>

theorem sequence_gap_modular:
  assumes "0 \<le> p" and "p < 65536" and "0 \<le> c" and "c < 65536"
    and "0 \<le> t" and "t < 4294967296" and "0 \<le> u" and "u < 4294967296"
  shows "(sequenceGap (Some p) c = g \<longleftrightarrow> 0 \<le> g \<and> g < 65536 \<and> (p + g) mod 65536 = c) \<and>
    (elapsedMs t u = d \<longleftrightarrow> 0 \<le> d \<and> d < 4294967296 \<and> (t + d) mod 4294967296 = u)"
proof -
  have "sequenceGap (Some p) c = (c - p) mod 65536"
    using take_bit_eq_mask [of 16 "c - p"]
    by (simp add: sequenceGap_def take_bit_eq_mod mask_eq_exp_minus_1)
  moreover have "elapsedMs t u = (u - t) mod 4294967296"
    by (simp add: elapsedMs_def take_bit_eq_mod)
  ultimately show ?thesis
    using mod_distance [of p 65536 c g] mod_distance [of t 4294967296 u d] assms by simp
qed

theorem sequence_gap_modular_witness:
  "sequenceGap (Some 65534) 3 = 5 \<and> elapsedMs 4294967290 4 = 10"
  using sequence_gap_modular [of 65534 3 4294967290 4 5 10] by simp

end
