(* ===== verification/OtaDeploy.thy ===== *)
theory OtaDeploy
  imports Schema CommandCodec
begin

text \<open>
  \<^verbatim>\<open>packages/core/src/ota/deploy.ts\<close>: OTA jobs and the delivery state machine of their targets. The
  tables of OTA deployment and rollouts form the record \<open>ota_db\<close>; an operation returns its result and
  the new tables, or the error. Statements that write targets are checked against the CHECK
  constraints of the migrations. Column lengths are not modelled.
\<close>

section \<open>Tables\<close>

datatype ota_state =
    OPending | OLeased | ODelivered | ODelivering | ODownloaded | OInstalled | OExpired | OCompleted | OFailed

record ota_target =
  tid :: uuid
  tjob :: uuid
  tdevice :: uuid
  tstate :: ota_state
  tlease :: "time option"
  tdelivered_at :: "time option"
  tconfirmed_at :: "time option"
  tinstalled_at :: "time option"
  tresult_code :: "int option"
  tresult_message :: "jsstring option"
  tavailable_at :: time
  texpires_at :: time
  tcreated_at :: time

record ota_job =
  jid :: uuid
  jproject :: uuid
  jrelease :: uuid
  jcreated_by :: uuid

record firmware_release =
  fid :: uuid
  fproject :: uuid
  fartifact :: "uuid option"
  fbin_hash :: jsstring
  fbin_size :: int
  fversion :: "jsstring option"

record firmware_artifact =
  aid :: uuid
  abuild_id :: jsstring

record device_firmware_state =
  sdevice :: uuid
  sfw_hash :: jsstring
  sreported_at :: time

datatype rollout_state = RRunning | RPaused | RAborted | RCompleted
datatype phase_state = PPending | PActive | PCompleted | PPaused
datatype strategy = Auto | Grouped

record ota_rollout =
  rid' :: uuid
  rproject :: uuid
  rrelease :: uuid
  rfrom_release :: "uuid option"
  rstate :: rollout_state
  rstrategy :: strategy
  rsuccess_ratio :: rat
  rmin_sample :: int
  rphase_timeout_hours :: int
  rstuck_hours :: int
  rmanual_approval :: bool
  rrollback_job :: "uuid option"
  rcreated_by :: uuid

record rollout_pool =
  prollout' :: uuid
  pdevice :: uuid
  psort_idx :: nat

record rollout_phase =
  prollout :: uuid
  pindex :: nat
  pratio :: "rat option"
  pgroup :: "nat option"
  pstate :: phase_state
  ptarget_count :: nat
  pjob :: "uuid option"
  pactivated_at :: "time option"
  pcompleted_at :: "time option"

record ota_db =
  o_devices :: "device list"
  releases :: "firmware_release list"
  artifacts :: "firmware_artifact list"
  fw_states :: "device_firmware_state list"
  ota_jobs :: "ota_job list"
  ota_targets :: "ota_target list"
  rollouts :: "ota_rollout list"
  phases :: "rollout_phase list"
  pool :: "rollout_pool list"
  o_notifications :: "(jsstring \<times> jsstring) list"

datatype OtaError =
    OEmptyTargets | ODuplicateTargets | OTooManyTargets | OTargetNotFound | OTargetNotInProject
  | OReleaseNotInProject | OInvalidRatios | OInvalidFromRelease | ONoPhases | OGroupsOverlap
  | ONotFound | ORollbackUnavailable | ODatabase

type_synonym 'a otx = "OtaError + ('a \<times> ota_db)"

definition target_check :: "ota_target \<Rightarrow> bool" where
  "target_check t \<longleftrightarrow>
     (tstate t = OLeased \<longleftrightarrow> tlease t \<noteq> None) \<and>
     (tstate t \<in> {ODelivered, ODelivering, ODownloaded, OInstalled} \<longrightarrow> tdelivered_at t \<noteq> None) \<and>
     (tstate t \<in> {OPending, OLeased, OExpired} \<longrightarrow> tdelivered_at t = None) \<and>
     (tstate t \<in> {OCompleted, OFailed} \<longleftrightarrow> tconfirmed_at t \<noteq> None) \<and>
     (case tstate t of
        OCompleted \<Rightarrow> tresult_code t = Some 0
      | OFailed \<Rightarrow> (\<exists>c \<in> set_option (tresult_code t). c < 0)
      | _ \<Rightarrow> tresult_code t = None \<and> tresult_message t = None)"

definition update_targets ::
    "(ota_target \<Rightarrow> bool) \<Rightarrow> (ota_target \<Rightarrow> ota_target) \<Rightarrow> ota_db \<Rightarrow> nat otx" where
  "update_targets p f d =
     (if list_all (\<lambda>t. p t \<longrightarrow> target_check (f t)) (ota_targets d)
      then Inr (length (filter p (ota_targets d)),
                d\<lparr>ota_targets := map (\<lambda>t. if p t then f t else t) (ota_targets d)\<rparr>)
      else Inl ODatabase)"

definition insert_job :: "ota_job \<Rightarrow> ota_db \<Rightarrow> unit otx" where
  "insert_job j d =
     (if jid j \<notin> jid ` set (ota_jobs d) \<and> jrelease j \<in> fid ` set (releases d)
      then Inr ((), d\<lparr>ota_jobs := ota_jobs d @ [j]\<rparr>) else Inl ODatabase)"

definition insert_targets :: "ota_target list \<Rightarrow> ota_db \<Rightarrow> unit otx" where
  "insert_targets ts d =
     (if list_all target_check ts \<and> distinct (map tid (ota_targets d @ ts)) \<and>
         list_all (\<lambda>t. tjob t \<in> jid ` set (ota_jobs d) \<and> tdevice t \<in> did ` set (o_devices d)) ts
      then Inr ((), d\<lparr>ota_targets := ota_targets d @ ts\<rparr>) else Inl ODatabase)"

definition OTA_NOTIFY_CHANNEL :: jsstring where "OTA_NOTIFY_CHANNEL = js ''soulcloud_ota''"

definition o_notify :: "jsstring \<Rightarrow> jsstring \<Rightarrow> ota_db \<Rightarrow> ota_db" where
  "o_notify ch m d = d\<lparr>o_notifications := o_notifications d @ [(ch, m)]\<rparr>"

section \<open>Download credentials\<close>

text \<open>\<^verbatim>\<open>sign\<close> and \<^verbatim>\<open>verify\<close> are the JWT library: \<open>sign key aud expiresInMs claims\<close> and
  \<open>verify key allowedAud requiredClaims token\<close>, \<open>None\<close> when it throws. The caches of their instances are transparent.\<close>

type_synonym jwt_claims = "(jsstring \<times> jsval) list"
type_synonym jwt_signer = "jsstring \<Rightarrow> jsstring \<Rightarrow> int \<Rightarrow> jwt_claims \<Rightarrow> jsstring"
type_synonym jwt_verifier = "jsstring \<Rightarrow> jsstring \<Rightarrow> jsstring list \<Rightarrow> jsstring \<Rightarrow> jwt_claims option"

definition OTA_TOKEN_AUDIENCE :: jsstring where "OTA_TOKEN_AUDIENCE = js ''ota-download''"

record OtaTokenPayload =
  opDeviceUid :: jsstring
  opReleaseId :: jsstring
  opJobId :: jsstring

definition signOtaToken :: "jwt_signer \<Rightarrow> jsstring \<Rightarrow> OtaTokenPayload \<Rightarrow> int \<Rightarrow> jsstring" where
  "signOtaToken sign secret p ttlSeconds =
     sign secret OTA_TOKEN_AUDIENCE (ttlSeconds * 1000)
       [(js ''sub'', JStr (opDeviceUid p)), (js ''releaseId'', JStr (opReleaseId p)), (js ''jobId'', JStr (opJobId p))]"

definition verifyOtaToken :: "jwt_verifier \<Rightarrow> jsstring \<Rightarrow> jsstring \<Rightarrow> OtaTokenPayload option" where
  "verifyOtaToken verify secret token =
     (case verify secret OTA_TOKEN_AUDIENCE [js ''aud'', js ''exp'', js ''releaseId'', js ''jobId''] token of
        None \<Rightarrow> None
      | Some claims \<Rightarrow>
          (case (map_of claims (js ''sub''), map_of claims (js ''releaseId''), map_of claims (js ''jobId'')) of
             (Some (JStr s), Some (JStr r), Some (JStr j)) \<Rightarrow>
               Some \<lparr>opDeviceUid = s, opReleaseId = r, opJobId = j\<rparr>
           | _ \<Rightarrow> None))"

section \<open>Jobs\<close>

definition MAX_OTA_TARGETS :: nat where "MAX_OTA_TARGETS = 1000"

definition find_release :: "uuid \<Rightarrow> ota_db \<Rightarrow> firmware_release option" where
  "find_release i d = find (\<lambda>r. fid r = i) (releases d)"

definition find_artifact :: "uuid \<Rightarrow> ota_db \<Rightarrow> firmware_artifact option" where
  "find_artifact i d = find (\<lambda>a. aid a = i) (artifacts d)"

definition resolveReleaseExpectedFirmware :: "uuid \<Rightarrow> ota_db \<Rightarrow> jsstring option" where
  "resolveReleaseExpectedFirmware i d =
     (case find_release i d of
        None \<Rightarrow> None
      | Some r \<Rightarrow>
          (case fartifact r of
             None \<Rightarrow> Some (fbin_hash r)
           | Some a \<Rightarrow> map_option abuild_id (find_artifact a d)))"

text \<open>The clock and the identifiers the database and the program draw.\<close>

record ota_env =
  onow :: time
  ofresh :: "nat \<Rightarrow> uuid"

definition new_target :: "ota_env \<Rightarrow> uuid \<Rightarrow> time \<Rightarrow> nat \<Rightarrow> uuid \<Rightarrow> ota_target" where
  "new_target env job expires i dev =
     \<lparr>tid = ofresh env (Suc i), tjob = job, tdevice = dev, tstate = OPending, tlease = None,
      tdelivered_at = None, tconfirmed_at = None, tinstalled_at = None, tresult_code = None,
      tresult_message = None, tavailable_at = onow env, texpires_at = expires, tcreated_at = onow env\<rparr>"

definition new_targets :: "ota_env \<Rightarrow> uuid \<Rightarrow> time \<Rightarrow> uuid list \<Rightarrow> ota_target list" where
  "new_targets env job expires devs =
     map (\<lambda>(i, dev). new_target env job expires i dev) (zip [0..<length devs] devs)"

text \<open>Devices of the list that report the firmware; \<^verbatim>\<open>null\<close> and the empty text are no identity.\<close>

definition already_running :: "jsstring option \<Rightarrow> uuid list \<Rightarrow> ota_db \<Rightarrow> uuid list" where
  "already_running fw devs d =
     (case fw of
        None \<Rightarrow> []
      | Some h \<Rightarrow> if h = [] then []
                 else map sdevice (filter (\<lambda>s. sdevice s \<in> set devs \<and> sfw_hash s = h) (fw_states d)))"

definition completed_target :: "time \<Rightarrow> ota_target \<Rightarrow> ota_target" where
  "completed_target t x = x\<lparr>tstate := OCompleted, tconfirmed_at := Some t, tresult_code := Some 0\<rparr>"

text \<open>\<^verbatim>\<open>if (alreadyRunning.size > 0) await tx.otaTarget.updateMany(...)\<close>.\<close>

definition complete_running :: "ota_env \<Rightarrow> uuid \<Rightarrow> uuid list \<Rightarrow> ota_db \<Rightarrow> unit otx" where
  "complete_running env job running d =
     (if running = [] then Inr ((), d)
      else rbind (update_targets (\<lambda>t. tjob t = job \<and> tdevice t \<in> set running \<and> tstate t = OPending)
                    (completed_target (onow env)) d) (\<lambda>(_, d'). Inr ((), d')))"

record CreateOtaJobOptions =
  oj_projectId :: uuid
  oj_releaseId :: uuid
  oj_createdBy :: uuid
  oj_deviceIds :: "uuid list"
  oj_targetTtlSeconds :: int

definition createOtaJob ::
    "ota_env \<Rightarrow> CreateOtaJobOptions \<Rightarrow> ota_db \<Rightarrow> (uuid \<times> (uuid \<times> jsstring \<times> bool) list) otx" where
  "createOtaJob env o' d =
     rbind (ensure (oj_deviceIds o' \<noteq> []) OEmptyTargets) (\<lambda>_.
     rbind (ensure (distinct (oj_deviceIds o')) ODuplicateTargets) (\<lambda>_.
     rbind (ensure (\<not> length (oj_deviceIds o') > MAX_OTA_TARGETS) OTooManyTargets) (\<lambda>_.
     rbind (ensure (case find_release (oj_releaseId o') d of
                      None \<Rightarrow> False | Some r \<Rightarrow> fproject r = oj_projectId o') OReleaseNotInProject) (\<lambda>_.
     let devs = filter (\<lambda>x. did x \<in> set (oj_deviceIds o')) (o_devices d) in
     rbind (ensure (length devs = length (oj_deviceIds o')) OTargetNotFound) (\<lambda>_.
     rbind (ensure (list_all (\<lambda>x. dproject_id x = oj_projectId o') devs) OTargetNotInProject) (\<lambda>_.
     let job = ofresh env 0;
         running = already_running (resolveReleaseExpectedFirmware (oj_releaseId o') d) (oj_deviceIds o') d in
     rbind (insert_job \<lparr>jid = job, jproject = oj_projectId o', jrelease = oj_releaseId o',
                        jcreated_by = oj_createdBy o'\<rparr> d) (\<lambda>(_, d1).
     rbind (insert_targets (new_targets env job (onow env + oj_targetTtlSeconds o' * 1000) (map did devs)) d1) (\<lambda>(_, d2).
     rbind (complete_running env job running d2) (\<lambda>(_, d3).
       Inr ((job, map (\<lambda>x. (did x, device_uid x, did x \<in> set running)) devs),
            o_notify OTA_NOTIFY_CHANNEL job d3))))))))))"

section \<open>Expiry\<close>

definition OTA_EXPIRY_BATCH_SIZE :: nat where "OTA_EXPIRY_BATCH_SIZE = 1000"

definition lease_over :: "time \<Rightarrow> ota_target \<Rightarrow> bool" where
  "lease_over t x \<longleftrightarrow> (case tlease x of None \<Rightarrow> False | Some l \<Rightarrow> l \<le> t)"

definition ota_expirable :: "time \<Rightarrow> ota_target \<Rightarrow> bool" where
  "ota_expirable t x \<longleftrightarrow> texpires_at x < t \<and>
     (tstate x = OPending \<or> (tstate x = OLeased \<and> lease_over t x))"

text \<open>\<^verbatim>\<open>UPDATE ... WHERE id IN (SELECT id ... WHERE due LIMIT n) AND due\<close>.\<close>

definition update_batch ::
    "(ota_target \<Rightarrow> bool) \<Rightarrow> (ota_target \<Rightarrow> ota_target) \<Rightarrow> ota_db \<Rightarrow> nat otx" where
  "update_batch due f d =
     (let ids = map tid (take OTA_EXPIRY_BATCH_SIZE (filter due (ota_targets d))) in
      update_targets (\<lambda>x. tid x \<in> set ids \<and> due x) f d)"

definition expireOtaBatch :: "time \<Rightarrow> ota_db \<Rightarrow> nat otx" where
  "expireOtaBatch t = update_batch (ota_expirable t) (\<lambda>x. x\<lparr>tstate := OExpired, tlease := None\<rparr>)"

definition ota_stalled :: "time \<Rightarrow> int \<Rightarrow> ota_target \<Rightarrow> bool" where
  "ota_stalled t stallMinutes x \<longleftrightarrow> tstate x \<in> {ODelivered, ODelivering, ODownloaded} \<and>
     (case tdelivered_at x of None \<Rightarrow> False | Some a \<Rightarrow> a < t - stallMinutes * 60000)"

definition stallOtaBatch :: "time \<Rightarrow> int \<Rightarrow> ota_db \<Rightarrow> nat otx" where
  "stallOtaBatch t stallMinutes = update_batch (ota_stalled t stallMinutes)
     (\<lambda>x. x\<lparr>tstate := OFailed, tconfirmed_at := Some t, tresult_code := Some (-7),
            tresult_message := Some (js ''download window timeout'')\<rparr>)"

text \<open>A full batch moves at least one target out of the states it selects from.\<close>

lemma update_batch_measure:
  assumes "update_batch due f d = Inr (n, d')" and "\<not> n < OTA_EXPIRY_BATCH_SIZE"
    and "\<And>x. due x \<Longrightarrow> Q x" and "\<And>x. \<not> Q (f x)"
  shows "length (filter Q (ota_targets d')) < length (filter Q (ota_targets d))"
proof -
  define p where "p = (\<lambda>x. tid x \<in> set (map tid (take OTA_EXPIRY_BATCH_SIZE (filter due (ota_targets d)))) \<and> due x)"
  from assms(1) have n: "n = length (filter p (ota_targets d))"
    and d': "ota_targets d' = map (\<lambda>x. if p x then f x else x) (ota_targets d)"
    by (auto simp: update_batch_def update_targets_def p_def Let_def split: if_splits)
  have "length (filter p xs) + length (filter Q (map (\<lambda>x. if p x then f x else x) xs)) = length (filter Q xs)" for xs
    using assms(3,4) by (induction xs) (auto simp: p_def)
  from this [of "ota_targets d"] show ?thesis
    using assms(2) unfolding d' n OTA_EXPIRY_BATCH_SIZE_def by linarith
qed

function expireOtaTargets :: "(nat \<Rightarrow> time) \<Rightarrow> ota_db \<Rightarrow> (OtaError + nat) \<times> ota_db" where
  "expireOtaTargets clock d =
     (case expireOtaBatch (clock 0) d of
        Inl e \<Rightarrow> (Inl e, d)
      | Inr (affected, d') \<Rightarrow>
          if affected < OTA_EXPIRY_BATCH_SIZE then (Inr affected, d')
          else map_prod (map_sum id ((+) affected)) id (expireOtaTargets (\<lambda>i. clock (Suc i)) d'))"
  by pat_completeness auto
termination
proof (relation "measure (\<lambda>(_, d). length (filter (\<lambda>x. tstate x \<in> {OPending, OLeased}) (ota_targets d)))", goal_cases)
  case (2 clock d r n d')
  then have "expireOtaBatch (clock 0) d = Inr (n, d')" by simp
  from update_batch_measure [OF this [unfolded expireOtaBatch_def] 2(3), of "\<lambda>x. tstate x \<in> {OPending, OLeased}"]
  show ?case by (auto simp: ota_expirable_def)
qed simp

function expireStalledOtaTargets :: "(nat \<Rightarrow> time) \<Rightarrow> int \<Rightarrow> ota_db \<Rightarrow> (OtaError + nat) \<times> ota_db" where
  "expireStalledOtaTargets clock stallMinutes d =
     (case stallOtaBatch (clock 0) stallMinutes d of
        Inl e \<Rightarrow> (Inl e, d)
      | Inr (affected, d') \<Rightarrow>
          if affected < OTA_EXPIRY_BATCH_SIZE then (Inr affected, d')
          else map_prod (map_sum id ((+) affected)) id (expireStalledOtaTargets (\<lambda>i. clock (Suc i)) stallMinutes d'))"
  by pat_completeness auto
termination
proof (relation "measure (\<lambda>(_, _, d). length (filter (\<lambda>x. tstate x \<in> {ODelivered, ODelivering, ODownloaded}) (ota_targets d)))", goal_cases)
  case (2 clock m d r n d')
  then have "stallOtaBatch (clock 0) m d = Inr (n, d')" by simp
  from update_batch_measure [OF this [unfolded stallOtaBatch_def] 2(3),
      of "\<lambda>x. tstate x \<in> {ODelivered, ODelivering, ODownloaded}"]
  show ?case by (auto simp: ota_stalled_def)
qed simp

declare expireOtaTargets.simps [simp del] expireStalledOtaTargets.simps [simp del]


section \<open>Delivery\<close>

record LeasedOtaTarget =
  lo_id :: uuid
  lo_jobId :: uuid
  lo_deviceUid :: jsstring
  lo_releaseId :: uuid
  lo_projectId :: uuid
  lo_binHash :: jsstring
  lo_binSize :: int
  lo_version :: "jsstring option"

definition ota_leasable :: "time \<Rightarrow> ota_target \<Rightarrow> bool" where
  "ota_leasable t x \<longleftrightarrow> tavailable_at x \<le> t \<and> texpires_at x > t \<and>
     (tstate x = OPending \<or> (tstate x = OLeased \<and> lease_over t x))"

text \<open>The three inner joins of the claim, as the row it returns.\<close>

definition find_job :: "uuid \<Rightarrow> ota_db \<Rightarrow> ota_job option" where
  "find_job i d = find (\<lambda>j. jid j = i) (ota_jobs d)"

definition find_ota_device :: "uuid \<Rightarrow> ota_db \<Rightarrow> device option" where
  "find_ota_device i d = find (\<lambda>x. did x = i) (o_devices d)"

definition ota_lease_row :: "ota_db \<Rightarrow> ota_target \<Rightarrow> LeasedOtaTarget option" where
  "ota_lease_row d x =
     (case (find_ota_device (tdevice x) d, find_job (tjob x) d) of
        (Some dev, Some j) \<Rightarrow>
          (case find_release (jrelease j) d of
             None \<Rightarrow> None
           | Some r \<Rightarrow> Some \<lparr>lo_id = tid x, lo_jobId = jid j, lo_deviceUid = device_uid dev, lo_releaseId = fid r,
               lo_projectId = fproject r, lo_binHash = fbin_hash r, lo_binSize = fbin_size r, lo_version = fversion r\<rparr>)
      | _ \<Rightarrow> None)"

text \<open>\<^verbatim>\<open>ORDER BY t.created_at, t.id LIMIT 1 FOR UPDATE SKIP LOCKED\<close>: the first of the rows that no other
  transaction holds; \<open>locked\<close> is the set of target ids held.\<close>

definition ota_before :: "ota_target \<Rightarrow> ota_target \<Rightarrow> bool" where
  "ota_before x y \<longleftrightarrow> tcreated_at x < tcreated_at y \<or> (tcreated_at x = tcreated_at y \<and> tid x \<le> tid y)"

fun ota_first :: "ota_target list \<Rightarrow> ota_target option" where
  "ota_first [] = None"
| "ota_first (x # xs) = (case ota_first xs of None \<Rightarrow> Some x | Some y \<Rightarrow> Some (if ota_before x y then x else y))"

definition ota_candidates :: "time \<Rightarrow> uuid set \<Rightarrow> ota_db \<Rightarrow> ota_target list" where
  "ota_candidates t locked d =
     filter (\<lambda>x. ota_leasable t x \<and> ota_lease_row d x \<noteq> None \<and> tid x \<notin> locked) (ota_targets d)"

definition leaseNextOtaTarget ::
    "time \<Rightarrow> uuid set \<Rightarrow> int \<Rightarrow> ota_db \<Rightarrow> LeasedOtaTarget option otx" where
  "leaseNextOtaTarget t locked leaseDurationMs d =
     (case ota_first (ota_candidates t locked d) of
        None \<Rightarrow> Inr (None, d)
      | Some x \<Rightarrow>
          rbind (update_targets (\<lambda>y. tid y = tid x)
                   (\<lambda>y. y\<lparr>tstate := OLeased, tlease := Some (t + leaseDurationMs)\<rparr>) d) (\<lambda>(_, d').
            Inr (ota_lease_row d x, d')))"

definition markOtaTargetDelivered :: "time \<Rightarrow> uuid \<Rightarrow> ota_db \<Rightarrow> nat otx" where
  "markOtaTargetDelivered t targetId =
     update_targets (\<lambda>x. tid x = targetId \<and> tstate x = OLeased)
       (\<lambda>x. x\<lparr>tstate := ODelivered, tdelivered_at := Some t, tlease := None\<rparr>)"

definition releaseOtaTarget :: "time \<Rightarrow> uuid \<Rightarrow> int \<Rightarrow> ota_db \<Rightarrow> nat otx" where
  "releaseOtaTarget t targetId offlineRetryMs =
     update_targets (\<lambda>x. tid x = targetId \<and> tstate x = OLeased)
       (\<lambda>x. x\<lparr>tstate := OPending, tlease := None, tavailable_at := t + offlineRetryMs\<rparr>)"

section \<open>Acknowledgement and confirmation\<close>

definition OTA_RESULT_ACCEPTING_STATES :: "ota_state set" where
  "OTA_RESULT_ACCEPTING_STATES = {ODelivered, ODelivering, ODownloaded}"

definition device_by_uid :: "jsstring \<Rightarrow> ota_db \<Rightarrow> device option" where
  "device_by_uid uid d = find (\<lambda>x. device_uid x = uid) (o_devices d)"

definition markOtaTargetDelivering :: "uuid \<Rightarrow> jsstring \<Rightarrow> ota_db \<Rightarrow> nat otx" where
  "markOtaTargetDelivering jobId devUid d =
     (case device_by_uid devUid d of
        None \<Rightarrow> Inr (0, d)
      | Some dev \<Rightarrow>
          update_targets (\<lambda>x. tjob x = jobId \<and> tdevice x = did dev \<and> tstate x = ODelivered)
            (\<lambda>x. x\<lparr>tstate := ODelivering\<rparr>) d)"

datatype ota_ack = AckDownloaded | AckInstalled | AckFailed

record RecordOtaResultInput =
  ro_deviceUid :: jsstring
  ro_jobId :: uuid
  ro_releaseId :: uuid
  ro_state :: ota_ack
  ro_code :: int
  ro_message :: "jsstring option"

definition recordOtaResult :: "time \<Rightarrow> RecordOtaResultInput \<Rightarrow> ota_db \<Rightarrow> nat otx" where
  "recordOtaResult t i d =
     (case device_by_uid (ro_deviceUid i) d of
        None \<Rightarrow> Inr (0, d)
      | Some dev \<Rightarrow>
          (case find (\<lambda>x. tjob x = ro_jobId i \<and> tdevice x = did dev) (ota_targets d) of
             None \<Rightarrow> Inr (0, d)
           | Some target \<Rightarrow>
               if map_option jrelease (find_job (tjob target) d) \<noteq> Some (ro_releaseId i) then Inr (0, d)
               else if ro_state i = AckFailed then
                 update_targets (\<lambda>x. tid x = tid target \<and> tstate x \<in> OTA_RESULT_ACCEPTING_STATES)
                   (\<lambda>x. x\<lparr>tstate := OFailed, tconfirmed_at := Some t,
                         tresult_code := Some (if ro_code i < 0 then ro_code i else -5),
                         tresult_message := ro_message i\<rparr>) d
               else if ro_state i = AckInstalled then
                 update_targets (\<lambda>x. tid x = tid target \<and> tstate x \<in> {ODelivered, ODelivering, ODownloaded})
                   (\<lambda>x. x\<lparr>tstate := OInstalled, tinstalled_at := Some t\<rparr>) d
               else
                 update_targets (\<lambda>x. tid x = tid target \<and> tstate x \<in> {ODelivered, ODelivering})
                   (\<lambda>x. x\<lparr>tstate := ODownloaded\<rparr>) d))"

text \<open>The SQL predicate over the joins: the build id of the artifact row when there is one, the hash of
  the binary otherwise.\<close>

definition release_matches :: "ota_db \<Rightarrow> firmware_release \<Rightarrow> jsstring \<Rightarrow> bool" where
  "release_matches d r fwHash \<longleftrightarrow>
     (case Option.bind (fartifact r) (\<lambda>a. find_artifact a d) of
        Some a \<Rightarrow> abuild_id a = fwHash
      | None \<Rightarrow> fbin_hash r = fwHash)"

definition job_matches :: "ota_db \<Rightarrow> uuid \<Rightarrow> jsstring \<Rightarrow> bool" where
  "job_matches d job fwHash \<longleftrightarrow>
     (case Option.bind (find_job job d) (\<lambda>j. find_release (jrelease j) d) of
        Some r \<Rightarrow> release_matches d r fwHash
      | None \<Rightarrow> False)"

definition confirmOtaTargetByFirmware :: "time \<Rightarrow> uuid \<Rightarrow> jsstring \<Rightarrow> ota_db \<Rightarrow> nat otx" where
  "confirmOtaTargetByFirmware t deviceId fwHash d =
     update_targets (\<lambda>x. tdevice x = deviceId \<and>
         tstate x \<in> {ODelivered, ODelivering, ODownloaded, OInstalled} \<and> job_matches d (tjob x) fwHash)
       (completed_target t) d"

end
