(* ===== verification/OtaTargets.thy ===== *)
theory OtaTargets
  imports OtaDeploy
begin

text \<open>
  Correctness of the delivery state machine of \<^verbatim>\<open>packages/core/src/ota/deploy.ts\<close>. Every operation moves
  a target along an edge of \<open>ota_edge\<close>, no operation is rejected by a CHECK constraint, the batched
  expiry loops do their whole work, and the two ways the code identifies the firmware of a release
  agree.
\<close>

section \<open>Invariant and progress\<close>

text \<open>Unique and foreign keys, and the CHECK constraints of \<^verbatim>\<open>ota_targets\<close>.\<close>

definition catalog_ok :: "ota_db \<Rightarrow> bool" where
  "catalog_ok d \<longleftrightarrow> distinct (map did (o_devices d)) \<and> distinct (map device_uid (o_devices d)) \<and>
     distinct (map fid (releases d)) \<and> distinct (map aid (artifacts d)) \<and>
     (\<forall>r \<in> set (releases d). \<forall>a \<in> set_option (fartifact r). a \<in> aid ` set (artifacts d)) \<and>
     distinct (map jid (ota_jobs d)) \<and> (\<forall>j \<in> set (ota_jobs d). jrelease j \<in> fid ` set (releases d))"

definition targets_ok :: "ota_db \<Rightarrow> bool" where
  "targets_ok d \<longleftrightarrow> distinct (map tid (ota_targets d)) \<and>
     (\<forall>x \<in> set (ota_targets d). target_check x \<and> tjob x \<in> jid ` set (ota_jobs d) \<and> tdevice x \<in> did ` set (o_devices d))"

definition ota_inv :: "ota_db \<Rightarrow> bool" where
  "ota_inv d \<longleftrightarrow> catalog_ok d \<and> targets_ok d"

text \<open>The edges of the target state machine.\<close>

inductive ota_edge :: "ota_state \<Rightarrow> ota_state \<Rightarrow> bool" where
  lease: "s \<in> {OPending, OLeased} \<Longrightarrow> ota_edge s OLeased"
| release: "ota_edge OLeased OPending"
| expire: "s \<in> {OPending, OLeased} \<Longrightarrow> ota_edge s OExpired"
| deliver: "ota_edge OLeased ODelivered"
| download: "ota_edge ODelivered ODelivering"
| downloaded: "s \<in> {ODelivered, ODelivering} \<Longrightarrow> ota_edge s ODownloaded"
| installed: "s \<in> {ODelivered, ODelivering, ODownloaded} \<Longrightarrow> ota_edge s OInstalled"
| failed: "s \<in> {ODelivered, ODelivering, ODownloaded, OInstalled} \<Longrightarrow> ota_edge s OFailed"
| completed: "s \<in> {ODelivered, ODelivering, ODownloaded, OInstalled} \<Longrightarrow> ota_edge s OCompleted"

inductive_simps ota_edge_simps [simp]:
  "ota_edge s OPending" "ota_edge s OLeased" "ota_edge s OExpired" "ota_edge s ODelivered"
  "ota_edge s ODelivering" "ota_edge s ODownloaded" "ota_edge s OInstalled" "ota_edge s OFailed"
  "ota_edge s OCompleted"

definition tkey :: "ota_target \<Rightarrow> uuid \<times> uuid \<times> uuid \<times> time \<times> time" where
  "tkey x = (tid x, tjob x, tdevice x, texpires_at x, tcreated_at x)"

definition moved :: "ota_target \<Rightarrow> ota_target \<Rightarrow> bool" where
  "moved x y \<longleftrightarrow> y = x \<or> (tkey y = tkey x \<and> ota_edge (tstate x) (tstate y))"

text \<open>Old targets keep their place and move along an edge; new ones wait, or are completed when the
  device already runs the firmware.\<close>

definition targets_progress :: "ota_target list \<Rightarrow> ota_target list \<Rightarrow> bool" where
  "targets_progress xs ys \<longleftrightarrow> (\<exists>old new. ys = old @ new \<and> list_all2 moved xs old \<and>
     (\<forall>y \<in> set new. tstate y \<in> {OPending, OCompleted}))"

definition progress :: "ota_db \<Rightarrow> ota_db \<Rightarrow> bool" where
  "progress d d' \<longleftrightarrow> targets_progress (ota_targets d) (ota_targets d')"

definition same_catalog :: "ota_db \<Rightarrow> ota_db \<Rightarrow> bool" where
  "same_catalog d d' \<longleftrightarrow> o_devices d' = o_devices d \<and> releases d' = releases d \<and> artifacts d' = artifacts d \<and>
     ota_jobs d' = ota_jobs d"

definition good :: "ota_db \<Rightarrow> ota_db \<Rightarrow> bool" where
  "good d d' \<longleftrightarrow> ota_inv d' \<and> progress d d'"

lemma moved_refl [simp]: "moved x x"
  by (simp add: moved_def)

lemma movedD: "moved x y \<Longrightarrow> tid y = tid x \<and> tjob y = tjob x \<and> tdevice y = tdevice x"
  by (auto simp: moved_def tkey_def)

lemma targets_progress_refl [simp]: "targets_progress xs xs"
  by (auto simp: targets_progress_def list_all2_same intro: exI [of _ xs] exI [of _ "[]"])

lemma progress_refl [simp]: "progress d d"
  by (simp add: progress_def)

lemma good_refl: "ota_inv d \<Longrightarrow> good d d"
  by (simp add: good_def)

lemma catalog_ok_same: "same_catalog d d' \<Longrightarrow> catalog_ok d' = catalog_ok d"
  by (simp add: catalog_ok_def same_catalog_def)

lemma good_cong:
  assumes "good d d'" and "same_catalog d' d''" and "ota_targets d'' = ota_targets d'"
  shows "good d d''"
  using assms by (simp add: good_def ota_inv_def targets_ok_def progress_def catalog_ok_same)
    (simp add: same_catalog_def)

section \<open>Updates\<close>

lemma update_targets_Inr:
  "update_targets p f d = Inr (n, d') \<longleftrightarrow>
     (\<forall>x \<in> set (ota_targets d). p x \<longrightarrow> target_check (f x)) \<and> n = length (filter p (ota_targets d)) \<and>
     d' = d\<lparr>ota_targets := map (\<lambda>x. if p x then f x else x) (ota_targets d)\<rparr>"
  by (auto simp: update_targets_def list_all_iff)

lemma update_targets_ok:
  assumes "\<And>x. x \<in> set (ota_targets d) \<Longrightarrow> p x \<Longrightarrow> target_check (f x)"
  shows "update_targets p f d =
    Inr (length (filter p (ota_targets d)), d\<lparr>ota_targets := map (\<lambda>x. if p x then f x else x) (ota_targets d)\<rparr>)"
  using assms by (simp add: update_targets_Inr)

lemma list_all2_moved_map:
  assumes "\<And>x. x \<in> set xs \<Longrightarrow> p x \<Longrightarrow> tkey (f x) = tkey x \<and> ota_edge (tstate x) (tstate (f x))"
  shows "list_all2 moved xs (map (\<lambda>x. if p x then f x else x) xs)"
  using assms by (auto simp: list_all2_conv_all_nth moved_def)

lemma moved_keys:
  assumes "list_all2 moved xs ys"
  shows "map tid ys = map tid xs"
  using assms by (induction rule: list_all2_induct) (auto dest: movedD)

lemma good_update:
  assumes inv: "ota_inv d" and up: "update_targets p f d = Inr (n, d')"
    and edge: "\<And>x. x \<in> set (ota_targets d) \<Longrightarrow> p x \<Longrightarrow> tkey (f x) = tkey x \<and> ota_edge (tstate x) (tstate (f x))"
  shows "good d d'"
proof -
  let ?ys = "map (\<lambda>x. if p x then f x else x) (ota_targets d)"
  have d': "d' = d\<lparr>ota_targets := ?ys\<rparr>" and ck: "\<forall>x \<in> set (ota_targets d). p x \<longrightarrow> target_check (f x)"
    using up by (simp_all add: update_targets_Inr)
  have m: "list_all2 moved (ota_targets d) ?ys"
    using edge by (rule list_all2_moved_map)
  have "target_check y \<and> tjob y \<in> jid ` set (ota_jobs d) \<and> tdevice y \<in> did ` set (o_devices d)"
    if "y \<in> set ?ys" for y
  proof -
    from that obtain x where x: "x \<in> set (ota_targets d)" "y = (if p x then f x else x)" by auto
    then have "tjob y = tjob x" "tdevice y = tdevice x" using edge [of x] by (auto simp: tkey_def)
    moreover have "target_check x" "tjob x \<in> jid ` set (ota_jobs d)" "tdevice x \<in> did ` set (o_devices d)"
      using inv x by (auto simp: ota_inv_def targets_ok_def)
    ultimately show ?thesis using x ck by simp
  qed
  moreover have "distinct (map tid ?ys)"
    unfolding moved_keys [OF m] using inv by (simp add: ota_inv_def targets_ok_def)
  ultimately have "targets_ok d'"
    by (simp add: targets_ok_def d' del: set_map map_map)
  moreover have "progress d d'"
    using m by (auto simp: progress_def targets_progress_def d' intro: exI [of _ ?ys] exI [of _ "[]"])
  ultimately show ?thesis
    using inv by (simp add: good_def ota_inv_def d' catalog_ok_def)
qed

text \<open>An operation that succeeds, moves targets along edges and keeps everything else.\<close>

definition succeeds :: "ota_db \<Rightarrow> 'a otx \<Rightarrow> bool" where
  "succeeds d r \<longleftrightarrow> (\<exists>v d'. r = Inr (v, d') \<and> good d d' \<and> same_catalog d d')"

lemma succeeds_update:
  assumes "ota_inv d"
    and "\<And>x. x \<in> set (ota_targets d) \<Longrightarrow> target_check x \<Longrightarrow> p x \<Longrightarrow>
      target_check (f x) \<and> tkey (f x) = tkey x \<and> ota_edge (tstate x) (tstate (f x))"
  shows "succeeds d (update_targets p f d)"
proof -
  have ck: "target_check x" if "x \<in> set (ota_targets d)" for x
    using assms(1) that by (simp add: ota_inv_def targets_ok_def)
  note up = update_targets_ok [of d p f, OF assms(2) [THEN conjunct1, OF _ ck]]
  have "good d (d\<lparr>ota_targets := map (\<lambda>x. if p x then f x else x) (ota_targets d)\<rparr>)"
    by (rule good_update [OF assms(1) up]) (use assms(2) ck in auto)
  then show ?thesis by (auto simp: succeeds_def up same_catalog_def)
qed

lemma succeeds_return: "ota_inv d \<Longrightarrow> succeeds d (Inr (v, d))"
  by (simp add: succeeds_def good_refl same_catalog_def)

lemma succeeds_rbind:
  assumes "succeeds d m" and "\<And>v d'. m = Inr (v, d') \<Longrightarrow> good d d' \<Longrightarrow> k (v, d') = Inr (w v, d')"
  shows "succeeds d (rbind m k)"
  using assms by (auto simp: succeeds_def)

lemmas check_simps = target_check_def tkey_def

lemma markOtaTargetDelivered_ok: "ota_inv d \<Longrightarrow> succeeds d (markOtaTargetDelivered t i d)"
  unfolding markOtaTargetDelivered_def by (erule succeeds_update) (simp add: check_simps)

lemma releaseOtaTarget_ok: "ota_inv d \<Longrightarrow> succeeds d (releaseOtaTarget t i ms d)"
  unfolding releaseOtaTarget_def by (erule succeeds_update) (simp add: check_simps)

lemma markOtaTargetDelivering_ok: "ota_inv d \<Longrightarrow> succeeds d (markOtaTargetDelivering j u d)"
  unfolding markOtaTargetDelivering_def
  by (cases "device_by_uid u d") (auto simp only: option.case intro!: succeeds_return succeeds_update,
      simp_all add: check_simps)

text \<open>A failure, and every other intermediate step, from a state that accepts it.\<close>

lemma fail_ok:
  assumes "target_check x" and "tstate x \<in> {ODelivered, ODelivering, ODownloaded, OInstalled}" and "c < 0"
    and "y = x\<lparr>tstate := OFailed, tconfirmed_at := Some t, tresult_code := Some c, tresult_message := m\<rparr>"
  shows "target_check y \<and> tkey y = tkey x \<and> ota_edge (tstate x) (tstate y)"
  using assms by (cases "tstate x") (simp_all add: check_simps)

lemma complete_ok:
  assumes "target_check x" and "tstate x \<in> {ODelivered, ODelivering, ODownloaded, OInstalled}"
  shows "target_check (completed_target t x) \<and> tkey (completed_target t x) = tkey x \<and>
    ota_edge (tstate x) (tstate (completed_target t x))"
  using assms by (cases "tstate x") (simp_all add: check_simps completed_target_def)

lemma advance_ok:
  assumes "target_check x" and "tstate x \<in> {ODelivered, ODelivering}"
  shows "target_check (x\<lparr>tstate := ODownloaded\<rparr>) \<and> tkey (x\<lparr>tstate := ODownloaded\<rparr>) = tkey x \<and>
    ota_edge (tstate x) (tstate (x\<lparr>tstate := ODownloaded\<rparr>))"
  using assms by (cases "tstate x") (simp_all add: check_simps)

lemma install_ok:
  assumes "target_check x" and "tstate x \<in> {ODelivered, ODelivering, ODownloaded}"
    and "y = x\<lparr>tstate := OInstalled, tinstalled_at := Some t\<rparr>"
  shows "target_check y \<and> tkey y = tkey x \<and> ota_edge (tstate x) (tstate y)"
  using assms by (cases "tstate x") (simp_all add: check_simps)

lemma expire_ok:
  assumes "target_check x" and "ota_expirable t x" and "y = x\<lparr>tstate := OExpired, tlease := None\<rparr>"
  shows "target_check y \<and> tkey y = tkey x \<and> ota_edge (tstate x) (tstate y)"
  using assms by (cases "tstate x") (simp_all add: check_simps ota_expirable_def)

lemma lease_ok:
  assumes "target_check x" and "ota_leasable t x"
  shows "target_check (x\<lparr>tstate := OLeased, tlease := Some l\<rparr>) \<and> tkey (x\<lparr>tstate := OLeased, tlease := Some l\<rparr>) = tkey x \<and>
    ota_edge (tstate x) (tstate (x\<lparr>tstate := OLeased, tlease := Some l\<rparr>))"
  using assms by (cases "tstate x") (simp_all add: check_simps ota_leasable_def)

lemma recordOtaResult_ok:
  assumes "ota_inv d"
  shows "succeeds d (recordOtaResult t i d)"
proof -
  have 1: "succeeds d (update_targets (\<lambda>x. tid x = k \<and> tstate x \<in> OTA_RESULT_ACCEPTING_STATES)
      (\<lambda>x. x\<lparr>tstate := OFailed, tconfirmed_at := Some t,
         tresult_code := Some (if ro_code i < 0 then ro_code i else -5), tresult_message := ro_message i\<rparr>) d)" for k
    using assms by (rule succeeds_update) (rule fail_ok; auto simp: OTA_RESULT_ACCEPTING_STATES_def)
  have 2: "succeeds d (update_targets (\<lambda>x. tid x = k \<and> tstate x \<in> {ODelivered, ODelivering, ODownloaded})
      (\<lambda>x. x\<lparr>tstate := OInstalled, tinstalled_at := Some t\<rparr>) d)" for k
    using assms by (rule succeeds_update) (rule install_ok; simp)
  have 3: "succeeds d (update_targets (\<lambda>x. tid x = k \<and> tstate x \<in> {ODelivered, ODelivering})
      (\<lambda>x. x\<lparr>tstate := ODownloaded\<rparr>) d)" for k
    using assms by (rule succeeds_update) (rule advance_ok; simp)
  show ?thesis
    unfolding recordOtaResult_def using 1 2 3 succeeds_return [OF assms] by (auto split: option.split if_split)
qed

lemma confirmOtaTargetByFirmware_ok: "ota_inv d \<Longrightarrow> succeeds d (confirmOtaTargetByFirmware t i h d)"
  unfolding confirmOtaTargetByFirmware_def by (erule succeeds_update) (rule complete_ok; simp)

lemma expireOtaBatch_ok: "ota_inv d \<Longrightarrow> succeeds d (expireOtaBatch t d)"
  unfolding expireOtaBatch_def update_batch_def Let_def
  by (erule succeeds_update) (rule expire_ok [where t = t]; simp)

lemma stallOtaBatch_ok: "ota_inv d \<Longrightarrow> succeeds d (stallOtaBatch t m d)"
  unfolding stallOtaBatch_def update_batch_def Let_def
  by (erule succeeds_update) (rule fail_ok; auto simp: ota_stalled_def)

section \<open>Leases\<close>

lemma ota_before_trans: "ota_before x y \<Longrightarrow> ota_before y z \<Longrightarrow> ota_before x z"
  by (auto simp: ota_before_def)

lemma ota_before_total: "ota_before x y \<or> ota_before y x"
  by (auto simp: ota_before_def)

lemma ota_first_Some:
  "ota_first xs = Some x \<Longrightarrow> x \<in> set xs \<and> (\<forall>y \<in> set xs. ota_before x y)"
proof (induction xs arbitrary: x)
  case (Cons a xs)
  show ?case
  proof (cases "ota_first xs")
    case None
    then have "xs = []" by (cases xs) (auto split: option.splits)
    with Cons show ?thesis using ota_before_total [of a a] by auto
  next
    case (Some y)
    with Cons have "y \<in> set xs" "\<forall>z \<in> set xs. ota_before y z" "x = (if ota_before a y then a else y)" by auto
    then show ?thesis
      using ota_before_total [of a a] ota_before_total [of a y] ota_before_trans [of a y]
      by (simp split: if_splits)
  qed
qed simp

lemma ota_first_None [simp]: "ota_first xs = None \<longleftrightarrow> xs = []"
  by (cases xs) (auto split: option.splits)

lemma tid_unique:
  assumes "ota_inv d" and "x \<in> set (ota_targets d)" and "y \<in> set (ota_targets d)" and "tid x = tid y"
  shows "x = y"
  using assms by (auto simp: ota_inv_def targets_ok_def distinct_map dest: inj_onD)

lemma leaseNextOtaTarget_ok:
  assumes "ota_inv d"
  shows "succeeds d (leaseNextOtaTarget t locked ms d)"
proof (cases "ota_first (ota_candidates t locked d)")
  case None
  then show ?thesis using assms by (simp add: leaseNextOtaTarget_def succeeds_return del: ota_first_None)
next
  case (Some x)
  then have x: "x \<in> set (ota_targets d)" "ota_leasable t x"
    by (auto simp: ota_candidates_def dest: ota_first_Some)
  have "succeeds d (update_targets (\<lambda>y. tid y = tid x) (\<lambda>y. y\<lparr>tstate := OLeased, tlease := Some (t + ms)\<rparr>) d)"
    using assms by (rule succeeds_update) (rule lease_ok [where t = t]; use tid_unique [OF assms] x in blast)
  then show ?thesis
    by (auto simp: leaseNextOtaTarget_def Some succeeds_def)
qed


section \<open>Creation\<close>

lemma completed_target_ok:
  "target_check x \<Longrightarrow> tstate x = OPending \<Longrightarrow> target_check (completed_target t x)"
  by (simp add: target_check_def completed_target_def)

lemma completed_target_simps [simp]:
  "tid (completed_target t x) = tid x" "tjob (completed_target t x) = tjob x"
  "tdevice (completed_target t x) = tdevice x" "tstate (completed_target t x) = OCompleted"
  by (simp_all add: completed_target_def)

definition settle :: "time \<Rightarrow> uuid list \<Rightarrow> ota_target \<Rightarrow> ota_target" where
  "settle t running x = (if tdevice x \<in> set running \<and> tstate x = OPending then completed_target t x else x)"

lemma settle_simps [simp]:
  "tid (settle t r x) = tid x" "tjob (settle t r x) = tjob x" "tdevice (settle t r x) = tdevice x"
  by (simp_all add: settle_def)

lemma settle_check: "target_check x \<Longrightarrow> target_check (settle t r x)"
  by (simp add: settle_def completed_target_ok)

lemma settle_Nil [simp]: "settle t [] = id"
  by (auto simp: settle_def)

text \<open>A job with its targets: they are appended, and completed where the device already runs the firmware.\<close>

lemma complete_running_new:
  assumes "ota_targets d = old @ ts"
    and "\<And>x. x \<in> set old \<Longrightarrow> tjob x \<noteq> job" and "\<And>x. x \<in> set ts \<Longrightarrow> tjob x = job \<and> target_check x"
  shows "complete_running env job running d = Inr ((), d\<lparr>ota_targets := old @ map (settle (onow env) running) ts\<rparr>)"
proof (cases "running = []")
  case True
  then show ?thesis using assms(1) by (simp add: complete_running_def)
next
  case False
  let ?p = "\<lambda>x. tjob x = job \<and> tdevice x \<in> set running \<and> tstate x = OPending"
  have "update_targets ?p (completed_target (onow env)) d =
    Inr (length (filter ?p (ota_targets d)),
      d\<lparr>ota_targets := map (\<lambda>x. if ?p x then completed_target (onow env) x else x) (ota_targets d)\<rparr>)"
    by (rule update_targets_ok) (use assms completed_target_ok in auto)
  moreover have "map (\<lambda>x. if ?p x then completed_target (onow env) x else x) (ota_targets d)
      = old @ map (settle (onow env) running) ts"
    using assms by (auto simp: settle_def intro!: map_idI)
  ultimately show ?thesis using False by (simp add: complete_running_def)
qed

lemma insert_job_Inr:
  "insert_job j d = Inr (u, d') \<longleftrightarrow> jid j \<notin> jid ` set (ota_jobs d) \<and> jrelease j \<in> fid ` set (releases d) \<and>
     d' = d\<lparr>ota_jobs := ota_jobs d @ [j]\<rparr>"
  by (auto simp: insert_job_def)

lemma insert_targets_Inr:
  "insert_targets ts d = Inr (u, d') \<longleftrightarrow> (\<forall>x \<in> set ts. target_check x) \<and> distinct (map tid (ota_targets d @ ts)) \<and>
     (\<forall>x \<in> set ts. tjob x \<in> jid ` set (ota_jobs d) \<and> tdevice x \<in> did ` set (o_devices d)) \<and>
     d' = d\<lparr>ota_targets := ota_targets d @ ts\<rparr>"
  by (auto simp: insert_targets_def list_all_iff)

lemma good_append:
  assumes inv: "ota_inv d" and job: "jid j \<notin> jid ` set (ota_jobs d)" "jrelease j \<in> fid ` set (releases d)"
    and d': "d' = d\<lparr>ota_jobs := ota_jobs d @ [j], ota_targets := ota_targets d @ ts\<rparr>"
    and ts: "distinct (map tid (ota_targets d @ ts))"
    and new: "\<And>x. x \<in> set ts \<Longrightarrow> target_check x \<and> tjob x = jid j \<and> tdevice x \<in> did ` set (o_devices d) \<and>
      tstate x \<in> {OPending, OCompleted}"
  shows "good d d'"
proof -
  have "ota_inv d'"
    using inv job ts new unfolding d' by (auto simp: ota_inv_def catalog_ok_def targets_ok_def)
  moreover have "progress d d'"
    unfolding progress_def targets_progress_def
    using new by (intro exI [of _ "ota_targets d"] exI [of _ ts]) (simp add: d' list_all2_same)
  ultimately show ?thesis by (simp add: good_def)
qed

lemma old_targets_job:
  assumes "ota_inv d" and "job \<notin> jid ` set (ota_jobs d)" and "x \<in> set (ota_targets d)"
  shows "tjob x \<noteq> job"
  using assms by (auto simp: ota_inv_def targets_ok_def)

text \<open>The three statements together.\<close>

lemma create_settled:
  assumes inv: "ota_inv d" and j: "insert_job j d = Inr (u, d1)" and t: "insert_targets ts d1 = Inr (v, d2)"
    and ts: "\<And>x. x \<in> set ts \<Longrightarrow> tjob x = jid j \<and> tstate x = OPending"
    and d3: "d3 = d\<lparr>ota_jobs := ota_jobs d @ [j], ota_targets := ota_targets d @ map (settle (onow env) running) ts\<rparr>"
  shows "complete_running env (jid j) running d2 = Inr ((), d3)" and "good d d3"
proof -
  note j' = j [unfolded insert_job_Inr] and t' = t [unfolded insert_targets_Inr]
  have d1: "d1 = d\<lparr>ota_jobs := ota_jobs d @ [j]\<rparr>" using j' by simp
  have d2: "d2 = d\<lparr>ota_jobs := ota_jobs d @ [j], ota_targets := ota_targets d @ ts\<rparr>"
    using t' by (simp add: d1)
  have "ota_targets d2 = ota_targets d @ ts" by (simp add: d2)
  from complete_running_new [OF this old_targets_job [OF inv] , of "jid j" env running] j' t' ts
  show "complete_running env (jid j) running d2 = Inr ((), d3)" by (simp add: d2 d3)
  have "distinct (map tid (ota_targets d @ map (settle (onow env) running) ts))"
    using t' by (simp add: d1 comp_def)
  then show "good d d3"
    using inv j' t' ts by (intro good_append [OF inv _ _ d3]) (auto simp: d1 settle_check, auto simp: settle_def)
qed

lemma new_target_simps [simp]:
  "tid (new_target env job e i dev) = ofresh env (Suc i)" "tjob (new_target env job e i dev) = job"
  "tdevice (new_target env job e i dev) = dev" "tstate (new_target env job e i dev) = OPending"
  "texpires_at (new_target env job e i dev) = e" "target_check (new_target env job e i dev)"
  by (simp_all add: new_target_def target_check_def)

lemma new_targets_keys:
  "map tdevice (new_targets env job e devs) = devs"
  "map tid (new_targets env job e devs) = map (\<lambda>i. ofresh env (Suc i)) [0..<length devs]"
  by (rule nth_equalityI; simp add: new_targets_def)+

lemma new_targets_row:
  assumes "x \<in> set (new_targets env job e devs)"
  shows "tjob x = job" "tstate x = OPending" "target_check x" "texpires_at x = e" "tdevice x \<in> set devs"
  using assms by (auto simp: new_targets_def dest: set_zip_rightD)

lemma createOtaJob_Inr:
  assumes inv: "ota_inv d" and c: "createOtaJob env o' d = Inr ((job, devs), d')"
  obtains ts where
    "ota_targets d' = ota_targets d @ map (settle (onow env)
       (already_running (resolveReleaseExpectedFirmware (oj_releaseId o') d) (oj_deviceIds o') d)) ts"
    "ts = new_targets env job (onow env + oj_targetTtlSeconds o' * 1000) (map did (filter (\<lambda>x. did x \<in> set (oj_deviceIds o')) (o_devices d)))"
    "distinct (oj_deviceIds o')" "oj_deviceIds o' \<noteq> []"
    "length (filter (\<lambda>x. did x \<in> set (oj_deviceIds o')) (o_devices d)) = length (oj_deviceIds o')"
    "\<And>x. x \<in> set (o_devices d) \<Longrightarrow> did x \<in> set (oj_deviceIds o') \<Longrightarrow> dproject_id x = oj_projectId o'"
    "ota_jobs d' = ota_jobs d @ [\<lparr>jid = job, jproject = oj_projectId o', jrelease = oj_releaseId o', jcreated_by = oj_createdBy o'\<rparr>]"
    "good d d'"
proof -
  let ?devs = "filter (\<lambda>x. did x \<in> set (oj_deviceIds o')) (o_devices d)"
  let ?run = "already_running (resolveReleaseExpectedFirmware (oj_releaseId o') d) (oj_deviceIds o') d"
  let ?j = "\<lparr>jid = ofresh env 0, jproject = oj_projectId o', jrelease = oj_releaseId o', jcreated_by = oj_createdBy o'\<rparr>"
  let ?ts = "new_targets env (ofresh env 0) (onow env + oj_targetTtlSeconds o' * 1000) (map did ?devs)"
  from c obtain d1 d2 d3 where g: "oj_deviceIds o' \<noteq> []" "distinct (oj_deviceIds o')"
      "length ?devs = length (oj_deviceIds o')" "list_all (\<lambda>x. dproject_id x = oj_projectId o') ?devs"
    and s: "insert_job ?j d = Inr ((), d1)" "insert_targets ?ts d1 = Inr ((), d2)"
      "complete_running env (ofresh env 0) ?run d2 = Inr ((), d3)"
    and r: "job = ofresh env 0" "d' = o_notify OTA_NOTIFY_CHANNEL (ofresh env 0) d3"
    unfolding createOtaJob_def Let_def by (auto simp: rbind_eq_Inr)
  have ts: "tjob x = jid ?j \<and> tstate x = OPending" if "x \<in> set ?ts" for x
    using new_targets_row [OF that] by simp
  note cs = create_settled [OF inv s(1,2) ts refl, of env ?run]
  from cs(1) s(3) have d3: "d3 = d\<lparr>ota_jobs := ota_jobs d @ [?j], ota_targets := ota_targets d @ map (settle (onow env) ?run) ?ts\<rparr>"
    by simp
  have "good d d'"
    using cs(2) unfolding d3 [symmetric] r(2) by (rule good_cong) (simp_all add: same_catalog_def o_notify_def)
  show ?thesis
    by (rule that [of ?ts]) (use g \<open>good d d'\<close> in \<open>simp_all add: r d3 o_notify_def list_all_iff\<close>)
qed

section \<open>Expiry loops\<close>

text \<open>A loop of batched updates: what is due stays due, an updated row is never due again.\<close>

locale batch_loop =
  fixes due :: "time \<Rightarrow> ota_target \<Rightarrow> bool"
    and f :: "time \<Rightarrow> ota_target \<Rightarrow> ota_target"
    and open' :: "ota_target \<Rightarrow> bool"
    and loop :: "(nat \<Rightarrow> time) \<Rightarrow> ota_db \<Rightarrow> (OtaError + nat) \<times> ota_db"
  assumes loop_unfold: "loop clock d =
      (case update_batch (due (clock 0)) (f (clock 0)) d of
         Inl e \<Rightarrow> (Inl e, d)
       | Inr (affected, d') \<Rightarrow>
           if affected < OTA_EXPIRY_BATCH_SIZE then (Inr affected, d')
           else map_prod (map_sum id ((+) affected)) id (loop (\<lambda>i. clock (Suc i)) d'))"
    and due_mono: "t \<le> t' \<Longrightarrow> due t x \<Longrightarrow> due t' x"
    and f_check: "target_check x \<Longrightarrow> due t x \<Longrightarrow> target_check (f t x)"
    and f_tid: "tid (f t x) = tid x"
    and due_open: "due t x \<Longrightarrow> open' x"
    and f_closed: "\<not> open' (f t x)"
begin

definition handled :: "(nat \<Rightarrow> time) \<Rightarrow> ota_target \<Rightarrow> ota_target \<Rightarrow> bool" where
  "handled clock x y \<longleftrightarrow> (y = x \<and> \<not> due (clock 0) x) \<or> (\<exists>i. due (clock i) x \<and> y = f (clock i) x)"

lemma batch_count:
  assumes "distinct (map tid xs)"
  shows "length (filter (\<lambda>x. tid x \<in> set (map tid (take m (filter q xs))) \<and> q x) xs) = min m (length (filter q xs))"
proof -
  have inj: "inj_on tid (set xs)" and "distinct xs" using assms by (auto simp: distinct_map)
  have "set (filter (\<lambda>x. tid x \<in> set (map tid (take m (filter q xs))) \<and> q x) xs) = set (take m (filter q xs))"
    using inj set_take_subset [of m "filter q xs"] by (fastforce dest: inj_onD)
  then have "card (set (filter (\<lambda>x. tid x \<in> set (map tid (take m (filter q xs))) \<and> q x) xs))
      = card (set (take m (filter q xs)))" by (rule arg_cong)
  then show ?thesis
    using \<open>distinct xs\<close> by (simp add: distinct_card min.commute del: set_filter)
qed

lemma batch_all:
  assumes "length (filter (\<lambda>x. tid x \<in> set (map tid (take m (filter q xs))) \<and> q x) xs) < m"
    and "distinct (map tid xs)" and "x \<in> set xs"
  shows "tid x \<in> set (map tid (take m (filter q xs))) \<and> q x \<longleftrightarrow> q x"
proof -
  have "take m (filter q xs) = filter q xs"
    using assms(1) batch_count [OF assms(2), of m q] by (simp add: min_def split: if_splits)
  with assms(3) show ?thesis by auto
qed

lemma loop_complete:
  assumes "mono clock" and "\<forall>x \<in> set (ota_targets d). target_check x" and "distinct (map tid (ota_targets d))"
  shows "\<exists>n ys. loop clock d = (Inr n, d\<lparr>ota_targets := ys\<rparr>) \<and> list_all2 (handled clock) (ota_targets d) ys \<and>
    n + length (filter open' ys) = length (filter open' (ota_targets d))"
  using assms
proof (induction "length (filter open' (ota_targets d))" arbitrary: clock d rule: less_induct)
  case less
  let ?xs = "ota_targets d"
  define p where "p = (\<lambda>x. tid x \<in> set (map tid (take OTA_EXPIRY_BATCH_SIZE (filter (due (clock 0)) ?xs))) \<and> due (clock 0) x)"
  define ys where "ys = map (\<lambda>x. if p x then f (clock 0) x else x) ?xs"
  define n where "n = length (filter p ?xs)"
  have batch: "update_batch (due (clock 0)) (f (clock 0)) d = Inr (n, d\<lparr>ota_targets := ys\<rparr>)"
    unfolding update_batch_def Let_def p_def [symmetric] ys_def n_def
    by (rule update_targets_ok) (use less.prems(2) f_check in \<open>auto simp: p_def\<close>)
  have count: "n + length (filter open' ys) = length (filter open' ?xs)"
  proof -
    have "length (filter p zs) + length (filter open' (map (\<lambda>x. if p x then f (clock 0) x else x) zs))
        = length (filter open' zs)" for zs
      by (induction zs) (auto simp: p_def due_open f_closed)
    then show ?thesis by (simp add: n_def ys_def)
  qed
  show ?case
  proof (cases "n < OTA_EXPIRY_BATCH_SIZE")
    case True
    then have "p x \<longleftrightarrow> due (clock 0) x" if "x \<in> set ?xs" for x
      using batch_all [OF _ less.prems(3) that] unfolding n_def p_def by blast
    then have "list_all2 (handled clock) ?xs ys"
      unfolding ys_def by (auto simp: list_all2_conv_all_nth handled_def)
    with True batch count show ?thesis by (auto simp: loop_unfold [of clock d])
  next
    case False
    let ?c = "\<lambda>i. clock (Suc i)" and ?d = "d\<lparr>ota_targets := ys\<rparr>"
    have "length (filter open' ys) < length (filter open' ?xs)"
      using count False by (simp add: OTA_EXPIRY_BATCH_SIZE_def)
    moreover have "mono ?c" using less.prems(1) by (simp add: mono_def)
    moreover have "\<forall>x \<in> set ys. target_check x"
      using less.prems(2) f_check by (auto simp: ys_def p_def)
    moreover have "map tid ys = map tid ?xs" by (auto simp: ys_def f_tid)
    ultimately obtain m zs where r: "loop ?c ?d = (Inr m, ?d\<lparr>ota_targets := zs\<rparr>)"
      and h: "list_all2 (handled ?c) ys zs" and k: "m + length (filter open' zs) = length (filter open' ys)"
      using less.hyps [of ?d ?c] less.prems(3) by auto
    have "handled clock x z" if "handled ?c y z" "y = (if p x then f (clock 0) x else x)" for x y z
    proof (cases "p x")
      case True
      with that have "z = f (clock 0) x" using due_open f_closed unfolding handled_def by metis
      with True show ?thesis unfolding handled_def p_def by blast
    next
      case False
      have "clock 0 \<le> clock (Suc 0)" using less.prems(1) by (simp add: mono_def)
      with that False show ?thesis using due_mono [of "clock 0" "clock (Suc 0)" x] unfolding handled_def by auto
    qed
    then have "list_all2 (handled clock) ?xs zs"
      using h by (auto simp: list_all2_conv_all_nth ys_def)
    with r k count False batch show ?thesis
      by (auto simp: loop_unfold [of clock d])
  qed
qed

end

lemma lease_over_mono: "t \<le> t' \<Longrightarrow> lease_over t x \<Longrightarrow> lease_over t' x"
  by (auto simp: lease_over_def split: option.splits)

interpretation expiry: batch_loop ota_expirable "\<lambda>_ x. x\<lparr>tstate := OExpired, tlease := None\<rparr>"
  "\<lambda>x. tstate x \<in> {OPending, OLeased}" expireOtaTargets
proof (unfold_locales, goal_cases)
  case (1 clock d)
  show ?case by (subst expireOtaTargets.simps) (simp add: expireOtaBatch_def)
next
  case (2 t t' x)
  then show ?case by (auto simp: ota_expirable_def intro: lease_over_mono)
next
  case (3 x t)
  then show ?case using expire_ok [OF 3 refl] by simp
qed (auto simp: ota_expirable_def)

interpretation stall: batch_loop "\<lambda>t. ota_stalled t m"
  "\<lambda>t x. x\<lparr>tstate := OFailed, tconfirmed_at := Some t, tresult_code := Some (-7),
            tresult_message := Some (js ''download window timeout'')\<rparr>"
  "\<lambda>x. tstate x \<in> {ODelivered, ODelivering, ODownloaded}" "\<lambda>clock. expireStalledOtaTargets clock m" for m
proof (unfold_locales, goal_cases)
  case (1 clock d)
  show ?case by (subst expireStalledOtaTargets.simps) (simp add: stallOtaBatch_def)
next
  case (2 t t' x)
  then show ?case by (auto simp: ota_stalled_def split: option.splits)
next
  case (3 x t)
  then show ?case by (intro fail_ok [THEN conjunct1, OF 3(1) _ _ refl]) (auto simp: ota_stalled_def)
qed (auto simp: ota_stalled_def)

section \<open>Firmware identity\<close>

lemma find_key_unique:
  assumes "distinct (map g xs)" and "x \<in> set xs"
  shows "find (\<lambda>y. g y = g x) xs = Some x"
  using assms by (induction xs) auto

lemma find_NoneD: "find p xs = None \<Longrightarrow> x \<in> set xs \<Longrightarrow> \<not> p x"
  by (auto simp: find_None_iff)

lemma find_SomeD: "find p xs = Some x \<Longrightarrow> x \<in> set xs \<and> p x"
  by (auto simp: find_Some_iff)

lemma find_image: "k \<in> g ` set xs \<Longrightarrow> \<exists>x. find (\<lambda>y. g y = k) xs = Some x \<and> x \<in> set xs \<and> g x = k"
  by (induction xs) auto

text \<open>The SQL predicate of the confirmation and \<^verbatim>\<open>resolveReleaseExpectedFirmware\<close> name the same firmware.\<close>

lemma release_identity:
  assumes "catalog_ok d" and "find_release i d = Some r"
  shows "release_matches d r h \<longleftrightarrow> resolveReleaseExpectedFirmware i d = Some h"
proof (cases "fartifact r")
  case None
  with assms(2) show ?thesis by (simp add: release_matches_def resolveReleaseExpectedFirmware_def)
next
  case (Some a)
  have "r \<in> set (releases d)" using assms(2) by (auto simp: find_release_def dest: find_SomeD)
  with assms(1) Some have "a \<in> aid ` set (artifacts d)" by (auto simp: catalog_ok_def)
  then obtain b where "find_artifact a d = Some b" unfolding find_artifact_def using find_image by metis
  with assms(2) Some show ?thesis by (simp add: release_matches_def resolveReleaseExpectedFirmware_def)
qed

lemma job_identity:
  assumes "catalog_ok d" and "job \<in> jid ` set (ota_jobs d)"
  obtains j where "find_job job d = Some j" "j \<in> set (ota_jobs d)" "jid j = job"
    "\<And>h. job_matches d job h \<longleftrightarrow> resolveReleaseExpectedFirmware (jrelease j) d = Some h"
proof -
  obtain j where j: "find_job job d = Some j" "j \<in> set (ota_jobs d)" "jid j = job"
    using find_image [OF assms(2)] unfolding find_job_def by blast
  then have "jrelease j \<in> fid ` set (releases d)" using assms(1) by (auto simp: catalog_ok_def)
  then obtain r where r: "find_release (jrelease j) d = Some r"
    unfolding find_release_def using find_image by metis
  show ?thesis
    by (rule that [OF j]) (simp add: job_matches_def j r release_identity [OF assms(1) r])
qed

end
