(* ===== verification/Doubles.thy ===== *)
theory Doubles
  imports CommandCodec
begin

text \<open>
  IEEE 754 binary64 arithmetic as JavaScript's \<^verbatim>\<open>number\<close> has it, on exact rationals: \<open>fl\<close> rounds the exact
  result of an operation to the nearest double, ties to even, with gradual underflow. Overflow to
  infinity is left out: every use in the development stays far below \<open>2 ^ 1024\<close>.
\<close>

definition round_even :: "rat \<Rightarrow> int" where
  "round_even y =
     (let q = \<lfloor>y\<rfloor>; r = y - of_int q in
      if r < 1 / 2 then q else if r > 1 / 2 then q + 1 else if even q then q else q + 1)"

text \<open>The exponent of the leading bit of a positive rational.\<close>

definition exponent_of :: "rat \<Rightarrow> int" where
  "exponent_of x =
     (let (a, b) = quotient_of x; e = int (bit_length (nat a)) - int (bit_length (nat b)) in
      if 2 powi e \<le> x then e else e - 1)"

text \<open>The distance of adjacent doubles around a positive rational: 53 significant bits, at least \<open>2 powi - 1074\<close>.\<close>

definition grain :: "rat \<Rightarrow> rat" where
  "grain x = 2 powi max (exponent_of x - 52) (- 1074)"

definition fl :: "rat \<Rightarrow> rat" where
  "fl x = (if x = 0 then 0 else sgn x * (of_int (round_even (\<bar>x\<bar> / grain \<bar>x\<bar>)) * grain \<bar>x\<bar>))"

section \<open>Rounding\<close>

lemma round_even_of_int [simp]: "round_even (of_int m) = m"
  by (simp add: round_even_def)

lemma round_even_le:
  assumes "y \<le> of_int m"
  shows "round_even y \<le> m"
proof (cases "y = of_int m")
  case False
  then have "\<lfloor>y\<rfloor> < m" using assms by (simp add: floor_less_iff)
  then show ?thesis by (simp add: round_even_def Let_def)
qed simp

lemma round_even_ge:
  assumes "of_int m \<le> y"
  shows "m \<le> round_even y"
proof -
  have "m \<le> \<lfloor>y\<rfloor>" using assms by (simp add: le_floor_iff)
  then show ?thesis by (simp add: round_even_def Let_def)
qed

lemma round_even_close: "\<bar>of_int (round_even y) - y\<bar> \<le> 1 / 2"
proof -
  have "of_int \<lfloor>y\<rfloor> \<le> y" "y < of_int \<lfloor>y\<rfloor> + 1" by linarith+
  then show ?thesis unfolding round_even_def Let_def by (auto simp: abs_le_iff)
qed

lemma bit_length_bounds: "0 < n \<Longrightarrow> 2 ^ (bit_length n - 1) \<le> n \<and> n < 2 ^ bit_length n"
proof (induction n rule: bit_length.induct)
  case (1 n)
  show ?case
  proof (cases "n div 2 = 0")
    case True
    with 1 have "n = 1" by simp
    then show ?thesis by (simp add: bit_length.simps)
  next
    case False
    with 1 have IH: "2 ^ (bit_length (n div 2) - 1) \<le> n div 2" "n div 2 < 2 ^ bit_length (n div 2)"
      by simp_all
    have pos: "0 < bit_length (n div 2)" using False by (subst bit_length.simps) simp
    have "2 ^ bit_length (n div 2) = 2 * 2 ^ (bit_length (n div 2) - 1)"
      using pos by (metis Suc_diff_1 power_Suc)
    also have "\<dots> \<le> n" using IH(1) by linarith
    finally have "2 ^ bit_length (n div 2) \<le> n" .
    moreover have "n < 2 * 2 ^ bit_length (n div 2)" using IH(2) by linarith
    ultimately show ?thesis using 1(2) by (subst (1 2) bit_length.simps) simp
  qed
qed

lemma exponent_of_le:
  assumes "0 < x"
  shows "2 powi exponent_of x \<le> x"
proof -
  obtain a b where q: "quotient_of x = (a, b)" by (cases "quotient_of x")
  have b: "0 < b" and x: "x = of_int a / of_int b"
    using quotient_of_denom_pos [OF q] quotient_of_div [OF q] by auto
  with assms have a: "0 < a" by (simp add: zero_less_divide_iff)
  define e where "e = int (bit_length (nat a)) - int (bit_length (nat b))"
  have "2 powi (e - 1) \<le> x"
  proof -
    have "(2 :: rat) ^ (bit_length (nat a) - 1) \<le> of_int a"
      using bit_length_bounds [of "nat a"] a
      by (metis of_nat_le_iff of_nat_nat of_nat_numeral of_nat_power of_int_of_nat_eq zero_less_nat_eq less_imp_le)
    moreover have "of_int b \<le> (2 :: rat) ^ bit_length (nat b)"
      using bit_length_bounds [of "nat b"] b
      by (metis of_nat_le_iff of_nat_nat of_nat_numeral of_nat_power of_int_of_nat_eq zero_less_nat_eq less_imp_le)
    ultimately have "(2 :: rat) ^ (bit_length (nat a) - 1) / 2 ^ bit_length (nat b) \<le> x"
      unfolding x using a b by (intro frac_le) simp_all
    moreover have "0 < bit_length (nat a)" using a by (subst bit_length.simps) simp
    then have "(2 :: rat) powi (e - 1) = 2 ^ (bit_length (nat a) - 1) / 2 ^ bit_length (nat b)"
      by (simp add: e_def power_int_diff power_int_of_nat of_nat_diff flip: power_int_of_nat)
    ultimately show ?thesis by simp
  qed
  then show ?thesis by (simp add: exponent_of_def q Let_def flip: e_def)
qed

text \<open>Below \<open>2 ^ 53\<close> every natural number is a multiple of the grain.\<close>

lemma grain_unit:
  assumes "0 < x" and "x < 2 ^ 53"
  obtains k where "grain x = 1 / 2 ^ k"
proof -
  have "(2 :: rat) powi exponent_of x < 2 powi 53"
    using exponent_of_le [OF assms(1)] assms(2) by (simp add: power_int_numeral)
  then have "exponent_of x < 53" by (meson not_less one_le_numeral power_int_increasing)
  then have "max (exponent_of x - 52) (- 1074) = - int (nat (- max (exponent_of x - 52) (- 1074)))" by simp
  then show ?thesis
    by (intro that [of "nat (- max (exponent_of x - 52) (- 1074))"])
      (metis grain_def power_int_minus_divide power_int_of_nat)
qed

lemma grain_pos [simp]: "0 < grain x"
  by (simp add: grain_def)

lemma fl_le_nat:
  assumes "0 \<le> x" and "x \<le> of_nat n" and "n < 2 ^ 53"
  shows "fl x \<le> of_nat n"
proof (cases "x = 0")
  case False
  with assms have x: "0 < x" and "x < 2 ^ 53"
    by (auto intro: le_less_trans [OF assms(2)])
  then obtain k where k: "grain x = 1 / 2 ^ k" using grain_unit by blast
  have "round_even (x / grain x) \<le> int n * 2 ^ k"
    by (rule round_even_le) (use assms(2) in \<open>simp add: k\<close>)
  then have "of_int (round_even (x / grain x)) * grain x \<le> of_int (int n * 2 ^ k) * grain x"
    by (intro mult_right_mono) (simp_all only: of_int_le_iff, simp add: less_imp_le)
  also have "\<dots> = of_nat n" by (simp add: k)
  finally show ?thesis using x by (simp add: fl_def)
qed (simp add: fl_def)

lemma fl_nat:
  assumes "n < 2 ^ 53"
  shows "fl (of_nat n) = of_nat n"
proof (cases "n = 0")
  case False
  have "(of_nat n :: rat) < 2 ^ 53" using assms by (metis of_nat_less_iff of_nat_numeral of_nat_power)
  then obtain k where k: "grain (of_nat n) = 1 / 2 ^ k" using grain_unit False by (metis of_nat_0_less_iff neq0_conv)
  have "of_nat n / grain (of_nat n) = of_int (int n * 2 ^ k)" by (simp add: k)
  then have "round_even (of_nat n / grain (of_nat n)) = int n * 2 ^ k" by (simp only: round_even_of_int)
  with False show ?thesis by (simp add: fl_def k)
qed (simp add: fl_def)

lemma fl_0 [simp]: "fl 0 = 0"
  by (simp add: fl_def)

lemma fl_1 [simp]: "fl 1 = 1"
  using fl_nat [of 1] by simp

lemma fl_nonneg: "0 \<le> x \<Longrightarrow> 0 \<le> fl x"
  using round_even_ge [of 0 "x / grain x"] by (simp add: fl_def less_imp_le)

text \<open>The error of a rounding is at most half a grain.\<close>

lemma fl_close: "0 < x \<Longrightarrow> \<bar>fl x - x\<bar> \<le> grain x / 2"
proof -
  assume "0 < x"
  then have "fl x - x = (of_int (round_even (x / grain x)) - x / grain x) * grain x"
    by (simp add: fl_def algebra_simps less_imp_neq [symmetric])
  then have "\<bar>fl x - x\<bar> = \<bar>of_int (round_even (x / grain x)) - x / grain x\<bar> * grain x"
    by (simp add: abs_mult less_imp_le)
  also have "\<dots> \<le> 1 / 2 * grain x"
    by (intro mult_right_mono round_even_close) (simp add: less_imp_le)
  finally show ?thesis by simp
qed

end
