(* ===== verification/OtaRollout.thy ===== *)
theory OtaRollout
  imports OtaDeploy Doubles
begin

text \<open>
  \<^verbatim>\<open>packages/core/src/ota/rollout.ts\<close>: phased deployment of a release over a pool of devices. Phases are
  identified by their rollout and index, which are unique. Ratios are rationals; those of the program
  are the doubles among them, and their products and quotients are rounded by \<open>fl\<close>. A handler of one
  transaction returns its result and the new tables; the handlers that commit statement by statement
  return the tables even when a later statement fails.
\<close>

section \<open>Constraints of the tables\<close>

definition phase_check :: "rollout_phase \<Rightarrow> bool" where
  "phase_check p \<longleftrightarrow> 0 < pindex p \<and> 0 < ptarget_count p \<and>
     (case pratio p of None \<Rightarrow> True | Some r \<Rightarrow> 0 < r \<and> r \<le> 1) \<and>
     (case pstate p of
        PActive \<Rightarrow> pactivated_at p \<noteq> None
      | PPending \<Rightarrow> pactivated_at p = None
      | _ \<Rightarrow> True) \<and>
     (pstate p = PCompleted \<longleftrightarrow> pcompleted_at p \<noteq> None)"

definition phases_unique :: "rollout_phase list \<Rightarrow> bool" where
  "phases_unique ps \<longleftrightarrow> distinct (map (\<lambda>p. (prollout p, pindex p)) ps) \<and>
     distinct (List.map_filter pjob ps)"

definition insert_phases :: "rollout_phase list \<Rightarrow> ota_db \<Rightarrow> unit otx" where
  "insert_phases ps d =
     (if list_all phase_check ps \<and> phases_unique (phases d @ ps) \<and>
         list_all (\<lambda>p. prollout p \<in> rid' ` set (rollouts d)) ps
      then Inr ((), d\<lparr>phases := phases d @ ps\<rparr>) else Inl ODatabase)"

definition update_phases ::
    "(rollout_phase \<Rightarrow> bool) \<Rightarrow> (rollout_phase \<Rightarrow> rollout_phase) \<Rightarrow> ota_db \<Rightarrow> nat otx" where
  "update_phases q f d =
     (let ps = map (\<lambda>p. if q p then f p else p) (phases d) in
      if list_all (\<lambda>p. q p \<longrightarrow> phase_check (f p)) (phases d) \<and> phases_unique ps \<and>
         list_all (\<lambda>p. case pjob p of None \<Rightarrow> True | Some j \<Rightarrow> j \<in> jid ` set (ota_jobs d)) ps
      then Inr (length (filter q (phases d)), d\<lparr>phases := ps\<rparr>) else Inl ODatabase)"

definition rollout_check :: "ota_rollout \<Rightarrow> bool" where
  "rollout_check r \<longleftrightarrow> 0 < rsuccess_ratio r \<and> rsuccess_ratio r \<le> 1 \<and> 0 \<le> rmin_sample r \<and>
     0 < rphase_timeout_hours r \<and> 0 < rstuck_hours r"

definition insert_rollout :: "ota_rollout \<Rightarrow> ota_db \<Rightarrow> unit otx" where
  "insert_rollout r d =
     (if rollout_check r \<and> rid' r \<notin> rid' ` set (rollouts d) \<and> rrelease r \<in> fid ` set (releases d) \<and>
         (case rfrom_release r of None \<Rightarrow> True | Some i \<Rightarrow> i \<in> fid ` set (releases d))
      then Inr ((), d\<lparr>rollouts := rollouts d @ [r]\<rparr>) else Inl ODatabase)"

definition update_rollouts ::
    "(ota_rollout \<Rightarrow> bool) \<Rightarrow> (ota_rollout \<Rightarrow> ota_rollout) \<Rightarrow> ota_db \<Rightarrow> nat otx" where
  "update_rollouts q f d =
     (let rs = map (\<lambda>r. if q r then f r else r) (rollouts d) in
      if list_all rollout_check rs \<and> distinct (List.map_filter rrollback_job rs) \<and>
         list_all (\<lambda>r. case rrollback_job r of None \<Rightarrow> True | Some j \<Rightarrow> j \<in> jid ` set (ota_jobs d)) rs
      then Inr (length (filter q (rollouts d)), d\<lparr>rollouts := rs\<rparr>) else Inl ODatabase)"

definition insert_pool :: "rollout_pool list \<Rightarrow> ota_db \<Rightarrow> unit otx" where
  "insert_pool xs d =
     (if distinct (map (\<lambda>x. (prollout' x, pdevice x)) (pool d @ xs)) \<and>
         distinct (map (\<lambda>x. (prollout' x, psort_idx x)) (pool d @ xs)) \<and>
         list_all (\<lambda>x. prollout' x \<in> rid' ` set (rollouts d) \<and> pdevice x \<in> did ` set (o_devices d)) xs
      then Inr ((), d\<lparr>pool := pool d @ xs\<rparr>) else Inl ODatabase)"

definition find_rollout :: "uuid \<Rightarrow> ota_db \<Rightarrow> ota_rollout option" where
  "find_rollout i d = find (\<lambda>r. rid' r = i) (rollouts d)"

text \<open>\<^verbatim>\<open>phases: { orderBy: { index: "asc" } }\<close> of a rollout.\<close>

definition phases_of :: "uuid \<Rightarrow> ota_db \<Rightarrow> rollout_phase list" where
  "phases_of i d = sort_key pindex (filter (\<lambda>p. prollout p = i) (phases d))"

section \<open>Planning\<close>

definition DEFAULT_AUTO_RATIOS :: "rat list" where
  "DEFAULT_AUTO_RATIOS = [fl (5 / 100), 1 / 4, 1]"

definition OTA_STALL_FAILURE_CODE :: int where "OTA_STALL_FAILURE_CODE = -6"

definition DEFAULT_ROLLOUT_TARGET_TTL_SECONDS :: int where "DEFAULT_ROLLOUT_TARGET_TTL_SECONDS = 15 * 60"

record CreateRolloutOptions =
  cr_projectId :: uuid
  cr_releaseId :: uuid
  cr_fromReleaseId :: "uuid option"
  cr_strategy :: strategy
  cr_deviceIds :: "uuid list option"
  cr_ratios :: "rat list option"
  cr_groups :: "uuid list list option"
  cr_successRatio :: "rat option"
  cr_minSample :: "int option"
  cr_phaseTimeoutHours :: "int option"
  cr_stuckHours :: "int option"
  cr_manualApproval :: "bool option"
  cr_targetTtlSeconds :: "int option"
  cr_createdBy :: uuid

text \<open>\<^verbatim>\<open>x ?? y\<close>.\<close>

definition or_else :: "'a option \<Rightarrow> 'a \<Rightarrow> 'a" where
  "or_else x y = (case x of None \<Rightarrow> y | Some v \<Rightarrow> v)"

fun ascending :: "rat list \<Rightarrow> bool" where
  "ascending (a # b # xs) = (a < b \<and> ascending (b # xs))"
| "ascending _ = True"

definition validateRatios :: "rat list \<Rightarrow> OtaError + unit" where
  "validateRatios ratios =
     rbind (ensure (ratios \<noteq> []) OInvalidRatios) (\<lambda>_.
     rbind (ensure (list_all (\<lambda>r. 0 < r \<and> r \<le> 1) ratios) OInvalidRatios) (\<lambda>_.
     rbind (ensure (ascending ratios) OInvalidRatios) (\<lambda>_.
     ensure (last ratios = 1) OInvalidRatios)))"

text \<open>\<^verbatim>\<open>randomInt(i + 1)\<close> of the step with index \<open>i\<close> is \<open>rand i\<close>.\<close>

fun shuffle_from :: "(nat \<Rightarrow> nat) \<Rightarrow> nat \<Rightarrow> 'a list \<Rightarrow> 'a list" where
  "shuffle_from rand 0 arr = arr"
| "shuffle_from rand (Suc i) arr =
     (let j = rand (Suc i) in shuffle_from rand i (arr[Suc i := arr ! j, j := arr ! Suc i]))"

definition shuffle' :: "(nat \<Rightarrow> nat) \<Rightarrow> 'a list \<Rightarrow> 'a list" where
  "shuffle' rand input = shuffle_from rand (length input - 1) input"

record phase_plan =
  pp_index :: nat
  pp_ratio :: "rat option"
  pp_group :: "nat option"
  pp_count :: nat

text \<open>The loop over the ratios: \<open>cum r\<close> is \<^verbatim>\<open>Math.ceil(r * n)\<close>, \<open>k\<close> is \<^verbatim>\<open>computed.length\<close>.\<close>

fun auto_phases :: "(rat \<Rightarrow> int) \<Rightarrow> rat list \<Rightarrow> nat \<Rightarrow> int \<Rightarrow> phase_plan list" where
  "auto_phases cum [] k prior = []"
| "auto_phases cum (r # rs) k prior =
     (let cumulative = cum r; size = cumulative - prior in
      if size \<le> 0 then auto_phases cum rs k prior
      else \<lparr>pp_index = Suc k, pp_ratio = Some r, pp_group = None, pp_count = nat size\<rparr>
           # auto_phases cum rs (Suc k) cumulative)"

definition coverage :: "nat \<Rightarrow> rat \<Rightarrow> int" where
  "coverage n r = \<lceil>fl (r * of_nat n)\<rceil>"

fun collect_ids :: "uuid list \<Rightarrow> uuid list \<Rightarrow> OtaError + uuid list" where
  "collect_ids [] all = Inr all"
| "collect_ids (i # is') all = (if i \<in> set all then Inl OGroupsOverlap else collect_ids is' (all @ [i]))"

fun collect_groups :: "uuid list list \<Rightarrow> uuid list \<Rightarrow> OtaError + uuid list" where
  "collect_groups [] all = Inr all"
| "collect_groups (g # gs) all =
     (if g = [] then Inl OEmptyTargets else rbind (collect_ids g all) (collect_groups gs))"

definition group_phases :: "uuid list list \<Rightarrow> phase_plan list" where
  "group_phases gs = map (\<lambda>(i, g). \<lparr>pp_index = i + 1, pp_ratio = None, pp_group = Some (i + 1), pp_count = length g\<rparr>)
     (zip [0..<length gs] gs)"

definition plan_rollout :: "CreateRolloutOptions \<Rightarrow> OtaError + (uuid list \<times> phase_plan list)" where
  "plan_rollout o' =
     (case cr_strategy o' of
        Auto \<Rightarrow>
          let devs = or_else (cr_deviceIds o') []; ratios = or_else (cr_ratios o') DEFAULT_AUTO_RATIOS in
          rbind (ensure (devs \<noteq> []) OEmptyTargets) (\<lambda>_.
          rbind (validateRatios ratios) (\<lambda>_.
          rbind (ensure (distinct devs) ODuplicateTargets) (\<lambda>_.
          rbind (ensure (\<not> length devs > MAX_OTA_TARGETS) OTooManyTargets) (\<lambda>_.
          Inr (devs, auto_phases (coverage (length devs)) ratios 0 0)))))
      | Grouped \<Rightarrow>
          let groups = or_else (cr_groups o') [] in
          rbind (ensure (groups \<noteq> []) ONoPhases) (\<lambda>_.
          rbind (collect_groups groups []) (\<lambda>all.
          rbind (ensure (\<not> length all > MAX_OTA_TARGETS) OTooManyTargets) (\<lambda>_.
          Inr (all, group_phases groups)))))"


section \<open>Creation\<close>

definition createTargetsForRelease ::
    "ota_env \<Rightarrow> uuid \<Rightarrow> uuid \<Rightarrow> uuid list \<Rightarrow> int \<Rightarrow> ota_db \<Rightarrow> unit otx" where
  "createTargetsForRelease env jobId releaseId deviceIds ttlMs d =
     rbind (insert_targets (new_targets env jobId (onow env + ttlMs) deviceIds) d) (\<lambda>(_, d1).
     complete_running env jobId (already_running (resolveReleaseExpectedFirmware releaseId d1) deviceIds d1) d1)"

definition createPhaseJob :: "ota_env \<Rightarrow> uuid \<Rightarrow> uuid list \<Rightarrow> int \<Rightarrow> ota_db \<Rightarrow> uuid otx" where
  "createPhaseJob env rolloutId deviceIds ttlMs d =
     (case find_rollout rolloutId d of
        None \<Rightarrow> Inl ODatabase
      | Some r \<Rightarrow>
          let jobId = ofresh env 0 in
          rbind (insert_job \<lparr>jid = jobId, jproject = rproject r, jrelease = rrelease r, jcreated_by = rcreated_by r\<rparr> d) (\<lambda>(_, d1).
          rbind (createTargetsForRelease env jobId (rrelease r) deviceIds ttlMs d1) (\<lambda>(_, d2).
          Inr (jobId, o_notify OTA_NOTIFY_CHANNEL jobId d2))))"

definition new_rollout :: "uuid \<Rightarrow> CreateRolloutOptions \<Rightarrow> ota_rollout" where
  "new_rollout i o' =
     \<lparr>rid' = i, rproject = cr_projectId o', rrelease = cr_releaseId o', rfrom_release = cr_fromReleaseId o',
      rstate = RRunning, rstrategy = cr_strategy o', rsuccess_ratio = or_else (cr_successRatio o') (fl (9 / 10)),
      rmin_sample = or_else (cr_minSample o') 10, rphase_timeout_hours = or_else (cr_phaseTimeoutHours o') 24,
      rstuck_hours = or_else (cr_stuckHours o') 6, rmanual_approval = or_else (cr_manualApproval o') False,
      rrollback_job = None, rcreated_by = cr_createdBy o'\<rparr>"

definition new_phase :: "uuid \<Rightarrow> phase_plan \<Rightarrow> rollout_phase" where
  "new_phase i p =
     \<lparr>prollout = i, pindex = pp_index p, pratio = pp_ratio p, pgroup = pp_group p, pstate = PPending,
      ptarget_count = pp_count p, pjob = None, pactivated_at = None, pcompleted_at = None\<rparr>"

definition new_pool :: "uuid \<Rightarrow> uuid list \<Rightarrow> rollout_pool list" where
  "new_pool i devs = map (\<lambda>(k, dev). \<lparr>prollout' = i, pdevice = dev, psort_idx = k\<rparr>) (zip [0..<length devs] devs)"

record CreatedRollout =
  cd_rolloutId :: uuid
  cd_phases :: "(nat \<times> nat \<times> phase_state) list"
  cd_jobId :: uuid

definition ttl_ms :: "int option \<Rightarrow> int" where
  "ttl_ms ttl = or_else ttl DEFAULT_ROLLOUT_TARGET_TTL_SECONDS * 1000"

text \<open>The transaction of \<^verbatim>\<open>createOtaRollout\<close>. \<open>rolloutId\<close> is drawn by \<^verbatim>\<open>randomUUID\<close>.\<close>

definition store_rollout ::
    "ota_env \<Rightarrow> uuid \<Rightarrow> CreateRolloutOptions \<Rightarrow> uuid list \<Rightarrow> phase_plan list \<Rightarrow> ota_db \<Rightarrow> CreatedRollout otx" where
  "store_rollout env rolloutId o' ordered plan d =
     rbind (insert_rollout (new_rollout rolloutId o') d) (\<lambda>(_, d1).
     rbind (insert_pool (new_pool rolloutId ordered) d1) (\<lambda>(_, d2).
     rbind (insert_phases (map (new_phase rolloutId) plan) d2) (\<lambda>(_, d3).
     (case plan of
        [] \<Rightarrow> Inl ODatabase
      | first # _ \<Rightarrow>
          rbind (createPhaseJob env rolloutId (take (pp_count first) ordered) (ttl_ms (cr_targetTtlSeconds o')) d3) (\<lambda>(jobId, d4).
          rbind (update_phases (\<lambda>p. prollout p = rolloutId \<and> pindex p = 1)
                   (\<lambda>p. p\<lparr>pstate := PActive, pjob := Some jobId, pactivated_at := Some (onow env)\<rparr>) d4) (\<lambda>(_, d5).
          Inr (\<lparr>cd_rolloutId = rolloutId,
                 cd_phases = map (\<lambda>p. (pp_index p, pp_count p, if pp_index p = 1 then PActive else PPending)) plan,
                 cd_jobId = jobId\<rparr>, d5)))))))"

definition check_releases :: "CreateRolloutOptions \<Rightarrow> ota_db \<Rightarrow> OtaError + unit" where
  "check_releases o' d =
     rbind (ensure (case find_release (cr_releaseId o') d of
                      None \<Rightarrow> False | Some r \<Rightarrow> fproject r = cr_projectId o') OReleaseNotInProject) (\<lambda>_.
     (case cr_fromReleaseId o' of
        None \<Rightarrow> Inr ()
      | Some i \<Rightarrow>
          if i = [] then Inr ()
          else rbind (ensure (case find_release i d of
                                None \<Rightarrow> False | Some r \<Rightarrow> fproject r = cr_projectId o') OReleaseNotInProject) (\<lambda>_.
               ensure (i \<noteq> cr_releaseId o') OInvalidFromRelease)))"

definition createOtaRollout ::
    "ota_env \<Rightarrow> uuid \<Rightarrow> (nat \<Rightarrow> nat) \<Rightarrow> CreateRolloutOptions \<Rightarrow> ota_db \<Rightarrow> CreatedRollout otx" where
  "createOtaRollout env rolloutId rand o' d =
     rbind (check_releases o' d) (\<lambda>_.
     rbind (plan_rollout o') (\<lambda>(poolDeviceIds, plan).
     let devs = filter (\<lambda>x. did x \<in> set poolDeviceIds) (o_devices d) in
     rbind (ensure (length devs = length poolDeviceIds) OTargetNotFound) (\<lambda>_.
     rbind (ensure (list_all (\<lambda>x. dproject_id x = cr_projectId o') devs) OTargetNotInProject) (\<lambda>_.
     let ordered = (if cr_strategy o' = Auto then shuffle' rand poolDeviceIds else poolDeviceIds) in
     store_rollout env rolloutId o' ordered plan d))))"

section \<open>Activation of a phase\<close>

definition pool_of :: "uuid \<Rightarrow> ota_db \<Rightarrow> uuid list" where
  "pool_of i d = map pdevice (sort_key psort_idx (filter (\<lambda>x. prollout' x = i) (pool d)))"

definition find_phase :: "uuid \<Rightarrow> nat \<Rightarrow> ota_db \<Rightarrow> rollout_phase option" where
  "find_phase i k d = find (\<lambda>p. prollout p = i \<and> pindex p = k) (phases d)"

text \<open>\<^verbatim>\<open>aggregate({ _sum: { targetCount } })\<close> over the earlier phases, and the slice of the pool.\<close>

definition slice_start :: "uuid \<Rightarrow> nat \<Rightarrow> ota_db \<Rightarrow> nat" where
  "slice_start i k d = sum_list (map ptarget_count (filter (\<lambda>p. prollout p = i \<and> pindex p < k) (phases d)))"

definition activatePendingPhase :: "ota_env \<Rightarrow> uuid \<Rightarrow> nat \<Rightarrow> int \<Rightarrow> ota_db \<Rightarrow> bool otx" where
  "activatePendingPhase env rolloutId phaseIndex ttlMs d =
     (case find_phase rolloutId phaseIndex d of
        None \<Rightarrow> Inr (False, d)
      | Some phase \<Rightarrow>
          rbind (update_phases (\<lambda>p. prollout p = rolloutId \<and> pindex p = phaseIndex \<and> pstate p = PPending)
                   (\<lambda>p. p\<lparr>pstate := PActive, pactivated_at := Some (onow env)\<rparr>) d) (\<lambda>(claimed, d1).
          if claimed = 0 then Inr (False, d1)
          else
            let start = slice_start rolloutId phaseIndex d1;
                slice = take (ptarget_count phase) (drop start (pool_of rolloutId d1)) in
            rbind (createPhaseJob env rolloutId slice ttlMs d1) (\<lambda>(jobId, d2).
            rbind (update_phases (\<lambda>p. prollout p = rolloutId \<and> pindex p = phaseIndex) (\<lambda>p. p\<lparr>pjob := Some jobId\<rparr>) d2)
              (\<lambda>(_, d3). Inr (True, d3)))))"


section \<open>Events\<close>

datatype rollout_event = EvManualApproval | EvCompleted | EvPaused | EvAborted | EvResumed

definition NOTIFICATIONS_CHANNEL :: jsstring where "NOTIFICATIONS_CHANNEL = js ''soulcloud_notifications''"

fun event_name :: "rollout_event \<Rightarrow> jsstring" where
  "event_name EvManualApproval = js ''manual_approval''"
| "event_name EvCompleted = js ''completed''"
| "event_name EvPaused = js ''paused''"
| "event_name EvAborted = js ''aborted''"
| "event_name EvResumed = js ''resumed''"

text \<open>\<^verbatim>\<open>JSON.stringify({ type, rollout_id, project_id })\<close>; the identifiers need no escapes.\<close>

definition notifyRolloutEvent :: "rollout_event \<Rightarrow> uuid \<Rightarrow> uuid \<Rightarrow> ota_db \<Rightarrow> ota_db" where
  "notifyRolloutEvent type rolloutId projectId =
     o_notify NOTIFICATIONS_CHANNEL
       (js ''{\"type\":\"'' @ event_name type @ js ''\",\"rollout_id\":\"'' @ rolloutId @
        js ''\",\"project_id\":\"'' @ projectId @ js ''\"}'')"

section \<open>Advance pass\<close>

record AdvanceSummary =
  rolloutsScanned :: nat
  phasesActivated :: nat
  phasesCompleted :: nat
  rolloutsPaused :: nat
  rolloutsCompleted :: nat
  targetsStalled :: nat
  rolloutsErrored :: nat

text \<open>A handler that commits statement by statement: its result, the counters and the tables, both as
  they are when it returns or throws.\<close>

type_synonym pass = "(OtaError + unit) \<times> AdvanceSummary \<times> ota_db"

definition stmt :: "'a otx \<Rightarrow> AdvanceSummary \<Rightarrow> ota_db \<Rightarrow> ('a \<Rightarrow> ota_db \<Rightarrow> pass) \<Rightarrow> pass" where
  "stmt r s d k = (case r of Inl e \<Rightarrow> (Inl e, s, d) | Inr (v, d') \<Rightarrow> k v d')"

definition judgeInstalledTargets :: "time \<Rightarrow> uuid option \<Rightarrow> int \<Rightarrow> ota_db \<Rightarrow> nat otx" where
  "judgeInstalledTargets t jobId stuckHours d =
     (case jobId of
        None \<Rightarrow> Inr (0, d)
      | Some j \<Rightarrow>
          update_targets (\<lambda>x. tjob x = j \<and> tstate x = OInstalled \<and>
              (case tinstalled_at x of None \<Rightarrow> False | Some a \<Rightarrow> a < t - stuckHours * 3600000) \<and>
              find_ota_device (tdevice x) d \<noteq> None \<and>
              (case Option.bind (Option.bind (find_job (tjob x) d) (\<lambda>j. find_release (jrelease j) d))
                      (\<lambda>r. Option.bind (fartifact r) (\<lambda>a. find_artifact a d)) of
                 None \<Rightarrow> False
               | Some a \<Rightarrow> list_ex (\<lambda>s. sdevice s = tdevice x \<and> sreported_at s > t - 3600000 \<and>
                                      sfw_hash s \<noteq> abuild_id a) (fw_states d)))
            (\<lambda>x. x\<lparr>tstate := OFailed, tconfirmed_at := Some t, tresult_code := Some OTA_STALL_FAILURE_CODE,
                   tresult_message := Some (js ''upgrade not active: device alive but firmware unchanged'')\<rparr>) d)"

text \<open>The gate: \<^verbatim>\<open>met\<close> and \<^verbatim>\<open>timedOut\<close>.\<close>

definition phase_targets :: "rollout_phase \<Rightarrow> ota_db \<Rightarrow> ota_target list" where
  "phase_targets p d = (case pjob p of None \<Rightarrow> [] | Some j \<Rightarrow> filter (\<lambda>x. tjob x = j) (ota_targets d))"

definition gate :: "rat \<Rightarrow> int \<Rightarrow> nat \<Rightarrow> nat \<Rightarrow> bool" where
  "gate ratio minSample completed actual \<longleftrightarrow>
     actual > 0 \<and> fl (of_nat completed / of_nat actual) \<ge> ratio \<and> int completed \<ge> min minSample (int actual)"

definition phase_met :: "ota_rollout \<Rightarrow> rollout_phase \<Rightarrow> ota_db \<Rightarrow> bool" where
  "phase_met r p d =
     gate (rsuccess_ratio r) (rmin_sample r)
       (length (filter (\<lambda>x. tstate x = OCompleted) (phase_targets p d))) (length (phase_targets p d))"

definition phase_timed_out :: "time \<Rightarrow> ota_rollout \<Rightarrow> rollout_phase \<Rightarrow> bool" where
  "phase_timed_out t r p \<longleftrightarrow>
     (case pactivated_at p of None \<Rightarrow> False | Some a \<Rightarrow> t - a > rphase_timeout_hours r * 3600000)"

text \<open>\<^verbatim>\<open>updateMany({ where: { id, state: "running" }, data: { state: "completed" } })\<close> and its event.\<close>

definition finish_rollout :: "ota_rollout \<Rightarrow> AdvanceSummary \<Rightarrow> ota_db \<Rightarrow> pass" where
  "finish_rollout r s d =
     stmt (update_rollouts (\<lambda>x. rid' x = rid' r \<and> rstate x = RRunning) (\<lambda>x. x\<lparr>rstate := RCompleted\<rparr>) d) s d (\<lambda>done d'.
       if done > 0
       then (Inr (), s\<lparr>rolloutsCompleted := rolloutsCompleted s + 1\<rparr>, notifyRolloutEvent EvCompleted (rid' r) (rproject r) d')
       else (Inr (), s, d'))"

definition activate_next :: "ota_env \<Rightarrow> ota_rollout \<Rightarrow> rollout_phase \<Rightarrow> int \<Rightarrow> AdvanceSummary \<Rightarrow> ota_db \<Rightarrow> pass" where
  "activate_next env r next' ttlMs s d =
     stmt (activatePendingPhase env (rid' r) (pindex next') ttlMs d) s d (\<lambda>activated d'.
       (Inr (), if activated then s\<lparr>phasesActivated := phasesActivated s + 1\<rparr> else s, d'))"

definition in_state :: "phase_state \<Rightarrow> rollout_phase \<Rightarrow> bool" where
  "in_state st p \<longleftrightarrow> pstate p = st"

text \<open>The pass over one rollout, from the snapshot \<open>r\<close>, \<open>ps\<close> it read.\<close>

definition advance_snapshot ::
    "ota_env \<Rightarrow> ota_rollout \<Rightarrow> rollout_phase list \<Rightarrow> int \<Rightarrow> AdvanceSummary \<Rightarrow> ota_db \<Rightarrow> pass" where
  "advance_snapshot env r ps ttlMs s d =
     (let next' = find (in_state PPending) ps in
      case find (in_state PActive) ps of
        None \<Rightarrow>
          (let (res, s', d') =
             (case next' of
                Some p \<Rightarrow> if rmanual_approval r then (Inr (), s, d) else activate_next env r p ttlMs s d
              | None \<Rightarrow> (Inr (), s, d)) in
           case res of
             Inl e \<Rightarrow> (Inl e, s', d')
           | Inr _ \<Rightarrow> if list_all (in_state PCompleted) ps then finish_rollout r s' d' else (Inr (), s', d'))
      | Some active \<Rightarrow>
          if phase_met r active d then
            stmt (update_phases (\<lambda>p. prollout p = prollout active \<and> pindex p = pindex active \<and> pstate p = PActive)
                    (\<lambda>p. p\<lparr>pstate := PCompleted, pcompleted_at := Some (onow env)\<rparr>) d) s d (\<lambda>finished d1.
              if finished = 0 then (Inr (), s, d1)
              else
                let s1 = s\<lparr>phasesCompleted := phasesCompleted s + 1\<rparr> in
                case next' of
                  None \<Rightarrow> finish_rollout r s1 d1
                | Some p \<Rightarrow>
                    if rmanual_approval r then (Inr (), s1, notifyRolloutEvent EvManualApproval (rid' r) (rproject r) d1)
                    else activate_next env r p ttlMs s1 d1)
          else if phase_timed_out (onow env) r active then
            stmt (rbind (update_rollouts (\<lambda>x. rid' x = rid' r \<and> rstate x = RRunning) (\<lambda>x. x\<lparr>rstate := RPaused\<rparr>) d) (\<lambda>(n, d1).
                  rbind (update_phases (\<lambda>p. prollout p = prollout active \<and> pindex p = pindex active \<and> pstate p = PActive)
                           (\<lambda>p. p\<lparr>pstate := PPaused\<rparr>) d1) (\<lambda>(_, d2). Inr (n, d2)))) s d (\<lambda>paused d'.
              if paused > 0
              then (Inr (), s\<lparr>rolloutsPaused := rolloutsPaused s + 1\<rparr>, notifyRolloutEvent EvPaused (rid' r) (rproject r) d')
              else (Inr (), s, d'))
          else
            stmt (judgeInstalledTargets (onow env) (pjob active) (rstuck_hours r) d) s d (\<lambda>stalled d'.
              (Inr (), s\<lparr>targetsStalled := targetsStalled s + stalled\<rparr>, d')))"

definition advanceOneRollout :: "ota_env \<Rightarrow> uuid \<Rightarrow> int \<Rightarrow> AdvanceSummary \<Rightarrow> ota_db \<Rightarrow> pass" where
  "advanceOneRollout env i ttlMs s d =
     (case find_rollout i d of
        None \<Rightarrow> (Inr (), s, d)
      | Some r \<Rightarrow> advance_snapshot env r (phases_of i d) ttlMs s d)"

fun advance_all ::
    "(nat \<Rightarrow> ota_env) \<Rightarrow> uuid list \<Rightarrow> int \<Rightarrow> AdvanceSummary \<Rightarrow> ota_db \<Rightarrow> AdvanceSummary \<times> ota_db" where
  "advance_all envs [] ttlMs s d = (s, d)"
| "advance_all envs (i # is') ttlMs s d =
     (case advanceOneRollout (envs 0) i ttlMs s d of
        (Inr _, s', d') \<Rightarrow> advance_all (\<lambda>n. envs (Suc n)) is' ttlMs s' d'
      | (Inl _, s', d') \<Rightarrow>
          advance_all (\<lambda>n. envs (Suc n)) is' ttlMs (s'\<lparr>rolloutsErrored := rolloutsErrored s' + 1\<rparr>) d')"

definition running_rollouts :: "ota_db \<Rightarrow> uuid list" where
  "running_rollouts d = map rid' (filter (\<lambda>r. rstate r = RRunning) (rollouts d))"

definition empty_summary :: AdvanceSummary where
  "empty_summary = \<lparr>rolloutsScanned = 0, phasesActivated = 0, phasesCompleted = 0, rolloutsPaused = 0,
     rolloutsCompleted = 0, targetsStalled = 0, rolloutsErrored = 0\<rparr>"

definition advanceRollouts :: "(nat \<Rightarrow> ota_env) \<Rightarrow> int option \<Rightarrow> ota_db \<Rightarrow> AdvanceSummary \<times> ota_db" where
  "advanceRollouts envs targetTtlSeconds d =
     (let ids = running_rollouts d in
      advance_all envs ids (ttl_ms targetTtlSeconds) (empty_summary\<lparr>rolloutsScanned := length ids\<rparr>) d)"


section \<open>Lifecycle\<close>

type_synonym 'a act = "(OtaError + 'a) \<times> ota_db"

definition commit :: "'a otx \<Rightarrow> ota_db \<Rightarrow> ('a \<Rightarrow> ota_db \<Rightarrow> 'b act) \<Rightarrow> 'b act" where
  "commit r d k = (case r of Inl e \<Rightarrow> (Inl e, d) | Inr (v, d') \<Rightarrow> k v d')"

definition pause_phases :: "uuid \<Rightarrow> ota_db \<Rightarrow> nat otx" where
  "pause_phases i = update_phases (\<lambda>p. prollout p = i \<and> pstate p = PActive) (\<lambda>p. p\<lparr>pstate := PPaused\<rparr>)"

definition pauseRollout :: "uuid \<Rightarrow> ota_db \<Rightarrow> bool otx" where
  "pauseRollout i d =
     rbind (update_rollouts (\<lambda>r. rid' r = i \<and> rstate r = RRunning) (\<lambda>r. r\<lparr>rstate := RPaused\<rparr>) d) (\<lambda>(n, d1).
     rbind (pause_phases i d1) (\<lambda>(_, d2). Inr (n > 0, d2)))"

text \<open>The two statements of a resume, which commit separately.\<close>

definition resume_rollout_row :: "uuid \<Rightarrow> ota_db \<Rightarrow> nat otx" where
  "resume_rollout_row i = update_rollouts (\<lambda>r. rid' r = i \<and> rstate r = RPaused) (\<lambda>r. r\<lparr>rstate := RRunning\<rparr>)"

definition resume_phases :: "time \<Rightarrow> uuid \<Rightarrow> ota_db \<Rightarrow> nat otx" where
  "resume_phases t i = update_phases (\<lambda>p. prollout p = i \<and> pstate p = PPaused)
     (\<lambda>p. p\<lparr>pstate := PActive, pactivated_at := Some t\<rparr>)"

definition resumeRollout :: "ota_env \<Rightarrow> uuid \<Rightarrow> int option \<Rightarrow> ota_db \<Rightarrow> bool act" where
  "resumeRollout env i targetTtlSeconds d =
     (case find_rollout i d of
        None \<Rightarrow> (Inr False, d)
      | Some r \<Rightarrow>
          if rstate r = RAborted \<or> rstate r = RCompleted then (Inr False, d)
          else if rstate r = RPaused then
            commit (resume_rollout_row i d) d (\<lambda>_ d1.
            commit (resume_phases (onow env) i d1) d1 (\<lambda>_ d2.
            (Inr True, notifyRolloutEvent EvResumed i (rproject r) d2)))
          else if find (in_state PActive) (phases_of i d) \<noteq> None then (Inr False, d)
          else
            (case find (in_state PPending) (phases_of i d) of
               None \<Rightarrow> (Inr True, d)
             | Some next' \<Rightarrow>
                 commit (activatePendingPhase env i (pindex next') (ttl_ms targetTtlSeconds) d) d (\<lambda>_ d1.
                 (Inr True, notifyRolloutEvent EvResumed i (rproject r) d1))))"

definition abortRollout :: "uuid \<Rightarrow> ota_db \<Rightarrow> bool act" where
  "abortRollout i d =
     commit (update_rollouts (\<lambda>r. rid' r = i \<and> rstate r \<in> {RRunning, RPaused}) (\<lambda>r. r\<lparr>rstate := RAborted\<rparr>) d) d (\<lambda>n d1.
     if n = 0 then (Inr False, d1)
     else
       let d2 = (case find_rollout i d1 of None \<Rightarrow> d1 | Some r \<Rightarrow> notifyRolloutEvent EvAborted i (rproject r) d1) in
       commit (pause_phases i d2) d2 (\<lambda>_ d3. (Inr True, d3)))"

section \<open>Rollback\<close>

record RollbackResult =
  rr_jobId :: uuid
  rr_targetDevices :: nat

definition job_targets :: "uuid \<Rightarrow> ota_db \<Rightarrow> ota_target list" where
  "job_targets j d = filter (\<lambda>x. tjob x = j) (ota_targets d)"

definition all_terminal :: "ota_target list \<Rightarrow> bool" where
  "all_terminal ts \<longleftrightarrow> ts \<noteq> [] \<and> list_all (\<lambda>x. tstate x = OFailed \<or> tstate x = OExpired) ts"

definition confirmed_devices :: "uuid \<Rightarrow> ota_db \<Rightarrow> uuid list" where
  "confirmed_devices i d =
     (let jobs = List.map_filter pjob (filter (\<lambda>p. prollout p = i) (phases d)) in
      map tdevice (filter (\<lambda>x. tjob x \<in> set jobs \<and> tstate x = OCompleted) (ota_targets d)))"

text \<open>The conditional claim of the rollback slot, and its transaction: the loser drops its job.\<close>

definition claim_rollback :: "uuid \<Rightarrow> uuid option \<Rightarrow> uuid \<Rightarrow> ota_db \<Rightarrow> nat otx" where
  "claim_rollback i terminalOldJobId jobId =
     update_rollouts (\<lambda>r. rid' r = i \<and> (rrollback_job r = None \<or>
          (terminalOldJobId \<noteq> None \<and> rrollback_job r = terminalOldJobId)))
       (\<lambda>r. r\<lparr>rstate := RAborted, rrollback_job := Some jobId\<rparr>)"

definition drop_job :: "uuid \<Rightarrow> ota_db \<Rightarrow> ota_db" where
  "drop_job j d = d\<lparr>ota_targets := filter (\<lambda>x. tjob x \<noteq> j) (ota_targets d),
                    ota_jobs := filter (\<lambda>x. jid x \<noteq> j) (ota_jobs d)\<rparr>"

definition rollback_tx ::
    "ota_env \<Rightarrow> ota_rollout \<Rightarrow> uuid \<Rightarrow> uuid option \<Rightarrow> uuid list \<Rightarrow> int \<Rightarrow> ota_db \<Rightarrow> uuid otx" where
  "rollback_tx env r from terminalOldJobId deviceIds ttlMs d =
     (let jobId = ofresh env 0 in
      rbind (insert_job \<lparr>jid = jobId, jproject = rproject r, jrelease = from, jcreated_by = rcreated_by r\<rparr> d) (\<lambda>(_, d1).
      rbind (createTargetsForRelease env jobId from deviceIds ttlMs d1) (\<lambda>(_, d2).
      rbind (claim_rollback (rid' r) terminalOldJobId jobId d2) (\<lambda>(claimed, d3).
      if claimed = 0 then
        (case Option.bind (find_rollout (rid' r) (drop_job jobId d3)) rrollback_job of
           None \<Rightarrow> Inl ODatabase
         | Some winner \<Rightarrow> Inr (winner, drop_job jobId d3))
      else
        rbind (pause_phases (rid' r) d3) (\<lambda>(_, d4).
        Inr (jobId, o_notify OTA_NOTIFY_CHANNEL jobId d4))))))"

definition rollback_fresh ::
    "ota_env \<Rightarrow> ota_rollout \<Rightarrow> uuid \<Rightarrow> uuid option \<Rightarrow> int \<Rightarrow> ota_db \<Rightarrow> RollbackResult act" where
  "rollback_fresh env r from terminalOldJobId ttlMs d =
     (let deviceIds = confirmed_devices (rid' r) d in
      if deviceIds = [] then (Inl ORollbackUnavailable, d)
      else
        commit (rollback_tx env r from terminalOldJobId deviceIds ttlMs d) d (\<lambda>_ d1.
        (case find_rollout (rid' r) d1 of
           None \<Rightarrow> (Inl ODatabase, d1)
         | Some r' \<Rightarrow>
             let finalJobId = or_else (rrollback_job r') (ofresh env 0) in
             (Inr \<lparr>rr_jobId = finalJobId, rr_targetDevices = length (job_targets finalJobId d1)\<rparr>, d1))))"

definition rollbackRollout :: "ota_env \<Rightarrow> uuid \<Rightarrow> int option \<Rightarrow> ota_db \<Rightarrow> RollbackResult act" where
  "rollbackRollout env i targetTtlSeconds d =
     (case find_rollout i d of
        None \<Rightarrow> (Inl ONotFound, d)
      | Some r \<Rightarrow>
          (case rfrom_release r of
             None \<Rightarrow> (Inl ORollbackUnavailable, d)
           | Some from \<Rightarrow>
               (case rrollback_job r of
                  Some j \<Rightarrow>
                    if \<not> all_terminal (job_targets j d)
                    then (Inr \<lparr>rr_jobId = j, rr_targetDevices = length (job_targets j d)\<rparr>, d)
                    else rollback_fresh env r from (Some j) (ttl_ms targetTtlSeconds) d
                | None \<Rightarrow> rollback_fresh env r from None (ttl_ms targetTtlSeconds) d)))"

end
