(* ===== verification/OtaSystem.thy ===== *)
theory OtaSystem
  imports OtaTargets OtaRollout "HOL-Library.Code_Target_Nat"
begin

text \<open>
  OTA delivery as a system: \<open>ota_step\<close> is one transaction of any of the processes that share the tables,
  in any order and at any time: direct deployment, rollouts, the broker's delivery loop, downloads,
  acknowledgements, firmware reports and expiry. The theory proves the invariant of the reachable
  tables, that targets refine a machine of five stages, and that finished targets never change.
\<close>

section \<open>Steps\<close>

inductive deploy_step :: "ota_db \<Rightarrow> ota_db \<Rightarrow> bool" where
  report: "deploy_step d (d\<lparr>fw_states := ss\<rparr>)"
| create: "createOtaJob env o' d = Inr (r, d') \<Longrightarrow> deploy_step d d'"
| lease: "leaseNextOtaTarget t locked ms d = Inr (r, d') \<Longrightarrow> deploy_step d d'"
| delivered: "markOtaTargetDelivered t i d = Inr (n, d') \<Longrightarrow> deploy_step d d'"
| release: "releaseOtaTarget t i ms d = Inr (n, d') \<Longrightarrow> deploy_step d d'"
| delivering: "markOtaTargetDelivering j u d = Inr (n, d') \<Longrightarrow> deploy_step d d'"
| result: "recordOtaResult t i d = Inr (n, d') \<Longrightarrow> deploy_step d d'"
| confirm: "confirmOtaTargetByFirmware t i h d = Inr (n, d') \<Longrightarrow> deploy_step d d'"
| expire: "expireOtaBatch t d = Inr (n, d') \<Longrightarrow> deploy_step d d'"
| stall: "stallOtaBatch t m d = Inr (n, d') \<Longrightarrow> deploy_step d d'"

inductive ota_step :: "ota_db \<Rightarrow> ota_db \<Rightarrow> bool" where
  deploy: "deploy_step d d' \<Longrightarrow> ota_step d d'"
| store: "store_rollout env i o' ordered plan d = Inr (r, d') \<Longrightarrow> ota_step d d'"
| activate: "activatePendingPhase env i k ttl d = Inr (b, d') \<Longrightarrow> ota_step d d'"
| judge: "judgeInstalledTargets t j h d = Inr (n, d') \<Longrightarrow> ota_step d d'"
| rollback: "rollback_tx env r from old devs ttl d = Inr (j, d') \<Longrightarrow> ota_step d d'"
| rollout_rows: "update_rollouts q f d = Inr (n, d') \<Longrightarrow> ota_step d d'"
| phase_rows: "update_phases q' f' d = Inr (n, d') \<Longrightarrow> ota_step d d'"
| event: "ota_step d (notifyRolloutEvent ev i p d)"

section \<open>Every step is good\<close>

definition same_targets :: "ota_db \<Rightarrow> ota_db \<Rightarrow> bool" where
  "same_targets d d' \<longleftrightarrow> same_catalog d d' \<and> ota_targets d' = ota_targets d"

lemma same_targets_inv: "same_targets d d' \<Longrightarrow> ota_inv d' = ota_inv d"
  by (auto simp: same_targets_def same_catalog_def ota_inv_def targets_ok_def catalog_ok_def)

lemma same_targets_good: "same_targets d d' \<Longrightarrow> ota_inv d \<Longrightarrow> good d d'"
  by (rule good_cong [OF good_refl]) (simp_all add: same_targets_def)

lemma good_after: "same_targets d d1 \<Longrightarrow> good d1 d2 \<Longrightarrow> good d d2"
  by (simp add: good_def progress_def same_targets_def)

lemma good_before: "good d d1 \<Longrightarrow> same_targets d1 d2 \<Longrightarrow> good d d2"
  by (rule good_cong) (simp_all add: same_targets_def)

lemma same_targets_trans: "same_targets d d1 \<Longrightarrow> same_targets d1 d2 \<Longrightarrow> same_targets d d2"
  by (simp add: same_targets_def same_catalog_def)

lemmas same_simps = same_targets_def same_catalog_def

lemma update_phases_same: "update_phases q f d = Inr (n, d') \<Longrightarrow> same_targets d d'"
  by (auto simp: update_phases_def Let_def same_simps split: if_splits)

lemma update_rollouts_same: "update_rollouts q f d = Inr (n, d') \<Longrightarrow> same_targets d d'"
  by (auto simp: update_rollouts_def Let_def same_simps split: if_splits)

lemma insert_rows_same:
  "insert_rollout r d = Inr (u, d') \<Longrightarrow> same_targets d d'"
  "insert_pool xs d = Inr (u, d') \<Longrightarrow> same_targets d d'"
  "insert_phases ps d = Inr (u, d') \<Longrightarrow> same_targets d d'"
  by (auto simp: insert_rollout_def insert_pool_def insert_phases_def same_simps split: if_splits)

lemma o_notify_same: "same_targets d (o_notify ch m d)"
  by (simp add: same_simps o_notify_def)

lemma createTargets_Inr:
  assumes inv: "ota_inv d" and j: "insert_job j d = Inr (u, d1)"
    and t: "createTargetsForRelease env (jid j) rel devs ttl d1 = Inr (v, d2)"
  obtains run where "d2 = d\<lparr>ota_jobs := ota_jobs d @ [j], ota_targets := ota_targets d @
      map (settle (onow env) run) (new_targets env (jid j) (onow env + ttl) devs)\<rparr>" "good d d2"
proof -
  let ?ts = "new_targets env (jid j) (onow env + ttl) devs"
  from t obtain d' where d': "insert_targets ?ts d1 = Inr ((), d')"
    and c: "complete_running env (jid j) (already_running (resolveReleaseExpectedFirmware rel d') devs d') d' = Inr (v, d2)"
    by (auto simp: createTargetsForRelease_def rbind_eq_Inr)
  note cs = create_settled [OF inv j d' _ refl, of env "already_running (resolveReleaseExpectedFirmware rel d') devs d'"]
  have "\<And>x. x \<in> set ?ts \<Longrightarrow> tjob x = jid j \<and> tstate x = OPending" by (simp add: new_targets_row)
  from cs [OF this] c show ?thesis by (intro that) auto
qed

lemma createPhaseJob_Inr:
  assumes inv: "ota_inv d" and c: "createPhaseJob env i devs ttl d = Inr (j, d')"
  obtains r run where "find_rollout i d = Some r" "j = ofresh env 0" "j \<notin> jid ` set (ota_jobs d)"
    "d' = o_notify OTA_NOTIFY_CHANNEL j (d\<lparr>ota_jobs := ota_jobs d @ [\<lparr>jid = j, jproject = rproject r,
        jrelease = rrelease r, jcreated_by = rcreated_by r\<rparr>], ota_targets := ota_targets d @
      map (settle (onow env) run) (new_targets env j (onow env + ttl) devs)\<rparr>)" "good d d'"
proof -
  from c obtain r d1 d2 where r: "find_rollout i d = Some r" "j = ofresh env 0" "d' = o_notify OTA_NOTIFY_CHANNEL j d2"
    and s: "insert_job \<lparr>jid = j, jproject = rproject r, jrelease = rrelease r, jcreated_by = rcreated_by r\<rparr> d = Inr ((), d1)"
      "createTargetsForRelease env j (rrelease r) devs ttl d1 = Inr ((), d2)"
    by (auto simp: createPhaseJob_def Let_def rbind_eq_Inr split: option.splits)
  from s(1) have "j \<notin> jid ` set (ota_jobs d)" by (simp add: insert_job_Inr)
  moreover obtain run where "d2 = d\<lparr>ota_jobs := ota_jobs d @ [\<lparr>jid = j, jproject = rproject r,
        jrelease = rrelease r, jcreated_by = rcreated_by r\<rparr>], ota_targets := ota_targets d @
      map (settle (onow env) run) (new_targets env j (onow env + ttl) devs)\<rparr>" "good d d2"
    using createTargets_Inr [OF inv s(1), of env "rrelease r" devs ttl "()" d2] s(2) by auto
  ultimately show ?thesis
    using that [of r run] r good_before [OF _ o_notify_same] by blast
qed

lemma store_rollout_Inr:
  assumes "store_rollout env i o' ordered plan d = Inr (r, d')"
  obtains first rest d1 d2 d3 d4 j n where "plan = first # rest"
    "insert_rollout (new_rollout i o') d = Inr ((), d1)" "insert_pool (new_pool i ordered) d1 = Inr ((), d2)"
    "insert_phases (map (new_phase i) plan) d2 = Inr ((), d3)"
    "createPhaseJob env i (take (pp_count first) ordered) (ttl_ms (cr_targetTtlSeconds o')) d3 = Inr (j, d4)"
    "update_phases (\<lambda>p. prollout p = i \<and> pindex p = 1)
      (\<lambda>p. p\<lparr>pstate := PActive, pjob := Some j, pactivated_at := Some (onow env)\<rparr>) d4 = Inr (n, d')"
    "cd_jobId r = j"
  using assms by (cases plan) (auto simp: store_rollout_def rbind_eq_Inr)

lemma store_rollout_good:
  assumes inv: "ota_inv d" and s: "store_rollout env i o' ordered plan d = Inr (r, d')"
  shows "good d d'"
  using s
proof (rule store_rollout_Inr)
  fix first rest d1 d2 d3 d4 j n
  assume 1: "insert_rollout (new_rollout i o') d = Inr ((), d1)" "insert_pool (new_pool i ordered) d1 = Inr ((), d2)"
      "insert_phases (map (new_phase i) plan) d2 = Inr ((), d3)"
    and 2: "createPhaseJob env i (take (pp_count first) ordered) (ttl_ms (cr_targetTtlSeconds o')) d3 = Inr (j, d4)"
    and 3: "update_phases (\<lambda>p. prollout p = i \<and> pindex p = 1)
      (\<lambda>p. p\<lparr>pstate := PActive, pjob := Some j, pactivated_at := Some (onow env)\<rparr>) d4 = Inr (n, d')"
  have same: "same_targets d d3"
    using 1 by (blast intro: insert_rows_same same_targets_trans)
  then have "ota_inv d3" using inv same_targets_inv by blast
  then have "good d3 d4" using 2 by (rule createPhaseJob_Inr)
  with same 3 show ?thesis by (blast intro: good_after good_before update_phases_same)
qed

lemma activatePendingPhase_good:
  assumes inv: "ota_inv d" and a: "activatePendingPhase env i k ttl d = Inr (b, d')"
  shows "good d d'"
proof (cases "find_phase i k d")
  case None
  then show ?thesis using a inv by (simp add: activatePendingPhase_def good_refl)
next
  case (Some ph)
  obtain n d1 where 1: "update_phases (\<lambda>p. prollout p = i \<and> pindex p = k \<and> pstate p = PPending)
      (\<lambda>p. p\<lparr>pstate := PActive, pactivated_at := Some (onow env)\<rparr>) d = Inr (n, d1)"
    using a Some by (auto simp: activatePendingPhase_def rbind_eq_Inr)
  note same = update_phases_same [OF 1]
  show ?thesis
  proof (cases "n = 0")
    case True
    then have "d' = d1" using a Some 1 by (simp add: activatePendingPhase_def)
    with same inv show ?thesis by (simp add: same_targets_good)
  next
    case False
    then obtain j d2 m where 2: "createPhaseJob env i (take (ptarget_count ph) (drop (slice_start i k d1) (pool_of i d1))) ttl d1 = Inr (j, d2)"
      and 3: "update_phases (\<lambda>p. prollout p = i \<and> pindex p = k) (\<lambda>p. p\<lparr>pjob := Some j\<rparr>) d2 = Inr (m, d')"
      using a Some 1 by (auto simp: activatePendingPhase_def Let_def rbind_eq_Inr)
    have "ota_inv d1" using inv same same_targets_inv by blast
    then have "good d1 d2" using 2 by (rule createPhaseJob_Inr)
    with same 3 show ?thesis by (blast intro: good_after good_before update_phases_same)
  qed
qed

lemma judgeInstalledTargets_good:
  assumes "ota_inv d" and "judgeInstalledTargets t j h d = Inr (n, d')"
  shows "good d d'"
proof (cases j)
  case None
  then show ?thesis using assms by (simp add: judgeInstalledTargets_def good_refl)
next
  case (Some k)
  show ?thesis
    using assms(2) unfolding judgeInstalledTargets_def Some option.case
    by (rule good_update [OF assms(1)]) (auto simp: tkey_def)
qed

lemma drop_job_new:
  assumes "ota_inv d" and "jid j \<notin> jid ` set (ota_jobs d)" and "\<And>x. x \<in> set ts \<Longrightarrow> tjob x = jid j"
    and "same_targets (d\<lparr>ota_jobs := ota_jobs d @ [j], ota_targets := ota_targets d @ ts\<rparr>) d1"
  shows "same_targets d (drop_job (jid j) d1)"
proof -
  have "filter (\<lambda>x. tjob x \<noteq> jid j) (ota_targets d) = ota_targets d"
    using old_targets_job [OF assms(1,2)] by simp
  moreover have "filter (\<lambda>x. tjob x \<noteq> jid j) ts = []" using assms(3) by simp
  moreover have "filter (\<lambda>x. jid x \<noteq> jid j) (ota_jobs d) = ota_jobs d"
    using assms(2) by (metis (mono_tags, lifting) filter_True image_eqI)
  ultimately show ?thesis using assms(4) by (simp add: drop_job_def same_simps)
qed

lemma rollback_tx_good:
  assumes inv: "ota_inv d" and s: "rollback_tx env r from old devs ttl d = Inr (j, d')"
  shows "good d d'"
proof -
  let ?j = "\<lparr>jid = ofresh env 0, jproject = rproject r, jrelease = from, jcreated_by = rcreated_by r\<rparr>"
  from s obtain d1 d2 d3 n where 1: "insert_job ?j d = Inr ((), d1)"
    and 2: "createTargetsForRelease env (jid ?j) from devs ttl d1 = Inr ((), d2)"
    and 3: "claim_rollback (rid' r) old (jid ?j) d2 = Inr (n, d3)"
    by (auto simp: rollback_tx_def Let_def rbind_eq_Inr)
  have same: "same_targets d2 d3" using 3 unfolding claim_rollback_def by (rule update_rollouts_same)
  obtain run where d2: "d2 = d\<lparr>ota_jobs := ota_jobs d @ [?j], ota_targets := ota_targets d @
      map (settle (onow env) run) (new_targets env (jid ?j) (onow env + ttl) devs)\<rparr>" and g: "good d d2"
    using createTargets_Inr [OF inv 1 2] by metis
  show ?thesis
  proof (cases "n = 0")
    case True
    then have "d' = drop_job (jid ?j) d3"
      using s 1 2 3 by (auto simp: rollback_tx_def Let_def split: option.splits)
    moreover have "same_targets d (drop_job (jid ?j) d3)"
      using inv by (rule drop_job_new) (use 1 same in \<open>auto simp: insert_job_Inr d2 new_targets_row\<close>)
    ultimately show ?thesis using inv by (simp add: same_targets_good)
  next
    case False
    then obtain m d4 where "pause_phases (rid' r) d3 = Inr (m, d4)" "d' = o_notify OTA_NOTIFY_CHANNEL (jid ?j) d4"
      using s 1 2 3 by (auto simp: rollback_tx_def Let_def rbind_eq_Inr)
    with g same show ?thesis
      unfolding pause_phases_def by (blast intro: good_before update_phases_same o_notify_same)
  qed
qed

lemma succeedsD: "succeeds d r \<Longrightarrow> r = Inr (v, d') \<Longrightarrow> good d d'"
  by (auto simp: succeeds_def)

lemma deploy_step_good:
  assumes "deploy_step d d'" and inv: "ota_inv d"
  shows "good d d'"
  using assms(1)
proof cases
  case (report ss)
  with inv show ?thesis by (intro same_targets_good) (simp_all add: same_simps)
next
  case (create env o' r)
  then obtain job devs where "createOtaJob env o' d = Inr ((job, devs), d')" by (cases r) auto
  then show ?thesis by (rule createOtaJob_Inr [OF inv])
qed (use inv in \<open>blast intro: succeedsD leaseNextOtaTarget_ok markOtaTargetDelivered_ok releaseOtaTarget_ok
    markOtaTargetDelivering_ok recordOtaResult_ok confirmOtaTargetByFirmware_ok expireOtaBatch_ok stallOtaBatch_ok\<close>)+

lemma ota_step_good:
  assumes "ota_step d d'" and inv: "ota_inv d"
  shows "good d d'"
  using assms(1)
proof cases
  case deploy
  with inv show ?thesis by (blast intro: deploy_step_good)
next
  case (event ev i p)
  with inv show ?thesis by (simp add: notifyRolloutEvent_def same_targets_good o_notify_same)
qed (use inv in \<open>blast intro: store_rollout_good activatePendingPhase_good judgeInstalledTargets_good
    rollback_tx_good same_targets_good update_rollouts_same update_phases_same\<close>)+

section \<open>The abstract machine\<close>

text \<open>What an operator sees of a target.\<close>

datatype stage = Waiting | Notified | Succeeded | Broken | Lapsed

fun stage_of :: "ota_state \<Rightarrow> stage" where
  "stage_of OPending = Waiting"
| "stage_of OLeased = Waiting"
| "stage_of ODelivered = Notified"
| "stage_of ODelivering = Notified"
| "stage_of ODownloaded = Notified"
| "stage_of OInstalled = Notified"
| "stage_of OExpired = Lapsed"
| "stage_of OCompleted = Succeeded"
| "stage_of OFailed = Broken"

inductive stage_step :: "stage \<Rightarrow> stage \<Rightarrow> bool" where
  "stage_step Waiting Notified"
| "stage_step Waiting Lapsed"
| "stage_step Notified Succeeded"
| "stage_step Notified Broken"

inductive_simps stage_step_simps [simp]:
  "stage_step Waiting s" "stage_step Notified s" "stage_step Succeeded s" "stage_step Broken s" "stage_step Lapsed s"

text \<open>A fleet is the stage of every target; a step moves any targets by a step each and adds targets.\<close>

definition fleet_step :: "(uuid \<rightharpoonup> stage) \<Rightarrow> (uuid \<rightharpoonup> stage) \<Rightarrow> bool" where
  "fleet_step m m' \<longleftrightarrow> (\<forall>i. case m i of
       None \<Rightarrow> m' i = None \<or> m' i = Some Waiting \<or> m' i = Some Succeeded
     | Some s \<Rightarrow> m' i = Some s \<or> (\<exists>s'. m' i = Some s' \<and> stage_step s s'))"

definition fleet :: "ota_db \<Rightarrow> (uuid \<rightharpoonup> stage)" where
  "fleet d = map_of (map (\<lambda>x. (tid x, stage_of (tstate x))) (ota_targets d))"

lemma edge_stage: "ota_edge s s' \<Longrightarrow> stage_of s' = stage_of s \<or> stage_step (stage_of s) (stage_of s')"
  by (erule ota_edge.cases) auto

lemma moved_stage: "moved x y \<Longrightarrow> stage_of (tstate y) = stage_of (tstate x) \<or>
    stage_step (stage_of (tstate x)) (stage_of (tstate y))"
  using edge_stage by (auto simp: moved_def)

lemma fleet_Some:
  assumes "ota_inv d"
  shows "fleet d i = Some s \<longleftrightarrow> (\<exists>x \<in> set (ota_targets d). tid x = i \<and> s = stage_of (tstate x))"
proof -
  have "distinct (map fst (map (\<lambda>x. (tid x, stage_of (tstate x))) (ota_targets d)))"
    using assms by (simp add: ota_inv_def targets_ok_def comp_def)
  then show ?thesis unfolding fleet_def by (auto simp: map_of_eq_Some_iff)
qed

lemma good_fleet:
  assumes inv: "ota_inv d" and g: "good d d'"
  shows "fleet_step (fleet d) (fleet d')"
proof -
  from g obtain old new where ys: "ota_targets d' = old @ new" and m: "list_all2 moved (ota_targets d) old"
    and new: "\<forall>y \<in> set new. tstate y \<in> {OPending, OCompleted}" and inv': "ota_inv d'"
    by (auto simp: good_def progress_def targets_progress_def)
  have "fleet d' i = Some s \<or> (\<exists>s'. fleet d' i = Some s' \<and> stage_step s s')" if "fleet d i = Some s" for i s
  proof -
    from that obtain x where x: "x \<in> set (ota_targets d)" "tid x = i" "s = stage_of (tstate x)"
      by (auto simp: fleet_Some [OF inv])
    then obtain y where "y \<in> set old" "moved x y"
      using m by (metis in_set_conv_nth list_all2_conv_all_nth)
    with x movedD [of x y] moved_stage [of x y] show ?thesis
      by (auto simp: fleet_Some [OF inv'] ys)
  qed
  moreover have "fleet d' i = Some Waiting \<or> fleet d' i = Some Succeeded"
    if "fleet d i = None" "fleet d' i = Some s" for i s
  proof -
    from that obtain y where y: "y \<in> set (old @ new)" "tid y = i" "s = stage_of (tstate y)"
      by (auto simp: fleet_Some [OF inv'] ys)
    have "y \<notin> set old"
    proof
      assume "y \<in> set old"
      then obtain x where "x \<in> set (ota_targets d)" "moved x y"
        using m by (metis in_set_conv_nth list_all2_conv_all_nth)
      then have "fleet d i = Some (stage_of (tstate x))"
        using movedD [of x y] y by (auto simp: fleet_Some [OF inv])
      with that show False by simp
    qed
    with y new have "s = Waiting \<or> s = Succeeded" by auto
    with that show ?thesis by auto
  qed
  ultimately show ?thesis
    unfolding fleet_step_def by (auto split: option.split)
qed

section \<open>Finished targets\<close>

definition ota_finished :: "ota_target \<Rightarrow> bool" where
  "ota_finished x \<longleftrightarrow> tstate x \<in> {OExpired, OCompleted, OFailed}"

definition kept :: "ota_db \<Rightarrow> ota_db \<Rightarrow> bool" where
  "kept d d' \<longleftrightarrow> (\<forall>x \<in> set (ota_targets d). ota_finished x \<longrightarrow> x \<in> set (ota_targets d'))"

lemma edge_not_finished: "ota_edge s s' \<Longrightarrow> s \<notin> {OExpired, OCompleted, OFailed}"
  by (erule ota_edge.cases) auto

lemma moved_finished: "moved x y \<Longrightarrow> ota_finished x \<Longrightarrow> y = x"
  using edge_not_finished by (auto simp: moved_def ota_finished_def)

lemma good_kept:
  assumes "good d d'"
  shows "kept d d'"
  unfolding kept_def
proof (intro ballI impI)
  fix x assume x: "x \<in> set (ota_targets d)" "ota_finished x"
  from assms obtain old new where "ota_targets d' = old @ new" "list_all2 moved (ota_targets d) old"
    by (auto simp: good_def progress_def targets_progress_def)
  with x(1) obtain y where "y \<in> set (ota_targets d')" "moved x y"
    by (metis UnI1 in_set_conv_nth list_all2_conv_all_nth set_append)
  with x(2) show "x \<in> set (ota_targets d')" using moved_finished by metis
qed

section \<open>The system\<close>

definition ota_init :: "ota_db \<Rightarrow> bool" where
  "ota_init d \<longleftrightarrow> catalog_ok d \<and> ota_targets d = []"

interpretation ota: progressing_system ota_init ota_step ota_inv kept
proof
  fix d d' d'' :: ota_db
  show "ota_init d \<Longrightarrow> ota_inv d" by (simp add: ota_init_def ota_inv_def targets_ok_def)
  show "ota_inv d \<Longrightarrow> ota_step d d' \<Longrightarrow> ota_inv d'" using ota_step_good by (simp add: good_def)
  show "kept d d" by (simp add: kept_def)
  show "kept d d' \<Longrightarrow> kept d' d'' \<Longrightarrow> kept d d''" by (auto simp: kept_def)
  show "ota_inv d \<Longrightarrow> ota_step d d' \<Longrightarrow> kept d d'" by (blast intro: good_kept ota_step_good)
qed

interpretation ota: refining_system ota_init ota_step ota_inv fleet fleet_step
  by unfold_locales (blast intro: good_fleet ota_step_good)

end
