(* ===== verification/OtaProperties.thy ===== *)
theory OtaProperties
  imports OtaSystem
begin

text \<open>
  The properties of OTA delivery, with a concrete run: a job for two devices, of which one already
  runs the firmware; the other is notified, installs it and is confirmed.
\<close>

section \<open>A concrete run\<close>

definition eo_uuid :: "char \<Rightarrow> uuid" where
  "eo_uuid c = js (''00000000-0000-4000-8000-00000000000'' @ [c])"

definition eo_device :: "char \<Rightarrow> device" where
  "eo_device c = \<lparr>did = eo_uuid c, device_uid = js (''dev-'' @ [c]), dproject_id = eo_uuid CHR ''9'', next_command_sequence = 1\<rparr>"

definition eo_db :: ota_db where
  "eo_db = \<lparr>o_devices = map eo_device [CHR ''1'', CHR ''2'', CHR ''3''],
     releases = [\<lparr>fid = eo_uuid CHR ''a'', fproject = eo_uuid CHR ''9'', fartifact = Some (eo_uuid CHR ''c''),
                   fbin_hash = js ''bb'', fbin_size = 10, fversion = None\<rparr>,
                  \<lparr>fid = eo_uuid CHR ''b'', fproject = eo_uuid CHR ''9'', fartifact = None,
                   fbin_hash = js ''cc'', fbin_size = 10, fversion = None\<rparr>],
     artifacts = [\<lparr>aid = eo_uuid CHR ''c'', abuild_id = js ''aa''\<rparr>],
     fw_states = [\<lparr>sdevice = eo_uuid CHR ''1'', sfw_hash = js ''aa'', sreported_at = 10\<rparr>],
     ota_jobs = [], ota_targets = [], rollouts = [], phases = [], pool = [], o_notifications = []\<rparr>"

definition eo_env :: "time \<Rightarrow> string \<Rightarrow> ota_env" where
  "eo_env t cs = \<lparr>onow = t, ofresh = (\<lambda>i. js (''00000000-0000-4000-9000-0000000000'' @ cs @ [char_of (48 + i)]))\<rparr>"

definition eo_opts :: CreateOtaJobOptions where
  "eo_opts = \<lparr>oj_projectId = eo_uuid CHR ''9'', oj_releaseId = eo_uuid CHR ''a'', oj_createdBy = eo_uuid CHR ''8'',
     oj_deviceIds = [eo_uuid CHR ''1'', eo_uuid CHR ''2''], oj_targetTtlSeconds = 900\<rparr>"

definition o_after :: "'a otx \<Rightarrow> ota_db" where
  "o_after r = (case r of Inl _ \<Rightarrow> eo_db | Inr (_, d) \<Rightarrow> d)"

definition eo_job :: uuid where "eo_job = ofresh (eo_env 100 ''a'') 0"
definition eo_tx1 :: "(uuid \<times> (uuid \<times> jsstring \<times> bool) list) otx" where
  "eo_tx1 = createOtaJob (eo_env 100 ''a'') eo_opts eo_db"
definition eo_tx2 :: "LeasedOtaTarget option otx" where
  "eo_tx2 = leaseNextOtaTarget 200 {} 5000 (o_after eo_tx1)"
definition eo_tx3 :: "nat otx" where
  "eo_tx3 = markOtaTargetDelivered 300 (ofresh (eo_env 100 ''a'') 2) (o_after eo_tx2)"
definition eo_tx4 :: "nat otx" where
  "eo_tx4 = recordOtaResult 400 \<lparr>ro_deviceUid = js ''dev-2'', ro_jobId = eo_job, ro_releaseId = eo_uuid CHR ''a'',
     ro_state = AckInstalled, ro_code = 0, ro_message = None\<rparr> (o_after eo_tx3)"
definition eo_tx5 :: "nat otx" where
  "eo_tx5 = confirmOtaTargetByFirmware 500 (eo_uuid CHR ''2'') (js ''aa'') (o_after eo_tx4)"

lemma o_after_run: "\<not> isl r \<Longrightarrow> \<exists>x. r = Inr (x, o_after r)"
  by (cases r) (auto simp: o_after_def)

lemma eo_run_ok: "\<not> isl eo_tx1 \<and> \<not> isl eo_tx2 \<and> \<not> isl eo_tx3 \<and> \<not> isl eo_tx4 \<and> \<not> isl eo_tx5"
  by code_simp

lemma eo_states:
  "map (map (\<lambda>x. (tdevice x, tstate x, tresult_code x)) \<circ> ota_targets \<circ> (\<lambda>f. f ()))
     [\<lambda>_. o_after eo_tx1, \<lambda>_. o_after eo_tx2, \<lambda>_. o_after eo_tx4, \<lambda>_. o_after eo_tx5] =
   [[(eo_uuid CHR ''1'', OCompleted, Some 0), (eo_uuid CHR ''2'', OPending, None)],
    [(eo_uuid CHR ''1'', OCompleted, Some 0), (eo_uuid CHR ''2'', OLeased, None)],
    [(eo_uuid CHR ''1'', OCompleted, Some 0), (eo_uuid CHR ''2'', OInstalled, None)],
    [(eo_uuid CHR ''1'', OCompleted, Some 0), (eo_uuid CHR ''2'', OCompleted, Some 0)]]"
  by code_simp

lemma eo_init: "ota_init eo_db"
  unfolding ota_init_def catalog_ok_def by (intro conjI; code_simp)

lemma eo_step1: "ota_step eo_db (o_after eo_tx1)"
  using o_after_run [of eo_tx1] eo_run_ok unfolding eo_tx1_def by (auto intro: ota_step.deploy deploy_step.create)

lemma eo_steps3: "ota_step\<^sup>*\<^sup>* (o_after eo_tx1) (o_after eo_tx3)"
proof -
  have "ota_step (o_after eo_tx1) (o_after eo_tx2)"
    using o_after_run [of eo_tx2] eo_run_ok unfolding eo_tx2_def by (auto intro: ota_step.deploy deploy_step.lease)
  moreover have "ota_step (o_after eo_tx2) (o_after eo_tx3)"
    using o_after_run [of eo_tx3] eo_run_ok unfolding eo_tx3_def by (auto intro: ota_step.deploy deploy_step.delivered)
  ultimately show ?thesis by (meson converse_rtranclp_into_rtranclp rtranclp.rtrancl_refl)
qed

lemma eo_steps: "ota_step\<^sup>*\<^sup>* (o_after eo_tx1) (o_after eo_tx5)"
proof -
  have "ota_step (o_after eo_tx3) (o_after eo_tx4)"
    using o_after_run [of eo_tx4] eo_run_ok unfolding eo_tx4_def by (auto intro: ota_step.deploy deploy_step.result)
  moreover have "ota_step (o_after eo_tx4) (o_after eo_tx5)"
    using o_after_run [of eo_tx5] eo_run_ok unfolding eo_tx5_def by (auto intro: ota_step.deploy deploy_step.confirm)
  ultimately show ?thesis using eo_steps3 by (meson rtranclp.rtrancl_into_rtrancl)
qed

lemma eo_step1s: "ota_step\<^sup>*\<^sup>* eo_db (o_after eo_tx1)"
  using eo_step1 by (rule r_into_rtranclp)

lemma eo_run: "ota_step\<^sup>*\<^sup>* eo_db (o_after eo_tx5)"
  using eo_step1 eo_steps by (rule converse_rtranclp_into_rtranclp)


section \<open>Properties\<close>

lemma succeeds_inv: "succeeds d r \<Longrightarrow> \<exists>n d'. r = Inr (n, d') \<and> ota_inv d'"
  by (auto simp: succeeds_def good_def)

text \<open>No CHECK constraint of the targets table ever rejects a delivery operation: on every
  reachable database the claim, the delivery mark, the release, the download mark, the device
  acknowledgement, the firmware confirmation, the expiry and the stall timeout all commit, and what
  they leave satisfies the invariant again.\<close>

theorem ota_operations_accepted:
  assumes "ota_init d0" and "ota_step\<^sup>*\<^sup>* d0 d"
  shows "(\<forall>r \<in> {markOtaTargetDelivered t i d, releaseOtaTarget t i ms d, markOtaTargetDelivering i u d,
      recordOtaResult t a d, confirmOtaTargetByFirmware t i h d, expireOtaBatch t d, stallOtaBatch t m d}.
    \<exists>n d'. r = Inr (n, d') \<and> ota_inv d') \<and>
    (\<exists>row d'. leaseNextOtaTarget t locked ms d = Inr (row, d') \<and> ota_inv d')"
proof (rule conjI)
  have inv: "ota_inv d" using assms by (rule ota.reachable_inv)
  note ok = succeeds_inv [of d]
  show "\<forall>r \<in> {markOtaTargetDelivered t i d, releaseOtaTarget t i ms d, markOtaTargetDelivering i u d,
      recordOtaResult t a d, confirmOtaTargetByFirmware t i h d, expireOtaBatch t d, stallOtaBatch t m d}.
    \<exists>n d'. r = Inr (n, d') \<and> ota_inv d'"
    using inv markOtaTargetDelivered_ok releaseOtaTarget_ok markOtaTargetDelivering_ok recordOtaResult_ok
      confirmOtaTargetByFirmware_ok expireOtaBatch_ok stallOtaBatch_ok by (auto intro!: ok)
  show "\<exists>row d'. leaseNextOtaTarget t locked ms d = Inr (row, d') \<and> ota_inv d'"
    using inv by (intro ok leaseNextOtaTarget_ok)
qed

theorem ota_operations_accepted_witness:
  "\<exists>row d'. leaseNextOtaTarget 600 {} 5000 (o_after eo_tx5) = Inr (row, d') \<and> ota_inv d'"
  by (rule ota_operations_accepted [OF eo_init eo_run, THEN conjunct2])

text \<open>C24. Refinement: whatever the processes do, in whatever order, the stages of the targets move as in
  the abstract machine \<open>fleet_step\<close>: a waiting target is notified or lapses, a notified one succeeds or
  breaks, new targets wait or have succeeded at once, nothing else changes.\<close>

theorem ota_refines_stages:
  assumes "ota_init d0" and "ota_step\<^sup>*\<^sup>* d0 d" and "ota_step\<^sup>*\<^sup>* d d'"
  shows "fleet_step\<^sup>*\<^sup>* (fleet d) (fleet d')"
  using assms(3) ota.reachable_inv [OF assms(1,2)] by (rule ota.steps_sim)

theorem ota_refines_stages_witness:
  "fleet_step\<^sup>*\<^sup>* (fleet (o_after eo_tx1)) (fleet (o_after eo_tx5)) \<and>
   fleet (o_after eo_tx1) (ofresh (eo_env 100 ''a'') 2) = Some Waiting \<and>
   fleet (o_after eo_tx5) (ofresh (eo_env 100 ''a'') 2) = Some Succeeded"
proof -
  have "fleet (o_after eo_tx1) (ofresh (eo_env 100 ''a'') 2) = Some Waiting \<and>
   fleet (o_after eo_tx5) (ofresh (eo_env 100 ''a'') 2) = Some Succeeded" by code_simp
  then show ?thesis
    using ota_refines_stages [OF eo_init eo_step1s eo_steps] by blast
qed

text \<open>C23. A target that is completed, failed or expired never changes again: no later step of any
  process touches its row.\<close>

theorem finished_targets_final:
  assumes "ota_init d0" and "ota_step\<^sup>*\<^sup>* d0 d" and "x \<in> set (ota_targets d)" and "ota_finished x"
    and "ota_step\<^sup>*\<^sup>* d d'"
  shows "x \<in> set (ota_targets d') \<and> (\<forall>y \<in> set (ota_targets d'). tid y = tid x \<longrightarrow> y = x)"
proof -
  have inv: "ota_inv d" using assms(1,2) by (rule ota.reachable_inv)
  then have "x \<in> set (ota_targets d')"
    using ota.steps_before [OF assms(5) inv] assms(3,4) by (simp add: kept_def)
  with ota.steps_inv [OF assms(5) inv] show ?thesis by (auto intro: tid_unique)
qed

theorem finished_targets_final_witness:
  "\<exists>x \<in> set (ota_targets (o_after eo_tx1)). tstate x = OCompleted \<and> x \<in> set (ota_targets (o_after eo_tx5))"
proof -
  have "map tstate (ota_targets (o_after eo_tx1)) = [OCompleted, OPending]" by code_simp
  then obtain x where "x \<in> set (ota_targets (o_after eo_tx1))" "tstate x = OCompleted"
    by (metis image_iff list.set_intros(1) list.set_map)
  with finished_targets_final [OF eo_init eo_step1s _ _ eo_steps, of x]
  show ?thesis by (auto simp: ota_finished_def)
qed

lemma filter_exact:
  assumes "distinct (map g xs)" and "distinct ys" and "length (filter (\<lambda>x. g x \<in> set ys) xs) = length ys"
  shows "set (map g (filter (\<lambda>x. g x \<in> set ys) xs)) = set ys"
proof (rule card_subset_eq)
  show "card (set (map g (filter (\<lambda>x. g x \<in> set ys) xs))) = card (set ys)"
    using assms by (simp only: distinct_card distinct_map_filter length_map)
qed auto

lemma already_running_iff:
  "i \<in> set (already_running fw devs d) \<longleftrightarrow> i \<in> set devs \<and>
     (\<exists>s \<in> set (fw_states d). sdevice s = i \<and> sfw_hash s \<noteq> [] \<and> fw = Some (sfw_hash s))"
  unfolding already_running_def by (cases fw) (simp, auto)

text \<open>A successful deployment creates exactly one target per requested device, all in the new job,
  none for any other device; each waits for delivery, except that the devices that already report the
  identity of the release are completed at once.\<close>

theorem create_job_targets:
  assumes "ota_inv d" and "createOtaJob env o' d = Inr ((job, devs), d')"
  shows "\<exists>ts. ota_targets d' = ota_targets d @ ts \<and> distinct (map tdevice ts) \<and>
    set (map tdevice ts) = set (oj_deviceIds o') \<and>
    (\<forall>x \<in> set ts. tjob x = job \<and>
       tstate x = (if \<exists>s \<in> set (fw_states d). sdevice s = tdevice x \<and> sfw_hash s \<noteq> [] \<and>
                         resolveReleaseExpectedFirmware (oj_releaseId o') d = Some (sfw_hash s)
                   then OCompleted else OPending))"
proof -
  let ?run = "already_running (resolveReleaseExpectedFirmware (oj_releaseId o') d) (oj_deviceIds o') d"
  let ?devs = "filter (\<lambda>x. did x \<in> set (oj_deviceIds o')) (o_devices d)"
  from assms obtain ts where ts: "ota_targets d' = ota_targets d @ map (settle (onow env) ?run) ts"
      "ts = new_targets env job (onow env + oj_targetTtlSeconds o' * 1000) (map did ?devs)"
    and ids: "distinct (oj_deviceIds o')" "length ?devs = length (oj_deviceIds o')"
    by (rule createOtaJob_Inr)
  have dd: "distinct (map did (o_devices d))" using assms(1) by (simp add: ota_inv_def catalog_ok_def)
  have keys: "map tdevice (map (settle (onow env) ?run) ts) = map did ?devs"
    by (simp add: comp_def ts(2) new_targets_keys)
  have st: "tjob y = job \<and> tstate y = (if \<exists>s \<in> set (fw_states d). sdevice s = tdevice y \<and> sfw_hash s \<noteq> [] \<and>
        resolveReleaseExpectedFirmware (oj_releaseId o') d = Some (sfw_hash s) then OCompleted else OPending)"
    if "y \<in> set (map (settle (onow env) ?run) ts)" for y
  proof -
    from that obtain x where x: "x \<in> set ts" "y = settle (onow env) ?run x" by auto
    note row = new_targets_row [OF x(1) [unfolded ts(2)]]
    have "tdevice x \<in> set (oj_deviceIds o')" using row(5) by auto
    then have run: "tdevice x \<in> set ?run \<longleftrightarrow> (\<exists>s \<in> set (fw_states d). sdevice s = tdevice x \<and> sfw_hash s \<noteq> [] \<and>
        resolveReleaseExpectedFirmware (oj_releaseId o') d = Some (sfw_hash s))"
      unfolding already_running_iff by blast
    show ?thesis unfolding x(2) settle_simps settle_def using row(1,2) run by simp
  qed
  have "distinct (map tdevice (map (settle (onow env) ?run) ts))" unfolding keys by (rule distinct_map_filter [OF dd])
  moreover have "set (map tdevice (map (settle (onow env) ?run) ts)) = set (oj_deviceIds o')"
    unfolding keys by (rule filter_exact [OF dd ids])
  ultimately show ?thesis
    by (intro exI [of _ "map (settle (onow env) ?run) ts"] conjI ballI ts(1)) (simp_all only: st)
qed

theorem create_job_targets_witness:
  "\<exists>devs. createOtaJob (eo_env 100 ''a'') eo_opts eo_db = Inr ((eo_job, devs), o_after eo_tx1) \<and>
    set (map tdevice (ota_targets (o_after eo_tx1))) = {eo_uuid CHR ''1'', eo_uuid CHR ''2''}"
proof -
  have "case eo_tx1 of Inl _ \<Rightarrow> False | Inr r \<Rightarrow> fst (fst r) = eo_job" by code_simp
  then obtain devs d' where tx: "eo_tx1 = Inr ((eo_job, devs), d')" by (auto split: sum.splits)
  have d': "d' = o_after eo_tx1" unfolding o_after_def tx by simp
  have "ota_inv eo_db" using eo_init by (rule ota.init_inv)
  from create_job_targets [OF this tx [unfolded eo_tx1_def]] tx
  show ?thesis by (auto simp: eo_tx1_def d' eo_opts_def eo_db_def)
qed


text \<open>C27. With a clock that does not go back between its batches, the batched expiry loop returns and has then
  expired every target that was due when it started: each target is unchanged and was not due, or was
  waiting past its window at one of the instants the loop looked and is expired now. The result is the
  number of targets expired, and nothing but targets changes.\<close>

theorem ota_expiry_complete:
  assumes "ota_inv d" and "mono clock"
  shows "\<exists>n ys. expireOtaTargets clock d = (Inr n, d\<lparr>ota_targets := ys\<rparr>) \<and>
    list_all2 (\<lambda>x y. (y = x \<and> \<not> ota_expirable (clock 0) x) \<or>
        (\<exists>i. ota_expirable (clock i) x \<and> y = x\<lparr>tstate := OExpired, tlease := None\<rparr>)) (ota_targets d) ys \<and>
    n + length (filter (\<lambda>x. tstate x \<in> {OPending, OLeased}) ys) =
      length (filter (\<lambda>x. tstate x \<in> {OPending, OLeased}) (ota_targets d))"
proof -
  have "\<forall>x \<in> set (ota_targets d). target_check x" "distinct (map tid (ota_targets d))"
    using assms(1) by (auto simp: ota_inv_def targets_ok_def)
  from expiry.loop_complete [OF assms(2) this] show ?thesis unfolding expiry.handled_def .
qed

lemma eo_inv1: "ota_inv (o_after eo_tx1)"
  using eo_init eo_step1s by (rule ota.reachable_inv)

theorem ota_expiry_complete_witness:
  "\<exists>n ys. expireOtaTargets (\<lambda>i. 1000000 + int i) (o_after eo_tx1) = (Inr n, (o_after eo_tx1)\<lparr>ota_targets := ys\<rparr>) \<and>
    map tstate ys = [OCompleted, OExpired]"
proof -
  have m: "mono (\<lambda>i. 1000000 + int i)" by (simp add: mono_def)
  have "map (\<lambda>x. (tstate x, ota_expirable 1000000 x)) (ota_targets (o_after eo_tx1)) = [(OCompleted, False), (OPending, True)]"
    by code_simp
  then obtain x y where xs: "ota_targets (o_after eo_tx1) = [x, y]" "tstate x = OCompleted" "ota_expirable 1000000 y"
    by (auto simp: map_eq_Cons_conv)
  from ota_expiry_complete [OF eo_inv1 m]
  show ?thesis
    unfolding xs(1) by (auto simp: list_all2_Cons1 xs ota_expirable_def [of _ x])
qed

text \<open>The stall timeout likewise: it returns and has failed, with code -7, every target that was
  notified longer ago than the window when it started.\<close>

theorem ota_stall_complete:
  assumes "ota_inv d" and "mono clock"
  shows "\<exists>n ys. expireStalledOtaTargets clock m d = (Inr n, d\<lparr>ota_targets := ys\<rparr>) \<and>
    list_all2 (\<lambda>x y. (y = x \<and> \<not> ota_stalled (clock 0) m x) \<or>
        (\<exists>i. ota_stalled (clock i) m x \<and>
           y = x\<lparr>tstate := OFailed, tconfirmed_at := Some (clock i), tresult_code := Some (-7),
                 tresult_message := Some (js ''download window timeout'')\<rparr>)) (ota_targets d) ys \<and>
    n + length (filter (\<lambda>x. tstate x \<in> {ODelivered, ODelivering, ODownloaded}) ys) =
      length (filter (\<lambda>x. tstate x \<in> {ODelivered, ODelivering, ODownloaded}) (ota_targets d))"
proof -
  have "\<forall>x \<in> set (ota_targets d). target_check x" "distinct (map tid (ota_targets d))"
    using assms(1) by (auto simp: ota_inv_def targets_ok_def)
  from stall.loop_complete [OF assms(2) this] show ?thesis unfolding stall.handled_def .
qed

lemma eo_inv3: "ota_inv (o_after eo_tx3)"
proof -
  have "ota_step\<^sup>*\<^sup>* (o_after eo_tx1) (o_after eo_tx3)"
    using eo_steps3 by blast
  then show ?thesis using eo_inv1 by (rule ota.steps_inv)
qed

theorem ota_stall_complete_witness:
  "\<exists>n ys. expireStalledOtaTargets (\<lambda>_. 1000000) 10 (o_after eo_tx3) = (Inr n, (o_after eo_tx3)\<lparr>ota_targets := ys\<rparr>) \<and>
    map tresult_code ys = [Some 0, Some (-7)]"
proof -
  have "map (\<lambda>x. (tresult_code x, ota_stalled 1000000 10 x)) (ota_targets (o_after eo_tx3)) = [(Some 0, False), (None, True)]"
    by code_simp
  then obtain x y where xs: "ota_targets (o_after eo_tx3) = [x, y]" "tresult_code x = Some 0"
      "\<not> ota_stalled 1000000 10 x" "ota_stalled 1000000 10 y"
    by (auto simp: map_eq_Cons_conv)
  obtain n ys where r: "expireStalledOtaTargets (\<lambda>_. 1000000) 10 (o_after eo_tx3) = (Inr n, (o_after eo_tx3)\<lparr>ota_targets := ys\<rparr>)"
    and h: "list_all2 (\<lambda>x y. (y = x \<and> \<not> ota_stalled 1000000 10 x) \<or> (\<exists>i. ota_stalled 1000000 10 x \<and>
      y = x\<lparr>tstate := OFailed, tconfirmed_at := Some 1000000, tresult_code := Some (-7),
        tresult_message := Some (js ''download window timeout'')\<rparr>)) [x, y] ys"
    using ota_stall_complete [OF eo_inv3, of "\<lambda>_. 1000000" 10] unfolding xs(1) by (auto simp: mono_def)
  from h xs have "map tresult_code ys = [Some 0, Some (-7)]" by (auto simp: list_all2_Cons1)
  with r show ?thesis by (intro exI conjI)
qed

text \<open>A firmware report confirms exactly the notified targets of the device whose release has the
  reported identity, as \<^verbatim>\<open>resolveReleaseExpectedFirmware\<close> resolves it: the build id of the release's
  artifact, or the hash of its binary when it has none. No other row changes.\<close>

theorem confirm_exact:
  assumes "ota_inv d"
  shows "\<exists>n. confirmOtaTargetByFirmware t dev h d =
    Inr (n, d\<lparr>ota_targets := map (\<lambda>x. if tdevice x = dev \<and> stage_of (tstate x) = Notified \<and>
        (\<exists>j. find_job (tjob x) d = Some j \<and> resolveReleaseExpectedFirmware (jrelease j) d = Some h)
      then completed_target t x else x) (ota_targets d)\<rparr>)"
proof -
  let ?p = "\<lambda>x. tdevice x = dev \<and> tstate x \<in> {ODelivered, ODelivering, ODownloaded, OInstalled} \<and> job_matches d (tjob x) h"
  have stage: "s \<in> {ODelivered, ODelivering, ODownloaded, OInstalled} \<longleftrightarrow> stage_of s = Notified" for s
    by (cases s) simp_all
  have job: "job_matches d (tjob x) h \<longleftrightarrow>
      (\<exists>j. find_job (tjob x) d = Some j \<and> resolveReleaseExpectedFirmware (jrelease j) d = Some h)"
    if "x \<in> set (ota_targets d)" for x
  proof -
    have "catalog_ok d" "tjob x \<in> jid ` set (ota_jobs d)"
      using assms that by (auto simp: ota_inv_def targets_ok_def)
    then show ?thesis by (rule job_identity) auto
  qed
  have "\<exists>n. confirmOtaTargetByFirmware t dev h d =
      Inr (n, d\<lparr>ota_targets := map (\<lambda>x. if ?p x then completed_target t x else x) (ota_targets d)\<rparr>)"
    using confirmOtaTargetByFirmware_ok [OF assms, of t dev h]
    unfolding succeeds_def confirmOtaTargetByFirmware_def by (auto simp: update_targets_Inr)
  moreover have "map (\<lambda>x. if ?p x then completed_target t x else x) (ota_targets d) =
      map (\<lambda>x. if tdevice x = dev \<and> stage_of (tstate x) = Notified \<and>
        (\<exists>j. find_job (tjob x) d = Some j \<and> resolveReleaseExpectedFirmware (jrelease j) d = Some h)
      then completed_target t x else x) (ota_targets d)"
    by (rule map_cong) (simp_all only: stage job)
  ultimately show ?thesis by (simp only:)
qed

theorem confirm_exact_witness:
  "\<exists>n d'. confirmOtaTargetByFirmware 500 (eo_uuid CHR ''2'') (js ''aa'') (o_after eo_tx3) = Inr (n, d') \<and>
    map tstate (ota_targets d') = [OCompleted, OCompleted]"
proof -
  have "map (\<lambda>x. (tstate x, if tdevice x = eo_uuid CHR ''2'' \<and> stage_of (tstate x) = Notified \<and>
        (case find_job (tjob x) (o_after eo_tx3) of None \<Rightarrow> False
         | Some j \<Rightarrow> resolveReleaseExpectedFirmware (jrelease j) (o_after eo_tx3) = Some (js ''aa''))
      then True else False)) (ota_targets (o_after eo_tx3)) = [(OCompleted, False), (ODelivered, True)]"
    by code_simp
  then obtain x y where xs: "ota_targets (o_after eo_tx3) = [x, y]" and x: "tstate x = OCompleted"
    and y: "tdevice y = eo_uuid CHR ''2''" "tstate y = ODelivered" "\<exists>j. find_job (tjob y) (o_after eo_tx3) = Some j \<and>
      resolveReleaseExpectedFirmware (jrelease j) (o_after eo_tx3) = Some (js ''aa'')"
    by (auto simp: map_eq_Cons_conv split: option.splits if_splits)
  obtain n where "confirmOtaTargetByFirmware 500 (eo_uuid CHR ''2'') (js ''aa'') (o_after eo_tx3) =
      Inr (n, (o_after eo_tx3)\<lparr>ota_targets := [x, completed_target 500 y]\<rparr>)"
    using confirm_exact [OF eo_inv3, of 500 "eo_uuid CHR ''2''" "js ''aa''"] x y by (auto simp: xs)
  then show ?thesis using x by simp
qed


lemma ota_lease_row_total:
  assumes "ota_inv d" and "x \<in> set (ota_targets d)"
  shows "\<exists>row. ota_lease_row d x = Some row \<and> lo_id row = tid x"
proof -
  have k: "tjob x \<in> jid ` set (ota_jobs d)" "tdevice x \<in> did ` set (o_devices d)"
    using assms by (auto simp: ota_inv_def targets_ok_def)
  obtain dev where dev: "find_ota_device (tdevice x) d = Some dev"
    using find_image [OF k(2)] unfolding find_ota_device_def by blast
  obtain j where j: "find_job (tjob x) d = Some j" "j \<in> set (ota_jobs d)"
    using find_image [OF k(1)] unfolding find_job_def by blast
  then have "jrelease j \<in> fid ` set (releases d)" using assms(1) by (auto simp: ota_inv_def catalog_ok_def)
  then obtain r where "find_release (jrelease j) d = Some r"
    using find_image unfolding find_release_def by metis
  with dev j show ?thesis by (simp add: ota_lease_row_def)
qed

lemma ota_lease_Some:
  assumes inv: "ota_inv d" and l: "leaseNextOtaTarget t locked ms d = Inr (Some row, d')"
  obtains x where "x \<in> set (ota_targets d)" "ota_leasable t x" "tid x \<notin> locked" "tid x = lo_id row"
    "\<And>y. y \<in> set (ota_targets d) \<Longrightarrow> ota_leasable t y \<Longrightarrow> tid y \<notin> locked \<Longrightarrow> ota_before x y"
    "d' = d\<lparr>ota_targets := map (\<lambda>y. if tid y = tid x then y\<lparr>tstate := OLeased, tlease := Some (t + ms)\<rparr> else y) (ota_targets d)\<rparr>"
proof -
  from l obtain x where x: "ota_first (ota_candidates t locked d) = Some x" "ota_lease_row d x = Some row"
    and d': "d' = d\<lparr>ota_targets := map (\<lambda>y. if tid y = tid x then y\<lparr>tstate := OLeased, tlease := Some (t + ms)\<rparr> else y) (ota_targets d)\<rparr>"
    by (auto simp: leaseNextOtaTarget_def rbind_eq_Inr update_targets_Inr split: option.splits)
  from ota_first_Some [OF x(1)] have m: "x \<in> set (ota_targets d)" "ota_leasable t x" "tid x \<notin> locked"
    and least: "\<And>y. y \<in> set (ota_candidates t locked d) \<Longrightarrow> ota_before x y" by (auto simp: ota_candidates_def)
  have "tid x = lo_id row" using ota_lease_row_total [OF inv m(1)] x(2) by simp
  moreover have "ota_before x y" if "y \<in> set (ota_targets d)" "ota_leasable t y" "tid y \<notin> locked" for y
    using that ota_lease_row_total [OF inv that(1)] by (intro least) (auto simp: ota_candidates_def)
  ultimately show ?thesis using that m d' by blast
qed

text \<open>A claim grants the oldest target that may be delivered, grants nothing only when there is none,
  and is exclusive: until the lease ends no other claim, by any process, returns the same target.\<close>

theorem lease_oldest_exclusive:
  assumes inv: "ota_inv d" and l: "leaseNextOtaTarget t {} ms d = Inr (r, d')"
  shows "(r = None \<longleftrightarrow> (\<forall>x \<in> set (ota_targets d). \<not> ota_leasable t x)) \<and>
    (\<forall>row. r = Some row \<longrightarrow>
       (\<exists>x \<in> set (ota_targets d). tid x = lo_id row \<and> ota_leasable t x \<and>
          (\<forall>y \<in> set (ota_targets d). ota_leasable t y \<longrightarrow> ota_before x y)) \<and>
       (\<forall>t' locked ms' row' d''. t' < t + ms \<and> leaseNextOtaTarget t' locked ms' d' = Inr (Some row', d'') \<longrightarrow>
          lo_id row' \<noteq> lo_id row))"
proof (intro conjI allI impI)
  have "ota_candidates t {} d = filter (ota_leasable t) (ota_targets d)"
    using ota_lease_row_total [OF inv] by (fastforce simp: ota_candidates_def intro: filter_cong)
  then show "r = None \<longleftrightarrow> (\<forall>x \<in> set (ota_targets d). \<not> ota_leasable t x)"
    using l ota_lease_row_total [OF inv]
    by (cases "ota_first (ota_candidates t {} d)")
      (auto simp: leaseNextOtaTarget_def rbind_eq_Inr filter_empty_conv dest!: ota_first_Some, fastforce)
next
  fix row assume r: "r = Some row"
  with l have l': "leaseNextOtaTarget t {} ms d = Inr (Some row, d')" by simp
  show "\<exists>x \<in> set (ota_targets d). tid x = lo_id row \<and> ota_leasable t x \<and>
      (\<forall>y \<in> set (ota_targets d). ota_leasable t y \<longrightarrow> ota_before x y)"
    using inv l' by (rule ota_lease_Some) auto
  fix t' locked ms' row' d''
  assume 2: "t' < t + ms \<and> leaseNextOtaTarget t' locked ms' d' = Inr (Some row', d'')"
  have inv': "ota_inv d'" using succeedsD [OF leaseNextOtaTarget_ok [OF inv] l] by (simp add: good_def)
  obtain x :: ota_target where x: "tid x = lo_id row" and d': "ota_targets d' =
      map (\<lambda>y. if tid y = tid x then y\<lparr>tstate := OLeased, tlease := Some (t + ms)\<rparr> else y) (ota_targets d)"
    using inv l' by (rule ota_lease_Some) auto
  obtain z where z: "z \<in> set (ota_targets d')" "ota_leasable t' z" "tid z = lo_id row'"
    using ota_lease_Some [OF inv', of t' locked ms' row' d''] 2 by blast
  show "lo_id row' \<noteq> lo_id row"
  proof
    assume "lo_id row' = lo_id row"
    with z x d' have "tstate z = OLeased" "tlease z = Some (t + ms)" by auto
    with z(2) 2 show False by (simp add: ota_leasable_def lease_over_def)
  qed
qed

theorem lease_oldest_exclusive_witness:
  "\<exists>row. leaseNextOtaTarget 200 {} 5000 (o_after eo_tx1) = Inr (Some row, o_after eo_tx2) \<and>
    (\<forall>t' locked ms' row' d''. t' < 5200 \<and> leaseNextOtaTarget t' locked ms' (o_after eo_tx2) = Inr (Some row', d'') \<longrightarrow>
          lo_id row' \<noteq> lo_id row)"
proof -
  have "case eo_tx2 of Inl _ \<Rightarrow> False | Inr r \<Rightarrow> fst r \<noteq> None" by code_simp
  then obtain row d' where tx: "eo_tx2 = Inr (Some row, d')" by (auto split: sum.splits)
  have d': "d' = o_after eo_tx2" unfolding o_after_def tx by simp
  show ?thesis
    using lease_oldest_exclusive [OF eo_inv1 tx [unfolded eo_tx2_def]] tx unfolding eo_tx2_def d' by auto
qed

end
