(* ===== verification/RolloutPlan.thy ===== *)
theory RolloutPlan
  imports OtaRollout "HOL-Library.Multiset" "HOL-Library.Code_Target_Nat"
begin

text \<open>
  The plan of a rollout: the shuffle permutes the pool, the phases are numbered from one, none is empty,
  and together they cover the pool exactly once, in spite of rounding.
\<close>

section \<open>Shuffle\<close>

lemma shuffle_from_perm:
  assumes "\<And>i. rand i \<le> i" and "k < length xs \<or> k = 0"
  shows "mset (shuffle_from rand k xs) = mset xs"
  using assms(2)
proof (induction k arbitrary: xs)
  case (Suc k)
  have "rand (Suc k) < length xs" "Suc k < length xs"
    using Suc.prems assms(1) [of "Suc k"] by auto
  then show ?case
    using Suc.IH [of "xs[Suc k := xs ! rand (Suc k), rand (Suc k) := xs ! Suc k]"]
      mset_swap [of "rand (Suc k)" xs "Suc k"]
    by (simp add: Let_def)
qed simp

text \<open>The shuffle returns a permutation of the pool for any values \<^verbatim>\<open>randomInt\<close> may draw: no device
  is lost, none is duplicated.\<close>

theorem shuffle_permutes:
  assumes "\<And>i. rand i \<le> i"
  shows "mset (shuffle' rand xs) = mset xs"
  unfolding shuffle'_def using assms by (rule shuffle_from_perm) (cases xs; simp)

theorem shuffle_permutes_witness:
  "mset (shuffle' (\<lambda>i. i div 2) [10, 20, 30, 40 :: nat]) = mset [10, 20, 30, 40] \<and>
   shuffle' (\<lambda>i. i div 2) [10, 20, 30, 40 :: nat] = [30, 10, 40, 20]"
proof
  show "mset (shuffle' (\<lambda>i. i div 2) [10, 20, 30, 40 :: nat]) = mset [10, 20, 30, 40]"
    by (rule shuffle_permutes) simp
  show "shuffle' (\<lambda>i. i div 2) [10, 20, 30, 40 :: nat] = [30, 10, 40, 20]" by code_simp
qed

section \<open>Cumulative coverage\<close>

text \<open>What the planning loop needs of the rounded products: no ratio covers more than the pool, the
  last one covers all of it.\<close>

locale pool_coverage =
  fixes cum :: "rat \<Rightarrow> int"
    and n :: nat
  assumes cum_le: "0 < r \<Longrightarrow> r \<le> 1 \<Longrightarrow> cum r \<le> int n"
    and cum_all: "cum 1 = int n"
begin

lemma counts_positive: "p \<in> set (auto_phases cum rs k prior) \<Longrightarrow> 0 < pp_count p"
  by (induction rs arbitrary: k prior) (auto simp: Let_def split: if_splits)

lemma indices: "map pp_index (auto_phases cum rs k prior) = [Suc k..<Suc k + length (auto_phases cum rs k prior)]"
  by (induction rs arbitrary: k prior) (simp_all add: Let_def upt_conv_Cons del: upt_Suc)

lemma counts_sum:
  assumes "\<forall>r \<in> set rs. 0 < r \<and> r \<le> 1" and "rs \<noteq> []" and "last rs = 1" and "0 \<le> prior" and "prior \<le> int n"
  shows "prior + int (sum_list (map pp_count (auto_phases cum rs k prior))) = int n"
  using assms
proof (induction rs arbitrary: k prior)
  case (Cons r rs)
  show ?case
  proof (cases "rs = []")
    case True
    with Cons.prems show ?thesis by (simp add: Let_def cum_all)
  next
    case False
    then have rs: "\<forall>r \<in> set rs. 0 < r \<and> r \<le> 1" "last rs = 1" using Cons.prems by auto
    show ?thesis
    proof (cases "cum r - prior \<le> 0")
      case True
      with Cons.IH [OF rs(1) False rs(2)] Cons.prems show ?thesis by (simp add: Let_def)
    next
      case less: False
      have "cum r \<le> int n" using Cons.prems cum_le by simp
      with Cons.IH [OF rs(1) False rs(2), of "cum r" "Suc k"] less Cons.prems show ?thesis by (simp add: Let_def)
    qed
  qed
qed simp

end

lemma coverage_le:
  assumes "0 < r" and "r \<le> 1" and "n < 2 ^ 53"
  shows "coverage n r \<le> int n"
proof -
  have "r * of_nat n \<le> of_nat n" using assms(2) by (intro mult_left_le_one_le) (use assms(1) in auto)
  then have "fl (r * of_nat n) \<le> of_nat n" using assms by (intro fl_le_nat) auto
  then show ?thesis by (simp add: coverage_def ceiling_le_iff)
qed

lemma coverage_all: "n < 2 ^ 53 \<Longrightarrow> coverage n 1 = int n"
  by (simp add: coverage_def fl_nat)

interpretation pool: pool_coverage "coverage (min n MAX_OTA_TARGETS)" "min n MAX_OTA_TARGETS" for n
  by unfold_locales (auto simp: MAX_OTA_TARGETS_def intro: coverage_le coverage_all)

section \<open>Plans\<close>

text \<open>A plan for a pool of \<open>n\<close> devices.\<close>

definition plan_covers :: "phase_plan list \<Rightarrow> nat \<Rightarrow> bool" where
  "plan_covers plan n \<longleftrightarrow> plan \<noteq> [] \<and> map pp_index plan = [1..<Suc (length plan)] \<and>
     (\<forall>p \<in> set plan. 0 < pp_count p) \<and> sum_list (map pp_count plan) = n"

lemma auto_plan_covers:
  assumes "validateRatios rs = Inr ()" and "0 < n" and "n \<le> MAX_OTA_TARGETS"
  shows "plan_covers (auto_phases (coverage n) rs 0 0) n"
proof -
  have m: "min n MAX_OTA_TARGETS = n" using assms(3) by simp
  have rs: "rs \<noteq> []" "\<forall>r \<in> set rs. 0 < r \<and> r \<le> 1" "last rs = 1"
    using assms(1) by (auto simp: validateRatios_def rbind_eq_Inr list_all_iff)
  have sum: "sum_list (map pp_count (auto_phases (coverage n) rs 0 0)) = n"
    using pool.counts_sum [of rs 0 n 0, unfolded m] rs by simp
  moreover have "auto_phases (coverage n) rs 0 0 \<noteq> []" using sum assms(2) by auto
  ultimately show ?thesis
    using pool.indices [of n rs 0 0, unfolded m] pool.counts_positive [of _ n rs 0 0, unfolded m]
    by (simp add: plan_covers_def)
qed

lemma collect_ids_Inr:
  "collect_ids xs all = Inr r \<longleftrightarrow> r = all @ xs \<and> distinct xs \<and> set xs \<inter> set all = {}"
  by (induction xs arbitrary: all) auto

lemma collect_groups_Inr:
  "distinct all \<Longrightarrow> collect_groups gs all = Inr r \<Longrightarrow> r = all @ concat gs \<and> distinct r \<and> (\<forall>g \<in> set gs. g \<noteq> [])"
proof (induction gs arbitrary: all)
  case (Cons g gs)
  then have "g \<noteq> []" "distinct g" "set g \<inter> set all = {}" "collect_groups gs (all @ g) = Inr r"
    by (auto simp: rbind_eq_Inr collect_ids_Inr split: if_splits)
  with Cons.IH [of "all @ g"] Cons.prems(1) show ?case by auto
qed simp

lemma group_plan_covers:
  assumes "gs \<noteq> []" and "\<forall>g \<in> set gs. g \<noteq> []"
  shows "plan_covers (group_phases gs) (length (concat gs))"
proof -
  have "map pp_index (group_phases gs) = [1..<Suc (length gs)]"
    by (rule nth_equalityI) (simp_all add: group_phases_def del: upt_Suc)
  moreover have "map pp_count (group_phases gs) = map length gs"
    by (rule nth_equalityI) (simp_all add: group_phases_def)
  moreover have "length (group_phases gs) = length gs" by (simp add: group_phases_def)
  moreover have "\<forall>p \<in> set (group_phases gs). 0 < pp_count p"
    using assms(2) by (auto simp: group_phases_def dest: set_zip_rightD)
  ultimately show ?thesis using assms(1) by (auto simp: plan_covers_def length_concat simp del: upt_Suc)
qed

lemma plan_covers_pool_lemma:
  assumes "plan_rollout o' = Inr (devs, plan)"
  shows "distinct devs \<and> 0 < length devs \<and> length devs \<le> MAX_OTA_TARGETS \<and> plan_covers plan (length devs)"
proof (cases "cr_strategy o'")
  case Auto
  then show ?thesis
    using assms by (auto simp: plan_rollout_def Let_def rbind_eq_Inr intro!: auto_plan_covers)
next
  case Grouped
  with assms obtain gs where gs: "gs \<noteq> []" "collect_groups gs [] = Inr devs" "length devs \<le> MAX_OTA_TARGETS"
      "plan = group_phases gs" by (auto simp: plan_rollout_def Let_def rbind_eq_Inr)
  from collect_groups_Inr [OF _ gs(2)] have c: "devs = concat gs" "distinct devs" "\<forall>g \<in> set gs. g \<noteq> []" by auto
  have "0 < length devs" using gs(1) c by (cases gs) auto
  with group_plan_covers [OF gs(1) c(3)] gs c show ?thesis by simp
qed

text \<open>Every accepted plan covers its pool exactly: the pool is non-empty, has no duplicates and at most
  1000 devices, the phases are numbered 1, 2, ..., no phase is empty (a gate could never open on one),
  and the phase sizes add up to the pool, although \<^verbatim>\<open>Math.ceil(r * n)\<close> is computed on rounded doubles.\<close>

theorem plan_covers_pool:
  assumes "plan_rollout o' = Inr (devs, plan)"
  shows "distinct devs \<and> 0 < length devs \<and> length devs \<le> MAX_OTA_TARGETS \<and> plan_covers plan (length devs)"
  using assms by (rule plan_covers_pool_lemma)

definition ex_auto :: "nat \<Rightarrow> CreateRolloutOptions" where
  "ex_auto n = \<lparr>cr_projectId = js ''p'', cr_releaseId = js ''r'', cr_fromReleaseId = None, cr_strategy = Auto,
     cr_deviceIds = Some (map (\<lambda>i. [i]) [0..<n]), cr_ratios = Some [1 / 10, 1 / 4, 1], cr_groups = None, cr_successRatio = None,
     cr_minSample = None, cr_phaseTimeoutHours = None, cr_stuckHours = None, cr_manualApproval = None,
     cr_targetTtlSeconds = None, cr_createdBy = js ''u''\<rparr>"

theorem plan_covers_pool_witness:
  "\<exists>devs plan. plan_rollout (ex_auto 10) = Inr (devs, plan) \<and> map pp_count plan = [1, 2, 7] \<and>
     plan_covers plan 10"
proof -
  have "case plan_rollout (ex_auto 10) of Inl _ \<Rightarrow> False
      | Inr (devs, plan) \<Rightarrow> map pp_count plan = [1, 2, 7] \<and> length devs = 10" by code_simp
  then obtain devs plan where p: "plan_rollout (ex_auto 10) = Inr (devs, plan)"
    and c: "map pp_count plan = [1, 2, 7]" "length devs = 10" by (auto split: sum.splits)
  from plan_covers_pool [OF p] c p show ?thesis by auto
qed

end
