(* ===== verification/RolloutOrder.thy ===== *)
theory RolloutOrder
  imports RolloutPlan OtaSystem
begin

text \<open>
  The phases of a rollout run in order. When each handler of \<^verbatim>\<open>ota/rollout.ts\<close> runs to its end before the
  next one starts, the phases of every rollout are some completed ones, then at most one that is active
  or paused, then pending ones only; the state of the rollout agrees with them.
\<close>

section \<open>Order of the phases\<close>

fun ordered_states :: "phase_state list \<Rightarrow> bool" where
  "ordered_states [] = True"
| "ordered_states (PCompleted # ss) = ordered_states ss"
| "ordered_states (s # ss) = (\<forall>s' \<in> set ss. s' = PPending)"

fun allowed :: "rollout_state \<Rightarrow> phase_state \<Rightarrow> bool" where
  "allowed RRunning s = (s \<noteq> PPaused)"
| "allowed RPaused s = (s \<noteq> PActive)"
| "allowed RAborted s = (s \<noteq> PActive)"
| "allowed RCompleted s = (s = PCompleted)"

definition order_ok :: "rollout_state \<Rightarrow> rollout_phase list \<Rightarrow> bool" where
  "order_ok st ps \<longleftrightarrow> ps \<noteq> [] \<and> map pindex ps = [1..<Suc (length ps)] \<and> ordered_states (map pstate ps) \<and>
     (\<forall>p \<in> set ps. allowed st (pstate p))"

definition phase_ok :: "ota_db \<Rightarrow> rollout_phase \<Rightarrow> bool" where
  "phase_ok d p \<longleftrightarrow> phase_check p \<and> prollout p \<in> rid' ` set (rollouts d) \<and>
     (\<forall>j \<in> set_option (pjob p). j \<in> jid ` set (ota_jobs d))"

definition rollback_ok :: "ota_db \<Rightarrow> bool" where
  "rollback_ok d \<longleftrightarrow> distinct (List.map_filter rrollback_job (rollouts d)) \<and>
     (\<forall>r \<in> set (rollouts d). \<forall>j \<in> set_option (rrollback_job r). j \<in> jid ` set (ota_jobs d))"

definition rows_ok :: "ota_db \<Rightarrow> bool" where
  "rows_ok d \<longleftrightarrow> distinct (map rid' (rollouts d)) \<and> (\<forall>r \<in> set (rollouts d). rollout_check r) \<and> rollback_ok d \<and>
     phases_unique (phases d) \<and> (\<forall>p \<in> set (phases d). phase_ok d p) \<and>
     (\<forall>x \<in> set (pool d). prollout' x \<in> rid' ` set (rollouts d))"

definition rollout_ok :: "ota_db \<Rightarrow> ota_rollout \<Rightarrow> bool" where
  "rollout_ok d r \<longleftrightarrow> order_ok (rstate r) (phases_of (rid' r) d) \<and>
     sum_list (map ptarget_count (phases_of (rid' r) d)) = length (pool_of (rid' r) d)"

definition rollout_inv :: "ota_db \<Rightarrow> bool" where
  "rollout_inv d \<longleftrightarrow> rows_ok d \<and> (\<forall>r \<in> set (rollouts d). rollout_ok d r)"

lemma ordered_pending: "\<forall>s \<in> set ss. s = PPending \<Longrightarrow> ordered_states ss"
  by (cases ss rule: ordered_states.cases) auto

text \<open>Moving the phase under way to another state than pending.\<close>

lemma ordered_mid:
  assumes "ordered_states (map pstate ps)" and "\<And>p. q p \<Longrightarrow> pstate p \<in> {PActive, PPaused}"
    and "\<And>p. q p \<Longrightarrow> pstate (f p) \<noteq> PPending"
  shows "ordered_states (map pstate (map (\<lambda>p. if q p then f p else p) ps))"
  using assms(1)
proof (induction ps)
  case (Cons p ps)
  let ?g = "\<lambda>p. if q p then f p else p"
  have rest: "map ?g ps = ps" if "\<forall>s \<in> set (map pstate ps). s = PPending"
    using that assms(2) by (intro map_idI) fastforce
  show ?case
  proof (cases "pstate p = PCompleted")
    case True
    with Cons assms(2) [of p] show ?thesis by auto
  next
    case False
    then have pend: "\<forall>s \<in> set (map pstate ps). s = PPending" using Cons.prems by (cases "pstate p") auto
    have "ordered_states (pstate (?g p) # map pstate ps)"
      using pend ordered_pending [of "map pstate ps"] by (cases "pstate (?g p)") auto
    then show ?thesis using rest [OF pend] by simp
  qed
qed simp

text \<open>Activating the first pending phase when no other is under way.\<close>

lemma ordered_activate:
  assumes "ordered_states (map pstate ps)" and "distinct (map pindex ps)"
    and "find (in_state PPending) ps = Some n" and "\<forall>p \<in> set ps. pstate p \<noteq> PActive \<and> pstate p \<noteq> PPaused"
    and "f = (\<lambda>p. if pindex p = pindex n \<and> pstate p = PPending then p\<lparr>pstate := PActive, pactivated_at := t\<rparr> else p)"
  shows "ordered_states (map pstate (map f ps))"
  using assms(1-4)
proof (induction ps)
  case (Cons p ps)
  show ?case
  proof (cases "pstate p")
    case PCompleted
    with Cons show ?thesis by (auto simp: assms(5) in_state_def)
  next
    case PPending
    with Cons.prems have n: "n = p" and ps: "\<forall>s \<in> set (map pstate ps). s = PPending" "pindex p \<notin> set (map pindex ps)"
      by (auto simp: in_state_def)
    have "map f ps = ps" using ps n by (intro map_idI) (auto simp: assms(5) image_iff)
    with PPending n ps show ?thesis by (simp add: assms(5))
  qed (use Cons.prems in auto)
qed simp

lemma find_pending_mid:
  assumes "\<And>p. q p \<Longrightarrow> pstate p \<noteq> PPending" and "\<And>p. q p \<Longrightarrow> pstate (f p) \<noteq> PPending"
  shows "find (in_state PPending) (map (\<lambda>p. if q p then f p else p) ps) = find (in_state PPending) ps"
  using assms by (induction ps) (auto simp: in_state_def)

lemma ordered_one_active:
  assumes "ordered_states (map pstate ps)" and "p \<in> set ps" and "q \<in> set ps"
    and "pstate p = PActive" and "pstate q \<in> {PActive, PPaused}"
  shows "q = p"
  using assms
proof (induction ps)
  case (Cons x ps)
  then show ?case by (cases "pstate x") auto
qed simp

section \<open>Phases of a rollout under an update\<close>

lemma insort_key_map: "insort_key k (g x) (map g xs) = map g (insort_key (\<lambda>a. k (g a)) x xs)"
  by (induction xs) auto

lemma sort_key_map: "sort_key k (map g xs) = map g (sort_key (k \<circ> g) xs)"
  by (induction xs) (simp_all add: insort_key_map comp_def)

lemma phases_of_map:
  assumes "phases d' = map g (phases d)" and "\<And>p. prollout (g p) = prollout p" and "\<And>p. pindex (g p) = pindex p"
  shows "phases_of i d' = map g (phases_of i d)"
proof -
  have "filter (\<lambda>p. prollout p = i) (map g ps) = map g (filter (\<lambda>p. prollout p = i) ps)" for ps
    by (induction ps) (auto simp: assms)
  then show ?thesis by (simp add: phases_of_def assms(1) sort_key_map comp_def assms(3))
qed

lemma set_phases_of: "set (phases_of i d) = {p \<in> set (phases d). prollout p = i}"
  by (auto simp: phases_of_def)

lemma phases_of_cong: "phases d' = phases d \<Longrightarrow> phases_of i d' = phases_of i d"
  by (simp add: phases_of_def)

text \<open>An update of rollout and phase rows that keeps the keys.\<close>

lemma rollout_inv_update:
  assumes inv: "rollout_inv d"
    and rs: "rollouts d' = map h (rollouts d)" and ps: "phases d' = map g (phases d)" and pool: "pool d' = pool d"
    and keep: "\<And>r. rid' (h r) = rid' r" "\<And>p. prollout (g p) = prollout p" "\<And>p. pindex (g p) = pindex p"
      "\<And>p. ptarget_count (g p) = ptarget_count p"
    and rows: "rows_ok d'"
    and order: "\<And>r. r \<in> set (rollouts d) \<Longrightarrow> order_ok (rstate r) (phases_of (rid' r) d) \<Longrightarrow>
      order_ok (rstate (h r)) (map g (phases_of (rid' r) d))"
  shows "rollout_inv d'"
proof -
  have "rollout_ok d' r'" if "r' \<in> set (rollouts d')" for r'
  proof -
    from that obtain r where r: "r \<in> set (rollouts d)" "r' = h r" by (auto simp: rs)
    with inv have "rollout_ok d r" by (simp add: rollout_inv_def)
    moreover have "phases_of (rid' r') d' = map g (phases_of (rid' r) d)"
      using phases_of_map [OF ps keep(2,3)] by (simp add: r(2) keep(1))
    moreover have "pool_of (rid' r') d' = pool_of (rid' r) d" by (simp add: pool_of_def pool r(2) keep(1))
    ultimately show ?thesis
      using order [OF r(1)] by (simp add: rollout_ok_def r(2) comp_def keep(4))
  qed
  with rows show ?thesis by (simp add: rollout_inv_def)
qed


section \<open>Rows\<close>

lemma opt_all: "(case x of None \<Rightarrow> True | Some j \<Rightarrow> P j) \<longleftrightarrow> (\<forall>j \<in> set_option x. P j)"
  by (cases x) simp_all

lemma update_phases_Inr:
  "update_phases q f d = Inr (n, d') \<longleftrightarrow>
     (\<forall>p \<in> set (phases d). q p \<longrightarrow> phase_check (f p)) \<and> phases_unique (map (\<lambda>p. if q p then f p else p) (phases d)) \<and>
     (\<forall>p \<in> set (map (\<lambda>p. if q p then f p else p) (phases d)). \<forall>j \<in> set_option (pjob p). j \<in> jid ` set (ota_jobs d)) \<and>
     n = length (filter q (phases d)) \<and> d' = d\<lparr>phases := map (\<lambda>p. if q p then f p else p) (phases d)\<rparr>"
  unfolding update_phases_def Let_def list_all_iff opt_all by (auto simp del: set_map)

lemma update_rollouts_Inr:
  "update_rollouts q f d = Inr (n, d') \<longleftrightarrow>
     (\<forall>r \<in> set (rollouts d'). rollout_check r) \<and> rollback_ok d' \<and>
     n = length (filter q (rollouts d)) \<and> d' = d\<lparr>rollouts := map (\<lambda>r. if q r then f r else r) (rollouts d)\<rparr>"
  unfolding update_rollouts_def Let_def list_all_iff rollback_ok_def opt_all
  by (auto simp del: set_map split: if_splits)

lemma phase_ok_rows: "phase_ok d p \<Longrightarrow> \<forall>j \<in> set_option (pjob p). j \<in> jid ` set (ota_jobs d)"
  by (auto simp: phase_ok_def)

lemma rows_update_phases:
  assumes rows: "rows_ok d" and up: "update_phases q f d = Inr (n, d')" and keep: "\<And>p. prollout (f p) = prollout p"
  shows "rows_ok d'"
proof -
  note u = up [unfolded update_phases_Inr]
  have "phase_ok d p" if p: "p \<in> set (map (\<lambda>p. if q p then f p else p) (phases d))" for p
  proof -
    obtain b where b: "b \<in> set (phases d)" "p = (if q b then f b else b)" using p by auto
    have "phase_ok d b" using rows b by (simp add: rows_ok_def)
    then have "phase_check p" "prollout p \<in> rid' ` set (rollouts d)"
      using u b keep by (auto simp: phase_ok_def)
    moreover have "\<forall>j \<in> set_option (pjob p). j \<in> jid ` set (ota_jobs d)" using u p by blast
    ultimately show ?thesis by (auto simp: phase_ok_def split: option.split)
  qed
  with rows u show ?thesis by (simp add: rows_ok_def rollback_ok_def phase_ok_def)
qed

lemma rows_update_rollouts:
  assumes rows: "rows_ok d" and up: "update_rollouts q f d = Inr (n, d')" and keep: "\<And>r. rid' (f r) = rid' r"
  shows "rows_ok d'"
proof -
  note u = up [unfolded update_rollouts_Inr]
  have d': "d' = d\<lparr>rollouts := map (\<lambda>r. if q r then f r else r) (rollouts d)\<rparr>" using u by simp
  have ids: "map rid' (rollouts d') = map rid' (rollouts d)" by (simp add: d' keep)
  then have set: "rid' ` set (rollouts d') = rid' ` set (rollouts d)" by (metis list.set_map)
  then have "phase_ok d' = phase_ok d" by (intro ext) (simp add: phase_ok_def d')
  moreover have "phases d' = phases d" "pool d' = pool d" by (simp_all add: d')
  ultimately show ?thesis using rows u(1) ids set unfolding rows_ok_def by metis
qed

text \<open>Changes of the state alone are never rejected.\<close>

lemma update_phases_ok:
  assumes rows: "rows_ok d" and keep: "\<And>p. prollout (f p) = prollout p" "\<And>p. pindex (f p) = pindex p" "\<And>p. pjob (f p) = pjob p"
    and check: "\<And>p. phase_check p \<Longrightarrow> q p \<Longrightarrow> phase_check (f p)"
  shows "\<exists>n. update_phases q f d = Inr (n, d\<lparr>phases := map (\<lambda>p. if q p then f p else p) (phases d)\<rparr>)"
proof -
  let ?g = "\<lambda>p. if q p then f p else p"
  have "List.map_filter pjob (map ?g ps) = List.map_filter pjob ps" for ps
    by (induction ps) (simp_all add: List.map_filter_simps keep split: option.split)
  moreover have "map (\<lambda>p. (prollout p, pindex p)) (map ?g (phases d)) = map (\<lambda>p. (prollout p, pindex p)) (phases d)"
    by (simp add: keep)
  ultimately have "phases_unique (map ?g (phases d))"
    using rows unfolding rows_ok_def phases_unique_def by (simp only:)
  moreover have "\<forall>p \<in> set (phases d). q p \<longrightarrow> phase_check (f p)"
    using rows check by (auto simp: rows_ok_def phase_ok_def)
  moreover have "\<forall>p \<in> set (map ?g (phases d)). \<forall>j \<in> set_option (pjob p). j \<in> jid ` set (ota_jobs d)"
    using rows phase_ok_rows by (fastforce simp: rows_ok_def keep)
  ultimately show ?thesis by (simp add: update_phases_Inr)
qed

lemma update_rollouts_ok:
  assumes rows: "rows_ok d" and f: "f = (\<lambda>r. r\<lparr>rstate := st\<rparr>)"
  shows "\<exists>n. update_rollouts q f d = Inr (n, d\<lparr>rollouts := map (\<lambda>r. if q r then f r else r) (rollouts d)\<rparr>)"
proof -
  let ?h = "\<lambda>r. if q r then f r else r"
  have "List.map_filter rrollback_job (map ?h rs) = List.map_filter rrollback_job rs" for rs
    by (induction rs) (simp_all add: List.map_filter_simps f split: option.split)
  then have "rollback_ok (d\<lparr>rollouts := map ?h (rollouts d)\<rparr>)"
    using rows by (auto simp: rows_ok_def rollback_ok_def f)
  moreover have "\<forall>r \<in> set (map ?h (rollouts d)). rollout_check r"
    using rows by (auto simp: rows_ok_def rollout_check_def f)
  ultimately show ?thesis by (simp add: update_rollouts_Inr)
qed

section \<open>Single statements\<close>

lemma inv_phases:
  assumes inv: "rollout_inv d" and up: "update_phases q f d = Inr (n, d')"
    and keep: "\<And>p. prollout (f p) = prollout p" "\<And>p. pindex (f p) = pindex p" "\<And>p. ptarget_count (f p) = ptarget_count p"
    and order: "\<And>r. r \<in> set (rollouts d) \<Longrightarrow> order_ok (rstate r) (phases_of (rid' r) d) \<Longrightarrow>
      order_ok (rstate r) (map (\<lambda>p. if q p then f p else p) (phases_of (rid' r) d))"
  shows "rollout_inv d'"
proof -
  have d': "d' = d\<lparr>phases := map (\<lambda>p. if q p then f p else p) (phases d)\<rparr>"
    using up by (simp add: update_phases_Inr)
  show ?thesis
  proof (rule rollout_inv_update [OF inv, of d' "\<lambda>r. r" "\<lambda>p. if q p then f p else p"])
    show "rows_ok d'" using inv up keep(1) by (auto simp: rollout_inv_def intro: rows_update_phases)
  qed (use order in \<open>simp_all add: d' keep\<close>)
qed

lemma inv_rollouts:
  assumes inv: "rollout_inv d" and up: "update_rollouts q f d = Inr (n, d')"
    and keep: "\<And>r. rid' (f r) = rid' r"
    and order: "\<And>r. r \<in> set (rollouts d) \<Longrightarrow> q r \<Longrightarrow> order_ok (rstate r) (phases_of (rid' r) d) \<Longrightarrow>
      order_ok (rstate (f r)) (phases_of (rid' r) d)"
  shows "rollout_inv d'"
proof -
  have d': "d' = d\<lparr>rollouts := map (\<lambda>r. if q r then f r else r) (rollouts d)\<rparr>"
    using up by (simp add: update_rollouts_Inr)
  show ?thesis
  proof (rule rollout_inv_update [OF inv, of d' "\<lambda>r. if q r then f r else r" "\<lambda>p. p"])
    show "rows_ok d'" using inv up keep by (auto simp: rollout_inv_def intro: rows_update_rollouts)
  qed (use order in \<open>simp_all add: d' keep\<close>)
qed

text \<open>Statements that leave rollouts and phases alone and drop no job.\<close>

definition same_rollouts :: "ota_db \<Rightarrow> ota_db \<Rightarrow> bool" where
  "same_rollouts d d' \<longleftrightarrow> rollouts d' = rollouts d \<and> phases d' = phases d \<and> pool d' = pool d \<and>
     jid ` set (ota_jobs d) \<subseteq> jid ` set (ota_jobs d')"

lemma same_rollouts_refl [simp]: "same_rollouts d d"
  by (simp add: same_rollouts_def)

lemma same_rollouts_trans [trans]: "same_rollouts d d1 \<Longrightarrow> same_rollouts d1 d2 \<Longrightarrow> same_rollouts d d2"
  by (auto simp: same_rollouts_def)

lemma rows_same:
  assumes "same_rollouts d d'" and "rows_ok d"
  shows "rows_ok d'"
proof -
  have "phase_ok d p \<Longrightarrow> phase_ok d' p" for p
    using assms(1) by (auto simp: phase_ok_def same_rollouts_def)
  then show ?thesis
    using assms unfolding same_rollouts_def rows_ok_def rollback_ok_def by (simp add: subset_iff)
qed

lemma same_rollouts_inv:
  assumes same: "same_rollouts d d'" and inv: "rollout_inv d"
  shows "rollout_inv d'"
proof (rule rollout_inv_update [OF inv, of d' "\<lambda>r. r" "\<lambda>p. p"])
  show "rows_ok d'" using same inv by (auto simp: rollout_inv_def intro: rows_same)
qed (use same in \<open>simp_all add: same_rollouts_def\<close>)

text \<open>Both tables in one go.\<close>

lemma inv_both:
  assumes inv: "rollout_inv d" and 1: "update_rollouts q f d = Inr (n, d1)" and same: "same_rollouts d1 d2"
    and 2: "update_phases q' f' d2 = Inr (m, d')"
    and keep: "\<And>r. rid' (f r) = rid' r"
      "\<And>p. prollout (f' p) = prollout p" "\<And>p. pindex (f' p) = pindex p" "\<And>p. ptarget_count (f' p) = ptarget_count p"
    and order: "\<And>r. r \<in> set (rollouts d) \<Longrightarrow> order_ok (rstate r) (phases_of (rid' r) d) \<Longrightarrow>
      order_ok (rstate (if q r then f r else r)) (map (\<lambda>p. if q' p then f' p else p) (phases_of (rid' r) d))"
  shows "rollout_inv d'"
proof (rule rollout_inv_update [OF inv, of d' "\<lambda>r. if q r then f r else r" "\<lambda>p. if q' p then f' p else p"])
  show "rows_ok d'"
    using inv rows_update_rollouts [OF _ 1 keep(1)] rows_same [OF same] rows_update_phases [OF _ 2 keep(2)]
    by (auto simp: rollout_inv_def)
qed (use 1 2 same order in \<open>simp_all add: update_rollouts_Inr update_phases_Inr same_rollouts_def keep\<close>)

section \<open>Activation\<close>

lemma same_rollouts_stmts:
  "insert_job j d = Inr (u, d') \<Longrightarrow> same_rollouts d d'"
  "insert_targets ts d = Inr (u, d') \<Longrightarrow> same_rollouts d d'"
  "update_targets q f d = Inr (n, d') \<Longrightarrow> same_rollouts d d'"
  "same_rollouts d (o_notify ch m d)"
  "same_rollouts d (notifyRolloutEvent ev i p d)"
  by (auto simp: insert_job_Inr insert_targets_Inr update_targets_Inr same_rollouts_def o_notify_def notifyRolloutEvent_def)

lemma complete_running_same:
  assumes "complete_running env j run d = Inr (u, d')"
  shows "same_rollouts d d'"
  using assms by (auto simp: complete_running_def rbind_eq_Inr split: if_splits intro: same_rollouts_stmts)

lemma createTargets_same:
  assumes "createTargetsForRelease env j rel devs ttl d = Inr (u, d')"
  shows "same_rollouts d d'"
  using assms unfolding createTargetsForRelease_def
  by (auto simp: rbind_eq_Inr intro: same_rollouts_trans same_rollouts_stmts complete_running_same)

lemma createPhaseJob_same:
  assumes "createPhaseJob env i devs ttl d = Inr (j, d')"
  shows "same_rollouts d d'"
  using assms unfolding createPhaseJob_def Let_def
  by (auto simp: rbind_eq_Inr split: option.splits
      intro!: same_rollouts_trans [OF _ same_rollouts_stmts(4)])
    (blast intro: same_rollouts_trans same_rollouts_stmts(1) createTargets_same)

lemma order_ok_map:
  assumes "order_ok st ps" and "\<And>p. pindex (g p) = pindex p"
    and "ordered_states (map pstate (map g ps))" and "\<And>p. p \<in> set ps \<Longrightarrow> allowed st' (pstate (g p))"
  shows "order_ok st' (map g ps)"
proof -
  have "map pindex (map g ps) = map pindex ps" by (simp add: assms(2))
  then show ?thesis using assms(1,3,4) unfolding order_ok_def by (auto simp del: map_map)
qed

lemma order_ok_D:
  assumes "order_ok st ps"
  shows "distinct (map pindex ps)" "ordered_states (map pstate ps)" "ps \<noteq> []" "\<And>p. p \<in> set ps \<Longrightarrow> allowed st (pstate p)"
  using assms by (auto simp: order_ok_def simp del: upt_Suc)

lemma map_outside:
  assumes "\<And>p. p \<in> set ps \<Longrightarrow> \<not> q p"
  shows "map (\<lambda>p. if q p then f p else p) ps = ps"
  using assms by (simp add: map_idI)

lemma rid_unique:
  assumes "rollout_inv d" and "r \<in> set (rollouts d)" and "r' \<in> set (rollouts d)" and "rid' r = rid' r'"
  shows "r = r'"
  using assms by (auto simp: rollout_inv_def rows_ok_def distinct_map dest: inj_onD)

lemma find_rollout_Some:
  "find_rollout i d = Some r \<Longrightarrow> r \<in> set (rollouts d) \<and> rid' r = i"
  unfolding find_rollout_def by (auto dest: find_SomeD)

lemma activate_inv:
  assumes inv: "rollout_inv d" and r: "r \<in> set (rollouts d)" "rstate r = RRunning"
    and n: "find (in_state PPending) (phases_of (rid' r) d) = Some n"
    and idle: "\<And>p. p \<in> set (phases_of (rid' r) d) \<Longrightarrow> pstate p \<noteq> PActive"
    and a: "activatePendingPhase env (rid' r) (pindex n) ttl d = Inr (b, d')"
  shows "rollout_inv d' \<and> rollouts d' = rollouts d"
proof (cases "find_phase (rid' r) (pindex n) d")
  case None
  then show ?thesis using a inv by (simp add: activatePendingPhase_def)
next
  case (Some ph)
  let ?q = "\<lambda>p. prollout p = rid' r \<and> pindex p = pindex n \<and> pstate p = PPending"
  let ?f = "\<lambda>p. p\<lparr>pstate := PActive, pactivated_at := Some (onow env)\<rparr>"
  obtain c d1 where 1: "update_phases ?q ?f d = Inr (c, d1)"
    using a Some by (auto simp: activatePendingPhase_def rbind_eq_Inr)
  have inv1: "rollout_inv d1"
    using inv 1
  proof (rule inv_phases)
    fix s assume s: "s \<in> set (rollouts d)" and o: "order_ok (rstate s) (phases_of (rid' s) d)"
    show "order_ok (rstate s) (map (\<lambda>p. if ?q p then ?f p else p) (phases_of (rid' s) d))"
    proof (cases "rid' s = rid' r")
      case True
      then have [simp]: "s = r" using rid_unique [OF inv] s r by blast
      have eq: "map (\<lambda>p. if ?q p then ?f p else p) (phases_of (rid' r) d) =
          map (\<lambda>p. if pindex p = pindex n \<and> pstate p = PPending then ?f p else p) (phases_of (rid' r) d)"
        by (auto simp: set_phases_of)
      have st: "\<forall>p \<in> set (phases_of (rid' r) d). pstate p \<noteq> PActive \<and> pstate p \<noteq> PPaused"
        using idle order_ok_D(4) [OF o] r(2) by auto
      show ?thesis
        unfolding \<open>s = r\<close> eq
        by (rule order_ok_map [OF o [unfolded \<open>s = r\<close>]])
          (use ordered_activate [OF _ _ n st refl] order_ok_D [OF o] r(2) in auto)
    next
      case False
      then have "map (\<lambda>p. if ?q p then ?f p else p) (phases_of (rid' s) d) = phases_of (rid' s) d"
        by (intro map_outside) (auto simp: set_phases_of)
      with o show ?thesis by simp
    qed
  qed simp_all
  have r1: "rollouts d1 = rollouts d" using 1 by (simp add: update_phases_Inr)
  show ?thesis
  proof (cases "c = 0")
    case True
    with a Some 1 have "d' = d1" by (simp add: activatePendingPhase_def)
    with inv1 r1 show ?thesis by simp
  next
    case False
    then obtain j d2 m where 2: "createPhaseJob env (rid' r) (take (ptarget_count ph) (drop (slice_start (rid' r) (pindex n) d1) (pool_of (rid' r) d1))) ttl d1 = Inr (j, d2)"
      and 3: "update_phases (\<lambda>p. prollout p = rid' r \<and> pindex p = pindex n) (\<lambda>p. p\<lparr>pjob := Some j\<rparr>) d2 = Inr (m, d')"
      using a Some 1 by (auto simp: activatePendingPhase_def Let_def rbind_eq_Inr)
    have inv2: "rollout_inv d2" using createPhaseJob_same [OF 2] inv1 by (rule same_rollouts_inv)
    have "rollout_inv d'"
      using inv2 3
    proof (rule inv_phases)
      fix s assume o: "order_ok (rstate s) (phases_of (rid' s) d2)"
      let ?g = "\<lambda>p. if prollout p = rid' r \<and> pindex p = pindex n then p\<lparr>pjob := Some j\<rparr> else p"
      have "map pstate (map ?g (phases_of (rid' s) d2)) = map pstate (phases_of (rid' s) d2)" by simp
      then show "order_ok (rstate s) (map ?g (phases_of (rid' s) d2))"
        using order_ok_D [OF o] by (intro order_ok_map [OF o]) (simp_all del: map_map)
    qed simp_all
    moreover have "rollouts d' = rollouts d"
      using 3 createPhaseJob_same [OF 2] r1 by (simp add: update_phases_Inr same_rollouts_def)
    ultimately show ?thesis by simp
  qed
qed


section \<open>The advance pass\<close>

lemma stmt_cases:
  assumes "stmt x s d k = (res, s', d')"
  obtains e where "x = Inl e" "d' = d" "res = Inl e" | v d1 where "x = Inr (v, d1)" "k v d1 = (res, s', d')"
  using assms by (auto simp: stmt_def split: sum.splits)

text \<open>The handler of one rollout leaves the rows of the others alone.\<close>

definition others :: "uuid \<Rightarrow> ota_db \<Rightarrow> ota_db \<Rightarrow> bool" where
  "others i d d' \<longleftrightarrow> (\<forall>r. rid' r \<noteq> i \<longrightarrow> (r \<in> set (rollouts d') \<longleftrightarrow> r \<in> set (rollouts d)))"

lemma others_same: "rollouts d' = rollouts d \<Longrightarrow> others i d d'"
  by (simp add: others_def)

lemma others_update:
  assumes "update_rollouts q f d = Inr (n, d')" and "\<And>r. q r \<Longrightarrow> rid' r = i" and "\<And>r. rid' (f r) = rid' r"
  shows "others i d d'"
  using assms(1) assms(2,3) by (fastforce simp: update_rollouts_Inr others_def image_iff)

lemma others_trans: "others i d d1 \<Longrightarrow> others i d1 d2 \<Longrightarrow> others i d d2"
  by (simp add: others_def)

lemma finish_inv:
  assumes inv: "rollout_inv d" and r: "r \<in> set (rollouts d)"
    and all: "\<And>p. p \<in> set (phases_of (rid' r) d) \<Longrightarrow> pstate p = PCompleted"
    and f: "finish_rollout r s d = (res, s', d')"
  shows "rollout_inv d' \<and> others (rid' r) d d'"
  using f [unfolded finish_rollout_def]
proof (cases rule: stmt_cases)
  case 1
  then show ?thesis using inv by (simp add: others_same)
next
  case (2 n d1)
  have "rollout_inv d1"
    using inv 2(1)
  proof (rule inv_rollouts)
    fix x assume x: "x \<in> set (rollouts d)" "rid' x = rid' r \<and> rstate x = RRunning" "order_ok (rstate x) (phases_of (rid' x) d)"
    then have "x = r" using rid_unique [OF inv] r by blast
    with x all show "order_ok (rstate (x\<lparr>rstate := RCompleted\<rparr>)) (phases_of (rid' x) d)" by (simp add: order_ok_def)
  qed simp
  moreover have "others (rid' r) d d1" using 2(1) by (rule others_update) simp_all
  moreover have "d' = d1 \<or> d' = notifyRolloutEvent EvCompleted (rid' r) (rproject r) d1"
    using 2(2) by (auto split: if_splits)
  ultimately show ?thesis
    using same_rollouts_stmts(5) [of d1] same_rollouts_inv [of d1] others_trans [of _ d d1]
    by (metis others_same same_rollouts_def)
qed

lemma activate_next_inv:
  assumes inv: "rollout_inv d" and r: "r \<in> set (rollouts d)" "rstate r = RRunning"
    and n: "find (in_state PPending) (phases_of (rid' r) d) = Some n"
    and idle: "\<And>p. p \<in> set (phases_of (rid' r) d) \<Longrightarrow> pstate p \<noteq> PActive"
    and a: "activate_next env r n ttl s d = (res, s', d')"
  shows "rollout_inv d' \<and> others (rid' r) d d'"
  using a [unfolded activate_next_def]
proof (cases rule: stmt_cases)
  case 1
  then show ?thesis using inv by (simp add: others_same)
next
  case (2 b d1)
  then show ?thesis using activate_inv [OF inv r n idle] by (auto intro: others_same)
qed

lemma inv_order: "rollout_inv d \<Longrightarrow> r \<in> set (rollouts d) \<Longrightarrow> order_ok (rstate r) (phases_of (rid' r) d)"
  by (auto simp: rollout_inv_def rollout_ok_def)

text \<open>Completing the active phase: afterwards none is active, and the first pending one is still first.\<close>

lemma complete_active_inv:
  assumes inv: "rollout_inv d" and r: "r \<in> set (rollouts d)" "rstate r = RRunning"
    and a: "find (in_state PActive) (phases_of (rid' r) d) = Some a"
    and u: "update_phases (\<lambda>p. prollout p = prollout a \<and> pindex p = pindex a \<and> pstate p = PActive)
      (\<lambda>p. p\<lparr>pstate := PCompleted, pcompleted_at := Some t\<rparr>) d = Inr (c, d1)"
  shows "rollout_inv d1" "rollouts d1 = rollouts d"
    "find (in_state PPending) (phases_of (rid' r) d1) = find (in_state PPending) (phases_of (rid' r) d)"
    "\<And>p. p \<in> set (phases_of (rid' r) d1) \<Longrightarrow> pstate p \<noteq> PActive"
proof -
  let ?q = "\<lambda>p. prollout p = prollout a \<and> pindex p = pindex a \<and> pstate p = PActive"
  let ?f = "\<lambda>p. p\<lparr>pstate := PCompleted, pcompleted_at := Some t\<rparr>"
  have a': "a \<in> set (phases_of (rid' r) d)" "pstate a = PActive" using a by (auto dest: find_SomeD simp: in_state_def)
  then have ra: "prollout a = rid' r" by (simp add: set_phases_of)
  show "rollout_inv d1"
    using inv u
  proof (rule inv_phases)
    fix s assume s: "s \<in> set (rollouts d)" and o: "order_ok (rstate s) (phases_of (rid' s) d)"
    show "order_ok (rstate s) (map (\<lambda>p. if ?q p then ?f p else p) (phases_of (rid' s) d))"
    proof (cases "rid' s = rid' r")
      case True
      then have "s = r" using rid_unique [OF inv] s r by blast
      with o r(2) show ?thesis
        by (intro order_ok_map [OF o] ordered_mid order_ok_D(2) [OF o]) (auto simp: order_ok_def)
    next
      case False
      then have "map (\<lambda>p. if ?q p then ?f p else p) (phases_of (rid' s) d) = phases_of (rid' s) d"
        by (intro map_outside) (auto simp: set_phases_of ra)
      with o show ?thesis by simp
    qed
  qed simp_all
  show "rollouts d1 = rollouts d" using u by (simp add: update_phases_Inr)
  have ps: "phases_of (rid' r) d1 = map (\<lambda>p. if ?q p then ?f p else p) (phases_of (rid' r) d)"
    by (rule phases_of_map) (use u in \<open>simp_all add: update_phases_Inr\<close>)
  show "find (in_state PPending) (phases_of (rid' r) d1) = find (in_state PPending) (phases_of (rid' r) d)"
    unfolding ps by (rule find_pending_mid) simp_all
  fix p assume "p \<in> set (phases_of (rid' r) d1)"
  then obtain b where b: "b \<in> set (phases_of (rid' r) d)" "p = (if ?q b then ?f b else b)" by (auto simp: ps)
  have "order_ok (rstate r) (phases_of (rid' r) d)" using inv r(1) by (rule inv_order)
  note one = ordered_one_active [OF order_ok_D(2) [OF this] a'(1) b(1) a'(2)]
  show "pstate p \<noteq> PActive"
  proof (cases "pstate b = PActive")
    case True
    then have "b = a" using one by simp
    with b(2) a'(2) show ?thesis by simp
  next
    case False
    with b(2) show ?thesis by simp
  qed
qed

text \<open>Pausing whatever is active, together with the rollout row.\<close>

lemma allowed_not_active: "allowed st s \<Longrightarrow> st \<noteq> RRunning \<Longrightarrow> s \<noteq> PActive"
  by (cases st) auto

lemma pause_active_inv:
  assumes inv: "rollout_inv d" and 1: "update_rollouts (\<lambda>x. rid' x = i \<and> Q x) f d = Inr (n, d1)"
    and same: "same_rollouts d1 d2" and 2: "update_phases q (\<lambda>p. p\<lparr>pstate := PPaused\<rparr>) d2 = Inr (m, d')"
    and f: "\<And>x. rid' (f x) = rid' x" "\<And>x. rstate (f x) \<in> {RPaused, RAborted}"
    and q: "\<And>p. q p \<Longrightarrow> prollout p = i \<and> pstate p = PActive"
      "\<And>p. p \<in> set (phases_of i d) \<Longrightarrow> pstate p = PActive \<Longrightarrow> q p"
    and Q: "\<And>x. x \<in> set (rollouts d) \<Longrightarrow> rid' x = i \<Longrightarrow> Q x \<or> rstate x \<noteq> RRunning"
  shows "rollout_inv d'"
  using inv 1 same 2
proof (rule inv_both)
  fix x assume x: "x \<in> set (rollouts d)" and o: "order_ok (rstate x) (phases_of (rid' x) d)"
  let ?g = "\<lambda>p. if q p then p\<lparr>pstate := PPaused\<rparr> else p"
  let ?x = "if rid' x = i \<and> Q x then f x else x"
  show "order_ok (rstate ?x) (map ?g (phases_of (rid' x) d))"
  proof (cases "rid' x = i")
    case True
    have "ordered_states (map pstate (map ?g (phases_of (rid' x) d)))"
      by (rule ordered_mid [OF order_ok_D(2) [OF o]]) (use q in auto)
    moreover have "allowed (rstate ?x) (pstate (?g p))" if p: "p \<in> set (phases_of (rid' x) d)" for p
    proof (cases "Q x")
      case Qx: True
      have "pstate (?g p) \<noteq> PActive" using q(2) p True by auto
      with Qx True f(2) [of x] show ?thesis by auto
    next
      case False
      then have "pstate p \<noteq> PActive" using allowed_not_active [OF order_ok_D(4) [OF o p]] Q [OF x True] by simp
      then have "\<not> q p" using q(1) by blast
      with False order_ok_D(4) [OF o p] show ?thesis by simp
    qed
    ultimately show ?thesis by (intro order_ok_map [OF o]) simp_all
  next
    case False
    then have "map ?g (phases_of (rid' x) d) = phases_of (rid' x) d"
      by (intro map_outside) (use q(1) in \<open>auto simp: set_phases_of\<close>)
    with o False show ?thesis by simp
  qed
qed (simp_all add: f)

lemma same_rollouts_after:
  assumes "rollout_inv d1" and "others i d d1" and "same_rollouts d1 d'"
  shows "rollout_inv d' \<and> others i d d'"
  using assms same_rollouts_inv by (auto simp: same_rollouts_def others_def)

text \<open>The three branches of the pass with an active phase.\<close>

lemma advance_met_inv:
  assumes inv: "rollout_inv d" and r: "r \<in> set (rollouts d)" "rstate r = RRunning"
    and a: "find (in_state PActive) (phases_of (rid' r) d) = Some a" and met: "phase_met r a d"
    and adv: "advance_snapshot env r (phases_of (rid' r) d) ttl s d = (res, s', d')"
  shows "rollout_inv d' \<and> others (rid' r) d d'"
proof -
  let ?next = "find (in_state PPending) (phases_of (rid' r) d)"
  have "stmt (update_phases (\<lambda>p. prollout p = prollout a \<and> pindex p = pindex a \<and> pstate p = PActive)
        (\<lambda>p. p\<lparr>pstate := PCompleted, pcompleted_at := Some (onow env)\<rparr>) d) s d (\<lambda>finished d1.
      if finished = 0 then (Inr (), s, d1)
      else let s1 = s\<lparr>phasesCompleted := phasesCompleted s + 1\<rparr> in
        case ?next of
          None \<Rightarrow> finish_rollout r s1 d1
        | Some p \<Rightarrow> if rmanual_approval r then (Inr (), s1, notifyRolloutEvent EvManualApproval (rid' r) (rproject r) d1)
                  else activate_next env r p ttl s1 d1) = (res, s', d')"
    using adv a met by (simp add: advance_snapshot_def Let_def)
  then show ?thesis
  proof (cases rule: stmt_cases)
    case 1
    then show ?thesis using inv by (simp add: others_same)
  next
    case (2 c d1)
    note ca = complete_active_inv [OF inv r a 2(1)]
    have r1: "r \<in> set (rollouts d1)" and oth: "others (rid' r) d1 d' \<Longrightarrow> others (rid' r) d d'"
      using r ca(2) by (simp_all add: others_def)
    consider (same) "same_rollouts d1 d'"
      | (last) s1 where "?next = None" "finish_rollout r s1 d1 = (res, s', d')"
      | (act) n s1 where "?next = Some n" "activate_next env r n ttl s1 d1 = (res, s', d')"
      using 2(2) same_rollouts_stmts(5) same_rollouts_refl by (auto simp: Let_def split: if_splits option.splits)
    then show ?thesis
    proof cases
      case same
      then show ?thesis using ca by (intro same_rollouts_after [of d1]) (auto intro: others_same)
    next
      case last
      have "pstate p = PCompleted" if p: "p \<in> set (phases_of (rid' r) d1)" for p
        using find_NoneD [OF last(1) [folded ca(3)] p] order_ok_D(4) [OF inv_order [OF ca(1) r1] p] r(2) ca(4) [OF p]
        by (cases "pstate p") (auto simp: in_state_def)
      then show ?thesis using finish_inv [OF ca(1) r1 _ last(2)] oth by blast
    next
      case act
      then show ?thesis using activate_next_inv [OF ca(1) r1 r(2) act(1) [folded ca(3)]] ca(4) oth by blast
    qed
  qed
qed

lemma advance_timeout_inv:
  assumes inv: "rollout_inv d" and r: "r \<in> set (rollouts d)"
    and a: "find (in_state PActive) (phases_of (rid' r) d) = Some a"
    and 1: "update_rollouts (\<lambda>x. rid' x = rid' r \<and> rstate x = RRunning) (\<lambda>x. x\<lparr>rstate := RPaused\<rparr>) d = Inr (n, d1)"
    and 2: "update_phases (\<lambda>p. prollout p = prollout a \<and> pindex p = pindex a \<and> pstate p = PActive)
      (\<lambda>p. p\<lparr>pstate := PPaused\<rparr>) d1 = Inr (m, d2)"
  shows "rollout_inv d2 \<and> others (rid' r) d d2"
proof
  have a': "a \<in> set (phases_of (rid' r) d)" "pstate a = PActive" "prollout a = rid' r"
    using a by (auto dest!: find_SomeD simp: in_state_def set_phases_of)
  show "rollout_inv d2"
    using inv 1 same_rollouts_refl 2
  proof (rule pause_active_inv)
    fix p assume "p \<in> set (phases_of (rid' r) d)" "pstate p = PActive"
    then have "p = a" using ordered_one_active [OF order_ok_D(2) [OF inv_order [OF inv r]] a'(1) _ a'(2)] by simp
    then show "prollout p = prollout a \<and> pindex p = pindex a \<and> pstate p = PActive" using a' by simp
  qed (use a' in auto)
  have "others (rid' r) d d1" using 1 by (rule others_update) simp_all
  then show "others (rid' r) d d2" using 2 by (simp add: update_phases_Inr others_def)
qed

lemma advance_idle_inv:
  assumes inv: "rollout_inv d" and r: "r \<in> set (rollouts d)" "rstate r = RRunning"
    and a: "find (in_state PActive) (phases_of (rid' r) d) = None"
    and adv: "advance_snapshot env r (phases_of (rid' r) d) ttl s d = (res, s', d')"
  shows "rollout_inv d' \<and> others (rid' r) d d'"
proof (cases "\<exists>n. find (in_state PPending) (phases_of (rid' r) d) = Some n \<and> \<not> rmanual_approval r")
  case True
  then obtain n where n: "find (in_state PPending) (phases_of (rid' r) d) = Some n" "\<not> rmanual_approval r" by blast
  then have "\<not> list_all (in_state PCompleted) (phases_of (rid' r) d)"
    by (auto simp: list_all_iff in_state_def dest!: find_SomeD intro!: bexI [of _ n])
  with adv a n have "activate_next env r n ttl s d = (res, s', d')"
    by (auto simp: advance_snapshot_def Let_def split: prod.splits sum.splits)
  moreover have "pstate p \<noteq> PActive" if "p \<in> set (phases_of (rid' r) d)" for p
    using find_NoneD [OF a that] by (simp add: in_state_def)
  ultimately show ?thesis using activate_next_inv [OF inv r n(1)] by blast
next
  case False
  then have *: "(if list_all (in_state PCompleted) (phases_of (rid' r) d) then finish_rollout r s d else (Inr (), s, d)) = (res, s', d')"
    using adv a by (auto simp: advance_snapshot_def Let_def split: option.splits)
  show ?thesis
  proof (cases "list_all (in_state PCompleted) (phases_of (rid' r) d)")
    case True
    then show ?thesis using * by (intro finish_inv [OF inv r(1)]) (auto simp: list_all_iff in_state_def)
  next
    case False
    with * inv show ?thesis by (auto intro: others_same)
  qed
qed

lemma advance_snapshot_inv:
  assumes inv: "rollout_inv d" and r: "r \<in> set (rollouts d)" "rstate r = RRunning"
    and adv: "advance_snapshot env r (phases_of (rid' r) d) ttl s d = (res, s', d')"
  shows "rollout_inv d' \<and> others (rid' r) d d'"
proof (cases "find (in_state PActive) (phases_of (rid' r) d)")
  case None
  with assms show ?thesis by (intro advance_idle_inv)
next
  case (Some a)
  let ?q = "\<lambda>p. prollout p = prollout a \<and> pindex p = pindex a \<and> pstate p = PActive"
  consider (met) "phase_met r a d"
    | (out) "stmt (rbind (update_rollouts (\<lambda>x. rid' x = rid' r \<and> rstate x = RRunning) (\<lambda>x. x\<lparr>rstate := RPaused\<rparr>) d) (\<lambda>(n, d1).
          rbind (update_phases ?q (\<lambda>p. p\<lparr>pstate := PPaused\<rparr>) d1) (\<lambda>(_, d2). Inr (n, d2)))) s d (\<lambda>paused d'.
        if paused > 0
        then (Inr (), s\<lparr>rolloutsPaused := rolloutsPaused s + 1\<rparr>, notifyRolloutEvent EvPaused (rid' r) (rproject r) d')
        else (Inr (), s, d')) = (res, s', d')"
    | (judge) "stmt (judgeInstalledTargets (onow env) (pjob a) (rstuck_hours r) d) s d (\<lambda>stalled d'.
        (Inr (), s\<lparr>targetsStalled := targetsStalled s + stalled\<rparr>, d')) = (res, s', d')"
    using adv Some by (fastforce simp: advance_snapshot_def Let_def split: if_splits)
  then show ?thesis
  proof cases
    case met
    with assms Some show ?thesis by (intro advance_met_inv)
  next
    case out
    then show ?thesis
    proof (cases rule: stmt_cases)
      case (2 n d2)
      then have "rollout_inv d2 \<and> others (rid' r) d d2"
        using advance_timeout_inv [OF inv r(1) Some] by (auto simp: rbind_eq_Inr)
      moreover have "same_rollouts d2 d'"
        using 2(2) same_rollouts_stmts(5) same_rollouts_refl by (auto split: if_splits)
      ultimately show ?thesis using same_rollouts_after by blast
    qed (use inv in \<open>simp add: others_same\<close>)
  next
    case judge
    then show ?thesis
    proof (cases rule: stmt_cases)
      case (2 n d2)
      have "same_rollouts d d2"
        using 2(1) by (auto simp: judgeInstalledTargets_def split: option.splits intro: same_rollouts_stmts)
      with 2 inv show ?thesis using same_rollouts_after [OF inv others_same [OF refl]] by auto
    qed (use inv in \<open>simp add: others_same\<close>)
  qed
qed

end
