(* ===== verification/RolloutSystem.thy ===== *)
theory RolloutSystem
  imports RolloutOrder
begin

text \<open>
  Rollouts as a system: \<open>rollout_step\<close> is one whole handler of \<^verbatim>\<open>ota/rollout.ts\<close> or one transaction of
  direct deployment. The theory proves that every handler keeps the order of the phases, and shows what
  goes wrong when handlers interleave.
\<close>

section \<open>Handlers\<close>

lemma advance_all_inv:
  assumes "rollout_inv d" and "distinct ids" and "\<And>i. i \<in> set ids \<Longrightarrow> \<exists>r \<in> set (rollouts d). rid' r = i \<and> rstate r = RRunning"
    and "advance_all envs ids ttl s d = (s', d')"
  shows "rollout_inv d'"
  using assms
proof (induction ids arbitrary: envs s d)
  case (Cons i ids)
  obtain r where r: "r \<in> set (rollouts d)" "rid' r = i" "rstate r = RRunning" using Cons.prems(3) by auto
  have find: "find_rollout i d = Some r"
    using find_key_unique [of rid' "rollouts d" r] Cons.prems(1) r by (simp add: find_rollout_def rollout_inv_def rows_ok_def)
  obtain res s1 d1 where one: "advanceOneRollout (envs 0) i ttl s d = (res, s1, d1)" by (cases "advanceOneRollout (envs 0) i ttl s d")
  then have 1: "rollout_inv d1 \<and> others i d d1"
    using advance_snapshot_inv [OF Cons.prems(1) r(1,3)] find r(2) by (simp add: advanceOneRollout_def)
  have run: "\<exists>r \<in> set (rollouts d1). rid' r = k \<and> rstate r = RRunning" if k: "k \<in> set ids" for k
  proof -
    obtain x where "x \<in> set (rollouts d)" "rid' x = k" "rstate x = RRunning" using Cons.prems(3) [of k] k by auto
    moreover have "k \<noteq> i" using Cons.prems(2) k by auto
    ultimately show ?thesis using 1 unfolding others_def by blast
  qed
  obtain s2 where "advance_all (\<lambda>n. envs (Suc n)) ids ttl s2 d1 = (s', d')"
    using Cons.prems(4) one by (cases res) auto
  with 1 Cons.prems(2) run show ?case by (intro Cons.IH [of d1]) auto
qed simp

lemma advanceRollouts_inv:
  assumes "rollout_inv d" and "advanceRollouts envs ttl d = (s, d')"
  shows "rollout_inv d'"
proof (rule advance_all_inv [OF assms(1)])
  show "distinct (running_rollouts d)"
    using assms(1) by (simp add: running_rollouts_def rollout_inv_def rows_ok_def distinct_map_filter)
  show "advance_all envs (running_rollouts d) (ttl_ms ttl) (empty_summary\<lparr>rolloutsScanned := length (running_rollouts d)\<rparr>) d = (s, d')"
    using assms(2) by (simp add: advanceRollouts_def Let_def)
qed (auto simp: running_rollouts_def)

lemma pauseRollout_inv:
  assumes inv: "rollout_inv d" and p: "pauseRollout i d = Inr (b, d')"
  shows "rollout_inv d'"
proof -
  from p obtain n d1 m where u: "update_rollouts (\<lambda>r. rid' r = i \<and> rstate r = RRunning) (\<lambda>r. r\<lparr>rstate := RPaused\<rparr>) d = Inr (n, d1)"
      "update_phases (\<lambda>p. prollout p = i \<and> pstate p = PActive) (\<lambda>p. p\<lparr>pstate := PPaused\<rparr>) d1 = Inr (m, d')"
    by (auto simp: pauseRollout_def pause_phases_def rbind_eq_Inr)
  show ?thesis
    by (rule pause_active_inv [OF inv u(1) same_rollouts_refl u(2)]) (auto simp: set_phases_of)
qed

lemma pause_phases_ok:
  assumes "rows_ok d"
  shows "\<exists>n. pause_phases i d = Inr (n, d\<lparr>phases := map (\<lambda>p. if prollout p = i \<and> pstate p = PActive then p\<lparr>pstate := PPaused\<rparr> else p) (phases d)\<rparr>)"
  unfolding pause_phases_def using assms by (rule update_phases_ok) (auto simp: phase_check_def)

lemma update_rollouts_none: "update_rollouts q f d = Inr (0, d') \<Longrightarrow> d' = d"
proof -
  assume u: "update_rollouts q f d = Inr (0, d')"
  then have "map (\<lambda>r. if q r then f r else r) (rollouts d) = rollouts d"
    by (intro map_outside) (auto simp: update_rollouts_Inr filter_empty_conv)
  with u show "d' = d" by (simp add: update_rollouts_Inr)
qed

lemma abortRollout_inv:
  assumes inv: "rollout_inv d" and a: "abortRollout i d = (res, d')"
  shows "rollout_inv d'"
proof -
  let ?q = "\<lambda>r. rid' r = i \<and> rstate r \<in> {RRunning, RPaused}"
  let ?f = "\<lambda>r. r\<lparr>rstate := RAborted\<rparr>"
  have rows: "rows_ok d" using inv by (simp add: rollout_inv_def)
  obtain n where 1: "update_rollouts ?q ?f d = Inr (n, d\<lparr>rollouts := map (\<lambda>r. if ?q r then ?f r else r) (rollouts d)\<rparr>)"
    (is "_ = Inr (n, ?d1)") using update_rollouts_ok [OF rows refl] by blast
  have rows1: "rows_ok ?d1" using rows 1 by (rule rows_update_rollouts) simp
  note comm = a [unfolded abortRollout_def 1 commit_def sum.case prod.case]
  show ?thesis
  proof (cases "n = 0")
    case True
    then have "?d1 = d" using 1 update_rollouts_none by blast
    moreover have "d' = ?d1" using comm True by simp
    ultimately show ?thesis using inv by simp
  next
    case False
    define e where "e = (case find_rollout i ?d1 of None \<Rightarrow> ?d1 | Some r \<Rightarrow> notifyRolloutEvent EvAborted i (rproject r) ?d1)"
    have same: "same_rollouts ?d1 e" unfolding e_def by (simp only: same_rollouts_stmts same_rollouts_refl split: option.split) simp
    obtain m d3 where 2: "pause_phases i e = Inr (m, d3)" using pause_phases_ok rows_same [OF same rows1] by blast
    have d': "d' = d3" using comm [folded e_def] False 2 by (simp only: Let_def e_def [symmetric]) simp
    show ?thesis unfolding d'
      by (rule pause_active_inv [OF inv 1 same 2 [unfolded pause_phases_def]]) (auto simp: set_phases_of)
  qed
qed


lemma resume_phases_ok:
  assumes "rows_ok d"
  shows "\<exists>n d'. resume_phases t i d = Inr (n, d')"
proof -
  have "\<exists>n. update_phases (\<lambda>p. prollout p = i \<and> pstate p = PPaused) (\<lambda>p. p\<lparr>pstate := PActive, pactivated_at := Some t\<rparr>) d =
      Inr (n, d\<lparr>phases := map (\<lambda>p. if prollout p = i \<and> pstate p = PPaused then p\<lparr>pstate := PActive, pactivated_at := Some t\<rparr> else p) (phases d)\<rparr>)"
    using assms by (rule update_phases_ok) (auto simp: phase_check_def)
  then show ?thesis unfolding resume_phases_def by blast
qed

lemma resume_paused_inv:
  assumes inv: "rollout_inv d" and r: "r \<in> set (rollouts d)" "rid' r = i" "rstate r = RPaused"
    and 1: "resume_rollout_row i d = Inr (n, d1)" and 2: "resume_phases t i d1 = Inr (m, d2)"
  shows "rollout_inv d2"
  using inv 1 [unfolded resume_rollout_row_def] same_rollouts_refl 2 [unfolded resume_phases_def]
proof (rule inv_both)
  fix x assume x: "x \<in> set (rollouts d)" and o: "order_ok (rstate x) (phases_of (rid' x) d)"
  let ?g = "\<lambda>p. if prollout p = i \<and> pstate p = PPaused then p\<lparr>pstate := PActive, pactivated_at := Some t\<rparr> else p"
  show "order_ok (rstate (if rid' x = i \<and> rstate x = RPaused then x\<lparr>rstate := RRunning\<rparr> else x)) (map ?g (phases_of (rid' x) d))"
  proof (cases "rid' x = i")
    case True
    then have "x = r" using rid_unique [OF inv] x r by blast
    then have st: "rstate (if rid' x = i \<and> rstate x = RPaused then x\<lparr>rstate := RRunning\<rparr> else x) = RRunning"
      using True r(3) by simp
    have "ordered_states (map pstate (map ?g (phases_of (rid' x) d)))"
      by (rule ordered_mid [OF order_ok_D(2) [OF o]]) auto
    then show ?thesis
      unfolding st by (intro order_ok_map [OF o]) (use True in \<open>auto simp: set_phases_of\<close>)
  next
    case False
    then have "map ?g (phases_of (rid' x) d) = phases_of (rid' x) d"
      by (intro map_outside) (auto simp: set_phases_of)
    with o False show ?thesis by simp
  qed
qed simp_all

lemma resumeRollout_inv:
  assumes inv: "rollout_inv d" and res: "resumeRollout env i ttl d = (b, d')"
  shows "rollout_inv d'"
proof (cases "find_rollout i d")
  case None
  then show ?thesis using inv res by (simp add: resumeRollout_def)
next
  case (Some r)
  then have r: "r \<in> set (rollouts d)" "rid' r = i" by (auto dest: find_rollout_Some)
  have rows: "rows_ok d" using inv by (simp add: rollout_inv_def)
  show ?thesis
  proof (cases "rstate r")
    case RPaused
    obtain n d1 where 1: "resume_rollout_row i d = Inr (n, d1)"
      unfolding resume_rollout_row_def using update_rollouts_ok [OF rows refl] by blast
    have "rows_ok d1" using rows 1 unfolding resume_rollout_row_def by (rule rows_update_rollouts) simp
    then obtain m d2 where 2: "resume_phases (onow env) i d1 = Inr (m, d2)" using resume_phases_ok by blast
    have "rollout_inv d2" using resume_paused_inv [OF inv r RPaused 1 2] .
    moreover have "d' = notifyRolloutEvent EvResumed i (rproject r) d2"
      using res Some RPaused 1 2 by (simp add: resumeRollout_def commit_def)
    ultimately show ?thesis using same_rollouts_inv same_rollouts_stmts(5) by blast
  next
    case RRunning
    show ?thesis
    proof (cases "find (in_state PActive) (phases_of i d) = None \<and> (\<exists>n. find (in_state PPending) (phases_of i d) = Some n)")
      case True
      then obtain n where n: "find (in_state PPending) (phases_of i d) = Some n" by blast
      have idle: "pstate p \<noteq> PActive" if "p \<in> set (phases_of i d)" for p
        using True that find_NoneD by (fastforce simp: in_state_def)
      show ?thesis
      proof (cases "activatePendingPhase env i (pindex n) (ttl_ms ttl) d")
        case (Inl e)
        then show ?thesis using res Some RRunning True n inv by (simp add: resumeRollout_def commit_def)
      next
        case (Inr x)
        then obtain c d1 where a: "activatePendingPhase env i (pindex n) (ttl_ms ttl) d = Inr (c, d1)" by (cases x) auto
        then have "d' = notifyRolloutEvent EvResumed i (rproject r) d1"
          using res Some RRunning True n by (simp add: resumeRollout_def commit_def)
        moreover have "rollout_inv d1"
          using activate_inv [OF inv r(1) RRunning] n idle a unfolding r(2) by blast
        ultimately show ?thesis using same_rollouts_inv same_rollouts_stmts(5) by blast
      qed
    next
      case False
      then show ?thesis using res Some RRunning inv
        by (cases "find (in_state PActive) (phases_of i d)"; cases "find (in_state PPending) (phases_of i d)")
          (simp_all add: resumeRollout_def)
    qed
  qed (use res Some inv in \<open>simp_all add: resumeRollout_def\<close>)
qed

section \<open>Rollback\<close>

lemma drop_job_same:
  assumes "insert_job j d = Inr (u, d1)" and "same_rollouts d1 d2" and "ota_jobs d2 = ota_jobs d1"
  shows "same_rollouts d (drop_job (jid j) d2)"
proof -
  have "filter (\<lambda>x. jid x \<noteq> jid j) (ota_jobs d2) = ota_jobs d"
    using assms(1,3) by (auto simp: insert_job_Inr filter_id_conv image_iff)
  then show ?thesis using assms(1,2) by (auto simp: drop_job_def same_rollouts_def insert_job_Inr)
qed

lemma createTargets_jobs:
  "createTargetsForRelease env j rel devs ttl d = Inr (u, d') \<Longrightarrow> ota_jobs d' = ota_jobs d"
  by (auto simp: createTargetsForRelease_def complete_running_def rbind_eq_Inr insert_targets_Inr update_targets_Inr split: if_splits)

lemma rollback_tx_inv:
  assumes inv: "rollout_inv d" and t: "rollback_tx env r from old devs ttl d = Inr (j, d')"
  shows "rollout_inv d'"
proof -
  let ?j = "\<lparr>jid = ofresh env 0, jproject = rproject r, jrelease = from, jcreated_by = rcreated_by r\<rparr>"
  let ?Q = "\<lambda>x. rrollback_job x = None \<or> (old \<noteq> None \<and> rrollback_job x = old)"
  from t obtain d1 d2 d3 n where 1: "insert_job ?j d = Inr ((), d1)"
    and 2: "createTargetsForRelease env (jid ?j) from devs ttl d1 = Inr ((), d2)"
    and 3: "update_rollouts (\<lambda>x. rid' x = rid' r \<and> ?Q x) (\<lambda>r. r\<lparr>rstate := RAborted, rrollback_job := Some (jid ?j)\<rparr>) d2 = Inr (n, d3)"
    by (auto simp: rollback_tx_def claim_rollback_def Let_def rbind_eq_Inr)
  have same: "same_rollouts d d2"
    using same_rollouts_stmts(1) [OF 1] createTargets_same [OF 2] by (rule same_rollouts_trans)
  have inv2: "rollout_inv d2" using same inv by (rule same_rollouts_inv)
  show ?thesis
  proof (cases "n = 0")
    case True
    then have "d3 = d2" using 3 update_rollouts_none by blast
    then have "d' = drop_job (jid ?j) d2"
      using t 1 2 3 True by (auto simp: rollback_tx_def claim_rollback_def Let_def split: option.splits)
    with drop_job_same [OF 1 createTargets_same [OF 2] createTargets_jobs [OF 2]] inv show ?thesis
      using same_rollouts_inv by blast
  next
    case False
    then obtain m d4 where 4: "pause_phases (rid' r) d3 = Inr (m, d4)" "d' = o_notify OTA_NOTIFY_CHANNEL (jid ?j) d4"
      using t 1 2 3 by (auto simp: rollback_tx_def claim_rollback_def Let_def rbind_eq_Inr)
    obtain y where y: "y \<in> set (rollouts d2)" "rid' y = rid' r" "?Q y"
      using 3 False by (auto simp: update_rollouts_Inr filter_empty_conv)
    have Q: "?Q x" if "x \<in> set (rollouts d2)" "rid' x = rid' r" for x
    proof -
      have "x = y" by (rule rid_unique [OF inv2 that(1) y(1)]) (simp only: that(2) y(2))
      then show ?thesis using y(3) by (simp only:)
    qed
    have "rollout_inv d4"
      by (rule pause_active_inv [OF inv2 3 same_rollouts_refl 4(1) [unfolded pause_phases_def]])
        (use Q in \<open>auto simp: set_phases_of\<close>)
    then show ?thesis using 4(2) same_rollouts_inv same_rollouts_stmts(4) by blast
  qed
qed

lemma rollbackRollout_inv:
  assumes inv: "rollout_inv d" and t: "rollbackRollout env i ttl d = (res, d')"
  shows "rollout_inv d'"
proof -
  have "d' = d \<or> (\<exists>r from old devs j. rollback_tx env r from old devs (ttl_ms ttl) d = Inr (j, d'))"
    using t by (auto simp: rollbackRollout_def rollback_fresh_def commit_def Let_def split: option.splits if_splits sum.splits)
  then show ?thesis using inv rollback_tx_inv by blast
qed


section \<open>Creation\<close>

lemma new_pool_of: "map pdevice (sort_key psort_idx (new_pool i devs)) = devs"
proof -
  have k: "map psort_idx (new_pool i devs) = [0..<length devs]" "map pdevice (new_pool i devs) = devs"
    by (rule nth_equalityI; simp add: new_pool_def)+
  have "sort_key psort_idx (new_pool i devs) = new_pool i devs"
    by (rule sort_key_id_if_sorted) (simp add: k)
  with k show ?thesis by simp
qed

lemma new_phases_order:
  assumes "plan_covers plan n" and ps: "ps = map (new_phase i) plan"
    and g: "g = (\<lambda>p. if prollout p = i \<and> pindex p = 1 then p\<lparr>pstate := PActive, pjob := Some j, pactivated_at := Some t\<rparr> else p)"
  shows "order_ok RRunning (map g ps)" and "sum_list (map ptarget_count (map g ps)) = n"
proof -
  obtain first rest where plan: "plan = first # rest" using assms(1) by (cases plan) (auto simp: plan_covers_def)
  have idx: "map pindex ps = [1..<Suc (length ps)]"
    using assms(1) by (simp add: plan_covers_def ps comp_def new_phase_def del: upt_Suc)
  have f: "pp_index first = 1" and others: "\<And>q. q \<in> set rest \<Longrightarrow> pp_index q \<noteq> 1"
    using assms(1) by (auto simp: plan_covers_def plan upt_conv_Cons Cons_eq_map_conv simp del: upt_Suc)
      (metis One_nat_def atLeastLessThan_iff image_eqI le_refl list.set_map n_not_Suc_n not_less_eq_eq set_upt)+
  have "ordered_states (map pstate (map g ps))" "\<forall>p \<in> set ps. pstate (g p) \<noteq> PPaused"
    using f others by (auto simp: ps plan g new_phase_def)
  moreover have "map pindex (map g ps) = map pindex ps" by (simp add: g)
  ultimately show "order_ok RRunning (map g ps)"
    using idx plan by (auto simp: order_ok_def ps simp del: upt_Suc map_map)
  have "map ptarget_count (map g ps) = map pp_count plan" by (simp add: g ps new_phase_def)
  then show "sum_list (map ptarget_count (map g ps)) = n" using assms(1) by (simp add: plan_covers_def del: map_map)
qed

lemma map_filter_append: "List.map_filter f (xs @ ys) = List.map_filter f xs @ List.map_filter f ys"
  by (induction xs) (simp_all add: List.map_filter_simps split: option.split)

text \<open>The rows before the first phase is activated.\<close>

lemma stored_rows:
  assumes inv: "rollout_inv d" and 1: "insert_rollout (new_rollout i o') d = Inr (u1, d1)"
    and 2: "insert_pool (new_pool i ordered) d1 = Inr (u2, d2)"
    and 3: "insert_phases (map (new_phase i) plan) d2 = Inr (u3, d3)"
  shows "rollouts d3 = rollouts d @ [new_rollout i o']" "phases d3 = phases d @ map (new_phase i) plan"
    "pool d3 = pool d @ new_pool i ordered" "i \<notin> rid' ` set (rollouts d)" "rows_ok d3"
    "\<And>x. x \<in> set (new_pool i ordered) \<Longrightarrow> prollout' x = i"
proof -
  show rs: "rollouts d3 = rollouts d @ [new_rollout i o']" and ps: "phases d3 = phases d @ map (new_phase i) plan"
    and pl: "pool d3 = pool d @ new_pool i ordered" and i: "i \<notin> rid' ` set (rollouts d)"
    using 1 2 3 by (auto simp: insert_rollout_def insert_pool_def insert_phases_def new_rollout_def split: if_splits)
  have jobs: "ota_jobs d3 = ota_jobs d" and chk: "rollout_check (new_rollout i o')"
    and un: "phases_unique (phases d3)" and pc: "\<And>p. p \<in> set (map (new_phase i) plan) \<Longrightarrow> phase_check p"
    using 1 2 3 by (auto simp: insert_rollout_def insert_pool_def insert_phases_def list_all_iff split: if_splits)
  have rows: "rows_ok d" using inv by (simp add: rollout_inv_def)
  have "phase_ok d3 p" if "p \<in> set (phases d3)" for p
  proof (cases "p \<in> set (phases d)")
    case True
    then have "phase_ok d p" using rows by (simp add: rows_ok_def)
    then show ?thesis by (auto simp: phase_ok_def rs jobs)
  next
    case False
    with that have "p \<in> set (map (new_phase i) plan)" by (auto simp: ps)
    with pc [OF this] show ?thesis by (auto simp: phase_ok_def rs new_phase_def new_rollout_def)
  qed
  moreover have "rollback_ok d3"
    using rows by (simp add: rows_ok_def rollback_ok_def rs jobs new_rollout_def map_filter_append List.map_filter_simps)
  ultimately show "rows_ok d3"
    using rows chk un i by (auto simp: rows_ok_def rs pl new_rollout_def new_pool_def)
  show "\<And>x. x \<in> set (new_pool i ordered) \<Longrightarrow> prollout' x = i" by (auto simp: new_pool_def)
qed

lemma store_rollout_inv:
  assumes inv: "rollout_inv d" and cov: "plan_covers plan (length ordered)"
    and s: "store_rollout env i o' ordered plan d = Inr (res, d')"
  shows "rollout_inv d'"
  using s
proof (rule store_rollout_Inr)
  fix first rest d1 d2 d3 d4 j n
  assume 1: "insert_rollout (new_rollout i o') d = Inr ((), d1)" "insert_pool (new_pool i ordered) d1 = Inr ((), d2)"
      "insert_phases (map (new_phase i) plan) d2 = Inr ((), d3)"
    and 2: "createPhaseJob env i (take (pp_count first) ordered) (ttl_ms (cr_targetTtlSeconds o')) d3 = Inr (j, d4)"
    and 3: "update_phases (\<lambda>p. prollout p = i \<and> pindex p = 1)
      (\<lambda>p. p\<lparr>pstate := PActive, pjob := Some j, pactivated_at := Some (onow env)\<rparr>) d4 = Inr (n, d')"
  let ?g = "\<lambda>p. if prollout p = i \<and> pindex p = 1 then p\<lparr>pstate := PActive, pjob := Some j, pactivated_at := Some (onow env)\<rparr> else p"
  note st = stored_rows [OF inv 1]
  note same = createPhaseJob_same [OF 2]
  have d': "rollouts d' = rollouts d3" "phases d' = map ?g (phases d3)" "pool d' = pool d3"
    using 3 same by (simp_all add: update_phases_Inr same_rollouts_def)
  have rows: "rows_ok d'" using rows_update_phases [OF rows_same [OF same st(5)] 3] by simp
  have of': "phases_of k d' = map ?g (phases_of k d3)" for k
    by (rule phases_of_map) (simp_all add: d'(2))
  have no: "prollout p \<noteq> i" if "p \<in> set (phases d)" for p
    using inv that st(4) by (auto simp: rollout_inv_def rows_ok_def phase_ok_def)
  have no_pool: "filter (\<lambda>x. prollout' x = i) (pool d) = []"
    using inv st(4) by (auto simp: rollout_inv_def rows_ok_def filter_empty_conv)
  have "rollout_ok d' r" if r: "r \<in> set (rollouts d')" for r
  proof (cases "r \<in> set (rollouts d)")
    case True
    then have k: "rid' r \<noteq> i" using st(4) by auto
    then have "phases_of (rid' r) d3 = phases_of (rid' r) d" by (simp add: phases_of_def st(2) filter_empty_conv new_phase_def)
    moreover have "map ?g (phases_of (rid' r) d) = phases_of (rid' r) d"
      using k by (intro map_outside) (auto simp: set_phases_of)
    moreover have "pool_of (rid' r) d' = pool_of (rid' r) d"
      using k st(6) by (auto simp: pool_of_def d'(3) st(3) filter_empty_conv)
    ultimately show ?thesis using inv True by (simp add: of' rollout_ok_def rollout_inv_def)
  next
    case False
    then have r: "r = new_rollout i o'" using r by (auto simp: d'(1) st(1))
    have "phases_of i d3 = map (new_phase i) plan"
      unfolding phases_of_def st(2) using no cov
      by (simp add: filter_empty_conv new_phase_def plan_covers_def comp_def filter_id_conv [THEN iffD2] sort_key_id_if_sorted del: upt_Suc)
    moreover have "pool_of i d' = ordered"
      using st(6) no_pool new_pool_of [of i ordered] by (simp add: pool_of_def d'(3) st(3))
    ultimately show ?thesis
      using new_phases_order [OF cov refl refl, where i = i and j = j and t = "onow env"]
      by (simp add: rollout_ok_def r of' new_rollout_def del: map_map)
  qed
  with rows show ?thesis by (simp add: rollout_inv_def)
qed


lemma length_shuffle_from [simp]: "length (shuffle_from rand k xs) = length xs"
  by (induction k arbitrary: xs) (simp_all add: Let_def)

lemma createOtaRollout_stored:
  assumes "createOtaRollout env i rand o' d = Inr (res, d')"
  obtains ordered plan where "plan_covers plan (length ordered)" "store_rollout env i o' ordered plan d = Inr (res, d')"
proof -
  from assms obtain devs plan where p: "plan_rollout o' = Inr (devs, plan)"
    and s: "store_rollout env i o' (if cr_strategy o' = Auto then shuffle' rand devs else devs) plan d = Inr (res, d')"
    by (auto simp: createOtaRollout_def Let_def rbind_eq_Inr)
  have "length (if cr_strategy o' = Auto then shuffle' rand devs else devs) = length devs"
    by (simp add: shuffle'_def)
  with plan_covers_pool_lemma [OF p] s show ?thesis by (intro that) auto
qed

lemma deploy_step_same:
  assumes "deploy_step d d'"
  shows "same_rollouts d d'"
  using assms
proof cases
  case (create env o' r)
  then show ?thesis
    unfolding createOtaJob_def Let_def
    by (auto simp: rbind_eq_Inr intro!: same_rollouts_trans [OF _ same_rollouts_stmts(4)])
      (blast intro: same_rollouts_trans same_rollouts_stmts(1,2) complete_running_same)
next
  case (lease t locked ms r)
  then show ?thesis
    by (auto simp: leaseNextOtaTarget_def rbind_eq_Inr split: option.splits intro: same_rollouts_stmts)
qed (auto simp: markOtaTargetDelivered_def releaseOtaTarget_def markOtaTargetDelivering_def recordOtaResult_def
    confirmOtaTargetByFirmware_def expireOtaBatch_def stallOtaBatch_def update_batch_def Let_def same_rollouts_def
    update_targets_Inr split: option.splits if_splits)

section \<open>The system\<close>

inductive rollout_step :: "ota_db \<Rightarrow> ota_db \<Rightarrow> bool" where
  create: "createOtaRollout env i rand o' d = Inr (r, d') \<Longrightarrow> rollout_step d d'"
| advance: "advanceRollouts envs ttl d = (s, d') \<Longrightarrow> rollout_step d d'"
| pause: "pauseRollout i d = Inr (b, d') \<Longrightarrow> rollout_step d d'"
| resume: "resumeRollout env i ttl d = (r, d') \<Longrightarrow> rollout_step d d'"
| abort: "abortRollout i d = (r, d') \<Longrightarrow> rollout_step d d'"
| rollback: "rollbackRollout env i ttl d = (r, d') \<Longrightarrow> rollout_step d d'"
| deploy: "deploy_step d d' \<Longrightarrow> rollout_step d d'"

definition rollout_init :: "ota_db \<Rightarrow> bool" where
  "rollout_init d \<longleftrightarrow> rollouts d = [] \<and> phases d = [] \<and> pool d = []"

lemma rollout_step_inv:
  assumes "rollout_inv d" and "rollout_step d d'"
  shows "rollout_inv d'"
  using assms(2)
proof cases
  case (create env i rand o' r)
  then show ?thesis using assms(1) by (metis createOtaRollout_stored store_rollout_inv)
qed (use assms(1) in \<open>blast intro: advanceRollouts_inv pauseRollout_inv resumeRollout_inv abortRollout_inv rollbackRollout_inv
    same_rollouts_inv deploy_step_same\<close>)+

interpretation rsys: guarded_system rollout_init rollout_step rollout_inv
proof
  show "rollout_inv d" if "rollout_init d" for d
    using that by (simp add: rollout_init_def rollout_inv_def rows_ok_def rollback_ok_def phases_unique_def List.map_filter_simps)
qed (rule rollout_step_inv)

end
