(* ===== verification/RolloutProperties.thy ===== *)
theory RolloutProperties
  imports RolloutSystem OtaProperties
begin

text \<open>
  The properties of rollouts, with a concrete rollout of two phases over three devices.
\<close>

section \<open>A concrete rollout\<close>

definition er_opts :: CreateRolloutOptions where
  "er_opts = \<lparr>cr_projectId = eo_uuid CHR ''9'', cr_releaseId = eo_uuid CHR ''a'', cr_fromReleaseId = Some (eo_uuid CHR ''b''),
     cr_strategy = Grouped, cr_deviceIds = None, cr_ratios = None,
     cr_groups = Some [[eo_uuid CHR ''1''], [eo_uuid CHR ''3'', eo_uuid CHR ''2'']], cr_successRatio = Some (1 / 2),
     cr_minSample = None, cr_phaseTimeoutHours = None, cr_stuckHours = None, cr_manualApproval = None,
     cr_targetTtlSeconds = None, cr_createdBy = eo_uuid CHR ''8''\<rparr>"

definition er_id :: uuid where "er_id = eo_uuid CHR ''e''"

definition er_tx :: "CreatedRollout otx" where
  "er_tx = createOtaRollout (eo_env 100 ''e'') er_id (\<lambda>_. 0) er_opts eo_db"

definition er_db :: ota_db where "er_db = o_after er_tx"

text \<open>Device 1 already runs the release, so that phase 1 is met at once and the next pass activates phase 2.\<close>

definition er_pass :: "AdvanceSummary \<times> ota_db" where
  "er_pass = advanceRollouts (\<lambda>_. eo_env 200 ''f'') None er_db"

definition er_db2 :: ota_db where "er_db2 = snd er_pass"

definition phase_view :: "ota_db \<Rightarrow> (nat \<times> phase_state) list" where
  "phase_view d = map (\<lambda>p. (pindex p, pstate p)) (phases_of er_id d)"

lemma er_run:
  "\<not> isl er_tx \<and> phase_view er_db = [(1, PActive), (2, PPending)] \<and>
   phase_view er_db2 = [(1, PCompleted), (2, PActive)] \<and> map rstate (rollouts er_db2) = [RRunning]"
  by code_simp

lemma er_init: "rollout_init eo_db"
  by (simp add: rollout_init_def eo_db_def)

lemma er_steps: "rollout_step\<^sup>*\<^sup>* eo_db er_db" "rollout_step\<^sup>*\<^sup>* eo_db er_db2"
proof -
  have 1: "rollout_step eo_db er_db"
    using o_after_run [of er_tx] er_run unfolding er_db_def er_tx_def by (auto intro: rollout_step.create)
  have "rollout_step er_db er_db2"
    unfolding er_db2_def er_pass_def by (rule rollout_step.advance [where s = "fst er_pass"]) (simp add: er_pass_def)
  with 1 show "rollout_step\<^sup>*\<^sup>* eo_db er_db" "rollout_step\<^sup>*\<^sup>* eo_db er_db2"
    by (auto intro: rtranclp.rtrancl_into_rtrancl)
qed

section \<open>Order\<close>

lemma ordered_before:
  assumes "ordered_states (map pstate ps)" and "sorted_wrt (<) (map pindex ps)"
    and "p \<in> set ps" and "q \<in> set ps" and "pindex p < pindex q" and "pstate q \<noteq> PPending"
  shows "pstate p = PCompleted"
  using assms
proof (induction ps)
  case (Cons x ps)
  show ?case
  proof (cases "pstate x = PCompleted")
    case True
    with Cons show ?thesis by auto
  next
    case False
    then have "\<forall>s \<in> set (map pstate ps). s = PPending" using Cons.prems(1) by (cases "pstate x") auto
    with Cons.prems have "q = x" by auto
    with Cons.prems show ?thesis by auto
  qed
qed simp

text \<open>C25. Phases run in order: on every database reached by running the handlers one after the other, a
  phase has left the pending state only when every earlier phase of its rollout is completed. So at most
  one phase is under way. A running rollout has no paused phase, a paused or aborted one no active
  phase, and a completed one only completed phases.\<close>

theorem phases_in_order:
  assumes "rollout_init d0" and "rollout_step\<^sup>*\<^sup>* d0 d" and "r \<in> set (rollouts d)"
  shows "(\<forall>p \<in> set (phases_of (rid' r) d). \<forall>q \<in> set (phases_of (rid' r) d).
      pindex p < pindex q \<and> pstate q \<noteq> PPending \<longrightarrow> pstate p = PCompleted) \<and>
    (\<forall>p \<in> set (phases_of (rid' r) d). allowed (rstate r) (pstate p))"
proof -
  have o: "order_ok (rstate r) (phases_of (rid' r) d)"
    using rsys.reachable_inv [OF assms(1,2)] assms(3) by (rule inv_order)
  then have "sorted_wrt (<) (map pindex (phases_of (rid' r) d))" by (simp add: order_ok_def del: upt_Suc)
  with o show ?thesis using ordered_before [of "phases_of (rid' r) d"] by (auto simp: order_ok_def)
qed

theorem phases_in_order_witness:
  "\<exists>r \<in> set (rollouts er_db2). rid' r = er_id \<and> phase_view er_db2 = [(1, PCompleted), (2, PActive)] \<and>
    (\<forall>p \<in> set (phases_of er_id er_db2). pstate p \<noteq> PPaused)"
proof -
  have "map (\<lambda>r. (rid' r, rstate r)) (rollouts er_db2) = [(er_id, RRunning)]" by code_simp
  then obtain r where r: "r \<in> set (rollouts er_db2)" "rid' r = er_id" "rstate r = RRunning" by (auto simp: map_eq_Cons_conv)
  from phases_in_order [OF er_init er_steps(2) r(1)] r er_run show ?thesis by auto
qed

section \<open>Slices\<close>

lemma take_slices:
  "concat (map (\<lambda>k. take (c k) (drop (sum_list (map c [0..<k])) xs)) [0..<n]) = take (sum_list (map c [0..<n])) xs"
  by (induction n) (simp_all add: take_add)

lemma sum_list_sort: "sum_list (map f (filter P (sort_key g xs))) = sum_list (map f (filter P xs))"
  for f :: "'a \<Rightarrow> nat"
proof -
  have "mset (map f (filter P (sort_key g xs))) = mset (map f (filter P xs))" by (simp add: mset_filter)
  then show ?thesis by (metis sum_mset_sum_list)
qed

lemma slice_start_nth:
  assumes "map pindex ps = [1..<Suc (length ps)]" and "ps = phases_of i d" and "k < length ps"
  shows "slice_start i (pindex (ps ! k)) d = sum_list (map ptarget_count (take k ps))"
proof -
  have idx: "pindex (ps ! m) = Suc m" if "m < length ps" for m
    using arg_cong [OF assms(1), of "\<lambda>l. l ! m"] that by (simp del: upt_Suc)
  have "filter (\<lambda>p. pindex p < Suc k) ps = take k ps"
  proof -
    have "filter (\<lambda>p. pindex p < Suc k) ps = filter (\<lambda>p. pindex p < Suc k) (take k ps) @ filter (\<lambda>p. pindex p < Suc k) (drop k ps)"
      by (metis append_take_drop_id filter_append)
    also have "filter (\<lambda>p. pindex p < Suc k) (take k ps) = take k ps"
      using idx assms(3) by (auto simp: filter_id_conv in_set_conv_nth)
    also have "filter (\<lambda>p. pindex p < Suc k) (drop k ps) = []"
      using idx by (auto simp: filter_empty_conv in_set_conv_nth)
    finally show ?thesis by simp
  qed
  moreover have "slice_start i (pindex (ps ! k)) d = sum_list (map ptarget_count (filter (\<lambda>p. pindex p < pindex (ps ! k)) ps))"
    unfolding slice_start_def assms(2) phases_of_def sum_list_sort by (simp add: conj_commute)
  ultimately show ?thesis using idx [OF assms(3)] by simp
qed

text \<open>The slices of the phases partition the pool: taken in phase order, the device slices that
  \<^verbatim>\<open>activatePendingPhase\<close> computes from the cumulative target counts are exactly the pool in its stored
  order. Every device of the pool is in exactly one phase.\<close>

theorem phase_slices_partition:
  assumes "rollout_init d0" and "rollout_step\<^sup>*\<^sup>* d0 d" and "r \<in> set (rollouts d)"
  shows "concat (map (\<lambda>p. take (ptarget_count p) (drop (slice_start (rid' r) (pindex p) d) (pool_of (rid' r) d)))
      (phases_of (rid' r) d)) = pool_of (rid' r) d"
proof -
  let ?ps = "phases_of (rid' r) d" and ?xs = "pool_of (rid' r) d"
  let ?c = "\<lambda>k. ptarget_count (?ps ! k)"
  have ok: "rollout_ok d r" using rsys.reachable_inv [OF assms(1,2)] assms(3) by (simp add: rollout_inv_def)
  then have idx: "map pindex ?ps = [1..<Suc (length ?ps)]" and total: "sum_list (map ptarget_count ?ps) = length ?xs"
    by (simp_all add: rollout_ok_def order_ok_def)
  have pre: "sum_list (map ?c [0..<k]) = sum_list (map ptarget_count (take k ?ps))" if "k \<le> length ?ps" for k
  proof -
    have "map ?c [0..<k] = map ptarget_count (take k ?ps)" using that by (intro nth_equalityI) auto
    then show ?thesis by simp
  qed
  have "map (\<lambda>p. take (ptarget_count p) (drop (slice_start (rid' r) (pindex p) d) ?xs)) ?ps =
      map (\<lambda>k. take (?c k) (drop (sum_list (map ?c [0..<k])) ?xs)) [0..<length ?ps]"
    by (rule nth_equalityI) (simp_all add: slice_start_nth [OF idx refl] pre)
  then show ?thesis using take_slices [of ?c ?xs "length ?ps"] pre [of "length ?ps"] total by simp
qed

theorem phase_slices_partition_witness:
  "\<exists>r \<in> set (rollouts er_db). rid' r = er_id \<and>
    concat (map (\<lambda>p. take (ptarget_count p) (drop (slice_start er_id (pindex p) er_db) (pool_of er_id er_db)))
      (phases_of er_id er_db)) = [eo_uuid CHR ''1'', eo_uuid CHR ''3'', eo_uuid CHR ''2'']"
proof -
  have "map rid' (rollouts er_db) = [er_id]"
    "pool_of er_id er_db = [eo_uuid CHR ''1'', eo_uuid CHR ''3'', eo_uuid CHR ''2'']" by code_simp+
  moreover then obtain r where "r \<in> set (rollouts er_db)" "rid' r = er_id" by (auto simp: map_eq_Cons_conv)
  ultimately show ?thesis using phase_slices_partition [OF er_init er_steps(1), of r] by auto
qed


section \<open>The gate\<close>

lemma fl_unit_close:
  assumes "0 < x" and "x \<le> 1"
  shows "\<bar>fl x - x\<bar> \<le> 1 / 2 ^ 53"
proof -
  have "(2 :: rat) powi exponent_of x < 2 powi 1" using exponent_of_le [OF assms(1)] assms(2) by simp
  then have "exponent_of x < 1" by (meson not_less one_le_numeral power_int_increasing)
  then have "grain x \<le> 2 powi (- 52)" unfolding grain_def by (intro power_int_increasing) auto
  also have "(2 :: rat) powi (- 52) = 2 / 2 ^ 53" by (simp add: power_int_minus_divide power_int_numeral)
  finally show ?thesis using fl_close [OF assms(1)] by simp
qed

text \<open>What the success gate decides. A phase whose gate opens has at least one confirmed device, at
  least the minimum sample or all of its targets, and a confirmed share of at least the ratio up to
  \<open>2 ^ - 53\<close> of rounding; a share above the ratio by that much opens it; and a phase all of whose targets
  are confirmed always passes.\<close>

theorem gate_meaning:
  assumes "0 < ratio" and "ratio \<le> 1" and "c \<le> a"
  shows "(gate ratio m c a \<longrightarrow> 0 < c \<and> min m (int a) \<le> int c \<and> ratio - 1 / 2 ^ 53 \<le> of_nat c / of_nat a) \<and>
    (0 < a \<and> min m (int a) \<le> int c \<and> ratio + 1 / 2 ^ 53 \<le> of_nat c / of_nat a \<longrightarrow> gate ratio m c a) \<and>
    (0 < a \<and> c = a \<longrightarrow> gate ratio m c a)"
proof (cases "a = 0 \<or> c = 0")
  case True
  then show ?thesis using assms by (auto simp: gate_def)
next
  case False
  then have x: "0 < (of_nat c :: rat) / of_nat a" "(of_nat c :: rat) / of_nat a \<le> 1"
    using assms(3) by (simp_all add: divide_le_eq_1)
  have "fl (of_nat c / of_nat a) \<le> of_nat c / of_nat a + 1 / 2 ^ 53" "of_nat c / of_nat a - 1 / 2 ^ 53 \<le> fl (of_nat c / of_nat a)"
    using fl_unit_close [OF x] by linarith+
  then show ?thesis using False assms unfolding gate_def by (auto simp del: power_numeral)
qed

theorem gate_meaning_witness:
  "gate (9 / 10) 10 19 20 \<and> \<not> gate (9 / 10) 10 0 20 \<and> gate 1 10 3 3"
proof -
  have "gate (9 / 10) 10 19 20"
    using gate_meaning [of "9 / 10" 19 20 10] by simp
  moreover have "\<not> gate (9 / 10) 10 0 20" using gate_meaning [of "9 / 10" 0 20 10] by simp
  moreover have "gate 1 10 3 3" using gate_meaning [of 1 3 3 10] by simp
  ultimately show ?thesis by blast
qed

section \<open>Completion of a phase\<close>

lemma activate_keeps:
  assumes a: "activatePendingPhase env i k ttl d = Inr (b, d')" and p: "p \<in> set (phases d)" "\<not> (prollout p = i \<and> pindex p = k)"
  shows "p \<in> set (phases d')"
proof (cases "find_phase i k d")
  case None
  then show ?thesis using a p by (simp add: activatePendingPhase_def)
next
  case (Some ph)
  obtain c d1 where 1: "update_phases (\<lambda>p. prollout p = i \<and> pindex p = k \<and> pstate p = PPending)
      (\<lambda>p. p\<lparr>pstate := PActive, pactivated_at := Some (onow env)\<rparr>) d = Inr (c, d1)"
    using a Some by (auto simp: activatePendingPhase_def rbind_eq_Inr)
  have p1: "p \<in> set (phases d1)" using 1 p by (auto simp: update_phases_Inr image_iff)
  show ?thesis
  proof (cases "c = 0")
    case True
    with a Some 1 p1 show ?thesis by (simp add: activatePendingPhase_def)
  next
    case False
    then obtain j d2 m where 2: "createPhaseJob env i (take (ptarget_count ph) (drop (slice_start i k d1) (pool_of i d1))) ttl d1 = Inr (j, d2)"
      and 3: "update_phases (\<lambda>p. prollout p = i \<and> pindex p = k) (\<lambda>p. p\<lparr>pjob := Some j\<rparr>) d2 = Inr (m, d')"
      using a Some 1 by (auto simp: activatePendingPhase_def Let_def rbind_eq_Inr)
    have "p \<in> set (phases d2)" using createPhaseJob_same [OF 2] p1 by (simp add: same_rollouts_def)
    with 3 p(2) show ?thesis by (auto simp: update_phases_Inr image_iff)
  qed
qed

lemma finish_phases: "finish_rollout r s d = (res, s', d') \<Longrightarrow> phases d' = phases d"
  unfolding finish_rollout_def
  by (erule stmt_cases) (auto simp: update_rollouts_Inr notifyRolloutEvent_def o_notify_def split: if_splits)

text \<open>The active phase when the gate opens.\<close>

lemma met_completes:
  assumes inv: "rollout_inv d" and r: "r \<in> set (rollouts d)"
    and a: "find (in_state PActive) (phases_of (rid' r) d) = Some a" and met: "phase_met r a d"
    and adv: "advance_snapshot env r (phases_of (rid' r) d) ttl s d = (res, s', d')"
  shows "a\<lparr>pstate := PCompleted, pcompleted_at := Some (onow env)\<rparr> \<in> set (phases d')"
proof -
  let ?q = "\<lambda>p. prollout p = prollout a \<and> pindex p = pindex a \<and> pstate p = PActive"
  let ?f = "\<lambda>p. p\<lparr>pstate := PCompleted, pcompleted_at := Some (onow env)\<rparr>"
  let ?next = "find (in_state PPending) (phases_of (rid' r) d)"
  have a': "a \<in> set (phases d)" "pstate a = PActive" "prollout a = rid' r"
    using a by (auto dest!: find_SomeD simp: in_state_def set_phases_of)
  have "rows_ok d" using inv by (simp add: rollout_inv_def)
  then obtain c d1 where u: "update_phases ?q ?f d = Inr (c, d1)"
    using update_phases_ok [of d ?f ?q] by (auto simp: phase_check_def)
  then have c: "c \<noteq> 0" and in1: "?f a \<in> set (phases d1)"
    using a' by (auto simp: update_phases_Inr filter_empty_conv image_iff)
  have rest: "(let s1 = s\<lparr>phasesCompleted := phasesCompleted s + 1\<rparr> in
      case ?next of None \<Rightarrow> finish_rollout r s1 d1
      | Some p \<Rightarrow> if rmanual_approval r then (Inr (), s1, notifyRolloutEvent EvManualApproval (rid' r) (rproject r) d1)
                else activate_next env r p ttl s1 d1) = (res, s', d')"
    using adv a met u c by (simp add: advance_snapshot_def stmt_def Let_def)
  show ?thesis
  proof (cases ?next)
    case None
    with rest in1 show ?thesis by (auto simp: Let_def dest!: finish_phases)
  next
    case (Some n)
    have n: "n \<in> set (phases_of (rid' r) d)" "pstate n = PPending" using Some by (auto dest!: find_SomeD simp: in_state_def)
    have "pindex n \<noteq> pindex a"
    proof
      assume "pindex n = pindex a"
      moreover have "inj_on pindex (set (phases_of (rid' r) d))"
        using order_ok_D(1) [OF inv_order [OF inv r]] by (simp add: distinct_map)
      ultimately have "n = a" using n(1) a' by (auto simp: set_phases_of dest: inj_onD)
      with n(2) a'(2) show False by simp
    qed
    then show ?thesis
      using rest Some in1 by (auto simp: Let_def activate_next_def notifyRolloutEvent_def o_notify_def split: if_splits
          elim!: stmt_cases intro: activate_keeps)
  qed
qed


lemma unmet_keeps:
  assumes a: "find (in_state PActive) (phases_of (rid' r) d) = Some a" and unmet: "\<not> phase_met r a d"
    and adv: "advance_snapshot env r (phases_of (rid' r) d) ttl s d = (res, s', d')"
    and p: "p \<in> set (phases d')" "prollout p = prollout a" "pindex p = pindex a"
  shows "\<exists>q \<in> set (phases d). prollout q = prollout a \<and> pindex q = pindex a \<and>
    (pstate p = pstate q \<or> pstate p = PPaused)"
proof (cases "phase_timed_out (onow env) r a")
  case True
  let ?q = "\<lambda>p. prollout p = prollout a \<and> pindex p = pindex a \<and> pstate p = PActive"
  have "phases d' = phases d \<or> phases d' = map (\<lambda>p. if ?q p then p\<lparr>pstate := PPaused\<rparr> else p) (phases d)"
    using adv a unmet True unfolding advance_snapshot_def Let_def
    by (auto simp: rbind_eq_Inr update_rollouts_Inr update_phases_Inr notifyRolloutEvent_def o_notify_def
        split: if_splits elim!: stmt_cases)
  then obtain x where "x \<in> set (phases d)" "p = x \<or> p = x\<lparr>pstate := PPaused\<rparr>" using p(1) by auto
  with p(2,3) show ?thesis by (intro bexI [of _ x]) auto
next
  case False
  have "phases d' = phases d"
    using adv a unmet False unfolding advance_snapshot_def Let_def
    by (auto simp: judgeInstalledTargets_def update_targets_Inr split: option.splits elim!: stmt_cases)
  with p show ?thesis by auto
qed

text \<open>C26. The advance pass completes the active phase of a rollout exactly when the gate is met by the
  targets of its job at that moment: no phase is ever completed early, and a phase that has met its
  gate is completed by the next pass, even when activating the next phase then fails.\<close>

theorem advance_completes_iff_met:
  assumes "rollout_init d0" and "rollout_step\<^sup>*\<^sup>* d0 d" and "find_rollout i d = Some r"
    and "a \<in> set (phases_of i d)" and "pstate a = PActive" and "advanceOneRollout env i ttl s d = (res, s', d')"
  shows "(\<exists>p \<in> set (phases_of i d'). pindex p = pindex a \<and> pstate p = PCompleted) \<longleftrightarrow> phase_met r a d"
proof -
  have inv: "rollout_inv d" using assms(1,2) by (rule rsys.reachable_inv)
  have r: "r \<in> set (rollouts d)" "rid' r = i" using assms(3) by (auto dest: find_rollout_Some)
  note o = inv_order [OF inv r(1), unfolded r(2)]
  obtain b where b: "find (in_state PActive) (phases_of i d) = Some b" "b \<in> set (phases_of i d)" "pstate b = PActive"
    using assms(4,5) by (cases "find (in_state PActive) (phases_of i d)") (auto dest: find_NoneD find_SomeD simp: in_state_def)
  have "b = a" using ordered_one_active [OF order_ok_D(2) [OF o] assms(4) b(2) assms(5)] b(3) by simp
  then have f: "find (in_state PActive) (phases_of (rid' r) d) = Some a" using b(1) r(2) by simp
  have adv: "advance_snapshot env r (phases_of (rid' r) d) ttl s d = (res, s', d')"
    using assms(3,6) r(2) by (simp add: advanceOneRollout_def)
  have ai: "prollout a = i" using assms(4) by (simp add: set_phases_of)
  show ?thesis
  proof
    assume "phase_met r a d"
    then show "\<exists>p \<in> set (phases_of i d'). pindex p = pindex a \<and> pstate p = PCompleted"
      using met_completes [OF inv r(1) f _ adv] ai by (auto simp: set_phases_of)
  next
    assume "\<exists>p \<in> set (phases_of i d'). pindex p = pindex a \<and> pstate p = PCompleted"
    then obtain p where p: "p \<in> set (phases d')" "prollout p = prollout a" "pindex p = pindex a" "pstate p = PCompleted"
      by (auto simp: set_phases_of ai)
    show "phase_met r a d"
    proof (rule ccontr)
      assume "\<not> phase_met r a d"
      then obtain q where q: "q \<in> set (phases_of i d)" "pindex q = pindex a" "pstate q = PCompleted"
        using unmet_keeps [OF f _ adv p(1-3)] p(4) ai by (auto simp: set_phases_of)
      have "inj_on pindex (set (phases_of i d))" using order_ok_D(1) [OF o] by (simp add: distinct_map)
      then have "q = a" using q(1,2) assms(4) by (auto dest: inj_onD)
      with q(3) assms(5) show False by simp
    qed
  qed
qed

theorem advance_completes_iff_met_witness:
  "\<exists>r a. find_rollout er_id er_db = Some r \<and> a \<in> set (phases_of er_id er_db) \<and> phase_met r a er_db"
proof -
  have "map pstate (phases_of er_id er_db) = [PActive, PPending]" by code_simp
  then obtain a where a: "a \<in> set (phases_of er_id er_db)" "pstate a = PActive" "find (\<lambda>p. pstate p = PActive) (phases_of er_id er_db) = Some a"
    by (auto simp: map_eq_Cons_conv)
  have "case find_rollout er_id er_db of None \<Rightarrow> False | Some r \<Rightarrow>
      (case advanceOneRollout (eo_env 200 ''f'') er_id 0 empty_summary er_db of (_, _, d') \<Rightarrow>
         case find (\<lambda>p. pstate p = PActive) (phases_of er_id er_db) of None \<Rightarrow> False
         | Some a \<Rightarrow> list_ex (\<lambda>p. pindex p = pindex a \<and> pstate p = PCompleted) (phases_of er_id d'))"
    by code_simp
  then obtain r res s' d' where r: "find_rollout er_id er_db = Some r"
    and adv: "advanceOneRollout (eo_env 200 ''f'') er_id 0 empty_summary er_db = (res, s', d')"
    and p: "\<exists>p \<in> set (phases_of er_id d'). pindex p = pindex a \<and> pstate p = PCompleted"
    unfolding a(3) by (auto simp: list_ex_iff split: option.splits prod.splits)
  from advance_completes_iff_met [OF er_init er_steps(1) r a(1,2) adv] p r a show ?thesis by blast
qed

section \<open>Interleaved handlers\<close>

definition race_db :: ota_db where
  "race_db = o_after (createOtaRollout (eo_env 100 ''e'') er_id (\<lambda>_. 0)
     (er_opts\<lparr>cr_groups := Some [[eo_uuid CHR ''2''], [eo_uuid CHR ''3'']]\<rparr>) eo_db)"

definition race_paused :: ota_db where "race_paused = o_after (pauseRollout er_id race_db)"

definition race_passed :: ota_db where
  "race_passed = snd (advance_all (\<lambda>_. eo_env 200 ''f'') (running_rollouts race_db) 900000 empty_summary race_paused)"

text \<open>The order of phases does not survive interleaving. The pass lists the running rollouts first and
  reads the phases of each later, without reading its state again: when a rollout is paused in
  between, its active phase is paused, the pass finds no active phase and activates the next one. After
  a resume two phases are active at once, although the first never met its gate.\<close>

theorem pause_races_advance:
  "phase_view race_db = [(1, PActive), (2, PPending)] \<and>
   phase_view race_paused = [(1, PPaused), (2, PPending)] \<and>
   phase_view race_passed = [(1, PPaused), (2, PActive)] \<and>
   phase_view (snd (resumeRollout (eo_env 300 ''g'') er_id None race_passed)) = [(1, PActive), (2, PActive)]"
  by code_simp

text \<open>The same happens between the two statements of a resume: the rollout row is already running
  while its phase is still paused, and a pass that runs there activates the next phase.\<close>

theorem resume_races_advance:
  "phase_view (o_after (resume_rollout_row er_id race_paused)) = [(1, PPaused), (2, PPending)] \<and>
   phase_view (o_after (resume_phases 400 er_id
     (snd (advanceRollouts (\<lambda>_. eo_env 200 ''f'') None (o_after (resume_rollout_row er_id race_paused))))))
     = [(1, PActive), (2, PActive)]"
  by code_simp

end
