(* ===== verification/SessionTokens.thy ===== *)
theory SessionTokens
  imports OtaDeploy
begin

text \<open>
  Sessions of human users (\<^verbatim>\<open>core/src/auth/tokens.ts\<close>): stateless access tokens, refresh tokens that are
  rotated on every use, detection of a replayed refresh token.

  The JWT library, SHA-256 and the random source are arguments. \<open>rotateRefreshToken\<close> reads the stored row in
  one statement and claims it in a later one, and the database runs the transaction at READ COMMITTED: the
  state the first statement saw is therefore an argument of its own (\<open>snap\<close>), and so is the set of rows
  that the statement of \<open>revokeAllForUser\<close> can see (\<open>vis\<close>, a row inserted by a transaction that has not
  committed when the statement starts is not in it). The errors of the function are thrown after its
  transaction has committed, so an outcome carries the state in both cases. The clock readings of one call coincide.
\<close>

section \<open>Data\<close>

record JwtConfig =
  secret :: jsstring
  accessTtlSeconds :: int
  refreshTtlSeconds :: int

record AccessTokenPayload =
  at_sub :: jsstring
  at_username :: jsstring

datatype AuthError = Invalid_token | Token_expired | Reuse_detected | Auth_database

record auth_user =
  au_id :: uuid
  au_name :: jsstring

record refresh_token =
  rt_id :: uuid
  rt_user :: uuid
  rt_hash :: jsstring
  rt_expires_at :: time
  rt_revoked_at :: "time option"
  rt_rotated_from :: "uuid option"

record auth_db =
  auth_users :: "auth_user list"
  refresh_tokens :: "refresh_token list"

section \<open>Access tokens\<close>

text \<open>The library's signer and verifier at one moment; the verifier distinguishes an expired token
  (\<^verbatim>\<open>TOKEN_ERROR_CODES.expired\<close>) from every other failure.\<close>

datatype jwt_error = JwtExpired | JwtInvalid

type_synonym jwt_checker = "jsstring \<Rightarrow> jsstring \<Rightarrow> jsstring list \<Rightarrow> jsstring \<Rightarrow> jwt_error + jwt_claims"

definition ACCESS_TOKEN_AUDIENCE :: jsstring where "ACCESS_TOKEN_AUDIENCE = js ''soulcloud-api''"

definition signAccessToken :: "jwt_signer \<Rightarrow> JwtConfig \<Rightarrow> AccessTokenPayload \<Rightarrow> jsstring" where
  "signAccessToken sign config p =
     sign (secret config) ACCESS_TOKEN_AUDIENCE (accessTtlSeconds config * 1000)
       [(js ''sub'', JStr (at_sub p)), (js ''username'', JStr (at_username p))]"

definition verifyAccessToken :: "jwt_checker \<Rightarrow> JwtConfig \<Rightarrow> jsstring \<Rightarrow> AuthError + AccessTokenPayload" where
  "verifyAccessToken verify config token =
     (case verify (secret config) ACCESS_TOKEN_AUDIENCE [js ''aud'', js ''exp''] token of
        Inl JwtExpired \<Rightarrow> Inl Token_expired
      | Inl JwtInvalid \<Rightarrow> Inl Invalid_token
      | Inr claims \<Rightarrow>
          (case (map_of claims (js ''sub''), map_of claims (js ''username'')) of
             (Some (JStr s), Some (JStr u)) \<Rightarrow> Inr \<lparr>at_sub = s, at_username = u\<rparr>
           | _ \<Rightarrow> Inl Invalid_token))"

section \<open>Refresh tokens\<close>

definition insert_token :: "refresh_token \<Rightarrow> auth_db \<Rightarrow> auth_db option" where
  "insert_token r d =
     (if rt_id r \<notin> rt_id ` set (refresh_tokens d) \<and> rt_hash r \<notin> rt_hash ` set (refresh_tokens d) \<and>
         rt_user r \<in> au_id ` set (auth_users d)
      then Some (d\<lparr>refresh_tokens := refresh_tokens d @ [r]\<rparr>) else None)"

definition revoke_where :: "(refresh_token \<Rightarrow> bool) \<Rightarrow> time \<Rightarrow> auth_db \<Rightarrow> nat \<times> auth_db" where
  "revoke_where P t d =
     (let hit = (\<lambda>r. P r \<and> rt_revoked_at r = None) in
      (length (filter hit (refresh_tokens d)),
       d\<lparr>refresh_tokens := map (\<lambda>r. if hit r then r\<lparr>rt_revoked_at := Some t\<rparr> else r) (refresh_tokens d)\<rparr>))"

definition find_token :: "jsstring \<Rightarrow> auth_db \<Rightarrow> refresh_token option" where
  "find_token h d = find (\<lambda>r. rt_hash r = h) (refresh_tokens d)"

definition find_user :: "uuid \<Rightarrow> auth_db \<Rightarrow> auth_user option" where
  "find_user i d = find (\<lambda>u. au_id u = i) (auth_users d)"

text \<open>The environment of a call: the clock, the random token and the identifier of the new row.\<close>

record auth_env =
  anow :: time
  arandom :: jsstring
  afresh :: uuid

definition issueRefreshToken ::
    "(jsstring \<Rightarrow> jsstring) \<Rightarrow> auth_env \<Rightarrow> uuid \<Rightarrow> JwtConfig \<Rightarrow> auth_db \<Rightarrow> (AuthError + jsstring) \<times> auth_db" where
  "issueRefreshToken hashToken env userId config d =
     (case insert_token \<lparr>rt_id = afresh env, rt_user = userId, rt_hash = hashToken (arandom env),
                         rt_expires_at = anow env + refreshTtlSeconds config * 1000,
                         rt_revoked_at = None, rt_rotated_from = None\<rparr> d of
        None \<Rightarrow> (Inl Auth_database, d)
      | Some d' \<Rightarrow> (Inr (arandom env), d'))"

definition revokeRefreshToken :: "(jsstring \<Rightarrow> jsstring) \<Rightarrow> time \<Rightarrow> jsstring \<Rightarrow> auth_db \<Rightarrow> auth_db" where
  "revokeRefreshToken hashToken t refreshToken d =
     snd (revoke_where (\<lambda>r. rt_hash r = hashToken refreshToken) t d)"

definition revokeAllForUser :: "(uuid \<Rightarrow> bool) \<Rightarrow> time \<Rightarrow> uuid \<Rightarrow> auth_db \<Rightarrow> auth_db" where
  "revokeAllForUser vis t userId d = snd (revoke_where (\<lambda>r. rt_user r = userId \<and> vis (rt_id r)) t d)"

record RotatedTokens =
  accessToken :: jsstring
  refreshToken :: jsstring

datatype rotation = RInvalid | RExpired | RReuse | RDatabase | RSuccess jsstring uuid jsstring

definition rotate_tx ::
    "(jsstring \<Rightarrow> jsstring) \<Rightarrow> auth_env \<Rightarrow> JwtConfig \<Rightarrow> jsstring \<Rightarrow> auth_db \<Rightarrow> (uuid \<Rightarrow> bool) \<Rightarrow> auth_db
       \<Rightarrow> rotation \<times> auth_db" where
  "rotate_tx hashToken env config token snap vis d =
     (case find_token (hashToken token) snap of
        None \<Rightarrow> (RInvalid, d)
      | Some stored \<Rightarrow>
         (case find_user (rt_user stored) snap of
            None \<Rightarrow> (RDatabase, d)
          | Some user \<Rightarrow>
              if rt_expires_at stored < anow env then
                (RExpired, snd (revoke_where (\<lambda>r. rt_id r = rt_id stored) (anow env) d))
              else
                (case revoke_where (\<lambda>r. rt_id r = rt_id stored) (anow env) d of (claimed, d1) \<Rightarrow>
                   if claimed = 0 then (RReuse, revokeAllForUser vis (anow env) (rt_user stored) d1)
                   else
                     (case insert_token
                             \<lparr>rt_id = afresh env, rt_user = rt_user stored, rt_hash = hashToken (arandom env),
                              rt_expires_at = anow env + refreshTtlSeconds config * 1000,
                              rt_revoked_at = None, rt_rotated_from = Some (rt_id stored)\<rparr> d1 of
                        None \<Rightarrow> (RDatabase, d)
                      | Some d2 \<Rightarrow> (RSuccess (arandom env) (au_id user) (au_name user), d2)))))"

definition rotateRefreshToken ::
    "jwt_signer \<Rightarrow> (jsstring \<Rightarrow> jsstring) \<Rightarrow> auth_env \<Rightarrow> JwtConfig \<Rightarrow> jsstring \<Rightarrow> auth_db \<Rightarrow> (uuid \<Rightarrow> bool) \<Rightarrow> auth_db
       \<Rightarrow> (AuthError + RotatedTokens) \<times> auth_db" where
  "rotateRefreshToken sign hashToken env config token snap vis d =
     (case rotate_tx hashToken env config token snap vis d of
        (RInvalid, d') \<Rightarrow> (Inl Invalid_token, d')
      | (RExpired, d') \<Rightarrow> (Inl Token_expired, d')
      | (RReuse, d') \<Rightarrow> (Inl Reuse_detected, d')
      | (RDatabase, d') \<Rightarrow> (Inl Auth_database, d')
      | (RSuccess next userId username, d') \<Rightarrow>
          (Inr \<lparr>accessToken = signAccessToken sign config \<lparr>at_sub = userId, at_username = username\<rparr>,
                refreshToken = next\<rparr>, d'))"

end
