(* ===== verification/SessionProperties.thy ===== *)
theory SessionProperties
  imports SessionTokens
begin

text \<open>
  The life of refresh tokens over whole runs of \<^verbatim>\<open>auth/tokens.ts\<close>. A state is the history of the
  database, newest first, because a rotation may act on a row it read in any earlier state: two requests that
  present the same token at the same time are two steps that read the same old state. The theorems: a refresh token is
  exchanged at most once, a login has at most one live token, a replay revokes the user's tokens, and the
  interleaving in which one token escapes that revocation.
\<close>

section \<open>Invariant and progress\<close>

definition token_moved :: "refresh_token \<Rightarrow> refresh_token \<Rightarrow> bool" where
  "token_moved r r' \<longleftrightarrow> rt_id r' = rt_id r \<and> rt_user r' = rt_user r \<and> rt_hash r' = rt_hash r \<and>
     rt_expires_at r' = rt_expires_at r \<and> rt_rotated_from r' = rt_rotated_from r \<and>
     (rt_revoked_at r \<noteq> None \<longrightarrow> rt_revoked_at r' = rt_revoked_at r)"

definition tokens_before :: "auth_db \<Rightarrow> auth_db \<Rightarrow> bool" where
  "tokens_before d d' \<longleftrightarrow> (\<forall>r \<in> set (refresh_tokens d). \<exists>r' \<in> set (refresh_tokens d'). token_moved r r')"

definition chain_ok :: "refresh_token list \<Rightarrow> bool" where
  "chain_ok rs \<longleftrightarrow>
     (\<forall>r \<in> set rs. \<forall>p. rt_rotated_from r = Some p \<longrightarrow>
        (\<exists>q \<in> set rs. rt_id q = p \<and> rt_user q = rt_user r \<and> rt_revoked_at q \<noteq> None)) \<and>
     (\<forall>r \<in> set rs. \<forall>r' \<in> set rs. rt_rotated_from r = rt_rotated_from r' \<and> rt_rotated_from r \<noteq> None \<longrightarrow> r = r')"

definition auth_inv :: "auth_db \<Rightarrow> bool" where
  "auth_inv d \<longleftrightarrow> distinct (map rt_id (refresh_tokens d)) \<and> distinct (map rt_hash (refresh_tokens d)) \<and>
     rt_user ` set (refresh_tokens d) \<subseteq> au_id ` set (auth_users d) \<and> chain_ok (refresh_tokens d)"

inductive auth_step ::
    "jwt_signer \<Rightarrow> (jsstring \<Rightarrow> jsstring) \<Rightarrow> JwtConfig \<Rightarrow> auth_db list \<Rightarrow> auth_db list \<Rightarrow> bool"
  for sign hashToken config where
  issue: "issueRefreshToken hashToken env userId config d = (res, d') \<Longrightarrow>
            auth_step sign hashToken config (d # h) (d' # d # h)"
| rotate: "snap \<in> set (d # h) \<Longrightarrow> rotateRefreshToken sign hashToken env config token snap vis d = (res, d') \<Longrightarrow>
            auth_step sign hashToken config (d # h) (d' # d # h)"
| revoke: "auth_step sign hashToken config (d # h) (revokeRefreshToken hashToken t token d # d # h)"

definition auth_init :: "auth_db list \<Rightarrow> bool" where
  "auth_init h \<longleftrightarrow> (\<exists>d. h = [d] \<and> auth_inv d)"

definition history_ok :: "auth_db list \<Rightarrow> bool" where
  "history_ok h \<longleftrightarrow> h \<noteq> [] \<and> (\<forall>d \<in> set h. tokens_before d (hd h) \<and> auth_users d = auth_users (hd h)) \<and> auth_inv (hd h)"

definition history_grows :: "auth_db list \<Rightarrow> auth_db list \<Rightarrow> bool" where
  "history_grows h h' \<longleftrightarrow> (\<exists>k. h' = k @ h)"

section \<open>Statements\<close>

lemma token_moved_refl [simp]: "token_moved r r"
  by (simp add: token_moved_def)

lemma token_moved_trans: "token_moved a b \<Longrightarrow> token_moved b c \<Longrightarrow> token_moved a c"
  by (auto simp: token_moved_def)

lemma tokens_before_refl [simp]: "tokens_before d d"
  by (auto simp: tokens_before_def intro: token_moved_refl)

lemma tokens_before_trans: "tokens_before a b \<Longrightarrow> tokens_before b c \<Longrightarrow> tokens_before a c"
  unfolding tokens_before_def by (meson token_moved_trans)

text \<open>An UPDATE that revokes rows: every row moves forward in place.\<close>

lemma chain_ok_map:
  assumes ok: "chain_ok rs" and f: "\<And>r. r \<in> set rs \<Longrightarrow> token_moved r (f r)"
  shows "chain_ok (map f rs)"
proof -
  have "\<exists>q \<in> set (map f rs). rt_id q = p \<and> rt_user q = rt_user r' \<and> rt_revoked_at q \<noteq> None"
    if "r' \<in> set (map f rs)" "rt_rotated_from r' = Some p" for r' p
  proof -
    from that obtain r where r: "r \<in> set rs" "r' = f r" by auto
    have m: "token_moved r r'" using f [OF r(1)] r(2) by simp
    with that have "rt_rotated_from r = Some p" by (simp add: token_moved_def)
    then obtain q where q: "q \<in> set rs" "rt_id q = p" "rt_user q = rt_user r" "rt_revoked_at q \<noteq> None"
      using ok r(1) unfolding chain_ok_def by blast
    then have "f q \<in> set (map f rs) \<and> rt_id (f q) = p \<and> rt_user (f q) = rt_user r' \<and> rt_revoked_at (f q) \<noteq> None"
      using f [OF q(1)] m by (auto simp: token_moved_def)
    then show ?thesis by blast
  qed
  moreover have "r1 = r2" if "r1 \<in> set (map f rs)" "r2 \<in> set (map f rs)"
      "rt_rotated_from r1 = rt_rotated_from r2" "rt_rotated_from r1 \<noteq> None" for r1 r2
  proof -
    from that obtain x y where xy: "x \<in> set rs" "y \<in> set rs" "r1 = f x" "r2 = f y" by auto
    with that f [OF xy(1)] f [OF xy(2)] have "rt_rotated_from x = rt_rotated_from y" "rt_rotated_from x \<noteq> None"
      by (simp_all add: token_moved_def)
    with ok xy show ?thesis unfolding chain_ok_def by blast
  qed
  ultimately show ?thesis unfolding chain_ok_def by blast
qed

lemma auth_inv_map:
  assumes inv: "auth_inv d" and f: "\<And>r. r \<in> set (refresh_tokens d) \<Longrightarrow> token_moved r (f r)"
  shows "auth_inv (d\<lparr>refresh_tokens := map f (refresh_tokens d)\<rparr>)"
    and "tokens_before d (d\<lparr>refresh_tokens := map f (refresh_tokens d)\<rparr>)"
proof -
  have "map rt_id (map f (refresh_tokens d)) = map rt_id (refresh_tokens d)"
    "map rt_hash (map f (refresh_tokens d)) = map rt_hash (refresh_tokens d)"
    "rt_user ` set (map f (refresh_tokens d)) = rt_user ` set (refresh_tokens d)"
    using f by (auto simp: token_moved_def image_image intro!: image_cong)
  with inv show "auth_inv (d\<lparr>refresh_tokens := map f (refresh_tokens d)\<rparr>)"
    by (simp add: auth_inv_def chain_ok_map f del: map_map)
  show "tokens_before d (d\<lparr>refresh_tokens := map f (refresh_tokens d)\<rparr>)"
    using f by (auto simp: tokens_before_def)
qed

definition auth_good :: "auth_db \<Rightarrow> auth_db \<Rightarrow> bool" where
  "auth_good d d' \<longleftrightarrow> auth_inv d' \<and> tokens_before d d' \<and> auth_users d' = auth_users d"

lemma auth_good_refl: "auth_inv d \<Longrightarrow> auth_good d d"
  by (simp add: auth_good_def)

lemma auth_good_trans: "auth_good a b \<Longrightarrow> auth_good b c \<Longrightarrow> auth_good a c"
  by (auto simp: auth_good_def intro: tokens_before_trans)

lemma revoke_where_good:
  assumes "auth_inv d"
  shows "auth_good d (snd (revoke_where P t d))"
  using assms by (auto simp: auth_good_def revoke_where_def Let_def token_moved_def intro!: auth_inv_map)

lemma revokeAll_good: "auth_good a d \<Longrightarrow> auth_good a (revokeAllForUser vis t u d)"
  unfolding revokeAllForUser_def by (meson auth_good_def auth_good_trans revoke_where_good)

lemma insert_token_good:
  assumes inv: "auth_inv d" and ins: "insert_token r d = Some d'"
    and pred: "\<And>p. rt_rotated_from r = Some p \<Longrightarrow>
      (\<exists>q \<in> set (refresh_tokens d). rt_id q = p \<and> rt_user q = rt_user r \<and> rt_revoked_at q \<noteq> None) \<and>
      (\<forall>x \<in> set (refresh_tokens d). rt_rotated_from x \<noteq> Some p)"
  shows "auth_good d d'"
proof -
  have d': "d' = d\<lparr>refresh_tokens := refresh_tokens d @ [r]\<rparr>" and new: "rt_id r \<notin> rt_id ` set (refresh_tokens d)"
    "rt_hash r \<notin> rt_hash ` set (refresh_tokens d)" "rt_user r \<in> au_id ` set (auth_users d)"
    using ins by (auto simp: insert_token_def split: if_splits)
  have "chain_ok (refresh_tokens d @ [r])"
    using inv pred unfolding auth_inv_def chain_ok_def by (simp add: ball_Un) (metis option.exhaust)
  with inv new have "auth_inv d'" by (auto simp: auth_inv_def d')
  then show ?thesis by (auto simp: auth_good_def tokens_before_def d' intro: token_moved_refl)
qed


section \<open>Runs\<close>

lemma find_token_Some: "find_token h d = Some r \<Longrightarrow> r \<in> set (refresh_tokens d) \<and> rt_hash r = h"
  unfolding find_token_def by (rule find_Some_in)

lemma revoked_after:
  assumes "revoke_where P t d = (n, d')" "r \<in> set (refresh_tokens d)" "P r"
  shows "\<exists>r' \<in> set (refresh_tokens d'). token_moved r r' \<and> rt_revoked_at r' \<noteq> None"
proof -
  let ?f = "\<lambda>r. if P r \<and> rt_revoked_at r = None then r\<lparr>rt_revoked_at := Some t\<rparr> else r"
  have "?f r \<in> set (refresh_tokens d')" using assms by (auto simp: revoke_where_def Let_def)
  moreover have "token_moved r (?f r) \<and> rt_revoked_at (?f r) \<noteq> None"
    using assms(3) by (auto simp: token_moved_def)
  ultimately show ?thesis by blast
qed

lemma claimed_row:
  assumes "revoke_where P t d = (n, d')" "n \<noteq> 0"
  shows "\<exists>r \<in> set (refresh_tokens d). P r \<and> rt_revoked_at r = None"
proof -
  from assms have "filter (\<lambda>r. P r \<and> rt_revoked_at r = None) (refresh_tokens d) \<noteq> []"
    by (auto simp: revoke_where_def Let_def)
  then show ?thesis by (auto simp: filter_empty_conv)
qed

text \<open>A rotation that read an earlier state: the row it claims is the row it read.\<close>

lemma rotate_tx_good:
  assumes inv: "auth_inv d" and snap: "tokens_before snap d"
    and tx: "rotate_tx hashToken env config token snap vis d = (out, d')"
  shows "auth_good d d'"
proof (cases "\<exists>n u v. out = RSuccess n u v")
  case False
  then show ?thesis
    using tx auth_good_refl [OF inv] revoke_where_good [OF inv]
    by (auto simp: rotate_tx_def split: option.splits if_splits prod.splits intro!: revokeAll_good) (metis snd_conv)+
next
  case True
  then obtain stored n d1 where stored: "find_token (hashToken token) snap = Some stored"
    and claim: "revoke_where (\<lambda>r. rt_id r = rt_id stored) (anow env) d = (n, d1)" "n \<noteq> 0"
    and ins: "insert_token \<lparr>rt_id = afresh env, rt_user = rt_user stored, rt_hash = hashToken (arandom env),
        rt_expires_at = anow env + refreshTtlSeconds config * 1000, rt_revoked_at = None,
        rt_rotated_from = Some (rt_id stored)\<rparr> d1 = Some d'"
    using tx by (auto simp: rotate_tx_def split: option.splits if_splits prod.splits)
  have good: "auth_good d d1" using revoke_where_good [OF inv] claim(1) by (metis snd_conv)
  then have inv1: "auth_inv d1" by (simp add: auth_good_def)
  obtain cur where cur: "cur \<in> set (refresh_tokens d)" "token_moved stored cur"
    using find_token_Some [OF stored] snap unfolding tokens_before_def by blast
  obtain q where q: "q \<in> set (refresh_tokens d1)" "token_moved cur q" "rt_revoked_at q \<noteq> None"
    using revoked_after [OF claim(1) cur(1)] cur(2) by (auto simp: token_moved_def)
  obtain r where r: "r \<in> set (refresh_tokens d)" "rt_id r = rt_id stored" "rt_revoked_at r = None"
    using claimed_row [OF claim] by auto
  have unclaimed: "rt_rotated_from x \<noteq> Some (rt_id stored)" if x: "x \<in> set (refresh_tokens d1)" for x
  proof
    assume "rt_rotated_from x = Some (rt_id stored)"
    with x claim(1) obtain y where "y \<in> set (refresh_tokens d)" "rt_rotated_from y = Some (rt_id stored)"
      by (auto simp: revoke_where_def Let_def split: if_splits)
    then obtain z where "z \<in> set (refresh_tokens d)" "rt_id z = rt_id stored" "rt_revoked_at z \<noteq> None"
      using inv unfolding auth_inv_def chain_ok_def by blast
    with r inv show False by (metis auth_inv_def distinct_map inj_onD)
  qed
  have "\<exists>x \<in> set (refresh_tokens d1). rt_id x = rt_id stored \<and> rt_user x = rt_user stored \<and> rt_revoked_at x \<noteq> None"
    using q cur by (auto simp: token_moved_def)
  with unclaimed have "auth_good d1 d'" by (intro insert_token_good [OF inv1 ins]) auto
  with good show ?thesis by (rule auth_good_trans)
qed

lemma rotate_good:
  assumes "auth_inv d" "tokens_before snap d"
    "rotateRefreshToken sign hashToken env config token snap vis d = (res, d')"
  shows "auth_good d d'"
  using assms rotate_tx_good [OF assms(1,2)]
  by (auto simp: rotateRefreshToken_def split: prod.splits rotation.splits)

lemma history_push:
  assumes "history_ok (d # h)" "auth_good d d'"
  shows "history_ok (d' # d # h) \<and> history_grows (d # h) (d' # d # h)"
  using assms unfolding history_ok_def history_grows_def auth_good_def by (auto intro: tokens_before_trans)

lemma auth_step_ok:
  assumes "auth_step sign hashToken config h h'" "history_ok h"
  shows "history_ok h' \<and> history_grows h h'"
  using assms(1)
proof (cases rule: auth_step.cases)
  case (issue env userId d res d' k)
  with assms(2) have "auth_inv d" by (simp add: history_ok_def)
  then have "auth_good d d'"
    using issue(3) by (auto simp: issueRefreshToken_def split: option.splits intro: auth_good_refl insert_token_good)
  with issue assms(2) show ?thesis by (auto dest: history_push)
next
  case (rotate snap d k env token vis res d')
  with assms(2) have "auth_good d d'" by (intro rotate_good) (auto simp: history_ok_def)
  with rotate assms(2) show ?thesis by (auto dest: history_push)
next
  case (revoke d k t token)
  with assms(2) have "auth_good d (revokeRefreshToken hashToken t token d)"
    by (simp add: revokeRefreshToken_def revoke_where_good history_ok_def)
  with revoke assms(2) show ?thesis by (auto dest: history_push)
qed

interpretation sessions: progressing_system auth_init "auth_step sign hashToken config" history_ok history_grows
  for sign hashToken config
proof unfold_locales
  show "history_ok h" if "auth_init h" for h using that by (auto simp: auth_init_def history_ok_def)
  show "history_ok h'" if "history_ok h" "auth_step sign hashToken config h h'" for h h'
    using auth_step_ok that by blast
  show "history_grows h h" for h by (simp add: history_grows_def)
  show "history_grows a c" if "history_grows a b" "history_grows b c" for a b c
    using that by (auto simp: history_grows_def)
  show "history_grows h h'" if "history_ok h" "auth_step sign hashToken config h h'" for h h'
    using auth_step_ok that by blast
qed


section \<open>A refresh token is exchanged once\<close>

lemma rotate_success:
  assumes "rotateRefreshToken sign hashToken env config token snap vis d = (Inr pair, d')"
  obtains stored n d1 where "find_token (hashToken token) snap = Some stored"
    "revoke_where (\<lambda>r. rt_id r = rt_id stored) (anow env) d = (n, d1)" "n \<noteq> 0" "rt_expires_at stored \<ge> anow env"
    "insert_token \<lparr>rt_id = afresh env, rt_user = rt_user stored, rt_hash = hashToken (arandom env),
        rt_expires_at = anow env + refreshTtlSeconds config * 1000, rt_revoked_at = None,
        rt_rotated_from = Some (rt_id stored)\<rparr> d1 = Some d'"
    "refreshToken pair = arandom env"
  using assms
  by (auto simp: rotateRefreshToken_def rotate_tx_def split: option.splits if_splits prod.splits rotation.splits)

lemma history_before: "history_ok h \<Longrightarrow> d \<in> set h \<Longrightarrow> tokens_before d (hd h)"
  by (auto simp: history_ok_def)

lemma history_inv: "history_ok h \<Longrightarrow> auth_inv (hd h)"
  by (simp add: history_ok_def)

lemma auth_inv_unique:
  assumes "auth_inv d" "a \<in> set (refresh_tokens d)" "b \<in> set (refresh_tokens d)" "rt_hash a = rt_hash b \<or> rt_id a = rt_id b"
  shows "a = b"
  using assms unfolding auth_inv_def by (metis distinct_map inj_onD)

text \<open>After a successful exchange the row of the token is revoked.\<close>

lemma exchanged_revoked:
  assumes ok: "history_ok (d # h)" and snap: "snap \<in> set (d # h)"
    and rot: "rotateRefreshToken sign hashToken env config token snap vis d = (Inr pair, d')"
  shows "\<exists>r \<in> set (refresh_tokens d'). rt_hash r = hashToken token \<and> rt_revoked_at r \<noteq> None"
proof -
  obtain stored n d1 r0 where stored: "find_token (hashToken token) snap = Some stored"
    and claim: "revoke_where (\<lambda>r. rt_id r = rt_id stored) (anow env) d = (n, d1)"
    and ins: "insert_token r0 d1 = Some d'"
    using rotate_success [OF rot] by metis
  obtain cur where cur: "cur \<in> set (refresh_tokens d)" "token_moved stored cur"
    using history_before [OF ok snap] find_token_Some [OF stored] by (auto simp: tokens_before_def)
  obtain q where "q \<in> set (refresh_tokens d1)" "token_moved cur q" "rt_revoked_at q \<noteq> None"
    using revoked_after [OF claim cur(1)] cur(2) by (auto simp: token_moved_def)
  with cur find_token_Some [OF stored] ins show ?thesis
    by (auto simp: insert_token_def token_moved_def split: if_splits)
qed

text \<open>C28. A refresh token is exchanged for a new pair at most once. After a rotation of the token has
  succeeded, no later rotation of it succeeds, whatever other requests ran in between and even when the
  later one read the stored row before the first had committed (two clients that present the same token
  at the same time); it reports an error.\<close>

theorem refresh_single_use:
  assumes "auth_init h0" "(auth_step sign hashToken config)\<^sup>*\<^sup>* h0 (d # h)"
    and "snap \<in> set (d # h)"
    and "rotateRefreshToken sign hashToken env config token snap vis d = (Inr pair, d')"
    and "(auth_step sign hashToken config)\<^sup>*\<^sup>* (d' # d # h) (e # k)"
    and "snap' \<in> set (e # k)"
  shows "\<exists>err e'. rotateRefreshToken sign hashToken env' config token snap' vis' e = (Inl err, e')"
proof -
  have ok: "history_ok (d # h)" by (rule sessions.reachable_inv [OF assms(1,2)])
  then have "history_ok (d' # d # h)"
    using auth_step_ok [OF auth_step.rotate [OF assms(3,4)]] by blast
  then have ok': "history_ok (e # k)" and "\<exists>l. e # k = l @ d' # d # h"
    using sessions.steps_inv [OF assms(5)] sessions.steps_before [OF assms(5)] by (auto simp: history_grows_def)
  then have "d' \<in> set (e # k)" by (metis in_set_conv_decomp)
  with ok' obtain r where r: "r \<in> set (refresh_tokens e)" "rt_hash r = hashToken token" "rt_revoked_at r \<noteq> None"
    using exchanged_revoked [OF ok assms(3,4)] history_before [OF ok'] by (fastforce simp: tokens_before_def token_moved_def)
  have "\<not> (\<exists>pair' e'. rotateRefreshToken sign hashToken env' config token snap' vis' e = (Inr pair', e'))"
  proof
    assume "\<exists>pair' e'. rotateRefreshToken sign hashToken env' config token snap' vis' e = (Inr pair', e')"
    then obtain stored n d1 where stored: "find_token (hashToken token) snap' = Some stored"
      and claim: "revoke_where (\<lambda>r. rt_id r = rt_id stored) (anow env') e = (n, d1)" "n \<noteq> 0"
      using rotate_success by metis
    then obtain c where c: "c \<in> set (refresh_tokens e)" "rt_hash c = hashToken token" "rt_id c = rt_id stored"
      using history_before [OF ok' assms(6)] find_token_Some [OF stored] by (auto simp: tokens_before_def token_moved_def)
    obtain x where "x \<in> set (refresh_tokens e)" "rt_id x = rt_id stored" "rt_revoked_at x = None"
      using claimed_row [OF claim] by auto
    with c r auth_inv_unique [OF history_inv [OF ok']] show False by (metis list.sel(1))
  qed
  then show ?thesis by (metis prod.exhaust sum.exhaust)
qed

section \<open>One live token per login\<close>

text \<open>\<open>successor d p r\<close>: the token row \<open>r\<close> was issued by rotating \<open>p\<close>.\<close>

definition successor :: "auth_db \<Rightarrow> refresh_token \<Rightarrow> refresh_token \<Rightarrow> bool" where
  "successor d p r \<longleftrightarrow> p \<in> set (refresh_tokens d) \<and> r \<in> set (refresh_tokens d) \<and> rt_rotated_from r = Some (rt_id p)"

lemma successor_revoked:
  assumes "auth_inv d" "successor d p r"
  shows "rt_revoked_at p \<noteq> None \<and> rt_user p = rt_user r"
proof -
  obtain q where "q \<in> set (refresh_tokens d)" "rt_id q = rt_id p" "rt_user q = rt_user r" "rt_revoked_at q \<noteq> None"
    using assms unfolding auth_inv_def chain_ok_def successor_def by blast
  with assms auth_inv_unique [OF assms(1)] show ?thesis by (metis successor_def)
qed

lemma successor_functional: "auth_inv d \<Longrightarrow> successor d p r \<Longrightarrow> successor d p r' \<Longrightarrow> r = r'"
  unfolding auth_inv_def chain_ok_def successor_def by (metis option.distinct(1))

lemma live_is_last:
  assumes inv: "auth_inv d" and "(successor d)\<^sup>*\<^sup>* login a" "(successor d)\<^sup>*\<^sup>* login b"
    and "rt_revoked_at a = None"
  shows "(successor d)\<^sup>*\<^sup>* b a"
  using assms(2,4,3)
proof (induction arbitrary: b rule: converse_rtranclp_induct)
  case base
  then show ?case by (metis converse_rtranclpE inv rtranclp.rtrancl_refl successor_revoked)
next
  case (step x y)
  show ?case
  proof (cases "b = x")
    case True
    with step(1,2) show ?thesis by (meson converse_rtranclp_into_rtranclp)
  next
    case False
    with step(5) obtain z where "successor d x z" "(successor d)\<^sup>*\<^sup>* z b" by (metis converse_rtranclpE)
    with step successor_functional [OF inv] show ?thesis by blast
  qed
qed

text \<open>C29. A login has at most one live refresh token. In every reachable state, of all tokens that were
  issued by rotating one another from the same first token, at most one is not revoked, and they
  all belong to the same user.\<close>

theorem one_live_token_per_login:
  assumes "auth_init h0" "(auth_step sign hashToken config)\<^sup>*\<^sup>* h0 (d # h)"
    and "(successor d)\<^sup>*\<^sup>* login a" "(successor d)\<^sup>*\<^sup>* login b"
  shows "rt_user a = rt_user b \<and> (rt_revoked_at a = None \<and> rt_revoked_at b = None \<longrightarrow> a = b)"
proof -
  have inv: "auth_inv d" using history_inv [OF sessions.reachable_inv [OF assms(1,2)]] by simp
  have user: "rt_user login = rt_user x" if "(successor d)\<^sup>*\<^sup>* login x" for x
    using that by induction (auto dest: successor_revoked [OF inv])
  have "a = b" if "rt_revoked_at a = None" "rt_revoked_at b = None"
    using live_is_last [OF inv assms(3,4)] that by (metis converse_rtranclpE inv successor_revoked)
  with user [OF assms(3)] user [OF assms(4)] show ?thesis by simp
qed

section \<open>Replay\<close>

text \<open>Reuse detection. When a revoked token that has not expired is presented and no other transaction of the user is in
  progress, the request fails with \<^verbatim>\<open>reuse_detected\<close>, every refresh token of that user is revoked afterwards, at any depth
  of any of the user's chains, and the rows of other users are untouched.\<close>

theorem reuse_revokes_user:
  assumes "auth_inv d" "r \<in> set (refresh_tokens d)" "rt_hash r = hashToken token" "rt_revoked_at r \<noteq> None"
    and "anow env \<le> rt_expires_at r"
  shows "\<exists>d'. rotateRefreshToken sign hashToken env config token d (\<lambda>_. True) d = (Inl Reuse_detected, d') \<and>
     (\<forall>x \<in> set (refresh_tokens d'). rt_user x = rt_user r \<longrightarrow> rt_revoked_at x \<noteq> None) \<and>
     filter (\<lambda>x. rt_user x \<noteq> rt_user r) (refresh_tokens d') = filter (\<lambda>x. rt_user x \<noteq> rt_user r) (refresh_tokens d)"
proof -
  have found: "find_token (hashToken token) d = Some r"
    using assms(1-3) unfolding find_token_def auth_inv_def by (metis find_unique)
  obtain u where u: "find_user (rt_user r) d = Some u"
  proof (cases "find_user (rt_user r) d")
    case None
    then have "rt_user r \<notin> au_id ` set (auth_users d)" by (auto simp: find_user_def find_None_iff)
    with assms(1,2) show ?thesis by (auto simp: auth_inv_def)
  qed
  have none: "filter (\<lambda>x. rt_id x = rt_id r \<and> rt_revoked_at x = None) (refresh_tokens d) = []"
    using assms(1,2,4) auth_inv_unique [OF assms(1)] by (auto simp: filter_empty_conv)
  then have "revoke_where (\<lambda>x. rt_id x = rt_id r) (anow env) d = (0, d)"
    by (simp add: revoke_where_def Let_def filter_empty_conv map_idI)
  then have "rotateRefreshToken sign hashToken env config token d (\<lambda>_. True) d =
      (Inl Reuse_detected, revokeAllForUser (\<lambda>_. True) (anow env) (rt_user r) d)"
    using found u assms(5) by (simp add: rotateRefreshToken_def rotate_tx_def)
  moreover have "filter (\<lambda>x. rt_user x \<noteq> u) (map (\<lambda>y. if rt_user y = u \<and> rt_revoked_at y = None
      then y\<lparr>rt_revoked_at := Some t\<rparr> else y) xs) = filter (\<lambda>x. rt_user x \<noteq> u) xs" for u t xs
    by (induction xs) auto
  ultimately show ?thesis by (auto simp: revokeAllForUser_def revoke_where_def Let_def)
qed


section \<open>Examples\<close>

definition ex_sha :: "jsstring \<Rightarrow> jsstring" where "ex_sha t = 0 # t"
definition ex_sign :: jwt_signer where "ex_sign k a ttl c = a"
definition ex_config :: JwtConfig where
  "ex_config = \<lparr>secret = [1], accessTtlSeconds = 900, refreshTtlSeconds = 100\<rparr>"
definition ex_auth0 :: auth_db where
  "ex_auth0 = \<lparr>auth_users = [\<lparr>au_id = [5], au_name = [6]\<rparr>], refresh_tokens = []\<rparr>"
definition ex_auth_env :: "int \<Rightarrow> nat \<Rightarrow> auth_env" where
  "ex_auth_env t k = \<lparr>anow = t, arandom = [k], afresh = [k]\<rparr>"
definition ex_rotate :: "int \<Rightarrow> nat \<Rightarrow> nat \<Rightarrow> auth_db \<Rightarrow> (AuthError + RotatedTokens) \<times> auth_db" where
  "ex_rotate t old new d = rotateRefreshToken ex_sign ex_sha (ex_auth_env t new) ex_config [old] d (\<lambda>_. True) d"

text \<open>The user logs in (token 1), and rotates to token 2.\<close>

definition ex_auth1 :: auth_db where
  "ex_auth1 = snd (issueRefreshToken ex_sha (ex_auth_env 0 1) [5] ex_config ex_auth0)"
definition ex_auth2 :: auth_db where "ex_auth2 = snd (ex_rotate 10 1 2 ex_auth1)"

lemmas ex_auth_defs = ex_sha_def ex_sign_def ex_config_def ex_auth0_def ex_auth_env_def ex_rotate_def ex_auth1_def ex_auth2_def
  rotateRefreshToken_def rotate_tx_def issueRefreshToken_def insert_token_def find_token_def find_user_def
  revoke_where_def revokeAllForUser_def Let_def

lemma ex_auth_init: "auth_init [ex_auth0]"
  by (auto simp: auth_init_def auth_inv_def chain_ok_def ex_auth0_def)

lemma ex_issued: "auth_step ex_sign ex_sha ex_config [ex_auth0] [ex_auth1, ex_auth0]"
proof -
  have "issueRefreshToken ex_sha (ex_auth_env 0 1) [5] ex_config ex_auth0 = (Inr [1], ex_auth1)"
    by (simp add: ex_auth_defs)
  then show ?thesis by (rule auth_step.issue)
qed

lemma ex_rotated: "\<exists>pair. ex_rotate 10 1 2 ex_auth1 = (Inr pair, ex_auth2)"
  by (simp add: ex_auth_defs)

lemma ex_rotation_step: "auth_step ex_sign ex_sha ex_config [ex_auth1, ex_auth0] [ex_auth2, ex_auth1, ex_auth0]"
proof -
  obtain pair where "rotateRefreshToken ex_sign ex_sha (ex_auth_env 10 2) ex_config [1] ex_auth1 (\<lambda>_. True) ex_auth1 = (Inr pair, ex_auth2)"
    using ex_rotated unfolding ex_rotate_def by blast
  then show ?thesis by (intro auth_step.rotate) simp_all
qed

lemma ex_auth_run: "(auth_step ex_sign ex_sha ex_config)\<^sup>*\<^sup>* [ex_auth0] [ex_auth2, ex_auth1, ex_auth0]"
  by (rule rtranclp_trans [OF r_into_rtranclp r_into_rtranclp]) (rule ex_issued, rule ex_rotation_step)

lemma ex_auth_inv2: "auth_inv ex_auth2"
  using history_inv [OF sessions.reachable_inv [OF ex_auth_init ex_auth_run]] by simp

text \<open>A second request with token 1 that had read the row before the first one committed.\<close>

theorem refresh_single_use_witness:
  "\<exists>err e'. rotateRefreshToken ex_sign ex_sha (ex_auth_env 11 3) ex_config [1] ex_auth1 (\<lambda>_. True) ex_auth2 = (Inl err, e')"
proof -
  obtain pair where "rotateRefreshToken ex_sign ex_sha (ex_auth_env 10 2) ex_config [1] ex_auth1 (\<lambda>_. True) ex_auth1 = (Inr pair, ex_auth2)"
    using ex_rotated unfolding ex_rotate_def by blast
  from refresh_single_use [OF ex_auth_init r_into_rtranclp [of "auth_step ex_sign ex_sha ex_config", OF ex_issued] _ this rtranclp.rtrancl_refl,
      of ex_auth1 "ex_auth_env 11 3" "\<lambda>_. True"]
  show ?thesis by simp
qed

theorem one_live_token_per_login_witness:
  "\<exists>a b. successor ex_auth2 a b \<and> rt_user a = rt_user b \<and> (rt_revoked_at a = None \<and> rt_revoked_at b = None \<longrightarrow> a = b)"
proof -
  have "successor ex_auth2 (refresh_tokens ex_auth2 ! 0) (refresh_tokens ex_auth2 ! 1)"
    by (simp add: successor_def ex_auth_defs)
  then have s: "(successor ex_auth2)\<^sup>*\<^sup>* (refresh_tokens ex_auth2 ! 0) (refresh_tokens ex_auth2 ! 1)"
    "successor ex_auth2 (refresh_tokens ex_auth2 ! 0) (refresh_tokens ex_auth2 ! 1)" by auto
  show ?thesis
    using one_live_token_per_login [OF ex_auth_init ex_auth_run rtranclp.rtrancl_refl s(1)] s(2) by blast
qed

theorem reuse_revokes_user_witness:
  "\<exists>d'. rotateRefreshToken ex_sign ex_sha (ex_auth_env 20 3) ex_config [1] ex_auth2 (\<lambda>_. True) ex_auth2 = (Inl Reuse_detected, d') \<and>
     (\<forall>x \<in> set (refresh_tokens d'). rt_user x = [5] \<longrightarrow> rt_revoked_at x \<noteq> None)"
proof -
  have r: "refresh_tokens ex_auth2 ! 0 \<in> set (refresh_tokens ex_auth2)" "rt_hash (refresh_tokens ex_auth2 ! 0) = ex_sha [1]"
    "rt_revoked_at (refresh_tokens ex_auth2 ! 0) \<noteq> None" "anow (ex_auth_env 20 3) \<le> rt_expires_at (refresh_tokens ex_auth2 ! 0)"
    "rt_user (refresh_tokens ex_auth2 ! 0) = [5]"
    by (simp_all add: ex_auth_defs)
  show ?thesis using reuse_revokes_user [where hashToken = ex_sha and token = "[1]", OF ex_auth_inv2 r(1-4)] r(5) by fastforce
qed

text \<open>The replay of token 1 runs while the rotation of token 2 to token 3 is not committed: the statement that
  revokes the user's tokens started before the row of token 3 became visible, waited for the lock on the row of token 2
  and skipped it, because by then it was revoked.\<close>

definition ex_auth3 :: auth_db where "ex_auth3 = snd (ex_rotate 20 2 3 ex_auth2)"
definition ex_replay :: "(AuthError + RotatedTokens) \<times> auth_db" where
  "ex_replay = rotateRefreshToken ex_sign ex_sha (ex_auth_env 21 4) ex_config [1] ex_auth2 (\<lambda>i. i \<noteq> [3]) ex_auth3"

text \<open>C30. Reuse detection can miss a live token. The comments say that a detected replay revokes every active
  token of the user. In the reachable interleaving described above the replay is detected, yet the token that the
  concurrent rotation issued stays live and is accepted by the next refresh.\<close>

theorem reuse_misses_concurrent_rotation:
  "\<exists>h. auth_init [ex_auth0] \<and> (auth_step ex_sign ex_sha ex_config)\<^sup>*\<^sup>* [ex_auth0] (snd ex_replay # h) \<and>
     fst ex_replay = Inl Reuse_detected \<and>
     (\<exists>r \<in> set (refresh_tokens (snd ex_replay)). rt_user r = [5] \<and> rt_revoked_at r = None) \<and>
     (\<exists>pair. fst (ex_rotate 30 3 5 (snd ex_replay)) = Inr pair)"
proof -
  have three: "auth_step ex_sign ex_sha ex_config [ex_auth2, ex_auth1, ex_auth0] [ex_auth3, ex_auth2, ex_auth1, ex_auth0]"
    by (rule auth_step.rotate [of ex_auth2, OF _ surjective_pairing [of "ex_rotate 20 2 3 ex_auth2",
        folded ex_auth3_def, unfolded ex_rotate_def]]) simp
  have four: "auth_step ex_sign ex_sha ex_config [ex_auth3, ex_auth2, ex_auth1, ex_auth0]
      [snd ex_replay, ex_auth3, ex_auth2, ex_auth1, ex_auth0]"
    by (rule auth_step.rotate [of ex_auth2, OF _ trans [OF ex_replay_def [symmetric] surjective_pairing]]) simp
  have "(auth_step ex_sign ex_sha ex_config)\<^sup>*\<^sup>* [ex_auth0] [snd ex_replay, ex_auth3, ex_auth2, ex_auth1, ex_auth0]"
    using ex_auth_run three four by (meson rtranclp.rtrancl_into_rtrancl)
  moreover have "fst ex_replay = Inl Reuse_detected" "\<exists>r \<in> set (refresh_tokens (snd ex_replay)). rt_user r = [5] \<and> rt_revoked_at r = None"
    "\<exists>pair. fst (ex_rotate 30 3 5 (snd ex_replay)) = Inr pair"
    by (simp_all add: ex_replay_def ex_auth3_def ex_auth_defs)
  ultimately show ?thesis using ex_auth_init by blast
qed

end
