(* ===== verification/PluginUiSessions.thy ===== *)
theory PluginUiSessions
  imports SessionTokens "HOL-Library.Countable"
begin

text \<open>
  Sessions of plugin user interfaces (\<^verbatim>\<open>core/src/auth/plugin-ui-session.ts\<close>): the signed session token,
  its cookie, and the one-time bootstrap grants in the database, consumed once and purged in batches. The last part puts the
  three token classes of the platform side by side (user access, plugin UI, OTA download).
\<close>

section \<open>Session tokens\<close>

record PluginUiSessionConfig =
  ui_secret :: jsstring
  ui_ttlSeconds :: int

record PluginUiClaims =
  us_sub :: jsstring
  us_projectId :: jsstring
  us_installationId :: jsstring
  us_pluginId :: jsstring
  us_pluginVersion :: jsstring
  us_manifestHash :: jsstring
  us_routeId :: jsstring
  us_permissions :: "jsstring list"
  us_locale :: jsstring

record PluginUiSession = PluginUiClaims +
  us_nonce :: jsstring

datatype ui_session_error = UiJwt jwt_error | UiMalformed

definition UI_AUDIENCE :: jsstring where "UI_AUDIENCE = js ''soulcloud-plugin-ui''"

definition signPluginUiSession ::
    "jwt_signer \<Rightarrow> jsstring \<Rightarrow> PluginUiSessionConfig \<Rightarrow> PluginUiClaims \<Rightarrow> jsstring" where
  "signPluginUiSession sign randomUUID config s =
     sign (ui_secret config) UI_AUDIENCE (ui_ttlSeconds config * 1000)
       [(js ''sub'', JStr (us_sub s)), (js ''projectId'', JStr (us_projectId s)),
        (js ''installationId'', JStr (us_installationId s)), (js ''pluginId'', JStr (us_pluginId s)),
        (js ''pluginVersion'', JStr (us_pluginVersion s)), (js ''manifestHash'', JStr (us_manifestHash s)),
        (js ''routeId'', JStr (us_routeId s)), (js ''permissions'', JArr (map JStr (us_permissions s))),
        (js ''locale'', JStr (us_locale s)), (js ''nonce'', JStr randomUUID)]"

definition str_claim :: "jwt_claims \<Rightarrow> string \<Rightarrow> jsstring option" where
  "str_claim claims n = (case map_of claims (js n) of Some (JStr s) \<Rightarrow> Some s | _ \<Rightarrow> None)"

definition as_string :: "jsval \<Rightarrow> jsstring option" where
  "as_string v = (case v of JStr s \<Rightarrow> Some s | _ \<Rightarrow> None)"

definition strings_claim :: "jwt_claims \<Rightarrow> string \<Rightarrow> jsstring list option" where
  "strings_claim claims n = (case map_of claims (js n) of Some (JArr vs) \<Rightarrow> those (map as_string vs) | _ \<Rightarrow> None)"

definition verifyPluginUiSession ::
    "jwt_checker \<Rightarrow> PluginUiSessionConfig \<Rightarrow> jsstring \<Rightarrow> ui_session_error + PluginUiSession" where
  "verifyPluginUiSession verify config token =
     (case verify (ui_secret config) UI_AUDIENCE [js ''aud'', js ''exp''] token of
        Inl e \<Rightarrow> Inl (UiJwt e)
      | Inr claims \<Rightarrow>
          (case (those (map (str_claim claims) [''sub'', ''projectId'', ''installationId'', ''pluginId'',
                   ''pluginVersion'', ''manifestHash'', ''routeId'', ''locale'', ''nonce'']),
                 strings_claim claims ''permissions'') of
             (Some [sub, project, inst, plugin, version, hash, route, locale, nonce], Some perms) \<Rightarrow>
               Inr \<lparr>us_sub = sub, us_projectId = project, us_installationId = inst, us_pluginId = plugin,
                    us_pluginVersion = version, us_manifestHash = hash, us_routeId = route,
                    us_permissions = perms, us_locale = locale, us_nonce = nonce\<rparr>
           | _ \<Rightarrow> Inl UiMalformed))"

definition pluginUiSessionCookieName :: "jsstring \<Rightarrow> jsstring" where
  "pluginUiSessionCookieName installationId =
     js ''soulcloud_plugin_ui_'' @ filter (\<lambda>c. \<not> is_dash c) installationId"

section \<open>One-time grants\<close>

record ui_grant =
  gr_nonce :: uuid
  gr_expires :: time

datatype grant_error = NonceNotUuid | ExpiryInvalid | BatchSizeRange

text \<open>\<open>expiry\<close> is \<open>None\<close> for a date that does not parse. The column is a \<^verbatim>\<open>uuid\<close>, so equality of nonces
  ignores the case of the text (\<^const>\<open>canon\<close>).\<close>

definition consumePluginUiGrant ::
    "time \<Rightarrow> jsstring \<Rightarrow> time option \<Rightarrow> ui_grant list \<Rightarrow> grant_error + bool \<times> ui_grant list" where
  "consumePluginUiGrant t nonce expiry g =
     rbind (ensure (UUID nonce) NonceNotUuid) (\<lambda>_.
     (case expiry of
        None \<Rightarrow> Inl ExpiryInvalid
      | Some e \<Rightarrow>
          if e > t \<and> canon nonce \<notin> gr_nonce ` set g
          then Inr (True, g @ [\<lparr>gr_nonce = canon nonce, gr_expires = e\<rparr>])
          else Inr (False, g)))"

definition purgePluginUiGrants ::
    "(uuid \<Rightarrow> bool) \<Rightarrow> time \<Rightarrow> int \<Rightarrow> ui_grant list \<Rightarrow> grant_error + nat \<times> ui_grant list" where
  "purgePluginUiGrants locked t batchSize g =
     rbind (ensure (\<not> (batchSize > MAX_SAFE_INTEGER \<or> batchSize < 1 \<or> batchSize > 10000)) BatchSizeRange) (\<lambda>_.
       let expired = take (nat batchSize)
             (sort_key gr_expires (filter (\<lambda>x. gr_expires x \<le> t \<and> \<not> locked (gr_nonce x)) g));
           gone = (\<lambda>x. gr_nonce x \<in> gr_nonce ` set expired) in
       Inr (length (filter gone g), filter (\<lambda>x. \<not> gone x) g))"

text \<open>Runs against one database clock, which does not go back.\<close>

inductive grant_step :: "time \<times> ui_grant list \<Rightarrow> time \<times> ui_grant list \<Rightarrow> bool" where
  consume: "c \<le> t \<Longrightarrow> consumePluginUiGrant t nonce expiry g = Inr (b, g') \<Longrightarrow> grant_step (c, g) (t, g')"
| purge: "c \<le> t \<Longrightarrow> purgePluginUiGrants locked t batchSize g = Inr (n, g') \<Longrightarrow> grant_step (c, g) (t, g')"

definition grants_inv :: "time \<times> ui_grant list \<Rightarrow> bool" where
  "grants_inv s \<longleftrightarrow> distinct (map gr_nonce (snd s))"

definition grants_before :: "time \<times> ui_grant list \<Rightarrow> time \<times> ui_grant list \<Rightarrow> bool" where
  "grants_before s s' \<longleftrightarrow> fst s \<le> fst s' \<and> (\<forall>x \<in> set (snd s). x \<in> set (snd s') \<or> gr_expires x \<le> fst s')"

lemma purge_Inr:
  assumes "purgePluginUiGrants locked t batchSize g = Inr (n, g')" "distinct (map gr_nonce g)"
  shows "distinct (map gr_nonce g') \<and> set g' \<subseteq> set g \<and> (\<forall>x \<in> set g. x \<in> set g' \<or> gr_expires x \<le> t)"
proof -
  define X where "X = set (take (nat batchSize)
    (sort_key gr_expires (filter (\<lambda>x. gr_expires x \<le> t \<and> \<not> locked (gr_nonce x)) g)))"
  have g': "g' = filter (\<lambda>x. gr_nonce x \<notin> gr_nonce ` X) g"
    using assms(1) unfolding purgePluginUiGrants_def rbind_eq_Inr Let_def X_def by (elim exE conjE) simp
  have sub: "X \<subseteq> {x \<in> set g. gr_expires x \<le> t}"
    unfolding X_def by (rule subset_trans [OF set_take_subset]) auto
  have "gr_expires x \<le> t" if x: "x \<in> set g" "gr_nonce x \<in> gr_nonce ` X" for x
  proof -
    from x(2) obtain y where y: "y \<in> X" "gr_nonce y = gr_nonce x" by auto
    with sub have "y \<in> set g" "gr_expires y \<le> t" by blast+
    with x(1) y(2) assms(2) show ?thesis by (metis distinct_map inj_onD)
  qed
  then have "\<forall>x \<in> set g. x \<in> set g' \<or> gr_expires x \<le> t" unfolding g' by simp
  with assms(2) show ?thesis unfolding g' by (simp add: distinct_map_filter)
qed

lemma grant_step_ok:
  assumes "grant_step s s'" "grants_inv s"
  shows "grants_inv s' \<and> grants_before s s'"
  using assms(1)
proof (cases rule: grant_step.cases)
  case (consume c t nonce expiry g b g')
  with assms(2) show ?thesis
    by (auto simp: consumePluginUiGrant_def rbind_eq_Inr grants_inv_def grants_before_def split: option.splits if_splits)
next
  case (purge c t locked batchSize g n g')
  with assms(2) show ?thesis using purge_Inr [OF purge(4)] by (auto simp: grants_inv_def grants_before_def)
qed

interpretation grants: progressing_system "\<lambda>s. snd s = []" grant_step grants_inv grants_before
proof unfold_locales
  show "grants_inv s" if "snd s = []" for s using that by (simp add: grants_inv_def)
  show "grants_inv s'" if "grants_inv s" "grant_step s s'" for s s' using grant_step_ok that by blast
  show "grants_before s s" for s by (simp add: grants_before_def)
  show "grants_before a c" if "grants_before a b" "grants_before b c" for a b c
    using that unfolding grants_before_def by force
  show "grants_before s s'" if "grants_inv s" "grant_step s s'" for s s' using grant_step_ok that by blast
qed

text \<open>A bootstrap grant is consumed at most once. After a grant has been consumed, every later attempt with the same
  nonce (in any letter case) and the same expiry is refused, also when a purge has removed its row in the meantime, at any later time.\<close>

theorem grant_one_shot:
  assumes "snd s0 = []" "grant_step\<^sup>*\<^sup>* s0 (c, g)" "c \<le> t"
    and "consumePluginUiGrant t nonce (Some e) g = Inr (True, g')"
    and "grant_step\<^sup>*\<^sup>* (t, g') (c', k)" "c' \<le> t'" "UUID nonce'" "canon nonce' = canon nonce"
  shows "consumePluginUiGrant t' nonce' (Some e) k = Inr (False, k)"
proof -
  have "grants_inv (c, g)" by (rule grants.reachable_inv [OF assms(1,2)])
  then have "grants_inv (t, g')" using grant_step_ok [OF grant_step.consume [OF assms(3,4)]] by blast
  then have before: "grants_before (t, g') (c', k)" by (rule grants.steps_before [OF assms(5)])
  have "\<lparr>gr_nonce = canon nonce, gr_expires = e\<rparr> \<in> set g'"
    using assms(4) by (auto simp: consumePluginUiGrant_def rbind_eq_Inr split: if_splits)
  with before have "\<lparr>gr_nonce = canon nonce, gr_expires = e\<rparr> \<in> set k \<or> e \<le> c'"
    by (auto simp: grants_before_def)
  then have "canon nonce \<in> gr_nonce ` set k \<or> e \<le> c'" by force
  with assms(6-8) show ?thesis by (auto simp: consumePluginUiGrant_def)
qed


definition ex_nonce :: jsstring where "ex_nonce = js ''0f8fad5b-d9cb-469f-a165-70867728950e''"
definition ex_NONCE :: jsstring where "ex_NONCE = js ''0F8FAD5B-D9CB-469F-A165-70867728950E''"

lemma ex_nonce_facts: "UUID ex_nonce" "UUID ex_NONCE" "canon ex_NONCE = canon ex_nonce"
  by code_simp+

text \<open>Consumed at time 0, purged at time 50, tried again at time 60.\<close>

theorem grant_one_shot_witness: "consumePluginUiGrant 60 ex_NONCE (Some 50) [] = Inr (False, [])"
proof -
  let ?g = "[\<lparr>gr_nonce = canon ex_nonce, gr_expires = 50\<rparr>]"
  have one: "consumePluginUiGrant 0 ex_nonce (Some 50) [] = Inr (True, ?g)"
    by (simp add: consumePluginUiGrant_def ex_nonce_facts)
  have "purgePluginUiGrants (\<lambda>_. False) 50 256 ?g = Inr (1, [])"
    by (simp add: purgePluginUiGrants_def MAX_SAFE_INTEGER_def)
  then have "grant_step (0, ?g) (50, [])" by (intro grant_step.purge) simp_all
  then have "grant_step\<^sup>*\<^sup>* (0, ?g) (50, [])" by simp
  from grant_one_shot [OF _ rtranclp.rtrancl_refl _ one this _ ex_nonce_facts(2,3), of 0 60] show ?thesis by simp
qed

text \<open>The cookie of an installation is its own: names agree only for the same identifier.\<close>

lemma filter_dashes:
  "matches ps s \<Longrightarrow> matches ps s' \<Longrightarrow> (\<forall>p \<in> set ps. (\<forall>c. p c \<longleftrightarrow> is_dash c) \<or> (\<forall>c. p c \<longrightarrow> \<not> is_dash c)) \<Longrightarrow>
   filter (\<lambda>c. \<not> is_dash c) s = filter (\<lambda>c. \<not> is_dash c) s' \<Longrightarrow> s = s'"
  unfolding matches_def
proof (induction ps arbitrary: s s')
  case (Cons p ps)
  then obtain c k c' k' where s: "s = c # k" "s' = c' # k'" "p c" "p c'" "list_all2 (\<lambda>p c. p c) ps k" "list_all2 (\<lambda>p c. p c) ps k'"
    by (auto simp: list_all2_Cons1)
  with Cons.prems(3) have "is_dash c \<longleftrightarrow> is_dash c'" by auto
  with s Cons.prems Cons.IH [of k k'] show ?case by (auto simp: is_dash_def split: if_splits)
qed simp

lemma cookie_name_unique:
  assumes "canonical_uuid i" "canonical_uuid j" "pluginUiSessionCookieName i = pluginUiSessionCookieName j"
  shows "i = j"
proof -
  have "filter (\<lambda>c. \<not> is_dash c) i = filter (\<lambda>c. \<not> is_dash c) j"
    using assms(3) by (simp add: pluginUiSessionCookieName_def)
  then show ?thesis
    by (intro filter_dashes [OF assms(1,2) [unfolded canonical_uuid_def]]) (auto simp: is_dash_def is_hex_lower_def)
qed

section \<open>Token classes\<close>

text \<open>What the JWT library documents, at the clock readings of the two calls: a token verifies under its own key and audience
  until it expires, and then yields the signed claims; a token of another audience is refused; a token is refused as
  expired once its lifetime has passed. The lifetime is rounded to seconds.\<close>

definition jwt_laws :: "(time \<Rightarrow> jwt_signer) \<Rightarrow> (time \<Rightarrow> jwt_checker) \<Rightarrow> bool" where
  "jwt_laws sign verify \<longleftrightarrow>
     (\<forall>t t' k a ttl c req. t \<le> t' \<and> t' + 1000 \<le> t + ttl \<and> set req \<subseteq> {js ''aud'', js ''exp''} \<union> fst ` set c \<longrightarrow>
        (\<exists>c'. verify t' k a req (sign t k a ttl c) = Inr c' \<and> (\<forall>n \<in> fst ` set c. map_of c' n = map_of c n))) \<and>
     (\<forall>t t' k a ttl c req. t + ttl \<le> t' \<and> set req \<subseteq> {js ''aud'', js ''exp''} \<union> fst ` set c \<longrightarrow>
        verify t' k a req (sign t k a ttl c) = Inl JwtExpired) \<and>
     (\<forall>t t' k a a' ttl c req. a \<noteq> a' \<longrightarrow> (\<exists>e. verify t' k a' req (sign t k a ttl c) = Inl e))"

definition forget :: "jwt_checker \<Rightarrow> jwt_verifier" where
  "forget verify k a req tok = (case verify k a req tok of Inl _ \<Rightarrow> None | Inr c \<Rightarrow> Some c)"

lemma those_map_Some [simp]: "those (map (\<lambda>x. Some (f x)) xs) = Some (map f xs)"
  by (induction xs) auto

lemma jwt_accept:
  assumes "jwt_laws sign verify" "t \<le> t'" "t' + 1000 \<le> t + ttl" "set req \<subseteq> {js ''aud'', js ''exp''} \<union> fst ` set c"
  shows "\<exists>c'. verify t' k a req (sign t k a ttl c) = Inr c' \<and> (\<forall>n \<in> fst ` set c. map_of c' n = map_of c n)"
  using assms unfolding jwt_laws_def by metis

lemma jwt_expired:
  assumes "jwt_laws sign verify" "t + ttl \<le> t'" "set req \<subseteq> {js ''aud'', js ''exp''} \<union> fst ` set c"
  shows "verify t' k a req (sign t k a ttl c) = Inl JwtExpired"
  using assms unfolding jwt_laws_def by metis

lemma jwt_foreign:
  assumes "jwt_laws sign verify" "a \<noteq> a'"
  shows "\<exists>e. verify t' k a' req (sign t k a ttl c) = Inl e"
  using assms unfolding jwt_laws_def by metis

lemma access_roundtrip:
  assumes "jwt_laws sign verify" "t \<le> t'" "t' + 1000 \<le> t + accessTtlSeconds config * 1000"
  shows "verifyAccessToken (verify t') config (signAccessToken (sign t) config p) = Inr p"
  using jwt_accept [OF assms, of "[js ''aud'', js ''exp'']"
      "[(js ''sub'', JStr (at_sub p)), (js ''username'', JStr (at_username p))]" "secret config" ACCESS_TOKEN_AUDIENCE]
  by (auto simp: verifyAccessToken_def signAccessToken_def)

lemma ota_roundtrip:
  assumes "jwt_laws sign verify" "t \<le> t'" "t' + 1000 \<le> t + ttlSeconds * 1000"
  shows "verifyOtaToken (forget (verify t')) key (signOtaToken (sign t) key p ttlSeconds) = Some p"
  using jwt_accept [OF assms, of "[js ''aud'', js ''exp'', js ''releaseId'', js ''jobId'']"
      "[(js ''sub'', JStr (opDeviceUid p)), (js ''releaseId'', JStr (opReleaseId p)), (js ''jobId'', JStr (opJobId p))]"
      key OTA_TOKEN_AUDIENCE]
  by (auto simp: verifyOtaToken_def signOtaToken_def forget_def)

lemma ui_roundtrip:
  assumes "jwt_laws sign verify" "t \<le> t'" "t' + 1000 \<le> t + ui_ttlSeconds config * 1000"
  shows "verifyPluginUiSession (verify t') config (signPluginUiSession (sign t) nonce config s) =
     Inr (PluginUiClaims.extend s (PluginUiSession.fields nonce))"
proof -
  let ?c = "[(js ''sub'', JStr (us_sub s)), (js ''projectId'', JStr (us_projectId s)),
        (js ''installationId'', JStr (us_installationId s)), (js ''pluginId'', JStr (us_pluginId s)),
        (js ''pluginVersion'', JStr (us_pluginVersion s)), (js ''manifestHash'', JStr (us_manifestHash s)),
        (js ''routeId'', JStr (us_routeId s)), (js ''permissions'', JArr (map JStr (us_permissions s))),
        (js ''locale'', JStr (us_locale s)), (js ''nonce'', JStr nonce)]"
  obtain c' where c': "verify t' (ui_secret config) UI_AUDIENCE [js ''aud'', js ''exp''] (signPluginUiSession (sign t) nonce config s) = Inr c'"
    "\<forall>n \<in> fst ` set ?c. map_of c' n = map_of ?c n"
    using jwt_accept [OF assms, of "[js ''aud'', js ''exp'']" ?c "ui_secret config" UI_AUDIENCE]
    by (auto simp: signPluginUiSession_def)
  then show ?thesis
    by (simp add: verifyPluginUiSession_def str_claim_def strings_claim_def as_string_def comp_def
        PluginUiClaims.extend_def PluginUiSession.fields_def)
qed


lemmas token_defs = verifyAccessToken_def verifyOtaToken_def verifyPluginUiSession_def
  signAccessToken_def signOtaToken_def signPluginUiSession_def forget_def

lemmas audience_defs = ACCESS_TOKEN_AUDIENCE_def OTA_TOKEN_AUDIENCE_def UI_AUDIENCE_def

lemma token_expired:
  assumes "jwt_laws sign verify"
  shows "t + accessTtlSeconds config * 1000 \<le> t' \<Longrightarrow>
      verifyAccessToken (verify t') config (signAccessToken (sign t) config p) = Inl Token_expired"
    and "t + ttl * 1000 \<le> t' \<Longrightarrow> verifyOtaToken (forget (verify t')) key (signOtaToken (sign t) key q ttl) = None"
    and "t + ui_ttlSeconds ui * 1000 \<le> t' \<Longrightarrow>
      verifyPluginUiSession (verify t') ui (signPluginUiSession (sign t) nonce ui s) = Inl (UiJwt JwtExpired)"
  by (simp_all add: token_defs jwt_expired [OF assms])

lemma token_foreign:
  assumes "jwt_laws sign verify"
  shows "a \<noteq> ACCESS_TOKEN_AUDIENCE \<Longrightarrow> \<exists>e. verifyAccessToken (verify t') config (sign t (secret config) a m c) = Inl e"
    and "a \<noteq> OTA_TOKEN_AUDIENCE \<Longrightarrow> verifyOtaToken (forget (verify t')) key (sign t key a m c) = None"
    and "a \<noteq> UI_AUDIENCE \<Longrightarrow> \<exists>e. verifyPluginUiSession (verify t') ui (sign t (ui_secret ui) a m c) = Inl e"
proof -
  show "\<exists>e. verifyAccessToken (verify t') config (sign t (secret config) a m c) = Inl e" if "a \<noteq> ACCESS_TOKEN_AUDIENCE"
    using jwt_foreign [OF assms that, of t' "secret config" "[js ''aud'', js ''exp'']" t m c]
    by (auto simp: verifyAccessToken_def split: jwt_error.splits)
  show "verifyOtaToken (forget (verify t')) key (sign t key a m c) = None" if "a \<noteq> OTA_TOKEN_AUDIENCE"
    using jwt_foreign [OF assms that, of t' key "[js ''aud'', js ''exp'', js ''releaseId'', js ''jobId'']" t m c]
    by (auto simp: verifyOtaToken_def forget_def)
  show "\<exists>e. verifyPluginUiSession (verify t') ui (sign t (ui_secret ui) a m c) = Inl e" if "a \<noteq> UI_AUDIENCE"
    using jwt_foreign [OF assms that, of t' "ui_secret ui" "[js ''aud'', js ''exp'']" t m c]
    by (auto simp: verifyPluginUiSession_def)
qed

lemma class_foreign:
  assumes "jwt_laws sign verify" "ui_secret ui = secret config"
  shows "\<exists>e. verifyAccessToken (verify t') config (signOtaToken (sign t) (secret config) q ttl) = Inl e"
    "\<exists>e. verifyAccessToken (verify t') config (signPluginUiSession (sign t) nonce ui s) = Inl e"
    "verifyOtaToken (forget (verify t')) (secret config) (signAccessToken (sign t) config p) = None"
    "verifyOtaToken (forget (verify t')) (secret config) (signPluginUiSession (sign t) nonce ui s) = None"
    "\<exists>e. verifyPluginUiSession (verify t') ui (signAccessToken (sign t) config p) = Inl e"
    "\<exists>e. verifyPluginUiSession (verify t') ui (signOtaToken (sign t) (secret config) q ttl) = Inl e"
  unfolding signAccessToken_def signOtaToken_def signPluginUiSession_def assms(2) [symmetric]
  unfolding assms(2)
  by (simp_all add: token_foreign [OF assms(1)] audience_defs)
    (simp_all add: token_foreign(3) [OF assms(1), of _ _ ui, unfolded assms(2)] audience_defs)

text \<open>Token classes. With the JWT library behaving as documented and all classes signed under one key, each of the three
  verifiers returns exactly what its own signer was given (the user; the device, release and job; the whole plugin session
  with its nonce) while the token lives, each reports failure once the lifetime has passed (the access token with its own
  error), and each refuses the tokens of the two other classes at any time.\<close>

theorem token_classes:
  assumes laws: "jwt_laws sign verify" and key: "ui_secret ui = secret config" and now: "t \<le> t'"
  shows "(t' + 1000 \<le> t + accessTtlSeconds config * 1000 \<longrightarrow>
      verifyAccessToken (verify t') config (signAccessToken (sign t) config p) = Inr p) \<and>
    (t' + 1000 \<le> t + ttl * 1000 \<longrightarrow>
      verifyOtaToken (forget (verify t')) (secret config) (signOtaToken (sign t) (secret config) q ttl) = Some q) \<and>
    (t' + 1000 \<le> t + ui_ttlSeconds ui * 1000 \<longrightarrow>
      verifyPluginUiSession (verify t') ui (signPluginUiSession (sign t) nonce ui s) =
        Inr (PluginUiClaims.extend s (PluginUiSession.fields nonce))) \<and>
    (t + accessTtlSeconds config * 1000 \<le> t' \<longrightarrow>
      verifyAccessToken (verify t') config (signAccessToken (sign t) config p) = Inl Token_expired) \<and>
    (t + ttl * 1000 \<le> t' \<longrightarrow>
      verifyOtaToken (forget (verify t')) (secret config) (signOtaToken (sign t) (secret config) q ttl) = None) \<and>
    (t + ui_ttlSeconds ui * 1000 \<le> t' \<longrightarrow>
      verifyPluginUiSession (verify t') ui (signPluginUiSession (sign t) nonce ui s) = Inl (UiJwt JwtExpired)) \<and>
    (\<exists>e. verifyAccessToken (verify t') config (signOtaToken (sign t) (secret config) q ttl) = Inl e) \<and>
    (\<exists>e. verifyAccessToken (verify t') config (signPluginUiSession (sign t) nonce ui s) = Inl e) \<and>
    verifyOtaToken (forget (verify t')) (secret config) (signAccessToken (sign t) config p) = None \<and>
    verifyOtaToken (forget (verify t')) (secret config) (signPluginUiSession (sign t) nonce ui s) = None \<and>
    (\<exists>e. verifyPluginUiSession (verify t') ui (signAccessToken (sign t) config p) = Inl e) \<and>
    (\<exists>e. verifyPluginUiSession (verify t') ui (signOtaToken (sign t) (secret config) q ttl) = Inl e)"
  using class_foreign [OF laws key]
  by (simp add: access_roundtrip [OF laws now] ota_roundtrip [OF laws now] ui_roundtrip [OF laws now] token_expired [OF laws])

text \<open>A library that satisfies the laws: the token is a number that encodes the key, the audience, the expiry and the
  claims.\<close>

instance word :: (len) countable
  by (rule countable_classI [of unat]) (simp add: word_unat_eq_iff)

instance jsnum :: countable by countable_datatype
instance jsval :: countable by countable_datatype

definition ex_jwt_sign :: "time \<Rightarrow> jwt_signer" where
  "ex_jwt_sign t k a ttl c = [to_nat (k, a, t + ttl, c)]"

definition ex_jwt_verify :: "time \<Rightarrow> jwt_checker" where
  "ex_jwt_verify t' k a req tok =
     (case from_nat (hd tok) :: jsstring \<times> jsstring \<times> int \<times> jwt_claims of (k', a', until, c) \<Rightarrow>
        if k' \<noteq> k \<or> a' \<noteq> a \<or> \<not> set req \<subseteq> {js ''aud'', js ''exp''} \<union> fst ` set c then Inl JwtInvalid
        else if until \<le> t' then Inl JwtExpired else Inr c)"

lemma ex_jwt_laws: "jwt_laws ex_jwt_sign ex_jwt_verify"
  by (auto simp: jwt_laws_def ex_jwt_sign_def ex_jwt_verify_def)

theorem token_classes_witness:
  "verifyAccessToken (ex_jwt_verify 5) \<lparr>secret = [1], accessTtlSeconds = 900, refreshTtlSeconds = 100\<rparr>
     (signAccessToken (ex_jwt_sign 0) \<lparr>secret = [1], accessTtlSeconds = 900, refreshTtlSeconds = 100\<rparr> \<lparr>at_sub = [2], at_username = [3]\<rparr>)
     = Inr \<lparr>at_sub = [2], at_username = [3]\<rparr> \<and>
   (\<exists>e. verifyAccessToken (ex_jwt_verify 5) \<lparr>secret = [1], accessTtlSeconds = 900, refreshTtlSeconds = 100\<rparr>
     (signOtaToken (ex_jwt_sign 0) [1] \<lparr>opDeviceUid = [4], opReleaseId = [5], opJobId = [6]\<rparr> 60) = Inl e)"
  using token_classes [OF ex_jwt_laws, of "\<lparr>ui_secret = [1], ui_ttlSeconds = 60\<rparr>"
      "\<lparr>secret = [1], accessTtlSeconds = 900, refreshTtlSeconds = 100\<rparr>" 0 5 "\<lparr>at_sub = [2], at_username = [3]\<rparr>" 60
      "\<lparr>opDeviceUid = [4], opReleaseId = [5], opJobId = [6]\<rparr>"]
  by simp

end
