(* ===== verification/RateLimit.thy ===== *)
theory RateLimit
  imports Doubles "HOL-Library.AList"
begin

text \<open>
  Rate limiting of device uplinks (\<^verbatim>\<open>core/src/queue/rate-limit.ts\<close>): the token bucket on JavaScript numbers
  (every arithmetic result is rounded by \<^const>\<open>fl\<close>; clock readings are whole milliseconds below \<open>2 ^ 53\<close>, whose differences are exact)
  and the table of buckets with its bound and its reclamation of idle devices. The theorems bound what is
  admitted over a whole run, rounding errors included, and the size of the table.
\<close>

section \<open>Token buckets\<close>

record TokenBucket =
  bk_capacity :: rat
  bk_refillPerSecond :: rat
  bk_tokens :: rat
  bk_lastRefill :: int

definition new_bucket :: "rat \<Rightarrow> rat \<Rightarrow> int \<Rightarrow> TokenBucket" where
  "new_bucket capacity refillPerSecond now =
     \<lparr>bk_capacity = capacity, bk_refillPerSecond = refillPerSecond, bk_tokens = capacity, bk_lastRefill = now\<rparr>"

definition refill :: "int \<Rightarrow> TokenBucket \<Rightarrow> TokenBucket" where
  "refill now b =
     (let elapsed = max 0 (now - bk_lastRefill b) in
      b\<lparr>bk_tokens := min (bk_capacity b)
            (fl (bk_tokens b + fl (fl (of_int elapsed / 1000) * bk_refillPerSecond b))),
        bk_lastRefill := now\<rparr>)"

definition bucket_tryConsume :: "rat \<Rightarrow> int \<Rightarrow> TokenBucket \<Rightarrow> bool \<times> TokenBucket" where
  "bucket_tryConsume n now b =
     (let b = refill now b in
      if bk_tokens b < n then (False, b)
      else (True, b\<lparr>bk_tokens := fl (bk_tokens b - n)\<rparr>))"

section \<open>The table of devices\<close>

record PerDeviceLimiter =
  buckets :: "(jsstring \<times> TokenBucket) list"
  lastSeen :: "(jsstring \<times> int) list"
  lm_capacity :: rat
  lm_refillPerSecond :: rat
  idleTimeoutMs :: int
  maxDevices :: nat
  lastReclaim :: int

definition new_limiter :: "rat \<Rightarrow> rat \<Rightarrow> int option \<Rightarrow> nat option \<Rightarrow> PerDeviceLimiter" where
  "new_limiter capacity refillPerSecond idle devs =
     \<lparr>buckets = [], lastSeen = [], lm_capacity = capacity, lm_refillPerSecond = refillPerSecond,
      idleTimeoutMs = (case idle of None \<Rightarrow> 60000 | Some x \<Rightarrow> x),
      maxDevices = (case devs of None \<Rightarrow> 10000 | Some x \<Rightarrow> x), lastReclaim = 0\<rparr>"

definition reclaim :: "int \<Rightarrow> PerDeviceLimiter \<Rightarrow> PerDeviceLimiter" where
  "reclaim now l =
     (if length (buckets l) < maxDevices l then l
      else if now - lastReclaim l < 1000 then l
      else foldl (\<lambda>l (id, seenAt). if now - seenAt > idleTimeoutMs l
                    then l\<lparr>buckets := AList.delete id (buckets l), lastSeen := AList.delete id (lastSeen l)\<rparr>
                    else l)
             (l\<lparr>lastReclaim := now\<rparr>) (lastSeen l))"

definition limiter_tryConsume :: "jsstring \<Rightarrow> rat \<Rightarrow> int \<Rightarrow> PerDeviceLimiter \<Rightarrow> bool \<times> PerDeviceLimiter" where
  "limiter_tryConsume deviceId tokens now l =
     (let l = reclaim now l in
      case (case map_of (buckets l) deviceId of
              Some b \<Rightarrow> Some b
            | None \<Rightarrow> if length (buckets l) \<ge> maxDevices l then None
                      else Some (new_bucket (lm_capacity l) (lm_refillPerSecond l) now)) of
        None \<Rightarrow> (False, l)
      | Some bucket \<Rightarrow>
          let (ok, bucket') = bucket_tryConsume tokens now bucket in
          (ok, l\<lparr>buckets := AList.update deviceId bucket' (buckets l),
                 lastSeen := AList.update deviceId now (lastSeen l)\<rparr>))"

section \<open>Rounding errors\<close>

text \<open>Half the smallest double, and the unit of relative error.\<close>

definition eta :: rat where "eta = 2 powi (- 1075)"
definition ulp :: rat where "ulp = 1 / 2 ^ 53"

lemma ulp_pos: "0 < ulp" "ulp < 1" by (simp_all add: ulp_def)

lemma grain_half_le:
  assumes "0 < x"
  shows "grain x / 2 \<le> max (x * ulp) eta"
proof (cases "exponent_of x - 52 \<le> - 1074")
  case True
  have "grain x / 2 = eta"
    using True power_int_add_1 [of "2 :: rat" "- 1075"] by (simp only: grain_def eta_def max_absorb2) simp
  then show ?thesis by simp
next
  case False
  have "2 powi exponent_of x = (2 :: rat) powi (exponent_of x - 52) * 2 powi 52"
    by (subst power_int_add [symmetric]) simp_all
  then have "grain x / 2 = 2 powi exponent_of x * ulp"
    using False by (simp add: grain_def max_def ulp_def power_int_numeral)
  also have "\<dots> \<le> x * ulp" using exponent_of_le [OF assms] ulp_pos by (simp add: mult_right_mono)
  finally show ?thesis by simp
qed

lemma eta_le: "1 / 2000 \<le> x \<Longrightarrow> eta \<le> x * ulp"
proof -
  assume x: "1 / 2000 \<le> x"
  have "eta \<le> 2 powi (- 64)" unfolding eta_def by (rule power_int_increasing) simp_all
  also have "\<dots> \<le> 1 / 2000 * ulp" by (simp add: power_int_minus ulp_def power_int_numeral)
  also have "\<dots> \<le> x * ulp" using x ulp_pos by (simp add: mult_right_mono)
  finally show ?thesis .
qed

text \<open>Relative error of a rounding, and the absolute error below a bound.\<close>

lemma fl_relative:
  assumes "x = 0 \<or> 1 / 2000 \<le> x"
  shows "fl x \<le> x * (1 + ulp)" "x * (1 - ulp) \<le> fl x"
proof -
  have "\<bar>fl x - x\<bar> \<le> x * ulp" if "x \<noteq> 0"
  proof -
    have x: "1 / 2000 \<le> x" using assms that by simp
    then have "0 < x" by (rule less_le_trans [rotated]) simp
    then have "\<bar>fl x - x\<bar> \<le> max (x * ulp) eta" using fl_close [of x] grain_half_le [of x] by linarith
    with eta_le [OF x] show ?thesis by simp
  qed
  then have "\<bar>fl x - x\<bar> \<le> x * ulp" by (cases "x = 0") simp_all
  then show "fl x \<le> x * (1 + ulp)" "x * (1 - ulp) \<le> fl x" by (simp_all add: algebra_simps abs_le_iff)
qed

lemma fl_absolute:
  assumes "0 \<le> x" "x \<le> c" "1 \<le> c"
  shows "fl x \<le> x + c * ulp"
proof (cases "x = 0")
  case False
  with assms have x: "0 < x" by simp
  have "x * ulp \<le> c * ulp" "eta \<le> c * ulp" using assms ulp_pos eta_le [of c] by (simp_all add: mult_right_mono)
  with fl_close [OF x] grain_half_le [OF x] show ?thesis by linarith
qed (use assms ulp_pos in simp)


section \<open>One bucket\<close>

definition bucket_ok :: "nat \<Rightarrow> rat \<Rightarrow> TokenBucket \<Rightarrow> bool" where
  "bucket_ok c rate b \<longleftrightarrow> bk_capacity b = of_nat c \<and> bk_refillPerSecond b = rate \<and>
     0 \<le> bk_tokens b \<and> bk_tokens b \<le> of_nat c"

lemma new_bucket_ok [simp]: "bucket_ok c rate (new_bucket (of_nat c) rate now)"
  by (simp add: bucket_ok_def new_bucket_def)

text \<open>What \<open>ms\<close> milliseconds may add to a bucket: the rate times the time, with the error of its two roundings.\<close>

definition accrued :: "rat \<Rightarrow> int \<Rightarrow> rat" where
  "accrued rate ms = rate * of_int ms / 1000 * (1 + ulp) ^ 2"

lemma accrued_add: "accrued rate (a + b) = accrued rate a + accrued rate b"
  by (simp add: accrued_def field_simps)

lemma accrued_ge:
  assumes "0 \<le> rate" "0 \<le> ms"
  shows "rate * of_int ms / 1000 \<le> accrued rate ms"
proof -
  have "1 \<le> (1 + ulp) ^ 2" using ulp_pos by (simp add: one_le_power)
  then have "rate * of_int ms / 1000 * 1 \<le> rate * of_int ms / 1000 * (1 + ulp) ^ 2"
    using assms by (intro mult_left_mono) auto
  then show ?thesis by (simp add: accrued_def)
qed

lemma accrued_nonneg: "0 \<le> rate \<Longrightarrow> 0 \<le> ms \<Longrightarrow> 0 \<le> accrued rate ms"
  by (simp add: accrued_def)


lemma increment_bound:
  assumes "1 \<le> rate"
  shows "fl (fl (of_int (max 0 ms) / 1000) * rate) \<le> accrued rate (max 0 ms)"
    "0 \<le> fl (fl (of_int (max 0 ms) / 1000) * rate)"
proof -
  define x :: rat where "x = of_int (max 0 ms) / 1000"
  have x: "x = 0 \<or> 1 / 1000 \<le> x" "0 \<le> x" by (auto simp: x_def max_def)
  then have u: "fl x \<le> x * (1 + ulp)" and l: "x * (1 - ulp) \<le> fl x" by (auto intro!: fl_relative)
  have "fl x * rate = 0 \<or> 1 / 2000 \<le> fl x * rate"
  proof (cases "x = 0")
    case False
    with x have "1 / 1000 * (1 / 2) \<le> x * (1 - ulp)" by (intro mult_mono) (auto simp: ulp_def)
    with l have half: "1 / 2000 \<le> fl x" by simp
    then have "fl x * 1 \<le> fl x * rate" using assms by (intro mult_left_mono) auto
    with half have "1 / 2000 \<le> fl x * rate" by linarith
    then show ?thesis ..
  qed simp
  then have "fl (fl x * rate) \<le> fl x * rate * (1 + ulp)" by (rule fl_relative)
  also have "\<dots> \<le> x * (1 + ulp) * rate * (1 + ulp)"
    using u assms ulp_pos by (intro mult_right_mono) auto
  finally show "fl (fl (of_int (max 0 ms) / 1000) * rate) \<le> accrued rate (max 0 ms)"
    by (simp add: accrued_def x_def power2_eq_square algebra_simps)
  show "0 \<le> fl (fl (of_int (max 0 ms) / 1000) * rate)"
    using x(2) assms unfolding x_def by (intro fl_nonneg mult_nonneg_nonneg) auto
qed

lemma refill_ok:
  assumes "bucket_ok c rate b" "1 \<le> c" "1 \<le> rate" "bk_lastRefill b \<le> now"
  shows "bucket_ok c rate (refill now b)" "bk_lastRefill (refill now b) = now"
    "bk_tokens (refill now b) \<le> bk_tokens b + accrued rate (now - bk_lastRefill b) + of_nat c * ulp"
proof -
  define inc where "inc = fl (fl (of_int (max 0 (now - bk_lastRefill b)) / 1000) * rate)"
  have t: "bk_tokens (refill now b) = min (of_nat c) (fl (bk_tokens b + inc))"
    using assms(1) by (simp add: refill_def Let_def inc_def bucket_ok_def)
  have inc: "0 \<le> inc" "inc \<le> accrued rate (now - bk_lastRefill b)"
    using increment_bound [OF assms(3), of "now - bk_lastRefill b"] assms(4) by (simp_all add: inc_def)
  have tok: "0 \<le> bk_tokens b" using assms(1) by (simp add: bucket_ok_def)
  show "bucket_ok c rate (refill now b)"
    using assms(1) t inc(1) tok fl_nonneg [of "bk_tokens b + inc"] by (simp add: bucket_ok_def refill_def Let_def)
  show "bk_lastRefill (refill now b) = now" by (simp add: refill_def Let_def)
  have "min (of_nat c) (fl (bk_tokens b + inc)) \<le> bk_tokens b + inc + of_nat c * ulp"
  proof (cases "bk_tokens b + inc \<le> of_nat c")
    case True
    then show ?thesis using fl_absolute [of "bk_tokens b + inc" "of_nat c"] tok inc(1) assms(2) by simp
  next
    case False
    moreover have "0 \<le> of_nat c * ulp" using ulp_pos by simp
    ultimately show ?thesis by linarith
  qed
  with t inc(2) show "bk_tokens (refill now b) \<le>
      bk_tokens b + accrued rate (now - bk_lastRefill b) + of_nat c * ulp" by simp
qed

lemma bucket_step:
  assumes ok: "bucket_ok c rate b" and c: "1 \<le> c" "c < 2 ^ 53" and "1 \<le> rate" "bk_lastRefill b \<le> now" "0 \<le> n"
    and run: "bucket_tryConsume n now b = (r, b')"
  shows "bucket_ok c rate b'" "bk_lastRefill b' = now"
    "(if r then n else 0) + bk_tokens b' \<le>
       bk_tokens b + accrued rate (now - bk_lastRefill b) + 2 * of_nat c * ulp"
proof -
  note r = refill_ok [OF ok c(1) assms(4,5)]
  let ?t = "bk_tokens (refill now b)"
  have t: "0 \<le> ?t" "?t \<le> of_nat c" using r(1) by (auto simp: bucket_ok_def)
  have less: "0 \<le> of_nat c * ulp" using ulp_pos by simp
  have "bucket_ok c rate b' \<and> bk_lastRefill b' = now \<and> (if r then n else 0) + bk_tokens b' \<le>
       bk_tokens b + accrued rate (now - bk_lastRefill b) + 2 * of_nat c * ulp"
  proof (cases "?t < n")
    case True
    with run have "r = False" "b' = refill now b" by (simp_all add: bucket_tryConsume_def Let_def)
    with r less show ?thesis by simp
  next
    case False
    then have left: "0 \<le> ?t - n" "?t - n \<le> of_nat c" using t \<open>0 \<le> n\<close> by auto
    have b': "r" "b' = (refill now b)\<lparr>bk_tokens := fl (?t - n)\<rparr>"
      using run False by (auto simp: bucket_tryConsume_def Let_def)
    have "bucket_ok c rate b'"
      using r(1) b' fl_nonneg [OF left(1)] fl_le_nat [OF left c(2)] by (simp add: bucket_ok_def)
    with r(2,3) b' fl_absolute [OF left] c(1) show ?thesis by simp
  qed
  then show "bucket_ok c rate b'" "bk_lastRefill b' = now"
    "(if r then n else 0) + bk_tokens b' \<le>
       bk_tokens b + accrued rate (now - bk_lastRefill b) + 2 * of_nat c * ulp" by auto
qed

section \<open>The table\<close>

definition forgotten :: "int \<Rightarrow> int \<Rightarrow> (jsstring \<times> int) list \<Rightarrow> jsstring set" where
  "forgotten now idle xs = fst ` {p \<in> set xs. now - snd p > idle}"

lemma delete_filter: "AList.delete k xs = filter (\<lambda>p. fst p \<noteq> k) xs"
  by (auto simp: AList.delete_eq intro: filter_cong)

lemma reclaim_fold:
  "foldl (\<lambda>l (id, seenAt). if now - seenAt > idleTimeoutMs l
       then l\<lparr>buckets := AList.delete id (buckets l), lastSeen := AList.delete id (lastSeen l)\<rparr> else l) l xs =
   l\<lparr>buckets := filter (\<lambda>p. fst p \<notin> forgotten now (idleTimeoutMs l) xs) (buckets l),
     lastSeen := filter (\<lambda>p. fst p \<notin> forgotten now (idleTimeoutMs l) xs) (lastSeen l)\<rparr>"
proof (induction xs arbitrary: l)
  case (Cons x xs)
  have "forgotten now i (x # xs) = (if now - snd x > i then insert (fst x) (forgotten now i xs) else forgotten now i xs)" for i
    by (auto simp: forgotten_def)
  then show ?case
    by (cases x) (simp add: Cons.IH delete_filter filter_filter conj_commute)
qed (simp add: forgotten_def)

text \<open>A reclamation drops a set of devices, all idle for longer than the timeout.\<close>

lemma reclaim_drops:
  obtains D where "buckets (reclaim now l) = filter (\<lambda>p. fst p \<notin> D) (buckets l)"
    "lastSeen (reclaim now l) = filter (\<lambda>p. fst p \<notin> D) (lastSeen l)"
    "\<And>i. i \<in> D \<Longrightarrow> \<exists>s. (i, s) \<in> set (lastSeen l) \<and> now - s > idleTimeoutMs l"
    "lm_capacity (reclaim now l) = lm_capacity l" "lm_refillPerSecond (reclaim now l) = lm_refillPerSecond l"
    "idleTimeoutMs (reclaim now l) = idleTimeoutMs l" "maxDevices (reclaim now l) = maxDevices l"
proof (cases "length (buckets l) < maxDevices l \<or> now - lastReclaim l < 1000")
  case True
  then show thesis by (intro that [of "{}"]) (auto simp: reclaim_def)
next
  case False
  then have "reclaim now l = l\<lparr>lastReclaim := now,
      buckets := filter (\<lambda>p. fst p \<notin> forgotten now (idleTimeoutMs l) (lastSeen l)) (buckets l),
      lastSeen := filter (\<lambda>p. fst p \<notin> forgotten now (idleTimeoutMs l) (lastSeen l)) (lastSeen l)\<rparr>"
    by (simp add: reclaim_def reclaim_fold)
  then show thesis by (intro that [of "forgotten now (idleTimeoutMs l) (lastSeen l)"]) (auto simp: forgotten_def)
qed


definition limiter_ok :: "nat \<Rightarrow> rat \<Rightarrow> int \<Rightarrow> PerDeviceLimiter \<Rightarrow> bool" where
  "limiter_ok c rate now l \<longleftrightarrow> lm_capacity l = of_nat c \<and> lm_refillPerSecond l = rate \<and>
     distinct (map fst (buckets l)) \<and> lastSeen l = map (map_prod id bk_lastRefill) (buckets l) \<and>
     (\<forall>b \<in> snd ` set (buckets l). bucket_ok c rate b \<and> bk_lastRefill b \<le> now) \<and>
     length (buckets l) \<le> maxDevices l"

lemma limiter_ok_new: "limiter_ok c rate now (new_limiter (of_nat c) rate idle devs)"
  by (simp add: limiter_ok_def new_limiter_def)

lemma limiter_ok_later: "limiter_ok c rate now l \<Longrightarrow> now \<le> now' \<Longrightarrow> limiter_ok c rate now' l"
  by (auto simp: limiter_ok_def)

lemma reclaim_ok:
  assumes "limiter_ok c rate now l"
  shows "limiter_ok c rate now (reclaim t l)" "idleTimeoutMs (reclaim t l) = idleTimeoutMs l"
    "maxDevices (reclaim t l) = maxDevices l"
proof -
  obtain D where D: "buckets (reclaim t l) = filter (\<lambda>p. fst p \<notin> D) (buckets l)"
    "lastSeen (reclaim t l) = filter (\<lambda>p. fst p \<notin> D) (lastSeen l)"
    "lm_capacity (reclaim t l) = lm_capacity l" "lm_refillPerSecond (reclaim t l) = lm_refillPerSecond l"
    "idleTimeoutMs (reclaim t l) = idleTimeoutMs l" "maxDevices (reclaim t l) = maxDevices l"
    using reclaim_drops [of t l] by metis
  then show "limiter_ok c rate now (reclaim t l)"
    using assms by (auto simp: limiter_ok_def filter_map comp_def distinct_map_filter
        intro: order_trans [OF length_filter_le])
  show "idleTimeoutMs (reclaim t l) = idleTimeoutMs l" "maxDevices (reclaim t l) = maxDevices l" by (rule D)+
qed

lemma length_update: "length (AList.update k v xs) = (if k \<in> fst ` set xs then length xs else Suc (length xs))"
  by (induction xs) auto

lemma map_update: "map (map_prod id f) (AList.update k v xs) = AList.update k (f v) (map (map_prod id f) xs)"
  by (induction xs) auto

lemma set_update_subset: "set (AList.update k v xs) \<subseteq> insert (k, v) (set xs)"
  by (induction xs) auto

text \<open>What a device may still consume at a moment: the tokens of its bucket and what has accrued since.\<close>

definition credit :: "nat \<Rightarrow> rat \<Rightarrow> jsstring \<Rightarrow> int \<Rightarrow> PerDeviceLimiter \<Rightarrow> rat" where
  "credit c rate dev now l =
     (case map_of (buckets l) dev of
        Some b \<Rightarrow> bk_tokens b + accrued rate (now - bk_lastRefill b)
      | None \<Rightarrow> of_nat c)"

lemma credit_later:
  assumes "now \<le> t" "0 \<le> rate"
  shows "credit c rate dev t l \<le> credit c rate dev now l + accrued rate (t - now)"
proof (cases "map_of (buckets l) dev")
  case None
  then show ?thesis using accrued_nonneg [of rate "t - now"] assms by (simp add: credit_def)
next
  case (Some b)
  have "accrued rate (t - bk_lastRefill b) = accrued rate (now - bk_lastRefill b) + accrued rate (t - now)"
    by (simp flip: accrued_add)
  with Some show ?thesis by (simp add: credit_def)
qed

lemma map_of_filter_key: "k \<notin> D \<Longrightarrow> map_of (filter (\<lambda>p. fst p \<notin> D) xs) k = map_of xs k"
  by (induction xs) auto

text \<open>Forgetting an idle device gives it nothing it would not have accrued.\<close>

lemma credit_reclaim:
  assumes ok: "limiter_ok c rate now l" "now \<le> t" and rate: "1 \<le> rate"
    and enough: "of_nat c \<le> rate * of_int (idleTimeoutMs l) / 1000"
  shows "credit c rate dev t (reclaim t l) \<le> credit c rate dev t l"
proof -
  obtain D where D: "buckets (reclaim t l) = filter (\<lambda>p. fst p \<notin> D) (buckets l)"
    "\<And>i. i \<in> D \<Longrightarrow> \<exists>s. (i, s) \<in> set (lastSeen l) \<and> t - s > idleTimeoutMs l"
    using reclaim_drops [of t l] by metis
  show ?thesis
  proof (cases "dev \<in> D")
    case False
    then have "map_of (buckets (reclaim t l)) dev = map_of (buckets l) dev"
      unfolding D(1) by (rule map_of_filter_key)
    then show ?thesis by (simp add: credit_def)
  next
    case True
    then obtain b where b: "(dev, b) \<in> set (buckets l)" "t - bk_lastRefill b > idleTimeoutMs l"
      using D(2) [OF True] ok(1) by (auto simp: limiter_ok_def)
    then have found: "map_of (buckets l) dev = Some b" and tok: "0 \<le> bk_tokens b"
      using ok(1) by (force simp: limiter_ok_def bucket_ok_def)+
    have "map_of (buckets (reclaim t l)) dev = None" using True by (auto simp: D(1) map_of_eq_None_iff)
    then have "credit c rate dev t (reclaim t l) = of_nat c" by (simp add: credit_def)
    also have "\<dots> \<le> rate * of_int (idleTimeoutMs l) / 1000" by (rule enough)
    also have "\<dots> \<le> rate * of_int (t - bk_lastRefill b) / 1000"
      using rate b(2) by (intro divide_right_mono mult_left_mono) auto
    also have "\<dots> \<le> accrued rate (t - bk_lastRefill b)"
      using rate ok b(1) by (intro accrued_ge) (force simp: limiter_ok_def)+
    finally show ?thesis using tok found by (simp add: credit_def)
  qed
qed


text \<open>One call: the invariant is kept, and what is admitted is paid from the credit.\<close>

lemma limiter_step:
  assumes ok: "limiter_ok c rate now l" and t: "now \<le> t" and c: "1 \<le> c" "c < 2 ^ 53" and rate: "1 \<le> rate" and n: "0 \<le> n"
    and enough: "of_nat c \<le> rate * of_int (idleTimeoutMs l) / 1000"
    and run: "limiter_tryConsume i n t l = (r, l')"
  shows "limiter_ok c rate t l'" "idleTimeoutMs l' = idleTimeoutMs l" "maxDevices l' = maxDevices l"
    "(if r \<and> i = dev then n else 0) + credit c rate dev t l' \<le>
       credit c rate dev t l + (if i = dev then 2 * of_nat c * ulp else 0)"
proof -
  define m where "m = reclaim t l"
  have m: "limiter_ok c rate t m" "idleTimeoutMs m = idleTimeoutMs l" "maxDevices m = maxDevices l"
    and less: "credit c rate dev t m \<le> credit c rate dev t l"
    using reclaim_ok [OF ok, of t] credit_reclaim [OF ok t rate enough, of dev] limiter_ok_later [OF reclaim_ok(1) [OF ok] t]
    unfolding m_def by auto
  have slack: "0 \<le> of_nat c * ulp" using ulp_pos by simp
  have "limiter_ok c rate t l' \<and> idleTimeoutMs l' = idleTimeoutMs l \<and> maxDevices l' = maxDevices l \<and>
    (if r \<and> i = dev then n else 0) + credit c rate dev t l' \<le>
       credit c rate dev t l + (if i = dev then 2 * of_nat c * ulp else 0)"
  proof (cases "map_of (buckets m) i = None \<and> maxDevices m \<le> length (buckets m)")
    case True
    then have "r = False" "l' = m" using run by (auto simp: limiter_tryConsume_def m_def [symmetric] Let_def)
    with m less slack show ?thesis by auto
  next
    case False
    define b where "b = (case map_of (buckets m) i of Some b \<Rightarrow> b | None \<Rightarrow> new_bucket (of_nat c) rate t)"
    obtain b' where b': "bucket_tryConsume n t b = (r, b')"
      and l': "l' = m\<lparr>buckets := AList.update i b' (buckets m), lastSeen := AList.update i t (lastSeen m)\<rparr>"
    proof -
      have params: "lm_capacity m = of_nat c" "lm_refillPerSecond m = rate" using m(1) by (simp_all add: limiter_ok_def)
      have "(case map_of (buckets m) i of Some b \<Rightarrow> Some b
          | None \<Rightarrow> if length (buckets m) \<ge> maxDevices m then None
                    else Some (new_bucket (lm_capacity m) (lm_refillPerSecond m) t)) = Some b"
        using False params by (cases "map_of (buckets m) i") (auto simp: b_def)
      then have "(case bucket_tryConsume n t b of (ok, bucket') \<Rightarrow>
          (ok, m\<lparr>buckets := AList.update i bucket' (buckets m), lastSeen := AList.update i t (lastSeen m)\<rparr>)) = (r, l')"
        using run by (simp add: limiter_tryConsume_def m_def [symmetric])
      then show thesis by (cases "bucket_tryConsume n t b") (auto intro: that)
    qed
    have b: "bucket_ok c rate b" "bk_lastRefill b \<le> t"
      using m(1) by (auto simp: b_def limiter_ok_def new_bucket_def bucket_ok_def split: option.splits dest!: map_of_SomeD)
    note step = bucket_step [OF b(1) c rate b(2) n b']
    have "i \<in> fst ` set (buckets m) \<or> length (buckets m) < maxDevices m"
      using False by (auto simp: map_of_eq_None_iff)
    then have "limiter_ok c rate t l'"
      using m(1) step(1,2) l' set_update_subset [of i b' "buckets m"]
      by (auto simp: limiter_ok_def map_update length_update AList.distinct_update)
    moreover have "idleTimeoutMs l' = idleTimeoutMs l" "maxDevices l' = maxDevices l" using m(2,3) l' by simp_all
    moreover have "(if r \<and> i = dev then n else 0) + credit c rate dev t l' \<le>
         credit c rate dev t l + (if i = dev then 2 * of_nat c * ulp else 0)"
    proof (cases "i = dev")
      case True
      have "credit c rate dev t m = bk_tokens b + accrued rate (t - bk_lastRefill b)"
        by (simp add: credit_def b_def True new_bucket_def accrued_def split: option.splits)
      with step(2,3) less True show ?thesis by (simp add: credit_def l' AList.update_conv' accrued_def split: if_splits)
    next
      case False
      then show ?thesis using less by (simp add: credit_def l' AList.update_conv')
    qed
    ultimately show ?thesis by blast
  qed
  then show "limiter_ok c rate t l'" "idleTimeoutMs l' = idleTimeoutMs l" "maxDevices l' = maxDevices l"
    "(if r \<and> i = dev then n else 0) + credit c rate dev t l' \<le>
       credit c rate dev t l + (if i = dev then 2 * of_nat c * ulp else 0)" by blast+
qed

section \<open>Whole runs\<close>

type_synonym uplink = "jsstring \<times> rat \<times> int"

fun admitted :: "jsstring \<Rightarrow> uplink list \<Rightarrow> PerDeviceLimiter \<Rightarrow> rat" where
  "admitted dev [] l = 0"
| "admitted dev ((i, n, t) # calls) l =
     (case limiter_tryConsume i n t l of (ok, l') \<Rightarrow> (if ok \<and> i = dev then n else 0) + admitted dev calls l')"

fun after_calls :: "uplink list \<Rightarrow> PerDeviceLimiter \<Rightarrow> PerDeviceLimiter" where
  "after_calls [] l = l"
| "after_calls ((i, n, t) # calls) l = after_calls calls (snd (limiter_tryConsume i n t l))"

abbreviation call_time :: "uplink \<Rightarrow> int" where "call_time \<equiv> \<lambda>(i, n, t). t"
abbreviation call_cost :: "uplink \<Rightarrow> rat" where "call_cost \<equiv> \<lambda>(i, n, t). n"

lemma admitted_credit:
  assumes "limiter_ok c rate now l" "1 \<le> c" "c < 2 ^ 53" "1 \<le> rate" "of_nat c \<le> rate * of_int (idleTimeoutMs l) / 1000"
    and "sorted (map call_time calls)" "\<forall>x \<in> set calls. now \<le> call_time x \<and> call_time x \<le> late \<and> 0 \<le> call_cost x"
    and "now \<le> late"
  shows "admitted dev calls l \<le> credit c rate dev now l + accrued rate (late - now)
     + 2 * of_nat c * ulp * of_nat (length (filter (\<lambda>x. fst x = dev) calls)) \<and>
     length (buckets (after_calls calls l)) \<le> maxDevices l"
  using assms
proof (induction calls arbitrary: now l)
  case Nil
  then have "0 \<le> credit c rate dev now l"
    by (auto simp: credit_def limiter_ok_def bucket_ok_def split: option.splits dest!: map_of_SomeD
        intro!: add_nonneg_nonneg accrued_nonneg)
  with Nil accrued_nonneg [of rate "late - now"] show ?case by (simp add: limiter_ok_def)
next
  case (Cons x calls)
  obtain i n t where x: "x = (i, n, t)" by (cases x)
  obtain r l' where run: "limiter_tryConsume i n t l = (r, l')" by fastforce
  have t: "now \<le> t" "t \<le> late" "0 \<le> n" using Cons.prems(7) x by auto
  note step = limiter_step [OF Cons.prems(1) t(1) Cons.prems(2-4) t(3) Cons.prems(5) run]
  have "admitted dev calls l' \<le> credit c rate dev t l' + accrued rate (late - t)
      + 2 * of_nat c * ulp * of_nat (length (filter (\<lambda>x. fst x = dev) calls)) \<and>
      length (buckets (after_calls calls l')) \<le> maxDevices l'"
    using Cons.prems x t step(1,2) by (intro Cons.IH) auto
  moreover have "credit c rate dev t l \<le> credit c rate dev now l + accrued rate (t - now)"
    using credit_later [OF t(1)] Cons.prems(4) by simp
  moreover have "accrued rate (t - now) + accrued rate (late - t) = accrued rate (late - now)"
    by (simp flip: accrued_add)
  ultimately show ?case using step(3) step(4) [of dev] x run by (auto simp: algebra_simps)
qed

text \<open>C31. The limiter bounds every device. Over any sequence of calls with a clock that does not go back, on a fresh limiter that grants at
  least one token per second and whose idle timeout is long enough to refill an empty bucket (the burst is at most the rate times the timeout),
  a device is admitted at most its burst plus its rate times the time the
  sequence spans. The rounding errors of the double arithmetic are included: a relative error of \<open>2 ^ (-53)\<close> in each of the two operations of a refill, and
  \<open>2 ^ (-52)\<close> times the burst for every call. The table never holds more than its maximum number of devices. (The configuration
  does not enforce the condition on the timeout: with rate 1 and burst 100 a full table reclaims a bucket idle for a minute and the device
  starts again with a full burst.)\<close>

theorem limiter_bounds_devices:
  assumes "1 \<le> c" "c < 2 ^ 53" "1 \<le> rate" "of_nat c \<le> rate * of_int idle / 1000"
    and "sorted (map call_time calls)" "\<forall>x \<in> set calls. 0 \<le> call_cost x" "calls \<noteq> []"
  shows "admitted dev calls (new_limiter (of_nat c) rate (Some idle) (Some devs)) \<le>
       of_nat c + accrued rate (call_time (last calls) - call_time (hd calls))
       + 2 * of_nat c * ulp * of_nat (length (filter (\<lambda>x. fst x = dev) calls)) \<and>
     length (buckets (after_calls calls (new_limiter (of_nat c) rate (Some idle) (Some devs)))) \<le> devs"
proof -
  let ?l = "new_limiter (of_nat c) rate (Some idle) (Some devs)"
  have "\<forall>x \<in> set calls. call_time (hd calls) \<le> call_time x \<and> call_time x \<le> call_time (last calls)"
    using assms(5,7) by (induction calls) auto
  moreover have "call_time (hd calls) \<le> call_time (last calls)" using calculation assms(7) by auto
  ultimately have "admitted dev calls ?l \<le> credit c rate dev (call_time (hd calls)) ?l
       + accrued rate (call_time (last calls) - call_time (hd calls))
       + 2 * of_nat c * ulp * of_nat (length (filter (\<lambda>x. fst x = dev) calls)) \<and>
     length (buckets (after_calls calls ?l)) \<le> maxDevices ?l"
    using assms by (intro admitted_credit [OF limiter_ok_new]) (auto simp: new_limiter_def)
  then show ?thesis by (simp add: credit_def new_limiter_def)
qed

definition ex_calls :: "uplink list" where
  "ex_calls = [([1], 60, 0), ([1], 60, 100), ([2], 5, 100), ([1], 42, 200)]"

theorem limiter_bounds_devices_witness:
  "admitted [1] ex_calls (new_limiter (of_nat 100) 20 (Some 60000) (Some 10000)) \<le>
     of_nat 100 + accrued 20 200 + 2 * of_nat 100 * ulp * 3"
  using limiter_bounds_devices [of 100 20 60000 ex_calls "[1]" 10000] by (simp add: ex_calls_def)


text \<open>With a clock that is set back the bound fails: the refill of a second is granted again each time the
  clock passes it, because \<^const>\<open>refill\<close> takes the earlier reading as its new reference.\<close>

lemma clock_set_back_exceeds:
  "admitted [1] [([1], 1, 0), ([1], 1, 1000), ([1], 1, 0), ([1], 1, 1000)] (new_limiter 1 1 None None) = 3"
  by (simp add: new_limiter_def limiter_tryConsume_def reclaim_def bucket_tryConsume_def refill_def new_bucket_def)

text \<open>With an idle timeout too short to refill a bucket, which rate 1 and burst 100 give with the default timeout of a minute, a
  full table forgets that the device has spent its burst and grants it again.\<close>

theorem short_idle_regrants_burst:
  "admitted [1] [([1], 100, 0), ([2], 100, 0), ([3], 100, 60001), ([1], 100, 60001)] (new_limiter 100 1 None (Some 2)) = 200 \<and>
   100 + accrued 1 60001 + 2 * 100 * ulp * 2 < 200"
proof
  show "admitted [1] [([1], 100, 0), ([2], 100, 0), ([3], 100, 60001), ([1], 100, 60001)] (new_limiter 100 1 None (Some 2)) = 200"
    by (simp add: new_limiter_def limiter_tryConsume_def reclaim_def bucket_tryConsume_def refill_def new_bucket_def Let_def fl_nat [of 100, simplified])
qed (simp add: accrued_def ulp_def power2_eq_square)

end
