(* ===== verification/CircuitBreaker.thy ===== *)
theory CircuitBreaker
  imports Prelude
begin

text \<open>
  The circuit breaker of the plugin manager (\<^verbatim>\<open>plugin-manager/src/manager/circuit.ts\<close>): after five failures in a row
  calls to a plugin installation stop for thirty seconds, then one probe at a time is let through. The state is the map of circuits;
  a probe that is lost is given up after a timeout and idle circuits are forgotten. The key is
  \<^verbatim>\<open>pluginId\0installationId\<close>.
\<close>

section \<open>Operations\<close>

record PluginCircuit =
  failures :: nat
  openedAt :: int
  probeInProgress :: bool
  probeStartedAt :: "int option"
  lastTouchedAt :: "int option"

type_synonym circuits = "jsstring \<rightharpoonup> PluginCircuit"

definition PLUGIN_CIRCUIT_IDLE_RETENTION_MS :: int where "PLUGIN_CIRCUIT_IDLE_RETENTION_MS = 10 * 60000"
definition PLUGIN_CIRCUIT_PROBE_TIMEOUT_MS :: int where "PLUGIN_CIRCUIT_PROBE_TIMEOUT_MS = 35000"

definition or_default :: "'a option \<Rightarrow> 'a \<Rightarrow> 'a" where
  "or_default x y = (case x of Some v \<Rightarrow> v | None \<Rightarrow> y)"

definition drop_lost_probe :: "int \<Rightarrow> PluginCircuit \<Rightarrow> PluginCircuit" where
  "drop_lost_probe now c =
     (if probeInProgress c \<and>
         now - or_default (probeStartedAt c) (or_default (lastTouchedAt c) (openedAt c)) \<ge> PLUGIN_CIRCUIT_PROBE_TIMEOUT_MS
      then c\<lparr>probeInProgress := False, probeStartedAt := None\<rparr> else c)"

definition idle_circuit :: "int \<Rightarrow> PluginCircuit \<Rightarrow> bool" where
  "idle_circuit now c \<longleftrightarrow> \<not> probeInProgress c \<and>
     now - or_default (lastTouchedAt c) (openedAt c) \<ge> PLUGIN_CIRCUIT_IDLE_RETENTION_MS"

definition circuitAllows :: "int \<Rightarrow> jsstring \<Rightarrow> circuits \<Rightarrow> bool \<times> circuits" where
  "circuitAllows now key m =
     (case m key of
        None \<Rightarrow> (True, m)
      | Some c0 \<Rightarrow>
          let c1 = drop_lost_probe now c0 in
          if idle_circuit now c1 then (True, m(key := None))
          else
            let c = c1\<lparr>lastTouchedAt := Some now\<rparr> in
            if failures c < 5 then (True, m(key \<mapsto> c))
            else if now - openedAt c < 30000 then (False, m(key \<mapsto> c))
            else if probeInProgress c then (False, m(key \<mapsto> c))
            else (True, m(key \<mapsto> c\<lparr>probeInProgress := True, probeStartedAt := Some now\<rparr>)))"

definition circuitFailure :: "int \<Rightarrow> jsstring \<Rightarrow> circuits \<Rightarrow> circuits" where
  "circuitFailure now key m =
     (let c0 = or_default (m key) \<lparr>failures = 0, openedAt = 0, probeInProgress = False, probeStartedAt = None,
                                lastTouchedAt = Some now\<rparr>;
          c = c0\<lparr>failures := failures c0 + 1, probeInProgress := False, probeStartedAt := None,
                 lastTouchedAt := Some now\<rparr> in
      m(key \<mapsto> (if failures c \<ge> 5 then c\<lparr>openedAt := now\<rparr> else c)))"

definition circuitSuccess :: "jsstring \<Rightarrow> circuits \<Rightarrow> circuits" where
  "circuitSuccess key m = m(key := None)"

definition circuitReleaseProbe :: "int \<Rightarrow> jsstring \<Rightarrow> circuits \<Rightarrow> circuits" where
  "circuitReleaseProbe now key m =
     (case m key of
        None \<Rightarrow> m
      | Some c \<Rightarrow> m(key \<mapsto> c\<lparr>probeInProgress := False, probeStartedAt := None, lastTouchedAt := Some now\<rparr>))"

definition pruneCircuits :: "int \<Rightarrow> circuits \<Rightarrow> circuits" where
  "pruneCircuits now m key =
     (case m key of
        None \<Rightarrow> None
      | Some c0 \<Rightarrow> let c = drop_lost_probe now c0 in if idle_circuit now c then None else Some c)"

section \<open>Runs\<close>

datatype circuit_op = Allow jsstring | Failure jsstring | Success jsstring | Release jsstring | Prune

fun apply_op :: "int \<Rightarrow> circuit_op \<Rightarrow> circuits \<Rightarrow> circuits" where
  "apply_op t (Allow k) m = snd (circuitAllows t k m)"
| "apply_op t (Failure k) m = circuitFailure t k m"
| "apply_op t (Success k) m = circuitSuccess k m"
| "apply_op t (Release k) m = circuitReleaseProbe t k m"
| "apply_op t Prune m = pruneCircuits t m"

fun run_ops :: "(int \<times> circuit_op) list \<Rightarrow> circuits \<Rightarrow> circuits" where
  "run_ops [] m = m"
| "run_ops ((t, x) # xs) m = run_ops xs (apply_op t x m)"

text \<open>The outcome of a call to a key is one of these; everything else leaves the call pending.\<close>

fun settles :: "jsstring \<Rightarrow> circuit_op \<Rightarrow> bool" where
  "settles k (Failure k') = (k' = k)"
| "settles k (Success k') = (k' = k)"
| "settles k (Release k') = (k' = k)"
| "settles k x = False"

section \<open>Open circuits\<close>

text \<open>An open circuit, kept closed to calls until \<open>until\<close>: either it opened less than thirty seconds before, or its probe is running.\<close>

definition shut :: "jsstring \<Rightarrow> int \<Rightarrow> int \<Rightarrow> circuits \<Rightarrow> bool" where
  "shut k t until m \<longleftrightarrow> (\<exists>c. m k = Some c \<and> 5 \<le> failures c \<and>
     (\<exists>l. lastTouchedAt c = Some l \<and> l \<le> t \<and> until \<le> l + PLUGIN_CIRCUIT_IDLE_RETENTION_MS) \<and>
     (until \<le> openedAt c + 30000 \<and> \<not> probeInProgress c \<or>
      probeInProgress c \<and> (\<exists>s. probeStartedAt c = Some s \<and> until \<le> s + PLUGIN_CIRCUIT_PROBE_TIMEOUT_MS)))"

lemmas circuit_defs = PLUGIN_CIRCUIT_IDLE_RETENTION_MS_def PLUGIN_CIRCUIT_PROBE_TIMEOUT_MS_def or_default_def
  drop_lost_probe_def idle_circuit_def

lemma shut_step:
  assumes "shut k t until m" "t \<le> t'" "t' < until" "\<not> settles k x"
  shows "shut k t' until (apply_op t' x m)"
proof (cases x)
  case (Allow k')
  show ?thesis
  proof (cases "k' = k")
    case True
    then show ?thesis using assms Allow by (auto simp: shut_def circuitAllows_def circuit_defs Let_def split: option.splits)
  next
    case False
    then have "snd (circuitAllows t' k' m) k = m k"
      by (auto simp: circuitAllows_def Let_def split: option.splits)
    with assms Allow show ?thesis by (auto simp: shut_def)
  qed
next
  case Prune
  with assms show ?thesis by (auto simp: shut_def pruneCircuits_def circuit_defs Let_def split: option.splits)
qed (use assms in \<open>auto simp: shut_def circuitFailure_def circuitSuccess_def circuitReleaseProbe_def Let_def split: option.splits\<close>)

lemma shut_refuses:
  assumes "shut k t until m" "t \<le> t'" "t' < until"
  shows "\<not> fst (circuitAllows t' k m)"
  using assms by (auto simp: shut_def circuitAllows_def circuit_defs Let_def split: option.splits)

lemma shut_run:
  assumes "shut k t until m" "sorted (t # map fst xs)" "\<forall>(t', x) \<in> set xs. t' < until \<and> \<not> settles k x"
  shows "shut k (last (t # map fst xs)) until (run_ops xs m)"
  using assms
proof (induction xs arbitrary: t m)
  case (Cons p xs)
  obtain t' x where p: "p = (t', x)" by fastforce
  have "shut k t' until (apply_op t' x m)" using Cons.prems p by (intro shut_step [of k t]) auto
  with Cons p show ?case by auto
qed simp


lemma failure_shuts:
  assumes "5 \<le> failures (the (circuitFailure t k m k))"
  shows "shut k t (t + 30000) (circuitFailure t k m)"
  using assms by (auto simp: shut_def circuitFailure_def circuit_defs Let_def split: if_splits)

lemma probe_shuts:
  assumes "circuitAllows t k m = (True, m')" "m' k = Some c" "5 \<le> failures c"
  shows "shut k t (t + PLUGIN_CIRCUIT_PROBE_TIMEOUT_MS) m'"
  using assms by (auto simp: shut_def circuitAllows_def circuit_defs Let_def split: option.splits if_splits)

text \<open>The contract of the circuit breaker. Once a failure leaves a circuit with five or more failures in a row, every call for the
  installation is refused for the next thirty seconds; once a probe is let through an open circuit, every further call is refused
  until the probe is settled or thirty-five seconds have passed. Neither depends on what other installations do or on pruning in between.
  After the thirty seconds, with no probe running, the next call is let through.\<close>

theorem circuit_breaker_contract:
  assumes "sorted (t # map fst xs @ [t'])" "\<forall>(s, x) \<in> set xs. \<not> settles k x"
  shows "(5 \<le> failures (the (circuitFailure t k m k)) \<and> t' < t + 30000 \<longrightarrow>
       \<not> fst (circuitAllows t' k (run_ops xs (circuitFailure t k m)))) \<and>
     (fst (circuitAllows t k m) \<and> snd (circuitAllows t k m) k = Some c \<and> 5 \<le> failures c \<and> t' < t + 35000 \<longrightarrow>
       \<not> fst (circuitAllows t' k (run_ops xs (snd (circuitAllows t k m))))) \<and>
     (m k = Some c \<and> openedAt c + 30000 \<le> t \<and> \<not> probeInProgress c \<longrightarrow> fst (circuitAllows t k m))"
proof (intro conjI impI)
  have sorted: "sorted (t # map fst xs)" and last: "last (t # map fst xs) \<le> t'"
    using assms(1) by (auto simp: sorted_append last_map)
  have less: "\<forall>(s, x) \<in> set xs. s < until \<and> \<not> settles k x" if "t' < until" for until
    using assms that by (fastforce simp: sorted_append)
  show "\<not> fst (circuitAllows t' k (run_ops xs (circuitFailure t k m)))"
    if "5 \<le> failures (the (circuitFailure t k m k)) \<and> t' < t + 30000"
    using that shut_refuses [OF shut_run [OF failure_shuts sorted less] last] by blast
  show "\<not> fst (circuitAllows t' k (run_ops xs (snd (circuitAllows t k m))))"
    if "fst (circuitAllows t k m) \<and> snd (circuitAllows t k m) k = Some c \<and> 5 \<le> failures c \<and> t' < t + 35000"
  proof -
    from that have "shut k t (t + 35000) (snd (circuitAllows t k m))"
      using probe_shuts [of t k m] unfolding PLUGIN_CIRCUIT_PROBE_TIMEOUT_MS_def by (metis prod.collapse)
    with that show ?thesis using shut_refuses [OF shut_run [OF _ sorted less] last] by blast
  qed
  show "fst (circuitAllows t k m)" if "m k = Some c \<and> openedAt c + 30000 \<le> t \<and> \<not> probeInProgress c"
    using that by (auto simp: circuitAllows_def drop_lost_probe_def Let_def)
qed

definition ex_circuits :: circuits where
  "ex_circuits = (\<lambda>k. if k = [1] then Some \<lparr>failures = 4, openedAt = 0, probeInProgress = False, probeStartedAt = None,
     lastTouchedAt = Some 50\<rparr> else None)"

text \<open>The fifth failure at time 100; another installation succeeds and the table is pruned before the next call at time 20000.\<close>

theorem circuit_breaker_contract_witness:
  "\<not> fst (circuitAllows 20000 [1] (run_ops [(150, Success [2]), (200, Prune)] (circuitFailure 100 [1] ex_circuits)))"
  using circuit_breaker_contract [of 100 "[(150, Success [2]), (200, Prune)]" 20000 "[1]" ex_circuits]
  by (simp add: ex_circuits_def circuitFailure_def or_default_def)

end
