(* ===== verification/Base64.thy ===== *)
theory Base64
  imports Prelude
begin

text \<open>
  Base64 as \<^verbatim>\<open>Buffer.toString("base64")\<close> and \<^verbatim>\<open>Buffer.from(text, "base64")\<close> produce and read it, used for binary entity values.
  Three bytes become four characters of the alphabet; the rest is padded with \<open>=\<close>. The decoder stops at the padding.
\<close>

definition b64_char :: "nat \<Rightarrow> nat" where
  "b64_char n = (if n < 26 then 65 + n else if n < 52 then 71 + n else if n < 62 then n - 4 else if n = 62 then 43 else 47)"

definition b64_value :: "nat \<Rightarrow> nat" where
  "b64_value c = (if 65 \<le> c \<and> c \<le> 90 then c - 65 else if 97 \<le> c \<and> c \<le> 122 then c - 71
     else if 48 \<le> c \<and> c \<le> 57 then c + 4 else if c = 43 then 62 else 63)"

abbreviation b64_pad :: nat where "b64_pad \<equiv> 61"

fun b64_encode :: "bytes \<Rightarrow> jsstring" where
  "b64_encode (a # b # c # bs) =
     (let n = unat a * 65536 + unat b * 256 + unat c in
      b64_char (n div 262144) # b64_char (n div 4096 mod 64) # b64_char (n div 64 mod 64) # b64_char (n mod 64)
      # b64_encode bs)"
| "b64_encode [a, b] =
     (let n = unat a * 65536 + unat b * 256 in
      [b64_char (n div 262144), b64_char (n div 4096 mod 64), b64_char (n div 64 mod 64), b64_pad])"
| "b64_encode [a] =
     (let n = unat a * 65536 in [b64_char (n div 262144), b64_char (n div 4096 mod 64), b64_pad, b64_pad])"
| "b64_encode [] = []"

fun b64_decode :: "jsstring \<Rightarrow> bytes" where
  "b64_decode (w # x # y # z # cs) =
     (let n = b64_value w * 262144 + b64_value x * 4096 + b64_value y * 64 + b64_value z in
      if y = b64_pad then [of_nat ((b64_value w * 64 + b64_value x) div 16)]
      else if z = b64_pad then
        [of_nat ((b64_value w * 4096 + b64_value x * 64 + b64_value y) div 1024), of_nat ((b64_value w * 4096 + b64_value x * 64 + b64_value y) div 4)]
      else of_nat (n div 65536) # of_nat (n div 256) # of_nat n # b64_decode cs)"
| "b64_decode cs = []"

lemma b64_value_char [simp]: "n < 64 \<Longrightarrow> b64_value (b64_char n) = n"
  by (auto simp: b64_value_def b64_char_def)

lemma b64_char_not_pad [simp]: "n < 64 \<Longrightarrow> b64_char n \<noteq> b64_pad"
  by (auto simp: b64_char_def)

lemma byte_of_nat: "n mod 256 = unat a \<Longrightarrow> of_nat n = (a :: byte)"
  by (rule word_unat_eq_iff [THEN iffD2]) (simp add: unat_of_nat)

text \<open>Digits put together again, and bytes taken apart.\<close>

lemma split_byte: "c < 256 \<Longrightarrow> (x * 256 + c) div 256 = x" "c < 256 \<Longrightarrow> (x * 256 + c) mod 256 = (c :: nat)"
  by simp_all

lemma digits4: "n div 262144 * 262144 + n div 4096 mod 64 * 4096 + n div 64 mod 64 * 64 + n mod 64 = (n :: nat)"
proof -
  have d: "n div 4096 = n div 64 div 64" "n div 262144 = n div 64 div 64 div 64" by (simp_all flip: div_mult2_eq)
  have "n div 64 div 64 div 64 * 64 + n div 64 div 64 mod 64 = n div 64 div 64"
    "n div 64 div 64 * 64 + n div 64 mod 64 = n div 64" "n div 64 * 64 + n mod 64 = n" by (rule div_mult_mod_eq)+
  then show ?thesis unfolding d by linarith
qed

lemma b64_roundtrip: "b64_decode (b64_encode bs) = bs"
proof (induction bs rule: b64_encode.induct)
  case (1 a b c bs)
  define n where "n = unat a * 65536 + unat b * 256 + unat c"
  have n: "n = (unat a * 256 + unat b) * 256 + unat c" by (simp add: n_def)
  note less = unat_byte [of a] unat_byte [of b] unat_byte [of c]
  have "n div 262144 < 64" using less by (simp add: n_def)
  then have "b64_decode (b64_encode (a # b # c # bs)) = of_nat (n div 65536) # of_nat (n div 256) # of_nat n # bs"
    using 1 digits4 [of n] by (simp add: Let_def n_def [symmetric])
  moreover have d: "n div 256 = unat a * 256 + unat b" "n mod 256 = unat c" unfolding n by (rule split_byte [OF less(3)])+
  have "n div 65536 = n div 256 div 256" by (simp flip: div_mult2_eq)
  then have m: "n div 65536 mod 256 = unat a" "n div 256 mod 256 = unat b"
    using less d split_byte [OF less(2), of "unat a"] by simp_all
  have "of_nat (n div 65536) = a" "of_nat (n div 256) = b" "of_nat n = c"
    using byte_of_nat [OF m(1)] byte_of_nat [OF m(2)] byte_of_nat [OF d(2)] .
  ultimately show ?case by simp
next
  case (2 a b)
  define n where "n = unat a * 65536 + unat b * 256"
  note less = unat_byte [of a] unat_byte [of b]
  have "n div 262144 < 64" using less by (simp add: n_def)
  have "n mod 64 = 0" by (simp add: n_def mod_eq_0_iff_dvd dvd_add dvd_mult)
  with digits4 [of n] have k: "n div 262144 * 4096 + n div 4096 mod 64 * 64 + n div 64 mod 64 = (unat a * 256 + unat b) * 4"
    (is "?k = _") by (simp add: n_def)
  have "(unat a * 256 + unat b) * 4 div 1024 = (unat a * 256 + unat b) * 4 div 4 div 256" by (simp flip: div_mult2_eq)
  then have m: "?k div 1024 mod 256 = unat a" "?k div 4 mod 256 = unat b"
    unfolding k using less split_byte [OF less(2), of "unat a"] by simp_all
  show ?case using byte_of_nat [OF m(1)] byte_of_nat [OF m(2)] \<open>n div 262144 < 64\<close> by (simp add: Let_def n_def [symmetric])
next
  case (3 a)
  define n where "n = unat a * 65536"
  note less = unat_byte [of a]
  have "n div 262144 < 64" using less by (simp add: n_def)
  have "n mod 64 = 0" "n div 64 mod 64 = 0" by (simp_all add: n_def)
  with digits4 [of n] have "n div 262144 * 64 + n div 4096 mod 64 = unat a * 16" by (simp add: n_def)
  then show ?case using less \<open>n div 262144 < 64\<close> by (simp add: Let_def n_def [symmetric] byte_of_nat)
qed simp

lemma b64_inject: "b64_encode a = b64_encode b \<longleftrightarrow> a = b"
  by (metis b64_roundtrip)

end
