(* ===== verification/PluginEntities.thy ===== *)
theory PluginEntities
  imports Schema Base64
begin

text \<open>
  Entities of plugins (\<^verbatim>\<open>core/src/plugins/entities.ts\<close>): the registry of descriptor revisions of an installation,
  the current value of every entity of a device and its history. Also the whole database of the plugin platform, whose core
  tables are those of theory Schema. \<^verbatim>\<open>new Date(text)\<close> is the argument \<open>parse\<close> of the update.
\<close>

section \<open>Tables\<close>

datatype value_type = VNumber | VBoolean | VString | VEnum | VBinary
datatype category = CPrimary | CDiagnostic | CConfiguration | CMeasurement | CCounter
datatype history_mode = HNone | HChanges | HSampled | HAll
datatype quality = QGood | QBad | QUncertain | QStale | QUnknown
datatype alarm_level = ALInfo | ALWarning | ALCritical

record EntityDescriptorInput =
  ed_key :: jsstring
  ed_valueType :: value_type
  ed_category :: category
  ed_unit :: "jsstring option"
  ed_enumValues :: "jsstring list option"
  ed_staleAfterSeconds :: "int option"
  ed_history :: "history_mode option"

record entity_descriptor =
  dr_id :: uuid
  dr_installation :: uuid
  dr_profile :: jsstring
  dr_profileVersion :: int
  dr_key :: jsstring
  dr_revision :: int
  dr_valueType :: value_type
  dr_category :: category
  dr_unit :: "jsstring option"
  dr_enumValues :: "jsstring list option"
  dr_staleAfterSeconds :: "int option"
  dr_history :: history_mode
  dr_deprecated :: bool
  dr_created_at :: time

record entity_state =
  es_installation :: uuid
  es_device :: uuid
  es_key :: jsstring
  es_revision :: int
  es_value :: jsval
  es_quality :: quality
  es_sourceTimestamp :: "time option"
  es_sequence :: "int option"
  es_alarmLevel :: "alarm_level option"
  es_alarmCode :: "jsstring option"
  es_ingested_at :: time

datatype event_state = EvQueued | EvLeased | EvCompleted | EvDead

record plugin_event =
  pe_id :: uuid
  pe_eventId :: jsstring
  pe_device :: uuid
  pe_seq :: int
  pe_kind :: jsstring
  pe_schema :: int
  pe_payload :: bytes
  pe_received_at :: time
  pe_installation :: "uuid option"
  pe_pluginId :: "jsstring option"
  pe_pluginVersion :: "jsstring option"
  pe_manifestHash :: "jsstring option"
  pe_profileId :: "jsstring option"
  pe_profileVersion :: "int option"
  pe_config :: "jsval option"
  pe_state :: event_state
  pe_attempts :: int
  pe_available_at :: time
  pe_lease_expires_at :: "time option"
  pe_lease_token :: "jsstring option"
  pe_finished_at :: "time option"
  pe_last_error :: "jsstring option"

record ManifestProfile =
  mp_id :: jsstring
  mp_version :: int
  mp_entities :: "EntityDescriptorInput list"

record ManifestLike =
  mf_id :: jsstring
  mf_version :: jsstring
  mf_profiles :: "ManifestProfile list"

text \<open>A manifest snapshot; \<open>None\<close> is a stored manifest that \<^verbatim>\<open>parseManifest\<close> rejects.\<close>

record manifest_snapshot =
  sn_pluginId :: jsstring
  sn_pluginVersion :: jsstring
  sn_manifestHash :: jsstring
  sn_manifest :: "ManifestLike option"

record plugin_db =
  core_db :: db
  manifest_snapshots :: "manifest_snapshot list"
  descriptors :: "entity_descriptor list"
  entity_states :: "entity_state list"
  entity_history :: "(nat \<times> entity_state) list"
  plugin_events :: "plugin_event list"

datatype PluginError = PInstallationNotFound | PDeviceNotFound | POtherProject | PBindingChanged | PDisabled
  | PUndeclaredProfile | PManifestNotFound | PManifestInvalid | PManifestIdentity
  | PTooManyUpdates | PDuplicateUpdates | PUnknownEntity jsstring | PInvalidValue jsstring | PInvalidSequence
  | PInvalidTimestamp | PContextMismatch | PCommandTarget | PRange | PStoredValue | PDatabase

type_synonym 'a ptx = "PluginError + 'a \<times> plugin_db"

section \<open>The descriptor registry\<close>

definition sameStringArray :: "jsstring list option \<Rightarrow> jsstring list option \<Rightarrow> bool" where
  "sameStringArray left right =
     (case (left, right) of
        (Some l, Some r) \<Rightarrow> length l = length r \<and> list_all2 (=) l r
      | (None, None) \<Rightarrow> True
      | _ \<Rightarrow> False)"

definition sameDescriptor :: "entity_descriptor \<Rightarrow> EntityDescriptorInput \<Rightarrow> bool" where
  "sameDescriptor row d \<longleftrightarrow> dr_valueType row = ed_valueType d \<and> dr_category row = ed_category d \<and>
     dr_unit row = ed_unit d \<and> sameStringArray (dr_enumValues row) (ed_enumValues d) \<and>
     dr_staleAfterSeconds row = ed_staleAfterSeconds d \<and>
     dr_history row = (case ed_history d of None \<Rightarrow> HNone | Some h \<Rightarrow> h)"

text \<open>The scope of a descriptor: installation, profile and version.\<close>

definition in_profile :: "uuid \<Rightarrow> jsstring \<Rightarrow> int \<Rightarrow> entity_descriptor \<Rightarrow> bool" where
  "in_profile inst prof ver r \<longleftrightarrow> dr_installation r = inst \<and> dr_profile r = prof \<and> dr_profileVersion r = ver"

definition latest_of :: "entity_descriptor list \<Rightarrow> jsstring \<Rightarrow> entity_descriptor option" where
  "latest_of existing key =
     foldl (\<lambda>old row. if dr_key row = key \<and> (case old of None \<Rightarrow> True | Some x \<Rightarrow> dr_revision row > dr_revision x)
                      then Some row else old) None existing"

definition new_descriptor ::
    "(nat \<Rightarrow> uuid) \<Rightarrow> time \<Rightarrow> uuid \<Rightarrow> jsstring \<Rightarrow> int \<Rightarrow> int \<Rightarrow> nat \<Rightarrow> EntityDescriptorInput \<Rightarrow> entity_descriptor" where
  "new_descriptor newId t inst prof ver revision i d =
     \<lparr>dr_id = newId i, dr_installation = inst, dr_profile = prof, dr_profileVersion = ver, dr_key = ed_key d,
      dr_revision = revision, dr_valueType = ed_valueType d, dr_category = ed_category d, dr_unit = ed_unit d,
      dr_enumValues = ed_enumValues d, dr_staleAfterSeconds = ed_staleAfterSeconds d,
      dr_history = (case ed_history d of None \<Rightarrow> HNone | Some h \<Rightarrow> h), dr_deprecated = False, dr_created_at = t\<rparr>"

text \<open>The loop over the declared descriptors: identifiers to keep active, identifiers to deprecate, rows to create.\<close>

fun plan_descriptors ::
    "(nat \<Rightarrow> int \<Rightarrow> EntityDescriptorInput \<Rightarrow> entity_descriptor) \<Rightarrow> (jsstring \<Rightarrow> entity_descriptor option) \<Rightarrow> nat
       \<Rightarrow> EntityDescriptorInput list \<Rightarrow> uuid list \<times> uuid list \<times> entity_descriptor list" where
  "plan_descriptors mk latest n [] = ([], [], [])"
| "plan_descriptors mk latest n (d # ds) =
     (case latest (ed_key d) of
        Some old \<Rightarrow>
          if sameDescriptor old d
          then (case plan_descriptors mk latest n ds of (act, dep, new) \<Rightarrow> (dr_id old # act, dep, new))
          else (case plan_descriptors mk latest (Suc n) ds of (act, dep, new) \<Rightarrow>
                  (act, dr_id old # dep, mk n (dr_revision old + 1) d # new))
      | None \<Rightarrow> (case plan_descriptors mk latest (Suc n) ds of (act, dep, new) \<Rightarrow> (act, dep, mk n 1 d # new)))"

definition descriptor_slot :: "entity_descriptor \<Rightarrow> uuid \<times> jsstring \<times> int \<times> jsstring \<times> int" where
  "descriptor_slot r = (dr_installation r, dr_profile r, dr_profileVersion r, dr_key r, dr_revision r)"

definition insert_descriptors :: "entity_descriptor list \<Rightarrow> plugin_db \<Rightarrow> unit ptx" where
  "insert_descriptors rows d =
     (if distinct (map dr_id (descriptors d @ rows)) \<and> distinct (map descriptor_slot (descriptors d @ rows)) \<and>
         list_all (\<lambda>r. dr_revision r > 0 \<and> dr_revision r \<le> INT4_MAX \<and>
           dr_installation r \<in> iid ` set (plugin_installations (core_db d))) rows
      then Inr ((), d\<lparr>descriptors := descriptors d @ rows\<rparr>) else Inl PDatabase)"

definition set_deprecated :: "bool \<Rightarrow> (entity_descriptor \<Rightarrow> bool) \<Rightarrow> plugin_db \<Rightarrow> plugin_db" where
  "set_deprecated b p d =
     d\<lparr>descriptors := map (\<lambda>r. if p r then r\<lparr>dr_deprecated := b\<rparr> else r) (descriptors d)\<rparr>"

definition registerInTransaction ::
    "(nat \<Rightarrow> uuid) \<Rightarrow> time \<Rightarrow> uuid \<Rightarrow> jsstring \<Rightarrow> int \<Rightarrow> EntityDescriptorInput list \<Rightarrow> plugin_db \<Rightarrow> unit ptx" where
  "registerInTransaction newId t inst prof ver ds d =
     (let existing = sort_key dr_revision (filter (in_profile inst prof ver) (descriptors d));
          wanted = set (map ed_key ds);
          (active, superseded, new) =
            plan_descriptors (\<lambda>i rev x. new_descriptor newId t inst prof ver rev i x) (latest_of existing) 0 ds;
          deprecated = superseded @ map dr_id (filter (\<lambda>r. dr_key r \<notin> wanted) existing);
          d1 = set_deprecated True (\<lambda>r. dr_id r \<in> set deprecated) d;
          d2 = set_deprecated False (\<lambda>r. dr_id r \<in> set active) d1 in
      if new = [] then Inr ((), d2) else insert_descriptors new d2)"

definition installation_of :: "uuid \<Rightarrow> plugin_db \<Rightarrow> plugin_installation option" where
  "installation_of i d = find (\<lambda>x. iid x = i) (plugin_installations (core_db d))"

definition registerInstallationProfileEntities ::
    "(nat \<Rightarrow> uuid) \<Rightarrow> time \<Rightarrow> uuid \<Rightarrow> jsstring \<Rightarrow> int \<Rightarrow> EntityDescriptorInput list \<Rightarrow> plugin_db \<Rightarrow> unit ptx" where
  "registerInstallationProfileEntities newId t inst prof ver ds d =
     rbind (ensure (installation_of inst d \<noteq> None) PInstallationNotFound) (\<lambda>_.
       registerInTransaction newId t inst prof ver ds d)"

definition bound_profile :: "plugin_db \<Rightarrow> uuid \<Rightarrow> jsstring \<Rightarrow> int \<Rightarrow> bool" where
  "bound_profile d inst prof ver \<longleftrightarrow>
     list_ex (\<lambda>b. binstallation_id b = inst \<and> bprofile_id b = prof \<and> bprofile_version b = ver)
       (plugin_device_bindings (core_db d))"

definition deprecateUnboundInstallationProfiles :: "uuid \<Rightarrow> plugin_db \<Rightarrow> plugin_db" where
  "deprecateUnboundInstallationProfiles inst d =
     set_deprecated True (\<lambda>r. dr_installation r = inst \<and> \<not> bound_profile d (dr_installation r) (dr_profile r) (dr_profileVersion r)) d"

definition interpretable :: "plugin_db \<Rightarrow> entity_state \<Rightarrow> bool" where
  "interpretable d s \<longleftrightarrow>
     list_ex (\<lambda>b. bdevice_id b = es_device s \<and> binstallation_id b = es_installation s \<and>
       list_ex (\<lambda>r. in_profile (binstallation_id b) (bprofile_id b) (bprofile_version b) r \<and>
         dr_key r = es_key s \<and> dr_revision r = es_revision s \<and> \<not> dr_deprecated r) (descriptors d))
       (plugin_device_bindings (core_db d))"

definition deleteIncompatibleEntityStates :: "uuid \<Rightarrow> plugin_db \<Rightarrow> plugin_db" where
  "deleteIncompatibleEntityStates inst d =
     d\<lparr>entity_states := filter (\<lambda>s. \<not> (es_installation s = inst \<and> \<not> interpretable d s)) (entity_states d)\<rparr>"

section \<open>Values\<close>

datatype entity_value = EStr jsstring | ENum jsnum | EBool bool | EBin bytes

definition valueMatches :: "value_type \<Rightarrow> jsstring list option \<Rightarrow> entity_value \<Rightarrow> bool" where
  "valueMatches vt enumValues v =
     (case vt of
        VNumber \<Rightarrow> (case v of ENum (Fin _) \<Rightarrow> True | _ \<Rightarrow> False)
      | VBoolean \<Rightarrow> (case v of EBool _ \<Rightarrow> True | _ \<Rightarrow> False)
      | VString \<Rightarrow> (case v of EStr _ \<Rightarrow> True | _ \<Rightarrow> False)
      | VBinary \<Rightarrow> (case v of EBin _ \<Rightarrow> True | _ \<Rightarrow> False)
      | VEnum \<Rightarrow> (case (v, enumValues) of (EStr s, Some vs) \<Rightarrow> s \<in> set vs | _ \<Rightarrow> False))"

definition BINARY_KEY :: jsstring where "BINARY_KEY = js ''$binary''"

definition toJsonValue :: "entity_value \<Rightarrow> jsval" where
  "toJsonValue v = (case v of EStr s \<Rightarrow> JStr s | ENum x \<Rightarrow> JNum x | EBool b \<Rightarrow> JBool b
     | EBin bs \<Rightarrow> JObj [(BINARY_KEY, JStr (b64_encode bs))])"

definition binary_text :: "jsval \<Rightarrow> jsstring option" where
  "binary_text v = (case v of JObj ps \<Rightarrow> (case map_of ps BINARY_KEY of Some (JStr s) \<Rightarrow> Some s | _ \<Rightarrow> None) | _ \<Rightarrow> None)"

text \<open>\<^verbatim>\<open>Object.is\<close> on two objects read from different rows is false; on other values it is equality.\<close>

definition is_object :: "jsval \<Rightarrow> bool" where
  "is_object v = (case v of JObj _ \<Rightarrow> True | JArr _ \<Rightarrow> True | JBytes _ \<Rightarrow> True | _ \<Rightarrow> False)"

definition sameStoredValue :: "jsval \<Rightarrow> jsval \<Rightarrow> bool" where
  "sameStoredValue left right =
     (if \<not> is_object left \<and> left = right then True
      else if \<not> is_object left \<or> \<not> is_object right then False
      else binary_text left \<noteq> None \<and> binary_text left = binary_text right)"

datatype seq_input = SeqBig int | SeqNum jsnum

definition normalizeSequence :: "seq_input option \<Rightarrow> PluginError + int option" where
  "normalizeSequence s =
     (case s of
        None \<Rightarrow> Inr None
      | Some (SeqNum (Fin x)) \<Rightarrow>
          if of_int \<lfloor>x\<rfloor> = x \<and> \<bar>x\<bar> \<le> of_int MAX_SAFE_INTEGER \<and> x \<ge> 0 then Inr (Some \<lfloor>x\<rfloor>) else Inl PInvalidSequence
      | Some (SeqNum _) \<Rightarrow> Inl PInvalidSequence
      | Some (SeqBig i) \<Rightarrow> if i < 0 \<or> i > 2 ^ 64 - 1 then Inl PInvalidSequence else Inr (Some i))"

section \<open>Updates\<close>

text \<open>The alarm of an update is absent, \<^verbatim>\<open>null\<close> or given.\<close>

record EntityUpdateInput =
  eu_key :: jsstring
  eu_value :: "entity_value option"
  eu_quality :: "quality option"
  eu_sourceTimestamp :: "jsstring option"
  eu_sequence :: "seq_input option"
  eu_alarm :: "(alarm_level \<times> jsstring) option option"

record ApplyEntityUpdatesOptions =
  ao_installation :: uuid
  ao_device :: uuid
  ao_profile :: jsstring
  ao_profileVersion :: int
  ao_updates :: "EntityUpdateInput list"
  ao_snapshotDescriptors :: "EntityDescriptorInput list option"
  ao_writeCurrentState :: bool

text \<open>A JavaScript \<^verbatim>\<open>Map\<close> built from an array of pairs: the last entry of a key wins.\<close>

definition last_entry :: "('a \<Rightarrow> bool) \<Rightarrow> 'a list \<Rightarrow> 'a option" where
  "last_entry p xs = find p (rev xs)"

definition resolveEntityDescriptors :: "ApplyEntityUpdatesOptions \<Rightarrow> jsstring list \<Rightarrow> plugin_db \<Rightarrow> jsstring \<Rightarrow> entity_descriptor option" where
  "resolveEntityDescriptors opts keys d key =
     (let rows = rev (sort_key dr_revision
            (filter (\<lambda>r. in_profile (ao_installation opts) (ao_profile opts) (ao_profileVersion opts) r \<and> dr_key r \<in> set keys \<and>
               (ao_snapshotDescriptors opts = None \<longrightarrow> \<not> dr_deprecated r)) (descriptors d))) in
      case ao_snapshotDescriptors opts of
        None \<Rightarrow> last_entry (\<lambda>r. dr_key r = key) rows
      | Some decls \<Rightarrow>
          find (\<lambda>r. dr_key r = key \<and>
                (case last_entry (\<lambda>x. ed_key x = key) decls of None \<Rightarrow> False | Some x \<Rightarrow> sameDescriptor r x)) rows)"

definition find_state :: "uuid \<Rightarrow> uuid \<Rightarrow> jsstring \<Rightarrow> plugin_db \<Rightarrow> entity_state option" where
  "find_state inst dev key d =
     find (\<lambda>s. es_installation s = inst \<and> es_device s = dev \<and> es_key s = key) (entity_states d)"

definition updated_row :: "time \<Rightarrow> ApplyEntityUpdatesOptions \<Rightarrow> entity_descriptor \<Rightarrow> entity_state option \<Rightarrow> EntityUpdateInput
    \<Rightarrow> int option \<Rightarrow> time option \<Rightarrow> entity_state" where
  "updated_row t opts descriptor previous u seq stamp =
     \<lparr>es_installation = ao_installation opts, es_device = ao_device opts, es_key = eu_key u,
      es_revision = dr_revision descriptor,
      es_value = (case eu_value u of Some v \<Rightarrow> toJsonValue v | None \<Rightarrow> (case previous of Some p \<Rightarrow> es_value p | None \<Rightarrow> JNull)),
      es_quality = (case eu_quality u of Some q \<Rightarrow> q | None \<Rightarrow> (case previous of Some p \<Rightarrow> es_quality p | None \<Rightarrow> QUnknown)),
      es_sourceTimestamp = stamp, es_sequence = seq,
      es_alarmLevel = (case eu_alarm u of Some (Some (l, c)) \<Rightarrow> Some l | Some None \<Rightarrow> None
         | None \<Rightarrow> (case previous of Some p \<Rightarrow> es_alarmLevel p | None \<Rightarrow> None)),
      es_alarmCode = (case eu_alarm u of Some (Some (l, c)) \<Rightarrow> Some c | Some None \<Rightarrow> None
         | None \<Rightarrow> (case previous of Some p \<Rightarrow> es_alarmCode p | None \<Rightarrow> None)),
      es_ingested_at = t\<rparr>"

definition row_changed :: "entity_state option \<Rightarrow> entity_state \<Rightarrow> bool" where
  "row_changed previous row =
     (case previous of
        None \<Rightarrow> True
      | Some p \<Rightarrow> \<not> sameStoredValue (es_value p) (es_value row) \<or> es_quality p \<noteq> es_quality row \<or>
                  es_revision p \<noteq> es_revision row \<or> es_alarmLevel p \<noteq> es_alarmLevel row \<or> es_alarmCode p \<noteq> es_alarmCode row)"

definition stamp_of :: "(jsstring \<Rightarrow> time option) \<Rightarrow> entity_state option \<Rightarrow> EntityUpdateInput \<Rightarrow> PluginError + time option" where
  "stamp_of parse previous u =
     (case eu_sourceTimestamp u of
        None \<Rightarrow> Inr (case previous of Some p \<Rightarrow> es_sourceTimestamp p | None \<Rightarrow> None)
      | Some s \<Rightarrow> (case parse s of None \<Rightarrow> Inl PInvalidTimestamp | Some x \<Rightarrow> Inr (Some x)))"

definition plan_update ::
    "(jsstring \<Rightarrow> time option) \<Rightarrow> time \<Rightarrow> ApplyEntityUpdatesOptions \<Rightarrow> (jsstring \<Rightarrow> entity_descriptor option)
       \<Rightarrow> (jsstring \<Rightarrow> entity_state option) \<Rightarrow> EntityUpdateInput \<Rightarrow> PluginError + (entity_state \<times> bool) option" where
  "plan_update parse t opts byKey current u =
     (case byKey (eu_key u) of
        None \<Rightarrow> Inl (PUnknownEntity (eu_key u))
      | Some descriptor \<Rightarrow>
          rbind (ensure (case eu_value u of None \<Rightarrow> True
                         | Some v \<Rightarrow> valueMatches (dr_valueType descriptor) (dr_enumValues descriptor) v)
                   (PInvalidValue (eu_key u))) (\<lambda>_.
          rbind (normalizeSequence (eu_sequence u)) (\<lambda>seq.
          let previous = current (eu_key u) in
          if (case (previous, seq) of
                (Some p, Some s) \<Rightarrow> (case es_sequence p of None \<Rightarrow> False | Some s' \<Rightarrow> s \<le> s') | _ \<Rightarrow> False)
          then Inr None
          else
            rbind (stamp_of parse previous u) (\<lambda>stamp.
            let row = updated_row t opts descriptor previous u seq stamp in
            Inr (Some (row, dr_history descriptor = HAll \<or> (dr_history descriptor = HChanges \<and> row_changed previous row) \<or>
                   dr_history descriptor = HSampled))))))"

fun plan_updates ::
    "(EntityUpdateInput \<Rightarrow> PluginError + (entity_state \<times> bool) option) \<Rightarrow> EntityUpdateInput list
       \<Rightarrow> PluginError + (entity_state \<times> bool) list" where
  "plan_updates plan [] = Inr []"
| "plan_updates plan (u # us) =
     rbind (plan u) (\<lambda>r. rbind (plan_updates plan us) (\<lambda>rs.
       Inr (case r of None \<Rightarrow> rs | Some x \<Rightarrow> x # rs)))"

definition coalesce :: "'a option \<Rightarrow> 'a option \<Rightarrow> 'a option" where
  "coalesce x y = (case x of Some v \<Rightarrow> Some v | None \<Rightarrow> y)"

definition same_entity :: "entity_state \<Rightarrow> entity_state \<Rightarrow> bool" where
  "same_entity a b \<longleftrightarrow> es_installation a = es_installation b \<and> es_device a = es_device b \<and> es_key a = es_key b"

definition newer :: "entity_state \<Rightarrow> entity_state \<Rightarrow> bool" where
  "newer row old \<longleftrightarrow> (case (es_sequence row, es_sequence old) of (Some s, Some s') \<Rightarrow> s > s' | _ \<Rightarrow> True)"

definition merge_state :: "entity_state \<Rightarrow> entity_state \<Rightarrow> entity_state" where
  "merge_state row old =
     row\<lparr>es_sourceTimestamp := coalesce (es_sourceTimestamp row) (es_sourceTimestamp old),
         es_sequence := coalesce (es_sequence row) (es_sequence old)\<rparr>"

definition upsert_state :: "entity_state \<Rightarrow> entity_state list \<Rightarrow> entity_state list" where
  "upsert_state row ss =
     (if list_ex (same_entity row) ss
      then map (\<lambda>old. if same_entity row old \<and> newer row old then merge_state row old else old) ss
      else ss @ [row])"

definition state_fk :: "plugin_db \<Rightarrow> entity_state \<Rightarrow> bool" where
  "state_fk d s \<longleftrightarrow> es_installation s \<in> iid ` set (plugin_installations (core_db d)) \<and> es_device s \<in> did ` set (devices (core_db d))"

text \<open>
  The rows reach both statements as one JSON text that PostgreSQL casts to \<^verbatim>\<open>jsonb\<close>, from which the columns are cast. A \<^verbatim>\<open>jsonb\<close> string can hold
  neither U+0000 nor a lone surrogate, and a \<^verbatim>\<open>timestamptz\<close> is read from \<^verbatim>\<open>toISOString\<close> only for the years 1 to 9999 (the extended years
  have a sign).
\<close>

fun pg_text :: "jsstring \<Rightarrow> bool" where
  "pg_text [] = True"
| "pg_text (u # us) =
     (u \<noteq> 0 \<and>
      (if 0xd800 \<le> u \<and> u \<le> 0xdbff then
         (case us of [] \<Rightarrow> False | v # vs \<Rightarrow> 0xdc00 \<le> v \<and> v \<le> 0xdfff \<and> pg_text vs)
       else \<not> (0xdc00 \<le> u \<and> u \<le> 0xdfff) \<and> pg_text us))"

fun pg_json :: "jsval \<Rightarrow> bool" where
  "pg_json (JStr s) = pg_text s"
| "pg_json (JArr vs) = list_all pg_json vs"
| "pg_json (JObj ps) = list_all (\<lambda>p. pg_text (fst p) \<and> pg_json (snd p)) ps"
| "pg_json _ = True"

definition pg_stamp :: "time \<Rightarrow> bool" where
  "pg_stamp t \<longleftrightarrow> - 62135596800000 \<le> t \<and> t < 253402300800000"

definition row_storable :: "entity_state \<Rightarrow> bool" where
  "row_storable r \<longleftrightarrow> pg_text (es_key r) \<and> pg_json (es_value r) \<and>
     (case es_sourceTimestamp r of None \<Rightarrow> True | Some t \<Rightarrow> pg_stamp t) \<and> (case es_alarmCode r of None \<Rightarrow> True | Some c \<Rightarrow> pg_text c)"

definition upsertStateRows :: "entity_state list \<Rightarrow> plugin_db \<Rightarrow> unit ptx" where
  "upsertStateRows rows d =
     (if list_all row_storable rows \<and> list_all (state_fk d) rows
      then Inr ((), d\<lparr>entity_states := foldl (\<lambda>ss row. upsert_state row ss) (entity_states d) rows\<rparr>)
      else Inl PDatabase)"

definition insertHistoryRows :: "nat \<Rightarrow> entity_state list \<Rightarrow> plugin_db \<Rightarrow> unit ptx" where
  "insertHistoryRows serial rows d =
     (if list_all row_storable rows \<and> list_all (state_fk d) rows
      then Inr ((), d\<lparr>entity_history := entity_history d @ zip [serial..<serial + length rows] rows\<rparr>)
      else Inl PDatabase)"

definition applyEntityUpdates ::
    "(jsstring \<Rightarrow> time option) \<Rightarrow> time \<Rightarrow> nat \<Rightarrow> ApplyEntityUpdatesOptions \<Rightarrow> plugin_db \<Rightarrow> unit ptx" where
  "applyEntityUpdates parse t serial opts d =
     rbind (ensure (length (ao_updates opts) \<le> 4096) PTooManyUpdates) (\<lambda>_.
     let updates = sort_key eu_key (ao_updates opts); keys = map eu_key updates in
     rbind (ensure (card (set keys) = length keys) PDuplicateUpdates) (\<lambda>_.
     let byKey = resolveEntityDescriptors opts keys d;
         current = (\<lambda>key. if ao_writeCurrentState opts then find_state (ao_installation opts) (ao_device opts) key d else None) in
     rbind (plan_updates (plan_update parse t opts byKey current) updates) (\<lambda>rows.
     rbind (if ao_writeCurrentState opts then upsertStateRows (map fst rows) d else Inr ((), d)) (\<lambda>(_, d1).
       insertHistoryRows serial (map fst (filter snd rows)) d1))))"

end
