(* ===== verification/PluginInstallations.thy ===== *)
theory PluginInstallations
  imports PluginEntities DebugExecutions
begin

text \<open>
  Life cycle of plugin installations (\<^verbatim>\<open>core/src/plugins/installations.ts\<close>): creation, binding of devices, enabling and disabling,
  migration to another manifest version, reconciliation, and reading the current value of an entity. Every operation is one
  transaction that locks its installations and its device first, so it is atomic; only the read that finds out which
  installations to lock happens before, and its result is the argument \<open>observed\<close>.
\<close>

section \<open>Manifests\<close>

definition getSnapshot :: "jsstring \<Rightarrow> jsstring \<Rightarrow> jsstring \<Rightarrow> plugin_db \<Rightarrow> PluginError + manifest_snapshot" where
  "getSnapshot pluginId version hash d =
     (case find (\<lambda>s. sn_pluginId s = pluginId \<and> sn_pluginVersion s = version) (manifest_snapshots d) of
        None \<Rightarrow> Inl PManifestNotFound
      | Some s \<Rightarrow> if sn_manifestHash s \<noteq> hash then Inl PManifestNotFound else Inr s)"

definition parseManifest :: "manifest_snapshot \<Rightarrow> PluginError + ManifestLike" where
  "parseManifest s = (case sn_manifest s of None \<Rightarrow> Inl PManifestInvalid | Some m \<Rightarrow> Inr m)"

definition find_profile :: "jsstring \<Rightarrow> int \<Rightarrow> ManifestLike \<Rightarrow> ManifestProfile option" where
  "find_profile prof ver m = find (\<lambda>p. mp_id p = prof \<and> mp_version p = ver) (mf_profiles m)"

section \<open>Debug executions of an installation\<close>

definition fail_executions :: "time \<Rightarrow> (debug_execution \<Rightarrow> bool) \<Rightarrow> plugin_db \<Rightarrow> unit ptx" where
  "fail_executions t p d =
     (case update_executions (\<lambda>e. p e \<and> estate e \<in> {Active, Paused, Cancelling}) (finished t Failed) (core_db d) of
        Inl _ \<Rightarrow> Inl PDatabase
      | Inr (_, c) \<Rightarrow> Inr ((), d\<lparr>core_db := c\<rparr>))"

definition failDebugExecutionsForInstallation :: "time \<Rightarrow> uuid \<Rightarrow> plugin_db \<Rightarrow> unit ptx" where
  "failDebugExecutionsForInstallation t inst = fail_executions t (\<lambda>e. einstallation_id e = inst)"

definition failDebugExecutionsForBindingChange :: "time \<Rightarrow> uuid \<Rightarrow> uuid list \<Rightarrow> plugin_db \<Rightarrow> unit ptx" where
  "failDebugExecutionsForBindingChange t dev insts d =
     (if insts = [] then Inr ((), d)
      else fail_executions t (\<lambda>e. edevice_id e = dev \<and> einstallation_id e \<in> set insts) d)"

section \<open>Operations\<close>

record CreateInstallationInput =
  cn_projectId :: uuid
  cn_pluginId :: jsstring
  cn_pluginVersion :: jsstring
  cn_manifestHash :: jsstring
  cn_config :: jsval

record BindDeviceInput =
  bi_installationId :: uuid
  bi_deviceId :: uuid
  bi_profileId :: jsstring
  bi_profileVersion :: int

definition put_installations :: "plugin_installation list \<Rightarrow> plugin_db \<Rightarrow> plugin_db" where
  "put_installations xs d = d\<lparr>core_db := (core_db d)\<lparr>plugin_installations := xs\<rparr>\<rparr>"

definition createPluginInstallation :: "uuid \<Rightarrow> CreateInstallationInput \<Rightarrow> plugin_db \<Rightarrow> uuid ptx" where
  "createPluginInstallation newId i d =
     rbind (getSnapshot (cn_pluginId i) (cn_pluginVersion i) (cn_manifestHash i) d) (\<lambda>snapshot.
     rbind (parseManifest snapshot) (\<lambda>manifest.
     rbind (ensure (\<not> (mf_id manifest \<noteq> cn_pluginId i \<or> mf_version manifest \<noteq> cn_pluginVersion i)) PManifestIdentity) (\<lambda>_.
     let xs = plugin_installations (core_db d) in
     if newId \<in> iid ` set xs \<or> (cn_projectId i, cn_pluginId i) \<in> (\<lambda>x. (iproject_id x, iplugin_id x)) ` set xs
     then Inl PDatabase
     else Inr (newId, put_installations (xs @
            [\<lparr>iid = newId, iproject_id = cn_projectId i, iplugin_id = cn_pluginId i, iplugin_version = cn_pluginVersion i,
              imanifest_hash = cn_manifestHash i, ienabled = True, iconfig = cn_config i\<rparr>]) d))))"

definition find_binding :: "uuid \<Rightarrow> plugin_db \<Rightarrow> plugin_device_binding option" where
  "find_binding dev d = find (\<lambda>b. bdevice_id b = dev) (plugin_device_bindings (core_db d))"

definition upsert_binding :: "plugin_device_binding \<Rightarrow> plugin_db \<Rightarrow> plugin_db" where
  "upsert_binding b d =
     (let bs = plugin_device_bindings (core_db d) in
      d\<lparr>core_db := (core_db d)\<lparr>plugin_device_bindings :=
          (if bdevice_id b \<in> bdevice_id ` set bs then map (\<lambda>x. if bdevice_id x = bdevice_id b then b else x) bs
           else bs @ [b])\<rparr>\<rparr>)"

definition drop_states :: "uuid \<Rightarrow> uuid list \<Rightarrow> plugin_db \<Rightarrow> plugin_db" where
  "drop_states dev insts d =
     d\<lparr>entity_states := filter (\<lambda>s. \<not> (es_device s = dev \<and> es_installation s \<in> set insts)) (entity_states d)\<rparr>"

definition binding_changed :: "BindDeviceInput \<Rightarrow> plugin_device_binding option \<Rightarrow> bool" where
  "binding_changed i locked =
     (case locked of
        None \<Rightarrow> True
      | Some b \<Rightarrow> binstallation_id b \<noteq> bi_installationId i \<or> bprofile_id b \<noteq> bi_profileId i \<or>
                  bprofile_version b \<noteq> bi_profileVersion i)"

definition bindDeviceToPluginInstallation ::
    "(nat \<Rightarrow> uuid) \<Rightarrow> time \<Rightarrow> uuid option \<Rightarrow> BindDeviceInput \<Rightarrow> plugin_db \<Rightarrow> unit ptx" where
  "bindDeviceToPluginInstallation newId t observed i d =
     (let lockedIds = {bi_installationId i} \<union> set_option observed in
      case installation_of (bi_installationId i) d of
        None \<Rightarrow> Inl PInstallationNotFound
      | Some inst \<Rightarrow>
         (case find_device (bi_deviceId i) (core_db d) of
            None \<Rightarrow> Inl PDeviceNotFound
          | Some dev \<Rightarrow>
              rbind (ensure (\<not> dproject_id dev \<noteq> iproject_id inst) POtherProject) (\<lambda>_.
              let locked = find_binding (bi_deviceId i) d in
              rbind (ensure (case locked of None \<Rightarrow> True
                             | Some b \<Rightarrow> binstallation_id b \<in> lockedIds \<and> installation_of (binstallation_id b) d \<noteq> None)
                       PBindingChanged) (\<lambda>_.
              rbind (ensure (ienabled inst) PDisabled) (\<lambda>_.
              rbind (getSnapshot (iplugin_id inst) (iplugin_version inst) (imanifest_hash inst) d) (\<lambda>snapshot.
              rbind (parseManifest snapshot) (\<lambda>manifest.
              case find_profile (bi_profileId i) (bi_profileVersion i) manifest of
                None \<Rightarrow> Inl PUndeclaredProfile
              | Some profile \<Rightarrow>
                  let insts = bi_installationId i # (case locked of None \<Rightarrow> [] | Some b \<Rightarrow> [binstallation_id b]) in
                  rbind (if binding_changed i locked
                         then rbind (failDebugExecutionsForBindingChange t (bi_deviceId i) insts d) (\<lambda>(_, d1).
                                Inr ((), drop_states (bi_deviceId i) insts d1))
                         else Inr ((), d)) (\<lambda>(_, d1).
                  rbind (registerInTransaction newId t (bi_installationId i) (mp_id profile) (mp_version profile)
                           (mp_entities profile) d1) (\<lambda>(_, d2).
                  let d3 = deprecateUnboundInstallationProfiles (bi_installationId i)
                             (upsert_binding \<lparr>bdevice_id = bi_deviceId i, binstallation_id = bi_installationId i,
                                bprofile_id = bi_profileId i, bprofile_version = bi_profileVersion i\<rparr> d2) in
                  Inr ((), case locked of
                             Some b \<Rightarrow> if binstallation_id b \<noteq> bi_installationId i
                                       then deprecateUnboundInstallationProfiles (binstallation_id b) d3 else d3
                           | None \<Rightarrow> d3))))))))))"

definition setPluginInstallationState :: "time \<Rightarrow> uuid \<Rightarrow> bool \<Rightarrow> plugin_db \<Rightarrow> unit ptx" where
  "setPluginInstallationState t inst enabled d =
     rbind (if \<not> enabled then failDebugExecutionsForInstallation t inst d else Inr ((), d)) (\<lambda>(_, d1).
     let xs = plugin_installations (core_db d1) in
     if length (filter (\<lambda>x. iid x = inst) xs) \<noteq> 1 then Inl PInstallationNotFound
     else Inr ((), put_installations (map (\<lambda>x. if iid x = inst then x\<lparr>ienabled := enabled\<rparr> else x) xs) d1))"

definition bound_profiles :: "uuid \<Rightarrow> plugin_db \<Rightarrow> (jsstring \<times> int) list" where
  "bound_profiles inst d =
     rev (remdups (rev (map (\<lambda>b. (bprofile_id b, bprofile_version b))
       (filter (\<lambda>b. binstallation_id b = inst) (plugin_device_bindings (core_db d))))))"

fun register_profiles ::
    "(nat \<Rightarrow> nat \<Rightarrow> uuid) \<Rightarrow> time \<Rightarrow> uuid \<Rightarrow> ManifestLike \<Rightarrow> nat \<Rightarrow> (jsstring \<times> int) list \<Rightarrow> plugin_db \<Rightarrow> unit ptx" where
  "register_profiles newId t inst m n [] d = Inr ((), d)"
| "register_profiles newId t inst m n ((prof, ver) # ps) d =
     (case find_profile prof ver m of
        None \<Rightarrow> Inl PUndeclaredProfile
      | Some p \<Rightarrow> rbind (registerInTransaction (newId n) t inst (mp_id p) (mp_version p) (mp_entities p) d) (\<lambda>(_, d').
                    register_profiles newId t inst m (Suc n) ps d'))"

definition settle_profiles ::
    "(nat \<Rightarrow> nat \<Rightarrow> uuid) \<Rightarrow> time \<Rightarrow> uuid \<Rightarrow> ManifestLike \<Rightarrow> plugin_db \<Rightarrow> unit ptx" where
  "settle_profiles newId t inst m d =
     rbind (register_profiles newId t inst m 0 (bound_profiles inst d) d) (\<lambda>(_, d').
       Inr ((), deleteIncompatibleEntityStates inst (deprecateUnboundInstallationProfiles inst d')))"

definition migratePluginInstallation ::
    "(nat \<Rightarrow> nat \<Rightarrow> uuid) \<Rightarrow> time \<Rightarrow> uuid \<Rightarrow> jsstring \<Rightarrow> jsstring \<Rightarrow> jsval \<Rightarrow> plugin_db \<Rightarrow> unit ptx" where
  "migratePluginInstallation newId t inst version hash config d =
     (case installation_of inst d of
        None \<Rightarrow> Inl PInstallationNotFound
      | Some installation \<Rightarrow>
          rbind (getSnapshot (iplugin_id installation) version hash d) (\<lambda>snapshot.
          rbind (parseManifest snapshot) (\<lambda>manifest.
          rbind (ensure (\<not> mf_id manifest \<noteq> iplugin_id installation) PManifestIdentity) (\<lambda>_.
          rbind (failDebugExecutionsForInstallation t inst d) (\<lambda>(_, d1).
          let d2 = put_installations (map (\<lambda>x. if iid x = inst then x\<lparr>iplugin_version := version, imanifest_hash := hash,
                      iconfig := config, ienabled := True\<rparr> else x) (plugin_installations (core_db d1))) d1;
              d3 = set_deprecated True (\<lambda>r. dr_installation r = inst) d2 in
          settle_profiles newId t inst manifest d3)))))"

definition reconcilePluginInstallation :: "(nat \<Rightarrow> nat \<Rightarrow> uuid) \<Rightarrow> time \<Rightarrow> uuid \<Rightarrow> plugin_db \<Rightarrow> unit ptx" where
  "reconcilePluginInstallation newId t inst d =
     (case installation_of inst d of
        None \<Rightarrow> Inl PInstallationNotFound
      | Some installation \<Rightarrow>
          rbind (getSnapshot (iplugin_id installation) (iplugin_version installation) (imanifest_hash installation) d) (\<lambda>snapshot.
          rbind (parseManifest snapshot) (\<lambda>manifest. settle_profiles newId t inst manifest d)))"

section \<open>Reading entities\<close>

record EntityStateResult =
  er_key :: jsstring
  er_value :: "entity_value option"
  er_quality :: quality
  er_sourceTimestamp :: "time option"
  er_ingested_at :: time
  er_alarm :: "(alarm_level \<times> jsstring) option"

record EntityStateSnapshot =
  qs_installationId :: uuid
  qs_deviceId :: uuid
  qs_pluginId :: jsstring
  qs_pluginVersion :: jsstring
  qs_manifestHash :: jsstring
  qs_profileId :: jsstring
  qs_profileVersion :: int

definition entityValueFromStorage :: "jsval \<Rightarrow> value_type \<Rightarrow> PluginError + entity_value option" where
  "entityValueFromStorage v vt =
     (if vt = VBinary then
        (case binary_text v of Some s \<Rightarrow> Inr (Some (EBin (b64_decode s))) | None \<Rightarrow> Inl PStoredValue)
      else (case v of
              JNull \<Rightarrow> Inr None
            | JStr s \<Rightarrow> Inr (Some (EStr s))
            | JBool b \<Rightarrow> Inr (Some (EBool b))
            | JNum (Fin x) \<Rightarrow> Inr (Some (ENum (Fin x)))
            | _ \<Rightarrow> Inl PStoredValue))"

definition shown_quality :: "time \<Rightarrow> entity_descriptor \<Rightarrow> entity_state \<Rightarrow> quality" where
  "shown_quality t r s =
     (case dr_staleAfterSeconds r of
        None \<Rightarrow> es_quality s
      | Some sec \<Rightarrow> if es_quality s = QGood \<and> es_ingested_at s < t - sec * 1000 then QStale else es_quality s)"

definition entity_rows :: "EntityStateSnapshot \<Rightarrow> jsstring \<Rightarrow> plugin_db \<Rightarrow> (entity_state \<times> entity_descriptor) list" where
  "entity_rows q key d =
     [(s, r). s \<leftarrow> entity_states d, r \<leftarrow> descriptors d, b \<leftarrow> plugin_device_bindings (core_db d),
        i \<leftarrow> plugin_installations (core_db d),
        dr_installation r = es_installation s \<and> dr_key r = es_key s \<and> dr_revision r = es_revision s \<and>
        bdevice_id b = es_device s \<and> binstallation_id b = es_installation s \<and> bprofile_id b = dr_profile r \<and>
        bprofile_version b = dr_profileVersion r \<and> iid i = es_installation s \<and>
        es_installation s = qs_installationId q \<and> es_device s = qs_deviceId q \<and> es_key s = key \<and> \<not> dr_deprecated r \<and>
        bprofile_id b = qs_profileId q \<and> bprofile_version b = qs_profileVersion q \<and> iplugin_id i = qs_pluginId q \<and>
        iplugin_version i = qs_pluginVersion q \<and> imanifest_hash i = qs_manifestHash q \<and> ienabled i]"

definition getPluginEntityState ::
    "time \<Rightarrow> EntityStateSnapshot \<Rightarrow> jsstring \<Rightarrow> plugin_db \<Rightarrow> PluginError + EntityStateResult option" where
  "getPluginEntityState t q key d =
     (case sort_key (\<lambda>(s, r). - dr_created_at r) (entity_rows q key d) of
        [] \<Rightarrow> Inr None
      | (s, r) # _ \<Rightarrow>
          rbind (entityValueFromStorage (es_value s) (dr_valueType r)) (\<lambda>v.
            Inr (Some \<lparr>er_key = es_key s, er_value = v, er_quality = shown_quality t r s,
                       er_sourceTimestamp = es_sourceTimestamp s, er_ingested_at = es_ingested_at s,
                       er_alarm = (case (es_alarmLevel s, es_alarmCode s) of
                                     (Some l, Some c) \<Rightarrow> if c = [] then None else Some (l, c) | _ \<Rightarrow> None)\<rparr>)))"

end
