(* ===== verification/PluginEvents.thy ===== *)
theory PluginEvents
  imports PluginInstallations
begin

text \<open>
  The event queue between devices and plugins (\<^verbatim>\<open>core/src/plugins/events.ts\<close>) and the envelope check of
  \<^verbatim>\<open>core/src/protocol/event.ts\<close>: ingestion, leases with fencing tokens, completion together with entity updates and
  commands, release with retry, retention. Random lease tokens, row identifiers and serial numbers are arguments.
\<close>

section \<open>Envelopes\<close>

record DeviceEventEnvelope =
  ev_id :: bytes
  ev_seq :: int
  ev_kind :: jsstring
  ev_schema :: int
  ev_data :: jsval

definition MAX_EVENT_ID_BYTES :: nat where "MAX_EVENT_ID_BYTES = 16"
definition MAX_EVENT_KIND_BYTES :: nat where "MAX_EVENT_KIND_BYTES = 128"
definition MAX_EVENT_SCHEMA :: int where "MAX_EVENT_SCHEMA = 2147483647"
definition EVENT_UINT64_MAX :: int where "EVENT_UINT64_MAX = 2 ^ 64 - 1"

text \<open>The fields of the schema.\<close>

definition event_sequence :: "jsval \<Rightarrow> int option" where
  "event_sequence v =
     (case v of
        JBig i \<Rightarrow> if i \<le> EVENT_UINT64_MAX then Some i else None
      | JNum (Fin x) \<Rightarrow>
          if of_int \<lfloor>x\<rfloor> = x \<and> \<bar>x\<bar> \<le> of_int MAX_SAFE_INTEGER \<and> x \<ge> 0 then Some \<lfloor>x\<rfloor> else None
      | _ \<Rightarrow> None)"

definition event_schema_number :: "jsval \<Rightarrow> int option" where
  "event_schema_number v =
     (case v of
        JNum (Fin x) \<Rightarrow> if of_int \<lfloor>x\<rfloor> = x \<and> x > 0 \<and> x \<le> of_int MAX_EVENT_SCHEMA then Some \<lfloor>x\<rfloor> else None
      | _ \<Rightarrow> None)"

definition parse_event_envelope :: "jsval \<Rightarrow> DeviceEventEnvelope option" where
  "parse_event_envelope v =
     (case v of
        JObj fs \<Rightarrow>
          if set (map fst fs) \<subseteq> {js ''id'', js ''seq'', js ''kind'', js ''schema'', js ''data''} then
            (case (map_of fs (js ''id''), map_of fs (js ''kind''), map_of fs (js ''data'')) of
               (Some (JBytes i), Some (JStr k), Some dat) \<Rightarrow>
                 (case (Option.bind (map_of fs (js ''seq'')) event_sequence,
                        Option.bind (map_of fs (js ''schema'')) event_schema_number) of
                    (Some s, Some n) \<Rightarrow>
                      if length i = MAX_EVENT_ID_BYTES \<and> k \<noteq> [] \<and> byteLength k \<le> MAX_EVENT_KIND_BYTES
                      then Some \<lparr>ev_id = i, ev_seq = s, ev_kind = k, ev_schema = n, ev_data = dat\<rparr> else None
                  | _ \<Rightarrow> None)
             | _ \<Rightarrow> None)
          else None
      | _ \<Rightarrow> None)"

datatype event_payload_error = EventStructure structure_error | EventDecode | EventSchema

definition decodeDeviceEvent ::
    "(bytes \<Rightarrow> jsval option) \<Rightarrow> bytes \<Rightarrow> event_payload_error + DeviceEventEnvelope" where
  "decodeDeviceEvent msgpackDecode packet =
     (case validateMessagePackStructure packet of
        Inl e \<Rightarrow> Inl (EventStructure e)
      | Inr _ \<Rightarrow>
          (case msgpackDecode packet of
             None \<Rightarrow> Inl EventDecode
           | Some v \<Rightarrow> (case parse_event_envelope v of None \<Rightarrow> Inl EventSchema | Some e \<Rightarrow> Inr e)))"

section \<open>Ingestion\<close>

datatype DeviceEventIngestStatus = EvInserted | EvDuplicate | EvConflict | EvUnknownDevice

definition PLUGIN_EVENTS_CHANNEL :: jsstring where "PLUGIN_EVENTS_CHANNEL = js ''soulcloud_plugin_events''"

text \<open>The CHECK constraints, the ranges of the integer columns, and U+0000, which no text column holds.\<close>

definition event_check :: "plugin_event \<Rightarrow> bool" where
  "event_check e \<longleftrightarrow> pe_attempts e \<ge> 0 \<and> pe_attempts e \<le> INT4_MAX \<and> 0 \<le> pe_seq e \<and> pe_seq e \<le> EVENT_UINT64_MAX \<and> 0 \<notin> set (pe_kind e)"

definition route :: "uuid \<Rightarrow> plugin_db \<Rightarrow> (plugin_device_binding \<times> plugin_installation) option" where
  "route dev d =
     (case find_binding dev d of
        None \<Rightarrow> None
      | Some b \<Rightarrow> (case installation_of (binstallation_id b) d of None \<Rightarrow> None | Some i \<Rightarrow> Some (b, i)))"

definition event_row ::
    "uuid \<Rightarrow> time \<Rightarrow> device \<Rightarrow> (plugin_device_binding \<times> plugin_installation) option \<Rightarrow> DeviceEventEnvelope \<Rightarrow> bytes \<Rightarrow> plugin_event" where
  "event_row newId t dev r e packet =
     (let valid = (case r of None \<Rightarrow> False | Some (b, i) \<Rightarrow> iproject_id i = dproject_id dev \<and> ienabled i) in
      \<lparr>pe_id = newId, pe_eventId = hex_encode (ev_id e), pe_device = did dev, pe_seq = ev_seq e, pe_kind = ev_kind e,
       pe_schema = ev_schema e, pe_payload = packet, pe_received_at = t,
       pe_installation = map_option (\<lambda>(b, i). binstallation_id b) r, pe_pluginId = map_option (\<lambda>(b, i). iplugin_id i) r,
       pe_pluginVersion = map_option (\<lambda>(b, i). iplugin_version i) r, pe_manifestHash = map_option (\<lambda>(b, i). imanifest_hash i) r,
       pe_profileId = map_option (\<lambda>(b, i). bprofile_id b) r, pe_profileVersion = map_option (\<lambda>(b, i). bprofile_version b) r,
       pe_config = map_option (\<lambda>(b, i). iconfig i) r,
       pe_state = (if valid then EvQueued else EvDead), pe_attempts = 0, pe_available_at = t,
       pe_lease_expires_at = None, pe_lease_token = None, pe_finished_at = None,
       pe_last_error = (if valid then None
         else Some (case r of
                      None \<Rightarrow> js ''device has no plugin installation binding''
                    | Some (b, i) \<Rightarrow> if iproject_id i \<noteq> dproject_id dev then js ''plugin binding belongs to another project''
                                    else js ''plugin installation is disabled''))\<rparr>)"

definition plugin_notify :: "jsstring \<Rightarrow> jsstring \<Rightarrow> plugin_db \<Rightarrow> plugin_db" where
  "plugin_notify ch m d =
     d\<lparr>core_db := (core_db d)\<lparr>notifications := notifications (core_db d) @ [(ch, m)]\<rparr>\<rparr>"

definition ingestDeviceEvent ::
    "uuid \<Rightarrow> time \<Rightarrow> jsstring \<Rightarrow> DeviceEventEnvelope \<Rightarrow> bytes \<Rightarrow> plugin_db \<Rightarrow> (DeviceEventIngestStatus \<times> jsstring) ptx" where
  "ingestDeviceEvent newId t uid e packet d =
     (let eventId = hex_encode (ev_id e) in
      case find (\<lambda>x. device_uid x = uid) (devices (core_db d)) of
        None \<Rightarrow> Inr ((EvUnknownDevice, eventId), d)
      | Some dev \<Rightarrow>
          let row = event_row newId t dev (route (did dev) d) e packet in
          if \<not> event_check row then Inl PDatabase
          else
            (case find (\<lambda>x. pe_device x = did dev \<and> pe_eventId x = eventId) (plugin_events d) of
               Some old \<Rightarrow>
                 Inr ((if pe_seq old = ev_seq e \<and> pe_kind old = ev_kind e \<and> pe_schema old = ev_schema e \<and> pe_payload old = packet
                       then EvDuplicate else EvConflict, eventId), d)
             | None \<Rightarrow>
                 if newId \<in> pe_id ` set (plugin_events d) then Inr ((EvConflict, eventId), d)
                 else Inr ((EvInserted, eventId),
                        plugin_notify PLUGIN_EVENTS_CHANNEL eventId (d\<lparr>plugin_events := plugin_events d @ [row]\<rparr>))))"

section \<open>Leases\<close>

definition update_events :: "(plugin_event \<Rightarrow> bool) \<Rightarrow> (plugin_event \<Rightarrow> plugin_event) \<Rightarrow> plugin_db \<Rightarrow> nat ptx" where
  "update_events p f d =
     (if list_all (\<lambda>e. p e \<longrightarrow> event_check (f e)) (plugin_events d)
      then Inr (length (filter p (plugin_events d)),
                d\<lparr>plugin_events := map (\<lambda>e. if p e then f e else e) (plugin_events d)\<rparr>)
      else Inl PDatabase)"

definition event_leasable :: "time \<Rightarrow> plugin_event \<Rightarrow> bool" where
  "event_leasable t e \<longleftrightarrow> pe_installation e \<noteq> None \<and> pe_state e \<in> {EvQueued, EvLeased} \<and> pe_available_at e \<le> t \<and>
     (pe_state e = EvQueued \<or> (case pe_lease_expires_at e of None \<Rightarrow> False | Some l \<Rightarrow> l \<le> t))"

definition event_candidates :: "(uuid \<Rightarrow> bool) \<Rightarrow> time \<Rightarrow> nat \<Rightarrow> plugin_db \<Rightarrow> plugin_event list" where
  "event_candidates locked t limit d =
     take limit (sort_key (\<lambda>e. (pe_available_at e, pe_id e))
       (filter (\<lambda>e. event_leasable t e \<and> \<not> locked (pe_id e)) (plugin_events d)))"

definition leased_event :: "(uuid \<Rightarrow> jsstring) \<Rightarrow> time \<Rightarrow> int \<Rightarrow> plugin_event \<Rightarrow> plugin_event" where
  "leased_event token t ms e =
     e\<lparr>pe_state := EvLeased, pe_attempts := pe_attempts e + 1, pe_lease_expires_at := Some (t + ms),
       pe_lease_token := Some (token (pe_id e))\<rparr>"

definition leasePluginEvents ::
    "(uuid \<Rightarrow> bool) \<Rightarrow> (uuid \<Rightarrow> jsstring) \<Rightarrow> time \<Rightarrow> int \<Rightarrow> int \<Rightarrow> plugin_db \<Rightarrow> plugin_event list ptx" where
  "leasePluginEvents locked token t limit leaseMs d =
     rbind (ensure (\<not> limit \<le> 0) PRange) (\<lambda>_.
     rbind (ensure (\<not> leaseMs \<le> 0) PRange) (\<lambda>_.
     let ids = pe_id ` set (event_candidates locked t (nat limit) d);
         p = (\<lambda>e. pe_id e \<in> ids \<and> pe_device e \<in> did ` set (devices (core_db d))) in
     rbind (update_events p (leased_event token t leaseMs) d) (\<lambda>(_, d').
       Inr (map (leased_event token t leaseMs) (filter p (plugin_events d)), d'))))"

text \<open>The condition under which a lease holder may act.\<close>

definition holds_lease :: "uuid \<Rightarrow> jsstring \<Rightarrow> plugin_event \<Rightarrow> bool" where
  "holds_lease i token e \<longleftrightarrow> pe_id e = i \<and> pe_state e = EvLeased \<and> pe_lease_token e = Some token"

definition completed_event :: "time \<Rightarrow> plugin_event \<Rightarrow> plugin_event" where
  "completed_event t e =
     e\<lparr>pe_state := EvCompleted, pe_lease_expires_at := None, pe_lease_token := None, pe_finished_at := Some t, pe_last_error := None\<rparr>"

definition completePluginEvent :: "time \<Rightarrow> uuid \<Rightarrow> jsstring \<Rightarrow> plugin_db \<Rightarrow> bool ptx" where
  "completePluginEvent t i token d =
     rbind (update_events (holds_lease i token) (completed_event t) d) (\<lambda>(n, d'). Inr (n = 1, d'))"

definition renewPluginEventLeases :: "time \<Rightarrow> (uuid \<times> jsstring) list \<Rightarrow> int \<Rightarrow> plugin_db \<Rightarrow> nat ptx" where
  "renewPluginEventLeases t leases leaseMs d =
     (if leases = [] then Inr (0, d)
      else rbind (ensure (\<not> leaseMs \<le> 0) PRange) (\<lambda>_.
             update_events (\<lambda>e. list_ex (\<lambda>(i, k). holds_lease i k e) leases)
               (\<lambda>e. e\<lparr>pe_lease_expires_at := Some (t + leaseMs)\<rparr>) d))"

definition releasePluginEvent ::
    "time \<Rightarrow> uuid \<Rightarrow> jsstring \<Rightarrow> bool \<Rightarrow> jsstring \<Rightarrow> int \<Rightarrow> bool \<Rightarrow> plugin_db \<Rightarrow> bool ptx" where
  "releasePluginEvent t i token permanent error retryMs consumeAttempt d =
     rbind (ensure (\<not> (\<not> permanent \<and> retryMs < 0)) PRange) (\<lambda>_.
     rbind (update_events (holds_lease i token)
              (if permanent
               then (\<lambda>e. e\<lparr>pe_state := EvDead, pe_lease_expires_at := None, pe_lease_token := None,
                           pe_finished_at := Some t, pe_last_error := Some error\<rparr>)
               else (\<lambda>e. e\<lparr>pe_state := EvQueued, pe_lease_expires_at := None, pe_lease_token := None,
                           pe_available_at := t + retryMs,
                           pe_attempts := (if consumeAttempt then pe_attempts e else max (pe_attempts e - 1) 0),
                           pe_last_error := Some error\<rparr>)) d) (\<lambda>(n, d'). Inr (n = 1, d')))"

section \<open>Completion with effects\<close>

record entity_context =
  ec_installationId :: uuid
  ec_deviceId :: uuid
  ec_pluginId :: jsstring
  ec_pluginVersion :: jsstring
  ec_manifestHash :: jsstring
  ec_profileId :: jsstring
  ec_profileVersion :: int
  ec_snapshotDescriptors :: "EntityDescriptorInput list"
  ec_updates :: "EntityUpdateInput list"
  ec_commands :: "(uuid \<times> DeviceCommand) list"

definition context_matches :: "entity_context \<Rightarrow> plugin_event \<Rightarrow> bool" where
  "context_matches c e \<longleftrightarrow> pe_installation e = Some (ec_installationId c) \<and> pe_device e = ec_deviceId c \<and>
     pe_pluginId e = Some (ec_pluginId c) \<and> pe_pluginVersion e = Some (ec_pluginVersion c) \<and>
     pe_manifestHash e = Some (ec_manifestHash c) \<and> pe_profileId e = Some (ec_profileId c) \<and>
     pe_profileVersion e = Some (ec_profileVersion c)"

definition snapshot_is_current :: "entity_context \<Rightarrow> plugin_db \<Rightarrow> bool" where
  "snapshot_is_current c d =
     (case (installation_of (ec_installationId c) d, find_binding (ec_deviceId c) d) of
        (Some i, Some b) \<Rightarrow>
          ienabled i \<and> (case find_device (ec_deviceId c) (core_db d) of None \<Rightarrow> False | Some x \<Rightarrow> iproject_id i = dproject_id x) \<and>
          iplugin_id i = ec_pluginId c \<and> iplugin_version i = ec_pluginVersion c \<and> imanifest_hash i = ec_manifestHash c \<and>
          binstallation_id b = ec_installationId c \<and> bprofile_id b = ec_profileId c \<and> bprofile_version b = ec_profileVersion c
      | _ \<Rightarrow> False)"

definition context_options :: "entity_context \<Rightarrow> bool \<Rightarrow> ApplyEntityUpdatesOptions" where
  "context_options c current =
     \<lparr>ao_installation = ec_installationId c, ao_device = ec_deviceId c, ao_profile = ec_profileId c,
      ao_profileVersion = ec_profileVersion c, ao_updates = ec_updates c,
      ao_snapshotDescriptors = Some (ec_snapshotDescriptors c), ao_writeCurrentState = current\<rparr>"

definition event_provenance :: "uuid \<Rightarrow> entity_context \<Rightarrow> CommandProvenance" where
  "event_provenance i c =
     \<lparr>originType = js ''plugin'', originUserId = None, pluginInstallationId = Some (ec_installationId c),
      pluginVersion = Some (ec_pluginVersion c), manifestHash = Some (ec_manifestHash c), executionId = None,
      correlationId = Some i, idempotencyKey = None\<rparr>"

fun enqueue_intents ::
    "(nat \<Rightarrow> enqueue_env) \<Rightarrow> uuid \<Rightarrow> entity_context \<Rightarrow> nat \<Rightarrow> (uuid \<times> DeviceCommand) list \<Rightarrow> plugin_db \<Rightarrow> unit ptx" where
  "enqueue_intents env i c n [] d = Inr ((), d)"
| "enqueue_intents env i c n ((dev, command) # intents) d =
     rbind (ensure (\<not> dev \<noteq> ec_deviceId c) PCommandTarget) (\<lambda>_.
     (case enqueueBatchInTransaction (env n) [dev] command
             \<lparr>deliveryTimeoutSeconds = None, provenance = Some (event_provenance i c)\<rparr> (core_db d) of
        Inl _ \<Rightarrow> Inl PDatabase
      | Inr (_, core) \<Rightarrow> enqueue_intents env i c (Suc n) intents (d\<lparr>core_db := core\<rparr>)))"

definition completePluginEventWithUpdates ::
    "(jsstring \<Rightarrow> time option) \<Rightarrow> (nat \<Rightarrow> enqueue_env) \<Rightarrow> nat \<Rightarrow> time \<Rightarrow> uuid \<Rightarrow> jsstring \<Rightarrow> entity_context \<Rightarrow> plugin_db \<Rightarrow> bool ptx" where
  "completePluginEventWithUpdates parse env serial t i token c d =
     (case find (holds_lease i token) (plugin_events d) of
        None \<Rightarrow> Inr (False, d)
      | Some e \<Rightarrow>
          rbind (ensure (context_matches c e) PContextMismatch) (\<lambda>_.
          let current = snapshot_is_current c d in
          rbind (applyEntityUpdates parse t serial (context_options c current) d) (\<lambda>(_, d1).
          rbind (if current then enqueue_intents env i c 0 (ec_commands c) d1 else Inr ((), d1)) (\<lambda>(_, d2).
          rbind (update_events (holds_lease i token) (completed_event t) d2) (\<lambda>(n, d3). Inr (n = 1, d3))))))"

section \<open>Retention\<close>

definition day :: int where "day = 24 * 60 * 60 * 1000"

definition purge_events :: "time \<Rightarrow> int \<Rightarrow> nat \<Rightarrow> plugin_db \<Rightarrow> nat \<times> plugin_db" where
  "purge_events t days batch d =
     (let old = take batch (sort_key (\<lambda>e. the (pe_finished_at e))
            (filter (\<lambda>e. pe_state e \<in> {EvCompleted, EvDead} \<and>
               (case pe_finished_at e of None \<Rightarrow> False | Some f \<Rightarrow> f < t - days * day)) (plugin_events d)));
          gone = (\<lambda>e. pe_id e \<in> pe_id ` set old) in
      (length (filter gone (plugin_events d)), d\<lparr>plugin_events := filter (\<lambda>e. \<not> gone e) (plugin_events d)\<rparr>))"

definition purge_history :: "time \<Rightarrow> int \<Rightarrow> nat \<Rightarrow> plugin_db \<Rightarrow> nat \<times> plugin_db" where
  "purge_history t days batch d =
     (let old = take batch (sort_key (\<lambda>(i, h). (es_ingested_at h, i))
            (filter (\<lambda>(i, h). es_ingested_at h < t - days * day) (entity_history d)));
          gone = (\<lambda>x. fst x \<in> fst ` set old) in
      (length (filter gone (entity_history d)), d\<lparr>entity_history := filter (\<lambda>x. \<not> gone x) (entity_history d)\<rparr>))"

text \<open>The two statements are separate transactions with their own clock readings.\<close>

definition purgePluginData :: "time \<Rightarrow> time \<Rightarrow> int \<Rightarrow> int \<Rightarrow> int \<Rightarrow> plugin_db \<Rightarrow> (nat \<times> nat) ptx" where
  "purgePluginData t1 t2 eventDays historyDays batch d =
     rbind (ensure (\<not> eventDays \<le> 0) PRange) (\<lambda>_.
     rbind (ensure (\<not> historyDays \<le> 0) PRange) (\<lambda>_.
     rbind (ensure (\<not> batch \<le> 0) PRange) (\<lambda>_.
     (case purge_events t1 eventDays (nat batch) d of (n, d1) \<Rightarrow>
        (case purge_history t2 historyDays (nat batch) d1 of (m, d2) \<Rightarrow> Inr ((n, m), d2))))))"

end
