(* ===== verification/EventProperties.thy ===== *)
theory EventProperties
  imports PluginEvents
begin

text \<open>
  Runs of the event queue of \<^verbatim>\<open>plugins/events.ts\<close>. A state carries, beside the database, the row identifiers and
  lease tokens drawn so far: new ones are fresh, which is what the random sources provide. Transactions of other components
  that leave the event table alone may happen at any time. The theorems: effects of an event happen at most once, a lost
  lease stays lost, ingestion is idempotent, and two defects (rows that retention never reaches, sequence numbers
  that pass the schema and fail in the database).
\<close>

section \<open>The system\<close>

record event_sys =
  used_ids :: "uuid set"
  used_tokens :: "jsstring set"
  pdb :: plugin_db

inductive event_step :: "event_sys \<Rightarrow> event_sys \<Rightarrow> bool" where
  ingest: "newId \<notin> used_ids s \<Longrightarrow> ingestDeviceEvent newId t uid e packet (pdb s) = Inr (r, d') \<Longrightarrow>
     event_step s (s\<lparr>used_ids := insert newId (used_ids s), pdb := d'\<rparr>)"
| lease: "inj token \<Longrightarrow> range token \<inter> used_tokens s = {} \<Longrightarrow>
     leasePluginEvents locked token t limit ms (pdb s) = Inr (rows, d') \<Longrightarrow>
     event_step s (s\<lparr>used_tokens := used_tokens s \<union> (\<lambda>e. token (pe_id e)) ` set rows, pdb := d'\<rparr>)"
| complete: "completePluginEvent t i k (pdb s) = Inr (b, d') \<Longrightarrow> event_step s (s\<lparr>pdb := d'\<rparr>)"
| completeWith: "completePluginEventWithUpdates parse env serial t i k c (pdb s) = Inr (b, d') \<Longrightarrow> event_step s (s\<lparr>pdb := d'\<rparr>)"
| renew: "renewPluginEventLeases t leases ms (pdb s) = Inr (n, d') \<Longrightarrow> event_step s (s\<lparr>pdb := d'\<rparr>)"
| release: "releasePluginEvent t i k permanent error retryMs consume (pdb s) = Inr (b, d') \<Longrightarrow> event_step s (s\<lparr>pdb := d'\<rparr>)"
| purge: "purgePluginData t1 t2 eventDays historyDays batch (pdb s) = Inr (n, d') \<Longrightarrow> event_step s (s\<lparr>pdb := d'\<rparr>)"
| elsewhere: "plugin_events d' = plugin_events (pdb s) \<Longrightarrow> event_step s (s\<lparr>pdb := d'\<rparr>)"

definition event_inv :: "event_sys \<Rightarrow> bool" where
  "event_inv s \<longleftrightarrow> distinct (map pe_id (plugin_events (pdb s))) \<and>
     distinct (map (\<lambda>e. (pe_device e, pe_eventId e)) (plugin_events (pdb s))) \<and>
     (\<forall>e \<in> set (plugin_events (pdb s)). pe_id e \<in> used_ids s \<and> event_check e \<and>
        (pe_state e = EvLeased \<longleftrightarrow> pe_lease_token e \<noteq> None) \<and> set_option (pe_lease_token e) \<subseteq> used_tokens s)"

text \<open>How a row may change between two states, and that a stale token does not come back.\<close>

definition event_moved :: "jsstring set \<Rightarrow> plugin_event \<Rightarrow> plugin_event \<Rightarrow> bool" where
  "event_moved toks e e' \<longleftrightarrow> pe_id e' = pe_id e \<and> pe_device e' = pe_device e \<and> pe_eventId e' = pe_eventId e \<and>
     pe_seq e' = pe_seq e \<and> pe_kind e' = pe_kind e \<and> pe_schema e' = pe_schema e \<and> pe_payload e' = pe_payload e \<and>
     (pe_state e \<in> {EvCompleted, EvDead} \<longrightarrow> e' = e) \<and>
     (\<forall>k. pe_lease_token e' = Some k \<and> pe_lease_token e \<noteq> Some k \<longrightarrow> k \<notin> toks)"

definition event_before :: "event_sys \<Rightarrow> event_sys \<Rightarrow> bool" where
  "event_before s s' \<longleftrightarrow> used_ids s \<subseteq> used_ids s' \<and> used_tokens s \<subseteq> used_tokens s' \<and>
     (\<forall>e' \<in> set (plugin_events (pdb s')). pe_id e' \<in> used_ids s \<longrightarrow>
        (\<exists>e \<in> set (plugin_events (pdb s)). event_moved (used_tokens s) e e')) \<and>
     (\<forall>e \<in> set (plugin_events (pdb s)). pe_state e = EvDead \<and> pe_finished_at e = None \<longrightarrow> e \<in> set (plugin_events (pdb s')))"

lemma event_moved_refl [simp]: "event_moved toks e e"
  by (simp add: event_moved_def)

lemma event_moved_trans: "event_moved toks a b \<Longrightarrow> event_moved toks' b c \<Longrightarrow> toks \<subseteq> toks' \<Longrightarrow> event_moved toks a c"
  unfolding event_moved_def by (metis subsetD)

lemma event_before_refl: "event_before s s"
  by (auto simp: event_before_def intro: event_moved_refl)

lemma event_before_trans:
  assumes "event_before a b" "event_before b c"
  shows "event_before a c"
proof -
  have "\<exists>e \<in> set (plugin_events (pdb a)). event_moved (used_tokens a) e e'"
    if e': "e' \<in> set (plugin_events (pdb c))" "pe_id e' \<in> used_ids a" for e'
  proof -
    obtain x where x: "x \<in> set (plugin_events (pdb b))" "event_moved (used_tokens b) x e'"
      using assms e' unfolding event_before_def by (meson subsetD)
    then have "pe_id x \<in> used_ids a" using e'(2) by (simp add: event_moved_def)
    with x assms(1) show ?thesis unfolding event_before_def by (meson event_moved_trans)
  qed
  with assms show ?thesis unfolding event_before_def by (meson order_trans)
qed

section \<open>Statements on the event table\<close>

text \<open>Rows rewritten in place by an UPDATE.\<close>

definition good_update :: "event_sys \<Rightarrow> (plugin_event \<Rightarrow> plugin_event) \<Rightarrow> jsstring set \<Rightarrow> bool" where
  "good_update s f new \<longleftrightarrow> (\<forall>e \<in> set (plugin_events (pdb s)). event_moved (used_tokens s) e (f e) \<and>
     (pe_state e = EvDead \<longrightarrow> f e = e) \<and> event_check (f e) \<and>
     (pe_state (f e) = EvLeased \<longleftrightarrow> pe_lease_token (f e) \<noteq> None) \<and> set_option (pe_lease_token (f e)) \<subseteq> used_tokens s \<union> new)"

lemma update_good:
  assumes inv: "event_inv s" and f: "good_update s f new" and ev: "plugin_events d' = map f (plugin_events (pdb s))"
  shows "event_inv (s\<lparr>used_tokens := used_tokens s \<union> new, pdb := d'\<rparr>) \<and>
    event_before s (s\<lparr>used_tokens := used_tokens s \<union> new, pdb := d'\<rparr>)"
proof -
  have ids: "map pe_id (map f (plugin_events (pdb s))) = map pe_id (plugin_events (pdb s))"
    "map (\<lambda>e. (pe_device e, pe_eventId e)) (map f (plugin_events (pdb s))) = map (\<lambda>e. (pe_device e, pe_eventId e)) (plugin_events (pdb s))"
    using f by (auto simp: good_update_def event_moved_def)
  have "event_inv (s\<lparr>used_tokens := used_tokens s \<union> new, pdb := d'\<rparr>)"
    unfolding event_inv_def using inv f ev ids
    by (simp add: event_inv_def good_update_def event_moved_def del: map_map)
  moreover have "event_before s (s\<lparr>used_tokens := used_tokens s \<union> new, pdb := d'\<rparr>)"
    unfolding event_before_def using f ev by (auto simp: good_update_def image_iff) force
  ultimately show ?thesis by blast
qed

lemma same_events_good:
  assumes "event_inv s" "plugin_events d' = plugin_events (pdb s)"
  shows "event_inv (s\<lparr>pdb := d'\<rparr>) \<and> event_before s (s\<lparr>pdb := d'\<rparr>)"
  using assms by (auto simp: event_inv_def event_before_def intro: event_moved_refl)

lemma update_events_Inr:
  "update_events p f d = Inr (n, d') \<longleftrightarrow> (\<forall>e \<in> set (plugin_events d). p e \<longrightarrow> event_check (f e)) \<and>
     n = length (filter p (plugin_events d)) \<and> d' = d\<lparr>plugin_events := map (\<lambda>e. if p e then f e else e) (plugin_events d)\<rparr>"
  by (auto simp: update_events_def list_all_iff)

text \<open>A statement of a lease holder: the row leaves the leased state, or keeps its token.\<close>

lemma holder_update_good:
  assumes inv: "event_inv s" and up: "update_events p f d = Inr (n, d')" and ev: "plugin_events d = plugin_events (pdb s)"
    and p: "\<And>e. p e \<Longrightarrow> pe_state e = EvLeased"
    and f: "\<And>e. p e \<Longrightarrow> event_moved (used_tokens s) e (f e) \<and> (pe_lease_token (f e) = pe_lease_token e \<and> pe_state (f e) = EvLeased \<or>
      pe_lease_token (f e) = None \<and> pe_state (f e) \<noteq> EvLeased)"
  shows "event_inv (s\<lparr>pdb := d'\<rparr>) \<and> event_before s (s\<lparr>pdb := d'\<rparr>)"
proof -
  let ?f = "\<lambda>e. if p e then f e else e"
  have "good_update s ?f {}"
    unfolding good_update_def
  proof (intro ballI)
    fix e assume e: "e \<in> set (plugin_events (pdb s))"
    then have i: "event_check e" "pe_state e = EvLeased \<longleftrightarrow> pe_lease_token e \<noteq> None" "set_option (pe_lease_token e) \<subseteq> used_tokens s"
      using inv by (auto simp: event_inv_def)
    moreover have "p e \<Longrightarrow> event_check (f e)" using up e ev by (simp add: update_events_Inr)
    ultimately show "event_moved (used_tokens s) e (?f e) \<and> (pe_state e = EvDead \<longrightarrow> ?f e = e) \<and> event_check (?f e) \<and>
        (pe_state (?f e) = EvLeased \<longleftrightarrow> pe_lease_token (?f e) \<noteq> None) \<and> set_option (pe_lease_token (?f e)) \<subseteq> used_tokens s \<union> {}"
      using f [of e] p [of e] by (cases "p e") auto
  qed
  moreover have "plugin_events d' = map ?f (plugin_events (pdb s))" using up ev by (simp add: update_events_Inr)
  ultimately show ?thesis using update_good [OF inv] by fastforce
qed


section \<open>Operations\<close>

lemma ingest_Inr:
  assumes "ingestDeviceEvent newId t uid e packet d = Inr (r, d')"
  shows "plugin_events d' = plugin_events d \<and> fst r \<noteq> EvInserted \<or>
    (\<exists>dev row. find (\<lambda>x. device_uid x = uid) (devices (core_db d)) = Some dev \<and>
       row = event_row newId t dev (route (did dev) d) e packet \<and> event_check row \<and>
       (\<forall>x \<in> set (plugin_events d). (pe_device x, pe_eventId x) \<noteq> (pe_device row, pe_eventId row)) \<and>
       newId \<notin> pe_id ` set (plugin_events d) \<and> plugin_events d' = plugin_events d @ [row] \<and> fst r = EvInserted)"
  using assms unfolding ingestDeviceEvent_def
  by (auto simp: Let_def plugin_notify_def find_None_iff event_row_def split: option.splits if_splits)

lemma event_row_simps [simp]:
  "pe_id (event_row newId t dev r e packet) = newId" "pe_device (event_row newId t dev r e packet) = did dev"
  "pe_eventId (event_row newId t dev r e packet) = hex_encode (ev_id e)" "pe_lease_token (event_row newId t dev r e packet) = None"
  "pe_seq (event_row newId t dev r e packet) = ev_seq e" "pe_kind (event_row newId t dev r e packet) = ev_kind e"
  "pe_schema (event_row newId t dev r e packet) = ev_schema e" "pe_payload (event_row newId t dev r e packet) = packet"
  "pe_finished_at (event_row newId t dev r e packet) = None" "pe_state (event_row newId t dev r e packet) \<noteq> EvLeased"
  by (simp_all add: event_row_def Let_def)

lemma ingest_good:
  assumes inv: "event_inv s" and new: "newId \<notin> used_ids s"
    and run: "ingestDeviceEvent newId t uid e packet (pdb s) = Inr (r, d')"
  shows "event_inv (s\<lparr>used_ids := insert newId (used_ids s), pdb := d'\<rparr>) \<and>
    event_before s (s\<lparr>used_ids := insert newId (used_ids s), pdb := d'\<rparr>)"
proof -
  from ingest_Inr [OF run] consider "plugin_events d' = plugin_events (pdb s)"
    | row where "event_check row" "pe_id row = newId" "pe_lease_token row = None" "pe_state row \<noteq> EvLeased"
      "\<forall>x \<in> set (plugin_events (pdb s)). (pe_device x, pe_eventId x) \<noteq> (pe_device row, pe_eventId row)"
      "newId \<notin> pe_id ` set (plugin_events (pdb s))" "plugin_events d' = plugin_events (pdb s) @ [row]"
    by fastforce
  then show ?thesis
  proof cases
    case 1
    with inv show ?thesis by (auto simp: event_inv_def event_before_def intro: event_moved_refl)
  next
    case 2
    with inv new show ?thesis by (auto simp: event_inv_def event_before_def image_iff intro: event_moved_refl)
  qed
qed

lemma event_id_unique:
  assumes "event_inv s" "a \<in> set (plugin_events (pdb s))" "b \<in> set (plugin_events (pdb s))" "pe_id a = pe_id b"
  shows "a = b"
  using assms unfolding event_inv_def by (blast dest: inj_onD [OF distinct_map [THEN iffD1, THEN conjunct2]])

lemma lease_good:
  assumes inv: "event_inv s" and tok: "range token \<inter> used_tokens s = {}"
    and run: "leasePluginEvents locked token t limit ms (pdb s) = Inr (rows, d')"
  shows "event_inv (s\<lparr>used_tokens := used_tokens s \<union> (\<lambda>e. token (pe_id e)) ` set rows, pdb := d'\<rparr>) \<and>
    event_before s (s\<lparr>used_tokens := used_tokens s \<union> (\<lambda>e. token (pe_id e)) ` set rows, pdb := d'\<rparr>)"
proof -
  define cands where "cands = event_candidates locked t (nat limit) (pdb s)"
  define p :: "plugin_event \<Rightarrow> bool" where "p = (\<lambda>e. pe_id e \<in> pe_id ` set cands \<and> pe_device e \<in> did ` set (devices (core_db (pdb s))))"
  let ?f = "\<lambda>e. if p e then leased_event token t ms e else e"
  obtain n where up: "update_events p (leased_event token t ms) (pdb s) = Inr (n, d')"
    and rows: "rows = map (leased_event token t ms) (filter p (plugin_events (pdb s)))"
    using run unfolding leasePluginEvents_def p_def cands_def by (auto simp: rbind_eq_Inr Let_def)
  have sub: "set cands \<subseteq> {e \<in> set (plugin_events (pdb s)). event_leasable t e}"
    unfolding cands_def event_candidates_def by (rule subset_trans [OF set_take_subset]) auto
  have live: "pe_state e \<in> {EvQueued, EvLeased}" if e: "e \<in> set (plugin_events (pdb s))" "p e" for e
  proof -
    obtain x where x: "x \<in> set cands" "pe_id x = pe_id e" using e(2) unfolding p_def by auto
    with sub have "x \<in> set (plugin_events (pdb s))" "event_leasable t x" by blast+
    with x(2) e(1) event_id_unique [OF inv] have "event_leasable t e" by metis
    then show ?thesis by (simp add: event_leasable_def)
  qed
  have "good_update s ?f ((\<lambda>e. token (pe_id e)) ` set rows)"
    unfolding good_update_def
  proof (intro ballI)
    fix e assume e: "e \<in> set (plugin_events (pdb s))"
    then have i: "event_check e" "pe_state e = EvLeased \<longleftrightarrow> pe_lease_token e \<noteq> None" "set_option (pe_lease_token e) \<subseteq> used_tokens s"
      using inv by (auto simp: event_inv_def)
    show "event_moved (used_tokens s) e (?f e) \<and> (pe_state e = EvDead \<longrightarrow> ?f e = e) \<and> event_check (?f e) \<and>
        (pe_state (?f e) = EvLeased \<longleftrightarrow> pe_lease_token (?f e) \<noteq> None) \<and>
        set_option (pe_lease_token (?f e)) \<subseteq> used_tokens s \<union> (\<lambda>e. token (pe_id e)) ` set rows"
    proof (cases "p e")
      case True
      have "token (pe_id e) \<notin> used_tokens s" using tok by auto
      moreover have "event_check (leased_event token t ms e)" using up e True by (simp add: update_events_Inr)
      moreover have "token (pe_id e) \<in> (\<lambda>e. token (pe_id e)) ` set rows"
        using e True by (auto simp: rows leased_event_def image_image intro!: image_eqI [of _ _ e])
      ultimately show ?thesis using True live [OF e True] by (auto simp: event_moved_def leased_event_def)
    next
      case False
      with i show ?thesis by auto
    qed
  qed
  moreover have "plugin_events d' = map ?f (plugin_events (pdb s))" using up by (simp add: update_events_Inr)
  ultimately show ?thesis by (rule update_good [OF inv])
qed

lemma applyEntityUpdates_events: "applyEntityUpdates parse t serial c d = Inr (u, d') \<Longrightarrow> plugin_events d' = plugin_events d"
  by (auto simp: applyEntityUpdates_def rbind_eq_Inr Let_def upsertStateRows_def insertHistoryRows_def split: if_splits)

lemma enqueue_intents_events: "enqueue_intents env i c n xs d = Inr (u, d') \<Longrightarrow> plugin_events d' = plugin_events d"
  by (induction env i c n xs d rule: enqueue_intents.induct) (auto simp: rbind_eq_Inr split: sum.splits)

lemma completed_moved: "holds_lease i k e \<Longrightarrow> event_moved toks e (completed_event t e) \<and>
   pe_lease_token (completed_event t e) = None \<and> pe_state (completed_event t e) \<noteq> EvLeased"
  by (auto simp: event_moved_def completed_event_def holds_lease_def)

lemma complete_good:
  assumes "event_inv s" "completePluginEvent t i k (pdb s) = Inr (b, d')"
  shows "event_inv (s\<lparr>pdb := d'\<rparr>) \<and> event_before s (s\<lparr>pdb := d'\<rparr>)"
proof -
  obtain n where "update_events (holds_lease i k) (completed_event t) (pdb s) = Inr (n, d')"
    using assms(2) by (auto simp: completePluginEvent_def rbind_eq_Inr)
  then show ?thesis
    by (rule holder_update_good [OF assms(1)]) (auto simp: completed_moved holds_lease_def)
qed

lemma completeWith_Inr:
  assumes "completePluginEventWithUpdates parse env serial t i k c d = Inr (b, d')"
  shows "d' = d \<and> \<not> b \<or> (\<exists>d2 n. plugin_events d2 = plugin_events d \<and>
    update_events (holds_lease i k) (completed_event t) d2 = Inr (n, d') \<and> b = (n = 1))"
proof -
  consider "find (holds_lease i k) (plugin_events d) = None" | e where "find (holds_lease i k) (plugin_events d) = Some e" by fastforce
  then show ?thesis
  proof cases
    case 1
    with assms show ?thesis by (simp add: completePluginEventWithUpdates_def)
  next
    case 2
    with assms obtain u1 d1 u2 d2 n where steps: "applyEntityUpdates parse t serial (context_options c (snapshot_is_current c d)) d = Inr (u1, d1)"
      "(if snapshot_is_current c d then enqueue_intents env i c 0 (ec_commands c) d1 else Inr ((), d1)) = Inr (u2, d2)"
      "update_events (holds_lease i k) (completed_event t) d2 = Inr (n, d')" "b = (n = 1)"
      by (auto simp: completePluginEventWithUpdates_def rbind_eq_Inr Let_def)
    have "plugin_events d2 = plugin_events d"
      using applyEntityUpdates_events [OF steps(1)] steps(2) enqueue_intents_events by (auto split: if_splits)
    with steps show ?thesis by blast
  qed
qed

lemma completeWith_good:
  assumes "event_inv s" "completePluginEventWithUpdates parse env serial t i k c (pdb s) = Inr (b, d')"
  shows "event_inv (s\<lparr>pdb := d'\<rparr>) \<and> event_before s (s\<lparr>pdb := d'\<rparr>)"
  using completeWith_Inr [OF assms(2)]
proof
  assume "d' = pdb s \<and> \<not> b"
  then show ?thesis using same_events_good [OF assms(1), of "pdb s"] by simp
next
  assume "\<exists>d2 n. plugin_events d2 = plugin_events (pdb s) \<and>
    update_events (holds_lease i k) (completed_event t) d2 = Inr (n, d') \<and> b = (n = 1)"
  then obtain d2 n where "update_events (holds_lease i k) (completed_event t) d2 = Inr (n, d')" "plugin_events d2 = plugin_events (pdb s)"
    by blast
  then show ?thesis by (rule holder_update_good [OF assms(1)]) (auto simp: completed_moved holds_lease_def)
qed

lemma renew_good:
  assumes "event_inv s" "renewPluginEventLeases t leases ms (pdb s) = Inr (n, d')"
  shows "event_inv (s\<lparr>pdb := d'\<rparr>) \<and> event_before s (s\<lparr>pdb := d'\<rparr>)"
proof (cases "leases = []")
  case True
  then show ?thesis using assms same_events_good [OF assms(1), of "pdb s"] by (simp add: renewPluginEventLeases_def)
next
  case False
  then have up: "update_events (\<lambda>e. list_ex (\<lambda>(i, k). holds_lease i k e) leases) (\<lambda>e. e\<lparr>pe_lease_expires_at := Some (t + ms)\<rparr>) (pdb s) = Inr (n, d')"
    using assms(2) by (auto simp: renewPluginEventLeases_def rbind_eq_Inr)
  have leased: "list_ex (\<lambda>(i, k). holds_lease i k e) leases \<Longrightarrow> pe_state e = EvLeased" for e
    by (auto simp: list_ex_iff holds_lease_def)
  show ?thesis by (rule holder_update_good [OF assms(1) up refl leased]) (auto simp: event_moved_def dest: leased)
qed

lemma release_good:
  assumes "event_inv s" "releasePluginEvent t i k permanent error retryMs consume (pdb s) = Inr (b, d')"
  shows "event_inv (s\<lparr>pdb := d'\<rparr>) \<and> event_before s (s\<lparr>pdb := d'\<rparr>)"
proof -
  define f :: "plugin_event \<Rightarrow> plugin_event" where "f = (if permanent
      then (\<lambda>e. e\<lparr>pe_state := EvDead, pe_lease_expires_at := None, pe_lease_token := None, pe_finished_at := Some t, pe_last_error := Some error\<rparr>)
      else (\<lambda>e. e\<lparr>pe_state := EvQueued, pe_lease_expires_at := None, pe_lease_token := None, pe_available_at := t + retryMs,
        pe_attempts := (if consume then pe_attempts e else max (pe_attempts e - 1) 0), pe_last_error := Some error\<rparr>))"
  obtain n where up: "update_events (holds_lease i k) f (pdb s) = Inr (n, d')"
    using assms(2) unfolding releasePluginEvent_def f_def [symmetric] by (auto simp: rbind_eq_Inr)
  have f: "event_moved (used_tokens s) e (f e) \<and> pe_lease_token (f e) = None \<and> pe_state (f e) \<noteq> EvLeased" if "holds_lease i k e" for e
    using that by (simp add: f_def event_moved_def holds_lease_def)
  show ?thesis by (rule holder_update_good [OF assms(1) up refl]) (auto simp: f holds_lease_def)
qed

lemma purge_good:
  assumes inv: "event_inv s" and run: "purgePluginData t1 t2 eventDays historyDays batch (pdb s) = Inr (n, d')"
  shows "event_inv (s\<lparr>pdb := d'\<rparr>) \<and> event_before s (s\<lparr>pdb := d'\<rparr>)"
proof -
  define X where "X = set (take (nat batch) (sort_key (\<lambda>e. the (pe_finished_at e))
            (filter (\<lambda>e. pe_state e \<in> {EvCompleted, EvDead} \<and>
               (case pe_finished_at e of None \<Rightarrow> False | Some f \<Rightarrow> f < t1 - eventDays * day)) (plugin_events (pdb s)))))"
  have ev: "plugin_events d' = filter (\<lambda>e. pe_id e \<notin> pe_id ` X) (plugin_events (pdb s))"
    using run unfolding purgePluginData_def purge_events_def purge_history_def X_def Let_def rbind_eq_Inr by auto
  have sub: "X \<subseteq> {e \<in> set (plugin_events (pdb s)). pe_finished_at e \<noteq> None}"
    unfolding X_def by (rule subset_trans [OF set_take_subset]) (auto split: option.splits)
  have kept: "pe_id e \<notin> pe_id ` X" if e: "e \<in> set (plugin_events (pdb s))" "pe_finished_at e = None" for e
  proof
    assume "pe_id e \<in> pe_id ` X"
    then obtain x where x: "x \<in> X" "pe_id x = pe_id e" by auto
    with sub have "x \<in> set (plugin_events (pdb s))" "pe_finished_at x \<noteq> None" by blast+
    with event_id_unique [OF inv _ e(1) x(2)] e(2) show False by simp
  qed
  have "event_inv (s\<lparr>pdb := d'\<rparr>)"
    using inv by (simp add: event_inv_def ev distinct_map_filter)
  moreover have "event_before s (s\<lparr>pdb := d'\<rparr>)"
    unfolding event_before_def
  proof (intro conjI ballI impI)
    show "\<exists>e \<in> set (plugin_events (pdb s)). event_moved (used_tokens s) e e'"
      if "e' \<in> set (plugin_events (pdb (s\<lparr>pdb := d'\<rparr>)))" for e'
      using that by (intro bexI [of _ e'] event_moved_refl) (simp add: ev)
    show "e \<in> set (plugin_events (pdb (s\<lparr>pdb := d'\<rparr>)))"
      if "e \<in> set (plugin_events (pdb s))" "pe_state e = EvDead \<and> pe_finished_at e = None" for e
      using that kept [of e] by (simp add: ev)
  qed simp_all
  ultimately show ?thesis ..
qed

lemma event_step_good:
  assumes "event_step s s'" "event_inv s"
  shows "event_inv s' \<and> event_before s s'"
  using assms(1)
proof (cases rule: event_step.cases)
  case ingest
  show ?thesis unfolding ingest(1) by (rule ingest_good [OF assms(2) ingest(2,3)])
next
  case lease
  show ?thesis unfolding lease(1) by (rule lease_good [OF assms(2) lease(3,4)])
next
  case complete
  show ?thesis unfolding complete(1) by (rule complete_good [OF assms(2) complete(2)])
next
  case completeWith
  show ?thesis unfolding completeWith(1) by (rule completeWith_good [OF assms(2) completeWith(2)])
next
  case renew
  show ?thesis unfolding renew(1) by (rule renew_good [OF assms(2) renew(2)])
next
  case release
  show ?thesis unfolding release(1) by (rule release_good [OF assms(2) release(2)])
next
  case purge
  show ?thesis unfolding purge(1) by (rule purge_good [OF assms(2) purge(2)])
next
  case elsewhere
  show ?thesis unfolding elsewhere(1) by (rule same_events_good [OF assms(2) elsewhere(2)])
qed

interpretation events: progressing_system "\<lambda>s. plugin_events (pdb s) = []" event_step event_inv event_before
proof unfold_locales
  show "event_inv s" if "plugin_events (pdb s) = []" for s using that by (simp add: event_inv_def)
  show "event_inv s'" if "event_inv s" "event_step s s'" for s s' using event_step_good that by blast
  show "event_before s s" for s by (rule event_before_refl)
  show "event_before a c" if "event_before a b" "event_before b c" for a b c using that by (rule event_before_trans)
  show "event_before s s'" if "event_inv s" "event_step s s'" for s s' using event_step_good that by blast
qed


section \<open>Theorems\<close>

lemma no_holder_update: "\<forall>e \<in> set (plugin_events d). \<not> p e \<Longrightarrow> update_events p f d = Inr (0, d)"
  by (auto simp: update_events_def list_all_iff filter_empty_conv map_idI)

lemma no_holder:
  assumes "\<forall>e \<in> set (plugin_events d). \<not> holds_lease i k e"
  shows "completePluginEvent t i k d = Inr (False, d)"
    "completePluginEventWithUpdates parse env serial t i k c d = Inr (False, d)"
    "0 \<le> retryMs \<Longrightarrow> releasePluginEvent t i k permanent error retryMs consume d = Inr (False, d)"
    "0 < ms \<Longrightarrow> renewPluginEventLeases t [(i, k)] ms d = Inr (0, d)"
proof -
  have "find (holds_lease i k) (plugin_events d) = None" using assms by (simp add: find_None_iff)
  then show "completePluginEventWithUpdates parse env serial t i k c d = Inr (False, d)"
    by (simp add: completePluginEventWithUpdates_def)
  show "completePluginEvent t i k d = Inr (False, d)"
    by (simp add: completePluginEvent_def no_holder_update [OF assms])
  show "releasePluginEvent t i k permanent error retryMs consume d = Inr (False, d)" if "0 \<le> retryMs"
    using that by (simp add: releasePluginEvent_def no_holder_update [OF assms])
  show "renewPluginEventLeases t [(i, k)] ms d = Inr (0, d)" if "0 < ms"
    using that assms by (simp add: renewPluginEventLeases_def no_holder_update)
qed

lemma later_row:
  assumes "event_inv s" "event_step\<^sup>*\<^sup>* s s2" "e2 \<in> set (plugin_events (pdb s2))" "pe_id e2 \<in> used_ids s"
  obtains e where "e \<in> set (plugin_events (pdb s))" "event_moved (used_tokens s) e e2"
  using events.steps_before [OF assms(2,1)] assms(3,4) unfolding event_before_def by blast

lemma completion_row:
  assumes "completePluginEvent t i k d = Inr (True, d') \<or> completePluginEventWithUpdates parse env serial t i k c d = Inr (True, d')"
  shows "\<exists>e \<in> set (plugin_events d'). pe_id e = i \<and> pe_state e = EvCompleted"
proof -
  obtain d2 where "update_events (holds_lease i k) (completed_event t) d2 = Inr (1, d')"
    using assms by (auto simp: completePluginEvent_def rbind_eq_Inr dest: completeWith_Inr)
  then have one: "length (filter (holds_lease i k) (plugin_events d2)) = 1"
    and d': "plugin_events d' = map (\<lambda>e. if holds_lease i k e then completed_event t e else e) (plugin_events d2)"
    by (auto simp: update_events_Inr)
  then obtain e where "e \<in> set (plugin_events d2)" "holds_lease i k e"
    by (metis filter_empty_conv list.size(3) zero_neq_one)
  then have "completed_event t e \<in> set (plugin_events d')" "pe_id (completed_event t e) = i" "pe_state (completed_event t e) = EvCompleted"
    unfolding d' by (auto simp: completed_event_def holds_lease_def intro!: image_eqI [of _ _ e])
  then show ?thesis by blast
qed

text \<open>C32. The effects of a device event happen at most once. After a completion of the event has succeeded, with or without
  entity updates and commands, every later completion of it is refused and changes nothing, with any lease token and any
  results, for all interleavings with other managers, retries and retention.\<close>

theorem event_completes_once:
  assumes "plugin_events (pdb s0) = []" "event_step\<^sup>*\<^sup>* s0 s"
    and "completePluginEvent t i k (pdb s) = Inr (True, d') \<or>
         completePluginEventWithUpdates parse env serial t i k c (pdb s) = Inr (True, d')"
    and "event_step\<^sup>*\<^sup>* (s\<lparr>pdb := d'\<rparr>) s2"
  shows "completePluginEvent t2 i k2 (pdb s2) = Inr (False, pdb s2) \<and>
         completePluginEventWithUpdates parse2 env2 serial2 t2 i k2 c2 (pdb s2) = Inr (False, pdb s2)"
proof -
  have "event_inv s" by (rule events.reachable_inv [OF assms(1,2)])
  then have inv: "event_inv (s\<lparr>pdb := d'\<rparr>)" using assms(3) complete_good completeWith_good by blast
  obtain e where e: "e \<in> set (plugin_events d')" "pe_id e = i" "pe_state e = EvCompleted"
    using completion_row [OF assms(3)] by blast
  have "\<not> holds_lease i k2 e2" if e2: "e2 \<in> set (plugin_events (pdb s2))" for e2
  proof
    assume h: "holds_lease i k2 e2"
    then have "pe_id e2 \<in> used_ids (s\<lparr>pdb := d'\<rparr>)" using inv e by (auto simp: event_inv_def holds_lease_def)
    with inv assms(4) e2 obtain e1 where "e1 \<in> set (plugin_events (pdb (s\<lparr>pdb := d'\<rparr>)))"
      "event_moved (used_tokens (s\<lparr>pdb := d'\<rparr>)) e1 e2" by (rule later_row)
    moreover from this h e have "e1 = e"
      by (intro event_id_unique [OF inv]) (auto simp: event_moved_def holds_lease_def)
    ultimately show False using h e by (auto simp: event_moved_def holds_lease_def)
  qed
  then have "\<forall>e \<in> set (plugin_events (pdb s2)). \<not> holds_lease i k2 e" by blast
  then show ?thesis by (simp add: no_holder)
qed

text \<open>C33. A lost lease stays lost. A manager whose lease token for an event is no longer current can at no later time
  complete the event, apply its updates, release it or extend the lease: each of these calls returns failure and leaves the database as it is.\<close>

theorem lost_lease_stays_lost:
  assumes "plugin_events (pdb s0) = []" "event_step\<^sup>*\<^sup>* s0 s" "i \<in> used_ids s" "k \<in> used_tokens s"
    and "\<forall>e \<in> set (plugin_events (pdb s)). \<not> holds_lease i k e" "event_step\<^sup>*\<^sup>* s s2" "0 \<le> retryMs" "0 < ms"
  shows "completePluginEvent t i k (pdb s2) = Inr (False, pdb s2) \<and>
     completePluginEventWithUpdates parse env serial t i k c (pdb s2) = Inr (False, pdb s2) \<and>
     releasePluginEvent t i k permanent error retryMs consume (pdb s2) = Inr (False, pdb s2) \<and>
     renewPluginEventLeases t [(i, k)] ms (pdb s2) = Inr (0, pdb s2)"
proof -
  have inv: "event_inv s" by (rule events.reachable_inv [OF assms(1,2)])
  have "\<not> holds_lease i k e2" if e2: "e2 \<in> set (plugin_events (pdb s2))" for e2
  proof
    assume h: "holds_lease i k e2"
    then have "pe_id e2 \<in> used_ids s" using assms(3) by (simp add: holds_lease_def)
    with inv assms(6) e2 obtain e where e: "e \<in> set (plugin_events (pdb s))" "event_moved (used_tokens s) e e2"
      by (rule later_row)
    with h assms(4) have "pe_id e = i" "pe_lease_token e = Some k" by (auto simp: event_moved_def holds_lease_def)
    moreover from this e(1) inv have "pe_state e = EvLeased" by (auto simp: event_inv_def)
    ultimately show False using assms(5) e(1) by (auto simp: holds_lease_def)
  qed
  then have "\<forall>e \<in> set (plugin_events (pdb s2)). \<not> holds_lease i k e" by blast
  then show ?thesis using assms(7,8) by (simp add: no_holder)
qed

text \<open>Ingestion is idempotent. When an event has been inserted, a later delivery with the same event identifier from the same device
  is a duplicate if sequence, kind, schema and payload agree and a conflict otherwise, and changes nothing, as long as
  retention has not removed the row, whatever has happened to the event in between.\<close>

theorem event_ingest_idempotent:
  assumes "plugin_events (pdb s0) = []" "event_step\<^sup>*\<^sup>* s0 s" "newId \<notin> used_ids s"
    and "find (\<lambda>x. device_uid x = uid) (devices (core_db (pdb s))) = Some dev"
    and "ingestDeviceEvent newId t uid e packet (pdb s) = Inr ((EvInserted, x), d')"
    and "event_step\<^sup>*\<^sup>* (s\<lparr>used_ids := insert newId (used_ids s), pdb := d'\<rparr>) s2"
    and "newId \<in> pe_id ` set (plugin_events (pdb s2))"
    and "find (\<lambda>x. device_uid x = uid) (devices (core_db (pdb s2))) = Some dev2" "did dev2 = did dev"
    and "ev_id e2 = ev_id e" "0 \<le> ev_seq e2" "ev_seq e2 \<le> EVENT_UINT64_MAX" "0 \<notin> set (ev_kind e2)"
  shows "ingestDeviceEvent newId2 t2 uid e2 packet2 (pdb s2) =
     Inr ((if ev_seq e2 = ev_seq e \<and> ev_kind e2 = ev_kind e \<and> ev_schema e2 = ev_schema e \<and> packet2 = packet
           then EvDuplicate else EvConflict, x), pdb s2)"
proof -
  define s1 where "s1 = s\<lparr>used_ids := insert newId (used_ids s), pdb := d'\<rparr>"
  have "event_inv s" by (rule events.reachable_inv [OF assms(1,2)])
  then have inv: "event_inv s1" unfolding s1_def using ingest_good assms(3,5) by blast
  have steps: "event_step\<^sup>*\<^sup>* s1 s2" using assms(6) by (simp add: s1_def)
  obtain row where row: "row = event_row newId t dev (route (did dev) (pdb s)) e packet"
    "plugin_events d' = plugin_events (pdb s) @ [row]"
    using ingest_Inr [OF assms(5)] assms(4) by auto
  have x: "x = hex_encode (ev_id e)" using assms(5) by (auto simp: ingestDeviceEvent_def Let_def split: option.splits if_splits)
  obtain r2 where r2: "r2 \<in> set (plugin_events (pdb s2))" "pe_id r2 = newId" using assms(7) by auto
  then obtain r1 where r1: "r1 \<in> set (plugin_events (pdb s1))" "event_moved (used_tokens s1) r1 r2"
    using later_row [OF inv steps r2(1)] by (auto simp: s1_def)
  then have "r1 = row" using r2 row by (intro event_id_unique [OF inv]) (auto simp: s1_def event_moved_def)
  with r1 row have r2': "pe_device r2 = did dev" "pe_eventId r2 = x" "pe_seq r2 = ev_seq e" "pe_kind r2 = ev_kind e"
    "pe_schema r2 = ev_schema e" "pe_payload r2 = packet" by (auto simp: event_moved_def x)
  have "event_inv s2" by (rule events.steps_inv [OF steps inv])
  then have "distinct (map (\<lambda>e. (pe_device e, pe_eventId e)) (plugin_events (pdb s2)))" by (simp add: event_inv_def)
  from find_unique_iff [OF this, of "(did dev, x)" r2]
  have "find (\<lambda>y. pe_device y = did dev \<and> pe_eventId y = x) (plugin_events (pdb s2)) = Some r2" using r2(1) r2'(1,2) by simp
  then have found: "find (\<lambda>y. pe_device y = did dev2 \<and> pe_eventId y = hex_encode (ev_id e2)) (plugin_events (pdb s2)) = Some r2"
    using assms(9,10) x by simp
  have "event_check (event_row newId2 t2 dev2 (route (did dev2) (pdb s2)) e2 packet2)"
    using assms(11-13) by (simp add: event_check_def) (simp add: event_row_def Let_def INT4_MAX_def)
  with found r2' assms(8,10) x show ?thesis by (auto simp: ingestDeviceEvent_def Let_def)
qed

text \<open>Events without a route are kept forever. An event of a device without plugin binding is stored as dead without a finishing time, which the
  retention sweep asks for; in every later state the row is still there, unchanged, however often the sweep runs.\<close>

theorem unrouted_event_never_purged:
  assumes "plugin_events (pdb s0) = []" "event_step\<^sup>*\<^sup>* s0 s" "newId \<notin> used_ids s"
    and "find (\<lambda>x. device_uid x = uid) (devices (core_db (pdb s))) = Some dev" "find_binding (did dev) (pdb s) = None"
    and "ingestDeviceEvent newId t uid e packet (pdb s) = Inr ((EvInserted, x), d')"
    and "event_step\<^sup>*\<^sup>* (s\<lparr>used_ids := insert newId (used_ids s), pdb := d'\<rparr>) s2"
  shows "\<exists>row \<in> set (plugin_events (pdb s2)). pe_id row = newId \<and> pe_state row = EvDead \<and> pe_payload row = packet"
proof -
  have "event_inv s" by (rule events.reachable_inv [OF assms(1,2)])
  then have inv: "event_inv (s\<lparr>used_ids := insert newId (used_ids s), pdb := d'\<rparr>)" using ingest_good assms(3,6) by blast
  obtain row where row: "row = event_row newId t dev (route (did dev) (pdb s)) e packet" "row \<in> set (plugin_events d')"
    using ingest_Inr [OF assms(6)] assms(4) by auto
  have dead: "pe_state row = EvDead" using assms(5) by (simp add: row route_def event_row_def)
  with row events.steps_before [OF assms(7) inv] have "row \<in> set (plugin_events (pdb s2))"
    by (auto simp: event_before_def)
  with row dead show ?thesis by (intro bexI [of _ row]) auto
qed

text \<open>Negative sequence numbers pass the envelope schema. The schema announces an unsigned 64-bit integer, and the database requires
  one, but a negative bigint is accepted by the decoder; storing the event then fails in the database.\<close>

theorem negative_sequence_accepted:
  assumes "n < 0" "length i = MAX_EVENT_ID_BYTES" "knd \<noteq> []" "byteLength knd \<le> MAX_EVENT_KIND_BYTES"
    and "find (\<lambda>x. device_uid x = uid) (devices (core_db d)) = Some dev"
  shows "\<exists>e. parse_event_envelope
       (JObj [(js ''id'', JBytes i), (js ''seq'', JBig n), (js ''kind'', JStr knd), (js ''schema'', JNum (Fin 1)), (js ''data'', JNull)])
       = Some e \<and> ev_seq e = n \<and> ingestDeviceEvent newId t uid e packet d = Inl PDatabase"
proof -
  let ?e = "\<lparr>ev_id = i, ev_seq = n, ev_kind = knd, ev_schema = 1, ev_data = JNull\<rparr>"
  have "parse_event_envelope
       (JObj [(js ''id'', JBytes i), (js ''seq'', JBig n), (js ''kind'', JStr knd), (js ''schema'', JNum (Fin 1)), (js ''data'', JNull)])
       = Some ?e"
    using assms(1-4) by (simp add: parse_event_envelope_def event_sequence_def event_schema_number_def EVENT_UINT64_MAX_def MAX_EVENT_SCHEMA_def)
  moreover have "\<not> event_check (event_row newId t dev (route (did dev) d) ?e packet)"
    using assms(1) by (simp add: event_check_def)
  then have "ingestDeviceEvent newId t uid ?e packet d = Inl PDatabase" using assms(5) by (simp add: ingestDeviceEvent_def Let_def)
  ultimately show ?thesis by auto
qed


section \<open>Examples\<close>

text \<open>One device without a plugin, one bound to an installation.\<close>

definition ex_core :: db where
  "ex_core = \<lparr>users = [], user_projects = [],
     devices = [\<lparr>did = [1], device_uid = [101], dproject_id = [9], next_command_sequence = 0\<rparr>,
                \<lparr>did = [2], device_uid = [102], dproject_id = [9], next_command_sequence = 0\<rparr>],
     command_batches = [], device_commands = [], debug_executions = [],
     plugin_installations = [\<lparr>iid = [7], iproject_id = [9], iplugin_id = [70], iplugin_version = [71], imanifest_hash = [72],
       ienabled = True, iconfig = JNull\<rparr>],
     plugin_device_bindings = [\<lparr>bdevice_id = [1], binstallation_id = [7], bprofile_id = [73], bprofile_version = 1\<rparr>],
     notifications = []\<rparr>"

definition ex_pdb :: plugin_db where
  "ex_pdb = \<lparr>core_db = ex_core, manifest_snapshots = [], descriptors = [], entity_states = [], entity_history = [], plugin_events = []\<rparr>"

definition ex_sys :: event_sys where "ex_sys = \<lparr>used_ids = {}, used_tokens = {}, pdb = ex_pdb\<rparr>"

definition ex_event :: DeviceEventEnvelope where
  "ex_event = \<lparr>ev_id = replicate 16 1, ev_seq = 5, ev_kind = [65], ev_schema = 1, ev_data = JNull\<rparr>"

definition ex_db_after :: "'e + 'a \<times> plugin_db \<Rightarrow> plugin_db" where
  "ex_db_after r = (case r of Inr (_, d) \<Rightarrow> d | Inl _ \<Rightarrow> ex_pdb)"

definition ex_pdb1 :: plugin_db where "ex_pdb1 = ex_db_after (ingestDeviceEvent [11] 0 [101] ex_event [1] ex_pdb)"
definition ex_token :: "nat \<Rightarrow> uuid \<Rightarrow> jsstring" where "ex_token n i = n # i"
definition ex_pdb2 :: plugin_db where
  "ex_pdb2 = ex_db_after (leasePluginEvents (\<lambda>_. False) (ex_token 1) 0 32 100 ex_pdb1)"
definition ex_pdb3 :: plugin_db where "ex_pdb3 = ex_db_after (completePluginEvent 50 [11] [1, 11] ex_pdb2)"
definition ex_pdb4 :: plugin_db where
  "ex_pdb4 = ex_db_after (leasePluginEvents (\<lambda>_. False) (ex_token 2) 200 32 100 ex_pdb2)"

definition ex_sys1 :: event_sys where "ex_sys1 = \<lparr>used_ids = {[11]}, used_tokens = {}, pdb = ex_pdb1\<rparr>"
definition ex_sys2 :: event_sys where "ex_sys2 = \<lparr>used_ids = {[11]}, used_tokens = {[1, 11]}, pdb = ex_pdb2\<rparr>"
definition ex_sys4 :: event_sys where "ex_sys4 = \<lparr>used_ids = {[11]}, used_tokens = {[1, 11], [2, 11]}, pdb = ex_pdb4\<rparr>"

lemma ex_db_after_Inr: "(case r of Inl _ \<Rightarrow> False | Inr (x, _) \<Rightarrow> P x) \<Longrightarrow> \<exists>x. r = Inr (x, ex_db_after r) \<and> P x"
  by (auto simp: ex_db_after_def split: sum.splits)

lemma ex_ingested: "ingestDeviceEvent [11] 0 [101] ex_event [1] ex_pdb = Inr ((EvInserted, hex_encode (replicate 16 1)), ex_pdb1)"
proof -
  have "\<exists>x. ingestDeviceEvent [11] 0 [101] ex_event [1] ex_pdb = Inr (x, ex_pdb1) \<and> x = (EvInserted, hex_encode (replicate 16 1))"
    unfolding ex_pdb1_def by (rule ex_db_after_Inr) code_simp
  then show ?thesis by auto
qed

lemma ex_leased: "\<exists>rows. leasePluginEvents (\<lambda>_. False) (ex_token 1) 0 32 100 ex_pdb1 = Inr (rows, ex_pdb2) \<and> map pe_id rows = [[11]]"
  unfolding ex_pdb2_def by (rule ex_db_after_Inr) code_simp

lemma ex_completed: "completePluginEvent 50 [11] [1, 11] ex_pdb2 = Inr (True, ex_pdb3)"
proof -
  have "\<exists>x. completePluginEvent 50 [11] [1, 11] ex_pdb2 = Inr (x, ex_pdb3) \<and> x" unfolding ex_pdb3_def by (rule ex_db_after_Inr) code_simp
  then show ?thesis by auto
qed

lemma ex_leased_again: "\<exists>rows. leasePluginEvents (\<lambda>_. False) (ex_token 2) 200 32 100 ex_pdb2 = Inr (rows, ex_pdb4) \<and> map pe_id rows = [[11]]"
  unfolding ex_pdb4_def by (rule ex_db_after_Inr) code_simp

lemma ex_token_inj: "inj (ex_token n)" by (simp add: ex_token_def inj_on_def)

lemma ex_token_image:
  assumes "map pe_id rows = [[11]]"
  shows "(\<lambda>e. ex_token n (pe_id e)) ` set rows = {[n, 11]}"
proof -
  have "(\<lambda>e. ex_token n (pe_id e)) ` set rows = ex_token n ` set (map pe_id rows)" by (simp add: image_image)
  then show ?thesis by (simp add: assms ex_token_def)
qed

lemma ex_event_run1: "event_step ex_sys ex_sys1"
  using event_step.ingest [of "[11]" ex_sys 0 "[101]" ex_event "[1]"] ex_ingested by (simp add: ex_sys_def ex_sys1_def)

lemma ex_event_run2: "event_step ex_sys1 ex_sys2"
proof -
  obtain rows where rows: "leasePluginEvents (\<lambda>_. False) (ex_token 1) 0 32 100 (pdb ex_sys1) = Inr (rows, ex_pdb2)" "map pe_id rows = [[11]]"
    using ex_leased by (auto simp: ex_sys1_def)
  have unused: "range (ex_token 1) \<inter> used_tokens ex_sys1 = {}" by (simp add: ex_sys1_def)
  have "ex_sys2 = ex_sys1\<lparr>used_tokens := used_tokens ex_sys1 \<union> (\<lambda>e. ex_token 1 (pe_id e)) ` set rows, pdb := ex_pdb2\<rparr>"
    unfolding ex_token_image [OF rows(2)] by (simp add: ex_sys1_def ex_sys2_def)
  with event_step.lease [OF ex_token_inj unused rows(1)] show ?thesis by simp
qed

lemma ex_event_run3: "event_step ex_sys2 ex_sys4"
proof -
  obtain rows where rows: "leasePluginEvents (\<lambda>_. False) (ex_token 2) 200 32 100 (pdb ex_sys2) = Inr (rows, ex_pdb4)" "map pe_id rows = [[11]]"
    using ex_leased_again by (auto simp: ex_sys2_def)
  have unused: "range (ex_token 2) \<inter> used_tokens ex_sys2 = {}" by (auto simp: ex_sys2_def ex_token_def)
  have "ex_sys4 = ex_sys2\<lparr>used_tokens := used_tokens ex_sys2 \<union> (\<lambda>e. ex_token 2 (pe_id e)) ` set rows, pdb := ex_pdb4\<rparr>"
    unfolding ex_token_image [OF rows(2)] by (simp add: ex_sys2_def ex_sys4_def insert_commute)
  with event_step.lease [OF ex_token_inj unused rows(1)] show ?thesis by simp
qed

lemmas ex_event_run = ex_event_run1 ex_event_run2 ex_event_run3

lemma ex_event_runs: "event_step\<^sup>*\<^sup>* ex_sys ex_sys2" "event_step\<^sup>*\<^sup>* ex_sys ex_sys4" "plugin_events (pdb ex_sys) = []"
proof -
  show two: "event_step\<^sup>*\<^sup>* ex_sys ex_sys2" by (rule rtranclp_trans [OF r_into_rtranclp r_into_rtranclp]) (rule ex_event_run)+
  show "event_step\<^sup>*\<^sup>* ex_sys ex_sys4" by (rule rtranclp.rtrancl_into_rtrancl [OF two]) (rule ex_event_run)
  show "plugin_events (pdb ex_sys) = []" by (simp add: ex_sys_def ex_pdb_def)
qed

theorem event_completes_once_witness: "completePluginEvent 60 [11] [1, 11] ex_pdb3 = Inr (False, ex_pdb3)"
  using event_completes_once [OF ex_event_runs(3,1), of 50 "[11]" "[1, 11]" ex_pdb3 _ _ _ _ "ex_sys2\<lparr>pdb := ex_pdb3\<rparr>" 60 "[1, 11]"] ex_completed
  by (auto simp: ex_sys2_def)

text \<open>The first lease ran out and the event was leased again.\<close>

theorem lost_lease_stays_lost_witness: "completePluginEvent 250 [11] [1, 11] ex_pdb4 = Inr (False, ex_pdb4)"
proof -
  have "\<forall>e \<in> set (plugin_events (pdb ex_sys4)). \<not> holds_lease [11] [1, 11] e" unfolding ex_sys4_def by code_simp
  from lost_lease_stays_lost [OF ex_event_runs(3,2) _ _ this rtranclp.rtrancl_refl, of 0 1] show ?thesis by (simp add: ex_sys4_def)
qed

theorem event_ingest_idempotent_witness:
  "ingestDeviceEvent [12] 9 [101] ex_event [1] ex_pdb1 = Inr ((EvDuplicate, hex_encode (replicate 16 1)), ex_pdb1)"
proof -
  have found: "find (\<lambda>x. device_uid x = [101]) (devices (core_db (pdb ex_sys))) = Some (devices ex_core ! 0)"
    "find (\<lambda>x. device_uid x = [101]) (devices (core_db (pdb ex_sys1))) = Some (devices ex_core ! 0)"
    "[11] \<in> pe_id ` set (plugin_events (pdb ex_sys1))" "ev_seq ex_event \<le> EVENT_UINT64_MAX" "0 \<le> ev_seq ex_event" "0 \<notin> set (ev_kind ex_event)"
    unfolding ex_sys_def ex_sys1_def by code_simp+
  have "ex_sys1 = ex_sys\<lparr>used_ids := insert [11] (used_ids ex_sys), pdb := ex_pdb1\<rparr>" by (simp add: ex_sys_def ex_sys1_def)
  then have run: "event_step\<^sup>*\<^sup>* (ex_sys\<lparr>used_ids := insert [11] (used_ids ex_sys), pdb := ex_pdb1\<rparr>) ex_sys1" by simp
  have ins: "ingestDeviceEvent [11] 0 [101] ex_event [1] (pdb ex_sys) = Inr ((EvInserted, hex_encode (replicate 16 1)), ex_pdb1)"
    using ex_ingested by (simp add: ex_sys_def)
  have new: "[11] \<notin> used_ids ex_sys" by (simp add: ex_sys_def)
  show ?thesis
    using event_ingest_idempotent [OF ex_event_runs(3) rtranclp.rtrancl_refl new found(1) ins run found(3,2) refl refl found(5,4,6), of "[12]" 9 "[1]"]
    by (simp add: ex_sys1_def)
qed

definition ex_pdb5 :: plugin_db where "ex_pdb5 = ex_db_after (ingestDeviceEvent [13] 0 [102] ex_event [1] ex_pdb)"
definition ex_pdb6 :: plugin_db where "ex_pdb6 = ex_db_after (purgePluginData 999999999999 999999999999 1 1 2000 ex_pdb5)"

text \<open>The sweep long after the retention period.\<close>

theorem unrouted_event_never_purged_witness:
  "\<exists>row \<in> set (plugin_events ex_pdb6). pe_id row = [13] \<and> pe_state row = EvDead \<and> pe_payload row = [1]"
proof -
  have ins: "\<exists>x. ingestDeviceEvent [13] 0 [102] ex_event [1] ex_pdb = Inr (x, ex_pdb5) \<and> fst x = EvInserted"
    unfolding ex_pdb5_def by (rule ex_db_after_Inr) code_simp
  have purge: "\<exists>x. purgePluginData 999999999999 999999999999 1 1 2000 ex_pdb5 = Inr (x, ex_pdb6) \<and> True"
    unfolding ex_pdb6_def by (rule ex_db_after_Inr) code_simp
  have found: "find (\<lambda>x. device_uid x = [102]) (devices (core_db (pdb ex_sys))) = Some (devices ex_core ! 1)"
    "find_binding (did (devices ex_core ! 1)) (pdb ex_sys) = None" unfolding ex_sys_def by code_simp+
  obtain x where x: "ingestDeviceEvent [13] 0 [102] ex_event [1] (pdb ex_sys) = Inr ((EvInserted, x), ex_pdb5)"
    using ins by (auto simp: ex_sys_def)
  let ?s = "ex_sys\<lparr>used_ids := insert [13] (used_ids ex_sys), pdb := ex_pdb5\<rparr>"
  obtain n where "purgePluginData 999999999999 999999999999 1 1 2000 (pdb ?s) = Inr (n, ex_pdb6)" using purge by auto
  then have run: "event_step\<^sup>*\<^sup>* ?s (?s\<lparr>pdb := ex_pdb6\<rparr>)" by (intro r_into_rtranclp event_step.purge)
  have "[13] \<notin> used_ids ex_sys" by (simp add: ex_sys_def)
  from unrouted_event_never_purged [OF ex_event_runs(3) rtranclp.rtrancl_refl this found x run] show ?thesis by simp
qed

theorem negative_sequence_accepted_witness:
  "\<exists>e. parse_event_envelope
       (JObj [(js ''id'', JBytes (replicate 16 1)), (js ''seq'', JBig (- 3)), (js ''kind'', JStr [65]), (js ''schema'', JNum (Fin 1)), (js ''data'', JNull)])
       = Some e \<and> ev_seq e = - 3 \<and> ingestDeviceEvent [14] 0 [101] e [1] ex_pdb = Inl PDatabase"
  using negative_sequence_accepted [of "- 3" "replicate 16 1" "[65]" "[101]" ex_pdb "devices ex_core ! 0" "[14]" 0 "[1]"]
  by (simp add: MAX_EVENT_ID_BYTES_def MAX_EVENT_KIND_BYTES_def ex_pdb_def ex_core_def)

end
