(* ===== verification/SdkValidation.thy ===== *)
theory SdkValidation
  imports PluginEntities Topic Identifiers
begin

text \<open>
  The checks plugins and platform share (\<^verbatim>\<open>plugin-sdk/src/validation.ts\<close>): manifests, inputs of actions and user
  interface routes, and batches of entity updates. Values have the static types of \<^verbatim>\<open>types.ts\<close>; an object is the list of its
  own properties, and reading a property that is missing finds the one of \<^verbatim>\<open>Object.prototype\<close>.
\<close>

section \<open>Objects\<close>

datatype 'v looked = Own 'v | Inherited | Undefined

definition OBJECT_PROTOTYPE :: "jsstring list" where
  "OBJECT_PROTOTYPE = map js [''__defineGetter__'', ''__defineSetter__'', ''__lookupGetter__'', ''__lookupSetter__'', ''__proto__'',
     ''constructor'', ''hasOwnProperty'', ''isPrototypeOf'', ''propertyIsEnumerable'', ''toLocaleString'', ''toString'', ''valueOf'']"

definition get_property :: "(jsstring \<times> 'v) list \<Rightarrow> jsstring \<Rightarrow> 'v looked" where
  "get_property ps key =
     (case map_of ps key of Some v \<Rightarrow> Own v | None \<Rightarrow> if key \<in> set OBJECT_PROTOTYPE then Inherited else Undefined)"

section \<open>Manifests\<close>

datatype field_type = TString | TNumber | TInteger | TBoolean

record ActionInputField =
  af_type :: field_type
  af_required :: "bool option"
  af_enum :: "jsstring list option"
  af_min :: "rat option"
  af_max :: "rat option"
  af_maxLength :: "int option"
  af_title :: "jsstring option"
  af_description :: "jsstring option"
  af_default :: "jsval option"

type_synonym ActionInputSchema = "(jsstring \<times> ActionInputField) list"

record DeviceProfileDescriptor =
  dp_id :: jsstring
  dp_version :: int
  dp_manufacturer :: jsstring
  dp_model :: jsstring
  dp_capabilities :: "jsstring list"
  dp_entities :: "EntityDescriptorInput list"

record ActionDescriptor =
  ad_id :: jsstring
  ad_inputSchema :: ActionInputSchema
  ad_wireCommand :: jsstring
  ad_wireSchemaVersion :: int
  ad_requiresHumanApproval :: "bool option"

record EventDescriptor =
  vd_kind :: jsstring
  vd_schemaVersion :: int
  vd_description :: "jsstring option"

datatype http_method = GET | POST

record PluginUiRoute =
  ur_id :: jsstring
  ur_path :: jsstring
  ur_methods :: "http_method list option"
  ur_querySchema :: "ActionInputSchema option"
  ur_actionSchema :: "ActionInputSchema option"

record PluginUiAsset =
  ua_path :: jsstring
  ua_contentType :: jsstring
  ua_sha256 :: jsstring

record PluginManifest =
  pm_id :: jsstring
  pm_version :: jsstring
  pm_displayName :: "jsstring option"
  pm_profiles :: "DeviceProfileDescriptor list"
  pm_actions :: "ActionDescriptor list"
  pm_events :: "EventDescriptor list"
  pm_ui :: "(PluginUiRoute list \<times> PluginUiAsset list option) option"

subsection \<open>Bounds and patterns of the schema\<close>

text \<open>\<open>len a b s\<close>: \<^verbatim>\<open>z.string().min(a).max(b)\<close>, and the same for arrays; \<open>opt\<close> is \<^verbatim>\<open>.optional()\<close>.\<close>

definition len :: "nat \<Rightarrow> nat \<Rightarrow> 'a list \<Rightarrow> bool" where "len a b s \<longleftrightarrow> a \<le> length s \<and> length s \<le> b"
definition opt :: "('a \<Rightarrow> bool) \<Rightarrow> 'a option \<Rightarrow> bool" where "opt p x = (case x of None \<Rightarrow> True | Some v \<Rightarrow> p v)"

text \<open>\<^verbatim>\<open>z.number().int()\<close> also asks for a safe integer.\<close>

definition z_int :: "int \<Rightarrow> bool" where "z_int i \<longleftrightarrow> \<bar>i\<bar> \<le> MAX_SAFE_INTEGER"

definition lower_letter :: "nat \<Rightarrow> bool" where "lower_letter c \<longleftrightarrow> 97 \<le> c \<and> c \<le> 122"
definition digit :: "nat \<Rightarrow> bool" where "digit c \<longleftrightarrow> 48 \<le> c \<and> c \<le> 57"

text \<open>\<^verbatim>\<open>/^[a-z][a-z0-9]*(?:[._-][a-z0-9]+)*$/\<close>; the flag says that a separator was just read.\<close>

fun id_rest :: "bool \<Rightarrow> jsstring \<Rightarrow> bool" where
  "id_rest sep [] = (\<not> sep)"
| "id_rest sep (c # cs) =
     (if lower_letter c \<or> digit c then id_rest False cs
      else c \<in> {46, 95, 45} \<and> \<not> sep \<and> id_rest True cs)"

definition plugin_id_pattern :: "jsstring \<Rightarrow> bool" where
  "plugin_id_pattern s = (case s of [] \<Rightarrow> False | c # cs \<Rightarrow> lower_letter c \<and> id_rest False cs)"

text \<open>\<^verbatim>\<open>[A-Za-z0-9._~-]\<close>, the route pattern \<^verbatim>\<open>/^\/(?:[..]+\/?)*$/\<close> and the asset pattern
  \<^verbatim>\<open>/^\/(?:[..]+\/)*[..]+$/\<close>, by the segments after the first slash.\<close>

definition path_char :: "nat \<Rightarrow> bool" where
  "path_char c \<longleftrightarrow> lower_letter c \<or> (65 \<le> c \<and> c \<le> 90) \<or> digit c \<or> c \<in> {46, 95, 126, 45}"

definition path_segment :: "jsstring \<Rightarrow> bool" where "path_segment s \<longleftrightarrow> s \<noteq> [] \<and> list_all path_char s"

definition route_pattern :: "jsstring \<Rightarrow> bool" where
  "route_pattern s =
     (case s of [] \<Rightarrow> False
      | c # cs \<Rightarrow> c = 47 \<and> list_all path_segment (butlast (split_on 47 cs)) \<and>
                   (last (split_on 47 cs) = [] \<or> path_segment (last (split_on 47 cs))))"

definition asset_pattern :: "jsstring \<Rightarrow> bool" where
  "asset_pattern s = (case s of [] \<Rightarrow> False | c # cs \<Rightarrow> c = 47 \<and> list_all path_segment (split_on 47 cs))"

definition no_traversal :: "jsstring \<Rightarrow> bool" where
  "no_traversal p \<longleftrightarrow> list_all (\<lambda>s. s \<noteq> [46] \<and> s \<noteq> [46, 46]) (split_on 47 p)"

text \<open>\<^verbatim>\<open>text.includes(part)\<close>.\<close>

fun text_includes :: "jsstring \<Rightarrow> jsstring \<Rightarrow> bool" where
  "text_includes part [] = (part = [])"
| "text_includes part (c # cs) = (take (length part) (c # cs) = part \<or> text_includes part cs)"

definition field_schema :: "ActionInputField \<Rightarrow> bool" where
  "field_schema r \<longleftrightarrow> opt (\<lambda>e. len 1 128 e \<and> list_all (len 0 1024) e) (af_enum r) \<and>
     opt (\<lambda>m. z_int m \<and> 0 < m \<and> m \<le> 65536) (af_maxLength r) \<and> opt (len 0 256) (af_title r) \<and>
     opt (len 0 2048) (af_description r) \<and>
     opt (\<lambda>v. case v of JStr _ \<Rightarrow> True | JNum (Fin _) \<Rightarrow> True | JBool _ \<Rightarrow> True | _ \<Rightarrow> False) (af_default r)"

definition actionInputSchema :: "ActionInputSchema \<Rightarrow> bool" where
  "actionInputSchema s \<longleftrightarrow> distinct (map fst s) \<and> list_all (\<lambda>(k, r). len 1 128 k \<and> field_schema r) s \<and> length s \<le> 64"

definition entityDescriptorSchema :: "EntityDescriptorInput \<Rightarrow> bool" where
  "entityDescriptorSchema e \<longleftrightarrow> len 1 128 (ed_key e) \<and> opt (len 0 64) (ed_unit e) \<and>
     opt (\<lambda>vs. list_all (len 1 128) vs \<and> length vs \<le> 128) (ed_enumValues e) \<and>
     opt (\<lambda>s. z_int s \<and> 0 < s \<and> s \<le> 31536000) (ed_staleAfterSeconds e)"

definition profile_schema :: "DeviceProfileDescriptor \<Rightarrow> bool" where
  "profile_schema p \<longleftrightarrow> len 1 128 (dp_id p) \<and> z_int (dp_version p) \<and> 0 < dp_version p \<and> len 1 256 (dp_manufacturer p) \<and>
     len 1 256 (dp_model p) \<and> list_all (len 1 128) (dp_capabilities p) \<and> length (dp_capabilities p) \<le> 128 \<and>
     list_all entityDescriptorSchema (dp_entities p) \<and> length (dp_entities p) \<le> 512"

definition action_schema :: "ActionDescriptor \<Rightarrow> bool" where
  "action_schema a \<longleftrightarrow> len 1 128 (ad_id a) \<and> actionInputSchema (ad_inputSchema a) \<and> len 1 256 (ad_wireCommand a) \<and>
     z_int (ad_wireSchemaVersion a) \<and> 0 < ad_wireSchemaVersion a"

definition event_schema :: "EventDescriptor \<Rightarrow> bool" where
  "event_schema e \<longleftrightarrow> len 1 128 (vd_kind e) \<and> z_int (vd_schemaVersion e) \<and> 0 < vd_schemaVersion e \<and> opt (len 0 2048) (vd_description e)"

definition route_methods :: "PluginUiRoute \<Rightarrow> http_method list" where
  "route_methods r = (case ur_methods r of None \<Rightarrow> [GET] | Some ms \<Rightarrow> ms)"

definition route_schema :: "PluginUiRoute \<Rightarrow> bool" where
  "route_schema r \<longleftrightarrow> len 1 128 (ur_id r) \<and> route_pattern (ur_path r) \<and> length (ur_path r) \<le> 256 \<and> no_traversal (ur_path r) \<and>
     opt (len 1 2) (ur_methods r) \<and> opt actionInputSchema (ur_querySchema r) \<and> opt actionInputSchema (ur_actionSchema r) \<and>
     (\<not> POST \<in> set (route_methods r) \<or> ur_actionSchema r \<noteq> None)"

definition asset_schema :: "PluginUiAsset \<Rightarrow> bool" where
  "asset_schema a \<longleftrightarrow> asset_pattern (ua_path a) \<and> length (ua_path a) \<le> 256 \<and> no_traversal (ua_path a) \<and>
     len 1 128 (ua_contentType a) \<and> \<not> list_ex (\<lambda>c. c = 13 \<or> c = 10) (ua_contentType a) \<and>
     SHA256 (ua_sha256 a) \<and> text_includes (ua_sha256 a) (ua_path a)"

definition manifestSchema :: "PluginManifest \<Rightarrow> bool" where
  "manifestSchema m \<longleftrightarrow> plugin_id_pattern (pm_id m) \<and> length (pm_id m) \<le> 128 \<and> len 1 128 (pm_version m) \<and>
     opt (len 0 256) (pm_displayName m) \<and>
     list_all profile_schema (pm_profiles m) \<and> length (pm_profiles m) \<le> 128 \<and>
     list_all action_schema (pm_actions m) \<and> length (pm_actions m) \<le> 256 \<and>
     list_all event_schema (pm_events m) \<and> length (pm_events m) \<le> 256 \<and>
     opt (\<lambda>(routes, assets). list_all route_schema routes \<and> length routes \<le> 128 \<and>
            opt (\<lambda>as. list_all asset_schema as \<and> length as \<le> 64) assets) (pm_ui m)"

section \<open>Inputs of actions\<close>

datatype field_error = InputNotObject | UnknownField | IsRequired | Expected field_type | NotAllowed | BelowMin | AboveMax | TooManyBytes

text \<open>An input that is not a plain object is \<open>None\<close>.\<close>

type_synonym action_input = "(jsstring \<times> jsval) list option"

definition type_ok :: "field_type \<Rightarrow> jsval looked \<Rightarrow> bool" where
  "type_ok ty v =
     (case v of
        Own (JStr _) \<Rightarrow> ty = TString
      | Own (JBool _) \<Rightarrow> ty = TBoolean
      | Own (JNum (Fin x)) \<Rightarrow> ty = TNumber \<or> (ty = TInteger \<and> of_int \<lfloor>x\<rfloor> = x)
      | _ \<Rightarrow> False)"

definition rule_failures :: "ActionInputField \<Rightarrow> jsval \<Rightarrow> field_error list" where
  "rule_failures r v =
     (case af_enum r of None \<Rightarrow> [] | Some e \<Rightarrow> if v \<in> JStr ` set e then [] else [NotAllowed]) @
     (case (v, af_min r) of (JNum (Fin x), Some m) \<Rightarrow> if x < m then [BelowMin] else [] | _ \<Rightarrow> []) @
     (case (v, af_max r) of (JNum (Fin x), Some m) \<Rightarrow> if x > m then [AboveMax] else [] | _ \<Rightarrow> []) @
     (case (v, af_maxLength r) of (JStr s, Some m) \<Rightarrow> if int (byteLength s) > m then [TooManyBytes] else [] | _ \<Rightarrow> [])"

definition field_failures :: "(jsstring \<times> jsval) list \<Rightarrow> jsstring \<times> ActionInputField \<Rightarrow> (jsstring \<times> field_error) list" where
  "field_failures input kr =
     (let (key, r) = kr; value = get_property input key in
      if value = Undefined then (if af_required r = Some True then [(key, IsRequired)] else [])
      else if \<not> type_ok (af_type r) value then [(key, Expected (af_type r))]
      else (case value of Own v \<Rightarrow> map (Pair key) (rule_failures r v) | _ \<Rightarrow> []))"

definition validateActionInput :: "ActionInputSchema \<Rightarrow> action_input \<Rightarrow> (jsstring \<times> field_error) list + unit" where
  "validateActionInput schema input =
     (case input of
        None \<Rightarrow> Inl [(js ''(root)'', InputNotObject)]
      | Some ps \<Rightarrow>
          let failures = map (\<lambda>(k, _). (k, UnknownField)) (filter (\<lambda>(k, _). get_property schema k = Undefined) ps)
                @ concat (map (field_failures ps) schema) in
          if failures \<noteq> [] then Inl failures else Inr ())"

section \<open>Checks of a manifest beyond its schema\<close>

datatype manifest_error = BadManifest | Duplicate jsstring | EnumWithoutValues jsstring | ValuesWithoutEnum jsstring
  | BoundsNotNumeric jsstring | LengthNotString jsstring | MinAboveMax jsstring | EnumNotString jsstring | DuplicateEnum jsstring
  | InvalidDefault jsstring

definition unique :: "'a list \<Rightarrow> jsstring \<Rightarrow> manifest_error + unit" where
  "unique values label = ensure (card (set values) = length values) (Duplicate label)"

text \<open>The checks of a list, one after the other.\<close>

fun each :: "('a \<Rightarrow> 'e + unit) \<Rightarrow> 'a list \<Rightarrow> 'e + unit" where
  "each f [] = Inr ()"
| "each f (x # xs) = rbind (f x) (\<lambda>_. each f xs)"

text \<open>\<^verbatim>\<open>`${text}@${version}`\<close>\<close>

fun decimal :: "nat \<Rightarrow> jsstring" where
  "decimal n = (if n < 10 then [48 + n] else decimal (n div 10) @ [48 + n mod 10])"

declare decimal.simps [simp del]

definition at_version :: "jsstring \<Rightarrow> int \<Rightarrow> jsstring" where
  "at_version text version = text @ [64] @ (if version < 0 then 45 # decimal (nat (- version)) else decimal (nat version))"

definition validate_field_declaration :: "jsstring \<times> ActionInputField \<Rightarrow> manifest_error + unit" where
  "validate_field_declaration kr =
     (let (key, r) = kr; numeric = (af_type r = TNumber \<or> af_type r = TInteger) in
      rbind (ensure (\<not> (\<not> numeric \<and> (af_min r \<noteq> None \<or> af_max r \<noteq> None))) (BoundsNotNumeric key)) (\<lambda>_.
      rbind (ensure (\<not> (af_type r \<noteq> TString \<and> af_maxLength r \<noteq> None)) (LengthNotString key)) (\<lambda>_.
      rbind (ensure (case (af_min r, af_max r) of (Some a, Some b) \<Rightarrow> \<not> a > b | _ \<Rightarrow> True) (MinAboveMax key)) (\<lambda>_.
      rbind (ensure (\<not> (af_enum r \<noteq> None \<and> af_type r \<noteq> TString)) (EnumNotString key)) (\<lambda>_.
      rbind (ensure (case af_enum r of None \<Rightarrow> True | Some e \<Rightarrow> card (set e) = length e) (DuplicateEnum key)) (\<lambda>_.
      case af_default r of
        None \<Rightarrow> Inr ()
      | Some v \<Rightarrow> ensure (validateActionInput [(key, r\<lparr>af_required := Some True\<rparr>)] (Some [(key, v)]) = Inr ()) (InvalidDefault key)))))))"

definition validateActionSchemaDeclaration :: "ActionInputSchema \<Rightarrow> manifest_error + unit" where
  "validateActionSchemaDeclaration schema = each validate_field_declaration schema"

definition validate_entity_declaration :: "EntityDescriptorInput \<Rightarrow> manifest_error + unit" where
  "validate_entity_declaration e =
     (if ed_valueType e = VEnum
      then (case ed_enumValues e of
              None \<Rightarrow> Inl (EnumWithoutValues (ed_key e))
            | Some vs \<Rightarrow> if vs = [] then Inl (EnumWithoutValues (ed_key e)) else unique vs (js ''enum value''))
      else ensure (\<not> ed_enumValues e \<noteq> None) (ValuesWithoutEnum (ed_key e)))"

definition validate_profile :: "DeviceProfileDescriptor \<Rightarrow> manifest_error + unit" where
  "validate_profile p =
     rbind (unique (dp_capabilities p) (js ''capability'')) (\<lambda>_.
     rbind (unique (map ed_key (dp_entities p)) (js ''entity'')) (\<lambda>_.
       each validate_entity_declaration (dp_entities p)))"

definition manifest_routes :: "PluginManifest \<Rightarrow> PluginUiRoute list" where
  "manifest_routes m = (case pm_ui m of None \<Rightarrow> [] | Some (routes, _) \<Rightarrow> routes)"

definition manifest_assets :: "PluginManifest \<Rightarrow> PluginUiAsset list" where
  "manifest_assets m = (case pm_ui m of Some (_, Some as) \<Rightarrow> as | _ \<Rightarrow> [])"

definition validate_route :: "PluginUiRoute \<Rightarrow> manifest_error + unit" where
  "validate_route r =
     rbind (case ur_querySchema r of None \<Rightarrow> Inr () | Some s \<Rightarrow> validateActionSchemaDeclaration s) (\<lambda>_.
       case ur_actionSchema r of None \<Rightarrow> Inr () | Some s \<Rightarrow> validateActionSchemaDeclaration s)"

definition validateManifest :: "PluginManifest \<Rightarrow> manifest_error + PluginManifest" where
  "validateManifest m =
     rbind (ensure (manifestSchema m) BadManifest) (\<lambda>_.
     rbind (unique (map (\<lambda>p. at_version (dp_id p) (dp_version p)) (pm_profiles m)) (js ''profile'')) (\<lambda>_.
     rbind (unique (map ad_id (pm_actions m)) (js ''action'')) (\<lambda>_.
     rbind (unique (map (\<lambda>e. at_version (vd_kind e) (vd_schemaVersion e)) (pm_events m)) (js ''event'')) (\<lambda>_.
     rbind (unique (map ur_id (manifest_routes m)) (js ''UI route ID'')) (\<lambda>_.
     rbind (unique (map ur_path (manifest_routes m)) (js ''UI route path'')) (\<lambda>_.
     rbind (unique (map ua_path (manifest_assets m)) (js ''UI asset path'')) (\<lambda>_.
     rbind (each (\<lambda>r. unique (route_methods r) (js ''method'')) (manifest_routes m)) (\<lambda>_.
     rbind (each validate_profile (pm_profiles m)) (\<lambda>_.
     rbind (each (\<lambda>a. validateActionSchemaDeclaration (ad_inputSchema a)) (pm_actions m)) (\<lambda>_.
     rbind (each validate_route (manifest_routes m)) (\<lambda>_.
       Inr m)))))))))))"

section \<open>Batches of entity updates\<close>

datatype update_error = InvalidUpdateList | DuplicateUpdate jsstring | UnknownEntity jsstring | InvalidEntityValue jsstring
  | InvalidSequence jsstring | InvalidTimestamp jsstring | InvalidAlarm jsstring

definition sdk_valueMatches :: "EntityDescriptorInput \<Rightarrow> entity_value option \<Rightarrow> bool" where
  "sdk_valueMatches e value =
     (case value of
        None \<Rightarrow> True
      | Some v \<Rightarrow>
         (case ed_valueType e of
            VNumber \<Rightarrow> (case v of ENum (Fin _) \<Rightarrow> True | _ \<Rightarrow> False)
          | VBoolean \<Rightarrow> (case v of EBool _ \<Rightarrow> True | _ \<Rightarrow> False)
          | VString \<Rightarrow> (case v of EStr _ \<Rightarrow> True | _ \<Rightarrow> False)
          | VBinary \<Rightarrow> (case v of EBin _ \<Rightarrow> True | _ \<Rightarrow> False)
          | VEnum \<Rightarrow> (case (v, ed_enumValues e) of (EStr s, Some vs) \<Rightarrow> s \<in> set vs | _ \<Rightarrow> False)))"

definition valid_sequence :: "seq_input \<Rightarrow> bool" where
  "valid_sequence s =
     (case s of
        SeqBig i \<Rightarrow> i \<ge> 0 \<and> i \<le> 2 ^ 64 - 1
      | SeqNum (Fin x) \<Rightarrow> of_int \<lfloor>x\<rfloor> = x \<and> \<bar>x\<bar> \<le> of_int MAX_SAFE_INTEGER \<and> x \<ge> 0
      | SeqNum _ \<Rightarrow> False)"

definition validate_update ::
    "(jsstring \<Rightarrow> time option) \<Rightarrow> EntityDescriptorInput list \<Rightarrow> EntityUpdateInput \<Rightarrow> update_error + unit" where
  "validate_update parse ds u =
     (case last_entry (\<lambda>e. ed_key e = eu_key u) ds of
        None \<Rightarrow> Inl (UnknownEntity (eu_key u))
      | Some e \<Rightarrow>
          rbind (ensure (sdk_valueMatches e (eu_value u)) (InvalidEntityValue (eu_key u))) (\<lambda>_.
          rbind (ensure (opt valid_sequence (eu_sequence u)) (InvalidSequence (eu_key u))) (\<lambda>_.
          rbind (ensure (opt (\<lambda>s. parse s \<noteq> None) (eu_sourceTimestamp u)) (InvalidTimestamp (eu_key u))) (\<lambda>_.
            ensure (case eu_alarm u of Some (Some (_, c)) \<Rightarrow> \<not> (length c < 1 \<or> length c > 256) | _ \<Rightarrow> True) (InvalidAlarm (eu_key u))))))"

fun validate_updates ::
    "(EntityUpdateInput \<Rightarrow> update_error + unit) \<Rightarrow> jsstring set \<Rightarrow> EntityUpdateInput list \<Rightarrow> update_error + unit" where
  "validate_updates check seen [] = Inr ()"
| "validate_updates check seen (u # us) =
     rbind (ensure (eu_key u \<notin> seen) (DuplicateUpdate (eu_key u))) (\<lambda>_.
     rbind (check u) (\<lambda>_. validate_updates check (insert (eu_key u) seen) us))"

definition validateEntityUpdates ::
    "(jsstring \<Rightarrow> time option) \<Rightarrow> EntityDescriptorInput list \<Rightarrow> EntityUpdateInput list \<Rightarrow> update_error + unit" where
  "validateEntityUpdates parse ds us =
     rbind (ensure (\<not> length us > 4096) InvalidUpdateList) (\<lambda>_. validate_updates (validate_update parse ds) {} us)"

section \<open>Manifests of connected plugins\<close>

text \<open>
  The handshake of the plugin manager (\<^verbatim>\<open>PluginManager.connect\<close> and \<^verbatim>\<open>PrismaManifestStore\<close> of
  \<^verbatim>\<open>plugin-manager/src/manager.ts\<close>) as far as the database goes. \<open>hash\<close> is the SHA-256 digest of the canonical JSON text. The store
  reads the snapshot and inserts it when it is missing; an insertion that meets the unique key reads again, so the outcome is that
  of one step at the moment of the insertion.
\<close>

record Handshake =
  hs_pluginVersion :: jsstring
  hs_manifestHash :: jsstring
  hs_manifest :: PluginManifest

definition manifest_like :: "PluginManifest \<Rightarrow> ManifestLike" where
  "manifest_like m = \<lparr>mf_id = pm_id m, mf_version = pm_version m,
     mf_profiles = map (\<lambda>p. \<lparr>mp_id = dp_id p, mp_version = dp_version p, mp_entities = dp_entities p\<rparr>) (pm_profiles m)\<rparr>"

datatype connect_error = ManifestInvalid manifest_error | HashMismatch | IdentityMismatch | ManifestDrift

definition store_manifest :: "jsstring \<Rightarrow> PluginManifest \<Rightarrow> plugin_db \<Rightarrow> connect_error + plugin_db" where
  "store_manifest computed m d =
     (case find (\<lambda>s. sn_pluginId s = pm_id m \<and> sn_pluginVersion s = pm_version m) (manifest_snapshots d) of
        None \<Rightarrow> Inr (d\<lparr>manifest_snapshots := manifest_snapshots d @
            [\<lparr>sn_pluginId = pm_id m, sn_pluginVersion = pm_version m, sn_manifestHash = computed, sn_manifest = Some (manifest_like m)\<rparr>]\<rparr>)
      | Some s \<Rightarrow> if sn_manifestHash s \<noteq> computed then Inl ManifestDrift else Inr d)"

definition connect_manifest :: "(PluginManifest \<Rightarrow> jsstring) \<Rightarrow> jsstring \<Rightarrow> Handshake \<Rightarrow> plugin_db \<Rightarrow> connect_error + plugin_db" where
  "connect_manifest hash pluginId h d =
     (case validateManifest (hs_manifest h) of
        Inl e \<Rightarrow> Inl (ManifestInvalid e)
      | Inr m \<Rightarrow>
          rbind (ensure (\<not> hash m \<noteq> hs_manifestHash h) HashMismatch) (\<lambda>_.
          rbind (ensure (\<not> (pm_id m \<noteq> pluginId \<or> pm_version m \<noteq> hs_pluginVersion h)) IdentityMismatch) (\<lambda>_.
            store_manifest (hash m) m d)))"

end
