(* ===== verification/SdkProperties.thy ===== *)
theory SdkProperties
  imports SdkValidation PluginEvents
begin

text \<open>
  Properties of the checks of the plugin SDK: accepted inputs of actions are exactly the well-typed ones, up to the names every object inherits;
  the version labels that keep declarations apart; declared event kinds against the envelopes of devices.
\<close>

section \<open>Inputs of actions\<close>

text \<open>The values a field declaration stands for.\<close>

definition well_typed :: "ActionInputField \<Rightarrow> jsval \<Rightarrow> bool" where
  "well_typed r v \<longleftrightarrow>
     (case af_type r of
        TString \<Rightarrow> (\<exists>s. v = JStr s \<and> (\<forall>e. af_enum r = Some e \<longrightarrow> s \<in> set e) \<and> (\<forall>m. af_maxLength r = Some m \<longrightarrow> int (byteLength s) \<le> m))
      | TBoolean \<Rightarrow> (\<exists>b. v = JBool b)
      | TNumber \<Rightarrow> (\<exists>x. v = JNum (Fin x) \<and> (\<forall>m. af_min r = Some m \<longrightarrow> m \<le> x) \<and> (\<forall>m. af_max r = Some m \<longrightarrow> x \<le> m))
      | TInteger \<Rightarrow> (\<exists>i :: int. v = JNum (Fin (of_int i)) \<and> (\<forall>m. af_min r = Some m \<longrightarrow> m \<le> of_int i) \<and> (\<forall>m. af_max r = Some m \<longrightarrow> of_int i \<le> m)))"

lemma each_Inr: "each f xs = Inr u \<longleftrightarrow> (\<forall>x \<in> set xs. f x = Inr ())"
  by (induction xs) (auto simp: rbind_eq_Inr)

lemma rbind_ensure_Inr: "rbind (ensure c e) f = Inr y \<longleftrightarrow> c \<and> f () = Inr y"
  by (cases c) simp_all

text \<open>What a checked declaration rules out.\<close>

lemma declared_field:
  assumes "validate_field_declaration (k, r) = Inr ()"
  shows "af_enum r \<noteq> None \<Longrightarrow> af_type r = TString" "af_maxLength r \<noteq> None \<Longrightarrow> af_type r = TString"
    and "af_min r \<noteq> None \<or> af_max r \<noteq> None \<Longrightarrow> af_type r \<in> {TNumber, TInteger}"
  using assms by (auto simp: validate_field_declaration_def Let_def rbind_ensure_Inr)

lemma integral_rat: "of_int \<lfloor>x\<rfloor> = (x :: rat) \<longleftrightarrow> (\<exists>i. x = of_int i)"
  by (metis floor_of_int)

lemma field_ok_iff:
  assumes "validate_field_declaration (k, r) = Inr ()"
  shows "type_ok (af_type r) (Own v) \<and> rule_failures r v = [] \<longleftrightarrow> well_typed r v"
proof (cases v)
  case (JStr s)
  with declared_field [OF assms] show ?thesis
    by (cases "af_type r") (auto simp: type_ok_def rule_failures_def well_typed_def split: option.splits)
next
  case (JNum x)
  show ?thesis
  proof (cases x)
    case (Fin y)
    with JNum declared_field [OF assms] show ?thesis
      by (cases "af_type r") (auto simp: type_ok_def rule_failures_def well_typed_def integral_rat split: option.splits)
  qed (use JNum in \<open>auto simp: type_ok_def well_typed_def split: field_type.splits\<close>)
next
  case (JBool b)
  with declared_field [OF assms] show ?thesis
    by (cases "af_type r") (auto simp: type_ok_def rule_failures_def well_typed_def split: option.splits)
qed (auto simp: type_ok_def well_typed_def split: field_type.splits)

lemma field_failures_iff:
  assumes "validate_field_declaration (k, r) = Inr ()" "k \<notin> set OBJECT_PROTOTYPE"
  shows "field_failures ps (k, r) = [] \<longleftrightarrow> (case map_of ps k of None \<Rightarrow> af_required r \<noteq> Some True | Some v \<Rightarrow> well_typed r v)"
proof (cases "map_of ps k")
  case None
  then show ?thesis using assms(2) by (simp add: field_failures_def get_property_def)
next
  case (Some v)
  then show ?thesis using field_ok_iff [OF assms(1), of v] by (auto simp: field_failures_def get_property_def Let_def split: if_splits)
qed

lemma validateActionInput_Inr:
  "validateActionInput schema (Some ps) = Inr () \<longleftrightarrow>
     (\<forall>k \<in> fst ` set ps. get_property schema k \<noteq> Undefined) \<and> (\<forall>kr \<in> set schema. field_failures ps kr = [])"
  by (force simp: validateActionInput_def Let_def filter_empty_conv)

lemma get_property_Undefined: "get_property schema k \<noteq> Undefined \<longleftrightarrow> k \<in> fst ` set schema \<or> k \<in> set OBJECT_PROTOTYPE"
proof (cases "map_of schema k")
  case None
  then have "k \<notin> fst ` set schema" by (simp add: map_of_eq_None_iff)
  with None show ?thesis by (simp add: get_property_def)
next
  case (Some v)
  with map_of_SomeD [OF Some] show ?thesis by (force simp: get_property_def)
qed

text \<open>C38. Accepted action inputs are the well-typed ones. Let a schema have passed the check of declarations, with no field named like a property every
  object inherits. An object is accepted exactly when every declared field is missing and optional or holds a value of the declared type within the declared
  enumeration, range and length, and every other field has one of the inherited names.\<close>

theorem action_input_typed:
  assumes "validateActionSchemaDeclaration schema = Inr ()" "fst ` set schema \<inter> set OBJECT_PROTOTYPE = {}"
  shows "validateActionInput schema (Some ps) = Inr () \<longleftrightarrow>
     (\<forall>(k, r) \<in> set schema. case map_of ps k of None \<Rightarrow> af_required r \<noteq> Some True | Some v \<Rightarrow> well_typed r v) \<and>
     fst ` set ps \<subseteq> fst ` set schema \<union> set OBJECT_PROTOTYPE"
proof -
  have "field_failures ps (k, r) = [] \<longleftrightarrow> (case map_of ps k of None \<Rightarrow> af_required r \<noteq> Some True | Some v \<Rightarrow> well_typed r v)"
    if "(k, r) \<in> set schema" for k r
    using assms that by (intro field_failures_iff) (auto simp: validateActionSchemaDeclaration_def each_Inr)
  then have "(\<forall>kr \<in> set schema. field_failures ps kr = []) \<longleftrightarrow>
      (\<forall>(k, r) \<in> set schema. case map_of ps k of None \<Rightarrow> af_required r \<noteq> Some True | Some v \<Rightarrow> well_typed r v)"
    by (intro ball_cong) auto
  then show ?thesis unfolding validateActionInput_Inr get_property_Undefined by blast
qed

text \<open>Undeclared fields with inherited names slip through. An accepted input stays accepted when a field named \<^verbatim>\<open>constructor\<close>, \<^verbatim>\<open>toString\<close>
  or the like is added to it, although the schema does not declare it, whatever its value.\<close>

theorem inherited_name_accepted:
  assumes "validateActionInput schema (Some ps) = Inr ()" "key \<in> set OBJECT_PROTOTYPE" "key \<notin> fst ` set schema"
  shows "validateActionInput schema (Some (ps @ [(key, v)])) = Inr ()"
proof -
  have "field_failures (ps @ [(key, v)]) kr = field_failures ps kr" if "kr \<in> set schema" for kr
  proof -
    obtain k r where kr: "kr = (k, r)" by (cases kr)
    with that assms(3) have "k \<noteq> key" by force
    then have "map_of (ps @ [(key, v)]) k = map_of ps k" by (auto simp: map_add_def split: option.splits)
    then show ?thesis by (simp add: field_failures_def kr get_property_def del: map_of_append)
  qed
  with assms(1,2) show ?thesis by (auto simp: validateActionInput_Inr get_property_Undefined)
qed

section \<open>Version labels\<close>

lemma unique_Inr: "unique xs label = Inr u \<longleftrightarrow> distinct xs"
  by (auto simp: unique_def card_distinct distinct_card)

definition numeral_of :: "jsstring \<Rightarrow> nat" where
  "numeral_of = foldl (\<lambda>n c. n * 10 + (c - 48)) 0"

lemma numeral_of_decimal: "numeral_of (decimal n) = n"
proof (induction n rule: decimal.induct)
  case (1 n)
  show ?case
  proof (cases "n < 10")
    case True
    then show ?thesis by (subst decimal.simps) (simp add: numeral_of_def)
  next
    case False
    with 1 have "numeral_of (decimal (n div 10)) = n div 10" by simp
    with False show ?thesis by (subst decimal.simps) (simp add: numeral_of_def)
  qed
qed

lemma decimal_digits: "c \<in> set (decimal n) \<Longrightarrow> 48 \<le> c \<and> c \<le> 57"
proof (induction n rule: decimal.induct)
  case (1 n)
  then show ?case by (subst (asm) decimal.simps) (auto split: if_splits)
qed

definition version_text :: "int \<Rightarrow> jsstring" where
  "version_text v = (if v < 0 then 45 # decimal (nat (- v)) else decimal (nat v))"

lemma version_text_no_at: "64 \<notin> set (version_text v)"
  using decimal_digits [of 64] by (auto simp: version_text_def)

lemma decimal_start: "decimal n \<noteq> 45 # cs"
proof
  assume "decimal n = 45 # cs"
  with decimal_digits [of 45 n] show False by simp
qed

lemma version_text_inj:
  assumes eq: "version_text v = version_text w"
  shows "v = w"
proof (cases "v < 0"; cases "w < 0")
  assume "v < 0" "w < 0"
  with eq have "decimal (nat (- v)) = decimal (nat (- w))" by (simp add: version_text_def)
  then have "nat (- v) = nat (- w)" by (metis numeral_of_decimal)
  with \<open>v < 0\<close> \<open>w < 0\<close> show ?thesis by simp
next
  assume "\<not> v < 0" "\<not> w < 0"
  with eq have "decimal (nat v) = decimal (nat w)" by (simp add: version_text_def)
  then have "nat v = nat w" by (metis numeral_of_decimal)
  with \<open>\<not> v < 0\<close> \<open>\<not> w < 0\<close> show ?thesis by simp
qed (use eq decimal_start in \<open>auto simp: version_text_def split: if_splits dest: sym\<close>)

lemma at_version_eq: "at_version a v = at_version b w \<longleftrightarrow> a = b \<and> v = w"
proof
  assume "at_version a v = at_version b w"
  then have eq: "rev (version_text v) @ 64 # rev a = rev (version_text w) @ 64 # rev b"
    by (simp add: at_version_def version_text_def [symmetric]) (metis append.assoc append_Cons append_Nil rev.simps(2) rev_append rev_rev_ident)
  have tw: "takeWhile ((\<noteq>) 64) (rev (version_text x) @ 64 # zs) = rev (version_text x)" for x and zs :: jsstring
    using version_text_no_at [of x] by (subst takeWhile_append2) auto
  from eq tw have "rev (version_text v) = rev (version_text w)" by metis
  with eq show "a = b \<and> v = w" using version_text_inj by auto
qed simp

text \<open>Declarations that the manifest check keeps apart by their label \<^verbatim>\<open>id@version\<close> differ in their identifier or their version, and the other way round: the
  label of two different declarations is never the same, even when identifiers contain the separator.\<close>

theorem version_labels_exact:
  "unique (map (\<lambda>(text, version). at_version text version) ds) label = Inr () \<longleftrightarrow> distinct ds"
proof -
  have "inj (\<lambda>(text, version). at_version text version)" by (auto simp: inj_def at_version_eq)
  then have "inj_on (\<lambda>(text, version). at_version text version) (set ds)" by (rule inj_on_subset) simp
  then show ?thesis by (simp add: unique_Inr distinct_map)
qed


section \<open>Declared event kinds\<close>

definition ex_kind_manifest :: PluginManifest where
  "ex_kind_manifest = \<lparr>pm_id = js ''a'', pm_version = js ''1'', pm_displayName = None, pm_profiles = [], pm_actions = [],
     pm_events = [\<lparr>vd_kind = replicate 128 233, vd_schemaVersion = 1, vd_description = None\<rparr>], pm_ui = None\<rparr>"

lemma envelope_kind: "parse_event_envelope v = Some env \<Longrightarrow> byteLength (ev_kind env) \<le> MAX_EVENT_KIND_BYTES"
  by (auto simp: parse_event_envelope_def split: jsval.splits if_splits option.splits)

lemma ex_kind_accepted: "validateManifest ex_kind_manifest = Inr ex_kind_manifest"
  by code_simp

text \<open>A manifest can declare an event kind that no device can send. The manifest schema bounds kinds by 128 UTF-16 units, the envelope by 128 UTF-8 bytes: 128
  accented letters are a valid declaration, and no envelope with that kind passes the schema.\<close>

theorem declared_kind_unsendable:
  "\<exists>m e. validateManifest m = Inr m \<and> e \<in> set (pm_events m) \<and> \<not> (\<exists>v env. parse_event_envelope v = Some env \<and> ev_kind env = vd_kind e)"
proof -
  let ?e = "\<lparr>vd_kind = replicate 128 233, vd_schemaVersion = 1, vd_description = None\<rparr>"
  have "byteLength (vd_kind ?e) > MAX_EVENT_KIND_BYTES" by code_simp
  then have "\<not> (\<exists>v env. parse_event_envelope v = Some env \<and> ev_kind env = vd_kind ?e)" using envelope_kind by fastforce
  moreover have "?e \<in> set (pm_events ex_kind_manifest)" by (simp add: ex_kind_manifest_def)
  ultimately show ?thesis using ex_kind_accepted by blast
qed

section \<open>Examples\<close>

definition ex_field :: "field_type \<Rightarrow> ActionInputField" where
  "ex_field ty = \<lparr>af_type = ty, af_required = Some True, af_enum = None, af_min = None, af_max = None, af_maxLength = None,
     af_title = None, af_description = None, af_default = None\<rparr>"

definition ex_schema :: ActionInputSchema where
  "ex_schema = [(js ''on'', ex_field TBoolean), (js ''level'', (ex_field TInteger)\<lparr>af_max := Some 10, af_required := None\<rparr>)]"

lemma ex_schema_ok: "validateActionSchemaDeclaration ex_schema = Inr ()" "fst ` set ex_schema \<inter> set OBJECT_PROTOTYPE = {}"
  by code_simp+

theorem action_input_typed_witness:
  "validateActionInput ex_schema (Some [(js ''on'', JBool True)]) = Inr () \<and>
   validateActionInput ex_schema (Some [(js ''on'', JNull)]) \<noteq> Inr ()"
  using action_input_typed [OF ex_schema_ok, of "[(js ''on'', JBool True)]"] action_input_typed [OF ex_schema_ok, of "[(js ''on'', JNull)]"]
  by (auto simp: ex_schema_def ex_field_def well_typed_def js_def)

theorem inherited_name_accepted_witness:
  "validateActionInput ex_schema (Some ([(js ''on'', JBool True)] @ [(js ''constructor'', JNull)])) = Inr ()"
proof -
  have "validateActionInput ex_schema (Some [(js ''on'', JBool True)]) = Inr ()" "js ''constructor'' \<in> set OBJECT_PROTOTYPE"
    "js ''constructor'' \<notin> fst ` set ex_schema" by code_simp+
  then show ?thesis by (rule inherited_name_accepted)
qed

end
