(* ===== verification/EntityProperties.thy ===== *)
theory EntityProperties
  imports SdkProperties
begin

text \<open>
  Properties of the entities of plugins: the table of current values seen as a map, what a batch of updates does to it, that sequence
  numbers only grow and late or repeated batches change nothing, that a value read back is the value that was written, and
  the registry of descriptor revisions.
\<close>

section \<open>The table of current values as a map\<close>

text \<open>An entity of a device is named by its primary key, and the table is a map from keys to rows.\<close>

type_synonym entity_key = "uuid \<times> uuid \<times> jsstring"

definition key_of :: "entity_state \<Rightarrow> entity_key" where
  "key_of s = (es_installation s, es_device s, es_key s)"

definition state_map :: "entity_state list \<Rightarrow> entity_key \<rightharpoonup> entity_state" where
  "state_map ss k = find (\<lambda>s. key_of s = k) ss"

text \<open>What the upsert promises.\<close>

definition spec_upsert :: "entity_state \<Rightarrow> (entity_key \<rightharpoonup> entity_state) \<Rightarrow> (entity_key \<rightharpoonup> entity_state)" where
  "spec_upsert row m =
     (case m (key_of row) of
        None \<Rightarrow> m(key_of row \<mapsto> row)
      | Some old \<Rightarrow> if newer row old then m(key_of row \<mapsto> merge_state row old) else m)"

lemma same_entity_key: "same_entity a b \<longleftrightarrow> key_of a = key_of b"
  by (auto simp: same_entity_def key_of_def)

lemma key_of_merge [simp]: "key_of (merge_state row old) = key_of row"
  by (simp add: merge_state_def key_of_def)

lemma find_state_map: "find_state inst dev key d = state_map (entity_states d) (inst, dev, key)"
  by (simp add: find_state_def state_map_def key_of_def)

lemma find_map_key: "(\<And>x. k (f x) = k x) \<Longrightarrow> find (\<lambda>s. k s = c) (map f xs) = map_option f (find (\<lambda>s. k s = c) xs)"
  by (induction xs) auto

lemma state_map_None: "state_map ss k = None \<longleftrightarrow> \<not> list_ex (\<lambda>s. key_of s = k) ss"
  by (auto simp: state_map_def find_None_iff list_ex_iff)

lemma state_map_key: "state_map ss k = Some s \<Longrightarrow> key_of s = k"
  by (auto simp: state_map_def find_Some_iff)

lemma find_append_option: "find p (xs @ ys) = (case find p xs of None \<Rightarrow> find p ys | Some x \<Rightarrow> Some x)"
  by (induction xs) auto

text \<open>The upsert refines its specification.\<close>

lemma upsert_state_refines: "state_map (upsert_state row ss) = spec_upsert row (state_map ss)"
proof
  fix k
  show "state_map (upsert_state row ss) k = spec_upsert row (state_map ss) k"
  proof (cases "state_map ss (key_of row)")
    case None
    then have "\<not> list_ex (same_entity row) ss" by (auto simp: state_map_None list_ex_iff same_entity_key)
    with None show ?thesis
      by (auto simp: upsert_state_def spec_upsert_def state_map_def find_append_option split: option.splits)
  next
    case (Some old)
    let ?f = "\<lambda>x. if same_entity row x \<and> newer row x then merge_state row x else x"
    have "list_ex (same_entity row) ss"
      using Some by (auto simp: state_map_def find_Some_iff list_ex_iff same_entity_key) (metis nth_mem)
    moreover have "find (\<lambda>s. key_of s = k) (map ?f ss) = map_option ?f (find (\<lambda>s. key_of s = k) ss)"
      by (rule find_map_key) (auto simp: same_entity_key)
    ultimately have "state_map (upsert_state row ss) k = map_option ?f (state_map ss k)"
      by (simp add: upsert_state_def state_map_def)
    also have "\<dots> = spec_upsert row (state_map ss) k"
      using Some state_map_key [of ss k] state_map_key [OF Some]
      by (cases "state_map ss k") (auto simp: spec_upsert_def same_entity_key)
    finally show ?thesis .
  qed
qed

lemma spec_upsert_other: "k \<noteq> key_of row \<Longrightarrow> spec_upsert row m k = m k"
  by (auto simp: spec_upsert_def split: option.splits)

lemma spec_upsert_same:
  "spec_upsert row m (key_of row) = Some (case m (key_of row) of None \<Rightarrow> row | Some old \<Rightarrow> if newer row old then merge_state row old else old)"
  by (auto simp: spec_upsert_def split: option.splits)

text \<open>A batch whose rows have different keys.\<close>

lemma upserts_other:
  "k \<notin> key_of ` set rows \<Longrightarrow> state_map (foldl (\<lambda>ss row. upsert_state row ss) ss rows) k = state_map ss k"
  by (induction rows arbitrary: ss) (auto simp: upsert_state_refines spec_upsert_other)

lemma upserts_same:
  "distinct (map key_of rows) \<Longrightarrow> row \<in> set rows \<Longrightarrow>
   state_map (foldl (\<lambda>ss row. upsert_state row ss) ss rows) (key_of row) = spec_upsert row (state_map ss) (key_of row)"
proof (induction rows arbitrary: ss)
  case (Cons r rows)
  show ?case
  proof (cases "row = r")
    case True
    with Cons.prems have "key_of row \<notin> key_of ` set rows" by simp
    with True show ?thesis by (simp add: upserts_other upsert_state_refines)
  next
    case False
    with Cons.prems have row: "row \<in> set rows" "distinct (map key_of rows)" by auto
    moreover have "key_of row \<noteq> key_of r" using Cons.prems(1) imageI [OF row(1), of key_of] by (auto simp del: imageI)
    ultimately show ?thesis using Cons.IH [of "upsert_state r ss"]
      by (simp add: upsert_state_refines spec_upsert_other spec_upsert_same)
  qed
qed simp

section \<open>What a batch does\<close>

lemma plan_updates_Inr:
  "plan_updates plan us = Inr rs \<Longrightarrow> (\<forall>u \<in> set us. \<exists>r. plan u = Inr r) \<and>
     rs = List.map_filter (\<lambda>u. case plan u of Inr r \<Rightarrow> r | Inl _ \<Rightarrow> None) us"
  by (induction us arbitrary: rs) (auto simp: rbind_def List.map_filter_simps split: sum.splits option.splits)

lemma plan_updates_all_None: "(\<And>u. u \<in> set us \<Longrightarrow> plan u = Inr None) \<Longrightarrow> plan_updates plan us = Inr []"
  by (induction us) (auto simp: rbind_def)


text \<open>The plan of one update of a batch.\<close>

definition batch_plan ::
    "(jsstring \<Rightarrow> time option) \<Rightarrow> time \<Rightarrow> ApplyEntityUpdatesOptions \<Rightarrow> plugin_db \<Rightarrow> EntityUpdateInput \<Rightarrow> PluginError + (entity_state \<times> bool) option" where
  "batch_plan parse t opts d =
     plan_update parse t opts (resolveEntityDescriptors opts (map eu_key (sort_key eu_key (ao_updates opts))) d)
       (\<lambda>key. if ao_writeCurrentState opts then find_state (ao_installation opts) (ao_device opts) key d else None)"

definition planned :: "('e + 'a option) \<Rightarrow> 'a option" where
  "planned r = (case r of Inr x \<Rightarrow> x | Inl _ \<Rightarrow> None)"

definition batch_rows ::
    "(jsstring \<Rightarrow> time option) \<Rightarrow> time \<Rightarrow> ApplyEntityUpdatesOptions \<Rightarrow> plugin_db \<Rightarrow> (entity_state \<times> bool) list" where
  "batch_rows parse t opts d = List.map_filter (\<lambda>u. planned (batch_plan parse t opts d u)) (sort_key eu_key (ao_updates opts))"

lemma apply_Inr:
  assumes "applyEntityUpdates parse t serial opts d = Inr (x, d')"
  shows "distinct (map eu_key (ao_updates opts))" "\<forall>u \<in> set (ao_updates opts). \<exists>r. batch_plan parse t opts d u = Inr r"
    and "d' = d\<lparr>entity_states := (if ao_writeCurrentState opts
              then foldl (\<lambda>ss row. upsert_state row ss) (entity_states d) (map fst (batch_rows parse t opts d)) else entity_states d),
            entity_history := entity_history d @ zip [serial..<serial + length (filter snd (batch_rows parse t opts d))]
              (map fst (filter snd (batch_rows parse t opts d)))\<rparr>"
proof -
  let ?us = "sort_key eu_key (ao_updates opts)"
  obtain rows where rows: "plan_updates (batch_plan parse t opts d) ?us = Inr rows"
    and dist: "card (set (map eu_key ?us)) = length (map eu_key ?us)"
    and rest: "rbind (if ao_writeCurrentState opts then upsertStateRows (map fst rows) d else Inr ((), d)) (\<lambda>(_, d1).
       insertHistoryRows serial (map fst (filter snd rows)) d1) = Inr (x, d')"
    using assms by (auto simp: applyEntityUpdates_def batch_plan_def rbind_eq_Inr ensure_def Let_def split: if_splits)
  from dist have "distinct (map eu_key ?us)" by (rule card_distinct)
  then show "distinct (map eu_key (ao_updates opts))"
    by (metis distinct_map distinct_sort set_sort)
  from plan_updates_Inr [OF rows] show "\<forall>u \<in> set (ao_updates opts). \<exists>r. batch_plan parse t opts d u = Inr r" by simp
  have eq: "rows = batch_rows parse t opts d" using plan_updates_Inr [OF rows] by (simp add: batch_rows_def planned_def [abs_def])
  have rest: "rbind (if ao_writeCurrentState opts then upsertStateRows (map fst (batch_rows parse t opts d)) d else Inr ((), d)) (\<lambda>(_, d1).
       insertHistoryRows serial (map fst (filter snd (batch_rows parse t opts d))) d1) = Inr (x, d')"
    using rest unfolding eq .
  obtain d1 where d1: "(if ao_writeCurrentState opts then upsertStateRows (map fst (batch_rows parse t opts d)) d else Inr ((), d)) = Inr ((), d1)"
    and d': "insertHistoryRows serial (map fst (filter snd (batch_rows parse t opts d))) d1 = Inr (x, d')"
    by (rule rbind_InrE [OF rest]) auto
  have "d1 = d\<lparr>entity_states := (if ao_writeCurrentState opts
      then foldl (\<lambda>ss row. upsert_state row ss) (entity_states d) (map fst (batch_rows parse t opts d)) else entity_states d)\<rparr>"
    using d1 by (cases "ao_writeCurrentState opts") (simp_all add: upsertStateRows_def split: if_splits)
  then show "d' = d\<lparr>entity_states := (if ao_writeCurrentState opts
              then foldl (\<lambda>ss row. upsert_state row ss) (entity_states d) (map fst (batch_rows parse t opts d)) else entity_states d),
            entity_history := entity_history d @ zip [serial..<serial + length (filter snd (batch_rows parse t opts d))]
              (map fst (filter snd (batch_rows parse t opts d)))\<rparr>"
    using d' by (simp add: insertHistoryRows_def split: if_splits)
qed

text \<open>An update is stale when it has a sequence number and the current value has one that is not smaller.\<close>

definition stale_update :: "entity_state option \<Rightarrow> int option \<Rightarrow> bool" where
  "stale_update previous seq =
     (case (previous, seq) of
        (Some p, Some s) \<Rightarrow> (case es_sequence p of None \<Rightarrow> False | Some s' \<Rightarrow> s \<le> s') | _ \<Rightarrow> False)"

lemma plan_update_Some:
  assumes "byKey (eu_key u) = Some descriptor"
  shows "plan_update parse t opts byKey current u =
          rbind (ensure (case eu_value u of None \<Rightarrow> True
                         | Some v \<Rightarrow> valueMatches (dr_valueType descriptor) (dr_enumValues descriptor) v)
                   (PInvalidValue (eu_key u))) (\<lambda>_.
          rbind (normalizeSequence (eu_sequence u)) (\<lambda>seq.
          if stale_update (current (eu_key u)) seq then Inr None
          else
            rbind (stamp_of parse (current (eu_key u)) u) (\<lambda>stamp.
            let row = updated_row t opts descriptor (current (eu_key u)) u seq stamp in
            Inr (Some (row, dr_history descriptor = HAll \<or> (dr_history descriptor = HChanges \<and> row_changed (current (eu_key u)) row) \<or>
                   dr_history descriptor = HSampled)))))"
  using assms by (simp add: plan_update_def stale_update_def Let_def)

lemma plan_update_Inr:
  assumes "plan_update parse t opts byKey current u = Inr r"
  obtains descriptor seq where "byKey (eu_key u) = Some descriptor" "normalizeSequence (eu_sequence u) = Inr seq"
    and "\<And>v. eu_value u = Some v \<Longrightarrow> valueMatches (dr_valueType descriptor) (dr_enumValues descriptor) v"
    and "r = None \<longleftrightarrow> stale_update (current (eu_key u)) seq"
    and "\<And>row h. r = Some (row, h) \<Longrightarrow> \<exists>stamp. stamp_of parse (current (eu_key u)) u = Inr stamp \<and>
           row = updated_row t opts descriptor (current (eu_key u)) u seq stamp \<and>
           h = (dr_history descriptor = HAll \<or> (dr_history descriptor = HChanges \<and> row_changed (current (eu_key u)) row) \<or> dr_history descriptor = HSampled)"
proof (cases "byKey (eu_key u)")
  case None
  with assms show ?thesis by (simp add: plan_update_def)
next
  case (Some descriptor)
  then obtain seq where seq: "normalizeSequence (eu_sequence u) = Inr seq"
    and v: "case eu_value u of None \<Rightarrow> True | Some v \<Rightarrow> valueMatches (dr_valueType descriptor) (dr_enumValues descriptor) v"
    and r: "(if stale_update (current (eu_key u)) seq then Inr None
          else rbind (stamp_of parse (current (eu_key u)) u) (\<lambda>stamp.
            let row = updated_row t opts descriptor (current (eu_key u)) u seq stamp in
            Inr (Some (row, dr_history descriptor = HAll \<or> (dr_history descriptor = HChanges \<and> row_changed (current (eu_key u)) row) \<or>
                   dr_history descriptor = HSampled)))) = Inr r"
    using assms unfolding plan_update_Some [of byKey u, OF Some]
    by (elim rbind_InrE, unfold ensure_def, split if_split_asm) blast+
  show ?thesis
  proof (rule that [OF Some seq])
    show "valueMatches (dr_valueType descriptor) (dr_enumValues descriptor) w" if "eu_value u = Some w" for w using v that by simp
    show "r = None \<longleftrightarrow> stale_update (current (eu_key u)) seq"
      using r by (auto simp: rbind_eq_Inr Let_def split: if_splits)
    show "\<exists>stamp. stamp_of parse (current (eu_key u)) u = Inr stamp \<and>
           row = updated_row t opts descriptor (current (eu_key u)) u seq stamp \<and>
           h = (dr_history descriptor = HAll \<or> (dr_history descriptor = HChanges \<and> row_changed (current (eu_key u)) row) \<or> dr_history descriptor = HSampled)"
      if "r = Some (row, h)" for row h
      using r that by (cases "stale_update (current (eu_key u)) seq") (auto simp: rbind_eq_Inr Let_def)
  qed
qed

lemma updated_row_simps [simp]:
  "key_of (updated_row t opts descriptor previous u seq stamp) = (ao_installation opts, ao_device opts, eu_key u)"
  "es_sequence (updated_row t opts descriptor previous u seq stamp) = seq"
  "es_revision (updated_row t opts descriptor previous u seq stamp) = dr_revision descriptor"
  by (simp_all add: updated_row_def key_of_def)

lemma plan_update_key:
  assumes "plan_update parse t opts byKey current u = Inr (Some (row, h))"
  shows "key_of row = (ao_installation opts, ao_device opts, eu_key u)"
  using assms by (rule plan_update_Inr) auto

text \<open>A planned row is newer than the one it replaces.\<close>

lemma plan_update_newer:
  assumes "plan_update parse t opts byKey current u = Inr (Some (row, h))" "current (eu_key u) = Some old"
  shows "newer row old"
  using assms(1)
proof (rule plan_update_Inr)
  fix descriptor seq
  assume "(Some (row, h) = None) = stale_update (current (eu_key u)) seq"
    and *: "\<And>row' h'. Some (row, h) = Some (row', h') \<Longrightarrow> \<exists>stamp. stamp_of parse (current (eu_key u)) u = Inr stamp \<and>
           row' = updated_row t opts descriptor (current (eu_key u)) u seq stamp \<and>
           h' = (dr_history descriptor = HAll \<or> (dr_history descriptor = HChanges \<and> row_changed (current (eu_key u)) row') \<or> dr_history descriptor = HSampled)"
  then have "\<not> stale_update (Some old) seq" using assms(2) by simp
  moreover have "es_sequence row = seq" using * [OF refl] by auto
  ultimately show ?thesis by (auto simp: stale_update_def newer_def split: option.splits)
qed

lemma batch_rows_mem:
  "(row, h) \<in> set (batch_rows parse t opts d) \<longleftrightarrow> (\<exists>u \<in> set (ao_updates opts). batch_plan parse t opts d u = Inr (Some (row, h)))"
  by (auto simp: batch_rows_def List.map_filter_def planned_def split: sum.splits) force+

text \<open>The plan of an update of a batch that writes current values.\<close>

lemma batch_plan_Inr:
  assumes "batch_plan parse t opts d u = Inr r" "ao_writeCurrentState opts"
  obtains descriptor seq where
      "resolveEntityDescriptors opts (map eu_key (sort_key eu_key (ao_updates opts))) d (eu_key u) = Some descriptor"
    and "normalizeSequence (eu_sequence u) = Inr seq"
    and "\<And>v. eu_value u = Some v \<Longrightarrow> valueMatches (dr_valueType descriptor) (dr_enumValues descriptor) v"
    and "r = None \<longleftrightarrow> stale_update (state_map (entity_states d) (ao_installation opts, ao_device opts, eu_key u)) seq"
    and "\<And>row h. r = Some (row, h) \<Longrightarrow> \<exists>stamp. row = updated_row t opts descriptor
           (state_map (entity_states d) (ao_installation opts, ao_device opts, eu_key u)) u seq stamp"
  using assms(1) unfolding batch_plan_def
proof (rule plan_update_Inr, goal_cases)
  case (1 descriptor seq)
  show ?case
  proof (rule 1(1) [OF 1(2,3,4)])
    show "r = None \<longleftrightarrow> stale_update (state_map (entity_states d) (ao_installation opts, ao_device opts, eu_key u)) seq"
      using 1(5) assms(2) by (simp add: find_state_map)
    show "\<exists>stamp. row = updated_row t opts descriptor (state_map (entity_states d) (ao_installation opts, ao_device opts, eu_key u)) u seq stamp"
      if "r = Some (row, h)" for row h using 1(6) [OF that] assms(2) by (auto simp: find_state_map)
  qed
qed

lemma distinct_map_filter:
  "distinct (map k us) \<Longrightarrow> (\<And>u x. f u = Some x \<Longrightarrow> g x = k' (k u)) \<Longrightarrow> inj k' \<Longrightarrow> distinct (map g (List.map_filter f us))"
proof (induction us)
  case (Cons u us)
  have "g x \<noteq> g y" if fu: "f u = Some x" and y: "y \<in> set (List.map_filter f us)" for x y
  proof -
    from y obtain u' where "u' \<in> set us" "f u' = Some y" by (auto simp: List.map_filter_def)
    with Cons.prems fu have "g x = k' (k u)" "g y = k' (k u')" "k u \<noteq> k u'" by auto
    with Cons.prems(3) show ?thesis by (simp add: inj_eq)
  qed
  then show ?case using Cons by (auto simp: List.map_filter_simps split: option.splits)
qed (simp add: List.map_filter_simps)

lemma batch_rows_distinct:
  assumes "distinct (map eu_key (ao_updates opts))"
  shows "distinct (map key_of (map fst (batch_rows parse t opts d)))"
proof -
  have "distinct (map eu_key (sort_key eu_key (ao_updates opts)))"
    using assms by (metis distinct_map distinct_sort set_sort)
  then have "distinct (map (key_of \<circ> fst) (batch_rows parse t opts d))"
    unfolding batch_rows_def
    by (rule distinct_map_filter [where k' = "\<lambda>k. (ao_installation opts, ao_device opts, k)"])
       (auto simp: planned_def batch_plan_def inj_def dest!: plan_update_key split: sum.splits)
  then show ?thesis by simp
qed

text \<open>The effect of a batch on the map: the planned rows, merged with what was there; everything else is untouched.\<close>

lemma apply_states:
  assumes ok: "applyEntityUpdates parse t serial opts d = Inr (x, d')" and w: "ao_writeCurrentState opts"
  shows "u \<in> set (ao_updates opts) \<Longrightarrow> batch_plan parse t opts d u = Inr (Some (row, h)) \<Longrightarrow>
      state_map (entity_states d') (ao_installation opts, ao_device opts, eu_key u) =
        Some (case state_map (entity_states d) (ao_installation opts, ao_device opts, eu_key u) of
                None \<Rightarrow> row | Some old \<Rightarrow> merge_state row old)"
    and "(\<And>u. u \<in> set (ao_updates opts) \<Longrightarrow> k = (ao_installation opts, ao_device opts, eu_key u) \<Longrightarrow> batch_plan parse t opts d u = Inr None) \<Longrightarrow>
      state_map (entity_states d') k = state_map (entity_states d) k"
proof -
  let ?rows = "map fst (batch_rows parse t opts d)"
  have d': "entity_states d' = foldl (\<lambda>ss row. upsert_state row ss) (entity_states d) ?rows"
    using apply_Inr(3) [OF ok] w by simp
  note dist = batch_rows_distinct [OF apply_Inr(1) [OF ok]]
  {
    assume u: "u \<in> set (ao_updates opts)" and p: "batch_plan parse t opts d u = Inr (Some (row, h))"
    then have "row \<in> set ?rows" using batch_rows_mem by force
    from upserts_same [OF dist this] have *: "state_map (entity_states d') (key_of row) = spec_upsert row (state_map (entity_states d)) (key_of row)"
      by (simp add: d')
    have k: "key_of row = (ao_installation opts, ao_device opts, eu_key u)" using p plan_update_key by (simp add: batch_plan_def)
    have "newer row old" if "state_map (entity_states d) (ao_installation opts, ao_device opts, eu_key u) = Some old" for old
      using plan_update_newer [OF p [unfolded batch_plan_def], of old] that w by (simp add: find_state_map)
    then show "state_map (entity_states d') (ao_installation opts, ao_device opts, eu_key u) =
        Some (case state_map (entity_states d) (ao_installation opts, ao_device opts, eu_key u) of
                None \<Rightarrow> row | Some old \<Rightarrow> merge_state row old)"
      using * unfolding k [symmetric] spec_upsert_same by (auto simp: k split: option.splits)
  }
  {
    assume none: "\<And>u. u \<in> set (ao_updates opts) \<Longrightarrow> k = (ao_installation opts, ao_device opts, eu_key u) \<Longrightarrow> batch_plan parse t opts d u = Inr None"
    have "k \<notin> key_of ` set ?rows"
    proof
      assume "k \<in> key_of ` set ?rows"
      then obtain row h where rh: "(row, h) \<in> set (batch_rows parse t opts d)" "k = key_of row" by auto
      then obtain u where u: "u \<in> set (ao_updates opts)" "batch_plan parse t opts d u = Inr (Some (row, h))" by (auto simp: batch_rows_mem)
      then have "k = (ao_installation opts, ao_device opts, eu_key u)" using rh(2) plan_update_key by (simp add: batch_plan_def)
      with none u show False by auto
    qed
    then show "state_map (entity_states d') k = state_map (entity_states d) k" by (simp add: d' upserts_other)
  }
qed


section \<open>Sequence numbers\<close>

inductive entity_batch :: "plugin_db \<Rightarrow> plugin_db \<Rightarrow> bool" where
  "applyEntityUpdates parse t serial opts d = Inr (x, d') \<Longrightarrow> entity_batch d d'"

lemma entity_batch_frame: "entity_batch d d' \<Longrightarrow> descriptors d' = descriptors d \<and> core_db d' = core_db d"
  by (erule entity_batch.cases, drule apply_Inr(3)) simp

lemma entity_batches_frame: "entity_batch\<^sup>*\<^sup>* d d' \<Longrightarrow> descriptors d' = descriptors d \<and> core_db d' = core_db d"
  by (induction rule: rtranclp_induct) (auto dest: entity_batch_frame)

lemma merge_sequence: "es_sequence (merge_state row old) = (case es_sequence row of None \<Rightarrow> es_sequence old | Some s \<Rightarrow> Some s)"
  by (simp add: merge_state_def coalesce_def)

text \<open>The sequence number of the current value of an entity, if it has one.\<close>

definition sequence_at :: "plugin_db \<Rightarrow> entity_key \<Rightarrow> int option" where
  "sequence_at d k = Option.bind (state_map (entity_states d) k) es_sequence"

lemma batch_sequence:
  assumes "applyEntityUpdates parse t serial opts d = Inr (x, d')" "sequence_at d k = Some n"
  shows "\<exists>n' \<ge> n. sequence_at d' k = Some n'"
proof (cases "ao_writeCurrentState opts \<and> (\<exists>u \<in> set (ao_updates opts). k = (ao_installation opts, ao_device opts, eu_key u) \<and> batch_plan parse t opts d u \<noteq> Inr None)")
  case True
  then obtain u where w: "ao_writeCurrentState opts" and u: "u \<in> set (ao_updates opts)" and k: "k = (ao_installation opts, ao_device opts, eu_key u)"
    and "batch_plan parse t opts d u \<noteq> Inr None" by blast
  then obtain row h where p: "batch_plan parse t opts d u = Inr (Some (row, h))"
    using apply_Inr(2) [OF assms(1)] by (metis option.exhaust prod.exhaust)
  obtain old where old: "state_map (entity_states d) k = Some old" "es_sequence old = Some n"
    using assms(2) by (auto simp: sequence_at_def bind_eq_Some_conv)
  then have "newer row old" using plan_update_newer [OF p [unfolded batch_plan_def], of old] w k by (simp add: find_state_map)
  then have "\<exists>n' \<ge> n. es_sequence (merge_state row old) = Some n'"
    using old(2) by (auto simp: merge_sequence newer_def split: option.splits)
  moreover have "sequence_at d' k = es_sequence (merge_state row old)"
    using apply_states(1) [OF assms(1) w u p] old(1) by (simp add: sequence_at_def k)
  ultimately show ?thesis by simp
next
  case False
  have "state_map (entity_states d') k = state_map (entity_states d) k"
  proof (cases "ao_writeCurrentState opts")
    case True
    show ?thesis by (rule apply_states(2) [OF assms(1) True]) (use False True in blast)
  next
    case False
    then show ?thesis using apply_Inr(3) [OF assms(1)] by simp
  qed
  with assms(2) show ?thesis by (simp add: sequence_at_def)
qed

lemma batches_sequence: "entity_batch\<^sup>*\<^sup>* d d' \<Longrightarrow> sequence_at d k = Some n \<Longrightarrow> \<exists>n' \<ge> n. sequence_at d' k = Some n'"
proof (induction rule: rtranclp_induct)
  case (step y z)
  then obtain n' where n': "n' \<ge> n" "sequence_at y k = Some n'" by blast
  from step.hyps(2) obtain n'' where "n'' \<ge> n'" "sequence_at z k = Some n''"
    by (cases rule: entity_batch.cases) (use batch_sequence n'(2) in blast)
  with n' show ?case by (auto intro: order_trans)
qed auto

text \<open>After a batch, the current value of every entity it updates with a sequence number is at least that recent.\<close>

lemma batch_recorded:
  assumes ok: "applyEntityUpdates parse t serial opts d = Inr (x, d')" and w: "ao_writeCurrentState opts"
    and u: "u \<in> set (ao_updates opts)" and n: "normalizeSequence (eu_sequence u) = Inr (Some n)"
  shows "\<exists>n' \<ge> n. sequence_at d' (ao_installation opts, ao_device opts, eu_key u) = Some n'"
proof -
  let ?k = "(ao_installation opts, ao_device opts, eu_key u)"
  obtain r where r: "batch_plan parse t opts d u = Inr r" using apply_Inr(2) [OF ok] u by blast
  from r w obtain descriptor where stale: "r = None \<longleftrightarrow> stale_update (state_map (entity_states d) ?k) (Some n)"
    and row: "\<And>row h. r = Some (row, h) \<Longrightarrow> \<exists>stamp. row = updated_row t opts descriptor (state_map (entity_states d) ?k) u (Some n) stamp"
    by (rule batch_plan_Inr) (use n in auto)
  show ?thesis
  proof (cases r)
    case None
    then obtain m where "sequence_at d ?k = Some m" "n \<le> m"
      using stale by (auto simp: stale_update_def sequence_at_def split: option.splits)
    moreover from batch_sequence [OF ok this(1)] obtain m' where "m' \<ge> m" "sequence_at d' ?k = Some m'" by blast
    ultimately show ?thesis by (auto intro: order_trans)
  next
    case (Some rh)
    obtain rw h where rh: "rh = (rw, h)" by (cases rh)
    with row Some have "es_sequence rw = Some n" by force
    then show ?thesis
      using apply_states(1) [OF ok w u, of rw h] r Some rh
      by (auto simp: sequence_at_def merge_sequence split: option.splits)
  qed
qed

text \<open>C37. Late and repeated batches of current values change nothing. When a batch that writes current state (an event
  of the device's current snapshot, \<^verbatim>\<open>writeCurrentState\<close>) and whose updates all carry sequence numbers has been applied, any number of other batches may follow: applying it again succeeds, writes no current value and no history. Batches of
  older snapshots write history only and compare no sequence numbers; for them the single completion of an event is what
  keeps the history from being written twice.\<close>

theorem late_batch_ignored:
  assumes "applyEntityUpdates parse t serial opts d = Inr (x, d1)" "ao_writeCurrentState opts"
    and "\<forall>u \<in> set (ao_updates opts). eu_sequence u \<noteq> None" "entity_batch\<^sup>*\<^sup>* d1 d2"
  shows "applyEntityUpdates parse2 t2 serial2 opts d2 = Inr ((), d2)"
proof -
  let ?us = "sort_key eu_key (ao_updates opts)"
  have desc: "descriptors d2 = descriptors d" using entity_batches_frame [OF assms(4)] apply_Inr(3) [OF assms(1)] by simp
  have none: "batch_plan parse2 t2 opts d2 u = Inr None" if u: "u \<in> set (ao_updates opts)" for u
  proof -
    obtain r where "batch_plan parse t opts d u = Inr r" using apply_Inr(2) [OF assms(1)] u by blast
    from this [unfolded batch_plan_def] obtain descriptor seq
      where byKey: "resolveEntityDescriptors opts (map eu_key ?us) d (eu_key u) = Some descriptor"
        and seq: "normalizeSequence (eu_sequence u) = Inr seq"
        and v: "\<And>v. eu_value u = Some v \<Longrightarrow> valueMatches (dr_valueType descriptor) (dr_enumValues descriptor) v"
      by (rule plan_update_Inr) blast
    obtain n where n: "seq = Some n"
      using seq assms(3) u by (auto simp: normalizeSequence_def split: option.splits seq_input.splits jsnum.splits if_splits)
    from batch_recorded [OF assms(1,2) u] seq n obtain n' where n': "n' \<ge> n" "sequence_at d1 (ao_installation opts, ao_device opts, eu_key u) = Some n'" by blast
    from batches_sequence [OF assms(4) n'(2)] obtain m where m: "m \<ge> n'" "sequence_at d2 (ao_installation opts, ao_device opts, eu_key u) = Some m" by blast
    have "stale_update (find_state (ao_installation opts) (ao_device opts) (eu_key u) d2) seq"
      using m n'(1) n by (auto simp: stale_update_def find_state_map sequence_at_def bind_eq_Some_conv)
    moreover have byKey2: "resolveEntityDescriptors opts (map eu_key ?us) d2 (eu_key u) = Some descriptor"
      using byKey desc by (simp add: resolveEntityDescriptors_def)
    have "case eu_value u of None \<Rightarrow> True | Some v \<Rightarrow> valueMatches (dr_valueType descriptor) (dr_enumValues descriptor) v"
      using v by (auto split: option.splits)
    ultimately show ?thesis
      unfolding batch_plan_def plan_update_Some [where byKey = "resolveEntityDescriptors opts (map eu_key ?us) d2" and u = u, OF byKey2] using seq assms(2) by simp
  qed
  have "plan_updates (batch_plan parse2 t2 opts d2) ?us = Inr []" by (rule plan_updates_all_None) (simp add: none)
  moreover have "length (ao_updates opts) \<le> 4096" "card (set (map eu_key ?us)) = length (map eu_key ?us)"
    using assms(1) by (auto simp: applyEntityUpdates_def rbind_eq_Inr Let_def)
  ultimately show ?thesis
    using assms(2) by (simp add: applyEntityUpdates_def batch_plan_def Let_def upsertStateRows_def insertHistoryRows_def)
qed


section \<open>The registry of descriptor revisions\<close>

definition scope_of :: "entity_descriptor \<Rightarrow> uuid \<times> jsstring \<times> int \<times> jsstring" where
  "scope_of r = (dr_installation r, dr_profile r, dr_profileVersion r, dr_key r)"

text \<open>Identifiers and revisions are unique, and only the latest revision of a key can be active.\<close>

definition registry_inv :: "entity_descriptor list \<Rightarrow> bool" where
  "registry_inv rs \<longleftrightarrow> distinct (map dr_id rs) \<and> distinct (map descriptor_slot rs) \<and>
     (\<forall>r \<in> set rs. \<forall>r' \<in> set rs. \<not> dr_deprecated r \<and> scope_of r' = scope_of r \<longrightarrow> dr_revision r' \<le> dr_revision r)"

lemma descriptor_slot_scope: "descriptor_slot r = descriptor_slot r' \<longleftrightarrow> scope_of r = scope_of r' \<and> dr_revision r = dr_revision r'"
  by (auto simp: descriptor_slot_def scope_of_def)

lemma distinct_map_eq: "distinct (map f xs) \<Longrightarrow> x \<in> set xs \<Longrightarrow> y \<in> set xs \<Longrightarrow> f x = f y \<Longrightarrow> x = y"
  by (meson distinct_map inj_onD)

lemma registry_one_active:
  assumes "registry_inv rs" "r \<in> set rs" "r' \<in> set rs" "\<not> dr_deprecated r" "\<not> dr_deprecated r'" "scope_of r = scope_of r'"
  shows "r = r'"
proof -
  have "dr_revision r' \<le> dr_revision r" "dr_revision r \<le> dr_revision r'" using assms by (auto simp: registry_inv_def)
  then have "descriptor_slot r = descriptor_slot r'" using assms(6) by (simp add: descriptor_slot_scope)
  moreover have "distinct (map descriptor_slot rs)" using assms(1) by (simp add: registry_inv_def)
  ultimately show ?thesis using assms(2,3) by (blast intro: distinct_map_eq)
qed

text \<open>Changing flags keeps the invariant when every row that becomes active is the latest.\<close>

lemma registry_inv_map:
  assumes "registry_inv rs" "\<And>r. r \<in> set rs \<Longrightarrow> dr_id (f r) = dr_id r \<and> descriptor_slot (f r) = descriptor_slot r"
    and "\<And>r r'. r \<in> set rs \<Longrightarrow> r' \<in> set rs \<Longrightarrow> \<not> dr_deprecated (f r) \<Longrightarrow> dr_deprecated r \<Longrightarrow> scope_of r' = scope_of r \<Longrightarrow> dr_revision r' \<le> dr_revision r"
  shows "registry_inv (map f rs)"
proof -
  have "map dr_id (map f rs) = map dr_id rs" "map descriptor_slot (map f rs) = map descriptor_slot rs" using assms(2) by auto
  moreover have "scope_of (f r) = scope_of r \<and> dr_revision (f r) = dr_revision r" if "r \<in> set rs" for r
    using assms(2) [OF that] by (simp add: descriptor_slot_scope)
  moreover have "dr_revision r' \<le> dr_revision r"
    if "r \<in> set rs" "r' \<in> set rs" "\<not> dr_deprecated (f r)" "scope_of r' = scope_of r" for r r'
    using assms(1) assms(3) [OF that(1-3) _ that(4)] that by (cases "dr_deprecated r") (auto simp: registry_inv_def)
  ultimately show ?thesis using assms(1) unfolding registry_inv_def by (auto simp del: map_map)
qed

lemma set_deprecated_descriptors [simp]:
  "descriptors (set_deprecated b p d) = map (\<lambda>r. if p r then r\<lparr>dr_deprecated := b\<rparr> else r) (descriptors d)"
  by (simp add: set_deprecated_def)

lemma slot_deprecated [simp]: "descriptor_slot (r\<lparr>dr_deprecated := b\<rparr>) = descriptor_slot r" "scope_of (r\<lparr>dr_deprecated := b\<rparr>) = scope_of r"
  by (simp_all add: descriptor_slot_def scope_of_def)

lemma registry_inv_deprecate: "registry_inv (descriptors d) \<Longrightarrow> registry_inv (descriptors (set_deprecated True p d))"
  unfolding set_deprecated_descriptors by (rule registry_inv_map) (auto split: if_splits)

lemma latest_of_snoc:
  "latest_of (rs @ [r]) key = (if dr_key r = key \<and> (case latest_of rs key of None \<Rightarrow> True | Some x \<Rightarrow> dr_revision r > dr_revision x)
     then Some r else latest_of rs key)"
  by (simp add: latest_of_def)

lemma latest_of_Some: "latest_of rs key = Some r \<Longrightarrow> r \<in> set rs \<and> dr_key r = key \<and> (\<forall>r' \<in> set rs. dr_key r' = key \<longrightarrow> dr_revision r' \<le> dr_revision r)"
proof (induction rs arbitrary: r rule: rev_induct)
  case Nil
  then show ?case by (simp add: latest_of_def)
next
  case (snoc a rs)
  show ?case
  proof (cases "latest_of rs key")
    case None
    then have "\<not> (\<exists>r' \<in> set rs. dr_key r' = key)"
    proof (induction rs rule: rev_induct)
      case (snoc b rs)
      then show ?case by (auto simp: latest_of_snoc split: if_splits option.splits)
    qed simp
    with None snoc.prems show ?thesis by (auto simp: latest_of_snoc split: if_splits)
  next
    case (Some x)
    with snoc.IH [OF Some] snoc.prems show ?thesis by (fastforce simp: latest_of_snoc split: if_splits)
  qed
qed

lemma latest_of_None: "latest_of rs key = None \<longleftrightarrow> \<not> (\<exists>r \<in> set rs. dr_key r = key)"
proof (induction rs rule: rev_induct)
  case Nil
  then show ?case by (simp add: latest_of_def)
next
  case (snoc a rs)
  then show ?case by (auto simp: latest_of_snoc split: if_splits option.splits)
qed

text \<open>What the loop over the declared descriptors collects.\<close>

definition reused :: "(jsstring \<Rightarrow> entity_descriptor option) \<Rightarrow> EntityDescriptorInput \<Rightarrow> bool" where
  "reused latest x \<longleftrightarrow> (case latest (ed_key x) of None \<Rightarrow> False | Some old \<Rightarrow> sameDescriptor old x)"

definition next_revision :: "entity_descriptor option \<Rightarrow> int" where
  "next_revision old = (case old of None \<Rightarrow> 1 | Some r \<Rightarrow> dr_revision r + 1)"

lemma plan_descriptors_sets:
  assumes "plan_descriptors mk latest n ds = (act, dep, new)"
  shows "set act = {dr_id old |old x. x \<in> set ds \<and> latest (ed_key x) = Some old \<and> reused latest x}"
    and "set dep = {dr_id old |old x. x \<in> set ds \<and> latest (ed_key x) = Some old \<and> \<not> reused latest x}"
    and "\<And>r. r \<in> set new \<Longrightarrow> \<exists>x \<in> set ds. \<exists>i. \<not> reused latest x \<and> r = mk i (next_revision (latest (ed_key x))) x"
    and "\<And>x. x \<in> set ds \<Longrightarrow> \<not> reused latest x \<Longrightarrow> \<exists>i. mk i (next_revision (latest (ed_key x))) x \<in> set new"
proof -
  have "set act = {dr_id old |old x. x \<in> set ds \<and> latest (ed_key x) = Some old \<and> reused latest x} \<and>
    set dep = {dr_id old |old x. x \<in> set ds \<and> latest (ed_key x) = Some old \<and> \<not> reused latest x} \<and>
    (\<forall>r \<in> set new. \<exists>x \<in> set ds. \<exists>i. \<not> reused latest x \<and> r = mk i (next_revision (latest (ed_key x))) x) \<and>
    (\<forall>x \<in> set ds. \<not> reused latest x \<longrightarrow> (\<exists>i. mk i (next_revision (latest (ed_key x))) x \<in> set new))"
    using assms
  proof (induction ds arbitrary: n act dep new)
    case Nil
    then show ?case by simp
  next
    case (Cons x ds)
    show ?case
    proof (cases "reused latest x")
      case True
      then obtain old where old: "latest (ed_key x) = Some old" "sameDescriptor old x" by (auto simp: reused_def split: option.splits)
      obtain act' dep' new' where rest: "plan_descriptors mk latest n ds = (act', dep', new')" by (metis prod_cases3)
      from Cons.prems old rest have "act = dr_id old # act'" "dep = dep'" "new = new'" by auto
      with Cons.IH [OF rest] True old show ?thesis by auto
    next
      case False
      obtain act' dep' new' where rest: "plan_descriptors mk latest (Suc n) ds = (act', dep', new')" by (metis prod_cases3)
      from Cons.prems False rest have "act = act'" "dep = (case latest (ed_key x) of None \<Rightarrow> [] | Some old \<Rightarrow> [dr_id old]) @ dep'"
        "new = mk n (next_revision (latest (ed_key x))) x # new'"
        by (auto simp: reused_def next_revision_def split: option.splits)
      with Cons.IH [OF rest] False show ?thesis by (cases "latest (ed_key x)") auto
    qed
  qed
  then show "set act = {dr_id old |old x. x \<in> set ds \<and> latest (ed_key x) = Some old \<and> reused latest x}"
    "set dep = {dr_id old |old x. x \<in> set ds \<and> latest (ed_key x) = Some old \<and> \<not> reused latest x}"
    "\<And>r. r \<in> set new \<Longrightarrow> \<exists>x \<in> set ds. \<exists>i. \<not> reused latest x \<and> r = mk i (next_revision (latest (ed_key x))) x"
    "\<And>x. x \<in> set ds \<Longrightarrow> \<not> reused latest x \<Longrightarrow> \<exists>i. mk i (next_revision (latest (ed_key x))) x \<in> set new"
    by blast+
qed


text \<open>Registration written as one update of the flags of the rows, and the new rows.\<close>

definition known_rows :: "uuid \<Rightarrow> jsstring \<Rightarrow> int \<Rightarrow> entity_descriptor list \<Rightarrow> entity_descriptor list" where
  "known_rows inst prof ver rs = sort_key dr_revision (filter (in_profile inst prof ver) rs)"

definition active_after :: "uuid \<Rightarrow> jsstring \<Rightarrow> int \<Rightarrow> EntityDescriptorInput list \<Rightarrow> entity_descriptor list \<Rightarrow> entity_descriptor \<Rightarrow> bool" where
  "active_after inst prof ver ds rs r \<longleftrightarrow>
     (if in_profile inst prof ver r
      then latest_of (known_rows inst prof ver rs) (dr_key r) = Some r \<and>
           (\<exists>x \<in> set ds. ed_key x = dr_key r \<and> sameDescriptor r x)
      else \<not> dr_deprecated r)"

lemma known_rows_mem: "r \<in> set (known_rows inst prof ver rs) \<longleftrightarrow> r \<in> set rs \<and> in_profile inst prof ver r"
  by (auto simp: known_rows_def)

lemma in_profile_scope: "in_profile inst prof ver r \<Longrightarrow> scope_of r = (inst, prof, ver, dr_key r)"
  by (simp add: in_profile_def scope_of_def)

lemma latest_known:
  assumes "latest_of (known_rows inst prof ver rs) key = Some r"
  shows "r \<in> set rs" "in_profile inst prof ver r" "dr_key r = key"
    and "\<And>r'. r' \<in> set rs \<Longrightarrow> scope_of r' = scope_of r \<Longrightarrow> dr_revision r' \<le> dr_revision r"
proof -
  from latest_of_Some [OF assms] have *: "r \<in> set (known_rows inst prof ver rs)" "dr_key r = key"
    "\<forall>r' \<in> set (known_rows inst prof ver rs). dr_key r' = key \<longrightarrow> dr_revision r' \<le> dr_revision r" by auto
  then show "r \<in> set rs" "in_profile inst prof ver r" "dr_key r = key" by (simp_all add: known_rows_mem)
  then show "dr_revision r' \<le> dr_revision r" if "r' \<in> set rs" "scope_of r' = scope_of r" for r'
    using * that by (auto simp: known_rows_mem scope_of_def in_profile_def)
qed

lemma registered_flag:
  assumes inv: "registry_inv rs" and keys: "distinct (map ed_key ds)"
    and plan: "plan_descriptors mk (latest_of (known_rows inst prof ver rs)) 0 ds = (act, dep, new)"
    and r: "r \<in> set rs"
  shows "dr_id r \<in> set act \<or> (dr_id r \<notin> set (dep @ map dr_id (filter (\<lambda>r. dr_key r \<notin> ed_key ` set ds) (known_rows inst prof ver rs))) \<and> \<not> dr_deprecated r)
     \<longleftrightarrow> active_after inst prof ver ds rs r"
proof -
  let ?latest = "latest_of (known_rows inst prof ver rs)"
  have id: "x = r" if "x \<in> set rs" "dr_id x = dr_id r" for x
    using inv that r by (auto simp: registry_inv_def intro: distinct_map_eq [of dr_id rs])
  have lid: "old = r" if "?latest key = Some old" "dr_id r = dr_id old" for key old
    using latest_known(1) [OF that(1)] that(2) id by simp
  have act: "dr_id r \<in> set act \<longleftrightarrow> (\<exists>x \<in> set ds. ?latest (ed_key x) = Some r \<and> sameDescriptor r x)"
    unfolding plan_descriptors_sets(1) [OF plan] using lid by (fastforce simp: reused_def)
  have dep: "dr_id r \<in> set dep \<longleftrightarrow> (\<exists>x \<in> set ds. ?latest (ed_key x) = Some r \<and> \<not> sameDescriptor r x)"
    unfolding plan_descriptors_sets(2) [OF plan] using lid by (fastforce simp: reused_def)
  have old: "dr_id r \<in> dr_id ` set (filter (\<lambda>r. dr_key r \<notin> ed_key ` set ds) (known_rows inst prof ver rs)) \<longleftrightarrow>
      in_profile inst prof ver r \<and> dr_key r \<notin> ed_key ` set ds"
    using r by (auto simp: known_rows_mem dest: id)
  show ?thesis
  proof (cases "in_profile inst prof ver r")
    case False
    then have "?latest key \<noteq> Some r" for key using latest_known(2) by blast
    with False act dep old show ?thesis by (auto simp: active_after_def)
  next
    case True
    have latest: "?latest (dr_key r) = Some r" if "\<not> dr_deprecated r"
    proof (cases "?latest (dr_key r)")
      case None
      with True r show ?thesis by (auto simp: latest_of_None known_rows_mem)
    next
      case (Some x)
      note x = latest_known [OF Some]
      have sc: "scope_of x = scope_of r" using in_profile_scope [OF x(2)] in_profile_scope [OF True] x(3) by simp
      then have "dr_revision r = dr_revision x" using x(1) x(4) [OF r] inv r that by (fastforce simp: registry_inv_def)
      then have "descriptor_slot x = descriptor_slot r" using sc by (simp add: descriptor_slot_scope)
      then have "x = r" using inv x(1) r by (auto simp: registry_inv_def intro: distinct_map_eq [of descriptor_slot rs])
      with Some show ?thesis by simp
    qed
    have key: "ed_key x = dr_key r" if "?latest (ed_key x) = Some r" for x using latest_known(3) [OF that] by simp
    have uniq: "x = y" if "x \<in> set ds" "y \<in> set ds" "ed_key x = ed_key y" for x y
      using keys that by (rule distinct_map_eq)
    show ?thesis
    proof (cases "dr_key r \<in> ed_key ` set ds")
      case False
      then show ?thesis using True act dep old key by (force simp: active_after_def)
    next
      case dk: True
      then obtain x where x: "x \<in> set ds" "ed_key x = dr_key r" by auto
      have only: "y = x" if "y \<in> set ds" "ed_key y = dr_key r" for y using uniq [OF that(1) x(1)] that(2) x(2) by simp
      have ex: "(\<exists>y \<in> set ds. ed_key y = dr_key r \<and> sameDescriptor r y) \<longleftrightarrow> sameDescriptor r x" using x only by blast
      have "dr_id r \<in> set act \<longleftrightarrow> ?latest (dr_key r) = Some r \<and> sameDescriptor r x"
        unfolding act using x key uniq by metis
      moreover have "dr_id r \<in> set dep \<longleftrightarrow> ?latest (dr_key r) = Some r \<and> \<not> sameDescriptor r x"
        unfolding dep using x key uniq by metis
      moreover have "active_after inst prof ver ds rs r \<longleftrightarrow> ?latest (dr_key r) = Some r \<and> sameDescriptor r x"
        using True x(2) ex by (simp add: active_after_def)
      ultimately show ?thesis using old dk True latest by auto
    qed
  qed
qed


lemma flags_compose:
  "(if dr_id (if dr_id r \<in> B then r\<lparr>dr_deprecated := True\<rparr> else r) \<in> A
    then (if dr_id r \<in> B then r\<lparr>dr_deprecated := True\<rparr> else r)\<lparr>dr_deprecated := False\<rparr>
    else (if dr_id r \<in> B then r\<lparr>dr_deprecated := True\<rparr> else r)) =
   (if dr_id r \<in> A then r\<lparr>dr_deprecated := False\<rparr> else if dr_id r \<in> B then r\<lparr>dr_deprecated := True\<rparr> else r)"
  by simp

lemma register_Inr:
  assumes inv: "registry_inv (descriptors d)" and keys: "distinct (map ed_key ds)"
    and ok: "registerInTransaction newId t inst prof ver ds d = Inr (u, d')"
  obtains new where
      "d' = d\<lparr>descriptors := map (\<lambda>r. r\<lparr>dr_deprecated := \<not> active_after inst prof ver ds (descriptors d) r\<rparr>) (descriptors d) @ new\<rparr>"
    and "distinct (map dr_id (descriptors d'))" "distinct (map descriptor_slot (descriptors d'))"
    and "\<And>r. r \<in> set new \<Longrightarrow> \<exists>x \<in> set ds. \<exists>i. \<not> reused (latest_of (known_rows inst prof ver (descriptors d))) x \<and>
           r = new_descriptor newId t inst prof ver (next_revision (latest_of (known_rows inst prof ver (descriptors d)) (ed_key x))) i x"
    and "\<And>x. x \<in> set ds \<Longrightarrow> \<not> reused (latest_of (known_rows inst prof ver (descriptors d))) x \<Longrightarrow>
           \<exists>i. new_descriptor newId t inst prof ver (next_revision (latest_of (known_rows inst prof ver (descriptors d)) (ed_key x))) i x \<in> set new"
proof -
  let ?ex = "known_rows inst prof ver (descriptors d)"
  let ?mk = "\<lambda>i revn x. new_descriptor newId t inst prof ver revn i x"
  let ?f = "\<lambda>r. r\<lparr>dr_deprecated := \<not> active_after inst prof ver ds (descriptors d) r\<rparr>"
  obtain act dep new where plan: "plan_descriptors ?mk (latest_of ?ex) 0 ds = (act, dep, new)" by (metis prod_cases3)
  define gone where "gone = dep @ map dr_id (filter (\<lambda>r. dr_key r \<notin> ed_key ` set ds) ?ex)"
  define d2 where "d2 = set_deprecated False (\<lambda>r. dr_id r \<in> set act) (set_deprecated True (\<lambda>r. dr_id r \<in> set gone) d)"
  have step: "(if new = [] then Inr ((), d2) else insert_descriptors new d2) = Inr (u, d')"
    using ok unfolding registerInTransaction_def Let_def known_rows_def [symmetric] plan gone_def d2_def by (simp only: prod.case set_map)
  have flag: "(if dr_id r \<in> set act then (r\<lparr>dr_deprecated := False\<rparr>) else if dr_id r \<in> set gone then (r\<lparr>dr_deprecated := True\<rparr>) else r) = ?f r"
    if "r \<in> set (descriptors d)" for r
    using registered_flag [OF inv keys plan that, folded gone_def] by (cases r) auto
  have "map (\<lambda>r. if dr_id r \<in> set act then r\<lparr>dr_deprecated := False\<rparr> else r)
      (map (\<lambda>r. if dr_id r \<in> set gone then r\<lparr>dr_deprecated := True\<rparr> else r) (descriptors d)) = map ?f (descriptors d)"
    unfolding map_map
  proof (rule map_cong [OF refl])
    fix r assume "r \<in> set (descriptors d)"
    from flag [OF this] show "((\<lambda>r. if dr_id r \<in> set act then r\<lparr>dr_deprecated := False\<rparr> else r) \<circ>
        (\<lambda>r. if dr_id r \<in> set gone then r\<lparr>dr_deprecated := True\<rparr> else r)) r = ?f r"
      unfolding o_def flags_compose .
  qed
  then have d2: "d2 = d\<lparr>descriptors := map ?f (descriptors d)\<rparr>"
    by (simp only: d2_def set_deprecated_def) simp
  have same: "map dr_id (descriptors d2) = map dr_id (descriptors d)" "map descriptor_slot (descriptors d2) = map descriptor_slot (descriptors d)"
    by (simp_all add: d2)
  have old: "distinct (map dr_id (descriptors d2))" "distinct (map descriptor_slot (descriptors d2))"
    using inv unfolding same by (simp_all add: registry_inv_def)
  have d': "d' = d2\<lparr>descriptors := descriptors d2 @ new\<rparr>" "distinct (map dr_id (descriptors d'))" "distinct (map descriptor_slot (descriptors d'))"
    using step old by (auto simp: insert_descriptors_def split: if_splits)
  then have "d' = d\<lparr>descriptors := map ?f (descriptors d) @ new\<rparr>" by (simp add: d2)
  then show ?thesis using that d'(2,3) plan_descriptors_sets(3,4) [OF plan] by blast
qed

lemma sameDescriptor_new: "sameDescriptor (new_descriptor newId t inst prof ver revn i x) x"
  by (simp add: sameDescriptor_def new_descriptor_def sameStringArray_def list_all2_refl split: option.splits)

lemma new_descriptor_simps [simp]:
  "scope_of (new_descriptor newId t inst prof ver revn i x) = (inst, prof, ver, ed_key x)"
  "dr_revision (new_descriptor newId t inst prof ver revn i x) = revn" "dr_key (new_descriptor newId t inst prof ver revn i x) = ed_key x"
  "\<not> dr_deprecated (new_descriptor newId t inst prof ver revn i x)" "in_profile inst prof ver (new_descriptor newId t inst prof ver revn i x)"
  by (simp_all add: new_descriptor_def scope_of_def in_profile_def)

lemma next_revision_above:
  assumes "r \<in> set rs" "scope_of r = (inst, prof, ver, key)"
  shows "dr_revision r < next_revision (latest_of (known_rows inst prof ver rs) key)"
proof (cases "latest_of (known_rows inst prof ver rs) key")
  case None
  with assms show ?thesis by (auto simp: latest_of_None known_rows_mem scope_of_def in_profile_def)
next
  case (Some x)
  from latest_known(4) [OF this assms(1)] assms(2) in_profile_scope [OF latest_known(2) [OF Some]] latest_known(3) [OF Some]
  show ?thesis by (simp add: Some next_revision_def)
qed

lemma register_inv:
  assumes inv: "registry_inv (descriptors d)" and keys: "distinct (map ed_key ds)"
    and ok: "registerInTransaction newId t inst prof ver ds d = Inr (u, d')"
  shows "registry_inv (descriptors d')"
  using assms
proof (rule register_Inr)
  fix new
  let ?latest = "latest_of (known_rows inst prof ver (descriptors d))"
  let ?f = "\<lambda>r. r\<lparr>dr_deprecated := \<not> active_after inst prof ver ds (descriptors d) r\<rparr>"
  assume d': "d' = d\<lparr>descriptors := map ?f (descriptors d) @ new\<rparr>"
    and dist: "distinct (map dr_id (descriptors d'))" "distinct (map descriptor_slot (descriptors d'))"
    and new: "\<And>r. r \<in> set new \<Longrightarrow> \<exists>x \<in> set ds. \<exists>i. \<not> reused ?latest x \<and>
           r = new_descriptor newId t inst prof ver (next_revision (?latest (ed_key x))) i x"
  have old: "registry_inv (map ?f (descriptors d))"
  proof (rule registry_inv_map [OF inv])
    fix r r' assume "r \<in> set (descriptors d)" "r' \<in> set (descriptors d)" "\<not> dr_deprecated (?f r)" "dr_deprecated r" "scope_of r' = scope_of r"
    then show "dr_revision r' \<le> dr_revision r" using latest_known(4) by (auto simp: active_after_def split: if_splits)
  qed simp
  have "dr_revision r' \<le> dr_revision r"
    if r: "r \<in> set (descriptors d')" and r': "r' \<in> set (descriptors d')" and a: "\<not> dr_deprecated r" and s: "scope_of r' = scope_of r" for r r'
  proof (cases "r \<in> set new")
    case True
    then obtain x i where x: "x \<in> set ds" "r = new_descriptor newId t inst prof ver (next_revision (?latest (ed_key x))) i x"
      using new by blast
    show ?thesis
    proof (cases "r' \<in> set new")
      case True
      then show ?thesis using new [OF True] x s by auto
    next
      case False
      then obtain q where "q \<in> set (descriptors d)" "r' = ?f q" using r' d' by auto
      then show ?thesis using next_revision_above [of q "descriptors d" inst prof ver "ed_key x"] x s by simp
    qed
  next
    case False
    then obtain q where q: "q \<in> set (descriptors d)" "r = ?f q" using r d' by auto
    show ?thesis
    proof (cases "r' \<in> set new")
      case True
      then obtain x i where x: "x \<in> set ds" "\<not> reused ?latest x" "r' = new_descriptor newId t inst prof ver (next_revision (?latest (ed_key x))) i x"
        using new by blast
      then have "scope_of q = (inst, prof, ver, ed_key x)" using s q by simp
      then have "in_profile inst prof ver q" "dr_key q = ed_key x" by (auto simp: scope_of_def in_profile_def)
      then have "?latest (ed_key x) = Some q" "\<exists>y \<in> set ds. ed_key y = ed_key x \<and> sameDescriptor q y"
        using a q by (auto simp: active_after_def)
      with x keys show ?thesis by (auto simp: reused_def dest: distinct_map_eq)
    next
      case False
      with r' d' have "r' \<in> set (map ?f (descriptors d))" by auto
      with old q a s show ?thesis unfolding registry_inv_def by auto
    qed
  qed
  with dist show ?thesis unfolding registry_inv_def by blast
qed


text \<open>Registration of a profile is exact. Afterwards every declared entity has exactly one active revision, it has the declared
  properties and is the latest of its key; no other key of the profile is active; the rows from before are all still there with
  nothing but their flag changed, and those of other profiles are not touched at all.\<close>

lemma register_exact:
  assumes inv: "registry_inv (descriptors d)" and keys: "distinct (map ed_key ds)"
    and ok: "registerInTransaction newId t inst prof ver ds d = Inr (u, d')"
  shows "\<forall>x \<in> set ds. \<exists>!r. r \<in> set (descriptors d') \<and> in_profile inst prof ver r \<and> dr_key r = ed_key x \<and> \<not> dr_deprecated r"
    and "\<forall>r \<in> set (descriptors d'). in_profile inst prof ver r \<and> \<not> dr_deprecated r \<longrightarrow> (\<exists>x \<in> set ds. ed_key x = dr_key r \<and> sameDescriptor r x)"
    and "\<exists>f new. descriptors d' = map f (descriptors d) @ new \<and> (\<forall>r. \<exists>b. f r = r\<lparr>dr_deprecated := b\<rparr>) \<and>
           (\<forall>r. \<not> in_profile inst prof ver r \<longrightarrow> f r = r) \<and> (\<forall>r \<in> set new. in_profile inst prof ver r)"
    and "\<exists>rs. d' = d\<lparr>descriptors := rs\<rparr>"
proof -
  let ?latest = "latest_of (known_rows inst prof ver (descriptors d))"
  let ?f = "\<lambda>r. r\<lparr>dr_deprecated := \<not> active_after inst prof ver ds (descriptors d) r\<rparr>"
  obtain new where d': "d' = d\<lparr>descriptors := map ?f (descriptors d) @ new\<rparr>"
    and new: "\<And>r. r \<in> set new \<Longrightarrow> \<exists>x \<in> set ds. \<exists>i. \<not> reused ?latest x \<and>
           r = new_descriptor newId t inst prof ver (next_revision (?latest (ed_key x))) i x"
    and all: "\<And>x. x \<in> set ds \<Longrightarrow> \<not> reused ?latest x \<Longrightarrow>
           \<exists>i. new_descriptor newId t inst prof ver (next_revision (?latest (ed_key x))) i x \<in> set new"
    by (rule register_Inr [OF inv keys ok]) blast
  note inv' = register_inv [OF inv keys ok]
  show "\<forall>x \<in> set ds. \<exists>!r. r \<in> set (descriptors d') \<and> in_profile inst prof ver r \<and> dr_key r = ed_key x \<and> \<not> dr_deprecated r"
  proof
    fix x assume x: "x \<in> set ds"
    have "\<exists>r. r \<in> set (descriptors d') \<and> in_profile inst prof ver r \<and> dr_key r = ed_key x \<and> \<not> dr_deprecated r"
    proof (cases "reused ?latest x")
      case True
      then obtain old where old: "?latest (ed_key x) = Some old" "sameDescriptor old x" by (auto simp: reused_def split: option.splits)
      note l = latest_known [OF old(1)]
      have "active_after inst prof ver ds (descriptors d) old" using x old l by (auto simp: active_after_def)
      moreover have "?f old \<in> set (descriptors d')" using l(1) by (simp add: d')
      ultimately show ?thesis using l(2,3) by (intro exI [of _ "?f old"]) (simp add: in_profile_def)
    next
      case False
      then obtain i where i: "new_descriptor newId t inst prof ver (next_revision (?latest (ed_key x))) i x \<in> set new" using all x by blast
      then show ?thesis by (intro exI [of _ "new_descriptor newId t inst prof ver (next_revision (?latest (ed_key x))) i x"]) (simp add: d')
    qed
    then show "\<exists>!r. r \<in> set (descriptors d') \<and> in_profile inst prof ver r \<and> dr_key r = ed_key x \<and> \<not> dr_deprecated r"
      by (metis registry_one_active [OF inv'] in_profile_scope)
  qed
  show "\<forall>r \<in> set (descriptors d'). in_profile inst prof ver r \<and> \<not> dr_deprecated r \<longrightarrow> (\<exists>x \<in> set ds. ed_key x = dr_key r \<and> sameDescriptor r x)"
  proof (intro ballI impI)
    fix r assume r: "r \<in> set (descriptors d')" "in_profile inst prof ver r \<and> \<not> dr_deprecated r"
    show "\<exists>x \<in> set ds. ed_key x = dr_key r \<and> sameDescriptor r x"
    proof (cases "r \<in> set new")
      case True
      then show ?thesis using new sameDescriptor_new by fastforce
    next
      case False
      then obtain q where q: "r = ?f q" using r d' by auto
      then obtain x where "x \<in> set ds" "ed_key x = dr_key q" "sameDescriptor q x" using r(2) by (auto simp: active_after_def in_profile_def)
      then show ?thesis by (intro bexI [of _ x]) (simp_all add: q sameDescriptor_def)
    qed
  qed
  have "?f r = r" if "\<not> in_profile inst prof ver r" for r using that by (cases r) (simp add: active_after_def)
  then show "\<exists>f new. descriptors d' = map f (descriptors d) @ new \<and> (\<forall>r. \<exists>b. f r = r\<lparr>dr_deprecated := b\<rparr>) \<and>
           (\<forall>r. \<not> in_profile inst prof ver r \<longrightarrow> f r = r) \<and> (\<forall>r \<in> set new. in_profile inst prof ver r)"
    using new by (intro exI [of _ ?f] exI [of _ new]) (fastforce simp: d')
  show "\<exists>rs. d' = d\<lparr>descriptors := rs\<rparr>" using d' by blast
qed


section \<open>The plugin platform as a whole\<close>

text \<open>Every operation that writes manifests, installations, bindings, descriptors or current values, in any order.\<close>

inductive entity_step :: "plugin_db \<Rightarrow> plugin_db \<Rightarrow> bool" where
  publish: "connect_manifest hash pluginId h d = Inr d' \<Longrightarrow> entity_step d d'"
| create: "createPluginInstallation newI i d = Inr (x, d') \<Longrightarrow> entity_step d d'"
| bind: "bindDeviceToPluginInstallation newId t observed b d = Inr (u, d') \<Longrightarrow> entity_step d d'"
| enable: "setPluginInstallationState t inst enabled d = Inr (u, d') \<Longrightarrow> entity_step d d'"
| migrate: "migratePluginInstallation newIds t inst version hsh config d = Inr (u, d') \<Longrightarrow> entity_step d d'"
| reconcile: "reconcilePluginInstallation newIds t inst d = Inr (u, d') \<Longrightarrow> entity_step d d'"
| batch: "entity_batch d d' \<Longrightarrow> entity_step d d'"
| elsewhere: "descriptors d' = descriptors d \<Longrightarrow> entity_states d' = entity_states d \<Longrightarrow> manifest_snapshots d' = manifest_snapshots d \<Longrightarrow>
     entity_step d d'"

definition snapshots_ok :: "manifest_snapshot list \<Rightarrow> bool" where
  "snapshots_ok ss \<longleftrightarrow> distinct (map (\<lambda>s. (sn_pluginId s, sn_pluginVersion s)) ss) \<and>
     (\<forall>s \<in> set ss. \<forall>m. sn_manifest s = Some m \<longrightarrow> (\<forall>p \<in> set (mf_profiles m). distinct (map ed_key (mp_entities p))))"

definition entity_inv :: "plugin_db \<Rightarrow> bool" where
  "entity_inv d \<longleftrightarrow> registry_inv (descriptors d) \<and> distinct (map key_of (entity_states d)) \<and> snapshots_ok (manifest_snapshots d) \<and>
     (\<forall>s \<in> set (entity_states d). row_storable s)"

text \<open>What later states keep: the revisions with everything but their flag, and the manifests.\<close>

definition registry_kept :: "plugin_db \<Rightarrow> plugin_db \<Rightarrow> bool" where
  "registry_kept d d' \<longleftrightarrow> (\<forall>r \<in> set (descriptors d). \<exists>b. r\<lparr>dr_deprecated := b\<rparr> \<in> set (descriptors d')) \<and>
     set (manifest_snapshots d) \<subseteq> set (manifest_snapshots d')"

lemma registry_kept_refl: "registry_kept d d"
proof -
  have "r = r\<lparr>dr_deprecated := dr_deprecated r\<rparr>" for r :: entity_descriptor by simp
  then show ?thesis unfolding registry_kept_def by (metis order_refl)
qed

lemma registry_kept_trans: "registry_kept a b \<Longrightarrow> registry_kept b c \<Longrightarrow> registry_kept a c"
proof -
  assume a: "registry_kept a b" and b: "registry_kept b c"
  have "\<exists>f. r\<lparr>dr_deprecated := f\<rparr> \<in> set (descriptors c)" if "r \<in> set (descriptors a)" for r
  proof -
    from a that obtain f where "r\<lparr>dr_deprecated := f\<rparr> \<in> set (descriptors b)" by (auto simp: registry_kept_def)
    with b obtain g where "(r\<lparr>dr_deprecated := f\<rparr>)\<lparr>dr_deprecated := g\<rparr> \<in> set (descriptors c)" unfolding registry_kept_def by blast
    then show ?thesis by auto
  qed
  with a b show ?thesis by (auto simp: registry_kept_def)
qed

lemma registry_kept_map:
  assumes "\<And>r. \<exists>b. f r = r\<lparr>dr_deprecated := b\<rparr>" "descriptors d' = map f (descriptors d) @ new" "manifest_snapshots d' = manifest_snapshots d"
  shows "registry_kept d d'"
  unfolding registry_kept_def
proof (intro conjI ballI)
  fix r assume "r \<in> set (descriptors d)"
  then have "f r \<in> set (descriptors d')" by (simp add: assms(2))
  with assms(1) [of r] show "\<exists>b. r\<lparr>dr_deprecated := b\<rparr> \<in> set (descriptors d')" by auto
qed (simp add: assms(3))

lemma registry_kept_same: "descriptors d' = descriptors d \<Longrightarrow> manifest_snapshots d' = manifest_snapshots d \<Longrightarrow> registry_kept d d'"
  using registry_kept_refl [of d] by (simp add: registry_kept_def)

text \<open>The pieces the operations are made of.\<close>

lemma deprecate_good:
  assumes "entity_inv d"
  shows "entity_inv (set_deprecated True p d) \<and> registry_kept d (set_deprecated True p d)"
proof
  show "entity_inv (set_deprecated True p d)"
    using assms registry_inv_deprecate [of d p] by (simp add: entity_inv_def) (simp add: set_deprecated_def)
  have "\<exists>b. (if p r then r\<lparr>dr_deprecated := True\<rparr> else r) = r\<lparr>dr_deprecated := b\<rparr>" for r
    by (cases r) auto
  then show "registry_kept d (set_deprecated True p d)" by (rule registry_kept_map [where new = "[]"]) (simp_all add: set_deprecated_def)
qed

lemma register_good:
  assumes "entity_inv d" "distinct (map ed_key ds)" "registerInTransaction newId t inst prof ver ds d = Inr (u, d')"
  shows "entity_inv d' \<and> registry_kept d d'"
proof
  have inv: "registry_inv (descriptors d)" using assms(1) by (simp add: entity_inv_def)
  note exact = register_exact [OF inv assms(2,3)]
  from exact(4) have same: "entity_states d' = entity_states d" "manifest_snapshots d' = manifest_snapshots d" by auto
  with assms(1) register_inv [OF inv assms(2,3)] show "entity_inv d'" by (simp add: entity_inv_def)
  from exact(3) obtain f new where "descriptors d' = map f (descriptors d) @ new" "\<And>r. \<exists>b. f r = r\<lparr>dr_deprecated := b\<rparr>" by blast
  then show "registry_kept d d'" using same(2) by (intro registry_kept_map [of f])
qed

lemma filter_states_good:
  assumes "entity_inv d" "descriptors d' = descriptors d" "manifest_snapshots d' = manifest_snapshots d" "entity_states d' = filter q (entity_states d)"
  shows "entity_inv d' \<and> registry_kept d d'"
  using assms registry_kept_same [of d' d] by (auto simp: entity_inv_def distinct_map inj_on_def)


lemma validateManifest_Inr:
  assumes "validateManifest m = Inr m'"
  shows "m' = m" "manifestSchema m" "\<forall>p \<in> set (pm_profiles m). distinct (map ed_key (dp_entities p))"
    and "distinct (map (\<lambda>p. at_version (dp_id p) (dp_version p)) (pm_profiles m))" "distinct (map ad_id (pm_actions m))"
    and "distinct (map (\<lambda>e. at_version (vd_kind e) (vd_schemaVersion e)) (pm_events m))"
  using assms by (auto simp: validateManifest_def rbind_eq_Inr each_Inr unique_Inr validate_profile_def)

lemma publish_good:
  assumes "entity_inv d" "connect_manifest hash pluginId h d = Inr d'"
  shows "entity_inv d' \<and> registry_kept d d'"
proof -
  obtain m where m: "validateManifest (hs_manifest h) = Inr m" and st: "store_manifest (hash m) m d = Inr d'"
    using assms(2) by (auto simp: connect_manifest_def rbind_eq_Inr split: sum.splits)
  have ok: "\<forall>p \<in> set (mf_profiles (manifest_like m)). distinct (map ed_key (mp_entities p))"
    using validateManifest_Inr(1,3) [OF m] by (auto simp: manifest_like_def)
  show ?thesis
  proof (cases "d' = d")
    case True
    with assms(1) registry_kept_refl show ?thesis by simp
  next
    case False
    then have none: "find (\<lambda>s. sn_pluginId s = pm_id m \<and> sn_pluginVersion s = pm_version m) (manifest_snapshots d) = None"
      and d': "d' = d\<lparr>manifest_snapshots := manifest_snapshots d @
            [\<lparr>sn_pluginId = pm_id m, sn_pluginVersion = pm_version m, sn_manifestHash = hash m, sn_manifest = Some (manifest_like m)\<rparr>]\<rparr>"
      using st by (auto simp: store_manifest_def split: option.splits if_splits)
    from none have "(pm_id m, pm_version m) \<notin> (\<lambda>s. (sn_pluginId s, sn_pluginVersion s)) ` set (manifest_snapshots d)"
      by (auto simp: find_None_iff)
    then have "snapshots_ok (manifest_snapshots d')" using assms(1) ok by (auto simp: d' entity_inv_def snapshots_ok_def)
    moreover have "registry_kept d d'" using registry_kept_refl [of d] by (auto simp: d' registry_kept_def)
    ultimately show ?thesis using assms(1) by (simp add: d' entity_inv_def)
  qed
qed

lemma snapshot_profile:
  assumes "entity_inv d" "getSnapshot pid ver hsh d = Inr s" "parseManifest s = Inr m" "p \<in> set (mf_profiles m)"
  shows "distinct (map ed_key (mp_entities p))"
proof -
  have "s \<in> set (manifest_snapshots d)"
    using assms(2) by (auto simp: getSnapshot_def find_Some_iff split: option.splits if_splits)
  with assms show ?thesis by (auto simp: entity_inv_def snapshots_ok_def parseManifest_def split: option.splits)
qed

lemma find_profile_Some: "find_profile prof ver m = Some p \<Longrightarrow> p \<in> set (mf_profiles m) \<and> mp_id p = prof \<and> mp_version p = ver"
  by (auto simp: find_profile_def find_Some_iff)

lemma fail_executions_frame:
  assumes "fail_executions t p d = Inr (u, d')"
  shows "\<exists>es. d' = d\<lparr>core_db := (core_db d)\<lparr>debug_executions := es\<rparr>\<rparr>"
  using assms by (auto simp: fail_executions_def update_executions_def Let_def split: if_splits sum.splits)

lemma binding_step_frame:
  assumes "(if binding_changed i locked then rbind (failDebugExecutionsForBindingChange t dev insts d) (\<lambda>(_, d1).
              Inr ((), drop_states dev insts d1)) else Inr ((), d)) = Inr ((), d1)"
  shows "\<exists>es q. d1 = d\<lparr>core_db := (core_db d)\<lparr>debug_executions := es\<rparr>, entity_states := filter q (entity_states d)\<rparr>"
proof (cases "binding_changed i locked")
  case False
  with assms have "d1 = d\<lparr>core_db := (core_db d)\<lparr>debug_executions := debug_executions (core_db d)\<rparr>, entity_states := filter (\<lambda>_. True) (entity_states d)\<rparr>"
    by simp
  then show ?thesis by blast
next
  case True
  with assms obtain d0 where d0: "failDebugExecutionsForBindingChange t dev insts d = Inr ((), d0)" "d1 = drop_states dev insts d0"
    by (auto simp: rbind_eq_Inr)
  have "\<exists>es. d0 = d\<lparr>core_db := (core_db d)\<lparr>debug_executions := es\<rparr>\<rparr>"
  proof (cases "insts = []")
    case True
    with d0(1) have "d0 = d\<lparr>core_db := (core_db d)\<lparr>debug_executions := debug_executions (core_db d)\<rparr>\<rparr>"
      by (simp add: failDebugExecutionsForBindingChange_def)
    then show ?thesis by blast
  next
    case False
    with d0(1) show ?thesis by (simp add: failDebugExecutionsForBindingChange_def fail_executions_frame)
  qed
  then obtain es where "d0 = d\<lparr>core_db := (core_db d)\<lparr>debug_executions := es\<rparr>\<rparr>" by blast
  with d0(2) have "d1 = d\<lparr>core_db := (core_db d)\<lparr>debug_executions := es\<rparr>,
      entity_states := filter (\<lambda>s. \<not> (es_device s = dev \<and> es_installation s \<in> set insts)) (entity_states d)\<rparr>"
    by (simp add: drop_states_def)
  then show ?thesis by blast
qed

lemma set_deprecated_twice:
  assumes "\<And>r b. p2 (r\<lparr>dr_deprecated := b\<rparr>) = p2 r"
  shows "set_deprecated True p2 (set_deprecated True p1 d) = set_deprecated True (\<lambda>r. p1 r \<or> p2 r) d"
  using assms by (auto simp: set_deprecated_def)

lemma deprecate_unbound_form:
  fixes b :: plugin_device_binding and d :: plugin_db
  defines "d1 \<equiv> deprecateUnboundInstallationProfiles (binstallation_id b) (upsert_binding b d)"
  shows "\<exists>pr. (case locked of
             Some x \<Rightarrow> if binstallation_id x \<noteq> binstallation_id b
                       then deprecateUnboundInstallationProfiles (binstallation_id x) d1 else d1
           | None \<Rightarrow> d1) = set_deprecated True pr (upsert_binding b d) \<and>
       (\<forall>r. in_profile (binstallation_id b) (bprofile_id b) (bprofile_version b) r \<longrightarrow> \<not> pr r)"
proof -
  let ?d = "upsert_binding b d"
  let ?p = "\<lambda>i r. dr_installation r = i \<and> \<not> bound_profile ?d (dr_installation r) (dr_profile r) (dr_profileVersion r)"
  have bound: "bound_profile ?d (binstallation_id b) (bprofile_id b) (bprofile_version b)"
    by (auto simp: bound_profile_def list_ex_iff upsert_binding_def Let_def)
  have one: "d1 = set_deprecated True (?p (binstallation_id b)) ?d" by (simp add: d1_def deprecateUnboundInstallationProfiles_def)
  have two: "deprecateUnboundInstallationProfiles i d1 = set_deprecated True (\<lambda>r. ?p (binstallation_id b) r \<or> ?p i r) ?d" for i
  proof -
    have "bound_profile d1 = bound_profile ?d" by (auto simp: one set_deprecated_def bound_profile_def fun_eq_iff)
    then have "deprecateUnboundInstallationProfiles i d1 = set_deprecated True (?p i) d1" by (simp add: deprecateUnboundInstallationProfiles_def)
    then show ?thesis unfolding one by (subst (asm) set_deprecated_twice) simp_all
  qed
  show ?thesis
  proof (cases "\<exists>x. locked = Some x \<and> binstallation_id x \<noteq> binstallation_id b")
    case True
    then obtain x where x: "locked = Some x" "binstallation_id x \<noteq> binstallation_id b" by blast
    with two bound show ?thesis
      by (intro exI [of _ "\<lambda>r. ?p (binstallation_id b) r \<or> ?p (binstallation_id x) r"]) (auto simp: in_profile_def)
  next
    case False
    with one bound show ?thesis by (intro exI [of _ "?p (binstallation_id b)"]) (auto simp: in_profile_def split: option.splits)
  qed
qed

text \<open>A successful binding, step by step.\<close>

lemma bind_Inr:
  assumes "bindDeviceToPluginInstallation newId t observed i d = Inr (u, d')"
  obtains inst s m p es q d1 d2 pr where "installation_of (bi_installationId i) d = Some inst" "ienabled inst"
    and "bi_deviceId i \<in> did ` set (devices (core_db d))"
    and "getSnapshot (iplugin_id inst) (iplugin_version inst) (imanifest_hash inst) d = Inr s" "parseManifest s = Inr m"
    and "find_profile (bi_profileId i) (bi_profileVersion i) m = Some p"
    and "d1 = d\<lparr>core_db := (core_db d)\<lparr>debug_executions := es\<rparr>, entity_states := filter q (entity_states d)\<rparr>"
    and "registerInTransaction newId t (bi_installationId i) (bi_profileId i) (bi_profileVersion i) (mp_entities p) d1 = Inr ((), d2)"
    and "d' = set_deprecated True pr (upsert_binding \<lparr>bdevice_id = bi_deviceId i, binstallation_id = bi_installationId i,
                bprofile_id = bi_profileId i, bprofile_version = bi_profileVersion i\<rparr> d2)"
    and "\<And>r. in_profile (bi_installationId i) (bi_profileId i) (bi_profileVersion i) r \<Longrightarrow> \<not> pr r"
proof -
  let ?b = "\<lparr>bdevice_id = bi_deviceId i, binstallation_id = bi_installationId i, bprofile_id = bi_profileId i, bprofile_version = bi_profileVersion i\<rparr>"
  let ?locked = "find_binding (bi_deviceId i) d"
  let ?insts = "bi_installationId i # (case ?locked of None \<Rightarrow> [] | Some b \<Rightarrow> [binstallation_id b])"
  let ?up = "\<lambda>d2. deprecateUnboundInstallationProfiles (bi_installationId i) (upsert_binding ?b d2)"
  obtain inst where inst: "installation_of (bi_installationId i) d = Some inst"
    using assms by (auto simp: bindDeviceToPluginInstallation_def Let_def split: option.splits)
  obtain dev where dev: "find_device (bi_deviceId i) (core_db d) = Some dev"
    using assms inst by (auto simp: bindDeviceToPluginInstallation_def Let_def split: option.splits)
  let ?step = "if binding_changed i ?locked then rbind (failDebugExecutionsForBindingChange t (bi_deviceId i) ?insts d) (\<lambda>(_, d1).
                                Inr ((), drop_states (bi_deviceId i) ?insts d1)) else Inr ((), d)"
  let ?final = "\<lambda>d2. case ?locked of
                       Some b \<Rightarrow> if binstallation_id b \<noteq> bi_installationId i
                                 then deprecateUnboundInstallationProfiles (binstallation_id b) (?up d2) else ?up d2
                     | None \<Rightarrow> ?up d2"
  from assms have en: "ienabled inst" and
    "rbind (getSnapshot (iplugin_id inst) (iplugin_version inst) (imanifest_hash inst) d) (\<lambda>snapshot.
       rbind (parseManifest snapshot) (\<lambda>manifest.
         case find_profile (bi_profileId i) (bi_profileVersion i) manifest of
           None \<Rightarrow> Inl PUndeclaredProfile
         | Some profile \<Rightarrow> rbind ?step (\<lambda>(_, d1).
             rbind (registerInTransaction newId t (bi_installationId i) (mp_id profile) (mp_version profile) (mp_entities profile) d1)
               (\<lambda>(_, d2). Inr ((), ?final d2))))) = Inr (u, d')"
    unfolding bindDeviceToPluginInstallation_def Let_def inst dev option.case by (simp_all only: rbind_ensure_Inr)
  then obtain s m where s: "getSnapshot (iplugin_id inst) (iplugin_version inst) (imanifest_hash inst) d = Inr s" "parseManifest s = Inr m"
    and "(case find_profile (bi_profileId i) (bi_profileVersion i) m of
           None \<Rightarrow> Inl PUndeclaredProfile
         | Some profile \<Rightarrow> rbind ?step (\<lambda>(_, d1).
             rbind (registerInTransaction newId t (bi_installationId i) (mp_id profile) (mp_version profile) (mp_entities profile) d1)
               (\<lambda>(_, d2). Inr ((), ?final d2)))) = Inr (u, d')" by (elim rbind_InrE) blast
  then obtain p where p: "find_profile (bi_profileId i) (bi_profileVersion i) m = Some p"
    and run: "rbind ?step (\<lambda>(_, d1).
             rbind (registerInTransaction newId t (bi_installationId i) (mp_id p) (mp_version p) (mp_entities p) d1)
               (\<lambda>(_, d2). Inr ((), ?final d2))) = Inr (u, d')"
    by (cases "find_profile (bi_profileId i) (bi_profileVersion i) m") (simp_all only: option.case sum.simps option.inject)
  from run obtain d1 d2 where d1: "?step = Inr ((), d1)"
    and d2: "registerInTransaction newId t (bi_installationId i) (mp_id p) (mp_version p) (mp_entities p) d1 = Inr ((), d2)"
    and d': "d' = ?final d2"
    by (elim rbind_InrE) (auto simp only: prod.case unit_eq elim!: rbind_InrE)
  have "mp_id p = bi_profileId i" "mp_version p = bi_profileVersion i" using find_profile_Some [OF p] by auto
  with d2 have d2: "registerInTransaction newId t (bi_installationId i) (bi_profileId i) (bi_profileVersion i) (mp_entities p) d1 = Inr ((), d2)" by simp
  have "\<exists>es q. d1 = d\<lparr>core_db := (core_db d)\<lparr>debug_executions := es\<rparr>, entity_states := filter q (entity_states d)\<rparr>"
    by (rule binding_step_frame [OF d1])
  then obtain es q where d1: "d1 = d\<lparr>core_db := (core_db d)\<lparr>debug_executions := es\<rparr>, entity_states := filter q (entity_states d)\<rparr>" by blast
  obtain pr where pr: "?final d2 = set_deprecated True pr (upsert_binding ?b d2)"
    "\<And>r. in_profile (bi_installationId i) (bi_profileId i) (bi_profileVersion i) r \<Longrightarrow> \<not> pr r"
    using deprecate_unbound_form [of ?b d2 ?locked, unfolded plugin_device_binding.select_convs] by blast
  have "bi_deviceId i \<in> did ` set (devices (core_db d))" using dev by (auto simp: find_device_def find_Some_iff intro!: image_eqI [OF sym])
  then show ?thesis using that [OF inst en _ s p d1 d2 _ pr(2)] d' pr(1) by simp
qed


lemma upsert_binding_frame [simp]:
  "descriptors (upsert_binding b d) = descriptors d" "entity_states (upsert_binding b d) = entity_states d"
  "manifest_snapshots (upsert_binding b d) = manifest_snapshots d"
  by (simp_all add: upsert_binding_def Let_def)

lemma entity_inv_same:
  "entity_inv d \<Longrightarrow> descriptors d' = descriptors d \<Longrightarrow> entity_states d' = entity_states d \<Longrightarrow> manifest_snapshots d' = manifest_snapshots d \<Longrightarrow>
     entity_inv d' \<and> registry_kept d d'"
  by (simp add: entity_inv_def registry_kept_same)

lemma good_trans: "entity_inv b \<and> registry_kept a b \<Longrightarrow> (entity_inv b \<Longrightarrow> entity_inv c \<and> registry_kept b c) \<Longrightarrow> entity_inv c \<and> registry_kept a c"
  using registry_kept_trans by blast

lemma bind_good:
  assumes inv: "entity_inv d" and ok: "bindDeviceToPluginInstallation newId t observed i d = Inr (u, d')"
  shows "entity_inv d' \<and> registry_kept d d'"
  using ok
proof (rule bind_Inr)
  fix inst s m p es q d1 d2 pr
  assume s: "getSnapshot (iplugin_id inst) (iplugin_version inst) (imanifest_hash inst) d = Inr s" "parseManifest s = Inr m"
      "find_profile (bi_profileId i) (bi_profileVersion i) m = Some p"
    and d1: "d1 = d\<lparr>core_db := (core_db d)\<lparr>debug_executions := es\<rparr>, entity_states := filter q (entity_states d)\<rparr>"
    and d2: "registerInTransaction newId t (bi_installationId i) (bi_profileId i) (bi_profileVersion i) (mp_entities p) d1 = Inr ((), d2)"
    and d': "d' = set_deprecated True pr (upsert_binding \<lparr>bdevice_id = bi_deviceId i, binstallation_id = bi_installationId i,
                bprofile_id = bi_profileId i, bprofile_version = bi_profileVersion i\<rparr> d2)"
  have keys: "distinct (map ed_key (mp_entities p))" using snapshot_profile [OF inv s(1,2)] find_profile_Some [OF s(3)] by blast
  have 1: "entity_inv d1 \<and> registry_kept d d1" using filter_states_good [OF inv, of d1 q] by (simp add: d1)
  have 2: "entity_inv d2 \<and> registry_kept d d2" by (rule good_trans [OF 1]) (rule register_good [OF _ keys d2])
  have 3: "entity_inv (upsert_binding b d2) \<and> registry_kept d (upsert_binding b d2)" for b
    by (rule good_trans [OF 2]) (rule entity_inv_same, simp_all)
  show ?thesis unfolding d' by (rule good_trans [OF 3]) (rule deprecate_good)
qed

lemma register_profiles_good:
  assumes "\<forall>p \<in> set (mf_profiles m). distinct (map ed_key (mp_entities p))" "entity_inv d" "register_profiles newIds t inst m n ps d = Inr (u, d')"
  shows "entity_inv d' \<and> registry_kept d d'"
  using assms(2,3)
proof (induction ps arbitrary: n d)
  case Nil
  then show ?case by (simp add: registry_kept_refl)
next
  case (Cons pv ps)
  obtain prof ver where pv: "pv = (prof, ver)" by (cases pv)
  from Cons.prems(2) obtain p d1 where p: "find_profile prof ver m = Some p"
    and d1: "registerInTransaction (newIds n) t inst (mp_id p) (mp_version p) (mp_entities p) d = Inr ((), d1)"
    and rest: "register_profiles newIds t inst m (Suc n) ps d1 = Inr (u, d')"
    unfolding pv by (auto simp: rbind_eq_Inr split: option.splits)
  have keys: "distinct (map ed_key (mp_entities p))" using assms(1) find_profile_Some [OF p] by blast
  show ?case by (rule good_trans [OF register_good [OF Cons.prems(1) keys d1]]) (rule Cons.IH [OF _ rest])
qed

lemma settle_good:
  assumes "\<forall>p \<in> set (mf_profiles m). distinct (map ed_key (mp_entities p))" "entity_inv d" "settle_profiles newIds t inst m d = Inr (u, d')"
  shows "entity_inv d' \<and> registry_kept d d'"
proof -
  obtain d1 where d1: "register_profiles newIds t inst m 0 (bound_profiles inst d) d = Inr ((), d1)"
    and d': "d' = deleteIncompatibleEntityStates inst (deprecateUnboundInstallationProfiles inst d1)"
    using assms(3) by (auto simp: settle_profiles_def rbind_eq_Inr)
  have 2: "entity_inv (deprecateUnboundInstallationProfiles inst d1) \<and> registry_kept d (deprecateUnboundInstallationProfiles inst d1)"
    unfolding deprecateUnboundInstallationProfiles_def by (rule good_trans [OF register_profiles_good [OF assms(1,2) d1]]) (rule deprecate_good)
  show ?thesis unfolding d' by (rule good_trans [OF 2]) (rule filter_states_good, simp_all add: deleteIncompatibleEntityStates_def)
qed

lemma snapshot_profiles:
  "entity_inv d \<Longrightarrow> getSnapshot pid ver hsh d = Inr s \<Longrightarrow> parseManifest s = Inr m \<Longrightarrow>
     \<forall>p \<in> set (mf_profiles m). distinct (map ed_key (mp_entities p))"
  using snapshot_profile by blast

lemma migrate_good:
  assumes inv: "entity_inv d" and ok: "migratePluginInstallation newIds t inst version hsh config d = Inr (u, d')"
  shows "entity_inv d' \<and> registry_kept d d'"
proof -
  obtain i where i: "installation_of inst d = Some i"
    using ok by (auto simp: migratePluginInstallation_def split: option.splits)
  from ok obtain s m d1 xs where s: "getSnapshot (iplugin_id i) version hsh d = Inr s" "parseManifest s = Inr m"
    and d1: "failDebugExecutionsForInstallation t inst d = Inr ((), d1)"
    and d': "settle_profiles newIds t inst m (set_deprecated True (\<lambda>r. dr_installation r = inst) (put_installations xs d1)) = Inr (u, d')"
    unfolding migratePluginInstallation_def i option.case Let_def by (elim rbind_InrE) auto
  obtain es where "d1 = d\<lparr>core_db := (core_db d)\<lparr>debug_executions := es\<rparr>\<rparr>"
    using fail_executions_frame [OF d1 [unfolded failDebugExecutionsForInstallation_def]] by blast
  then have 1: "entity_inv (put_installations xs d1) \<and> registry_kept d (put_installations xs d1)"
    by (intro entity_inv_same [OF inv]) (simp_all add: put_installations_def)
  have 2: "entity_inv (set_deprecated True (\<lambda>r. dr_installation r = inst) (put_installations xs d1)) \<and>
      registry_kept d (set_deprecated True (\<lambda>r. dr_installation r = inst) (put_installations xs d1))"
    by (rule good_trans [OF 1]) (rule deprecate_good)
  show ?thesis by (rule good_trans [OF 2]) (rule settle_good [OF snapshot_profiles [OF inv s] _ d'])
qed

lemma reconcile_good:
  assumes inv: "entity_inv d" and ok: "reconcilePluginInstallation newIds t inst d = Inr (u, d')"
  shows "entity_inv d' \<and> registry_kept d d'"
proof -
  obtain i where i: "installation_of inst d = Some i"
    using ok by (auto simp: reconcilePluginInstallation_def split: option.splits)
  from ok obtain s m where s: "getSnapshot (iplugin_id i) (iplugin_version i) (imanifest_hash i) d = Inr s" "parseManifest s = Inr m"
    and d': "settle_profiles newIds t inst m d = Inr (u, d')"
    unfolding reconcilePluginInstallation_def i option.case by (elim rbind_InrE) auto
  show ?thesis by (rule settle_good [OF snapshot_profiles [OF inv s] inv d'])
qed

lemma upserts_distinct: "distinct (map key_of ss) \<Longrightarrow> distinct (map key_of (foldl (\<lambda>ss row. upsert_state row ss) ss rows))"
proof (induction rows arbitrary: ss)
  case (Cons row rows)
  have "map key_of (map (\<lambda>old. if same_entity row old \<and> newer row old then merge_state row old else old) ss) = map key_of ss"
    by (simp add: same_entity_key)
  then have "distinct (map key_of (upsert_state row ss))"
    using Cons.prems by (auto simp: upsert_state_def list_ex_iff same_entity_key simp del: map_map)
  then show ?case using Cons.IH by simp
qed simp

lemma merge_storable: "row_storable row \<Longrightarrow> row_storable old \<Longrightarrow> row_storable (merge_state row old)"
  by (auto simp: row_storable_def merge_state_def coalesce_def split: option.splits)

lemma upserts_storable:
  "\<forall>s \<in> set ss. row_storable s \<Longrightarrow> \<forall>r \<in> set rows. row_storable r \<Longrightarrow>
     s \<in> set (foldl (\<lambda>ss row. upsert_state row ss) ss rows) \<Longrightarrow> row_storable s"
proof (induction rows arbitrary: ss)
  case (Cons row rows)
  have "\<forall>s \<in> set (upsert_state row ss). row_storable s"
    using Cons.prems(1,2) by (auto simp: upsert_state_def merge_storable)
  with Cons show ?case by simp
qed simp

lemma apply_storable:
  assumes "applyEntityUpdates parse t serial opts d = Inr (x, d')" and "ao_writeCurrentState opts"
    and "r \<in> set (map fst (batch_rows parse t opts d))"
  shows "row_storable r"
proof -
  obtain rows where rows: "plan_updates (batch_plan parse t opts d) (sort_key eu_key (ao_updates opts)) = Inr rows"
      "list_all row_storable (map fst rows)"
    using assms(1,2) by (auto simp: applyEntityUpdates_def batch_plan_def rbind_eq_Inr ensure_def Let_def upsertStateRows_def split: if_splits)
  moreover have "rows = batch_rows parse t opts d" using plan_updates_Inr [OF rows(1)] by (simp add: batch_rows_def planned_def [abs_def])
  ultimately show ?thesis using assms(3) by (auto simp: list_all_iff)
qed

lemma batch_good:
  assumes "entity_inv d" "entity_batch d d'"
  shows "entity_inv d' \<and> registry_kept d d'"
  using assms(2)
proof cases
  case (1 parse t serial opts x)
  from apply_Inr(3) [OF 1] obtain rows h where rows: "rows = map fst (batch_rows parse t opts d)"
      and d': "d' = d\<lparr>entity_states := (if ao_writeCurrentState opts
      then foldl (\<lambda>ss row. upsert_state row ss) (entity_states d) rows else entity_states d), entity_history := h\<rparr>" by blast
  have "distinct (map key_of (entity_states d'))" using assms(1) upserts_distinct by (simp add: d' entity_inv_def)
  moreover have "\<forall>s \<in> set (entity_states d'). row_storable s"
  proof (cases "ao_writeCurrentState opts")
    case True
    have "\<forall>r \<in> set rows. row_storable r" using apply_storable [OF 1 True] unfolding rows by blast
    moreover have "\<forall>s \<in> set (entity_states d). row_storable s" using assms(1) by (simp add: entity_inv_def)
    moreover have "entity_states d' = foldl (\<lambda>ss row. upsert_state row ss) (entity_states d) rows" using True by (simp add: d')
    ultimately show ?thesis using upserts_storable by metis
  next
    case False
    then show ?thesis using assms(1) by (simp add: d' entity_inv_def)
  qed
  ultimately show ?thesis using assms(1) by (simp add: d' entity_inv_def registry_kept_same)
qed

lemma entity_step_good: "entity_step d d' \<Longrightarrow> entity_inv d \<Longrightarrow> entity_inv d' \<and> registry_kept d d'"
proof (induction rule: entity_step.induct)
  case (create newI i d x d')
  then show ?case by (intro entity_inv_same) (auto simp: createPluginInstallation_def rbind_eq_Inr Let_def put_installations_def split: if_splits)
next
  case (enable t inst enabled d u d')
  then obtain d1 xs where d1: "(if \<not> enabled then failDebugExecutionsForInstallation t inst d else Inr ((), d)) = Inr ((), d1)"
    and d': "d' = put_installations xs d1"
    by (auto simp: setPluginInstallationState_def rbind_eq_Inr Let_def split: if_splits)
  have "descriptors d1 = descriptors d \<and> entity_states d1 = entity_states d \<and> manifest_snapshots d1 = manifest_snapshots d"
    using d1 fail_executions_frame by (fastforce simp: failDebugExecutionsForInstallation_def split: if_splits)
  with enable(2) show ?case by (intro entity_inv_same) (simp_all add: d' put_installations_def)
qed (auto dest: publish_good bind_good migrate_good reconcile_good batch_good entity_inv_same)

interpretation entities: progressing_system "\<lambda>d. descriptors d = [] \<and> entity_states d = [] \<and> manifest_snapshots d = []" entity_step entity_inv registry_kept
proof unfold_locales
  show "entity_inv d" if "descriptors d = [] \<and> entity_states d = [] \<and> manifest_snapshots d = []" for d
    using that by (simp add: entity_inv_def registry_inv_def snapshots_ok_def)
  show "entity_inv d'" if "entity_inv d" "entity_step d d'" for d d' using entity_step_good that by blast
  show "registry_kept d d" for d by (rule registry_kept_refl)
  show "registry_kept a c" if "registry_kept a b" "registry_kept b c" for a b c using that by (rule registry_kept_trans)
  show "registry_kept d d'" if "entity_inv d" "entity_step d d'" for d d' using entity_step_good that by blast
qed

end
