(* ===== verification/PlatformProperties.thy ===== *)
theory PlatformProperties
  imports EntityProperties EventProperties "HOL-Library.Code_Target_Nat"
begin

text \<open>
  Properties of the plugin platform that span its parts: the registry over the whole life of an installation, binding a device, the check
  of a batch by the plugin manager followed by its application, reading values back, and the declarations of manifests against the
  envelopes of devices.
\<close>

section \<open>Descriptors\<close>

text \<open>C36. In every reachable state the descriptor registry is sound: of the revisions of an entity at most one is active, it is the latest,
  and in all later states, whatever is bound, migrated or reconciled, the revision is still there with nothing but its
  deprecation flag changed.\<close>

theorem registry_sound:
  assumes "descriptors d0 = [] \<and> entity_states d0 = [] \<and> manifest_snapshots d0 = []" "entity_step\<^sup>*\<^sup>* d0 d" "r \<in> set (descriptors d)"
    and "\<not> dr_deprecated r" "entity_step\<^sup>*\<^sup>* d d'"
  shows "(\<forall>r' \<in> set (descriptors d). scope_of r' = scope_of r \<and> r' \<noteq> r \<longrightarrow> dr_deprecated r' \<and> dr_revision r' < dr_revision r) \<and>
     (\<exists>b. r\<lparr>dr_deprecated := b\<rparr> \<in> set (descriptors d'))"
proof
  have inv: "entity_inv d" by (rule entities.reachable_inv [OF assms(1,2)])
  then have reg: "registry_inv (descriptors d)" by (simp add: entity_inv_def)
  show "\<forall>r' \<in> set (descriptors d). scope_of r' = scope_of r \<and> r' \<noteq> r \<longrightarrow> dr_deprecated r' \<and> dr_revision r' < dr_revision r"
  proof (intro ballI impI)
    fix r' assume r': "r' \<in> set (descriptors d)" "scope_of r' = scope_of r \<and> r' \<noteq> r"
    have dep: "dr_deprecated r'" using registry_one_active [OF reg assms(3) r'(1) assms(4)] r'(2) by auto
    have "dr_revision r' \<le> dr_revision r" using reg assms(3,4) r' by (auto simp: registry_inv_def)
    moreover have "dr_revision r' \<noteq> dr_revision r"
    proof
      assume "dr_revision r' = dr_revision r"
      then have "descriptor_slot r' = descriptor_slot r" using r'(2) by (simp add: descriptor_slot_scope)
      moreover have "distinct (map descriptor_slot (descriptors d))" using reg by (simp add: registry_inv_def)
      ultimately show False using distinct_map_eq [of descriptor_slot "descriptors d" r' r] r' assms(3) by simp
    qed
    ultimately show "dr_deprecated r' \<and> dr_revision r' < dr_revision r" using dep by simp
  qed
  have "entity_inv d" by (rule entities.reachable_inv [OF assms(1,2)])
  from entities.steps_before [OF assms(5) this] assms(3) show "\<exists>b. r\<lparr>dr_deprecated := b\<rparr> \<in> set (descriptors d')"
    by (auto simp: registry_kept_def)
qed

section \<open>Binding, checking and applying\<close>

lemma sameDescriptor_values: "sameDescriptor r x \<Longrightarrow> dr_valueType r = ed_valueType x \<and> dr_enumValues r = ed_enumValues x"
  by (auto simp: sameDescriptor_def sameStringArray_def list_all2_eq [symmetric] split: option.splits prod.splits)

lemma find_Some_mem: "find p xs = Some x \<Longrightarrow> x \<in> set xs \<and> p x"
  by (induction xs) (auto split: if_splits)

lemma last_entry_Some: "last_entry p xs = Some x \<Longrightarrow> x \<in> set xs \<and> p x"
  unfolding last_entry_def by (drule find_Some_mem) simp

lemma last_entry_None: "last_entry p xs = None \<longleftrightarrow> \<not> (\<exists>x \<in> set xs. p x)"
  by (auto simp: last_entry_def find_None_iff)

lemma sdk_valueMatches_agrees:
  "sameDescriptor r x \<Longrightarrow> sdk_valueMatches x (Some v) \<longleftrightarrow> valueMatches (dr_valueType r) (dr_enumValues r) v"
  by (drule sameDescriptor_values) (simp add: sdk_valueMatches_def valueMatches_def)

lemma valid_sequence_normalizes: "valid_sequence s \<Longrightarrow> \<exists>n. normalizeSequence (Some s) = Inr (Some n)"
  by (auto simp: valid_sequence_def normalizeSequence_def split: seq_input.splits jsnum.splits)

lemma resolve_Some:
  assumes "resolveEntityDescriptors opts keys d key = Some r"
  shows "r \<in> set (descriptors d)" "in_profile (ao_installation opts) (ao_profile opts) (ao_profileVersion opts) r" "dr_key r = key"
    and "ao_snapshotDescriptors opts = None \<Longrightarrow> \<not> dr_deprecated r"
proof -
  let ?rows = "rev (sort_key dr_revision (filter (\<lambda>r. in_profile (ao_installation opts) (ao_profile opts) (ao_profileVersion opts) r \<and> dr_key r \<in> set keys \<and>
               (ao_snapshotDescriptors opts = None \<longrightarrow> \<not> dr_deprecated r)) (descriptors d)))"
  have "r \<in> set ?rows \<and> dr_key r = key"
  proof (cases "ao_snapshotDescriptors opts")
    case None
    with assms have "last_entry (\<lambda>r. dr_key r = key) ?rows = Some r" unfolding resolveEntityDescriptors_def Let_def by simp
    from last_entry_Some [OF this] show ?thesis by blast
  next
    case (Some ds)
    with assms have "find (\<lambda>r. dr_key r = key \<and> (case last_entry (\<lambda>x. ed_key x = key) ds of None \<Rightarrow> False | Some x \<Rightarrow> sameDescriptor r x)) ?rows = Some r"
      unfolding resolveEntityDescriptors_def Let_def by simp
    from find_Some_mem [OF this] show ?thesis by blast
  qed
  then show "r \<in> set (descriptors d)" "in_profile (ao_installation opts) (ao_profile opts) (ao_profileVersion opts) r" "dr_key r = key"
    "ao_snapshotDescriptors opts = None \<Longrightarrow> \<not> dr_deprecated r" by auto
qed

text \<open>A declared and registered entity is found, with the declared types.\<close>

lemma resolve_declared:
  assumes "r \<in> set (descriptors d)" "in_profile (ao_installation opts) (ao_profile opts) (ao_profileVersion opts) r" "\<not> dr_deprecated r"
    and "sameDescriptor r x" "dr_key r = ed_key x" "ed_key x \<in> set keys" "x \<in> set ds" "distinct (map ed_key ds)"
    and "ao_snapshotDescriptors opts \<in> {None, Some ds}" "registry_inv (descriptors d)"
  shows "\<exists>r'. resolveEntityDescriptors opts keys d (ed_key x) = Some r' \<and> sameDescriptor r' x"
proof (cases "ao_snapshotDescriptors opts")
  case None
  let ?rows = "rev (sort_key dr_revision (filter (\<lambda>r. in_profile (ao_installation opts) (ao_profile opts) (ao_profileVersion opts) r \<and> dr_key r \<in> set keys \<and>
               (ao_snapshotDescriptors opts = None \<longrightarrow> \<not> dr_deprecated r)) (descriptors d)))"
  have "r \<in> set ?rows" using assms(1-3,5,6) by auto
  then have "last_entry (\<lambda>r. dr_key r = ed_key x) ?rows \<noteq> None"
    unfolding last_entry_None using assms(5) by (metis (mono_tags))
  then have "\<exists>r'. resolveEntityDescriptors opts keys d (ed_key x) = Some r'"
    unfolding resolveEntityDescriptors_def Let_def using None by simp
  then obtain r' where r': "resolveEntityDescriptors opts keys d (ed_key x) = Some r'" by blast
  note f = resolve_Some [OF r']
  have "scope_of r' = scope_of r" unfolding in_profile_scope [OF f(2)] in_profile_scope [OF assms(2)] f(3) assms(5) ..
  then have "r' = r" by (rule registry_one_active [OF assms(10) f(1) assms(1) f(4) [OF None] assms(3)])
  with r' assms(4) show ?thesis by blast
next
  case (Some ds')
  then have ds': "ds' = ds" using assms(9) by simp
  have entry: "last_entry (\<lambda>y. ed_key y = ed_key x) ds = Some x"
  proof -
    obtain y where y: "last_entry (\<lambda>y. ed_key y = ed_key x) ds = Some y"
      using assms(7) by (cases "last_entry (\<lambda>y. ed_key y = ed_key x) ds") (auto simp: last_entry_None)
    with last_entry_Some [OF y] assms(7,8) have "y = x" by (auto intro: distinct_map_eq)
    with y show ?thesis by simp
  qed
  let ?rows = "rev (sort_key dr_revision (filter (\<lambda>r. in_profile (ao_installation opts) (ao_profile opts) (ao_profileVersion opts) r \<and> dr_key r \<in> set keys \<and>
               (ao_snapshotDescriptors opts = None \<longrightarrow> \<not> dr_deprecated r)) (descriptors d)))"
  have eq: "resolveEntityDescriptors opts keys d (ed_key x) = find (\<lambda>r. dr_key r = ed_key x \<and> sameDescriptor r x) ?rows"
    unfolding resolveEntityDescriptors_def Let_def using Some ds' entry by simp
  have "r \<in> set ?rows" using assms(1,2,5,6) Some by auto
  then obtain r' where "find (\<lambda>r. dr_key r = ed_key x \<and> sameDescriptor r x) ?rows = Some r'"
    using assms(4,5) by (metis (mono_tags, lifting) find_None_iff not_None_eq)
  with eq show ?thesis by (auto simp: find_Some_iff)
qed


text \<open>What the check of a batch guarantees.\<close>

lemma validate_updates_Inr:
  "validate_updates check seen us = Inr () \<longleftrightarrow> distinct (map eu_key us) \<and> eu_key ` set us \<inter> seen = {} \<and> (\<forall>u \<in> set us. check u = Inr ())"
  by (induction us arbitrary: seen) (auto simp: rbind_eq_Inr)

lemma validated_update_plans:
  assumes "validate_update parse ds u = Inr ()" "byKey (eu_key u) = Some r" "last_entry (\<lambda>e. ed_key e = eu_key u) ds = Some x" "sameDescriptor r x"
  shows "\<exists>p. plan_update parse t opts byKey current u = Inr p"
proof -
  from assms(1,3) have v: "sdk_valueMatches x (eu_value u)" and q: "opt valid_sequence (eu_sequence u)"
    and ts: "opt (\<lambda>s. parse s \<noteq> None) (eu_sourceTimestamp u)"
    by (auto simp: validate_update_def rbind_ensure_Inr)
  have val: "case eu_value u of None \<Rightarrow> True | Some v \<Rightarrow> valueMatches (dr_valueType r) (dr_enumValues r) v"
    using v sdk_valueMatches_agrees [OF assms(4)] by (cases "eu_value u") auto
  obtain n where n: "normalizeSequence (eu_sequence u) = Inr n"
    using q valid_sequence_normalizes by (cases "eu_sequence u") (auto simp: opt_def normalizeSequence_def [of None])
  obtain st where st: "stamp_of parse (current (eu_key u)) u = Inr st"
    using ts by (cases "eu_sourceTimestamp u") (auto simp: stamp_of_def opt_def)
  show ?thesis unfolding plan_update_Some [of byKey u, OF assms(2)] using val n st by (simp add: Let_def)
qed

lemma plan_updates_total: "(\<And>u. u \<in> set us \<Longrightarrow> \<exists>p. plan u = Inr p) \<Longrightarrow> \<exists>rs. plan_updates plan us = Inr rs"
  by (induction us) (auto simp: rbind_def split: sum.splits, force+)

text \<open>Updates that the database can store: texts without U+0000 and lone surrogates, timestamps of the years 1 to 9999.\<close>

definition update_storable :: "(jsstring \<Rightarrow> time option) \<Rightarrow> EntityUpdateInput \<Rightarrow> bool" where
  "update_storable parse u \<longleftrightarrow> pg_text (eu_key u) \<and> (\<forall>s. eu_value u = Some (EStr s) \<longrightarrow> pg_text s) \<and>
     (\<forall>s x. eu_sourceTimestamp u = Some s \<and> parse s = Some x \<longrightarrow> pg_stamp x) \<and> (\<forall>l c. eu_alarm u = Some (Some (l, c)) \<longrightarrow> pg_text c)"

lemma pg_text_plain: "\<forall>c \<in> set s. 0 < c \<and> c < 0xd800 \<Longrightarrow> pg_text s"
  by (induction s) auto

lemma b64_char_range: "0 < b64_char n \<and> b64_char n < 0xd800"
  by (auto simp: b64_char_def)

lemma b64_storable: "pg_text (b64_encode bs)"
  by (rule pg_text_plain, induction bs rule: b64_encode.induct) (auto simp: b64_char_range Let_def)

lemma value_storable: "pg_json (toJsonValue v) \<longleftrightarrow> (\<forall>s. v = EStr s \<longrightarrow> pg_text s)"
proof (cases v)
  case (EBin bs)
  have "pg_text BINARY_KEY" by (rule pg_text_plain) (simp add: BINARY_KEY_def js_simps)
  then show ?thesis by (simp add: EBin toJsonValue_def b64_storable)
qed (simp_all add: toJsonValue_def)

lemma planned_row_storable:
  assumes plan: "batch_plan parse t opts d u = Inr (Some (row, h))" and states: "\<forall>s \<in> set (entity_states d). row_storable s"
  shows "update_storable parse u \<Longrightarrow> row_storable row" and "row_storable row \<Longrightarrow> update_storable parse u"
proof -
  let ?p = "if ao_writeCurrentState opts then find_state (ao_installation opts) (ao_device opts) (eu_key u) d else None"
  have "\<exists>r seq stamp. stamp_of parse ?p u = Inr stamp \<and> row = updated_row t opts r ?p u seq stamp"
    using plan unfolding batch_plan_def
  proof (rule plan_update_Inr, goal_cases)
    case (1 r seq)
    from 1(5) [OF refl] show ?case by (elim exE conjE) (intro exI conjI)
  qed
  then obtain r seq stamp where stamp: "stamp_of parse ?p u = Inr stamp" and row: "row = updated_row t opts r ?p u seq stamp" by blast
  have prev: "row_storable p" if "?p = Some p" for p
    using states that by (auto simp: find_state_def dest!: find_Some_mem split: if_splits)
  show "row_storable row" if u: "update_storable parse u"
  proof -
    have "pg_json (es_value row)"
      using u prev by (auto simp: row updated_row_def update_storable_def value_storable row_storable_def split: option.splits)
    moreover have "case es_sourceTimestamp row of None \<Rightarrow> True | Some t \<Rightarrow> pg_stamp t"
      using u prev stamp by (auto simp: row updated_row_def update_storable_def stamp_of_def row_storable_def split: option.splits)
    moreover have "case es_alarmCode row of None \<Rightarrow> True | Some c \<Rightarrow> pg_text c"
      using u prev by (auto simp: row updated_row_def update_storable_def row_storable_def split: option.splits)
    ultimately show ?thesis using u by (simp add: row_storable_def) (simp add: row updated_row_def update_storable_def)
  qed
  show "update_storable parse u" if "row_storable row"
    unfolding update_storable_def
  proof (intro conjI allI impI)
    show "pg_text (eu_key u)" using that by (simp add: row updated_row_def row_storable_def)
    show "pg_text x" if "eu_value u = Some (EStr x)" for x
      using \<open>row_storable row\<close> that value_storable [of "EStr x"] by (simp add: row updated_row_def row_storable_def)
    show "pg_stamp y" if "eu_sourceTimestamp u = Some x \<and> parse x = Some y" for x y
    proof -
      have "stamp = Some y" using stamp that by (simp add: stamp_of_def)
      then show ?thesis using \<open>row_storable row\<close> by (simp add: row updated_row_def row_storable_def)
    qed
    show "pg_text y" if "eu_alarm u = Some (Some (x, y))" for x y
      using \<open>row_storable row\<close> that by (simp add: row updated_row_def row_storable_def)
  qed
qed

lemma mem_map_filter: "y \<in> set (List.map_filter f xs) \<longleftrightarrow> (\<exists>x \<in> set xs. f x = Some y)"
  by (induction xs) (auto simp: map_filter_simps split: option.splits)

lemma apply_outcome:
  assumes "length (ao_updates opts) \<le> 4096" "distinct (map eu_key (ao_updates opts))"
    and plans: "\<And>u. u \<in> set (ao_updates opts) \<Longrightarrow> \<exists>p. batch_plan parse t opts d u = Inr p"
    and fk: "ao_installation opts \<in> iid ` set (plugin_installations (core_db d))" "ao_device opts \<in> did ` set (devices (core_db d))"
  shows "(\<exists>d'. applyEntityUpdates parse t serial opts d = Inr ((), d')) \<or> applyEntityUpdates parse t serial opts d = Inl PDatabase"
    and "list_all row_storable (map fst (batch_rows parse t opts d)) \<Longrightarrow> \<exists>d'. applyEntityUpdates parse t serial opts d = Inr ((), d')"
    and "ao_writeCurrentState opts \<Longrightarrow> \<not> list_all row_storable (map fst (batch_rows parse t opts d)) \<Longrightarrow>
      applyEntityUpdates parse t serial opts d = Inl PDatabase"
proof -
  let ?us = "sort_key eu_key (ao_updates opts)"
  obtain rs where rs: "plan_updates (batch_plan parse t opts d) ?us = Inr rs" using plan_updates_total [of ?us "batch_plan parse t opts d"] plans by auto
  have eq: "batch_rows parse t opts d = rs" using plan_updates_Inr [OF rs] by (simp add: batch_rows_def planned_def [abs_def])
  have "distinct (map eu_key ?us)" using assms(2) by (metis distinct_map distinct_sort set_sort)
  then have card: "card (set (map eu_key ?us)) = length (map eu_key ?us)" by (rule distinct_card)
  have "es_installation row = ao_installation opts \<and> es_device row = ao_device opts" if "(row, h) \<in> set rs" for row h
  proof -
    from that plan_updates_Inr [OF rs] obtain u where "batch_plan parse t opts d u = Inr (Some (row, h))"
      by (auto simp: List.map_filter_def split: sum.splits)
    from plan_update_key [OF this [unfolded batch_plan_def]] show ?thesis by (simp add: key_of_def)
  qed
  then have fks: "list_all (state_fk d') (map fst rs)" "list_all (state_fk d') (map fst (filter snd rs))" if "core_db d' = core_db d" for d'
    using fk that by (fastforce simp: list_all_iff state_fk_def)+
  have run: "applyEntityUpdates parse t serial opts d =
      rbind (if ao_writeCurrentState opts then upsertStateRows (map fst rs) d else Inr ((), d)) (\<lambda>(_, d1).
        insertHistoryRows serial (map fst (filter snd rs)) d1)"
    using assms(1) card rs [unfolded batch_plan_def] by (simp add: applyEntityUpdates_def Let_def)
  show "(\<exists>d'. applyEntityUpdates parse t serial opts d = Inr ((), d')) \<or> applyEntityUpdates parse t serial opts d = Inl PDatabase"
    unfolding run by (simp add: upsertStateRows_def insertHistoryRows_def)
  show "\<exists>d'. applyEntityUpdates parse t serial opts d = Inr ((), d')" if "list_all row_storable (map fst (batch_rows parse t opts d))"
  proof -
    have "list_all row_storable (map fst (filter snd rs))" using that by (auto simp: eq list_all_iff)
    then show ?thesis using that fks unfolding run eq by (simp add: upsertStateRows_def insertHistoryRows_def)
  qed
  show "applyEntityUpdates parse t serial opts d = Inl PDatabase"
    if "ao_writeCurrentState opts" "\<not> list_all row_storable (map fst (batch_rows parse t opts d))"
    using that unfolding run eq by (simp add: upsertStateRows_def)
qed

text \<open>After a device is bound, every entity of its profile is registered, active and as declared.\<close>

lemma bind_registers:
  assumes inv: "entity_inv d" and ok: "bindDeviceToPluginInstallation newId t observed i d = Inr (u, d')"
    and inst: "installation_of (bi_installationId i) d = Some inst"
    and s: "getSnapshot (iplugin_id inst) (iplugin_version inst) (imanifest_hash inst) d = Inr s" "parseManifest s = Inr m"
    and p: "find_profile (bi_profileId i) (bi_profileVersion i) m = Some p"
  shows "\<forall>x \<in> set (mp_entities p). \<exists>r \<in> set (descriptors d'). in_profile (bi_installationId i) (bi_profileId i) (bi_profileVersion i) r \<and>
        dr_key r = ed_key x \<and> sameDescriptor r x \<and> \<not> dr_deprecated r"
    and "bi_installationId i \<in> iid ` set (plugin_installations (core_db d'))" "bi_deviceId i \<in> did ` set (devices (core_db d'))"
    and "distinct (map ed_key (mp_entities p))"
proof -
  show keys: "distinct (map ed_key (mp_entities p))" using snapshot_profile [OF inv s] find_profile_Some [OF p] by blast
  from ok obtain inst' s' m' p' es q d1 d2 pr where
      same: "installation_of (bi_installationId i) d = Some inst'" "getSnapshot (iplugin_id inst') (iplugin_version inst') (imanifest_hash inst') d = Inr s'"
        "parseManifest s' = Inr m'" "find_profile (bi_profileId i) (bi_profileVersion i) m' = Some p'"
    and dev: "bi_deviceId i \<in> did ` set (devices (core_db d))"
    and d1: "d1 = d\<lparr>core_db := (core_db d)\<lparr>debug_executions := es\<rparr>, entity_states := filter q (entity_states d)\<rparr>"
    and d2: "registerInTransaction newId t (bi_installationId i) (bi_profileId i) (bi_profileVersion i) (mp_entities p') d1 = Inr ((), d2)"
    and d': "d' = set_deprecated True pr (upsert_binding \<lparr>bdevice_id = bi_deviceId i, binstallation_id = bi_installationId i,
                bprofile_id = bi_profileId i, bprofile_version = bi_profileVersion i\<rparr> d2)"
    and pr: "\<And>r. in_profile (bi_installationId i) (bi_profileId i) (bi_profileVersion i) r \<Longrightarrow> \<not> pr r"
    by (rule bind_Inr) blast
  from same inst s p have "p' = p" by simp
  with d2 have d2: "registerInTransaction newId t (bi_installationId i) (bi_profileId i) (bi_profileVersion i) (mp_entities p) d1 = Inr ((), d2)" by simp
  have "registry_inv (descriptors d1)" using inv by (simp add: d1 entity_inv_def)
  note exact = register_exact [OF this keys d2]
  show "\<forall>x \<in> set (mp_entities p). \<exists>r \<in> set (descriptors d'). in_profile (bi_installationId i) (bi_profileId i) (bi_profileVersion i) r \<and>
        dr_key r = ed_key x \<and> sameDescriptor r x \<and> \<not> dr_deprecated r"
  proof
    fix x assume x: "x \<in> set (mp_entities p)"
    with exact(1) obtain r where r: "r \<in> set (descriptors d2)" "in_profile (bi_installationId i) (bi_profileId i) (bi_profileVersion i) r"
      "dr_key r = ed_key x" "\<not> dr_deprecated r" by blast
    with exact(2) obtain y where "y \<in> set (mp_entities p)" "ed_key y = ed_key x" "sameDescriptor r y" by auto
    with x keys have "sameDescriptor r x" using distinct_map_eq by metis
    moreover have "r \<in> set (descriptors d')" using r(1) pr [OF r(2)] by (force simp: d')
    ultimately show "\<exists>r \<in> set (descriptors d'). in_profile (bi_installationId i) (bi_profileId i) (bi_profileVersion i) r \<and>
        dr_key r = ed_key x \<and> sameDescriptor r x \<and> \<not> dr_deprecated r" using r by blast
  qed
  have "core_db d2 = core_db d1" using exact(4) by auto
  then have "plugin_installations (core_db d') = plugin_installations (core_db d)" "devices (core_db d') = devices (core_db d)"
    by (simp_all add: d' set_deprecated_def upsert_binding_def Let_def d1)
  moreover have "bi_installationId i \<in> iid ` set (plugin_installations (core_db d))"
    using find_Some_mem [OF inst [unfolded installation_of_def]] by force
  ultimately show "bi_installationId i \<in> iid ` set (plugin_installations (core_db d'))" "bi_deviceId i \<in> did ` set (devices (core_db d'))"
    using dev by simp_all
qed

text \<open>C34. The two checks of entity updates agree, up to what the database can store. A device of a reachable state is bound to an installation; later, after any
  number of other batches, the plugin manager checks a batch against the entities of the profile in the manifest. A batch that passes this check
  is accepted by the transaction too, whether or not it passes the declarations along: no unknown entity, no value or sequence number
  that only the second check rejects. Only the conversion to JSON in the database can still fail: the batch is applied if its texts have
  no U+0000 and no lone surrogate and its timestamps are of the years 1 to 9999, every other failure is a database error, and a batch for the current
  state with one such update that is not outdated always fails, although the manager has accepted it.\<close>

theorem validated_batch_applies:
  assumes "descriptors d0 = [] \<and> entity_states d0 = [] \<and> manifest_snapshots d0 = []" "entity_step\<^sup>*\<^sup>* d0 d"
    and "bindDeviceToPluginInstallation newId t observed i d = Inr (u, d1)"
    and "installation_of (bi_installationId i) d = Some inst"
    and "getSnapshot (iplugin_id inst) (iplugin_version inst) (imanifest_hash inst) d = Inr s" "parseManifest s = Inr m"
    and "find_profile (bi_profileId i) (bi_profileVersion i) m = Some p"
    and "entity_batch\<^sup>*\<^sup>* d1 d2"
    and "ao_installation opts = bi_installationId i" "ao_device opts = bi_deviceId i" "ao_profile opts = bi_profileId i"
      "ao_profileVersion opts = bi_profileVersion i" "ao_snapshotDescriptors opts \<in> {None, Some (mp_entities p)}"
    and "validateEntityUpdates parse (mp_entities p) (ao_updates opts) = Inr ()"
  shows "((\<forall>v \<in> set (ao_updates opts). update_storable parse v) \<longrightarrow> (\<exists>d3. applyEntityUpdates parse t' serial opts d2 = Inr ((), d3))) \<and>
    ((\<exists>d3. applyEntityUpdates parse t' serial opts d2 = Inr ((), d3)) \<or> applyEntityUpdates parse t' serial opts d2 = Inl PDatabase) \<and>
    (ao_writeCurrentState opts \<and> (\<exists>v \<in> set (ao_updates opts). eu_sequence v = None \<and> \<not> update_storable parse v) \<longrightarrow>
       applyEntityUpdates parse t' serial opts d2 = Inl PDatabase)"
proof -
  have inv: "entity_inv d" by (rule entities.reachable_inv [OF assms(1,2)])
  note b = bind_registers [OF inv assms(3-7)]
  have inv1: "entity_inv d1" using bind_good [OF inv assms(3)] by simp
  have "entity_inv d2" using assms(8)
    by (induction rule: rtranclp_induct) (use inv1 batch_good in blast)+
  then have states: "\<forall>s \<in> set (entity_states d2). row_storable s" by (simp add: entity_inv_def)
  have reg: "registry_inv (descriptors d1)" using inv1 by (simp add: entity_inv_def)
  have same: "descriptors d2 = descriptors d1" "core_db d2 = core_db d1" using entity_batches_frame [OF assms(8)] by auto
  have len: "length (ao_updates opts) \<le> 4096" and dist: "distinct (map eu_key (ao_updates opts))"
    and ok: "\<forall>u \<in> set (ao_updates opts). validate_update parse (mp_entities p) u = Inr ()"
    using assms(14) by (auto simp: validateEntityUpdates_def rbind_ensure_Inr validate_updates_Inr)
  have plans: "\<exists>q. batch_plan parse t' opts d2 v = Inr q" if v: "v \<in> set (ao_updates opts)" for v
  proof -
    from v ok have vok: "validate_update parse (mp_entities p) v = Inr ()" by blast
    then obtain x where x: "last_entry (\<lambda>e. ed_key e = eu_key v) (mp_entities p) = Some x"
      by (auto simp: validate_update_def split: option.splits)
    note xe = last_entry_Some [OF x]
    let ?keys = "map eu_key (sort_key eu_key (ao_updates opts))"
    obtain r where r: "r \<in> set (descriptors d2)" "in_profile (ao_installation opts) (ao_profile opts) (ao_profileVersion opts) r"
      "\<not> dr_deprecated r" "sameDescriptor r x" "dr_key r = ed_key x"
      using b(1) xe same(1) assms(9,11,12) by auto
    have "ed_key x \<in> set ?keys" using xe v by auto
    then obtain r' where "resolveEntityDescriptors opts ?keys d2 (ed_key x) = Some r'" "sameDescriptor r' x"
      using resolve_declared [OF r(1-5) _ conjunct1 [OF xe] b(4) assms(13) reg [folded same(1)]] by blast
    with xe have "resolveEntityDescriptors opts ?keys d2 (eu_key v) = Some r'" "sameDescriptor r' x" by auto
    then show "\<exists>q. batch_plan parse t' opts d2 v = Inr q"
      unfolding batch_plan_def by (rule validated_update_plans [OF vok _ x])
  qed
  have fk: "ao_installation opts \<in> iid ` set (plugin_installations (core_db d2))" "ao_device opts \<in> did ` set (devices (core_db d2))"
    using b(2,3) assms(9,10) same by simp_all
  note outcome = apply_outcome [OF len dist plans fk]
  have rows: "(row, h) \<in> set (batch_rows parse t' opts d2) \<longleftrightarrow> (\<exists>v \<in> set (ao_updates opts). batch_plan parse t' opts d2 v = Inr (Some (row, h)))" for row h
  proof -
    have "planned q = Some y \<longleftrightarrow> q = Inr (Some y)" for q :: "PluginError + (entity_state \<times> bool) option" and y
      by (auto simp: planned_def split: sum.splits)
    then show ?thesis by (simp add: batch_rows_def mem_map_filter)
  qed
  have "list_all row_storable (map fst (batch_rows parse t' opts d2))" if "\<forall>v \<in> set (ao_updates opts). update_storable parse v"
    using that rows planned_row_storable(1) [OF _ states] by (fastforce simp: list_all_iff)
  moreover have "\<not> list_all row_storable (map fst (batch_rows parse t' opts d2))"
    if v: "v \<in> set (ao_updates opts)" "eu_sequence v = None" "\<not> update_storable parse v" for v
  proof -
    obtain q where q: "batch_plan parse t' opts d2 v = Inr q" using plans [OF v(1)] by blast
    have "q \<noteq> None" using q unfolding batch_plan_def
      by (rule plan_update_Inr) (use v(2) in \<open>auto simp: normalizeSequence_def stale_update_def split: option.splits\<close>)
    then obtain row h where "q = Some (row, h)" by (cases q) auto
    then show ?thesis using rows q v planned_row_storable(2) [OF _ states] by (force simp: list_all_iff)
  qed
  ultimately show ?thesis using outcome by blast
qed

section \<open>Reading values back\<close>

text \<open>The query matches the device's binding and the enabled installation.\<close>

definition readable_by :: "EntityStateSnapshot \<Rightarrow> plugin_db \<Rightarrow> bool" where
  "readable_by q d \<longleftrightarrow>
     list_ex (\<lambda>b. bdevice_id b = qs_deviceId q \<and> binstallation_id b = qs_installationId q \<and> bprofile_id b = qs_profileId q \<and>
       bprofile_version b = qs_profileVersion q) (plugin_device_bindings (core_db d)) \<and>
     list_ex (\<lambda>i. iid i = qs_installationId q \<and> iplugin_id i = qs_pluginId q \<and> iplugin_version i = qs_pluginVersion q \<and>
       imanifest_hash i = qs_manifestHash q \<and> ienabled i) (plugin_installations (core_db d))"

definition shown :: "time \<Rightarrow> entity_descriptor \<Rightarrow> entity_state \<Rightarrow> entity_value option \<Rightarrow> EntityStateResult" where
  "shown t r s v = \<lparr>er_key = es_key s, er_value = v, er_quality = shown_quality t r s,
     er_sourceTimestamp = es_sourceTimestamp s, er_ingested_at = es_ingested_at s,
     er_alarm = (case (es_alarmLevel s, es_alarmCode s) of (Some l, Some c) \<Rightarrow> if c = [] then None else Some (l, c) | _ \<Rightarrow> None)\<rparr>"

lemma entity_rows_mem:
  "(s, r) \<in> set (entity_rows q key d) \<longleftrightarrow> s \<in> set (entity_states d) \<and> r \<in> set (descriptors d) \<and> readable_by q d \<and>
     key_of s = (qs_installationId q, qs_deviceId q, key) \<and> in_profile (qs_installationId q) (qs_profileId q) (qs_profileVersion q) r \<and>
     dr_key r = key \<and> dr_revision r = es_revision s \<and> \<not> dr_deprecated r"
  by (auto simp: entity_rows_def readable_by_def list_ex_iff key_of_def in_profile_def) force+

lemma read_row:
  assumes inv: "entity_inv d" and s: "state_map (entity_states d) (qs_installationId q, qs_deviceId q, key) = Some s"
    and r: "r \<in> set (descriptors d)" "in_profile (qs_installationId q) (qs_profileId q) (qs_profileVersion q) r" "dr_key r = key"
      "dr_revision r = es_revision s" "\<not> dr_deprecated r"
    and q: "readable_by q d"
  shows "getPluginEntityState t q key d = rbind (entityValueFromStorage (es_value s) (dr_valueType r)) (\<lambda>v. Inr (Some (shown t r s v)))"
proof -
  have s': "s \<in> set (entity_states d)" "key_of s = (qs_installationId q, qs_deviceId q, key)"
    using find_Some_mem [OF s [unfolded state_map_def]] by simp_all
  have reg: "registry_inv (descriptors d)" "distinct (map key_of (entity_states d))" using inv by (simp_all add: entity_inv_def)
  have only: "x = (s, r)" if x: "x \<in> set (entity_rows q key d)" for x
  proof -
    obtain s2 r2 where x2: "x = (s2, r2)" by (cases x)
    with x have m: "s2 \<in> set (entity_states d)" "r2 \<in> set (descriptors d)" "key_of s2 = (qs_installationId q, qs_deviceId q, key)"
      "in_profile (qs_installationId q) (qs_profileId q) (qs_profileVersion q) r2" "dr_key r2 = key" "\<not> dr_deprecated r2"
      by (simp_all add: entity_rows_mem)
    have "scope_of r2 = scope_of r" unfolding in_profile_scope [OF m(4)] in_profile_scope [OF r(2)] m(5) r(3) ..
    then have "r2 = r" by (rule registry_one_active [OF reg(1) m(2) r(1) m(6) r(5)])
    moreover have "s2 = s" by (rule distinct_map_eq [OF reg(2) m(1) s'(1)]) (simp add: m(3) s'(2))
    ultimately show ?thesis by (simp add: x2)
  qed
  have "(s, r) \<in> set (entity_rows q key d)" using s' r q by (simp add: entity_rows_mem)
  then obtain x rest where xs: "sort_key (\<lambda>(s, r). - dr_created_at r) (entity_rows q key d) = x # rest"
    by (cases "sort_key (\<lambda>(s, r). - dr_created_at r) (entity_rows q key d)") (auto dest: arg_cong [of _ _ set])
  have "x \<in> set (sort_key (\<lambda>(s, r). - dr_created_at r) (entity_rows q key d))" unfolding xs by simp
  then have "x = (s, r)" using only by simp
  with xs show ?thesis by (simp add: getPluginEntityState_def shown_def)
qed


text \<open>The declarations that come with a batch are, for an entity, the ones that are registered now; without declarations there is nothing to say.\<close>

definition declared_now :: "ApplyEntityUpdatesOptions \<Rightarrow> jsstring \<Rightarrow> plugin_db \<Rightarrow> bool" where
  "declared_now opts key d \<longleftrightarrow>
     (\<forall>decls. ao_snapshotDescriptors opts = Some decls \<longrightarrow>
        (\<exists>r \<in> set (descriptors d). in_profile (ao_installation opts) (ao_profile opts) (ao_profileVersion opts) r \<and> dr_key r = key \<and>
           \<not> dr_deprecated r \<and> (\<exists>x. last_entry (\<lambda>e. ed_key e = key) decls = Some x \<and> sameDescriptor r x)))"

lemma find_latest: "sorted (map f ys) \<Longrightarrow> find P (rev ys) = Some y \<Longrightarrow> x \<in> set ys \<Longrightarrow> P x \<Longrightarrow> f x \<le> f y"
proof (induction ys rule: rev_induct)
  case (snoc z zs)
  then show ?case by (auto simp: sorted_append split: if_splits)
qed simp

lemma resolve_active:
  assumes reg: "registry_inv (descriptors d)" and found: "resolveEntityDescriptors opts keys d key = Some r" and now: "declared_now opts key d"
  shows "\<not> dr_deprecated r"
proof (cases "ao_snapshotDescriptors opts")
  case None
  then show ?thesis using resolve_Some(4) [OF found] by simp
next
  case (Some decls)
  note f = resolve_Some(1-3) [OF found]
  obtain a x where a: "a \<in> set (descriptors d)" "in_profile (ao_installation opts) (ao_profile opts) (ao_profileVersion opts) a" "dr_key a = key"
      "\<not> dr_deprecated a" and x: "last_entry (\<lambda>e. ed_key e = key) decls = Some x" "sameDescriptor a x"
    using now Some by (auto simp: declared_now_def)
  let ?rows = "filter (\<lambda>r. in_profile (ao_installation opts) (ao_profile opts) (ao_profileVersion opts) r \<and> dr_key r \<in> set keys) (descriptors d)"
  let ?P = "\<lambda>r. dr_key r = key \<and> sameDescriptor r x"
  have find: "find ?P (rev (sort_key dr_revision ?rows)) = Some r"
    using found Some x by (simp add: resolveEntityDescriptors_def Let_def)
  from find_Some_mem [OF find] f(3) have "key \<in> set keys" by auto
  then have "a \<in> set (sort_key dr_revision ?rows)" using a by simp
  then have "dr_revision a \<le> dr_revision r" using find_latest [OF sorted_sort_key find] a(3) x(2) by blast
  moreover have scope: "scope_of r = scope_of a" unfolding in_profile_scope [OF f(2)] in_profile_scope [OF a(2)] f(3) a(3) ..
  moreover have "dr_revision r \<le> dr_revision a" using reg f(1) a(1,4) scope by (auto simp: registry_inv_def)
  ultimately have "descriptor_slot r = descriptor_slot a" by (simp add: descriptor_slot_scope)
  moreover have "distinct (map descriptor_slot (descriptors d))" using reg by (simp add: registry_inv_def)
  ultimately have "r = a" using distinct_map_eq f(1) a(1) by metis
  then show ?thesis using a(4) by simp
qed

text \<open>The row a batch leaves for an update that is not stale, and the descriptor it refers to.\<close>

lemma batch_writes:
  assumes inv: "entity_inv d" and ok: "applyEntityUpdates parse t serial opts d = Inr (x, d')" and w: "ao_writeCurrentState opts"
    and active: "declared_now opts (eu_key u) d" and u: "u \<in> set (ao_updates opts)"
    and recent: "\<And>n m. normalizeSequence (eu_sequence u) = Inr (Some n) \<Longrightarrow>
        sequence_at d (ao_installation opts, ao_device opts, eu_key u) = Some m \<Longrightarrow> m < n"
  obtains r seq stamp s where "r \<in> set (descriptors d')" "in_profile (ao_installation opts) (ao_profile opts) (ao_profileVersion opts) r"
    "dr_key r = eu_key u" "\<not> dr_deprecated r" "dr_revision r = es_revision s"
    "\<And>v. eu_value u = Some v \<Longrightarrow> valueMatches (dr_valueType r) (dr_enumValues r) v"
    "state_map (entity_states d') (ao_installation opts, ao_device opts, eu_key u) = Some s"
    "es_value s = es_value (updated_row t opts r (state_map (entity_states d) (ao_installation opts, ao_device opts, eu_key u)) u seq stamp)"
    "es_quality s = es_quality (updated_row t opts r (state_map (entity_states d) (ao_installation opts, ao_device opts, eu_key u)) u seq stamp)"
    "es_ingested_at s = t"
proof -
  let ?k = "(ao_installation opts, ao_device opts, eu_key u)"
  obtain p where p: "batch_plan parse t opts d u = Inr p" using apply_Inr(2) [OF ok] u by blast
  from p w obtain r seq where r: "resolveEntityDescriptors opts (map eu_key (sort_key eu_key (ao_updates opts))) d (eu_key u) = Some r"
    and seq: "normalizeSequence (eu_sequence u) = Inr seq"
    and v: "\<And>v. eu_value u = Some v \<Longrightarrow> valueMatches (dr_valueType r) (dr_enumValues r) v"
    and stale: "p = None \<longleftrightarrow> stale_update (state_map (entity_states d) ?k) seq"
    and row: "\<And>row h. p = Some (row, h) \<Longrightarrow> \<exists>stamp. row = updated_row t opts r (state_map (entity_states d) ?k) u seq stamp"
    by (rule batch_plan_Inr) blast
  have "\<not> stale_update (state_map (entity_states d) ?k) seq"
    using recent seq by (auto simp: stale_update_def sequence_at_def not_le split: option.splits)
  with stale obtain rw h where rh: "p = Some (rw, h)" by (cases p) auto
  with row obtain stamp where rw: "rw = updated_row t opts r (state_map (entity_states d) ?k) u seq stamp" by blast
  let ?s = "case state_map (entity_states d) ?k of None \<Rightarrow> rw | Some old \<Rightarrow> merge_state rw old"
  have st: "state_map (entity_states d') ?k = Some ?s" using apply_states(1) [OF ok w u] p rh by simp
  have f: "es_value ?s = es_value rw" "es_quality ?s = es_quality rw" "es_revision ?s = es_revision rw" "es_ingested_at ?s = es_ingested_at rw"
    by (simp_all add: merge_state_def split: option.split)
  have desc: "descriptors d' = descriptors d" using apply_Inr(3) [OF ok] by simp
  have reg: "registry_inv (descriptors d)" using inv by (simp add: entity_inv_def)
  note rs = resolve_Some [OF r]
  show ?thesis
  proof (rule that [OF _ rs(2,3) resolve_active [OF reg r active] _ v st])
    show "r \<in> set (descriptors d')" using rs(1) desc by simp
    show "dr_revision r = es_revision ?s" by (subst f(3)) (simp add: rw)
    show "es_value ?s = es_value (updated_row t opts r (state_map (entity_states d) ?k) u seq stamp)" by (subst f(1)) (simp add: rw)
    show "es_quality ?s = es_quality (updated_row t opts r (state_map (entity_states d) ?k) u seq stamp)" by (subst f(2)) (simp add: rw)
    show "es_ingested_at ?s = t" by (subst f(4)) (simp add: rw updated_row_def)
  qed
qed









text \<open>A binary entity whose first update carries no value cannot be read. An update may set only the quality or an alarm; for an entity that has no current
  value the database then stores none, which is read back as a missing value for every type but \<^verbatim>\<open>binary\<close>, where reading throws.\<close>

theorem binary_without_value_unreadable:
  assumes "descriptors d0 = [] \<and> entity_states d0 = [] \<and> manifest_snapshots d0 = []" "entity_step\<^sup>*\<^sup>* d0 d"
    and "applyEntityUpdates parse t serial opts d = Inr (x, d')" "ao_writeCurrentState opts" "ao_snapshotDescriptors opts = None"
    and "u \<in> set (ao_updates opts)" "eu_value u = None"
    and "state_map (entity_states d) (ao_installation opts, ao_device opts, eu_key u) = None"
    and "\<forall>r \<in> set (descriptors d). in_profile (ao_installation opts) (ao_profile opts) (ao_profileVersion opts) r \<and> dr_key r = eu_key u \<longrightarrow>
       dr_valueType r = vt"
    and "readable_by q d" "qs_installationId q = ao_installation opts" "qs_deviceId q = ao_device opts"
      "qs_profileId q = ao_profile opts" "qs_profileVersion q = ao_profileVersion opts"
  shows "(vt = VBinary \<and> getPluginEntityState t' q (eu_key u) d' = Inl PStoredValue) \<or>
     (vt \<noteq> VBinary \<and> (\<exists>res. getPluginEntityState t' q (eu_key u) d' = Inr (Some res) \<and> er_value res = None))"
proof -
  have inv: "entity_inv d" by (rule entities.reachable_inv [OF assms(1,2)])
  have none: "m < n" if "normalizeSequence (eu_sequence u) = Inr (Some n)"
    "sequence_at d (ao_installation opts, ao_device opts, eu_key u) = Some m" for n m using that(2) assms(8) by (simp add: sequence_at_def)
  obtain r seq stamp s where r: "r \<in> set (descriptors d')" "in_profile (ao_installation opts) (ao_profile opts) (ao_profileVersion opts) r"
    "dr_key r = eu_key u" "\<not> dr_deprecated r" "dr_revision r = es_revision s"
    and st: "state_map (entity_states d') (ao_installation opts, ao_device opts, eu_key u) = Some s"
    and s: "es_value s = JNull"
    by (rule batch_writes [OF inv assms(3,4) _ assms(6) none]) (auto simp: assms(5,7,8) updated_row_def declared_now_def)
  have batch: "entity_batch d d'" using assms(3) by (rule entity_batch.intros)
  have q: "readable_by q d'" using assms(10) entity_batch_frame [OF batch] by (simp add: readable_by_def)
  have "getPluginEntityState t' q (eu_key u) d' = rbind (entityValueFromStorage (es_value s) (dr_valueType r)) (\<lambda>v. Inr (Some (shown t' r s v)))"
    by (rule read_row [OF conjunct1 [OF batch_good [OF inv batch]] _ _ _ r(3,5,4) q]) (use st r assms(11-14) in simp_all)
  moreover have "dr_valueType r = vt" using assms(9) r entity_batch_frame [OF batch] by simp
  ultimately show ?thesis by (cases "vt = VBinary") (simp_all add: s entityValueFromStorage_def binary_text_def shown_def)
qed


section \<open>Examples\<close>

text \<open>A plugin with one numeric and one binary entity connects, is installed in the project of a device, and the device is bound.\<close>

definition xp_manifest :: PluginManifest where
  "xp_manifest = \<lparr>pm_id = js ''a'', pm_version = js ''1'', pm_displayName = None,
     pm_profiles = [\<lparr>dp_id = js ''p'', dp_version = 1, dp_manufacturer = js ''m'', dp_model = js ''m'', dp_capabilities = [],
       dp_entities = [\<lparr>ed_key = js ''t'', ed_valueType = VNumber, ed_category = CMeasurement, ed_unit = None, ed_enumValues = None,
                        ed_staleAfterSeconds = None, ed_history = Some HAll\<rparr>,
                      \<lparr>ed_key = js ''b'', ed_valueType = VBinary, ed_category = CPrimary, ed_unit = None, ed_enumValues = None,
                        ed_staleAfterSeconds = None, ed_history = None\<rparr>]\<rparr>],
     pm_actions = [], pm_events = [], pm_ui = None\<rparr>"

definition xp_d0 :: plugin_db where
  "xp_d0 = \<lparr>core_db = \<lparr>users = [], user_projects = [],
     devices = [\<lparr>did = [1], device_uid = [101], dproject_id = [9], next_command_sequence = 0\<rparr>],
     command_batches = [], device_commands = [], debug_executions = [], plugin_installations = [], plugin_device_bindings = [], notifications = []\<rparr>,
     manifest_snapshots = [], descriptors = [], entity_states = [], entity_history = [], plugin_events = []\<rparr>"

definition xp_after :: "'e + plugin_db \<Rightarrow> plugin_db" where
  "xp_after r = (case r of Inr d \<Rightarrow> d | Inl _ \<Rightarrow> xp_d0)"

definition xp_hash :: "PluginManifest \<Rightarrow> jsstring" where "xp_hash m = js ''h''"
definition xp_id :: "nat \<Rightarrow> uuid" where "xp_id n = [50 + n]"

definition xp_d1 :: plugin_db where
  "xp_d1 = xp_after (connect_manifest xp_hash (js ''a'') \<lparr>hs_pluginVersion = js ''1'', hs_manifestHash = js ''h'', hs_manifest = xp_manifest\<rparr> xp_d0)"

definition xp_create :: CreateInstallationInput where
  "xp_create = \<lparr>cn_projectId = [9], cn_pluginId = js ''a'', cn_pluginVersion = js ''1'', cn_manifestHash = js ''h'', cn_config = JNull\<rparr>"

definition xp_d2 :: plugin_db where "xp_d2 = ex_db_after (createPluginInstallation [7] xp_create xp_d1)"

definition xp_bind :: BindDeviceInput where
  "xp_bind = \<lparr>bi_installationId = [7], bi_deviceId = [1], bi_profileId = js ''p'', bi_profileVersion = 1\<rparr>"

definition xp_d3 :: plugin_db where "xp_d3 = ex_db_after (bindDeviceToPluginInstallation xp_id 0 None xp_bind xp_d2)"

definition xp_update :: "jsstring \<Rightarrow> entity_value option \<Rightarrow> EntityUpdateInput" where
  "xp_update key v = \<lparr>eu_key = key, eu_value = v, eu_quality = Some QGood, eu_sourceTimestamp = None, eu_sequence = Some (SeqBig 5), eu_alarm = None\<rparr>"

definition xp_opts :: "EntityUpdateInput \<Rightarrow> ApplyEntityUpdatesOptions" where
  "xp_opts u = \<lparr>ao_installation = [7], ao_device = [1], ao_profile = js ''p'', ao_profileVersion = 1, ao_updates = [u],
     ao_snapshotDescriptors = None, ao_writeCurrentState = True\<rparr>"

definition xp_number :: EntityUpdateInput where "xp_number = xp_update (js ''t'') (Some (ENum (Fin 21)))"
definition xp_alarm :: EntityUpdateInput where "xp_alarm = xp_update (js ''b'') None"
definition xp_never :: "jsstring \<Rightarrow> time option" where "xp_never s = None"

definition xp_d4 :: plugin_db where "xp_d4 = ex_db_after (applyEntityUpdates xp_never 1000 1 (xp_opts xp_number) xp_d3)"
definition xp_d5 :: plugin_db where "xp_d5 = ex_db_after (applyEntityUpdates xp_never 1000 1 (xp_opts xp_alarm) xp_d3)"

definition xp_query :: EntityStateSnapshot where
  "xp_query = \<lparr>qs_installationId = [7], qs_deviceId = [1], qs_pluginId = js ''a'', qs_pluginVersion = js ''1'', qs_manifestHash = js ''h'',
     qs_profileId = js ''p'', qs_profileVersion = 1\<rparr>"

lemma xp_after_Inr: "(case r of Inl _ \<Rightarrow> False | Inr _ \<Rightarrow> True) \<Longrightarrow> r = Inr (xp_after r)"
  by (auto simp: xp_after_def split: sum.splits)

lemma xp_steps: "entity_step xp_d0 xp_d1" "entity_step xp_d1 xp_d2" "entity_step xp_d2 xp_d3"
proof -
  have "connect_manifest xp_hash (js ''a'') \<lparr>hs_pluginVersion = js ''1'', hs_manifestHash = js ''h'', hs_manifest = xp_manifest\<rparr> xp_d0 = Inr xp_d1"
    unfolding xp_d1_def by (rule xp_after_Inr) code_simp
  then show "entity_step xp_d0 xp_d1" by (rule entity_step.publish)
  have "\<exists>x. createPluginInstallation [7] xp_create xp_d1 = Inr (x, xp_d2) \<and> True" unfolding xp_d2_def by (rule ex_db_after_Inr) code_simp
  then show "entity_step xp_d1 xp_d2" using entity_step.create by blast
  have "\<exists>x. bindDeviceToPluginInstallation xp_id 0 None xp_bind xp_d2 = Inr (x, xp_d3) \<and> True" unfolding xp_d3_def by (rule ex_db_after_Inr) code_simp
  then show "entity_step xp_d2 xp_d3" using entity_step.bind by blast
qed

lemma xp_init: "descriptors xp_d0 = [] \<and> entity_states xp_d0 = [] \<and> manifest_snapshots xp_d0 = []"
  by (simp add: xp_d0_def)

lemma xp_runs: "entity_step\<^sup>*\<^sup>* xp_d0 xp_d2" "entity_step\<^sup>*\<^sup>* xp_d0 xp_d3"
proof -
  show two: "entity_step\<^sup>*\<^sup>* xp_d0 xp_d2" by (rule rtranclp_trans [OF r_into_rtranclp r_into_rtranclp]) (rule xp_steps)+
  show "entity_step\<^sup>*\<^sup>* xp_d0 xp_d3" by (rule rtranclp.rtrancl_into_rtrancl [OF two]) (rule xp_steps)
qed

lemma xp_applied: "applyEntityUpdates xp_never 1000 1 (xp_opts xp_number) xp_d3 = Inr ((), xp_d4)"
  "applyEntityUpdates xp_never 1000 1 (xp_opts xp_alarm) xp_d3 = Inr ((), xp_d5)"
proof -
  have "\<exists>x. applyEntityUpdates xp_never 1000 1 (xp_opts xp_number) xp_d3 = Inr (x, xp_d4) \<and> True" unfolding xp_d4_def by (rule ex_db_after_Inr) code_simp
  then show "applyEntityUpdates xp_never 1000 1 (xp_opts xp_number) xp_d3 = Inr ((), xp_d4)" by simp
  have "\<exists>x. applyEntityUpdates xp_never 1000 1 (xp_opts xp_alarm) xp_d3 = Inr (x, xp_d5) \<and> True" unfolding xp_d5_def by (rule ex_db_after_Inr) code_simp
  then show "applyEntityUpdates xp_never 1000 1 (xp_opts xp_alarm) xp_d3 = Inr ((), xp_d5)" by simp
qed

theorem late_batch_ignored_witness: "applyEntityUpdates xp_never 9999 7 (xp_opts xp_number) xp_d4 = Inr ((), xp_d4)"
  by (rule late_batch_ignored [OF xp_applied(1) _ _ rtranclp.rtrancl_refl]) (simp_all add: xp_opts_def xp_number_def xp_update_def)

theorem registry_sound_witness:
  "\<exists>b. (descriptors xp_d3 ! 0)\<lparr>dr_deprecated := b\<rparr> \<in> set (descriptors xp_d3)"
proof -
  have "descriptors xp_d3 ! 0 \<in> set (descriptors xp_d3)" "\<not> dr_deprecated (descriptors xp_d3 ! 0)" by code_simp+
  then show ?thesis using registry_sound [OF xp_init xp_runs(2) _ _ rtranclp.rtrancl_refl] by blast
qed










theorem binary_without_value_unreadable_witness: "getPluginEntityState 2000 xp_query (js ''b'') xp_d5 = Inl PStoredValue"
proof -
  have q: "readable_by xp_query xp_d3" by code_simp
  have none: "state_map (entity_states xp_d3) ([7], [1], js ''b'') = None" by code_simp
  have vt: "\<forall>r \<in> set (descriptors xp_d3). in_profile [7] (js ''p'') 1 r \<and> dr_key r = js ''b'' \<longrightarrow> dr_valueType r = VBinary" by code_simp
  show ?thesis
    using binary_without_value_unreadable [OF xp_init xp_runs(2) xp_applied(2), of xp_alarm VBinary xp_query 2000] q none vt
    by (auto simp: xp_opts_def xp_alarm_def xp_update_def xp_query_def)
qed


theorem validated_batch_applies_witness:
  "\<exists>d3. applyEntityUpdates xp_never 3000 2 (xp_opts xp_number) xp_d3 = Inr ((), d3)"
proof -
  have "\<exists>x. bindDeviceToPluginInstallation xp_id 0 None xp_bind xp_d2 = Inr (x, xp_d3) \<and> True" unfolding xp_d3_def by (rule ex_db_after_Inr) code_simp
  then have bind: "bindDeviceToPluginInstallation xp_id 0 None xp_bind xp_d2 = Inr ((), xp_d3)" by simp
  define inst where "inst = plugin_installations (core_db xp_d2) ! 0"
  define snap where "snap = manifest_snapshots xp_d2 ! 0"
  define m where "m = manifest_like xp_manifest"
  define p where "p = mf_profiles m ! 0"
  have facts: "installation_of (bi_installationId xp_bind) xp_d2 = Some inst"
    "getSnapshot (iplugin_id inst) (iplugin_version inst) (imanifest_hash inst) xp_d2 = Inr snap" "parseManifest snap = Inr m"
    "find_profile (bi_profileId xp_bind) (bi_profileVersion xp_bind) m = Some p"
    "validateEntityUpdates xp_never (mp_entities p) (ao_updates (xp_opts xp_number)) = Inr ()"
    unfolding inst_def snap_def m_def p_def by code_simp+
  have "update_storable xp_never xp_number"
    by (simp add: update_storable_def xp_number_def xp_update_def js_simps)
  moreover have "((\<forall>v \<in> set (ao_updates (xp_opts xp_number)). update_storable xp_never v) \<longrightarrow>
      (\<exists>d3. applyEntityUpdates xp_never 3000 2 (xp_opts xp_number) xp_d3 = Inr ((), d3)))"
    by (rule conjunct1, rule validated_batch_applies [OF xp_init xp_runs(1) bind facts(1-4) rtranclp.rtrancl_refl _ _ _ _ _ facts(5)])
      (simp_all add: xp_opts_def xp_bind_def)
  ultimately show ?thesis by (simp add: xp_opts_def)
qed

end
