(* ===== verification/DeviceCodecs.thy ===== *)
theory DeviceCodecs
  imports PluginEvents
begin

text \<open>
  Status reports and update results of devices (\<^verbatim>\<open>core/src/protocol/stat.ts\<close>, \<^verbatim>\<open>core/src/protocol/ota-result.ts\<close>) and the encoder of
  event envelopes (\<^verbatim>\<open>core/src/protocol/event.ts\<close>). The MessagePack codec is an argument; the schemas are functions on decoded values. A
  decoded object never repeats a key, which the structure validator has checked.
\<close>

section \<open>Status reports\<close>

record DeviceStat =
  st_sn :: bytes
  st_fw :: bytes
  st_up :: int
  st_rst :: jsstring

definition UptimeSchema :: "jsval \<Rightarrow> int option" where
  "UptimeSchema v =
     (case v of
        JBig i \<Rightarrow> if i \<ge> 0 \<and> i \<le> EVENT_UINT64_MAX then Some i else None
      | JNum (Fin x) \<Rightarrow> if of_int \<lfloor>x\<rfloor> = x \<and> \<bar>x\<bar> \<le> of_int MAX_SAFE_INTEGER \<and> x \<ge> 0 then Some \<lfloor>x\<rfloor> else None
      | _ \<Rightarrow> None)"

definition DeviceStatSchema :: "jsval \<Rightarrow> DeviceStat option" where
  "DeviceStatSchema v =
     (case v of
        JObj fs \<Rightarrow>
          if set (map fst fs) \<subseteq> {js ''sn'', js ''fw'', js ''up'', js ''rst''} then
            (case (map_of fs (js ''sn''), map_of fs (js ''fw''), Option.bind (map_of fs (js ''up'')) UptimeSchema, map_of fs (js ''rst'')) of
               (Some (JBytes sn), Some (JBytes fw), Some up, Some (JStr rst)) \<Rightarrow>
                 if rst \<noteq> [] then Some \<lparr>st_sn = sn, st_fw = fw, st_up = up, st_rst = rst\<rparr> else None
             | _ \<Rightarrow> None)
          else None
      | _ \<Rightarrow> None)"

definition decodeDeviceStat :: "(bytes \<Rightarrow> jsval option) \<Rightarrow> bytes \<Rightarrow> CommandPayloadError + DeviceStat" where
  "decodeDeviceStat msgpackDecode packet = decodeExact msgpackDecode DeviceStatSchema packet"

definition stat_value :: "DeviceStat \<Rightarrow> jsval" where
  "stat_value s = JObj [(js ''sn'', JBytes (st_sn s)), (js ''fw'', JBytes (st_fw s)), (js ''up'', JBig (st_up s)), (js ''rst'', JStr (st_rst s))]"

definition encodeDeviceStat :: "(jsval \<Rightarrow> bytes) \<Rightarrow> DeviceStat \<Rightarrow> bytes" where
  "encodeDeviceStat msgpackEncode s = msgpackEncode (stat_value s)"

section \<open>Results of updates\<close>

definition MAX_OTA_RESULT_MESSAGE :: nat where "MAX_OTA_RESULT_MESSAGE = 512"

datatype ota_result_state = RDownloaded | RInstalled | RFailed

record OtaResultPayload =
  or_release :: jsstring
  or_job :: jsstring
  or_state :: ota_result_state
  or_code :: int
  or_message :: "jsstring option"

text \<open>\<^verbatim>\<open>z.string().uuid()\<close>: version 1 to 8 and the RFC variant, or the nil or the max identifier.\<close>

definition is_version :: "nat \<Rightarrow> bool" where "is_version c \<longleftrightarrow> 49 \<le> c \<and> c \<le> 56"

definition z_uuid :: "jsstring \<Rightarrow> bool" where
  "z_uuid s \<longleftrightarrow>
     matches (replicate 8 is_hex @ [is_dash] @ replicate 4 is_hex @ [is_dash, is_version] @ replicate 3 is_hex @ [is_dash, is_variant] @
       replicate 3 is_hex @ [is_dash] @ replicate 12 is_hex) s \<or>
     s = js ''00000000-0000-0000-0000-000000000000'' \<or> s = js ''ffffffff-ffff-ffff-ffff-ffffffffffff''"

definition result_state :: "jsstring \<Rightarrow> ota_result_state option" where
  "result_state s =
     (if s = js ''downloaded'' then Some RDownloaded else if s = js ''installed'' then Some RInstalled
      else if s = js ''failed'' then Some RFailed else None)"

definition z_int_value :: "jsval \<Rightarrow> int option" where
  "z_int_value v =
     (case v of JNum (Fin x) \<Rightarrow> if of_int \<lfloor>x\<rfloor> = x \<and> \<bar>x\<bar> \<le> of_int MAX_SAFE_INTEGER then Some \<lfloor>x\<rfloor> else None | _ \<Rightarrow> None)"

definition result_message :: "(jsstring \<times> jsval) list \<Rightarrow> jsstring option option" where
  "result_message fs =
     (case map_of fs (js ''message'') of
        None \<Rightarrow> Some None
      | Some (JStr s) \<Rightarrow> if length s \<le> MAX_OTA_RESULT_MESSAGE then Some (Some s) else None
      | _ \<Rightarrow> None)"

definition OtaResultSchema :: "jsval \<Rightarrow> OtaResultPayload option" where
  "OtaResultSchema v =
     (case v of
        JObj fs \<Rightarrow>
          if set (map fst fs) \<subseteq> {js ''release_id'', js ''job_id'', js ''state'', js ''code'', js ''message''} then
            (case (map_of fs (js ''release_id''), map_of fs (js ''job_id''), map_of fs (js ''state'')) of
               (Some (JStr r), Some (JStr j), Some (JStr s)) \<Rightarrow>
                 (case (result_state s, Option.bind (map_of fs (js ''code'')) z_int_value, result_message fs) of
                    (Some st, Some c, Some m) \<Rightarrow>
                      if z_uuid r \<and> z_uuid j
                      then Some \<lparr>or_release = r, or_job = j, or_state = st, or_code = c, or_message = m\<rparr> else None
                  | _ \<Rightarrow> None)
             | _ \<Rightarrow> None)
          else None
      | _ \<Rightarrow> None)"

definition decodeOtaResult :: "(bytes \<Rightarrow> jsval option) \<Rightarrow> bytes \<Rightarrow> CommandPayloadError + OtaResultPayload" where
  "decodeOtaResult msgpackDecode packet = decodeExact msgpackDecode OtaResultSchema packet"

section \<open>Encoding events\<close>

definition event_value :: "DeviceEventEnvelope \<Rightarrow> jsval" where
  "event_value e = JObj [(js ''id'', JBytes (ev_id e)), (js ''seq'', JBig (ev_seq e)), (js ''kind'', JStr (ev_kind e)),
     (js ''schema'', JNum (Fin (of_int (ev_schema e)))), (js ''data'', ev_data e)]"

definition encodeDeviceEvent :: "(jsval \<Rightarrow> bytes) \<Rightarrow> DeviceEventEnvelope \<Rightarrow> bytes option" where
  "encodeDeviceEvent msgpackEncode e =
     (case parse_event_envelope (event_value e) of None \<Rightarrow> None | Some v \<Rightarrow> Some (msgpackEncode (event_value v)))"

section \<open>Properties\<close>

lemma parse_event_value:
  assumes "parse_event_envelope (event_value e) = Some v"
  shows "v = e"
  using assms
  by (auto simp: event_value_def parse_event_envelope_def event_sequence_def event_schema_number_def js_def split: if_splits option.splits)

lemma stat_value_schema:
  assumes "0 \<le> st_up s" "st_up s \<le> EVENT_UINT64_MAX" "st_rst s \<noteq> []"
  shows "DeviceStatSchema (stat_value s) = Some s"
  using assms by (simp add: stat_value_def DeviceStatSchema_def UptimeSchema_def js_def)

text \<open>What a device encodes the platform decodes. If the MessagePack codec encodes a status report as one complete value and decodes it again, the decoder of
  the platform returns exactly the report, for every uptime of 64 bits; the same holds for every event the encoder does not refuse.\<close>

theorem device_reports_roundtrip:
  assumes "validateMessagePackStructure (enc (stat_value s)) = Inr a" "dec (enc (stat_value s)) = Some (stat_value s)"
    and "0 \<le> st_up s" "st_up s \<le> EVENT_UINT64_MAX" "st_rst s \<noteq> []"
    and "validateMessagePackStructure (enc (event_value e)) = Inr b" "dec (enc (event_value e)) = Some (event_value e)"
    and "encodeDeviceEvent enc e = Some packet"
  shows "decodeDeviceStat dec (encodeDeviceStat enc s) = Inr s \<and> decodeDeviceEvent dec packet = Inr e"
proof
  show "decodeDeviceStat dec (encodeDeviceStat enc s) = Inr s"
    using assms(1,2) stat_value_schema [OF assms(3-5)] by (simp add: decodeDeviceStat_def encodeDeviceStat_def decodeExact_def)
  from assms(8) obtain v where v: "parse_event_envelope (event_value e) = Some v" "packet = enc (event_value v)"
    by (auto simp: encodeDeviceEvent_def split: option.splits)
  with parse_event_value [OF v(1)] assms(6,7) show "decodeDeviceEvent dec packet = Inr e" by (simp add: decodeDeviceEvent_def)
qed

text \<open>The two schemas of unsigned 64-bit counters differ in one case. The sequence number of an event accepts what the uptime of a status report accepts, with the same
  value, and every negative bigint besides.\<close>

theorem event_sequence_vs_uptime:
  "event_sequence v = Some n \<longleftrightarrow> UptimeSchema v = Some n \<or> (v = JBig n \<and> n < 0)"
  by (auto simp: event_sequence_def UptimeSchema_def EVENT_UINT64_MAX_def split: jsval.splits jsnum.splits if_splits)

end
