(* ===== verification/OperationTable.thy ===== *)
theory OperationTable
  imports Doubles "HOL-Library.AList" "HOL-Library.Multiset"
begin

text \<open>
  The plugin manager's table of running operations (\<^verbatim>\<open>plugin-manager/src/manager/operations.ts\<close>, with
  \<^verbatim>\<open>decrementCounter\<close> and the record \<^verbatim>\<open>ActiveOperation\<close> of \<^verbatim>\<open>helpers.ts\<close> and the disconnect handler
  of \<^verbatim>\<open>manager.ts\<close>). While a plugin runs an operation it may call back into the manager; such a reverse call is admitted by the
  operation's token and holds the operation until it is released, also after the operation has left the table. Operations are
  mutable objects shared between the table and the calls that hold them, so they live in a store and are named by references;
  \<^verbatim>\<open>performance.now()\<close> is an argument and the digest of a token is the parameter \<open>hash\<close>. The fields that no function
  here reads (the kind, the scope of the operation, its staged commands) are left out.
\<close>

section \<open>Operations\<close>

datatype op_state = Op_active | Op_sealed

record ActiveOperation =
  op_tokenHash :: bytes
  op_connectionId :: jsstring
  op_installationId :: jsstring
  op_pluginId :: jsstring
  op_deadline :: rat
  op_state :: op_state
  op_reverseCalls :: nat
  op_inFlight :: int
  op_waiters :: "nat list"

record op_options =
  opt_maxOperations :: "nat option"
  opt_maxOperationsPerPlugin :: "nat option"
  opt_maxOperationsPerInstallation :: "nat option"
  opt_maxReverseCallsPerOperation :: "nat option"
  opt_maxReverseConcurrency :: "nat option"
  opt_maxReverseConcurrencyPerPlugin :: "nat option"
  opt_maxReverseConcurrencyPerInstallation :: "nat option"

text \<open>The table maps identifiers to references; \<open>op_next\<close> is the first reference not in use.\<close>

record op_manager =
  op_objects :: "nat \<Rightarrow> ActiveOperation"
  op_next :: nat
  op_table :: "(jsstring \<times> nat) list"
  op_byPlugin :: "jsstring \<rightharpoonup> int"
  op_byInstallation :: "jsstring \<rightharpoonup> int"
  op_reverseInFlight :: int
  op_reverseByPlugin :: "jsstring \<rightharpoonup> int"
  op_reverseByInstallation :: "jsstring \<rightharpoonup> int"

datatype op_error = Capability_invalid | Capability_sealed | Reverse_call_limit | Reverse_concurrency_limit
  | Manager_overloaded | Connection_closed | Operation_expired

definition limit_of :: "nat option \<Rightarrow> nat \<Rightarrow> int" where
  "limit_of opt dflt = int (case opt of Some n \<Rightarrow> n | None \<Rightarrow> dflt)"

definition counter :: "('k \<rightharpoonup> int) \<Rightarrow> 'k \<Rightarrow> int" where
  "counter c k = (case c k of Some n \<Rightarrow> n | None \<Rightarrow> 0)"

definition decrementCounter :: "('k \<rightharpoonup> int) \<Rightarrow> 'k \<Rightarrow> ('k \<rightharpoonup> int)" where
  "decrementCounter c k =
     (let next = (case c k of Some n \<Rightarrow> n | None \<Rightarrow> 1) - 1 in
      if next = 0 then c(k := None) else c(k \<mapsto> next))"

definition acquireOperation ::
  "op_options \<Rightarrow> (jsstring \<Rightarrow> bytes) \<Rightarrow> rat \<Rightarrow> jsstring \<Rightarrow> jsstring \<Rightarrow> jsstring \<Rightarrow> op_manager \<Rightarrow>
     op_error + (nat \<times> op_manager)" where
  "acquireOperation options hash now operationId operationToken connectionId m =
     (case map_of (op_table m) operationId of
        None \<Rightarrow> Inl Capability_invalid
      | Some r \<Rightarrow>
          let operation = op_objects m r in
          if op_connectionId operation \<noteq> connectionId \<or> op_tokenHash operation \<noteq> hash operationToken then Inl Capability_invalid
          else if op_state operation \<noteq> Op_active \<or> now \<ge> op_deadline operation then Inl Capability_sealed
          else if int (op_reverseCalls operation) \<ge> limit_of (opt_maxReverseCallsPerOperation options) 64 then Inl Reverse_call_limit
          else
            let pluginInFlight = counter (op_reverseByPlugin m) (op_pluginId operation);
                installationInFlight = counter (op_reverseByInstallation m) (op_installationId operation) in
            if op_reverseInFlight m \<ge> limit_of (opt_maxReverseConcurrency options) 256 \<or>
               pluginInFlight \<ge> limit_of (opt_maxReverseConcurrencyPerPlugin options) 64 \<or>
               installationInFlight \<ge> limit_of (opt_maxReverseConcurrencyPerInstallation options) 16
            then Inl Reverse_concurrency_limit
            else Inr (r, m\<lparr>
              op_objects := (op_objects m)(r := operation\<lparr>op_reverseCalls := op_reverseCalls operation + 1,
                                                         op_inFlight := op_inFlight operation + 1\<rparr>),
              op_reverseInFlight := op_reverseInFlight m + 1,
              op_reverseByPlugin := (op_reverseByPlugin m)(op_pluginId operation \<mapsto> pluginInFlight + 1),
              op_reverseByInstallation := (op_reverseByInstallation m)(op_installationId operation \<mapsto> installationInFlight + 1)\<rparr>))"

text \<open>The operation to register is a new object: it takes the next reference.\<close>

definition registerOperation ::
  "op_options \<Rightarrow> jsstring \<Rightarrow> ActiveOperation \<Rightarrow> op_manager \<Rightarrow> op_error + op_manager" where
  "registerOperation options operationId operation m =
     (let pluginCount = counter (op_byPlugin m) (op_pluginId operation);
          installationCount = counter (op_byInstallation m) (op_installationId operation) in
      if int (length (op_table m)) \<ge> limit_of (opt_maxOperations options) 256 \<or>
         pluginCount \<ge> limit_of (opt_maxOperationsPerPlugin options) 64 \<or>
         installationCount \<ge> limit_of (opt_maxOperationsPerInstallation options) 32
      then Inl Manager_overloaded
      else Inr (m\<lparr>
        op_objects := (op_objects m)(op_next m := operation),
        op_next := op_next m + 1,
        op_table := AList.update operationId (op_next m) (op_table m),
        op_byPlugin := (op_byPlugin m)(op_pluginId operation \<mapsto> pluginCount + 1),
        op_byInstallation := (op_byInstallation m)(op_installationId operation \<mapsto> installationCount + 1)\<rparr>))"

definition finishOperation :: "jsstring \<Rightarrow> op_manager \<Rightarrow> op_manager" where
  "finishOperation operationId m =
     (case map_of (op_table m) operationId of
        None \<Rightarrow> m
      | Some r \<Rightarrow> m\<lparr>
          op_table := AList.delete operationId (op_table m),
          op_byPlugin := decrementCounter (op_byPlugin m) (op_pluginId (op_objects m r)),
          op_byInstallation := decrementCounter (op_byInstallation m) (op_installationId (op_objects m r))\<rparr>)"

text \<open>A release returns the waiters it wakes.\<close>

definition releaseOperation :: "nat \<Rightarrow> op_manager \<Rightarrow> op_manager \<times> nat list" where
  "releaseOperation r m =
     (let operation = (op_objects m r)\<lparr>op_inFlight := op_inFlight (op_objects m r) - 1\<rparr>;
          settled = op_inFlight operation = 0 in
      (m\<lparr>op_objects := (op_objects m)(r := if settled then operation\<lparr>op_waiters := []\<rparr> else operation),
         op_reverseInFlight := op_reverseInFlight m - 1,
         op_reverseByPlugin := decrementCounter (op_reverseByPlugin m) (op_pluginId operation),
         op_reverseByInstallation := decrementCounter (op_reverseByInstallation m) (op_installationId operation)\<rparr>,
       if settled then op_waiters operation else []))"

text \<open>Sealing ends at once, fails, or waits at most \<open>remaining\<close> milliseconds for the calls still in flight; \<open>w\<close> names
  the promise it then waits on.\<close>

datatype seal_result = Seal_done | Seal_failed op_error | Seal_waits rat

definition sealOperation :: "rat \<Rightarrow> nat \<Rightarrow> jsstring \<Rightarrow> op_manager \<Rightarrow> op_manager \<times> seal_result" where
  "sealOperation now w operationId m =
     (case map_of (op_table m) operationId of
        None \<Rightarrow> (m, Seal_failed Connection_closed)
      | Some r \<Rightarrow>
          let operation = (op_objects m r)\<lparr>op_state := Op_sealed\<rparr>;
              m1 = m\<lparr>op_objects := (op_objects m)(r := operation)\<rparr> in
          if op_inFlight operation = 0 then (m1, Seal_done)
          else
            let remaining = min 250 (max 0 (fl (op_deadline operation - now))) in
            if remaining = 0 then (m1, Seal_failed Operation_expired)
            else (m1\<lparr>op_objects := (op_objects m1)(r := operation\<lparr>op_waiters := op_waiters operation @ [w]\<rparr>)\<rparr>,
                  Seal_waits remaining))"

text \<open>When a connection closes its operations leave the table.\<close>

definition onDisconnect :: "jsstring \<Rightarrow> op_manager \<Rightarrow> op_manager" where
  "onDisconnect connectionId m =
     fold (\<lambda>(operationId, r) m'. if op_connectionId (op_objects m' r) = connectionId then finishOperation operationId m' else m')
       (op_table m) m"

section \<open>Counters\<close>

text \<open>A counter map tallies a list when each key holds the number of its elements, and keys without elements are absent.\<close>

definition tally :: "('a \<Rightarrow> 'k) \<Rightarrow> 'a list \<Rightarrow> 'k \<Rightarrow> nat" where
  "tally key xs k = length (filter (\<lambda>x. key x = k) xs)"

definition tallied :: "('k \<rightharpoonup> int) \<Rightarrow> ('a \<Rightarrow> 'k) \<Rightarrow> 'a list \<Rightarrow> bool" where
  "tallied c key xs \<longleftrightarrow> (\<forall>k. c k = (if tally key xs k = 0 then None else Some (int (tally key xs k))))"

lemma tally_simps [simp]:
  "tally key [] k = 0"
  "tally key (x # xs) k = (if key x = k then 1 else 0) + tally key xs k"
  "tally key (xs @ ys) k = tally key xs k + tally key ys k"
  by (simp_all add: tally_def)

lemma tally_remove1:
  "x \<in> set xs \<Longrightarrow> tally key xs k = (if key x = k then 1 else 0) + tally key (remove1 x xs) k"
  by (induction xs) auto

lemma count_list_remove1:
  "x \<in> set xs \<Longrightarrow> count_list xs q = (if q = x then 1 else 0) + count_list (remove1 x xs) q"
  by (induction xs) auto

lemma tally_cong: "(\<And>x. x \<in> set xs \<Longrightarrow> key x = key' x) \<Longrightarrow> tally key xs k = tally key' xs k"
  by (induction xs) auto

lemma tallied_empty [simp]: "tallied Map.empty key []"
  by (simp add: tallied_def)

lemma tallied_counter: "tallied c key xs \<Longrightarrow> counter c k = int (tally key xs k)"
  by (simp add: tallied_def counter_def)

lemma tallied_cong:
  assumes "tallied c key xs" and "\<And>x. x \<in> set xs \<Longrightarrow> key x = key' x"
  shows "tallied c key' xs"
  using assms(1) by (simp add: tallied_def tally_cong [of xs key key', OF assms(2)])

lemma tallied_snoc:
  assumes "tallied c key xs"
  shows "tallied (c(key x \<mapsto> counter c (key x) + 1)) key (xs @ [x])"
    and "tallied (c(key x \<mapsto> counter c (key x) + 1)) key (x # xs)"
  using assms by (simp_all add: tallied_def counter_def)

lemma tallied_decrement:
  assumes "tallied c key xs" and "x \<in> set xs"
  shows "tallied (decrementCounter c (key x)) key (remove1 x xs)"
proof -
  note split = tally_remove1 [OF assms(2), of key]
  have at: "c (key x) = Some (int (tally key (remove1 x xs) (key x)) + 1)"
    using assms(1) split [of "key x"] by (simp add: tallied_def)
  show ?thesis unfolding tallied_def
  proof
    fix k
    show "decrementCounter c (key x) k =
        (if tally key (remove1 x xs) k = 0 then None else Some (int (tally key (remove1 x xs) k)))"
      using assms(1) split [of k] at by (cases "k = key x") (auto simp: decrementCounter_def tallied_def)
  qed
qed

section \<open>The system\<close>

text \<open>
  A state pairs the manager with the references of the calls in flight: every \<^verbatim>\<open>acquireOperation\<close> of
  \<^verbatim>\<open>rpc.ts\<close> is matched by one \<^verbatim>\<open>releaseOperation\<close> in a \<^verbatim>\<open>finally\<close>. Identifiers of
  new operations are random UUIDs, hence not in the table, and an operation is registered active with its counts at zero, as all the
  callers in \<^verbatim>\<open>actions.ts\<close>, \<^verbatim>\<open>rpc.ts\<close>, \<^verbatim>\<open>ui.ts\<close>, \<^verbatim>\<open>debugger.ts\<close> and
  \<^verbatim>\<open>events.ts\<close> do.
\<close>

type_synonym op_sys = "op_manager \<times> nat list"

definition new_operation :: "ActiveOperation \<Rightarrow> bool" where
  "new_operation a \<longleftrightarrow> op_state a = Op_active \<and> op_reverseCalls a = 0 \<and> op_inFlight a = 0 \<and> op_waiters a = []"

definition op_start :: "op_sys \<Rightarrow> bool" where
  "op_start s \<longleftrightarrow> snd s = [] \<and> op_table (fst s) = [] \<and> op_byPlugin (fst s) = Map.empty \<and>
     op_byInstallation (fst s) = Map.empty \<and> op_reverseInFlight (fst s) = 0 \<and> op_reverseByPlugin (fst s) = Map.empty \<and>
     op_reverseByInstallation (fst s) = Map.empty \<and> op_next (fst s) = 0"

inductive op_step :: "op_options \<Rightarrow> (jsstring \<Rightarrow> bytes) \<Rightarrow> op_sys \<Rightarrow> op_sys \<Rightarrow> bool"
  for options :: op_options and hash :: "jsstring \<Rightarrow> bytes" where
  register: "map_of (op_table m) i = None \<Longrightarrow> new_operation a \<Longrightarrow> registerOperation options i a m = Inr m' \<Longrightarrow>
    op_step options hash (m, calls) (m', calls)"
| acquire: "acquireOperation options hash now i tok conn m = Inr (r, m') \<Longrightarrow>
    op_step options hash (m, calls) (m', r # calls)"
| release: "r \<in> set calls \<Longrightarrow> releaseOperation r m = (m', woken) \<Longrightarrow>
    op_step options hash (m, calls) (m', remove1 r calls)"
| finish: "op_step options hash (m, calls) (finishOperation i m, calls)"
| seal: "sealOperation now w i m = (m', result) \<Longrightarrow> op_step options hash (m, calls) (m', calls)"
| disconnect: "op_step options hash (m, calls) (onDisconnect conn m, calls)"

text \<open>The invariant: the table is one-to-one, the counters tally the table and the calls, and no limit is exceeded.\<close>

definition op_plugin_of :: "op_manager \<Rightarrow> nat \<Rightarrow> jsstring" where
  "op_plugin_of m r = op_pluginId (op_objects m r)"

definition op_installation_of :: "op_manager \<Rightarrow> nat \<Rightarrow> jsstring" where
  "op_installation_of m r = op_installationId (op_objects m r)"

definition table_ok :: "op_manager \<Rightarrow> bool" where
  "table_ok m \<longleftrightarrow> distinct (map fst (op_table m)) \<and> distinct (map snd (op_table m)) \<and>
     (\<forall>r \<in> set (map snd (op_table m)). r < op_next m)"

definition operations_counted :: "op_manager \<Rightarrow> bool" where
  "operations_counted m \<longleftrightarrow> tallied (op_byPlugin m) (op_plugin_of m) (map snd (op_table m)) \<and>
     tallied (op_byInstallation m) (op_installation_of m) (map snd (op_table m))"

definition calls_counted :: "op_manager \<Rightarrow> nat list \<Rightarrow> bool" where
  "calls_counted m calls \<longleftrightarrow> op_reverseInFlight m = int (length calls) \<and>
     tallied (op_reverseByPlugin m) (op_plugin_of m) calls \<and> tallied (op_reverseByInstallation m) (op_installation_of m) calls \<and>
     (\<forall>r < op_next m. op_inFlight (op_objects m r) = int (count_list calls r)) \<and> (\<forall>r \<in> set calls. r < op_next m)"

definition within_limits :: "op_options \<Rightarrow> op_manager \<Rightarrow> nat list \<Rightarrow> bool" where
  "within_limits options m calls \<longleftrightarrow>
     int (length (op_table m)) \<le> limit_of (opt_maxOperations options) 256 \<and>
     (\<forall>p. int (tally (op_plugin_of m) (map snd (op_table m)) p) \<le> limit_of (opt_maxOperationsPerPlugin options) 64) \<and>
     (\<forall>p. int (tally (op_installation_of m) (map snd (op_table m)) p) \<le> limit_of (opt_maxOperationsPerInstallation options) 32) \<and>
     int (length calls) \<le> limit_of (opt_maxReverseConcurrency options) 256 \<and>
     (\<forall>p. int (tally (op_plugin_of m) calls p) \<le> limit_of (opt_maxReverseConcurrencyPerPlugin options) 64) \<and>
     (\<forall>p. int (tally (op_installation_of m) calls p) \<le> limit_of (opt_maxReverseConcurrencyPerInstallation options) 16) \<and>
     (\<forall>r < op_next m. int (op_reverseCalls (op_objects m r)) \<le> limit_of (opt_maxReverseCallsPerOperation options) 64)"

definition op_inv :: "op_options \<Rightarrow> op_sys \<Rightarrow> bool" where
  "op_inv options s \<longleftrightarrow> table_ok (fst s) \<and> operations_counted (fst s) \<and> calls_counted (fst s) (snd s) \<and>
     within_limits options (fst s) (snd s)"

section \<open>Every operation keeps the invariant\<close>

lemma owner_simps [simp]:
  "op_plugin_of (m\<lparr>op_objects := (op_objects m)(r := a)\<rparr>) q = (if q = r then op_pluginId a else op_plugin_of m q)"
  "op_installation_of (m\<lparr>op_objects := (op_objects m)(r := a)\<rparr>) q = (if q = r then op_installationId a else op_installation_of m q)"
  by (simp_all add: op_plugin_of_def op_installation_of_def)

lemma update_fresh: "map_of xs i = None \<Longrightarrow> AList.update i v xs = xs @ [(i, v)]"
  by (induction xs) (auto split: if_splits)

lemma map_of_table:
  "map_of (op_table m) i = Some r \<Longrightarrow> r \<in> set (map snd (op_table m))"
  by (force dest: map_of_SomeD)

lemma table_below: "table_ok m \<Longrightarrow> map_of (op_table m) i = Some r \<Longrightarrow> r < op_next m"
  using map_of_table [of m i r] unfolding table_ok_def by blast

lemma delete_remove1:
  "distinct (map fst xs) \<Longrightarrow> distinct (map snd xs) \<Longrightarrow> map_of xs i = Some r \<Longrightarrow>
     map snd (AList.delete i xs) = remove1 r (map snd xs)"
proof (induction xs)
  case Nil
  then show ?case by simp
next
  case (Cons p xs)
  show ?case
  proof (cases "fst p = i")
    case True
    then have "AList.delete i xs = xs" using Cons.prems(1) by (cases p) (auto intro: delete_id)
    with True Cons.prems(3) show ?thesis by (cases p) simp
  next
    case False
    then have "r \<in> set (map snd xs)" using Cons.prems(3) by (cases p) (auto dest: map_of_SomeD simp: rev_image_eqI)
    with False Cons show ?thesis by (cases p) auto
  qed
qed

lemma op_register_Inr:
  assumes "registerOperation options i a m = Inr m'"
  shows "int (length (op_table m)) < limit_of (opt_maxOperations options) 256"
    and "counter (op_byPlugin m) (op_pluginId a) < limit_of (opt_maxOperationsPerPlugin options) 64"
    and "counter (op_byInstallation m) (op_installationId a) < limit_of (opt_maxOperationsPerInstallation options) 32"
    and "m' = m\<lparr>op_objects := (op_objects m)(op_next m := a), op_next := op_next m + 1,
               op_table := AList.update i (op_next m) (op_table m),
               op_byPlugin := (op_byPlugin m)(op_pluginId a \<mapsto> counter (op_byPlugin m) (op_pluginId a) + 1),
               op_byInstallation := (op_byInstallation m)
                 (op_installationId a \<mapsto> counter (op_byInstallation m) (op_installationId a) + 1)\<rparr>"
  using assms by (auto simp: registerOperation_def Let_def split: if_splits)

lemma op_acquire_Inr:
  assumes "acquireOperation options hash now i tok conn m = Inr (r, m')"
  shows "map_of (op_table m) i = Some r"
    and "op_connectionId (op_objects m r) = conn" and "op_tokenHash (op_objects m r) = hash tok"
    and "op_state (op_objects m r) = Op_active" and "now < op_deadline (op_objects m r)"
    and "int (op_reverseCalls (op_objects m r)) < limit_of (opt_maxReverseCallsPerOperation options) 64"
    and "op_reverseInFlight m < limit_of (opt_maxReverseConcurrency options) 256"
    and "counter (op_reverseByPlugin m) (op_plugin_of m r) < limit_of (opt_maxReverseConcurrencyPerPlugin options) 64"
    and "counter (op_reverseByInstallation m) (op_installation_of m r) < limit_of (opt_maxReverseConcurrencyPerInstallation options) 16"
    and "m' = m\<lparr>op_objects := (op_objects m)(r := (op_objects m r)\<lparr>op_reverseCalls := op_reverseCalls (op_objects m r) + 1,
                  op_inFlight := op_inFlight (op_objects m r) + 1\<rparr>),
               op_reverseInFlight := op_reverseInFlight m + 1,
               op_reverseByPlugin := (op_reverseByPlugin m)
                 (op_plugin_of m r \<mapsto> counter (op_reverseByPlugin m) (op_plugin_of m r) + 1),
               op_reverseByInstallation := (op_reverseByInstallation m)
                 (op_installation_of m r \<mapsto> counter (op_reverseByInstallation m) (op_installation_of m r) + 1)\<rparr>"
  using assms by (auto simp: acquireOperation_def Let_def op_plugin_of_def op_installation_of_def split: option.splits if_splits)

lemma tallied_kept:
  assumes "tallied c key xs" and "\<And>r. r \<in> set xs \<Longrightarrow> key' r = key r"
  shows "tallied c key' xs" and "tally key' xs p = tally key xs p"
  using tallied_cong [OF assms(1), of key'] tally_cong [of xs key' key] assms(2) by simp_all

lemma below_next:
  assumes "op_inv options (m, calls)"
  shows "r \<in> set (map snd (op_table m)) \<Longrightarrow> r < op_next m" and "r \<in> set calls \<Longrightarrow> r < op_next m"
  using assms unfolding op_inv_def table_ok_def calls_counted_def by auto

lemma op_register_inv:
  assumes inv: "op_inv options (m, calls)" and "map_of (op_table m) i = None" and new: "new_operation a"
    and reg: "registerOperation options i a m = Inr m'"
  shows "op_inv options (m', calls)"
proof -
  note I = inv [unfolded op_inv_def fst_conv snd_conv] and below = below_next [OF inv]
  note m' = op_register_Inr(4) [OF reg]
  have f: "op_table m' = op_table m @ [(i, op_next m)]" "op_next m' = op_next m + 1"
      "op_reverseInFlight m' = op_reverseInFlight m" "op_reverseByPlugin m' = op_reverseByPlugin m"
      "op_reverseByInstallation m' = op_reverseByInstallation m"
      "op_byPlugin m' = (op_byPlugin m)(op_pluginId a \<mapsto> counter (op_byPlugin m) (op_pluginId a) + 1)"
      "op_byInstallation m' = (op_byInstallation m)(op_installationId a \<mapsto> counter (op_byInstallation m) (op_installationId a) + 1)"
      "op_objects m' (op_next m) = a" "op_plugin_of m' (op_next m) = op_pluginId a"
      "op_installation_of m' (op_next m) = op_installationId a"
    by (simp_all add: m' update_fresh [OF assms(2)] op_plugin_of_def op_installation_of_def)
  have old: "op_objects m' r = op_objects m r" "op_plugin_of m' r = op_plugin_of m r" "op_installation_of m' r = op_installation_of m r"
    if "r < op_next m" for r using that by (simp_all add: m' op_plugin_of_def op_installation_of_def)
  have tab: "tallied (op_byPlugin m) (op_plugin_of m') (map snd (op_table m))"
      "tallied (op_byInstallation m) (op_installation_of m') (map snd (op_table m))"
    and cal: "tallied (op_reverseByPlugin m) (op_plugin_of m') calls" "tallied (op_reverseByInstallation m) (op_installation_of m') calls"
    using I unfolding operations_counted_def calls_counted_def by (auto intro: tallied_kept old below)
  have cal_eq: "tally (op_plugin_of m') calls p = tally (op_plugin_of m) calls p"
      "tally (op_installation_of m') calls p = tally (op_installation_of m) calls p"
      "tally (op_plugin_of m') (map snd (op_table m)) p = tally (op_plugin_of m) (map snd (op_table m)) p"
      "tally (op_installation_of m') (map snd (op_table m)) p = tally (op_installation_of m) (map snd (op_table m)) p" for p
    by (rule tally_cong, simp add: old below)+
  have "op_next m \<notin> set calls" using below(2) by blast
  then have fresh: "count_list calls (op_next m) = 0" by (simp add: count_list_0_iff)
  have "table_ok m'"
    using I assms(2) below(1) [of "op_next m"] unfolding table_ok_def f
    by (auto simp: map_of_eq_None_iff image_iff intro: less_SucI dest: below(1))
  moreover have "operations_counted m'"
    using tallied_snoc(1) [OF tab(1), of "op_next m"] tallied_snoc(1) [OF tab(2), of "op_next m"]
    by (simp add: operations_counted_def f)
  moreover have "calls_counted m' calls"
    using I new fresh cal unfolding calls_counted_def f new_operation_def by (auto simp: less_Suc_eq old f)
  moreover have "within_limits options m' calls"
    using I new op_register_Inr(1-3) [OF reg] tallied_counter [OF tab(1)] tallied_counter [OF tab(2)]
    unfolding within_limits_def f new_operation_def by (auto simp: less_Suc_eq old f cal_eq limit_of_def)
  ultimately show ?thesis by (simp add: op_inv_def)
qed

text \<open>An update of objects that keeps their owners leaves the tallies alone.\<close>

lemma owners_kept:
  assumes "\<And>r. op_pluginId (op_objects m' r) = op_pluginId (op_objects m r) \<and>
    op_installationId (op_objects m' r) = op_installationId (op_objects m r)"
  shows "op_plugin_of m' = op_plugin_of m" and "op_installation_of m' = op_installation_of m"
  using assms by (simp_all add: op_plugin_of_def op_installation_of_def fun_eq_iff)

lemma op_acquire_inv:
  assumes inv: "op_inv options (m, calls)" and acq: "acquireOperation options hash now i tok conn m = Inr (r, m')"
  shows "op_inv options (m', r # calls)"
proof -
  note I = inv [unfolded op_inv_def fst_conv snd_conv] and A = op_acquire_Inr [OF acq]
  have r: "r < op_next m" using I A(1) by (blast intro: table_below)
  have own: "op_plugin_of m' = op_plugin_of m" "op_installation_of m' = op_installation_of m" by (rule owners_kept, simp add: A(10))+
  have f: "op_table m' = op_table m" "op_next m' = op_next m" "op_reverseInFlight m' = op_reverseInFlight m + 1"
      "op_byPlugin m' = op_byPlugin m" "op_byInstallation m' = op_byInstallation m"
      "op_reverseByPlugin m' = (op_reverseByPlugin m)(op_plugin_of m r \<mapsto> counter (op_reverseByPlugin m) (op_plugin_of m r) + 1)"
      "op_reverseByInstallation m' = (op_reverseByInstallation m)
         (op_installation_of m r \<mapsto> counter (op_reverseByInstallation m) (op_installation_of m r) + 1)"
    by (simp_all add: A(10))
  have obj: "op_inFlight (op_objects m' q) = op_inFlight (op_objects m q) + (if q = r then 1 else 0)"
      "op_reverseCalls (op_objects m' q) = op_reverseCalls (op_objects m q) + (if q = r then 1 else 0)" for q
    by (simp_all add: A(10))
  have cal: "tallied (op_reverseByPlugin m) (op_plugin_of m) calls" "tallied (op_reverseByInstallation m) (op_installation_of m) calls"
    using I by (simp_all add: calls_counted_def)
  have "calls_counted m' (r # calls)"
    using I r tallied_snoc(2) [OF cal(1), of r] tallied_snoc(2) [OF cal(2), of r]
    by (simp add: calls_counted_def f own obj)
  moreover have "within_limits options m' (r # calls)"
    using I A(6-9) tallied_counter [OF cal(1), of "op_plugin_of m r"] tallied_counter [OF cal(2), of "op_installation_of m r"]
    unfolding within_limits_def f own obj calls_counted_def by auto
  ultimately show ?thesis using I by (simp add: op_inv_def table_ok_def operations_counted_def f own)
qed

lemma op_release_inv:
  assumes inv: "op_inv options (m, calls)" and r: "r \<in> set calls" and rel: "releaseOperation r m = (m', woken)"
  shows "op_inv options (m', remove1 r calls)"
proof -
  note I = inv [unfolded op_inv_def fst_conv snd_conv]
  have m': "m' = fst (releaseOperation r m)" by (simp add: rel)
  have own: "op_plugin_of m' = op_plugin_of m" "op_installation_of m' = op_installation_of m"
    by (rule owners_kept, simp add: m' releaseOperation_def Let_def)+
  have f: "op_table m' = op_table m" "op_next m' = op_next m" "op_reverseInFlight m' = op_reverseInFlight m - 1"
      "op_byPlugin m' = op_byPlugin m" "op_byInstallation m' = op_byInstallation m"
      "op_reverseByPlugin m' = decrementCounter (op_reverseByPlugin m) (op_plugin_of m r)"
      "op_reverseByInstallation m' = decrementCounter (op_reverseByInstallation m) (op_installation_of m r)"
    by (simp_all add: m' releaseOperation_def Let_def op_plugin_of_def op_installation_of_def)
  have obj: "op_inFlight (op_objects m' q) = op_inFlight (op_objects m q) - (if q = r then 1 else 0)"
      "op_reverseCalls (op_objects m' q) = op_reverseCalls (op_objects m q)" for q
    by (simp_all add: m' releaseOperation_def Let_def)
  have cnt: "count_list calls q = (if q = r then 1 else 0) + count_list (remove1 r calls) q" for q
    by (rule count_list_remove1 [OF r])
  have sub: "set (remove1 r calls) \<subseteq> set calls" by (rule set_remove1_subset)
  have cal: "tallied (op_reverseByPlugin m) (op_plugin_of m) calls" "tallied (op_reverseByInstallation m) (op_installation_of m) calls"
    using I by (simp_all add: calls_counted_def)
  have len: "int (length (remove1 r calls)) = int (length calls) - 1"
    using r length_pos_if_in_set [OF r] by (simp add: length_remove1 of_nat_diff Suc_le_eq)
  have le: "tally key (remove1 r calls) p \<le> tally key calls p" for key :: "nat \<Rightarrow> jsstring" and p
    using tally_remove1 [OF r, of key p] by simp
  have C: "op_reverseInFlight m = int (length calls)" "\<And>q. q < op_next m \<Longrightarrow> op_inFlight (op_objects m q) = int (count_list calls q)"
      "\<forall>q \<in> set calls. q < op_next m"
    using I unfolding calls_counted_def by blast+
  have "op_inFlight (op_objects m' q) = int (count_list (remove1 r calls) q)" if "q < op_next m" for q
  proof -
    have "op_inFlight (op_objects m' q) = int (count_list calls q) - (if q = r then 1 else 0)"
      by (simp only: obj C(2) [OF that])
    then show ?thesis by (simp only: cnt) simp
  qed
  moreover have "\<forall>q \<in> set (remove1 r calls). q < op_next m" using C(3) sub by blast
  moreover note C(1)
  ultimately have "calls_counted m' (remove1 r calls)"
    using tallied_decrement [OF cal(1) r] tallied_decrement [OF cal(2) r]
    unfolding calls_counted_def f own by (simp add: len)
  moreover have "within_limits options m' (remove1 r calls)"
    using I len unfolding within_limits_def f own obj
    by (auto intro: order_trans [OF of_nat_mono [OF le]])
  ultimately show ?thesis using I by (simp add: op_inv_def table_ok_def operations_counted_def f own)
qed

lemma op_finish_inv:
  assumes inv: "op_inv options (m, calls)"
  shows "op_inv options (finishOperation i m, calls)"
proof (cases "map_of (op_table m) i")
  case None
  then show ?thesis using inv by (simp add: finishOperation_def)
next
  case (Some r)
  note I = inv [unfolded op_inv_def fst_conv snd_conv]
  define m' where "m' = finishOperation i m"
  have f: "op_table m' = AList.delete i (op_table m)" "op_next m' = op_next m" "op_objects m' = op_objects m"
      "op_reverseInFlight m' = op_reverseInFlight m" "op_reverseByPlugin m' = op_reverseByPlugin m"
      "op_reverseByInstallation m' = op_reverseByInstallation m"
      "op_byPlugin m' = decrementCounter (op_byPlugin m) (op_plugin_of m r)"
      "op_byInstallation m' = decrementCounter (op_byInstallation m) (op_installation_of m r)"
    by (simp_all add: m'_def finishOperation_def Some op_plugin_of_def op_installation_of_def)
  have own: "op_plugin_of m' = op_plugin_of m" "op_installation_of m' = op_installation_of m" by (rule owners_kept, simp add: f)+
  have refs: "map snd (op_table m') = remove1 r (map snd (op_table m))"
    using I Some by (simp add: f table_ok_def delete_remove1)
  have r: "r \<in> set (map snd (op_table m))" by (rule map_of_table [OF Some])
  have tab: "tallied (op_byPlugin m) (op_plugin_of m) (map snd (op_table m))"
      "tallied (op_byInstallation m) (op_installation_of m) (map snd (op_table m))"
    using I by (simp_all add: operations_counted_def)
  have le: "tally key (remove1 r (map snd (op_table m))) p \<le> tally key (map snd (op_table m)) p" for key :: "nat \<Rightarrow> jsstring" and p
    using tally_remove1 [OF r, of key p] by simp
  have "length (map snd (op_table m')) \<le> length (map snd (op_table m))" unfolding refs by (simp add: length_remove1)
  then have len: "length (op_table m') \<le> length (op_table m)" by simp
  have "distinct (map fst (op_table m'))" using I by (simp add: f table_ok_def distinct_delete)
  then have "table_ok m'"
    using I set_remove1_subset [of r "map snd (op_table m)"] unfolding table_ok_def refs f(2)
    by (blast intro: distinct_remove1)
  moreover have "operations_counted m'"
    using tallied_decrement [OF tab(1) r] tallied_decrement [OF tab(2) r]
    unfolding operations_counted_def refs own f(7,8) by simp
  moreover have "calls_counted m' calls" using I by (simp add: calls_counted_def f own)
  moreover have "within_limits options m' calls"
    using I len unfolding within_limits_def own refs f(2,3)
    by (auto intro: order_trans [OF of_nat_mono [OF le]])
  ultimately show ?thesis by (simp add: op_inv_def m'_def)
qed

lemma disconnect_inv: "op_inv options (m, calls) \<Longrightarrow> op_inv options (onDisconnect conn m, calls)"
proof -
  assume inv: "op_inv options (m, calls)"
  have "op_inv options (fold (\<lambda>(i, r) m'. if op_connectionId (op_objects m' r) = conn then finishOperation i m' else m') xs m0, calls)"
    if "op_inv options (m0, calls)" for xs m0
    using that
  proof (induction xs arbitrary: m0)
    case (Cons p xs)
    show ?case using Cons.IH [OF Cons.prems] Cons.IH [OF op_finish_inv [OF Cons.prems]] by (simp split: prod.split)
  qed simp
  with inv show ?thesis by (simp add: onDisconnect_def)
qed

lemma seal_frame:
  assumes "sealOperation now w i m = (m', result)"
  shows "op_table m' = op_table m" and "op_next m' = op_next m" and "op_byPlugin m' = op_byPlugin m"
    and "op_byInstallation m' = op_byInstallation m" and "op_reverseInFlight m' = op_reverseInFlight m"
    and "op_reverseByPlugin m' = op_reverseByPlugin m" and "op_reverseByInstallation m' = op_reverseByInstallation m"
    and "op_pluginId (op_objects m' q) = op_pluginId (op_objects m q)"
    and "op_installationId (op_objects m' q) = op_installationId (op_objects m q)"
    and "op_inFlight (op_objects m' q) = op_inFlight (op_objects m q)"
    and "op_reverseCalls (op_objects m' q) = op_reverseCalls (op_objects m q)"
  using assms by (auto simp: sealOperation_def Let_def split: option.splits if_splits)

lemma op_seal_inv:
  assumes inv: "op_inv options (m, calls)" and s: "sealOperation now w i m = (m', result)"
  shows "op_inv options (m', calls)"
proof -
  note f = seal_frame [OF s]
  have own: "op_plugin_of m' = op_plugin_of m" "op_installation_of m' = op_installation_of m" by (rule owners_kept, simp add: f)+
  show ?thesis
    using inv by (simp add: op_inv_def table_ok_def operations_counted_def calls_counted_def within_limits_def f own)
qed

lemma op_step_inv: "op_inv options s \<Longrightarrow> op_step options hash s t \<Longrightarrow> op_inv options t"
  by (erule op_step.cases)
    (auto intro: op_register_inv op_acquire_inv op_release_inv op_finish_inv op_seal_inv disconnect_inv)

lemma op_start_inv: "op_start s \<Longrightarrow> op_inv options s"
  by (cases s) (simp add: op_start_def op_inv_def table_ok_def operations_counted_def calls_counted_def within_limits_def limit_of_def)

section \<open>Sealed operations\<close>

text \<open>What no step undoes: objects are never reused, their owner and token stay, a sealed one is never reactivated, admits
  no further call, and keeps the promises waiting on it while a call is in flight.\<close>

definition object_before :: "ActiveOperation \<times> nat \<Rightarrow> ActiveOperation \<times> nat \<Rightarrow> bool" where
  "object_before = (\<lambda>(a, n) (b, k). op_tokenHash b = op_tokenHash a \<and> op_connectionId b = op_connectionId a \<and>
     op_pluginId b = op_pluginId a \<and> op_reverseCalls a \<le> op_reverseCalls b \<and>
     (op_state a = Op_sealed \<longrightarrow> op_state b = Op_sealed \<and> op_reverseCalls b = op_reverseCalls a \<and> k \<le> n \<and>
        (0 < k \<longrightarrow> set (op_waiters a) \<subseteq> set (op_waiters b))))"

definition op_before :: "op_sys \<Rightarrow> op_sys \<Rightarrow> bool" where
  "op_before s t \<longleftrightarrow> op_next (fst s) \<le> op_next (fst t) \<and>
     (\<forall>r < op_next (fst s). object_before (op_objects (fst s) r, count_list (snd s) r) (op_objects (fst t) r, count_list (snd t) r))"

lemma op_before_refl: "op_before s s"
  by (simp add: op_before_def object_before_def)

lemma object_before_trans: "object_before x y \<Longrightarrow> object_before y z \<Longrightarrow> object_before x z"
  by (auto simp: object_before_def)

lemma op_before_trans: "op_before s t \<Longrightarrow> op_before t u \<Longrightarrow> op_before s u"
  unfolding op_before_def by (meson object_before_trans order_trans order_less_le_trans)

lemma finish_objects: "op_objects (finishOperation i m) = op_objects m" "op_next (finishOperation i m) = op_next m"
  by (simp_all add: finishOperation_def split: option.split)

lemma disconnect_objects: "op_objects (onDisconnect conn m) = op_objects m \<and> op_next (onDisconnect conn m) = op_next m"
proof -
  have "op_objects (fold (\<lambda>(i, r) m'. if op_connectionId (op_objects m' r) = conn then finishOperation i m' else m') xs m0) = op_objects m0 \<and>
    op_next (fold (\<lambda>(i, r) m'. if op_connectionId (op_objects m' r) = conn then finishOperation i m' else m') xs m0) = op_next m0" for xs m0
    by (induction xs arbitrary: m0) (simp_all add: finish_objects split: prod.split)
  then show ?thesis by (simp add: onDisconnect_def)
qed

lemma count_list_remove1_le: "count_list (remove1 x xs) q \<le> count_list xs q"
  by (induction xs) auto

lemma op_step_before:
  assumes "op_inv options s" and "op_step options hash s t"
  shows "op_before s t"
  using assms(2,1)
proof (cases rule: op_step.cases)
  case (register m i a m' calls)
  then show ?thesis using op_register_Inr(4) [OF register(5)] by (simp add: op_before_def object_before_def)
next
  case (acquire now i tok conn m r m' calls)
  then show ?thesis using op_acquire_Inr(4,10) [OF acquire(3)] by (simp add: op_before_def object_before_def)
next
  case (release r calls m m' woken)
  have m': "m' = fst (releaseOperation r m)" by (simp add: release(4))
  have r: "r < op_next m" "op_inFlight (op_objects m r) = int (count_list calls r)"
    using assms(1) release(1,3) by (auto simp: op_inv_def calls_counted_def)
  have "object_before (op_objects m q, count_list calls q) (op_objects m' q, count_list (remove1 r calls) q)" for q
  proof (cases "q = r")
    case True
    have "0 < count_list (remove1 r calls) r \<Longrightarrow> op_inFlight (op_objects m r) - 1 \<noteq> 0"
      by (simp only: r(2) count_list_remove1 [OF release(3), of r]) simp
    then show ?thesis
      by (auto simp: True object_before_def m' releaseOperation_def Let_def count_list_remove1_le)
  qed (simp add: object_before_def m' releaseOperation_def Let_def count_list_remove1_le)
  moreover have "op_next m' = op_next m" by (simp add: m' releaseOperation_def Let_def)
  ultimately show ?thesis by (simp add: op_before_def release(1,2))
next
  case (finish m calls i)
  then show ?thesis by (simp add: op_before_def object_before_def finish_objects)
next
  case (seal now w i m m' result calls)
  then show ?thesis by (auto simp: op_before_def object_before_def sealOperation_def Let_def split: option.splits if_splits)
next
  case (disconnect m calls conn)
  then show ?thesis by (simp add: op_before_def object_before_def disconnect_objects)
qed

interpretation operations: progressing_system op_start "op_step options hash" "op_inv options" op_before
  for options hash
  by unfold_locales (auto intro: op_start_inv op_step_inv op_step_before op_before_refl op_before_trans)

section \<open>Properties\<close>

lemma reachable_op_inv:
  "op_start s \<Longrightarrow> (op_step options hash)\<^sup>*\<^sup>* s t \<Longrightarrow> op_inv options t"
  by (rule operations.reachable_inv)

text \<open>
  C6. The counters are exact: in every reachable state the number kept for a plugin or an installation is the number of its
  operations in the table, the in-flight numbers are those of the calls that have not been released, in all, per plugin, per
  installation and per operation, also for operations that have left the table, keys that count nothing are absent, and none of
  the configured limits is exceeded.
\<close>

theorem operation_counters_exact:
  assumes "op_start s" and "(op_step options hash)\<^sup>*\<^sup>* s (m, calls)"
  shows "op_byPlugin m p = (let n = tally (op_plugin_of m) (map snd (op_table m)) p in if n = 0 then None else Some (int n)) \<and>
    op_byInstallation m i =
      (let n = tally (op_installation_of m) (map snd (op_table m)) i in if n = 0 then None else Some (int n)) \<and>
    op_reverseInFlight m = int (length calls) \<and>
    op_reverseByPlugin m p = (let n = tally (op_plugin_of m) calls p in if n = 0 then None else Some (int n)) \<and>
    op_reverseByInstallation m i = (let n = tally (op_installation_of m) calls i in if n = 0 then None else Some (int n)) \<and>
    (r \<in> set calls \<longrightarrow> op_inFlight (op_objects m r) = int (count_list calls r)) \<and>
    within_limits options m calls"
proof -
  have "op_inv options (m, calls)" by (rule reachable_op_inv [OF assms])
  then show ?thesis
    unfolding op_inv_def operations_counted_def calls_counted_def tallied_def Let_def fst_conv snd_conv by blast
qed

text \<open>
  C7. A seal that succeeds is final: no call was in flight, and whatever happens afterwards, no call is ever in flight for that
  operation again, even though its identifier may still be in the table and its token known to the plugin.
\<close>

theorem sealed_operation_quiet:
  assumes "op_start s" and "(op_step options hash)\<^sup>*\<^sup>* s (m, calls)"
    and seal: "sealOperation now w i m = (m', Seal_done)" and later: "(op_step options hash)\<^sup>*\<^sup>* (m', calls) (m'', calls'')"
  shows "\<exists>r. map_of (op_table m) i = Some r \<and> r \<notin> set calls \<and> op_state (op_objects m'' r) = Op_sealed \<and> r \<notin> set calls'' \<and>
    op_reverseCalls (op_objects m'' r) = op_reverseCalls (op_objects m r)"
proof -
  have inv: "op_inv options (m, calls)" by (rule reachable_op_inv [OF assms(1,2)])
  then have inv': "op_inv options (m', calls)" using seal by (rule op_seal_inv)
  obtain r where r: "map_of (op_table m) i = Some r" "op_inFlight (op_objects m r) = 0" "op_state (op_objects m' r) = Op_sealed"
    "op_reverseCalls (op_objects m' r) = op_reverseCalls (op_objects m r)"
    using seal by (auto simp: sealOperation_def Let_def split: option.splits if_splits)
  have below: "r < op_next m" using inv r(1) by (auto simp: op_inv_def intro: table_below)
  have "int (count_list calls r) = 0" using inv below r(2) by (simp add: op_inv_def calls_counted_def)
  then have idle: "r \<notin> set calls" by (simp add: count_list_0_iff)
  have "r < op_next m'" using below by (simp add: seal_frame(2) [OF seal])
  then have "object_before (op_objects m' r, count_list calls r) (op_objects m'' r, count_list calls'' r)"
    using operations.steps_before [OF later inv'] by (simp add: op_before_def)
  then have "op_state (op_objects m'' r) = Op_sealed" "count_list calls'' r = 0"
      "op_reverseCalls (op_objects m'' r) = op_reverseCalls (op_objects m r)"
    using r(3,4) idle by (simp_all add: object_before_def)
  with r(1) idle show ?thesis by (auto simp: count_list_0_iff)
qed

text \<open>
  C39. A seal that waits is woken: as long as a call of the operation is in flight its promise stays registered, and the release of
  the last one, in whichever order calls, other seals, the end of the operation and disconnects happen, resolves it.
\<close>

theorem waiting_seal_woken:
  assumes "op_start s" and "(op_step options hash)\<^sup>*\<^sup>* s (m, calls)"
    and seal: "sealOperation now w i m = (m', Seal_waits remaining)" and at: "map_of (op_table m) i = Some r"
    and later: "(op_step options hash)\<^sup>*\<^sup>* (m', calls) (m'', calls'')" and last: "count_list calls'' r = 1"
  shows "w \<in> set (snd (releaseOperation r m'')) \<and> 0 < remaining \<and> remaining \<le> 250"
proof -
  have inv: "op_inv options (m, calls)" by (rule reachable_op_inv [OF assms(1,2)])
  then have inv': "op_inv options (m', calls)" using seal by (rule op_seal_inv)
  have r: "op_state (op_objects m' r) = Op_sealed" "w \<in> set (op_waiters (op_objects m' r))" "0 < remaining" "remaining \<le> 250"
    using seal at by (auto simp: sealOperation_def Let_def split: if_splits)
  have "r < op_next m" using inv at by (auto simp: op_inv_def intro: table_below)
  then have "r < op_next m'" by (simp add: seal_frame(2) [OF seal])
  then have "object_before (op_objects m' r, count_list calls r) (op_objects m'' r, count_list calls'' r)" "r < op_next m''"
    using operations.steps_before [OF later inv'] by (auto simp: op_before_def)
  then have "w \<in> set (op_waiters (op_objects m'' r))" using r(1,2) last by (auto simp: object_before_def)
  moreover have "op_inFlight (op_objects m'' r) = 1"
    using operations.steps_inv [OF later inv'] \<open>r < op_next m''\<close> last by (simp add: op_inv_def calls_counted_def)
  ultimately show ?thesis using r(3,4) by (simp add: releaseOperation_def Let_def)
qed

section \<open>Examples\<close>

definition ex_operation :: ActiveOperation where
  "ex_operation = \<lparr>op_tokenHash = [7], op_connectionId = [1], op_installationId = [2], op_pluginId = [3], op_deadline = 1000,
     op_state = Op_active, op_reverseCalls = 0, op_inFlight = 0, op_waiters = []\<rparr>"

definition ex_options :: op_options where
  "ex_options = \<lparr>opt_maxOperations = None, opt_maxOperationsPerPlugin = None, opt_maxOperationsPerInstallation = None,
     opt_maxReverseCallsPerOperation = None, opt_maxReverseConcurrency = None, opt_maxReverseConcurrencyPerPlugin = None,
     opt_maxReverseConcurrencyPerInstallation = Some 1\<rparr>"

definition ex_manager :: op_manager where
  "ex_manager = \<lparr>op_objects = (\<lambda>_. ex_operation), op_next = 0, op_table = [], op_byPlugin = Map.empty,
     op_byInstallation = Map.empty, op_reverseInFlight = 0, op_reverseByPlugin = Map.empty, op_reverseByInstallation = Map.empty\<rparr>"

definition ex_registered :: op_manager where
  "ex_registered = projr (registerOperation ex_options [9] ex_operation ex_manager)"

definition ex_called :: op_manager where
  "ex_called = snd (projr (acquireOperation ex_options (\<lambda>_. [7]) 10 [9] [5] [1] ex_registered))"

lemma ex_start: "op_start (ex_manager, [])"
  by (simp add: op_start_def ex_manager_def)

lemma ex_registered_Inr: "registerOperation ex_options [9] ex_operation ex_manager = Inr ex_registered"
  by (simp add: ex_registered_def registerOperation_def ex_options_def ex_manager_def counter_def limit_of_def)

lemma ex_registered_step: "op_step ex_options (\<lambda>_. [7]) (ex_manager, []) (ex_registered, [])"
  by (rule op_step.register [OF _ _ ex_registered_Inr])
    (simp_all add: ex_manager_def new_operation_def ex_operation_def)

lemma ex_called_Inr: "acquireOperation ex_options (\<lambda>_. [7]) 10 [9] [5] [1] ex_registered = Inr (0, ex_called)"
  by (simp add: ex_called_def acquireOperation_def ex_registered_def registerOperation_def ex_options_def ex_manager_def
      ex_operation_def counter_def limit_of_def)

lemma ex_reached: "(op_step ex_options (\<lambda>_. [7]))\<^sup>*\<^sup>* (ex_manager, []) (ex_registered, [])"
    "(op_step ex_options (\<lambda>_. [7]))\<^sup>*\<^sup>* (ex_manager, []) (ex_called, [0])"
  using ex_registered_step op_step.acquire [OF ex_called_Inr] by (auto intro: rtranclp.rtrancl_into_rtrancl)

lemma finish_steps: "(op_step options hash)\<^sup>*\<^sup>* (m, calls) (finishOperation i m, calls)"
  by (rule r_into_rtranclp) (rule op_step.finish)

lemma operation_counters_exact_witness:
  "op_reverseInFlight ex_called = 1 \<and> op_byPlugin ex_called [3] = Some 1 \<and> op_byPlugin ex_called [4] = None"
proof -
  have owner: "op_plugin_of ex_called 0 = [3]" "map snd (op_table ex_called) = [0]"
    by (simp_all add: op_plugin_of_def ex_called_def acquireOperation_def ex_registered_def registerOperation_def ex_options_def
        ex_manager_def ex_operation_def counter_def limit_of_def)
  show ?thesis
    using operation_counters_exact [OF ex_start ex_reached(2), of "[3]"] operation_counters_exact [OF ex_start ex_reached(2), of "[4]"]
    by (simp add: owner)
qed

lemma sealed_operation_quiet_witness:
  "op_state (op_objects (finishOperation [9] (fst (sealOperation 20 4 [9] ex_registered))) 0) = Op_sealed \<and>
   snd (sealOperation 20 4 [9] ex_registered) = Seal_done"
proof -
  have seal: "snd (sealOperation 20 4 [9] ex_registered) = Seal_done" and at: "map_of (op_table ex_registered) [9] = Some 0"
    by (simp_all add: sealOperation_def ex_registered_def registerOperation_def ex_options_def ex_manager_def ex_operation_def
        counter_def limit_of_def)
  then have "sealOperation 20 4 [9] ex_registered = (fst (sealOperation 20 4 [9] ex_registered), Seal_done)"
    by (metis prod.collapse)
  from sealed_operation_quiet [OF ex_start ex_reached(1) this finish_steps] at seal
  show ?thesis by (metis option.inject)
qed

lemma waiting_seal_woken_witness:
  "4 \<in> set (snd (releaseOperation 0 (finishOperation [9] (fst (sealOperation 20 4 [9] ex_called)))))"
proof -
  have "\<exists>w. snd (sealOperation 20 4 [9] ex_called) = Seal_waits w" and at: "map_of (op_table ex_called) [9] = Some 0"
    using fl_nat [of 980]
    by (simp_all add: sealOperation_def ex_called_def acquireOperation_def ex_registered_def registerOperation_def ex_options_def
        ex_manager_def ex_operation_def counter_def limit_of_def Let_def)
  then obtain q where "sealOperation 20 4 [9] ex_called = (fst (sealOperation 20 4 [9] ex_called), Seal_waits q)"
    by (metis prod.collapse)
  from waiting_seal_woken [OF ex_start ex_reached(2) this at finish_steps]
  show ?thesis by simp
qed

end
