(* ===== verification/ElfParser.thy ===== *)
theory ElfParser
  imports Utf8 Doubles
begin

text \<open>
  The ELF parser that finds log format strings in a firmware image (\<^verbatim>\<open>core/src/elf/parser.ts\<close>): headers, load
  segments and sections, here; extraction and lookup of strings in \<^verbatim>\<open>ElfStrings\<close>. A bigint is a \<open>nat\<close>;
  where the code turns one into a number, \<open>round53\<close> rounds it to a double, and so does each sum of such numbers. Both
  byte orders and both classes are modelled. \<^verbatim>\<open>DataView\<close> getters never see an offset out of range, because the
  reader checks it first.
\<close>

section \<open>Data\<close>

record ElfSection =
  sec_name :: jsstring
  sec_nameOffset :: nat
  sec_type :: nat
  sec_flags :: nat
  sec_addr :: nat
  sec_offset :: nat
  sec_size :: nat

record ElfLoadSegment =
  load_vaddr :: nat
  load_offset :: nat
  load_filesz :: nat

record ElfInfo =
  elf_bits :: nat
  elf_littleEndian :: bool
  elf_machine :: nat
  elf_entry :: nat
  elf_sections :: "ElfSection list"
  elf_loads :: "ElfLoadSegment list"

datatype ElfParseError = Elf_too_short | Elf_bad_magic | Elf_bad_class byte | Elf_bad_encoding byte | Elf_truncated nat
  | Elf_no_sections | Elf_bad_shentsize nat | Elf_bad_phentsize nat | Elf_truncated_programs | Elf_truncated_sections
  | Elf_bad_shstrndx nat

definition PT_LOAD :: nat where "PT_LOAD = 1"
definition SHT_NOBITS :: nat where "SHT_NOBITS = 8"

section \<open>Reader\<close>

fun le_value :: "bytes \<Rightarrow> nat" where
  "le_value [] = 0"
| "le_value (b # bs) = unat b + 256 * le_value bs"

definition bytes_value :: "bool \<Rightarrow> bytes \<Rightarrow> nat" where
  "bytes_value le bs = le_value (if le then bs else rev bs)"

type_synonym 'a elf_rd = "ElfParseError + ('a \<times> nat)"

definition elf_read :: "nat \<Rightarrow> bool \<Rightarrow> bytes \<Rightarrow> nat \<Rightarrow> nat elf_rd" where
  "elf_read k le buf pos =
     (if pos + k > length buf then Inl (Elf_truncated pos) else Inr (bytes_value le (window buf pos k), pos + k))"

definition elf_u16 :: "bool \<Rightarrow> bytes \<Rightarrow> nat \<Rightarrow> nat elf_rd" where "elf_u16 = elf_read 2"
definition elf_u32 :: "bool \<Rightarrow> bytes \<Rightarrow> nat \<Rightarrow> nat elf_rd" where "elf_u32 = elf_read 4"
definition elf_u64 :: "bool \<Rightarrow> bytes \<Rightarrow> nat \<Rightarrow> nat elf_rd" where "elf_u64 = elf_read 8"

definition elf_word :: "nat \<Rightarrow> bool \<Rightarrow> bytes \<Rightarrow> nat \<Rightarrow> nat elf_rd" where
  "elf_word bits le buf pos = (if bits = 64 then elf_u64 le buf pos else elf_u32 le buf pos)"

section \<open>Headers\<close>

text \<open>\<open>traverse\<close> is the loop that pushes one result per index and stops at the first error.\<close>

fun traverse :: "('a \<Rightarrow> 'e + 'b) \<Rightarrow> 'a list \<Rightarrow> 'e + 'b list" where
  "traverse f [] = Inr []"
| "traverse f (x # xs) = rbind (f x) (\<lambda>y. rbind (traverse f xs) (\<lambda>ys. Inr (y # ys)))"

definition elf_program ::
  "bytes \<Rightarrow> bool \<Rightarrow> nat \<Rightarrow> nat \<Rightarrow> nat \<Rightarrow> nat \<Rightarrow> ElfParseError + ElfLoadSegment option" where
  "elf_program data le bits phoff phentsize i =
     (let p = round53 (round53 phoff + i * phentsize) in
      if round53 (p + phentsize) > length data then Inl Elf_truncated_programs
      else
        rbind (elf_u32 le data p) (\<lambda>(pType, pos).
        if bits = 64 then
          rbind (elf_u32 le data pos) (\<lambda>(_, pos).
          rbind (elf_word bits le data pos) (\<lambda>(pOffset, pos).
          rbind (elf_word bits le data pos) (\<lambda>(pVaddr, pos).
          rbind (elf_word bits le data pos) (\<lambda>(_, pos).
          rbind (elf_word bits le data pos) (\<lambda>(pFilesz, pos).
          rbind (elf_word bits le data pos) (\<lambda>(_, pos).
          Inr (if pType = PT_LOAD then Some \<lparr>load_vaddr = pVaddr, load_offset = pOffset, load_filesz = pFilesz\<rparr> else None)))))))
        else
          rbind (elf_word bits le data pos) (\<lambda>(pOffset, pos).
          rbind (elf_word bits le data pos) (\<lambda>(pVaddr, pos).
          rbind (elf_word bits le data pos) (\<lambda>(_, pos).
          rbind (elf_word bits le data pos) (\<lambda>(pFilesz, pos).
          rbind (elf_word bits le data pos) (\<lambda>(_, pos).
          Inr (if pType = PT_LOAD then Some \<lparr>load_vaddr = pVaddr, load_offset = pOffset, load_filesz = pFilesz\<rparr>
               else None))))))))"

definition elf_section :: "bytes \<Rightarrow> bool \<Rightarrow> nat \<Rightarrow> nat \<Rightarrow> nat \<Rightarrow> nat \<Rightarrow> ElfParseError + ElfSection" where
  "elf_section data le bits shoff shentsize i =
     (let s = round53 (round53 shoff + i * shentsize) in
      if round53 (s + shentsize) > length data then Inl Elf_truncated_sections
      else
        rbind (elf_u32 le data s) (\<lambda>(shName, pos).
        rbind (elf_u32 le data pos) (\<lambda>(shType, pos).
        rbind (if bits = 64 then elf_u64 le data pos else elf_u32 le data pos) (\<lambda>(shFlags, pos).
        rbind (elf_word bits le data pos) (\<lambda>(shAddr, pos).
        rbind (elf_word bits le data pos) (\<lambda>(shOffset, pos).
        rbind (elf_word bits le data pos) (\<lambda>(shSize, pos).
        rbind (elf_u32 le data pos) (\<lambda>(_, pos).
        rbind (elf_u32 le data pos) (\<lambda>(_, pos).
        rbind (if bits = 64 then elf_word bits le data pos else elf_u32 le data pos) (\<lambda>(_, pos).
        rbind (if bits = 64 then elf_word bits le data pos else elf_u32 le data pos) (\<lambda>(_, pos).
        Inr \<lparr>sec_name = [], sec_nameOffset = shName, sec_type = shType, sec_flags = shFlags, sec_addr = shAddr,
             sec_offset = shOffset, sec_size = shSize\<rparr>)))))))))))"

text \<open>The inner loop of both string readers: the first position from \<open>i\<close> below \<open>limit\<close> that holds a NUL.\<close>

function find_zero :: "bytes \<Rightarrow> nat \<Rightarrow> nat \<Rightarrow> nat" where
  "find_zero data limit i = (if i < limit \<and> data ! i \<noteq> 0 then find_zero data limit (i + 1) else i)"
  by pat_completeness auto
termination
  by (relation "measure (\<lambda>(_, limit, i). limit - i)") auto

declare find_zero.simps [simp del]

definition readCStringAt :: "bytes \<Rightarrow> ElfSection \<Rightarrow> nat \<Rightarrow> jsstring" where
  "readCStringAt data sec relOffset =
     (let start = round53 (round53 (sec_offset sec) + relOffset) in
      if sec_type sec = SHT_NOBITS \<or> start \<ge> length data then []
      else
        let limit = min (round53 (round53 (sec_offset sec) + round53 (sec_size sec))) (length data);
            end = find_zero data limit start in
        utf8_decode (window data start (end - start)))"

definition parseElf :: "bytes \<Rightarrow> ElfParseError + ElfInfo" where
  "parseElf data =
     (if length data < 52 then Inl Elf_too_short
      else if data ! 0 \<noteq> 0x7f \<or> data ! 1 \<noteq> 0x45 \<or> data ! 2 \<noteq> 0x4c \<or> data ! 3 \<noteq> 0x46 then Inl Elf_bad_magic
      else if data ! 4 \<noteq> 2 \<and> data ! 4 \<noteq> 1 then Inl (Elf_bad_class (data ! 4))
      else if data ! 5 \<noteq> 1 \<and> data ! 5 \<noteq> 2 then Inl (Elf_bad_encoding (data ! 5))
      else
        let bits = (if data ! 4 = 2 then 64 else 32); le = (data ! 5 = 1) in
        rbind (elf_u32 le data 0) (\<lambda>_.
        rbind (elf_u16 le data 16) (\<lambda>(elfType, pos).
        rbind (elf_u16 le data pos) (\<lambda>(machine, pos).
        rbind (elf_u32 le data pos) (\<lambda>(_, pos).
        rbind (elf_word bits le data pos) (\<lambda>(entry, pos).
        rbind (elf_word bits le data pos) (\<lambda>(phoff, pos).
        rbind (elf_word bits le data pos) (\<lambda>(shoff, pos).
        rbind (elf_u32 le data pos) (\<lambda>(_, pos).
        rbind (elf_u16 le data pos) (\<lambda>(_, pos).
        rbind (elf_u16 le data pos) (\<lambda>(phentsize, pos).
        rbind (elf_u16 le data pos) (\<lambda>(phnum, pos).
        rbind (elf_u16 le data pos) (\<lambda>(shentsize, pos).
        rbind (elf_u16 le data pos) (\<lambda>(shnum, pos).
        rbind (elf_u16 le data pos) (\<lambda>(shstrndx, pos).
        if shnum = 0 then Inl Elf_no_sections
        else if shentsize < (if bits = 64 then 64 else 40) then Inl (Elf_bad_shentsize shentsize)
        else if phnum > 0 \<and> phentsize < (if bits = 64 then 56 else 32) then Inl (Elf_bad_phentsize phentsize)
        else
          rbind (traverse (elf_program data le bits phoff phentsize) [0..<phnum]) (\<lambda>loads.
          rbind (traverse (elf_section data le bits shoff shentsize) [0..<shnum]) (\<lambda>sections.
          if shstrndx \<ge> shnum then Inl (Elf_bad_shstrndx shstrndx)
          else
            let strTab = sections ! shstrndx in
            Inr \<lparr>elf_bits = bits, elf_littleEndian = le, elf_machine = machine, elf_entry = entry,
                 elf_sections = map (\<lambda>sec. sec\<lparr>sec_name := readCStringAt data strTab (sec_nameOffset sec)\<rparr>) sections,
                 elf_loads = List.map_filter id loads\<rparr>)))))))))))))))))"

section \<open>Rounded offsets\<close>

text \<open>Comparisons with a position in the file are exact: numbers below \<open>2 ^ 53\<close> are not rounded, and rounding never
  brings a larger number below that.\<close>

lemma round53_id: "n < 2 ^ 53 \<Longrightarrow> round53 n = n"
  using bit_length_le [of n 53] by (simp add: round53_def)

lemma round53_big:
  assumes "2 ^ 53 \<le> n"
  shows "2 ^ 53 \<le> round53 n"
proof -
  define e where "e = bit_length n - 53"
  have n: "0 < n" using assms by (rule order_less_le_trans [rotated]) simp
  note b = bit_length_bounds [OF n]
  have "53 < bit_length n"
  proof (rule ccontr)
    assume "\<not> 53 < bit_length n"
    then have "(2 :: nat) ^ bit_length n \<le> 2 ^ 53" by (intro power_increasing) simp_all
    with b assms show False by linarith
  qed
  then have e: "bit_length n - 1 = 52 + e" "1 \<le> e" by (simp_all add: e_def)
  have "2 ^ 52 * 2 ^ e \<le> n" using b by (simp only: e power_add)
  then have "2 ^ 52 \<le> n div 2 ^ e" by (simp add: less_eq_div_iff_mult_less_eq)
  moreover have "n div 2 ^ e * 2 ^ e \<le> round53 n"
    unfolding round53_def Let_def e_def [symmetric] by (intro mult_right_mono) auto
  moreover have "(2 :: nat) ^ 53 \<le> 2 ^ 52 * 2 ^ e"
    using power_increasing [OF e(2), of "2 :: nat"] by simp
  ultimately show ?thesis by (meson le_trans mult_le_mono1)
qed

lemma round53_less: "k \<le> 2 ^ 53 \<Longrightarrow> round53 n < k \<longleftrightarrow> n < k"
  using round53_id [of n] round53_big [of n] by (cases "n < 2 ^ 53") auto

lemma round53_le: "k < 2 ^ 53 \<Longrightarrow> round53 n \<le> k \<longleftrightarrow> n \<le> k"
  using round53_less [of "Suc k" n] by (simp add: less_Suc_eq_le)

lemma round53_add_less: "k \<le> 2 ^ 53 \<Longrightarrow> round53 (round53 n + m) < k \<longleftrightarrow> n + m < k"
  using round53_id [of n] round53_big [of n] by (cases "n < 2 ^ 53") (auto simp: round53_less)

lemma round53_add: "n + m < 2 ^ 53 \<Longrightarrow> round53 (round53 n + m) = n + m"
  by (simp add: round53_id)

section \<open>Layout\<close>

text \<open>Where the ELF format puts the fields the parser reads, as a description independent of the order of the reads.\<close>

definition field :: "bytes \<Rightarrow> bool \<Rightarrow> nat \<Rightarrow> nat \<Rightarrow> nat" where
  "field data le off k = bytes_value le (window data off k)"

definition word_size :: "nat \<Rightarrow> nat" where
  "word_size bits = (if bits = 64 then 8 else 4)"

definition program_at :: "bytes \<Rightarrow> bool \<Rightarrow> nat \<Rightarrow> nat \<Rightarrow> ElfLoadSegment option" where
  "program_at data le bits p =
     (if field data le p 4 \<noteq> PT_LOAD then None
      else if bits = 64
      then Some \<lparr>load_vaddr = field data le (p + 16) 8, load_offset = field data le (p + 8) 8, load_filesz = field data le (p + 32) 8\<rparr>
      else Some \<lparr>load_vaddr = field data le (p + 8) 4, load_offset = field data le (p + 4) 4, load_filesz = field data le (p + 16) 4\<rparr>)"

definition section_at :: "bytes \<Rightarrow> bool \<Rightarrow> nat \<Rightarrow> nat \<Rightarrow> ElfSection" where
  "section_at data le bits s =
     (let w = word_size bits in
      \<lparr>sec_name = [], sec_nameOffset = field data le s 4, sec_type = field data le (s + 4) 4,
       sec_flags = field data le (s + 8) w, sec_addr = field data le (s + 8 + w) w,
       sec_offset = field data le (s + 8 + 2 * w) w, sec_size = field data le (s + 8 + 3 * w) w\<rparr>)"

lemma elf_read_iff:
  "elf_read k le buf pos = Inr (v, q) \<longleftrightarrow> pos + k \<le> length buf \<and> v = field buf le pos k \<and> q = pos + k"
  by (auto simp: elf_read_def field_def)

lemma elf_read_ok: "pos + k \<le> length buf \<Longrightarrow> elf_read k le buf pos = Inr (field buf le pos k, pos + k)"
  by (simp add: elf_read_iff)

lemmas elf_reads = elf_u16_def elf_u32_def elf_u64_def elf_word_def elf_read_ok

lemma header_end_rounded:
  assumes "k < 2 ^ 53" and "\<not> off + i * n + n \<le> k"
  shows "k < round53 (round53 (round53 off + i * n) + n)"
proof (cases "round53 off + i * n < 2 ^ 53")
  case small: True
  then have "off < 2 ^ 53" using round53_big [of off] by (cases "off < 2 ^ 53") auto
  then have "round53 (round53 off + i * n) = off + i * n"
    using small by (simp add: round53_id)
  then show ?thesis using assms(2) round53_le [OF assms(1)] by (simp add: not_le [symmetric])
next
  case big: False
  then have "2 ^ 53 \<le> round53 (round53 off + i * n)" by (intro round53_big) linarith
  then have "2 ^ 53 \<le> round53 (round53 (round53 off + i * n) + n)" by (intro round53_big) linarith
  then show ?thesis using assms(1) by linarith
qed

lemma elf_program_at:
  assumes "length data < 2 ^ 53" and "(if bits = 64 then 56 else 32) \<le> phentsize"
  shows "elf_program data le bits phoff phentsize i =
    (if phoff + i * phentsize + phentsize \<le> length data then Inr (program_at data le bits (phoff + i * phentsize))
     else Inl Elf_truncated_programs)"
proof (cases "phoff + i * phentsize + phentsize \<le> length data")
  case True
  define p where "p = phoff + i * phentsize"
  have p: "round53 (round53 phoff + i * phentsize) = p" "round53 (p + phentsize) = p + phentsize" "p + phentsize \<le> length data"
    using True assms(1) by (simp_all add: p_def round53_add round53_id)
  have fits: "p + (if bits = 64 then 56 else 32) \<le> length data" using p(3) assms(2) by linarith
  have "elf_program data le bits phoff phentsize i = Inr (program_at data le bits p)"
  proof (cases "bits = 64")
    case True
    with fits p(3) show ?thesis by (simp add: elf_program_def Let_def p(1,2) elf_reads program_at_def add.assoc)
  next
    case False
    with fits p(3) show ?thesis by (simp add: elf_program_def Let_def p(1,2) elf_reads program_at_def add.assoc)
  qed
  with True show ?thesis by (simp add: p_def)
next
  case False
  then have "length data < round53 (round53 (round53 phoff + i * phentsize) + phentsize)"
    by (rule header_end_rounded [OF assms(1)])
  with False show ?thesis by (simp add: elf_program_def Let_def)
qed

lemma elf_section_at:
  assumes "length data < 2 ^ 53" and "(if bits = 64 then 64 else 40) \<le> shentsize"
  shows "elf_section data le bits shoff shentsize i =
    (if shoff + i * shentsize + shentsize \<le> length data then Inr (section_at data le bits (shoff + i * shentsize))
     else Inl Elf_truncated_sections)"
proof (cases "shoff + i * shentsize + shentsize \<le> length data")
  case True
  define p where "p = shoff + i * shentsize"
  have p: "round53 (round53 shoff + i * shentsize) = p" "round53 (p + shentsize) = p + shentsize" "p + shentsize \<le> length data"
    using True assms(1) by (simp_all add: p_def round53_add round53_id)
  have fits: "p + (if bits = 64 then 64 else 40) \<le> length data" using p(3) assms(2) by linarith
  have "elf_section data le bits shoff shentsize i = Inr (section_at data le bits p)"
  proof (cases "bits = 64")
    case True
    with fits p(3) show ?thesis
      by (simp add: elf_section_def Let_def p(1,2) elf_reads section_at_def word_size_def add.assoc)
  next
    case False
    with fits p(3) show ?thesis
      by (simp add: elf_section_def Let_def p(1,2) elf_reads section_at_def word_size_def add.assoc)
  qed
  with True show ?thesis by (simp add: p_def)
next
  case False
  then have "length data < round53 (round53 (round53 shoff + i * shentsize) + shentsize)"
    by (rule header_end_rounded [OF assms(1)])
  with False show ?thesis by (simp add: elf_section_def Let_def)
qed

lemma traverse_total:
  "(\<And>x. x \<in> set xs \<Longrightarrow> f x = (if P x then Inr (g x) else Inl e)) \<Longrightarrow>
     traverse f xs = (if \<forall>x \<in> set xs. P x then Inr (map g xs) else Inl e)"
  by (induction xs) auto

text \<open>The image the parser accepts, and what it makes of it.\<close>

definition elf_class_bits :: "bytes \<Rightarrow> nat" where
  "elf_class_bits data = (if data ! 4 = 2 then 64 else 32)"

definition header_field :: "bytes \<Rightarrow> nat \<Rightarrow> nat \<Rightarrow> nat" where
  "header_field data off k = field data (data ! 5 = 1) off k"

text \<open>\<open>tail_field data n\<close> is the \<open>n\<close>-th of the six half words that end the header.\<close>

definition tail_field :: "bytes \<Rightarrow> nat \<Rightarrow> nat" where
  "tail_field data n = header_field data (28 + 3 * word_size (elf_class_bits data) + 2 * n) 2"

definition elf_phoff :: "bytes \<Rightarrow> nat" where
  "elf_phoff data = (let w = word_size (elf_class_bits data) in header_field data (24 + w) w)"

definition elf_shoff :: "bytes \<Rightarrow> nat" where
  "elf_shoff data = (let w = word_size (elf_class_bits data) in header_field data (24 + 2 * w) w)"

definition well_formed_elf :: "bytes \<Rightarrow> bool" where
  "well_formed_elf data \<longleftrightarrow>
     length data \<ge> 52 \<and> length data \<ge> 40 + 3 * word_size (elf_class_bits data) \<and> take 4 data = [0x7f, 0x45, 0x4c, 0x46] \<and>
     data ! 4 \<in> {1, 2} \<and> data ! 5 \<in> {1, 2} \<and>
     tail_field data 4 > 0 \<and> tail_field data 5 < tail_field data 4 \<and>
     tail_field data 3 \<ge> (if elf_class_bits data = 64 then 64 else 40) \<and>
     elf_shoff data + tail_field data 4 * tail_field data 3 \<le> length data \<and>
     (tail_field data 2 > 0 \<longrightarrow> tail_field data 1 \<ge> (if elf_class_bits data = 64 then 56 else 32) \<and>
        elf_phoff data + tail_field data 2 * tail_field data 1 \<le> length data)"

definition described_elf :: "bytes \<Rightarrow> ElfInfo" where
  "described_elf data =
     (let le = (data ! 5 = 1); bits = elf_class_bits data;
          section = (\<lambda>i. section_at data le bits (elf_shoff data + i * tail_field data 3)) in
      \<lparr>elf_bits = bits, elf_littleEndian = le, elf_machine = header_field data 18 2,
       elf_entry = header_field data 24 (word_size bits),
       elf_sections = map (\<lambda>i. (section i)\<lparr>sec_name := readCStringAt data (section (tail_field data 5)) (sec_nameOffset (section i))\<rparr>)
         [0..<tail_field data 4],
       elf_loads = List.map_filter id
         (map (\<lambda>i. program_at data le bits (elf_phoff data + i * tail_field data 1)) [0..<tail_field data 2])\<rparr>)"

section \<open>Properties\<close>

lemma all_ends:
  assumes "0 < (k :: nat)"
  shows "(\<forall>i \<in> set [0..<k]. off + i * n + n \<le> len) \<longleftrightarrow> off + k * n \<le> len"
proof
  assume "\<forall>i \<in> set [0..<k]. off + i * n + n \<le> len"
  with assms have "off + (k - 1) * n + n \<le> len" by auto
  moreover have "(k - 1) * n + n = k * n" using assms by (cases k) simp_all
  ultimately show "off + k * n \<le> len" by simp
next
  assume le: "off + k * n \<le> len"
  show "\<forall>i \<in> set [0..<k]. off + i * n + n \<le> len"
  proof
    fix i assume "i \<in> set [0..<k]"
    then have "(i + 1) * n \<le> k * n" by (intro mult_right_mono) auto
    with le show "off + i * n + n \<le> len" by simp
  qed
qed

lemma first_four:
  "4 \<le> length data \<Longrightarrow> take 4 data = [a, b, c, d] \<longleftrightarrow> data ! 0 = a \<and> data ! 1 = b \<and> data ! 2 = c \<and> data ! 3 = d"
  by (cases data; cases "tl data"; cases "tl (tl data)"; cases "tl (tl (tl data))") (auto simp: numeral_eq_Suc)

text \<open>The reads of the header, in order, with the checks that follow them.\<close>

definition elf_tail :: "bytes \<Rightarrow> nat \<Rightarrow> bool \<Rightarrow> nat \<Rightarrow> nat \<Rightarrow> nat \<Rightarrow> nat \<Rightarrow> nat \<Rightarrow> nat \<Rightarrow> nat \<Rightarrow> nat \<Rightarrow> nat \<Rightarrow> ElfParseError + ElfInfo" where
  "elf_tail data bits le machine entry phoff shoff phentsize phnum shentsize shnum shstrndx =
     (if shnum = 0 then Inl Elf_no_sections
      else if shentsize < (if bits = 64 then 64 else 40) then Inl (Elf_bad_shentsize shentsize)
      else if phnum > 0 \<and> phentsize < (if bits = 64 then 56 else 32) then Inl (Elf_bad_phentsize phentsize)
      else
        rbind (traverse (elf_program data le bits phoff phentsize) [0..<phnum]) (\<lambda>loads.
        rbind (traverse (elf_section data le bits shoff shentsize) [0..<shnum]) (\<lambda>sections.
        if shstrndx \<ge> shnum then Inl (Elf_bad_shstrndx shstrndx)
        else
          let strTab = sections ! shstrndx in
          Inr \<lparr>elf_bits = bits, elf_littleEndian = le, elf_machine = machine, elf_entry = entry,
               elf_sections = map (\<lambda>sec. sec\<lparr>sec_name := readCStringAt data strTab (sec_nameOffset sec)\<rparr>) sections,
               elf_loads = List.map_filter id loads\<rparr>)))"

lemma parseElf_tail:
  assumes "length data \<ge> 52" and "data ! 0 = 0x7f" "data ! 1 = 0x45" "data ! 2 = 0x4c" "data ! 3 = 0x46"
    and "data ! 4 = 1 \<or> data ! 4 = 2" and "data ! 5 = 1 \<or> data ! 5 = 2" and "length data \<ge> 40 + 3 * word_size (elf_class_bits data)"
  shows "parseElf data = elf_tail data (elf_class_bits data) (data ! 5 = 1) (header_field data 18 2)
    (header_field data 24 (word_size (elf_class_bits data))) (elf_phoff data) (elf_shoff data) (tail_field data 1) (tail_field data 2)
    (tail_field data 3) (tail_field data 4) (tail_field data 5)"
proof -
  let ?w = "word_size (elf_class_bits data)"
  have w: "?w = 8 \<and> elf_class_bits data = 64 \<and> data ! 4 = 2 \<or> ?w = 4 \<and> elf_class_bits data = 32 \<and> data ! 4 = 1"
    using assms(6) by (auto simp: word_size_def elf_class_bits_def)
  have guards: "\<not> length data < 52"
      "\<not> (data ! 0 \<noteq> 0x7f \<or> data ! 1 \<noteq> 0x45 \<or> data ! 2 \<noteq> 0x4c \<or> data ! 3 \<noteq> 0x46)"
      "\<not> (data ! 4 \<noteq> 2 \<and> data ! 4 \<noteq> 1)" "\<not> (data ! 5 \<noteq> 1 \<and> data ! 5 \<noteq> 2)"
    using assms by auto
  from w show ?thesis
  proof
    assume c: "?w = 8 \<and> elf_class_bits data = 64 \<and> data ! 4 = 2"
    with assms(8) have "64 \<le> length data" by linarith
    then show ?thesis
      unfolding parseElf_def elf_tail_def Let_def if_not_P [OF guards(1)] if_not_P [OF guards(2)] if_not_P [OF guards(3)] if_not_P [OF guards(4)]
      by (simp add: c word_size_def elf_reads header_field_def tail_field_def elf_phoff_def elf_shoff_def Let_def cong: if_cong)
  next
    assume c: "?w = 4 \<and> elf_class_bits data = 32 \<and> data ! 4 = 1"
    with assms(8) have "52 \<le> length data" by linarith
    then show ?thesis
      unfolding parseElf_def elf_tail_def Let_def if_not_P [OF guards(1)] if_not_P [OF guards(2)] if_not_P [OF guards(3)] if_not_P [OF guards(4)]
      by (simp add: c word_size_def elf_reads header_field_def tail_field_def elf_phoff_def elf_shoff_def Let_def cong: if_cong)
  qed
qed

lemma elf_tail_Inr:
  assumes "length data < 2 ^ 53"
  shows "elf_tail data bits le machine entry phoff shoff phentsize phnum shentsize shnum shstrndx = Inr info \<longleftrightarrow>
    0 < shnum \<and> shstrndx < shnum \<and> (if bits = 64 then 64 else 40) \<le> shentsize \<and> shoff + shnum * shentsize \<le> length data \<and>
    (0 < phnum \<longrightarrow> (if bits = 64 then 56 else 32) \<le> phentsize \<and> phoff + phnum * phentsize \<le> length data) \<and>
    info = \<lparr>elf_bits = bits, elf_littleEndian = le, elf_machine = machine, elf_entry = entry,
      elf_sections = map (\<lambda>i. (section_at data le bits (shoff + i * shentsize))\<lparr>sec_name :=
          readCStringAt data (section_at data le bits (shoff + shstrndx * shentsize))
            (sec_nameOffset (section_at data le bits (shoff + i * shentsize)))\<rparr>) [0..<shnum],
      elf_loads = List.map_filter id (map (\<lambda>i. program_at data le bits (phoff + i * phentsize)) [0..<phnum])\<rparr>"
  (is "?run = Inr info \<longleftrightarrow> ?ok \<and> _")
proof (cases "0 < shnum \<and> (if bits = 64 then 64 else 40) \<le> shentsize \<and> (0 < phnum \<longrightarrow> (if bits = 64 then 56 else 32) \<le> phentsize)")
  case False
  then show ?thesis by (auto simp: elf_tail_def split: if_splits)
next
  case True
  have secs: "traverse (elf_section data le bits shoff shentsize) [0..<shnum] =
      (if shoff + shnum * shentsize \<le> length data
       then Inr (map (\<lambda>i. section_at data le bits (shoff + i * shentsize)) [0..<shnum]) else Inl Elf_truncated_sections)"
    using traverse_total [of "[0..<shnum]" "elf_section data le bits shoff shentsize"
        "\<lambda>i. shoff + i * shentsize + shentsize \<le> length data" "\<lambda>i. section_at data le bits (shoff + i * shentsize)", OF
        elf_section_at [OF assms]] True all_ends [of shnum shoff shentsize "length data"] by simp
  have progs: "traverse (elf_program data le bits phoff phentsize) [0..<phnum] =
      (if 0 < phnum \<longrightarrow> phoff + phnum * phentsize \<le> length data
       then Inr (map (\<lambda>i. program_at data le bits (phoff + i * phentsize)) [0..<phnum]) else Inl Elf_truncated_programs)"
  proof (cases "phnum = 0")
    case False
    with True show ?thesis
      using traverse_total [of "[0..<phnum]" "elf_program data le bits phoff phentsize"
          "\<lambda>i. phoff + i * phentsize + phentsize \<le> length data" "\<lambda>i. program_at data le bits (phoff + i * phentsize)", OF
          elf_program_at [OF assms]] all_ends [of phnum phoff phentsize "length data"] by simp
  qed simp
  have nth: "map (\<lambda>i. section_at data le bits (shoff + i * shentsize)) [0..<shnum] ! shstrndx =
      section_at data le bits (shoff + shstrndx * shentsize)" if "shstrndx < shnum" using that by simp
  show ?thesis
    using True unfolding elf_tail_def secs progs by (auto simp: nth comp_def split: if_splits)
qed

lemma parseElf_header:
  assumes "parseElf data = Inr info"
  shows "length data \<ge> 52 \<and> data ! 0 = 0x7f \<and> data ! 1 = 0x45 \<and> data ! 2 = 0x4c \<and> data ! 3 = 0x46 \<and>
    (data ! 4 = 1 \<or> data ! 4 = 2) \<and> (data ! 5 = 1 \<or> data ! 5 = 2)"
  using assms unfolding parseElf_def by (auto split: if_splits)

lemma parseElf_header_fits:
  assumes "parseElf data = Inr info"
  shows "length data \<ge> 40 + 3 * word_size (elf_class_bits data)"
proof (cases "data ! 4 = 2")
  case True
  have "\<exists>le v. elf_u16 le data 62 = Inr v"
    using assms parseElf_header [OF assms] True unfolding parseElf_def Let_def
    by (auto simp: rbind_eq_Inr elf_u16_def elf_u32_def elf_u64_def elf_word_def elf_read_iff split: if_splits)
  then show ?thesis by (auto simp: elf_u16_def elf_read_iff elf_class_bits_def word_size_def True)
next
  case False
  with parseElf_header [OF assms] show ?thesis by (simp add: elf_class_bits_def word_size_def)
qed

lemma described_elf_parses:
  assumes "length data < 2 ^ 53" and "well_formed_elf data"
  shows "parseElf data = Inr (described_elf data)"
proof -
  have "elf_tail data (elf_class_bits data) (data ! 5 = 1) (header_field data 18 2)
    (header_field data 24 (word_size (elf_class_bits data))) (elf_phoff data) (elf_shoff data) (tail_field data 1) (tail_field data 2)
    (tail_field data 3) (tail_field data 4) (tail_field data 5) = Inr (described_elf data)"
    using assms(2) unfolding elf_tail_Inr [OF assms(1)] well_formed_elf_def described_elf_def Let_def by auto
  then show ?thesis
    using assms(2) parseElf_tail [of data] first_four [of data] by (auto simp: well_formed_elf_def)
qed

text \<open>
  C12. The parser accepts exactly the images whose header is well formed and whose program and section tables lie inside the file,
  and returns what the layout of the format puts there, for both classes and both byte orders: reading field after field with the
  rounding of 64-bit offsets to doubles gives the same sections, names and load segments as looking every field up at its place.
\<close>

theorem parse_elf_exact:
  assumes "length data < 2 ^ 53"
  shows "parseElf data = Inr info \<longleftrightarrow> well_formed_elf data \<and> info = described_elf data"
proof
  assume run: "parseElf data = Inr info"
  note h = parseElf_header [OF run] and fits = parseElf_header_fits [OF run]
  have "elf_tail data (elf_class_bits data) (data ! 5 = 1) (header_field data 18 2)
    (header_field data 24 (word_size (elf_class_bits data))) (elf_phoff data) (elf_shoff data) (tail_field data 1) (tail_field data 2)
    (tail_field data 3) (tail_field data 4) (tail_field data 5) = Inr info"
    using run parseElf_tail [of data] h fits by auto
  then show "well_formed_elf data \<and> info = described_elf data"
    using h fits first_four [of data] unfolding elf_tail_Inr [OF assms] well_formed_elf_def described_elf_def Let_def by auto
qed (use described_elf_parses [OF assms] in blast)

section \<open>An image\<close>

text \<open>An ELF32 little-endian image with a name table and a \<^verbatim>\<open>.noload\<close> section that holds \<^verbatim>\<open>hi\<close> and
  \<^verbatim>\<open>v=%d\<close>.\<close>

definition ex_elf :: bytes where
  "ex_elf = [
     127, 69, 76, 70, 1, 1, 1, 0, 0, 0, 0, 0, 0, 0, 0, 0, 2, 0, 94, 0, 1, 0, 0, 0, 0, 1, 0, 0, 0, 0, 0, 0, 69, 0,
     0, 0, 0, 0, 0, 0, 52, 0, 0, 0, 0, 0, 40, 0, 2, 0, 0, 0, 0, 46, 110, 111, 108, 111, 97, 100, 0, 104, 105, 0,
     118, 61, 37, 100, 0, 0, 0, 0, 0, 3, 0, 0, 0, 0, 0, 0, 0, 0, 0, 0, 0, 52, 0, 0, 0, 9, 0, 0, 0, 0, 0, 0, 0, 0,
     0, 0, 0, 1, 0, 0, 0, 0, 0, 0, 0, 1, 0, 0, 0, 1, 0, 0, 0, 2, 0, 0, 0, 0, 1, 0, 0, 61, 0, 0, 0, 8, 0, 0, 0, 0,
     0, 0, 0, 0, 0, 0, 0, 1, 0, 0, 0, 0, 0, 0, 0]"

definition ex_noload :: ElfSection where
  "ex_noload = \<lparr>sec_name = js ''.noload'', sec_nameOffset = 1, sec_type = 1, sec_flags = 2, sec_addr = 256, sec_offset = 61,
     sec_size = 8\<rparr>"

definition ex_elf_info :: ElfInfo where
  "ex_elf_info = \<lparr>elf_bits = 32, elf_littleEndian = True, elf_machine = 94, elf_entry = 256,
     elf_sections = [\<lparr>sec_name = [], sec_nameOffset = 0, sec_type = 3, sec_flags = 0, sec_addr = 0, sec_offset = 52, sec_size = 9\<rparr>,
       ex_noload], elf_loads = []\<rparr>"

lemma ex_elf_header:
  "length ex_elf = 149" "ex_elf ! 4 = 1" "ex_elf ! 5 = 1" "take 4 ex_elf = [0x7f, 0x45, 0x4c, 0x46]"
  "field ex_elf True 18 2 = 94" "field ex_elf True 24 4 = 256" "field ex_elf True 28 4 = 0" "field ex_elf True 32 4 = 69"
  "field ex_elf True 42 2 = 0" "field ex_elf True 44 2 = 0" "field ex_elf True 46 2 = 40" "field ex_elf True 48 2 = 2" "field ex_elf True 50 2 = 0"
  by (simp_all add: ex_elf_def field_def bytes_value_def window_def)

lemma ex_elf_sections:
  "field ex_elf True 69 4 = 0" "field ex_elf True 73 4 = 3" "field ex_elf True 77 4 = 0" "field ex_elf True 81 4 = 0"
  "field ex_elf True 85 4 = 52" "field ex_elf True 89 4 = 9"
  "field ex_elf True 109 4 = 1" "field ex_elf True 113 4 = 1" "field ex_elf True 117 4 = 2" "field ex_elf True 121 4 = 256"
  "field ex_elf True 125 4 = 61" "field ex_elf True 129 4 = 8"
  by (simp_all add: ex_elf_def field_def bytes_value_def window_def)

lemma ex_elf_names:
  "ex_elf ! 52 = 0" "find_zero ex_elf 61 53 = 60" "window ex_elf 53 7 = [46, 110, 111, 108, 111, 97, 100]"
  by (simp_all add: ex_elf_def window_def find_zero.simps)

lemma ex_elf_well_formed: "well_formed_elf ex_elf \<and> described_elf ex_elf = ex_elf_info"
proof -
  have cls: "elf_class_bits ex_elf = 32" by (simp add: elf_class_bits_def ex_elf_header)
  let ?t = "\<lparr>sec_name = [], sec_nameOffset = 0, sec_type = 3, sec_flags = 0, sec_addr = 0, sec_offset = 52, sec_size = 9\<rparr>"
  have names: "readCStringAt ex_elf ?t 0 = []" "readCStringAt ex_elf ?t (Suc 0) = js ''.noload''"
    by (simp_all add: readCStringAt_def ex_elf_header round53_id Let_def SHT_NOBITS_def
        find_zero.simps [of _ _ 52] ex_elf_names utf8_decode_ascii js_simps utf8_decode_def)
  show ?thesis
    by (simp add: well_formed_elf_def described_elf_def cls tail_field_def header_field_def elf_shoff_def elf_phoff_def word_size_def
        ex_elf_header ex_elf_info_def Let_def upt_rec section_at_def ex_elf_sections ex_noload_def names)
qed

lemma parse_elf_exact_witness: "parseElf ex_elf = Inr ex_elf_info"
proof -
  have "length ex_elf < 2 ^ 53" by (simp add: ex_elf_header)
  from parse_elf_exact [OF this, of ex_elf_info] ex_elf_well_formed show ?thesis by simp
qed

end
