(* ===== verification/ElfStrings.thy ===== *)
theory ElfStrings
  imports ElfParser
begin

text \<open>
  Extraction of the NUL-terminated strings of a section and lookup of the string at a virtual address
  (\<^verbatim>\<open>extractStrings\<close>, \<^verbatim>\<open>isLikelyText\<close>, \<^verbatim>\<open>readStringAtVaddr\<close> and
  \<^verbatim>\<open>readBounded\<close> of \<^verbatim>\<open>core/src/elf/parser.ts\<close>), a reference description of the former by the
  runs of non-zero bytes, and the agreement of the two.
\<close>

section \<open>Operations\<close>

record ElfString =
  str_addr :: nat
  str_value :: jsstring

definition isLikelyText :: "jsstring \<Rightarrow> bool" where
  "isLikelyText s = list_all (\<lambda>code. \<not> (code < 0x20 \<and> code \<noteq> 0x09 \<and> code \<noteq> 0x0a \<and> code \<noteq> 0x0d) \<and> code \<noteq> 0x7f) s"

function skip_zeros :: "bytes \<Rightarrow> nat \<Rightarrow> nat \<Rightarrow> nat" where
  "skip_zeros data limit i = (if i < limit \<and> data ! i = 0 then skip_zeros data limit (i + 1) else i)"
  by pat_completeness auto
termination
  by (relation "measure (\<lambda>(_, limit, i). limit - i)") auto

declare skip_zeros.simps [simp del]

lemma find_zero_ge: "i \<le> find_zero data limit i"
  by (induction data limit i rule: find_zero.induct) (subst find_zero.simps, force)

lemma skip_zeros_ge: "i \<le> skip_zeros data limit i"
  by (induction data limit i rule: skip_zeros.induct) (subst skip_zeros.simps, force)

lemma find_zero_gt: "i < limit \<Longrightarrow> data ! i \<noteq> 0 \<Longrightarrow> i < find_zero data limit i"
  using find_zero_ge [of "i + 1" data limit] by (subst find_zero.simps) simp

lemma skip_zeros_stop: "skip_zeros data limit i < limit \<Longrightarrow> data ! skip_zeros data limit i \<noteq> 0"
  by (induction data limit i rule: skip_zeros.induct) (metis skip_zeros.simps)

text \<open>The outer loop of \<^verbatim>\<open>extractStrings\<close>, from position \<open>i\<close>.\<close>

function extract_from :: "bytes \<Rightarrow> nat \<Rightarrow> nat \<Rightarrow> nat \<Rightarrow> nat \<Rightarrow> ElfString list" where
  "extract_from data addr start limit i0 =
     (if i0 < limit then
        let strStart = skip_zeros data limit i0 in
        if strStart \<ge> limit then []
        else
          let i = find_zero data limit strStart in
          if i \<ge> limit \<and> data ! (limit - 1) \<noteq> 0 \<and> limit \<noteq> length data then []
          else
            let value = utf8_decode (window data strStart (i - strStart)); rest = extract_from data addr start limit i in
            if length value > 0 \<and> isLikelyText value
            then \<lparr>str_addr = round53 (round53 addr + (strStart - start)), str_value = value\<rparr> # rest
            else rest
      else [])"
  by pat_completeness auto
termination
proof (relation "measure (\<lambda>(_, _, _, limit, i). limit - i)", goal_cases)
  case (2 data addr start limit i0 s i v)
  have "i0 \<le> s" "s < i" using 2 skip_zeros_ge [of i0 data limit] find_zero_gt [of s limit data] skip_zeros_stop [of data limit i0]
    by simp_all
  with 2 show ?case by simp
qed simp

declare extract_from.simps [simp del]

definition extractStrings :: "ElfInfo \<Rightarrow> bytes \<Rightarrow> ElfSection \<Rightarrow> ElfString list" where
  "extractStrings elf data sec =
     (if sec_type sec = SHT_NOBITS then []
      else
        let start = round53 (sec_offset sec); size = round53 (sec_size sec); limit = min (round53 (start + size)) (length data) in
        extract_from data (sec_addr sec) start limit start)"

text \<open>Reading outside the array gives \<^verbatim>\<open>undefined\<close>, which differs from zero.\<close>

definition byte_is_zero :: "bytes \<Rightarrow> int \<Rightarrow> bool" where
  "byte_is_zero data i \<longleftrightarrow> 0 \<le> i \<and> i < int (length data) \<and> data ! nat i = 0"

definition readBounded :: "bytes \<Rightarrow> nat \<Rightarrow> nat \<Rightarrow> nat \<Rightarrow> jsstring option" where
  "readBounded data start limit maxLen =
     (let off = round53 start; lim = min (min (round53 limit) (length data)) (round53 (off + maxLen)) in
      if off \<ge> length data then None
      else
        let end = find_zero data lim off in
        if end \<ge> lim \<and> \<not> byte_is_zero data (int lim - 1) then None
        else
          let value = utf8_decode (window data off (end - off)) in
          if isLikelyText value then Some value else None)"

definition readStringAtVaddr :: "ElfInfo \<Rightarrow> bytes \<Rightarrow> nat \<Rightarrow> nat \<Rightarrow> jsstring option" where
  "readStringAtVaddr elf data vaddr maxLen =
     (case find (\<lambda>load. vaddr \<ge> load_vaddr load \<and> vaddr < load_vaddr load + load_filesz load) (elf_loads elf) of
        Some load \<Rightarrow>
          readBounded data (load_offset load + (vaddr - load_vaddr load)) (load_offset load + load_filesz load) maxLen
      | None \<Rightarrow>
          (case find (\<lambda>sec. \<not> (sec_type sec = SHT_NOBITS \<or> sec_size sec = 0) \<and> bit (sec_flags sec) 1 \<and>
                       vaddr \<ge> sec_addr sec \<and> vaddr < sec_addr sec + sec_size sec) (elf_sections elf) of
             Some sec \<Rightarrow> readBounded data (sec_offset sec + (vaddr - sec_addr sec)) (sec_offset sec + sec_size sec) maxLen
           | None \<Rightarrow> None))"

section \<open>The loops\<close>

lemma find_zero_props:
  "(\<forall>k. i \<le> k \<and> k < find_zero data limit i \<longrightarrow> data ! k \<noteq> 0) \<and>
   (find_zero data limit i < limit \<longrightarrow> data ! find_zero data limit i = 0) \<and> (i \<le> limit \<longrightarrow> find_zero data limit i \<le> limit)"
proof (induction data limit i rule: find_zero.induct)
  case (1 data limit i)
  show ?case
  proof (cases "i < limit \<and> data ! i \<noteq> 0")
    case True
    have "data ! k \<noteq> 0" if "i \<le> k" "k < find_zero data limit (i + 1)" for k
      using 1 [OF True] True that by (cases "k = i") simp_all
    with 1 [OF True] True show ?thesis by (subst (1 2 3 4) find_zero.simps) simp
  next
    case False
    then show ?thesis by (subst (1 2 3 4) find_zero.simps) auto
  qed
qed

lemma find_zero_eq:
  assumes "i \<le> e" and "e \<le> limit" and "\<And>k. i \<le> k \<Longrightarrow> k < e \<Longrightarrow> data ! k \<noteq> 0" and "e < limit \<Longrightarrow> data ! e = 0"
  shows "find_zero data limit i = e"
proof (rule ccontr)
  let ?z = "find_zero data limit i"
  assume "?z \<noteq> e"
  moreover have "\<not> ?z < e" using assms(2) assms(3) [of ?z] find_zero_props [of i data limit] find_zero_ge [of i data limit] by auto
  moreover have "\<not> e < ?z" using assms(1,2,4) find_zero_props [of i data limit] by fastforce
  ultimately show False by simp
qed

lemma skip_zeros_props:
  "\<forall>k. i \<le> k \<and> k < skip_zeros data limit i \<longrightarrow> data ! k = 0"
proof (induction data limit i rule: skip_zeros.induct)
  case (1 data limit i)
  show ?case
  proof (cases "i < limit \<and> data ! i = 0")
    case True
    have "data ! k = 0" if "i \<le> k" "k < skip_zeros data limit (i + 1)" for k
      using 1 [OF True] True that by (cases "k = i") simp_all
    with True show ?thesis by (subst skip_zeros.simps) simp
  next
    case False
    then show ?thesis by (subst skip_zeros.simps) auto
  qed
qed

section \<open>Reference description\<close>

text \<open>
  A run starts at a non-zero byte that opens the region or follows a NUL, and extends to the next NUL or the end of the region. A
  run that the end of the region cuts off counts only if the file ends there.
\<close>

definition run_start :: "bytes \<Rightarrow> nat \<Rightarrow> nat \<Rightarrow> bool" where
  "run_start data start s \<longleftrightarrow> data ! s \<noteq> 0 \<and> (s = start \<or> data ! (s - 1) = 0)"

definition run_bytes :: "bytes \<Rightarrow> nat \<Rightarrow> nat \<Rightarrow> bytes" where
  "run_bytes data limit s = takeWhile (\<lambda>b. b \<noteq> 0) (window data s (limit - s))"

definition run_string :: "bytes \<Rightarrow> nat \<Rightarrow> nat \<Rightarrow> nat \<Rightarrow> nat \<Rightarrow> ElfString option" where
  "run_string data addr start limit s =
     (let value = utf8_decode (run_bytes data limit s) in
      if s + length (run_bytes data limit s) = limit \<and> limit \<noteq> length data \<or> value = [] \<or> \<not> isLikelyText value then None
      else Some \<lparr>str_addr = round53 (round53 addr + (s - start)), str_value = value\<rparr>)"

definition strings_of_runs :: "bytes \<Rightarrow> nat \<Rightarrow> nat \<Rightarrow> nat \<Rightarrow> ElfString list" where
  "strings_of_runs data addr start limit =
     List.map_filter (run_string data addr start limit) (filter (run_start data start) [start..<limit])"

lemma run_bytes_window:
  assumes "s \<le> limit" and "limit \<le> length data"
  shows "run_bytes data limit s = window data s (find_zero data limit s - s)"
proof -
  let ?e = "find_zero data limit s"
  have e: "s \<le> ?e" "?e \<le> limit" using find_zero_ge find_zero_props [of s data limit] assms(1) by simp_all
  have split: "window data s (limit - s) = window data s (?e - s) @ window data ?e (limit - ?e)"
    using window_append [of s "?e - s" "limit - ?e" data] e assms by simp
  have "takeWhile (\<lambda>b. b \<noteq> 0) (window data s (?e - s)) = window data s (?e - s)"
    unfolding takeWhile_eq_all_conv
    using find_zero_props [of s data limit] e assms by (auto simp: in_set_conv_nth window_nth)
  moreover have "takeWhile (\<lambda>b. b \<noteq> 0) (window data ?e (limit - ?e)) = []"
  proof (cases "?e < limit")
    case True
    then have "window data ?e (limit - ?e) = data ! ?e # window data (?e + 1) (limit - ?e - 1)"
      using window_append [of ?e 1 "limit - ?e - 1" data] window_1 [of ?e data] e assms by (simp add: Suc_diff_Suc)
    then show ?thesis using True find_zero_props [of s data limit] by simp
  qed simp
  ultimately show ?thesis
    using find_zero_props [of s data limit]
    by (simp add: run_bytes_def split takeWhile_append takeWhile_eq_all_conv)
qed

lemma run_string_window:
  assumes "s < limit" and "limit \<le> length data"
  shows "run_string data addr start limit s =
    (let i = find_zero data limit s; value = utf8_decode (window data s (i - s)) in
     if i = limit \<and> limit \<noteq> length data \<or> value = [] \<or> \<not> isLikelyText value then None
     else Some \<lparr>str_addr = round53 (round53 addr + (s - start)), str_value = value\<rparr>)"
proof -
  have "s \<le> find_zero data limit s" "find_zero data limit s \<le> limit"
    using find_zero_ge find_zero_props [of s data limit] assms(1) by simp_all
  then show ?thesis
    using assms by (simp add: run_string_def Let_def run_bytes_window)
qed

lemma filter_run_start_skip:
  assumes "i \<le> s" and "s \<le> limit" and "\<And>k. i \<le> k \<Longrightarrow> k < s \<Longrightarrow> \<not> P k"
  shows "filter P [i..<limit] = filter P [s..<limit]"
proof -
  have "[i..<limit] = [i..<s] @ [s..<limit]" using assms(1,2) by (metis le_add_diff_inverse upt_add_eq_append)
  then show ?thesis using assms(3) by (simp add: filter_empty_conv)
qed

lemma extract_from_runs:
  "limit \<le> length data \<Longrightarrow> start \<le> i0 \<Longrightarrow> i0 = start \<or> limit \<le> i0 \<or> data ! i0 = 0 \<Longrightarrow>
     extract_from data addr start limit i0 =
       List.map_filter (run_string data addr start limit) (filter (run_start data start) [i0..<limit])"
proof (induction data addr start limit i0 rule: extract_from.induct)
  case (1 data addr start limit i0)
  let ?s = "skip_zeros data limit i0" and ?f = "run_string data addr start limit" and ?P = "run_start data start"
  show ?case
  proof (cases "i0 < limit \<and> ?s < limit")
    case False
    have "filter ?P [i0..<limit] = []"
      using False skip_zeros_props [of i0 data limit] skip_zeros_ge [of i0 data limit]
      by (force simp: filter_empty_conv run_start_def)
    with False show ?thesis by (subst extract_from.simps) (auto simp: Let_def List.map_filter_simps)
  next
    case True
    let ?i = "find_zero data limit ?s"
    have s: "i0 \<le> ?s" "data ! ?s \<noteq> 0" using True skip_zeros_ge skip_zeros_stop by blast+
    note z = skip_zeros_props [of i0 data limit] and e = find_zero_props [of ?s data limit]
    have i: "?s < ?i" "?i \<le> limit" using find_zero_gt [of ?s limit data] s(2) True e by simp_all
    have "?s = start \<or> data ! (?s - 1) = 0"
    proof (cases "?s = i0")
      case True
      then show ?thesis using 1(3,4) \<open>i0 < limit \<and> ?s < limit\<close> s(2) by auto
    next
      case False
      then have "i0 \<le> ?s - 1" "?s - 1 < ?s" using s(1) by linarith+
      then show ?thesis using z by blast
    qed
    then have run: "?P ?s" using s(2) by (simp add: run_start_def)
    have "filter ?P [i0..<limit] = filter ?P [?s..<limit]"
      by (rule filter_run_start_skip) (use s True z in \<open>auto simp: run_start_def\<close>)
    also have "\<dots> = ?s # filter ?P [Suc ?s..<limit]" using True run by (simp add: upt_conv_Cons)
    also have "filter ?P [Suc ?s..<limit] = filter ?P [?i..<limit]"
    proof (rule filter_run_start_skip)
      fix k assume k: "Suc ?s \<le> k" "k < ?i"
      then have "?s \<le> k - 1" "k - 1 < ?i" "k \<noteq> start" using 1(3) s(1) by linarith+
      moreover have "data ! (k - 1) \<noteq> 0" using e calculation(1,2) by blast
      ultimately show "\<not> ?P k" by (simp add: run_start_def)
    qed (use i in auto)
    finally have runs: "filter ?P [i0..<limit] = ?s # filter ?P [?i..<limit]" .
    have cut: "?i \<ge> limit \<and> data ! (limit - 1) \<noteq> 0 \<and> limit \<noteq> length data \<longleftrightarrow> ?i = limit \<and> limit \<noteq> length data"
    proof -
      have "data ! (limit - 1) \<noteq> 0" if "?i = limit" using e that True i by auto
      with i(2) show ?thesis by auto
    qed
    show ?thesis
    proof (cases "?i = limit \<and> limit \<noteq> length data")
      case cutoff: True
      have "extract_from data addr start limit i0 = []"
        using True cutoff cut by (subst extract_from.simps) (simp add: Let_def)
      then show ?thesis
        using cutoff True 1(2) by (simp add: runs List.map_filter_simps run_string_window Let_def)
    next
      case False
      have "?i = start \<or> limit \<le> ?i \<or> data ! ?i = 0" using e by linarith
      then have rest: "extract_from data addr start limit ?i = List.map_filter ?f (filter ?P [?i..<limit])"
        using 1(1) [OF _ refl _ refl _ refl] 1(2,3) True i s(1) False cut by auto
      have "extract_from data addr start limit i0 =
        (let value = utf8_decode (window data ?s (?i - ?s)) in
         if length value > 0 \<and> isLikelyText value
         then \<lparr>str_addr = round53 (round53 addr + (?s - start)), str_value = value\<rparr> # extract_from data addr start limit ?i
         else extract_from data addr start limit ?i)"
      proof -
        have c: "i0 < limit" "\<not> limit \<le> ?s" "\<not> (?i \<ge> limit \<and> data ! (limit - 1) \<noteq> 0 \<and> limit \<noteq> length data)"
          using True False cut by auto
        show ?thesis
          by (subst extract_from.simps) (simp only: Let_def if_P [OF c(1)] if_not_P [OF c(2)] if_not_P [OF c(3)])
      qed
      then show ?thesis
        using True 1(2) False by (auto simp add: runs rest List.map_filter_simps run_string_window Let_def)
    qed
  qed
qed

section \<open>Properties\<close>

lemma rounded_limit:
  assumes "n < 2 ^ 53"
  shows "min (round53 (round53 off + round53 sz)) n = min (off + sz) n"
proof (cases "off + sz < 2 ^ 53")
  case True
  then show ?thesis by (simp add: round53_id)
next
  case False
  have "2 ^ 53 \<le> round53 off + round53 sz"
    using False round53_big [of off] round53_big [of sz] round53_id [of off] round53_id [of sz]
    by (cases "off < 2 ^ 53"; cases "sz < 2 ^ 53") auto
  then have "n \<le> round53 (round53 off + round53 sz)" using round53_big [of "round53 off + round53 sz"] assms by linarith
  moreover have "n \<le> off + sz" using False assms by linarith
  ultimately show ?thesis by simp
qed

text \<open>
  C14. Extraction finds every string: the loops of \<^verbatim>\<open>extractStrings\<close> return, in order of position, one entry per
  maximal run of non-zero bytes of the section that decodes to plausible text, with the address of its first byte; a run the end of
  the section cuts off is returned only at the end of the file, and positions outside the file are never looked at.
\<close>

theorem extract_strings_exact:
  assumes "length data < 2 ^ 53"
  shows "extractStrings elf data sec =
    (if sec_type sec = SHT_NOBITS then []
     else strings_of_runs data (sec_addr sec) (sec_offset sec) (min (sec_offset sec + sec_size sec) (length data)))"
proof (cases "sec_offset sec < length data")
  case True
  then have "round53 (sec_offset sec) = sec_offset sec" using assms by (simp add: round53_id)
  then show ?thesis
    using rounded_limit [OF assms, of "sec_offset sec" "sec_size sec"]
      extract_from_runs [of "min (sec_offset sec + sec_size sec) (length data)" data "sec_offset sec" "sec_offset sec" "sec_addr sec"]
    by (simp add: extractStrings_def strings_of_runs_def Let_def)
next
  case False
  then have "length data \<le> round53 (sec_offset sec)"
    using assms round53_less [of "length data" "sec_offset sec"] by (simp add: not_less)
  with False show ?thesis
    by (simp add: extractStrings_def strings_of_runs_def Let_def extract_from.simps List.map_filter_simps)
qed

lemma extracted_run:
  assumes "length data < 2 ^ 53" and "x \<in> set (extractStrings elf data sec)" and "sec_offset sec + sec_size sec \<le> length data"
    and "sec_addr sec + sec_size sec < 2 ^ 53"
  obtains s where "sec_offset sec \<le> s" "s < sec_offset sec + sec_size sec" "sec_type sec \<noteq> SHT_NOBITS"
    "str_addr x = sec_addr sec + (s - sec_offset sec)" "isLikelyText (str_value x)"
    "str_value x = utf8_decode (window data s (find_zero data (sec_offset sec + sec_size sec) s - s))"
proof -
  let ?lim = "sec_offset sec + sec_size sec"
  have "x \<in> set (extract_from data (sec_addr sec) (sec_offset sec) ?lim (sec_offset sec))" "sec_type sec \<noteq> SHT_NOBITS"
    using assms rounded_limit [OF assms(1), of "sec_offset sec" "sec_size sec"]
    by (auto simp: extractStrings_def Let_def round53_id split: if_splits)
  then obtain s where s: "s \<in> set [sec_offset sec..<?lim]" "run_string data (sec_addr sec) (sec_offset sec) ?lim s = Some x"
    using extract_from_runs [OF assms(3), of "sec_offset sec" "sec_offset sec" "sec_addr sec"]
    by (auto simp: map_filter_def)
  have "round53 (round53 (sec_addr sec) + (s - sec_offset sec)) = sec_addr sec + (s - sec_offset sec)"
    using s(1) assms(4) by (intro round53_add) auto
  then show thesis
    using s \<open>sec_type sec \<noteq> SHT_NOBITS\<close> assms(3)
    by (intro that [of s]) (auto simp: run_string_window Let_def split: if_splits)
qed

text \<open>
  What is extracted is what a lookup finds: if no load segment covers the address of an extracted string, its section is the
  first allocated one that does, the section ends in a NUL and the string is shorter than \<open>maxLen\<close> bytes, then
  \<^verbatim>\<open>readStringAtVaddr\<close> returns that string.
\<close>

theorem extracted_string_found:
  assumes small: "length data < 2 ^ 53" and x: "x \<in> set (extractStrings elf data sec)"
    and inside: "0 < sec_size sec" "sec_offset sec + sec_size sec \<le> length data" "sec_addr sec + sec_size sec < 2 ^ 53"
    and last: "data ! (sec_offset sec + sec_size sec - 1) = 0"
    and no_load: "\<forall>load \<in> set (elf_loads elf). \<not> (load_vaddr load \<le> str_addr x \<and> str_addr x < load_vaddr load + load_filesz load)"
    and first: "elf_sections elf = before @ sec # after"
      "\<forall>q \<in> set before. sec_type q = SHT_NOBITS \<or> \<not> bit (sec_flags q) 1 \<or>
         \<not> (sec_addr q \<le> str_addr x \<and> str_addr x < sec_addr q + sec_size q)"
    and alloc: "bit (sec_flags sec) 1"
    and short: "length (run_bytes data (sec_offset sec + sec_size sec) (sec_offset sec + (str_addr x - sec_addr sec))) < maxLen"
  shows "readStringAtVaddr elf data (str_addr x) maxLen = Some (str_value x)"
proof -
  let ?lim = "sec_offset sec + sec_size sec"
  obtain s where s: "sec_offset sec \<le> s" "s < ?lim" "sec_type sec \<noteq> SHT_NOBITS"
    and a: "str_addr x = sec_addr sec + (s - sec_offset sec)" and plausible: "isLikelyText (str_value x)"
    and v: "str_value x = utf8_decode (window data s (find_zero data ?lim s - s))"
    by (rule extracted_run [OF small x inside(2,3)])
  define e where "e = find_zero data ?lim s"
  note z = find_zero_props [of s data ?lim, folded e_def]
  have "e \<noteq> ?lim"
  proof
    assume "e = ?lim"
    then have "data ! (?lim - 1) \<noteq> 0" using z s(2) by (auto dest!: spec [of _ "?lim - 1"])
    with last show False by simp
  qed
  then have e: "s \<le> e" "e < ?lim" "data ! e = 0" using z s(2) find_zero_ge [of s data ?lim] by (auto simp: e_def)
  have "length (run_bytes data ?lim s) = e - s"
    using run_bytes_window [of s ?lim data] s(2) inside(2) e by (simp add: e_def)
  then have "e < s + maxLen" using short s(1) e(1) by (simp add: a)
  define lim where "lim = min (min (round53 ?lim) (length data)) (round53 (s + maxLen))"
  have "e < round53 (s + maxLen)"
    using \<open>e < s + maxLen\<close> round53_le [of e "s + maxLen"] e(2) inside(2) small by linarith
  moreover have "round53 ?lim = ?lim" using inside(2) small by (intro round53_id) linarith
  ultimately have lim: "e < lim" "lim \<le> ?lim" using e(2) inside(2) by (auto simp: lim_def)
  have "find_zero data lim s = e"
    by (rule find_zero_eq) (use e lim z in auto)
  moreover have "round53 s = s" using s(2) inside(2) small by (intro round53_id) linarith
  ultimately have read: "readBounded data s ?lim maxLen = Some (str_value x)"
    using s(2) inside(2) lim plausible v e_def by (simp add: readBounded_def Let_def lim_def [symmetric])
  have no: "find (\<lambda>load. str_addr x \<ge> load_vaddr load \<and> str_addr x < load_vaddr load + load_filesz load) (elf_loads elf) = None"
    using no_load by (auto simp: find_None_iff)
  have yes: "find (\<lambda>q. \<not> (sec_type q = SHT_NOBITS \<or> sec_size q = 0) \<and> bit (sec_flags q) 1 \<and> str_addr x \<ge> sec_addr q \<and>
      str_addr x < sec_addr q + sec_size q) (before @ sec # after) = Some sec"
    using first(2)
  proof (induction before)
    case Nil
    have "sec_addr sec \<le> str_addr x \<and> str_addr x < sec_addr sec + sec_size sec" using s(1,2) a by linarith
    then show ?case using s(3) inside(1) alloc by simp
  qed auto
  have at: "sec_offset sec + (str_addr x - sec_addr sec) = s" using s(1) by (simp add: a)
  show ?thesis unfolding readStringAtVaddr_def no first(1) yes by (simp add: at read)
qed

text \<open>The strings of the example image.\<close>

lemma ex_noload_runs:
  "skip_zeros ex_elf 69 61 = 61" "find_zero ex_elf 69 61 = 63" "skip_zeros ex_elf 69 63 = 64" "find_zero ex_elf 69 64 = 68"
  "skip_zeros ex_elf 69 68 = 69" "window ex_elf 61 2 = [104, 105]" "window ex_elf 64 4 = [118, 61, 37, 100]" "ex_elf ! 68 = 0"
  by (simp_all add: ex_elf_def window_def find_zero.simps skip_zeros.simps)

lemma ex_noload_strings:
  "extractStrings elf ex_elf ex_noload = [\<lparr>str_addr = 256, str_value = js ''hi''\<rparr>, \<lparr>str_addr = 259, str_value = js ''v=%d''\<rparr>]"
  by (simp add: extractStrings_def ex_noload_def SHT_NOBITS_def round53_id Let_def ex_elf_header extract_from.simps ex_noload_runs
      utf8_decode_def js_simps isLikelyText_def)

lemma extract_strings_exact_witness:
  "strings_of_runs ex_elf 256 61 69 = [\<lparr>str_addr = 256, str_value = js ''hi''\<rparr>, \<lparr>str_addr = 259, str_value = js ''v=%d''\<rparr>]"
proof -
  have "length ex_elf < 2 ^ 53" by (simp add: ex_elf_header)
  from extract_strings_exact [OF this, of ex_elf_info ex_noload] show ?thesis
    by (simp add: ex_noload_strings) (simp add: ex_noload_def SHT_NOBITS_def ex_elf_header)
qed

lemma extracted_string_found_witness:
  "readStringAtVaddr ex_elf_info ex_elf 259 4096 = Some (js ''v=%d'')"
proof -
  let ?x = "\<lparr>str_addr = 259, str_value = js ''v=%d''\<rparr>"
  have run: "run_bytes ex_elf 69 64 = window ex_elf 64 4"
    using run_bytes_window [of 64 69 ex_elf] by (simp add: ex_elf_header ex_noload_runs)
  have "readStringAtVaddr ex_elf_info ex_elf (str_addr ?x) 4096 = Some (str_value ?x)"
    by (rule extracted_string_found [of ex_elf ?x ex_elf_info ex_noload "[hd (elf_sections ex_elf_info)]" "[]"])
      (simp_all add: ex_elf_header ex_noload_strings, simp_all add: ex_noload_def ex_elf_info_def ex_noload_runs run bit_0)
  then show ?thesis by simp
qed

end
