(* ===== verification/JsNumbers.thy ===== *)
theory JsNumbers
  imports Doubles
begin

text \<open>
  The number conversions of the JavaScript library that the log renderer uses: \<^verbatim>\<open>toString\<close> of bigints and large
  doubles, \<^verbatim>\<open>toFixed\<close>, \<^verbatim>\<open>toExponential\<close>, \<^verbatim>\<open>toPrecision\<close>,
  \<^verbatim>\<open>Number(text)\<close> and the reading of a double from its bits. They follow the algorithms of ECMA-262 on exact
  rationals (\<^verbatim>\<open>CommandCodec\<close>, \<^verbatim>\<open>Doubles\<close>): the standard defines each text by the integer closest to
  a scaled value, ties upwards. Minus zero is not told apart from zero; no conversion used here does.
\<close>

section \<open>Integers\<close>

definition digit_char :: "nat \<Rightarrow> nat" where
  "digit_char d = (if d < 10 then 48 + d else 87 + d)"

definition digit_val :: "nat \<Rightarrow> nat" where
  "digit_val c = (if c < 58 then c - 48 else c - 87)"

function radix :: "nat \<Rightarrow> nat \<Rightarrow> jsstring" where
  "radix b n = (if n < b \<or> b < 2 then [digit_char n] else radix b (n div b) @ [digit_char (n mod b)])"
  by pat_completeness auto
termination
  by (relation "measure snd") auto

declare radix.simps [simp del]

definition int_text :: "nat \<Rightarrow> int \<Rightarrow> jsstring" where
  "int_text b i = (if i < 0 then 45 # radix b (nat (- i)) else radix b (nat i))"

definition upper :: "jsstring \<Rightarrow> jsstring" where
  "upper s = map (\<lambda>c. if 97 \<le> c \<and> c \<le> 122 then c - 32 else c) s"

definition zeros :: "nat \<Rightarrow> jsstring" where
  "zeros n = replicate n 48"

section \<open>Doubles from bits\<close>

definition doubleFromBits :: "nat \<Rightarrow> jsnum" where
  "doubleFromBits bits =
     (let neg = odd (bits div 2 ^ 63); e = bits div 2 ^ 52 mod 2048; m = bits mod 2 ^ 52;
          signed = (\<lambda>x :: rat. if neg then - x else x) in
      if e = 2047 then (if m = 0 then (if neg then NegInf else PosInf) else NaN)
      else if e = 0 then Fin (signed (of_nat m / 2 ^ 1074))
      else Fin (signed (of_nat (2 ^ 52 + m) * 2 powi (int e - 1075))))"

section \<open>Decimal texts\<close>

text \<open>The decimal exponent of a positive number: \<open>10 powi e \<le> x < 10 powi (e + 1)\<close>.\<close>

definition order10 :: "rat \<Rightarrow> int" where
  "order10 x =
     (if x \<ge> 1 then int (length (radix 10 (nat \<lfloor>x\<rfloor>))) - 1 else - int (length (radix 10 (nat (\<lceil>1 / x\<rceil> - 1)))))"

text \<open>The integer closest to \<open>y\<close>, the larger one of two.\<close>

definition round_up :: "rat \<Rightarrow> nat" where
  "round_up y = nat \<lfloor>y + 1 / 2\<rfloor>"

text \<open>The significand of \<open>p\<close> digits closest to \<open>x\<close>, with its exponent.\<close>

definition significand :: "nat \<Rightarrow> rat \<Rightarrow> nat \<times> int" where
  "significand p x =
     (let e = order10 x; n = round_up (x / 10 powi (e - int p + 1)) in
      if n = 10 ^ p then (10 ^ (p - 1), e + 1) else (n, e))"

definition exponent_text :: "int \<Rightarrow> jsstring" where
  "exponent_text e = 101 # (if e \<ge> 0 then 43 else 45) # radix 10 (nat \<bar>e\<bar>)"

definition with_point :: "nat \<Rightarrow> jsstring \<Rightarrow> jsstring" where
  "with_point k m = take k m @ [46] @ drop k m"

text \<open>The shortest decimal that rounds to \<open>x\<close>, as a significand and the power of its last digit; 17 digits are enough for
  every double.\<close>

definition shortest_at :: "rat \<Rightarrow> nat \<Rightarrow> (nat \<times> int) option" where
  "shortest_at x k =
     (let n = order10 x + 1; t = x / 10 powi (n - int k); lo = nat \<lfloor>t\<rfloor>; hi = nat \<lceil>t\<rceil>;
          ok = (\<lambda>s. fl (of_nat s * 10 powi (n - int k)) = x);
          norm = (\<lambda>s. if s = 10 ^ k then (10 ^ (k - 1), n - int k + 1) else (s, n - int k)) in
      if ok lo \<and> (\<not> ok hi \<or> t - of_nat lo \<le> of_nat hi - t) then Some (norm lo)
      else if ok hi then Some (norm hi) else None)"

definition shortest :: "rat \<Rightarrow> nat \<times> int" where
  "shortest x = (case List.map_filter (shortest_at x) [1..<18] of [] \<Rightarrow> (0, 0) | p # _ \<Rightarrow> p)"

text \<open>\<^verbatim>\<open>String(x)\<close> for \<open>x \<ge> 10 ^ 21\<close>, which is always in exponent form.\<close>

definition large_text :: "rat \<Rightarrow> jsstring" where
  "large_text x =
     (let (s, e) = shortest x; m = radix 10 s in
      (if length m = 1 then m else with_point 1 m) @ exponent_text (e + int (length m) - 1))"

definition special_text :: "jsnum \<Rightarrow> jsstring" where
  "special_text v = (case v of PosInf \<Rightarrow> js ''Infinity'' | NegInf \<Rightarrow> js ''-Infinity'' | _ \<Rightarrow> js ''NaN'')"

definition toFixed :: "nat \<Rightarrow> jsnum \<Rightarrow> jsstring" where
  "toFixed f v =
     (case v of
        Fin r \<Rightarrow>
          let x = \<bar>r\<bar>;
              m = (if x \<ge> 10 ^ 21 then large_text x
                   else
                     let m = radix 10 (round_up (x * 10 ^ f)) in
                     if f = 0 then m
                     else let z = zeros (f + 1 - length m) @ m in with_point (length z - f) z) in
          if r < 0 then 45 # m else m
      | _ \<Rightarrow> special_text v)"

definition toExponential :: "nat \<Rightarrow> jsnum \<Rightarrow> jsstring" where
  "toExponential f v =
     (case v of
        Fin r \<Rightarrow>
          let x = \<bar>r\<bar>;
              (m, e) = (if x = 0 then (zeros (f + 1), 0) else let (n, e) = significand (f + 1) x in (radix 10 n, e));
              t = (if f = 0 then m else with_point 1 m) @ exponent_text e in
          if r < 0 then 45 # t else t
      | _ \<Rightarrow> special_text v)"

text \<open>A precision of zero is a \<^verbatim>\<open>RangeError\<close>, but only for finite numbers.\<close>

definition toPrecision :: "nat \<Rightarrow> jsnum \<Rightarrow> jsstring option" where
  "toPrecision p v =
     (case v of
        Fin r \<Rightarrow>
          if p = 0 then None
          else
            let x = \<bar>r\<bar>;
                (m, e) = (if x = 0 then (zeros p, 0) else let (n, e) = significand p x in (radix 10 n, e));
                t = (if e < -6 \<or> e \<ge> int p then (if p = 1 then m else with_point 1 m) @ exponent_text e
                     else if e = int p - 1 then m
                     else if e \<ge> 0 then with_point (nat (e + 1)) m
                     else js ''0.'' @ zeros (nat (- (e + 1))) @ m) in
            Some (if r < 0 then 45 # t else t)
      | _ \<Rightarrow> Some (special_text v))"

section \<open>Numbers from texts\<close>

definition is_digit :: "nat \<Rightarrow> bool" where
  "is_digit c \<longleftrightarrow> 48 \<le> c \<and> c \<le> 57"

definition digits_val :: "nat \<Rightarrow> jsstring \<Rightarrow> nat" where
  "digits_val b s = foldl (\<lambda>n c. n * b + digit_val c) 0 s"

definition js_space :: "nat \<Rightarrow> bool" where
  "js_space c \<longleftrightarrow> c \<in> {9, 10, 11, 12, 13, 32, 160, 0x1680, 0x2028, 0x2029, 0x202f, 0x205f, 0x3000, 0xfeff} \<or> (0x2000 \<le> c \<and> c \<le> 0x200a)"

definition js_trim :: "jsstring \<Rightarrow> jsstring" where
  "js_trim s = rev (dropWhile js_space (rev (dropWhile js_space s)))"

definition js_double :: "rat \<Rightarrow> jsnum" where
  "js_double x = (let y = fl x in if y \<ge> 2 ^ 1024 then PosInf else if y \<le> - (2 ^ 1024) then NegInf else Fin y)"

definition js_hex_digit :: "nat \<Rightarrow> bool" where
  "js_hex_digit c \<longleftrightarrow> is_digit c \<or> (97 \<le> c \<and> c \<le> 102)"

definition starts :: "nat \<Rightarrow> jsstring \<Rightarrow> bool" where
  "starts c s \<longleftrightarrow> s \<noteq> [] \<and> hd s = c"

text \<open>An optional exponent part: its value, if well formed.\<close>

definition exponent_part :: "jsstring \<Rightarrow> int option" where
  "exponent_part s =
     (case s of
        [] \<Rightarrow> Some 0
      | c # t \<Rightarrow>
          let (neg, ds) = (starts 45 t, if starts 43 t \<or> starts 45 t then tl t else t) in
          if (c = 101 \<or> c = 69) \<and> ds \<noteq> [] \<and> list_all is_digit ds
          then Some (if neg then - int (digits_val 10 ds) else int (digits_val 10 ds)) else None)"

definition decimal_literal :: "jsstring \<Rightarrow> rat option" where
  "decimal_literal s =
     (let whole = takeWhile is_digit s; t = dropWhile is_digit s;
          frac = (if starts 46 t then takeWhile is_digit (tl t) else []);
          e = (if starts 46 t then dropWhile is_digit (tl t) else t) in
      if whole = [] \<and> frac = [] then None
      else map_option (\<lambda>e. (of_nat (digits_val 10 whole) + of_nat (digits_val 10 frac) / 10 ^ length frac) * 10 powi e) (exponent_part e))"

definition js_Number_of :: "jsstring \<Rightarrow> jsnum" where
  "js_Number_of text =
     (let s = js_trim text;
          prefixed = (\<lambda>b ok t. if t \<noteq> [] \<and> list_all ok t then js_double (of_nat (digits_val b t)) else NaN);
          signed = (\<lambda>neg t. if t = js ''Infinity'' then (if neg then NegInf else PosInf)
                          else case decimal_literal t of None \<Rightarrow> NaN | Some x \<Rightarrow> js_double (if neg then - x else x)) in
      if s = [] then Fin 0
      else if take 2 s \<in> {js ''0x'', js ''0X''} then
        prefixed 16 js_hex_digit (map (\<lambda>c. if 65 \<le> c \<and> c \<le> 90 then c + 32 else c) (drop 2 s))
      else if take 2 s \<in> {js ''0o'', js ''0O''} then prefixed 8 (\<lambda>c. 48 \<le> c \<and> c \<le> 55) (drop 2 s)
      else if take 2 s \<in> {js ''0b'', js ''0B''} then prefixed 2 (\<lambda>c. 48 \<le> c \<and> c \<le> 49) (drop 2 s)
      else signed (starts 45 s) (if starts 43 s \<or> starts 45 s then tl s else s))"

end
