(* ===== verification/Renderer.thy ===== *)
theory Renderer
  imports JsNumbers Utf8 On9logPacket
begin

text \<open>
  The renderer of log messages (\<^verbatim>\<open>core/src/on9log/render.ts\<close>): a format string in printf style, fmt style or a
  mixture, applied to the arguments of a log packet. The index \<^verbatim>\<open>i\<close> into the format is the rest of the format
  that remains; the state \<^verbatim>\<open>{argIndex, positional}\<close> is a pair that every step returns; pushing a piece of output
  fails when the total passes its limit. Code units are written as numbers.
\<close>

section \<open>Data\<close>

definition MAX_FORMAT_WIDTH :: nat where "MAX_FORMAT_WIDTH = 4096"
definition MAX_RENDER_OUTPUT :: nat where "MAX_RENDER_OUTPUT = 1000000"
definition MAX_FORMAT_PRECISION :: nat where "MAX_FORMAT_PRECISION = 100"

text \<open>The last one is the \<^verbatim>\<open>RangeError\<close> of \<^verbatim>\<open>toPrecision\<close>, all the others are
  \<^verbatim>\<open>FormatRenderError\<close>s.\<close>

datatype render_error = Output_limit | Unbalanced_open | Unbalanced_close | Width_limit | Precision_limit | Missing_argument
  | Numeric_required | String_required | Pointer_required | Double_required | Bare_percent | Unsupported_conversion
  | Unsupported_spec | Invalid_nested | Unconsumed nat | Range_error

record FmtSpec =
  spec_fill :: nat
  spec_align :: "nat option"
  spec_sign :: "nat option"
  spec_alternate :: bool
  spec_zero :: bool
  spec_width :: nat
  spec_precision :: "nat option"
  spec_type :: "nat option"

section \<open>Arguments\<close>

definition nextArg :: "On9logArg list \<Rightarrow> nat \<Rightarrow> render_error + On9logArg" where
  "nextArg argv i = (if i < length argv then Inr (argv ! i) else Inl Missing_argument)"

fun int_arg :: "On9logArg \<Rightarrow> render_error + nat" where
  "int_arg (Bits32 v) = Inr (v mod 2 ^ 32)"
| "int_arg (Bits64 v) = Inr v"
| "int_arg (Pointer v) = Inr v"
| "int_arg _ = Inl Numeric_required"

definition nextIntArg :: "On9logArg list \<Rightarrow> nat \<Rightarrow> render_error + nat" where
  "nextIntArg argv i = rbind (nextArg argv i) int_arg"

fun argToString :: "On9logArg \<Rightarrow> jsstring" where
  "argToString (DynamicString v) = (case v of None \<Rightarrow> js ''(null)'' | Some bs \<Rightarrow> utf8_decode bs)"
| "argToString (DynamicStringView v) = (case v of None \<Rightarrow> js ''(null)'' | Some bs \<Rightarrow> utf8_decode bs)"
| "argToString (Bits32 v) = radix 10 (v mod 2 ^ 32)"
| "argToString (Bits64 v) = radix 10 v"
| "argToString (Pointer v) = js ''0x'' @ radix 16 v"

fun doubleArgValue :: "On9logArg \<Rightarrow> render_error + jsnum" where
  "doubleArgValue (Bits64 v) = Inr (doubleFromBits v)"
| "doubleArgValue _ = Inl Double_required"

fun pointer_text :: "On9logArg \<Rightarrow> render_error + jsstring" where
  "pointer_text (Pointer v) = Inr (let h = radix 16 (v mod 2 ^ 32) in js ''0x'' @ zeros (8 - length h) @ h)"
| "pointer_text (Bits32 v) = Inr (let h = radix 16 (v mod 2 ^ 32) in js ''0x'' @ zeros (8 - length h) @ h)"
| "pointer_text _ = Inl Pointer_required"

definition signExtend64 :: "nat \<Rightarrow> int" where
  "signExtend64 v = (if v \<ge> 0x8000000000000000 then int v - 0x10000000000000000 else int v)"

definition displaySigned :: "nat \<Rightarrow> int" where
  "displaySigned v =
     (if v \<le> 0xffffffff then (if v \<ge> 0x80000000 then int v - 0x100000000 else int v) else signExtend64 v)"

section \<open>printf\<close>

definition sign_prefix :: "nat list \<Rightarrow> jsstring \<Rightarrow> nat" where
  "sign_prefix bases s =
     (if starts 43 s \<or> starts 45 s then 1 else if starts 48 s \<and> 1 < length s \<and> s ! 1 \<in> set bases then 2 else 0)"

definition padString :: "jsstring \<Rightarrow> nat \<Rightarrow> jsstring \<Rightarrow> jsstring" where
  "padString s width flags =
     (if width \<le> length s then s
      else
        let pad = width - length s in
        if 48 \<in> set flags \<and> 45 \<notin> set flags then
          let k = sign_prefix [120, 88] s in take k s @ zeros pad @ drop k s
        else if 45 \<in> set flags then s @ replicate pad 32
        else replicate pad 32 @ s)"

definition formatSigned :: "nat \<Rightarrow> nat \<Rightarrow> jsstring \<Rightarrow> bool \<Rightarrow> jsstring" where
  "formatSigned v width flags uns =
     (let s = (if uns then radix 10 v else int_text 10 (displaySigned v));
          s = (if 43 \<in> set flags \<and> \<not> starts 45 s then 43 # s else if 32 \<in> set flags \<and> \<not> starts 45 s then 32 # s else s) in
      padString s width flags)"

definition formatHex :: "nat \<Rightarrow> nat \<Rightarrow> jsstring \<Rightarrow> bool \<Rightarrow> jsstring" where
  "formatHex v width flags up =
     (let s = radix 16 v; s = (if up then upper s else s);
          s = (if 35 \<in> set flags then (if up then js ''0X'' else js ''0x'') @ s else s) in
      padString s width flags)"

definition formatFloat :: "jsnum \<Rightarrow> nat \<Rightarrow> nat option \<Rightarrow> jsstring \<Rightarrow> jsstring" where
  "formatFloat v width precision flags =
     (let s = toFixed (case precision of Some p \<Rightarrow> p | None \<Rightarrow> 6) v;
          s = (if 43 \<in> set flags \<and> \<not> starts 45 s then 43 # s else s) in
      padString s width flags)"

text \<open>The digits of a width or precision; the limit is checked after each one.\<close>

fun read_digits :: "nat \<Rightarrow> render_error \<Rightarrow> nat \<Rightarrow> jsstring \<Rightarrow> render_error + nat \<times> jsstring" where
  "read_digits limit e n [] = Inr (n, [])"
| "read_digits limit e n (c # s) =
     (if is_digit c then
        (if n * 10 + (c - 48) > limit then Inl e else read_digits limit e (n * 10 + (c - 48)) s)
      else Inr (n, c # s))"

text \<open>\<^verbatim>\<open>width | 0\<close> as a signed number.\<close>

definition to_int32 :: "nat \<Rightarrow> int" where
  "to_int32 n = (let m = int n mod 2 ^ 32 in if m \<ge> 2 ^ 31 then m - 2 ^ 32 else m)"

record directive =
  dir_flags :: jsstring
  dir_width :: nat
  dir_precision :: "nat option"
  dir_conv :: nat

text \<open>Everything between the percent sign and the conversion, with the arguments a star takes.\<close>

definition read_width :: "On9logArg list \<Rightarrow> nat \<Rightarrow> jsstring \<Rightarrow> jsstring \<Rightarrow> render_error + (jsstring \<times> nat \<times> nat \<times> jsstring)" where
  "read_width argv argIndex flags s =
     rbind (read_digits MAX_FORMAT_WIDTH Width_limit 0 s) (\<lambda>(w, s).
     rbind (if starts 42 s then rbind (nextIntArg argv argIndex) (\<lambda>v. Inr (round53 v, argIndex + 1, tl s)) else Inr (w, argIndex, s))
       (\<lambda>(width, argIndex, s).
     let signedWidth = to_int32 width;
         (width, flags) = (if signedWidth < 0 then (nat (- signedWidth), if 45 \<in> set flags then flags else flags @ [45])
                           else (width, flags)) in
     if width > MAX_FORMAT_WIDTH then Inl Width_limit else Inr (flags, width, argIndex, s)))"

definition read_precision :: "On9logArg list \<Rightarrow> nat \<Rightarrow> jsstring \<Rightarrow> render_error + (nat option \<times> nat \<times> jsstring)" where
  "read_precision argv argIndex s =
     rbind (if starts 46 s then
              (if starts 42 (tl s) then
                 rbind (nextIntArg argv argIndex) (\<lambda>v. Inr (Some (round53 v), argIndex + 1, tl (tl s)))
               else rbind (read_digits MAX_FORMAT_PRECISION Precision_limit 0 (tl s)) (\<lambda>(p, s). Inr (Some p, argIndex, s)))
            else Inr (None, argIndex, s))
       (\<lambda>(precision, argIndex, s).
     case precision of
       Some p \<Rightarrow> if p > MAX_FORMAT_PRECISION then Inl Precision_limit else Inr (precision, argIndex, s)
     | None \<Rightarrow> Inr (precision, argIndex, s))"

definition flag_chars :: jsstring where "flag_chars = js ''-+ #0''"
definition length_chars :: jsstring where "length_chars = js ''hlLjzt''"

definition read_directive :: "On9logArg list \<Rightarrow> nat \<Rightarrow> jsstring \<Rightarrow> render_error + (directive \<times> nat \<times> jsstring)" where
  "read_directive argv argIndex s =
     rbind (read_width argv argIndex (takeWhile (\<lambda>c. c \<in> set flag_chars) s) (dropWhile (\<lambda>c. c \<in> set flag_chars) s))
       (\<lambda>(flags, width, argIndex, s).
     rbind (read_precision argv argIndex s) (\<lambda>(precision, argIndex, s).
     case dropWhile (\<lambda>c. c \<in> set length_chars) s of
       [] \<Rightarrow> Inl Bare_percent
     | conv # s \<Rightarrow> Inr (\<lparr>dir_flags = flags, dir_width = width, dir_precision = precision, dir_conv = conv\<rparr>, argIndex, s)))"

text \<open>One conversion. Every one of them takes the next argument; what it does with it depends on the argument alone.\<close>

definition convert_arg :: "directive \<Rightarrow> On9logArg \<Rightarrow> render_error + jsstring" where
  "convert_arg d arg =
     (let conv = dir_conv d; width = dir_width d; flags = dir_flags d in
      if conv \<in> {100, 105} then rbind (int_arg arg) (\<lambda>v. Inr (formatSigned v width flags False))
      else if conv = 117 then rbind (int_arg arg) (\<lambda>v. Inr (formatSigned v width flags True))
      else if conv \<in> {120, 88} then rbind (int_arg arg) (\<lambda>v. Inr (formatHex v width flags (conv = 88)))
      else if conv = 112 then pointer_text arg
      else if conv = 99 then rbind (int_arg arg) (\<lambda>v. Inr [round53 v mod 256])
      else if conv = 115 then
        (case arg of
           DynamicString _ \<Rightarrow>
             Inr (padString (case dir_precision d of Some p \<Rightarrow> take p (argToString arg) | None \<Rightarrow> argToString arg) width flags)
         | DynamicStringView _ \<Rightarrow>
             Inr (padString (case dir_precision d of Some p \<Rightarrow> take p (argToString arg) | None \<Rightarrow> argToString arg) width flags)
         | _ \<Rightarrow> Inl String_required)
      else if conv \<in> {102, 70} then rbind (doubleArgValue arg) (\<lambda>v. Inr (formatFloat v width (dir_precision d) flags))
      else
        rbind (doubleArgValue arg) (\<lambda>v.
          let rendered = toExponential (case dir_precision d of Some p \<Rightarrow> p | None \<Rightarrow> 6) v in
          Inr (padString (if conv \<in> {69, 71} then upper rendered else rendered) width flags)))"

definition conversions :: jsstring where "conversions = js ''diuxXpcsfFeEgG''"

definition convert :: "On9logArg list \<Rightarrow> nat \<Rightarrow> directive \<Rightarrow> render_error + jsstring" where
  "convert argv argIndex d =
     (if dir_conv d \<in> set conversions then rbind (nextArg argv argIndex) (convert_arg d) else Inl Unsupported_conversion)"

section \<open>fmt\<close>

definition intValue :: "On9logArg \<Rightarrow> render_error + nat" where
  "intValue arg = int_arg arg"

definition fmtPad :: "jsstring \<Rightarrow> FmtSpec \<Rightarrow> jsstring" where
  "fmtPad s spec =
     (if spec_width spec \<le> length s then s
      else
        let padLen = spec_width spec - length s; fill = spec_fill spec in
        if spec_align spec = Some 60 then s @ replicate padLen fill
        else if spec_align spec = Some 94 then
          replicate (padLen div 2) fill @ s @ replicate (padLen - padLen div 2) fill
        else if spec_zero spec then
          let k = sign_prefix [120, 88, 98, 66] s in take k s @ zeros padLen @ drop k s
        else replicate padLen fill @ s)"

definition add_sign :: "FmtSpec \<Rightarrow> jsstring \<Rightarrow> jsstring" where
  "add_sign spec s =
     (if spec_sign spec = Some 43 \<and> \<not> starts 45 s then 43 # s
      else if spec_sign spec = Some 32 \<and> \<not> starts 45 s then 32 # s else s)"

definition fmtInt :: "On9logArg \<Rightarrow> nat \<Rightarrow> bool \<Rightarrow> FmtSpec \<Rightarrow> bool \<Rightarrow> render_error + jsstring" where
  "fmtInt arg base uns spec up =
     rbind (intValue arg) (\<lambda>raw.
       let is32 = (case arg of Bits32 _ \<Rightarrow> True | Pointer _ \<Rightarrow> True | _ \<Rightarrow> False);
           plain = uns \<or> base \<in> {16, 8, 2};
           v = (if is32 then
                  let s32 = raw mod 2 ^ 32 in
                  if plain then int s32 else if s32 \<ge> 0x80000000 then int s32 - 0x100000000 else int s32
                else if plain then int raw else displaySigned raw);
           s = int_text base v; s = (if up then upper s else s);
           s = (if spec_alternate spec then
                  (if base = 16 then (if up then js ''0X'' else js ''0x'') @ s
                   else if base = 8 \<and> \<not> starts 48 s then 48 # s
                   else if base = 2 then (if up then js ''0B'' else js ''0b'') @ s else s)
                else s) in
       Inr (fmtPad (add_sign spec s) spec))"

definition strip_zeros :: "jsstring \<Rightarrow> jsstring" where
  "strip_zeros s =
     (if 46 \<in> set s then
        let t = rev (dropWhile (\<lambda>c. c = 48) (rev s)) in if t \<noteq> [] \<and> last t = 46 then butlast t else t
      else s)"

definition trimFloat :: "jsstring \<Rightarrow> jsstring" where
  "trimFloat s = (if 101 \<in> set s \<or> 69 \<in> set s then s else strip_zeros s)"

definition precise :: "nat \<Rightarrow> jsnum \<Rightarrow> render_error + jsstring" where
  "precise p v = (case toPrecision p v of None \<Rightarrow> Inl Range_error | Some s \<Rightarrow> Inr s)"

definition fmt_double :: "nat \<Rightarrow> jsnum \<Rightarrow> FmtSpec \<Rightarrow> render_error + jsstring" where
  "fmt_double ty v spec =
     (let p = (case spec_precision spec of Some p \<Rightarrow> p | None \<Rightarrow> 6) in
      rbind (if ty \<in> {102, 70} then Inr (toFixed p v)
             else if ty \<in> {101, 69} then Inr (toExponential p v)
             else rbind (precise p v) (\<lambda>s. Inr (strip_zeros s)))
        (\<lambda>s.
      let s = (if spec_sign spec = Some 43 \<and> \<not> starts 45 s then 43 # s else s);
          s = (if spec_alternate spec \<and> 46 \<notin> set s then s @ [46] else s) in
      Inr (fmtPad s spec)))"

text \<open>A 64-bit value shown without a type is taken for a double when it is large and its exponent is plausible.\<close>

definition is_whole :: "jsnum \<Rightarrow> bool" where
  "is_whole v = js_isInteger v"

definition fmt_default64 :: "nat \<Rightarrow> FmtSpec \<Rightarrow> render_error + jsstring" where
  "fmt_default64 v spec =
     (if \<bar>signExtend64 v\<bar> \<ge> 0x20000000000000 then
        (case doubleFromBits v of
           NaN \<Rightarrow> Inr (fmtPad (js ''nan'') spec)
         | PosInf \<Rightarrow> Inr (fmtPad (js ''inf'') spec)
         | NegInf \<Rightarrow> Inr (fmtPad (js ''-inf'') spec)
         | Fin r \<Rightarrow>
             let exp = v div 2 ^ 52 mod 2048 in
             if exp \<ge> 0x300 \<and> exp \<le> 0x500 \<and> \<not> is_whole (Fin r)
             then rbind (precise 6 (Fin r)) (\<lambda>s. Inr (fmtPad (trimFloat s) spec))
             else fmtInt (Bits64 v) 10 False spec False)
      else fmtInt (Bits64 v) 10 False spec False)"

definition renderFmtArg :: "On9logArg \<Rightarrow> FmtSpec \<Rightarrow> render_error + jsstring" where
  "renderFmtArg arg spec =
     (case spec_type spec of
        None \<Rightarrow>
          (case arg of
             DynamicString _ \<Rightarrow> Inr (fmtPad (argToString arg) spec)
           | DynamicStringView _ \<Rightarrow> Inr (fmtPad (argToString arg) spec)
           | Pointer _ \<Rightarrow> pointer_text arg
           | Bits64 v \<Rightarrow> fmt_default64 v spec
           | Bits32 _ \<Rightarrow> fmtInt arg 10 False spec False)
      | Some ty \<Rightarrow>
          if ty \<in> {100, 105} then fmtInt arg 10 False spec False
          else if ty = 117 then fmtInt arg 10 True spec False
          else if ty = 120 then fmtInt arg 16 False spec False
          else if ty = 88 then fmtInt arg 16 False spec True
          else if ty = 111 then fmtInt arg 8 False spec False
          else if ty = 98 then fmtInt arg 2 False spec False
          else if ty = 66 then fmtInt arg 2 False spec True
          else if ty = 99 then rbind (intValue arg) (\<lambda>v. Inr [round53 v mod 256])
          else if ty = 115 then
            Inr (fmtPad (case spec_precision spec of Some p \<Rightarrow> take p (argToString arg) | None \<Rightarrow> argToString arg) spec)
          else if ty = 112 then pointer_text arg
          else if ty \<in> {102, 70, 101, 69, 103, 71} then rbind (doubleArgValue arg) (\<lambda>v. fmt_double ty v spec)
          else Inl Unsupported_spec)"

subsection \<open>Placeholders\<close>

type_synonym render_state = "nat \<times> bool"

text \<open>\<^verbatim>\<open>args[n]\<close> for a double \<open>n\<close>: an element only for a small non-negative integer.\<close>

definition readNestedArg :: "jsstring \<Rightarrow> On9logArg list \<Rightarrow> render_state \<Rightarrow> render_error + nat \<times> render_state" where
  "readNestedArg inner argv st =
     (if inner = [] then rbind (nextIntArg argv (fst st)) (\<lambda>v. Inr (v, fst st + 1, snd st))
      else
        let n = js_Number_of inner in
        if \<not> js_isInteger n then Inl Invalid_nested
        else case n of
          Fin r \<Rightarrow> if r < 0 then Inl Missing_argument else rbind (nextIntArg argv (nat \<lfloor>r\<rfloor>)) (\<lambda>v. Inr (v, fst st, True))
        | _ \<Rightarrow> Inl Invalid_nested)"

fun index_of :: "nat \<Rightarrow> jsstring \<Rightarrow> nat option" where
  "index_of c [] = None"
| "index_of c (d # s) = (if d = c then Some 0 else map_option Suc (index_of c s))"

text \<open>\<^verbatim>\<open>s.slice(1, close)\<close> and \<^verbatim>\<open>s.slice(close + 1)\<close> for \<^verbatim>\<open>close = s.indexOf("}")\<close>,
  which is \<^verbatim>\<open>-1\<close> when there is none.\<close>

definition split_nested :: "jsstring \<Rightarrow> jsstring \<times> jsstring" where
  "split_nested s =
     (case index_of 125 s of
        Some close \<Rightarrow> (take (close - 1) (drop 1 s), drop (close + 1) s)
      | None \<Rightarrow> (take (length s - 2) (drop 1 s), s))"

definition is_align :: "nat \<Rightarrow> bool" where
  "is_align c \<longleftrightarrow> c \<in> {60, 62, 94}"

definition parse_width :: "On9logArg list \<Rightarrow> render_state \<Rightarrow> jsstring \<Rightarrow> render_error + (nat \<times> render_state \<times> jsstring)" where
  "parse_width argv st s =
     rbind (if starts 123 s then
              (let (inner, rest) = split_nested s in
               rbind (readNestedArg inner argv st) (\<lambda>(v, st). Inr (round53 v, st, rest)))
            else Inr (digits_val 10 (takeWhile is_digit s), st, dropWhile is_digit s))
       (\<lambda>(width, st, s). if width > MAX_FORMAT_WIDTH then Inl Width_limit else Inr (width, st, s))"

definition parse_precision :: "On9logArg list \<Rightarrow> render_state \<Rightarrow> jsstring \<Rightarrow> render_error + (nat option \<times> render_state \<times> jsstring)" where
  "parse_precision argv st s =
     (if starts 46 s then
        (if starts 123 (tl s) then
           (let (inner, rest) = split_nested (tl s) in
            rbind (readNestedArg inner argv st) (\<lambda>(v, st). Inr (Some (round53 v), st, rest)))
         else Inr (Some (digits_val 10 (takeWhile is_digit (tl s))), st, dropWhile is_digit (tl s)))
      else Inr (None, st, s))"

definition parseFmtSpec :: "jsstring \<Rightarrow> On9logArg list \<Rightarrow> render_state \<Rightarrow> render_error + (FmtSpec \<times> render_state)" where
  "parseFmtSpec raw argv st =
     (let s = (if starts 58 raw then tl raw else raw);
          (fill, align, s) =
            (if length s \<ge> 2 \<and> is_align (s ! 1) then (s ! 0, Some (s ! 1), drop 2 s)
             else if length s \<ge> 1 \<and> is_align (s ! 0) then (32, Some (s ! 0), drop 1 s)
             else (32, None, s));
          (sign, s) = (if starts 43 s \<or> starts 45 s \<or> starts 32 s then (Some (hd s), tl s) else (None, s));
          (alternate, s) = (if starts 35 s then (True, tl s) else (False, s));
          (zero, s) = (if starts 48 s then (True, tl s) else (False, s)) in
      rbind (parse_width argv st s) (\<lambda>(width, st, s).
      rbind (parse_precision argv st s) (\<lambda>(precision, st, s).
      if length s > 1 then Inl Unsupported_spec
      else if (case precision of Some p \<Rightarrow> p > MAX_FORMAT_PRECISION | None \<Rightarrow> False) then Inl Precision_limit
      else Inr (\<lparr>spec_fill = fill, spec_align = align, spec_sign = sign, spec_alternate = alternate, spec_zero = zero,
                 spec_width = width, spec_precision = precision, spec_type = (if s = [] then None else Some (hd s))\<rparr>, st))))"

text \<open>The content of a placeholder and what follows its closing brace.\<close>

fun findClosingBrace :: "nat \<Rightarrow> jsstring \<Rightarrow> (jsstring \<times> jsstring) option" where
  "findClosingBrace depth [] = None"
| "findClosingBrace depth (c # s) =
     (if c = 125 \<and> depth = 0 then Some ([], s)
      else map_option (\<lambda>(inner, rest). (c # inner, rest))
        (findClosingBrace (if c = 123 then depth + 1 else if c = 125 then depth - 1 else depth) s))"

definition fmt_placeholder :: "On9logArg list \<Rightarrow> render_state \<Rightarrow> jsstring \<Rightarrow> render_error + (jsstring \<times> render_state)" where
  "fmt_placeholder argv st inner =
     (let digits = takeWhile is_digit inner; rest = dropWhile is_digit inner;
          explicit = digits \<noteq> [] \<and> (rest = [] \<or> starts 58 rest);
          (useIndex, specStr, st) =
            (if explicit then (digits_val 10 digits, rest, fst st, True) else (fst st, inner, fst st + 1, snd st)) in
      rbind (parseFmtSpec specStr argv st) (\<lambda>(spec, st).
      rbind (nextArg argv useIndex) (\<lambda>arg.
      rbind (renderFmtArg arg spec) (\<lambda>text. Inr (text, st)))))"

section \<open>The renderer\<close>

definition push :: "nat \<Rightarrow> jsstring \<Rightarrow> (nat \<Rightarrow> render_error + jsstring) \<Rightarrow> render_error + jsstring" where
  "push tot piece k =
     (if tot + length piece > MAX_RENDER_OUTPUT then Inl Output_limit
      else rbind (k (tot + length piece)) (\<lambda>rest. Inr (piece @ rest)))"

lemma push_cong [fundef_cong]:
  assumes "tot = tot'" and "piece = piece'" and "k (tot' + length piece') = k' (tot' + length piece')"
  shows "push tot piece k = push tot' piece' k'"
  using assms by (simp add: push_def)

text \<open>The next piece of output, with what remains of the format and the new state.\<close>

definition next_piece :: "On9logArg list \<Rightarrow> render_state \<Rightarrow> nat \<Rightarrow> jsstring \<Rightarrow> render_error + (jsstring \<times> render_state \<times> jsstring)" where
  "next_piece argv st ch s =
     (if ch = 123 then
        (if starts 123 s then Inr ([123], st, tl s)
         else case findClosingBrace 0 s of
           None \<Rightarrow> Inl Unbalanced_open
         | Some (inner, rest) \<Rightarrow> rbind (fmt_placeholder argv st inner) (\<lambda>(text, st). Inr (text, st, rest)))
      else if ch = 125 then (if starts 125 s then Inr ([125], st, tl s) else Inl Unbalanced_close)
      else if ch \<noteq> 37 then Inr ([ch], st, s)
      else if starts 37 s then Inr ([37], st, tl s)
      else
        rbind (read_directive argv (fst st) s) (\<lambda>(d, argIndex, rest).
        rbind (convert argv argIndex d) (\<lambda>text. Inr (text, (argIndex + 1, snd st), rest))))"

lemma length_dropWhile: "length (dropWhile P s) \<le> length s"
  by (induction s) auto

lemma read_digits_length: "read_digits limit e n s = Inr (m, r) \<Longrightarrow> length r \<le> length s"
  by (induction limit e n s rule: read_digits.induct) (fastforce split: if_splits)+

lemma findClosingBrace_length: "findClosingBrace d s = Some (inner, r) \<Longrightarrow> length r < length s"
  by (induction d s arbitrary: inner rule: findClosingBrace.induct) (fastforce split: if_splits)+

lemma read_width_Inr:
  assumes "read_width argv i flags s = Inr (f, w, j, r)"
  obtains n s1 where "read_digits MAX_FORMAT_WIDTH Width_limit 0 s = Inr (n, s1)" "w \<le> MAX_FORMAT_WIDTH"
    "(if starts 42 s1 then j = i + 1 \<and> r = tl s1 \<and> i < length argv else j = i \<and> r = s1)"
proof -
  from assms obtain n s1 width j' r' where 1: "read_digits MAX_FORMAT_WIDTH Width_limit 0 s = Inr (n, s1)"
    and 2: "(if starts 42 s1 then rbind (nextIntArg argv i) (\<lambda>v. Inr (round53 v, i + 1, tl s1)) else Inr (n, i, s1)) = Inr (width, j', r')"
    and 3: "j' = j" "r' = r" "w \<le> MAX_FORMAT_WIDTH"
    unfolding read_width_def by (auto elim!: rbind_InrE simp: Let_def simp del: not_less split: if_splits prod.splits)
  show thesis
    by (rule that [OF 1 3(3)]) (use 2 3 in \<open>auto simp: rbind_eq_Inr nextIntArg_def nextArg_def split: if_splits\<close>)
qed

lemma read_width_length: "read_width argv i flags s = Inr (f, w, j, r) \<Longrightarrow> length r \<le> length s"
  by (erule read_width_Inr) (auto dest!: read_digits_length split: if_splits)

lemma read_precision_Inr:
  assumes "read_precision argv i s = Inr (p, j, r)"
  obtains "\<not> starts 46 s" "j = i" "r = s"
    | "starts 46 s" "starts 42 (tl s)" "i < length argv" "j = i + 1" "r = tl (tl s)"
    | q where "starts 46 s" "\<not> starts 42 (tl s)" "read_digits MAX_FORMAT_PRECISION Precision_limit 0 (tl s) = Inr (q, r)" "j = i"
proof -
  from assms obtain p' j' r' where 1: "(if starts 46 s then
              (if starts 42 (tl s) then
                 rbind (nextIntArg argv i) (\<lambda>v. Inr (Some (round53 v), i + 1, tl (tl s)))
               else rbind (read_digits MAX_FORMAT_PRECISION Precision_limit 0 (tl s)) (\<lambda>(p, s). Inr (Some p, i, s)))
            else Inr (None, i, s)) = Inr (p', j', r')"
    and 2: "(case p' of Some q \<Rightarrow> if q > MAX_FORMAT_PRECISION then Inl Precision_limit else Inr (p', j', r') | None \<Rightarrow> Inr (p', j', r')) = Inr (p, j, r)"
    unfolding read_precision_def by (elim rbind_InrE) auto
  from 2 have 3: "j' = j" "r' = r" by (auto split: option.splits if_splits)
  consider "\<not> starts 46 s" | "starts 46 s" "starts 42 (tl s)" | "starts 46 s" "\<not> starts 42 (tl s)" by blast
  then show thesis
  proof cases
    case 1
    then show ?thesis using \<open>(if starts 46 s then _ else _) = _\<close> 3 by (intro that(1)) auto
  next
    case 2
    then have "rbind (nextIntArg argv i) (\<lambda>v. Inr (Some (round53 v), i + 1, tl (tl s))) = Inr (p', j, r)" using 1 3 by simp
    then show ?thesis using 2 by (intro that(2)) (auto simp: rbind_eq_Inr nextIntArg_def nextArg_def split: if_splits)
  next
    case 3
    then have "rbind (read_digits MAX_FORMAT_PRECISION Precision_limit 0 (tl s)) (\<lambda>(p, s). Inr (Some p, i, s)) = Inr (p', j, r)"
      using 1 \<open>j' = j\<close> \<open>r' = r\<close> by simp
    then show ?thesis using 3 by (elim rbind_InrE) (auto intro: that(3))
  qed
qed

lemma read_precision_length: "read_precision argv i s = Inr (p, j, r) \<Longrightarrow> length r \<le> length s"
  by (erule read_precision_Inr) (auto dest!: read_digits_length)

lemma read_directive_Inr:
  assumes "read_directive argv i s = Inr (d, j, r)"
  obtains f w j1 s1 p s2 c where "read_width argv i (takeWhile (\<lambda>c. c \<in> set flag_chars) s) (dropWhile (\<lambda>c. c \<in> set flag_chars) s) = Inr (f, w, j1, s1)"
    "read_precision argv j1 s1 = Inr (p, j, s2)" "dropWhile (\<lambda>c. c \<in> set length_chars) s2 = c # r"
    "d = \<lparr>dir_flags = f, dir_width = w, dir_precision = p, dir_conv = c\<rparr>"
proof -
  from assms obtain f w j1 s1 where 1: "read_width argv i (takeWhile (\<lambda>c. c \<in> set flag_chars) s) (dropWhile (\<lambda>c. c \<in> set flag_chars) s) = Inr (f, w, j1, s1)"
    and "rbind (read_precision argv j1 s1) (\<lambda>(p, j, s). case dropWhile (\<lambda>c. c \<in> set length_chars) s of [] \<Rightarrow> Inl Bare_percent
     | conv # s \<Rightarrow> Inr (\<lparr>dir_flags = f, dir_width = w, dir_precision = p, dir_conv = conv\<rparr>, j, s)) = Inr (d, j, r)"
    unfolding read_directive_def by (auto elim!: rbind_InrE)
  then obtain p s2 c where "read_precision argv j1 s1 = Inr (p, j, s2)" "dropWhile (\<lambda>c. c \<in> set length_chars) s2 = c # r"
      "d = \<lparr>dir_flags = f, dir_width = w, dir_precision = p, dir_conv = c\<rparr>"
    by (elim rbind_InrE) (auto split: list.splits)
  with 1 show thesis by (rule that)
qed

lemma read_directive_length:
  assumes "read_directive argv i s = Inr (d, j, r)"
  shows "length r \<le> length s"
  using assms
proof (rule read_directive_Inr)
  fix f w j1 s1 p s2 c
  assume "read_width argv i (takeWhile (\<lambda>c. c \<in> set flag_chars) s) (dropWhile (\<lambda>c. c \<in> set flag_chars) s) = Inr (f, w, j1, s1)"
    and p: "read_precision argv j1 s1 = Inr (p, j, s2)" and c: "dropWhile (\<lambda>c. c \<in> set length_chars) s2 = c # r"
  from read_width_length [OF this(1)] have "length s1 \<le> length (dropWhile (\<lambda>c. c \<in> set flag_chars) s)" .
  moreover have "length r < length s2" using length_dropWhile [of "\<lambda>c. c \<in> set length_chars" s2] by (simp add: c)
  ultimately show ?thesis
    using read_precision_length [OF p] length_dropWhile [of "\<lambda>c. c \<in> set flag_chars" s] by linarith
qed

lemma next_piece_length:
  assumes "next_piece argv st ch s = Inr (text, st', r)"
  shows "length r \<le> length s"
  using assms unfolding next_piece_def
  by (auto simp: rbind_eq_Inr less_imp_le dest!: read_directive_length findClosingBrace_length split: if_splits option.splits)

function render_loop :: "On9logArg list \<Rightarrow> render_state \<Rightarrow> nat \<Rightarrow> jsstring \<Rightarrow> render_error + jsstring" where
  "render_loop argv st tot [] =
     (if \<not> snd st \<and> fst st < length argv then Inl (Unconsumed (length argv - fst st)) else Inr [])"
| "render_loop argv st tot (ch # s) =
     rbind (next_piece argv st ch s) (\<lambda>(piece, st, rest). push tot piece (\<lambda>tot. render_loop argv st tot rest))"
  by pat_completeness auto
termination
  by (relation "measure (\<lambda>(_, _, _, s). length s)") (auto dest: next_piece_length)

definition renderFormat :: "jsstring \<Rightarrow> On9logArg list \<Rightarrow> render_error + jsstring" where
  "renderFormat format argv = render_loop argv (0, False) 0 format"

end
