(* ===== verification/RenderProperties.thy ===== *)
theory RenderProperties
  imports Renderer
begin

text \<open>
  What the renderer guarantees: literal text is copied, the output is bounded, the number of arguments a printf format takes is
  fixed by the format, and which integers are shown as they are.
\<close>

section \<open>Output\<close>

lemma push_Inr:
  "push tot piece k = Inr t \<longleftrightarrow>
     tot + length piece \<le> MAX_RENDER_OUTPUT \<and> (\<exists>rest. k (tot + length piece) = Inr rest \<and> t = piece @ rest)"
  by (auto simp: push_def rbind_eq_Inr)

lemma render_loop_bounded:
  "render_loop argv st tot s = Inr t \<Longrightarrow> t = [] \<or> tot + length t \<le> MAX_RENDER_OUTPUT"
proof (induction argv st tot s arbitrary: t rule: render_loop.induct)
  case (1 argv st tot)
  then show ?case by (simp split: if_splits)
next
  case (2 argv st tot ch s)
  from 2(2) obtain piece st' rest u where p: "next_piece argv st ch s = Inr (piece, st', rest)"
    and u: "tot + length piece \<le> MAX_RENDER_OUTPUT" "render_loop argv st' (tot + length piece) rest = Inr u" "t = piece @ u"
    by (auto simp: push_Inr elim!: rbind_InrE)
  from 2(1) [OF p refl refl u(2)] u show ?case by auto
qed

text \<open>
  The output is bounded: whatever the format and the arguments are, a rendered message has at most
  \<^verbatim>\<open>MAX_RENDER_OUTPUT\<close> code units.
\<close>

theorem render_bounded:
  assumes "renderFormat format argv = Inr t"
  shows "length t \<le> MAX_RENDER_OUTPUT"
  using render_loop_bounded [OF assms [unfolded renderFormat_def]] by auto

section \<open>Literal text\<close>

definition escape_format :: "jsstring \<Rightarrow> jsstring" where
  "escape_format t = concat (map (\<lambda>c. if c \<in> {37, 123, 125} then [c, c] else [c]) t)"

lemma escape_format_simps [simp]:
  "escape_format [] = []"
  "escape_format (c # t) = (if c \<in> {37, 123, 125} then [c, c] else [c]) @ escape_format t"
  by (simp_all add: escape_format_def)

lemma render_loop_escape:
  "tot + length t \<le> MAX_RENDER_OUTPUT \<Longrightarrow> length argv \<le> fst st \<or> snd st \<Longrightarrow> render_loop argv st tot (escape_format t) = Inr t"
proof (induction t arbitrary: tot)
  case Nil
  then show ?case by auto
next
  case (Cons c t)
  define r where "r = tl (escape_format (c # t))"
  have piece: "next_piece argv st c r = Inr ([c], st, escape_format t)"
    by (auto simp: next_piece_def starts_def r_def)
  have split: "escape_format (c # t) = c # r" by (simp add: r_def)
  have "render_loop argv st (Suc tot) (escape_format t) = Inr t" using Cons.IH [of "Suc tot"] Cons.prems by simp
  then show ?case unfolding split using Cons.prems(1) by (simp add: piece push_def)
qed

text \<open>
  Literal text comes out unchanged: a message without arguments whose percent signs and braces are doubled renders to the
  original text.
\<close>

theorem literal_text_roundtrip:
  assumes "length t \<le> MAX_RENDER_OUTPUT"
  shows "renderFormat (escape_format t) [] = Inr t"
  using render_loop_escape [of 0 t "[]" "(0, False)"] assms by (simp add: renderFormat_def)

section \<open>Integers\<close>

lemma digit_val_char: "d < 36 \<Longrightarrow> digit_val (digit_char d) = d"
  by (simp add: digit_val_def digit_char_def)

lemma digits_val_append: "digits_val b (s @ [c]) = digits_val b s * b + digit_val c"
  by (simp add: digits_val_def)

lemma digits_val_radix: "2 \<le> b \<Longrightarrow> b \<le> 36 \<Longrightarrow> digits_val b (radix b n) = n"
proof (induction b n rule: radix.induct)
  case (1 b n)
  show ?case
  proof (cases "n < b")
    case True
    then have "radix b n = [digit_char n]" by (subst radix.simps) simp
    with True 1(3) show ?thesis by (simp add: digits_val_def digit_val_char)
  next
    case False
    then have "radix b n = radix b (n div b) @ [digit_char (n mod b)]" using 1(2) by (subst radix.simps) simp
    moreover have "digits_val b (radix b (n div b)) = n div b" using 1 False by auto
    moreover have "n mod b < 36" using 1(2,3) by (meson mod_less_divisor order_less_le_trans pos2)
    ultimately show ?thesis by (simp add: digits_val_append digit_val_char)
  qed
qed

lemma radix_nonempty: "radix b n \<noteq> []"
  by (subst radix.simps) simp

lemma length_radix: "2 \<le> b \<Longrightarrow> n < b ^ k \<Longrightarrow> 0 < k \<Longrightarrow> length (radix b n) \<le> k"
proof (induction k arbitrary: n)
  case 0
  then show ?case by simp
next
  case (Suc k)
  show ?case
  proof (cases "n < b")
    case True
    then show ?thesis by (subst radix.simps) simp
  next
    case False
    then have k: "0 < k" using Suc.prems by (cases k) simp_all
    have "n div b < b ^ k" using Suc.prems by (simp add: less_mult_imp_div_less mult.commute)
    from Suc.IH [OF Suc.prems(1) this k] False Suc.prems(1) show ?thesis by (subst radix.simps) simp
  qed
qed

text \<open>The value a text shows: a number with an optional minus sign.\<close>

definition shown_int :: "nat \<Rightarrow> jsstring \<Rightarrow> int" where
  "shown_int b s = (if starts 45 s then - int (digits_val b (tl s)) else int (digits_val b s))"

lemma radix_no_sign: "2 \<le> b \<Longrightarrow> b \<le> 36 \<Longrightarrow> c \<in> set (radix b n) \<Longrightarrow> 48 \<le> c"
proof (induction b n rule: radix.induct)
  case (1 b n)
  then show ?case by (subst (asm) radix.simps) (auto simp: digit_char_def split: if_splits)
qed

lemma radix_starts: "2 \<le> b \<Longrightarrow> b \<le> 36 \<Longrightarrow> c < 48 \<Longrightarrow> \<not> starts c (radix b n)"
  using radix_no_sign [of b "hd (radix b n)" n] radix_nonempty [of b n] by (auto simp: starts_def)

lemma shown_int_text: "2 \<le> b \<Longrightarrow> b \<le> 36 \<Longrightarrow> shown_int b (int_text b i) = i"
  by (auto simp: shown_int_def int_text_def radix_starts digits_val_radix) (simp add: starts_def digits_val_radix)

lemma int_text_short: "\<bar>i\<bar> < 10 ^ 20 \<Longrightarrow> length (int_text 10 i) \<le> 21"
  using length_radix [of 10 "nat \<bar>i\<bar>" 20] by (auto simp: int_text_def nat_less_iff)

lemma render_single:
  assumes "next_piece [a] (0, False) 37 s = Inr (t, (1, False), [])" and "length t \<le> MAX_RENDER_OUTPUT"
  shows "renderFormat (37 # s) [a] = Inr t"
  using assms by (simp add: renderFormat_def push_def)

lemma read_plain_directive:
  assumes "c \<notin> set flag_chars" "\<not> is_digit c" "c \<noteq> 42" "c \<noteq> 46" "c \<notin> set length_chars"
  shows "read_directive argv i [c] = Inr (\<lparr>dir_flags = [], dir_width = 0, dir_precision = None, dir_conv = c\<rparr>, i, [])"
  using assms by (simp add: read_directive_def read_width_def read_precision_def starts_def to_int32_def Let_def MAX_FORMAT_WIDTH_def)

lemma int_directives:
  "read_directive argv i (js ''d'') = Inr (\<lparr>dir_flags = [], dir_width = 0, dir_precision = None, dir_conv = 100\<rparr>, i, [])"
  "read_directive argv i (js ''u'') = Inr (\<lparr>dir_flags = [], dir_width = 0, dir_precision = None, dir_conv = 117\<rparr>, i, [])"
  "read_directive argv i (js ''x'') = Inr (\<lparr>dir_flags = [], dir_width = 0, dir_precision = None, dir_conv = 120\<rparr>, i, [])"
  "read_directive argv i (js ''lld'') = Inr (\<lparr>dir_flags = [], dir_width = 0, dir_precision = None, dir_conv = 100\<rparr>, i, [])"
  by (simp_all add: read_directive_def read_width_def read_precision_def starts_def to_int32_def Let_def MAX_FORMAT_WIDTH_def
      js_simps flag_chars_def length_chars_def is_digit_def)

lemma starts_flag_free: "starts c [] = False"
  by (simp add: starts_def)

lemma piece_of_directive:
  assumes "read_directive [a] 0 s = Inr (d, 0, [])" and "\<not> starts 37 s" and "dir_conv d \<in> set conversions" and "convert_arg d a = Inr t"
  shows "next_piece [a] (0, False) 37 s = Inr (t, (1, False), [])"
  using assms by (simp add: next_piece_def convert_def nextArg_def)

lemma render_int:
  assumes "c = 100 \<or> c = 117 \<or> c = 120" and "read_directive [a] 0 s = Inr (\<lparr>dir_flags = [], dir_width = 0, dir_precision = None, dir_conv = c\<rparr>, 0, [])"
    and "\<not> starts 37 s" and "int_arg a = Inr v" and "v < 10 ^ 20"
  shows "renderFormat (37 # s) [a] =
    Inr (if c = 100 then int_text 10 (displaySigned v) else if c = 117 then radix 10 v else radix 16 v)"
proof -
  have "\<bar>displaySigned v\<bar> < 10 ^ 20" using assms(5) by (auto simp: displaySigned_def signExtend64_def abs_if)
  then have "length (int_text 10 (displaySigned v)) \<le> 21" by (rule int_text_short)
  moreover have "v < 16 ^ 20" by (rule order_less_le_trans [OF assms(5)]) simp
  then have "length (radix 10 v) \<le> 20" "length (radix 16 v) \<le> 20" using assms(5) by (simp_all add: length_radix)
  ultimately show ?thesis
    using assms(1,4)
    by (intro render_single piece_of_directive [OF assms(2,3)])
      (auto simp: conversions_def js_simps convert_arg_def formatSigned_def formatHex_def padString_def MAX_RENDER_OUTPUT_def)
qed

text \<open>
  32-bit integers are shown exactly: the text of \<^verbatim>\<open>%u\<close> read back in decimal and that of
  \<^verbatim>\<open>%x\<close> read back in hexadecimal are the argument, and that of \<^verbatim>\<open>%d\<close> is its two's complement
  value.
\<close>

theorem integers_shown_exactly:
  assumes "v < 2 ^ 32"
  shows "\<exists>t u w. renderFormat (js ''%u'') [Bits32 v] = Inr t \<and> shown_int 10 t = int v \<and>
    renderFormat (js ''%x'') [Bits32 v] = Inr u \<and> shown_int 16 u = int v \<and>
    renderFormat (js ''%d'') [Bits32 v] = Inr w \<and> shown_int 10 w = (if v < 2 ^ 31 then int v else int v - 2 ^ 32)"
proof -
  have v: "int_arg (Bits32 v) = Inr v" "v < 10 ^ 20" using assms by simp_all
  have f: "js ''%u'' = 37 # js ''u''" "js ''%x'' = 37 # js ''x''" "js ''%d'' = 37 # js ''d''" by (simp_all add: js_simps)
  have n: "\<not> starts 37 (js ''u'')" "\<not> starts 37 (js ''x'')" "\<not> starts 37 (js ''d'')" by (simp_all add: js_simps starts_def)
  have unsigned_text: "shown_int b (radix b v) = int v" if "b = 10 \<or> b = 16" for b
    using that radix_starts [of b 45 v] digits_val_radix [of b v] by (auto simp: shown_int_def)
  show ?thesis
    unfolding f render_int [OF _ int_directives(1) n(3) v, simplified] render_int [OF _ int_directives(2) n(1) v, simplified]
      render_int [OF _ int_directives(3) n(2) v, simplified]
    using assms by (simp add: unsigned_text shown_int_text displaySigned_def)
qed

text \<open>
  The printf directive \<^verbatim>\<open>%lld\<close>, as the whole format with one 64-bit argument, shows the signed value
  of the argument exactly except in one window: an argument from \<open>2 ^ 31\<close> to
  \<open>2 ^ 32 - 1\<close> is taken for a 32-bit one and shown \<open>2 ^ 32\<close> too small, for instance 3000000000 as
  -1294967296; every other value is shown as its two's complement value. Other notations of the same argument (\<^verbatim>\<open>{}\<close> may read
  it as a double) are not covered.
\<close>

theorem signed_64_window:
  assumes "v < 2 ^ 64"
  shows "\<exists>t. renderFormat (js ''%lld'') [Bits64 v] = Inr t \<and>
    shown_int 10 t = (if 2 ^ 31 \<le> v \<and> v < 2 ^ 32 then int v - 2 ^ 32 else if v < 2 ^ 63 then int v else int v - 2 ^ 64)"
proof -
  have v: "int_arg (Bits64 v) = Inr v" "v < 10 ^ 20" using assms by simp_all
  have f: "js ''%lld'' = 37 # js ''lld''" "\<not> starts 37 (js ''lld'')" by (simp_all add: js_simps starts_def)
  show ?thesis
    unfolding f(1) render_int [OF _ int_directives(4) f(2) v, simplified]
    using assms by (simp add: shown_int_text displaySigned_def signExtend64_def)
qed

section \<open>Arguments\<close>

text \<open>The arguments a printf format takes: one per conversion and one per star.\<close>

definition skip_star :: "jsstring \<Rightarrow> nat \<times> jsstring" where
  "skip_star s = (if starts 42 s then (1, tl s) else (0, s))"

definition skip_width :: "jsstring \<Rightarrow> nat \<times> jsstring" where
  "skip_width s = skip_star (dropWhile is_digit (dropWhile (\<lambda>c. c \<in> set flag_chars) s))"

definition skip_precision :: "jsstring \<Rightarrow> nat \<times> jsstring" where
  "skip_precision s =
     (if starts 46 s then (if starts 42 (tl s) then (1, tl (tl s)) else (0, dropWhile is_digit (tl s))) else (0, s))"

definition skip_directive :: "jsstring \<Rightarrow> nat \<times> jsstring" where
  "skip_directive s =
     (let (n, s) = skip_width s; (k, s) = skip_precision s in (n + k + 1, tl (dropWhile (\<lambda>c. c \<in> set length_chars) s)))"

lemma skip_directive_length: "length (snd (skip_directive s)) \<le> length s"
proof -
  have "length (snd (skip_width s)) \<le> length s"
    using length_dropWhile [of is_digit "dropWhile (\<lambda>c. c \<in> set flag_chars) s"] length_dropWhile [of "\<lambda>c. c \<in> set flag_chars" s]
    by (auto simp: skip_width_def skip_star_def)
  moreover have "length (snd (skip_precision u)) \<le> length u" for u
    using length_dropWhile [of is_digit "tl u"] by (auto simp: skip_precision_def)
  moreover have "length (tl (dropWhile (\<lambda>c. c \<in> set length_chars) u)) \<le> length u" for u
    using length_dropWhile [of "\<lambda>c. c \<in> set length_chars" u] by simp
  ultimately show ?thesis
    unfolding skip_directive_def split_beta Let_def snd_conv by (meson order_trans)
qed

function arity :: "jsstring \<Rightarrow> nat" where
  "arity [] = 0"
| "arity (c # s) =
     (if c = 125 then arity (tl s)
      else if c \<noteq> 37 then arity s
      else if starts 37 s then arity (tl s)
      else let (n, rest) = skip_directive s in n + arity rest)"
  by pat_completeness auto
termination
proof (relation "measure length", goal_cases)
  case (5 c s p n rest)
  then have "rest = snd (skip_directive s)" by (metis snd_conv)
  then show ?case using skip_directive_length [of s] by simp
qed auto

lemma read_digits_rest: "read_digits limit e n s = Inr (m, r) \<Longrightarrow> r = dropWhile is_digit s"
  by (induction limit e n s rule: read_digits.induct) (auto split: if_splits)

lemma read_directive_skip:
  assumes "read_directive argv i s = Inr (d, j, r)" and "i \<le> length argv"
  shows "skip_directive s = (j - i + 1, r) \<and> i \<le> j \<and> j \<le> length argv"
  using assms(1)
proof (rule read_directive_Inr)
  fix f w k s1 p s2 c
  assume w: "read_width argv i (takeWhile (\<lambda>c. c \<in> set flag_chars) s) (dropWhile (\<lambda>c. c \<in> set flag_chars) s) = Inr (f, w, k, s1)"
    and p: "read_precision argv k s1 = Inr (p, j, s2)" and c: "dropWhile (\<lambda>c. c \<in> set length_chars) s2 = c # r"
  from w have width: "skip_width s = (k - i, s1) \<and> i \<le> k \<and> k \<le> length argv"
    by (rule read_width_Inr)
      (use assms(2) in \<open>auto simp: skip_width_def skip_star_def dest!: read_digits_rest split: if_splits\<close>)
  from p have "skip_precision s1 = (j - k, s2) \<and> k \<le> j \<and> j \<le> length argv"
    by (rule read_precision_Inr)
      (use width in \<open>auto simp: skip_precision_def dest!: read_digits_rest split: if_splits\<close>)
  then show ?thesis using width by (auto simp: skip_directive_def c)
qed

lemma set_dropWhile: "x \<in> set (dropWhile P s) \<Longrightarrow> x \<in> set s"
  by (induction s) (auto split: if_splits)

lemma set_skip_directive: "set (snd (skip_directive s)) \<subseteq> set s"
proof -
  have t: "set (tl u) \<subseteq> set u" for u :: jsstring by (cases u) auto
  have d: "set (dropWhile P u) \<subseteq> set u" for u :: jsstring and P by (auto dest: set_dropWhile)
  have "set (snd (skip_width s)) \<subseteq> set s"
    unfolding skip_width_def skip_star_def using t d by (auto split: if_splits; blast)
  moreover have "set (snd (skip_precision u)) \<subseteq> set u" for u
    unfolding skip_precision_def using t d by (auto split: if_splits; blast)
  ultimately show ?thesis
    unfolding skip_directive_def split_beta Let_def snd_conv using t d by (meson order_trans)
qed

lemma render_loop_arity:
  "render_loop argv st tot s = Inr t \<Longrightarrow> 123 \<notin> set s \<Longrightarrow> \<not> snd st \<Longrightarrow> fst st \<le> length argv \<Longrightarrow>
     length argv = fst st + arity s"
proof (induction argv st tot s arbitrary: t rule: render_loop.induct)
  case (1 argv st tot)
  then show ?case by (simp split: if_splits)
next
  case (2 argv st tot ch s)
  from 2(2) obtain piece st' rest u where p: "next_piece argv st ch s = Inr (piece, st', rest)"
    and u: "render_loop argv st' (tot + length piece) rest = Inr u"
    by (auto simp: push_Inr elim!: rbind_InrE)
  note IH = 2(1) [OF p refl refl u]
  have free: "ch \<noteq> 123" "123 \<notin> set s" "123 \<notin> set (tl s)" using 2(3) by (cases s; auto)+
  show ?case
  proof (cases "ch = 37 \<and> \<not> starts 37 s")
    case False
    then have "st' = st \<and> rest = (if ch = 125 \<or> ch = 37 then tl s else s) \<and> (ch = 125 \<longrightarrow> starts 125 s)"
      using p free(1) by (auto simp: next_piece_def split: if_splits)
    moreover from this have "arity (ch # s) = arity rest" using False by auto
    ultimately show ?thesis using IH free 2(4,5) by auto
  next
    case True
    with p obtain d j where d: "read_directive argv (fst st) s = Inr (d, j, rest)"
      and c: "convert argv j d = Inr piece" and st': "st' = (j + 1, snd st)"
      by (auto simp: next_piece_def elim!: rbind_InrE)
    from read_directive_skip [OF d 2(5)] have skip: "skip_directive s = (j - fst st + 1, rest)" "fst st \<le> j" by auto
    have "j < length argv" using c by (auto simp: convert_def nextArg_def elim!: rbind_InrE split: if_splits)
    moreover have "123 \<notin> set rest" using set_skip_directive [of s] skip free(2) by auto
    ultimately have "length argv = j + 1 + arity rest" using IH st' 2(4) by simp
    then show ?thesis using True skip by simp
  qed
qed

text \<open>
  C13. The number of arguments is fixed by the format: a printf format renders only with exactly one argument per conversion and
  one more per star, so a message with an argument too few or too many is an error and is never shown with shifted values.
\<close>

theorem printf_arity_exact:
  assumes "123 \<notin> set format" and "renderFormat format argv = Inr t"
  shows "length argv = arity format"
  using render_loop_arity [OF assms(2) [unfolded renderFormat_def] assms(1)] by simp

lemma ten_digits:
  "radix 10 10000000000 = js ''10000000000''" "radix 10 100000 = js ''100000''" "radix 10 10 = js ''10''"
  by (simp_all add: radix.simps digit_char_def js_simps)

lemma precise_1e10: "toPrecision 6 (Fin 10000000000) = Some (js ''1.00000e+10'')"
proof -
  have "order10 10000000000 = 10" by (simp add: order10_def ten_digits js_simps)
  moreover have "\<lfloor>200001 / 2 :: rat\<rfloor> = 100000" by (rule floor_unique) simp_all
  then have "round_up 100000 = 100000" by (simp add: round_up_def)
  ultimately have "significand 6 10000000000 = (100000, 10)" by (simp add: significand_def Let_def power_int_numeral)
  then show ?thesis by (simp add: toPrecision_def Let_def ten_digits with_point_def exponent_text_def js_simps)
qed

lemma bits_1e10: "doubleFromBits 0x4202A05F20000000 = Fin 10000000000"
  by (simp add: doubleFromBits_def Let_def power_int_def power_one_over)

text \<open>
  General notation corrupts the exponent: trailing zeros are stripped from the whole text, so \<^verbatim>\<open>{:g}\<close> shows
  the double 1e10 as \<^verbatim>\<open>1.00000e+1\<close>.
\<close>

theorem general_notation_exponent_lost:
  "doubleFromBits 0x4202A05F20000000 = Fin 10000000000 \<and>
   renderFormat (js ''{:g}'') [Bits64 0x4202A05F20000000] = Inr (js ''1.00000e+1'')"
proof -
  have "strip_zeros (js ''1.00000e+10'') = js ''1.00000e+1''" by (simp add: strip_zeros_def js_simps)
  then have "fmt_placeholder [Bits64 0x4202A05F20000000] (0, False) (js '':g'') = Inr (js ''1.00000e+1'', (1, False))"
    by (simp add: fmt_placeholder_def parseFmtSpec_def parse_width_def parse_precision_def js_simps starts_def is_digit_def Let_def
        is_align_def MAX_FORMAT_WIDTH_def nextArg_def renderFmtArg_def bits_1e10 fmt_double_def precise_def precise_1e10 fmtPad_def
        digits_val_def)
  then have "next_piece [Bits64 0x4202A05F20000000] (0, False) 123 (js '':g}'') = Inr (js ''1.00000e+1'', (1, False), [])"
    by (simp add: next_piece_def js_simps starts_def)
  moreover have "js ''{:g}'' = 123 # js '':g}''" by (simp add: js_simps)
  ultimately show ?thesis by (simp add: renderFormat_def push_def MAX_RENDER_OUTPUT_def bits_1e10)
qed

section \<open>Precisions\<close>

text \<open>C gives a negative precision the meaning of none, and the code says so where it truncates a string, but an argument is read
  unsigned, so a precision of minus one is far above the limit and the whole message fails.\<close>

lemma negative_precision_rejected:
  "renderFormat (js ''%.*s'') [Bits32 (2 ^ 32 - 1), DynamicString v] = Inl Precision_limit"
proof -
  have "round53 4294967295 = 4294967295" using bit_length_le [of 4294967295 53] by (simp add: round53_def)
  then have "read_directive [Bits32 (2 ^ 32 - 1), DynamicString v] 0 (js ''.*s'') = Inl Precision_limit"
    by (simp add: read_directive_def read_width_def read_precision_def js_simps flag_chars_def is_digit_def starts_def to_int32_def
        MAX_FORMAT_WIDTH_def MAX_FORMAT_PRECISION_def nextIntArg_def nextArg_def Let_def)
  moreover have "js ''%.*s'' = 37 # js ''.*s''" "\<not> starts 37 (js ''.*s'')" by (simp_all add: js_simps starts_def)
  ultimately show ?thesis by (simp add: renderFormat_def next_piece_def)
qed

text \<open>A general notation of precision zero escapes the typed errors.\<close>

lemma zero_precision_range_error: "fmt_double 103 (Fin r) (spec\<lparr>spec_precision := Some 0\<rparr>) = Inl Range_error"
  by (simp add: fmt_double_def precise_def toPrecision_def)

section \<open>Witnesses\<close>

lemma ex_message: "renderFormat (js ''%d'') [Bits32 4294967295] = Inr (js ''-1'')"
proof -
  have f: "js ''%d'' = 37 # js ''d''" "\<not> starts 37 (js ''d'')" by (simp_all add: js_simps starts_def)
  have "radix 10 (Suc 0) = [49]" by (subst radix.simps) (simp add: digit_char_def)
  then show ?thesis
    using render_int [OF _ int_directives(1) f(2), where a = "Bits32 4294967295" and v = 4294967295]
    by (simp add: f(1) displaySigned_def int_text_def js_simps)
qed

lemma render_bounded_witness: "length (js ''-1'') \<le> MAX_RENDER_OUTPUT"
  using render_bounded [OF ex_message] .

lemma literal_text_roundtrip_witness: "renderFormat (js ''5%% {{}}'') [] = Inr (js ''5% {}'')"
  using literal_text_roundtrip [of "js ''5% {}''"] by (simp add: js_simps MAX_RENDER_OUTPUT_def)

lemma integers_shown_exactly_witness:
  "\<exists>t. renderFormat (js ''%u'') [Bits32 4000000000] = Inr t \<and> shown_int 10 t = 4000000000"
  using integers_shown_exactly [of 4000000000] by auto

lemma signed_64_window_witness:
  "\<exists>t. renderFormat (js ''%lld'') [Bits64 3000000000] = Inr t \<and> shown_int 10 t = -1294967296"
  using signed_64_window [of 3000000000] by auto

lemma printf_arity_exact_witness: "arity (js ''%d'') = 1"
proof -
  have "123 \<notin> set (js ''%d'')" by (simp add: js_simps)
  from printf_arity_exact [OF this ex_message] show ?thesis by simp
qed

end
