(* ===== verification/LogStore.thy ===== *)
theory LogStore
  imports ElfStrings Renderer "HOL-Library.AList"
begin

text \<open>
  Firmware artifacts, releases and stored log events: import of an ELF's string dictionary and backfill
  (\<^verbatim>\<open>core/src/logging/artifact.ts\<close>), releases (\<^verbatim>\<open>core/src/ota/release.ts\<close>), ingestion of log
  packets (\<^verbatim>\<open>core/src/logging/ingest.ts\<close>) and decoding at query time
  (\<^verbatim>\<open>core/src/logging/decode.ts\<close>). The tables are lists of records with the unique constraints of the schema;
  between two statements of an operation other transactions may change them, which an argument of type
  \<open>log_db \<Rightarrow> log_db\<close> stands for. SHA-256 is the parameter \<open>sha\<close>, the identifiers the database draws are arguments,
  and \<^verbatim>\<open>pg_notify\<close>, whose failure the code ignores, is left out.
\<close>

section \<open>Tables\<close>

type_synonym row_id = jsstring

datatype string_kind = Tag | Format

record stored_artifact =
  fa_id :: row_id
  fa_project :: row_id
  fa_buildId :: jsstring
  fa_version :: "jsstring option"
  fa_elf :: bytes
  fa_elfSize :: nat

record log_string =
  ls_artifact :: row_id
  ls_address :: nat
  ls_kind :: string_kind
  ls_value :: jsstring

record stored_release =
  fr_id :: row_id
  fr_project :: row_id
  fr_artifact :: "row_id option"
  fr_binHash :: jsstring
  fr_bin :: bytes
  fr_binSize :: nat
  fr_version :: "jsstring option"

record log_device =
  ld_id :: row_id
  ld_uid :: jsstring
  ld_project :: row_id

record firmware_state =
  fs_device :: row_id
  fs_hash :: jsstring

record raw_event =
  re_id :: nat
  re_device :: row_id
  re_artifact :: "row_id option"
  re_timeMs :: nat
  re_sequence :: nat
  re_type :: nat
  re_level :: "nat option"
  re_tag :: "nat option"
  re_fmt :: "nat option"
  re_packet :: bytes
  re_decodable :: bool

record log_db =
  db_artifacts :: "stored_artifact list"
  db_strings :: "log_string list"
  db_releases :: "stored_release list"
  db_devices :: "log_device list"
  db_states :: "firmware_state list"
  db_events :: "raw_event list"
  db_next_event :: nat

section \<open>Extraction\<close>

datatype artifact_error = Elf_rejected ElfParseError | No_strings | Elf_empty | Elf_too_large | Artifact_database

definition MAX_ELF_BYTES :: nat where "MAX_ELF_BYTES = 32 * 1024 * 1024"

fun contains_text :: "jsstring \<Rightarrow> jsstring \<Rightarrow> bool" where
  "contains_text p [] = (p = [])"
| "contains_text p (c # s) = (starts_with p (c # s) \<or> contains_text p s)"

text \<open>\<^verbatim>\<open>value.includes("%") || value.includes("{")\<close>\<close>

definition has_conversion :: "jsstring \<Rightarrow> bool" where
  "has_conversion s \<longleftrightarrow> 37 \<in> set s \<or> 123 \<in> set s"

definition is_noload :: "ElfSection \<Rightarrow> bool" where
  "is_noload sec \<longleftrightarrow> starts_with (js ''.noload_keep_in_elf'') (sec_name sec) \<or> sec_name sec = js ''.noload''"

definition is_rodata :: "ElfSection \<Rightarrow> bool" where
  "is_rodata sec \<longleftrightarrow> bit (sec_flags sec) 1 \<and>
     (\<exists>p \<in> {js ''.flash.rodata'', js ''.rodata'', js ''data.rel.ro'', js ''rodata.str'', js ''srodata''}.
        starts_with p (sec_name sec)) \<and>
     \<not> contains_text (js ''.noload'') (sec_name sec)"

definition extract_step :: "ElfInfo \<Rightarrow> bytes \<Rightarrow> ElfSection \<Rightarrow> ElfString list \<times> ElfString list \<Rightarrow> ElfString list \<times> ElfString list" where
  "extract_step info elf sec = (\<lambda>(tags, formats).
     if sec_type sec = 8 then (tags, formats)
     else
       let strings = extractStrings info elf sec in
       if strings = [] then (tags, formats)
       else if is_noload sec then
         (tags @ filter (\<lambda>s. \<not> has_conversion (str_value s)) strings, formats @ filter (\<lambda>s. has_conversion (str_value s)) strings)
       else if is_rodata sec then (tags @ filter (\<lambda>s. \<not> has_conversion (str_value s)) strings, formats)
       else (tags, formats))"

definition extractArtifactStrings :: "bytes \<Rightarrow> artifact_error + (ElfString list \<times> ElfString list)" where
  "extractArtifactStrings elf =
     (case parseElf elf of
        Inl e \<Rightarrow> Inl (Elf_rejected e)
      | Inr info \<Rightarrow>
          let (tags, formats) = fold (extract_step info elf) (elf_sections info) ([], []) in
          if tags = [] \<and> formats = [] then Inl No_strings else Inr (tags, formats))"

section \<open>Import\<close>

record import_options =
  io_project :: row_id
  io_elf :: bytes
  io_version :: "jsstring option"

record imported_artifact =
  ia_artifact :: row_id
  ia_buildId :: jsstring
  ia_tags :: nat
  ia_formats :: nat

definition find_stored_artifact :: "log_db \<Rightarrow> row_id \<Rightarrow> jsstring \<Rightarrow> stored_artifact option" where
  "find_stored_artifact d project buildId = find (\<lambda>a. fa_project a = project \<and> fa_buildId a = buildId) (db_artifacts d)"

definition count_kind :: "log_db \<Rightarrow> row_id \<Rightarrow> string_kind \<Rightarrow> nat" where
  "count_kind d artifact kind = length (filter (\<lambda>s. ls_artifact s = artifact \<and> ls_kind s = kind) (db_strings d))"

definition existing_import :: "log_db \<Rightarrow> jsstring \<Rightarrow> stored_artifact \<Rightarrow> imported_artifact" where
  "existing_import d buildId a =
     \<lparr>ia_artifact = fa_id a, ia_buildId = buildId, ia_tags = count_kind d (fa_id a) Tag, ia_formats = count_kind d (fa_id a) Format\<rparr>"

definition string_key :: "log_string \<Rightarrow> row_id \<times> nat \<times> string_kind" where
  "string_key s = (ls_artifact s, ls_address s, ls_kind s)"

definition string_row :: "row_id \<Rightarrow> string_kind \<Rightarrow> ElfString \<Rightarrow> log_string" where
  "string_row artifact kind s = \<lparr>ls_artifact = artifact, ls_address = str_addr s, ls_kind = kind, ls_value = str_value s\<rparr>"

text \<open>The inserts of the transaction: \<open>None\<close> is a violation of a unique constraint, which undoes them.\<close>

definition insert_artifact :: "stored_artifact \<Rightarrow> log_string list \<Rightarrow> log_db \<Rightarrow> log_db option" where
  "insert_artifact a rows d =
     (if find_stored_artifact d (fa_project a) (fa_buildId a) \<noteq> None \<or> fa_id a \<in> fa_id ` set (db_artifacts d) \<or>
         \<not> distinct (map string_key rows) \<or> string_key ` set rows \<inter> string_key ` set (db_strings d) \<noteq> {}
      then None
      else Some (d\<lparr>db_artifacts := db_artifacts d @ [a], db_strings := db_strings d @ rows\<rparr>))"

definition importArtifact ::
  "(bytes \<Rightarrow> jsstring) \<Rightarrow> row_id \<Rightarrow> (log_db \<Rightarrow> log_db) \<Rightarrow> import_options \<Rightarrow> log_db \<Rightarrow>
     (artifact_error + imported_artifact) \<times> log_db" where
  "importArtifact sha newId others options d =
     (if length (io_elf options) = 0 then (Inl Elf_empty, d)
      else if length (io_elf options) > MAX_ELF_BYTES then (Inl Elf_too_large, d)
      else
        let buildId = sha (io_elf options) in
        case extractArtifactStrings (io_elf options) of
          Inl e \<Rightarrow> (Inl e, d)
        | Inr (tags, formats) \<Rightarrow>
            (case find_stored_artifact d (io_project options) buildId of
               Some a \<Rightarrow> (Inr (existing_import d buildId a), d)
             | None \<Rightarrow>
                 let d = others d;
                     a = \<lparr>fa_id = newId, fa_project = io_project options, fa_buildId = buildId, fa_version = io_version options,
                          fa_elf = io_elf options, fa_elfSize = length (io_elf options)\<rparr> in
                 (case insert_artifact a (map (string_row newId Tag) tags @ map (string_row newId Format) formats) d of
                    Some d' \<Rightarrow>
                      (Inr \<lparr>ia_artifact = newId, ia_buildId = buildId, ia_tags = length tags, ia_formats = length formats\<rparr>, d')
                  | None \<Rightarrow>
                      (case find_stored_artifact d (io_project options) buildId of
                         Some a \<Rightarrow> (Inr (existing_import d buildId a), d)
                       | None \<Rightarrow> (Inl Artifact_database, d)))))"

definition backfillDecodeState :: "row_id \<Rightarrow> jsstring \<Rightarrow> log_db \<Rightarrow> nat \<times> log_db" where
  "backfillDecodeState artifactId buildId d =
     (case find (\<lambda>a. fa_id a = artifactId) (db_artifacts d) of
        None \<Rightarrow> (0, d)
      | Some a \<Rightarrow>
          let in_project = (\<lambda>id. \<exists>v \<in> set (db_devices d). ld_id v = id \<and> ld_project v = fa_project a);
              devices = map fs_device (filter (\<lambda>s. fs_hash s = buildId \<and> in_project (fs_device s)) (db_states d));
              chosen = (\<lambda>e. \<not> re_decodable e \<and> re_artifact e = None \<and> re_device e \<in> set devices) in
          if devices = [] then (0, d)
          else (length (filter chosen (db_events d)),
                d\<lparr>db_events := map (\<lambda>e. if chosen e then e\<lparr>re_decodable := True, re_artifact := Some artifactId\<rparr> else e)
                                 (db_events d)\<rparr>))"

section \<open>Releases\<close>

definition MAX_FIRMWARE_BYTES :: nat where "MAX_FIRMWARE_BYTES = 32 * 1024 * 1024"

datatype release_error = Bin_empty | Bin_too_large | Release_artifact artifact_error | Release_database

record created_release =
  cr_release :: row_id
  cr_binHash :: jsstring
  cr_binSize :: nat
  cr_artifact :: "row_id option"
  cr_version :: "jsstring option"
  cr_existed :: bool

definition find_stored_release :: "log_db \<Rightarrow> row_id \<Rightarrow> jsstring \<Rightarrow> stored_release option" where
  "find_stored_release d project binHash = find (\<lambda>r. fr_project r = project \<and> fr_binHash r = binHash) (db_releases d)"

definition existing_release :: "jsstring \<Rightarrow> stored_release \<Rightarrow> created_release" where
  "existing_release binHash r =
     \<lparr>cr_release = fr_id r, cr_binHash = binHash, cr_binSize = fr_binSize r, cr_artifact = fr_artifact r, cr_version = fr_version r,
      cr_existed = True\<rparr>"

definition store_release ::
  "row_id \<Rightarrow> (log_db \<Rightarrow> log_db) \<Rightarrow> row_id \<Rightarrow> row_id option \<Rightarrow> jsstring \<Rightarrow> bytes \<Rightarrow> jsstring option \<Rightarrow> log_db \<Rightarrow>
     (release_error + created_release) \<times> log_db" where
  "store_release newId others project artifactId binHash bin version d =
     (case find_stored_release d project binHash of
        Some r \<Rightarrow> (Inr (existing_release binHash r), d)
      | None \<Rightarrow>
          let d = others d in
          (case find_stored_release d project binHash of
             Some r \<Rightarrow> (Inr (existing_release binHash r), d)
           | None \<Rightarrow>
               if newId \<in> fr_id ` set (db_releases d) then (Inl Release_database, d)
               else
                 (Inr \<lparr>cr_release = newId, cr_binHash = binHash, cr_binSize = length bin, cr_artifact = artifactId,
                       cr_version = version, cr_existed = False\<rparr>,
                  d\<lparr>db_releases := db_releases d @
                     [\<lparr>fr_id = newId, fr_project = project, fr_artifact = artifactId, fr_binHash = binHash, fr_bin = bin,
                       fr_binSize = length bin, fr_version = version\<rparr>]\<rparr>)))"

text \<open>\<open>ids\<close> are the identifiers of the artifact and the release; other transactions may run before the insert of the artifact,
  between the two transactions and before the insert of the release.\<close>

definition createFirmwareRelease ::
  "(bytes \<Rightarrow> jsstring) \<Rightarrow> row_id \<times> row_id \<Rightarrow> (log_db \<Rightarrow> log_db) \<times> (log_db \<Rightarrow> log_db) \<times> (log_db \<Rightarrow> log_db) \<Rightarrow>
     row_id \<Rightarrow> bytes \<Rightarrow> bytes option \<Rightarrow> jsstring option \<Rightarrow> log_db \<Rightarrow> (release_error + created_release) \<times> log_db" where
  "createFirmwareRelease sha ids others project bin elf version d =
     (if length bin = 0 then (Inl Bin_empty, d)
      else if length bin > MAX_FIRMWARE_BYTES then (Inl Bin_too_large, d)
      else
        let (o1, o2, o3) = others in
        case elf of
          None \<Rightarrow> store_release (snd ids) o3 project None (sha bin) bin version (o2 d)
        | Some firmware \<Rightarrow>
            (case importArtifact sha (fst ids) o1 \<lparr>io_project = project, io_elf = firmware, io_version = version\<rparr> d of
               (Inl e, d) \<Rightarrow> (Inl (Release_artifact e), d)
             | (Inr a, d) \<Rightarrow> store_release (snd ids) o3 project (Some (ia_artifact a)) (sha bin) bin version (o2 d)))"

section \<open>Ingestion\<close>

definition DEVICE_CACHE_TTL_MS :: int where "DEVICE_CACHE_TTL_MS = 60000"

record cached_device =
  cd_id :: row_id
  cd_expiresAt :: int

text \<open>The cache of device identifiers, cleared when it passes ten thousand entries.\<close>

definition resolveDeviceId ::
  "int \<Rightarrow> log_db \<Rightarrow> jsstring \<Rightarrow> (jsstring \<times> cached_device) list \<Rightarrow> row_id option \<times> (jsstring \<times> cached_device) list" where
  "resolveDeviceId now d deviceUid cache =
     (let cached = map_of cache deviceUid in
      if cached \<noteq> None \<and> cd_expiresAt (the cached) > now then (Some (cd_id (the cached)), cache)
      else
        case find (\<lambda>v. ld_uid v = deviceUid) (db_devices d) of
          None \<Rightarrow> (None, cache)
        | Some v \<Rightarrow>
            let cache = AList.update deviceUid \<lparr>cd_id = ld_id v, cd_expiresAt = now + DEVICE_CACHE_TTL_MS\<rparr> cache in
            (Some (ld_id v), if length cache > 10000 then [] else cache))"

datatype ingest_error = Invalid_packet On9logParseError | Ingest_database

text \<open>The artifact of the firmware the device reported last, in the device's own project.\<close>

definition resolveArtifactId :: "log_db \<Rightarrow> row_id \<Rightarrow> row_id option" where
  "resolveArtifactId d deviceId =
     (case find (\<lambda>s. fs_device s = deviceId) (db_states d) of
        None \<Rightarrow> None
      | Some s \<Rightarrow>
          (case find (\<lambda>v. ld_id v = deviceId) (db_devices d) of
             None \<Rightarrow> None
           | Some v \<Rightarrow> map_option fa_id (find_stored_artifact d (ld_project v) (fs_hash s))))"

fun packet_header :: "On9logPacket \<Rightarrow> On9logPacketHeader" where
  "packet_header (LogPacket h _ _ _) = h"
| "packet_header (DroppedPacket h _) = h"
| "packet_header (TimeSyncPacket h _ _) = h"
| "packet_header (BufferPacket h _ _ _) = h"
| "packet_header (BootPacket h _) = h"

definition log_event_row :: "row_id \<Rightarrow> row_id option \<Rightarrow> bytes \<Rightarrow> On9logPacketHeader \<Rightarrow> nat \<Rightarrow> raw_event" where
  "log_event_row deviceId artifactId packet h eventId =
     (let isLog = (htype h = 0) in
      \<lparr>re_id = eventId, re_device = deviceId, re_artifact = artifactId, re_timeMs = timeMs h, re_sequence = seq h, re_type = htype h,
       re_level = (if isLog then Some (level h) else None), re_tag = (if isLog then Some (tagId h) else None),
       re_fmt = (if isLog then Some (fmtId h) else None), re_packet = packet, re_decodable = (artifactId \<noteq> None)\<rparr>)"

text \<open>An insert fails when the device is gone.\<close>

definition insert_events :: "row_id \<Rightarrow> (nat \<Rightarrow> raw_event) list \<Rightarrow> log_db \<Rightarrow> log_db option" where
  "insert_events deviceId rows d =
     (if deviceId \<notin> ld_id ` set (db_devices d) then None
      else Some (d\<lparr>db_events := db_events d @ map (\<lambda>(n, row). row (db_next_event d + n)) (List.enumerate 0 rows),
                   db_next_event := db_next_event d + length rows\<rparr>))"

definition ingestLogPacket :: "(log_db \<Rightarrow> log_db) \<Rightarrow> row_id \<Rightarrow> bytes \<Rightarrow> log_db \<Rightarrow> (ingest_error + nat \<times> nat) \<times> log_db" where
  "ingestLogPacket others deviceId packetBytes d =
     (case parseOn9logPacket packetBytes of
        Inl e \<Rightarrow> (Inl (Invalid_packet e), d)
      | Inr packet \<Rightarrow>
          let artifactId = resolveArtifactId d deviceId; d = others d; h = packet_header packet in
          (case insert_events deviceId [log_event_row deviceId artifactId packetBytes h] d of
             None \<Rightarrow> (Inl Ingest_database, d)
           | Some d' \<Rightarrow> (Inr (db_next_event d, htype h), d')))"

text \<open>The loop over the elements: the rows of the good ones and the number of the others.\<close>

fun bundle_rows :: "bytes list \<Rightarrow> (bytes \<times> On9logPacketHeader) list \<times> nat" where
  "bundle_rows [] = ([], 0)"
| "bundle_rows (element # es) =
     (let (rows, dropped) = bundle_rows es in
      case parseOn9logPacket element of
        Inl _ \<Rightarrow> (rows, dropped + 1)
      | Inr packet \<Rightarrow> ((element, packet_header packet) # rows, dropped))"

definition ingestLogBundle :: "(log_db \<Rightarrow> log_db) \<Rightarrow> row_id \<Rightarrow> bytes list \<Rightarrow> log_db \<Rightarrow> (ingest_error + nat \<times> nat) \<times> log_db" where
  "ingestLogBundle others deviceId elements d =
     (let (rows, dropped) = bundle_rows elements in
      if rows = [] then (Inr (0, dropped), d)
      else
        let artifactId = resolveArtifactId d deviceId; d = others d in
        (case insert_events deviceId (map (\<lambda>(element, h). log_event_row deviceId artifactId element h) rows) d of
           None \<Rightarrow> (Inl Ingest_database, d)
         | Some d' \<Rightarrow> (Inr (length rows, dropped), d')))"

section \<open>Decoding\<close>

record DecodedEvent =
  de_tag :: "jsstring option"
  de_message :: "jsstring option"

definition undecoded :: DecodedEvent where
  "undecoded = \<lparr>de_tag = None, de_message = None\<rparr>"

definition find_string :: "log_db \<Rightarrow> row_id \<Rightarrow> nat \<Rightarrow> string_kind \<Rightarrow> jsstring option" where
  "find_string d artifact address kind =
     map_option ls_value (find (\<lambda>s. string_key s = (artifact, address, kind)) (db_strings d))"

definition decodeRawEvent :: "log_db \<Rightarrow> raw_event \<Rightarrow> DecodedEvent" where
  "decodeRawEvent d event =
     (if re_type event \<noteq> 0 then undecoded
      else
        case (re_artifact event, re_tag event, re_fmt event) of
          (Some a, Some t, Some f) \<Rightarrow>
            (case (find_string d a t Tag, find_string d a f Format) of
               (Some tag, Some format) \<Rightarrow>
                 (case parseOn9logPacket (re_packet event) of
                    Inl _ \<Rightarrow> \<lparr>de_tag = Some tag, de_message = None\<rparr>
                  | Inr (LogPacket _ _ _ argv) \<Rightarrow>
                      (case renderFormat format argv of
                         Inl _ \<Rightarrow> \<lparr>de_tag = Some tag, de_message = None\<rparr>
                       | Inr text \<Rightarrow> \<lparr>de_tag = Some tag, de_message = Some text\<rparr>)
                  | Inr _ \<Rightarrow> undecoded)
             | _ \<Rightarrow> undecoded)
        | _ \<Rightarrow> undecoded)"

record arg_summary =
  as_argCount :: nat
  as_hasStrings :: bool

definition summarizeArgs :: "bytes \<Rightarrow> arg_summary option" where
  "summarizeArgs packetBytes =
     (case parseOn9logPacket packetBytes of
        Inr (LogPacket _ _ _ argv) \<Rightarrow>
          Some \<lparr>as_argCount = length argv,
                as_hasStrings = list_ex (\<lambda>a. case a of DynamicString _ \<Rightarrow> True | DynamicStringView _ \<Rightarrow> True | _ \<Rightarrow> False) argv\<rparr>
      | _ \<Rightarrow> None)"

definition DICTIONARY_TTL_MS :: int where "DICTIONARY_TTL_MS = 60000"
definition DICTIONARY_CACHE_MAX :: nat where "DICTIONARY_CACHE_MAX = 200"

text \<open>A dictionary maps \<^verbatim>\<open>kind:address\<close> to the text; a later row replaces an earlier one.\<close>

type_synonym dictionary = "(string_kind \<times> nat) \<rightharpoonup> jsstring"

record dictionary_entry =
  dc_map :: dictionary
  dc_expiresAt :: int

type_synonym dictionary_cache = "(row_id \<times> dictionary_entry) list"

definition load_dictionary :: "log_db \<Rightarrow> row_id \<Rightarrow> dictionary" where
  "load_dictionary d artifactId =
     fold (\<lambda>row m. m((ls_kind row, ls_address row) \<mapsto> ls_value row)) (filter (\<lambda>s. ls_artifact s = artifactId) (db_strings d)) Map.empty"

definition evict :: "int \<Rightarrow> dictionary_cache \<Rightarrow> dictionary_cache" where
  "evict now cache =
     (if length cache > DICTIONARY_CACHE_MAX then
        let live = filter (\<lambda>(_, e). \<not> dc_expiresAt e < now) cache in drop (length live - DICTIONARY_CACHE_MAX) live
      else cache)"

definition cached_dictionary :: "int \<Rightarrow> log_db \<Rightarrow> row_id \<Rightarrow> dictionary_cache \<Rightarrow> dictionary \<times> dictionary_cache" where
  "cached_dictionary now d artifactId cache =
     (case map_of cache artifactId of
        Some e \<Rightarrow>
          if dc_expiresAt e < now then
            let m = load_dictionary d artifactId in
            (m, evict now (AList.update artifactId \<lparr>dc_map = m, dc_expiresAt = now + DICTIONARY_TTL_MS\<rparr> cache))
          else (dc_map e, cache)
      | None \<Rightarrow>
          let m = load_dictionary d artifactId in
          (m, evict now (AList.update artifactId \<lparr>dc_map = m, dc_expiresAt = now + DICTIONARY_TTL_MS\<rparr> cache)))"

text \<open>The dictionaries of the artifacts of a page, each loaded once, in the order of first occurrence.\<close>

fun load_all :: "int \<Rightarrow> log_db \<Rightarrow> row_id list \<Rightarrow> dictionary_cache \<Rightarrow> (row_id \<rightharpoonup> dictionary) \<times> dictionary_cache" where
  "load_all now d [] cache = (Map.empty, cache)"
| "load_all now d (a # as) cache =
     (let (m, cache) = cached_dictionary now d a cache; (ms, cache) = load_all now d as cache in (ms(a \<mapsto> m), cache))"

definition decode_with :: "(row_id \<rightharpoonup> dictionary) \<Rightarrow> raw_event \<Rightarrow> DecodedEvent" where
  "decode_with dictionaries event =
     (if re_type event \<noteq> 0 then undecoded
      else
        case (re_artifact event, re_tag event, re_fmt event) of
          (Some a, Some t, Some f) \<Rightarrow>
            (case dictionaries a of
               None \<Rightarrow> undecoded
             | Some dict \<Rightarrow>
                 (case (dict (Tag, t), dict (Format, f)) of
                    (Some tag, Some format) \<Rightarrow>
                      (case parseOn9logPacket (re_packet event) of
                         Inl _ \<Rightarrow> \<lparr>de_tag = Some tag, de_message = None\<rparr>
                       | Inr (LogPacket _ _ _ argv) \<Rightarrow>
                           (case renderFormat format argv of
                              Inl _ \<Rightarrow> \<lparr>de_tag = Some tag, de_message = None\<rparr>
                            | Inr text \<Rightarrow> \<lparr>de_tag = Some tag, de_message = Some text\<rparr>)
                       | Inr _ \<Rightarrow> undecoded)
                  | _ \<Rightarrow> undecoded))
        | _ \<Rightarrow> undecoded)"

definition decodeEventsBatch :: "int \<Rightarrow> log_db \<Rightarrow> raw_event list \<Rightarrow> dictionary_cache \<Rightarrow> DecodedEvent list \<times> dictionary_cache" where
  "decodeEventsBatch now d events cache =
     (let artifactIds = remdups (rev (List.map_filter re_artifact events));
          (dictionaries, cache) = load_all now d (rev artifactIds) cache in
      (map (decode_with dictionaries) events, cache))"

end
