(* ===== verification/LogProperties.thy ===== *)
theory LogProperties
  imports LogStore RenderProperties
begin

text \<open>
  From the firmware image to the message on the screen: what an import stores, which messages can be decoded, and the agreement of
  the batch paths with the single ones.
\<close>

section \<open>Ingestion\<close>

definition ingest_one :: "row_id \<Rightarrow> bytes \<Rightarrow> log_db \<Rightarrow> log_db" where
  "ingest_one deviceId packet d = snd (ingestLogPacket id deviceId packet d)"

lemma enumerate_shift: "map (\<lambda>(n, row). row (k + n)) (List.enumerate m rows) = map (\<lambda>(n, row). row n) (List.enumerate (k + m) rows)"
  by (induction rows arbitrary: m) auto

lemma insert_events_Cons:
  assumes "deviceId \<in> ld_id ` set (db_devices d)"
  shows "insert_events deviceId (row # rows) d =
    insert_events deviceId rows (d\<lparr>db_events := db_events d @ [row (db_next_event d)], db_next_event := db_next_event d + 1\<rparr>)"
  using assms enumerate_shift [of "Suc (db_next_event d)" 0 rows] enumerate_shift [of "db_next_event d" 1 rows]
  by (simp add: insert_events_def)

lemma resolve_after_insert:
  "resolveArtifactId (d\<lparr>db_events := es, db_next_event := n\<rparr>) deviceId = resolveArtifactId d deviceId"
  by (simp add: resolveArtifactId_def find_stored_artifact_def split: option.split)

lemma bundle_singles:
  assumes "deviceId \<in> ld_id ` set (db_devices d)"
  shows "insert_events deviceId (map (\<lambda>(e, h). log_event_row deviceId (resolveArtifactId d deviceId) e h) (fst (bundle_rows elements))) d =
    Some (fold (ingest_one deviceId) elements d)"
  using assms
proof (induction elements arbitrary: d)
  case Nil
  then show ?case by (simp add: insert_events_def)
next
  case (Cons e es)
  show ?case
  proof (cases "parseOn9logPacket e")
    case (Inl err)
    then show ?thesis using Cons by (simp add: ingest_one_def ingestLogPacket_def split_beta Let_def)
  next
    case (Inr p)
    let ?row = "log_event_row deviceId (resolveArtifactId d deviceId) e (packet_header p)"
    let ?d = "d\<lparr>db_events := db_events d @ [?row (db_next_event d)], db_next_event := db_next_event d + 1\<rparr>"
    have one: "ingest_one deviceId e d = ?d"
      using Cons.prems by (simp add: ingest_one_def ingestLogPacket_def Inr Let_def insert_events_def)
    have "deviceId \<in> ld_id ` set (db_devices ?d)" using Cons.prems by simp
    from Cons.IH [OF this] show ?thesis
      by (simp add: Inr split_beta Let_def insert_events_Cons [OF Cons.prems] one resolve_after_insert)
  qed
qed

lemma ingest_missing_device: "deviceId \<notin> ld_id ` set (db_devices d) \<Longrightarrow> ingest_one deviceId e d = d"
  by (simp add: ingest_one_def ingestLogPacket_def insert_events_def Let_def split: sum.split)

lemma bundle_counts:
  "length (fst (bundle_rows elements)) + snd (bundle_rows elements) = length elements"
  by (induction elements) (auto simp: split_beta Let_def split: sum.split)

text \<open>
  C16. A bundle amounts to its elements one by one: storing a bundle in one pass leaves the tables exactly as ingesting its elements
  in order would, bad elements dropped alone and every row with the same artifact, fields and identifier; and when it succeeds the
  numbers of stored and dropped elements add up to the elements received.
\<close>

theorem bundle_equals_singles:
  "snd (ingestLogBundle id deviceId elements d) = fold (ingest_one deviceId) elements d \<and>
   (case fst (ingestLogBundle id deviceId elements d) of
      Inr (stored, dropped) \<Rightarrow> stored + dropped = length elements
    | Inl _ \<Rightarrow> deviceId \<notin> ld_id ` set (db_devices d))"
proof (cases "deviceId \<in> ld_id ` set (db_devices d)")
  case True
  have "fold (ingest_one deviceId) elements d = d" if "fst (bundle_rows elements) = []"
    using bundle_singles [OF True, of elements] that True by (simp add: insert_events_def)
  then show ?thesis
    using bundle_singles [OF True, of elements] bundle_counts [of elements]
    by (auto simp: ingestLogBundle_def split_beta Let_def)
next
  case False
  have same: "fold (ingest_one deviceId) elements d = d"
    by (induction elements) (simp_all add: ingest_missing_device [OF False])
  show ?thesis
    using False bundle_counts [of elements]
    by (auto simp: ingestLogBundle_def split_beta Let_def insert_events_def same)
qed

section \<open>Backfill\<close>

lemma find_only:
  assumes "x \<in> set xs" and "P x" and "\<And>y. y \<in> set xs \<Longrightarrow> P y \<Longrightarrow> y = x"
  shows "find P xs = Some x"
proof (cases "find P xs")
  case None
  then show ?thesis using assms(1,2) by (auto simp: find_None_iff)
next
  case (Some y)
  then have "y \<in> set xs" "P y" by (auto simp: find_Some_iff)
  then show ?thesis using assms(3) Some by auto
qed

text \<open>The unique constraints the backfill rests on.\<close>

definition log_keys :: "log_db \<Rightarrow> bool" where
  "log_keys d \<longleftrightarrow> distinct (map fa_id (db_artifacts d)) \<and> distinct (map (\<lambda>a. (fa_project a, fa_buildId a)) (db_artifacts d)) \<and>
     distinct (map ld_id (db_devices d)) \<and> distinct (map fs_device (db_states d)) \<and> distinct (map string_key (db_strings d))"

lemma inj_on_distinct: "distinct (map f xs) \<Longrightarrow> x \<in> set xs \<Longrightarrow> y \<in> set xs \<Longrightarrow> f x = f y \<Longrightarrow> x = y"
  by (auto simp: distinct_map dest: inj_onD)

text \<open>
  C40. Backfill agrees with ingestion: exactly the events without an artifact whose device last reported the build and belongs to
  the artifact's project become decodable, each is linked to the artifact that ingestion would now give it, the number returned is
  the number of events changed, and no event of another project is touched.
\<close>

theorem backfill_agrees_with_ingest:
  assumes keys: "log_keys d" and a: "a \<in> set (db_artifacts d)" and run: "backfillDecodeState (fa_id a) (fa_buildId a) d = (n, d')"
  shows "db_events d' = map (\<lambda>e. if \<not> re_decodable e \<and> re_artifact e = None \<and> resolveArtifactId d (re_device e) = Some (fa_id a)
      then e\<lparr>re_decodable := True, re_artifact := Some (fa_id a)\<rparr> else e) (db_events d) \<and>
    n = length (filter (\<lambda>e. \<not> re_decodable e \<and> re_artifact e = None \<and> resolveArtifactId d (re_device e) = Some (fa_id a)) (db_events d))"
proof -
  let ?dev = "\<lambda>id. \<exists>v \<in> set (db_devices d). ld_id v = id \<and> ld_project v = fa_project a"
  let ?devices = "map fs_device (filter (\<lambda>s. fs_hash s = fa_buildId a \<and> ?dev (fs_device s)) (db_states d))"
  have fa: "find (\<lambda>b. fa_id b = fa_id a) (db_artifacts d) = Some a"
    using keys a by (intro find_only) (auto simp: log_keys_def dest: inj_on_distinct)
  have resolve: "resolveArtifactId d id = Some (fa_id a) \<longleftrightarrow> id \<in> set ?devices" for id
  proof
    assume "resolveArtifactId d id = Some (fa_id a)"
    then obtain s v b where s: "find (\<lambda>s. fs_device s = id) (db_states d) = Some s"
      and v: "find (\<lambda>v. ld_id v = id) (db_devices d) = Some v" and b: "find_stored_artifact d (ld_project v) (fs_hash s) = Some b" "fa_id b = fa_id a"
      by (auto simp: resolveArtifactId_def split: option.splits)
    have "b \<in> set (db_artifacts d)" "fa_project b = ld_project v" "fa_buildId b = fs_hash s"
      using b(1) by (auto simp: find_stored_artifact_def find_Some_iff)
    moreover from this have "b = a" using keys a b(2) by (auto simp: log_keys_def dest: inj_on_distinct)
    ultimately show "id \<in> set ?devices" using s v by (auto simp: find_Some_iff image_iff) (metis nth_mem)+
  next
    assume "id \<in> set ?devices"
    then obtain s v where s: "s \<in> set (db_states d)" "fs_device s = id" "fs_hash s = fa_buildId a"
      and v: "v \<in> set (db_devices d)" "ld_id v = id" "ld_project v = fa_project a" by auto
    have "find (\<lambda>s. fs_device s = id) (db_states d) = Some s" using keys s by (intro find_only) (auto simp: log_keys_def dest: inj_on_distinct)
    moreover have "find (\<lambda>v. ld_id v = id) (db_devices d) = Some v"
      using keys v by (intro find_only) (auto simp: log_keys_def dest: inj_on_distinct)
    moreover have "find_stored_artifact d (ld_project v) (fs_hash s) = Some a"
      unfolding find_stored_artifact_def using keys a s v
      by (intro find_only) (auto simp: log_keys_def dest: inj_on_distinct [of "\<lambda>a. (fa_project a, fa_buildId a)"])
    ultimately show "resolveArtifactId d id = Some (fa_id a)" by (simp add: resolveArtifactId_def)
  qed
  show ?thesis
  proof (cases "?devices = []")
    case True
    then have "n = 0 \<and> d' = d" using run unfolding backfillDecodeState_def Let_def fa by simp
    moreover have "resolveArtifactId d id \<noteq> Some (fa_id a)" for id by (simp add: resolve True del: set_map)
    ultimately show ?thesis by (simp add: map_idI)
  next
    case False
    then show ?thesis using run unfolding backfillDecodeState_def Let_def fa by (simp only: resolve option.case if_False) auto
  qed
qed

section \<open>Decoding\<close>

lemma load_dictionary_lookup:
  assumes "distinct (map string_key rows)"
  shows "fold (\<lambda>row m. m((ls_kind row, ls_address row) \<mapsto> ls_value row)) (filter (\<lambda>s. ls_artifact s = a) rows) m (k, addr) =
    (case find (\<lambda>s. string_key s = (a, addr, k)) rows of Some s \<Rightarrow> Some (ls_value s) | None \<Rightarrow> m (k, addr))"
  using assms
proof (induction rows arbitrary: m)
  case Nil
  then show ?case by simp
next
  case (Cons r rows)
  have "find (\<lambda>s. string_key s = (a, addr, k)) rows = None" if "string_key r = (a, addr, k)"
    using Cons.prems that by (auto simp: find_None_iff image_iff)
  with Cons show ?case by (auto simp: string_key_def)
qed

lemma dictionary_find_string:
  "distinct (map string_key (db_strings d)) \<Longrightarrow> load_dictionary d a (k, addr) = find_string d a addr k"
  by (simp add: load_dictionary_def find_string_def load_dictionary_lookup split: option.split)

text \<open>An entry that has not expired is up to date.\<close>

definition coherent :: "int \<Rightarrow> log_db \<Rightarrow> dictionary_cache \<Rightarrow> bool" where
  "coherent now d cache \<longleftrightarrow> distinct (map fst cache) \<and>
     (\<forall>(a, e) \<in> set cache. now \<le> dc_expiresAt e \<longrightarrow> dc_map e = load_dictionary d a)"

lemma evict_subset: "set (evict now cache) \<subseteq> set cache"
  by (auto simp: evict_def Let_def dest: in_set_dropD)

lemma evict_length: "length (evict now cache) \<le> max (length cache) DICTIONARY_CACHE_MAX \<and> length (evict now cache) \<le> DICTIONARY_CACHE_MAX"
  by (auto simp: evict_def Let_def)

lemma evict_distinct: "distinct (map fst cache) \<Longrightarrow> distinct (map fst (evict now cache))"
  by (auto simp: evict_def Let_def drop_map [symmetric] distinct_map_filter)

lemma coherent_evict: "coherent now d cache \<Longrightarrow> coherent now d (evict now cache)"
  using evict_subset [of now cache] evict_distinct [of cache now] by (fastforce simp: coherent_def)

lemma coherent_update:
  assumes "coherent now d cache"
  shows "coherent now d (AList.update a \<lparr>dc_map = load_dictionary d a, dc_expiresAt = t\<rparr> cache)"
proof -
  have sub: "set (AList.update a v cache) \<subseteq> insert (a, v) (set cache)" for v
    by (induction cache) (auto split: if_splits)
  have "p = (a, v) \<or> p \<in> set cache" if "p \<in> set (AList.update a v cache)" for p v using sub [of v] that by blast
  then show ?thesis using assms by (fastforce simp: coherent_def distinct_update)
qed

lemma cached_dictionary_coherent:
  assumes "coherent now d cache" and "length cache \<le> DICTIONARY_CACHE_MAX"
  shows "fst (cached_dictionary now d a cache) = load_dictionary d a \<and> coherent now d (snd (cached_dictionary now d a cache)) \<and>
    length (snd (cached_dictionary now d a cache)) \<le> DICTIONARY_CACHE_MAX"
proof (cases "\<exists>e. map_of cache a = Some e \<and> \<not> dc_expiresAt e < now")
  case True
  then obtain e where e: "map_of cache a = Some e" "\<not> dc_expiresAt e < now" by blast
  then have "dc_map e = load_dictionary d a" using assms(1) by (auto simp: coherent_def dest!: map_of_SomeD)
  with e assms show ?thesis by (simp add: cached_dictionary_def)
next
  case False
  then have "cached_dictionary now d a cache = (load_dictionary d a,
      evict now (AList.update a \<lparr>dc_map = load_dictionary d a, dc_expiresAt = now + DICTIONARY_TTL_MS\<rparr> cache))"
    by (auto simp: cached_dictionary_def Let_def split: option.split)
  then show ?thesis using coherent_evict [OF coherent_update [OF assms(1)]] evict_length by auto
qed

lemma load_all_coherent:
  "coherent now d cache \<Longrightarrow> length cache \<le> DICTIONARY_CACHE_MAX \<Longrightarrow>
     fst (load_all now d as cache) = (\<lambda>a. if a \<in> set as then Some (load_dictionary d a) else None) \<and>
     coherent now d (snd (load_all now d as cache)) \<and> length (snd (load_all now d as cache)) \<le> DICTIONARY_CACHE_MAX"
proof (induction as arbitrary: cache)
  case Nil
  then show ?case by simp
next
  case (Cons a as)
  note c = cached_dictionary_coherent [OF Cons.prems, of a]
  with Cons.IH [of "snd (cached_dictionary now d a cache)"] show ?case
    by (auto simp: split_beta Let_def)
qed

lemma decode_with_dictionaries:
  assumes "distinct (map string_key (db_strings d))"
    and "\<And>a. re_artifact e = Some a \<Longrightarrow> dictionaries a = Some (load_dictionary d a)"
  shows "decode_with dictionaries e = decodeRawEvent d e"
  using assms(2) by (auto simp: decode_with_def decodeRawEvent_def dictionary_find_string [OF assms(1)] split: option.splits)

lemma batch_agrees_coherent:
  assumes "distinct (map string_key (db_strings d))" and "coherent now d cache" and "length cache \<le> DICTIONARY_CACHE_MAX"
  shows "fst (decodeEventsBatch now d events cache) = map (decodeRawEvent d) events \<and>
    coherent now d (snd (decodeEventsBatch now d events cache)) \<and>
    length (snd (decodeEventsBatch now d events cache)) \<le> DICTIONARY_CACHE_MAX"
proof -
  let ?as = "rev (remdups (rev (List.map_filter re_artifact events)))"
  note l = load_all_coherent [OF assms(2,3), of ?as]
  have "decode_with (fst (load_all now d ?as cache)) e = decodeRawEvent d e" if "e \<in> set events" for e
  proof (rule decode_with_dictionaries)
    show "distinct (map string_key (db_strings d))" by (rule assms(1))
    fix a assume "re_artifact e = Some a"
    with that have "a \<in> set ?as" by (force simp: map_filter_def)
    with l show "fst (load_all now d ?as cache) a = Some (load_dictionary d a)" by simp
  qed
  with l show ?thesis by (simp add: decodeEventsBatch_def split_beta Let_def)
qed

section \<open>Import\<close>

text \<open>Strings belong to artifacts, as the foreign key of the table demands.\<close>

definition strings_owned :: "log_db \<Rightarrow> bool" where
  "strings_owned d \<longleftrightarrow> (\<forall>s \<in> set (db_strings d). ls_artifact s \<in> fa_id ` set (db_artifacts d))"

lemma import_Inr:
  assumes "importArtifact sha newId others options d = (Inr r, d')"
  obtains (existing) a where "find_stored_artifact d' (io_project options) (sha (io_elf options)) = Some a"
      "r = existing_import d' (sha (io_elf options)) a" "d' = d \<or> d' = others d"
    | (created) tags formats where "extractArtifactStrings (io_elf options) = Inr (tags, formats)"
      "find_stored_artifact (others d) (io_project options) (sha (io_elf options)) = None"
      "insert_artifact \<lparr>fa_id = newId, fa_project = io_project options, fa_buildId = sha (io_elf options),
          fa_version = io_version options, fa_elf = io_elf options, fa_elfSize = length (io_elf options)\<rparr>
        (map (string_row newId Tag) tags @ map (string_row newId Format) formats) (others d) = Some d'"
      "r = \<lparr>ia_artifact = newId, ia_buildId = sha (io_elf options), ia_tags = length tags, ia_formats = length formats\<rparr>"
proof -
  have ok: "length (io_elf options) \<noteq> 0" "\<not> length (io_elf options) > MAX_ELF_BYTES"
    using assms by (auto simp: importArtifact_def split: if_splits)
  then obtain tags formats where x: "extractArtifactStrings (io_elf options) = Inr (tags, formats)"
    using assms by (auto simp: importArtifact_def Let_def split: sum.splits)
  show thesis
  proof (cases "find_stored_artifact d (io_project options) (sha (io_elf options))")
    case (Some a)
    then show ?thesis using assms ok x by (intro existing [of a]) (auto simp: importArtifact_def Let_def)
  next
    case None
    show ?thesis
    proof (cases "find_stored_artifact (others d) (io_project options) (sha (io_elf options))")
      case (Some a)
      then show ?thesis using assms ok x None
        by (intro existing [of a]) (auto simp: importArtifact_def Let_def insert_artifact_def)
    next
      case none: None
      show ?thesis
        by (rule created [OF x none]) (use assms ok x None none in \<open>auto simp: importArtifact_def Let_def split: option.splits\<close>)
    qed
  qed
qed

lemma insert_artifact_Some:
  assumes "insert_artifact a rows d = Some d'"
  shows "fa_id a \<notin> fa_id ` set (db_artifacts d)" and "distinct (map string_key rows)"
    and "string_key ` set rows \<inter> string_key ` set (db_strings d) = {}"
    and "find_stored_artifact d (fa_project a) (fa_buildId a) = None"
    and "d' = d\<lparr>db_artifacts := db_artifacts d @ [a], db_strings := db_strings d @ rows\<rparr>"
  using assms by (auto simp: insert_artifact_def split: if_splits)

lemma find_append: "find P (xs @ ys) = (case find P xs of Some x \<Rightarrow> Some x | None \<Rightarrow> find P ys)"
  by (induction xs) auto

lemma filter_rows:
  "filter (\<lambda>s. ls_artifact s = i \<and> ls_kind s = k) (map (string_row i k') xs) = (if k = k' then map (string_row i k') xs else [])"
  by (induction xs) (auto simp: string_row_def)

text \<open>
  Importing again changes nothing: once an image is imported into a project, a second import of it, with whatever fresh
  identifier and whatever other transactions in between its own statements, returns the same artifact with the same numbers of tags
  and formats and leaves the tables as they are.
\<close>

theorem reimport_idempotent:
  assumes run: "importArtifact sha newId others options d = (Inr r, d')" and owned: "strings_owned (others d)"
  shows "importArtifact sha newId' others' options d' = (Inr r, d')"
proof -
  let ?b = "sha (io_elf options)"
  have ok: "length (io_elf options) \<noteq> 0" "\<not> length (io_elf options) > MAX_ELF_BYTES"
    using run by (auto simp: importArtifact_def split: if_splits)
  obtain tags formats where x: "extractArtifactStrings (io_elf options) = Inr (tags, formats)"
    using run ok by (auto simp: importArtifact_def Let_def split: sum.splits)
  have again: "importArtifact sha newId' others' options d' = (Inr (existing_import d' ?b a), d')"
    if "find_stored_artifact d' (io_project options) ?b = Some a" for a
    using ok x that by (simp add: importArtifact_def Let_def)
  from run show ?thesis
  proof (cases rule: import_Inr)
    case (existing a)
    then show ?thesis using again [of a] by simp
  next
    case (created tags formats)
    let ?a = "\<lparr>fa_id = newId, fa_project = io_project options, fa_buildId = ?b, fa_version = io_version options,
      fa_elf = io_elf options, fa_elfSize = length (io_elf options)\<rparr>"
    note i = insert_artifact_Some [OF created(3)]
    have "find_stored_artifact d' (io_project options) ?b = Some ?a"
      using created(2) by (simp add: i(5) find_stored_artifact_def find_append)
    moreover have "\<forall>s \<in> set (db_strings (others d)). ls_artifact s \<noteq> newId"
      using owned i(1) by (auto simp: strings_owned_def)
    then have "count_kind d' newId Tag = length tags" "count_kind d' newId Format = length formats"
      by (simp_all add: count_kind_def i(5) filter_rows)
    ultimately show ?thesis using again [of ?a] by (simp add: existing_import_def created(4))
  qed
qed

section \<open>What can be decoded\<close>

lemma extract_fold:
  "(\<forall>x \<in> set (fst (fold (extract_step info elf) secs acc)). x \<in> set (fst acc) \<or>
      \<not> has_conversion (str_value x) \<and> (\<exists>sec \<in> set secs. x \<in> set (extractStrings info elf sec))) \<and>
   (\<forall>x \<in> set (snd (fold (extract_step info elf) secs acc)). x \<in> set (snd acc) \<or>
      has_conversion (str_value x) \<and> (\<exists>sec \<in> set secs. x \<in> set (extractStrings info elf sec)))"
proof (induction secs arbitrary: acc)
  case Nil
  then show ?case by simp
next
  case (Cons sec secs)
  have "\<forall>x \<in> set (fst (extract_step info elf sec acc)). x \<in> set (fst acc) \<or> \<not> has_conversion (str_value x) \<and> x \<in> set (extractStrings info elf sec)"
    "\<forall>x \<in> set (snd (extract_step info elf sec acc)). x \<in> set (snd acc) \<or> has_conversion (str_value x) \<and> x \<in> set (extractStrings info elf sec)"
    by (auto simp: extract_step_def Let_def split: prod.splits)
  with Cons.IH [of "extract_step info elf sec acc"] show ?case by fastforce
qed

lemma extract_formats:
  assumes "extractArtifactStrings elf = Inr (tags, formats)" and "x \<in> set formats"
  shows "has_conversion (str_value x) \<and> (\<exists>info sec. parseElf elf = Inr info \<and> sec \<in> set (elf_sections info) \<and> x \<in> set (extractStrings info elf sec))"
proof -
  obtain info where info: "parseElf elf = Inr info" "snd (fold (extract_step info elf) (elf_sections info) ([], [])) = formats"
    using assms(1) by (auto simp: extractArtifactStrings_def Let_def split: sum.splits prod.splits if_splits)
  with extract_fold [of info elf "elf_sections info" "([], [])"] assms(2) show ?thesis by auto
qed

text \<open>
  C11. Messages without a conversion are lost: import files every string without a percent sign or brace as a tag, never as a
  format. So a log statement whose format string has no conversion, a plain message, is never decoded, neither alone nor in a
  batch: even after its firmware is imported the event shows neither message nor tag.
\<close>

theorem conversion_free_message_lost:
  assumes run: "importArtifact sha newId others options d = (Inr r, d')" and new: "ia_artifact r = newId"
    "newId \<notin> fa_id ` set (db_artifacts d)" "newId \<notin> fa_id ` set (db_artifacts (others d))"
    and owned: "strings_owned (others d)"
    and event: "re_artifact e = Some newId" "re_fmt e = Some address"
    and plain: "\<forall>info sec x. parseElf (io_elf options) = Inr info \<and> sec \<in> set (elf_sections info) \<and>
      x \<in> set (extractStrings info (io_elf options) sec) \<and> str_addr x = address \<longrightarrow> \<not> has_conversion (str_value x)"
  shows "decodeRawEvent d' e = undecoded"
  using run
proof (cases rule: import_Inr)
  case (existing a)
  then have "a \<in> set (db_artifacts d')" "fa_id a = newId"
    using new(1) by (auto simp: find_stored_artifact_def find_Some_iff existing_import_def)
  with existing(3) new(2,3) show ?thesis by force
next
  case (created tags formats)
  note i = insert_artifact_Some(5) [OF created(3)]
  have "find_string d' newId address Format = None"
  proof -
    have "string_key s \<noteq> (newId, address, Format)" if "s \<in> set (db_strings d')" for s
    proof
      assume k: "string_key s = (newId, address, Format)"
      then have "s \<notin> set (db_strings (others d))" using owned new(3) by (auto simp: strings_owned_def string_key_def)
      with that obtain kind x where "s = string_row newId kind x" "kind = Tag \<or> kind = Format \<and> x \<in> set formats"
        by (auto simp: i)
      with k have "x \<in> set formats" "str_addr x = address" by (auto simp: string_key_def string_row_def)
      with extract_formats [OF created(1)] plain show False by blast
    qed
    then show ?thesis by (auto simp: find_string_def find_None_iff)
  qed
  then show ?thesis using event by (auto simp: decodeRawEvent_def split: option.splits)
qed

lemma log_packet_type:
  assumes "parseOn9logPacket p = Inr (LogPacket h n ts argv)"
  shows "htype h = 0"
proof -
  obtain h' where "parsePayload h' (drop ON9LOG_HEADER_SIZE p) = Inr (LogPacket h n ts argv)"
    using assms by (auto simp: parseOn9logPacket_def elim!: rbind_InrE)
  then show ?thesis
    by (auto simp: parsePayload_def parseLogPacket_def parseDroppedPacket_def parseTimeSyncPacket_def parseBufferPacket_def
        elim!: rbind_InrE split: if_splits)
qed

lemma find_string_row:
  assumes "distinct (map string_key rows)" and "s \<in> set rows" and "string_key s = (a, t, k)"
  shows "find (\<lambda>s. string_key s = (a, t, k)) rows = Some s"
  using assms by (intro find_only) (auto dest: inj_on_distinct)

text \<open>
  C10. From the image to the screen: when the import of an image has created its artifact, every log packet whose tag and format
  addresses are in the imported dictionary, stored as ingestion stores it, decodes to its tag and to its format rendered with its
  arguments.
\<close>

theorem imported_message_decoded:
  assumes run: "importArtifact sha newId others options d = (Inr r, d')" and new: "ia_artifact r = newId"
    "newId \<notin> fa_id ` set (db_artifacts d)" "newId \<notin> fa_id ` set (db_artifacts (others d))"
    and owned: "strings_owned (others d)"
    and dict: "extractArtifactStrings (io_elf options) = Inr (tags, formats)" "x \<in> set tags" "y \<in> set formats"
    and packet: "parseOn9logPacket p = Inr (LogPacket h n ts argv)" "tagId h = str_addr x" "fmtId h = str_addr y"
    and rendered: "renderFormat (str_value y) argv = Inr message"
  shows "decodeRawEvent d' (log_event_row deviceId (Some newId) p h eventId) =
    \<lparr>de_tag = Some (str_value x), de_message = Some message\<rparr>"
  using run
proof (cases rule: import_Inr)
  case (existing a)
  then have "a \<in> set (db_artifacts d')" "fa_id a = newId"
    using new(1) by (auto simp: find_stored_artifact_def find_Some_iff existing_import_def)
  with existing(3) new(2,3) show ?thesis by force
next
  case (created tags' formats')
  with dict(1) have same: "tags' = tags" "formats' = formats" by simp_all
  let ?rows = "map (string_row newId Tag) tags @ map (string_row newId Format) formats"
  note i = insert_artifact_Some [OF created(3) [unfolded same]]
  have none: "find (\<lambda>s. string_key s = (newId, t, k)) (db_strings (others d)) = None" for t k
    using owned new(3) by (auto simp: find_None_iff strings_owned_def string_key_def)
  have stored: "find (\<lambda>s. string_key s = (newId, t, k)) (db_strings d') = find (\<lambda>s. string_key s = (newId, t, k)) ?rows" for t k
    using none [of t k] by (simp add: i(5) find_append)
  have key: "string_key (string_row newId k z) = (newId, str_addr z, k)" "ls_value (string_row newId k z) = str_value z" for k z
    by (simp_all add: string_key_def string_row_def)
  have "find_string d' newId (str_addr x) Tag = Some (str_value x)"
    using find_string_row [OF i(2) _ key(1), of Tag x] dict(2) by (simp add: find_string_def stored key(2))
  moreover have "find_string d' newId (str_addr y) Format = Some (str_value y)"
    using find_string_row [OF i(2) _ key(1), of Format y] dict(3) by (simp add: find_string_def stored key(2))
  ultimately show ?thesis
    using packet rendered log_packet_type [OF packet(1)] by (simp add: decodeRawEvent_def log_event_row_def Let_def)
qed

text \<open>
  Two strings at one address make an image unusable: if extraction yields two tags or two formats with the same address, as two
  unloaded sections with the same base do, the insert of the dictionary violates its unique constraint and the import of the whole
  image fails as a database error, however often it is tried.
\<close>

theorem duplicate_addresses_rejected:
  assumes "extractArtifactStrings (io_elf options) = Inr (tags, formats)"
    and "\<not> distinct (map str_addr tags) \<or> \<not> distinct (map str_addr formats)"
    and "io_elf options \<noteq> []" "length (io_elf options) \<le> MAX_ELF_BYTES"
    and "find_stored_artifact d (io_project options) (sha (io_elf options)) = None"
    and "find_stored_artifact (others d) (io_project options) (sha (io_elf options)) = None"
  shows "importArtifact sha newId others options d = (Inl Artifact_database, others d)"
proof -
  have "inj (\<lambda>t. (newId, t, k))" for k :: string_kind by (simp add: inj_def)
  then have keys: "distinct (map string_key (map (string_row newId k) xs)) = distinct (map str_addr xs)" for k xs
  proof -
    have "map string_key (map (string_row newId k) xs) = map (\<lambda>t. (newId, t, k)) (map str_addr xs)"
      by (simp add: string_key_def string_row_def)
    then show ?thesis by (simp only: distinct_map) (auto simp: inj_on_def)
  qed
  have "insert_artifact a (map (string_row newId Tag) tags @ map (string_row newId Format) formats) (others d) = None" for a
    using assms(2) keys by (auto simp: insert_artifact_def distinct_append simp del: map_map)
  then show ?thesis using assms by (simp add: importArtifact_def Let_def)
qed

text \<open>The usual names of read-only sections begin with a dot, which three of the five patterns do not.\<close>

lemma relocated_rodata_not_scanned:
  "\<not> is_rodata (sec\<lparr>sec_name := js ''.data.rel.ro''\<rparr>)" "\<not> is_rodata (sec\<lparr>sec_name := js ''.srodata''\<rparr>)"
  by (simp_all add: is_rodata_def starts_with_def js_simps)

section \<open>Releases\<close>

lemma store_release_Inr:
  assumes "store_release newId others project artifactId binHash bin version d = (Inr r, d')"
  obtains q where "find_stored_release d' project binHash = Some q" "r\<lparr>cr_existed := True\<rparr> = existing_release binHash q"
proof (cases "find_stored_release d project binHash")
  case (Some q)
  then show ?thesis using assms by (intro that [of q]) (auto simp: store_release_def existing_release_def)
next
  case None
  show ?thesis
  proof (cases "find_stored_release (others d) project binHash")
    case (Some q)
    then show ?thesis using None assms by (intro that [of q]) (auto simp: store_release_def Let_def existing_release_def)
  next
    case none: None
    let ?q = "\<lparr>fr_id = newId, fr_project = project, fr_artifact = artifactId, fr_binHash = binHash, fr_bin = bin,
      fr_binSize = length bin, fr_version = version\<rparr>"
    show ?thesis
      by (rule that [of ?q])
        (use None none assms in \<open>auto simp: store_release_def Let_def existing_release_def find_stored_release_def find_append split: if_splits\<close>)
  qed
qed

text \<open>
  Uploading an image again returns the release it already has, whether it was created by the first upload, found by it or stored
  by a concurrent one that won the race, and leaves the tables alone.
\<close>

theorem release_idempotent:
  assumes "createFirmwareRelease sha ids others project bin elf version d = (Inr r, d')"
  shows "createFirmwareRelease sha ids' (o1, id, o3) project bin None version' d' = (Inr (r\<lparr>cr_existed := True\<rparr>), d')"
proof -
  have ok: "length bin \<noteq> 0" "\<not> length bin > MAX_FIRMWARE_BYTES"
    using assms by (auto simp: createFirmwareRelease_def split: if_splits)
  have "\<exists>newId others artifactId d0. store_release newId others project artifactId (sha bin) bin version d0 = (Inr r, d')"
    using assms ok
    by (auto simp: createFirmwareRelease_def split: option.splits prod.splits sum.splits if_splits)
  then obtain newId others artifactId d0
    where "store_release newId others project artifactId (sha bin) bin version d0 = (Inr r, d')" by blast
  then show ?thesis
  proof (rule store_release_Inr)
    fix q assume "find_stored_release d' project (sha bin) = Some q" "r\<lparr>cr_existed := True\<rparr> = existing_release (sha bin) q"
    then show ?thesis using ok by (simp add: createFirmwareRelease_def store_release_def)
  qed
qed

section \<open>Runs with a dictionary cache\<close>

text \<open>
  A run of a process that decodes pages while images are imported and logs arrive: a state is the clock, the tables and the
  process's cache. Rows of the dictionaries are never changed or deleted, so a dictionary is complete once its artifact exists.
\<close>

type_synonym log_run = "int \<times> log_db \<times> dictionary_cache"

inductive log_step :: "log_run \<Rightarrow> log_run \<Rightarrow> bool" where
  import_image: "importArtifact sha newId id options d = (r, d') \<Longrightarrow> log_step (now, d, cache) (now, d', cache)"
| release: "createFirmwareRelease sha ids (id, id, id) project bin elf version d = (rel, d') \<Longrightarrow> log_step (now, d, cache) (now, d', cache)"
| packet: "ingestLogPacket id dev content d = (out, d') \<Longrightarrow> log_step (now, d, cache) (now, d', cache)"
| log_bundle: "ingestLogBundle id dev contents d = (outs, d') \<Longrightarrow> log_step (now, d, cache) (now, d', cache)"
| backfill: "backfillDecodeState artifact buildId d = (n, d') \<Longrightarrow> log_step (now, d, cache) (now, d', cache)"
| page: "set events \<subseteq> set (db_events d) \<Longrightarrow> decodeEventsBatch now d events cache = (texts, cache') \<Longrightarrow>
    log_step (now, d, cache) (now, d, cache')"
| clock: "now \<le> now' \<Longrightarrow> log_step (now, d, cache) (now', d, cache)"
| elsewhere: "db_artifacts d' = db_artifacts d \<Longrightarrow> db_strings d' = db_strings d \<Longrightarrow> db_events d' = db_events d \<Longrightarrow>
    log_step (now, d, cache) (now, d', cache)"

definition log_start :: "log_run \<Rightarrow> bool" where
  "log_start = (\<lambda>(now, d, cache). db_artifacts d = [] \<and> db_strings d = [] \<and> db_events d = [] \<and> cache = [])"

abbreviation artifact_ids :: "log_db \<Rightarrow> row_id set" where
  "artifact_ids d \<equiv> fa_id ` set (db_artifacts d)"

definition events_owned :: "log_db \<Rightarrow> bool" where
  "events_owned d \<longleftrightarrow> (\<forall>e \<in> set (db_events d). \<forall>a. re_artifact e = Some a \<longrightarrow> a \<in> artifact_ids d)"

definition log_inv :: "log_run \<Rightarrow> bool" where
  "log_inv = (\<lambda>(now, d, cache). distinct (map string_key (db_strings d)) \<and> strings_owned d \<and> events_owned d \<and>
     coherent now d cache \<and> length cache \<le> DICTIONARY_CACHE_MAX \<and> fst ` set cache \<subseteq> artifact_ids d)"

lemma load_dictionary_other:
  "\<forall>r \<in> set rows. ls_artifact r \<noteq> a \<Longrightarrow> load_dictionary (d\<lparr>db_artifacts := xs, db_strings := db_strings d @ rows\<rparr>) a = load_dictionary d a"
  by (simp add: load_dictionary_def filter_empty_conv [THEN iffD2])

lemma import_Inl:
  assumes "importArtifact sha newId others options d = (Inl e, d')"
  shows "d' = d \<or> d' = others d"
proof (cases "length (io_elf options) = 0 \<or> length (io_elf options) > MAX_ELF_BYTES")
  case False
  show ?thesis
  proof (cases "extractArtifactStrings (io_elf options)")
    case (Inr x)
    then show ?thesis
      using assms False by (cases x) (simp add: importArtifact_def Let_def split: option.splits)
  qed (use assms False in \<open>simp add: importArtifact_def Let_def\<close>)
qed (use assms in \<open>simp add: importArtifact_def split: if_splits\<close>)

lemma import_step_inv:
  assumes "importArtifact sha newId id options d = (r, d')" and inv: "log_inv (now, d, cache)"
  shows "log_inv (now, d', cache)"
proof (cases "d' = d")
  case True
  with inv show ?thesis by simp
next
  case False
  with assms(1) import_Inl [of sha newId id options d] obtain x where "importArtifact sha newId id options d = (Inr x, d')"
    by (cases r) auto
  then show ?thesis
  proof (cases rule: import_Inr)
    case existing
    with False show ?thesis by simp
  next
    case (created tags formats)
    let ?rows = "map (string_row newId Tag) tags @ map (string_row newId Format) formats"
    note new = insert_artifact_Some [OF created(3)]
    have d': "d' = d\<lparr>db_artifacts := db_artifacts d @ [\<lparr>fa_id = newId, fa_project = io_project options, fa_buildId = sha (io_elf options),
          fa_version = io_version options, fa_elf = io_elf options, fa_elfSize = length (io_elf options)\<rparr>], db_strings := db_strings d @ ?rows\<rparr>"
      using new(5) by simp
    have rows: "\<forall>r \<in> set ?rows. ls_artifact r = newId" by (auto simp: string_row_def)
    have fresh: "newId \<notin> artifact_ids d" using new(1) by simp
    have "load_dictionary d' a = load_dictionary d a" if "a \<in> fst ` set cache" for a
    proof -
      have "a \<noteq> newId" using that inv fresh by (auto simp: log_inv_def)
      with rows have "\<forall>r \<in> set ?rows. ls_artifact r \<noteq> a" by blast
      then show ?thesis unfolding d' by (rule load_dictionary_other)
    qed
    then have "coherent now d' cache" using inv by (force simp: log_inv_def coherent_def)
    moreover have "distinct (map string_key (db_strings d'))"
      using new(2,3) inv by (auto simp: d' log_inv_def)
    moreover have frame: "artifact_ids d' = insert newId (artifact_ids d)" "db_strings d' = db_strings d @ ?rows" "db_events d' = db_events d"
      by (simp_all add: d')
    have own: "strings_owned d" "events_owned d" "fst ` set cache \<subseteq> artifact_ids d" "length cache \<le> DICTIONARY_CACHE_MAX"
      using inv by (simp_all add: log_inv_def)
    have "strings_owned d'"
      using own(1) rows unfolding strings_owned_def frame set_append by blast
    moreover have "events_owned d'" using own(2) unfolding events_owned_def frame by blast
    moreover have "fst ` set cache \<subseteq> artifact_ids d'" using own(3) unfolding frame by blast
    ultimately show ?thesis using own(4) by (simp add: log_inv_def)
  qed
qed

lemma same_log_inv:
  "db_artifacts d' = db_artifacts d \<Longrightarrow> db_strings d' = db_strings d \<Longrightarrow> events_owned d' \<Longrightarrow> log_inv (now, d, cache) \<Longrightarrow> log_inv (now, d', cache)"
  by (simp add: log_inv_def strings_owned_def coherent_def load_dictionary_def)

lemma store_release_frame:
  "store_release newId id project a h bin version d = (r, d') \<Longrightarrow> db_artifacts d' = db_artifacts d \<and> db_strings d' = db_strings d \<and> db_events d' = db_events d"
  by (auto simp: store_release_def Let_def split: option.splits if_splits)

lemma release_step_inv:
  assumes "createFirmwareRelease sha ids (id, id, id) project bin elf version d = (r, d')" and inv: "log_inv (now, d, cache)"
  shows "log_inv (now, d', cache)"
proof -
  obtain d1 where d1: "log_inv (now, d1, cache)" and frame: "db_artifacts d' = db_artifacts d1 \<and> db_strings d' = db_strings d1 \<and> db_events d' = db_events d1"
  proof (cases elf)
    case None
    then have "db_artifacts d' = db_artifacts d \<and> db_strings d' = db_strings d \<and> db_events d' = db_events d"
      using assms(1) by (auto simp: createFirmwareRelease_def split: if_splits dest: store_release_frame)
    then show ?thesis using inv that by blast
  next
    case (Some e)
    let ?options = "\<lparr>io_project = project, io_elf = e, io_version = version\<rparr>"
    obtain x d1 where x: "importArtifact sha (fst ids) id ?options d = (x, d1)" by fastforce
    have "d' = d \<or> (db_artifacts d' = db_artifacts d1 \<and> db_strings d' = db_strings d1 \<and> db_events d' = db_events d1)"
      using assms(1) x Some by (auto simp: createFirmwareRelease_def split: if_splits sum.splits dest: store_release_frame)
    then show ?thesis using import_step_inv [OF x inv] inv that by blast
  qed
  then show ?thesis by (intro same_log_inv [OF _ _ _ d1]) (auto simp: log_inv_def events_owned_def)
qed

lemma resolved_artifact: "resolveArtifactId d dev = Some a \<Longrightarrow> a \<in> artifact_ids d"
  by (auto simp: resolveArtifactId_def find_stored_artifact_def find_Some_iff split: option.splits)

lemma log_event_artifact: "re_artifact (log_event_row dev a content h n) = a"
  by (simp add: log_event_row_def Let_def)

lemma insert_events_owned:
  assumes "insert_events dev rows d = Some d'" and "events_owned d"
    and "\<And>row k a. row \<in> set rows \<Longrightarrow> re_artifact (row k) = Some a \<Longrightarrow> a \<in> artifact_ids d"
  shows "events_owned d' \<and> db_artifacts d' = db_artifacts d \<and> db_strings d' = db_strings d"
proof -
  have "\<exists>row \<in> set rows. \<exists>k. e = row k" if "e \<in> set (db_events d')" and "e \<notin> set (db_events d)" for e
    using assms(1) that by (fastforce simp: insert_events_def in_set_enumerate_eq split: if_splits dest: nth_mem)
  note added = this
  have frame: "db_artifacts d' = db_artifacts d" "db_strings d' = db_strings d"
    using assms(1) by (auto simp: insert_events_def split: if_splits)
  have "events_owned d'" unfolding events_owned_def frame using added assms(2) [unfolded events_owned_def] assms(3) by blast
  with frame show ?thesis by simp
qed

lemma packet_step_inv:
  assumes "ingestLogPacket id dev content d = (r, d')" and inv: "log_inv (now, d, cache)"
  shows "log_inv (now, d', cache)"
proof (cases "d' = d")
  case False
  then obtain h where rows: "insert_events dev [log_event_row dev (resolveArtifactId d dev) content h] d = Some d'"
    using assms(1) by (auto simp: ingestLogPacket_def Let_def split: sum.splits option.splits)
  have "events_owned d' \<and> db_artifacts d' = db_artifacts d \<and> db_strings d' = db_strings d"
    by (rule insert_events_owned [OF rows]) (use inv in \<open>auto simp: log_inv_def log_event_artifact dest: resolved_artifact\<close>)
  then show ?thesis using inv same_log_inv by blast
qed (use inv in simp)

lemma bundle_step_inv:
  assumes "ingestLogBundle id dev contents d = (r, d')" and inv: "log_inv (now, d, cache)"
  shows "log_inv (now, d', cache)"
proof (cases "d' = d")
  case False
  then obtain rows where rows: "insert_events dev (map (\<lambda>(e, h). log_event_row dev (resolveArtifactId d dev) e h) rows) d = Some d'"
    using assms(1) by (auto simp: ingestLogBundle_def Let_def split_beta split: if_splits option.splits)
  have "events_owned d' \<and> db_artifacts d' = db_artifacts d \<and> db_strings d' = db_strings d"
    by (rule insert_events_owned [OF rows]) (use inv in \<open>auto simp: log_inv_def log_event_artifact dest: resolved_artifact\<close>)
  then show ?thesis using inv same_log_inv by blast
qed (use inv in simp)

lemma backfill_step_inv:
  assumes "backfillDecodeState artifact buildId d = (n, d')" and inv: "log_inv (now, d, cache)"
  shows "log_inv (now, d', cache)"
proof (cases "d' = d")
  case False
  then have "artifact \<in> artifact_ids d"
      and "\<exists>p. d' = d\<lparr>db_events := map (\<lambda>e. if p e then e\<lparr>re_decodable := True, re_artifact := Some artifact\<rparr> else e) (db_events d)\<rparr>"
    using assms(1) by (auto simp: backfillDecodeState_def Let_def find_Some_iff split: option.splits if_splits)
  then show ?thesis using inv by (intro same_log_inv [OF _ _ _ inv]) (auto simp: log_inv_def events_owned_def)
qed (use inv in simp)

lemma update_keys: "fst ` set (AList.update a v cache) = insert a (fst ` set cache)"
  by (simp add: dom_map_of_conv_image_fst [symmetric] update_conv')

lemma evict_keys: "fst ` set (evict now cache) \<subseteq> fst ` set cache"
  by (intro image_mono evict_subset)

lemma cached_ids: "fst ` set (snd (cached_dictionary now d a cache)) \<subseteq> insert a (fst ` set cache)"
  using evict_keys [of now "AList.update a v cache" for v] unfolding update_keys
  by (cases "map_of cache a") (auto simp: cached_dictionary_def Let_def)

lemma load_all_ids: "fst ` set (snd (load_all now d xs cache)) \<subseteq> set xs \<union> fst ` set cache"
proof (induction xs arbitrary: cache)
  case (Cons x xs)
  then show ?case using cached_ids [of now d x cache] Cons [of "snd (cached_dictionary now d x cache)"]
    by (auto simp: split_beta Let_def)
qed simp

lemma page_step_inv:
  assumes "set events \<subseteq> set (db_events d)" and "decodeEventsBatch now d events cache = (texts, cache')" and inv: "log_inv (now, d, cache)"
  shows "log_inv (now, d, cache')"
proof -
  have keys: "distinct (map string_key (db_strings d))" "coherent now d cache" "length cache \<le> DICTIONARY_CACHE_MAX"
    using inv by (simp_all add: log_inv_def)
  let ?as = "rev (remdups (rev (List.map_filter re_artifact events)))"
  have "set ?as \<subseteq> artifact_ids d" using assms(1) inv by (auto simp: log_inv_def events_owned_def List.map_filter_def)
  moreover have "cache' = snd (load_all now d ?as cache)" using assms(2) by (simp add: decodeEventsBatch_def split_beta Let_def)
  ultimately have "fst ` set cache' \<subseteq> artifact_ids d"
    using load_all_ids [of now d ?as cache] inv unfolding log_inv_def by blast
  moreover have "coherent now d cache' \<and> length cache' \<le> DICTIONARY_CACHE_MAX"
    using batch_agrees_coherent [OF keys, of events] assms(2) by simp
  ultimately show ?thesis using inv by (simp add: log_inv_def)
qed

lemma log_step_inv: "log_step s s' \<Longrightarrow> log_inv s \<Longrightarrow> log_inv s'"
proof (induction rule: log_step.induct)
  case (clock now now' d cache)
  then show ?case by (auto simp: log_inv_def coherent_def)
next
  case (elsewhere d' d now cache)
  then show ?case by (intro same_log_inv [of d' d]) (auto simp: log_inv_def events_owned_def)
qed (blast intro: import_step_inv release_step_inv packet_step_inv bundle_step_inv backfill_step_inv page_step_inv)+

interpretation log_runs: guarded_system log_start log_step log_inv
proof unfold_locales
  show "log_start s \<Longrightarrow> log_inv s" for s
    by (auto simp: log_start_def log_inv_def strings_owned_def events_owned_def coherent_def)
qed (rule log_step_inv)

text \<open>
  C15. The batch path decodes like the single one. A process starts with an empty cache; from then on images and releases are uploaded, logs
  are stored and linked to artifacts, pages are decoded and time passes, in any order. Decoding a page of stored events then gives for
  each event exactly what decoding it alone gives, however old the dictionaries in the cache are, and the cache
  never holds more than \<^verbatim>\<open>DICTIONARY_CACHE_MAX\<close> of them.
\<close>

theorem batch_agrees_with_single:
  assumes "log_start s0" and "log_step\<^sup>*\<^sup>* s0 (now, d, cache)" and "set events \<subseteq> set (db_events d)"
  shows "fst (decodeEventsBatch now d events cache) = map (decodeRawEvent d) events \<and> length cache \<le> DICTIONARY_CACHE_MAX \<and>
    length (snd (decodeEventsBatch now d events cache)) \<le> DICTIONARY_CACHE_MAX"
proof -
  have "log_inv (now, d, cache)" by (rule log_runs.reachable_inv [OF assms(1,2)])
  then show ?thesis using batch_agrees_coherent [of d now cache events] by (simp add: log_inv_def)
qed

section \<open>Examples\<close>

definition ex_log_db :: log_db where
  "ex_log_db = \<lparr>db_artifacts = [], db_strings = [], db_releases = [], db_devices = [\<lparr>ld_id = [7], ld_uid = [8], ld_project = [5]\<rparr>],
     db_states = [\<lparr>fs_device = [7], fs_hash = [1]\<rparr>], db_events = [], db_next_event = 1\<rparr>"

definition ex_import :: import_options where
  "ex_import = \<lparr>io_project = [5], io_elf = ex_elf, io_version = None\<rparr>"

definition ex_imported :: log_db where
  "ex_imported = ex_log_db\<lparr>
     db_artifacts := [\<lparr>fa_id = [9], fa_project = [5], fa_buildId = [1], fa_version = None, fa_elf = ex_elf, fa_elfSize = 149\<rparr>],
     db_strings := [\<lparr>ls_artifact = [9], ls_address = 256, ls_kind = Tag, ls_value = js ''hi''\<rparr>,
       \<lparr>ls_artifact = [9], ls_address = 259, ls_kind = Format, ls_value = js ''v=%d''\<rparr>]\<rparr>"

text \<open>A log packet with tag 256, the given format and the argument 42.\<close>

definition ex_packet :: "byte \<Rightarrow> bytes" where
  "ex_packet f = [0x9a, 1, 7, 0, 0, 0, 0, 0, 0, 1, 0, 0, f, 1, 0, 0, 6, 0, 1, 1, 42, 0, 0, 0]"

definition ex_header :: "nat \<Rightarrow> On9logPacketHeader" where
  "ex_header f = \<lparr>htype = 0, level = 1, seq = 7, timeMs = 0, tagId = 256, fmtId = f, payloadLen = 6\<rparr>"

lemma ex_packet_parsed: "parseOn9logPacket (ex_packet 3) = Inr (LogPacket (ex_header 259) 1 [1] [Bits32 42])"
  by (simp add: ex_packet_def ex_header_def parseOn9logPacket_def parseOn9logHeader_def readHeader_def r_u8_def r_u16_def r_u32_def
      r_require_def ON9LOG_PACKET_MAGIC_def ON9LOG_PAYLOAD_LEN_STREAMING_def ON9LOG_HEADER_SIZE_def u16_of_eq u32_of_eq
      parsePayload_def parseLogPacket_def decodeArg_def expectExactLength_def)

lemma ex_strtab_strings:
  "extractStrings elf ex_elf \<lparr>sec_name = [], sec_nameOffset = 0, sec_type = 3, sec_flags = 0, sec_addr = 0, sec_offset = 52, sec_size = 9\<rparr> =
     [\<lparr>str_addr = 1, str_value = js ''.noload''\<rparr>]"
proof -
  have "skip_zeros ex_elf 61 52 = 53" "find_zero ex_elf 61 53 = 60" "skip_zeros ex_elf 61 60 = 61"
    by (simp_all add: ex_elf_def find_zero.simps skip_zeros.simps)
  then show ?thesis
    by (simp add: extractStrings_def SHT_NOBITS_def round53_id Let_def ex_elf_header extract_from.simps ex_elf_names
        utf8_decode_def js_simps isLikelyText_def)
qed

lemma ex_extracted:
  "extractArtifactStrings ex_elf = Inr ([\<lparr>str_addr = 256, str_value = js ''hi''\<rparr>], [\<lparr>str_addr = 259, str_value = js ''v=%d''\<rparr>])"
proof -
  have "parseElf ex_elf = Inr ex_elf_info"
    using described_elf_parses [of ex_elf] ex_elf_well_formed by (simp add: ex_elf_header)
  moreover have "extract_step ex_elf_info ex_elf ex_noload ([], []) =
      ([\<lparr>str_addr = 256, str_value = js ''hi''\<rparr>], [\<lparr>str_addr = 259, str_value = js ''v=%d''\<rparr>])"
    by (simp add: extract_step_def ex_noload_strings is_noload_def js_simps) (simp add: ex_noload_def has_conversion_def js_simps)
  ultimately show ?thesis
    by (simp add: extractArtifactStrings_def ex_elf_info_def extract_step_def ex_strtab_strings is_noload_def is_rodata_def
        starts_with_def js_simps)
qed

lemma ex_import_run:
  "importArtifact (\<lambda>_. [1]) [9] id ex_import ex_log_db =
     (Inr \<lparr>ia_artifact = [9], ia_buildId = [1], ia_tags = 1, ia_formats = 1\<rparr>, ex_imported)"
  by (simp add: importArtifact_def ex_import_def ex_elf_header MAX_ELF_BYTES_def ex_extracted find_stored_artifact_def ex_log_db_def
      insert_artifact_def string_row_def string_key_def ex_imported_def Let_def)

lemma ex_owned: "strings_owned (id ex_log_db)" "strings_owned ex_imported" "log_keys ex_imported"
  by (simp_all add: strings_owned_def ex_log_db_def ex_imported_def log_keys_def string_key_def)

lemma ex_rendered: "renderFormat (js ''v=%d'') [Bits32 42] = Inr (js ''v=42'')"
proof -
  have "radix 10 42 = js ''42''" by (simp add: radix.simps digit_char_def js_simps)
  then have "convert_arg \<lparr>dir_flags = [], dir_width = 0, dir_precision = None, dir_conv = 100\<rparr> (Bits32 42) = Inr (js ''42'')"
    by (simp add: convert_arg_def formatSigned_def displaySigned_def int_text_def padString_def)
  then have "next_piece [Bits32 42] (0, False) 37 (js ''d'') = Inr (js ''42'', (1, False), [])"
    by (intro piece_of_directive [OF int_directives(1)]) (simp_all add: starts_def js_simps conversions_def)
  then show ?thesis by (simp add: js_simps renderFormat_def next_piece_def [of _ _ 118] next_piece_def [of _ _ 61] push_def MAX_RENDER_OUTPUT_def)
qed

text \<open>An event stored before its firmware was imported.\<close>

definition ex_backlog :: log_db where
  "ex_backlog = (snd (ingestLogPacket id [7] (ex_packet 3) ex_log_db))\<lparr>db_artifacts := db_artifacts ex_imported\<rparr>"

lemma backfill_agrees_with_ingest_witness:
  "fst (backfillDecodeState [9] [1] ex_backlog) = 1 \<and>
   db_events (snd (backfillDecodeState [9] [1] ex_backlog)) = [log_event_row [7] (Some [9]) (ex_packet 3) (ex_header 259) 1]"
proof -
  let ?a = "\<lparr>fa_id = [9], fa_project = [5], fa_buildId = [1], fa_version = None, fa_elf = ex_elf, fa_elfSize = 149\<rparr>"
  have events: "db_events ex_backlog = [log_event_row [7] None (ex_packet 3) (ex_header 259) 1]" "log_keys ex_backlog"
      "?a \<in> set (db_artifacts ex_backlog)" "resolveArtifactId ex_backlog [7] = Some [9]"
    by (simp_all add: ex_backlog_def ingestLogPacket_def ex_packet_parsed resolveArtifactId_def ex_log_db_def ex_imported_def
        find_stored_artifact_def insert_events_def log_keys_def Let_def)
  have row: "re_device (log_event_row a b c h k) = a" "re_artifact (log_event_row a b c h k) = b" "re_decodable (log_event_row a b c h k) = (b \<noteq> None)"
      "(log_event_row a b c h k)\<lparr>re_decodable := True, re_artifact := Some i\<rparr> = log_event_row a (Some i) c h k" for a b c h k i
    by (simp_all add: log_event_row_def Let_def)
  have "backfillDecodeState (fa_id ?a) (fa_buildId ?a) ex_backlog =
      (fst (backfillDecodeState [9] [1] ex_backlog), snd (backfillDecodeState [9] [1] ex_backlog))" by simp
  from backfill_agrees_with_ingest [OF events(2,3) this] show ?thesis by (simp add: events(1,4) row)
qed

text \<open>A page is decoded, its dictionary is cached, and the same page is decoded again half a minute later.\<close>

definition ex_logged :: log_db where "ex_logged = snd (ingestLogPacket id [7] (ex_packet 3) ex_imported)"

lemma ex_logged_events: "db_events ex_logged = [log_event_row [7] (Some [9]) (ex_packet 3) (ex_header 259) 1]"
  by (simp add: ex_logged_def ingestLogPacket_def ex_packet_parsed resolveArtifactId_def ex_log_db_def ex_imported_def
      find_stored_artifact_def insert_events_def Let_def)

lemma ex_log_run:
  "log_step\<^sup>*\<^sup>* (0, ex_log_db, []) (30000, ex_logged, snd (decodeEventsBatch 0 ex_logged (db_events ex_logged) []))"
proof -
  let ?page = "decodeEventsBatch 0 ex_logged (db_events ex_logged) []"
  have "log_step (0, ex_log_db, []) (0, ex_imported, [])" by (rule log_step.import_image [OF ex_import_run])
  moreover have "log_step (0, ex_imported, []) (0, ex_logged, [])"
    by (rule log_step.packet [of "[7]" "ex_packet 3" _ "fst (ingestLogPacket id [7] (ex_packet 3) ex_imported)"]) (simp add: ex_logged_def)
  moreover have "log_step (0, ex_logged, []) (0, ex_logged, snd ?page)"
    by (rule log_step.page [OF subset_refl, of _ _ _ "fst ?page"]) simp
  moreover have "log_step (0, ex_logged, snd ?page) (30000, ex_logged, snd ?page)" by (rule log_step.clock) simp
  ultimately show ?thesis by (meson converse_rtranclp_into_rtranclp rtranclp.rtrancl_refl)
qed

lemma batch_agrees_with_single_witness:
  "fst (decodeEventsBatch 30000 ex_logged (db_events ex_logged) (snd (decodeEventsBatch 0 ex_logged (db_events ex_logged) []))) =
     [decodeRawEvent ex_logged (log_event_row [7] (Some [9]) (ex_packet 3) (ex_header 259) 1)]"
proof -
  have "log_start (0, ex_log_db, [])" by (simp add: log_start_def ex_log_db_def)
  from batch_agrees_with_single [OF this ex_log_run subset_refl] show ?thesis by (simp add: ex_logged_events)
qed

lemma reimport_idempotent_witness:
  "importArtifact (\<lambda>_. [1]) [3] id ex_import ex_imported =
     (Inr \<lparr>ia_artifact = [9], ia_buildId = [1], ia_tags = 1, ia_formats = 1\<rparr>, ex_imported)"
  using reimport_idempotent [OF ex_import_run ex_owned(1), of "[3]" id] .

lemma conversion_free_message_lost_witness:
  "decodeRawEvent ex_imported (log_event_row [7] (Some [9]) (ex_packet 0) (ex_header 256) 1) = undecoded"
proof (rule conversion_free_message_lost [OF ex_import_run, of _ 256])
  have "parseElf ex_elf = Inr ex_elf_info"
    using described_elf_parses [of ex_elf] ex_elf_well_formed by (simp add: ex_elf_header)
  then show "\<forall>info sec x. parseElf (io_elf ex_import) = Inr info \<and> sec \<in> set (elf_sections info) \<and>
      x \<in> set (extractStrings info (io_elf ex_import) sec) \<and> str_addr x = 256 \<longrightarrow> \<not> has_conversion (str_value x)"
    by (auto simp: ex_import_def ex_elf_info_def ex_noload_strings ex_strtab_strings has_conversion_def js_simps)
qed (simp_all add: strings_owned_def ex_log_db_def log_event_row_def ex_header_def Let_def)

lemma imported_message_decoded_witness:
  "decodeRawEvent ex_imported (log_event_row [7] (Some [9]) (ex_packet 3) (ex_header 259) 1) =
     \<lparr>de_tag = Some (js ''hi''), de_message = Some (js ''v=42'')\<rparr>"
proof -
  have x: "extractArtifactStrings (io_elf ex_import) =
      Inr ([\<lparr>str_addr = 256, str_value = js ''hi''\<rparr>], [\<lparr>str_addr = 259, str_value = js ''v=%d''\<rparr>])"
    by (simp add: ex_import_def ex_extracted)
  show ?thesis
    using imported_message_decoded [OF ex_import_run _ _ _ ex_owned(1) x _ _ ex_packet_parsed,
        of "\<lparr>str_addr = 256, str_value = js ''hi''\<rparr>" "\<lparr>str_addr = 259, str_value = js ''v=%d''\<rparr>" "js ''v=42''" "[7]" 1]
    by (simp add: ex_log_db_def ex_header_def ex_rendered)
qed

end
