(* ===== verification/BrokerSessions.thy ===== *)
theory BrokerSessions
  imports Prelude
begin

text \<open>
  Which devices are connected (\<^verbatim>\<open>broker/src/mqtt/connection-registry.ts\<close>, \<^verbatim>\<open>broker/src/mqtt/status.ts\<close>). The MQTT library is not
  part of the repository: what it tells the broker arrives here as events. The registry is compared with a description of the
  live session in terms of the events alone; the status notifications are a system with a clock whose timers fire no
  earlier than they are due.
\<close>

section \<open>The connection registry\<close>

text \<open>A client object of the MQTT library: its reference and its clientId. Sessions are compared by reference.\<close>

type_synonym client = "nat \<times> jsstring"

abbreviation client_id :: "client \<Rightarrow> jsstring" where "client_id \<equiv> snd"

record SessionEntry =
  se_client :: client
  se_topics :: "jsstring set"

record connection_registry =
  sessions :: "jsstring \<rightharpoonup> SessionEntry"
  pendingTopics :: "jsstring \<rightharpoonup> jsstring set"

definition attachConnectionRegistry :: connection_registry where
  "attachConnectionRegistry = \<lparr>sessions = Map.empty, pendingTopics = Map.empty\<rparr>"

definition on_client :: "client \<Rightarrow> connection_registry \<Rightarrow> connection_registry" where
  "on_client c R =
     (let topics = (case pendingTopics R (client_id c) of None \<Rightarrow> {} | Some ts \<Rightarrow> ts) in
      R\<lparr>sessions := (sessions R)(client_id c \<mapsto> \<lparr>se_client = c, se_topics = topics\<rparr>),
        pendingTopics := (pendingTopics R)(client_id c := None)\<rparr>)"

definition on_clientDisconnect :: "client \<Rightarrow> connection_registry \<Rightarrow> connection_registry" where
  "on_clientDisconnect c R =
     (case sessions R (client_id c) of
        None \<Rightarrow> R
      | Some entry \<Rightarrow> if se_client entry \<noteq> c then R else R\<lparr>sessions := (sessions R)(client_id c := None)\<rparr>)"

text \<open>A subscription carries its topic and its QoS, which need not be a number; 128 and above mean that it was not granted.\<close>

definition granted :: "jsstring \<times> int option \<Rightarrow> bool" where
  "granted sub = (case snd sub of Some qos \<Rightarrow> \<not> qos \<ge> 128 | None \<Rightarrow> True)"

definition on_subscribe :: "(jsstring \<times> int option) list \<Rightarrow> client \<Rightarrow> connection_registry \<Rightarrow> connection_registry" where
  "on_subscribe subs c R =
     (case sessions R (client_id c) of
        None \<Rightarrow> R
      | Some entry \<Rightarrow>
          if se_client entry \<noteq> c then R
          else R\<lparr>sessions := (sessions R)(client_id c \<mapsto>
                 entry\<lparr>se_topics := foldl (\<lambda>ts sub. if granted sub then insert (fst sub) ts else ts) (se_topics entry) subs\<rparr>)\<rparr>)"

definition on_unsubscribe :: "jsstring list \<Rightarrow> client \<Rightarrow> connection_registry \<Rightarrow> connection_registry" where
  "on_unsubscribe topics c R =
     (case sessions R (client_id c) of
        None \<Rightarrow> R
      | Some entry \<Rightarrow>
          if se_client entry \<noteq> c then R
          else R\<lparr>sessions := (sessions R)(client_id c \<mapsto>
                 entry\<lparr>se_topics := foldl (\<lambda>ts topic. ts - {topic}) (se_topics entry) topics\<rparr>)\<rparr>)"

definition noteAuthorizedSubscription :: "jsstring \<Rightarrow> jsstring \<Rightarrow> connection_registry \<Rightarrow> connection_registry" where
  "noteAuthorizedSubscription uid topic R =
     (case sessions R uid of
        Some entry \<Rightarrow> R\<lparr>sessions := (sessions R)(uid \<mapsto> entry\<lparr>se_topics := insert topic (se_topics entry)\<rparr>)\<rparr>
      | None \<Rightarrow>
          let pending = (case pendingTopics R uid of None \<Rightarrow> {} | Some ts \<Rightarrow> ts) in
          R\<lparr>pendingTopics := (pendingTopics R)(uid \<mapsto> insert topic pending)\<rparr>)"

definition isConnected :: "connection_registry \<Rightarrow> jsstring \<Rightarrow> bool" where
  "isConnected R uid \<longleftrightarrow> sessions R uid \<noteq> None"

definition isSubscribed :: "connection_registry \<Rightarrow> jsstring \<Rightarrow> jsstring \<Rightarrow> bool" where
  "isSubscribed R uid topic \<longleftrightarrow> (case sessions R uid of None \<Rightarrow> False | Some entry \<Rightarrow> topic \<in> se_topics entry)"

definition getClient :: "connection_registry \<Rightarrow> jsstring \<Rightarrow> client option" where
  "getClient R uid = map_option se_client (sessions R uid)"

text \<open>\<^verbatim>\<open>kickDeviceSession\<close> of \<^verbatim>\<open>broker/src/mqtt/broker.ts\<close>: the client it closes, if any, and its result.\<close>

definition kickDeviceSession :: "connection_registry \<Rightarrow> jsstring \<Rightarrow> client option \<times> bool" where
  "kickDeviceSession R uid = (case getClient R uid of None \<Rightarrow> (None, False) | Some c \<Rightarrow> (Some c, True))"

section \<open>Histories of events\<close>

datatype registry_event =
    Client_event client
  | Disconnect_event client
  | Subscribe_event "(jsstring \<times> int option) list" client
  | Unsubscribe_event "jsstring list" client
  | Authorized_event jsstring jsstring

fun registry_handle :: "registry_event \<Rightarrow> connection_registry \<Rightarrow> connection_registry" where
  "registry_handle (Client_event c) = on_client c"
| "registry_handle (Disconnect_event c) = on_clientDisconnect c"
| "registry_handle (Subscribe_event subs c) = on_subscribe subs c"
| "registry_handle (Unsubscribe_event topics c) = on_unsubscribe topics c"
| "registry_handle (Authorized_event uid topic) = noteAuthorizedSubscription uid topic"

definition registry_after :: "registry_event list \<Rightarrow> connection_registry" where
  "registry_after es = fold registry_handle es attachConnectionRegistry"

lemma registry_after_simps [simp]:
  "registry_after [] = attachConnectionRegistry"
  "registry_after (es @ [e]) = registry_handle e (registry_after es)"
  by (simp_all add: registry_after_def)

text \<open>\<open>since p q es\<close>: an event with \<open>p\<close> happened, and all events after it have \<open>q\<close>.\<close>

definition since :: "('e \<Rightarrow> bool) \<Rightarrow> ('e \<Rightarrow> bool) \<Rightarrow> 'e list \<Rightarrow> bool" where
  "since p q es \<longleftrightarrow> (\<exists>before e later. es = before @ e # later \<and> p e \<and> list_all q later)"

lemma since_simps [simp]:
  "\<not> since p q []"
  "since p q (es @ [e]) \<longleftrightarrow> p e \<or> since p q es \<and> q e"
proof -
  show "\<not> since p q []" by (simp add: since_def)
  show "since p q (es @ [e]) \<longleftrightarrow> p e \<or> since p q es \<and> q e"
  proof
    assume "since p q (es @ [e])"
    then obtain before x later where s: "es @ [e] = before @ x # later" "p x" "list_all q later" unfolding since_def by blast
    show "p e \<or> since p q es \<and> q e"
    proof (cases later rule: rev_cases)
      case (snoc l y)
      with s show ?thesis unfolding since_def by auto
    qed (use s in simp)
  next
    assume "p e \<or> since p q es \<and> q e"
    then show "since p q (es @ [e])"
    proof
      assume "p e"
      then show ?thesis unfolding since_def by (intro exI [of _ es] exI [of _ e] exI [of _ "[]"]) simp
    next
      assume "since p q es \<and> q e"
      then obtain before x later where "es = before @ x # later" "p x" "list_all q later" "q e" unfolding since_def by blast
      then show ?thesis unfolding since_def by (intro exI [of _ before] exI [of _ x] exI [of _ "later @ [e]"]) simp
    qed
  qed
qed

text \<open>The session of \<open>uid\<close> is \<open>c\<close>: it was the last client announced with that identifier and has not disconnected since.\<close>

definition live_session :: "registry_event list \<Rightarrow> jsstring \<Rightarrow> client \<Rightarrow> bool" where
  "live_session es uid c \<longleftrightarrow> client_id c = uid \<and> since (\<lambda>e. e = Client_event c)
     (\<lambda>e. e \<noteq> Disconnect_event c \<and> (\<forall>c'. e = Client_event c' \<longrightarrow> client_id c' \<noteq> uid)) es"

text \<open>
  Why a topic counts as subscribed in the session of \<open>c\<close>: the gate authorized it for the device, before the session was registered or
  since, or the client was granted it since; and the client has not given it up after that.
\<close>

fun grants :: "client \<Rightarrow> jsstring \<Rightarrow> registry_event \<Rightarrow> bool" where
  "grants c t (Authorized_event uid topic) \<longleftrightarrow> uid = client_id c \<and> topic = t"
| "grants c t (Subscribe_event subs c') \<longleftrightarrow> c' = c \<and> (\<exists>sub \<in> set subs. granted sub \<and> fst sub = t)"
| "grants c t _ \<longleftrightarrow> False"

fun keeps :: "client \<Rightarrow> jsstring \<Rightarrow> registry_event \<Rightarrow> bool" where
  "keeps c t (Unsubscribe_event topics c') \<longleftrightarrow> c' \<noteq> c \<or> t \<notin> set topics"
| "keeps c t _ \<longleftrightarrow> True"

definition topic_granted :: "registry_event list \<Rightarrow> client \<Rightarrow> jsstring \<Rightarrow> bool" where
  "topic_granted es c t \<longleftrightarrow> (\<exists>before later. es = before @ Client_event c # later \<and> Client_event c \<notin> set later \<and>
     (Authorized_event (client_id c) t \<in> set before \<and> list_all (keeps c t) later \<or> since (grants c t) (keeps c t) later))"

section \<open>The registry and the history\<close>

lemma live_session_Nil [simp]: "\<not> live_session [] uid c"
  by (simp add: live_session_def)

lemma live_session_id: "live_session es uid c \<Longrightarrow> client_id c = uid"
  by (simp add: live_session_def)

lemma live_session_snoc:
  "live_session (es @ [e]) uid c \<longleftrightarrow> client_id c = uid \<and>
     (e = Client_event c \<or> live_session es uid c \<and> e \<noteq> Disconnect_event c \<and> (\<forall>c'. e = Client_event c' \<longrightarrow> client_id c' \<noteq> uid))"
  by (auto simp: live_session_def)

lemma getClient_handle:
  "getClient (on_client c R) uid = (if client_id c = uid then Some c else getClient R uid)"
  "getClient (on_clientDisconnect c R) uid = (if getClient R uid = Some c \<and> client_id c = uid then None else getClient R uid)"
  "getClient (on_subscribe subs c R) uid = getClient R uid"
  "getClient (on_unsubscribe topics c R) uid = getClient R uid"
  "getClient (noteAuthorizedSubscription i topic R) uid = getClient R uid"
  by (auto simp: getClient_def on_client_def on_clientDisconnect_def on_subscribe_def on_unsubscribe_def
      noteAuthorizedSubscription_def Let_def split: option.splits)

lemma live_session_unique: "live_session es uid c \<Longrightarrow> live_session es uid c' \<Longrightarrow> c = c'"
proof (induction es rule: rev_induct)
  case (snoc e es)
  then show ?case by (cases e) (auto simp: live_session_snoc)
qed simp

lemma registry_live: "getClient (registry_after es) uid = Some c \<longleftrightarrow> live_session es uid c"
proof (induction es arbitrary: c rule: rev_induct)
  case Nil
  then show ?case by (simp add: getClient_def attachConnectionRegistry_def)
next
  case (snoc e es)
  then show ?case
    by (cases e) (auto simp: getClient_handle live_session_snoc dest: live_session_unique live_session_id split: if_splits)
qed

lemma topic_granted_adopt:
  "Authorized_event (client_id c) t \<in> set es \<Longrightarrow> topic_granted (es @ [Client_event c]) c t"
  unfolding topic_granted_def by (intro exI [of _ es] exI [of _ "[]"]) simp

lemma topic_granted_keep:
  assumes "topic_granted es c t" and "keeps c t e" and "e \<noteq> Client_event c"
  shows "topic_granted (es @ [e]) c t"
proof -
  obtain before later where "es = before @ Client_event c # later" "Client_event c \<notin> set later"
    "Authorized_event (client_id c) t \<in> set before \<and> list_all (keeps c t) later \<or> since (grants c t) (keeps c t) later"
    using assms(1) unfolding topic_granted_def by blast
  then show ?thesis
    using assms(2,3) unfolding topic_granted_def by (intro exI [of _ before] exI [of _ "later @ [e]"]) auto
qed

lemma topic_granted_now:
  assumes "live_session es uid c" and "grants c t e" and "e \<noteq> Client_event c"
  shows "topic_granted (es @ [e]) c t"
proof -
  have "Client_event c \<in> set es" using assms(1) by (auto simp: live_session_def since_def)
  then obtain before later where "es = before @ Client_event c # later" "Client_event c \<notin> set later"
    by (meson split_list_last)
  then show ?thesis
    using assms(2,3) unfolding topic_granted_def by (intro exI [of _ before] exI [of _ "later @ [e]"]) auto
qed

lemma foldl_granted: "t \<in> foldl (\<lambda>ts sub. if granted sub then insert (fst sub) ts else ts) T subs \<longleftrightarrow>
    t \<in> T \<or> (\<exists>sub \<in> set subs. granted sub \<and> fst sub = t)"
  by (induction subs arbitrary: T) auto

lemma foldl_removed: "foldl (\<lambda>ts topic. ts - {topic}) T topics = T - set topics"
  by (induction topics arbitrary: T) auto

definition registry_ok :: "registry_event list \<Rightarrow> connection_registry \<Rightarrow> bool" where
  "registry_ok es R \<longleftrightarrow>
     (\<forall>uid entry t. sessions R uid = Some entry \<longrightarrow> t \<in> se_topics entry \<longrightarrow> topic_granted es (se_client entry) t) \<and>
     (\<forall>uid ts t. pendingTopics R uid = Some ts \<longrightarrow> t \<in> ts \<longrightarrow> Authorized_event uid t \<in> set es) \<and>
     (\<forall>uid. sessions R uid \<noteq> None \<longrightarrow> pendingTopics R uid = None)"

lemma registry_after_ok: "registry_ok es (registry_after es)"
proof (induction es rule: rev_induct)
  case Nil
  then show ?case by (simp add: registry_ok_def attachConnectionRegistry_def)
next
  case (snoc e es)
  let ?R = "registry_after es"
  have old: "\<And>uid entry t. sessions ?R uid = Some entry \<Longrightarrow> t \<in> se_topics entry \<Longrightarrow> topic_granted es (se_client entry) t"
    and pend: "\<And>uid ts t. pendingTopics ?R uid = Some ts \<Longrightarrow> t \<in> ts \<Longrightarrow> Authorized_event uid t \<in> set es"
    and free: "\<And>uid. sessions ?R uid \<noteq> None \<Longrightarrow> pendingTopics ?R uid = None"
    using snoc.IH unfolding registry_ok_def by blast+
  have live: "\<And>uid entry. sessions ?R uid = Some entry \<Longrightarrow> live_session es uid (se_client entry)"
    by (simp flip: registry_live add: getClient_def)
  have id: "\<And>uid entry. sessions ?R uid = Some entry \<Longrightarrow> client_id (se_client entry) = uid"
    using live live_session_id by blast
  show ?case
  proof (cases e)
    case (Client_event c)
    have "topic_granted (es @ [e]) c t" if "pendingTopics ?R (client_id c) = Some ts" "t \<in> ts" for ts t
      unfolding Client_event using pend [OF that] by (rule topic_granted_adopt)
    moreover have "topic_granted (es @ [e]) (se_client entry) t"
      if "sessions ?R uid = Some entry" "t \<in> se_topics entry" "uid \<noteq> client_id c" for uid entry t
      using old [OF that(1,2)] id [OF that(1)] that(3) Client_event by (intro topic_granted_keep) auto
    ultimately show ?thesis
      using pend free Client_event by (auto simp: registry_ok_def on_client_def Let_def split: option.splits)
  next
    case (Disconnect_event c)
    have "topic_granted (es @ [e]) (se_client entry) t"
      if "sessions ?R uid = Some entry" "t \<in> se_topics entry" for uid entry t
      using old [OF that] Disconnect_event by (intro topic_granted_keep) auto
    then show ?thesis
      using pend free Disconnect_event by (auto simp: registry_ok_def on_clientDisconnect_def split: option.splits)
  next
    case (Subscribe_event subs c)
    have "topic_granted (es @ [e]) (se_client entry) t"
      if "sessions ?R uid = Some entry" "t \<in> se_topics entry" for uid entry t
      using old [OF that] Subscribe_event by (intro topic_granted_keep) auto
    moreover have "topic_granted (es @ [e]) c t"
      if "sessions ?R uid = Some entry" "se_client entry = c" "sub \<in> set subs" "granted sub" "fst sub = t" for uid entry t sub
      using live [OF that(1)] that(2-) Subscribe_event by (intro topic_granted_now) auto
    ultimately show ?thesis
      using pend free Subscribe_event
      by (auto simp: registry_ok_def on_subscribe_def foldl_granted split: option.splits)
  next
    case (Unsubscribe_event topics c)
    have kept: "topic_granted (es @ [e]) (se_client entry) t"
      if "sessions ?R uid = Some entry" "t \<in> se_topics entry" "se_client entry \<noteq> c \<or> t \<notin> set topics" for uid entry t
      using old [OF that(1,2)] that(3) Unsubscribe_event by (intro topic_granted_keep) auto
    show ?thesis
    proof (cases "getClient ?R (client_id c) = Some c")
      case True
      have "topic_granted (es @ [e]) (se_client entry) t"
        if "sessions ?R uid = Some entry" "t \<in> se_topics entry" "uid \<noteq> client_id c" for uid entry t
        using id [OF that(1)] that(3) by (intro kept [OF that(1,2)]) auto
      then show ?thesis
        using pend free kept True Unsubscribe_event
        by (auto simp: registry_ok_def on_unsubscribe_def foldl_removed getClient_def split: option.splits)
    next
      case False
      then have "on_unsubscribe topics c ?R = ?R"
        by (auto simp: on_unsubscribe_def getClient_def split: option.split)
      moreover have "topic_granted (es @ [e]) (se_client entry) t" if "sessions ?R uid = Some entry" "t \<in> se_topics entry" for uid entry t
        using id [OF that(1)] False that by (intro kept [OF that]) (auto simp: getClient_def)
      ultimately show ?thesis using pend free Unsubscribe_event by (auto simp: registry_ok_def)
    qed
  next
    case (Authorized_event i topic)
    have "topic_granted (es @ [e]) (se_client entry) t"
      if "sessions ?R uid = Some entry" "t \<in> se_topics entry" for uid entry t
      using old [OF that] Authorized_event by (intro topic_granted_keep) auto
    moreover have "topic_granted (es @ [e]) (se_client entry) topic" if "sessions ?R i = Some entry" for entry
      using live [OF that] id [OF that] Authorized_event by (intro topic_granted_now) auto
    ultimately show ?thesis
      using pend free Authorized_event
      by (auto simp: registry_ok_def noteAuthorizedSubscription_def Let_def split: option.splits)
  qed
qed

section \<open>Status notifications\<close>

text \<open>
  \<^verbatim>\<open>attachDeviceStatusNotifications\<close>: per device the time at which its pending offline timer is due. The notifications of a
  handler are its output. A timer that was cleared does not fire; one that is armed fires when the clock has reached it.
\<close>

definition OFFLINE_DEFER_MS :: int where "OFFLINE_DEFER_MS = 300"

type_synonym offline_timers = "jsstring \<rightharpoonup> int"

definition status_client :: "client \<Rightarrow> offline_timers \<Rightarrow> offline_timers \<times> (jsstring \<times> bool) list" where
  "status_client c P = (P(client_id c := None), [(client_id c, True)])"

definition status_disconnect :: "int \<Rightarrow> client \<Rightarrow> offline_timers \<Rightarrow> offline_timers" where
  "status_disconnect now c P = P(client_id c \<mapsto> now + OFFLINE_DEFER_MS)"

definition status_timer :: "jsstring \<Rightarrow> offline_timers \<Rightarrow> offline_timers \<times> (jsstring \<times> bool) list" where
  "status_timer uid P = (P(uid := None), [(uid, False)])"

datatype status_entry = Connected jsstring | Disconnected jsstring | Status_notified jsstring bool

type_synonym status_sys = "int \<times> offline_timers \<times> (int \<times> status_entry) list"

abbreviation notified :: "int \<Rightarrow> (jsstring \<times> bool) list \<Rightarrow> (int \<times> status_entry) list" where
  "notified now \<equiv> map (\<lambda>(uid, online). (now, Status_notified uid online))"

inductive status_step :: "status_sys \<Rightarrow> status_sys \<Rightarrow> bool" where
  clock: "now \<le> now' \<Longrightarrow> status_step (now, P, h) (now', P, h)"
| client: "status_client c P = (P', out) \<Longrightarrow> status_step (now, P, h) (now, P', h @ [(now, Connected (client_id c))] @ notified now out)"
| disconnect: "status_step (now, P, h) (now, status_disconnect now c P, h @ [(now, Disconnected (client_id c))])"
| timer: "P uid = Some due \<Longrightarrow> due \<le> now \<Longrightarrow> status_timer uid P = (P', out) \<Longrightarrow> status_step (now, P, h) (now, P', h @ notified now out)"

definition status_start :: "status_sys \<Rightarrow> bool" where
  "status_start s \<longleftrightarrow> (\<exists>now. s = (now, Map.empty, []))"

text \<open>The last thing heard of a device is that it disconnected, at a time with \<open>p\<close>, and this has not been announced.\<close>

definition gone_since :: "(int \<Rightarrow> bool) \<Rightarrow> jsstring \<Rightarrow> (int \<times> status_entry) list \<Rightarrow> bool" where
  "gone_since p uid = since (\<lambda>(t, e). e = Disconnected uid \<and> p t)
     (\<lambda>(t, e). e \<noteq> Connected uid \<and> e \<noteq> Disconnected uid \<and> e \<noteq> Status_notified uid False)"

lemma gone_since_simps [simp]:
  "\<not> gone_since p uid []"
  "gone_since p uid (h @ [(t, e)]) \<longleftrightarrow> e = Disconnected uid \<and> p t \<or>
     gone_since p uid h \<and> e \<noteq> Connected uid \<and> e \<noteq> Disconnected uid \<and> e \<noteq> Status_notified uid False"
  by (simp_all add: gone_since_def)

definition timers_armed :: "status_sys \<Rightarrow> bool" where
  "timers_armed = (\<lambda>(now, P, h). \<forall>uid due. P uid = Some due \<longleftrightarrow> gone_since (\<lambda>t. t + OFFLINE_DEFER_MS = due) uid h)"

definition offline_justified :: "status_sys \<Rightarrow> bool" where
  "offline_justified = (\<lambda>(now, P, h). \<forall>before t uid later. h = before @ (t, Status_notified uid False) # later \<longrightarrow>
     gone_since (\<lambda>t0. t0 + OFFLINE_DEFER_MS \<le> t) uid before)"

definition status_inv :: "status_sys \<Rightarrow> bool" where
  "status_inv s \<longleftrightarrow> timers_armed s \<and> offline_justified s"

lemma snoc_split:
  "es @ [e] = before @ x # later \<longleftrightarrow> later = [] \<and> before = es \<and> e = x \<or> (\<exists>l. later = l @ [e] \<and> es = before @ x # l)"
  by (cases later rule: rev_cases) auto

lemma offline_justified_snoc:
  assumes "offline_justified (now, P, h)"
    and "\<And>uid. e = Status_notified uid False \<Longrightarrow> gone_since (\<lambda>t0. t0 + OFFLINE_DEFER_MS \<le> t) uid h"
  shows "offline_justified (now', P', h @ [(t, e)])"
  using assms unfolding offline_justified_def prod.case snoc_split by blast

lemma gone_since_mono: "gone_since p uid h \<Longrightarrow> (\<And>t. p t \<Longrightarrow> q t) \<Longrightarrow> gone_since q uid h"
  unfolding gone_since_def since_def by fastforce

lemma status_step_inv: "status_step s s' \<Longrightarrow> status_inv s \<Longrightarrow> status_inv s'"
proof (induction rule: status_step.induct)
  case (clock now now' P h)
  then show ?case by (simp add: status_inv_def timers_armed_def offline_justified_def)
next
  case (client c P P' out now h)
  then have P': "P' = P(client_id c := None)" and out: "out = [(client_id c, True)]" by (simp_all add: status_client_def)
  have "offline_justified (now, P', (h @ [(now, Connected (client_id c))]) @ [(now, Status_notified (client_id c) True)])"
    using client.prems by (intro offline_justified_snoc [of now P] offline_justified_snoc [of now P h]) (simp_all add: status_inv_def)
  moreover have "timers_armed (now, P', (h @ [(now, Connected (client_id c))]) @ [(now, Status_notified (client_id c) True)])"
    using client.prems by (auto simp: P' status_inv_def timers_armed_def simp del: append_assoc)
  ultimately show ?case by (simp add: status_inv_def out)
next
  case (disconnect now P h c)
  then show ?case
    by (auto simp: status_inv_def timers_armed_def status_disconnect_def intro: offline_justified_snoc)
next
  case (timer P uid due now P' out h)
  then have P': "P' = P(uid := None)" and out: "out = [(uid, False)]" by (simp_all add: status_timer_def)
  have "gone_since (\<lambda>t. t + OFFLINE_DEFER_MS = due) uid h"
    using timer by (simp add: status_inv_def timers_armed_def)
  then have "gone_since (\<lambda>t0. t0 + OFFLINE_DEFER_MS \<le> now) uid h" by (rule gone_since_mono) (use timer in simp)
  then have "offline_justified (now, P', h @ [(now, Status_notified uid False)])"
    using timer.prems by (intro offline_justified_snoc [of now P]) (simp_all add: status_inv_def)
  moreover have "timers_armed (now, P', h @ [(now, Status_notified uid False)])"
    using timer.prems by (auto simp: P' status_inv_def timers_armed_def)
  ultimately show ?case by (simp add: status_inv_def out)
qed

interpretation status: guarded_system status_start status_step status_inv
proof
  show "status_start s \<Longrightarrow> status_inv s" for s
    by (auto simp: status_start_def status_inv_def timers_armed_def offline_justified_def)
qed (rule status_step_inv)

section \<open>Properties\<close>

text \<open>
  The registry knows exactly the live sessions: whatever events arrive in whatever order, \<open>getClient\<close> returns the client last announced
  for the device unless that very client has disconnected since; a late disconnect, subscribe or unsubscribe of a replaced client changes nothing,
  and revocation closes that client.
\<close>

theorem registry_knows_live_sessions:
  "(getClient (registry_after es) uid = Some c \<longleftrightarrow> live_session es uid c) \<and>
   (isConnected (registry_after es) uid \<longleftrightarrow> (\<exists>c. live_session es uid c)) \<and>
   (kickDeviceSession (registry_after es) uid = (Some c, True) \<longleftrightarrow> live_session es uid c)"
proof -
  have "isConnected R uid \<longleftrightarrow> (\<exists>c. getClient R uid = Some c)" for R by (auto simp: isConnected_def getClient_def)
  moreover have "kickDeviceSession R uid = (Some c, True) \<longleftrightarrow> getClient R uid = Some c" for R
    by (auto simp: kickDeviceSession_def split: option.split)
  ultimately show ?thesis by (simp add: registry_live)
qed

text \<open>
  A device that counts as subscribed to a topic has a live session for which the topic was authorized or granted, and that session has not
  given the topic up since.
\<close>

theorem subscription_has_grant:
  assumes "isSubscribed (registry_after es) uid topic"
  shows "\<exists>c. live_session es uid c \<and> topic_granted es c topic"
proof -
  obtain entry where entry: "sessions (registry_after es) uid = Some entry" "topic \<in> se_topics entry"
    using assms by (auto simp: isSubscribed_def split: option.splits)
  then have "live_session es uid (se_client entry)" by (simp flip: registry_live add: getClient_def)
  moreover have "topic_granted es (se_client entry) topic"
    using registry_after_ok [of es] entry unfolding registry_ok_def by blast
  ultimately show ?thesis by blast
qed

text \<open>
  A restored subscription is lost when the session it replaces is still registered while it is restored: the note of the gate goes to the old
  session's entry, which its disconnect deletes. If the old session disconnects first, the note is kept and adopted.
\<close>

theorem restored_subscription_lost:
  assumes "live_session es uid old" and "client_id new = uid"
  shows "\<not> isSubscribed (registry_after (es @ [Authorized_event uid topic, Disconnect_event old, Client_event new])) uid topic \<and>
    isSubscribed (registry_after (es @ [Disconnect_event old, Authorized_event uid topic, Client_event new])) uid topic"
proof -
  have id: "client_id old = uid" using assms(1) by (rule live_session_id)
  obtain entry where entry: "sessions (registry_after es) uid = Some entry" "se_client entry = old"
    using assms(1) by (auto simp flip: registry_live simp: getClient_def)
  then have "pendingTopics (registry_after es) uid = None"
    using registry_after_ok [of es] unfolding registry_ok_def by blast
  with entry show ?thesis
    using registry_after_simps(2) [of "es @ [a, b]" c for a b c] registry_after_simps(2) [of "es @ [a]" b for a b]
    by (simp add: isSubscribed_def noteAuthorizedSubscription_def on_clientDisconnect_def on_client_def id assms(2))
qed

text \<open>
  A device is never reported offline by mistake: an offline notification is sent only if the last thing heard of the device was its
  disconnect, at least 300 ms earlier, with no connection since; and a disconnect that is not followed by a
  connection has its timer armed for exactly 300 ms after it, until the notification is sent.
\<close>

theorem offline_only_after_silence:
  assumes "status_start s" and "status_step\<^sup>*\<^sup>* s (now, P, h)"
  shows "(\<forall>before t later. h = before @ (t, Status_notified uid False) # later \<longrightarrow> gone_since (\<lambda>t0. t0 + OFFLINE_DEFER_MS \<le> t) uid before) \<and>
    (P uid = Some due \<longleftrightarrow> gone_since (\<lambda>t0. t0 + OFFLINE_DEFER_MS = due) uid h)"
  using status.reachable_inv [OF assms] by (simp add: status_inv_def timers_armed_def offline_justified_def)

section \<open>Examples\<close>

definition ex_events :: "registry_event list" where
  "ex_events = [Client_event (1, [7]), Authorized_event [7] [8]]"

lemma ex_events_live: "live_session ex_events [7] (1, [7])"
  unfolding ex_events_def by (simp add: live_session_def since_def) (intro exI [of _ "[]"] exI [of _ "[Authorized_event [7] [8]]"], simp)

lemma subscription_has_grant_witness: "\<exists>c. live_session ex_events [7] c \<and> topic_granted ex_events c [8]"
  by (rule subscription_has_grant)
    (simp add: ex_events_def registry_after_def on_client_def noteAuthorizedSubscription_def isSubscribed_def attachConnectionRegistry_def)

lemma restored_subscription_lost_witness:
  "\<not> isSubscribed (registry_after (ex_events @ [Authorized_event [7] [8], Disconnect_event (1, [7]), Client_event (2, [7])])) [7] [8]"
  using restored_subscription_lost [OF ex_events_live, of "(2, [7])"] by simp

lemma offline_only_after_silence_witness: "gone_since (\<lambda>t0. t0 + OFFLINE_DEFER_MS = 305) [7] [(5, Disconnected [7])]"
proof -
  have "status_step\<^sup>*\<^sup>* (5, Map.empty, []) (5, status_disconnect 5 (1, [7]) Map.empty, [(5, Disconnected [7])])"
    using status_step.disconnect [of 5 Map.empty "[]" "(1, [7])"] by auto
  from offline_only_after_silence [OF _ this, of "[7]" 305] show ?thesis
    by (simp add: status_start_def status_disconnect_def OFFLINE_DEFER_MS_def)
qed

end
