(* ===== verification/BrokerPollers.thy ===== *)
theory BrokerPollers
  imports BrokerSessions QueueProperties OtaProperties
begin

text \<open>
  The two pollers of the broker (\<^verbatim>\<open>broker/src/mqtt/publish.ts\<close>, \<^verbatim>\<open>broker/src/mqtt/ota-publish.ts\<close>): leased commands and update notices
  are published to devices that are connected and subscribed, and put back otherwise. A cycle is a sequence of transactions on the
  tables of CommandQueue and OtaDeploy; what other processes do between two of them is an argument, as are
  the registry at each look, the clock and the outcome of each publish. Both cycles run the same loop, whose
  contract is the locale \<open>drain_cycle\<close>.
\<close>

section \<open>The loop of a cycle\<close>

record mqtt_packet =
  mp_topic :: jsstring
  mp_payload :: bytes
  mp_qos :: nat
  mp_retain :: bool

text \<open>
  At most \<open>n\<close> rounds of leasing and handling, from round \<open>i\<close>; it stops when nothing can be leased and passes on an error. The last component
  collects the packets the MQTT library accepted.
\<close>

fun drain_loop ::
    "(nat \<Rightarrow> 'd \<Rightarrow> 'd) \<Rightarrow> (nat \<Rightarrow> 'd \<Rightarrow> 'e + ('l option \<times> 'd)) \<Rightarrow> (nat \<Rightarrow> 'l \<Rightarrow> 'd \<Rightarrow> ('e + unit) \<times> 'd \<times> mqtt_packet list) \<Rightarrow>
     nat \<Rightarrow> nat \<Rightarrow> 'd \<Rightarrow> ('e + unit) \<times> 'd \<times> mqtt_packet list" where
  "drain_loop others lease handle 0 i d = (Inr (), d, [])"
| "drain_loop others lease handle (Suc n) i d =
     (case lease i (others i d) of
        Inl e \<Rightarrow> (Inl e, others i d, [])
      | Inr (None, d') \<Rightarrow> (Inr (), d', [])
      | Inr (Some l, d') \<Rightarrow>
          (case handle i l d' of
             (Inl e, d'', ps) \<Rightarrow> (Inl e, d'', ps)
           | (Inr _, d'', ps) \<Rightarrow>
               let (r, d3, qs) = drain_loop others lease handle n (Suc i) d'' in (r, d3, ps @ qs)))"

locale drain_cycle =
  fixes others :: "nat \<Rightarrow> 'd \<Rightarrow> 'd"
    and between :: "nat \<Rightarrow> 'd \<Rightarrow> 'd"
    and lease :: "nat \<Rightarrow> 'd \<Rightarrow> 'e + ('l option \<times> 'd)"
    and handle :: "nat \<Rightarrow> 'l \<Rightarrow> 'd \<Rightarrow> ('e + unit) \<times> 'd \<times> mqtt_packet list"
    and step :: "'d \<Rightarrow> 'd \<Rightarrow> bool"
    and permitted :: "nat \<Rightarrow> mqtt_packet \<Rightarrow> bool"
  assumes lease_step: "lease i d = Inr (r, d') \<Longrightarrow> step d d'"
    and handle_steps: "handle i l d = (u, d', ps) \<Longrightarrow> step\<^sup>*\<^sup>* (between i d) d'"
    and handle_packets: "handle i l d = (u, d', ps) \<Longrightarrow> length ps \<le> 1 \<and> (\<forall>p \<in> set ps. permitted i p)"
begin

text \<open>What others do between two transactions must consist of steps too.\<close>

lemma drain_steps:
  "(\<And>i d. step\<^sup>*\<^sup>* d (others i d) \<and> step\<^sup>*\<^sup>* d (between i d)) \<Longrightarrow> drain_loop others lease handle n i d = (u, d', ps) \<Longrightarrow> step\<^sup>*\<^sup>* d d'"
proof (induction n arbitrary: i d u d' ps)
  case (Suc n)
  have others_steps: "step\<^sup>*\<^sup>* d (others i d)" "step\<^sup>*\<^sup>* d (between i d)" for i d
    using Suc.prems(1) by blast+
  have lease: "step\<^sup>*\<^sup>* d d1" if "lease i (others i d) = Inr (l, d1)" for l d1
    using others_steps(1) lease_step [OF that] by (rule rtranclp.rtrancl_into_rtrancl)
  show ?case
  proof (cases "lease i (others i d)")
    case (Inl e)
    then show ?thesis using Suc.prems others_steps(1) by auto
  next
    case (Inr ld)
    then obtain l d1 where ld: "lease i (others i d) = Inr (l, d1)" by (cases ld) auto
    show ?thesis
    proof (cases l)
      case None
      then show ?thesis using Suc.prems ld lease [OF ld] by auto
    next
      case (Some l')
      obtain r1 d2 qs where h: "handle i l' d1 = (r1, d2, qs)" by (cases "handle i l' d1") auto
      have "step\<^sup>*\<^sup>* d d2"
        using rtranclp_trans [OF lease [OF ld] rtranclp_trans [OF others_steps(2) handle_steps [OF h]]] .
      then show ?thesis
        using Suc.prems Suc.IH [of "Suc i" d2] ld Some h
        by (auto split: sum.splits prod.splits intro: rtranclp_trans)
    qed
  qed
qed simp

lemma drain_packets:
  "drain_loop others lease handle n i d = (u, d', ps) \<Longrightarrow> length ps \<le> n \<and> (\<forall>p \<in> set ps. \<exists>j \<ge> i. j < i + n \<and> permitted j p)"
proof (induction n arbitrary: i d u d' ps)
  case (Suc n)
  show ?case
  proof (cases "lease i (others i d)")
    case (Inl e)
    then show ?thesis using Suc.prems by auto
  next
    case (Inr ld)
    then obtain l d1 where ld: "lease i (others i d) = Inr (l, d1)" by (cases ld) auto
    show ?thesis
    proof (cases l)
      case None
      then show ?thesis using Suc.prems ld by auto
    next
      case (Some l')
      obtain r1 d2 qs where h: "handle i l' d1 = (r1, d2, qs)" by (cases "handle i l' d1") auto
      show ?thesis
      proof (cases r1)
        case (Inl e)
        then show ?thesis using Suc.prems ld Some h handle_packets [OF h] by auto
      next
        case (Inr v)
        obtain r2 d3 qs' where rest: "drain_loop others lease handle n (Suc i) d2 = (r2, d3, qs')"
          by (cases "drain_loop others lease handle n (Suc i) d2") auto
        have ps: "ps = qs @ qs'" using Suc.prems ld Some h Inr rest by simp
        have "\<exists>j \<ge> i. j < i + Suc n \<and> permitted j p" if p: "p \<in> set ps" for p
        proof (cases "p \<in> set qs")
          case True
          then show ?thesis using handle_packets [OF h] by (intro exI [of _ i]) auto
        next
          case False
          then obtain j where "Suc i \<le> j" "j < Suc i + n" "permitted j p" using p ps Suc.IH [OF rest] by auto
          then show ?thesis by (intro exI [of _ j]) auto
        qed
        moreover have "length ps \<le> Suc n" using ps Suc.IH [OF rest] handle_packets [OF h] by auto
        ultimately show ?thesis by blast
      qed
    qed
  qed
qed simp

end

section \<open>Cycles of a poller\<close>

text \<open>The state of \<^verbatim>\<open>startCommandPoller\<close> and \<^verbatim>\<open>startOtaPoller\<close>, and the two ends of \<^verbatim>\<open>poll\<close>.\<close>

record poller =
  pl_running :: bool
  pl_stopped :: bool
  pl_lastExpiryAt :: int

definition DEFAULT_EXPIRY_INTERVAL_MS :: int where "DEFAULT_EXPIRY_INTERVAL_MS = 15000"

definition start_poller :: poller where
  "start_poller = \<lparr>pl_running = False, pl_stopped = False, pl_lastExpiryAt = 0\<rparr>"

text \<open>The result is \<open>None\<close> when no cycle is started, and says otherwise whether it sweeps expired rows first.\<close>

definition poll_begin :: "int option \<Rightarrow> int \<Rightarrow> poller \<Rightarrow> bool option \<times> poller" where
  "poll_begin expiryIntervalMs tm p =
     (if pl_running p \<or> pl_stopped p then (None, p)
      else let interval = (case expiryIntervalMs of None \<Rightarrow> DEFAULT_EXPIRY_INTERVAL_MS | Some x \<Rightarrow> x);
               runExpiry = (tm - pl_lastExpiryAt p \<ge> interval);
               p = p\<lparr>pl_running := True\<rparr> in
           (Some runExpiry, if runExpiry then p\<lparr>pl_lastExpiryAt := tm\<rparr> else p))"

definition poll_end :: "poller \<Rightarrow> poller" where
  "poll_end p = p\<lparr>pl_running := False\<rparr>"

definition poller_stop :: "poller \<Rightarrow> poller" where
  "poller_stop p = p\<lparr>pl_stopped := True\<rparr>"

datatype poller_entry = Cycle_begin int bool | Cycle_end | Poller_stopped

inductive poller_step :: "int option \<Rightarrow> poller \<times> poller_entry list \<Rightarrow> poller \<times> poller_entry list \<Rightarrow> bool" for interval where
  begun: "poll_begin interval tm p = (Some sweep, p') \<Longrightarrow> poller_step interval (p, h) (p', h @ [Cycle_begin tm sweep])"
| skip: "poll_begin interval tm p = (None, p') \<Longrightarrow> poller_step interval (p, h) (p', h)"
| finish: "pl_running p \<Longrightarrow> poller_step interval (p, h) (poll_end p, h @ [Cycle_end])"
| stop: "poller_step interval (p, h) (poller_stop p, h @ [Poller_stopped])"

text \<open>A cycle has begun and not ended; the last sweep was at \<open>t\<close>.\<close>

definition cycle_open :: "poller_entry list \<Rightarrow> bool" where
  "cycle_open = since (\<lambda>e. \<exists>tm sweep. e = Cycle_begin tm sweep) (\<lambda>e. e \<noteq> Cycle_end)"

definition last_sweep :: "int \<Rightarrow> poller_entry list \<Rightarrow> bool" where
  "last_sweep t = since (\<lambda>e. e = Cycle_begin t True) (\<lambda>e. \<forall>tm. e \<noteq> Cycle_begin tm True)"

definition begun_well :: "int \<Rightarrow> poller_entry list \<Rightarrow> bool" where
  "begun_well interval h \<longleftrightarrow> (\<forall>before tm sweep later. h = before @ Cycle_begin tm sweep # later \<longrightarrow>
     \<not> cycle_open before \<and> Poller_stopped \<notin> set before \<and>
     (sweep \<longrightarrow> (\<forall>t. last_sweep t before \<longrightarrow> tm - t \<ge> interval)))"

definition interval_of :: "int option \<Rightarrow> int" where
  "interval_of i = (case i of None \<Rightarrow> DEFAULT_EXPIRY_INTERVAL_MS | Some x \<Rightarrow> x)"

definition poller_inv :: "int option \<Rightarrow> poller \<times> poller_entry list \<Rightarrow> bool" where
  "poller_inv interval = (\<lambda>(p, h). (pl_running p \<longleftrightarrow> cycle_open h) \<and> (pl_stopped p \<longleftrightarrow> Poller_stopped \<in> set h) \<and>
     (\<forall>t. last_sweep t h \<longrightarrow> t = pl_lastExpiryAt p) \<and> begun_well (interval_of interval) h)"

lemma begun_well_snoc:
  "begun_well interval (h @ [e]) \<longleftrightarrow> begun_well interval h \<and> (\<forall>tm sweep. e = Cycle_begin tm sweep \<longrightarrow>
     \<not> cycle_open h \<and> Poller_stopped \<notin> set h \<and> (sweep \<longrightarrow> (\<forall>t. last_sweep t h \<longrightarrow> tm - t \<ge> interval)))"
  unfolding begun_well_def snoc_split by blast

lemma poller_step_inv: "poller_step interval s t \<Longrightarrow> poller_inv interval s \<Longrightarrow> poller_inv interval t"
  by (induction rule: poller_step.induct)
    (auto simp: poller_inv_def begun_well_snoc poll_begin_def poll_end_def poller_stop_def cycle_open_def last_sweep_def
      interval_of_def Let_def split: if_splits option.splits)

interpretation poller: guarded_system "\<lambda>s. s = (start_poller, [])" "poller_step interval" "poller_inv interval" for interval
proof
  show "poller_inv interval s" if "s = (start_poller, [])" for s
    by (simp add: that poller_inv_def start_poller_def cycle_open_def last_sweep_def begun_well_def)
qed (rule poller_step_inv)

section \<open>The command poller\<close>

definition DEFAULT_DRAIN_MAX_PER_CYCLE :: nat where "DEFAULT_DRAIN_MAX_PER_CYCLE = 100"
definition SUBSCRIBE_RETRY_MS :: int where "SUBSCRIBE_RETRY_MS = 1000"

record PollerOptions =
  po_leaseDurationMs :: int
  po_retain :: bool
  po_offlineRetryMs :: "int option"
  po_drainMaxPerCycle :: "nat option"

text \<open>
  What a cycle meets in round \<open>i\<close>: the registry when the leased command is looked at, whether the publish is accepted, the clock, the rows other
  transactions hold locked, and the transactions of other processes before the lease and before the row is updated.
\<close>

record 'd poll_env =
  pe_registry :: "nat \<Rightarrow> connection_registry"
  pe_publish :: "nat \<Rightarrow> bool"
  pe_clock :: "nat \<Rightarrow> time"
  pe_locked :: "nat \<Rightarrow> uuid set"
  pe_before_lease :: "nat \<Rightarrow> 'd \<Rightarrow> 'd"
  pe_before_update :: "nat \<Rightarrow> 'd \<Rightarrow> 'd"

text \<open>An update of the row ends the handling of a command; its error ends the cycle.\<close>

definition run_update :: "('d \<Rightarrow> 'e + ('a \<times> 'd)) \<Rightarrow> 'd \<Rightarrow> mqtt_packet list \<Rightarrow> ('e + unit) \<times> 'd \<times> mqtt_packet list" where
  "run_update tx d packets = (case tx d of Inl e \<Rightarrow> (Inl e, d, packets) | Inr (_, d') \<Rightarrow> (Inr (), d', packets))"

definition device_packet :: "jsstring \<Rightarrow> bytes \<Rightarrow> bool \<Rightarrow> mqtt_packet" where
  "device_packet topic content retain = \<lparr>mp_topic = topic, mp_payload = content, mp_qos = 1, mp_retain = retain\<rparr>"

definition handleLeasedCommand ::
    "db poll_env \<Rightarrow> PollerOptions \<Rightarrow> nat \<Rightarrow> LeasedCommand \<Rightarrow> db \<Rightarrow> (CommandQueueError + unit) \<times> db \<times> mqtt_packet list" where
  "handleLeasedCommand env opts i l d0 =
     (let d = pe_before_update env i d0; R = pe_registry env i; tm = pe_clock env i in
      if \<not> isConnected R (ldeviceUid l) then
        run_update (deferLease (tm + (case po_offlineRetryMs opts of None \<Rightarrow> 5000 | Some x \<Rightarrow> x)) (lcid l)) d []
      else case commandExecution (ldeviceUid l) of
        Inl _ \<Rightarrow> run_update (releaseLease tm (lcid l)) d []
      | Inr topic \<Rightarrow>
          if \<not> isSubscribed R (ldeviceUid l) topic then
            run_update (deferLease (tm + SUBSCRIBE_RETRY_MS) (lcid l)) d []
          else if \<not> pe_publish env i then run_update (releaseLease tm (lcid l)) d []
          else run_update (markBrokerAccepted tm (lcid l)) d [device_packet topic (lpayload l) (po_retain opts)])"

definition command_drain ::
    "db poll_env \<Rightarrow> PollerOptions \<Rightarrow> nat \<Rightarrow> nat \<Rightarrow> db \<Rightarrow> (CommandQueueError + unit) \<times> db \<times> mqtt_packet list" where
  "command_drain env opts =
     drain_loop (pe_before_lease env) (\<lambda>i. leaseNext (\<lambda>x. x \<in> pe_locked env i) (pe_clock env i) (po_leaseDurationMs opts))
       (handleLeasedCommand env opts)"

definition pollOnce ::
    "db poll_env \<Rightarrow> (nat \<Rightarrow> time) \<Rightarrow> PollerOptions \<Rightarrow> bool \<Rightarrow> db \<Rightarrow> (CommandQueueError + unit) \<times> db \<times> mqtt_packet list" where
  "pollOnce env sweepClock opts runExpiry d =
     (let budget = (case po_drainMaxPerCycle opts of None \<Rightarrow> DEFAULT_DRAIN_MAX_PER_CYCLE | Some n \<Rightarrow> n) in
      if runExpiry then
        (case expireDelayedCommands sweepClock d of
           (Inl e, d') \<Rightarrow> (Inl e, d', [])
         | (Inr _, d') \<Rightarrow> command_drain env opts budget 0 d')
      else command_drain env opts budget 0 d)"

section \<open>The update poller\<close>

definition DEFAULT_OTA_DRAIN_MAX_PER_CYCLE :: nat where "DEFAULT_OTA_DRAIN_MAX_PER_CYCLE = 100"

record OtaPollerOptions =
  oo_secret :: jsstring
  oo_leaseDurationMs :: int
  oo_tokenTtlSeconds :: int
  oo_stallTimeoutMinutes :: int
  oo_offlineRetryMs :: "int option"
  oo_drainMaxPerCycle :: "nat option"

text \<open>\<^verbatim>\<open>Date.prototype.toISOString\<close> of a time in milliseconds since 1970, by the rules of the Gregorian calendar.\<close>

fun decimal_text :: "nat \<Rightarrow> nat \<Rightarrow> jsstring" where
  "decimal_text 0 n = []"
| "decimal_text (Suc w) n = decimal_text w (n div 10) @ [48 + n mod 10]"

definition civil_from_days :: "int \<Rightarrow> int \<times> int \<times> int" where
  "civil_from_days days =
     (let z = days + 719468;
          era = z div 146097;
          doe = z mod 146097;
          yoe = (doe - doe div 1460 + doe div 36524 - doe div 146096) div 365;
          doy = doe - (365 * yoe + yoe div 4 - yoe div 100);
          mp = (5 * doy + 2) div 153;
          d = doy - (153 * mp + 2) div 5 + 1;
          m = (if mp < 10 then mp + 3 else mp - 9)
      in (yoe + era * 400 + (if m \<le> 2 then 1 else 0), m, d))"

definition iso_year :: "int \<Rightarrow> jsstring" where
  "iso_year y = (if 0 \<le> y \<and> y \<le> 9999 then decimal_text 4 (nat y)
     else (if y < 0 then js ''-'' else js ''+'') @ decimal_text 6 (nat \<bar>y\<bar>))"

definition toISOString :: "int \<Rightarrow> jsstring" where
  "toISOString ms =
     (let (y, m, d) = civil_from_days (ms div 86400000); t = nat (ms mod 86400000) in
      iso_year y @ js ''-'' @ decimal_text 2 (nat m) @ js ''-'' @ decimal_text 2 (nat d) @ js ''T'' @
      decimal_text 2 (t div 3600000) @ js '':'' @ decimal_text 2 (t div 60000 mod 60) @ js '':'' @ decimal_text 2 (t div 1000 mod 60) @ js ''.'' @
      decimal_text 3 (t mod 1000) @ js ''Z'')"

text \<open>The notice; \<^verbatim>\<open>if (target.version)\<close> leaves out a version that is absent or empty.\<close>

definition ota_notice :: "LeasedOtaTarget \<Rightarrow> jsstring \<Rightarrow> int \<Rightarrow> jsval" where
  "ota_notice target token expiresAt =
     JObj ([(js ''release_id'', JStr (lo_releaseId target)), (js ''job_id'', JStr (lo_jobId target)),
       (js ''bin_sha256'', JStr (lo_binHash target)), (js ''bin_size'', JNum (Fin (of_int (lo_binSize target)))),
       (js ''download'', JObj [(js ''url'', JStr (js ''/v1/firmware-releases/'' @ lo_releaseId target @ js ''/bin'')),
          (js ''token'', JStr token), (js ''expires_at'', JStr (toISOString expiresAt))])] @
       (case lo_version target of None \<Rightarrow> [] | Some v \<Rightarrow> if v = [] then [] else [(js ''version'', JStr v)]))"

definition handleLeasedOtaTarget ::
    "jwt_signer \<Rightarrow> (jsval \<Rightarrow> bytes) \<Rightarrow> ota_db poll_env \<Rightarrow> OtaPollerOptions \<Rightarrow> nat \<Rightarrow> LeasedOtaTarget \<Rightarrow> ota_db
       \<Rightarrow> (OtaError + unit) \<times> ota_db \<times> mqtt_packet list" where
  "handleLeasedOtaTarget sign pack env opts i target d0 =
     (let d = pe_before_update env i d0; R = pe_registry env i; tm = pe_clock env i; uid = lo_deviceUid target;
          retry = (case oo_offlineRetryMs opts of None \<Rightarrow> 5000 | Some x \<Rightarrow> x) in
      if \<not> isConnected R uid then run_update (releaseOtaTarget tm (lo_id target) retry) d []
      else case otaCommand uid of
        Inl _ \<Rightarrow> run_update (releaseOtaTarget tm (lo_id target) retry) d []
      | Inr topic \<Rightarrow>
          if \<not> isSubscribed R uid topic then run_update (releaseOtaTarget tm (lo_id target) 1000) d []
          else
            let token = signOtaToken sign (oo_secret opts)
                  \<lparr>opDeviceUid = uid, opReleaseId = lo_releaseId target, opJobId = lo_jobId target\<rparr> (oo_tokenTtlSeconds opts);
                notice = ota_notice target token (tm + oo_tokenTtlSeconds opts * 1000) in
            if \<not> pe_publish env i then run_update (releaseOtaTarget tm (lo_id target) retry) d []
            else run_update (markOtaTargetDelivered tm (lo_id target)) d [device_packet topic (pack notice) False])"

definition ota_drain ::
    "jwt_signer \<Rightarrow> (jsval \<Rightarrow> bytes) \<Rightarrow> ota_db poll_env \<Rightarrow> OtaPollerOptions \<Rightarrow> nat \<Rightarrow> nat \<Rightarrow> ota_db
       \<Rightarrow> (OtaError + unit) \<times> ota_db \<times> mqtt_packet list" where
  "ota_drain sign pack env opts =
     drain_loop (pe_before_lease env) (\<lambda>i. leaseNextOtaTarget (pe_clock env i) (pe_locked env i) (oo_leaseDurationMs opts))
       (handleLeasedOtaTarget sign pack env opts)"

definition otaPollOnce ::
    "jwt_signer \<Rightarrow> (jsval \<Rightarrow> bytes) \<Rightarrow> ota_db poll_env \<Rightarrow> (nat \<Rightarrow> time) \<Rightarrow> (nat \<Rightarrow> time) \<Rightarrow> OtaPollerOptions \<Rightarrow> bool \<Rightarrow> ota_db
       \<Rightarrow> (OtaError + unit) \<times> ota_db \<times> mqtt_packet list" where
  "otaPollOnce sign pack env sweepClock stallClock opts runExpiry d =
     (let budget = (case oo_drainMaxPerCycle opts of None \<Rightarrow> DEFAULT_OTA_DRAIN_MAX_PER_CYCLE | Some n \<Rightarrow> n) in
      if runExpiry then
        (case expireOtaTargets sweepClock d of
           (Inl e, d') \<Rightarrow> (Inl e, d', [])
         | (Inr _, d') \<Rightarrow>
             (case expireStalledOtaTargets stallClock (oo_stallTimeoutMinutes opts) d' of
                (Inl e, d'') \<Rightarrow> (Inl e, d'', [])
              | (Inr _, d'') \<Rightarrow> ota_drain sign pack env opts budget 0 d''))
      else ota_drain sign pack env opts budget 0 d)"

section \<open>Both cycles keep the contract\<close>

definition command_permitted :: "db poll_env \<Rightarrow> PollerOptions \<Rightarrow> nat \<Rightarrow> mqtt_packet \<Rightarrow> bool" where
  "command_permitted env opts i p \<longleftrightarrow> (\<exists>uid. isConnected (pe_registry env i) uid \<and> commandExecution uid = Inr (mp_topic p) \<and>
     isSubscribed (pe_registry env i) uid (mp_topic p)) \<and> pe_publish env i \<and> mp_qos p = 1 \<and> mp_retain p = po_retain opts"

definition notice_permitted ::
    "jwt_signer \<Rightarrow> (jsval \<Rightarrow> bytes) \<Rightarrow> ota_db poll_env \<Rightarrow> OtaPollerOptions \<Rightarrow> nat \<Rightarrow> mqtt_packet \<Rightarrow> bool" where
  "notice_permitted sign pack env opts i p \<longleftrightarrow> (\<exists>target. isConnected (pe_registry env i) (lo_deviceUid target) \<and>
     otaCommand (lo_deviceUid target) = Inr (mp_topic p) \<and> isSubscribed (pe_registry env i) (lo_deviceUid target) (mp_topic p) \<and>
     mp_payload p = pack (ota_notice target
       (signOtaToken sign (oo_secret opts)
         \<lparr>opDeviceUid = lo_deviceUid target, opReleaseId = lo_releaseId target, opJobId = lo_jobId target\<rparr> (oo_tokenTtlSeconds opts))
       (pe_clock env i + oo_tokenTtlSeconds opts * 1000))) \<and>
     pe_publish env i \<and> mp_qos p = 1 \<and> \<not> mp_retain p"

text \<open>Every round ends in one update of the leased row, preceded by a permitted packet or none.\<close>

definition ends_in :: "('d \<Rightarrow> 'd \<Rightarrow> bool) \<Rightarrow> (mqtt_packet \<Rightarrow> bool) \<Rightarrow> 'd \<Rightarrow> ('e + unit) \<times> 'd \<times> mqtt_packet list \<Rightarrow> bool" where
  "ends_in step allowed d r \<longleftrightarrow> (d = fst (snd r) \<or> step d (fst (snd r))) \<and> (snd (snd r) = [] \<or> (\<exists>p. snd (snd r) = [p] \<and> allowed p))"

lemma ends_in_update:
  assumes "\<And>x d'. tx d = Inr (x, d') \<Longrightarrow> step d d'" and "packets = [] \<or> (\<exists>p. packets = [p] \<and> allowed p)"
  shows "ends_in step allowed d (run_update tx d packets)"
  using assms by (auto simp: run_update_def ends_in_def split: sum.split)

lemma handleLeasedCommand_ends:
  "ends_in queue_step (command_permitted env opts i) (pe_before_update env i d) (handleLeasedCommand env opts i l d)"
proof -
  have tx: "deferLease a k e = Inr (v, e') \<Longrightarrow> queue_step e e'" "releaseLease t k e = Inr (v, e') \<Longrightarrow> queue_step e e'"
    "markBrokerAccepted t k e = Inr (v, e') \<Longrightarrow> queue_step e e'" for a k e e' t and v :: unit
    by (auto intro: queue_step.intros)
  show ?thesis
    by (auto simp: handleLeasedCommand_def Let_def command_permitted_def device_packet_def
        intro!: ends_in_update intro: tx split: sum.split)
qed

lemma handleLeasedOtaTarget_ends:
  "ends_in ota_step (notice_permitted sign pack env opts i) (pe_before_update env i d) (handleLeasedOtaTarget sign pack env opts i l d)"
proof -
  have tx: "releaseOtaTarget t k ms e = Inr (v, e') \<Longrightarrow> ota_step e e'"
    "markOtaTargetDelivered t k e = Inr (v, e') \<Longrightarrow> ota_step e e'" for t k ms e e' v
    by (auto intro: ota_step.deploy deploy_step.intros)
  show ?thesis
    by (auto simp: handleLeasedOtaTarget_def Let_def notice_permitted_def device_packet_def
        intro!: ends_in_update intro: tx split: sum.split)
qed

lemma ends_inD:
  assumes "ends_in step allowed d (u, d', ps)"
  shows "step\<^sup>*\<^sup>* d d'" and "length ps \<le> 1 \<and> (\<forall>p \<in> set ps. allowed p)"
  using assms by (auto simp: ends_in_def)

interpretation command_cycle: drain_cycle "pe_before_lease env" "pe_before_update env"
    "\<lambda>i. leaseNext (\<lambda>x. x \<in> pe_locked env i) (pe_clock env i) (po_leaseDurationMs opts)" "handleLeasedCommand env opts"
    queue_step "command_permitted env opts"
  for env opts
proof
  show "handleLeasedCommand env opts i l d = (u, d', ps) \<Longrightarrow> queue_step\<^sup>*\<^sup>* (pe_before_update env i d) d'" for i l d u d' ps
    using ends_inD(1) [of queue_step _ _ u d' ps] handleLeasedCommand_ends [of env opts i d l] by simp
  show "handleLeasedCommand env opts i l d = (u, d', ps) \<Longrightarrow> length ps \<le> 1 \<and> (\<forall>p \<in> set ps. command_permitted env opts i p)"
    for i l d u d' ps
    by (metis ends_inD(2) handleLeasedCommand_ends)
qed (rule queue_step.step_lease)

interpretation ota_cycle: drain_cycle "pe_before_lease env" "pe_before_update env"
    "\<lambda>i. leaseNextOtaTarget (pe_clock env i) (pe_locked env i) (oo_leaseDurationMs opts)"
    "handleLeasedOtaTarget sign pack env opts" ota_step "notice_permitted sign pack env opts"
  for env opts sign pack
proof
  show "leaseNextOtaTarget (pe_clock env i) (pe_locked env i) (oo_leaseDurationMs opts) d = Inr (r, d') \<Longrightarrow> ota_step d d'" for i d r d'
    by (blast intro: ota_step.deploy deploy_step.lease)
  show "handleLeasedOtaTarget sign pack env opts i l d = (u, d', ps) \<Longrightarrow> ota_step\<^sup>*\<^sup>* (pe_before_update env i d) d'" for i l d u d' ps
    using ends_inD(1) [of ota_step _ _ u d' ps] handleLeasedOtaTarget_ends [of sign pack env opts i d l] by simp
  show "handleLeasedOtaTarget sign pack env opts i l d = (u, d', ps) \<Longrightarrow>
      length ps \<le> 1 \<and> (\<forall>p \<in> set ps. notice_permitted sign pack env opts i p)" for i l d u d' ps
    by (metis ends_inD(2) handleLeasedOtaTarget_ends)
qed

lemma expireDelayedCommands_steps: "expireDelayedCommands clock d = (r, d') \<Longrightarrow> queue_step\<^sup>*\<^sup>* d d'"
proof (induction clock d arbitrary: r rule: expireDelayedCommands.induct)
  case (1 clock d)
  show ?case
  proof (cases "expireBatch (clock 0) d")
    case (Inl e)
    then show ?thesis using "1.prems" by (simp add: expireDelayedCommands.simps [of clock d])
  next
    case (Inr nd)
    then obtain n d1 where e: "expireBatch (clock 0) d = Inr (n, d1)" by (cases nd) auto
    then have step: "queue_step d d1" by (rule queue_step.step_expire)
    show ?thesis
    proof (cases "n < EXPIRY_BATCH_SIZE")
      case True
      then show ?thesis using "1.prems" e step by (auto simp: expireDelayedCommands.simps [of clock d])
    next
      case False
      then obtain r1 where "expireDelayedCommands (\<lambda>i. clock (Suc i)) d1 = (r1, d')"
        using "1.prems" e by (cases "expireDelayedCommands (\<lambda>i. clock (Suc i)) d1") (auto simp: expireDelayedCommands.simps [of clock d])
      with "1.IH" [OF e refl False] step show ?thesis by (auto intro: converse_rtranclp_into_rtranclp)
    qed
  qed
qed

lemma expireOtaTargets_steps: "expireOtaTargets clock d = (r, d') \<Longrightarrow> ota_step\<^sup>*\<^sup>* d d'"
proof (induction clock d arbitrary: r rule: expireOtaTargets.induct)
  case (1 clock d)
  show ?case
  proof (cases "expireOtaBatch (clock 0) d")
    case (Inl e)
    then show ?thesis using "1.prems" by (simp add: expireOtaTargets.simps [of clock d])
  next
    case (Inr nd)
    then obtain n d1 where e: "expireOtaBatch (clock 0) d = Inr (n, d1)" by (cases nd) auto
    then have step: "ota_step d d1" by (intro ota_step.deploy deploy_step.expire)
    show ?thesis
    proof (cases "n < OTA_EXPIRY_BATCH_SIZE")
      case True
      then show ?thesis using "1.prems" e step by (auto simp: expireOtaTargets.simps [of clock d])
    next
      case False
      then obtain r1 where "expireOtaTargets (\<lambda>i. clock (Suc i)) d1 = (r1, d')"
        using "1.prems" e by (cases "expireOtaTargets (\<lambda>i. clock (Suc i)) d1") (auto simp: expireOtaTargets.simps [of clock d])
      with "1.IH" [OF e refl False] step show ?thesis by (auto intro: converse_rtranclp_into_rtranclp)
    qed
  qed
qed

lemma expireStalledOtaTargets_steps: "expireStalledOtaTargets clock m d = (r, d') \<Longrightarrow> ota_step\<^sup>*\<^sup>* d d'"
proof (induction clock m d arbitrary: r rule: expireStalledOtaTargets.induct)
  case (1 clock m d)
  show ?case
  proof (cases "stallOtaBatch (clock 0) m d")
    case (Inl e)
    then show ?thesis using "1.prems" by (simp add: expireStalledOtaTargets.simps [of clock m d])
  next
    case (Inr nd)
    then obtain n d1 where e: "stallOtaBatch (clock 0) m d = Inr (n, d1)" by (cases nd) auto
    then have step: "ota_step d d1" by (intro ota_step.deploy deploy_step.stall)
    show ?thesis
    proof (cases "n < OTA_EXPIRY_BATCH_SIZE")
      case True
      then show ?thesis using "1.prems" e step by (auto simp: expireStalledOtaTargets.simps [of clock m d])
    next
      case False
      then obtain r1 where "expireStalledOtaTargets (\<lambda>i. clock (Suc i)) m d1 = (r1, d')"
        using "1.prems" e by (cases "expireStalledOtaTargets (\<lambda>i. clock (Suc i)) m d1") (auto simp: expireStalledOtaTargets.simps [of clock m d])
      with "1.IH" [OF e refl False] step show ?thesis by (auto intro: converse_rtranclp_into_rtranclp)
    qed
  qed
qed

section \<open>Properties\<close>

text \<open>
  A cycle of the command poller is a run of the queue: whatever other processes do between its transactions, it only moves the tables along steps of the
  queue, so everything proved of the queue holds of it; it publishes at most its budget of packets, each to a
  device that at that moment was connected and subscribed to the very topic, with QoS 1.
\<close>

theorem command_cycle_safe:
  assumes "\<And>i d. queue_step\<^sup>*\<^sup>* d (pe_before_lease env i d) \<and> queue_step\<^sup>*\<^sup>* d (pe_before_update env i d)"
    and "pollOnce env sweepClock opts runExpiry d = (r, d', ps)"
    and "budget = (case po_drainMaxPerCycle opts of None \<Rightarrow> DEFAULT_DRAIN_MAX_PER_CYCLE | Some n \<Rightarrow> n)"
  shows "queue_step\<^sup>*\<^sup>* d d' \<and> length ps \<le> budget \<and> (\<forall>p \<in> set ps. \<exists>i < budget. command_permitted env opts i p)"
proof -
  have drain: "queue_step\<^sup>*\<^sup>* d0 d' \<and> length ps \<le> budget \<and> (\<forall>p \<in> set ps. \<exists>i < budget. command_permitted env opts i p)"
    if "command_drain env opts budget 0 d0 = (r, d', ps)" for d0
    using command_cycle.drain_steps [OF assms(1) that [unfolded command_drain_def]]
      command_cycle.drain_packets [OF that [unfolded command_drain_def]] by auto
  show ?thesis
  proof (cases runExpiry)
    case True
    then obtain r1 d1 where sweep: "expireDelayedCommands sweepClock d = (r1, d1)"
      by (cases "expireDelayedCommands sweepClock d") auto
    show ?thesis
      using assms(2) True sweep drain [of d1] expireDelayedCommands_steps [OF sweep]
      by (cases r1) (auto simp: pollOnce_def assms(3) intro: rtranclp_trans)
  next
    case False
    then show ?thesis using assms(2) drain [of d] by (simp add: pollOnce_def assms(3))
  qed
qed

text \<open>
  The same of the update poller; and every notice is addressed to the device of the leased target, carries a token for that device, release and job
  that expires when the notice says, and is never retained.
\<close>

theorem ota_cycle_safe:
  assumes "\<And>i d. ota_step\<^sup>*\<^sup>* d (pe_before_lease env i d) \<and> ota_step\<^sup>*\<^sup>* d (pe_before_update env i d)"
    and "otaPollOnce sign pack env sweepClock stallClock opts runExpiry d = (r, d', ps)"
    and "budget = (case oo_drainMaxPerCycle opts of None \<Rightarrow> DEFAULT_OTA_DRAIN_MAX_PER_CYCLE | Some n \<Rightarrow> n)"
  shows "ota_step\<^sup>*\<^sup>* d d' \<and> length ps \<le> budget \<and> (\<forall>p \<in> set ps. \<exists>i < budget. notice_permitted sign pack env opts i p)"
proof -
  have drain: "ota_step\<^sup>*\<^sup>* d0 d' \<and> length ps \<le> budget \<and> (\<forall>p \<in> set ps. \<exists>i < budget. notice_permitted sign pack env opts i p)"
    if "ota_drain sign pack env opts budget 0 d0 = (r, d', ps)" for d0
    using ota_cycle.drain_steps [OF assms(1) that [unfolded ota_drain_def]]
      ota_cycle.drain_packets [OF that [unfolded ota_drain_def]] by auto
  show ?thesis
  proof (cases runExpiry)
    case True
    obtain r1 d1 where sweep: "expireOtaTargets sweepClock d = (r1, d1)"
      by (cases "expireOtaTargets sweepClock d") auto
    obtain r2 d2 where stall: "expireStalledOtaTargets stallClock (oo_stallTimeoutMinutes opts) d1 = (r2, d2)"
      by (cases "expireStalledOtaTargets stallClock (oo_stallTimeoutMinutes opts) d1") auto
    have "ota_step\<^sup>*\<^sup>* d d2"
      using expireOtaTargets_steps [OF sweep] expireStalledOtaTargets_steps [OF stall] by (rule rtranclp_trans)
    then show ?thesis
      using assms(2) True sweep stall drain [of d2] expireOtaTargets_steps [OF sweep]
      by (cases r1; cases r2) (auto simp: otaPollOnce_def assms(3) intro: rtranclp_trans)
  next
    case False
    then show ?thesis using assms(2) drain [of d] by (simp add: otaPollOnce_def assms(3))
  qed
qed

text \<open>
  No leased command is lost or left behind by its round: if nobody interferes, the round ends with the command marked accepted exactly when its
  packet was published with its payload, and otherwise queued again with no lease.
\<close>

theorem leased_command_settled:
  assumes "queue_inv d" and "leaseNext locked t ms d = Inr (Some l, d1)" and "pe_before_update env i d1 = d1"
  shows "\<exists>d2 ps c. handleLeasedCommand env opts i l d1 = (Inr (), d2, ps) \<and> c \<in> set (device_commands d2) \<and> cid c = lcid l \<and>
    lease_expires_at c = None \<and> (if ps = [] then cstate c = Queued else cstate c = BrokerAccepted \<and> map mp_payload ps = [payload c])"
proof -
  obtain c0 n where c0: "c0 \<in> set (lease_candidates locked t d)" "lcid l = cid c0" "lpayload l = payload c0"
    and up: "update_commands (\<lambda>x. cid x = cid c0) (lease_row t ms) d = Some (n, d1)"
    using assms(2) by (auto elim: leaseNext_Some)
  let ?c = "lease_row t ms c0"
  have in0: "c0 \<in> set (device_commands d)" using c0(1) by (simp add: candidate_eligible)
  have d1: "device_commands d1 = map (\<lambda>c. if cid c = cid c0 then lease_row t ms c else c) (device_commands d)"
    and check: "command_check ?c" using up in0 by (auto simp: update_commands_Some)
  have c: "?c \<in> set (device_commands d1)" "cid ?c = lcid l" "cstate ?c = Leased" "payload ?c = payload c0" "broker_accepted_at ?c = None"
    using in0 c0(2) by (auto simp: d1 lease_row_def)
  have inv1: "queue_inv d1"
    using leaseNext_sound [OF assms(2)] assms(1) by (simp add: sound_def)
  have row: "x = ?c" if "x \<in> set (device_commands d1)" "cid x = lcid l" for x
    using cid_inject [OF inv1 that(1) c(1)] that(2) c(2) by simp
  have only: "length (filter (\<lambda>x. cid x = lcid l \<and> cstate x = Leased) (device_commands d1)) = 1"
  proof -
    have "distinct (device_commands d1)" using inv1 by (simp add: queue_inv_def commands_unique_def distinct_map)
    then have "length (filter (\<lambda>x. cid x = lcid l \<and> cstate x = Leased) (device_commands d1)) =
        card {x \<in> set (device_commands d1). cid x = lcid l \<and> cstate x = Leased}"
      by (simp only: distinct_card distinct_filter flip: set_filter)
    also have "{x \<in> set (device_commands d1). cid x = lcid l \<and> cstate x = Leased} = {?c}"
      using c row by blast
    finally show ?thesis by simp
  qed
  have update: "update_commands (\<lambda>x. cid x = lcid l \<and> cstate x = Leased) f d1 =
      Some (1, d1\<lparr>device_commands := map (\<lambda>x. if cid x = lcid l \<and> cstate x = Leased then f x else x) (device_commands d1)\<rparr>)"
    if "command_check (f ?c)" for f
  proof -
    have "command_check (f x)" if "x \<in> set (device_commands d1)" "cid x = lcid l" for x
      using row [OF that] \<open>command_check (f ?c)\<close> by simp
    then show ?thesis using only by (simp add: update_commands_Some)
  qed
  let ?d = "\<lambda>f. d1\<lparr>device_commands := map (\<lambda>x. if cid x = lcid l \<and> cstate x = Leased then f x else x) (device_commands d1)\<rparr>"
  have after: "f ?c \<in> set (device_commands (?d f))" for f
    using c by (auto simp: image_iff intro!: bexI [of _ ?c])
  define queued where "queued = (\<lambda>a (c :: device_command). c\<lparr>cstate := Queued, available_at := a, lease_expires_at := None, broker_accepted_at := None\<rparr>)"
  define deferred where "deferred = (\<lambda>a (c :: device_command). c\<lparr>cstate := Queued, lease_expires_at := None, available_at := a\<rparr>)"
  define accepted where "accepted = (\<lambda>a (c :: device_command). c\<lparr>cstate := BrokerAccepted, lease_expires_at := None, broker_accepted_at := Some a\<rparr>)"
  have checks: "command_check (queued a ?c)" "command_check (deferred a ?c)" "command_check (accepted a ?c)" for a
    using check c(3,5)
    by (auto simp: queued_def deferred_def accepted_def command_check_def lease_consistent_def broker_acceptance_consistent_def result_consistent_def)
  have tx: "releaseLease a (lcid l) d1 = Inr ((), ?d (queued a))" "deferLease a (lcid l) d1 = Inr ((), ?d (deferred a))"
    "markBrokerAccepted a (lcid l) d1 = Inr ((), ?d (accepted a))" for a
    using update [of "queued a", OF checks(1)] update [of "deferred a", OF checks(2)] update [of "accepted a", OF checks(3)]
    by (simp_all add: releaseLease_def deferLease_def markBrokerAccepted_def sql_def queued_def deferred_def accepted_def)
  have cols: "cid (queued a ?c) = lcid l" "cstate (queued a ?c) = Queued" "lease_expires_at (queued a ?c) = None"
    "cid (deferred a ?c) = lcid l" "cstate (deferred a ?c) = Queued" "lease_expires_at (deferred a ?c) = None"
    "cid (accepted a ?c) = lcid l" "cstate (accepted a ?c) = BrokerAccepted" "lease_expires_at (accepted a ?c) = None"
    "payload (accepted a ?c) = lpayload l" for a
    using c c0 by (simp_all add: queued_def deferred_def accepted_def)
  have conclude: ?thesis
    if "handleLeasedCommand env opts i l d1 = (Inr (), ?d f, ps)" "cid (f ?c) = lcid l" "lease_expires_at (f ?c) = None"
      "if ps = [] then cstate (f ?c) = Queued else cstate (f ?c) = BrokerAccepted \<and> map mp_payload ps = [payload (f ?c)]" for f ps
    using that after [of f] by blast
  note handle = handleLeasedCommand_def assms(3) run_update_def tx cols device_packet_def
  show ?thesis
  proof (cases "isConnected (pe_registry env i) (ldeviceUid l)")
    case False
    then show ?thesis by (intro conclude [of "deferred _" "[]"]) (simp_all add: handle)
  next
    case connected: True
    show ?thesis
    proof (cases "commandExecution (ldeviceUid l)")
      case (Inl e)
      with connected show ?thesis by (intro conclude [of "queued _" "[]"]) (simp_all add: handle)
    next
      case topic: (Inr topic)
      show ?thesis
      proof (cases "isSubscribed (pe_registry env i) (ldeviceUid l) topic")
        case False
        with connected topic show ?thesis by (intro conclude [of "deferred _" "[]"]) (simp_all add: handle)
      next
        case True
        show ?thesis
        proof (cases "pe_publish env i")
          case False
          with True connected topic show ?thesis by (intro conclude [of "queued _" "[]"]) (simp_all add: handle)
        next
          case accepted: True
          with True connected topic show ?thesis by (intro conclude [of "accepted _" "[device_packet topic (lpayload l) (po_retain opts)]"]) (simp_all add: handle)
        qed
      qed
    qed
  qed
qed

text \<open>
  Cycles of a poller never overlap and none begins after the poller was stopped, however often it is woken; and two sweeps of expired rows are at
  least the configured interval apart.
\<close>

theorem poller_cycles_disjoint:
  assumes "(poller_step interval)\<^sup>*\<^sup>* (start_poller, []) (p, before @ Cycle_begin tm sweep # later)"
  shows "\<not> cycle_open before \<and> Poller_stopped \<notin> set before \<and>
    (sweep \<and> last_sweep t before \<longrightarrow> tm - t \<ge> (case interval of None \<Rightarrow> 15000 | Some x \<Rightarrow> x))"
proof -
  have "begun_well (interval_of interval) (before @ Cycle_begin tm sweep # later)"
    using poller.reachable_inv [OF refl assms] by (simp add: poller_inv_def)
  then show ?thesis unfolding begun_well_def interval_of_def DEFAULT_EXPIRY_INTERVAL_MS_def by blast
qed

section \<open>Examples\<close>

definition ex_registry :: connection_registry where
  "ex_registry = registry_after [Client_event (1, js ''dev-1''), Authorized_event (js ''dev-1'') (js ''soulcloud/v1/devices/dev-1/cmd/exec''),
     Client_event (2, js ''dev-2''), Authorized_event (js ''dev-2'') (js ''soulcloud/v1/devices/dev-2/ota'')]"

definition ex_penv :: "'d poll_env" where
  "ex_penv = \<lparr>pe_registry = (\<lambda>_. ex_registry), pe_publish = (\<lambda>_. True), pe_clock = (\<lambda>_. 300), pe_locked = (\<lambda>_. {}),
     pe_before_lease = (\<lambda>_ d. d), pe_before_update = (\<lambda>_ d. d)\<rparr>"

definition ex_popts :: PollerOptions where
  "ex_popts = \<lparr>po_leaseDurationMs = 5000, po_retain = False, po_offlineRetryMs = None, po_drainMaxPerCycle = Some 2\<rparr>"

definition ex_oopts :: OtaPollerOptions where
  "ex_oopts = \<lparr>oo_secret = [1], oo_leaseDurationMs = 5000, oo_tokenTtlSeconds = 60, oo_stallTimeoutMinutes = 30, oo_offlineRetryMs = None,
     oo_drainMaxPerCycle = Some 2\<rparr>"

definition ex_polled :: "(CommandQueueError + unit) \<times> db \<times> mqtt_packet list" where
  "ex_polled = pollOnce ex_penv (\<lambda>_. 0) ex_popts False (after ex_tx3)"

definition ex_ota_polled :: "(OtaError + unit) \<times> ota_db \<times> mqtt_packet list" where
  "ex_ota_polled = otaPollOnce (\<lambda>_ _ _ _. [7]) (\<lambda>_. [1]) ex_penv (\<lambda>_. 0) (\<lambda>_. 0) ex_oopts False (o_after eo_tx1)"

lemma ex_polled_packets:
  "map mp_topic (snd (snd ex_polled)) = [js ''soulcloud/v1/devices/dev-1/cmd/exec'']"
  "map mp_topic (snd (snd ex_ota_polled)) = [js ''soulcloud/v1/devices/dev-2/ota'']"
  "toISOString 951868799999 = js ''2000-02-29T23:59:59.999Z''"
  by code_simp+

lemma command_cycle_safe_witness:
  "snd (snd ex_polled) \<noteq> [] \<and> (\<forall>p \<in> set (snd (snd ex_polled)). \<exists>i < 2. command_permitted ex_penv ex_popts i p)"
proof -
  have "pollOnce ex_penv (\<lambda>_. 0) ex_popts False (after ex_tx3) = (fst ex_polled, fst (snd ex_polled), snd (snd ex_polled))"
    by (simp add: ex_polled_def)
  from command_cycle_safe [OF _ this] ex_polled_packets(1) show ?thesis by (auto simp: ex_penv_def ex_popts_def)
qed

lemma ota_cycle_safe_witness:
  "snd (snd ex_ota_polled) \<noteq> [] \<and>
   (\<forall>p \<in> set (snd (snd ex_ota_polled)). \<exists>i < 2. notice_permitted (\<lambda>_ _ _ _. [7]) (\<lambda>_. [1]) ex_penv ex_oopts i p)"
proof -
  have "otaPollOnce (\<lambda>_ _ _ _. [7]) (\<lambda>_. [1]) ex_penv (\<lambda>_. 0) (\<lambda>_. 0) ex_oopts False (o_after eo_tx1) =
      (fst ex_ota_polled, fst (snd ex_ota_polled), snd (snd ex_ota_polled))"
    by (simp add: ex_ota_polled_def)
  from ota_cycle_safe [OF _ this] ex_polled_packets(2) show ?thesis by (auto simp: ex_penv_def ex_oopts_def)
qed

lemma leased_command_settled_witness:
  "\<exists>l d1 d2 ps. leaseNext (\<lambda>_. False) 300 5000 (after ex_tx3) = Inr (Some l, d1) \<and>
     handleLeasedCommand ex_penv ex_popts 0 l d1 = (Inr (), d2, ps)"
proof -
  have inv: "queue_inv (after ex_tx3)"
    using qsys.reachable_inv [OF ex_init] ex_run3 by blast
  have "(case ex_tx4 of Inr (Some l, d) \<Rightarrow> True | _ \<Rightarrow> False)" by code_simp
  then obtain l d1 where leased: "leaseNext (\<lambda>_. False) 300 5000 (after ex_tx3) = Inr (Some l, d1)"
    by (auto simp: ex_tx4_def split: sum.splits option.splits)
  from leased_command_settled [OF inv this, of ex_penv 0 ex_popts] leased show ?thesis
    by (auto simp: ex_penv_def)
qed

lemma poller_cycles_disjoint_witness: "\<not> cycle_open [] \<and> Poller_stopped \<notin> set []"
proof -
  have "poller_step None (start_poller, []) (start_poller\<lparr>pl_running := True, pl_lastExpiryAt := 20000\<rparr>, [] @ [Cycle_begin 20000 True])"
    by (rule poller_step.begun) (simp add: poll_begin_def start_poller_def DEFAULT_EXPIRY_INTERVAL_MS_def)
  then have "(poller_step None)\<^sup>*\<^sup>* (start_poller, []) (start_poller\<lparr>pl_running := True, pl_lastExpiryAt := 20000\<rparr>, [] @ Cycle_begin 20000 True # [])"
    by simp
  from poller_cycles_disjoint [OF this] show ?thesis by blast
qed

end
