(* ===== verification/UplinkQueue.thy ===== *)
theory UplinkQueue
  imports CommandCodec "HOL-Library.Multiset" "HOL-Library.Sublist"
begin

text \<open>
  The executor of device uplinks in the broker (class \<^verbatim>\<open>UplinkWorkQueue\<close> of \<^verbatim>\<open>broker/src/mqtt/dispatch.ts\<close>): a bounded queue that
  runs handlers of different devices in parallel and those of one device in order. The arrays of waiting work are shared
  between the map of devices and the callbacks of running handlers, so they live in a store and are named by references.
  A handler is a promise: it is started by \<open>drain\<close> and settles at any later time, in any order; the callback it carries
  remembers the device, the array and the work it was started with (\<open>uq_flights\<close>). The theorems bound what is retained, give the order
  of each device, and show that no admitted work is forgotten or overtaken without end.
\<close>

section \<open>The queue and its operations\<close>

record 'r UplinkWork =
  uw_deviceUid :: jsstring
  uw_byteSize :: nat
  uw_run :: 'r

record 'r UplinkWorkQueue =
  uq_concurrency :: int
  uq_capacity :: int
  uq_maxBytes :: int
  uq_arrays :: "nat \<Rightarrow> 'r UplinkWork list"
  uq_fresh :: nat
  uq_byDevice :: "jsstring \<rightharpoonup> nat"
  uq_active :: "jsstring set"
  uq_ready :: "jsstring list"
  uq_running :: int
  uq_outstanding :: int
  uq_outstandingBytes :: int
  uq_flights :: "(jsstring \<times> nat \<times> 'r UplinkWork) list"
  uq_started :: "'r UplinkWork list"

datatype range_error = Bad_concurrency | Bad_capacity | Bad_maxBytes

definition new_work_queue :: "jsnum \<Rightarrow> jsnum \<Rightarrow> jsnum \<Rightarrow> range_error + 'r UplinkWorkQueue" where
  "new_work_queue concurrency capacity maxBytes =
     (let positive = (\<lambda>x. js_isInteger x \<and> (case x of Fin r \<Rightarrow> 0 < r | _ \<Rightarrow> False));
          whole = (\<lambda>x. case x of Fin r \<Rightarrow> \<lfloor>r\<rfloor> | _ \<Rightarrow> 0) in
      if \<not> positive concurrency then Inl Bad_concurrency
      else if \<not> js_isInteger capacity \<or> whole capacity < whole concurrency then Inl Bad_capacity
      else if \<not> positive maxBytes then Inl Bad_maxBytes
      else Inr \<lparr>uq_concurrency = whole concurrency, uq_capacity = whole capacity, uq_maxBytes = whole maxBytes,
                uq_arrays = (\<lambda>_. []), uq_fresh = 0, uq_byDevice = Map.empty, uq_active = {}, uq_ready = [],
                uq_running = 0, uq_outstanding = 0, uq_outstandingBytes = 0, uq_flights = [], uq_started = []\<rparr>)"

text \<open>One turn of the loop of \<^verbatim>\<open>drain\<close>, with the device already taken off the list of ready devices.\<close>

definition drain_turn :: "jsstring \<Rightarrow> 'r UplinkWorkQueue \<Rightarrow> 'r UplinkWorkQueue" where
  "drain_turn d q =
     (if d \<in> uq_active q then q
      else case uq_byDevice q d of
        None \<Rightarrow> q
      | Some a \<Rightarrow> (case uq_arrays q a of
          [] \<Rightarrow> q
        | w # ws \<Rightarrow> q\<lparr>uq_arrays := (uq_arrays q)(a := ws), uq_active := insert d (uq_active q),
            uq_running := uq_running q + 1, uq_flights := uq_flights q @ [(d, a, w)],
            uq_started := uq_started q @ [w]\<rparr>))"

lemma drain_turn_ready [simp]: "uq_ready (drain_turn d q) = uq_ready q"
  by (simp add: drain_turn_def split: option.split list.split)

function drain :: "'r UplinkWorkQueue \<Rightarrow> 'r UplinkWorkQueue" where
  "drain q =
     (if uq_running q < uq_concurrency q then
        (case uq_ready q of
           [] \<Rightarrow> q
         | d # rest \<Rightarrow> drain (drain_turn d (q\<lparr>uq_ready := rest\<rparr>)))
      else q)"
  by pat_completeness auto
termination
  by (relation "measure (\<lambda>q. length (uq_ready q))") auto

declare drain.simps [simp del]

definition enqueue_work :: "'r UplinkWork \<Rightarrow> 'r UplinkWorkQueue \<Rightarrow> bool \<times> 'r UplinkWorkQueue" where
  "enqueue_work work q =
     (if uq_outstanding q \<ge> uq_capacity q then (False, q)
      else if uq_outstandingBytes q + int (uw_byteSize work) > uq_maxBytes q then (False, q)
      else
        let d = uw_deviceUid work;
            (a, q) = (case uq_byDevice q d of
                Some a \<Rightarrow> (a, q)
              | None \<Rightarrow> (uq_fresh q, q\<lparr>uq_arrays := (uq_arrays q)(uq_fresh q := []), uq_fresh := uq_fresh q + 1,
                                     uq_byDevice := (uq_byDevice q)(d \<mapsto> uq_fresh q)\<rparr>));
            wasEmpty = (uq_arrays q a = []);
            q = q\<lparr>uq_arrays := (uq_arrays q)(a := uq_arrays q a @ [work]), uq_outstanding := uq_outstanding q + 1,
                  uq_outstandingBytes := uq_outstandingBytes q + int (uw_byteSize work)\<rparr>;
            q = (if wasEmpty \<and> d \<notin> uq_active q then q\<lparr>uq_ready := uq_ready q @ [d]\<rparr> else q)
        in (True, drain q))"

text \<open>The callback that \<^verbatim>\<open>finally\<close> runs when a handler settles, fulfilled or rejected: its body, and the call of
  \<^verbatim>\<open>drain\<close> at its end.\<close>

definition settle_body :: "jsstring \<times> nat \<times> 'r UplinkWork \<Rightarrow> 'r UplinkWorkQueue \<Rightarrow> 'r UplinkWorkQueue" where
  "settle_body f q =
     (case f of (d, a, w) \<Rightarrow>
        let q = q\<lparr>uq_flights := remove1 f (uq_flights q), uq_running := uq_running q - 1,
                  uq_outstanding := uq_outstanding q - 1, uq_outstandingBytes := uq_outstandingBytes q - int (uw_byteSize w),
                  uq_active := uq_active q - {d}\<rparr> in
        if uq_arrays q a \<noteq> [] then q\<lparr>uq_ready := uq_ready q @ [d]\<rparr>
        else q\<lparr>uq_byDevice := (uq_byDevice q)(d := None)\<rparr>)"

definition settle_work :: "jsstring \<times> nat \<times> 'r UplinkWork \<Rightarrow> 'r UplinkWorkQueue \<Rightarrow> 'r UplinkWorkQueue" where
  "settle_work f q = drain (settle_body f q)"

section \<open>Runs\<close>

text \<open>
  A state of a run is the queue with the works it has admitted and those whose handlers have settled, both in order.
\<close>

type_synonym 'r uplink_run = "'r UplinkWorkQueue \<times> 'r UplinkWork list \<times> 'r UplinkWork list"

inductive uplink_step :: "'r uplink_run \<Rightarrow> 'r uplink_run \<Rightarrow> bool" where
  enqueue: "enqueue_work w q = (r, q') \<Longrightarrow> uplink_step (q, admitted, settled) (q', if r then admitted @ [w] else admitted, settled)"
| settle: "(d, a, w) \<in> set (uq_flights q) \<Longrightarrow> uplink_step (q, admitted, settled) (settle_work (d, a, w) q, admitted, settled @ [w])"

definition uplink_start :: "'r uplink_run \<Rightarrow> bool" where
  "uplink_start s \<longleftrightarrow> (\<exists>c k b q. new_work_queue c k b = Inr q \<and> s = (q, [], []))"

definition waiting_for :: "'r UplinkWorkQueue \<Rightarrow> jsstring \<Rightarrow> 'r UplinkWork list" where
  "waiting_for q d = (case uq_byDevice q d of None \<Rightarrow> [] | Some a \<Rightarrow> uq_arrays q a)"

abbreviation of_device :: "jsstring \<Rightarrow> 'r UplinkWork list \<Rightarrow> 'r UplinkWork list" where
  "of_device d \<equiv> filter (\<lambda>w. uw_deviceUid w = d)"

section \<open>The invariant\<close>

definition flights_ok :: "'r UplinkWorkQueue \<Rightarrow> bool" where
  "flights_ok q \<longleftrightarrow> distinct (map fst (uq_flights q)) \<and> uq_active q = set (map fst (uq_flights q)) \<and>
     (\<forall>d a w. (d, a, w) \<in> set (uq_flights q) \<longrightarrow> uq_byDevice q d = Some a \<and> uw_deviceUid w = d)"

definition arrays_ok :: "'r UplinkWorkQueue \<Rightarrow> bool" where
  "arrays_ok q \<longleftrightarrow> (\<forall>d a. uq_byDevice q d = Some a \<longrightarrow> a < uq_fresh q \<and> (uq_arrays q a \<noteq> [] \<or> d \<in> uq_active q) \<and>
     (\<forall>e. uq_byDevice q e = Some a \<longrightarrow> e = d))"

definition ready_ok :: "'r UplinkWorkQueue \<Rightarrow> bool" where
  "ready_ok q \<longleftrightarrow> distinct (uq_ready q) \<and> set (uq_ready q) = {d. waiting_for q d \<noteq> [] \<and> d \<notin> uq_active q}"

definition queue_order_ok :: "'r uplink_run \<Rightarrow> bool" where
  "queue_order_ok = (\<lambda>(q, admitted, settled). \<forall>d. of_device d (uq_started q) @ waiting_for q d = of_device d admitted \<and>
     of_device d settled @ of_device d (map (snd \<circ> snd) (uq_flights q)) = of_device d (uq_started q))"

definition counts_ok :: "'r uplink_run \<Rightarrow> bool" where
  "counts_ok = (\<lambda>(q, admitted, settled).
     uq_running q = int (length (uq_flights q)) \<and>
     mset (uq_started q) = mset settled + mset (map (snd \<circ> snd) (uq_flights q)) \<and>
     uq_outstanding q = int (length admitted) - int (length settled) \<and>
     uq_outstandingBytes q = int (\<Sum>w\<leftarrow>admitted. uw_byteSize w) - int (\<Sum>w\<leftarrow>settled. uw_byteSize w) \<and>
     0 < uq_concurrency q \<and> uq_running q \<le> uq_concurrency q \<and> uq_outstanding q \<le> uq_capacity q \<and> uq_outstandingBytes q \<le> uq_maxBytes q)"

definition queue_ok :: "'r uplink_run \<Rightarrow> bool" where
  "queue_ok s \<longleftrightarrow> flights_ok (fst s) \<and> arrays_ok (fst s) \<and> ready_ok (fst s) \<and> queue_order_ok s \<and> counts_ok s"

text \<open>No slot is idle while a device is ready.\<close>

definition busy :: "'r UplinkWorkQueue \<Rightarrow> bool" where
  "busy q \<longleftrightarrow> uq_running q = uq_concurrency q \<or> uq_ready q = []"

definition uplink_inv :: "'r uplink_run \<Rightarrow> bool" where
  "uplink_inv s \<longleftrightarrow> queue_ok s \<and> busy (fst s)"

lemma waiting_update:
  assumes "arrays_ok q" and "uq_byDevice q d = Some a" and "uq_byDevice q' = uq_byDevice q"
    and "uq_arrays q' = (uq_arrays q)(a := ws)"
  shows "waiting_for q' e = (if e = d then ws else waiting_for q e)"
  using assms by (auto simp: waiting_for_def arrays_ok_def split: option.splits)

lemma ready_okI:
  "distinct (uq_ready q) \<Longrightarrow> (\<And>e. e \<in> set (uq_ready q) \<longleftrightarrow> waiting_for q e \<noteq> [] \<and> e \<notin> uq_active q) \<Longrightarrow> ready_ok q"
  unfolding ready_ok_def by blast

lemma ready_okD:
  "ready_ok q \<Longrightarrow> e \<in> set (uq_ready q) \<longleftrightarrow> waiting_for q e \<noteq> [] \<and> e \<notin> uq_active q"
  unfolding ready_ok_def by blast

text \<open>A turn of the loop starts the oldest work of the first ready device.\<close>

lemma drain_turn_starts:
  assumes ok: "queue_ok (q, admitted, settled)" and ready: "uq_ready q = d # rest" and free: "uq_running q < uq_concurrency q"
  obtains a w ws where "uq_byDevice q d = Some a" "uq_arrays q a = w # ws" "uw_deviceUid w = d"
    "drain_turn d (q\<lparr>uq_ready := rest\<rparr>) =
       q\<lparr>uq_ready := rest, uq_arrays := (uq_arrays q)(a := ws), uq_active := insert d (uq_active q), uq_running := uq_running q + 1,
         uq_flights := uq_flights q @ [(d, a, w)], uq_started := uq_started q @ [w]\<rparr>"
proof -
  have "waiting_for q d \<noteq> []" "d \<notin> uq_active q"
    using ok ready by (auto simp: queue_ok_def ready_ok_def)
  then obtain a w ws where "uq_byDevice q d = Some a" "uq_arrays q a = w # ws" "d \<notin> uq_active q"
    by (auto simp: waiting_for_def neq_Nil_conv split: option.splits)
  moreover from this have "waiting_for q d = w # ws" by (simp add: waiting_for_def)
  moreover have "of_device d (uq_started q) @ waiting_for q d = of_device d admitted"
    using ok by (simp add: queue_ok_def queue_order_ok_def)
  ultimately have "w \<in> set (of_device d admitted)" by (metis in_set_conv_decomp)
  then have "uw_deviceUid w = d" by simp
  with \<open>uq_byDevice q d = Some a\<close> \<open>uq_arrays q a = w # ws\<close> \<open>d \<notin> uq_active q\<close> show ?thesis
    by (intro that) (simp_all add: drain_turn_def)
qed

lemma drain_turn_ok:
  assumes ok: "queue_ok (q, admitted, settled)" and ready: "uq_ready q = d # rest" and free: "uq_running q < uq_concurrency q"
  shows "queue_ok (drain_turn d (q\<lparr>uq_ready := rest\<rparr>), admitted, settled)"
proof -
  obtain a w ws where at: "uq_byDevice q d = Some a" "uq_arrays q a = w # ws" and dev: "uw_deviceUid w = d"
    and q': "drain_turn d (q\<lparr>uq_ready := rest\<rparr>) =
       q\<lparr>uq_ready := rest, uq_arrays := (uq_arrays q)(a := ws), uq_active := insert d (uq_active q), uq_running := uq_running q + 1,
         uq_flights := uq_flights q @ [(d, a, w)], uq_started := uq_started q @ [w]\<rparr>" (is "_ = ?q")
    using drain_turn_starts [OF assms] .
  have parts: "flights_ok q" "arrays_ok q" "ready_ok q" "queue_order_ok (q, admitted, settled)" "counts_ok (q, admitted, settled)"
    using ok by (simp_all add: queue_ok_def)
  have waiting: "waiting_for ?q e = (if e = d then ws else waiting_for q e)" for e
    by (rule waiting_update [OF parts(2) at(1)]) simp_all
  have here: "waiting_for q d = w # ws" using at by (simp add: waiting_for_def)
  have fresh: "d \<notin> uq_active q" "d \<notin> set rest" "distinct rest"
    using parts(3) ready by (auto simp: ready_ok_def)
  have order: "of_device e (uq_started q) @ waiting_for q e = of_device e admitted"
    "of_device e settled @ of_device e (map (snd \<circ> snd) (uq_flights q)) = of_device e (uq_started q)" for e
    using parts(4) by (simp_all add: queue_order_ok_def)
  have "flights_ok ?q" using parts(1) fresh(1) at(1) dev by (auto simp: flights_ok_def)
  moreover have "arrays_ok ?q"
    using parts(2) at(1) unfolding arrays_ok_def by auto
  moreover have "ready_ok ?q"
  proof -
    have all: "e \<in> set (d # rest) \<longleftrightarrow> waiting_for q e \<noteq> [] \<and> e \<notin> uq_active q" for e
      using parts(3) unfolding ready_ok_def ready by blast
    have "e \<in> set rest \<longleftrightarrow> waiting_for ?q e \<noteq> [] \<and> e \<notin> insert d (uq_active q)" for e
      using fresh(2) all [of e] by (cases "e = d") (simp_all add: waiting)
    then show ?thesis using fresh(3) by (auto simp: ready_ok_def)
  qed
  moreover have "queue_order_ok (?q, admitted, settled)"
  proof -
    have "of_device e (uq_started ?q) @ waiting_for ?q e = of_device e admitted" for e
      using order(1) [of e] here dev by (cases "e = d") (simp_all add: waiting)
    moreover have "of_device e settled @ of_device e (map (snd \<circ> snd) (uq_flights ?q)) = of_device e (uq_started ?q)" for e
      using order(2) [of e] by simp
    ultimately show ?thesis by (simp add: queue_order_ok_def)
  qed
  moreover have "counts_ok (?q, admitted, settled)"
    using parts(5) free by (simp add: counts_ok_def)
  ultimately show ?thesis unfolding q' by (simp add: queue_ok_def)
qed

text \<open>The loop keeps the invariant and leaves no slot idle; it only starts works.\<close>

lemma drain_inv:
  assumes "queue_ok (q, admitted, settled)"
  shows "uplink_inv (drain q, admitted, settled)"
  using assms
proof (induction q rule: drain.induct)
  case (1 q)
  show ?case
  proof (cases "uq_running q < uq_concurrency q")
    case False
    then have "uq_running q = uq_concurrency q" using "1.prems" by (simp add: queue_ok_def counts_ok_def)
    with False "1.prems" show ?thesis by (simp add: drain.simps [of q] uplink_inv_def busy_def)
  next
    case True
    show ?thesis
    proof (cases "uq_ready q")
      case Nil
      then show ?thesis using "1.prems" by (simp add: drain.simps [of q] uplink_inv_def busy_def)
    next
      case (Cons d rest)
      have "queue_ok (drain_turn d (q\<lparr>uq_ready := rest\<rparr>), admitted, settled)"
        using "1.prems" Cons True by (rule drain_turn_ok)
      then have "uplink_inv (drain (drain_turn d (q\<lparr>uq_ready := rest\<rparr>)), admitted, settled)"
        by (rule "1.IH" [OF True Cons])
      then show ?thesis using True Cons by (simp add: drain.simps [of q])
    qed
  qed
qed

section \<open>Admission and settlement keep the invariant\<close>

lemma enqueue_refused:
  "enqueue_work w q = (False, q') \<Longrightarrow> q' = q"
  by (auto simp: enqueue_work_def Let_def split: if_splits prod.splits)

lemma enqueue_admitted:
  assumes "enqueue_work work q = (True, q')" and d: "d = uw_deviceUid work"
  obtains a n p where "uq_byDevice q d = Some a \<and> n = uq_fresh q \<or> uq_byDevice q d = None \<and> a = uq_fresh q \<and> n = uq_fresh q + 1"
    and "p = q\<lparr>uq_fresh := n, uq_byDevice := (uq_byDevice q)(d \<mapsto> a), uq_arrays := (uq_arrays q)(a := waiting_for q d @ [work]),
        uq_outstanding := uq_outstanding q + 1, uq_outstandingBytes := uq_outstandingBytes q + int (uw_byteSize work)\<rparr>"
    and "q' = drain (if waiting_for q d = [] \<and> d \<notin> uq_active q then p\<lparr>uq_ready := uq_ready q @ [d]\<rparr> else p)"
    and "uq_outstanding q < uq_capacity q" and "uq_outstandingBytes q + int (uw_byteSize work) \<le> uq_maxBytes q"
proof -
  have room: "uq_outstanding q < uq_capacity q" "uq_outstandingBytes q + int (uw_byteSize work) \<le> uq_maxBytes q"
    using assms(1) by (auto simp: enqueue_work_def split: if_splits)
  show ?thesis
  proof (cases "uq_byDevice q d")
    case None
    then have "waiting_for q d = []" by (simp add: waiting_for_def)
    with None room assms show ?thesis
      by (intro that [of "uq_fresh q" "uq_fresh q + 1", OF _ refl]) (auto simp: enqueue_work_def Let_def split: if_splits)
  next
    case (Some a)
    then have "waiting_for q d = uq_arrays q a" "(uq_byDevice q)(d \<mapsto> a) = uq_byDevice q"
      by (simp_all add: waiting_for_def fun_upd_idem)
    with Some room assms show ?thesis
      by (intro that [of a "uq_fresh q", OF _ refl]) (auto simp: enqueue_work_def Let_def split: if_splits)
  qed
qed

lemma enqueue_inv:
  assumes inv: "uplink_inv (q, admitted, settled)" and run: "enqueue_work work q = (True, q')"
  shows "uplink_inv (q', admitted @ [work], settled)"
proof -
  define d where "d = uw_deviceUid work"
  obtain a n p where a: "uq_byDevice q d = Some a \<and> n = uq_fresh q \<or> uq_byDevice q d = None \<and> a = uq_fresh q \<and> n = uq_fresh q + 1"
    and p: "p = q\<lparr>uq_fresh := n, uq_byDevice := (uq_byDevice q)(d \<mapsto> a), uq_arrays := (uq_arrays q)(a := waiting_for q d @ [work]),
        uq_outstanding := uq_outstanding q + 1, uq_outstandingBytes := uq_outstandingBytes q + int (uw_byteSize work)\<rparr>"
    and q': "q' = drain (if waiting_for q d = [] \<and> d \<notin> uq_active q then p\<lparr>uq_ready := uq_ready q @ [d]\<rparr> else p)" (is "_ = drain ?r")
    and room: "uq_outstanding q < uq_capacity q" "uq_outstandingBytes q + int (uw_byteSize work) \<le> uq_maxBytes q"
    by (rule enqueue_admitted [OF run d_def])
  have parts: "flights_ok q" "arrays_ok q" "ready_ok q" "queue_order_ok (q, admitted, settled)" "counts_ok (q, admitted, settled)"
    using inv by (simp_all add: uplink_inv_def queue_ok_def)
  have other: "b \<noteq> a \<and> b < n" if "uq_byDevice q e = Some b" "e \<noteq> d" for e b
  proof -
    have "b < uq_fresh q" "uq_byDevice q d \<noteq> Some b"
      using parts(2) that unfolding arrays_ok_def by metis+
    with a show ?thesis by auto
  qed
  have fields: "uq_active ?r = uq_active q" "uq_flights ?r = uq_flights q" "uq_started ?r = uq_started q" "uq_byDevice ?r = (uq_byDevice q)(d \<mapsto> a)"
    "uq_arrays ?r = (uq_arrays q)(a := waiting_for q d @ [work])" "uq_fresh ?r = n" "uq_running ?r = uq_running q"
    "uq_outstanding ?r = uq_outstanding q + 1" "uq_outstandingBytes ?r = uq_outstandingBytes q + int (uw_byteSize work)"
    "uq_concurrency ?r = uq_concurrency q" "uq_capacity ?r = uq_capacity q" "uq_maxBytes ?r = uq_maxBytes q"
    by (simp_all add: p)
  have waiting: "waiting_for ?r e = (if e = d then waiting_for q d @ [work] else waiting_for q e)" for e
    unfolding waiting_for_def [of ?r] fields using other [of e]
    by (auto simp: waiting_for_def [of q e] split: option.splits)
  have order: "of_device e (uq_started q) @ waiting_for q e = of_device e admitted"
    "of_device e settled @ of_device e (map (snd \<circ> snd) (uq_flights q)) = of_device e (uq_started q)" for e
    using parts(4) by (simp_all add: queue_order_ok_def)
  have "flights_ok ?r"
    using parts(1) a unfolding flights_ok_def fields by (metis fun_upd_apply option.distinct(1))
  moreover have "arrays_ok ?r"
    using parts(2) a other unfolding arrays_ok_def fields by auto
  moreover have "ready_ok ?r"
  proof -
    have all: "e \<in> set (uq_ready q) \<longleftrightarrow> waiting_for q e \<noteq> [] \<and> e \<notin> uq_active q" for e
      using parts(3) unfolding ready_ok_def by blast
    have "e \<in> set (uq_ready ?r) \<longleftrightarrow> waiting_for ?r e \<noteq> [] \<and> e \<notin> uq_active ?r" for e
      unfolding waiting fields using all [of e] by (auto simp: p)
    moreover have "distinct (uq_ready ?r)"
      using parts(3) all [of d] by (auto simp: p ready_ok_def)
    ultimately show ?thesis by (intro ready_okI)
  qed
  moreover have "queue_order_ok (?r, admitted @ [work], settled)"
  proof -
    have "of_device e (uq_started ?r) @ waiting_for ?r e = of_device e (admitted @ [work])" for e
      unfolding waiting fields using order(1) [of e] by (auto simp: d_def)
    then show ?thesis using order(2) by (simp add: queue_order_ok_def fields)
  qed
  moreover have "counts_ok (?r, admitted @ [work], settled)"
    using parts(5) room unfolding counts_ok_def prod.case fields by simp
  ultimately show ?thesis unfolding q' by (intro drain_inv) (simp add: queue_ok_def)
qed

lemma map_fst_remove1:
  "distinct (map fst xs) \<Longrightarrow> (d, y) \<in> set xs \<Longrightarrow> map fst (remove1 (d, y) xs) = remove1 d (map fst xs)"
  by (induction xs) (auto simp: rev_image_eqI)

lemma flights_of_device:
  assumes "distinct (map fst fs)" and "\<And>d a w. (d, a, w) \<in> set fs \<Longrightarrow> uw_deviceUid w = d" and "(d, a, w) \<in> set fs"
  shows "of_device d (map (snd \<circ> snd) fs) = [w]"
    and "of_device e (map (snd \<circ> snd) (remove1 (d, a, w) fs)) = (if e = d then [] else of_device e (map (snd \<circ> snd) fs))"
proof -
  have none: "of_device d (map (snd \<circ> snd) gs) = []" if "d \<notin> fst ` set gs" "set gs \<subseteq> set fs" for gs
    using that assms(2) by (force simp: filter_empty_conv)
  obtain xs ys where fs: "fs = xs @ (d, a, w) # ys" "(d, a, w) \<notin> set xs" using split_list_first [OF assms(3)] by blast
  have w: "uw_deviceUid w = d" by (rule assms(2) [OF assms(3)])
  have "of_device d (map (snd \<circ> snd) xs) = []" "of_device d (map (snd \<circ> snd) ys) = []"
    using assms(1) by (auto intro!: none simp: fs)
  then show "of_device d (map (snd \<circ> snd) fs) = [w]"
    and "of_device e (map (snd \<circ> snd) (remove1 (d, a, w) fs)) = (if e = d then [] else of_device e (map (snd \<circ> snd) fs))"
    using fs(2) w by (simp_all add: fs(1) remove1_append)
qed

lemma settle_body_ok:
  assumes inv: "uplink_inv (q, admitted, settled)" and flight: "(d, a, w) \<in> set (uq_flights q)"
  shows "queue_ok (settle_body (d, a, w) q, admitted, settled @ [w])"
proof -
  define p where "p = q\<lparr>uq_flights := remove1 (d, a, w) (uq_flights q), uq_running := uq_running q - 1,
     uq_outstanding := uq_outstanding q - 1, uq_outstandingBytes := uq_outstandingBytes q - int (uw_byteSize w),
     uq_active := uq_active q - {d}\<rparr>"
  define r where "r = (if uq_arrays q a \<noteq> [] then p\<lparr>uq_ready := uq_ready q @ [d]\<rparr> else p\<lparr>uq_byDevice := (uq_byDevice q)(d := None)\<rparr>)"
  have settle: "settle_body (d, a, w) q = r" by (simp add: settle_body_def r_def p_def)
  have parts: "flights_ok q" "arrays_ok q" "ready_ok q" "queue_order_ok (q, admitted, settled)" "counts_ok (q, admitted, settled)"
    using inv by (simp_all add: uplink_inv_def queue_ok_def)
  have at: "uq_byDevice q d = Some a" and dist: "distinct (map fst (uq_flights q))" "uq_active q = set (map fst (uq_flights q))"
    using parts(1) flight unfolding flights_ok_def by blast+
  have active: "d \<in> uq_active q" using flight by (force simp: dist(2))
  have here: "waiting_for q d = uq_arrays q a" by (simp add: waiting_for_def at)
  have devices: "map fst (remove1 (d, a, w) (uq_flights q)) = remove1 d (map fst (uq_flights q))"
    using dist(1) flight by (rule map_fst_remove1)
  have fields: "uq_active r = uq_active q - {d}" "uq_flights r = remove1 (d, a, w) (uq_flights q)" "uq_started r = uq_started q"
    "uq_arrays r = uq_arrays q" "uq_fresh r = uq_fresh q" "uq_running r = uq_running q - 1" "uq_outstanding r = uq_outstanding q - 1"
    "uq_outstandingBytes r = uq_outstandingBytes q - int (uw_byteSize w)"
    "uq_concurrency r = uq_concurrency q" "uq_capacity r = uq_capacity q" "uq_maxBytes r = uq_maxBytes q"
    "uq_byDevice r = (if uq_arrays q a \<noteq> [] then uq_byDevice q else (uq_byDevice q)(d := None))"
    by (simp_all add: r_def p_def)
  have waiting: "waiting_for r e = waiting_for q e" for e
    by (simp add: waiting_for_def fields at split: option.split)
  have "flights_ok r"
  proof -
    have "uq_byDevice r e = Some b \<and> uw_deviceUid v = e" if e: "(e, b, v) \<in> set (uq_flights r)" for e b v
    proof -
      have "e \<in> set (map fst (remove1 (d, a, w) (uq_flights q)))" using e by (force simp: fields(2))
      then have "e \<noteq> d" using dist(1) by (simp add: devices)
      moreover have "(e, b, v) \<in> set (uq_flights q)"
        using e set_remove1_subset [of "(d, a, w)" "uq_flights q"] unfolding fields(2) by blast
      then have "uq_byDevice q e = Some b \<and> uw_deviceUid v = e" using parts(1) unfolding flights_ok_def by blast
      ultimately show ?thesis by (simp add: fields(12))
    qed
    moreover have "distinct (map fst (uq_flights r))" "uq_active r = set (map fst (uq_flights r))"
      using dist by (simp_all add: fields devices)
    ultimately show ?thesis unfolding flights_ok_def by blast
  qed
  moreover have "arrays_ok r"
  proof -
    have before: "uq_byDevice q e = Some b \<and> (e = d \<longrightarrow> uq_arrays q b \<noteq> [])" if "uq_byDevice r e = Some b" for e b
      using that at by (auto simp: fields split: if_splits)
    show ?thesis
      unfolding arrays_ok_def
    proof (intro allI impI)
      fix e b
      assume "uq_byDevice r e = Some b"
      note e = before [OF this]
      then have "b < uq_fresh q \<and> (uq_arrays q b \<noteq> [] \<or> e \<in> uq_active q) \<and> (\<forall>e'. uq_byDevice q e' = Some b \<longrightarrow> e' = e)"
        using parts(2) unfolding arrays_ok_def by blast
      with e show "b < uq_fresh r \<and> (uq_arrays r b \<noteq> [] \<or> e \<in> uq_active r) \<and> (\<forall>e'. uq_byDevice r e' = Some b \<longrightarrow> e' = e)"
        using before by (auto simp: fields(1,4,5))
    qed
  qed
  moreover have "ready_ok r"
  proof -
    have all: "e \<in> set (uq_ready q) \<longleftrightarrow> waiting_for q e \<noteq> [] \<and> e \<notin> uq_active q" for e
      using parts(3) unfolding ready_ok_def by blast
    have "e \<in> set (uq_ready r) \<longleftrightarrow> waiting_for q e \<noteq> [] \<and> e \<notin> uq_active q - {d}" for e
      using all [of e] here by (cases "e = d") (auto simp: r_def p_def)
    moreover have "distinct (uq_ready r)"
      using parts(3) all [of d] active by (auto simp: r_def p_def ready_ok_def)
    ultimately show ?thesis by (intro ready_okI) (simp_all only: waiting fields)
  qed
  moreover have "queue_order_ok (r, admitted, settled @ [w])"
  proof -
    have w: "uw_deviceUid w = d" using parts(1) flight unfolding flights_ok_def by blast
    have owner: "\<And>d a w. (d, a, w) \<in> set (uq_flights q) \<Longrightarrow> uw_deviceUid w = d"
      using parts(1) unfolding flights_ok_def by blast
    have flights: "of_device d (map (snd \<circ> snd) (uq_flights q)) = [w]"
      "of_device e (map (snd \<circ> snd) (remove1 (d, a, w) (uq_flights q))) =
        (if e = d then [] else of_device e (map (snd \<circ> snd) (uq_flights q)))" for e
      using flights_of_device [OF dist(1) _ flight] owner by blast+
    have order: "of_device e settled @ of_device e (map (snd \<circ> snd) (uq_flights q)) = of_device e (uq_started q)" for e
      using parts(4) by (simp add: queue_order_ok_def)
    have "of_device e (settled @ [w]) @ of_device e (map (snd \<circ> snd) (remove1 (d, a, w) (uq_flights q))) = of_device e (uq_started q)"
      for e
      using order [of e] flights(1) by (cases "e = d") (simp_all add: w flights(2))
    then show ?thesis using parts(4) by (simp add: queue_order_ok_def waiting fields)
  qed
  moreover have "counts_ok (r, admitted, settled @ [w])"
  proof -
    have split: "mset (uq_flights q) = add_mset (d, a, w) (mset (remove1 (d, a, w) (uq_flights q)))"
      using flight by simp
    have "mset (map (snd \<circ> snd) (uq_flights q)) = add_mset w (mset (map (snd \<circ> snd) (remove1 (d, a, w) (uq_flights q))))"
      unfolding mset_map split by simp
    moreover have "length (uq_flights q) = Suc (length (remove1 (d, a, w) (uq_flights q)))"
      using flight by (simp add: length_remove1) (metis Suc_pred length_pos_if_in_set)
    ultimately show ?thesis using parts(5) unfolding counts_ok_def prod.case fields by simp
  qed
  ultimately show ?thesis unfolding settle by (simp add: queue_ok_def)
qed

lemma settle_inv:
  "uplink_inv (q, admitted, settled) \<Longrightarrow> (d, a, w) \<in> set (uq_flights q) \<Longrightarrow>
     uplink_inv (settle_work (d, a, w) q, admitted, settled @ [w])"
  unfolding settle_work_def by (intro drain_inv settle_body_ok)

lemma new_work_queue_inv: "uplink_start s \<Longrightarrow> uplink_inv s"
proof -
  assume "uplink_start s"
  then obtain c k b q where new: "new_work_queue c k b = Inr q" and s: "s = (q, [], [])" by (auto simp: uplink_start_def)
  have parts: "uq_byDevice q = Map.empty" "uq_active q = {}" "uq_ready q = []" "uq_running q = 0" "uq_outstanding q = 0"
      "uq_outstandingBytes q = 0" "uq_flights q = []" "uq_started q = []"
    using new by (auto simp: new_work_queue_def Let_def split: if_splits)
  have limits: "0 < uq_concurrency q" "uq_concurrency q \<le> uq_capacity q" "0 \<le> uq_maxBytes q"
    using new is_integer_iff by (auto simp: new_work_queue_def Let_def split: if_splits jsnum.splits)
  have "waiting_for q d = []" for d by (simp add: waiting_for_def parts)
  with parts limits show ?thesis
    by (simp add: s uplink_inv_def queue_ok_def flights_ok_def arrays_ok_def ready_ok_def queue_order_ok_def counts_ok_def busy_def)
qed

lemma uplink_step_inv: "uplink_step s t \<Longrightarrow> uplink_inv s \<Longrightarrow> uplink_inv t"
proof (induction rule: uplink_step.induct)
  case (enqueue w q r q' admitted settled)
  then show ?case by (cases r) (auto intro: enqueue_inv dest: enqueue_refused)
next
  case (settle d a w q admitted settled)
  then show ?case by (intro settle_inv)
qed

section \<open>What steps add\<close>

text \<open>Works are admitted, started and settled; nothing is taken back.\<close>

definition uplink_before :: "'r uplink_run \<Rightarrow> 'r uplink_run \<Rightarrow> bool" where
  "uplink_before = (\<lambda>(q, admitted, settled) (q', admitted', settled').
     prefix (uq_started q) (uq_started q') \<and> prefix admitted admitted' \<and> prefix settled settled')"

lemma drain_turn_started: "prefix (uq_started q) (uq_started (drain_turn d (q\<lparr>uq_ready := rest\<rparr>)))"
  by (simp add: drain_turn_def split: option.split list.split)

lemma drain_started: "prefix (uq_started q) (uq_started (drain q))"
proof (induction q rule: drain.induct)
  case (1 q)
  then show ?case
    by (subst drain.simps) (auto split: list.split intro: prefix_order.trans [OF drain_turn_started])
qed

lemma settle_body_started: "uq_started (settle_body f q) = uq_started q"
  by (cases f) (simp add: settle_body_def Let_def)

lemma enqueue_started: "prefix (uq_started q) (uq_started (snd (enqueue_work w q)))"
proof (cases "fst (enqueue_work w q)")
  case True
  then have "enqueue_work w q = (True, snd (enqueue_work w q))" by (metis prod.collapse)
  then obtain a n p where p: "p = q\<lparr>uq_fresh := n, uq_byDevice := (uq_byDevice q)(uw_deviceUid w \<mapsto> a), uq_arrays := (uq_arrays q)(a := waiting_for q (uw_deviceUid w) @ [w]),
        uq_outstanding := uq_outstanding q + 1, uq_outstandingBytes := uq_outstandingBytes q + int (uw_byteSize w)\<rparr>"
    and "snd (enqueue_work w q) = drain (if waiting_for q (uw_deviceUid w) = [] \<and> uw_deviceUid w \<notin> uq_active q
        then p\<lparr>uq_ready := uq_ready q @ [uw_deviceUid w]\<rparr> else p)" (is "_ = drain ?r")
    by (rule enqueue_admitted [OF _ refl])
  moreover have "uq_started ?r = uq_started q" by (simp add: p)
  ultimately show ?thesis using drain_started [of ?r] by (simp only:)
next
  case False
  then have "enqueue_work w q = (False, snd (enqueue_work w q))" by (metis prod.collapse)
  then show ?thesis using enqueue_refused by fastforce
qed

lemma uplink_step_before: "uplink_step s t \<Longrightarrow> uplink_before s t"
proof (induction rule: uplink_step.induct)
  case (enqueue w q r q' admitted settled)
  then show ?case using enqueue_started [of q w] by (simp add: uplink_before_def)
next
  case (settle d a w q admitted settled)
  show ?case using drain_started [of "settle_body (d, a, w) q"] by (simp add: uplink_before_def settle_work_def settle_body_started)
qed

interpretation uplinks: progressing_system uplink_start uplink_step uplink_inv uplink_before
proof
  show "uplink_before s s" for s :: "'r uplink_run"
    by (simp add: uplink_before_def split: prod.split)
  show "uplink_before s t \<Longrightarrow> uplink_before t u \<Longrightarrow> uplink_before s u" for s t u :: "'r uplink_run"
    by (auto simp: uplink_before_def intro: prefix_order.trans split: prod.splits)
qed (auto intro: new_work_queue_inv uplink_step_inv uplink_step_before)

section \<open>The line of ready devices\<close>

text \<open>When all slots are taken, admissions only lengthen the line, and every settlement serves its head.\<close>

lemma drain_full: "\<not> uq_running q < uq_concurrency q \<Longrightarrow> drain q = q"
  by (simp add: drain.simps [of q])

lemma enqueue_line:
  assumes inv: "uplink_inv (q, admitted, settled)" and line: "uq_ready q \<noteq> []" and run: "enqueue_work w q = (r, q')"
  shows "prefix (uq_ready q) (uq_ready q')"
proof (cases r)
  case True
  then obtain a n p where p: "p = q\<lparr>uq_fresh := n, uq_byDevice := (uq_byDevice q)(uw_deviceUid w \<mapsto> a), uq_arrays := (uq_arrays q)(a := waiting_for q (uw_deviceUid w) @ [w]),
        uq_outstanding := uq_outstanding q + 1, uq_outstandingBytes := uq_outstandingBytes q + int (uw_byteSize w)\<rparr>"
    and q': "q' = drain (if waiting_for q (uw_deviceUid w) = [] \<and> uw_deviceUid w \<notin> uq_active q
        then p\<lparr>uq_ready := uq_ready q @ [uw_deviceUid w]\<rparr> else p)"
    using run by (auto elim: enqueue_admitted [OF _ refl])
  have "uq_running q = uq_concurrency q" using inv line by (simp add: uplink_inv_def busy_def)
  then show ?thesis unfolding q' by (subst drain_full) (simp_all add: p)
qed (use run enqueue_refused in fastforce)

lemma settle_line:
  assumes inv: "uplink_inv (q, admitted, settled)" and line: "uq_ready q = d # ds" and flight: "(e, a, w) \<in> set (uq_flights q)"
  obtains v where "uw_deviceUid v = d" and "uq_started (settle_work (e, a, w) q) = uq_started q @ [v]"
    and "prefix ds (uq_ready (settle_work (e, a, w) q))"
proof -
  define r where "r = settle_body (e, a, w) q"
  have full: "uq_running q = uq_concurrency q" using inv line by (simp add: uplink_inv_def busy_def)
  have ok: "queue_ok (r, admitted, settled @ [w])" unfolding r_def using inv flight by (rule settle_body_ok)
  define rest where "rest = ds @ (if uq_arrays q a \<noteq> [] then [e] else [])"
  have ready: "uq_ready r = d # rest" "prefix ds rest"
    using line by (simp_all add: r_def rest_def settle_body_def Let_def)
  have free: "uq_running r < uq_concurrency r" "uq_running r + 1 = uq_concurrency r"
    using full by (simp_all add: r_def settle_body_def Let_def)
  obtain b v vs where v: "uw_deviceUid v = d" and turn: "drain_turn d (r\<lparr>uq_ready := rest\<rparr>) =
       r\<lparr>uq_ready := rest, uq_arrays := (uq_arrays r)(b := vs), uq_active := insert d (uq_active r), uq_running := uq_running r + 1,
         uq_flights := uq_flights r @ [(d, b, v)], uq_started := uq_started r @ [v]\<rparr>"
    by (rule drain_turn_starts [OF ok ready(1) free(1)])
  have "settle_work (e, a, w) q = drain (drain_turn d (r\<lparr>uq_ready := rest\<rparr>))"
    unfolding settle_work_def r_def [symmetric] using free(1) ready(1) by (subst drain.simps) simp
  also have "\<dots> = drain_turn d (r\<lparr>uq_ready := rest\<rparr>)"
    by (rule drain_full) (simp add: turn free(2))
  finally show ?thesis
    using v ready(2) by (intro that) (simp_all only: turn, simp_all add: r_def settle_body_started)
qed

text \<open>\<open>uplink_after n s t\<close>: the state \<open>t\<close> is reached from \<open>s\<close> by steps of which \<open>n\<close> are settlements.\<close>

inductive uplink_after :: "nat \<Rightarrow> 'r uplink_run \<Rightarrow> 'r uplink_run \<Rightarrow> bool" where
  now: "uplink_after 0 s s"
| enqueue: "uplink_after n s (q, admitted, settled) \<Longrightarrow> enqueue_work w q = (r, q') \<Longrightarrow>
    uplink_after n s (q', if r then admitted @ [w] else admitted, settled)"
| settle: "uplink_after n s (q, admitted, settled) \<Longrightarrow> (d, a, w) \<in> set (uq_flights q) \<Longrightarrow>
    uplink_after (Suc n) s (settle_work (d, a, w) q, admitted, settled @ [w])"

lemma uplink_after_steps: "uplink_after n s t \<Longrightarrow> uplink_step\<^sup>*\<^sup>* s t"
  by (induction rule: uplink_after.induct) (blast intro: rtranclp.rtrancl_into_rtrancl uplink_step.intros)+

text \<open>As long as a device waits, each settlement brings it one place nearer to the head of the line.\<close>

lemma line_moves:
  assumes "uplink_after n s t" and "uplink_inv s" and "uq_ready (fst s) = xs @ d # ys"
  shows "(\<exists>v. uw_deviceUid v = d \<and> prefix (uq_started (fst s)) (uq_started (fst t)) \<and>
       v \<in> set (drop (length (uq_started (fst s))) (uq_started (fst t)))) \<or>
     n \<le> length xs \<and> prefix (drop n xs @ [d]) (uq_ready (fst t))"
  using assms
proof (induction rule: uplink_after.induct)
  case (now s)
  then show ?case by (auto simp: prefix_def)
next
  case (enqueue n s q admitted settled w r q')
  have inv: "uplink_inv (q, admitted, settled)"
    using uplinks.steps_inv [OF uplink_after_steps [OF enqueue.hyps(1)] enqueue.prems(1)] .
  have grow: "prefix (uq_started q) (uq_started q')" using enqueue_started [of q w] by (simp add: enqueue.hyps(2))
  from enqueue.IH [OF enqueue.prems] show ?case
  proof (elim disjE exE conjE)
    fix v
    assume "uw_deviceUid v = d" "prefix (uq_started (fst s)) (uq_started (fst (q, admitted, settled)))"
      "v \<in> set (drop (length (uq_started (fst s))) (uq_started (fst (q, admitted, settled))))"
    with grow show ?thesis by (auto simp: prefix_def)
  next
    assume line: "n \<le> length xs" "prefix (drop n xs @ [d]) (uq_ready (fst (q, admitted, settled)))"
    then have "uq_ready q \<noteq> []" by auto
    then have "prefix (uq_ready q) (uq_ready q')" by (rule enqueue_line [OF inv _ enqueue.hyps(2)])
    with line show ?thesis by (auto intro: prefix_order.trans)
  qed
next
  case (settle n s q admitted settled e a w)
  let ?q = "settle_work (e, a, w) q"
  have inv: "uplink_inv (q, admitted, settled)"
    using uplinks.steps_inv [OF uplink_after_steps [OF settle.hyps(1)] settle.prems(1)] .
  have grow: "prefix (uq_started q) (uq_started ?q)"
    using drain_started [of "settle_body (e, a, w) q"] by (simp add: settle_work_def settle_body_started)
  have before: "prefix (uq_started (fst s)) (uq_started q)"
    using uplinks.steps_before [OF uplink_after_steps [OF settle.hyps(1)] settle.prems(1)] by (simp add: uplink_before_def split: prod.splits)
  from settle.IH [OF settle.prems] show ?case
  proof (elim disjE exE conjE)
    fix v
    assume "uw_deviceUid v = d" "prefix (uq_started (fst s)) (uq_started (fst (q, admitted, settled)))"
      "v \<in> set (drop (length (uq_started (fst s))) (uq_started (fst (q, admitted, settled))))"
    with grow show ?thesis by (auto simp: prefix_def)
  next
    assume line: "n \<le> length xs" "prefix (drop n xs @ [d]) (uq_ready (fst (q, admitted, settled)))"
    then obtain x ds where ready: "uq_ready q = x # ds" by (cases "uq_ready q") auto
    obtain v where v: "uw_deviceUid v = x" "uq_started ?q = uq_started q @ [v]" "prefix ds (uq_ready ?q)"
      by (rule settle_line [OF inv ready settle.hyps(2)])
    show ?thesis
    proof (cases "n = length xs")
      case True
      then have "x = d" using line(2) ready by simp
      then show ?thesis using v before by (auto simp: prefix_def)
    next
      case False
      then have "drop n xs = xs ! n # drop (Suc n) xs" using line(1) by (simp add: Cons_nth_drop_Suc)
      then have "prefix (drop (Suc n) xs @ [d]) ds" using line(2) ready by simp
      then show ?thesis using v(3) line(1) False by (auto intro: prefix_order.trans)
    qed
  qed
qed

section \<open>Properties\<close>

lemma reachable_uplink_inv: "uplink_start s \<Longrightarrow> uplink_step\<^sup>*\<^sup>* s t \<Longrightarrow> uplink_inv t"
  by (rule uplinks.reachable_inv)

text \<open>
  What the broker retains is bounded and its counters are exact: in every reachable state the number of running handlers is
  the number of pending promises and at most the concurrency, no device has two handlers, the works counted as outstanding
  and their bytes are those admitted and not settled, and both stay within the configured limits.
\<close>

theorem uplink_work_bounded:
  assumes "uplink_start s" and "uplink_step\<^sup>*\<^sup>* s (q, admitted, settled)"
  shows "uq_running q = int (length (uq_flights q)) \<and> uq_running q \<le> uq_concurrency q \<and> distinct (map fst (uq_flights q)) \<and>
    uq_outstanding q = int (length admitted) - int (length settled) \<and> uq_outstanding q \<le> uq_capacity q \<and>
    uq_outstandingBytes q = int (\<Sum>w\<leftarrow>admitted. uw_byteSize w) - int (\<Sum>w\<leftarrow>settled. uw_byteSize w) \<and>
    uq_outstandingBytes q \<le> uq_maxBytes q"
  using reachable_uplink_inv [OF assms] by (simp add: uplink_inv_def queue_ok_def flights_ok_def counts_ok_def)

text \<open>
  C8. The uplinks of one device are handled one after the other in the order of their admission: those whose handlers have settled, then
  at most one that runs, then those that wait are together exactly what was admitted for the device, however the handlers of
  other devices overlap.
\<close>

theorem uplink_device_order:
  assumes "uplink_start s" and "uplink_step\<^sup>*\<^sup>* s (q, admitted, settled)"
  shows "of_device d settled @ of_device d (map (snd \<circ> snd) (uq_flights q)) @ waiting_for q d = of_device d admitted \<and>
    length (of_device d (map (snd \<circ> snd) (uq_flights q))) \<le> 1"
proof -
  have inv: "flights_ok q" "queue_order_ok (q, admitted, settled)"
    using reachable_uplink_inv [OF assms] by (simp_all add: uplink_inv_def queue_ok_def)
  have owner: "\<And>d a w. (d, a, w) \<in> set (uq_flights q) \<Longrightarrow> uw_deviceUid w = d"
    using inv(1) unfolding flights_ok_def by blast
  have "length (of_device d (map (snd \<circ> snd) (uq_flights q))) \<le> 1"
  proof (cases "\<exists>a w. (d, a, w) \<in> set (uq_flights q)")
    case True
    then obtain a w where "(d, a, w) \<in> set (uq_flights q)" by blast
    moreover have "distinct (map fst (uq_flights q))" using inv(1) by (simp add: flights_ok_def)
    ultimately have "of_device d (map (snd \<circ> snd) (uq_flights q)) = [w]" using owner by (blast intro: flights_of_device(1))
    then show ?thesis by simp
  next
    case False
    then have "of_device d (map (snd \<circ> snd) (uq_flights q)) = []" using owner by (fastforce simp: filter_empty_conv)
    then show ?thesis by simp
  qed
  moreover have "of_device d (uq_started q) @ waiting_for q d = of_device d admitted"
    "of_device d settled @ of_device d (map (snd \<circ> snd) (uq_flights q)) = of_device d (uq_started q)"
    using inv(2) by (simp_all add: queue_order_ok_def)
  ultimately show ?thesis by (metis append.assoc)
qed

text \<open>
  No admitted uplink is forgotten: a device with waiting work has a handler running or stands in the line of ready devices while
  every slot is taken, so when no handler runs any more, everything admitted has been handled and the counters are back at zero.
\<close>

theorem uplink_no_lost_wakeup:
  assumes "uplink_start s" and "uplink_step\<^sup>*\<^sup>* s (q, admitted, settled)"
  shows "(waiting_for q d = [] \<or> (\<exists>a w. (d, a, w) \<in> set (uq_flights q)) \<or>
      d \<in> set (uq_ready q) \<and> int (length (uq_flights q)) = uq_concurrency q) \<and>
    (uq_flights q \<noteq> [] \<or> uq_byDevice q d = None \<and> mset admitted = mset settled \<and> uq_outstanding q = 0 \<and> uq_outstandingBytes q = 0)"
proof -
  have inv: "flights_ok q" "arrays_ok q" "ready_ok q" "queue_order_ok (q, admitted, settled)" "counts_ok (q, admitted, settled)" "busy q"
    using reachable_uplink_inv [OF assms] by (simp_all add: uplink_inv_def queue_ok_def)
  have line: "d \<in> uq_active q \<or> d \<in> set (uq_ready q) \<and> int (length (uq_flights q)) = uq_concurrency q"
    if "waiting_for q d \<noteq> []" for d
    using that ready_okD [OF inv(3), of d] inv(5,6) by (auto simp: busy_def counts_ok_def)
  have idle: "uq_byDevice q d = None \<and> of_device d admitted = of_device d settled" if none: "uq_flights q = []" for d
  proof -
    have "waiting_for q d = []" using line [of d] none inv(1,5) by (auto simp: flights_ok_def counts_ok_def)
    moreover have "uq_byDevice q d = None"
    proof (rule ccontr)
      assume "uq_byDevice q d \<noteq> None"
      then obtain a where "uq_byDevice q d = Some a" by blast
      then show False
        using \<open>waiting_for q d = []\<close> inv(2) none inv(1) unfolding arrays_ok_def flights_ok_def waiting_for_def by fastforce
    qed
    moreover have "of_device d (uq_started q) @ waiting_for q d = of_device d admitted"
      "of_device d settled @ of_device d (map (snd \<circ> snd) (uq_flights q)) = of_device d (uq_started q)"
      using inv(4) by (simp_all add: queue_order_ok_def)
    ultimately show ?thesis by (simp add: none)
  qed
  have all: "mset admitted = mset settled" if none: "uq_flights q = []"
  proof (rule multiset_eqI)
    fix w
    have count: "count (mset xs) w = count (mset (of_device (uw_deviceUid w) xs)) w" for xs :: "'a UplinkWork list"
      by (induction xs) auto
    show "count (mset admitted) w = count (mset settled) w"
      unfolding count [of admitted] count [of settled] using idle [OF none, of "uw_deviceUid w"] by simp
  qed
  then have "uq_outstanding q = 0 \<and> uq_outstandingBytes q = 0" if none: "uq_flights q = []"
    using inv(5) that
    by (auto simp: counts_ok_def simp flip: size_mset sum_mset_sum_list dest!: all)
  then show ?thesis
    using line [of d] inv(1) idle all by (force simp: flights_ok_def)
qed

text \<open>
  No device waits behind another without end: a device with \<open>length xs\<close> others before it in the line has its
  next uplink started after at most one settlement more than that, whatever is admitted in between.
\<close>

theorem uplink_bounded_wait:
  assumes "uplink_start s" and "uplink_step\<^sup>*\<^sup>* s (q, admitted, settled)" and "uq_ready q = xs @ d # ys"
    and "uplink_after n (q, admitted, settled) (q', admitted', settled')" and "length xs < n"
  shows "\<exists>new. uq_started q' = uq_started q @ new \<and> hd (waiting_for q d) \<in> set new"
proof -
  have inv: "uplink_inv (q, admitted, settled)" by (rule reachable_uplink_inv [OF assms(1,2)])
  have later: "uplink_inv (q', admitted', settled')" "uplink_before (q, admitted, settled) (q', admitted', settled')"
    using uplinks.steps_inv uplinks.steps_before uplink_after_steps [OF assms(4)] inv by blast+
  obtain v where v: "uw_deviceUid v = d" "v \<in> set (drop (length (uq_started q)) (uq_started q'))"
    using line_moves [OF assms(4) inv, of xs d ys] assms(3,5) by auto
  obtain new more where new: "uq_started q' = uq_started q @ new" "admitted' = admitted @ more"
    using later(2) by (auto simp: uplink_before_def prefix_def)
  then have "v \<in> set (of_device d new)" using v by simp
  then obtain u us where u: "of_device d new = u # us" by (cases "of_device d new") auto
  have "of_device d (uq_started q) @ waiting_for q d = of_device d admitted"
    "of_device d (uq_started q') @ waiting_for q' d = of_device d admitted'"
    using inv later(1) by (simp_all add: uplink_inv_def queue_ok_def queue_order_ok_def)
  then have "of_device d (uq_started q) @ (u # us) @ waiting_for q' d =
      of_device d (uq_started q) @ waiting_for q d @ of_device d more"
    using u by (simp add: new)
  then have "(u # us) @ waiting_for q' d = waiting_for q d @ of_device d more" by blast
  moreover have "waiting_for q d \<noteq> []"
    using inv assms(3) ready_okD [of q d] by (simp add: uplink_inv_def queue_ok_def)
  ultimately have "u = hd (waiting_for q d)" by (cases "waiting_for q d") simp_all
  moreover have "u \<in> set (of_device d new)" by (simp add: u)
  ultimately show ?thesis using new(1) by auto
qed

section \<open>Examples\<close>

definition ex_uplink :: "nat \<Rightarrow> nat \<Rightarrow> nat UplinkWork" where
  "ex_uplink d n = \<lparr>uw_deviceUid = [d], uw_byteSize = 10, uw_run = n\<rparr>"

definition ex_uq0 :: "nat UplinkWorkQueue" where "ex_uq0 = projr (new_work_queue (Fin 1) (Fin 4) (Fin 100))"
definition ex_uq1 :: "nat UplinkWorkQueue" where "ex_uq1 = snd (enqueue_work (ex_uplink 1 0) ex_uq0)"
definition ex_uq2 :: "nat UplinkWorkQueue" where "ex_uq2 = snd (enqueue_work (ex_uplink 1 1) ex_uq1)"
definition ex_uq3 :: "nat UplinkWorkQueue" where "ex_uq3 = snd (enqueue_work (ex_uplink 2 2) ex_uq2)"
definition ex_uq4 :: "nat UplinkWorkQueue" where "ex_uq4 = settle_work ([1], 0, ex_uplink 1 0) ex_uq3"

lemma ex_uq0_eq:
  "new_work_queue (Fin 1) (Fin 4) (Fin 100) = Inr ex_uq0"
  "ex_uq0 = \<lparr>uq_concurrency = 1, uq_capacity = 4, uq_maxBytes = 100, uq_arrays = (\<lambda>_. []), uq_fresh = 0, uq_byDevice = Map.empty,
     uq_active = {}, uq_ready = [], uq_running = 0, uq_outstanding = 0, uq_outstandingBytes = 0, uq_flights = [], uq_started = []\<rparr>"
  by (simp_all add: ex_uq0_def new_work_queue_def js_isInteger_def)

lemmas ex_uplink_eval = enqueue_work_def settle_work_def settle_body_def drain.simps drain_turn_def waiting_for_def ex_uplink_def Let_def

lemma ex_uq1_eq:
  "enqueue_work (ex_uplink 1 0) ex_uq0 = (True, ex_uq1)"
  "ex_uq1 = \<lparr>uq_concurrency = 1, uq_capacity = 4, uq_maxBytes = 100, uq_arrays = (\<lambda>_. []), uq_fresh = 1, uq_byDevice = [[1] \<mapsto> 0],
     uq_active = {[1]}, uq_ready = [], uq_running = 1, uq_outstanding = 1, uq_outstandingBytes = 10,
     uq_flights = [([1], 0, ex_uplink 1 0)], uq_started = [ex_uplink 1 0]\<rparr>"
  by (simp_all add: ex_uq1_def ex_uq0_eq(2) ex_uplink_eval fun_upd_idem)

lemma ex_uq2_eq:
  "enqueue_work (ex_uplink 1 1) ex_uq1 = (True, ex_uq2)"
  "ex_uq2 = ex_uq1\<lparr>uq_arrays := (\<lambda>_. [])(0 := [ex_uplink 1 1]), uq_outstanding := 2, uq_outstandingBytes := 20\<rparr>"
  by (simp_all add: ex_uq2_def ex_uq1_eq(2) ex_uplink_eval)

lemma ex_uq3_eq:
  "enqueue_work (ex_uplink 2 2) ex_uq2 = (True, ex_uq3)"
  "ex_uq3 = \<lparr>uq_concurrency = 1, uq_capacity = 4, uq_maxBytes = 100,
     uq_arrays = (\<lambda>_. [])(0 := [ex_uplink 1 1], 1 := [ex_uplink 2 2]), uq_fresh = 2, uq_byDevice = [[1] \<mapsto> 0, [2] \<mapsto> 1],
     uq_active = {[1]}, uq_ready = [[2]], uq_running = 1, uq_outstanding = 3, uq_outstandingBytes = 30,
     uq_flights = [([1], 0, ex_uplink 1 0)], uq_started = [ex_uplink 1 0]\<rparr>"
  by (simp_all add: ex_uq3_def ex_uq2_eq(2) ex_uq1_eq(2) ex_uplink_eval)

lemma ex_uq4_eq:
  "uq_started ex_uq4 = [ex_uplink 1 0, ex_uplink 2 2]" "uq_ready ex_uq4 = [[1]]"
  by (simp_all add: ex_uq4_def ex_uq3_eq(2) ex_uplink_eval)

lemma ex_uplink_start: "uplink_start (ex_uq0, [], [])"
  using ex_uq0_eq(1) by (auto simp: uplink_start_def)

lemma ex_uplink_steps:
  "uplink_step\<^sup>*\<^sup>* (ex_uq0, [], []) (ex_uq3, [ex_uplink 1 0, ex_uplink 1 1, ex_uplink 2 2], [])"
proof -
  have "uplink_step (ex_uq0, [], []) (ex_uq1, [ex_uplink 1 0], [])"
    using uplink_step.enqueue [OF ex_uq1_eq(1), of "[]"] by simp
  moreover have "uplink_step (ex_uq1, [ex_uplink 1 0], []) (ex_uq2, [ex_uplink 1 0, ex_uplink 1 1], [])"
    using uplink_step.enqueue [OF ex_uq2_eq(1), of "[ex_uplink 1 0]"] by simp
  moreover have "uplink_step (ex_uq2, [ex_uplink 1 0, ex_uplink 1 1], []) (ex_uq3, [ex_uplink 1 0, ex_uplink 1 1, ex_uplink 2 2], [])"
    using uplink_step.enqueue [OF ex_uq3_eq(1), of "[ex_uplink 1 0, ex_uplink 1 1]"] by simp
  ultimately show ?thesis by (meson rtranclp.rtrancl_into_rtrancl rtranclp.rtrancl_refl)
qed

lemma uplink_work_bounded_witness: "uq_outstandingBytes ex_uq3 = 30 \<and> uq_running ex_uq3 = 1"
  using uplink_work_bounded [OF ex_uplink_start ex_uplink_steps] by (simp add: ex_uq3_eq(2) ex_uplink_def)

lemma uplink_device_order_witness: "waiting_for ex_uq3 [1] = [ex_uplink 1 1]"
  using uplink_device_order [OF ex_uplink_start ex_uplink_steps, of "[1]"] by (simp add: ex_uq3_eq(2) ex_uplink_def)

lemma uplink_no_lost_wakeup_witness: "[2] \<in> set (uq_ready ex_uq3)"
  using uplink_no_lost_wakeup [OF ex_uplink_start ex_uplink_steps, of "[2]"] by (simp add: ex_uq3_eq(2) waiting_for_def)

lemma uplink_bounded_wait_witness: "\<exists>new. uq_started ex_uq4 = uq_started ex_uq3 @ new \<and> ex_uplink 2 2 \<in> set new"
proof -
  have ready: "uq_ready ex_uq3 = [] @ [2] # []" and head: "hd (waiting_for ex_uq3 [2]) = ex_uplink 2 2"
    by (simp_all add: ex_uq3_eq(2) waiting_for_def)
  have "uplink_after (Suc 0) (ex_uq3, [ex_uplink 1 0, ex_uplink 1 1, ex_uplink 2 2], [])
      (ex_uq4, [ex_uplink 1 0, ex_uplink 1 1, ex_uplink 2 2], [] @ [ex_uplink 1 0])"
    unfolding ex_uq4_def by (rule uplink_after.settle [OF uplink_after.now]) (simp add: ex_uq3_eq(2))
  from uplink_bounded_wait [OF ex_uplink_start ex_uplink_steps ready this] head show ?thesis by simp
qed

end
