(* ===== verification/BrokerAccess.thy ===== *)
theory BrokerAccess
  imports Topic Utf8
begin

text \<open>
  Who may connect to the broker and what a connected device may publish and subscribe to (\<^verbatim>\<open>broker/src/mqtt/broker.ts\<close>,
  \<^verbatim>\<open>core/src/security/password.ts\<close>): the bounded semaphore in front of the password hash, the decision about a
  connection, and the authorization of topics. The hash itself (\<^verbatim>\<open>Bun.password.verify\<close>) is an argument that may throw.
\<close>

section \<open>The semaphore\<close>

record 'w AuthSemaphore =
  as_limit :: int
  as_queueLimit :: int
  as_active :: int
  as_waiters :: "'w list"

datatype acquire_result = Acquired | Waits | Saturated

definition new_semaphore :: "int \<Rightarrow> int \<Rightarrow> 'w AuthSemaphore" where
  "new_semaphore limit queueLimit = \<lparr>as_limit = limit, as_queueLimit = queueLimit, as_active = 0, as_waiters = []\<rparr>"

definition semaphore_acquire :: "'w \<Rightarrow> 'w AuthSemaphore \<Rightarrow> acquire_result \<times> 'w AuthSemaphore" where
  "semaphore_acquire w s =
     (if as_active s < as_limit s then (Acquired, s\<lparr>as_active := as_active s + 1\<rparr>)
      else if int (length (as_waiters s)) \<ge> as_queueLimit s then (Saturated, s)
      else (Waits, s\<lparr>as_waiters := as_waiters s @ [w]\<rparr>))"

text \<open>A release frees its slot and hands it to the first waiter, whose promise it resolves.\<close>

definition semaphore_release :: "'w AuthSemaphore \<Rightarrow> 'w option \<times> 'w AuthSemaphore" where
  "semaphore_release s =
     (let s = s\<lparr>as_active := as_active s - 1\<rparr> in
      case as_waiters s of
        [] \<Rightarrow> (None, s)
      | w # ws \<Rightarrow> (Some w, s\<lparr>as_waiters := ws, as_active := as_active s + 1\<rparr>))"

text \<open>A run: the callers that hold a slot, those granted so far in order, and those admitted (granted or made to wait) in order.\<close>

type_synonym 'w semaphore_run = "'w AuthSemaphore \<times> 'w list \<times> 'w list \<times> 'w list"

inductive semaphore_step :: "'w semaphore_run \<Rightarrow> 'w semaphore_run \<Rightarrow> bool" where
  acquired: "semaphore_acquire w s = (Acquired, s') \<Longrightarrow> semaphore_step (s, hs, gs, ws) (s', hs @ [w], gs @ [w], ws @ [w])"
| waits: "semaphore_acquire w s = (Waits, s') \<Longrightarrow> semaphore_step (s, hs, gs, ws) (s', hs, gs, ws @ [w])"
| saturated: "semaphore_acquire w s = (Saturated, s') \<Longrightarrow> semaphore_step (s, hs, gs, ws) (s', hs, gs, ws)"
| released: "h \<in> set hs \<Longrightarrow> semaphore_release s = (None, s') \<Longrightarrow> semaphore_step (s, hs, gs, ws) (s', remove1 h hs, gs, ws)"
| handed: "h \<in> set hs \<Longrightarrow> semaphore_release s = (Some w, s') \<Longrightarrow>
    semaphore_step (s, hs, gs, ws) (s', remove1 h hs @ [w], gs @ [w], ws)"

definition semaphore_start :: "'w semaphore_run \<Rightarrow> bool" where
  "semaphore_start r \<longleftrightarrow> (\<exists>limit queueLimit. 0 < limit \<and> 0 \<le> queueLimit \<and> r = (new_semaphore limit queueLimit, [], [], []))"

definition semaphore_inv :: "'w semaphore_run \<Rightarrow> bool" where
  "semaphore_inv = (\<lambda>(s, hs, gs, ws). 0 < as_limit s \<and> as_active s = int (length hs) \<and> as_active s \<le> as_limit s \<and>
     int (length (as_waiters s)) \<le> as_queueLimit s \<and> (as_waiters s \<noteq> [] \<longrightarrow> as_active s = as_limit s) \<and> gs @ as_waiters s = ws)"

lemma semaphore_step_inv: "semaphore_step r r' \<Longrightarrow> semaphore_inv r \<Longrightarrow> semaphore_inv r'"
proof (induction rule: semaphore_step.induct)
  case (released h hs s s' gs ws)
  then have "length hs = Suc (length (remove1 h hs))" by (simp add: length_remove1) (metis Suc_pred length_pos_if_in_set)
  with released show ?case by (auto simp: semaphore_inv_def semaphore_release_def Let_def split: list.splits)
next
  case (handed h hs s w s' gs ws)
  then have "length hs = Suc (length (remove1 h hs))" by (simp add: length_remove1) (metis Suc_pred length_pos_if_in_set)
  with handed show ?case by (auto simp: semaphore_inv_def semaphore_release_def Let_def split: list.splits)
qed (auto simp: semaphore_inv_def semaphore_acquire_def split: if_splits)

interpretation semaphore: guarded_system semaphore_start semaphore_step semaphore_inv
proof
  show "semaphore_start r \<Longrightarrow> semaphore_inv r" for r :: "'w semaphore_run"
    by (auto simp: semaphore_start_def semaphore_inv_def new_semaphore_def)
qed (rule semaphore_step_inv)

section \<open>Connections\<close>

text \<open>\<open>verify password stored\<close> is \<^verbatim>\<open>Bun.password.verify\<close>; \<open>None\<close> is an exception.\<close>

definition verifyPassword :: "(jsstring \<Rightarrow> jsstring \<Rightarrow> bool option) \<Rightarrow> jsstring \<Rightarrow> jsstring \<Rightarrow> bool" where
  "verifyPassword verify password stored =
     (if stored = [] then False
      else if \<not> starts_with (js ''$argon2id$'') stored then False
      else case verify password stored of Some r \<Rightarrow> r | None \<Rightarrow> False)"

record device_credential =
  dc_deviceUid :: jsstring
  dc_passwordHash :: jsstring
  dc_authRevoked :: bool

datatype database_error = Database_error

text \<open>\<^verbatim>\<open>Buffer.toString()\<close> decodes UTF-8 and keeps a byte order mark.\<close>

definition buffer_text :: "bytes \<Rightarrow> jsstring" where
  "buffer_text bs = utf8_go 0 0x80 0xbf 0 bs"

text \<open>The table of devices is an argument; \<open>None\<close> is a database that does not answer.\<close>

definition authenticateDevice ::
    "(jsstring \<Rightarrow> jsstring \<Rightarrow> bool option) \<Rightarrow> device_credential list option \<Rightarrow> jsstring \<Rightarrow> bytes option \<Rightarrow> database_error + bool" where
  "authenticateDevice verify devices username password =
     (if username = [] then Inr False
      else case password of
        None \<Rightarrow> Inr False
      | Some pw \<Rightarrow>
          (case devices of
             None \<Rightarrow> Inl Database_error
           | Some rows \<Rightarrow>
               (case find (\<lambda>r. dc_deviceUid r = username) rows of
                  None \<Rightarrow> Inr False
                | Some device \<Rightarrow>
                    if dc_authRevoked device then Inr False
                    else Inr (verifyPassword verify (buffer_text pw) (dc_passwordHash device)))))"

text \<open>
  The handler of a CONNECT: refused at once, or passed to the semaphore; and, once a slot is granted, the reply. A failure of the
  database is reported as unavailability (return code 3), not as wrong credentials.
\<close>

datatype connect_reply = Connect_result bool | Connect_unavailable

definition identity_bound :: "jsstring \<Rightarrow> jsstring option \<Rightarrow> bool" where
  "identity_bound clientId username \<longleftrightarrow>
     (case username of None \<Rightarrow> False | Some u \<Rightarrow> u \<noteq> [] \<and> clientId = u \<and> isValidDeviceUid clientId)"

definition authenticate_gate ::
    "'w \<Rightarrow> jsstring \<Rightarrow> jsstring option \<Rightarrow> 'w AuthSemaphore \<Rightarrow> connect_reply option \<times> acquire_result option \<times> 'w AuthSemaphore" where
  "authenticate_gate w clientId username s =
     (if \<not> identity_bound clientId username then (Some (Connect_result False), None, s)
      else case semaphore_acquire w s of
        (Saturated, s') \<Rightarrow> (Some (Connect_result False), Some Saturated, s')
      | (r, s') \<Rightarrow> (None, Some r, s'))"

definition authenticate_granted ::
    "(jsstring \<Rightarrow> jsstring \<Rightarrow> bool option) \<Rightarrow> device_credential list option \<Rightarrow> jsstring \<Rightarrow> bytes option \<Rightarrow> connect_reply" where
  "authenticate_granted verify devices username password =
     (case authenticateDevice verify devices username password of
        Inl _ \<Rightarrow> Connect_unavailable
      | Inr ok \<Rightarrow> Connect_result ok)"

section \<open>Topics\<close>

definition isAllowedUplink :: "jsstring \<Rightarrow> jsstring \<Rightarrow> bool" where
  "isAllowedUplink clientId topic =
     (case parseDeviceTopic topic of Inl _ \<Rightarrow> False | Inr parsed \<Rightarrow> deviceUid parsed = clientId)"

definition MAX_PUBLISH_BYTES :: nat where "MAX_PUBLISH_BYTES = 256 * 1024"

datatype publish_error = Packet_too_large | Topic_not_allowed

text \<open>\<open>None\<close> for the client is a publish of the server itself; the size of a missing payload is zero.\<close>

definition authorizePublish :: "jsstring option \<Rightarrow> nat option \<Rightarrow> jsstring \<Rightarrow> publish_error + unit" where
  "authorizePublish client payloadLength topic =
     (case client of
        None \<Rightarrow> Inr ()
      | Some clientId \<Rightarrow>
          let size = (case payloadLength of None \<Rightarrow> 0 | Some n \<Rightarrow> n) in
          if size > MAX_PUBLISH_BYTES then Inl Packet_too_large
          else if isAllowedUplink clientId topic then Inr () else Inl Topic_not_allowed)"

definition DOWNLINK_SUFFIXES :: "jsstring list" where
  "DOWNLINK_SUFFIXES = [js ''cmd/exec'', js ''ota'']"

definition authorizeSubscribe :: "jsstring \<Rightarrow> jsstring \<Rightarrow> publish_error + unit" where
  "authorizeSubscribe clientId topic =
     (if list_ex (\<lambda>suffix. topic = TOPIC_PREFIX @ js ''/'' @ clientId @ js ''/'' @ suffix) DOWNLINK_SUFFIXES
      then Inr () else Inl Topic_not_allowed)"

lemma subscribe_downlink:
  assumes "isValidDeviceUid c"
  shows "authorizeSubscribe c t = Inr () \<longleftrightarrow> commandExecution c = Inr t \<or> otaCommand c = Inr t"
  using assms
  by (auto simp: authorizeSubscribe_def DOWNLINK_SUFFIXES_def commandExecution_def otaCommand_def requireValidDeviceUid_def js_simps)

lemma uplink_segment:
  assumes "isAllowedUplink c t"
  shows "split_on slash t ! 3 = c" and "isValidDeviceUid c"
  using assms by (auto simp: isAllowedUplink_def parse_segments topic_segments_def split: sum.splits)

lemma downlink_segments:
  assumes "isValidDeviceUid c" and "authorizeSubscribe c t = Inr ()"
  shows "\<exists>ss. split_on slash t = [js ''soulcloud'', js ''v1'', js ''devices'', c] @ ss \<and> ss \<in> {[js ''cmd'', js ''exec''], [js ''ota'']}"
proof -
  have "t = join_on slash [js ''soulcloud'', js ''v1'', js ''devices'', c, js ''cmd'', js ''exec''] \<or>
      t = join_on slash [js ''soulcloud'', js ''v1'', js ''devices'', c, js ''ota'']"
    using assms by (auto simp: authorizeSubscribe_def DOWNLINK_SUFFIXES_def TOPIC_PREFIX_def js_simps split: if_splits)
  then show ?thesis
  proof
    assume "t = join_on slash [js ''soulcloud'', js ''v1'', js ''devices'', c, js ''cmd'', js ''exec'']"
    then have "split_on slash t = [js ''soulcloud'', js ''v1'', js ''devices'', c, js ''cmd'', js ''exec'']"
      using valid_uid_no_slash [OF assms(1)] by (simp only:) (subst split_join; auto)
    then show ?thesis by simp
  next
    assume "t = join_on slash [js ''soulcloud'', js ''v1'', js ''devices'', c, js ''ota'']"
    then have "split_on slash t = [js ''soulcloud'', js ''v1'', js ''devices'', c, js ''ota'']"
      using valid_uid_no_slash [OF assms(1)] by (simp only:) (subst split_join; auto)
    then show ?thesis by simp
  qed
qed

section \<open>Properties\<close>

text \<open>
  The gate in front of the password hash is bounded and fair: never more hashes run than the limit, never more callers wait than the queue
  holds, nobody waits while a slot is free, and the slots are granted in the order of admission.
\<close>

theorem auth_gate_bounded_fair:
  assumes "semaphore_start r" and "semaphore_step\<^sup>*\<^sup>* r (s, holders, granted, admitted)"
  shows "int (length holders) \<le> as_limit s \<and> int (length (as_waiters s)) \<le> as_queueLimit s \<and>
    (as_waiters s = [] \<or> int (length holders) = as_limit s) \<and> granted @ as_waiters s = admitted"
  using semaphore.reachable_inv [OF assms] by (auto simp: semaphore_inv_def)

text \<open>
  A connection is accepted only for a device with that valid identifier as clientId and as user name, whose row exists, is not revoked and
  holds an argon2id hash that the password matches; a database failure never counts as wrong credentials.
\<close>

theorem connection_accepted_iff:
  assumes "authenticate_gate w clientId (Some username) s = (None, granted, s')"
  shows "(authenticate_granted verify devices username password = Connect_result True \<longleftrightarrow>
      (\<exists>pw rows device. password = Some pw \<and> devices = Some rows \<and> find (\<lambda>r. dc_deviceUid r = clientId) rows = Some device \<and>
        \<not> dc_authRevoked device \<and> starts_with (js ''$argon2id$'') (dc_passwordHash device) \<and>
        verify (buffer_text pw) (dc_passwordHash device) = Some True)) \<and>
    (authenticate_granted verify devices username password = Connect_unavailable \<longleftrightarrow> password \<noteq> None \<and> devices = None) \<and>
    username = clientId \<and> isValidDeviceUid clientId"
proof -
  have id: "username = clientId" "isValidDeviceUid clientId" "username \<noteq> []"
    using assms by (auto simp: authenticate_gate_def identity_bound_def split: if_splits)
  have "verifyPassword verify pw stored \<longleftrightarrow> starts_with (js ''$argon2id$'') stored \<and> verify pw stored = Some True" for pw stored
    by (auto simp: verifyPassword_def starts_with_def js_simps split: option.split)
  with id show ?thesis
    by (auto simp: authenticate_granted_def authenticateDevice_def split: option.splits)
qed

text \<open>
  Devices are separated by topic: what a device may publish no device may subscribe to, no two devices may publish on or subscribe to the
  same topic, and a permitted subscription is a topic without wildcards.
\<close>

theorem device_topics_separate:
  assumes "isValidDeviceUid c" and "isValidDeviceUid c'" and "authorizeSubscribe c t = Inr ()"
  shows "authorizePublish (Some c') n t \<noteq> Inr () \<and> (authorizeSubscribe c' t = Inr () \<longleftrightarrow> c' = c) \<and>
    (authorizePublish (Some c) n u = Inr () \<and> authorizePublish (Some c') n' u = Inr () \<longrightarrow> c' = c) \<and>
    35 \<notin> set t \<and> 43 \<notin> set t"
proof -
  obtain ss where t: "split_on slash t = [js ''soulcloud'', js ''v1'', js ''devices'', c] @ ss" "ss \<in> {[js ''cmd'', js ''exec''], [js ''ota'']}"
    using downlink_segments [OF assms(1,3)] by blast
  have "parseDeviceTopic t = Inl (SchemeMismatch t)"
    using t by (auto simp: parseDeviceTopic_def Let_def segment_def segments_kind_def)
  then have "authorizePublish (Some c') n t \<noteq> Inr ()"
    by (simp add: authorizePublish_def isAllowedUplink_def Let_def)
  moreover have "authorizeSubscribe c' t = Inr () \<longleftrightarrow> c' = c"
  proof
    assume "authorizeSubscribe c' t = Inr ()"
    from downlink_segments [OF assms(2) this] show "c' = c" by (auto simp: t(1))
  qed (use assms(3) in simp)
  moreover have "c' = c" if "authorizePublish (Some c) n u = Inr ()" "authorizePublish (Some c') n' u = Inr ()"
  proof -
    have "isAllowedUplink c u" "isAllowedUplink c' u"
      using that by (auto simp: authorizePublish_def Let_def split: if_splits)
    then show ?thesis using uplink_segment(1) by blast
  qed
  moreover have "35 \<notin> set t \<and> 43 \<notin> set t"
    using assms(1,3)
    by (auto simp: authorizeSubscribe_def DOWNLINK_SUFFIXES_def TOPIC_PREFIX_def isValidDeviceUid_def js_simps split: if_splits)
  ultimately show ?thesis by blast
qed

section \<open>Examples\<close>

lemma auth_gate_bounded_fair_witness:
  "as_waiters (snd (semaphore_acquire (2::nat) (snd (semaphore_acquire 1 (new_semaphore 1 4))))) = [2]"
proof -
  have 1: "semaphore_step (new_semaphore 1 4, [], [], []) (snd (semaphore_acquire 1 (new_semaphore 1 4)), [] @ [1::nat], [] @ [1], [] @ [1])"
    by (rule semaphore_step.acquired) (simp add: semaphore_acquire_def new_semaphore_def)
  have 2: "semaphore_step (snd (semaphore_acquire 1 (new_semaphore 1 4)), [1], [1], [1])
      (snd (semaphore_acquire 2 (snd (semaphore_acquire 1 (new_semaphore 1 4)))), [1], [1], [1] @ [2::nat])"
    by (rule semaphore_step.waits) (simp add: semaphore_acquire_def new_semaphore_def)
  have "semaphore_step\<^sup>*\<^sup>* (new_semaphore 1 4, [], [], [])
      (snd (semaphore_acquire 2 (snd (semaphore_acquire 1 (new_semaphore 1 4)))), [1], [1], [1, 2::nat])"
    using 1 2 by (auto intro: rtranclp.rtrancl_into_rtrancl)
  moreover have "semaphore_start (new_semaphore 1 4, [], [], [] :: nat list)"
    unfolding semaphore_start_def by (intro exI [of _ 1] exI [of _ 4]) simp
  ultimately show ?thesis using auth_gate_bounded_fair by fastforce
qed

definition ex_credential :: device_credential where
  "ex_credential = \<lparr>dc_deviceUid = js ''dev-1'', dc_passwordHash = js ''$argon2id$x'', dc_authRevoked = False\<rparr>"

lemma ex_dev_valid: "isValidDeviceUid (js ''dev-1'')" "isValidDeviceUid (js ''dev-2'')"
  by (simp_all add: isValidDeviceUid_def is_space_def js_simps)

lemma connection_accepted_iff_witness:
  "authenticate_granted (\<lambda>pw _. Some (pw = [112])) (Some [ex_credential]) (js ''dev-1'') (Some [112]) = Connect_result True"
proof -
  have "authenticate_gate 1 (js ''dev-1'') (Some (js ''dev-1'')) (new_semaphore 1 4) =
      (None, Some Acquired, snd (semaphore_acquire 1 (new_semaphore 1 4)))"
    using ex_dev_valid(1)
    by (simp add: authenticate_gate_def identity_bound_def semaphore_acquire_def new_semaphore_def js_def)
  from connection_accepted_iff [OF this, of "\<lambda>pw _. Some (pw = [112])" "Some [ex_credential]" "Some [112]"]
  show ?thesis by (simp add: ex_credential_def buffer_text_def starts_with_def js_simps)
qed

lemma device_topics_separate_witness:
  "authorizePublish (Some (js ''dev-2'')) (Some 3) (js ''soulcloud/v1/devices/dev-1/ota'') \<noteq> Inr ()"
proof -
  have "authorizeSubscribe (js ''dev-1'') (js ''soulcloud/v1/devices/dev-1/ota'') = Inr ()"
    by (simp add: authorizeSubscribe_def DOWNLINK_SUFFIXES_def TOPIC_PREFIX_def js_simps)
  from device_topics_separate [OF ex_dev_valid this] show ?thesis by blast
qed

end
