(* ===== verification/Dispatch.thy ===== *)
theory Dispatch
  imports UplinkQueue BrokerAccess RateLimit LogContainer LogStore DeviceCodecs OtaSystem QueueSystem
begin

text \<open>
  What the broker does with a message of a device (\<^verbatim>\<open>broker/src/mqtt/dispatch.ts\<close>): size and rate limits, admission to the executor of
  UplinkQueue, and the handlers that hand the message to the operations of the other components. The
  handlers of durable messages run before the message is acknowledged, the others after.
  The tables are those of the components; those that several components look at (devices, firmware states) appear in
  each of them, and \<open>tables_agree\<close> says that the copies are the same. The database may stop answering (\<open>ue_up\<close>).
\<close>

section \<open>Payloads\<close>

text \<open>\<^verbatim>\<open>Buffer.from(text)\<close>: UTF-8, with lone surrogates replaced.\<close>

definition utf8_2 :: "nat \<Rightarrow> bytes" where
  "utf8_2 u = [of_nat (0xc0 + u div 0x40), of_nat (0x80 + u mod 0x40)]"

definition utf8_3 :: "nat \<Rightarrow> bytes" where
  "utf8_3 u = [of_nat (0xe0 + u div 0x1000), of_nat (0x80 + u div 0x40 mod 0x40), of_nat (0x80 + u mod 0x40)]"

definition utf8_4 :: "nat \<Rightarrow> bytes" where
  "utf8_4 u = [of_nat (0xf0 + u div 0x40000), of_nat (0x80 + u div 0x1000 mod 0x40), of_nat (0x80 + u div 0x40 mod 0x40),
     of_nat (0x80 + u mod 0x40)]"

fun utf8_encode :: "jsstring \<Rightarrow> bytes" where
  "utf8_encode [] = []"
| "utf8_encode (u # us) =
     (if u < 0x80 then of_nat u # utf8_encode us
      else if u < 0x800 then utf8_2 u @ utf8_encode us
      else if 0xd800 \<le> u \<and> u \<le> 0xdbff then
        (case us of
           [] \<Rightarrow> utf8_3 0xfffd
         | v # vs \<Rightarrow>
             if 0xdc00 \<le> v \<and> v \<le> 0xdfff then utf8_4 (0x10000 + (u - 0xd800) * 0x400 + (v - 0xdc00)) @ utf8_encode vs
             else utf8_3 0xfffd @ utf8_encode us)
      else if 0xdc00 \<le> u \<and> u \<le> 0xdfff then utf8_3 0xfffd @ utf8_encode us
      else utf8_3 u @ utf8_encode us)"

declare utf8_encode.simps(2) [simp del]

lemma length_utf8 [simp]: "length (utf8_2 u) = 2" "length (utf8_3 u) = 3" "length (utf8_4 u) = 4"
  by (simp_all only: utf8_2_def utf8_3_def utf8_4_def list.size)

lemma length_utf8_encode: "length (utf8_encode us) = byteLength us"
proof (induction us rule: utf8_encode.induct)
  case (2 u us)
  show ?case
  proof (cases us)
    case Nil
    then show ?thesis by (simp add: utf8_encode.simps(2) [of u "[]"])
  next
    case (Cons v vs)
    with 2 show ?thesis
      by (simp add: utf8_encode.simps(2) [of u "v # vs"] byteLength.simps(2) [of u "v # vs"] del: byteLength.simps(2))
  qed
qed simp

datatype mqtt_payload = No_payload | Text_payload jsstring | Data_payload bytes

record uplink_packet =
  pk_ref :: nat
  pk_topic :: jsstring
  pk_payload :: mqtt_payload

fun payload_bytes :: "mqtt_payload \<Rightarrow> bytes" where
  "payload_bytes No_payload = []"
| "payload_bytes (Text_payload s) = utf8_encode s"
| "payload_bytes (Data_payload bs) = bs"

section \<open>The state of the handlers\<close>

record broker_db =
  bd_plugin :: plugin_db
  bd_ota :: ota_db
  bd_log :: log_db

record uplink_env =
  ue_decode :: "bytes \<Rightarrow> jsval option"
  ue_resultSchema :: "jsval \<Rightarrow> DeviceCommandResult option"
  ue_time :: time
  ue_newId :: uuid
  ue_up :: bool

type_synonym device_cache = "(jsstring \<times> cached_device) list"

datatype uplink_outcome =
    Ignored_topic
  | Foreign_topic
  | Invalid_payload
  | Event_stored DeviceEventIngestStatus
  | Result_recorded ResultRecordOutcome
  | Result_unmatched
  | Ota_result_recorded nat
  | Unknown_device
  | Stat_recorded nat
  | Stat_failed
  | Log_ingested nat nat
  | Log_failed

datatype uplink_error = No_database | Queue_failed CommandQueueError | Ota_failed OtaError | Plugin_failed PluginError

type_synonym uplink_result = "(uplink_error + uplink_outcome) \<times> broker_db \<times> device_cache"

section \<open>Handlers\<close>

definition persistDeviceEvent :: "uplink_env \<Rightarrow> jsstring \<Rightarrow> bytes \<Rightarrow> broker_db \<Rightarrow> device_cache \<Rightarrow> uplink_result" where
  "persistDeviceEvent env uid content b cache =
     (case decodeDeviceEvent (ue_decode env) content of
        Inl _ \<Rightarrow> (Inr Invalid_payload, b, cache)
      | Inr event \<Rightarrow>
          if \<not> ue_up env then (Inl No_database, b, cache)
          else (case ingestDeviceEvent (ue_newId env) (ue_time env) uid event content (bd_plugin b) of
                  Inl e \<Rightarrow> (Inl (Plugin_failed e), b, cache)
                | Inr ((status, _), d') \<Rightarrow> (Inr (Event_stored status), b\<lparr>bd_plugin := d'\<rparr>, cache)))"

definition decode_result :: "uplink_env \<Rightarrow> bytes \<Rightarrow> CommandPayloadError + DeviceCommandResult" where
  "decode_result env = decodeDeviceCommandResult (ue_decode env) (ue_resultSchema env)"

definition handleCommandResult :: "uplink_env \<Rightarrow> jsstring \<Rightarrow> bytes \<Rightarrow> broker_db \<Rightarrow> device_cache \<Rightarrow> uplink_result" where
  "handleCommandResult env uid content b cache =
     (case decode_result env content of
        Inl _ \<Rightarrow> (Inr Invalid_payload, b, cache)
      | Inr result \<Rightarrow>
          if \<not> ue_up env then (Inl No_database, b, cache)
          else (case recordDeviceResult (decode_result env) (ue_time env) uid result content (core_db (bd_plugin b)) of
                  Inl (ResultMismatch _) \<Rightarrow> (Inr Result_unmatched, b, cache)
                | Inl (ConflictingResult _) \<Rightarrow> (Inr Result_unmatched, b, cache)
                | Inl e \<Rightarrow> (Inl (Queue_failed e), b, cache)
                | Inr (outcome, d') \<Rightarrow>
                    (Inr (Result_recorded outcome), b\<lparr>bd_plugin := (bd_plugin b)\<lparr>core_db := d'\<rparr>\<rparr>, cache)))"

fun ack_state :: "ota_result_state \<Rightarrow> ota_ack" where
  "ack_state RDownloaded = AckDownloaded"
| "ack_state RInstalled = AckInstalled"
| "ack_state RFailed = AckFailed"

definition ota_result_input :: "jsstring \<Rightarrow> OtaResultPayload \<Rightarrow> RecordOtaResultInput" where
  "ota_result_input uid result =
     \<lparr>ro_deviceUid = uid, ro_jobId = or_job result, ro_releaseId = or_release result, ro_state = ack_state (or_state result),
      ro_code = or_code result, ro_message = or_message result\<rparr>"

definition handleOtaResult :: "uplink_env \<Rightarrow> jsstring \<Rightarrow> bytes \<Rightarrow> broker_db \<Rightarrow> device_cache \<Rightarrow> uplink_result" where
  "handleOtaResult env uid content b cache =
     (case decodeOtaResult (ue_decode env) content of
        Inl _ \<Rightarrow> (Inr Invalid_payload, b, cache)
      | Inr result \<Rightarrow>
          if \<not> ue_up env then (Inl No_database, b, cache)
          else (case recordOtaResult (ue_time env) (ota_result_input uid result) (bd_ota b) of
                  Inl e \<Rightarrow> (Inl (Ota_failed e), b, cache)
                | Inr (n, d') \<Rightarrow> (Inr (Ota_result_recorded n), b\<lparr>bd_ota := d'\<rparr>, cache)))"

text \<open>
  \<^verbatim>\<open>resolveDeviceId\<close> asks the database only for a device that is not cached; \<open>None\<close> is the exception of a database that does not answer.
\<close>

definition resolve :: "uplink_env \<Rightarrow> jsstring \<Rightarrow> broker_db \<Rightarrow> device_cache \<Rightarrow> (uuid option \<times> device_cache) option" where
  "resolve env uid b cache =
     (let hit = (case map_of cache uid of None \<Rightarrow> False | Some c \<Rightarrow> cd_expiresAt c > ue_time env) in
      if \<not> ue_up env \<and> \<not> hit then None else Some (resolveDeviceId (ue_time env) (bd_log b) uid cache))"

definition STAT_WRITE_THROTTLE_MS :: int where "STAT_WRITE_THROTTLE_MS = 60000"

definition stat_needs_write :: "time \<Rightarrow> uuid \<Rightarrow> jsstring \<Rightarrow> ota_db \<Rightarrow> bool" where
  "stat_needs_write t dev fwHash d =
     (case find (\<lambda>s. sdevice s = dev) (fw_states d) of
        None \<Rightarrow> True
      | Some existing \<Rightarrow> sfw_hash existing \<noteq> fwHash \<or> t - sreported_at existing > STAT_WRITE_THROTTLE_MS)"

text \<open>\<^verbatim>\<open>deviceFirmwareState.upsert\<close>, in both copies of the table; it fails when the device is gone.\<close>

definition upsert_fw_state :: "time \<Rightarrow> uuid \<Rightarrow> jsstring \<Rightarrow> broker_db \<Rightarrow> broker_db option" where
  "upsert_fw_state t dev fwHash b =
     (let o_states = fw_states (bd_ota b); l_states = db_states (bd_log b) in
      if \<exists>s \<in> set o_states. sdevice s = dev then
        Some (b\<lparr>bd_ota := (bd_ota b)\<lparr>fw_states := map (\<lambda>s. if sdevice s = dev then s\<lparr>sfw_hash := fwHash, sreported_at := t\<rparr> else s) o_states\<rparr>,
                bd_log := (bd_log b)\<lparr>db_states := map (\<lambda>s. if fs_device s = dev then s\<lparr>fs_hash := fwHash\<rparr> else s) l_states\<rparr>\<rparr>)
      else if dev \<notin> did ` set (o_devices (bd_ota b)) then None
      else
        Some (b\<lparr>bd_ota := (bd_ota b)\<lparr>fw_states := o_states @ [\<lparr>sdevice = dev, sfw_hash = fwHash, sreported_at = t\<rparr>]\<rparr>,
                bd_log := (bd_log b)\<lparr>db_states := l_states @ [\<lparr>fs_device = dev, fs_hash = fwHash\<rparr>]\<rparr>\<rparr>))"

definition handleStat :: "uplink_env \<Rightarrow> jsstring \<Rightarrow> bytes \<Rightarrow> broker_db \<Rightarrow> device_cache \<Rightarrow> uplink_result" where
  "handleStat env uid content b cache =
     (case decodeDeviceStat (ue_decode env) content of
        Inl _ \<Rightarrow> (Inr Invalid_payload, b, cache)
      | Inr stat \<Rightarrow>
          let fwHash = hex_encode (st_fw stat) in
          (case resolve env uid b cache of
             None \<Rightarrow> (Inr Stat_failed, b, cache)
           | Some (None, cache') \<Rightarrow> (Inr Unknown_device, b, cache')
           | Some (Some dev, cache') \<Rightarrow>
               if \<not> ue_up env then (Inr Stat_failed, b, cache')
               else
                 (case (if stat_needs_write (ue_time env) dev fwHash (bd_ota b) then upsert_fw_state (ue_time env) dev fwHash b else Some b) of
                    None \<Rightarrow> (Inr Stat_failed, b, cache')
                  | Some b' \<Rightarrow>
                      (case confirmOtaTargetByFirmware (ue_time env) dev fwHash (bd_ota b') of
                         Inl _ \<Rightarrow> (Inr Stat_failed, b', cache')
                       | Inr (confirmed, d') \<Rightarrow> (Inr (Stat_recorded confirmed), b'\<lparr>bd_ota := d'\<rparr>, cache')))))"

text \<open>A container that the rate limiter has parsed is passed on, with its error if it was malformed.\<close>

definition handleLog ::
    "uplink_env \<Rightarrow> jsstring \<Rightarrow> bytes \<Rightarrow> (log_container_error + log_container) option \<Rightarrow> broker_db \<Rightarrow> device_cache \<Rightarrow> uplink_result" where
  "handleLog env uid content parsedLog b cache =
     (case resolve env uid b cache of
        None \<Rightarrow> (Inr Log_failed, b, cache)
      | Some (None, cache') \<Rightarrow> (Inr Unknown_device, b, cache')
      | Some (Some dev, cache') \<Rightarrow>
          (case (case parsedLog of Some p \<Rightarrow> p | None \<Rightarrow> parseLogContainer content) of
             Inl _ \<Rightarrow> (Inr Log_failed, b, cache')
           | Inr parsed \<Rightarrow>
               if \<not> ue_up env \<and> fst (bundle_rows (elements parsed)) \<noteq> [] then (Inr Log_failed, b, cache')
               else
                 (case ingestLogBundle id dev (elements parsed) (bd_log b) of
                    (Inl _, d') \<Rightarrow> (Inr Log_failed, b\<lparr>bd_log := d'\<rparr>, cache')
                  | (Inr (stored, bad), d') \<Rightarrow>
                      (Inr (Log_ingested stored (dropped parsed + bad)), b\<lparr>bd_log := d'\<rparr>, cache'))))"

definition handleUplink ::
    "uplink_env \<Rightarrow> jsstring \<Rightarrow> jsstring \<Rightarrow> bytes \<Rightarrow> (log_container_error + log_container) option \<Rightarrow> broker_db \<Rightarrow> device_cache \<Rightarrow> uplink_result" where
  "handleUplink env uid topicName content parsedLog b cache =
     (case parseDeviceTopic topicName of
        Inl _ \<Rightarrow> (Inr Ignored_topic, b, cache)
      | Inr topic \<Rightarrow>
          if deviceUid topic \<noteq> uid then (Inr Foreign_topic, b, cache)
          else (case kind topic of
                  CmdResult \<Rightarrow> handleCommandResult env uid content b cache
                | OtaResult \<Rightarrow> handleOtaResult env uid content b cache
                | Stat \<Rightarrow> handleStat env uid content b cache
                | Log \<Rightarrow> handleLog env uid content parsedLog b cache
                | Event \<Rightarrow> persistDeviceEvent env uid content b cache))"

section \<open>Gates\<close>

record DispatchGuardOptions =
  dg_maxPacketBytes :: nat
  dg_ratePerSecond :: rat
  dg_rateBurst :: rat
  dg_workConcurrency :: "jsnum option"
  dg_workCapacity :: "jsnum option"
  dg_workMaxBytes :: "jsnum option"

text \<open>The closure that the executor runs: a durable message answers the publisher when it settles, another one is only handled.\<close>

datatype uplink_task =
    Durable_task (task_packet: uplink_packet)
  | Plain_task (task_packet: uplink_packet) "(log_container_error + log_container) option"

record dispatcher =
  dp_guards :: "DispatchGuardOptions option"
  dp_limiter :: "PerDeviceLimiter option"
  dp_queue :: "uplink_task UplinkWorkQueue"
  dp_handled :: "nat set"

definition DEFAULT_WORK_CONCURRENCY :: jsnum where "DEFAULT_WORK_CONCURRENCY = Fin 16"
definition DEFAULT_WORK_CAPACITY :: jsnum where "DEFAULT_WORK_CAPACITY = Fin 1024"
definition DEFAULT_WORK_MAX_BYTES :: jsnum where "DEFAULT_WORK_MAX_BYTES = Fin (32 * 1024 * 1024)"

definition guard_value :: "(DispatchGuardOptions \<Rightarrow> jsnum option) \<Rightarrow> jsnum \<Rightarrow> DispatchGuardOptions option \<Rightarrow> jsnum" where
  "guard_value f dflt guards =
     (case guards of None \<Rightarrow> dflt | Some g \<Rightarrow> (case f g of None \<Rightarrow> dflt | Some x \<Rightarrow> x))"

definition attachDispatch :: "DispatchGuardOptions option \<Rightarrow> range_error + dispatcher" where
  "attachDispatch guards =
     rbind (new_work_queue (guard_value dg_workConcurrency DEFAULT_WORK_CONCURRENCY guards)
        (guard_value dg_workCapacity DEFAULT_WORK_CAPACITY guards) (guard_value dg_workMaxBytes DEFAULT_WORK_MAX_BYTES guards)) (\<lambda>q.
      Inr \<lparr>dp_guards = guards,
           dp_limiter = map_option (\<lambda>g. new_limiter (dg_rateBurst g) (dg_ratePerSecond g) None None) guards,
           dp_queue = q, dp_handled = {}\<rparr>)"

definition isOwnDurableTopic :: "jsstring \<Rightarrow> jsstring \<Rightarrow> bool" where
  "isOwnDurableTopic uid topic =
     (case parseDeviceTopic topic of
        Inl _ \<Rightarrow> False
      | Inr parsed \<Rightarrow> deviceUid parsed = uid \<and> (kind parsed = Event \<or> kind parsed = CmdResult \<or> kind parsed = OtaResult))"

definition oversized :: "dispatcher \<Rightarrow> bytes \<Rightarrow> bool" where
  "oversized D content = (case dp_guards D of None \<Rightarrow> False | Some g \<Rightarrow> length content > dg_maxPacketBytes g)"

definition consume :: "int \<Rightarrow> jsstring \<Rightarrow> nat \<Rightarrow> dispatcher \<Rightarrow> bool \<times> dispatcher" where
  "consume tm uid cost D =
     (case dp_limiter D of
        None \<Rightarrow> (True, D)
      | Some l \<Rightarrow> let (ok, l') = limiter_tryConsume uid (of_nat cost) tm l in (ok, D\<lparr>dp_limiter := Some l'\<rparr>))"

definition admit :: "jsstring \<Rightarrow> bytes \<Rightarrow> uplink_task \<Rightarrow> dispatcher \<Rightarrow> bool \<times> dispatcher" where
  "admit uid content task D =
     (let (ok, q) = enqueue_work \<lparr>uw_deviceUid = uid, uw_byteSize = length content, uw_run = task\<rparr> (dp_queue D) in
      (ok, D\<lparr>dp_queue := q\<rparr>))"

datatype publish_failure = Not_authorized publish_error | Rate_limit_reached | Work_limit_reached | Handler_failed uplink_error
datatype publish_reply = Reply_error publish_failure | Reply_ok | Reply_later

text \<open>The wrapper of \<^verbatim>\<open>authorizePublish\<close>; \<open>authorization\<close> is what the wrapped function of BrokerAccess answers.\<close>

definition gate_publish ::
    "int \<Rightarrow> publish_error + unit \<Rightarrow> jsstring option \<Rightarrow> uplink_packet \<Rightarrow> dispatcher \<Rightarrow> publish_reply \<times> dispatcher" where
  "gate_publish tm authorization client packet D =
     (let passed = (case authorization of Inl e \<Rightarrow> Reply_error (Not_authorized e) | Inr _ \<Rightarrow> Reply_ok) in
      case client of
        None \<Rightarrow> (passed, D)
      | Some uid \<Rightarrow>
          if isl authorization \<or> \<not> isOwnDurableTopic uid (pk_topic packet) then (passed, D)
          else
            let content = payload_bytes (pk_payload packet) in
            if oversized D content then (Reply_ok, D\<lparr>dp_handled := insert (pk_ref packet) (dp_handled D)\<rparr>)
            else case consume tm uid 1 D of
              (False, D') \<Rightarrow> (Reply_error Rate_limit_reached, D')
            | (True, D') \<Rightarrow>
                (case admit uid content (Durable_task packet) D' of
                   (False, D'') \<Rightarrow> (Reply_error Work_limit_reached, D'')
                 | (True, D'') \<Rightarrow> (Reply_later, D'')))"

definition parseRateLimitedLog :: "jsstring \<Rightarrow> bytes \<Rightarrow> (log_container_error + log_container) option" where
  "parseRateLimitedLog topic content =
     (if drop (length topic - 4) topic \<noteq> js ''/log'' then None else Some (parseLogContainer content))"

definition uplink_cost :: "(log_container_error + log_container) option \<Rightarrow> nat" where
  "uplink_cost parsedLog =
     (case parsedLog of
        Some (Inl _) \<Rightarrow> 1
      | Some (Inr c) \<Rightarrow> max 1 (length (elements c))
      | None \<Rightarrow> max 1 1)"

definition plain_log :: "uplink_packet \<Rightarrow> dispatcher \<Rightarrow> (log_container_error + log_container) option" where
  "plain_log packet D =
     (if dp_limiter D \<noteq> None then parseRateLimitedLog (pk_topic packet) (payload_bytes (pk_payload packet)) else None)"

datatype publish_note =
    Server_publish | Already_handled | Dropped_oversized | Dropped_rate | Dropped_work | Queued_uplink

text \<open>The listener of the \<^verbatim>\<open>publish\<close> event.\<close>

definition on_publish :: "int \<Rightarrow> jsstring option \<Rightarrow> uplink_packet \<Rightarrow> dispatcher \<Rightarrow> publish_note \<times> dispatcher" where
  "on_publish tm client packet D =
     (case client of
        None \<Rightarrow> (Server_publish, D)
      | Some uid \<Rightarrow>
          if pk_ref packet \<in> dp_handled D then (Already_handled, D\<lparr>dp_handled := dp_handled D - {pk_ref packet}\<rparr>)
          else
            let content = payload_bytes (pk_payload packet) in
            if oversized D content then (Dropped_oversized, D)
            else
              let parsedLog = plain_log packet D in
              case consume tm uid (uplink_cost parsedLog) D of
                (False, D') \<Rightarrow> (Dropped_rate, D')
              | (True, D') \<Rightarrow>
                  (case admit uid content (Plain_task packet parsedLog) D' of
                     (False, D'') \<Rightarrow> (Dropped_work, D'')
                   | (True, D'') \<Rightarrow> (Queued_uplink, D'')))"

text \<open>
  A handler that settles: its effect on the tables, the answer to the publisher when it is due, and the turn of the executor.
\<close>

definition run_task :: "uplink_env \<Rightarrow> jsstring \<Rightarrow> uplink_task \<Rightarrow> broker_db \<Rightarrow> device_cache \<Rightarrow> uplink_result" where
  "run_task env uid task b cache =
     (let p = task_packet task; content = payload_bytes (pk_payload p) in
      handleUplink env uid (pk_topic p) content (case task of Durable_task _ \<Rightarrow> None | Plain_task _ parsedLog \<Rightarrow> parsedLog) b cache)"

definition finish_task ::
    "uplink_env \<Rightarrow> jsstring \<times> nat \<times> uplink_task UplinkWork \<Rightarrow> dispatcher \<Rightarrow> broker_db \<Rightarrow> device_cache
       \<Rightarrow> publish_reply option \<times> dispatcher \<times> broker_db \<times> device_cache" where
  "finish_task env flight D b cache =
     (let (uid, _, work) = flight; task = uw_run work; (r, b', cache') = run_task env uid task b cache;
          D' = D\<lparr>dp_queue := settle_work flight (dp_queue D)\<rparr> in
      case task of
        Plain_task _ _ \<Rightarrow> (None, D', b', cache')
      | Durable_task p \<Rightarrow>
          (case r of
             Inr _ \<Rightarrow> (Some Reply_ok, D'\<lparr>dp_handled := insert (pk_ref p) (dp_handled D')\<rparr>, b', cache')
           | Inl e \<Rightarrow> (Some (Reply_error (Handler_failed e)), D', b', cache')))"

end
