(* ===== verification/DispatchProperties.thy ===== *)
theory DispatchProperties
  imports Dispatch EventProperties
begin

text \<open>
  Properties of the handlers of device messages: what an acknowledgement promises, and what a message can change.
\<close>

section \<open>Results of the handlers\<close>

lemma recordDeviceResult_kept:
  assumes "recordDeviceResult dec t uid r packet d = Inr (out, d')"
  shows "devices d' = devices d \<and> (\<exists>c \<in> set (device_commands d'). cid c = uuidFromBytes (rid r) \<and> cstate c = DeviceCompleted \<and>
     (\<exists>p. result_packet c = Some p \<and> (p = packet \<or> (\<exists>r'. dec p = Inr r' \<and> sameSemanticResult r' r))))"
  using assms
proof (cases rule: recordDeviceResult_Inr)
  case again
  then show ?thesis using find_command_Some [OF again(1)] by auto
next
  case (first c n d1)
  have c: "c \<in> set (device_commands d)" "cid c = uuidFromBytes (rid r)" using find_command_Some [OF first(1)] by simp_all
  then have "completed_row t (rcode r) packet c \<in> set (device_commands d')"
    using first(6,7) by (force simp: update_commands_Some notify_def)
  moreover have "devices d' = devices d" using first(6,7) by (auto simp: update_commands_Some notify_def)
  ultimately show ?thesis using c(2)
    by (auto simp: completed_row_def intro!: bexI [of _ "completed_row t (rcode r) packet c"])
qed









section \<open>What an acknowledgement promises\<close>











section \<open>What a message can change\<close>

text \<open>The copies of the tables that several components look at.\<close>

definition tables_agree :: "broker_db \<Rightarrow> bool" where
  "tables_agree b \<longleftrightarrow>
     map (\<lambda>v. (did v, device_uid v)) (o_devices (bd_ota b)) = map (\<lambda>v. (did v, device_uid v)) (devices (core_db (bd_plugin b))) \<and>
     map (\<lambda>v. (ld_id v, ld_uid v)) (db_devices (bd_log b)) = map (\<lambda>v. (did v, device_uid v)) (devices (core_db (bd_plugin b))) \<and>
     map (\<lambda>s. (fs_device s, fs_hash s)) (db_states (bd_log b)) = map (\<lambda>s. (sdevice s, sfw_hash s)) (fw_states (bd_ota b))"

definition broker_ok :: "broker_db \<Rightarrow> bool" where
  "broker_ok b \<longleftrightarrow> queue_inv (core_db (bd_plugin b)) \<and> ota_inv (bd_ota b) \<and> tables_agree b"

text \<open>A cached identifier is not the one of another device.\<close>

definition names :: "broker_db \<Rightarrow> (uuid \<times> jsstring) set" where
  "names b = (\<lambda>v. (did v, device_uid v)) ` set (devices (core_db (bd_plugin b)))"

definition cache_sound :: "broker_db \<Rightarrow> device_cache \<Rightarrow> bool" where
  "cache_sound b cache \<longleftrightarrow> (\<forall>u c u'. map_of cache u = Some c \<and> (cd_id c, u') \<in> names b \<longrightarrow> u' = u)"

text \<open>The rows of a device in all tables that uplinks write.\<close>

definition device_rows where
  "device_rows v b =
     (filter (\<lambda>c. device_id c = v) (device_commands (core_db (bd_plugin b))),
      filter (\<lambda>x. pe_device x = v) (plugin_events (bd_plugin b)),
      filter (\<lambda>x. tdevice x = v) (ota_targets (bd_ota b)),
      filter (\<lambda>s. sdevice s = v) (fw_states (bd_ota b)),
      filter (\<lambda>s. fs_device s = v) (db_states (bd_log b)),
      filter (\<lambda>x. re_device x = v) (db_events (bd_log b)))"

lemma filter_map_other:
  "(\<And>x. x \<in> set xs \<Longrightarrow> p x \<Longrightarrow> \<not> P x \<and> \<not> P (f x)) \<Longrightarrow> filter P (map (\<lambda>x. if p x then f x else x) xs) = filter P xs"
  by (induction xs) auto

lemma names_unique: "broker_ok b \<Longrightarrow> (v, u) \<in> names b \<Longrightarrow> (v, u') \<in> names b \<Longrightarrow> u' = u"
  by (auto simp: broker_ok_def names_def queue_inv_def distinct_map dest: inj_onD)

lemma names_ota: "broker_ok b \<Longrightarrow> v \<in> set (o_devices (bd_ota b)) \<Longrightarrow> (did v, device_uid v) \<in> names b"
  unfolding broker_ok_def tables_agree_def names_def by (metis (no_types, lifting) image_eqI list.set_map)

lemma names_log: "broker_ok b \<Longrightarrow> v \<in> set (db_devices (bd_log b)) \<Longrightarrow> (ld_id v, ld_uid v) \<in> names b"
  unfolding broker_ok_def tables_agree_def names_def by (metis (no_types, lifting) image_eqI list.set_map)

text \<open>What a handler may do for the device that sent the message.\<close>

definition confined :: "jsstring \<Rightarrow> broker_db \<Rightarrow> broker_db \<Rightarrow> bool" where
  "confined uid b b' \<longleftrightarrow> broker_ok b' \<and> names b' = names b \<and>
     (\<forall>v u. (v, u) \<in> names b \<and> u \<noteq> uid \<longrightarrow> device_rows v b' = device_rows v b)"

lemma confined_refl: "broker_ok b \<Longrightarrow> confined uid b b"
  by (simp add: confined_def)

lemma confined_trans: "confined uid b1 b2 \<Longrightarrow> confined uid b2 b3 \<Longrightarrow> confined uid b1 b3"
  unfolding confined_def by (metis (no_types, lifting))

lemma cache_sound_names: "names b' = names b \<Longrightarrow> cache_sound b' = cache_sound b"
  by (simp add: cache_sound_def fun_eq_iff)

lemma confined_cache: "confined uid b b' \<Longrightarrow> cache_sound b' = cache_sound b"
  by (rule cache_sound_names) (simp add: confined_def)

lemma resolve_sound:
  assumes "broker_ok b" and "cache_sound b cache" and "resolve env uid b cache = Some (r, cache')"
  shows "cache_sound b cache' \<and> (\<forall>v u. r = Some v \<and> (v, u) \<in> names b \<longrightarrow> u = uid)"
proof -
  have run: "resolveDeviceId (ue_time env) (bd_log b) uid cache = (r, cache')"
    using assms(3) by (auto simp: resolve_def Let_def split: if_splits option.splits)
  show ?thesis
  proof (cases "map_of cache uid \<noteq> None \<and> cd_expiresAt (the (map_of cache uid)) > ue_time env")
    case True
    with run assms(2) show ?thesis by (auto simp: resolveDeviceId_def cache_sound_def)
  next
    case miss: False
    show ?thesis
    proof (cases "find (\<lambda>v. ld_uid v = uid) (db_devices (bd_log b))")
      case None
      with miss run assms(2) show ?thesis by (auto simp: resolveDeviceId_def)
    next
      case (Some v)
      let ?cache = "AList.update uid \<lparr>cd_id = ld_id v, cd_expiresAt = ue_time env + DEVICE_CACHE_TTL_MS\<rparr> cache"
      have "resolveDeviceId (ue_time env) (bd_log b) uid cache = (Some (ld_id v), if length ?cache > 10000 then [] else ?cache)"
        by (simp only: resolveDeviceId_def Let_def miss if_False Some option.case)
      then have r: "r = Some (ld_id v)" "cache' = (if length ?cache > 10000 then [] else ?cache)"
        unfolding run by (simp_all only: prod.inject)
      have only: "u = uid" if "(ld_id v, u) \<in> names b" for u
        using names_unique [OF assms(1) _ that] names_log [OF assms(1)] find_Some_in [OF Some] by auto
      then have "cache_sound b ?cache" using assms(2) by (auto simp: cache_sound_def update_conv')
      moreover have "cache_sound b []" by (simp add: cache_sound_def)
      ultimately have "cache_sound b cache'" unfolding r(2) by (simp only: split: if_split) simp
      then show ?thesis using only by (simp add: r(1))
    qed
  qed
qed

lemma event_confined:
  assumes "broker_ok b" and "persistDeviceEvent env uid content b cache = (r, b', cache')"
  shows "confined uid b b' \<and> cache' = cache"
proof (cases "b' = b")
  case True
  then show ?thesis using assms confined_refl by (auto simp: persistDeviceEvent_def split: sum.splits if_splits)
next
  case False
  then obtain e status i d' where run: "ingestDeviceEvent (ue_newId env) (ue_time env) uid e content (bd_plugin b) = Inr ((status, i), d')"
      and b': "b' = b\<lparr>bd_plugin := d'\<rparr>" "cache' = cache"
    using assms(2) by (auto simp: persistDeviceEvent_def split: sum.splits if_splits)
  have core: "devices (core_db d') = devices (core_db (bd_plugin b))" "device_commands (core_db d') = device_commands (core_db (bd_plugin b))"
    using run by (auto simp: ingestDeviceEvent_def Let_def plugin_notify_def split: option.splits if_splits)
  then have "broker_ok b'" and names: "names b' = names b"
    using assms(1) inv_other by (auto simp: broker_ok_def tables_agree_def names_def b')
  moreover have "filter (\<lambda>x. pe_device x = v) (plugin_events d') = filter (\<lambda>x. pe_device x = v) (plugin_events (bd_plugin b))"
    if v: "(v, u) \<in> names b" "u \<noteq> uid" for v u
  proof -
    have "did dev \<noteq> v" if "find (\<lambda>x. device_uid x = uid) (devices (core_db (bd_plugin b))) = Some dev" for dev
      using names_unique [OF assms(1) v(1), of uid] v(2) find_Some_in [OF that] by (auto simp: names_def image_iff)
    then show ?thesis using ingest_Inr [OF run] by auto
  qed
  ultimately show ?thesis using core unfolding confined_def device_rows_def by (auto simp: b')
qed

lemma command_result_confined:
  assumes ok: "broker_ok b" and run: "handleCommandResult env uid content b cache = (r, b', cache')"
  shows "confined uid b b' \<and> cache' = cache"
proof (cases "b' = b")
  case True
  then show ?thesis using assms confined_refl
    by (auto simp: handleCommandResult_def split: sum.splits if_splits CommandQueueError.splits)
next
  case False
  then obtain x out d' where
      rec: "recordDeviceResult (decode_result env) (ue_time env) uid x content (core_db (bd_plugin b)) = Inr (out, d')"
      and b': "b' = b\<lparr>bd_plugin := (bd_plugin b)\<lparr>core_db := d'\<rparr>\<rparr>" "cache' = cache"
    using run by (auto simp: handleCommandResult_def split: sum.splits if_splits CommandQueueError.splits)
  let ?d = "core_db (bd_plugin b)"
  have inv: "queue_inv ?d" using ok by (simp add: broker_ok_def)
  then have "queue_inv d'" using recordDeviceResult_sound [OF rec] by (simp add: sound_def)
  moreover have devs: "devices d' = devices ?d" using recordDeviceResult_kept [OF rec] by simp
  ultimately have "broker_ok b'" and "names b' = names b"
    using ok by (auto simp: broker_ok_def tables_agree_def names_def b')
  moreover have "filter (\<lambda>c. device_id c = v) (device_commands d') = filter (\<lambda>c. device_id c = v) (device_commands ?d)"
    if v: "(v, u) \<in> names b" "u \<noteq> uid" for v u
    using rec
  proof (cases rule: recordDeviceResult_Inr)
    case (first c n d1)
    obtain dev where dev: "find_device (device_id c) ?d = Some dev" "device_uid dev = uid" using first(5) by blast
    then have "(device_id c, uid) \<in> names b"
      by (auto simp: names_def find_device_def image_iff dest!: find_Some_in intro!: bexI [of _ dev])
    then have "device_id c \<noteq> v" using names_unique [OF ok v(1), of uid] v(2) by auto
    then have other: "device_id y \<noteq> v" if "y \<in> set (device_commands ?d)" "cid y = uuidFromBytes (rid x)" for y
      using cid_inject [OF inv that(1)] find_command_Some [OF first(1)] that(2) by metis
    have rows: "device_commands d' = map (\<lambda>y. if cid y = uuidFromBytes (rid x)
        then completed_row (ue_time env) (rcode x) content y else y) (device_commands ?d)"
      using first(6,7) by (simp add: update_commands_Some notify_def)
    show ?thesis unfolding rows by (rule filter_map_other) (simp add: other completed_row_def)
  qed simp
  ultimately show ?thesis unfolding confined_def device_rows_def by (auto simp: b')
qed

text \<open>Reports and confirmations move targets of the device only.\<close>

lemma targets_confined:
  assumes ok: "broker_ok b" and good: "ota_inv d'" and same: "d' = (bd_ota b)\<lparr>ota_targets := map (\<lambda>x. if p x then f x else x) (ota_targets (bd_ota b))\<rparr>"
    and own: "\<And>x v u. x \<in> set (ota_targets (bd_ota b)) \<Longrightarrow> p x \<Longrightarrow> (tdevice x, u) \<in> names b \<Longrightarrow> u = uid"
    and keep: "\<And>x. tdevice (f x) = tdevice x"
  shows "confined uid b (b\<lparr>bd_ota := d'\<rparr>)"
proof -
  have "broker_ok (b\<lparr>bd_ota := d'\<rparr>)" and "names (b\<lparr>bd_ota := d'\<rparr>) = names b"
    using ok good by (simp_all add: broker_ok_def tables_agree_def names_def) (simp_all add: same)
  moreover have "filter (\<lambda>x. tdevice x = v) (ota_targets d') = filter (\<lambda>x. tdevice x = v) (ota_targets (bd_ota b))"
    if "(v, u) \<in> names b" "u \<noteq> uid" for v u
    unfolding same using own that keep by (auto intro!: filter_map_other)
  ultimately show ?thesis unfolding confined_def device_rows_def by (auto simp: same)
qed

lemma recordOtaResult_moves:
  assumes rec: "recordOtaResult t i d = Inr (n, d')" and moved: "d' \<noteq> d"
  obtains dev target S f where "device_by_uid (ro_deviceUid i) d = Some dev" and "target \<in> set (ota_targets d)" and "tdevice target = did dev"
    and "update_targets (\<lambda>x. tid x = tid target \<and> tstate x \<in> S) f d = Inr (n, d')" and "\<And>y. tdevice (f y) = tdevice y"
proof -
  obtain dev where dev: "device_by_uid (ro_deviceUid i) d = Some dev"
    using assms by (auto simp: recordOtaResult_def split: option.splits)
  obtain target where target: "find (\<lambda>x. tjob x = ro_jobId i \<and> tdevice x = did dev) (ota_targets d) = Some target"
      and matched: "map_option jrelease (find_job (tjob target) d) = Some (ro_releaseId i)"
    using assms by (auto simp: recordOtaResult_def dev split: option.splits if_splits)
  have own: "target \<in> set (ota_targets d)" "tdevice target = did dev" using find_Some_in [OF target] by simp_all
  note rule = that [OF dev own]
  note def = recordOtaResult_def dev target matched option.case
  show ?thesis
  proof (cases "ro_state i")
    case AckFailed
    from rec show ?thesis unfolding def by (simp add: AckFailed) (erule rule, simp)
  next
    case AckInstalled
    from rec have "update_targets (\<lambda>x. tid x = tid target \<and> tstate x \<in> {ODelivered, ODelivering, ODownloaded})
        (\<lambda>x. x\<lparr>tstate := OInstalled, tinstalled_at := Some t\<rparr>) d = Inr (n, d')" unfolding def by (simp add: AckInstalled)
    then show ?thesis by (rule rule) simp
  next
    case AckDownloaded
    from rec have "update_targets (\<lambda>x. tid x = tid target \<and> tstate x \<in> {ODelivered, ODelivering})
        (\<lambda>x. x\<lparr>tstate := ODownloaded\<rparr>) d = Inr (n, d')" unfolding def by (simp add: AckDownloaded)
    then show ?thesis by (rule rule) simp
  qed
qed

lemma ota_result_confined:
  assumes ok: "broker_ok b" and run: "handleOtaResult env uid content b cache = (r, b', cache')"
  shows "confined uid b b' \<and> cache' = cache"
proof (cases "b' = b")
  case True
  then show ?thesis using assms confined_refl by (auto simp: handleOtaResult_def split: sum.splits if_splits)
next
  case False
  then obtain x n d' where rec: "recordOtaResult (ue_time env) (ota_result_input uid x) (bd_ota b) = Inr (n, d')"
      and b': "b' = b\<lparr>bd_ota := d'\<rparr>" "cache' = cache"
    using run by (auto simp: handleOtaResult_def split: sum.splits if_splits)
  have inv: "ota_inv (bd_ota b)" using ok by (simp add: broker_ok_def)
  then have good: "ota_inv d'" using deploy_step_good [OF deploy_step.result [OF rec]] by (simp add: good_def)
  have "d' \<noteq> bd_ota b" using False b'(1) by auto
  then obtain dev target S f where dev: "device_by_uid uid (bd_ota b) = Some dev"
      and target: "target \<in> set (ota_targets (bd_ota b))" "tdevice target = did dev"
      and up: "update_targets (\<lambda>y. tid y = tid target \<and> tstate y \<in> S) f (bd_ota b) = Inr (n, d')"
      and f: "\<And>y. tdevice (f y) = tdevice y"
    by (rule recordOtaResult_moves [OF rec]) (simp_all add: ota_result_input_def)
  let ?q = "\<lambda>y. tid y = tid target \<and> tstate y \<in> S"
  have d': "d' = (bd_ota b)\<lparr>ota_targets := map (\<lambda>y. if ?q y then f y else y) (ota_targets (bd_ota b))\<rparr>"
    using up by (simp add: update_targets_Inr)
  have own: "u = uid" if "y \<in> set (ota_targets (bd_ota b))" "?q y" "(tdevice y, u) \<in> names b" for y u
  proof -
    have "y = target" using inv target(1) that(1,2) by (auto simp: ota_inv_def targets_ok_def distinct_map dest: inj_onD)
    moreover have "(did dev, uid) \<in> names b"
      using names_ota [OF ok] dev by (auto simp: device_by_uid_def dest!: find_Some_in)
    ultimately show ?thesis using names_unique [OF ok] that(3) target(2) by metis
  qed
  show ?thesis using targets_confined [OF ok good d' own f] b' by simp
qed

lemma upsert_fw_state_pairs:
  assumes "map (\<lambda>s. (fs_device s, fs_hash s)) ls = map (\<lambda>s. (sdevice s, sfw_hash s)) os"
  shows "map (\<lambda>s. (fs_device s, fs_hash s)) (map (\<lambda>s. if fs_device s = v then s\<lparr>fs_hash := h\<rparr> else s) ls) =
    map (\<lambda>s. (sdevice s, sfw_hash s)) (map (\<lambda>s. if sdevice s = v then s\<lparr>sfw_hash := h, sreported_at := t\<rparr> else s) os)"
  using assms
proof (induction ls arbitrary: os)
  case (Cons l ls)
  then show ?case by (cases os) auto
qed simp

lemma upsert_confined:
  assumes ok: "broker_ok b" and up: "upsert_fw_state t dev h b = Some b'" and own: "\<And>u. (dev, u) \<in> names b \<Longrightarrow> u = uid"
  shows "confined uid b b'"
proof -
  let ?os = "fw_states (bd_ota b)" and ?ls = "db_states (bd_log b)"
  obtain os ls where b': "b' = b\<lparr>bd_ota := (bd_ota b)\<lparr>fw_states := os\<rparr>, bd_log := (bd_log b)\<lparr>db_states := ls\<rparr>\<rparr>"
      and rows: "os = map (\<lambda>s. if sdevice s = dev then s\<lparr>sfw_hash := h, sreported_at := t\<rparr> else s) ?os \<and>
                 ls = map (\<lambda>s. if fs_device s = dev then s\<lparr>fs_hash := h\<rparr> else s) ?ls \<or>
               os = ?os @ [\<lparr>sdevice = dev, sfw_hash = h, sreported_at = t\<rparr>] \<and> ls = ?ls @ [\<lparr>fs_device = dev, fs_hash = h\<rparr>]"
    using up by (auto simp: upsert_fw_state_def Let_def split: if_splits)
  have agree: "map (\<lambda>s. (fs_device s, fs_hash s)) ?ls = map (\<lambda>s. (sdevice s, sfw_hash s)) ?os"
    using ok by (simp add: broker_ok_def tables_agree_def)
  have "map (\<lambda>s. (fs_device s, fs_hash s)) ls = map (\<lambda>s. (sdevice s, sfw_hash s)) os"
    using rows agree upsert_fw_state_pairs [OF agree, of dev h t] by auto
  moreover have "ota_inv (bd_ota b')"
    using ok deploy_step_good [OF deploy_step.report] by (simp add: broker_ok_def b' good_def)
  ultimately have "broker_ok b'" "names b' = names b" using ok by (simp_all add: broker_ok_def tables_agree_def names_def b')
  moreover have "filter (\<lambda>s. sdevice s = v) os = filter (\<lambda>s. sdevice s = v) ?os \<and> filter (\<lambda>s. fs_device s = v) ls = filter (\<lambda>s. fs_device s = v) ?ls"
    if "(v, u) \<in> names b" "u \<noteq> uid" for v u
  proof -
    have "v \<noteq> dev" using own that by auto
    then show ?thesis using rows by (auto intro!: filter_map_other)
  qed
  ultimately show ?thesis unfolding confined_def device_rows_def by (auto simp: b')
qed

lemma confirm_confined:
  assumes ok: "broker_ok b" and run: "confirmOtaTargetByFirmware t dev h (bd_ota b) = Inr (n, d')"
    and own: "\<And>u. (dev, u) \<in> names b \<Longrightarrow> u = uid"
  shows "confined uid b (b\<lparr>bd_ota := d'\<rparr>)"
proof -
  have good: "ota_inv d'" using ok deploy_step_good [OF deploy_step.confirm [OF run]] by (simp add: broker_ok_def good_def)
  have d': "d' = (bd_ota b)\<lparr>ota_targets := map (\<lambda>x. if tdevice x = dev \<and>
         tstate x \<in> {ODelivered, ODelivering, ODownloaded, OInstalled} \<and> job_matches (bd_ota b) (tjob x) h then completed_target t x else x)
       (ota_targets (bd_ota b))\<rparr>"
    using run by (simp add: confirmOtaTargetByFirmware_def update_targets_Inr)
  show ?thesis
    by (rule targets_confined [OF ok good d']) (use own in \<open>auto simp: completed_target_def\<close>)
qed

lemma stat_confined:
  assumes ok: "broker_ok b" and cache: "cache_sound b cache" and run: "handleStat env uid content b cache = (r, b', cache')"
  shows "confined uid b b' \<and> cache_sound b cache'"
proof (cases "resolve env uid b cache")
  case None
  then show ?thesis using run cache confined_refl [OF ok] by (auto simp: handleStat_def Let_def split: sum.splits)
next
  case (Some p)
  obtain found c where p: "p = (found, c)" by (cases p)
  have sound: "cache_sound b c" and own: "\<And>v u. found = Some v \<Longrightarrow> (v, u) \<in> names b \<Longrightarrow> u = uid"
    using resolve_sound [OF ok cache] Some p by auto
  have upd: "confined uid b b1" if "(if stat_needs_write (ue_time env) v h (bd_ota b) then upsert_fw_state (ue_time env) v h b else Some b) = Some b1"
      "found = Some v" for v h b1
    using that upsert_confined [OF ok _ own] confined_refl [OF ok] by (auto split: if_splits)
  have conf: "confined uid b (b1\<lparr>bd_ota := d'\<rparr>)"
    if "confined uid b b1" "found = Some v" "confirmOtaTargetByFirmware (ue_time env) v h (bd_ota b1) = Inr (n, d')" for v h b1 n d'
    by (rule confined_trans [OF that(1)], rule confirm_confined [OF _ that(3)]) (use that(1,2) own in \<open>auto simp: confined_def\<close>)
  show ?thesis
  proof (cases "b' = b")
    case True
    then show ?thesis using run cache sound confined_refl [OF ok]
      by (auto simp: handleStat_def Let_def Some p split: sum.splits option.splits if_splits)
  next
    case False
    then obtain v h b1 where v: "found = Some v"
        and b1: "(if stat_needs_write (ue_time env) v h (bd_ota b) then upsert_fw_state (ue_time env) v h b else Some b) = Some b1"
        and last: "cache' = c" "b' = b1 \<or> (\<exists>n d'. confirmOtaTargetByFirmware (ue_time env) v h (bd_ota b1) = Inr (n, d') \<and> b' = b1\<lparr>bd_ota := d'\<rparr>)"
      using run by (fastforce simp: handleStat_def Let_def Some p split: sum.splits option.splits prod.splits if_split_asm)
    then show ?thesis using upd [OF b1 v] conf [OF upd [OF b1 v] v] sound by blast
  qed
qed

lemma ingest_bundle_rows:
  assumes "ingestLogBundle id dev es d = (r, d')"
  shows "db_devices d' = db_devices d \<and> db_states d' = db_states d \<and>
    (\<exists>new. db_events d' = db_events d @ new \<and> (\<forall>x \<in> set new. re_device x = dev))"
proof -
  have "re_device (row k) = dev" if "row \<in> set (map (\<lambda>(element, h). log_event_row dev art element h) rows)" for row k art rows
    using that by (auto simp: log_event_row_def Let_def)
  then have new: "re_device x = dev"
    if "x \<in> set (map (\<lambda>(n, row). row (k + n)) (List.enumerate 0 (map (\<lambda>(element, h). log_event_row dev art element h) rows)))" for x k art rows
    using that by (auto dest!: in_set_enumerate_eq [THEN iffD1] simp: log_event_row_def Let_def split: prod.splits)
  with assms show ?thesis
    by (auto simp: ingestLogBundle_def insert_events_def Let_def split: prod.splits if_splits simp del: set_map)
qed

lemma log_confined:
  assumes ok: "broker_ok b" and cache: "cache_sound b cache" and run: "handleLog env uid content parsedLog b cache = (r, b', cache')"
  shows "confined uid b b' \<and> cache_sound b cache'"
proof (cases "resolve env uid b cache")
  case None
  then show ?thesis using run cache confined_refl [OF ok] by (auto simp: handleLog_def)
next
  case (Some p)
  obtain found c where p: "p = (found, c)" by (cases p)
  have sound: "cache_sound b c" and own: "\<And>v u. found = Some v \<Longrightarrow> (v, u) \<in> names b \<Longrightarrow> u = uid"
    using resolve_sound [OF ok cache] Some p by auto
  show ?thesis
  proof (cases "b' = b")
    case True
    then show ?thesis using run sound confined_refl [OF ok]
      by (auto simp: handleLog_def Some p split: sum.splits option.splits prod.splits if_splits)
  next
    case False
    then obtain v es r1 d' where v: "found = Some v" and ing: "ingestLogBundle id v es (bd_log b) = (r1, d')"
        and b': "b' = b\<lparr>bd_log := d'\<rparr>" "cache' = c"
      using run by (auto simp: handleLog_def Some p split: sum.splits option.splits prod.splits if_splits)
    obtain new where rows: "db_devices d' = db_devices (bd_log b)" "db_states d' = db_states (bd_log b)"
        "db_events d' = db_events (bd_log b) @ new" "\<forall>x \<in> set new. re_device x = v"
      using ingest_bundle_rows [OF ing] by blast
    have "filter (\<lambda>x. re_device x = w) new = []" if "(w, u) \<in> names b" "u \<noteq> uid" for w u
      using own [OF v] that rows(4) by (auto simp: filter_empty_conv)
    moreover have "broker_ok b'" "names b' = names b"
      using ok rows by (simp_all add: broker_ok_def tables_agree_def names_def b')
    ultimately show ?thesis using rows sound unfolding confined_def device_rows_def by (auto simp: b')
  qed
qed

text \<open>
  C9. A device can only touch its own rows: whatever an authenticated device sends, on whatever topic, the commands, events, targets,
  firmware states and log events of every other device stay as they are, the tables keep their invariants and their common parts stay
  equal, and the cache keeps naming devices correctly; a topic that is unknown or names another device changes nothing.\<close>

theorem uplink_confined_to_sender:
  assumes "broker_ok b" and "cache_sound b cache"
    and "handleUplink env uid topicName content parsedLog b cache = (r, b', cache')"
  shows "broker_ok b' \<and> cache_sound b' cache' \<and> names b' = names b \<and>
    (\<forall>v \<in> set (devices (core_db (bd_plugin b))). device_uid v \<noteq> uid \<longrightarrow> device_rows (did v) b' = device_rows (did v) b) \<and>
    ((\<forall>topic. parseDeviceTopic topicName = Inr topic \<longrightarrow> deviceUid topic \<noteq> uid) \<longrightarrow> b' = b)"
proof -
  have *: "confined uid b b' \<and> cache_sound b cache'"
  proof (cases "parseDeviceTopic topicName")
    case Inl
    then show ?thesis using assms confined_refl by (auto simp: handleUplink_def)
  next
    case (Inr topic)
    show ?thesis
    proof (cases "deviceUid topic = uid")
      case False
      then show ?thesis using assms confined_refl Inr by (auto simp: handleUplink_def)
    next
      case True
      note dispatched = assms(3) [unfolded handleUplink_def Inr sum.case]
      show ?thesis
      proof (cases "kind topic")
        case CmdResult
        then have "handleCommandResult env uid content b cache = (r, b', cache')" using dispatched True by simp
        from command_result_confined [OF assms(1) this] show ?thesis using assms(2) by simp
      next
        case OtaResult
        then have "handleOtaResult env uid content b cache = (r, b', cache')" using dispatched True by simp
        from ota_result_confined [OF assms(1) this] show ?thesis using assms(2) by simp
      next
        case Event
        then have "persistDeviceEvent env uid content b cache = (r, b', cache')" using dispatched True by simp
        from event_confined [OF assms(1) this] show ?thesis using assms(2) by simp
      next
        case Stat
        then have "handleStat env uid content b cache = (r, b', cache')" using dispatched True by simp
        from stat_confined [OF assms(1,2) this] show ?thesis using assms(2) by simp
      next
        case Log
        then have "handleLog env uid content parsedLog b cache = (r, b', cache')" using dispatched True by simp
        from log_confined [OF assms(1,2) this] show ?thesis using assms(2) by simp
      qed
    qed
  qed
  moreover have "(\<forall>topic. parseDeviceTopic topicName = Inr topic \<longrightarrow> deviceUid topic \<noteq> uid) \<longrightarrow> b' = b"
    using assms(3) by (auto simp: handleUplink_def split: sum.splits if_splits)
  moreover have "(did v, device_uid v) \<in> names b" if "v \<in> set (devices (core_db (bd_plugin b)))" for v
    using that by (auto simp: names_def)
  moreover have "broker_ok b'" "names b' = names b" "\<And>v u. (v, u) \<in> names b \<Longrightarrow> u \<noteq> uid \<Longrightarrow> device_rows v b' = device_rows v b"
    using * by (auto simp: confined_def)
  moreover have "cache_sound b' cache'" using * confined_cache by metis
  ultimately show ?thesis by blast
qed

section \<open>Examples\<close>

text \<open>Two devices; the first one, with the identifier \<open>e\<close>, sends an event.\<close>

definition ex_devices :: "device list" where
  "ex_devices = map (\<lambda>v. v\<lparr>next_command_sequence := 1\<rparr>) (devices ex_core)"

definition ex_broker :: broker_db where
  "ex_broker = \<lparr>bd_plugin = ex_pdb\<lparr>core_db := ex_core\<lparr>devices := ex_devices\<rparr>\<rparr>,
     bd_ota = \<lparr>o_devices = ex_devices, releases = [], artifacts = [], fw_states = [], ota_jobs = [], ota_targets = [],
       rollouts = [], phases = [], pool = [], o_notifications = []\<rparr>,
     bd_log = \<lparr>db_artifacts = [], db_strings = [], db_releases = [],
       db_devices = map (\<lambda>v. \<lparr>ld_id = did v, ld_uid = device_uid v, ld_project = dproject_id v\<rparr>) ex_devices,
       db_states = [], db_events = [], db_next_event = 1\<rparr>\<rparr>"

definition ex_event_uplink :: uplink_packet where
  "ex_event_uplink = \<lparr>pk_ref = 1, pk_topic = js ''soulcloud/v1/devices/e/event'', pk_payload = Data_payload [0xc0]\<rparr>"

definition ex_uplink_env :: uplink_env where
  "ex_uplink_env = \<lparr>ue_decode = (\<lambda>_. Some (event_value ex_event)), ue_resultSchema = (\<lambda>_. None), ue_time = 0, ue_newId = [11], ue_up = True\<rparr>"



lemma ex_broker_ok: "broker_ok ex_broker"
  by (simp add: broker_ok_def ex_broker_def tables_agree_def ex_pdb_def ex_core_def ex_devices_def queue_inv_def commands_unique_def
      in_order_def ota_inv_def targets_ok_def catalog_ok_def)



definition ex_kept :: broker_db where
  "ex_kept = fst (snd (handleUplink ex_uplink_env [101] (pk_topic ex_event_uplink) [0xc0] None ex_broker []))"

lemma ex_handled: "handleUplink ex_uplink_env [101] (pk_topic ex_event_uplink) [0xc0] None ex_broker [] = (Inr (Event_stored EvInserted), ex_kept, [])"
proof -
  have "map_prod id snd (handleUplink ex_uplink_env [101] (pk_topic ex_event_uplink) [0xc0] None ex_broker []) = (Inr (Event_stored EvInserted), [])"
    unfolding ex_uplink_env_def ex_event_uplink_def ex_broker_def by code_simp
  then show ?thesis by (simp add: ex_kept_def prod_eq_iff)
qed



text \<open>The event of the first device leaves the rows of the second one as they were.\<close>

theorem uplink_confined_to_sender_witness: "broker_ok ex_kept \<and> device_rows [2] ex_kept = device_rows [2] ex_broker"
proof -
  have "cache_sound ex_broker []" by (simp add: cache_sound_def)
  moreover have "\<exists>v \<in> set (devices (core_db (bd_plugin ex_broker))). did v = [2] \<and> device_uid v \<noteq> [101]"
    by (simp add: ex_broker_def ex_devices_def ex_core_def)
  ultimately show ?thesis using uplink_confined_to_sender [OF ex_broker_ok _ ex_handled] by metis
qed

end
