(* ===== verification/Spec2Isabelle.thy ===== *)
theory Spec2Isabelle
  imports QueueProperties QueueDelivery DebugProperties LogContainer On9logPacket
    OtaProperties RolloutPlan RolloutProperties SessionProperties PluginUiSessions RateLimit CircuitBreaker
    EventProperties EntityProperties PlatformProperties SdkProperties DeviceCodecs
    OperationTable ElfStrings RenderProperties LogProperties
    BrokerSessions BrokerPollers DispatchProperties
begin

text \<open>
  \<^bold>\<open>Verification of the Soulcloud platform core.\<close>

  Soulcloud connects fleets of embedded devices to a server platform: a broker process speaks MQTT with the devices, an
  API process serves users, a plugin manager runs third-party plugins. The processes share no memory; they meet in one PostgreSQL database,
  through the operations of the package \<^verbatim>\<open>core\<close> (\<^verbatim>\<open>src/packages/core/src\<close>). The development models those operations and the broker process around the MQTT library:
  what a device may send (topics, MessagePack, log packets), how its logs are stored, decoded through the firmware image and rendered, the durable command queue, debug executions, over-the-air
  updates and their staged rollouts, the broker's sessions, access control, pollers and handling of device messages, sessions of users and of plugin user interfaces, rate limits, the circuit breaker and the operation table of the plugin manager, and the plugin
  platform: manifests, installations, bindings, events and entities.

  \<^bold>\<open>How the code is rendered.\<close> JavaScript strings are lists of UTF-16 code units (\<open>jsstring\<close>), buffers are lists of 8-bit words,
  bigints and safe integers are \<open>int\<close> or \<open>nat\<close>, doubles are rationals rounded after every operation (\<open>fl\<close> of theory Doubles). Every raise and
  early return is a value: functions return a sum type with an error datatype of the component on the left. A
  table is a list of records, a row is a record, and the CHECK, UNIQUE and FOREIGN KEY constraints that the
  migrations declare are part of every INSERT and UPDATE, so an operation can fail as it fails in the database. A
  transaction is a function from state to state; the steps of a system are whole transactions of any process in any order,
  with the clock reading, random draws, fresh identifiers and the rows that other transactions hold locked (\<^verbatim>\<open>SKIP LOCKED\<close>) as arguments. Where
  the code splits a handler into several statements and the outcome depends on what runs between them, the statements are separate steps or take the state they
  read as an argument (advance, pause and resume of rollouts; rotation of refresh tokens). Third-party code (the MessagePack codec, the
  schema validator, the JWT library, hash and random functions) is an argument of the definitions that call it.

  \<^bold>\<open>Theories and sources.\<close>

  \<^item> Prelude: strings, results (\<open>rbind\<close>, \<open>ensure\<close>), windows of byte buffers, big- and little-endian integers, and the interfaces
    shared by the components, as locales: \<open>fixed_reader\<close> and \<open>codec\<close> (byte readers and the encodings they invert), \<open>guarded_system\<close>,
    \<open>progressing_system\<close> and \<open>refining_system\<close> (step relations with an invariant, with a preorder that steps move up, with an abstraction).
  \<^item> Topic (\<^verbatim>\<open>protocol/topic.ts\<close>): \<open>parseDeviceTopic\<close> accepts exactly the topics of valid devices and rejects those the platform publishes.
  \<^item> Utf8, MsgStructure (\<^verbatim>\<open>protocol/structure.ts\<close>): the structural validator of MessagePack with its depth bound, key rules and
    cursor; it accepts exactly one complete value of a grammar stated independently of the cursor.
  \<^item> LogContainer (\<^verbatim>\<open>logging/container.ts\<close>): splitting of log uploads; accounting, round trip, agreement of the skipper with the validator.
  \<^item> On9logPacket (\<^verbatim>\<open>on9log/packet.ts\<close>): the packet decoder as the exact inverse of an encoder; sequence and time arithmetic modulo \<open>2 ^ 16\<close> and \<open>2 ^ 32\<close>.
  \<^item> Identifiers, Schema: identifier texts, the tables of the queue and their constraints.
  \<^item> CommandCodec (\<^verbatim>\<open>protocol/command.ts\<close>, comparison in \<^verbatim>\<open>queue/result.ts\<close>): decoded values and their semantic equality, exact within the safe integers and not transitive beyond.
  \<^item> CommandQueue, QueueSystem, QueueProperties, QueueDelivery (\<^verbatim>\<open>queue/*.ts\<close>): enqueue, lease, acknowledge, release, result, expiry; the invariant of the tables, in-order delivery,
    gapless numbering of the commands of a device, finality, idempotence of results, availability of leases, equivalence of the batched expiry with one statement.
  \<^item> DebugExecutions, DebugProperties (\<^verbatim>\<open>plugins/executions.ts\<close>, \<^verbatim>\<open>plugins/execution-commands.ts\<close>): capabilities of debug sessions; who may enqueue, idempotence, the invariant of executions.
  \<^item> Doubles: rounding to binary64 and its error bounds.
  \<^item> OtaDeploy, OtaTargets, OtaSystem, OtaProperties (\<^verbatim>\<open>ota/deploy.ts\<close>): jobs and targets; refinement of a five-stage delivery machine, finality,
    acceptance by the constraints, confirmation by firmware hash, leases, batched expiry (locale \<open>batch_loop\<close>).
  \<^item> OtaRollout, RolloutPlan, RolloutOrder, RolloutSystem, RolloutProperties (\<^verbatim>\<open>ota/rollout.ts\<close>): planning (locale \<open>pool_coverage\<close>), phases in order, slices of the pool, the success gate, and the races of pause and resume with the advance pass.
  \<^item> SessionTokens, SessionProperties (\<^verbatim>\<open>auth/tokens.ts\<close>): access tokens and rotating refresh tokens; a state of a run is the history of the database, because a rotation acts on a row it read earlier. Single use,
    one live token per login, reuse detection and the interleaving that escapes it.
  \<^item> PluginUiSessions (\<^verbatim>\<open>auth/plugin-ui-session.ts\<close>): session tokens, one-time grants, the separation of the three token classes.
  \<^item> RateLimit (\<^verbatim>\<open>queue/rate-limit.ts\<close>): token buckets with their rounding errors, the bounded device table.
  \<^item> CircuitBreaker (\<^verbatim>\<open>plugin-manager/src/manager/circuit.ts\<close>).
  \<^item> OperationTable (\<^verbatim>\<open>plugin-manager/src/manager/operations.ts\<close>): running operations as shared mutable objects in a store, the reverse calls
    that hold them, exact counters, sealing.
  \<^item> ElfParser, ElfStrings (\<^verbatim>\<open>elf/parser.ts\<close>): the parser agrees with a field-by-field description of the format, extraction with the runs of
    non-zero bytes, lookup with extraction.
  \<^item> JsNumbers, Renderer, RenderProperties (\<^verbatim>\<open>on9log/render.ts\<close>): the number conversions of JavaScript on exact rationals; printf and fmt
    directives; the arguments a format takes, bounded output, which integers are shown exactly.
  \<^item> LogStore, LogProperties (\<^verbatim>\<open>logging/artifact.ts\<close>, \<^verbatim>\<open>logging/ingest.ts\<close>, \<^verbatim>\<open>logging/decode.ts\<close>, \<^verbatim>\<open>ota/release.ts\<close>): import of
    dictionaries, ingestion, decoding and releases; the way from the image to the message, idempotence, agreement of batch and single paths (the batched decoder over runs of a process with its cache of dictionaries), and the
    messages that are lost.
  \<^item> Base64, PluginEntities (\<^verbatim>\<open>plugins/entities.ts\<close>), PluginInstallations (\<^verbatim>\<open>plugins/installations.ts\<close>), PluginEvents (\<^verbatim>\<open>plugins/events.ts\<close>, \<^verbatim>\<open>protocol/event.ts\<close>):
    the tables of the plugin platform on top of the core tables and every transaction on them. The rows of a batch travel as one jsonb text;
    \<open>row_storable\<close> says which of them PostgreSQL accepts.
  \<^item> SdkValidation, SdkProperties (\<^verbatim>\<open>plugin-sdk/src/validation.ts\<close>, the handshake of \<^verbatim>\<open>plugin-manager/src/manager.ts\<close>): manifests, action inputs and entity updates as plugins and
    platform check them; accepted inputs are the well-typed ones.
  \<^item> EventProperties: the event queue as a system of transactions; events are completed once, lost leases stay lost, repeated events are recognised.
  \<^item> EntityProperties: the table of current values refines a map; sequence numbers only grow and late batches change nothing; the registry of descriptor
    revisions and the system of all operations on it with its invariant.
  \<^item> PlatformProperties: the parts together. A batch checked against the manifest is accepted by the transaction unless the database cannot store one of its texts or times, written values are read back, revisions are never lost.
  \<^item> DeviceCodecs (\<^verbatim>\<open>protocol/stat.ts\<close>, \<^verbatim>\<open>protocol/ota-result.ts\<close>): schemas of device reports, round trips relative to the MessagePack codec.
  \<^item> UplinkQueue (\<^verbatim>\<open>class UplinkWorkQueue\<close> of \<^verbatim>\<open>broker/src/mqtt/dispatch.ts\<close>): the executor of device messages with its arrays as objects; retained work is
    bounded, one handler per device in the order of admission, no device is forgotten or waits without end.
  \<^item> BrokerSessions (\<^verbatim>\<open>broker/src/mqtt/connection-registry.ts\<close>, \<^verbatim>\<open>broker/src/mqtt/status.ts\<close>): the registry of live sessions and their
    subscriptions against a description by the last events, and the deferred offline notification.
  \<^item> BrokerAccess (\<^verbatim>\<open>broker/src/mqtt/broker.ts\<close>, \<^verbatim>\<open>core/src/security/password.ts\<close>): the semaphore in front of the password hash, the decision on a connection,
    and which topics a device may publish on and subscribe to.
  \<^item> BrokerPollers (\<^verbatim>\<open>broker/src/mqtt/publish.ts\<close>, \<^verbatim>\<open>broker/src/mqtt/ota-publish.ts\<close>): a cycle of each poller as a run of the queue
    or of the update system with other processes in between (locale \<open>drain_cycle\<close>), the settlement of a lease, wake-ups and cycles.
  \<^item> Dispatch, DispatchProperties (\<^verbatim>\<open>broker/src/mqtt/dispatch.ts\<close>): gates and handlers of device messages on the tables of all components;
    what an acknowledgement promises, and that a message changes rows of its sender only.

  \<^bold>\<open>Bounds and termination.\<close> No definition takes fuel. Recursive parsers recurse on the depth the code bounds (\<open>MAX_STRUCTURE_DEPTH\<close>, \<open>MAX_SKIP_DEPTH\<close>) and on
  the declared number of elements. The loops over files and formats (ElfParser, ElfStrings, Renderer) are measured by what is left to read. The batched loops (expiry, stalls) are recursive functions whose measure is the number of rows still due. Column
  limits (\<open>INT4_MAX\<close>, \<open>INT8_MAX\<close>) are kept where arithmetic can reach them.

  \<^bold>\<open>Not modelled.\<close> Column lengths of texts; isolation anomalies other than the ones described above (a transaction is atomic unless a theory
  says otherwise); overflow of doubles to infinity; the contents of the schemas that are only data; the MQTT library itself, the API process around the core (HTTP routing, sockets, streams, web console),
  the RPC of the plugin runtime. The component list of the manifest gives the reason for each.
\<close>

end
